(* ===== verification/Prelude.thy ===== *)
theory Prelude
  imports Main "HOL-Library.Word" "HOL-Library.Monad_Syntax"
begin

text \<open>
  Shared vocabulary of the development: the C integer types of
  \<^verbatim>\<open>openair2/COMMON/platform_types.h\<close> as HOL types, the reading of \<^verbatim>\<open>assert\<close> as a
  computation that may abort, and the arithmetic on residues modulo a sequence-number space
  that every RLC component uses.

  Conventions. Unsigned counters that may wrap in practice (frame numbers, statistics, poll
  counters) are \<open>32 word\<close>. Signed C integers and the small bit-fields are \<open>int\<close>; a
  conversion to a narrower unsigned type is written out as a residue. A computation that C
  ends with \<^verbatim>\<open>assert\<close>/\<^verbatim>\<open>AssertFatal\<close>, or that reads memory it does not own, is
  \<open>None\<close>.
\<close>

unbundle bit_operations_syntax

named_theorems sn_arith
named_theorems entity_frame

type_synonym byte = "8 word"
type_synonym u16 = "16 word"
type_synonym u32 = "32 word"
type_synonym frame = "32 word"

subsection \<open>Aborting computations\<close>

definition c_assert :: "bool \<Rightarrow> unit option" where
  "c_assert b = (if b then Some () else None)"

lemma c_assert_bind [simp]:
  "(c_assert b \<bind> f) = (if b then f () else None)"
  by (simp add: c_assert_def)

lemma c_assert_Some [simp]: "c_assert b = Some u \<longleftrightarrow> b"
  by (simp add: c_assert_def)

lemma bind_Some_iff [simp]:
  "(m \<bind> f) = Some y \<longleftrightarrow> (\<exists>x. m = Some x \<and> f x = Some y)"
  by (cases m) auto

subsection \<open>Conversions between C integer types\<close>

definition to_uint8 :: "int \<Rightarrow> int" where
  "to_uint8 x = x mod 256"

definition to_uint16 :: "int \<Rightarrow> int" where
  "to_uint16 x = x mod 65536"

definition to_int8 :: "int \<Rightarrow> int" where
  "to_int8 x = (x + 128) mod 256 - 128"

definition to_int16 :: "int \<Rightarrow> int" where
  "to_int16 x = (x + 32768) mod 65536 - 32768"

lemma to_uint16_id: "0 \<le> x \<Longrightarrow> x < 65536 \<Longrightarrow> to_uint16 x = x"
  by (simp add: to_uint16_def)

lemma to_int16_id: "- 32768 \<le> x \<Longrightarrow> x < 32768 \<Longrightarrow> to_int16 x = x"
  by (simp add: to_int16_def)

lemma to_int8_id: "- 128 \<le> x \<Longrightarrow> x < 128 \<Longrightarrow> to_int8 x = x"
  by (simp add: to_int8_def)

lemma to_uint8_id: "0 \<le> x \<Longrightarrow> x < 256 \<Longrightarrow> to_uint8 x = x"
  by (simp add: to_uint8_def)

lemma to_int16_range: "- 32768 \<le> to_int16 x \<and> to_int16 x < 32768"
proof -
  have "0 \<le> (x + 32768) mod 65536" "(x + 32768) mod 65536 < 65536" by simp_all
  then show ?thesis unfolding to_int16_def by linarith
qed

lemma to_uint16_mod_1024 [simp]: "to_uint16 x mod 1024 = x mod 1024"
  by (simp add: to_uint16_def mod_mod_cancel)

subsection \<open>Residues: distances on a circle of sequence numbers\<close>

lemma and_1023_mod: "(x::int) AND 1023 = x mod 1024"
proof -
  have "x AND mask 10 = x mod 2 ^ 10"
    by (simp only: take_bit_eq_mask [symmetric] take_bit_eq_mod)
  then show ?thesis by (simp add: mask_eq_exp_minus_1)
qed

lemma mod_diff_less_cases:
  fixes a b m :: int
  assumes "0 \<le> a" "a < m" "0 \<le> b" "b < m"
  shows "(a - b) mod m = (if b \<le> a then a - b else a - b + m)"
proof (cases "b \<le> a")
  case True
  with assms show ?thesis by (simp add: mod_pos_pos_trivial)
next
  case False
  have "(a - b) mod m = (a - b + m) mod m" by simp
  also have "\<dots> = a - b + m"
    using assms False by (intro mod_pos_pos_trivial) auto
  finally show ?thesis using False by simp
qed

lemma mod_add_less_cases:
  fixes a k m :: int
  assumes "0 \<le> a" "a < m" "0 \<le> k" "k \<le> m"
  shows "(a + k) mod m = (if a + k < m then a + k else a + k - m)"
proof (cases "a + k < m")
  case True
  with assms show ?thesis by (simp add: mod_pos_pos_trivial)
next
  case False
  have "(a + k) mod m = (a + k - m) mod m" by simp
  also have "\<dots> = a + k - m"
    using assms False by (intro mod_pos_pos_trivial) auto
  finally show ?thesis using False by simp
qed

subsection \<open>Fields packed side by side\<close>

lemma or_push_bit_add:
  fixes a b :: int
  assumes "0 \<le> a" "a < 2 ^ n"
  shows "a OR push_bit n b = a + b * 2 ^ n"
proof -
  have a: "take_bit n a = a" using assms by (simp add: take_bit_int_eq_self)
  have "a AND push_bit n b = 0"
  proof (rule bit_eqI)
    fix k
    have "bit a k \<longrightarrow> k < n" using a by (metis bit_take_bit_iff)
    then show "bit (a AND push_bit n b) k = bit (0::int) k" by (auto simp: bit_simps)
  qed
  then show ?thesis
    by (simp add: disjunctive_add_eq_or [symmetric] push_bit_eq_mult)
qed

end
