(* ===== verification/Rlc_Am_Types.thy ===== *)
theory Rlc_Am_Types
  imports Prelude
begin

text \<open>
  The data of an AM RLC entity: the constants of \<^verbatim>\<open>rlc_am_constants.h\<close>, the structures of
  \<^verbatim>\<open>rlc_am_structs.h\<close> and the entity of \<^verbatim>\<open>rlc_am_entity.h\<close>
  (\<^verbatim>\<open>openair2/LAYER2/RLC/AM_v9.3.0\<close>).

  C arrays indexed by a sequence number, a buffer index or a hole index are functions on
  \<open>int\<close>; the operations that index them check the bounds the C code relies on. The two
  linked lists the entity owns are HOL lists in list order (the pointer structure of
  \<^verbatim>\<open>list2_t\<close> is the subject of its own theory). A memory block holding a PDU is the byte
  sequence it carries with the size field of its \<^verbatim>\<open>struct mac_tb_req\<close>. The twenty-seven
  statistics counters are grouped in a record of their own. What the entity hands to the upper
  layers (\<^verbatim>\<open>rlc_data_ind\<close>, \<^verbatim>\<open>rlc_data_conf\<close>) is recorded in the two log fields at the end
  of the entity, oldest first.
\<close>

subsection \<open>Constants\<close>

abbreviation (input) RLC_AM_SN_MODULO :: int where
  "RLC_AM_SN_MODULO \<equiv> 1024"

abbreviation (input) RLC_AM_SN_MASK :: int where
  "RLC_AM_SN_MASK \<equiv> 1023"

abbreviation (input) RLC_AM_WINDOW_SIZE :: int where
  "RLC_AM_WINDOW_SIZE \<equiv> 512"

abbreviation (input) RLC_AM_SDU_CONTROL_BUFFER_SIZE :: int where
  "RLC_AM_SDU_CONTROL_BUFFER_SIZE \<equiv> 128"

abbreviation (input) RLC_AM_PDU_RETRANSMISSION_BUFFER_SIZE :: int where
  "RLC_AM_PDU_RETRANSMISSION_BUFFER_SIZE \<equiv> 1024"

abbreviation (input) RLC_AM_HEADER_MIN_SIZE :: int where
  "RLC_AM_HEADER_MIN_SIZE \<equiv> 2"

abbreviation (input) RLC_AM_MIN_SEGMENT_SIZE_REQUEST :: int where
  "RLC_AM_MIN_SEGMENT_SIZE_REQUEST \<equiv> 8"

abbreviation (input) RLC_AM_MAX_SDU_IN_PDU :: int where
  "RLC_AM_MAX_SDU_IN_PDU \<equiv> 32"

abbreviation (input) RLC_AM_MAX_SDU_FRAGMENTS :: int where
  "RLC_AM_MAX_SDU_FRAGMENTS \<equiv> 32"

abbreviation (input) RLC_AM_MAX_NACK_IN_STATUS_PDU :: int where
  "RLC_AM_MAX_NACK_IN_STATUS_PDU \<equiv> 1023"

abbreviation (input) RLC_AM_MAX_HOLES_REPORT_PER_PDU :: int where
  "RLC_AM_MAX_HOLES_REPORT_PER_PDU \<equiv> 32"

abbreviation (input) RLC_SDU_MAX_SIZE :: int where
  "RLC_SDU_MAX_SIZE \<equiv> 9000"

text \<open>\<^verbatim>\<open>x & RLC_AM_SN_MASK\<close>, the successor and predecessor of a sequence number.\<close>

definition sn_mask :: "int \<Rightarrow> int" where
  "sn_mask x = x AND RLC_AM_SN_MASK"

lemma sn_mask_mod [sn_arith]: "sn_mask x = x mod 1024"
  by (simp add: sn_mask_def and_1023_mod)

lemma sn_mask_range [simp]: "0 \<le> sn_mask x" "sn_mask x < 1024"
  by (simp_all add: sn_mask_mod)

subsection \<open>Structures\<close>

datatype rlc_protocol_state = RLC_NULL_STATE | RLC_DATA_TRANSFER_READY_STATE
  | RLC_RESET_PENDING_STATE | RLC_RESET_AND_SUSPEND_STATE | RLC_LOCAL_SUSPEND_STATE

datatype rlc_tx_status = RLC_SDU_CONFIRM_NO | RLC_SDU_CONFIRM_YES

record mac_tb_req =
  tb_size :: int
  tb_data :: "byte list"

text \<open>A received transport block: its bytes and the size MAC gives.\<close>

record mac_tb_ind =
  ti_data :: "byte list"
  ti_size :: int

text \<open>What MAC gets back from a data request and from a status indication.\<close>

record mac_data_req =
  md_data :: "mac_tb_req list"
  md_buffer_occupancy_in_bytes :: u32
  md_rlc_protocol_state :: rlc_protocol_state

record mac_status_resp =
  sr_buffer_occupancy_in_bytes :: u32
  sr_buffer_occupancy_in_pdus :: u16
  sr_head_sdu_creation_time :: u32
  sr_head_sdu_remaining_size_to_send :: u32
  sr_head_sdu_is_segmented :: bool
  sr_rlc_protocol_state :: rlc_protocol_state

record rlc_am_timer =
  frame_time_out :: frame
  frame_start :: frame
  time_out :: frame
  running :: bool
  timed_out :: bool

record rlc_am_tx_sdu_management =
  sdu_mem_block :: "byte list option"
  sdu_creation_time :: frame
  sdu_mui :: u32
  sdu_remaining_size :: int
  sdu_segmented_size :: int
  sdu_size :: int
  sdu_pdus_index :: "int \<Rightarrow> int"
  sdu_nb_pdus :: int
  sdu_nb_pdus_ack :: int
  sdu_discarded :: bool
  sdu_segmented :: bool
  sdu_segmentation_in_progress :: bool
  sdu_no_new_sdu_segmented_in_last_pdu :: bool
  sdu_transmitted_successfully :: bool

record rlc_am_tx_data_pdu_management =
  txp_mem_block :: "mac_tb_req option"
  txp_payload :: nat
  txp_sdus_index :: "int \<Rightarrow> int"
  txp_last_nack_time :: frame
  txp_hole_so_start :: "int \<Rightarrow> int"
  txp_hole_so_stop :: "int \<Rightarrow> int"
  txp_num_holes :: int
  txp_header_and_payload_size :: int
  txp_payload_size :: int
  txp_nack_so_start :: int
  txp_nack_so_stop :: int
  txp_nb_sdus :: int
  txp_retx_count :: int
  txp_ack :: bool
  txp_retransmit :: bool

record nack_sn_t =
  nack_sn :: int
  nack_e1 :: int
  nack_e2 :: int
  so_start :: int
  so_end :: int

record rlc_am_control_pdu_info =
  ci_d_c :: int
  ci_cpt :: int
  ci_ack_sn :: int
  ci_e1 :: int
  ci_nack_list :: "nack_sn_t list"

record rlc_am_pdu_info =
  pi_d_c :: int
  pi_rf :: int
  pi_p :: int
  pi_fi :: int
  pi_e :: int
  pi_sn :: int
  pi_lsf :: int
  pi_so :: int
  pi_li_list :: "int list"
  pi_hidden_size :: int
  pi_payload :: "byte list"
  pi_payload_size :: int
  pi_header_size :: int

record rlc_am_rx_pdu_management =
  pdu_info :: rlc_am_pdu_info
  all_segments_received :: bool

record rlc_am_stats =
  stat_tx_pdcp_sdu :: u32
  stat_tx_pdcp_bytes :: u32
  stat_tx_pdcp_sdu_discarded :: u32
  stat_tx_pdcp_bytes_discarded :: u32
  stat_tx_data_pdu :: u32
  stat_tx_data_bytes :: u32
  stat_tx_retransmit_pdu_by_status :: u32
  stat_tx_retransmit_bytes_by_status :: u32
  stat_tx_retransmit_pdu :: u32
  stat_tx_retransmit_bytes :: u32
  stat_tx_control_pdu :: u32
  stat_tx_control_bytes :: u32
  stat_rx_pdcp_sdu :: u32
  stat_rx_pdcp_bytes :: u32
  stat_rx_data_pdus_duplicate :: u32
  stat_rx_data_bytes_duplicate :: u32
  stat_rx_data_pdu :: u32
  stat_rx_data_bytes :: u32
  stat_rx_data_pdu_dropped :: u32
  stat_rx_data_bytes_dropped :: u32
  stat_rx_data_pdu_out_of_window :: u32
  stat_rx_data_bytes_out_of_window :: u32
  stat_rx_control_pdu :: u32
  stat_rx_control_bytes :: u32
  stat_timer_reordering_timed_out :: u32
  stat_timer_poll_retransmit_timed_out :: u32
  stat_timer_status_prohibit_timed_out :: u32

record rlc_am_entity =
  enb_module_id :: int
  ue_module_id :: int
  rb_id :: int
  is_data_plane :: bool
  is_enb :: bool
  sdu_buffer_occupancy :: int
  retransmission_buffer_occupancy :: int
  status_buffer_occupancy :: int
  input_sdus :: "int \<Rightarrow> rlc_am_tx_sdu_management"
  nb_sdu :: int
  nb_sdu_no_segmented :: int
  next_sdu_index :: int
  current_sdu_index :: int
  pdu_retrans_buffer :: "int \<Rightarrow> rlc_am_tx_data_pdu_management"
  retrans_num_pdus :: int
  retrans_num_bytes :: int
  retrans_num_bytes_to_retransmit :: int
  num_nack_so :: u32
  num_nack_sn :: u32
  receiver_buffer :: "rlc_am_rx_pdu_management list"
  output_sdu_in_construction :: "byte list option"
  output_sdu_size_to_write :: int
  protocol_state :: rlc_protocol_state
  vt_a :: int
  vt_ms :: int
  vt_s :: int
  poll_sn :: int
  vr_r :: int
  vr_mr :: int
  vr_x :: int
  vr_ms :: int
  vr_h :: int
  t_poll_retransmit :: rlc_am_timer
  t_reordering :: rlc_am_timer
  t_status_prohibit :: rlc_am_timer
  c_pdu_without_poll :: u32
  c_byte_without_poll :: u32
  max_retx_threshold :: int
  poll_pdu :: u16
  poll_byte :: u16
  stats :: rlc_am_stats
  nb_bytes_requested_by_mac :: int
  pdus_to_mac_layer :: "mac_tb_req list"
  control_pdu_list :: "mac_tb_req list"
  first_retrans_pdu_sn :: int
  segmentation_pdu_list :: "mac_tb_req list"
  status_requested :: bool
  last_frame_status_indication :: frame
  initialized :: bool
  configured :: bool
  log_data_ind :: "byte list list"
  log_data_conf :: "(u32 \<times> rlc_tx_status) list"

subsection \<open>Zeroed structures\<close>

text \<open>What \<^verbatim>\<open>memset(p, 0, sizeof *p)\<close> and \<^verbatim>\<open>calloc\<close> leave behind.\<close>

definition zero_timer :: rlc_am_timer where
  "zero_timer = \<lparr>frame_time_out = 0, frame_start = 0, time_out = 0,
     running = False, timed_out = False\<rparr>"

definition zero_tx_sdu :: rlc_am_tx_sdu_management where
  "zero_tx_sdu = \<lparr>sdu_mem_block = None, sdu_creation_time = 0, sdu_mui = 0,
     sdu_remaining_size = 0, sdu_segmented_size = 0, sdu_size = 0,
     sdu_pdus_index = (\<lambda>_. 0), sdu_nb_pdus = 0, sdu_nb_pdus_ack = 0,
     sdu_discarded = False, sdu_segmented = False, sdu_segmentation_in_progress = False,
     sdu_no_new_sdu_segmented_in_last_pdu = False, sdu_transmitted_successfully = False\<rparr>"

definition zero_tx_pdu :: rlc_am_tx_data_pdu_management where
  "zero_tx_pdu = \<lparr>txp_mem_block = None, txp_payload = 0, txp_sdus_index = (\<lambda>_. 0),
     txp_last_nack_time = 0, txp_hole_so_start = (\<lambda>_. 0), txp_hole_so_stop = (\<lambda>_. 0),
     txp_num_holes = 0, txp_header_and_payload_size = 0, txp_payload_size = 0,
     txp_nack_so_start = 0, txp_nack_so_stop = 0, txp_nb_sdus = 0, txp_retx_count = 0,
     txp_ack = False, txp_retransmit = False\<rparr>"

definition zero_stats :: rlc_am_stats where
  "zero_stats = \<lparr>stat_tx_pdcp_sdu = 0, stat_tx_pdcp_bytes = 0,
     stat_tx_pdcp_sdu_discarded = 0, stat_tx_pdcp_bytes_discarded = 0,
     stat_tx_data_pdu = 0, stat_tx_data_bytes = 0,
     stat_tx_retransmit_pdu_by_status = 0, stat_tx_retransmit_bytes_by_status = 0,
     stat_tx_retransmit_pdu = 0, stat_tx_retransmit_bytes = 0,
     stat_tx_control_pdu = 0, stat_tx_control_bytes = 0,
     stat_rx_pdcp_sdu = 0, stat_rx_pdcp_bytes = 0,
     stat_rx_data_pdus_duplicate = 0, stat_rx_data_bytes_duplicate = 0,
     stat_rx_data_pdu = 0, stat_rx_data_bytes = 0,
     stat_rx_data_pdu_dropped = 0, stat_rx_data_bytes_dropped = 0,
     stat_rx_data_pdu_out_of_window = 0, stat_rx_data_bytes_out_of_window = 0,
     stat_rx_control_pdu = 0, stat_rx_control_bytes = 0,
     stat_timer_reordering_timed_out = 0, stat_timer_poll_retransmit_timed_out = 0,
     stat_timer_status_prohibit_timed_out = 0\<rparr>"

definition zero_entity :: rlc_am_entity where
  "zero_entity = \<lparr>enb_module_id = 0, ue_module_id = 0, rb_id = 0,
     is_data_plane = False, is_enb = False, sdu_buffer_occupancy = 0,
     retransmission_buffer_occupancy = 0, status_buffer_occupancy = 0,
     input_sdus = (\<lambda>_. zero_tx_sdu), nb_sdu = 0, nb_sdu_no_segmented = 0,
     next_sdu_index = 0, current_sdu_index = 0,
     pdu_retrans_buffer = (\<lambda>_. zero_tx_pdu), retrans_num_pdus = 0,
     retrans_num_bytes = 0, retrans_num_bytes_to_retransmit = 0,
     num_nack_so = 0, num_nack_sn = 0, receiver_buffer = [],
     output_sdu_in_construction = None, output_sdu_size_to_write = 0,
     protocol_state = RLC_NULL_STATE, vt_a = 0, vt_ms = 0, vt_s = 0, poll_sn = 0,
     vr_r = 0, vr_mr = 0, vr_x = 0, vr_ms = 0, vr_h = 0,
     t_poll_retransmit = zero_timer, t_reordering = zero_timer,
     t_status_prohibit = zero_timer, c_pdu_without_poll = 0, c_byte_without_poll = 0,
     max_retx_threshold = 0, poll_pdu = 0, poll_byte = 0, stats = zero_stats,
     nb_bytes_requested_by_mac = 0, pdus_to_mac_layer = [], control_pdu_list = [],
     first_retrans_pdu_sn = 0, segmentation_pdu_list = [], status_requested = False,
     last_frame_status_indication = 0, initialized = False, configured = False,
     log_data_ind = [], log_data_conf = []\<rparr>"

text \<open>Writing one slot of the two arrays of the transmitter.\<close>

abbreviation upd_pdu ::
  "int \<Rightarrow> (rlc_am_tx_data_pdu_management \<Rightarrow> rlc_am_tx_data_pdu_management)
     \<Rightarrow> rlc_am_entity \<Rightarrow> rlc_am_entity" where
  "upd_pdu sn f e \<equiv>
     e\<lparr>pdu_retrans_buffer := (pdu_retrans_buffer e)(sn := f (pdu_retrans_buffer e sn))\<rparr>"

abbreviation upd_sdu ::
  "int \<Rightarrow> (rlc_am_tx_sdu_management \<Rightarrow> rlc_am_tx_sdu_management)
     \<Rightarrow> rlc_am_entity \<Rightarrow> rlc_am_entity" where
  "upd_sdu i f e \<equiv> e\<lparr>input_sdus := (input_sdus e)(i := f (input_sdus e i))\<rparr>"

end
