(* ===== verification/Rlc_Am_Windows.thy ===== *)
theory Rlc_Am_Windows
  imports Rlc_Am_Types
begin

text \<open>
  The sliding windows of an AM entity (\<^verbatim>\<open>rlc_am_windows.c\<close>): membership of a sequence
  number in the transmit or receive window, and the comparisons of two sequence numbers
  relative to the lower edge of a window. The C code subtracts in \<^verbatim>\<open>int\<close>, converts to
  \<^verbatim>\<open>rlc_usn_t\<close> (16 bits) and reduces modulo 1024.

  Two locales state what a client may rely on: \<open>sn_window\<close> (a window is an arc of the circle
  of sequence numbers) and \<open>sn_compare\<close> (the comparison is a strict linear order that starts at
  the lower edge). They are interpreted on the seven C functions.
\<close>

subsection \<open>The C functions\<close>

definition rlc_am_in_tx_window :: "rlc_am_entity \<Rightarrow> int \<Rightarrow> bool" where
  "rlc_am_in_tx_window e snP =
     (if snP \<ge> RLC_AM_SN_MODULO then False
      else let shifted_sn = to_uint16 (snP - vt_a e) mod RLC_AM_SN_MODULO;
               upper_bound = to_uint16 (vt_ms e - vt_a e) mod RLC_AM_SN_MODULO
           in shifted_sn \<ge> 0 \<and> shifted_sn < upper_bound)"

definition rlc_am_in_rx_window :: "rlc_am_entity \<Rightarrow> int \<Rightarrow> bool" where
  "rlc_am_in_rx_window e snP =
     (if snP \<ge> RLC_AM_SN_MODULO then False
      else let shifted_sn = to_uint16 (snP - vr_r e) mod RLC_AM_SN_MODULO;
               upper_bound = to_uint16 (vr_mr e - vr_r e) mod RLC_AM_SN_MODULO
           in shifted_sn \<ge> 0 \<and> shifted_sn < upper_bound)"

definition rlc_am_sn_gte_vr_h :: "rlc_am_entity \<Rightarrow> int \<Rightarrow> bool" where
  "rlc_am_sn_gte_vr_h e snP =
     (if snP \<ge> RLC_AM_SN_MODULO then False
      else let shifted_sn = to_uint16 (snP - vr_r e) mod RLC_AM_SN_MODULO;
               upper_bound = to_uint16 (vr_h e - vr_r e) mod RLC_AM_SN_MODULO
           in shifted_sn \<ge> upper_bound)"

definition rlc_am_sn_gte_vr_x :: "rlc_am_entity \<Rightarrow> int \<Rightarrow> bool" where
  "rlc_am_sn_gte_vr_x e snP =
     (if snP \<ge> RLC_AM_SN_MODULO then False
      else let shifted_sn = to_uint16 (snP - vr_r e) mod RLC_AM_SN_MODULO;
               upper_bound = to_uint16 (vr_x e - vr_r e) mod RLC_AM_SN_MODULO
           in shifted_sn \<ge> upper_bound)"

definition rlc_am_sn_gt_vr_ms :: "rlc_am_entity \<Rightarrow> int \<Rightarrow> bool" where
  "rlc_am_sn_gt_vr_ms e snP =
     (if snP \<ge> RLC_AM_SN_MODULO then False
      else let shifted_sn = to_uint16 (snP - vr_r e) mod RLC_AM_SN_MODULO;
               upper_bound = to_uint16 (vr_ms e - vr_r e) mod RLC_AM_SN_MODULO
           in shifted_sn > upper_bound)"

definition rlc_am_tx_sn1_gt_sn2 :: "rlc_am_entity \<Rightarrow> int \<Rightarrow> int \<Rightarrow> bool" where
  "rlc_am_tx_sn1_gt_sn2 e sn1P sn2P =
     (if sn1P \<ge> RLC_AM_SN_MODULO \<or> sn2P \<ge> RLC_AM_SN_MODULO then False
      else let shifted_sn = to_uint16 (sn1P - vt_a e) mod RLC_AM_SN_MODULO;
               upper_bound = to_uint16 (sn2P - vt_a e) mod RLC_AM_SN_MODULO
           in shifted_sn > upper_bound)"

definition rlc_am_rx_sn1_gt_sn2 :: "rlc_am_entity \<Rightarrow> int \<Rightarrow> int \<Rightarrow> bool" where
  "rlc_am_rx_sn1_gt_sn2 e sn1P sn2P =
     (if sn1P \<ge> RLC_AM_SN_MODULO \<or> sn2P \<ge> RLC_AM_SN_MODULO then False
      else let shifted_sn = to_uint16 (sn1P - vr_r e) mod RLC_AM_SN_MODULO;
               upper_bound = to_uint16 (sn2P - vr_r e) mod RLC_AM_SN_MODULO
           in shifted_sn > upper_bound)"

lemmas window_defs = rlc_am_in_tx_window_def rlc_am_in_rx_window_def
  rlc_am_sn_gte_vr_h_def rlc_am_sn_gte_vr_x_def rlc_am_sn_gt_vr_ms_def
  rlc_am_tx_sn1_gt_sn2_def rlc_am_rx_sn1_gt_sn2_def Let_def

subsection \<open>What a window promises\<close>

definition valid_sn :: "int \<Rightarrow> bool" where
  "valid_sn sn \<longleftrightarrow> 0 \<le> sn \<and> sn < RLC_AM_SN_MODULO"

lemma valid_sn_mask [simp, intro]: "valid_sn (sn_mask x)"
  by (simp add: valid_sn_def)

lemma valid_sn_mod_inj:
  assumes "valid_sn a" "valid_sn b" "(a - c) mod 1024 = (b - c) mod 1024"
  shows "a = b"
proof -
  have "(a - c - (b - c)) mod 1024 = 0"
    using assms(3) by (metis mod_eq_dvd_iff mod_0_imp_dvd dvd_imp_mod_0)
  then have "(a - b) mod 1024 = 0" by simp
  with assms(1,2) show ?thesis
    by (auto simp: valid_sn_def mod_diff_less_cases split: if_splits)
qed

locale sn_window =
  fixes inw :: "int \<Rightarrow> bool" and base :: int and size :: int
  assumes inw_iff: "valid_sn sn \<Longrightarrow> inw sn \<longleftrightarrow> (sn - base) mod 1024 < size"
    and not_above: "1024 \<le> sn \<Longrightarrow> \<not> inw sn"
    and size_range: "0 \<le> size" "size < 1024"
begin

lemma inw_offset: "0 \<le> k \<Longrightarrow> k < 1024 \<Longrightarrow> inw (sn_mask (base + k)) \<longleftrightarrow> k < size"
  using inw_iff [OF valid_sn_mask, of "base + k"] by (simp add: sn_mask_mod mod_diff_left_eq)

lemma arc: "{sn. valid_sn sn \<and> inw sn} = (\<lambda>k. sn_mask (base + k)) ` {0..<size}"
proof (intro set_eqI iffI)
  fix sn assume "sn \<in> {sn. valid_sn sn \<and> inw sn}"
  then have v: "valid_sn sn" and l: "(sn - base) mod 1024 < size"
    using inw_iff by auto
  have "sn_mask (base + (sn - base) mod 1024) = sn"
    using v by (simp add: sn_mask_mod mod_add_right_eq valid_sn_def)
  with l show "sn \<in> (\<lambda>k. sn_mask (base + k)) ` {0..<size}"
    by (intro image_eqI [where x = "(sn - base) mod 1024"]) auto
next
  fix sn assume "sn \<in> (\<lambda>k. sn_mask (base + k)) ` {0..<size}"
  then obtain k where "sn = sn_mask (base + k)" "0 \<le> k" "k < size" by auto
  with size_range inw_offset [of k] show "sn \<in> {sn. valid_sn sn \<and> inw sn}" by auto
qed

lemma card_window: "card {sn. valid_sn sn \<and> inw sn} = nat size"
proof -
  have "inj_on (\<lambda>k. sn_mask (base + k)) {0..<size}"
  proof (rule inj_onI)
    fix x y assume *: "x \<in> {0..<size}" "y \<in> {0..<size}"
      "sn_mask (base + x) = sn_mask (base + y)"
    then have "(base + x - base) mod 1024 = (base + y - base) mod 1024"
      by (metis sn_mask_mod mod_diff_left_eq)
    with * size_range show "x = y" by simp
  qed
  then show ?thesis by (simp add: arc card_image)
qed

lemma upper_edge_outside: "\<not> inw (sn_mask (base + size))"
  using size_range inw_offset [of size] by auto

end

interpretation tx_window: sn_window "rlc_am_in_tx_window e" "vt_a e"
    "(vt_ms e - vt_a e) mod 1024" for e
  by unfold_locales (auto simp: window_defs valid_sn_def)

interpretation rx_window: sn_window "rlc_am_in_rx_window e" "vr_r e"
    "(vr_mr e - vr_r e) mod 1024" for e
  by unfold_locales (auto simp: window_defs valid_sn_def)

interpretation below_vr_h: sn_window "\<lambda>sn. sn < 1024 \<and> \<not> rlc_am_sn_gte_vr_h e sn" "vr_r e"
    "(vr_h e - vr_r e) mod 1024" for e
  by unfold_locales (auto simp: window_defs valid_sn_def)

interpretation below_vr_x: sn_window "\<lambda>sn. sn < 1024 \<and> \<not> rlc_am_sn_gte_vr_x e sn" "vr_r e"
    "(vr_x e - vr_r e) mod 1024" for e
  by unfold_locales (auto simp: window_defs valid_sn_def)

subsection \<open>What a comparison promises\<close>

locale sn_compare =
  fixes gt :: "int \<Rightarrow> int \<Rightarrow> bool" and base :: int
  assumes gt_iff: "valid_sn a \<Longrightarrow> valid_sn b \<Longrightarrow>
    gt a b \<longleftrightarrow> (b - base) mod 1024 < (a - base) mod 1024"
begin

lemma irrefl: "valid_sn a \<Longrightarrow> \<not> gt a a"
  by (simp add: gt_iff)

lemma trans: "valid_sn a \<Longrightarrow> valid_sn b \<Longrightarrow> valid_sn c \<Longrightarrow> gt a b \<Longrightarrow> gt b c \<Longrightarrow> gt a c"
  by (simp add: gt_iff)

lemma total: "valid_sn a \<Longrightarrow> valid_sn b \<Longrightarrow> gt a b \<or> a = b \<or> gt b a"
  using valid_sn_mod_inj [of a b base] by (auto simp: gt_iff)

lemma base_least: "valid_sn base \<Longrightarrow> valid_sn a \<Longrightarrow> a \<noteq> base \<Longrightarrow> gt a base"
  using total [of a base] by (auto simp: gt_iff)

lemma strict_linear:
  assumes "valid_sn a" "valid_sn b" "valid_sn c"
  shows "\<not> gt a a \<and> (gt a b \<and> gt b c \<longrightarrow> gt a c) \<and> (a \<noteq> b \<longrightarrow> (gt a b \<longleftrightarrow> \<not> gt b a)) \<and>
    (valid_sn base \<and> a \<noteq> base \<longrightarrow> gt a base)"
  using assms irrefl [of a] trans [of a b c] trans [of a b a] total [of a b] base_least [of a] by blast

lemma gt_offset:
  "0 \<le> i \<Longrightarrow> i < 1024 \<Longrightarrow> 0 \<le> j \<Longrightarrow> j < 1024 \<Longrightarrow>
     gt (sn_mask (base + i)) (sn_mask (base + j)) \<longleftrightarrow> j < i"
  using gt_iff [OF valid_sn_mask valid_sn_mask, of "base + i" "base + j"]
  by (simp add: sn_mask_mod mod_diff_left_eq)

end

interpretation tx_order: sn_compare "rlc_am_tx_sn1_gt_sn2 e" "vt_a e" for e
  by unfold_locales (simp add: window_defs valid_sn_def)

interpretation rx_order: sn_compare "rlc_am_rx_sn1_gt_sn2 e" "vr_r e" for e
  by unfold_locales (simp add: window_defs valid_sn_def)

lemma sn_gt_vr_ms_is_rx_order:
  "valid_sn sn \<Longrightarrow> valid_sn (vr_ms e) \<Longrightarrow>
     rlc_am_sn_gt_vr_ms e sn = rlc_am_rx_sn1_gt_sn2 e sn (vr_ms e)"
  by (simp add: window_defs valid_sn_def)

subsection \<open>The window of a well-formed entity\<close>

text \<open>
  The entity keeps \<^verbatim>\<open>vt_ms\<close> and \<^verbatim>\<open>vr_mr\<close> half the sequence-number space above the lower
  edges, as \<^verbatim>\<open>rlc_am_init\<close> and every update of \<^verbatim>\<open>vt_a\<close> and \<^verbatim>\<open>vr_r\<close> set them.
\<close>

definition rlc_am_windows_ok :: "rlc_am_entity \<Rightarrow> bool" where
  "rlc_am_windows_ok e \<longleftrightarrow> valid_sn (vt_a e) \<and> valid_sn (vr_r e) \<and>
     vt_ms e = sn_mask (vt_a e + RLC_AM_WINDOW_SIZE) \<and>
     vr_mr e = sn_mask (vr_r e + RLC_AM_WINDOW_SIZE)"

lemma windows_ok_sizes:
  assumes "rlc_am_windows_ok e"
  shows "(vt_ms e - vt_a e) mod 1024 = 512" "(vr_mr e - vr_r e) mod 1024 = 512"
  using assms by (simp_all add: rlc_am_windows_ok_def sn_mask_mod mod_diff_left_eq)

subsection \<open>The windows as sets of sequence numbers\<close>

definition entity_mid_window :: rlc_am_entity where
  "entity_mid_window = zero_entity\<lparr>vt_a := 1000, vt_ms := 488, vr_r := 700, vr_mr := 188\<rparr>"

text \<open>
  (C35) In an entity whose upper window edges are half the sequence-number space above the lower
  ones, the transmit window is exactly the 512 sequence numbers from \<^verbatim>\<open>vt_a\<close> on, and the
  receive window exactly the 512 from \<^verbatim>\<open>vr_r\<close> on, both counted modulo 1024.
\<close>

theorem windows_are_half_space_arcs:
  assumes "rlc_am_windows_ok e"
  shows "{sn. valid_sn sn \<and> rlc_am_in_tx_window e sn} = (\<lambda>k. sn_mask (vt_a e + k)) ` {0..<512} \<and>
    {sn. valid_sn sn \<and> rlc_am_in_rx_window e sn} = (\<lambda>k. sn_mask (vr_r e + k)) ` {0..<512} \<and>
    card {sn. valid_sn sn \<and> rlc_am_in_tx_window e sn} = 512 \<and>
    card {sn. valid_sn sn \<and> rlc_am_in_rx_window e sn} = 512"
  using tx_window.arc [of e] rx_window.arc [of e] tx_window.card_window [of e]
    rx_window.card_window [of e] windows_ok_sizes [OF assms]
  by simp

theorem windows_are_half_space_arcs_witness:
  "rlc_am_windows_ok entity_mid_window \<and>
   card {sn. valid_sn sn \<and> rlc_am_in_rx_window entity_mid_window sn} = 512"
proof -
  have "rlc_am_windows_ok entity_mid_window"
    by (simp add: rlc_am_windows_ok_def entity_mid_window_def valid_sn_def sn_mask_mod zero_entity_def)
  then show ?thesis using windows_are_half_space_arcs [of entity_mid_window] by blast
qed

text \<open>
  On valid sequence numbers the two comparisons of \<^verbatim>\<open>rlc_am_windows.c\<close> are strict linear
  orders: \<^verbatim>\<open>rlc_am_tx_sn1_gt_sn2\<close> starting at \<^verbatim>\<open>vt_a\<close>, \<^verbatim>\<open>rlc_am_rx_sn1_gt_sn2\<close> starting
  at \<^verbatim>\<open>vr_r\<close>.
\<close>

theorem sn_comparisons_linear:
  assumes "valid_sn a" "valid_sn b" "valid_sn c"
  shows "\<not> rlc_am_rx_sn1_gt_sn2 e a a \<and>
    (rlc_am_rx_sn1_gt_sn2 e a b \<and> rlc_am_rx_sn1_gt_sn2 e b c \<longrightarrow> rlc_am_rx_sn1_gt_sn2 e a c) \<and>
    (a \<noteq> b \<longrightarrow> (rlc_am_rx_sn1_gt_sn2 e a b \<longleftrightarrow> \<not> rlc_am_rx_sn1_gt_sn2 e b a)) \<and>
    (valid_sn (vr_r e) \<and> a \<noteq> vr_r e \<longrightarrow> rlc_am_rx_sn1_gt_sn2 e a (vr_r e)) \<and>
    \<not> rlc_am_tx_sn1_gt_sn2 e a a \<and>
    (rlc_am_tx_sn1_gt_sn2 e a b \<and> rlc_am_tx_sn1_gt_sn2 e b c \<longrightarrow> rlc_am_tx_sn1_gt_sn2 e a c) \<and>
    (a \<noteq> b \<longrightarrow> (rlc_am_tx_sn1_gt_sn2 e a b \<longleftrightarrow> \<not> rlc_am_tx_sn1_gt_sn2 e b a)) \<and>
    (valid_sn (vt_a e) \<and> a \<noteq> vt_a e \<longrightarrow> rlc_am_tx_sn1_gt_sn2 e a (vt_a e))"
  using rx_order.strict_linear [OF assms, of e] tx_order.strict_linear [OF assms, of e] by blast

theorem sn_comparisons_linear_witness:
  "rlc_am_rx_sn1_gt_sn2 entity_mid_window 3 900 \<and> rlc_am_rx_sn1_gt_sn2 entity_mid_window 900 800 \<and>
   rlc_am_rx_sn1_gt_sn2 entity_mid_window 3 800"
proof -
  have "rlc_am_rx_sn1_gt_sn2 entity_mid_window 3 900"
    "rlc_am_rx_sn1_gt_sn2 entity_mid_window 900 800"
    by (simp_all add: window_defs entity_mid_window_def)
  then show ?thesis
    using sn_comparisons_linear [of 3 900 800 entity_mid_window] by (simp add: valid_sn_def)
qed

end
