(* ===== verification/Rlc_Am_Timers.thy ===== *)
theory Rlc_Am_Timers
  imports Rlc_Am_Windows
begin

text \<open>
  The three timers of an AM entity: \<^verbatim>\<open>t_poll_retransmit\<close>, \<^verbatim>\<open>t_reordering\<close> and
  \<^verbatim>\<open>t_status_prohibit\<close> (\<^verbatim>\<open>rlc_am_timer_*.c\<close>). A timer stores the frame it was started in
  and the frame it expires in, both 32-bit and wrapping; the expiry test compares them by
  cases on whether the interval wraps. The locale \<open>rlc_timer\<close> is the contract of a timer
  towards the entity: started at frame \<open>f\<close> with a non-zero duration it runs for exactly that
  many frames, modulo the frame counter. Two of the three timers implement it;
  \<^verbatim>\<open>rlc_am_check_timer_reordering\<close> returns before its test.
\<close>

subsection \<open>The expiry test\<close>

text \<open>The condition written out in all three check functions.\<close>

definition timer_expired :: "rlc_am_timer \<Rightarrow> frame \<Rightarrow> bool" where
  "timer_expired t frameP \<longleftrightarrow>
     (frame_start t < frame_time_out t \<and>
        (frameP \<ge> frame_time_out t \<or> frameP < frame_start t)) \<or>
     (frame_start t > frame_time_out t \<and>
        (frameP < frame_start t \<and> frameP \<ge> frame_time_out t))"

text \<open>
  For a timer whose deadline is its start plus its duration, the test by cases is the
  comparison of the elapsed frames with the duration, in wrapping arithmetic.
\<close>

lemma timer_expired_elapsed:
  assumes "frame_time_out t = frame_start t + time_out t"
  shows "timer_expired t f \<longleftrightarrow> time_out t \<noteq> 0 \<and> time_out t \<le> f - frame_start t"
proof -
  have "(s < s + d \<and> (f \<ge> s + d \<or> f < s)) \<or> (s > s + d \<and> (f < s \<and> f \<ge> s + d))
        \<longleftrightarrow> d \<noteq> 0 \<and> d \<le> f - s" for s d :: frame
    by uint_arith
  with assms show ?thesis by (simp add: timer_expired_def)
qed

subsection \<open>t-PollRetransmit\<close>

definition rlc_am_check_timer_poll_retransmit :: "rlc_am_entity \<Rightarrow> frame \<Rightarrow> rlc_am_entity" where
  "rlc_am_check_timer_poll_retransmit e frameP =
     (let t = t_poll_retransmit e in
      if running t \<and> timer_expired t frameP
      then e\<lparr>t_poll_retransmit := t\<lparr>running := False, timed_out := True,
                                    frame_time_out := frameP + time_out t\<rparr>,
             stats := (stats e)\<lparr>stat_timer_poll_retransmit_timed_out :=
                                  stat_timer_poll_retransmit_timed_out (stats e) + 1\<rparr>\<rparr>
      else e)"

definition rlc_am_is_timer_poll_retransmit_timed_out :: "rlc_am_entity \<Rightarrow> bool" where
  "rlc_am_is_timer_poll_retransmit_timed_out e = timed_out (t_poll_retransmit e)"

definition rlc_am_stop_and_reset_timer_poll_retransmit :: "rlc_am_entity \<Rightarrow> frame \<Rightarrow> rlc_am_entity" where
  "rlc_am_stop_and_reset_timer_poll_retransmit e frameP =
     e\<lparr>t_poll_retransmit := (t_poll_retransmit e)\<lparr>running := False, frame_time_out := 0,
        frame_start := 0, timed_out := False\<rparr>\<rparr>"

definition rlc_am_start_timer_poll_retransmit :: "rlc_am_entity \<Rightarrow> frame \<Rightarrow> rlc_am_entity" where
  "rlc_am_start_timer_poll_retransmit e frameP =
     e\<lparr>t_poll_retransmit := (t_poll_retransmit e)\<lparr>running := True,
        frame_time_out := frameP + time_out (t_poll_retransmit e),
        frame_start := frameP, timed_out := False\<rparr>\<rparr>"

definition rlc_am_init_timer_poll_retransmit :: "rlc_am_entity \<Rightarrow> u32 \<Rightarrow> rlc_am_entity" where
  "rlc_am_init_timer_poll_retransmit e time_outP =
     e\<lparr>t_poll_retransmit := \<lparr>frame_time_out = 0, frame_start = 0, time_out = time_outP,
        running = False, timed_out = False\<rparr>\<rparr>"

subsection \<open>t-Reordering\<close>

text \<open>
  \<^verbatim>\<open>rlc_am_check_timer_reordering\<close> begins with \<^verbatim>\<open>return ; // for debug\<close>: nothing after it
  is executed.
\<close>

definition rlc_am_check_timer_reordering :: "rlc_am_entity \<Rightarrow> frame \<Rightarrow> rlc_am_entity" where
  "rlc_am_check_timer_reordering e frameP = e"

definition rlc_am_stop_and_reset_timer_reordering :: "rlc_am_entity \<Rightarrow> frame \<Rightarrow> rlc_am_entity" where
  "rlc_am_stop_and_reset_timer_reordering e frameP =
     e\<lparr>t_reordering := (t_reordering e)\<lparr>running := False, frame_time_out := 0,
        frame_start := 0, timed_out := False\<rparr>\<rparr>"

definition rlc_am_start_timer_reordering :: "rlc_am_entity \<Rightarrow> frame \<Rightarrow> rlc_am_entity" where
  "rlc_am_start_timer_reordering e frameP =
     e\<lparr>t_reordering := (t_reordering e)\<lparr>running := True,
        frame_time_out := frameP + time_out (t_reordering e),
        frame_start := frameP, timed_out := False\<rparr>\<rparr>"

definition rlc_am_init_timer_reordering :: "rlc_am_entity \<Rightarrow> u32 \<Rightarrow> rlc_am_entity" where
  "rlc_am_init_timer_reordering e time_outP =
     e\<lparr>t_reordering := \<lparr>frame_time_out = 0, frame_start = 0, time_out = time_outP,
        running = False, timed_out = False\<rparr>\<rparr>"

subsection \<open>t-StatusProhibit\<close>

definition rlc_am_stop_and_reset_timer_status_prohibit :: "rlc_am_entity \<Rightarrow> frame \<Rightarrow> rlc_am_entity" where
  "rlc_am_stop_and_reset_timer_status_prohibit e frameP =
     (if time_out (t_status_prohibit e) > 0
      then e\<lparr>t_status_prohibit := (t_status_prohibit e)\<lparr>running := False, frame_time_out := 0,
               frame_start := 0, timed_out := False\<rparr>\<rparr>
      else e)"

definition rlc_am_check_timer_status_prohibit :: "rlc_am_entity \<Rightarrow> frame \<Rightarrow> rlc_am_entity" where
  "rlc_am_check_timer_status_prohibit e frameP =
     (let t = t_status_prohibit e in
      if time_out t > 0 \<and> running t \<and> timer_expired t frameP
      then rlc_am_stop_and_reset_timer_status_prohibit
             (e\<lparr>t_status_prohibit := t\<lparr>running := False, timed_out := True\<rparr>,
                stats := (stats e)\<lparr>stat_timer_status_prohibit_timed_out :=
                                     stat_timer_status_prohibit_timed_out (stats e) + 1\<rparr>\<rparr>)
             frameP
      else e)"

definition rlc_am_start_timer_status_prohibit :: "rlc_am_entity \<Rightarrow> frame \<Rightarrow> rlc_am_entity" where
  "rlc_am_start_timer_status_prohibit e frameP =
     (if time_out (t_status_prohibit e) > 0
      then e\<lparr>t_status_prohibit := (t_status_prohibit e)\<lparr>running := True,
               frame_time_out := time_out (t_status_prohibit e) + frameP,
               frame_start := frameP, timed_out := False\<rparr>\<rparr>
      else e)"

definition rlc_am_init_timer_status_prohibit :: "rlc_am_entity \<Rightarrow> u32 \<Rightarrow> rlc_am_entity" where
  "rlc_am_init_timer_status_prohibit e time_outP =
     e\<lparr>t_status_prohibit := \<lparr>frame_time_out = 0, frame_start = 0, time_out = time_outP,
        running = False, timed_out = False\<rparr>\<rparr>"

lemmas timer_defs =
  rlc_am_check_timer_poll_retransmit_def rlc_am_is_timer_poll_retransmit_timed_out_def
  rlc_am_stop_and_reset_timer_poll_retransmit_def rlc_am_start_timer_poll_retransmit_def
  rlc_am_init_timer_poll_retransmit_def
  rlc_am_check_timer_reordering_def rlc_am_stop_and_reset_timer_reordering_def
  rlc_am_start_timer_reordering_def rlc_am_init_timer_reordering_def
  rlc_am_check_timer_status_prohibit_def rlc_am_stop_and_reset_timer_status_prohibit_def
  rlc_am_start_timer_status_prohibit_def rlc_am_init_timer_status_prohibit_def

subsection \<open>The contract of a timer\<close>

locale rlc_timer =
  fixes timer :: "rlc_am_entity \<Rightarrow> rlc_am_timer"
    and start :: "rlc_am_entity \<Rightarrow> frame \<Rightarrow> rlc_am_entity"
    and stop :: "rlc_am_entity \<Rightarrow> frame \<Rightarrow> rlc_am_entity"
    and check :: "rlc_am_entity \<Rightarrow> frame \<Rightarrow> rlc_am_entity"
  assumes start_armed: "time_out (timer e) \<noteq> 0 \<Longrightarrow>
      running (timer (start e f)) \<and> frame_start (timer (start e f)) = f \<and>
      frame_time_out (timer (start e f)) = f + time_out (timer e) \<and>
      \<not> timed_out (timer (start e f))"
    and start_duration [simp]: "time_out (timer (start e f)) = time_out (timer e)"
    and stop_stops: "time_out (timer e) \<noteq> 0 \<Longrightarrow> \<not> running (timer (stop e f))"
    and check_idle: "\<not> (running (timer e) \<and> timer_expired (timer e) f) \<Longrightarrow> check e f = e"
    and check_fires: "time_out (timer e) \<noteq> 0 \<Longrightarrow> running (timer e) \<Longrightarrow>
      timer_expired (timer e) f \<Longrightarrow> \<not> running (timer (check e f))"
begin

text \<open>A timer started at \<open>f\<close> is found expired at \<open>f'\<close> exactly when its duration has elapsed.\<close>

lemma runs_for_its_duration:
  assumes "time_out (timer e) \<noteq> 0"
  shows "running (timer (check (start e f) f')) \<longleftrightarrow> f' - f < time_out (timer e)"
proof -
  note armed = start_armed [OF assms, of f]
  have exp: "timer_expired (timer (start e f)) f' \<longleftrightarrow> time_out (timer e) \<le> f' - f"
    using armed assms by (simp add: timer_expired_elapsed)
  show ?thesis
  proof (cases "time_out (timer e) \<le> f' - f")
    case True
    with armed exp check_fires [of "start e f" f'] assms show ?thesis by auto
  next
    case False
    with exp check_idle [of "start e f" f'] armed show ?thesis by auto
  qed
qed

lemma check_before_expiry_is_noop:
  assumes "time_out (timer e) \<noteq> 0" "f' - f < time_out (timer e)"
  shows "check (start e f) f' = start e f"
proof -
  have "\<not> timer_expired (timer (start e f)) f'"
    using start_armed [OF assms(1), of f] assms(2) by (auto simp: timer_expired_elapsed)
  then show ?thesis using check_idle by blast
qed

end

interpretation poll_timer: rlc_timer t_poll_retransmit rlc_am_start_timer_poll_retransmit
    rlc_am_stop_and_reset_timer_poll_retransmit rlc_am_check_timer_poll_retransmit
  by unfold_locales (auto simp: timer_defs Let_def)

interpretation status_timer: rlc_timer t_status_prohibit rlc_am_start_timer_status_prohibit
    rlc_am_stop_and_reset_timer_status_prohibit rlc_am_check_timer_status_prohibit
  by unfold_locales (auto simp: timer_defs Let_def word_gt_0 add.commute)

text \<open>Timer operations leave the sequence-number state alone.\<close>

lemma timers_keep_windows [entity_frame]:
  "rlc_am_windows_ok (rlc_am_start_timer_poll_retransmit e f) = rlc_am_windows_ok e"
  "rlc_am_windows_ok (rlc_am_stop_and_reset_timer_poll_retransmit e f) = rlc_am_windows_ok e"
  "rlc_am_windows_ok (rlc_am_check_timer_poll_retransmit e f) = rlc_am_windows_ok e"
  "rlc_am_windows_ok (rlc_am_start_timer_status_prohibit e f) = rlc_am_windows_ok e"
  "rlc_am_windows_ok (rlc_am_check_timer_status_prohibit e f) = rlc_am_windows_ok e"
  "rlc_am_windows_ok (rlc_am_start_timer_reordering e f) = rlc_am_windows_ok e"
  "rlc_am_windows_ok (rlc_am_stop_and_reset_timer_reordering e f) = rlc_am_windows_ok e"
  "rlc_am_windows_ok (rlc_am_check_timer_reordering e f) = rlc_am_windows_ok e"
  by (simp_all add: timer_defs Let_def rlc_am_windows_ok_def)

subsection \<open>Durations\<close>

text \<open>
  (C36) A poll-retransmit or status-prohibit timer with a non-zero duration that is started at
  frame \<open>f\<close> and checked at frame \<open>f'\<close> is still running exactly while fewer than its duration
  of frames have passed, whether or not the 32-bit frame counter wraps in between.
\<close>

theorem timers_run_for_their_duration:
  assumes "time_out (t_poll_retransmit e) \<noteq> 0" "time_out (t_status_prohibit e) \<noteq> 0"
  shows "(running (t_poll_retransmit (rlc_am_check_timer_poll_retransmit
            (rlc_am_start_timer_poll_retransmit e f) f')) \<longleftrightarrow>
          f' - f < time_out (t_poll_retransmit e)) \<and>
    (running (t_status_prohibit (rlc_am_check_timer_status_prohibit
            (rlc_am_start_timer_status_prohibit e f) f')) \<longleftrightarrow>
          f' - f < time_out (t_status_prohibit e))"
  using poll_timer.runs_for_its_duration [of e f f'] status_timer.runs_for_its_duration [of e f f']
    assms by blast

theorem timers_run_for_their_duration_witness:
  "\<exists>e. time_out (t_poll_retransmit e) = 50 \<and> time_out (t_status_prohibit e) = 20 \<and>
     running (t_poll_retransmit (rlc_am_check_timer_poll_retransmit
       (rlc_am_start_timer_poll_retransmit e 0xFFFFFFF0) 0x10)) \<and>
     \<not> running (t_status_prohibit (rlc_am_check_timer_status_prohibit
       (rlc_am_start_timer_status_prohibit e 0xFFFFFFF0) 0x10))"
proof -
  let ?e = "rlc_am_init_timer_status_prohibit (rlc_am_init_timer_poll_retransmit zero_entity 50) 20"
  have "time_out (t_poll_retransmit ?e) = 50" "time_out (t_status_prohibit ?e) = 20"
    by (simp_all add: timer_defs)
  with timers_run_for_their_duration [of ?e "0xFFFFFFF0" "0x10"] show ?thesis
    by (intro exI [of _ ?e]) simp
qed

text \<open>The reordering timer, once started, never expires.\<close>

lemma reordering_timer_never_expires:
  "running (t_reordering (rlc_am_check_timer_reordering (rlc_am_start_timer_reordering e f) f')) \<and>
   \<not> timed_out (t_reordering (rlc_am_check_timer_reordering (rlc_am_start_timer_reordering e f) f'))"
  by (simp add: timer_defs)

end
