(* ===== verification/Rlc_Am_Holes.thy ===== *)
theory Rlc_Am_Holes
  imports Rlc_Am_Types
begin

text \<open>
  The byte ranges of a transmitted PDU that the peer reported missing
  (\<^verbatim>\<open>rlc_am_segments_holes.c\<close>). A PDU of the retransmission buffer keeps up to 31 holes
  \<open>[hole_so_start, hole_so_stop]\<close> and the enclosing range \<open>[nack_so_start, nack_so_stop]\<close>;
  with no hole recorded the enclosing range itself is pending.

  \<open>rlc_am_add_hole\<close> is proved to insert an interval into a sorted list of disjoint intervals,
  and \<open>rlc_am_remove_hole\<close> never to forget a byte that was not removed.
\<close>

subsection \<open>Operations on one PDU\<close>

abbreviation holes_upd ::
  "int \<Rightarrow> int \<Rightarrow> int \<Rightarrow> rlc_am_tx_data_pdu_management \<Rightarrow> rlc_am_tx_data_pdu_management" where
  "holes_upd i a b p \<equiv> p\<lparr>txp_hole_so_start := (txp_hole_so_start p)(i := a),
                        txp_hole_so_stop := (txp_hole_so_stop p)(i := b)\<rparr>"

function shift_down_loop :: "int \<Rightarrow> rlc_am_tx_data_pdu_management \<Rightarrow> rlc_am_tx_data_pdu_management" where
  "shift_down_loop i p =
     (if i < txp_num_holes p - 1
      then shift_down_loop (i + 1)
             (holes_upd i (txp_hole_so_start p (i + 1)) (txp_hole_so_stop p (i + 1)) p)
      else p)"
  by pat_completeness auto
termination
  by (relation "measure (\<lambda>(i, p). nat (txp_num_holes p - i))") auto

definition shift_down_holes_pdu :: "int \<Rightarrow> rlc_am_tx_data_pdu_management \<Rightarrow> rlc_am_tx_data_pdu_management" where
  "shift_down_holes_pdu indexP p =
     (let p1 = shift_down_loop indexP p in p1\<lparr>txp_num_holes := txp_num_holes p1 - 1\<rparr>)"

function shift_up_loop :: "int \<Rightarrow> int \<Rightarrow> rlc_am_tx_data_pdu_management \<Rightarrow> rlc_am_tx_data_pdu_management" where
  "shift_up_loop i indexP p =
     (if i > indexP
      then shift_up_loop (i - 1) indexP
             (holes_upd i (txp_hole_so_start p (i - 1)) (txp_hole_so_stop p (i - 1)) p)
      else p)"
  by pat_completeness auto
termination
  by (relation "measure (\<lambda>(i, indexP, p). nat (i - indexP))") auto

definition shift_up_holes_pdu ::
  "int \<Rightarrow> rlc_am_tx_data_pdu_management \<Rightarrow> rlc_am_tx_data_pdu_management option" where
  "shift_up_holes_pdu indexP p =
     do {
       let p1 = shift_up_loop (txp_num_holes p) indexP p;
       let p2 = p1\<lparr>txp_num_holes := txp_num_holes p1 + 1\<rparr>;
       c_assert (txp_num_holes p2 < RLC_AM_MAX_HOLES_REPORT_PER_PDU);
       Some p2
     }"

text \<open>Recomputing the enclosing range after a removal.\<close>

definition update_nack_range :: "rlc_am_tx_data_pdu_management \<Rightarrow> rlc_am_tx_data_pdu_management" where
  "update_nack_range p =
     (if txp_num_holes p = 0
      then p\<lparr>txp_nack_so_start := 0, txp_nack_so_stop := 0x7FFF\<rparr>
      else p\<lparr>txp_nack_so_start := txp_hole_so_start p 0,
             txp_nack_so_stop := txp_hole_so_stop p (txp_num_holes p - 1)\<rparr>)"

declare shift_down_loop.simps [simp del] shift_up_loop.simps [simp del]

lemma shift_down_loop_num [simp]: "txp_num_holes (shift_down_loop i p) = txp_num_holes p"
  by (induction i p rule: shift_down_loop.induct) (subst shift_down_loop.simps, simp)

lemma shift_up_loop_num [simp]: "txp_num_holes (shift_up_loop i k p) = txp_num_holes p"
  by (induction i k p rule: shift_up_loop.induct) (subst shift_up_loop.simps, simp)

lemma shift_down_holes_num [simp]:
  "txp_num_holes (shift_down_holes_pdu i p) = txp_num_holes p - 1"
  by (simp add: shift_down_holes_pdu_def Let_def)

lemma shift_up_holes_num:
  "shift_up_holes_pdu i p = Some p' \<Longrightarrow>
     txp_num_holes p' = txp_num_holes p + 1 \<and> txp_num_holes p' < 32"
  by (auto simp: shift_up_holes_pdu_def Let_def split: if_splits)

text \<open>
  The loop of \<^verbatim>\<open>rlc_am_remove_hole\<close>. The flag of the result says that the loop was left by
  \<^verbatim>\<open>return\<close>.
\<close>

function remove_hole_loop ::
  "int \<Rightarrow> int \<Rightarrow> int \<Rightarrow> rlc_am_tx_data_pdu_management
     \<Rightarrow> (bool \<times> rlc_am_tx_data_pdu_management) option" where
  "remove_hole_loop i so_startP so_stopP p =
     (if i < txp_num_holes p then
        if so_startP \<le> txp_hole_so_start p i then
          if so_stopP \<ge> txp_hole_so_stop p i then
            remove_hole_loop i so_startP so_stopP (shift_down_holes_pdu i p)
          else
            Some (True, update_nack_range
                    (p\<lparr>txp_hole_so_start := (txp_hole_so_start p)(i := so_stopP)\<rparr>))
        else
          if so_startP \<le> txp_hole_so_stop p i then
            if so_stopP < txp_hole_so_stop p i then
              (case shift_up_holes_pdu (i + 1) p of
                 None \<Rightarrow> None
               | Some p1 \<Rightarrow>
                   remove_hole_loop (i + 1) so_startP so_stopP
                     (let p2 = holes_upd (i + 1) (so_startP + 1) (txp_hole_so_stop p1 i) p1
                      in p2\<lparr>txp_hole_so_stop := (txp_hole_so_stop p2)(i := so_startP - 1)\<rparr>))
            else
              remove_hole_loop (i + 1) so_startP so_stopP
                (p\<lparr>txp_hole_so_stop := (txp_hole_so_stop p)(i := so_startP)\<rparr>)
          else remove_hole_loop (i + 1) so_startP so_stopP p
      else Some (False, p))"
  by pat_completeness auto
termination
proof (relation "measures [\<lambda>(i, s, t, p). nat (max 32 (txp_num_holes p) - i),
                           \<lambda>(i, s, t, p). nat (txp_num_holes p - i)]",
       goal_cases)
  case 1 show ?case by simp
next
  case (2 i s t p) then show ?case by auto
next
  case (3 i s t p p1)
  then have "txp_num_holes p1 = txp_num_holes p + 1" "txp_num_holes p1 < 32"
    using shift_up_holes_num by blast+
  with 3 show ?case by (auto simp: Let_def)
next
  case (4 i s t p) then show ?case by auto
next
  case (5 i s t p) then show ?case by auto
qed

declare remove_hole_loop.simps [simp del]

definition remove_hole_pdu ::
  "int \<Rightarrow> int \<Rightarrow> rlc_am_tx_data_pdu_management \<Rightarrow> rlc_am_tx_data_pdu_management option" where
  "remove_hole_pdu so_startP so_stopP p =
     do {
       c_assert (so_startP \<le> so_stopP);
       if txp_num_holes p = 0 then
         do {
           c_assert (so_startP = txp_nack_so_start p);
           c_assert (so_stopP \<le> txp_nack_so_stop p);
           let p1 = p\<lparr>txp_nack_so_start := so_stopP + 1\<rparr>;
           let p2 = (if txp_nack_so_start p1 \<ge> txp_nack_so_stop p1
                     then p1\<lparr>txp_nack_so_start := 0, txp_nack_so_stop := 0x7FFF\<rparr> else p1);
           c_assert (txp_nack_so_start p2 < txp_payload_size p2);
           Some p2
         }
       else
         do {
           (returned, p1) \<leftarrow> remove_hole_loop 0 so_startP so_stopP p;
           if returned then Some p1
           else do {
             let p2 = update_nack_range p1;
             c_assert (txp_nack_so_start p2 < txp_payload_size p2);
             Some p2
           }
         }
     }"

definition get_next_hole_pdu :: "rlc_am_tx_data_pdu_management \<Rightarrow> int \<times> int" where
  "get_next_hole_pdu p =
     (if txp_num_holes p = 0 then (txp_nack_so_start p, txp_nack_so_stop p)
      else (txp_hole_so_start p 0, txp_hole_so_stop p 0))"

text \<open>
  Insertion. The search loop stops at the first hole that starts above the new one; the shift
  loop runs down to \<open>hole_index\<close> itself, so for \<open>hole_index = 0\<close> its last iteration reads the
  slots of index \<open>-1\<close>, outside the arrays: that access is \<open>None\<close>, as every other one outside an
  array of the program.
\<close>

function add_hole_search :: "int \<Rightarrow> int \<Rightarrow> rlc_am_tx_data_pdu_management \<Rightarrow> int" where
  "add_hole_search hole_index so_stopP p =
     (if hole_index < txp_num_holes p \<and> \<not> so_stopP < txp_hole_so_start p hole_index
      then add_hole_search (hole_index + 1) so_stopP p else hole_index)"
  by pat_completeness auto
termination
  by (relation "measure (\<lambda>(i, t, p). nat (txp_num_holes p - i))") auto

function add_hole_shift ::
  "int \<Rightarrow> int \<Rightarrow> rlc_am_tx_data_pdu_management \<Rightarrow> rlc_am_tx_data_pdu_management option" where
  "add_hole_shift i hole_index p =
     (if i \<ge> hole_index
      then if i - 1 < 0 then None
           else add_hole_shift (i - 1) hole_index
                  (holes_upd i (txp_hole_so_start p (i - 1)) (txp_hole_so_stop p (i - 1)) p)
      else Some p)"
  by pat_completeness auto
termination
  by (relation "measure (\<lambda>(i, k, p). nat (i - k + 1))") auto

declare add_hole_search.simps [simp del] add_hole_shift.simps [simp del]

definition add_hole_pdu ::
  "int \<Rightarrow> int \<Rightarrow> rlc_am_tx_data_pdu_management \<Rightarrow> rlc_am_tx_data_pdu_management option" where
  "add_hole_pdu so_startP so_stopP0 p =
     do {
       c_assert (so_startP \<le> so_stopP0);
       c_assert (so_startP < 0x7FFF);
       c_assert (so_stopP0 \<le> 0x7FFF);
       if so_startP = 0 \<and> (so_stopP0 = 0x7FFF \<or> so_stopP0 = txp_payload_size p - 1) then
         do {
           let p1 = p\<lparr>txp_num_holes := 0, txp_nack_so_start := so_startP,
                      txp_nack_so_stop := so_stopP0\<rparr>;
           c_assert (txp_nack_so_start p1 < txp_payload_size p1);
           Some p1
         }
       else
         do {
           let so_stopP = (if so_stopP0 = 0x7FFF then txp_payload_size p - 1 else so_stopP0);
           if txp_num_holes p = 0 then
             do {
               let p1 = (holes_upd 0 so_startP so_stopP p)\<lparr>txp_num_holes := 1,
                          txp_nack_so_start := so_startP, txp_nack_so_stop := so_stopP\<rparr>;
               c_assert (txp_nack_so_start p1 < txp_payload_size p1);
               Some p1
             }
           else
             do {
               let hole_index = add_hole_search 0 so_stopP p;
               if hole_index < txp_num_holes p then
                 do {
                   c_assert (txp_num_holes p < RLC_AM_MAX_HOLES_REPORT_PER_PDU);
                   c_assert (hole_index > 0 \<longrightarrow> so_startP > txp_hole_so_stop p (hole_index - 1));
                   p0 \<leftarrow> add_hole_shift (txp_num_holes p) hole_index p;
                   let p1 = holes_upd hole_index so_startP so_stopP p0;
                   let p2 = (if hole_index = 0 then p1\<lparr>txp_nack_so_start := so_startP\<rparr> else p1);
                   let p3 = p2\<lparr>txp_num_holes := txp_num_holes p + 1\<rparr>;
                   c_assert (txp_nack_so_start p3 < txp_payload_size p3);
                   c_assert (txp_num_holes p3 < RLC_AM_MAX_HOLES_REPORT_PER_PDU);
                   Some p3
                 }
               else
                 do {
                   c_assert (so_startP > txp_hole_so_stop p (hole_index - 1));
                   c_assert (txp_num_holes p < RLC_AM_MAX_HOLES_REPORT_PER_PDU);
                   let p1 = (holes_upd hole_index so_startP so_stopP p)
                              \<lparr>txp_num_holes := txp_num_holes p + 1, txp_nack_so_stop := so_stopP\<rparr>;
                   c_assert (txp_num_holes p1 < RLC_AM_MAX_HOLES_REPORT_PER_PDU);
                   c_assert (txp_nack_so_start p1 < txp_payload_size p1);
                   Some p1
                 }
             }
         }
     }"

subsection \<open>Operations on the entity\<close>

definition rlc_am_clear_holes :: "rlc_am_entity \<Rightarrow> int \<Rightarrow> rlc_am_entity" where
  "rlc_am_clear_holes e snP = upd_pdu snP (\<lambda>p. p\<lparr>txp_num_holes := 0\<rparr>) e"

definition rlc_am_shift_down_holes :: "rlc_am_entity \<Rightarrow> int \<Rightarrow> int \<Rightarrow> rlc_am_entity" where
  "rlc_am_shift_down_holes e snP indexP = upd_pdu snP (shift_down_holes_pdu indexP) e"

definition rlc_am_shift_up_holes :: "rlc_am_entity \<Rightarrow> int \<Rightarrow> int \<Rightarrow> rlc_am_entity option" where
  "rlc_am_shift_up_holes e snP indexP =
     map_option (\<lambda>p. upd_pdu snP (\<lambda>_. p) e) (shift_up_holes_pdu indexP (pdu_retrans_buffer e snP))"

definition rlc_am_remove_hole ::
  "rlc_am_entity \<Rightarrow> frame \<Rightarrow> int \<Rightarrow> int \<Rightarrow> int \<Rightarrow> rlc_am_entity option" where
  "rlc_am_remove_hole e frameP snP so_startP so_stopP =
     map_option (\<lambda>p. upd_pdu snP (\<lambda>_. p) e)
       (remove_hole_pdu so_startP so_stopP (pdu_retrans_buffer e snP))"

definition rlc_am_get_next_hole :: "rlc_am_entity \<Rightarrow> frame \<Rightarrow> int \<Rightarrow> int \<times> int" where
  "rlc_am_get_next_hole e frameP snP = get_next_hole_pdu (pdu_retrans_buffer e snP)"

definition rlc_am_add_hole ::
  "rlc_am_entity \<Rightarrow> frame \<Rightarrow> int \<Rightarrow> int \<Rightarrow> int \<Rightarrow> rlc_am_entity option" where
  "rlc_am_add_hole e frameP snP so_startP so_stopP =
     map_option (\<lambda>p. upd_pdu snP (\<lambda>_. p) e)
       (add_hole_pdu so_startP so_stopP (pdu_retrans_buffer e snP))"

subsection \<open>What the loops compute\<close>

lemma shift_down_loop_eq:
  "shift_down_loop i p =
     p\<lparr>txp_hole_so_start := (\<lambda>j. if i \<le> j \<and> j < txp_num_holes p - 1
                                then txp_hole_so_start p (j + 1) else txp_hole_so_start p j),
       txp_hole_so_stop := (\<lambda>j. if i \<le> j \<and> j < txp_num_holes p - 1
                                then txp_hole_so_stop p (j + 1) else txp_hole_so_stop p j)\<rparr>"
proof (induction i p rule: shift_down_loop.induct)
  case (1 i p)
  show ?case
  proof (cases "i < txp_num_holes p - 1")
    case True
    then show ?thesis
      by (subst shift_down_loop.simps, subst 1 [OF True])
        (auto simp: fun_eq_iff intro!: rlc_am_tx_data_pdu_management.equality)
  next
    case False
    then show ?thesis
      by (subst shift_down_loop.simps)
        (auto simp: fun_eq_iff intro!: rlc_am_tx_data_pdu_management.equality)
  qed
qed

lemma shift_up_loop_eq:
  "shift_up_loop i k p =
     p\<lparr>txp_hole_so_start := (\<lambda>j. if k < j \<and> j \<le> i
                                then txp_hole_so_start p (j - 1) else txp_hole_so_start p j),
       txp_hole_so_stop := (\<lambda>j. if k < j \<and> j \<le> i
                                then txp_hole_so_stop p (j - 1) else txp_hole_so_stop p j)\<rparr>"
proof (induction i k p rule: shift_up_loop.induct)
  case (1 i k p)
  show ?case
  proof (cases "i > k")
    case True
    then show ?thesis
      by (subst shift_up_loop.simps, subst 1 [OF True])
        (auto simp: fun_eq_iff intro!: rlc_am_tx_data_pdu_management.equality)
  next
    case False
    then show ?thesis
      by (subst shift_up_loop.simps)
        (auto simp: fun_eq_iff intro!: rlc_am_tx_data_pdu_management.equality)
  qed
qed

lemma add_hole_shift_eq:
  "0 < k \<Longrightarrow> add_hole_shift i k p = Some (
     p\<lparr>txp_hole_so_start := (\<lambda>j. if k \<le> j \<and> j \<le> i
                                then txp_hole_so_start p (j - 1) else txp_hole_so_start p j),
       txp_hole_so_stop := (\<lambda>j. if k \<le> j \<and> j \<le> i
                                then txp_hole_so_stop p (j - 1) else txp_hole_so_stop p j)\<rparr>)"
proof (induction i k p rule: add_hole_shift.induct)
  case (1 i k p)
  show ?case
  proof (cases "i \<ge> k")
    case True
    then have "\<not> i - 1 < 0" using 1(2) by linarith
    then show ?thesis
      using True by (subst add_hole_shift.simps, subst 1(1) [OF True _ 1(2)])
        (auto simp: fun_eq_iff intro!: rlc_am_tx_data_pdu_management.equality)
  next
    case False
    then show ?thesis
      by (subst add_hole_shift.simps)
        (auto simp: fun_eq_iff intro!: rlc_am_tx_data_pdu_management.equality)
  qed
qed

lemma add_hole_shift_front: "0 \<le> i \<Longrightarrow> add_hole_shift i 0 p = None"
proof (induction i "0 :: int" p rule: add_hole_shift.induct)
  case (1 i p)
  then show ?case by (subst add_hole_shift.simps) auto
qed

lemma add_hole_search_bounds:
  "i \<le> txp_num_holes p \<Longrightarrow>
     i \<le> add_hole_search i t p \<and> add_hole_search i t p \<le> txp_num_holes p"
proof (induction i t p rule: add_hole_search.induct)
  case (1 i t p)
  then show ?case by (auto simp: add_hole_search.simps [of i t p])
qed

lemma add_hole_search_below:
  "i \<le> j \<Longrightarrow> j < add_hole_search i t p \<Longrightarrow> txp_hole_so_start p j \<le> t"
proof (induction i t p rule: add_hole_search.induct)
  case (1 i t p)
  then show ?case
    by (cases "j = i") (auto simp: add_hole_search.simps [of i t p] split: if_splits)
qed

lemma add_hole_search_found:
  "add_hole_search i t p < txp_num_holes p \<Longrightarrow> t < txp_hole_so_start p (add_hole_search i t p)"
proof (induction i t p rule: add_hole_search.induct)
  case (1 i t p)
  then show ?case by (auto simp: add_hole_search.simps [of i t p] split: if_splits)
qed

subsection \<open>The pending bytes of a PDU\<close>

definition hole_bytes :: "rlc_am_tx_data_pdu_management \<Rightarrow> int set" where
  "hole_bytes p = (\<Union>j\<in>{0..<txp_num_holes p}. {txp_hole_so_start p j..txp_hole_so_stop p j})"

definition pending_bytes :: "rlc_am_tx_data_pdu_management \<Rightarrow> int set" where
  "pending_bytes p =
     (if txp_num_holes p = 0 then {txp_nack_so_start p..txp_nack_so_stop p} else hole_bytes p)"

lemma hole_bytes_iff:
  "b \<in> hole_bytes p \<longleftrightarrow>
     (\<exists>j. 0 \<le> j \<and> j < txp_num_holes p \<and> txp_hole_so_start p j \<le> b \<and> b \<le> txp_hole_so_stop p j)"
  by (auto simp: hole_bytes_def)

text \<open>Every step of the removal loop only drops bytes of the removed range.\<close>

lemma shift_down_keeps:
  assumes "0 \<le> i" "i < txp_num_holes p" "b \<in> hole_bytes p"
    "\<not> (txp_hole_so_start p i \<le> b \<and> b \<le> txp_hole_so_stop p i)"
  shows "b \<in> hole_bytes (shift_down_holes_pdu i p)"
proof -
  from assms(3) obtain j where j: "0 \<le> j" "j < txp_num_holes p"
    "txp_hole_so_start p j \<le> b" "b \<le> txp_hole_so_stop p j"
    by (auto simp: hole_bytes_iff)
  with assms(4) have "j \<noteq> i" by auto
  let ?q = "shift_down_holes_pdu i p" and ?j = "if j < i then j else j - 1"
  have "0 \<le> ?j" "?j < txp_num_holes ?q" using j assms(1,2) \<open>j \<noteq> i\<close> by auto
  moreover have "txp_hole_so_start ?q ?j \<le> b" "b \<le> txp_hole_so_stop ?q ?j"
    using j assms(1,2) \<open>j \<noteq> i\<close>
    by (auto simp: shift_down_holes_pdu_def Let_def shift_down_loop_eq)
  ultimately show ?thesis unfolding hole_bytes_iff by blast
qed

lemma trim_keeps:
  assumes "b \<in> hole_bytes p" "0 \<le> i" "i < txp_num_holes p"
    and "txp_hole_so_start p i \<le> b \<Longrightarrow> b \<le> txp_hole_so_stop p i \<Longrightarrow> s \<le> b \<and> b \<le> t"
  shows "b \<in> hole_bytes (holes_upd i s t p)"
proof -
  from assms(1) obtain j where j: "0 \<le> j" "j < txp_num_holes p"
    "txp_hole_so_start p j \<le> b" "b \<le> txp_hole_so_stop p j"
    by (auto simp: hole_bytes_iff)
  then have "txp_hole_so_start (holes_upd i s t p) j \<le> b"
    "b \<le> txp_hole_so_stop (holes_upd i s t p) j"
    using assms(4) by auto
  moreover have "j < txp_num_holes (holes_upd i s t p)" using j by simp
  ultimately show ?thesis using j(1) unfolding hole_bytes_iff by blast
qed

lemma split_keeps:
  assumes "0 \<le> i" "i < txp_num_holes p" "b \<in> hole_bytes p" "s \<noteq> b"
    and up: "shift_up_holes_pdu (i + 1) p = Some p1"
  shows "b \<in> hole_bytes (let p2 = holes_upd (i + 1) (s + 1) (txp_hole_so_stop p1 i) p1
                      in p2\<lparr>txp_hole_so_stop := (txp_hole_so_stop p2)(i := s - 1)\<rparr>)"
    (is "b \<in> hole_bytes ?q")
proof -
  from assms(3) obtain j where j: "0 \<le> j" "j < txp_num_holes p"
    "txp_hole_so_start p j \<le> b" "b \<le> txp_hole_so_stop p j"
    by (auto simp: hole_bytes_iff)
  from up have p1: "p1 = (shift_up_loop (txp_num_holes p) (i + 1) p)\<lparr>txp_num_holes := txp_num_holes p + 1\<rparr>"
    by (auto simp: shift_up_holes_pdu_def Let_def split: if_splits)
  let ?j = "if j < i then j else if i < j then j + 1 else if b < s then i else i + 1"
  have "0 \<le> ?j" "?j < txp_num_holes ?q"
    using j assms(1,2) by (simp_all add: p1 Let_def)
  moreover have "txp_hole_so_start ?q ?j \<le> b" "b \<le> txp_hole_so_stop ?q ?j"
    using j assms(1,2,4) by (auto simp: p1 Let_def shift_up_loop_eq)
  ultimately show ?thesis unfolding hole_bytes_iff by blast
qed

lemma hole_bytes_update_nack_range [simp]:
  "hole_bytes (update_nack_range p) = hole_bytes p"
  by (simp add: update_nack_range_def hole_bytes_def)

lemma update_nack_range_num [simp]:
  "txp_num_holes (update_nack_range p) = txp_num_holes p"
  by (simp add: update_nack_range_def)

lemma remove_hole_loop_keeps:
  "remove_hole_loop i s t p = Some (r, p') \<Longrightarrow> 0 \<le> i \<Longrightarrow> s \<le> t \<Longrightarrow> b \<in> hole_bytes p \<Longrightarrow>
     b \<notin> {s..t} \<Longrightarrow> b \<in> hole_bytes p'"
proof (induction i s t p rule: remove_hole_loop.induct)
  case (1 i s t p)
  show ?case
  proof (cases "i < txp_num_holes p")
    case False
    with 1 show ?thesis by (simp add: remove_hole_loop.simps [of i s t p])
  next
    case in_range: True
    note step = remove_hole_loop.simps [of i s t p] and pr = "1.prems"
    consider (drop) "s \<le> txp_hole_so_start p i" "t \<ge> txp_hole_so_stop p i"
      | (cut) "s \<le> txp_hole_so_start p i" "t < txp_hole_so_stop p i"
      | (split) "s > txp_hole_so_start p i" "s \<le> txp_hole_so_stop p i" "t < txp_hole_so_stop p i"
      | (tail) "s > txp_hole_so_start p i" "s \<le> txp_hole_so_stop p i" "t \<ge> txp_hole_so_stop p i"
      | (above) "s > txp_hole_so_start p i" "s > txp_hole_so_stop p i"
      by linarith
    then show ?thesis
    proof cases
      case drop
      have keep: "b \<in> hole_bytes (shift_down_holes_pdu i p)"
        using pr in_range drop by (intro shift_down_keeps) auto
      have loop: "remove_hole_loop i s t (shift_down_holes_pdu i p) = Some (r, p')"
        using pr(1) in_range drop by (simp add: step)
      show ?thesis by (rule "1.IH"(1) [OF in_range drop loop pr(2,3) keep pr(5)])
    next
      case cut
      then have "p' = update_nack_range (p\<lparr>txp_hole_so_start := (txp_hole_so_start p)(i := t)\<rparr>)"
        using pr(1) in_range by (simp add: step)
      moreover have "b \<in> hole_bytes (holes_upd i t (txp_hole_so_stop p i) p)"
        using pr cut in_range by (intro trim_keeps) auto
      ultimately show ?thesis by simp
    next
      case split
      then have neg: "\<not> s \<le> txp_hole_so_start p i" by simp
      from split obtain p1 where up: "shift_up_holes_pdu (i + 1) p = Some p1"
        using pr(1) in_range by (auto simp: step split: option.splits)
      have "s \<noteq> b" using pr by auto
      note keep = split_keeps [OF pr(2) in_range pr(4) this up]
      have i: "0 \<le> i + 1" using pr(2) by simp
      show ?thesis
        by (rule "1.IH"(2) [OF in_range neg split(2,3) up _ i pr(3) keep pr(5)])
          (use pr(1) in_range split up in \<open>simp add: step\<close>)
    next
      case tail
      then have neg: "\<not> s \<le> txp_hole_so_start p i" "\<not> t < txp_hole_so_stop p i" by simp_all
      have "b \<in> hole_bytes (holes_upd i (txp_hole_so_start p i) s p)"
        using pr tail in_range by (intro trim_keeps) auto
      then have keep: "b \<in> hole_bytes (p\<lparr>txp_hole_so_stop := (txp_hole_so_stop p)(i := s)\<rparr>)" by simp
      have i: "0 \<le> i + 1" using pr(2) by simp
      show ?thesis
        by (rule "1.IH"(3) [OF in_range neg(1) tail(2) neg(2) _ i pr(3) keep pr(5)])
          (use pr(1) in_range tail in \<open>simp add: step\<close>)
    next
      case above
      then have neg: "\<not> s \<le> txp_hole_so_start p i" "\<not> s \<le> txp_hole_so_stop p i" by simp_all
      have i: "0 \<le> i + 1" using pr(2) by simp
      show ?thesis
        by (rule "1.IH"(4) [OF in_range neg _ i pr(3,4,5)])
          (use pr(1) in_range above in \<open>simp add: step\<close>)
    qed
  qed
qed

lemma remove_hole_pdu_keeps:
  assumes rem: "remove_hole_pdu s t p = Some p'"
    and range: "txp_num_holes p = 0 \<Longrightarrow> 0 \<le> txp_nack_so_start p \<and> txp_nack_so_stop p \<le> 0x7FFF"
  shows "pending_bytes p - {s..t} \<subseteq> pending_bytes p'"
proof (cases "txp_num_holes p = 0")
  case True
  with rem range show ?thesis
    by (auto simp: remove_hole_pdu_def pending_bytes_def Let_def split: if_splits)
next
  case False
  from rem False obtain r p1 where loop: "remove_hole_loop 0 s t p = Some (r, p1)"
    and st: "s \<le> t" and p': "p' = p1 \<or> p' = update_nack_range p1"
    by (auto simp: remove_hole_pdu_def Let_def split: if_splits)
  have keep: "b \<in> hole_bytes p1" if "b \<in> hole_bytes p" "b \<notin> {s..t}" for b
    using remove_hole_loop_keeps [OF loop _ st that] by simp
  have "hole_bytes p' = hole_bytes p1" "txp_num_holes p' = txp_num_holes p1"
    using p' by auto
  with keep False show ?thesis
    by (force simp: pending_bytes_def hole_bytes_def)
qed

subsection \<open>Insertion keeps a sorted list of disjoint holes\<close>

definition holes_ok :: "rlc_am_tx_data_pdu_management \<Rightarrow> bool" where
  "holes_ok p \<longleftrightarrow> 0 \<le> txp_num_holes p \<and> txp_num_holes p < RLC_AM_MAX_HOLES_REPORT_PER_PDU \<and>
     (\<forall>j\<in>{0..<txp_num_holes p}. 0 \<le> txp_hole_so_start p j \<and>
        txp_hole_so_start p j \<le> txp_hole_so_stop p j \<and>
        txp_hole_so_stop p j < txp_payload_size p) \<and>
     (\<forall>k\<in>{1..<txp_num_holes p}. txp_hole_so_stop p (k - 1) < txp_hole_so_start p k) \<and>
     (0 < txp_num_holes p \<longrightarrow> txp_nack_so_start p = txp_hole_so_start p 0 \<and>
        txp_nack_so_stop p = txp_hole_so_stop p (txp_num_holes p - 1))"

text \<open>Both ways of \<^verbatim>\<open>rlc_am_add_hole\<close> to extend a non-empty list insert at position \<open>k\<close>.\<close>

definition inserted_at ::
  "int \<Rightarrow> int \<Rightarrow> int \<Rightarrow> rlc_am_tx_data_pdu_management \<Rightarrow> rlc_am_tx_data_pdu_management \<Rightarrow> bool" where
  "inserted_at k s t p q \<longleftrightarrow> txp_num_holes q = txp_num_holes p + 1 \<and>
     txp_payload_size q = txp_payload_size p \<and>
     (\<forall>j\<in>{0..txp_num_holes p}.
        txp_hole_so_start q j = (if j < k then txp_hole_so_start p j else if j = k then s
                                 else txp_hole_so_start p (j - 1)) \<and>
        txp_hole_so_stop q j = (if j < k then txp_hole_so_stop p j else if j = k then t
                                else txp_hole_so_stop p (j - 1)))"

lemma inserted_at_bytes:
  assumes "inserted_at k s t p q" "0 \<le> k" "k \<le> txp_num_holes p"
  shows "hole_bytes q = hole_bytes p \<union> {s..t}"
proof (rule set_eqI)
  fix b
  have "b \<in> hole_bytes q \<longleftrightarrow> (\<exists>j\<in>{0..txp_num_holes p}. txp_hole_so_start q j \<le> b \<and> b \<le> txp_hole_so_stop q j)"
    using assms(1) by (auto simp: hole_bytes_def inserted_at_def)
  also have "\<dots> \<longleftrightarrow> (\<exists>j\<in>{0..<txp_num_holes p}. txp_hole_so_start p j \<le> b \<and> b \<le> txp_hole_so_stop p j)
      \<or> b \<in> {s..t}" (is "?L \<longleftrightarrow> ?R")
  proof
    assume ?L
    then obtain j where j: "j \<in> {0..txp_num_holes p}"
      "txp_hole_so_start q j \<le> b" "b \<le> txp_hole_so_stop q j" by blast
    consider "j < k" | "j = k" | "k < j" by linarith
    then show ?R
    proof cases
      case 1 then show ?thesis using assms j by (auto simp: inserted_at_def intro!: bexI [of _ j])
    next
      case 2 then show ?thesis using assms j by (auto simp: inserted_at_def)
    next
      case 3 then show ?thesis using assms j by (auto simp: inserted_at_def intro!: bexI [of _ "j - 1"])
    qed
  next
    assume ?R
    then consider j where "j \<in> {0..<txp_num_holes p}" "j < k" "txp_hole_so_start p j \<le> b" "b \<le> txp_hole_so_stop p j"
      | j where "j \<in> {0..<txp_num_holes p}" "k \<le> j" "txp_hole_so_start p j \<le> b" "b \<le> txp_hole_so_stop p j"
      | "s \<le> b" "b \<le> t" by fastforce
    then show ?L
    proof cases
      case (1 j) then show ?thesis using assms by (auto simp: inserted_at_def intro!: bexI [of _ j])
    next
      case (2 j) then show ?thesis using assms by (auto simp: inserted_at_def intro!: bexI [of _ "j + 1"])
    next
      case 3 then show ?thesis using assms by (auto simp: inserted_at_def intro!: bexI [of _ k])
    qed
  qed
  finally show "b \<in> hole_bytes q \<longleftrightarrow> b \<in> hole_bytes p \<union> {s..t}" by (auto simp: hole_bytes_def)
qed

lemma inserted_at_ok:
  assumes ins: "inserted_at k s t p q" "0 \<le> k" "k \<le> txp_num_holes p"
    and ok: "holes_ok p" and st: "0 \<le> s" "s \<le> t" "t < txp_payload_size p"
    and room: "txp_num_holes p + 1 < 32"
    and below: "0 < k \<Longrightarrow> txp_hole_so_stop p (k - 1) < s"
    and above: "k < txp_num_holes p \<Longrightarrow> t < txp_hole_so_start p k"
    and nack: "txp_nack_so_start q = txp_hole_so_start q 0"
      "txp_nack_so_stop q = txp_hole_so_stop q (txp_num_holes p)"
  shows "holes_ok q"
proof -
  have n: "txp_num_holes q = txp_num_holes p + 1" "txp_payload_size q = txp_payload_size p"
    using ins by (simp_all add: inserted_at_def)
  have each: "0 \<le> txp_hole_so_start q j \<and> txp_hole_so_start q j \<le> txp_hole_so_stop q j \<and>
      txp_hole_so_stop q j < txp_payload_size p" if "j \<in> {0..<txp_num_holes q}" for j
    using that ins ok st n by (auto simp: inserted_at_def holes_ok_def)
  have "txp_hole_so_stop q (j - 1) < txp_hole_so_start q j" if j: "j \<in> {1..<txp_num_holes q}" for j
  proof -
    have *: "txp_hole_so_stop p (i - 1) < txp_hole_so_start p i" if "1 \<le> i" "i < txp_num_holes p" for i
      using ok that by (simp add: holes_ok_def)
    have "j \<in> {0..txp_num_holes p}" "j - 1 \<in> {0..txp_num_holes p}" using j n by auto
    with ins(1) have
      q: "txp_hole_so_start q j = (if j < k then txp_hole_so_start p j else if j = k then s
                                  else txp_hole_so_start p (j - 1))"
      "txp_hole_so_stop q (j - 1) = (if j - 1 < k then txp_hole_so_stop p (j - 1)
          else if j - 1 = k then t else txp_hole_so_stop p (j - 1 - 1))"
      by (simp_all add: inserted_at_def)
    consider "j < k" | "j = k" | "j = k + 1" | "k + 1 < j" by linarith
    then show ?thesis
      by cases (use q j n ins(2,3) below above * [of j] * [of "j - 1"] in simp_all)
  qed
  with each n nack room ok show ?thesis by (simp add: holes_ok_def)
qed

lemma add_hole_pdu_insert:
  assumes ok: "holes_ok p" and add: "add_hole_pdu s t p = Some q"
    and st: "0 \<le> s" "t < txp_payload_size p" "txp_payload_size p \<le> 0x7FFF"
    and part: "\<not> (s = 0 \<and> t = txp_payload_size p - 1)"
  shows "holes_ok q \<and> hole_bytes q = hole_bytes p \<union> {s..t} \<and>
    txp_num_holes q = txp_num_holes p + 1"
proof (cases "txp_num_holes p = 0")
  case True
  then show ?thesis using add st part
    by (auto simp: add_hole_pdu_def Let_def holes_ok_def hole_bytes_def split: if_splits)
next
  case False
  define k where "k = add_hole_search 0 t p"
  have n: "0 < txp_num_holes p" using ok False by (simp add: holes_ok_def)
  have k: "0 \<le> k" "k \<le> txp_num_holes p"
    using n add_hole_search_bounds [of 0 p t] by (auto simp: k_def)
  have st': "s \<le> t" using add by (auto simp: add_hole_pdu_def split: if_splits)
  have front: "k \<noteq> 0"
  proof
    assume "k = 0"
    with add st part n show False
      by (auto simp: add_hole_pdu_def Let_def k_def [symmetric] add_hole_shift_front split: if_splits)
  qed
  have ins: "inserted_at k s t p q" "txp_num_holes p + 1 < 32" "0 < k \<Longrightarrow> txp_hole_so_stop p (k - 1) < s"
      "txp_nack_so_start q = txp_hole_so_start q 0"
      "txp_nack_so_stop q = txp_hole_so_stop q (txp_num_holes p)"
    using add st part ok n k front
    by (auto simp: add_hole_pdu_def Let_def inserted_at_def add_hole_shift_eq k_def [symmetric]
        holes_ok_def split: if_splits)
  have above: "k < txp_num_holes p \<Longrightarrow> t < txp_hole_so_start p k"
    using add_hole_search_found [of 0 t p] by (simp add: k_def)
  show ?thesis
    using inserted_at_ok [OF ins(1) k ok st(1) st' st(2) ins(2,3) above ins(4,5)]
      inserted_at_bytes [OF ins(1) k] ins(1) by (simp add: inserted_at_def)
qed

text \<open>
  Insertion succeeds whenever there is room, the new range touches no recorded hole and it does
  not lie before all of them; before the first recorded hole the shift loop leaves the arrays.
\<close>

lemma add_hole_pdu_succeeds:
  assumes ok: "holes_ok p" and st: "0 \<le> s" "s \<le> t" "t < txp_payload_size p" "txp_payload_size p \<le> 0x7FFF"
    and room: "txp_num_holes p < 31" and free: "hole_bytes p \<inter> {s..t} = {}"
    and after: "txp_num_holes p \<noteq> 0 \<Longrightarrow> txp_hole_so_start p 0 \<le> s"
  shows "\<exists>q. add_hole_pdu s t p = Some q"
proof (cases "txp_num_holes p = 0")
  case True
  then show ?thesis using st by (simp add: add_hole_pdu_def Let_def)
next
  case False
  define k where "k = add_hole_search 0 t p"
  have n: "0 < txp_num_holes p" using ok False by (simp add: holes_ok_def)
  have k: "0 \<le> k" "k \<le> txp_num_holes p"
    using n add_hole_search_bounds [of 0 p t] by (auto simp: k_def)
  have front: "0 < k"
    using add_hole_search_found [of 0 t p] after [OF False] st(2) n k(1)
    by (cases "k = 0") (auto simp: k_def)
  have below: "txp_hole_so_stop p (k - 1) < s" if "0 < k"
  proof (rule ccontr)
    assume "\<not> ?thesis"
    moreover have "txp_hole_so_start p (k - 1) \<le> t"
      using add_hole_search_below [of 0 "k - 1" t p] that by (simp add: k_def)
    moreover have "txp_hole_so_start p (k - 1) \<le> txp_hole_so_stop p (k - 1)"
      using ok that k by (simp add: holes_ok_def)
    ultimately have "max s (txp_hole_so_start p (k - 1)) \<in> hole_bytes p \<inter> {s..t}"
      using k that st(2) by (auto simp: hole_bytes_iff intro!: exI [of _ "k - 1"])
    with free show False by blast
  qed
  have nack: "txp_nack_so_start p < txp_payload_size p"
  proof -
    have "txp_hole_so_start p 0 \<le> txp_hole_so_stop p 0 \<and> txp_hole_so_stop p 0 < txp_payload_size p"
      using ok n by (simp add: holes_ok_def)
    moreover have "txp_nack_so_start p = txp_hole_so_start p 0" using ok n by (simp add: holes_ok_def)
    ultimately show ?thesis by linarith
  qed
  show ?thesis
    using False below [OF front] front st room nack n k
    by (auto simp: add_hole_pdu_def Let_def k_def [symmetric] add_hole_shift_eq)
qed

lemma front_insertion_leaves_array:
  assumes "0 < txp_num_holes p" "t < txp_hole_so_start p 0" "t \<noteq> 0x7FFF"
    "\<not> (s = 0 \<and> t = txp_payload_size p - 1)"
  shows "add_hole_pdu s t p = None"
proof -
  have "add_hole_search 0 t p = 0" using assms(2) by (simp add: add_hole_search.simps)
  then show ?thesis using assms by (auto simp: add_hole_pdu_def Let_def add_hole_shift_front)
qed

subsection \<open>Statements on the entity\<close>

definition pdu_two_holes :: rlc_am_tx_data_pdu_management where
  "pdu_two_holes = zero_tx_pdu\<lparr>txp_payload_size := 100, txp_num_holes := 2,
     txp_hole_so_start := (\<lambda>_. 0)(0 := 10, 1 := 40), txp_hole_so_stop := (\<lambda>_. 0)(0 := 19, 1 := 59),
     txp_nack_so_start := 10, txp_nack_so_stop := 59\<rparr>"

abbreviation entity_two_holes :: rlc_am_entity where
  "entity_two_holes \<equiv> zero_entity\<lparr>pdu_retrans_buffer := (\<lambda>_. zero_tx_pdu)(7 := pdu_two_holes)\<rparr>"

lemma pdu_two_holes_size: "txp_payload_size pdu_two_holes = 100" "txp_num_holes pdu_two_holes = 2"
  by (simp_all add: pdu_two_holes_def)

lemma pdu_two_holes_start: "txp_hole_so_start pdu_two_holes 0 = 10"
  by (simp add: pdu_two_holes_def)

lemma pdu_two_holes_bytes: "hole_bytes pdu_two_holes = {10..19} \<union> {40..59}"
proof -
  have "{0..<2::int} = {0, 1}" by auto
  then show ?thesis by (simp add: hole_bytes_def pdu_two_holes_def)
qed

lemma pdu_two_holes_ok: "holes_ok pdu_two_holes"
proof -
  have "{0..<2::int} = {0, 1}" "{1..<2::int} = {1}" by auto
  then show ?thesis by (simp add: holes_ok_def pdu_two_holes_def)
qed

text \<open>
  (C30) Adding a NACKed byte range that is inside the payload, is not the whole payload and
  overlaps no recorded hole succeeds while fewer than 31 holes are recorded, if no hole is
  recorded yet or the range starts behind the start of the first recorded hole (a range before it
  makes the code read index -1 of the hole arrays) and the payload has at most 32767 bytes; the
  holes of the PDU, sorted, disjoint and inside the payload with the enclosing range up to date,
  stay so, the missing bytes become exactly the old ones and the new range, and no other PDU
  changes.
\<close>

theorem add_hole_inserts_range:
  assumes "holes_ok (pdu_retrans_buffer e sn)" "0 \<le> s" "s \<le> t"
    "t < txp_payload_size (pdu_retrans_buffer e sn)" "txp_payload_size (pdu_retrans_buffer e sn) \<le> 0x7FFF"
    "\<not> (s = 0 \<and> t = txp_payload_size (pdu_retrans_buffer e sn) - 1)"
    "txp_num_holes (pdu_retrans_buffer e sn) < 31" "hole_bytes (pdu_retrans_buffer e sn) \<inter> {s..t} = {}"
    "txp_num_holes (pdu_retrans_buffer e sn) \<noteq> 0 \<Longrightarrow>
       txp_hole_so_start (pdu_retrans_buffer e sn) 0 \<le> s"
  shows "\<exists>e'. rlc_am_add_hole e f sn s t = Some e' \<and> holes_ok (pdu_retrans_buffer e' sn) \<and>
    hole_bytes (pdu_retrans_buffer e' sn) = hole_bytes (pdu_retrans_buffer e sn) \<union> {s..t} \<and>
    (\<forall>sn'. sn' \<noteq> sn \<longrightarrow> pdu_retrans_buffer e' sn' = pdu_retrans_buffer e sn')"
proof -
  obtain q where q: "add_hole_pdu s t (pdu_retrans_buffer e sn) = Some q"
    using add_hole_pdu_succeeds [OF assms(1-5,7-9)] by blast
  note r = add_hole_pdu_insert [OF assms(1) q assms(2,4,5,6)]
  show ?thesis by (auto simp: rlc_am_add_hole_def q r)
qed

theorem add_hole_inserts_range_witness:
  "\<exists>e'. rlc_am_add_hole entity_two_holes 0 7 25 30 = Some e' \<and>
     hole_bytes (pdu_retrans_buffer e' 7) = {10..19} \<union> {40..59} \<union> {25..30}"
proof -
  have free: "({10..19} \<union> {40..59}) \<inter> {25..30} = ({} :: int set)" by auto
  show ?thesis
    using add_hole_inserts_range [of entity_two_holes 7 25 30 0] free
    by (auto simp: pdu_two_holes_ok pdu_two_holes_bytes pdu_two_holes_size pdu_two_holes_start)
qed

text \<open>
  (C31) Removing the range that a retransmission has just covered never forgets a missing byte:
  every byte that was pending and is outside the removed range is pending afterwards.
\<close>

theorem remove_hole_forgets_nothing:
  assumes "rlc_am_remove_hole e f sn s t = Some e'"
    "txp_num_holes (pdu_retrans_buffer e sn) = 0 \<Longrightarrow>
       0 \<le> txp_nack_so_start (pdu_retrans_buffer e sn) \<and> txp_nack_so_stop (pdu_retrans_buffer e sn) \<le> 0x7FFF"
  shows "pending_bytes (pdu_retrans_buffer e sn) - {s..t} \<subseteq> pending_bytes (pdu_retrans_buffer e' sn) \<and>
    (\<forall>sn'. sn' \<noteq> sn \<longrightarrow> pdu_retrans_buffer e' sn' = pdu_retrans_buffer e sn')"
proof -
  from assms(1) obtain q where q: "remove_hole_pdu s t (pdu_retrans_buffer e sn) = Some q"
    and e': "e' = upd_pdu sn (\<lambda>_. q) e"
    by (auto simp: rlc_am_remove_hole_def)
  show ?thesis using remove_hole_pdu_keeps [OF q assms(2)] by (simp add: e')
qed

theorem remove_hole_forgets_nothing_witness:
  "\<exists>e'. rlc_am_remove_hole entity_two_holes 0 7 10 19 = Some e' \<and>
     {40..59} \<subseteq> pending_bytes (pdu_retrans_buffer e' 7)"
proof -
  have "\<exists>e'. rlc_am_remove_hole entity_two_holes 0 7 10 19 = Some e'"
    by (simp add: rlc_am_remove_hole_def remove_hole_pdu_def pdu_two_holes_def Let_def
        remove_hole_loop.simps shift_down_holes_pdu_def shift_down_loop.simps update_nack_range_def)
  then obtain e' where e': "rlc_am_remove_hole entity_two_holes 0 7 10 19 = Some e'" by blast
  have "{40..59} \<subseteq> pending_bytes pdu_two_holes - {10..19}"
    by (auto simp: pending_bytes_def pdu_two_holes_bytes pdu_two_holes_size)
  with e' remove_hole_forgets_nothing [OF e'] show ?thesis
    by (auto simp: pdu_two_holes_size)
qed

end
