(* ===== verification/Rlc_Am_Sdu.thy ===== *)
theory Rlc_Am_Sdu
  imports Rlc_Am_Timers
begin

text \<open>
  The ring of SDUs waiting to be segmented (\<^verbatim>\<open>rlc_am_in_sdu.c\<close>) and its producer
  \<^verbatim>\<open>rlc_am_data_req\<close> with the buffer occupancy it reports (\<^verbatim>\<open>rlc_am.c\<close>). The ring
  \<^verbatim>\<open>input_sdus[128]\<close> is indexed by \<^verbatim>\<open>current_sdu_index\<close> (the SDU being segmented) and
  \<^verbatim>\<open>next_sdu_index\<close> (the slot of the next SDU). The memory block of a slot is the byte
  sequence from its \<^verbatim>\<open>first_byte\<close> on.

  \<open>sdu_queue\<close> reads the ring as a FIFO queue of the bytes still to be segmented, \<open>sdu_ring_ok\<close> is
  the representation invariant, and the operations are shown to be the queue operations. The
  locale \<open>bounded_fifo\<close> states the contract of the producer towards PDCP: an accepted SDU goes
  to the end of the queue, a full queue drops it.
\<close>

record am_data_req =
  req_mui :: u32
  req_data_size :: int
  req_data_offset :: int
  req_conf :: int
  req_data :: "byte list"

subsection \<open>The ring\<close>

definition sdu_index_ok :: "int \<Rightarrow> bool" where
  "sdu_index_ok i \<longleftrightarrow> 0 \<le> i \<and> i < RLC_AM_SDU_CONTROL_BUFFER_SIZE"

definition ring_next :: "int \<Rightarrow> int" where
  "ring_next i = (i + 1) mod RLC_AM_SDU_CONTROL_BUFFER_SIZE"

text \<open>The loop of \<^verbatim>\<open>rlc_am_free_in_sdu\<close> that skips the slots already transmitted.\<close>

partial_function (option) free_in_sdu_skip :: "rlc_am_entity \<Rightarrow> rlc_am_entity option" where
  "free_in_sdu_skip e =
     (if current_sdu_index e \<noteq> next_sdu_index e then
        if \<not> sdu_index_ok (current_sdu_index e) then None
        else if sdu_transmitted_successfully (input_sdus e (current_sdu_index e))
        then free_in_sdu_skip (e\<lparr>current_sdu_index := ring_next (current_sdu_index e)\<rparr>)
        else Some e
      else Some e)"

definition rlc_am_free_in_sdu :: "rlc_am_entity \<Rightarrow> frame \<Rightarrow> int \<Rightarrow> rlc_am_entity option" where
  "rlc_am_free_in_sdu e frameP index_in_bufferP =
     (if 0 \<le> index_in_bufferP \<and> index_in_bufferP \<le> RLC_AM_SDU_CONTROL_BUFFER_SIZE then
        do {
          c_assert (sdu_index_ok index_in_bufferP);
          let e1 = (if sdu_mem_block (input_sdus e index_in_bufferP) \<noteq> None
                    then upd_sdu index_in_bufferP
                           (\<lambda>s. s\<lparr>sdu_mem_block := None, sdu_remaining_size := 0\<rparr>)
                           (e\<lparr>nb_sdu_no_segmented := nb_sdu_no_segmented e - 1\<rparr>)
                    else e);
          let e2 = e1\<lparr>nb_sdu := nb_sdu e1 - 1\<rparr>;
          let e3 = upd_sdu index_in_bufferP
                     (\<lambda>_. zero_tx_sdu\<lparr>sdu_transmitted_successfully := True\<rparr>) e2;
          let e4 = (if current_sdu_index e3 = index_in_bufferP
                    then e3\<lparr>current_sdu_index := ring_next (current_sdu_index e3)\<rparr> else e3);
          free_in_sdu_skip e4
        }
      else Some e)"

definition rlc_am_free_in_sdu_data :: "rlc_am_entity \<Rightarrow> int \<Rightarrow> rlc_am_entity option" where
  "rlc_am_free_in_sdu_data e index_in_bufferP =
     (if 0 \<le> index_in_bufferP \<and> index_in_bufferP \<le> RLC_AM_SDU_CONTROL_BUFFER_SIZE then
        do {
          c_assert (sdu_index_ok index_in_bufferP);
          Some (if sdu_mem_block (input_sdus e index_in_bufferP) \<noteq> None
                then upd_sdu index_in_bufferP
                       (\<lambda>s. s\<lparr>sdu_mem_block := None, sdu_remaining_size := 0\<rparr>)
                       (e\<lparr>nb_sdu_no_segmented := nb_sdu_no_segmented e - 1\<rparr>)
                else e)
        }
      else Some e)"

definition rlc_am_in_sdu_is_empty :: "rlc_am_entity \<Rightarrow> bool" where
  "rlc_am_in_sdu_is_empty e \<longleftrightarrow> nb_sdu e = 0"

subsection \<open>The producer\<close>

text \<open>The slot of a new SDU after the \<^verbatim>\<open>memset\<close> and the assignments of its fields.\<close>

definition new_tx_sdu :: "frame \<Rightarrow> am_data_req \<Rightarrow> rlc_am_tx_sdu_management" where
  "new_tx_sdu frameP sdu = zero_tx_sdu\<lparr>
     sdu_mem_block := Some (drop (nat (req_data_offset sdu)) (req_data sdu)),
     sdu_mui := req_mui sdu, sdu_size := req_data_size sdu,
     sdu_remaining_size := req_data_size sdu, sdu_segmented_size := 0,
     sdu_creation_time := frameP, sdu_nb_pdus := 0, sdu_nb_pdus_ack := 0,
     sdu_discarded := False, sdu_segmented := False, sdu_segmentation_in_progress := False,
     sdu_no_new_sdu_segmented_in_last_pdu := False\<rparr>"

definition rlc_am_data_req :: "rlc_am_entity \<Rightarrow> frame \<Rightarrow> am_data_req \<Rightarrow> rlc_am_entity option" where
  "rlc_am_data_req e frameP sdu =
     do {
       let i = next_sdu_index e;
       c_assert (sdu_index_ok i);
       if sdu_mem_block (input_sdus e i) = None \<and> \<not> sdu_segmented (input_sdus e i) \<and>
          ring_next i \<noteq> current_sdu_index e then
         do {
           let data_size = req_data_size sdu;
           Some (upd_sdu i (\<lambda>_. new_tx_sdu frameP sdu)
             (e\<lparr>stats := (stats e)\<lparr>stat_tx_pdcp_sdu := stat_tx_pdcp_sdu (stats e) + 1,
                     stat_tx_pdcp_bytes := stat_tx_pdcp_bytes (stats e) + word_of_int data_size\<rparr>,
                sdu_buffer_occupancy := sdu_buffer_occupancy e + data_size,
                nb_sdu := nb_sdu e + 1,
                nb_sdu_no_segmented := nb_sdu_no_segmented e + 1,
                next_sdu_index := ring_next i\<rparr>))
         }
       else
         Some (e\<lparr>stats := (stats e)\<lparr>
                 stat_tx_pdcp_sdu_discarded := stat_tx_pdcp_sdu_discarded (stats e) + 1,
                 stat_tx_pdcp_bytes_discarded :=
                   stat_tx_pdcp_bytes_discarded (stats e) + word_of_int (req_data_size sdu)\<rparr>\<rparr>)
     }"

text \<open>The overhead of the length indicators if every waiting SDU went into one PDU.\<close>

definition max_li_overhead :: "int \<Rightarrow> int" where
  "max_li_overhead nb = (if nb \<le> 1 then 0 else ((nb - 1) * 3) div 2 + (nb - 1) mod 2)"

definition rlc_am_get_buffer_occupancy_in_bytes :: "rlc_am_entity \<Rightarrow> frame \<Rightarrow> u32" where
  "rlc_am_get_buffer_occupancy_in_bytes e frameP =
     (if status_requested e \<and> \<not> running (t_status_prohibit e)
      then drop_bit 3 (15 + num_nack_sn e * (10 + 1) + num_nack_so e * (15 + 15 + 1) + 7)
      else let header_overhead = (if sdu_buffer_occupancy e = 0 then 0 else 2)
           in word_of_int (status_buffer_occupancy e + retransmission_buffer_occupancy e +
                sdu_buffer_occupancy e + max_li_overhead (nb_sdu_no_segmented e) + header_overhead))"

subsection \<open>Index arithmetic of a ring\<close>

text \<open>
  The \<open>k\<close>-th element of the ring is at position \<open>ring_slot h k\<close>, and a ring from \<open>h\<close> to
  \<open>t\<close> has \<open>ring_len h t\<close> elements.
\<close>

definition ring_len :: "int \<Rightarrow> int \<Rightarrow> int" where
  "ring_len h t = (t - h) mod RLC_AM_SDU_CONTROL_BUFFER_SIZE"

definition ring_slot :: "int \<Rightarrow> int \<Rightarrow> int" where
  "ring_slot h k = (h + k) mod RLC_AM_SDU_CONTROL_BUFFER_SIZE"

lemma ring_len_range [simp]: "0 \<le> ring_len h t" "ring_len h t < 128"
  by (simp_all add: ring_len_def)

lemma ring_slot_ok [simp]: "sdu_index_ok (ring_slot h k)"
  by (simp add: sdu_index_ok_def ring_slot_def)

lemma ring_next_ok [simp]: "sdu_index_ok (ring_next i)"
  by (simp add: sdu_index_ok_def ring_next_def)

lemma ring_slot_0 [simp]: "sdu_index_ok h \<Longrightarrow> ring_slot h 0 = h"
  by (simp add: ring_slot_def sdu_index_ok_def)

lemma ring_slot_len [simp]: "sdu_index_ok t \<Longrightarrow> ring_slot h (ring_len h t) = t"
  by (simp add: ring_slot_def ring_len_def mod_add_right_eq sdu_index_ok_def)

lemma ring_slot_inj:
  assumes "0 \<le> j" "j < 128" "0 \<le> k" "k < 128" "ring_slot h j = ring_slot h k"
  shows "j = k"
proof -
  have "(h + j - h) mod 128 = (h + k - h) mod 128"
    using assms(5) unfolding ring_slot_def by (metis mod_diff_left_eq)
  with assms show ?thesis by simp
qed

lemma ring_len_push:
  "ring_next t \<noteq> h \<Longrightarrow> sdu_index_ok h \<Longrightarrow> sdu_index_ok t \<Longrightarrow>
     ring_len h (ring_next t) = ring_len h t + 1"
  unfolding ring_len_def ring_next_def sdu_index_ok_def
  by (simp add: mod_add_less_cases mod_diff_less_cases split: if_splits)

lemma ring_full_iff:
  "sdu_index_ok h \<Longrightarrow> sdu_index_ok t \<Longrightarrow> ring_next t = h \<longleftrightarrow> ring_len h t = 127"
  unfolding ring_len_def ring_next_def sdu_index_ok_def
  by (auto simp: mod_add_less_cases mod_diff_less_cases split: if_splits)

lemma ring_len_pop:
  "0 < ring_len h t \<Longrightarrow> sdu_index_ok h \<Longrightarrow> sdu_index_ok t \<Longrightarrow>
     ring_len (ring_next h) t = ring_len h t - 1"
  unfolding ring_len_def ring_next_def sdu_index_ok_def
  by (simp add: mod_add_less_cases mod_diff_less_cases split: if_splits)

lemma ring_slot_pop: "ring_slot (ring_next h) k = ring_slot h (k + 1)"
  by (simp add: ring_slot_def ring_next_def mod_add_left_eq add.assoc add.commute [of k])

lemma ring_empty_iff: "sdu_index_ok h \<Longrightarrow> sdu_index_ok t \<Longrightarrow> ring_len h t = 0 \<longleftrightarrow> t = h"
  unfolding ring_len_def sdu_index_ok_def by (auto simp: mod_diff_less_cases split: if_splits)

subsection \<open>The ring as a queue\<close>

text \<open>The bytes of an SDU that no PDU carries yet.\<close>

definition sdu_rest :: "rlc_am_tx_sdu_management \<Rightarrow> byte list" where
  "sdu_rest s = (case sdu_mem_block s of None \<Rightarrow> []
     | Some d \<Rightarrow> take (nat (sdu_remaining_size s)) (drop (nat (sdu_segmented_size s)) d))"

definition sdu_slot_ok :: "rlc_am_tx_sdu_management \<Rightarrow> bool" where
  "sdu_slot_ok s \<longleftrightarrow> (case sdu_mem_block s of None \<Rightarrow> False | Some d \<Rightarrow> sdu_size s \<le> int (length d)) \<and>
     0 \<le> sdu_segmented_size s \<and> 0 \<le> sdu_remaining_size s \<and>
     sdu_segmented_size s + sdu_remaining_size s = sdu_size s \<and> \<not> sdu_transmitted_successfully s"

abbreviation sdu_count :: "rlc_am_entity \<Rightarrow> int" where
  "sdu_count e \<equiv> ring_len (current_sdu_index e) (next_sdu_index e)"

abbreviation sdu_at :: "rlc_am_entity \<Rightarrow> int \<Rightarrow> rlc_am_tx_sdu_management" where
  "sdu_at e k \<equiv> input_sdus e (ring_slot (current_sdu_index e) k)"

definition sdu_queue :: "rlc_am_entity \<Rightarrow> byte list list" where
  "sdu_queue e = map (\<lambda>k. sdu_rest (sdu_at e (int k))) [0..<nat (sdu_count e)]"

definition sdu_ring_ok :: "rlc_am_entity \<Rightarrow> bool" where
  "sdu_ring_ok e \<longleftrightarrow> sdu_index_ok (current_sdu_index e) \<and> sdu_index_ok (next_sdu_index e) \<and>
     (\<forall>k\<in>{0..<sdu_count e}. sdu_slot_ok (sdu_at e k)) \<and>
     (\<forall>k\<in>{sdu_count e..<128}. sdu_mem_block (sdu_at e k) = None \<and> \<not> sdu_segmented (sdu_at e k)) \<and>
     nb_sdu_no_segmented e = sdu_count e \<and>
     sdu_buffer_occupancy e = int (length (concat (sdu_queue e)))"

lemma length_sdu_queue [simp]: "length (sdu_queue e) = nat (sdu_count e)"
  by (simp add: sdu_queue_def)

lemma sdu_queue_length_bound: "length (sdu_queue e) \<le> 127"
  using ring_len_range(2) [of "current_sdu_index e" "next_sdu_index e"]
  unfolding length_sdu_queue by linarith

lemma length_sdu_rest: "sdu_slot_ok s \<Longrightarrow> int (length (sdu_rest s)) = sdu_remaining_size s"
  by (auto simp: sdu_rest_def sdu_slot_ok_def split: option.splits)

lemma sdu_ring_okD:
  assumes "sdu_ring_ok e"
  shows "sdu_index_ok (current_sdu_index e)" "sdu_index_ok (next_sdu_index e)"
    "0 \<le> k \<Longrightarrow> k < sdu_count e \<Longrightarrow> sdu_slot_ok (sdu_at e k)"
    "sdu_count e \<le> k \<Longrightarrow> k < 128 \<Longrightarrow> sdu_mem_block (sdu_at e k) = None"
    "sdu_count e \<le> k \<Longrightarrow> k < 128 \<Longrightarrow> \<not> sdu_segmented (sdu_at e k)"
    "nb_sdu_no_segmented e = sdu_count e"
    "sdu_buffer_occupancy e = int (length (concat (sdu_queue e)))"
  using assms by (simp_all add: sdu_ring_ok_def)

lemma upt_Suc_nat: "0 \<le> n \<Longrightarrow> [0..<nat (n + 1)] = [0..<nat n] @ [nat n]"
  by (simp add: nat_add_distrib)

definition valid_data_req :: "am_data_req \<Rightarrow> bool" where
  "valid_data_req r \<longleftrightarrow> 0 \<le> req_data_offset r \<and> 0 \<le> req_data_size r \<and>
     req_data_offset r + req_data_size r \<le> int (length (req_data r))"

definition req_bytes :: "am_data_req \<Rightarrow> byte list" where
  "req_bytes r = take (nat (req_data_size r)) (drop (nat (req_data_offset r)) (req_data r))"

lemma data_req_push:
  assumes ok: "sdu_ring_ok e" and v: "valid_data_req r" and room: "length (sdu_queue e) < 127"
  shows "\<exists>e'. rlc_am_data_req e f r = Some e' \<and> sdu_ring_ok e' \<and>
    sdu_queue e' = sdu_queue e @ [req_bytes r]"
proof -
  let ?n = "next_sdu_index e" and ?c = "current_sdu_index e" and ?len = "sdu_count e"
  note D = sdu_ring_okD [OF ok]
  have free: "sdu_mem_block (input_sdus e ?n) = None" "\<not> sdu_segmented (input_sdus e ?n)"
    using D(4,5) [of ?len] D(2) by simp_all
  have "?len < 127" using room by simp
  then have nf: "ring_next ?n \<noteq> ?c" using ring_full_iff [OF D(1,2)] by simp
  let ?s = "new_tx_sdu f r"
  have s: "sdu_slot_ok ?s" "sdu_rest ?s = req_bytes r"
    using v by (auto simp: sdu_slot_ok_def sdu_rest_def new_tx_sdu_def req_bytes_def
        valid_data_req_def zero_tx_sdu_def)
  define e' where "e' = the (rlc_am_data_req e f r)"
  have e': "rlc_am_data_req e f r = Some e'"
    using free nf D(2) by (simp add: rlc_am_data_req_def Let_def e'_def)
  have new: "current_sdu_index e' = ?c" "next_sdu_index e' = ring_next ?n"
      "nb_sdu_no_segmented e' = nb_sdu_no_segmented e + 1"
      "sdu_buffer_occupancy e' = sdu_buffer_occupancy e + req_data_size r"
      "input_sdus e' = (input_sdus e)(?n := ?s)"
    using free nf D(2) by (simp_all add: rlc_am_data_req_def Let_def e'_def)
  have cnt: "sdu_count e' = ?len + 1"
    using ring_len_push [OF nf D(1,2)] by (simp add: new)
  have at: "sdu_at e' k = (if k = ?len then ?s else sdu_at e k)" if "0 \<le> k" "k < 128" for k
  proof -
    have "ring_slot ?c k = ?n \<longleftrightarrow> k = ?len"
      using that ring_slot_inj [of k ?len ?c] ring_slot_len [OF D(2), of ?c] by auto
    then show ?thesis unfolding new by simp
  qed
  have q: "sdu_queue e' = sdu_queue e @ [req_bytes r]"
    unfolding sdu_queue_def cnt
    using \<open>?len < 127\<close> by (auto simp: upt_Suc_nat at s(2))
  have "int (length (req_bytes r)) = req_data_size r"
    using v by (auto simp: req_bytes_def valid_data_req_def)
  moreover have "sdu_slot_ok (sdu_at e' k)" if "0 \<le> k" "k < ?len + 1" for k
    using that at [of k] D(3) [of k] s(1) \<open>?len < 127\<close> by (cases "k = ?len") simp_all
  moreover have "sdu_mem_block (sdu_at e' k) = None \<and> \<not> sdu_segmented (sdu_at e' k)"
    if "?len + 1 \<le> k" "k < 128" for k
    using that at [of k] D(4,5) [of k] ring_len_range(1) [of ?c ?n] by simp
  ultimately have "sdu_ring_ok e'"
    unfolding sdu_ring_ok_def cnt using D(1,6,7) q by (simp add: new)
  with e' q show ?thesis by blast
qed

lemma data_req_full:
  assumes ok: "sdu_ring_ok e" and full: "length (sdu_queue e) = 127"
  shows "\<exists>e'. rlc_am_data_req e f r = Some e' \<and> sdu_ring_ok e' \<and> sdu_queue e' = sdu_queue e \<and>
    stat_tx_pdcp_sdu_discarded (stats e') = stat_tx_pdcp_sdu_discarded (stats e) + 1"
proof -
  note D = sdu_ring_okD [OF ok]
  have "sdu_count e = 127" using full by simp
  then have "ring_next (next_sdu_index e) = current_sdu_index e"
    using ring_full_iff [OF D(1,2)] by simp
  with D show ?thesis
    by (simp add: rlc_am_data_req_def Let_def sdu_ring_ok_def sdu_queue_def)
qed

subsection \<open>The contract of the producer\<close>

text \<open>
  A bounded FIFO whose \<open>enq\<close> appends an item while there is room and leaves a full queue alone.
\<close>

locale bounded_fifo =
  fixes ok :: "'s \<Rightarrow> bool" and queue :: "'s \<Rightarrow> 'b list" and enq :: "'s \<Rightarrow> 'x \<Rightarrow> 's option"
    and valid :: "'x \<Rightarrow> bool" and item :: "'x \<Rightarrow> 'b" and cap :: nat
  assumes bounded: "length (queue s) \<le> cap"
    and enq_room: "ok s \<Longrightarrow> valid x \<Longrightarrow> length (queue s) < cap \<Longrightarrow>
      \<exists>s'. enq s x = Some s' \<and> ok s' \<and> queue s' = queue s @ [item x]"
    and enq_full: "ok s \<Longrightarrow> length (queue s) = cap \<Longrightarrow>
      \<exists>s'. enq s x = Some s' \<and> ok s' \<and> queue s' = queue s"
begin

text \<open>A burst of requests fills the queue in order and loses exactly those beyond its capacity.\<close>

lemma burst:
  "ok s \<Longrightarrow> list_all valid xs \<Longrightarrow>
     \<exists>s'. fold (\<lambda>x m. m \<bind> (\<lambda>t. enq t x)) xs (Some s) = Some s' \<and> ok s' \<and>
       queue s' = queue s @ take (cap - length (queue s)) (map item xs)"
proof (induction xs arbitrary: s)
  case Nil
  then show ?case by simp
next
  case (Cons x xs)
  show ?case
  proof (cases "length (queue s) < cap")
    case True
    then obtain s1 where s1: "enq s x = Some s1" "ok s1" "queue s1 = queue s @ [item x]"
      using enq_room [of s x] Cons.prems by auto
    have "cap - length (queue s) = Suc (cap - Suc (length (queue s)))" using True by simp
    then show ?thesis using Cons.IH [of s1] Cons.prems s1 by auto
  next
    case False
    then have "length (queue s) = cap" using bounded [of s] by simp
    then obtain s1 where "enq s x = Some s1" "ok s1" "queue s1 = queue s"
      using enq_full [of s x] Cons.prems by auto
    then show ?thesis using Cons.IH [of s1] Cons.prems False by auto
  qed
qed

end

interpretation sdu_fifo: bounded_fifo sdu_ring_ok sdu_queue "\<lambda>e r. rlc_am_data_req e f r"
    valid_data_req req_bytes 127 for f
proof unfold_locales
  show "length (sdu_queue s) \<le> 127" for s by (rule sdu_queue_length_bound)
qed (use data_req_push data_req_full in blast)+

subsection \<open>Releasing an acknowledged SDU\<close>

lemma free_in_sdu_skip_returns:
  "sdu_index_ok (current_sdu_index e) \<Longrightarrow> sdu_index_ok (next_sdu_index e) \<Longrightarrow>
     \<exists>c. free_in_sdu_skip e = Some (e\<lparr>current_sdu_index := c\<rparr>) \<and> sdu_index_ok c"
proof (induction "nat (sdu_count e)" arbitrary: e rule: less_induct)
  case less
  let ?e = "e\<lparr>current_sdu_index := ring_next (current_sdu_index e)\<rparr>"
  show ?case
  proof (cases "current_sdu_index e \<noteq> next_sdu_index e \<and>
      sdu_transmitted_successfully (input_sdus e (current_sdu_index e))")
    case True
    then have pos: "0 < sdu_count e"
      using ring_empty_iff [OF less.prems] ring_len_range(1) [of "current_sdu_index e" "next_sdu_index e"]
      by linarith
    then have "sdu_count ?e = sdu_count e - 1"
      using ring_len_pop [OF _ less.prems] by simp
    with pos less.hyps [of ?e] less.prems obtain c where
      "free_in_sdu_skip ?e = Some (e\<lparr>current_sdu_index := c\<rparr>)" "sdu_index_ok c" by auto
    with True less.prems show ?thesis by (subst free_in_sdu_skip.simps) auto
  next
    case False
    then show ?thesis using less.prems
      by (subst free_in_sdu_skip.simps) (auto intro!: exI [of _ "current_sdu_index e"])
  qed
qed

lemma free_in_sdu_skip_idle:
  assumes "sdu_ring_ok e"
  shows "free_in_sdu_skip e = Some e"
proof -
  note D = sdu_ring_okD [OF assms]
  have "\<not> sdu_transmitted_successfully (input_sdus e (current_sdu_index e))"
    if "current_sdu_index e \<noteq> next_sdu_index e"
  proof -
    have "0 < sdu_count e"
      using that ring_empty_iff [OF D(1,2)] ring_len_range(1) [of "current_sdu_index e" "next_sdu_index e"]
      by linarith
    from D(3) [OF _ this] D(1) show ?thesis by (simp add: sdu_slot_ok_def)
  qed
  then show ?thesis using D(1) by (subst free_in_sdu_skip.simps) auto
qed

text \<open>A slot that holds no waiting SDU can be released without touching the queue.\<close>

lemma free_in_sdu_keeps_queue:
  assumes ok: "sdu_ring_ok e" and k: "sdu_count e \<le> k" "k < 128" "k \<noteq> 0"
    and i: "i = ring_slot (current_sdu_index e) k"
  shows "\<exists>e'. rlc_am_free_in_sdu e f i = Some e' \<and> sdu_ring_ok e' \<and> sdu_queue e' = sdu_queue e \<and>
    nb_sdu e' = nb_sdu e - 1 \<and> sdu_transmitted_successfully (input_sdus e' i)"
proof -
  note D = sdu_ring_okD [OF ok]
  let ?s = "zero_tx_sdu\<lparr>sdu_transmitted_successfully := True\<rparr>"
  let ?e = "upd_sdu i (\<lambda>_. ?s) (e\<lparr>nb_sdu := nb_sdu e - 1\<rparr>)"
  have k0: "0 \<le> k" using k(1) ring_len_range(1) [of "current_sdu_index e" "next_sdu_index e"] by linarith
  have at: "sdu_at ?e j = (if j = k then ?s else sdu_at e j)" if "0 \<le> j" "j < 128" for j
    using that k k0 ring_slot_inj [of j k "current_sdu_index e"] by (auto simp: i)
  have ne: "current_sdu_index e \<noteq> i"
    using ring_slot_inj [of 0 k "current_sdu_index e"] D(1) k k0 by (auto simp: i)
  have q: "sdu_queue ?e = sdu_queue e"
    unfolding sdu_queue_def
  proof (rule map_cong)
    fix j assume "j \<in> set [0..<nat (sdu_count e)]"
    then have "int j < sdu_count e" by simp
    with k at [of "int j"] show "sdu_rest (sdu_at ?e (int j)) = sdu_rest (sdu_at e (int j))" by simp
  qed simp
  have "sdu_slot_ok (sdu_at ?e j)" if "0 \<le> j" "j < sdu_count e" for j
    using at [of j] D(3) [OF that] that k by simp
  moreover have "sdu_mem_block (sdu_at ?e j) = None \<and> \<not> sdu_segmented (sdu_at ?e j)"
    if "sdu_count e \<le> j" "j < 128" for j
    using at [of j] D(4,5) [OF that] that ring_len_range(1) [of "current_sdu_index e" "next_sdu_index e"]
    by (simp add: zero_tx_sdu_def)
  ultimately have ok': "sdu_ring_ok ?e"
    using D(1,2,6,7) q unfolding sdu_ring_ok_def by simp
  have "sdu_mem_block (input_sdus e i) = None" "sdu_index_ok i" using D(4) [OF k(1,2)] by (simp_all add: i)
  then have "rlc_am_free_in_sdu e f i = free_in_sdu_skip ?e"
    using ne by (simp add: rlc_am_free_in_sdu_def Let_def sdu_index_ok_def)
  with free_in_sdu_skip_idle [OF ok'] ok' q show ?thesis by simp
qed

text \<open>
  The guard of \<^verbatim>\<open>rlc_am_data_req\<close> tests \<^verbatim>\<open>flags.segmented\<close>, which no code sets: the slot of
  an SDU that is segmented but not yet acknowledged is given to the next SDU when the ring comes
  round to it.
\<close>

lemma data_req_reuses_unacknowledged_slot:
  assumes "sdu_ring_ok e" "sdu_count e < 127"
    "sdu_nb_pdus_ack (input_sdus e (next_sdu_index e)) < sdu_nb_pdus (input_sdus e (next_sdu_index e))"
  shows "\<exists>e'. rlc_am_data_req e f r = Some e' \<and> sdu_nb_pdus (input_sdus e' (next_sdu_index e)) = 0 \<and>
    input_sdus e' (next_sdu_index e) = new_tx_sdu f r"
proof -
  note D = sdu_ring_okD [OF assms(1)]
  have "sdu_mem_block (input_sdus e (next_sdu_index e)) = None"
    "\<not> sdu_segmented (input_sdus e (next_sdu_index e))"
    using D(4,5) [of "sdu_count e"] D(2) by simp_all
  moreover have "ring_next (next_sdu_index e) \<noteq> current_sdu_index e"
    using ring_full_iff [OF D(1,2)] assms(2) by simp
  ultimately show ?thesis using D(2) by (simp add: rlc_am_data_req_def Let_def new_tx_sdu_def)
qed

subsection \<open>The input queue\<close>

lemma sdu_ring_ok_zero: "sdu_ring_ok zero_entity" "sdu_queue zero_entity = []"
  by (simp_all add: sdu_ring_ok_def sdu_queue_def zero_entity_def zero_tx_sdu_def sdu_index_ok_def
      ring_len_def)

text \<open>
  (C24) A burst of SDU requests from PDCP is queued in order behind the SDUs already waiting:
  the bytes of the first requests are appended as far as the 127 places of the ring go, the
  others are discarded, and the ring stays well formed throughout (its counters
  \<^verbatim>\<open>nb_sdu_no_segmented\<close> and \<^verbatim>\<open>sdu_buffer_occupancy\<close> included).
\<close>

theorem data_req_is_fifo:
  assumes "sdu_ring_ok e" "list_all valid_data_req rs"
  shows "\<exists>e'. fold (\<lambda>r m. m \<bind> (\<lambda>t. rlc_am_data_req t f r)) rs (Some e) = Some e' \<and> sdu_ring_ok e' \<and>
    sdu_queue e' = sdu_queue e @ take (127 - length (sdu_queue e)) (map req_bytes rs)"
  by (rule sdu_fifo.burst [OF assms])

theorem data_req_is_fifo_witness:
  "\<exists>e'. rlc_am_data_req zero_entity 5 \<lparr>req_mui = 1, req_data_size = 2, req_data_offset = 1,
       req_conf = 0, req_data = [9, 10, 11]\<rparr> = Some e' \<and> sdu_queue e' = [[10, 11]]"
  using data_req_is_fifo [of zero_entity "[\<lparr>req_mui = 1, req_data_size = 2, req_data_offset = 1,
       req_conf = 0, req_data = [9, 10, 11]\<rparr>]" 5] sdu_ring_ok_zero
  by (auto simp: valid_data_req_def req_bytes_def)

end
