(* ===== verification/Rlc_Am_Init.thy ===== *)
theory Rlc_Am_Init
  imports Rlc_Am_Sdu
begin

text \<open>
  Life cycle and configuration of an AM entity: \<^verbatim>\<open>rlc_am_init.c\<close> and the configuration and
  statistics requests of \<^verbatim>\<open>rlc_am.c\<close>. The hash table \<^verbatim>\<open>rlc_coll_p\<close> that holds the entities
  is a map from keys to entities; \<open>rlc_coll_key\<close> is the macro \<^verbatim>\<open>RLC_COLL_KEY_VALUE\<close>. The two
  history fields of the model survive a \<^verbatim>\<open>memset\<close> of the entity, which owns no memory of what
  it delivered.
\<close>

type_synonym rlc_coll = "int \<rightharpoonup> rlc_am_entity"

record rlc_am_info =
  cfg_max_retx_threshold :: int
  cfg_poll_pdu :: u16
  cfg_poll_byte :: u16
  cfg_t_poll_retransmit :: u32
  cfg_t_reordering :: u32
  cfg_t_status_prohibit :: u32

record rlc_config_am =
  asn_maxRetxThreshold :: nat
  asn_pollPDU :: nat
  asn_pollByte :: nat
  asn_t_PollRetransmit :: nat
  asn_t_Reordering :: nat
  asn_t_StatusProhibit :: nat

subsection \<open>Initialisation and release\<close>

definition cleared_entity :: "rlc_am_entity \<Rightarrow> rlc_am_entity" where
  "cleared_entity e = zero_entity\<lparr>log_data_ind := log_data_ind e, log_data_conf := log_data_conf e\<rparr>"

definition rlc_am_init :: "rlc_am_entity \<Rightarrow> frame \<Rightarrow> rlc_am_entity" where
  "rlc_am_init e frameP =
     (if initialized e then e
      else (cleared_entity e)\<lparr>vt_ms := 0 + RLC_AM_WINDOW_SIZE, vr_mr := 0 + RLC_AM_WINDOW_SIZE,
              last_frame_status_indication := 123456, first_retrans_pdu_sn := - 1,
              initialized := True\<rparr>)"

definition rlc_am_reestablish :: "rlc_am_entity \<Rightarrow> frame \<Rightarrow> rlc_am_entity" where
  "rlc_am_reestablish e frameP =
     e\<lparr>receiver_buffer := [], pdus_to_mac_layer := [], control_pdu_list := [],
       segmentation_pdu_list := [],
       vt_a := 0, vt_ms := 0 + RLC_AM_WINDOW_SIZE, vt_s := 0, poll_sn := 0,
       c_pdu_without_poll := 0, c_byte_without_poll := 0,
       vr_r := 0, vr_mr := 0 + RLC_AM_WINDOW_SIZE, vr_x := 0, vr_ms := 0, vr_h := 0,
       last_frame_status_indication := 123456, first_retrans_pdu_sn := - 1,
       initialized := True\<rparr>"

text \<open>
  The release frees both arrays and clears the structure: the arrays become \<^verbatim>\<open>NULL\<close> pointers, which
  the model does not tell from arrays of empty elements. An entity with \<^verbatim>\<open>initialized\<close> unset is only
  used again after \<^verbatim>\<open>rlc_am_init\<close>, which allocates both.
\<close>

definition rlc_am_cleanup :: "rlc_am_entity \<Rightarrow> rlc_am_entity" where
  "rlc_am_cleanup e = cleared_entity e"

definition rlc_am_configure ::
  "rlc_am_entity \<Rightarrow> frame \<Rightarrow> int \<Rightarrow> u16 \<Rightarrow> u16 \<Rightarrow> u32 \<Rightarrow> u32 \<Rightarrow> u32 \<Rightarrow> rlc_am_entity" where
  "rlc_am_configure e frameP max_retx_thresholdP poll_pduP poll_byteP
     t_poll_retransmitP t_reorderingP t_status_prohibitP =
     (let e1 = e\<lparr>max_retx_threshold := max_retx_thresholdP, poll_pdu := poll_pduP,
                 poll_byte := poll_byteP, protocol_state := RLC_DATA_TRANSFER_READY_STATE\<rparr>
      in if configured e
         then e1\<lparr>t_poll_retransmit := (t_poll_retransmit e1)\<lparr>time_out := t_poll_retransmitP\<rparr>,
                 t_reordering := (t_reordering e1)\<lparr>time_out := t_reorderingP\<rparr>,
                 t_status_prohibit := (t_status_prohibit e1)\<lparr>time_out := t_status_prohibitP\<rparr>\<rparr>
         else (rlc_am_init_timer_status_prohibit
                (rlc_am_init_timer_reordering
                  (rlc_am_init_timer_poll_retransmit e1 t_poll_retransmitP) t_reorderingP)
                t_status_prohibitP)\<lparr>configured := True\<rparr>)"

definition rlc_am_set_debug_infos ::
  "rlc_am_entity \<Rightarrow> frame \<Rightarrow> int \<Rightarrow> int \<Rightarrow> int \<Rightarrow> int \<Rightarrow> int \<Rightarrow> rlc_am_entity" where
  "rlc_am_set_debug_infos e frameP eNB_flagP srb_flagP enb_module_idP ue_module_idP rb_idP =
     e\<lparr>enb_module_id := to_uint8 enb_module_idP, ue_module_id := to_uint8 ue_module_idP,
       rb_id := to_uint16 rb_idP, is_data_plane := (to_int8 srb_flagP = 0),
       is_enb := (to_int8 eNB_flagP \<noteq> 0)\<rparr>"

subsection \<open>Configuration requests\<close>

definition rlc_coll_key :: "int \<Rightarrow> int \<Rightarrow> int \<Rightarrow> int \<Rightarrow> int \<Rightarrow> int" where
  "rlc_coll_key eNB_iD uE_iD iS_eNB rB_iD iS_sRB =
     (((eNB_iD OR push_bit 8 uE_iD) OR push_bit 16 iS_eNB) OR push_bit 17 rB_iD) OR push_bit 25 iS_sRB"

definition config_req_rlc_am ::
  "rlc_coll \<Rightarrow> int \<Rightarrow> int \<Rightarrow> frame \<Rightarrow> int \<Rightarrow> int \<Rightarrow> rlc_am_info \<Rightarrow> int \<Rightarrow> rlc_coll" where
  "config_req_rlc_am coll enb_module_idP ue_module_idP frameP eNB_flagP srb_flagP cfg rb_idP =
     (let key = rlc_coll_key enb_module_idP ue_module_idP eNB_flagP rb_idP srb_flagP
      in case coll key of
           None \<Rightarrow> coll
         | Some e \<Rightarrow> coll(key \<mapsto>
             rlc_am_configure
               (rlc_am_set_debug_infos (rlc_am_init e frameP) frameP eNB_flagP
                  enb_module_idP ue_module_idP rb_idP srb_flagP)
               frameP (cfg_max_retx_threshold cfg) (cfg_poll_pdu cfg) (cfg_poll_byte cfg)
               (cfg_t_poll_retransmit cfg) (cfg_t_reordering cfg) (cfg_t_status_prohibit cfg)))"

definition pollPDU_tab :: "nat list" where
  "pollPDU_tab = [4, 8, 16, 32, 64, 128, 256, 1024]"

definition maxRetxThreshold_tab :: "nat list" where
  "maxRetxThreshold_tab = [1, 2, 3, 4, 6, 8, 16, 32]"

definition pollByte_tab :: "nat list" where
  "pollByte_tab = [25, 50, 75, 100, 125, 250, 375, 500, 750, 1000, 1250, 1500, 2000, 3000, 10000]"

definition PollRetransmit_tab :: "nat list" where
  "PollRetransmit_tab = [5, 10, 15, 20, 25, 30, 35, 40, 45, 50, 55, 60, 65, 70, 75, 80, 85, 90, 95,
     100, 105, 110, 115, 120, 125, 130, 135, 140, 145, 150, 155, 160, 165, 170, 175, 180, 185, 190,
     195, 200, 205, 210, 215, 220, 225, 230, 235, 240, 245, 250, 300, 350, 400, 450, 500]"

definition am_t_Reordering_tab :: "nat list" where
  "am_t_Reordering_tab = [0, 5, 10, 15, 20, 25, 30, 35, 40, 45, 50, 55, 60, 65, 70, 75, 80, 85, 90,
     95, 100, 110, 120, 130, 140, 150, 160, 170, 180, 190, 200]"

definition t_StatusProhibit_tab :: "nat list" where
  "t_StatusProhibit_tab = [0, 5, 10, 15, 20, 25, 30, 35, 40, 45, 50, 55, 60, 65, 70, 75, 80, 85, 90,
     95, 100, 105, 110, 115, 120, 125, 130, 135, 140, 145, 150, 155, 160, 165, 170, 175, 180, 185,
     190, 195, 200, 205, 210, 215, 220, 225, 230, 235, 240, 245, 250, 300, 350, 400, 450, 500]"

text \<open>
  The enumerators the guards compare with are generated from the ASN.1 enumerations
  \<^verbatim>\<open>UL-AM-RLC\<close> and \<^verbatim>\<open>DL-AM-RLC\<close>: each is the position of the last value, or of the first
  spare one.
\<close>

definition config_am_valid :: "rlc_config_am \<Rightarrow> bool" where
  "config_am_valid c \<longleftrightarrow> asn_maxRetxThreshold c \<le> 7 \<and> asn_pollPDU c \<le> 7 \<and>
     asn_pollByte c < 15 \<and> asn_t_PollRetransmit c < 55 \<and> asn_t_Reordering c < 31 \<and>
     asn_t_StatusProhibit c < 56"

definition config_req_rlc_am_asn1 ::
  "rlc_coll \<Rightarrow> int \<Rightarrow> int \<Rightarrow> frame \<Rightarrow> int \<Rightarrow> int \<Rightarrow> rlc_config_am \<Rightarrow> int \<Rightarrow> rlc_coll" where
  "config_req_rlc_am_asn1 coll enb_module_idP ue_module_idP frameP eNB_flagP srb_flagP cfg rb_idP =
     (let key = rlc_coll_key enb_module_idP ue_module_idP eNB_flagP rb_idP srb_flagP
      in case coll key of
           None \<Rightarrow> coll
         | Some e \<Rightarrow>
             if config_am_valid cfg then coll(key \<mapsto>
               rlc_am_configure
                 (rlc_am_set_debug_infos (rlc_am_init e frameP) frameP eNB_flagP srb_flagP
                    enb_module_idP ue_module_idP rb_idP)
                 frameP (int (maxRetxThreshold_tab ! asn_maxRetxThreshold cfg))
                 (of_nat (pollPDU_tab ! asn_pollPDU cfg)) (of_nat (pollByte_tab ! asn_pollByte cfg))
                 (of_nat (PollRetransmit_tab ! asn_t_PollRetransmit cfg))
                 (of_nat (am_t_Reordering_tab ! asn_t_Reordering cfg))
                 (of_nat (t_StatusProhibit_tab ! asn_t_StatusProhibit cfg)))
             else coll)"

subsection \<open>Statistics\<close>

text \<open>\<^verbatim>\<open>rlc_am_stat_req\<close> copies the twenty-seven counters, in declaration order.\<close>

definition rlc_am_stat_req :: "rlc_am_entity \<Rightarrow> u32 list" where
  "rlc_am_stat_req e = (let s = stats e in
     [stat_tx_pdcp_sdu s, stat_tx_pdcp_bytes s, stat_tx_pdcp_sdu_discarded s,
      stat_tx_pdcp_bytes_discarded s, stat_tx_data_pdu s, stat_tx_data_bytes s,
      stat_tx_retransmit_pdu_by_status s, stat_tx_retransmit_bytes_by_status s,
      stat_tx_retransmit_pdu s, stat_tx_retransmit_bytes s, stat_tx_control_pdu s,
      stat_tx_control_bytes s, stat_rx_pdcp_sdu s, stat_rx_pdcp_bytes s,
      stat_rx_data_pdus_duplicate s, stat_rx_data_bytes_duplicate s, stat_rx_data_pdu s,
      stat_rx_data_bytes s, stat_rx_data_pdu_dropped s, stat_rx_data_bytes_dropped s,
      stat_rx_data_pdu_out_of_window s, stat_rx_data_bytes_out_of_window s,
      stat_rx_control_pdu s, stat_rx_control_bytes s, stat_timer_reordering_timed_out s,
      stat_timer_poll_retransmit_timed_out s, stat_timer_status_prohibit_timed_out s])"

subsection \<open>Keys\<close>

lemma coll_key_sum:
  assumes "0 \<le> a" "a < 256" "0 \<le> b" "b < 256" "0 \<le> c" "c < 2" "0 \<le> d" "d < 256"
  shows "rlc_coll_key a b c d s = a + b * 256 + c * 65536 + d * 131072 + s * 33554432"
proof -
  have 1: "a OR push_bit 8 b = a + b * 256"
    using or_push_bit_add [of a 8 b] assms by simp
  have 2: "(a + b * 256) OR push_bit 16 c = a + b * 256 + c * 65536"
    using or_push_bit_add [of "a + b * 256" 16 c] assms by simp
  have 3: "(a + b * 256 + c * 65536) OR push_bit 17 d = a + b * 256 + c * 65536 + d * 131072"
    using or_push_bit_add [of "a + b * 256 + c * 65536" 17 d] assms by simp
  have 4: "(a + b * 256 + c * 65536 + d * 131072) OR push_bit 25 s =
      a + b * 256 + c * 65536 + d * 131072 + s * 33554432"
    using or_push_bit_add [of "a + b * 256 + c * 65536 + d * 131072" 25 s] assms by simp
  show ?thesis unfolding rlc_coll_key_def by (simp only: 1 2 3 4)
qed

lemma radix_step:
  fixes a b a' b' m :: int
  assumes "0 \<le> a" "a < m" "0 \<le> a'" "a' < m" "a + b * m = a' + b' * m"
  shows "a = a' \<and> b = b'"
proof -
  have "a = (a + b * m) mod m" "a' = (a' + b' * m) mod m" using assms(1-4) by simp_all
  then have "a = a'" using assms(5) by simp
  with assms show ?thesis by auto
qed

text \<open>
  Bearers do not share an entity: the collection key of \<^verbatim>\<open>RLC_COLL_KEY_VALUE\<close> determines
  the two module identifiers, the side, the bearer and the signalling flag, for identifiers that
  fit the eight bits each of them has in the key.
\<close>

theorem rlc_coll_key_injective:
  assumes "{a, a', b, b', d, d'} \<subseteq> {0..<256}" "{c, c', s, s'} \<subseteq> {0, 1}"
    and "rlc_coll_key a b c d s = rlc_coll_key a' b' c' d' s'"
  shows "a = a' \<and> b = b' \<and> c = c' \<and> d = d' \<and> s = s'"
proof -
  have r: "0 \<le> a" "a < 256" "0 \<le> b" "b < 256" "0 \<le> d" "d < 256" "0 \<le> c" "c < 2"
    "0 \<le> a'" "a' < 256" "0 \<le> b'" "b' < 256" "0 \<le> d'" "d' < 256" "0 \<le> c'" "c' < 2"
    using assms(1,2) by auto
  have "a + (b + (c + (d + s * 256) * 2) * 256) * 256 =
      a' + (b' + (c' + (d' + s' * 256) * 2) * 256) * 256"
    using assms(3) r by (simp add: coll_key_sum)
  with r have 1: "a = a'" "b + (c + (d + s * 256) * 2) * 256 = b' + (c' + (d' + s' * 256) * 2) * 256"
    using radix_step [of a 256 a'] by blast+
  with r have 2: "b = b'" "c + (d + s * 256) * 2 = c' + (d' + s' * 256) * 2"
    using radix_step [of b 256 b'] by blast+
  with r have 3: "c = c'" "d + s * 256 = d' + s' * 256" using radix_step [of c 2 c'] by blast+
  with r have "d = d'" "s = s'" using radix_step [of d 256 d'] by blast+
  with 1 2 3 show ?thesis by simp
qed

theorem rlc_coll_key_injective_witness:
  "rlc_coll_key 1 2 1 3 0 \<noteq> rlc_coll_key 1 2 1 3 1 \<and> rlc_coll_key 255 2 1 3 0 \<noteq> rlc_coll_key 1 2 1 3 0"
  using rlc_coll_key_injective [of 1 1 2 2 3 3 1 1 0 1]
    rlc_coll_key_injective [of 255 1 2 2 3 3 1 1 0 0] by auto

subsection \<open>A configured entity\<close>

lemma init_fresh:
  assumes "\<not> initialized e"
  shows "rlc_am_windows_ok (rlc_am_init e f)" "sdu_ring_ok (rlc_am_init e f)"
    "sdu_queue (rlc_am_init e f) = []" "receiver_buffer (rlc_am_init e f) = []"
    "initialized (rlc_am_init e f)" "\<not> configured (rlc_am_init e f)"
  using assms
  by (simp_all add: rlc_am_init_def cleared_entity_def rlc_am_windows_ok_def valid_sn_def
      sn_mask_mod sdu_ring_ok_def sdu_queue_def zero_entity_def zero_tx_sdu_def sdu_index_ok_def
      ring_len_def)

lemma configure_keeps:
  "rlc_am_windows_ok (rlc_am_configure e f m p b t r s) = rlc_am_windows_ok e"
  "sdu_ring_ok (rlc_am_configure e f m p b t r s) = sdu_ring_ok e"
  "sdu_queue (rlc_am_configure e f m p b t r s) = sdu_queue e"
  "rlc_am_windows_ok (rlc_am_set_debug_infos e f x y i j k) = rlc_am_windows_ok e"
  "sdu_ring_ok (rlc_am_set_debug_infos e f x y i j k) = sdu_ring_ok e"
  "sdu_queue (rlc_am_set_debug_infos e f x y i j k) = sdu_queue e"
  by (simp_all add: rlc_am_configure_def rlc_am_set_debug_infos_def Let_def timer_defs
      rlc_am_windows_ok_def sdu_ring_ok_def sdu_queue_def)

lemma configure_timers:
  "time_out (t_poll_retransmit (rlc_am_configure e f m p b t r s)) = t"
  "time_out (t_reordering (rlc_am_configure e f m p b t r s)) = r"
  "time_out (t_status_prohibit (rlc_am_configure e f m p b t r s)) = s"
  "protocol_state (rlc_am_configure e f m p b t r s) = RLC_DATA_TRANSFER_READY_STATE"
  by (simp_all add: rlc_am_configure_def Let_def timer_defs)

text \<open>
  (C34) Configuring the bearer of a fresh entity from a decoded \<^verbatim>\<open>RLC-Config\<close> within the defined
  enumerators reads every table in bounds, gives a ready entity with well-formed windows, an
  empty SDU queue and the configured timer durations, records the identifiers of the bearer, and
  changes no other entity of the collection.
\<close>

theorem config_req_asn1_establishes:
  assumes "coll (rlc_coll_key enb ue eNB rb srb) = Some e" "\<not> initialized e" "config_am_valid cfg"
    "{enb, ue, rb} \<subseteq> {0..<256}" "{eNB, srb} \<subseteq> {0, 1}"
  shows "\<exists>e'. config_req_rlc_am_asn1 coll enb ue f eNB srb cfg rb =
        coll(rlc_coll_key enb ue eNB rb srb \<mapsto> e') \<and>
      asn_t_PollRetransmit cfg < length PollRetransmit_tab \<and>
      asn_t_Reordering cfg < length am_t_Reordering_tab \<and>
      asn_t_StatusProhibit cfg < length t_StatusProhibit_tab \<and>
      asn_pollPDU cfg < length pollPDU_tab \<and> asn_pollByte cfg < length pollByte_tab \<and>
      asn_maxRetxThreshold cfg < length maxRetxThreshold_tab \<and>
      rlc_am_windows_ok e' \<and> sdu_ring_ok e' \<and> sdu_queue e' = [] \<and>
      protocol_state e' = RLC_DATA_TRANSFER_READY_STATE \<and>
      time_out (t_poll_retransmit e') = of_nat (PollRetransmit_tab ! asn_t_PollRetransmit cfg) \<and>
      time_out (t_reordering e') = of_nat (am_t_Reordering_tab ! asn_t_Reordering cfg) \<and>
      time_out (t_status_prohibit e') = of_nat (t_StatusProhibit_tab ! asn_t_StatusProhibit cfg) \<and>
      enb_module_id e' = enb \<and> ue_module_id e' = ue \<and> rb_id e' = rb \<and>
      (is_enb e' \<longleftrightarrow> eNB = 1) \<and> (is_data_plane e' \<longleftrightarrow> srb = 0)"
proof -
  let ?i = "rlc_am_set_debug_infos (rlc_am_init e f) f eNB srb enb ue rb"
  let ?e = "rlc_am_configure ?i f (int (maxRetxThreshold_tab ! asn_maxRetxThreshold cfg))
      (of_nat (pollPDU_tab ! asn_pollPDU cfg)) (of_nat (pollByte_tab ! asn_pollByte cfg))
      (of_nat (PollRetransmit_tab ! asn_t_PollRetransmit cfg))
      (of_nat (am_t_Reordering_tab ! asn_t_Reordering cfg))
      (of_nat (t_StatusProhibit_tab ! asn_t_StatusProhibit cfg))"
  have eq: "config_req_rlc_am_asn1 coll enb ue f eNB srb cfg rb =
      coll(rlc_coll_key enb ue eNB rb srb \<mapsto> ?e)"
    using assms(1,3) by (simp add: config_req_rlc_am_asn1_def Let_def)
  have len: "length PollRetransmit_tab = 55" "length am_t_Reordering_tab = 31"
    "length t_StatusProhibit_tab = 56" "length pollPDU_tab = 8" "length pollByte_tab = 15"
    "length maxRetxThreshold_tab = 8"
    by (simp_all add: PollRetransmit_tab_def am_t_Reordering_tab_def t_StatusProhibit_tab_def
        pollPDU_tab_def pollByte_tab_def maxRetxThreshold_tab_def)
  have ids: "enb_module_id ?e = enb \<and> ue_module_id ?e = ue \<and> rb_id ?e = rb \<and>
      (is_enb ?e \<longleftrightarrow> eNB = 1) \<and> (is_data_plane ?e \<longleftrightarrow> srb = 0)"
    using assms(4,5)
    by (auto simp: rlc_am_configure_def rlc_am_set_debug_infos_def Let_def timer_defs
        to_uint8_def to_uint16_def to_int8_def)
  have bounds: "asn_t_PollRetransmit cfg < 55" "asn_t_Reordering cfg < 31"
    "asn_t_StatusProhibit cfg < 56" "asn_pollPDU cfg < 8" "asn_pollByte cfg < 15"
    "asn_maxRetxThreshold cfg < 8"
    using assms(3) by (simp_all add: config_am_valid_def)
  show ?thesis
    using eq ids bounds unfolding len
    by (intro exI [of _ ?e]) (simp add: configure_keeps configure_timers init_fresh [OF assms(2)])
qed

theorem config_req_asn1_establishes_witness:
  "\<exists>e'. config_req_rlc_am_asn1 [rlc_coll_key 0 3 1 4 0 \<mapsto> zero_entity] 0 3 7 1 0
       \<lparr>asn_maxRetxThreshold = 2, asn_pollPDU = 7, asn_pollByte = 0, asn_t_PollRetransmit = 9,
        asn_t_Reordering = 1, asn_t_StatusProhibit = 55\<rparr> 4 = [rlc_coll_key 0 3 1 4 0 \<mapsto> e'] \<and>
     rlc_am_windows_ok e' \<and> ue_module_id e' = 3"
proof -
  have "\<not> initialized zero_entity" by (simp add: zero_entity_def)
  then show ?thesis
    using config_req_asn1_establishes [of "[rlc_coll_key 0 3 1 4 0 \<mapsto> zero_entity]" 0 3 1 4 0 zero_entity
        "\<lparr>asn_maxRetxThreshold = 2, asn_pollPDU = 7, asn_pollByte = 0, asn_t_PollRetransmit = 9,
         asn_t_Reordering = 1, asn_t_StatusProhibit = 55\<rparr>" 7]
    by (auto simp: config_am_valid_def)
qed

subsection \<open>Deviations\<close>

text \<open>
  \<^verbatim>\<open>config_req_rlc_am\<close> passes the identifiers one position off: the entity records the user
  module as its base station, the bearer as its user module and the signalling flag as its bearer.
\<close>

lemma config_req_shifts_identifiers:
  assumes "coll (rlc_coll_key enb ue eNB rb srb) = Some e"
  shows "\<exists>e'. config_req_rlc_am coll enb ue f eNB srb cfg rb (rlc_coll_key enb ue eNB rb srb) = Some e' \<and>
    enb_module_id e' = to_uint8 ue \<and> ue_module_id e' = to_uint8 rb \<and> rb_id e' = to_uint16 srb \<and>
    (is_data_plane e' \<longleftrightarrow> to_int8 enb = 0)"
  using assms
  by (auto simp: config_req_rlc_am_def Let_def rlc_am_configure_def rlc_am_set_debug_infos_def timer_defs)

text \<open>
  Re-establishment resets the state variables and the lists; the waiting SDUs, the retransmission
  buffer and the timers, which its comment says are discarded and stopped, are left as they are.
\<close>

lemma reestablish_keeps_transmitter:
  "rlc_am_windows_ok (rlc_am_reestablish e f)"
  "sdu_queue (rlc_am_reestablish e f) = sdu_queue e"
  "pdu_retrans_buffer (rlc_am_reestablish e f) = pdu_retrans_buffer e"
  "t_poll_retransmit (rlc_am_reestablish e f) = t_poll_retransmit e"
  by (simp_all add: rlc_am_reestablish_def rlc_am_windows_ok_def valid_sn_def sn_mask_mod sdu_queue_def)

end
