(* ===== verification/Rlc_Am_Bitfield.thy ===== *)
theory Rlc_Am_Bitfield
  imports Prelude
begin

text \<open>
  Reading and writing of bit fields that straddle bytes (\<^verbatim>\<open>rlc_am_read_bit_field\<close>,
  \<^verbatim>\<open>rlc_am_write8_bit_field\<close>, \<^verbatim>\<open>rlc_am_write16_bit_field\<close> of
  \<^verbatim>\<open>rlc_am_status_report.c\<close>). The C functions move a byte pointer and a bit position inside
  the byte; here the pointer is an index into the buffer, and an access outside the buffer aborts.

  The specification is a buffer as a sequence of bits, most significant bit first (\<open>buf_bits\<close>), and a
  field as the list of its \<open>n\<close> bits (\<open>nbits\<close>). A field written into a cleared buffer appears in
  that sequence at its position, and a field found at a position is what the reader returns.
\<close>

subsection \<open>The C functions\<close>

function rlc_am_read_loop ::
  "byte list \<Rightarrow> nat \<Rightarrow> nat \<Rightarrow> nat \<Rightarrow> u16 \<Rightarrow> (u16 \<times> nat \<times> nat) option" where
  "rlc_am_read_loop bs i bit_pos bits_to_read value =
     (if i \<ge> length bs then None
      else
        let cur = (ucast (bs ! i) :: u16) AND drop_bit bit_pos 0x00FF
        in if 8 - bit_pos > bits_to_read then
             Some (push_bit bits_to_read value OR drop_bit (8 - bit_pos - bits_to_read) cur,
                   i, bit_pos + bits_to_read)
           else if 8 - bit_pos = bits_to_read then
             Some (push_bit bits_to_read value OR cur, i + 1, 0)
           else rlc_am_read_loop bs (i + 1) 0 (bits_to_read - (8 - bit_pos))
                  (push_bit (8 - bit_pos) value OR cur))"
  by pat_completeness auto
termination
  by (relation "measures [\<lambda>(bs, i, p, n, v). n, \<lambda>(bs, i, p, n, v). p]") auto

definition rlc_am_read_bit_field ::
  "byte list \<Rightarrow> nat \<Rightarrow> nat \<Rightarrow> nat \<Rightarrow> (u16 \<times> nat \<times> nat) option" where
  "rlc_am_read_bit_field bs i bit_pos bits_to_read = rlc_am_read_loop bs i bit_pos bits_to_read 0"

function rlc_am_write8_bit_field ::
  "byte list \<Rightarrow> nat \<Rightarrow> nat \<Rightarrow> nat \<Rightarrow> byte \<Rightarrow> (byte list \<times> nat \<times> nat) option" where
  "rlc_am_write8_bit_field bs i bit_pos bits_to_write value =
     (if i \<ge> length bs then None
      else
        let available_bits = 8 - bit_pos
        in if available_bits > bits_to_write then
             Some (bs[i := bs ! i OR push_bit (available_bits - bits_to_write)
                             (value AND drop_bit (available_bits - bits_to_write) 0xFF)],
                   i, bit_pos + bits_to_write)
           else if available_bits = bits_to_write then
             Some (bs[i := bs ! i OR (value AND drop_bit (8 - bits_to_write) 0xFF)], i + 1, 0)
           else rlc_am_write8_bit_field
                  (bs[i := bs ! i OR drop_bit (bits_to_write - available_bits) value])
                  (i + 1) 0 (bits_to_write - available_bits) value)"
  by pat_completeness auto
termination
  by (relation "measures [\<lambda>(bs, i, p, n, v). n, \<lambda>(bs, i, p, n, v). p]") auto

declare rlc_am_read_loop.simps [simp del] rlc_am_write8_bit_field.simps [simp del]

definition rlc_am_write16_bit_field ::
  "byte list \<Rightarrow> nat \<Rightarrow> nat \<Rightarrow> nat \<Rightarrow> u16 \<Rightarrow> (byte list \<times> nat \<times> nat) option" where
  "rlc_am_write16_bit_field bs i bit_pos bits_to_write value =
     do {
       c_assert (bits_to_write \<le> 16);
       if bits_to_write > 8 then
         do {
           (bs1, i1, p1) \<leftarrow> rlc_am_write8_bit_field bs i bit_pos (bits_to_write - 8) (ucast (drop_bit 8 value));
           rlc_am_write8_bit_field bs1 i1 p1 8 (ucast (value AND 0x00FF))
         }
       else rlc_am_write8_bit_field bs i bit_pos bits_to_write (ucast (value AND 0x00FF))
     }"

subsection \<open>Bits of a buffer\<close>

definition membit :: "byte list \<Rightarrow> nat \<Rightarrow> bool" where
  "membit bs q = bit (bs ! (q div 8)) (7 - q mod 8)"

definition buf_bits :: "byte list \<Rightarrow> bool list" where
  "buf_bits bs = map (membit bs) [0..<8 * length bs]"

definition nbits :: "nat \<Rightarrow> int \<Rightarrow> bool list" where
  "nbits n v = map (\<lambda>k. bit v (n - 1 - k)) [0..<n]"

lemma length_buf_bits [simp]: "length (buf_bits bs) = 8 * length bs"
  by (simp add: buf_bits_def)

lemma length_nbits [simp]: "length (nbits n v) = n"
  by (simp add: nbits_def)

lemma nth_buf_bits [simp]: "q < 8 * length bs \<Longrightarrow> buf_bits bs ! q = membit bs q"
  by (simp add: buf_bits_def)

lemma nth_nbits [simp]: "k < n \<Longrightarrow> nbits n v ! k = bit v (n - 1 - k)"
  by (simp add: nbits_def)

lemma buf_bits_zero: "buf_bits (replicate n 0) = replicate (8 * n) False"
  by (rule nth_equalityI) (auto simp: membit_def less_mult_imp_div_less mult.commute)

lemma nbits_zero: "nbits n 0 = replicate n False"
  by (rule nth_equalityI) auto

lemma buf_bits_append: "buf_bits (a @ b) = buf_bits a @ buf_bits b"
proof (rule nth_equalityI)
  fix q assume "q < length (buf_bits (a @ b))"
  then have q: "q < 8 * (length a + length b)" by simp
  show "buf_bits (a @ b) ! q = (buf_bits a @ buf_bits b) ! q"
  proof (cases "q < 8 * length a")
    case True
    then have "q div 8 < length a" by linarith
    then show ?thesis using q True by (simp add: nth_append membit_def)
  next
    case False
    then obtain r where r: "q = 8 * length a + r" by (metis le_Suc_ex not_less)
    have "q div 8 = length a + r div 8" "q mod 8 = r mod 8" by (simp_all add: r)
    then show ?thesis using q r by (simp add: nth_append membit_def)
  qed
qed simp

lemma membit_in_byte: "p < 8 \<Longrightarrow> membit bs (8 * i + p) = bit (bs ! i) (7 - p)"
  by (simp add: membit_def)

lemma membit_upd:
  "i < length bs \<Longrightarrow> membit (bs[i := b]) q = (if q div 8 = i then bit b (7 - q mod 8) else membit bs q)"
  by (simp add: membit_def)

lemma membit_high: "k < 8 \<Longrightarrow> membit bs (8 * i + 7 - k) = bit (bs ! i) k"
  using membit_in_byte [of "7 - k" bs i] by simp

lemma bit_drop_ff:
  "bit (drop_bit m (0xFF :: u16)) k \<longleftrightarrow> k < 8 - m" "bit (drop_bit m (0xFF :: byte)) k \<longleftrightarrow> k < 8 - m"
proof -
  have 1: "(0xFF :: u16) = mask 8" "(0xFF :: byte) = mask 8" by (simp_all add: mask_eq_exp_minus_1)
  show "bit (drop_bit m (0xFF :: u16)) k \<longleftrightarrow> k < 8 - m"
    unfolding 1(1) by (auto simp: bit_simps)
  show "bit (drop_bit m (0xFF :: byte)) k \<longleftrightarrow> k < 8 - m"
    unfolding 1(2) by (auto simp: bit_simps)
qed

subsection \<open>The reader\<close>

lemma read_cur_bit:
  assumes "p < 8"
  shows "bit ((ucast (bs ! i) :: u16) AND drop_bit p 0x00FF) k \<longleftrightarrow>
    k < 8 - p \<and> membit bs (8 * i + 7 - k)"
proof (cases "k < 8")
  case True
  then show ?thesis
    using membit_high [OF True, of bs i] by (auto simp: bit_and_iff bit_drop_ff bit_ucast_iff)
next
  case False
  then show ?thesis by (auto simp: bit_and_iff bit_drop_ff)
qed

lemma read_loop_spec:
  assumes "p < 8" "0 < n" "8 * i + p + n \<le> 8 * length bs"
  shows "\<exists>v. rlc_am_read_loop bs i p n w =
      Some (v, (8 * i + p + n) div 8, (8 * i + p + n) mod 8) \<and>
    (\<forall>k<16. bit v k \<longleftrightarrow> (if k < n then membit bs (8 * i + p + n - 1 - k) else bit w (k - n)))"
  using assms
proof (induction bs i p n w rule: rlc_am_read_loop.induct)
  case (1 bs i p n w)
  define c where "c = (ucast (bs ! i) :: u16) AND drop_bit p 0x00FF"
  have i: "i < length bs" using "1.prems" by linarith
  note cur = read_cur_bit [OF "1.prems"(1), of bs i, folded c_def]
  note step = rlc_am_read_loop.simps [of bs i p n w, folded c_def]
  consider (short) "n < 8 - p" | (exact) "n = 8 - p" | (long) "8 - p < n" by linarith
  then show ?case
  proof cases
    case short
    have "bit (push_bit n w OR drop_bit (8 - p - n) c) k \<longleftrightarrow>
        (if k < n then membit bs (8 * i + p + n - 1 - k) else bit w (k - n))" if "k < 16" for k
    proof -
      have "8 * i + 7 - (8 - p - n + k) = 8 * i + p + n - 1 - k" using short by simp
      then show ?thesis using that short
        by (auto simp: bit_or_iff bit_push_bit_iff bit_drop_bit_eq cur)
    qed
    moreover have "(8 * i + p + n) div 8 = i" "(8 * i + p + n) mod 8 = p + n"
      using short by (simp_all add: add.assoc)
    ultimately show ?thesis using i short by (simp add: step Let_def)
  next
    case exact
    have "bit (push_bit n w OR c) k \<longleftrightarrow>
        (if k < n then membit bs (8 * i + p + n - 1 - k) else bit w (k - n))" if "k < 16" for k
    proof -
      have "8 * i + p + n - 1 - k = 8 * i + 7 - k" using exact "1.prems"(1) by simp
      then show ?thesis using that exact by (auto simp: bit_or_iff bit_push_bit_iff cur)
    qed
    moreover have "rlc_am_read_loop bs i p n w =
        Some (push_bit n w OR c, (8 * i + p + n) div 8, (8 * i + p + n) mod 8)"
      using i exact "1.prems"(1) unfolding step by (simp add: Let_def)
    ultimately show ?thesis by blast
  next
    case long
    then obtain m where n: "n = (8 - p) + m" "0 < m" by (metis less_imp_add_positive)
    let ?w = "push_bit (8 - p) w OR c"
    have pos: "8 * (i + 1) + 0 + m = 8 * i + p + n" using n "1.prems"(1) by simp
    have "\<exists>v. rlc_am_read_loop bs (i + 1) 0 (n - (8 - p)) ?w =
        Some (v, (8 * (i + 1) + 0 + (n - (8 - p))) div 8, (8 * (i + 1) + 0 + (n - (8 - p))) mod 8) \<and>
      (\<forall>k<16. bit v k \<longleftrightarrow> (if k < n - (8 - p) then membit bs (8 * (i + 1) + 0 + (n - (8 - p)) - 1 - k)
                              else bit ?w (k - (n - (8 - p)))))"
      using i long "1.prems" by (intro "1.IH") (auto simp: c_def)
    moreover have nm: "n - (8 - p) = m" using n by simp
    ultimately obtain v where v: "rlc_am_read_loop bs (i + 1) 0 m ?w =
        Some (v, (8 * i + p + n) div 8, (8 * i + p + n) mod 8)"
      "\<And>k. k < 16 \<Longrightarrow> bit v k \<longleftrightarrow> (if k < m then membit bs (8 * i + p + n - 1 - k)
                              else bit ?w (k - m))"
      unfolding nm pos by blast
    have "bit v k \<longleftrightarrow> (if k < n then membit bs (8 * i + p + n - 1 - k) else bit w (k - n))"
      if k: "k < 16" for k
    proof (cases "k < m")
      case True
      with v(2) [OF k] n show ?thesis by simp
    next
      case False
      then obtain j where j: "k = m + j" by (metis le_Suc_ex not_less)
      have "8 * i + p + n - 1 - k = 8 * i + 7 - j"
      proof -
        have "p + n = 8 + m" using n(1) "1.prems"(1) by simp
        then show ?thesis by (simp add: j add.assoc)
      qed
      moreover have "k - n = j - (8 - p)" "k < n \<longleftrightarrow> j < 8 - p" using j n(1) by auto
      ultimately show ?thesis using False v(2) [OF k] k
        by (auto simp: bit_or_iff bit_push_bit_iff cur j)
    qed
    then show ?thesis using v(1) i long unfolding step by (auto simp: Let_def nm)
  qed
qed

text \<open>A field that lies at position \<open>length pre\<close> of the bit sequence is what the reader returns.\<close>

lemma read_bit_field_at:
  assumes bits: "buf_bits bs = pre @ nbits n v @ post" and n: "0 < n" "n \<le> 16"
    and v: "0 \<le> v" "v < 2 ^ n"
  shows "rlc_am_read_bit_field bs (length pre div 8) (length pre mod 8) n =
    Some (word_of_int v, length (pre @ nbits n v) div 8, length (pre @ nbits n v) mod 8)"
proof -
  let ?p = "length pre"
  have len: "?p + n \<le> 8 * length bs"
    using arg_cong [OF bits, of length] by simp
  have p: "8 * (?p div 8) + ?p mod 8 = ?p" by simp
  obtain w where w: "rlc_am_read_loop bs (?p div 8) (?p mod 8) n 0 =
      Some (w, (?p + n) div 8, (?p + n) mod 8)"
    "\<And>k. k < 16 \<Longrightarrow> bit w k \<longleftrightarrow> (if k < n then membit bs (?p + n - 1 - k) else bit (0::u16) (k - n))"
    using read_loop_spec [of "?p mod 8" n "?p div 8" bs 0] n len by (auto simp: p)
  have "w = word_of_int v"
  proof (rule bit_eqI)
    fix k assume "possible_bit TYPE(u16) k"
    then have k: "k < 16" by simp
    show "bit w k = bit (word_of_int v :: u16) k"
    proof (cases "k < n")
      case True
      then have "membit bs (?p + n - 1 - k) = (pre @ nbits n v @ post) ! (?p + (n - 1 - k))"
        using len by (simp flip: bits)
      also have "\<dots> = bit v k" 
        unfolding nth_append_length_plus using True by (simp add: nth_append)
      finally show ?thesis using w(2) [OF k] True k by (simp add: bit_word_of_int_iff)
    next
      case False
      have "take_bit n v = v" using v by (simp add: take_bit_int_eq_self)
      then have "\<not> bit v k" using False by (metis bit_take_bit_iff)
      then show ?thesis using w(2) [OF k] False by (simp add: bit_word_of_int_iff)
    qed
  qed
  with w(1) show ?thesis by (simp add: rlc_am_read_bit_field_def)
qed

subsection \<open>The writers\<close>

text \<open>What a writer does to the bits of the buffer: it sets, never clears.\<close>

definition field_ored :: "nat \<Rightarrow> nat \<Rightarrow> (nat \<Rightarrow> bool) \<Rightarrow> byte list \<Rightarrow> byte list \<Rightarrow> bool" where
  "field_ored p n v bs bs' \<longleftrightarrow> length bs' = length bs \<and>
     (\<forall>q<8 * length bs. membit bs' q \<longleftrightarrow> membit bs q \<or> (p \<le> q \<and> q < p + n \<and> v (p + n - 1 - q)))"

lemma field_ored_byte:
  assumes i: "i < length bs" and p: "8 * i \<le> p" "p + n \<le> 8 * i + 8"
    and b: "\<And>k. k < 8 \<Longrightarrow> bit b k \<longleftrightarrow> (8 * i + 8 - p - n \<le> k \<and> k < 8 * i + 8 - p \<and>
                                     v (k - (8 * i + 8 - p - n)))"
  shows "field_ored p n v bs (bs[i := bs ! i OR b])"
proof -
  have "membit (bs[i := bs ! i OR b]) q \<longleftrightarrow> membit bs q \<or> (p \<le> q \<and> q < p + n \<and> v (p + n - 1 - q))" for q
  proof (cases "q div 8 = i")
    case True
    then have q: "q = 8 * i + q mod 8" by auto
    define r where "r = q mod 8"
    obtain d where d: "p = 8 * i + d" using p(1) by (metis le_Suc_ex)
    have r: "r < 8" "q = 8 * i + r" "d + n \<le> 8" using q p(2) d by (auto simp: r_def)
    then have "8 - d - n \<le> 7 - r \<longleftrightarrow> r < d + n" "7 - r < 8 - d \<longleftrightarrow> d \<le> r" by presburger+
    moreover have "7 - r - (8 - d - n) = d + n - 1 - r" if "r < d + n" using that r by linarith
    ultimately have "bit b (7 - q mod 8) \<longleftrightarrow> (p \<le> q \<and> q < p + n \<and> v (p + n - 1 - q))"
      using b [of "7 - r"] d r by (auto simp: r_def [symmetric])
    with True i show ?thesis by (simp add: membit_upd bit_or_iff) (simp add: membit_def)
  next
    case False
    then have "\<not> (p \<le> q \<and> q < p + n)" using p by auto
    with False i show ?thesis by (auto simp: membit_upd)
  qed
  then show ?thesis by (simp add: field_ored_def)
qed

lemma field_ored_trans:
  assumes "field_ored p m (\<lambda>k. v (k + n)) bs bs1" "field_ored (p + m) n v bs1 bs2"
  shows "field_ored p (m + n) v bs bs2"
proof -
  have "membit bs2 q \<longleftrightarrow> membit bs q \<or> (p \<le> q \<and> q < p + (m + n) \<and> v (p + (m + n) - 1 - q))"
    if "q < 8 * length bs" for q
  proof -
    have "p + m - 1 - q + n = p + (m + n) - 1 - q" if "q < p + m" using that by simp
    then show ?thesis using assms that
      by (cases "q < p + m") (auto simp: field_ored_def add.assoc)
  qed
  with assms show ?thesis by (simp add: field_ored_def)
qed

lemma field_ored_cong:
  "(\<And>k. k < n \<Longrightarrow> v k = w k) \<Longrightarrow> field_ored p n v bs bs' \<Longrightarrow> field_ored p n w bs bs'"
  by (auto simp: field_ored_def)

lemma write8_within_byte:
  assumes "p < 8" "0 < n" "n \<le> 8 - p" "i < length bs" "p = 0 \<or> (\<forall>k\<ge>n. \<not> bit v k)"
  shows "\<exists>bs'. rlc_am_write8_bit_field bs i p n v =
      Some (bs', (8 * i + p + n) div 8, (8 * i + p + n) mod 8) \<and> field_ored (8 * i + p) n (bit v) bs bs'"
proof (cases "n < 8 - p")
  case True
  have "field_ored (8 * i + p) n (bit v) bs
      (bs[i := bs ! i OR push_bit (8 - p - n) (v AND drop_bit (8 - p - n) 0xFF)])"
  proof (rule field_ored_byte)
    fix k :: nat assume "k < 8"
    have "k < 8 - p" if "p \<noteq> 0" "bit v (k - (8 - p - n))"
    proof (rule ccontr)
      assume "\<not> ?thesis"
      then have "n \<le> k - (8 - p - n)" using True by linarith
      with that assms(5) show False by blast
    qed
    moreover have "8 * i + 8 - (8 * i + p) - n = 8 - p - n" by simp
    ultimately show
      "bit (push_bit (8 - p - n) (v AND drop_bit (8 - p - n) 0xFF)) k \<longleftrightarrow>
        8 * i + 8 - (8 * i + p) - n \<le> k \<and> k < 8 * i + 8 - (8 * i + p) \<and>
        bit v (k - (8 * i + 8 - (8 * i + p) - n))"
      using \<open>k < 8\<close> True assms(1,2) by (cases "p = 0") (auto simp: bit_push_bit_iff bit_and_iff bit_drop_ff)
  qed (use assms True in auto)
  moreover have "(8 * i + p + n) div 8 = i" "(8 * i + p + n) mod 8 = p + n"
    using True by (simp_all add: add.assoc)
  ultimately show ?thesis
    using assms True by (simp add: rlc_am_write8_bit_field.simps [of bs i p n v] Let_def)
next
  case False
  then have n: "n = 8 - p" using assms by simp
  have "field_ored (8 * i + p) n (bit v) bs (bs[i := bs ! i OR (v AND drop_bit (8 - n) 0xFF)])"
    by (rule field_ored_byte) (use assms n in \<open>auto simp: bit_and_iff bit_drop_ff\<close>)
  moreover have "8 * i + p + n = 8 * (i + 1)" using n assms by simp
  ultimately show ?thesis
    using assms n unfolding rlc_am_write8_bit_field.simps [of bs i p n v] by (simp add: Let_def)
qed

lemma write8_spec:
  assumes "p < 8" "0 < n" "n \<le> 8" "8 * i + p + n \<le> 8 * length bs" "\<forall>k\<ge>n. \<not> bit v k"
  shows "\<exists>bs'. rlc_am_write8_bit_field bs i p n v =
      Some (bs', (8 * i + p + n) div 8, (8 * i + p + n) mod 8) \<and> field_ored (8 * i + p) n (bit v) bs bs'"
proof (cases "n \<le> 8 - p")
  case True
  then show ?thesis using assms by (intro write8_within_byte) auto
next
  case False
  let ?m = "8 - p" and ?bs = "bs[i := bs ! i OR drop_bit (n - (8 - p)) v]"
  have 1: "field_ored (8 * i + p) ?m (\<lambda>k. bit v (k + (n - ?m))) bs ?bs"
  proof (rule field_ored_byte)
    fix k :: nat
    have "k < ?m" if "bit v (k + (n - ?m))"
    proof (rule ccontr)
      assume "\<not> ?thesis"
      then have "n \<le> k + (n - ?m)" by linarith
      with that assms(5) show False by blast
    qed
    then show "bit (drop_bit (n - ?m) v) k \<longleftrightarrow> 8 * i + 8 - (8 * i + p) - ?m \<le> k \<and>
        k < 8 * i + 8 - (8 * i + p) \<and> bit v (k - (8 * i + 8 - (8 * i + p) - ?m) + (n - ?m))"
      by (auto simp: bit_drop_bit_eq add.commute [of "n - ?m"])
  qed (use assms in auto)
  have pos: "8 * (i + 1) + 0 = 8 * i + p + ?m" "8 * i + p + ?m + (n - ?m) = 8 * i + p + n"
    using False assms by auto
  obtain bs' where bs': "rlc_am_write8_bit_field ?bs (i + 1) 0 (n - ?m) v =
      Some (bs', (8 * i + p + n) div 8, (8 * i + p + n) mod 8)"
      "field_ored (8 * i + p + ?m) (n - ?m) (bit v) ?bs bs'"
  proof -
    have "i + 1 < length ?bs" "0 < n - ?m" "n - ?m \<le> 8 - 0" using assms(1,3,4) False by auto
    then show ?thesis
      using write8_within_byte [of 0 "n - ?m" "i + 1" ?bs v, unfolded pos] that by auto
  qed
  have "field_ored (8 * i + p) (?m + (n - ?m)) (bit v) bs bs'"
    by (rule field_ored_trans [OF 1 bs'(2)])
  with bs'(1) False assms show ?thesis
    by (simp add: rlc_am_write8_bit_field.simps [of bs i p n v] Let_def)
qed

lemma write16_spec:
  assumes "p < 8" "0 < n" "n \<le> 16" "8 * i + p + n \<le> 8 * length bs" "\<forall>k\<ge>n. \<not> bit v k"
  shows "\<exists>bs'. rlc_am_write16_bit_field bs i p n v =
      Some (bs', (8 * i + p + n) div 8, (8 * i + p + n) mod 8) \<and> field_ored (8 * i + p) n (bit v) bs bs'"
proof -
  have low: "bit (ucast (v AND 0x00FF) :: byte) k \<longleftrightarrow> k < 8 \<and> bit v k" for k
    using bit_drop_ff(1) [of 0 k] by (auto simp: bit_ucast_iff bit_and_iff)
  show ?thesis
  proof (cases "8 < n")
    case True
    let ?h = "ucast (drop_bit 8 v) :: byte" and ?l = "ucast (v AND 0x00FF) :: byte"
    have high: "bit ?h k \<longleftrightarrow> k < 8 \<and> bit v (k + 8)" for k
      by (auto simp: bit_ucast_iff bit_drop_bit_eq add.commute [of 8])
    let ?p1 = "8 * i + p + (n - 8)"
    have p1: "8 * (?p1 div 8) + ?p1 mod 8 = ?p1" by simp
    have total: "?p1 + 8 = 8 * i + p + n" using True by simp
    obtain bs1 where bs1: "rlc_am_write8_bit_field bs i p (n - 8) ?h = Some (bs1, ?p1 div 8, ?p1 mod 8)"
        "field_ored (8 * i + p) (n - 8) (bit ?h) bs bs1"
    proof -
      have "\<forall>k\<ge>n - 8. \<not> bit ?h k" "8 * i + p + (n - 8) \<le> 8 * length bs" "0 < n - 8" "n - 8 \<le> 8"
        using high assms(3,4,5) True by auto
      then show ?thesis using write8_spec [of p "n - 8" i bs ?h] assms(1) that by blast
    qed
    have "length bs1 = length bs" using bs1(2) by (simp add: field_ored_def)
    then obtain bs2 where bs2: "rlc_am_write8_bit_field bs1 (?p1 div 8) (?p1 mod 8) 8 ?l =
          Some (bs2, (8 * i + p + n) div 8, (8 * i + p + n) mod 8)"
        "field_ored (8 * i + p + (n - 8)) 8 (bit ?l) bs1 bs2"
    proof -
      have l: "\<forall>k\<ge>8. \<not> bit ?l k" "8 * i + p + n \<le> 8 * length bs1"
        using low assms(4) \<open>length bs1 = length bs\<close> by simp_all
      have "?p1 mod 8 < 8" "(0::nat) < 8" by simp_all
      from write8_spec [of "?p1 mod 8" 8 "?p1 div 8" bs1 ?l, unfolded p1 total, OF this order.refl l(2,1)]
      obtain bs2 where "rlc_am_write8_bit_field bs1 (?p1 div 8) (?p1 mod 8) 8 ?l =
          Some (bs2, (8 * i + p + n) div 8, (8 * i + p + n) mod 8)"
        "field_ored ?p1 8 (bit ?l) bs1 bs2" by (elim exE conjE)
      then show ?thesis by (rule that)
    qed
    have "field_ored (8 * i + p) (n - 8) (\<lambda>k. bit v (k + 8)) bs bs1"
      by (rule field_ored_cong [OF _ bs1(2)], unfold high) (use assms(3) in auto)
    moreover have "field_ored (8 * i + p + (n - 8)) 8 (bit v) bs1 bs2"
      by (rule field_ored_cong [OF _ bs2(2)], unfold low) simp
    ultimately have "field_ored (8 * i + p) (n - 8 + 8) (bit v) bs bs2" by (rule field_ored_trans)
    with bs1(1) bs2(1) True assms(3) show ?thesis by (simp add: rlc_am_write16_bit_field_def)
  next
    case False
    then obtain bs1 where bs1: "rlc_am_write8_bit_field bs i p n (ucast (v AND 0x00FF)) =
          Some (bs1, (8 * i + p + n) div 8, (8 * i + p + n) mod 8)"
        "field_ored (8 * i + p) n (bit (ucast (v AND 0x00FF) :: byte)) bs bs1"
      using write8_spec [of p n i bs "ucast (v AND 0x00FF)"] assms low by auto
    have "field_ored (8 * i + p) n (bit v) bs bs1"
      by (rule field_ored_cong [OF _ bs1(2)], unfold low) (use False in auto)
    with bs1(1) False assms(3) show ?thesis by (auto simp: rlc_am_write16_bit_field_def)
  qed
qed

subsection \<open>Fields as bit sequences\<close>

text \<open>
  A writer of fields of up to \<open>width\<close> bits: what the encoder of the status PDU relies on. Writing a
  value into a buffer that is clear from the current position on appends the bits of the value.
\<close>

locale bit_writer =
  fixes wr :: "byte list \<Rightarrow> nat \<Rightarrow> nat \<Rightarrow> nat \<Rightarrow> 'w::len word \<Rightarrow> (byte list \<times> nat \<times> nat) option"
    and width :: nat
  assumes wr_spec: "p < 8 \<Longrightarrow> 0 < n \<Longrightarrow> n \<le> width \<Longrightarrow> 8 * i + p + n \<le> 8 * length bs \<Longrightarrow>
      \<forall>k\<ge>n. \<not> bit v k \<Longrightarrow>
      \<exists>bs'. wr bs i p n v = Some (bs', (8 * i + p + n) div 8, (8 * i + p + n) mod 8) \<and>
        field_ored (8 * i + p) n (bit v) bs bs'"
    and width_fits: "width \<le> LENGTH('w)"
begin

lemma appends:
  assumes bits: "buf_bits bs = pre @ replicate m False" and n: "0 < n" "n \<le> width" "n \<le> m"
    and v: "0 \<le> v" "v < 2 ^ n"
  shows "\<exists>bs'. wr bs (length pre div 8) (length pre mod 8) n (word_of_int v) =
      Some (bs', length (pre @ nbits n v) div 8, length (pre @ nbits n v) mod 8) \<and>
    buf_bits bs' = (pre @ nbits n v) @ replicate (m - n) False"
proof -
  let ?p = "length pre" and ?w = "word_of_int v :: 'w word"
  have len: "8 * length bs = ?p + m" using arg_cong [OF bits, of length] by simp
  have p: "8 * (?p div 8) + ?p mod 8 = ?p" by simp
  have "take_bit n v = v" using v by (simp add: take_bit_int_eq_self)
  then have high: "\<not> bit v k" if "n \<le> k" for k using that by (metis bit_take_bit_iff not_less)
  have w: "bit ?w k \<longleftrightarrow> bit v k" if "k < n" for k
    using that n width_fits by (simp add: bit_word_of_int_iff)
  have "\<forall>k\<ge>n. \<not> bit ?w k" using high by (simp add: bit_word_of_int_iff)
  moreover have "?p + n \<le> 8 * length bs" using len n by simp
  moreover have "?p mod 8 < 8" by simp
  ultimately obtain bs' where bs': "wr bs (?p div 8) (?p mod 8) n ?w =
      Some (bs', (?p + n) div 8, (?p + n) mod 8)" "field_ored ?p n (bit ?w) bs bs'"
    using wr_spec [of "?p mod 8" n "?p div 8" bs ?w, unfolded p] n(1,2) by blast
  have l': "length bs' = length bs" using bs'(2) by (simp add: field_ored_def)
  have "buf_bits bs' = (pre @ nbits n v) @ replicate (m - n) False"
  proof (rule nth_equalityI)
    show "length (buf_bits bs') = length ((pre @ nbits n v) @ replicate (m - n) False)"
      using l' len n by simp
    fix q assume "q < length (buf_bits bs')"
    then have q: "q < 8 * length bs" using l' by simp
    have "buf_bits bs' ! q = (membit bs q \<or> (?p \<le> q \<and> q < ?p + n \<and> bit ?w (?p + n - 1 - q)))"
      using bs'(2) q l' by (simp add: field_ored_def)
    also have "membit bs q = (pre @ replicate m False) ! q" using q by (simp flip: bits)
    finally show "buf_bits bs' ! q = ((pre @ nbits n v) @ replicate (m - n) False) ! q"
      using q len n(3) w by (auto simp: nth_append add.commute [of n])
  qed
  with bs'(1) show ?thesis by simp
qed

end

interpretation write8: bit_writer rlc_am_write8_bit_field 8
  by unfold_locales (use write8_spec in auto)

interpretation write16: bit_writer rlc_am_write16_bit_field 16
  by unfold_locales (use write16_spec in auto)

end
