(* ===== verification/Rlc_Am_Status.thy ===== *)
theory Rlc_Am_Status
  imports Rlc_Am_Bitfield Rlc_Am_Types
begin

text \<open>
  The encoder and decoder of STATUS PDUs, \<^verbatim>\<open>rlc_am_write_status_pdu\<close> and
  \<^verbatim>\<open>rlc_am_get_control_pdu_infos\<close> of \<^verbatim>\<open>rlc_am_status_report.c\<close>. The decoder is called with
  the buffer from the PDU on and the number of bytes that remain in the transport block; its
  result carries the return code, the decoded fields and the updated count.

  The specification is the bit layout of a STATUS PDU (\<open>status_bits\<close>): the encoder produces it in
  a cleared buffer, the decoder reads it back field by field, so decoding an encoded report gives
  the report.
\<close>

subsection \<open>The encoder\<close>

definition write_nack :: "byte list \<Rightarrow> nat \<Rightarrow> nat \<Rightarrow> nack_sn_t \<Rightarrow> (byte list \<times> nat \<times> nat) option" where
  "write_nack bs i p nk =
     do {
       (bs1, i1, p1) \<leftarrow> rlc_am_write16_bit_field bs i p 10 (word_of_int (nack_sn nk));
       (bs2, i2, p2) \<leftarrow> rlc_am_write8_bit_field bs1 i1 p1 1 (word_of_int (nack_e1 nk));
       (bs3, i3, p3) \<leftarrow> rlc_am_write8_bit_field bs2 i2 p2 1 (word_of_int (nack_e2 nk));
       if nack_e2 nk > 0 then
         do {
           (bs4, i4, p4) \<leftarrow> rlc_am_write16_bit_field bs3 i3 p3 15 (word_of_int (so_start nk));
           rlc_am_write16_bit_field bs4 i4 p4 15 (word_of_int (so_end nk))
         }
       else Some (bs3, i3, p3)
     }"

fun write_nacks :: "byte list \<Rightarrow> nat \<Rightarrow> nat \<Rightarrow> nack_sn_t list \<Rightarrow> (byte list \<times> nat \<times> nat) option" where
  "write_nacks bs i p [] = Some (bs, i, p)"
| "write_nacks bs i p (nk # nks) =
     do { (bs1, i1, p1) \<leftarrow> write_nack bs i p nk; write_nacks bs1 i1 p1 nks }"

definition rlc_am_write_status_pdu ::
  "byte list \<Rightarrow> rlc_am_control_pdu_info \<Rightarrow> (byte list \<times> nat) option" where
  "rlc_am_write_status_pdu bs info =
     do {
       (bs1, i1, p1) \<leftarrow> rlc_am_write16_bit_field bs 0 4 10 (word_of_int (ci_ack_sn info));
       (bs2, i2, p2) \<leftarrow> rlc_am_write8_bit_field bs1 i1 p1 1 (if ci_nack_list info \<noteq> [] then 1 else 0);
       (bs3, i3, p3) \<leftarrow> write_nacks bs2 i2 p2 (ci_nack_list info);
       Some (bs3, if p3 > 0 then i3 + 1 else i3)
     }"

subsection \<open>The decoder\<close>

text \<open>
  One round of the loop. The result holds the entry, and the position after it.
\<close>

definition read_nack :: "byte list \<Rightarrow> nat \<Rightarrow> nat \<Rightarrow> (nack_sn_t \<times> nat \<times> nat) option" where
  "read_nack bs i p =
     do {
       (sn, i1, p1) \<leftarrow> rlc_am_read_bit_field bs i p 10;
       (e1, i2, p2) \<leftarrow> rlc_am_read_bit_field bs i1 p1 1;
       (e2, i3, p3) \<leftarrow> rlc_am_read_bit_field bs i2 p2 1;
       if e2 \<noteq> 0 then
         do {
           (s, i4, p4) \<leftarrow> rlc_am_read_bit_field bs i3 p3 15;
           (t, i5, p5) \<leftarrow> rlc_am_read_bit_field bs i4 p4 15;
           Some (\<lparr>nack_sn = uint sn, nack_e1 = uint e1, nack_e2 = uint e2,
                  so_start = uint s, so_end = uint t\<rparr>, i5, p5)
         }
       else Some (\<lparr>nack_sn = uint sn, nack_e1 = uint e1, nack_e2 = uint e2,
                   so_start = 0, so_end = 0x7FFF\<rparr>, i3, p3)
     }"

text \<open>The loop, with the entries read so far; it is left with code 0 or, with a full table, -2.\<close>

function read_nacks ::
  "byte list \<Rightarrow> nat \<Rightarrow> nat \<Rightarrow> nack_sn_t list \<Rightarrow> (int \<times> nack_sn_t list \<times> nat \<times> nat) option" where
  "read_nacks bs i p acc =
     (if int (length acc) < RLC_AM_MAX_NACK_IN_STATUS_PDU then
        do {
          (nk, i1, p1) \<leftarrow> read_nack bs i p;
          if nack_e1 nk = 0 then Some (0, acc @ [nk], i1, p1)
          else if int (length acc) + 1 = RLC_AM_MAX_NACK_IN_STATUS_PDU then Some (- 2, acc @ [nk], i1, p1)
          else read_nacks bs i1 p1 (acc @ [nk])
        }
      else None)"
  by pat_completeness auto
termination
  by (relation "measure (\<lambda>(bs, i, p, acc). 1023 - length acc)") auto

declare read_nacks.simps [simp del]

definition zero_control_info :: rlc_am_control_pdu_info where
  "zero_control_info = \<lparr>ci_d_c = 0, ci_cpt = 0, ci_ack_sn = 0, ci_e1 = 0, ci_nack_list = []\<rparr>"

definition rlc_am_get_control_pdu_infos ::
  "byte list \<Rightarrow> int \<Rightarrow> (int \<times> rlc_am_control_pdu_info \<times> int) option" where
  "rlc_am_get_control_pdu_infos bs total_size =
     do {
       c_assert (2 \<le> length bs);
       let b1 = bs ! 0;
       let b2 = bs ! 1;
       let d_c = uint (drop_bit 7 b1);
       let cpt = uint (drop_bit 4 b1 AND 0x07);
       let ack_sn = uint ((ucast (drop_bit 2 b2 AND 0x3F) :: u16) OR push_bit 6 (ucast (b1 AND 0x0F)));
       let e1 = uint (drop_bit 1 b2 AND 0x01);
       if d_c = 0 then
         if cpt \<noteq> 0 then Some (- 3, zero_control_info\<lparr>ci_cpt := cpt\<rparr>, total_size)
         else if e1 \<noteq> 0 then
           do {
             (rc, nks, i, p) \<leftarrow> read_nacks bs 1 7 [];
             Some (rc, \<lparr>ci_d_c = 0, ci_cpt = cpt, ci_ack_sn = ack_sn, ci_e1 = e1, ci_nack_list = nks\<rparr>,
                   total_size - (int i + (int p + 7) div 8))
           }
         else Some (0, \<lparr>ci_d_c = 0, ci_cpt = cpt, ci_ack_sn = ack_sn, ci_e1 = e1, ci_nack_list = []\<rparr>,
                    total_size - 2)
       else Some (- 1, zero_control_info\<lparr>ci_d_c := d_c\<rparr>, total_size)
     }"

subsection \<open>The layout\<close>

definition nack_bits :: "nack_sn_t \<Rightarrow> bool list" where
  "nack_bits nk = nbits 10 (nack_sn nk) @ nbits 1 (nack_e1 nk) @ nbits 1 (nack_e2 nk) @
     (if nack_e2 nk > 0 then nbits 15 (so_start nk) @ nbits 15 (so_end nk) else [])"

definition status_bits :: "rlc_am_control_pdu_info \<Rightarrow> bool list" where
  "status_bits info = nbits 1 0 @ nbits 3 0 @ nbits 10 (ci_ack_sn info) @
     nbits 1 (if ci_nack_list info \<noteq> [] then 1 else 0) @ concat (map nack_bits (ci_nack_list info))"

text \<open>
  The entries a sender builds: fields within their width, whole-PDU entries with the offsets the
  decoder supplies for them, and the extension bit set on all entries but the last.
\<close>

definition nack_ok :: "nack_sn_t \<Rightarrow> bool" where
  "nack_ok nk \<longleftrightarrow> 0 \<le> nack_sn nk \<and> nack_sn nk < 1024 \<and> nack_e1 nk \<in> {0, 1} \<and> nack_e2 nk \<in> {0, 1} \<and>
     0 \<le> so_start nk \<and> so_start nk < 0x8000 \<and> 0 \<le> so_end nk \<and> so_end nk < 0x8000 \<and>
     (nack_e2 nk = 0 \<longrightarrow> so_start nk = 0 \<and> so_end nk = 0x7FFF)"

fun nack_chain :: "nack_sn_t list \<Rightarrow> bool" where
  "nack_chain [] \<longleftrightarrow> True"
| "nack_chain [nk] \<longleftrightarrow> nack_e1 nk = 0"
| "nack_chain (nk # nks) \<longleftrightarrow> nack_e1 nk = 1 \<and> nack_chain nks"

definition status_ok :: "rlc_am_control_pdu_info \<Rightarrow> bool" where
  "status_ok info \<longleftrightarrow> ci_d_c info = 0 \<and> ci_cpt info = 0 \<and> 0 \<le> ci_ack_sn info \<and> ci_ack_sn info < 1024 \<and>
     ci_e1 info = (if ci_nack_list info \<noteq> [] then 1 else 0) \<and>
     list_all nack_ok (ci_nack_list info) \<and> nack_chain (ci_nack_list info) \<and>
     length (ci_nack_list info) < 1023"

subsection \<open>The encoder produces the layout\<close>

lemma write_nack_appends:
  assumes bits: "buf_bits bs = pre @ replicate m False" and nk: "nack_ok nk"
    and room: "length (nack_bits nk) \<le> m"
  shows "\<exists>bs'. write_nack bs (length pre div 8) (length pre mod 8) nk =
      Some (bs', length (pre @ nack_bits nk) div 8, length (pre @ nack_bits nk) mod 8) \<and>
    buf_bits bs' = (pre @ nack_bits nk) @ replicate (m - length (nack_bits nk)) False"
proof -
  have m: "10 \<le> m" "1 \<le> m - 10" "1 \<le> m - 10 - 1" "nack_e2 nk > 0 \<Longrightarrow> 15 \<le> m - 10 - 1 - 1"
    "nack_e2 nk > 0 \<Longrightarrow> 15 \<le> m - 10 - 1 - 1 - 15"
    using room by (auto simp: nack_bits_def split: if_splits)
  have w: "(0::nat) < 10" "(10::nat) \<le> 16" "(0::nat) < 1" "(1::nat) \<le> 8" "(0::nat) < 15" "(15::nat) \<le> 16"
    by simp_all
  have r: "0 \<le> nack_sn nk" "nack_sn nk < 2 ^ 10" "0 \<le> nack_e1 nk" "nack_e1 nk < 2 ^ 1"
    "0 \<le> nack_e2 nk" "nack_e2 nk < 2 ^ 1" "0 \<le> so_start nk" "so_start nk < 2 ^ 15"
    "0 \<le> so_end nk" "so_end nk < 2 ^ 15"
    using nk by (auto simp: nack_ok_def)
  let ?a = "pre @ nbits 10 (nack_sn nk)"
  let ?b = "?a @ nbits 1 (nack_e1 nk)"
  let ?c = "?b @ nbits 1 (nack_e2 nk)"
  let ?d = "?c @ nbits 15 (so_start nk)"
  obtain b1 where 1: "rlc_am_write16_bit_field bs (length pre div 8) (length pre mod 8) 10
        (word_of_int (nack_sn nk)) = Some (b1, length ?a div 8, length ?a mod 8)"
      "buf_bits b1 = ?a @ replicate (m - 10) False"
    using write16.appends [OF bits w(1,2) m(1) r(1,2)] by blast
  obtain b2 where 2: "rlc_am_write8_bit_field b1 (length ?a div 8) (length ?a mod 8) 1
        (word_of_int (nack_e1 nk)) = Some (b2, length ?b div 8, length ?b mod 8)"
      "buf_bits b2 = ?b @ replicate (m - 10 - 1) False"
    using write8.appends [OF 1(2) w(3,4) m(2) r(3,4)] by blast
  obtain b3 where 3: "rlc_am_write8_bit_field b2 (length ?b div 8) (length ?b mod 8) 1
        (word_of_int (nack_e2 nk)) = Some (b3, length ?c div 8, length ?c mod 8)"
      "buf_bits b3 = ?c @ replicate (m - 10 - 1 - 1) False"
    using write8.appends [OF 2(2) w(3,4) m(3) r(5,6)] by blast
  show ?thesis
  proof (cases "nack_e2 nk > 0")
    case False
    with 1 2 3 show ?thesis by (simp add: write_nack_def nack_bits_def)
  next
    case True
    obtain b4 where 4: "rlc_am_write16_bit_field b3 (length ?c div 8) (length ?c mod 8) 15
          (word_of_int (so_start nk)) = Some (b4, length ?d div 8, length ?d mod 8)"
        "buf_bits b4 = ?d @ replicate (m - 10 - 1 - 1 - 15) False"
      using write16.appends [OF 3(2) w(5,6) m(4) [OF True] r(7,8)] by blast
    obtain b5 where 5: "rlc_am_write16_bit_field b4 (length ?d div 8) (length ?d mod 8) 15
          (word_of_int (so_end nk)) =
            Some (b5, length (?d @ nbits 15 (so_end nk)) div 8, length (?d @ nbits 15 (so_end nk)) mod 8)"
        "buf_bits b5 = (?d @ nbits 15 (so_end nk)) @ replicate (m - 10 - 1 - 1 - 15 - 15) False"
      using write16.appends [OF 4(2) w(5,6) m(5) [OF True] r(9,10)] by blast
    from 1 2 3 4 5 True show ?thesis by (simp add: write_nack_def nack_bits_def)
  qed
qed

lemma write_nacks_appends:
  "buf_bits bs = pre @ replicate m False \<Longrightarrow> list_all nack_ok nks \<Longrightarrow>
     length (concat (map nack_bits nks)) \<le> m \<Longrightarrow>
   \<exists>bs'. write_nacks bs (length pre div 8) (length pre mod 8) nks =
      Some (bs', length (pre @ concat (map nack_bits nks)) div 8,
                 length (pre @ concat (map nack_bits nks)) mod 8) \<and>
    buf_bits bs' = (pre @ concat (map nack_bits nks)) @
      replicate (m - length (concat (map nack_bits nks))) False"
proof (induction nks arbitrary: bs pre m)
  case Nil
  then show ?case by simp
next
  case (Cons nk nks)
  let ?pre = "pre @ nack_bits nk"
  obtain b1 where 1: "write_nack bs (length pre div 8) (length pre mod 8) nk =
      Some (b1, length ?pre div 8, length ?pre mod 8)"
      "buf_bits b1 = ?pre @ replicate (m - length (nack_bits nk)) False"
    using write_nack_appends [OF Cons.prems(1), of nk] Cons.prems(2,3) by auto
  obtain b2 where 2: "write_nacks b1 (length ?pre div 8) (length ?pre mod 8) nks =
      Some (b2, length (?pre @ concat (map nack_bits nks)) div 8,
                length (?pre @ concat (map nack_bits nks)) mod 8)"
      "buf_bits b2 = (?pre @ concat (map nack_bits nks)) @
         replicate (m - length (nack_bits nk) - length (concat (map nack_bits nks))) False"
  proof -
    have "list_all nack_ok nks" "length (concat (map nack_bits nks)) \<le> m - length (nack_bits nk)"
      using Cons.prems(2,3) by simp_all
    from Cons.IH [OF 1(2) this] show ?thesis using that by blast
  qed
  from 1(1) 2 show ?case by (simp add: add.assoc)
qed

lemma write_status_layout:
  assumes ok: "status_ok info" and room: "length (status_bits info) \<le> 8 * n"
  shows "\<exists>bs'. rlc_am_write_status_pdu (replicate n 0) info =
      Some (bs', (length (status_bits info) + 7) div 8) \<and>
    buf_bits bs' = status_bits info @ replicate (8 * n - length (status_bits info)) False"
proof -
  let ?hd = "nbits 1 0 @ nbits 3 0" and ?nks = "ci_nack_list info"
  let ?e = "if ?nks \<noteq> [] then 1 else 0 :: int"
  let ?a = "?hd @ nbits 10 (ci_ack_sn info)"
  let ?b = "?a @ nbits 1 ?e"
  have len: "15 + length (concat (map nack_bits ?nks)) \<le> 8 * n"
    using room by (simp add: status_bits_def)
  have hd: "?hd = replicate 4 False" by (simp add: nbits_def numeral_eq_Suc)
  have "buf_bits (replicate n 0) = replicate 4 False @ replicate (8 * n - 4) False"
    using len by (simp add: buf_bits_zero flip: replicate_add)
  then have 0: "buf_bits (replicate n 0) = ?hd @ replicate (8 * n - 4) False" by (simp only: hd)
  have m: "10 \<le> 8 * n - 4" "1 \<le> 8 * n - 4 - 10"
    "length (concat (map nack_bits ?nks)) \<le> 8 * n - 4 - 10 - 1" using len by linarith+
  have ack: "0 \<le> ci_ack_sn info" "ci_ack_sn info < 2 ^ 10" using ok by (simp_all add: status_ok_def)
  obtain b1 where 1: "rlc_am_write16_bit_field (replicate n 0) 0 4 10 (word_of_int (ci_ack_sn info)) =
      Some (b1, length ?a div 8, length ?a mod 8)" "buf_bits b1 = ?a @ replicate (8 * n - 4 - 10) False"
    using write16.appends [OF 0, of 10, OF _ _ m(1) ack] by auto
  have e: "0 \<le> ?e" "?e < 2 ^ 1" by simp_all
  have "word_of_int ?e = (if ?nks \<noteq> [] then 1 else 0 :: byte)" by simp
  then obtain b2 where 2: "rlc_am_write8_bit_field b1 (length ?a div 8) (length ?a mod 8) 1
        (if ?nks \<noteq> [] then 1 else 0) = Some (b2, length ?b div 8, length ?b mod 8)"
      "buf_bits b2 = ?b @ replicate (8 * n - 4 - 10 - 1) False"
    using write8.appends [OF 1(2), of 1, OF _ _ m(2) e] by auto
  have "list_all nack_ok ?nks" using ok by (simp add: status_ok_def)
  then obtain b3 where 3: "write_nacks b2 (length ?b div 8) (length ?b mod 8) ?nks =
      Some (b3, length (?b @ concat (map nack_bits ?nks)) div 8,
                length (?b @ concat (map nack_bits ?nks)) mod 8)"
      "buf_bits b3 = (?b @ concat (map nack_bits ?nks)) @
         replicate (8 * n - 4 - 10 - 1 - length (concat (map nack_bits ?nks))) False"
    using write_nacks_appends [OF 2(2) _ m(3)] by blast
  have st: "status_bits info = ?b @ concat (map nack_bits ?nks)" by (simp add: status_bits_def)
  have bits: "buf_bits b3 = status_bits info @ replicate (8 * n - length (status_bits info)) False"
    unfolding st 3(2) by simp
  have ceil: "(if 0 < l mod 8 then l div 8 + 1 else l div 8) = (l + 7) div 8" for l :: nat
  proof (cases "l mod 8 = 0")
    case False
    have "(l + 7) div 8 = (l mod 8 + 7 + l div 8 * 8) div 8" using div_mult_mod_eq [of l 8] by simp
    also have "\<dots> = l div 8 + (l mod 8 + 7) div 8" by (simp only: div_mult_self1)
    also have "(l mod 8 + 7) div 8 = 1" using False by (intro div_nat_eqI) auto
    finally show ?thesis using False by simp
  qed (auto elim!: dvdE)
  have "rlc_am_write_status_pdu (replicate n 0) info = Some (b3, (length (status_bits info) + 7) div 8)"
    using 1(1) 2(1) 3(1) by (simp add: rlc_am_write_status_pdu_def st ceil)
  with bits show ?thesis by blast
qed

subsection \<open>The decoder reads the layout\<close>

lemma uint_field: "0 \<le> v \<Longrightarrow> v < 2 ^ n \<Longrightarrow> n \<le> 16 \<Longrightarrow> uint (word_of_int v :: u16) = v"
proof -
  assume v: "0 \<le> v" "v < 2 ^ n" "n \<le> 16"
  then have "v < 2 ^ 16" using power_increasing [of n 16 "2::int"] by linarith
  with v(1) show ?thesis by (simp add: uint_word_of_int)
qed

lemma read_nack_at:
  assumes bits: "buf_bits bs = pre @ nack_bits nk @ post" and nk: "nack_ok nk"
  shows "read_nack bs (length pre div 8) (length pre mod 8) =
    Some (nk, length (pre @ nack_bits nk) div 8, length (pre @ nack_bits nk) mod 8)"
proof -
  have r: "0 \<le> nack_sn nk" "nack_sn nk < 2 ^ 10" "0 \<le> nack_e1 nk" "nack_e1 nk < 2 ^ 1"
    "0 \<le> nack_e2 nk" "nack_e2 nk < 2 ^ 1" "0 \<le> so_start nk" "so_start nk < 2 ^ 15"
    "0 \<le> so_end nk" "so_end nk < 2 ^ 15"
    using nk by (auto simp: nack_ok_def)
  note u = uint_field [OF r(1,2)] uint_field [OF r(3,4)] uint_field [OF r(5,6)]
    uint_field [OF r(7,8)] uint_field [OF r(9,10)]
  let ?so = "if nack_e2 nk > 0 then nbits 15 (so_start nk) @ nbits 15 (so_end nk) else []"
  let ?a = "pre @ nbits 10 (nack_sn nk)"
  let ?b = "?a @ nbits 1 (nack_e1 nk)"
  let ?c = "?b @ nbits 1 (nack_e2 nk)"
  have 1: "rlc_am_read_bit_field bs (length pre div 8) (length pre mod 8) 10 =
      Some (word_of_int (nack_sn nk), length ?a div 8, length ?a mod 8)"
    using bits r by (intro read_bit_field_at) (simp_all add: nack_bits_def)
  have 2: "rlc_am_read_bit_field bs (length ?a div 8) (length ?a mod 8) 1 =
      Some (word_of_int (nack_e1 nk), length ?b div 8, length ?b mod 8)"
    using bits r by (intro read_bit_field_at) (simp_all add: nack_bits_def)
  have 3: "rlc_am_read_bit_field bs (length ?b div 8) (length ?b mod 8) 1 =
      Some (word_of_int (nack_e2 nk), length ?c div 8, length ?c mod 8)"
    using bits r by (intro read_bit_field_at) (simp_all add: nack_bits_def)
  have z: "(word_of_int (nack_e2 nk) :: u16) \<noteq> 0 \<longleftrightarrow> nack_e2 nk > 0"
    using nk by (auto simp: nack_ok_def)
  show ?thesis
  proof (cases "nack_e2 nk > 0")
    case False
    then have "nack_e2 nk = 0" using r by simp
    with 1 2 3 z u nk show ?thesis by (simp add: read_nack_def nack_bits_def nack_ok_def)
  next
    case True
    let ?d = "?c @ nbits 15 (so_start nk)"
    have 4: "rlc_am_read_bit_field bs (length ?c div 8) (length ?c mod 8) 15 =
        Some (word_of_int (so_start nk), length ?d div 8, length ?d mod 8)"
      using bits r True by (intro read_bit_field_at) (simp_all add: nack_bits_def)
    have 5: "rlc_am_read_bit_field bs (length ?d div 8) (length ?d mod 8) 15 =
        Some (word_of_int (so_end nk), length (?d @ nbits 15 (so_end nk)) div 8,
              length (?d @ nbits 15 (so_end nk)) mod 8)"
      using bits r True by (intro read_bit_field_at) (simp_all add: nack_bits_def)
    from 1 2 3 4 5 z u True show ?thesis by (simp add: read_nack_def nack_bits_def)
  qed
qed

lemma read_nacks_at:
  "buf_bits bs = pre @ concat (map nack_bits nks) @ post \<Longrightarrow> list_all nack_ok nks \<Longrightarrow> nack_chain nks \<Longrightarrow>
     nks \<noteq> [] \<Longrightarrow> length acc + length nks < 1023 \<Longrightarrow>
   read_nacks bs (length pre div 8) (length pre mod 8) acc =
     Some (0, acc @ nks, length (pre @ concat (map nack_bits nks)) div 8,
                         length (pre @ concat (map nack_bits nks)) mod 8)"
proof (induction nks arbitrary: pre acc)
  case Nil
  then show ?case by simp
next
  case (Cons nk nks)
  let ?pre = "pre @ nack_bits nk"
  have 1: "read_nack bs (length pre div 8) (length pre mod 8) =
      Some (nk, length ?pre div 8, length ?pre mod 8)"
    using Cons.prems(1,2) by (intro read_nack_at) auto
  show ?case
  proof (cases nks)
    case Nil
    with 1 Cons.prems show ?thesis by (simp add: read_nacks.simps [of bs _ _ acc])
  next
    case (Cons nk' nks')
    then have e1: "nack_e1 nk = 1" "nack_chain nks" "nks \<noteq> []" using Cons.prems(3) by simp_all
    have "read_nacks bs (length ?pre div 8) (length ?pre mod 8) (acc @ [nk]) =
        Some (0, (acc @ [nk]) @ nks, length (?pre @ concat (map nack_bits nks)) div 8,
                         length (?pre @ concat (map nack_bits nks)) mod 8)"
      using Cons.prems(1,2,5) e1 by (intro Cons.IH) auto
    with 1 e1 Cons.prems(5) show ?thesis
      by (simp add: read_nacks.simps [of bs _ _ acc] add.assoc)
  qed
qed

lemma status_header_bits:
  assumes bits: "buf_bits bs = status_bits info @ post"
  shows "2 \<le> length bs" "\<And>j. 4 \<le> j \<Longrightarrow> \<not> bit (bs ! 0) j"
    "\<And>j. j < 4 \<Longrightarrow> bit (bs ! 0) j \<longleftrightarrow> bit (ci_ack_sn info) (j + 6)"
    "\<And>j. 2 \<le> j \<Longrightarrow> j < 8 \<Longrightarrow> bit (bs ! 1) j \<longleftrightarrow> bit (ci_ack_sn info) (j - 2)"
    "bit (bs ! 1) 1 \<longleftrightarrow> ci_nack_list info \<noteq> []"
proof -
  have "15 \<le> 8 * length bs" using arg_cong [OF bits, of length] by (simp add: status_bits_def)
  then show len: "2 \<le> length bs" by linarith
  have b: "membit bs q = (status_bits info @ post) ! q" if "q < 16" for q
    using that len by (simp flip: bits)
  have 0: "bit (bs ! 0) j = membit bs (7 - j)" "bit (bs ! 1) j = membit bs (15 - j)" if "j < 8" for j
    using membit_high [OF that, of bs 0] membit_high [OF that, of bs 1] by simp_all
  have nth: "(status_bits info @ post) ! q =
      (if q < 4 then False else if q < 14 then bit (ci_ack_sn info) (13 - q)
       else ci_nack_list info \<noteq> [])" if "q < 15" for q
    using that by (auto simp: status_bits_def nth_append)
  show "\<not> bit (bs ! 0) j" if "4 \<le> j" for j
  proof (cases "j < 8")
    case True
    then have "7 - j < 4" using that by simp
    then show ?thesis using True 0(1) [of j] b [of "7 - j"] nth [of "7 - j"] by simp
  next
    case False
    then show ?thesis by (simp add: impossible_bit)
  qed
  show "bit (bs ! 0) j \<longleftrightarrow> bit (ci_ack_sn info) (j + 6)" if "j < 4" for j
  proof -
    have "13 - (7 - j) = j + 6" "\<not> 7 - j < 4" "7 - j < 14" using that by linarith+
    then show ?thesis using that 0(1) [of j] b [of "7 - j"] nth [of "7 - j"] by (simp add: add.commute)
  qed
  show "bit (bs ! 1) j \<longleftrightarrow> bit (ci_ack_sn info) (j - 2)" if "2 \<le> j" "j < 8" for j
  proof -
    have "13 - (15 - j) = j - 2" "\<not> 15 - j < 4" "15 - j < 14" using that by linarith+
    then show ?thesis using that 0(2) [of j] b [of "15 - j"] nth [of "15 - j"] by simp
  qed
  show "bit (bs ! 1) 1 \<longleftrightarrow> ci_nack_list info \<noteq> []"
    using 0(2) [of 1] b [of 14] nth [of 14] by simp
qed

lemma bit_masks:
  "bit (0x07 :: byte) k \<longleftrightarrow> k < 3" "bit (0x3F :: byte) k \<longleftrightarrow> k < 6" "bit (0x0F :: byte) k \<longleftrightarrow> k < 4"
proof -
  have m: "(0x07 :: byte) = mask 3" "(0x3F :: byte) = mask 6" "(0x0F :: byte) = mask 4"
    by (simp_all add: mask_eq_exp_minus_1)
  show "bit (0x07 :: byte) k \<longleftrightarrow> k < 3" "bit (0x3F :: byte) k \<longleftrightarrow> k < 6"
    "bit (0x0F :: byte) k \<longleftrightarrow> k < 4"
    unfolding m by (auto simp: bit_mask_iff)
qed

lemma status_header_fields:
  assumes bits: "buf_bits bs = status_bits info @ post" and ack: "0 \<le> ci_ack_sn info" "ci_ack_sn info < 1024"
  shows "drop_bit 7 (bs ! 0) = 0" "drop_bit 4 (bs ! 0) AND 0x07 = 0"
    "(ucast (drop_bit 2 (bs ! 1) AND 0x3F) :: u16) OR push_bit 6 (ucast (bs ! 0 AND 0x0F)) =
       word_of_int (ci_ack_sn info)"
    "drop_bit 1 (bs ! 1) AND 0x01 = (if ci_nack_list info \<noteq> [] then 1 else 0)"
proof -
  note h = status_header_bits [OF bits]
  show "drop_bit 7 (bs ! 0) = 0" by (rule bit_eqI) (use h(2) in \<open>simp add: bit_drop_bit_eq\<close>)
  show "drop_bit 4 (bs ! 0) AND 0x07 = 0"
    by (rule bit_eqI) (use h(2) in \<open>auto simp: bit_drop_bit_eq bit_and_iff bit_masks\<close>)
  show "drop_bit 1 (bs ! 1) AND 0x01 = (if ci_nack_list info \<noteq> [] then 1 else 0)"
  proof (rule bit_eqI)
    fix k show "bit (drop_bit 1 (bs ! 1) AND 0x01) k = bit (if ci_nack_list info \<noteq> [] then 1 else 0 :: byte) k"
      by (cases k) (use h(5) in \<open>auto simp: bit_drop_bit_eq bit_and_iff bit_1_iff\<close>)
  qed
  have "take_bit 10 (ci_ack_sn info) = ci_ack_sn info" using ack by (simp add: take_bit_int_eq_self)
  then have high: "\<not> bit (ci_ack_sn info) k" if "10 \<le> k" for k
    using that by (metis bit_take_bit_iff not_less)
  show "(ucast (drop_bit 2 (bs ! 1) AND 0x3F) :: u16) OR push_bit 6 (ucast (bs ! 0 AND 0x0F)) =
       word_of_int (ci_ack_sn info)"
  proof (rule bit_eqI)
    fix k assume "possible_bit TYPE(u16) k"
    then have k: "k < 16" by simp
    have lo: "bit (ucast (drop_bit 2 (bs ! 1) AND 0x3F) :: u16) k \<longleftrightarrow> k < 6 \<and> bit (ci_ack_sn info) k"
      unfolding bit_ucast_iff bit_and_iff bit_masks using h(4) [of "k + 2"] by (auto simp: bit_drop_bit_eq)
    have hi: "bit (push_bit 6 (ucast (bs ! 0 AND 0x0F)) :: u16) k \<longleftrightarrow>
        6 \<le> k \<and> k < 10 \<and> bit (ci_ack_sn info) k"
      unfolding bit_push_bit_iff bit_ucast_iff bit_and_iff bit_masks using h(3) [of "k - 6"] k by auto
    show "bit ((ucast (drop_bit 2 (bs ! 1) AND 0x3F) :: u16) OR push_bit 6 (ucast (bs ! 0 AND 0x0F))) k =
        bit (word_of_int (ci_ack_sn info) :: u16) k"
      unfolding bit_or_iff lo hi using k high [of k] by (cases "k < 10") (auto simp: bit_word_of_int_iff)
  qed
qed

lemma get_control_pdu_layout:
  assumes bits: "buf_bits bs = status_bits info @ post" and ok: "status_ok info"
  shows "rlc_am_get_control_pdu_infos bs sz =
    Some (0, info, sz - int ((length (status_bits info) + 7) div 8))"
proof -
  have ack: "0 \<le> ci_ack_sn info" "ci_ack_sn info < 1024" using ok by (simp_all add: status_ok_def)
  note f = status_header_fields [OF bits ack]
  have len: "2 \<le> length bs" by (rule status_header_bits(1) [OF bits])
  have u: "uint (word_of_int (ci_ack_sn info) :: u16) = ci_ack_sn info"
    using uint_field [of _ 10] ack by simp
  let ?nks = "ci_nack_list info"
  show ?thesis
  proof (cases "?nks = []")
    case True
    then have "length (status_bits info) = 15" by (simp add: status_bits_def)
    with True f len u ok show ?thesis
      by (simp add: rlc_am_get_control_pdu_infos_def Let_def status_ok_def)
  next
    case False
    let ?pre = "nbits 1 0 @ nbits 3 0 @ nbits 10 (ci_ack_sn info) @ nbits 1 1"
    have st: "status_bits info = ?pre @ concat (map nack_bits ?nks)"
      using False by (simp add: status_bits_def)
    have nks: "list_all nack_ok ?nks" "nack_chain ?nks" "length ([] :: nack_sn_t list) + length ?nks < 1023"
      using ok by (simp_all add: status_ok_def)
    have "buf_bits bs = ?pre @ concat (map nack_bits ?nks) @ post" using bits by (simp add: st)
    from read_nacks_at [OF this nks(1,2) False nks(3)]
    have r: "read_nacks bs 1 7 [] = Some (0, ?nks, length (status_bits info) div 8, length (status_bits info) mod 8)"
      by (simp add: st)
    have ceil: "int (l div 8) + (int (l mod 8) + 7) div 8 = int ((l + 7) div 8)" for l :: nat
    proof -
      have "l + 7 = l mod 8 + 7 + 8 * (l div 8)" by simp
      then have "(l + 7) div 8 = l div 8 + (l mod 8 + 7) div 8" by (simp only: div_mult_self2)
      then show ?thesis by (simp add: zdiv_int)
    qed
    show ?thesis
      using False f len u ok r
      by (simp add: rlc_am_get_control_pdu_infos_def Let_def status_ok_def ceil)
  qed
qed

subsection \<open>The status report survives the air interface\<close>

definition status_example :: rlc_am_control_pdu_info where
  "status_example = \<lparr>ci_d_c = 0, ci_cpt = 0, ci_ack_sn = 700, ci_e1 = 1, ci_nack_list =
     [\<lparr>nack_sn = 5, nack_e1 = 1, nack_e2 = 0, so_start = 0, so_end = 0x7FFF\<rparr>,
      \<lparr>nack_sn = 1023, nack_e1 = 0, nack_e2 = 1, so_start = 17, so_end = 900\<rparr>]\<rparr>"

lemma status_example_ok: "status_ok status_example" "length (status_bits status_example) \<le> 8 * 12"
  by (simp_all add: status_ok_def status_example_def nack_ok_def status_bits_def nack_bits_def)

lemma write_status_decodes:
  assumes "status_ok info" "length (status_bits info) \<le> 8 * n"
  shows "\<exists>bs k. rlc_am_write_status_pdu (replicate n 0) info = Some (bs, k) \<and>
    k = (length (status_bits info) + 7) div 8 \<and> length bs = n \<and>
    (\<forall>rest sz. rlc_am_get_control_pdu_infos (take k bs @ rest) sz = Some (0, info, sz - int k))"
proof -
  let ?l = "length (status_bits info)" and ?k = "(length (status_bits info) + 7) div 8"
  obtain bs where bs: "rlc_am_write_status_pdu (replicate n 0) info = Some (bs, ?k)"
      "buf_bits bs = status_bits info @ replicate (8 * n - ?l) False"
    using write_status_layout [OF assms] by blast
  have n: "length bs = n" using arg_cong [OF bs(2), of length] assms(2) by simp
  have k: "?k \<le> n" "?l \<le> 8 * ?k" using assms(2) by linarith+
  have "rlc_am_get_control_pdu_infos (take ?k bs @ rest) sz = Some (0, info, sz - int ?k)" for rest sz
  proof (rule get_control_pdu_layout [OF _ assms(1)])
    let ?bs = "take ?k bs @ rest"
    have "take ?l (buf_bits ?bs) = take ?l (buf_bits bs)"
    proof (rule nth_equalityI)
      show "length (take ?l (buf_bits ?bs)) = length (take ?l (buf_bits bs))" using n k by auto
      fix q assume "q < length (take ?l (buf_bits ?bs))"
      then have q: "q < 8 * ?k" "q < 8 * n" "q < ?l" using n k by auto
      then have "q div 8 < ?k" by linarith
      then show "take ?l (buf_bits ?bs) ! q = take ?l (buf_bits bs) ! q"
        using q n k by (simp add: membit_def nth_append)
    qed
    then have "take ?l (buf_bits ?bs) = status_bits info" by (simp add: bs(2))
    then show "buf_bits ?bs = status_bits info @ drop ?l (buf_bits ?bs)" by (metis append_take_drop_id)
  qed
  with bs(1) n show ?thesis by blast
qed

text \<open>
  (C22) Encoding any well-formed status report (up to 1022 NACKs, with or without segment
  offsets) into a cleared buffer that is large enough succeeds, and decoding the bytes gives back
  exactly the report; the encoder's size is the number of bytes the layout needs, and the decoder
  consumes exactly those, whatever follows them in the transport block.
\<close>

theorem status_pdu_roundtrip:
  assumes "status_ok info" "length (status_bits info) \<le> 8 * n"
  shows "\<exists>bs k. rlc_am_write_status_pdu (replicate n 0) info = Some (bs, k) \<and>
    k = (length (status_bits info) + 7) div 8 \<and> length bs = n \<and>
    (\<forall>rest sz. rlc_am_get_control_pdu_infos (take k bs @ rest) sz = Some (0, info, sz - int k))"
  by (rule write_status_decodes[OF assms])

theorem status_pdu_roundtrip_witness:
  "\<exists>bs k. rlc_am_write_status_pdu (replicate 12 0) status_example = Some (bs, k) \<and> k = 9 \<and>
     rlc_am_get_control_pdu_infos (take k bs @ [1, 2, 3]) 50 = Some (0, status_example, 41)"
proof -
  have "(length (status_bits status_example) + 7) div 8 = 9"
    by (simp add: status_example_def status_bits_def nack_bits_def)
  with status_pdu_roundtrip [OF status_example_ok] show ?thesis by fastforce
qed

text \<open>
  (C37) A PDU whose first bit says data, or whose control PDU type is not STATUS, is refused
  with its own error code and consumes nothing of the transport block.
\<close>

theorem control_pdu_refused:
  assumes "2 \<le> length bs" "drop_bit 4 (bs ! 0) \<noteq> 0"
  shows "\<exists>rc info. rlc_am_get_control_pdu_infos bs sz = Some (rc, info, sz) \<and> ci_nack_list info = [] \<and>
    rc = (if bit (bs ! 0) 7 then - 1 else - 3)"
proof (cases "bit (bs ! 0) 7")
  case True
  then have "bit (drop_bit 7 (bs ! 0)) 0" by (simp add: bit_drop_bit_eq)
  then have "drop_bit 7 (bs ! 0) \<noteq> 0" by (metis bit_0_eq bot_apply bot_bool_def)
  then show ?thesis using assms True
    by (simp add: rlc_am_get_control_pdu_infos_def Let_def zero_control_info_def uint_0_iff)
next
  case False
  then have d: "drop_bit 7 (bs ! 0) = 0"
  proof (intro bit_eqI)
    fix k show "bit (drop_bit 7 (bs ! 0)) k = bit (0 :: byte) k"
      by (cases k) (use False in \<open>auto simp: bit_drop_bit_eq impossible_bit\<close>)
  qed
  have "drop_bit 4 (bs ! 0) AND 0x07 = drop_bit 4 (bs ! 0)"
  proof (rule bit_eqI)
    fix k :: nat
    show "bit (drop_bit 4 (bs ! 0) AND 0x07) k = bit (drop_bit 4 (bs ! 0)) k"
    proof (cases "k < 3")
      case True
      then show ?thesis unfolding bit_and_iff bit_masks by simp
    next
      case F: False
      have "\<not> bit (drop_bit 4 (bs ! 0)) k"
      proof (cases "k = 3")
        case True
        then show ?thesis using False by (simp add: bit_drop_bit_eq)
      next
        case G: False
        then have "8 \<le> 4 + k" using F by simp
        then show ?thesis by (simp add: bit_drop_bit_eq impossible_bit)
      qed
      then show ?thesis by (simp add: bit_and_iff)
    qed
  qed
  with assms d False show ?thesis
    by (simp add: rlc_am_get_control_pdu_infos_def Let_def zero_control_info_def uint_0_iff)
qed

theorem control_pdu_refused_witness:
  "\<exists>info. rlc_am_get_control_pdu_infos [0x9A, 0x10, 0] 3 = Some (- 1, info, 3)"
proof -
  have "drop_bit 4 (0x9A :: byte) = 9" "bit (0x9A :: byte) 7" by code_simp+
  then show ?thesis using control_pdu_refused [of "[0x9A, 0x10, 0]" 3] by auto
qed

end
