(* ===== verification/Rlc_Am_Retransmit.thy ===== *)
theory Rlc_Am_Retransmit
  imports Rlc_Am_Sdu Rlc_Am_Holes
begin

text \<open>
  The retransmission buffer (\<^verbatim>\<open>rlc_am_retransmit.c\<close>): positive and negative acknowledgement of
  a PDU, and the copy of a stored PDU for (re)transmission with its poll bit
  (\<^verbatim>\<open>rlc_am_pdu_polling\<close> of \<^verbatim>\<open>rlc_am_segment.c\<close>). Confirmations to the upper layer
  (\<^verbatim>\<open>rlc_data_conf\<close>) go to \<open>log_data_conf\<close>.

  \<open>tx_ok\<close> is the invariant of the transmit window: between \<^verbatim>\<open>vt_a\<close> and \<^verbatim>\<open>vt_s\<close> every slot
  holds a PDU or is acknowledged, the slot at \<^verbatim>\<open>vt_a\<close> is not acknowledged, and the others are
  free. Acknowledgement returns and preserves it.
\<close>

subsection \<open>Polling\<close>

definition rlc_am_pdu_polling :: "rlc_am_entity \<Rightarrow> frame \<Rightarrow> byte \<Rightarrow> int \<Rightarrow> rlc_am_entity \<times> byte" where
  "rlc_am_pdu_polling e frameP b1 payload_sizeP =
     (let e1 = e\<lparr>c_pdu_without_poll := c_pdu_without_poll e + 1,
                 c_byte_without_poll := c_byte_without_poll e + word_of_int (to_int16 payload_sizeP)\<rparr>
      in if c_pdu_without_poll e1 \<ge> ucast (poll_pdu e1) \<or> c_byte_without_poll e1 \<ge> ucast (poll_byte e1) \<or>
            (sdu_buffer_occupancy e1 = 0 \<and> retrans_num_bytes_to_retransmit e1 = 0) \<or>
            vt_s e1 = vt_ms e1
         then (rlc_am_start_timer_poll_retransmit
                 (e1\<lparr>c_pdu_without_poll := 0, c_byte_without_poll := 0,
                     poll_sn := sn_mask (vt_s e1 - 1)\<rparr>) frameP, b1 OR 0x20)
         else (e1, b1 AND 0xDF))"

subsection \<open>Negative acknowledgement\<close>

text \<open>The slots of the SDUs that have a segment in a PDU, in the order of the loops over them.\<close>

definition pdu_sdus :: "rlc_am_tx_data_pdu_management \<Rightarrow> int list" where
  "pdu_sdus p = map (txp_sdus_index p) [0..txp_nb_sdus p - 1]"

fun nack_sdus :: "frame \<Rightarrow> int list \<Rightarrow> rlc_am_entity \<Rightarrow> rlc_am_entity option" where
  "nack_sdus frameP [] e = Some e"
| "nack_sdus frameP (sdu_index # is) e =
     do {
       c_assert (sdu_index_ok sdu_index);
       let e1 = upd_sdu sdu_index (\<lambda>s. s\<lparr>sdu_nb_pdus_ack := (sdu_nb_pdus_ack s + 1) mod 256\<rparr>) e;
       let s = input_sdus e1 sdu_index;
       if sdu_nb_pdus_ack s = sdu_nb_pdus s then
         do {
           let e2 = e1\<lparr>log_data_conf := log_data_conf e1 @ [(sdu_mui s, RLC_SDU_CONFIRM_NO)],
                 stats := (stats e1)\<lparr>
                   stat_tx_pdcp_sdu_discarded := stat_tx_pdcp_sdu_discarded (stats e1) + 1,
                   stat_tx_pdcp_bytes_discarded :=
                     stat_tx_pdcp_bytes_discarded (stats e1) + word_of_int (sdu_size s)\<rparr>\<rparr>;
           e3 \<leftarrow> rlc_am_free_in_sdu e2 frameP sdu_index;
           nack_sdus frameP is e3
         }
       else nack_sdus frameP is e1
     }"

text \<open>The counters, and the holes of an earlier report dropped once per frame.\<close>

definition nack_begin :: "frame \<Rightarrow> int \<Rightarrow> int \<Rightarrow> int \<Rightarrow> rlc_am_entity \<Rightarrow> rlc_am_entity" where
  "nack_begin frameP snP so_startP so_endP e1 =
     (let e2 = (if txp_last_nack_time (pdu_retrans_buffer e1 snP) \<noteq> frameP
                then rlc_am_clear_holes (upd_pdu snP (\<lambda>p. p\<lparr>txp_last_nack_time := frameP\<rparr>) e1) snP
                else e1)
      in if \<not> (so_startP = 0 \<and> so_endP = 0x7FFF)
         then e2\<lparr>num_nack_so := num_nack_so e2 + 1\<rparr> else e2)"

text \<open>The first PDU to retransmit, the flag and the retransmission count.\<close>

definition nack_schedule :: "int \<Rightarrow> rlc_am_entity \<Rightarrow> rlc_am_entity" where
  "nack_schedule snP e4 =
     (let e5 = (if first_retrans_pdu_sn e4 < 0 \<or> rlc_am_tx_sn1_gt_sn2 e4 (first_retrans_pdu_sn e4) snP
                then e4\<lparr>first_retrans_pdu_sn := snP\<rparr> else e4);
          e6 = upd_pdu snP (\<lambda>p. p\<lparr>txp_retransmit := True\<rparr>) e5
      in if txp_retx_count (pdu_retrans_buffer e6 snP) = - 1
         then upd_pdu snP (\<lambda>p. p\<lparr>txp_retx_count := 0\<rparr>)
                (e6\<lparr>retrans_num_bytes_to_retransmit := retrans_num_bytes_to_retransmit e6 +
                      txp_header_and_payload_size (pdu_retrans_buffer e6 snP)\<rparr>)
         else upd_pdu snP (\<lambda>p. p\<lparr>txp_retx_count := to_int8 (txp_retx_count p + 1)\<rparr>) e6)"

definition rlc_am_nack_pdu ::
  "rlc_am_entity \<Rightarrow> frame \<Rightarrow> int \<Rightarrow> int \<Rightarrow> int \<Rightarrow> rlc_am_entity option" where
  "rlc_am_nack_pdu e frameP snP so_startP so_endP =
     (if txp_mem_block (pdu_retrans_buffer e snP) \<noteq> None then
        do {
          let e1 = e\<lparr>num_nack_sn := num_nack_sn e + 1\<rparr>;
          c_assert (so_startP \<le> so_endP);
          e4 \<leftarrow> rlc_am_add_hole (nack_begin frameP snP so_startP so_endP e1) frameP snP so_startP so_endP;
          let e7 = nack_schedule snP e4;
          if txp_retx_count (pdu_retrans_buffer e7 snP) \<ge> max_retx_threshold e7
          then nack_sdus frameP (pdu_sdus (pdu_retrans_buffer e7 snP)) e7
          else Some e7
        }
      else Some e)"

subsection \<open>Positive acknowledgement\<close>

fun ack_sdus :: "frame \<Rightarrow> int list \<Rightarrow> rlc_am_entity \<Rightarrow> rlc_am_entity option" where
  "ack_sdus frameP [] e = Some e"
| "ack_sdus frameP (sdu_index # is) e =
     do {
       c_assert (sdu_index_ok sdu_index);
       let e1 = upd_sdu sdu_index (\<lambda>s. s\<lparr>sdu_nb_pdus_ack := (sdu_nb_pdus_ack s + 1) mod 256\<rparr>) e;
       let s = input_sdus e1 sdu_index;
       if sdu_nb_pdus_ack s = sdu_nb_pdus s \<and> sdu_remaining_size s = 0 then
         do {
           let e2 = e1\<lparr>log_data_conf := log_data_conf e1 @ [(sdu_mui s, RLC_SDU_CONFIRM_YES)]\<rparr>;
           e3 \<leftarrow> rlc_am_free_in_sdu e2 frameP sdu_index;
           ack_sdus frameP is e3
         }
       else ack_sdus frameP is e1
     }"

text \<open>One round of the loop that moves the lower edge of the window.\<close>

definition advance_vt_a_step :: "rlc_am_entity \<Rightarrow> rlc_am_entity" where
  "advance_vt_a_step e =
     (let e1 = upd_pdu (vt_a e) (\<lambda>_. zero_tx_pdu) e;
          e2 = (if vt_a e1 = first_retrans_pdu_sn e1
                then e1\<lparr>first_retrans_pdu_sn := sn_mask (vt_a e1 + 1)\<rparr> else e1)
      in e2\<lparr>vt_a := sn_mask (vt_a e2 + 1)\<rparr>)"

definition acked_slots :: "rlc_am_entity \<Rightarrow> int set" where
  "acked_slots e = {i\<in>{0..<1024}. txp_ack (pdu_retrans_buffer e i)}"

lemma finite_acked_slots [simp]: "finite (acked_slots e)"
  by (rule finite_subset [of _ "{0..<1024}"]) (auto simp: acked_slots_def)

lemma advance_step_simps [simp]:
  "vt_a (advance_vt_a_step e) = sn_mask (vt_a e + 1)"
  "vt_s (advance_vt_a_step e) = vt_s e"
  "vt_ms (advance_vt_a_step e) = vt_ms e"
  "pdu_retrans_buffer (advance_vt_a_step e) = (pdu_retrans_buffer e)(vt_a e := zero_tx_pdu)"
  by (simp_all add: advance_vt_a_step_def Let_def)

lemma acked_slots_step: "acked_slots (advance_vt_a_step e) = acked_slots e - {vt_a e}"
  by (auto simp: acked_slots_def zero_tx_pdu_def)

text \<open>
  The \<^verbatim>\<open>do ... while\<close> loop: every round after the first clears an acknowledged slot, so it ends
  after at most 1024 rounds whatever \<^verbatim>\<open>vt_s\<close> is.
\<close>

function advance_vt_a :: "rlc_am_entity \<Rightarrow> rlc_am_entity" where
  "advance_vt_a e =
     (let e1 = advance_vt_a_step e
      in if txp_ack (pdu_retrans_buffer e1 (vt_a e1)) \<and> vt_a e1 \<noteq> vt_s e1
         then advance_vt_a e1 else e1)"
  by pat_completeness auto
termination
proof (relation "measure (\<lambda>e. 2 * card (acked_slots e) + (if vt_a e \<in> acked_slots e then 0 else 1))",
       goal_cases)
  case (2 e e1)
  then have "vt_a e1 \<in> acked_slots e1" by (simp add: acked_slots_def)
  moreover have "card (acked_slots e1) + (if vt_a e \<in> acked_slots e then 1 else 0) = card (acked_slots e)"
    using 2 by (auto simp: acked_slots_step card_Suc_Diff1 simp del: card_Diff_insert)
  ultimately show ?case by auto
qed simp

declare advance_vt_a.simps [simp del]

text \<open>The search for the next PDU that waits for retransmission.\<close>

partial_function (option) next_retrans :: "rlc_am_entity \<Rightarrow> int \<Rightarrow> int option" where
  "next_retrans e sn =
     (let sn1 = sn_mask (sn + 1)
      in if txp_retx_count (pdu_retrans_buffer e sn1) \<ge> 0 then Some sn1
         else if sn1 \<noteq> vt_s e then next_retrans e sn1 else Some sn1)"

definition advance_window :: "rlc_am_entity \<Rightarrow> rlc_am_entity" where
  "advance_window e = (let e1 = advance_vt_a e in e1\<lparr>vt_ms := sn_mask (vt_a e1 + RLC_AM_WINDOW_SIZE)\<rparr>)"

text \<open>Freeing the memory of an acknowledged PDU, with the counters of the buffer.\<close>

definition release_pdu :: "int \<Rightarrow> rlc_am_entity \<Rightarrow> rlc_am_entity" where
  "release_pdu snP e =
     (let p = pdu_retrans_buffer e snP
      in upd_pdu snP (\<lambda>p. p\<lparr>txp_mem_block := None\<rparr>)
           (e\<lparr>retrans_num_pdus := retrans_num_pdus e - 1,
              retrans_num_bytes := retrans_num_bytes e - txp_header_and_payload_size p,
              retrans_num_bytes_to_retransmit :=
                (if txp_retx_count p \<ge> 0
                 then retrans_num_bytes_to_retransmit e - txp_header_and_payload_size p
                 else retrans_num_bytes_to_retransmit e)\<rparr>))"

text \<open>Marking the slot, and moving the window and the first PDU to retransmit.\<close>

definition mark_acked :: "int \<Rightarrow> rlc_am_entity \<Rightarrow> rlc_am_entity option" where
  "mark_acked snP e =
     (let e4 = upd_pdu snP (\<lambda>p. p\<lparr>txp_ack := True\<rparr>) e;
          e5 = (if snP = vt_a e4 then advance_window e4 else e4)
      in if snP = first_retrans_pdu_sn e5
         then do {
           sn \<leftarrow> next_retrans e5 (first_retrans_pdu_sn e5);
           Some (e5\<lparr>first_retrans_pdu_sn := (if vt_s e5 = sn then - 1 else sn)\<rparr>)
         }
         else Some e5)"

definition rlc_am_ack_pdu :: "rlc_am_entity \<Rightarrow> frame \<Rightarrow> int \<Rightarrow> rlc_am_entity option" where
  "rlc_am_ack_pdu e frameP snP =
     do {
       let mb = txp_mem_block (pdu_retrans_buffer e snP);
       let e1 = upd_pdu snP (\<lambda>p. p\<lparr>txp_retransmit := False\<rparr>) e;
       if \<not> txp_ack (pdu_retrans_buffer e1 snP) \<and> mb \<noteq> None then
         do {
           let e2 = release_pdu snP e1;
           e3 \<leftarrow> ack_sdus frameP (pdu_sdus (pdu_retrans_buffer e2 snP)) e2;
           mark_acked snP e3
         }
       else
         do {
           let e2 = upd_pdu snP (\<lambda>p. p\<lparr>txp_mem_block := None\<rparr>) e1;
           Some (if txp_ack (pdu_retrans_buffer e2 snP) \<and> snP = vt_a e2 then advance_window e2 else e2)
         }
     }"

subsection \<open>The copy for transmission\<close>

text \<open>
  The copy takes the bytes of the stored PDU; the poll bit is written into the copy only.
\<close>

definition rlc_am_retransmit_get_copy ::
  "rlc_am_entity \<Rightarrow> frame \<Rightarrow> int \<Rightarrow> (mac_tb_req option \<times> rlc_am_entity) option" where
  "rlc_am_retransmit_get_copy e frameP snP =
     (case txp_mem_block (pdu_retrans_buffer e snP) of
        None \<Rightarrow> Some (None, e)
      | Some mb \<Rightarrow>
          do {
            let i = snP mod RLC_AM_PDU_RETRANSMISSION_BUFFER_SIZE;
            let n = txp_header_and_payload_size (pdu_retrans_buffer e i);
            c_assert (0 < n \<and> n \<le> int (length (tb_data mb)));
            let data = take (nat n) (tb_data mb);
            let e1 = upd_pdu i (\<lambda>p. p\<lparr>txp_retransmit := False\<rparr>) e;
            let (e2, b1) = rlc_am_pdu_polling e1 frameP (data ! 0) (txp_payload_size (pdu_retrans_buffer e1 i));
            Some (Some (mb\<lparr>tb_data := data[0 := b1]\<rparr>), e2)
          })"

subsection \<open>The loops return\<close>

lemma next_retrans_returns:
  "valid_sn (vt_s e) \<Longrightarrow> \<exists>sn'. next_retrans e sn = Some sn'"
proof (induction "nat ((vt_s e - sn - 1) mod 1024)" arbitrary: sn rule: less_induct)
  case less
  let ?sn = "sn_mask (sn + 1)"
  have d: "(vt_s e - ?sn) mod 1024 = (vt_s e - sn - 1) mod 1024"
    by (simp add: sn_mask_mod mod_diff_right_eq diff_diff_eq)
  show ?case
  proof (cases "txp_retx_count (pdu_retrans_buffer e ?sn) \<ge> 0 \<or> ?sn = vt_s e")
    case True
    then show ?thesis by (subst next_retrans.simps) (auto simp: Let_def)
  next
    case False
    have "(vt_s e - ?sn) mod 1024 \<noteq> 0"
      using False less.prems sn_mask_range [of "sn + 1"]
      by (auto simp: valid_sn_def mod_diff_less_cases simp del: sn_mask_range split: if_splits)
    then have pos: "0 < (vt_s e - sn - 1) mod 1024" using d by (simp add: order_less_le)
    have "(vt_s e - ?sn - 1) mod 1024 = ((vt_s e - sn - 1) mod 1024 - 1) mod 1024"
      by (metis d mod_diff_left_eq)
    also have "\<dots> = (vt_s e - sn - 1) mod 1024 - 1"
      using pos pos_mod_bound [of 1024 "vt_s e - sn - 1"] by (intro mod_pos_pos_trivial) auto
    finally obtain sn' where "next_retrans e ?sn = Some sn'"
      using less.hyps [of ?sn] less.prems pos by auto
    with False show ?thesis by (subst next_retrans.simps) (auto simp: Let_def)
  qed
qed

text \<open>What the loops may change of the entity.\<close>

lemma advance_vt_a_frame:
  "\<exists>b v r. advance_vt_a e = e\<lparr>pdu_retrans_buffer := b, vt_a := v, first_retrans_pdu_sn := r\<rparr>"
proof (induction e rule: advance_vt_a.induct)
  case (1 e)
  have step: "\<exists>b v r. advance_vt_a_step e = e\<lparr>pdu_retrans_buffer := b, vt_a := v, first_retrans_pdu_sn := r\<rparr>"
  proof -
    have "advance_vt_a_step e = e\<lparr>pdu_retrans_buffer := pdu_retrans_buffer (advance_vt_a_step e),
        vt_a := vt_a (advance_vt_a_step e), first_retrans_pdu_sn := first_retrans_pdu_sn (advance_vt_a_step e)\<rparr>"
      by (simp add: advance_vt_a_step_def Let_def)
    then show ?thesis by blast
  qed
  show ?case
  proof (cases "txp_ack (pdu_retrans_buffer (advance_vt_a_step e) (vt_a (advance_vt_a_step e))) \<and>
      vt_a (advance_vt_a_step e) \<noteq> vt_s (advance_vt_a_step e)")
    case True
    have "advance_vt_a e = advance_vt_a (advance_vt_a_step e)"
      using True by (subst advance_vt_a.simps) (auto simp: Let_def)
    with 1 [OF refl True] step show ?thesis by fastforce
  next
    case False
    with step show ?thesis by (subst advance_vt_a.simps) (auto simp: Let_def)
  qed
qed

lemma free_in_sdu_frame:
  assumes "sdu_index_ok i" "sdu_index_ok (current_sdu_index e)" "sdu_index_ok (next_sdu_index e)"
  shows "\<exists>s m n c. rlc_am_free_in_sdu e f i =
      Some (e\<lparr>input_sdus := s, nb_sdu_no_segmented := m, nb_sdu := n, current_sdu_index := c\<rparr>) \<and> sdu_index_ok c"
proof -
  define m where "m = (if sdu_mem_block (input_sdus e i) \<noteq> None then nb_sdu_no_segmented e - 1
                       else nb_sdu_no_segmented e)"
  define c where "c = (if current_sdu_index e = i then ring_next (current_sdu_index e) else current_sdu_index e)"
  let ?e = "e\<lparr>input_sdus := (input_sdus e)(i := zero_tx_sdu\<lparr>sdu_transmitted_successfully := True\<rparr>),
              nb_sdu_no_segmented := m, nb_sdu := nb_sdu e - 1, current_sdu_index := c\<rparr>"
  have "rlc_am_free_in_sdu e f i = free_in_sdu_skip ?e"
  proof -
    define e1 where "e1 = (if sdu_mem_block (input_sdus e i) \<noteq> None
        then upd_sdu i (\<lambda>s. s\<lparr>sdu_mem_block := None, sdu_remaining_size := 0\<rparr>)
               (e\<lparr>nb_sdu_no_segmented := nb_sdu_no_segmented e - 1\<rparr>) else e)"
    have e1: "e1 = e\<lparr>input_sdus := input_sdus e1, nb_sdu_no_segmented := m\<rparr>"
      "\<And>x. (input_sdus e1)(i := x) = (input_sdus e)(i := x)" "current_sdu_index e1 = current_sdu_index e"
      by (simp_all add: e1_def m_def)
    let ?e3 = "upd_sdu i (\<lambda>_. zero_tx_sdu\<lparr>sdu_transmitted_successfully := True\<rparr>) (e1\<lparr>nb_sdu := nb_sdu e1 - 1\<rparr>)"
    have "?e = (if current_sdu_index ?e3 = i then ?e3\<lparr>current_sdu_index := ring_next (current_sdu_index ?e3)\<rparr>
        else ?e3)"
      by (rule rlc_am_entity.equality) (simp_all add: e1_def m_def c_def)
    then show ?thesis
      using assms(1) unfolding rlc_am_free_in_sdu_def by (simp add: Let_def sdu_index_ok_def e1_def)
  qed
  moreover have "sdu_index_ok (current_sdu_index ?e)" "sdu_index_ok (next_sdu_index ?e)"
    using assms by (simp_all add: c_def)
  ultimately show ?thesis using free_in_sdu_skip_returns [of ?e] by auto
qed

lemma ack_sdus_frame:
  "list_all sdu_index_ok is \<Longrightarrow> sdu_index_ok (current_sdu_index e) \<Longrightarrow> sdu_index_ok (next_sdu_index e) \<Longrightarrow>
   \<exists>s m n c l. ack_sdus f is e = Some (e\<lparr>input_sdus := s, nb_sdu_no_segmented := m, nb_sdu := n,
      current_sdu_index := c, log_data_conf := l\<rparr>) \<and> sdu_index_ok c"
proof (induction "is" arbitrary: e)
  case Nil
  have "e = e\<lparr>input_sdus := input_sdus e, nb_sdu_no_segmented := nb_sdu_no_segmented e, nb_sdu := nb_sdu e,
      current_sdu_index := current_sdu_index e, log_data_conf := log_data_conf e\<rparr>" by simp
  with Nil show ?case unfolding ack_sdus.simps by blast
next
  case (Cons i "is")
  let ?e1 = "upd_sdu i (\<lambda>s. s\<lparr>sdu_nb_pdus_ack := (sdu_nb_pdus_ack s + 1) mod 256\<rparr>) e"
  let ?s = "input_sdus ?e1 i"
  let ?e2 = "?e1\<lparr>log_data_conf := log_data_conf ?e1 @ [(sdu_mui ?s, RLC_SDU_CONFIRM_YES)]\<rparr>"
  have i: "sdu_index_ok i" "list_all sdu_index_ok is" using Cons.prems by simp_all
  show ?case
  proof (cases "sdu_nb_pdus_ack ?s = sdu_nb_pdus ?s \<and> sdu_remaining_size ?s = 0")
    case True
    obtain s m n c where f: "rlc_am_free_in_sdu ?e2 f i =
        Some (?e2\<lparr>input_sdus := s, nb_sdu_no_segmented := m, nb_sdu := n, current_sdu_index := c\<rparr>)"
      "sdu_index_ok c"
      using free_in_sdu_frame [of i ?e2 f] i Cons.prems by auto
    let ?e3 = "?e2\<lparr>input_sdus := s, nb_sdu_no_segmented := m, nb_sdu := n, current_sdu_index := c\<rparr>"
    have "ack_sdus f (i # is) e = ack_sdus f is ?e3"
      using True i f(1) by (simp add: Let_def)
    with Cons.IH [of ?e3] i f(2) Cons.prems show ?thesis by auto
  next
    case False
    then have "ack_sdus f (i # is) e = ack_sdus f is ?e1" using i by (auto simp: Let_def)
    with Cons.IH [of ?e1] i Cons.prems show ?thesis by auto
  qed
qed

subsection \<open>The transmit window invariant\<close>

definition tx_span :: "rlc_am_entity \<Rightarrow> int" where
  "tx_span e = (vt_s e - vt_a e) mod RLC_AM_SN_MODULO"

definition tx_slot_ok :: "rlc_am_entity \<Rightarrow> int \<Rightarrow> bool" where
  "tx_slot_ok e sn \<longleftrightarrow> (let p = pdu_retrans_buffer e sn in
     (txp_mem_block p \<noteq> None \<longrightarrow> \<not> txp_ack p \<and> list_all sdu_index_ok (pdu_sdus p)) \<and>
     (if (sn - vt_a e) mod RLC_AM_SN_MODULO < tx_span e then txp_mem_block p \<noteq> None \<or> txp_ack p
      else txp_mem_block p = None \<and> \<not> txp_ack p))"

definition tx_slots_ok :: "rlc_am_entity \<Rightarrow> bool" where
  "tx_slots_ok e \<longleftrightarrow> valid_sn (vt_a e) \<and> valid_sn (vt_s e) \<and> (\<forall>sn\<in>{0..<1024}. tx_slot_ok e sn)"

definition tx_ok :: "rlc_am_entity \<Rightarrow> bool" where
  "tx_ok e \<longleftrightarrow> tx_slots_ok e \<and> (vt_a e \<noteq> vt_s e \<longrightarrow> \<not> txp_ack (pdu_retrans_buffer e (vt_a e))) \<and>
     vt_ms e = sn_mask (vt_a e + RLC_AM_WINDOW_SIZE) \<and>
     sdu_index_ok (current_sdu_index e) \<and> sdu_index_ok (next_sdu_index e)"

lemma tx_slots_okD:
  assumes "tx_slots_ok e"
  shows "valid_sn (vt_a e)" "valid_sn (vt_s e)" "valid_sn sn \<Longrightarrow> tx_slot_ok e sn"
  using assms by (simp_all add: tx_slots_ok_def valid_sn_def)

lemma tx_slots_ok_cong:
  assumes "vt_a e' = vt_a e" "vt_s e' = vt_s e"
    and "\<And>sn. txp_mem_block (pdu_retrans_buffer e' sn) = txp_mem_block (pdu_retrans_buffer e sn)"
    and "\<And>sn. txp_ack (pdu_retrans_buffer e' sn) = txp_ack (pdu_retrans_buffer e sn)"
    and "\<And>sn. pdu_sdus (pdu_retrans_buffer e' sn) = pdu_sdus (pdu_retrans_buffer e sn)"
  shows "tx_slots_ok e' = tx_slots_ok e"
  by (simp add: tx_slots_ok_def tx_slot_ok_def tx_span_def Let_def assms)

lemma tx_span_range: "0 \<le> tx_span e" "tx_span e < 1024"
  by (simp_all add: tx_span_def)

lemma tx_span_0: "valid_sn (vt_a e) \<Longrightarrow> valid_sn (vt_s e) \<Longrightarrow> tx_span e = 0 \<longleftrightarrow> vt_a e = vt_s e"
  by (auto simp: tx_span_def valid_sn_def mod_diff_less_cases split: if_splits)

text \<open>Offsets relative to the lower edge after it moved by one.\<close>

lemma offset_next:
  assumes "valid_sn a" "valid_sn x"
  shows "(x - sn_mask (a + 1)) mod 1024 = (if x = a then 1023 else (x - a) mod 1024 - 1)"
proof -
  have "sn_mask (a + 1) = (if a = 1023 then 0 else a + 1)"
    using assms by (auto simp: sn_mask_mod valid_sn_def)
  then show ?thesis using assms by (auto simp: valid_sn_def mod_diff_less_cases split: if_splits)
qed

lemma tx_span_step:
  "valid_sn (vt_a e) \<Longrightarrow> valid_sn (vt_s e) \<Longrightarrow> vt_a e \<noteq> vt_s e \<Longrightarrow> tx_span (advance_vt_a_step e) = tx_span e - 1"
  by (simp add: tx_span_def offset_next)

lemma advance_step_slots_ok:
  assumes ok: "tx_slots_ok e" and ne: "vt_a e \<noteq> vt_s e"
  shows "tx_slots_ok (advance_vt_a_step e)"
proof -
  note v = tx_slots_okD(1,2) [OF ok]
  have "tx_slot_ok (advance_vt_a_step e) sn" if sn: "valid_sn sn" for sn
  proof (cases "sn = vt_a e")
    case True
    then show ?thesis
      using v ne tx_span_range(2) [of e]
      by (simp add: tx_slot_ok_def tx_span_step offset_next Let_def zero_tx_pdu_def)
  next
    case False
    then show ?thesis
      using tx_slots_okD(3) [OF ok sn] v ne sn
      by (auto simp: tx_slot_ok_def tx_span_step offset_next Let_def)
  qed
  then show ?thesis using v by (simp add: tx_slots_ok_def valid_sn_def)
qed

lemma advance_vt_a_ok:
  "tx_slots_ok e \<Longrightarrow> vt_a e \<noteq> vt_s e \<Longrightarrow>
     tx_slots_ok (advance_vt_a e) \<and> vt_s (advance_vt_a e) = vt_s e \<and>
     (vt_a (advance_vt_a e) \<noteq> vt_s e \<longrightarrow>
        \<not> txp_ack (pdu_retrans_buffer (advance_vt_a e) (vt_a (advance_vt_a e)))) \<and>
     tx_span (advance_vt_a e) < tx_span e"
proof (induction e rule: advance_vt_a.induct)
  case (1 e)
  let ?e = "advance_vt_a_step e"
  note v = tx_slots_okD(1,2) [OF "1.prems"(1)]
  note ok = advance_step_slots_ok [OF "1.prems"]
  have span: "tx_span ?e = tx_span e - 1" using tx_span_step [OF v "1.prems"(2)] .
  show ?case
  proof (cases "txp_ack (pdu_retrans_buffer ?e (vt_a ?e)) \<and> vt_a ?e \<noteq> vt_s ?e")
    case True
    then have "advance_vt_a e = advance_vt_a ?e" by (subst advance_vt_a.simps) (simp add: Let_def)
    with "1.IH" [OF refl True ok] True span show ?thesis by auto
  next
    case False
    then have "advance_vt_a e = ?e" by (subst advance_vt_a.simps) (auto simp: Let_def)
    with False ok span show ?thesis by auto
  qed
qed

lemma advance_vt_a_mem:
  "txp_mem_block (pdu_retrans_buffer e sn) = None \<Longrightarrow>
     txp_mem_block (pdu_retrans_buffer (advance_vt_a e) sn) = None"
proof (induction e rule: advance_vt_a.induct)
  case (1 e)
  let ?e = "advance_vt_a_step e"
  have "txp_mem_block (pdu_retrans_buffer ?e sn) = None"
    using "1.prems" by (simp add: zero_tx_pdu_def)
  then show ?case using "1.IH" [OF refl] by (subst advance_vt_a.simps) (auto simp: Let_def)
qed

lemma tx_okD:
  assumes "tx_ok e"
  shows "tx_slots_ok e" "valid_sn (vt_a e)" "valid_sn (vt_s e)"
    "vt_a e \<noteq> vt_s e \<Longrightarrow> \<not> txp_ack (pdu_retrans_buffer e (vt_a e))"
    "vt_ms e = sn_mask (vt_a e + 512)"
    "sdu_index_ok (current_sdu_index e)" "sdu_index_ok (next_sdu_index e)"
  using assms by (auto simp: tx_ok_def tx_slots_ok_def)

lemma tx_ok_cong:
  assumes "vt_a e' = vt_a e" "vt_s e' = vt_s e" "vt_ms e' = vt_ms e"
    "current_sdu_index e' = current_sdu_index e" "next_sdu_index e' = next_sdu_index e"
    and "\<And>sn. txp_mem_block (pdu_retrans_buffer e' sn) = txp_mem_block (pdu_retrans_buffer e sn)"
    and "\<And>sn. txp_ack (pdu_retrans_buffer e' sn) = txp_ack (pdu_retrans_buffer e sn)"
    and "\<And>sn. pdu_sdus (pdu_retrans_buffer e' sn) = pdu_sdus (pdu_retrans_buffer e sn)"
  shows "tx_ok e' = tx_ok e"
  using tx_slots_ok_cong [of e' e] assms by (simp add: tx_ok_def)

text \<open>An acknowledgement of a slot that holds no PDU changes nothing that matters.\<close>

lemma ack_pdu_free_slot:
  assumes ok: "tx_ok e" and none: "txp_mem_block (pdu_retrans_buffer e sn) = None" and sn: "valid_sn sn"
  shows "rlc_am_ack_pdu e f sn =
    Some (upd_pdu sn (\<lambda>p. p\<lparr>txp_retransmit := False, txp_mem_block := None\<rparr>) e)"
proof -
  note D = tx_okD [OF ok]
  have "\<not> (txp_ack (pdu_retrans_buffer e sn) \<and> sn = vt_a e)"
  proof (intro notI, elim conjE)
    assume a: "txp_ack (pdu_retrans_buffer e sn)" "sn = vt_a e"
    have "vt_a e = vt_s e" using a D(4) by blast
    then have "tx_span e = 0" by (simp add: tx_span_def)
    with tx_slots_okD(3) [OF D(1) sn] a show False by (simp add: tx_slot_ok_def Let_def)
  qed
  with none show ?thesis by (auto simp: rlc_am_ack_pdu_def Let_def)
qed

lemma pdu_sdus_upd [simp]:
  "pdu_sdus (p\<lparr>txp_retransmit := a\<rparr>) = pdu_sdus p" "pdu_sdus (p\<lparr>txp_mem_block := b\<rparr>) = pdu_sdus p"
  "pdu_sdus (p\<lparr>txp_ack := c\<rparr>) = pdu_sdus p"
  by (simp_all add: pdu_sdus_def)

text \<open>The state of a stored PDU's slot after its memory is released and the slot marked.\<close>

lemma mark_acked_ok:
  assumes ok: "tx_slots_ok e" and sn: "valid_sn sn" and stored: "txp_mem_block (pdu_retrans_buffer e sn) \<noteq> None"
    and e': "vt_a e' = vt_a e" "vt_s e' = vt_s e"
      "pdu_retrans_buffer e' = (pdu_retrans_buffer e)(sn := p)" "txp_mem_block p = None" "txp_ack p"
  shows "tx_slots_ok e'"
proof -
  have "(sn - vt_a e) mod 1024 < tx_span e"
    using tx_slots_okD(3) [OF ok sn] stored by (auto simp: tx_slot_ok_def Let_def split: if_splits)
  then have "tx_slot_ok e' x" if "valid_sn x" for x
    using tx_slots_okD(3) [OF ok that] e' by (auto simp: tx_slot_ok_def tx_span_def Let_def)
  then show ?thesis using tx_slots_okD(1,2) [OF ok] e' by (simp add: tx_slots_ok_def valid_sn_def)
qed

lemma mark_acked_returns:
  assumes slots: "tx_slots_ok (upd_pdu sn (\<lambda>p. p\<lparr>txp_ack := True\<rparr>) e)"
    and ne: "vt_a e \<noteq> vt_s e" and other: "sn \<noteq> vt_a e \<Longrightarrow> \<not> txp_ack (pdu_retrans_buffer e (vt_a e))"
    and ms: "vt_ms e = sn_mask (vt_a e + 512)"
    and idx: "sdu_index_ok (current_sdu_index e)" "sdu_index_ok (next_sdu_index e)"
    and mem: "txp_mem_block (pdu_retrans_buffer e sn) = None"
  shows "\<exists>e'. mark_acked sn e = Some e' \<and> tx_ok e' \<and> vt_s e' = vt_s e \<and>
    txp_mem_block (pdu_retrans_buffer e' sn) = None \<and>
    (if sn = vt_a e then tx_span e' < tx_span e else vt_a e' = vt_a e)"
proof -
  let ?e4 = "upd_pdu sn (\<lambda>p. p\<lparr>txp_ack := True\<rparr>) e"
  define e5 where "e5 = (if sn = vt_a ?e4 then advance_window ?e4 else ?e4)"
  have e5: "tx_ok e5 \<and> vt_s e5 = vt_s e \<and> txp_mem_block (pdu_retrans_buffer e5 sn) = None \<and>
    (if sn = vt_a e then tx_span e5 < tx_span e else vt_a e5 = vt_a e)"
  proof (cases "sn = vt_a e")
    case True
    let ?a = "advance_vt_a ?e4"
    have adv: "tx_slots_ok ?a" "vt_s ?a = vt_s e"
      "vt_a ?a \<noteq> vt_s e \<Longrightarrow> \<not> txp_ack (pdu_retrans_buffer ?a (vt_a ?a))" "tx_span ?a < tx_span ?e4"
      using advance_vt_a_ok [OF slots] ne by auto
    have e5: "e5 = ?a\<lparr>vt_ms := sn_mask (vt_a ?a + 512)\<rparr>"
      using True by (simp add: e5_def advance_window_def Let_def)
    have "tx_slots_ok e5" using adv(1) by (subst tx_slots_ok_cong [of _ ?a]) (simp_all add: e5)
    moreover have "current_sdu_index ?a = current_sdu_index e" "next_sdu_index ?a = next_sdu_index e"
      using advance_vt_a_frame [of ?e4] by auto
    moreover have "txp_mem_block (pdu_retrans_buffer ?a sn) = None"
      using mem by (intro advance_vt_a_mem) simp
    ultimately show ?thesis
      using adv idx True by (auto simp: tx_ok_def e5 tx_span_def)
  next
    case False
    then have "e5 = ?e4" by (simp add: e5_def)
    then show ?thesis using False slots other ms idx mem by (simp add: tx_ok_def)
  qed
  have first: "tx_ok (e5\<lparr>first_retrans_pdu_sn := x\<rparr>)" for x
    using e5 by (subst tx_ok_cong [of _ e5]) simp_all
  have eq: "mark_acked sn e = (if sn = first_retrans_pdu_sn e5
      then next_retrans e5 (first_retrans_pdu_sn e5) \<bind>
             (\<lambda>r. Some (e5\<lparr>first_retrans_pdu_sn := (if vt_s e5 = r then - 1 else r)\<rparr>))
      else Some e5)"
    unfolding mark_acked_def Let_def e5_def by (rule refl)
  obtain r where r: "next_retrans e5 (first_retrans_pdu_sn e5) = Some r"
    using next_retrans_returns [of e5] e5 tx_okD(3) by blast
  have "\<exists>x. mark_acked sn e = Some (e5\<lparr>first_retrans_pdu_sn := x\<rparr>)"
  proof (cases "sn = first_retrans_pdu_sn e5")
    case True
    then show ?thesis using r unfolding eq by auto
  next
    case False
    then have "mark_acked sn e = Some (e5\<lparr>first_retrans_pdu_sn := first_retrans_pdu_sn e5\<rparr>)"
      by (simp add: eq)
    then show ?thesis by blast
  qed
  with e5 first show ?thesis by (auto simp: tx_span_def)
qed

text \<open>
  Acknowledging any sequence number returns, keeps the invariant and releases the PDU. The window
  moves when the lower edge is acknowledged, and only then.
\<close>

lemma ack_pdu_ok:
  assumes ok: "tx_ok e" and sn: "valid_sn sn"
  shows "\<exists>e'. rlc_am_ack_pdu e f sn = Some e' \<and> tx_ok e' \<and> vt_s e' = vt_s e \<and>
    txp_mem_block (pdu_retrans_buffer e' sn) = None \<and>
    (if sn = vt_a e \<and> vt_a e \<noteq> vt_s e then tx_span e' < tx_span e else vt_a e' = vt_a e)"
proof (cases "txp_mem_block (pdu_retrans_buffer e sn)")
  case None
  let ?e = "upd_pdu sn (\<lambda>p. p\<lparr>txp_retransmit := False, txp_mem_block := None\<rparr>) e"
  have "tx_ok ?e" using ok None by (subst tx_ok_cong [of _ e]) auto
  moreover have "\<not> (sn = vt_a e \<and> vt_a e \<noteq> vt_s e)"
  proof
    assume a: "sn = vt_a e \<and> vt_a e \<noteq> vt_s e"
    then have "0 < tx_span e" using tx_span_0 [OF tx_okD(2,3) [OF ok]] tx_span_range(1) [of e] by linarith
    with tx_slots_okD(3) [OF tx_okD(1) [OF ok] sn] a None tx_okD(4) [OF ok] show False
      by (simp add: tx_slot_ok_def Let_def)
  qed
  ultimately show ?thesis using ack_pdu_free_slot [OF ok None sn, of f] by auto
next
  case (Some mb)
  note D = tx_okD [OF ok]
  have slot: "\<not> txp_ack (pdu_retrans_buffer e sn)" "list_all sdu_index_ok (pdu_sdus (pdu_retrans_buffer e sn))"
    "(sn - vt_a e) mod 1024 < tx_span e"
    using tx_slots_okD(3) [OF D(1) sn] Some by (auto simp: tx_slot_ok_def Let_def split: if_splits)
  have ne: "vt_a e \<noteq> vt_s e" using slot(3) tx_span_0 [OF D(2,3)] by auto
  define e2 where "e2 = release_pdu sn (upd_pdu sn (\<lambda>p. p\<lparr>txp_retransmit := False\<rparr>) e)"
  have e2: "vt_a e2 = vt_a e" "vt_s e2 = vt_s e" "vt_ms e2 = vt_ms e" "current_sdu_index e2 = current_sdu_index e"
    "next_sdu_index e2 = next_sdu_index e"
    "pdu_retrans_buffer e2 = (pdu_retrans_buffer e)(sn :=
       (pdu_retrans_buffer e sn)\<lparr>txp_retransmit := False, txp_mem_block := None\<rparr>)"
    by (simp_all add: e2_def release_pdu_def Let_def)
  obtain s m n c l where e3: "ack_sdus f (pdu_sdus (pdu_retrans_buffer e2 sn)) e2 =
      Some (e2\<lparr>input_sdus := s, nb_sdu_no_segmented := m, nb_sdu := n, current_sdu_index := c,
               log_data_conf := l\<rparr>)" "sdu_index_ok c"
    using ack_sdus_frame [of "pdu_sdus (pdu_retrans_buffer e2 sn)" e2 f] slot(2) D(6,7) by (auto simp: e2)
  let ?e3 = "e2\<lparr>input_sdus := s, nb_sdu_no_segmented := m, nb_sdu := n, current_sdu_index := c, log_data_conf := l\<rparr>"
  have ack: "rlc_am_ack_pdu e f sn = mark_acked sn ?e3"
    using Some slot(1) e3(1) by (simp add: rlc_am_ack_pdu_def Let_def e2_def [symmetric])
  have "tx_slots_ok (upd_pdu sn (\<lambda>p. p\<lparr>txp_ack := True\<rparr>) ?e3)"
    by (rule mark_acked_ok [OF D(1) sn, where p = "(pdu_retrans_buffer e sn)
          \<lparr>txp_retransmit := False, txp_mem_block := None, txp_ack := True\<rparr>"])
      (simp_all add: e2 Some)
  from mark_acked_returns [OF this] ne D e3(2) show ?thesis
    unfolding ack by (auto simp: e2 tx_span_def split: if_splits)
qed

text \<open>The PDUs in the other slots stay as they are.\<close>

lemma advance_vt_a_keeps:
  "\<not> txp_ack (pdu_retrans_buffer e x) \<Longrightarrow> x \<noteq> vt_a e \<Longrightarrow>
     pdu_retrans_buffer (advance_vt_a e) x = pdu_retrans_buffer e x"
proof (induction e rule: advance_vt_a.induct)
  case (1 e)
  let ?e = "advance_vt_a_step e"
  have x: "pdu_retrans_buffer ?e x = pdu_retrans_buffer e x" using "1.prems" by simp
  show ?case
  proof (cases "txp_ack (pdu_retrans_buffer ?e (vt_a ?e)) \<and> vt_a ?e \<noteq> vt_s ?e")
    case True
    then have "advance_vt_a e = advance_vt_a ?e" by (subst advance_vt_a.simps) (simp add: Let_def)
    moreover have "x \<noteq> vt_a ?e" using True x "1.prems"(1) by metis
    ultimately show ?thesis using "1.IH" [OF refl True] x "1.prems"(1) by simp
  next
    case False
    then have "advance_vt_a e = ?e" by (subst advance_vt_a.simps) (auto simp: Let_def)
    with x show ?thesis by simp
  qed
qed

lemma mark_acked_keeps:
  assumes "mark_acked sn e = Some e'" "x \<noteq> sn" "\<not> txp_ack (pdu_retrans_buffer e x)"
  shows "pdu_retrans_buffer e' x = pdu_retrans_buffer e x"
proof -
  let ?e4 = "upd_pdu sn (\<lambda>p. p\<lparr>txp_ack := True\<rparr>) e"
  have "pdu_retrans_buffer (advance_window ?e4) x = pdu_retrans_buffer e x" if "sn = vt_a e"
    using advance_vt_a_keeps [of ?e4 x] assms(2,3) that by (simp add: advance_window_def Let_def)
  then show ?thesis using assms by (auto simp: mark_acked_def Let_def split: if_splits)
qed

lemma ack_pdu_keeps:
  assumes ok: "tx_ok e" and sn: "valid_sn sn" and ack: "rlc_am_ack_pdu e f sn = Some e'"
    and x: "x \<noteq> sn" "valid_sn x" "txp_mem_block (pdu_retrans_buffer e x) \<noteq> None"
  shows "pdu_retrans_buffer e' x = pdu_retrans_buffer e x"
proof (cases "txp_mem_block (pdu_retrans_buffer e sn)")
  case None
  with ack_pdu_free_slot [OF ok None sn, of f] ack x(1) show ?thesis by auto
next
  case (Some mb)
  note D = tx_okD [OF ok]
  have nack: "\<not> txp_ack (pdu_retrans_buffer e x)" "\<not> txp_ack (pdu_retrans_buffer e sn)"
    "list_all sdu_index_ok (pdu_sdus (pdu_retrans_buffer e sn))"
    using tx_slots_okD(3) [OF D(1) x(2)] tx_slots_okD(3) [OF D(1) sn] x(3) Some
    by (auto simp: tx_slot_ok_def Let_def)
  define e2 where "e2 = release_pdu sn (upd_pdu sn (\<lambda>p. p\<lparr>txp_retransmit := False\<rparr>) e)"
  have e2: "pdu_retrans_buffer e2 x = pdu_retrans_buffer e x" "current_sdu_index e2 = current_sdu_index e"
    "next_sdu_index e2 = next_sdu_index e" "pdu_sdus (pdu_retrans_buffer e2 sn) = pdu_sdus (pdu_retrans_buffer e sn)"
    using x(1) by (simp_all add: e2_def release_pdu_def Let_def)
  from ack nack(2) Some obtain e3 where e3: "ack_sdus f (pdu_sdus (pdu_retrans_buffer e2 sn)) e2 = Some e3"
    "mark_acked sn e3 = Some e'"
    by (auto simp: rlc_am_ack_pdu_def Let_def e2_def)
  have "pdu_retrans_buffer e3 = pdu_retrans_buffer e2"
    using ack_sdus_frame [of "pdu_sdus (pdu_retrans_buffer e2 sn)" e2 f] e3(1) nack(3) D(6,7) by (auto simp: e2)
  with mark_acked_keeps [OF e3(2) x(1)] nack(1) e2(1) show ?thesis by simp
qed

text \<open>The first PDU to retransmit stays, unless it is the one that is acknowledged.\<close>

lemma advance_vt_a_first:
  "r = first_retrans_pdu_sn e \<Longrightarrow> r \<noteq> vt_a e \<Longrightarrow> r < 0 \<or> \<not> txp_ack (pdu_retrans_buffer e r) \<Longrightarrow>
     first_retrans_pdu_sn (advance_vt_a e) = r"
proof (induction e rule: advance_vt_a.induct)
  case (1 e)
  let ?e = "advance_vt_a_step e"
  have r: "first_retrans_pdu_sn ?e = r" using "1.prems"(1,2) by (simp add: advance_vt_a_step_def Let_def)
  show ?case
  proof (cases "txp_ack (pdu_retrans_buffer ?e (vt_a ?e)) \<and> vt_a ?e \<noteq> vt_s ?e")
    case True
    then have "advance_vt_a e = advance_vt_a ?e" by (subst advance_vt_a.simps) (simp add: Let_def)
    moreover have "r \<noteq> vt_a ?e"
    proof
      assume rv: "r = vt_a ?e"
      then have "\<not> r < 0" by (simp add: sn_mask_mod)
      moreover have "txp_ack (pdu_retrans_buffer e r)" using True rv "1.prems"(2) by simp
      ultimately show False using "1.prems"(3) by simp
    qed
    moreover have "r < 0 \<or> \<not> txp_ack (pdu_retrans_buffer ?e r)" using "1.prems"(2,3) by auto
    ultimately show ?thesis using "1.IH" [OF refl True] r by simp
  next
    case False
    then have "advance_vt_a e = ?e" by (subst advance_vt_a.simps) (auto simp: Let_def)
    with r show ?thesis by simp
  qed
qed

lemma mark_acked_first:
  assumes "mark_acked sn e = Some e'" "r = first_retrans_pdu_sn e" "r \<noteq> sn" "r < 0 \<or> \<not> txp_ack (pdu_retrans_buffer e r)"
  shows "first_retrans_pdu_sn e' = r"
proof -
  let ?e4 = "upd_pdu sn (\<lambda>p. p\<lparr>txp_ack := True\<rparr>) e"
  have "first_retrans_pdu_sn (advance_window ?e4) = r" if "sn = vt_a e"
    using advance_vt_a_first [of r ?e4] assms(2-4) that by (simp add: advance_window_def Let_def)
  then show ?thesis using assms(1-3) by (auto simp: mark_acked_def Let_def split: if_splits)
qed

lemma ack_pdu_first:
  assumes ok: "tx_ok e" and sn: "valid_sn sn" and ack: "rlc_am_ack_pdu e f sn = Some e'"
    and r: "r = first_retrans_pdu_sn e" "r \<noteq> sn" "r < 0 \<or> valid_sn r \<and> txp_mem_block (pdu_retrans_buffer e r) \<noteq> None"
  shows "first_retrans_pdu_sn e' = r"
proof (cases "txp_mem_block (pdu_retrans_buffer e sn)")
  case None
  with ack_pdu_free_slot [OF ok None sn, of f] ack r(1) show ?thesis by auto
next
  case (Some mb)
  note D = tx_okD [OF ok]
  have nack: "r < 0 \<or> \<not> txp_ack (pdu_retrans_buffer e r)" "\<not> txp_ack (pdu_retrans_buffer e sn)"
    "list_all sdu_index_ok (pdu_sdus (pdu_retrans_buffer e sn))"
    using tx_slots_okD(3) [OF D(1), of r] r(3) tx_slots_okD(3) [OF D(1) sn] Some
    by (auto simp: tx_slot_ok_def Let_def)
  define e2 where "e2 = release_pdu sn (upd_pdu sn (\<lambda>p. p\<lparr>txp_retransmit := False\<rparr>) e)"
  have e2: "pdu_retrans_buffer e2 r = pdu_retrans_buffer e r" "current_sdu_index e2 = current_sdu_index e"
    "next_sdu_index e2 = next_sdu_index e" "pdu_sdus (pdu_retrans_buffer e2 sn) = pdu_sdus (pdu_retrans_buffer e sn)"
    "first_retrans_pdu_sn e2 = r"
    using r(1,2) by (simp_all add: e2_def release_pdu_def Let_def)
  from ack nack(2) Some obtain e3 where e3: "ack_sdus f (pdu_sdus (pdu_retrans_buffer e2 sn)) e2 = Some e3"
    "mark_acked sn e3 = Some e'"
    by (auto simp: rlc_am_ack_pdu_def Let_def e2_def)
  have "pdu_retrans_buffer e3 = pdu_retrans_buffer e2 \<and> first_retrans_pdu_sn e3 = r"
    using ack_sdus_frame [of "pdu_sdus (pdu_retrans_buffer e2 sn)" e2 f] e3(1) nack(3) D(6,7) by (auto simp: e2)
  with mark_acked_first [OF e3(2), of r] nack(1) e2(1) r(2) show ?thesis by simp
qed

lemma mark_acked_none:
  assumes "mark_acked sn e = Some e'" "txp_mem_block (pdu_retrans_buffer e x) = None"
  shows "txp_mem_block (pdu_retrans_buffer e' x) = None"
proof -
  let ?e4 = "upd_pdu sn (\<lambda>p. p\<lparr>txp_ack := True\<rparr>) e"
  have 4: "txp_mem_block (pdu_retrans_buffer ?e4 x) = None" using assms(2) by (cases "x = sn") simp_all
  have "txp_mem_block (pdu_retrans_buffer (advance_window ?e4) x) = None"
    using advance_vt_a_mem [OF 4] by (simp add: advance_window_def Let_def)
  with 4 show ?thesis using assms(1) by (auto simp: mark_acked_def Let_def split: if_splits)
qed

lemma ack_pdu_none:
  assumes ok: "tx_ok e" and sn: "valid_sn sn" and ack: "rlc_am_ack_pdu e f sn = Some e'"
    and x: "txp_mem_block (pdu_retrans_buffer e x) = None"
  shows "txp_mem_block (pdu_retrans_buffer e' x) = None"
proof (cases "txp_mem_block (pdu_retrans_buffer e sn)")
  case None
  with ack_pdu_free_slot [OF ok None sn, of f] ack x show ?thesis by (auto split: if_splits)
next
  case (Some mb)
  note D = tx_okD [OF ok]
  have nack: "\<not> txp_ack (pdu_retrans_buffer e sn)" "list_all sdu_index_ok (pdu_sdus (pdu_retrans_buffer e sn))"
    using tx_slots_okD(3) [OF D(1) sn] Some by (auto simp: tx_slot_ok_def Let_def)
  define e2 where "e2 = release_pdu sn (upd_pdu sn (\<lambda>p. p\<lparr>txp_retransmit := False\<rparr>) e)"
  have e2: "txp_mem_block (pdu_retrans_buffer e2 x) = None" "current_sdu_index e2 = current_sdu_index e"
    "next_sdu_index e2 = next_sdu_index e" "pdu_sdus (pdu_retrans_buffer e2 sn) = pdu_sdus (pdu_retrans_buffer e sn)"
    using x by (simp_all add: e2_def release_pdu_def Let_def)
  from ack nack(1) Some obtain e3 where e3: "ack_sdus f (pdu_sdus (pdu_retrans_buffer e2 sn)) e2 = Some e3"
    "mark_acked sn e3 = Some e'"
    by (auto simp: rlc_am_ack_pdu_def Let_def e2_def)
  have "pdu_retrans_buffer e3 = pdu_retrans_buffer e2"
    using ack_sdus_frame [of "pdu_sdus (pdu_retrans_buffer e2 sn)" e2 f] e3(1) nack(2) D(6,7) by (auto simp: e2)
  with mark_acked_none [OF e3(2)] e2(1) show ?thesis by simp
qed

subsection \<open>Whole-PDU negative acknowledgement\<close>

lemma nack_sdus_frame:
  "list_all sdu_index_ok is \<Longrightarrow> sdu_index_ok (current_sdu_index e) \<Longrightarrow> sdu_index_ok (next_sdu_index e) \<Longrightarrow>
   \<exists>s m n c l t. nack_sdus f is e = Some (e\<lparr>input_sdus := s, nb_sdu_no_segmented := m, nb_sdu := n,
      current_sdu_index := c, log_data_conf := l, stats := t\<rparr>) \<and> sdu_index_ok c"
proof (induction "is" arbitrary: e)
  case Nil
  have "e = e\<lparr>input_sdus := input_sdus e, nb_sdu_no_segmented := nb_sdu_no_segmented e, nb_sdu := nb_sdu e,
      current_sdu_index := current_sdu_index e, log_data_conf := log_data_conf e, stats := stats e\<rparr>" by simp
  with Nil show ?case unfolding nack_sdus.simps by blast
next
  case (Cons i "is")
  let ?e1 = "upd_sdu i (\<lambda>s. s\<lparr>sdu_nb_pdus_ack := (sdu_nb_pdus_ack s + 1) mod 256\<rparr>) e"
  let ?s = "input_sdus ?e1 i"
  let ?e2 = "?e1\<lparr>log_data_conf := log_data_conf ?e1 @ [(sdu_mui ?s, RLC_SDU_CONFIRM_NO)],
      stats := (stats ?e1)\<lparr>
        stat_tx_pdcp_sdu_discarded := stat_tx_pdcp_sdu_discarded (stats ?e1) + 1,
        stat_tx_pdcp_bytes_discarded :=
          stat_tx_pdcp_bytes_discarded (stats ?e1) + word_of_int (sdu_size ?s)\<rparr>\<rparr>"
  have i: "sdu_index_ok i" "list_all sdu_index_ok is" using Cons.prems by simp_all
  show ?case
  proof (cases "sdu_nb_pdus_ack ?s = sdu_nb_pdus ?s")
    case True
    obtain s m n c where f: "rlc_am_free_in_sdu ?e2 f i =
        Some (?e2\<lparr>input_sdus := s, nb_sdu_no_segmented := m, nb_sdu := n, current_sdu_index := c\<rparr>)"
      "sdu_index_ok c"
      using free_in_sdu_frame [of i ?e2 f] i Cons.prems by auto
    let ?e3 = "?e2\<lparr>input_sdus := s, nb_sdu_no_segmented := m, nb_sdu := n, current_sdu_index := c\<rparr>"
    have "nack_sdus f (i # is) e = nack_sdus f is ?e3"
      using True i f(1) by (simp add: Let_def)
    with Cons.IH [of ?e3] i f(2) Cons.prems show ?thesis by auto
  next
    case False
    then have "nack_sdus f (i # is) e = nack_sdus f is ?e1" using i by (auto simp: Let_def)
    with Cons.IH [of ?e1] i Cons.prems show ?thesis by auto
  qed
qed

text \<open>Everything a negative acknowledgement leaves alone in the slot it concerns.\<close>

definition same_pdu :: "rlc_am_tx_data_pdu_management \<Rightarrow> rlc_am_tx_data_pdu_management \<Rightarrow> bool" where
  "same_pdu p q \<longleftrightarrow> txp_mem_block q = txp_mem_block p \<and> txp_ack q = txp_ack p \<and>
     txp_sdus_index q = txp_sdus_index p \<and> txp_nb_sdus q = txp_nb_sdus p \<and>
     txp_payload_size q = txp_payload_size p \<and> txp_payload q = txp_payload p \<and>
     txp_header_and_payload_size q = txp_header_and_payload_size p"

text \<open>A slot whose PDU is to be sent again as a whole.\<close>

definition nacked_whole :: "rlc_am_tx_data_pdu_management \<Rightarrow> rlc_am_tx_data_pdu_management \<Rightarrow> bool" where
  "nacked_whole p q \<longleftrightarrow> txp_retransmit q \<and> txp_num_holes q = 0 \<and> txp_nack_so_start q = 0 \<and> txp_nack_so_stop q = 0x7FFF \<and>
     txp_retx_count q = (if txp_retx_count p = - 1 then 0 else to_int8 (txp_retx_count p + 1))"

lemma same_pdu_sdus: "same_pdu p q \<Longrightarrow> pdu_sdus q = pdu_sdus p"
  by (simp add: same_pdu_def pdu_sdus_def)

text \<open>A step that touches only the slot \<open>sn\<close> of the buffer and, elsewhere, counters.\<close>

definition slot_step :: "int \<Rightarrow> rlc_am_entity \<Rightarrow> rlc_am_entity \<Rightarrow> bool" where
  "slot_step sn e e' \<longleftrightarrow> vt_a e' = vt_a e \<and> vt_s e' = vt_s e \<and> vt_ms e' = vt_ms e \<and>
     next_sdu_index e' = next_sdu_index e \<and> poll_sn e' = poll_sn e \<and>
     same_pdu (pdu_retrans_buffer e sn) (pdu_retrans_buffer e' sn) \<and>
     (\<forall>x. x \<noteq> sn \<longrightarrow> pdu_retrans_buffer e' x = pdu_retrans_buffer e x)"

lemma slot_step_trans: "slot_step sn e e1 \<Longrightarrow> slot_step sn e1 e2 \<Longrightarrow> slot_step sn e e2"
  by (simp add: slot_step_def same_pdu_def)

lemma slot_step_tx_ok:
  assumes "slot_step sn e e'" "tx_ok e" "sdu_index_ok (current_sdu_index e')"
  shows "tx_ok e'"
proof -
  have "pdu_retrans_buffer e' x = pdu_retrans_buffer e x \<or> x = sn" for x
    using assms(1) by (auto simp: slot_step_def)
  then have same: "same_pdu (pdu_retrans_buffer e x) (pdu_retrans_buffer e' x)" for x
    using assms(1) by (cases "x = sn") (auto simp: slot_step_def same_pdu_def)
  have "tx_slots_ok e'"
    using assms same by (subst tx_slots_ok_cong [of _ e])
      (auto simp: slot_step_def tx_ok_def same_pdu_def pdu_sdus_def)
  moreover have "txp_ack (pdu_retrans_buffer e' x) = txp_ack (pdu_retrans_buffer e x)" for x
    using same [of x] by (simp add: same_pdu_def)
  ultimately show ?thesis using assms by (simp add: tx_ok_def slot_step_def)
qed

lemma nack_begin_step:
  "slot_step sn e (nack_begin f sn s t e)" "current_sdu_index (nack_begin f sn s t e) = current_sdu_index e"
  "txp_retx_count (pdu_retrans_buffer (nack_begin f sn s t e) sn) = txp_retx_count (pdu_retrans_buffer e sn)"
  "first_retrans_pdu_sn (nack_begin f sn s t e) = first_retrans_pdu_sn e"
  by (simp_all add: nack_begin_def rlc_am_clear_holes_def Let_def slot_step_def same_pdu_def)

lemma nack_schedule_step:
  "slot_step sn e (nack_schedule sn e)" "current_sdu_index (nack_schedule sn e) = current_sdu_index e"
  "txp_num_holes (pdu_retrans_buffer e sn) = 0 \<Longrightarrow> txp_nack_so_start (pdu_retrans_buffer e sn) = 0 \<Longrightarrow>
     txp_nack_so_stop (pdu_retrans_buffer e sn) = 0x7FFF \<Longrightarrow>
     nacked_whole (pdu_retrans_buffer e sn) (pdu_retrans_buffer (nack_schedule sn e) sn)"
  "first_retrans_pdu_sn (nack_schedule sn e) =
     (if first_retrans_pdu_sn e < 0 \<or> rlc_am_tx_sn1_gt_sn2 e (first_retrans_pdu_sn e) sn then sn else first_retrans_pdu_sn e)"
  by (simp_all add: nack_schedule_def Let_def slot_step_def same_pdu_def nacked_whole_def)

lemma add_hole_whole:
  assumes "0 < txp_payload_size (pdu_retrans_buffer e sn)"
  shows "\<exists>e'. rlc_am_add_hole e f sn 0 0x7FFF = Some e' \<and> slot_step sn e e' \<and>
    current_sdu_index e' = current_sdu_index e \<and> first_retrans_pdu_sn e' = first_retrans_pdu_sn e \<and>
    txp_num_holes (pdu_retrans_buffer e' sn) = 0 \<and> txp_nack_so_start (pdu_retrans_buffer e' sn) = 0 \<and>
    txp_nack_so_stop (pdu_retrans_buffer e' sn) = 0x7FFF \<and>
    txp_retx_count (pdu_retrans_buffer e' sn) = txp_retx_count (pdu_retrans_buffer e sn)"
  using assms
  by (simp add: rlc_am_add_hole_def add_hole_pdu_def Let_def slot_step_def same_pdu_def)

lemma nack_sdus_step:
  assumes "list_all sdu_index_ok is" "sdu_index_ok (current_sdu_index e)" "sdu_index_ok (next_sdu_index e)"
  shows "\<exists>e'. nack_sdus f is e = Some e' \<and> slot_step sn e e' \<and> sdu_index_ok (current_sdu_index e') \<and>
    pdu_retrans_buffer e' = pdu_retrans_buffer e \<and> first_retrans_pdu_sn e' = first_retrans_pdu_sn e"
  using nack_sdus_frame [OF assms, of f] by (auto simp: slot_step_def same_pdu_def)

lemma nack_pdu_whole:
  assumes ok: "tx_ok e" and sn: "valid_sn sn" and stored: "txp_mem_block (pdu_retrans_buffer e sn) \<noteq> None"
    and pay: "0 < txp_payload_size (pdu_retrans_buffer e sn)"
  shows "\<exists>e'. rlc_am_nack_pdu e f sn 0 0x7FFF = Some e' \<and> tx_ok e' \<and> slot_step sn e e' \<and>
    nacked_whole (pdu_retrans_buffer e sn) (pdu_retrans_buffer e' sn) \<and>
    first_retrans_pdu_sn e' = (if first_retrans_pdu_sn e < 0 \<or> rlc_am_tx_sn1_gt_sn2 e (first_retrans_pdu_sn e) sn then sn
      else first_retrans_pdu_sn e)"
proof -
  note D = tx_okD [OF ok]
  let ?e1 = "e\<lparr>num_nack_sn := num_nack_sn e + 1\<rparr>"
  let ?e3 = "nack_begin f sn 0 0x7FFF ?e1"
  have s1: "slot_step sn e ?e1" by (simp add: slot_step_def same_pdu_def)
  note s3 = slot_step_trans [OF s1 nack_begin_step(1) [of sn ?e1 f 0 "0x7FFF"]]
  have "0 < txp_payload_size (pdu_retrans_buffer ?e3 sn)" using pay s3 by (simp add: slot_step_def same_pdu_def)
  from add_hole_whole [OF this, of f] obtain e4 where e4: "rlc_am_add_hole ?e3 f sn 0 0x7FFF = Some e4"
    "slot_step sn ?e3 e4" "current_sdu_index e4 = current_sdu_index e"
    "txp_num_holes (pdu_retrans_buffer e4 sn) = 0" "txp_nack_so_start (pdu_retrans_buffer e4 sn) = 0"
    "txp_nack_so_stop (pdu_retrans_buffer e4 sn) = 0x7FFF" "first_retrans_pdu_sn e4 = first_retrans_pdu_sn e"
    "txp_retx_count (pdu_retrans_buffer e4 sn) = txp_retx_count (pdu_retrans_buffer e sn)"
    by (auto simp: nack_begin_step)
  let ?e7 = "nack_schedule sn e4"
  have s7: "slot_step sn e ?e7"
    using slot_step_trans [OF slot_step_trans [OF s3 e4(2)] nack_schedule_step(1)] .
  have i7: "sdu_index_ok (current_sdu_index ?e7)" "sdu_index_ok (next_sdu_index ?e7)"
    using D(6,7) s7 e4(3) by (simp_all add: nack_schedule_step slot_step_def)
  note ok7 = slot_step_tx_ok [OF s7 ok i7(1)]
  have "vt_a e4 = vt_a e" using s3 e4(2) by (simp add: slot_step_def)
  then have gt: "rlc_am_tx_sn1_gt_sn2 e4 x y = rlc_am_tx_sn1_gt_sn2 e x y" for x y by (simp add: rlc_am_tx_sn1_gt_sn2_def)
  have pend: "nacked_whole (pdu_retrans_buffer e sn) (pdu_retrans_buffer ?e7 sn)"
    "first_retrans_pdu_sn ?e7 = (if first_retrans_pdu_sn e < 0 \<or> rlc_am_tx_sn1_gt_sn2 e (first_retrans_pdu_sn e) sn then sn
      else first_retrans_pdu_sn e)"
    using nack_schedule_step(3) [OF e4(4,5,6)] e4(7,8) gt by (simp_all add: nack_schedule_step(4) nacked_whole_def)
  have idx: "list_all sdu_index_ok (pdu_sdus (pdu_retrans_buffer ?e7 sn))"
  proof -
    have "pdu_sdus (pdu_retrans_buffer ?e7 sn) = pdu_sdus (pdu_retrans_buffer e sn)"
      using s7 same_pdu_sdus by (simp add: slot_step_def)
    then show ?thesis
      using tx_slots_okD(3) [OF D(1) sn] stored by (simp add: tx_slot_ok_def Let_def)
  qed
  have eq: "rlc_am_nack_pdu e f sn 0 0x7FFF =
      (if txp_retx_count (pdu_retrans_buffer ?e7 sn) \<ge> max_retx_threshold ?e7
       then nack_sdus f (pdu_sdus (pdu_retrans_buffer ?e7 sn)) ?e7 else Some ?e7)"
    using stored e4(1) by (simp add: rlc_am_nack_pdu_def Let_def)
  show ?thesis
  proof (cases "txp_retx_count (pdu_retrans_buffer ?e7 sn) \<ge> max_retx_threshold ?e7")
    case True
    obtain e8 where e8: "nack_sdus f (pdu_sdus (pdu_retrans_buffer ?e7 sn)) ?e7 = Some e8"
      "slot_step sn ?e7 e8" "sdu_index_ok (current_sdu_index e8)" "pdu_retrans_buffer e8 = pdu_retrans_buffer ?e7"
      "first_retrans_pdu_sn e8 = first_retrans_pdu_sn ?e7"
      using nack_sdus_step [OF idx i7] by blast
    with True pend slot_step_tx_ok [OF e8(2) ok7 e8(3)] slot_step_trans [OF s7 e8(2)] show ?thesis
      by (simp add: eq)
  next
    case False
    with pend ok7 s7 show ?thesis by (simp add: eq)
  qed
qed

subsection \<open>What acknowledgement and polling guarantee\<close>

definition pdu_stored_example :: rlc_am_tx_data_pdu_management where
  "pdu_stored_example = zero_tx_pdu\<lparr>txp_mem_block := Some \<lparr>tb_size = 4, tb_data = [0x80, 0, 7, 8]\<rparr>,
     txp_header_and_payload_size := 4, txp_payload_size := 2, txp_nb_sdus := 1, txp_retx_count := - 1\<rparr>"

text \<open>Two PDUs, 1023 and 0, in flight across the wrap of the sequence numbers.\<close>

definition entity_two_in_flight :: rlc_am_entity where
  "entity_two_in_flight = zero_entity\<lparr>vt_a := 1023, vt_s := 1, vt_ms := 511, first_retrans_pdu_sn := - 1,
     pdu_retrans_buffer := (\<lambda>_. zero_tx_pdu)(1023 := pdu_stored_example, 0 := pdu_stored_example)\<rparr>"

lemma two_in_flight_ok: "tx_ok entity_two_in_flight"
proof -
  have slot: "tx_slot_ok entity_two_in_flight sn" if r: "0 \<le> sn" "sn < 1024" for sn
  proof -
    consider "sn = 1023" | "sn = 0" | "1 \<le> sn" "sn < 1023" using r by linarith
    then show ?thesis
    proof cases
      case 3
      then have "(sn - 1023) mod 1024 = sn + 1" by (simp add: mod_diff_less_cases)
      with 3 show ?thesis
        by (simp add: tx_slot_ok_def Let_def entity_two_in_flight_def tx_span_def zero_tx_pdu_def)
    qed (simp_all add: tx_slot_ok_def Let_def entity_two_in_flight_def tx_span_def pdu_stored_example_def
        zero_tx_pdu_def pdu_sdus_def sdu_index_ok_def)
  qed
  have "txp_ack pdu_stored_example = False" by (simp add: pdu_stored_example_def zero_tx_pdu_def)
  with slot show ?thesis
    by (simp add: tx_ok_def tx_slots_ok_def)
      (simp add: entity_two_in_flight_def zero_entity_def valid_sn_def sn_mask_mod sdu_index_ok_def)
qed

text \<open>
  (C20) Acknowledging any sequence number terminates without aborting, keeps the invariant of the
  transmit window (with \<^verbatim>\<open>vt_ms\<close> half the space above \<^verbatim>\<open>vt_a\<close>) and leaves no PDU in the slot.
  If the number is the lower edge of a non-empty window, the edge moves up; otherwise it stays.
\<close>

theorem ack_pdu_advances_window:
  assumes "tx_ok e" "valid_sn sn"
  shows "\<exists>e'. rlc_am_ack_pdu e f sn = Some e' \<and> tx_ok e' \<and> vt_s e' = vt_s e \<and>
    txp_mem_block (pdu_retrans_buffer e' sn) = None \<and>
    (if sn = vt_a e \<and> vt_a e \<noteq> vt_s e then tx_span e' < tx_span e else vt_a e' = vt_a e)"
  by (rule ack_pdu_ok [OF assms])

theorem ack_pdu_advances_window_witness:
  "\<exists>e'. rlc_am_ack_pdu entity_two_in_flight 3 0 = Some e' \<and> tx_ok e' \<and> vt_a e' = 1023 \<and>
     txp_mem_block (pdu_retrans_buffer e' 0) = None"
  using ack_pdu_advances_window [OF two_in_flight_ok, of 0 3]
  by (auto simp: valid_sn_def entity_two_in_flight_def)

lemma byte_index_cases:
  "k < 8 \<Longrightarrow> k = 0 \<or> k = 1 \<or> k = 2 \<or> k = 3 \<or> k = 4 \<or> k = 5 \<or> k = 6 \<or> k = (7::nat)"
  by arith

lemma poll_bit_masks: "bit (0x20 :: byte) k \<longleftrightarrow> k = 5" "bit (0xDF :: byte) k \<longleftrightarrow> k < 8 \<and> k \<noteq> 5"
proof -
  have "k < 8 \<or> (\<not> bit (0x20 :: byte) k \<and> \<not> bit (0xDF :: byte) k)" by (auto simp: impossible_bit)
  then show "bit (0x20 :: byte) k \<longleftrightarrow> k = 5" "bit (0xDF :: byte) k \<longleftrightarrow> k < 8 \<and> k \<noteq> 5"
    using byte_index_cases [of k] by auto
qed

lemma bit_poll:
  "bit (b OR 0x20) k \<longleftrightarrow> bit b k \<or> k = 5" "bit (b AND 0xDF) k \<longleftrightarrow> bit b k \<and> k \<noteq> 5" for b :: byte
proof -
  show "bit (b OR 0x20) k \<longleftrightarrow> bit b k \<or> k = 5" unfolding bit_or_iff poll_bit_masks by blast
  have "bit b k \<Longrightarrow> k < 8" using bit_imp_le_length [of b k] by simp
  then show "bit (b AND 0xDF) k \<longleftrightarrow> bit b k \<and> k \<noteq> 5" unfolding bit_and_iff poll_bit_masks by blast
qed

lemma pdu_polling_cases:
  "rlc_am_pdu_polling e f b n =
    (if c_pdu_without_poll e + 1 \<ge> ucast (poll_pdu e) \<or>
        c_byte_without_poll e + word_of_int (to_int16 n) \<ge> ucast (poll_byte e) \<or>
        (sdu_buffer_occupancy e = 0 \<and> retrans_num_bytes_to_retransmit e = 0) \<or> vt_s e = vt_ms e
     then (rlc_am_start_timer_poll_retransmit
            (e\<lparr>c_pdu_without_poll := 0, c_byte_without_poll := 0, poll_sn := sn_mask (vt_s e - 1)\<rparr>) f, b OR 0x20)
     else (e\<lparr>c_pdu_without_poll := c_pdu_without_poll e + 1,
             c_byte_without_poll := c_byte_without_poll e + word_of_int (to_int16 n)\<rparr>, b AND 0xDF))"
  by (simp add: rlc_am_pdu_polling_def Let_def)

lemma pdu_polling_bits: "rlc_am_pdu_polling e f b n = (e', b') \<Longrightarrow> k \<noteq> 5 \<Longrightarrow> bit b' k = bit b k"
  unfolding pdu_polling_cases by (split if_splits) (auto simp only: prod.inject bit_poll)

text \<open>
  The poll bit of a data PDU is set exactly when a polling trigger holds: the PDU or byte
  count reaches its limit, nothing is left to send or resend, or the window is full. A poll
  resets both counts, records the last sequence number sent and starts the poll timer; without a
  poll the counts grow by the PDU and its payload. No other bit of the header changes.
\<close>

theorem pdu_polling_triggers:
  assumes "rlc_am_pdu_polling e f b n = (e', b')"
    "trigger \<longleftrightarrow> c_pdu_without_poll e + 1 \<ge> ucast (poll_pdu e) \<or>
       c_byte_without_poll e + word_of_int (to_int16 n) \<ge> ucast (poll_byte e) \<or>
       (sdu_buffer_occupancy e = 0 \<and> retrans_num_bytes_to_retransmit e = 0) \<or> vt_s e = vt_ms e"
  shows "(bit b' 5 \<longleftrightarrow> trigger) \<and> (\<forall>k. k \<noteq> 5 \<longrightarrow> bit b' k = bit b k) \<and>
    (if trigger
     then c_pdu_without_poll e' = 0 \<and> c_byte_without_poll e' = 0 \<and> poll_sn e' = sn_mask (vt_s e - 1) \<and>
       running (t_poll_retransmit e') \<and> frame_start (t_poll_retransmit e') = f
     else c_pdu_without_poll e' = c_pdu_without_poll e + 1 \<and>
       c_byte_without_poll e' = c_byte_without_poll e + word_of_int (to_int16 n) \<and>
       t_poll_retransmit e' = t_poll_retransmit e \<and> poll_sn e' = poll_sn e)"
proof -
  note eq = assms(1) [unfolded pdu_polling_cases assms(2) [symmetric]]
  show ?thesis
  proof (cases trigger)
    case True
    then have "e' = rlc_am_start_timer_poll_retransmit
          (e\<lparr>c_pdu_without_poll := 0, c_byte_without_poll := 0, poll_sn := sn_mask (vt_s e - 1)\<rparr>) f"
        and b': "b' = b OR 0x20"
      using eq by auto
    moreover have "bit b' 5" unfolding b' bit_poll by simp
    ultimately show ?thesis using True pdu_polling_bits [OF assms(1)] by (simp add: timer_defs)
  next
    case False
    then have "e' = e\<lparr>c_pdu_without_poll := c_pdu_without_poll e + 1,
          c_byte_without_poll := c_byte_without_poll e + word_of_int (to_int16 n)\<rparr>"
        and b': "b' = b AND 0xDF"
      using eq by auto
    moreover have "\<not> bit b' 5" unfolding b' bit_poll by simp
    ultimately show ?thesis using False pdu_polling_bits [OF assms(1)] by simp
  qed
qed

theorem pdu_polling_triggers_witness:
  "bit (snd (rlc_am_pdu_polling zero_entity 9 0x80 2)) 5"
  using pdu_polling_triggers [of zero_entity 9 "0x80" 2
      "fst (rlc_am_pdu_polling zero_entity 9 0x80 2)" "snd (rlc_am_pdu_polling zero_entity 9 0x80 2)" True]
  by (simp add: zero_entity_def)

text \<open>
  (C29) The copy handed out for (re)transmission has the bytes of the stored PDU up to its
  recorded size, apart from the poll bit of the first byte, and making it leaves every stored PDU
  in the buffer.
\<close>

theorem retransmit_copy_faithful:
  assumes "valid_sn sn" "txp_mem_block (pdu_retrans_buffer e sn) = Some mb"
    "txp_header_and_payload_size (pdu_retrans_buffer e sn) = int (length (tb_data mb))" "tb_data mb \<noteq> []"
  shows "\<exists>mb' e'. rlc_am_retransmit_get_copy e f sn = Some (Some mb', e') \<and> tb_size mb' = tb_size mb \<and>
    tl (tb_data mb') = tl (tb_data mb) \<and> length (tb_data mb') = length (tb_data mb) \<and>
    (\<forall>k. k \<noteq> 5 \<longrightarrow> bit (hd (tb_data mb')) k = bit (hd (tb_data mb)) k) \<and>
    (\<forall>x. txp_mem_block (pdu_retrans_buffer e' x) = txp_mem_block (pdu_retrans_buffer e x)) \<and>
    \<not> txp_retransmit (pdu_retrans_buffer e' sn)"
proof -
  obtain b bs where d: "tb_data mb = b # bs" using assms(4) by (cases "tb_data mb") auto
  have m: "sn mod 1024 = sn" using assms(1) by (simp add: valid_sn_def)
  let ?e1 = "upd_pdu sn (\<lambda>p. p\<lparr>txp_retransmit := False\<rparr>) e"
  obtain e2 b1 where poll: "rlc_am_pdu_polling ?e1 f b (txp_payload_size (pdu_retrans_buffer ?e1 sn)) = (e2, b1)"
    by fastforce
  have buf: "pdu_retrans_buffer e2 = pdu_retrans_buffer ?e1"
    using poll by (auto simp: rlc_am_pdu_polling_def Let_def timer_defs split: if_splits)
  have bits: "bit b1 k = bit b k" if "k \<noteq> 5" for k
    using pdu_polling_bits [OF poll that] .
  have "rlc_am_retransmit_get_copy e f sn = Some (Some (mb\<lparr>tb_data := b1 # bs\<rparr>), e2)"
    using assms(2,3) poll by (simp add: rlc_am_retransmit_get_copy_def Let_def m d)
  then show ?thesis using bits buf d by auto
qed

theorem retransmit_copy_faithful_witness:
  "\<exists>mb' e'. rlc_am_retransmit_get_copy entity_two_in_flight 3 1023 = Some (Some mb', e') \<and>
     tl (tb_data mb') = [0, 7, 8]"
  using retransmit_copy_faithful [of 1023 entity_two_in_flight "\<lparr>tb_size = 4, tb_data = [0x80, 0, 7, 8]\<rparr>" 3]
  by (auto simp: valid_sn_def entity_two_in_flight_def pdu_stored_example_def)

end
