(* ===== verification/Rlc_Am_Control.thy ===== *)
theory Rlc_Am_Control
  imports Rlc_Am_Retransmit Rlc_Am_Status
begin

text \<open>
  Reception of a STATUS PDU (\<^verbatim>\<open>rlc_am_receive_process_control_pdu\<close> of
  \<^verbatim>\<open>rlc_am_status_report.c\<close>): the decoded report drives acknowledgements and negative
  acknowledgements from \<^verbatim>\<open>vt_a\<close> up to its \<^verbatim>\<open>ack_sn\<close>. The two loops run while a cursor differs
  from \<^verbatim>\<open>ack_sn\<close>; they are partial functions, and the theorems show that they return.
\<close>

subsection \<open>The loops\<close>

definition stop_poll_at :: "frame \<Rightarrow> int \<Rightarrow> rlc_am_entity \<Rightarrow> rlc_am_entity" where
  "stop_poll_at frameP sn_cursor e =
     (if sn_cursor = poll_sn e then rlc_am_stop_and_reset_timer_poll_retransmit e frameP else e)"

partial_function (option) ack_loop :: "frame \<Rightarrow> int \<Rightarrow> int \<Rightarrow> rlc_am_entity \<Rightarrow> rlc_am_entity option" where
  "ack_loop frameP ack_sn sn_cursor e =
     (if sn_cursor \<noteq> ack_sn then
        do {
          e1 \<leftarrow> rlc_am_ack_pdu (stop_poll_at frameP sn_cursor e) frameP sn_cursor;
          ack_loop frameP ack_sn (sn_mask (sn_cursor + 1)) e1
        }
      else Some e)"

text \<open>
  One round of the loop over a report with negative acknowledgements, from the cursor and the
  index of the next entry: the \<^verbatim>\<open>nack_sn\<close> of the C code is the entry's number, or 0xFFFF
  (that is -1 as an \<^verbatim>\<open>rlc_sn_t\<close>) when there is none left.
\<close>

definition nack_step ::
  "frame \<Rightarrow> nack_sn_t list \<Rightarrow> int \<Rightarrow> nat \<Rightarrow> rlc_am_entity \<Rightarrow> (int \<times> nat \<times> rlc_am_entity) option" where
  "nack_step frameP nks sn_cursor nack_index e =
     do {
       let e1 = stop_poll_at frameP sn_cursor e;
       let cur_sn = (if nack_index < length nks then nack_sn (nks ! nack_index) else - 1);
       (e2, idx) \<leftarrow>
         (if sn_cursor \<noteq> cur_sn
          then map_option (\<lambda>x. (x, nack_index)) (rlc_am_ack_pdu e1 frameP sn_cursor)
          else map_option (\<lambda>x. (x, nack_index + 1))
                 (rlc_am_nack_pdu e1 frameP sn_cursor (so_start (nks ! nack_index)) (so_end (nks ! nack_index))));
       let cursor =
         (if idx < length nks \<and> idx > 0 then
            (if nack_sn (nks ! idx) \<noteq> nack_sn (nks ! (idx - 1)) then sn_mask (sn_cursor + 1) else sn_cursor)
          else sn_mask (sn_cursor + 1));
       Some (cursor, idx, e2)
     }"

partial_function (option) nack_loop ::
  "frame \<Rightarrow> nack_sn_t list \<Rightarrow> int \<Rightarrow> int \<Rightarrow> nat \<Rightarrow> rlc_am_entity \<Rightarrow> rlc_am_entity option" where
  "nack_loop frameP nks ack_sn sn_cursor nack_index e =
     (if sn_cursor \<noteq> ack_sn then
        nack_step frameP nks sn_cursor nack_index e \<bind>
          (\<lambda>r. nack_loop frameP nks ack_sn (fst r) (fst (snd r)) (snd (snd r)))
      else Some e)"

text \<open>
  The handler. The result is the entity, the rest of the transport block and its size.
\<close>

definition rlc_am_receive_process_control_pdu ::
  "rlc_am_entity \<Rightarrow> frame \<Rightarrow> byte list \<Rightarrow> int \<Rightarrow> (rlc_am_entity \<times> byte list \<times> int) option" where
  "rlc_am_receive_process_control_pdu e frameP bs tb_size_in_bytes =
     do {
       (rc, info, sz) \<leftarrow> rlc_am_get_control_pdu_infos bs tb_size_in_bytes;
       e' \<leftarrow> (if rc \<ge> 0 then
               do {
                 let ack_sn = ci_ack_sn info;
                 c_assert (ack_sn < RLC_AM_SN_MODULO);
                 c_assert (int (length (ci_nack_list info)) < RLC_AM_MAX_NACK_IN_STATUS_PDU);
                 if rlc_am_in_tx_window e ack_sn then
                   (let e1 = e\<lparr>num_nack_so := 0, num_nack_sn := 0\<rparr>
                    in if ci_nack_list info = []
                       then ack_loop frameP ack_sn (vt_a e1) e1
                       else nack_loop frameP (ci_nack_list info) ack_sn (vt_a e1) 0 e1)
                 else Some e
               }
             else Some e);
       Some (e', drop (nat (tb_size_in_bytes - sz)) bs, sz)
     }"

subsection \<open>The window while the cursor moves\<close>

lemma stop_poll_at_simps [simp]:
  "vt_a (stop_poll_at f c e) = vt_a e" "vt_s (stop_poll_at f c e) = vt_s e"
  "pdu_retrans_buffer (stop_poll_at f c e) = pdu_retrans_buffer e"
  "tx_ok (stop_poll_at f c e) = tx_ok e" "tx_span (stop_poll_at f c e) = tx_span e"
  by (simp_all add: stop_poll_at_def timer_defs tx_ok_def tx_slots_ok_def tx_slot_ok_def tx_span_def)

text \<open>The distance from one sequence number up to another.\<close>

definition sn_dist :: "int \<Rightarrow> int \<Rightarrow> int" where
  "sn_dist a b = (b - a) mod RLC_AM_SN_MODULO"

lemma sn_dist_range [simp]: "0 \<le> sn_dist a b" "sn_dist a b < 1024"
  by (simp_all add: sn_dist_def)

lemma sn_dist_0: "valid_sn a \<Longrightarrow> valid_sn b \<Longrightarrow> sn_dist a b = 0 \<longleftrightarrow> a = b"
  by (auto simp: sn_dist_def valid_sn_def mod_diff_less_cases split: if_splits)

lemma sn_dist_step: "valid_sn a \<Longrightarrow> valid_sn b \<Longrightarrow> a \<noteq> b \<Longrightarrow> sn_dist (sn_mask (a + 1)) b = sn_dist a b - 1"
  using offset_next [of a b] by (auto simp: sn_dist_def)

lemma sn_dist_inj: "valid_sn a \<Longrightarrow> valid_sn b \<Longrightarrow> valid_sn c \<Longrightarrow> sn_dist a c = sn_dist b c \<Longrightarrow> a = b"
  by (auto simp: sn_dist_def valid_sn_def mod_diff_less_cases split: if_splits)

lemma tx_span_dist: "tx_span e = sn_dist (vt_a e) (vt_s e)"
  by (simp add: tx_span_def sn_dist_def)

text \<open>
  With the cursor not above the lower edge and \<open>ack_sn\<close> between the cursor and \<^verbatim>\<open>vt_s\<close>, the loop
  returns with the lower edge at or above \<open>ack_sn\<close>.
\<close>

lemma ack_loop_returns:
  "tx_ok e \<Longrightarrow> valid_sn c \<Longrightarrow> valid_sn ack \<Longrightarrow> sn_dist c ack \<le> sn_dist c (vt_s e) \<Longrightarrow>
     tx_span e \<le> sn_dist c (vt_s e) \<Longrightarrow>
   \<exists>e'. ack_loop f ack c e = Some e' \<and> tx_ok e' \<and> vt_s e' = vt_s e \<and> tx_span e' \<le> sn_dist ack (vt_s e)"
proof (induction "nat (sn_dist c ack)" arbitrary: c e rule: less_induct)
  case less
  show ?case
  proof (cases "c = ack")
    case True
    with less.prems show ?thesis by (subst ack_loop.simps) auto
  next
    case False
    let ?e = "stop_poll_at f c e" and ?c = "sn_mask (c + 1)"
    note vs = tx_okD(3) [OF less.prems(1)]
    have d: "0 < sn_dist c ack"
      using False sn_dist_0 [OF less.prems(2,3)] sn_dist_range(1) [of c ack] by linarith
    then have ne: "c \<noteq> vt_s e" using less.prems(4) sn_dist_0 [OF less.prems(2) vs] by linarith
    obtain e1 where e1: "rlc_am_ack_pdu ?e f c = Some e1" "tx_ok e1" "vt_s e1 = vt_s e"
      "if c = vt_a e \<and> vt_a e \<noteq> vt_s e then tx_span e1 < tx_span e else vt_a e1 = vt_a e"
      using ack_pdu_ok [of ?e c f, unfolded stop_poll_at_simps] less.prems(1,2) by blast
    have sd: "sn_dist ?c (vt_s e) = sn_dist c (vt_s e) - 1" "sn_dist ?c ack = sn_dist c ack - 1"
      using sn_dist_step less.prems(2,3) vs ne False by auto
    have "tx_span e1 \<le> sn_dist ?c (vt_s e)"
    proof (cases "c = vt_a e")
      case True
      then show ?thesis using e1(4) ne less.prems(5) sd by auto
    next
      case other: False
      then have "tx_span e \<noteq> sn_dist c (vt_s e)"
        using sn_dist_inj [OF tx_okD(2) [OF less.prems(1)] less.prems(2) vs] by (auto simp: tx_span_dist)
      then show ?thesis using e1(3,4) other less.prems(5) sd by (auto simp: tx_span_dist)
    qed
    moreover have "valid_sn ?c" "nat (sn_dist ?c ack) < nat (sn_dist c ack)" using sd d by auto
    ultimately obtain e' where "ack_loop f ack ?c e1 = Some e'" "tx_ok e'" "vt_s e' = vt_s e"
      "tx_span e' \<le> sn_dist ack (vt_s e)"
      using less.hyps [of ?c e1] e1 less.prems(3,4) sd by auto
    with e1(1) False show ?thesis by (subst ack_loop.simps) auto
  qed
qed

lemma below_edge_is_free:
  assumes ok: "tx_ok e'" and v: "valid_sn a" "valid_sn sn" "valid_sn ack"
    and o: "sn_dist a sn < sn_dist a ack" "sn_dist a ack \<le> sn_dist a (vt_s e')"
    and moved: "tx_span e' \<le> sn_dist ack (vt_s e')"
  shows "txp_mem_block (pdu_retrans_buffer e' sn) = None"
proof -
  note D = tx_okD [OF ok]
  have "\<not> (sn - vt_a e') mod 1024 < tx_span e'"
    using v D(2,3) o moved
    unfolding tx_span_dist sn_dist_def valid_sn_def
    by (simp add: mod_diff_less_cases) (auto split: if_splits)
  with tx_slots_okD(3) [OF D(1) v(2)] show ?thesis by (auto simp: tx_slot_ok_def Let_def split: if_splits)
qed

subsection \<open>Reports with negative acknowledgements\<close>

text \<open>A report of whole PDUs, in increasing order from the cursor and below \<open>ack_sn\<close>.\<close>

definition whole_nacks :: "int \<Rightarrow> int \<Rightarrow> nack_sn_t list \<Rightarrow> bool" where
  "whole_nacks c ack nks \<longleftrightarrow>
     list_all (\<lambda>nk. valid_sn (nack_sn nk) \<and> so_start nk = 0 \<and> so_end nk = 0x7FFF \<and>
                    sn_dist c (nack_sn nk) < sn_dist c ack) nks \<and>
     sorted_wrt (\<lambda>a b. sn_dist c (nack_sn a) < sn_dist c (nack_sn b)) nks"

lemma whole_nacks_distinct: "whole_nacks c ack nks \<Longrightarrow> distinct (map nack_sn nks)"
proof (induction nks)
  case (Cons nk nks)
  then have "whole_nacks c ack nks" "\<forall>x\<in>set nks. sn_dist c (nack_sn nk) < sn_dist c (nack_sn x)"
    by (simp_all add: whole_nacks_def)
  with Cons.IH show ?case by fastforce
qed simp

text \<open>The remaining entries when the cursor moves past a number that is not reported.\<close>

lemma whole_nacks_skip:
  assumes "whole_nacks c ack nks" "valid_sn c" "valid_sn ack" "c \<noteq> ack" "\<forall>nk\<in>set nks. nack_sn nk \<noteq> c"
  shows "whole_nacks (sn_mask (c + 1)) ack nks"
proof -
  have "sn_dist (sn_mask (c + 1)) (nack_sn nk) = sn_dist c (nack_sn nk) - 1" if "nk \<in> set nks" for nk
  proof (rule sn_dist_step)
    show "valid_sn (nack_sn nk)" using assms(1) that by (auto simp: whole_nacks_def list_all_iff)
  qed (use assms(2,5) that in auto)
  moreover have "sn_dist (sn_mask (c + 1)) ack = sn_dist c ack - 1" using assms(2-4) by (intro sn_dist_step)
  ultimately show ?thesis
    using assms(1) by (auto simp: whole_nacks_def list_all_iff intro: sorted_wrt_mono_rel [rotated])
qed

lemma whole_nacks_tl_above:
  assumes "whole_nacks c ack (nk # nks)" "x \<in> set nks"
  shows "sn_dist c (nack_sn nk) < sn_dist c (nack_sn x)"
  using assms by (simp add: whole_nacks_def)

text \<open>What a round does to the slots: \<open>released\<close> if it was an acknowledgement, else kept and marked.\<close>

definition slot_result :: "rlc_am_entity \<Rightarrow> rlc_am_entity \<Rightarrow> int set \<Rightarrow> int \<Rightarrow> bool" where
  "slot_result e e' nacked sn \<longleftrightarrow>
     (if sn \<in> nacked
      then same_pdu (pdu_retrans_buffer e sn) (pdu_retrans_buffer e' sn) \<and>
           nacked_whole (pdu_retrans_buffer e sn) (pdu_retrans_buffer e' sn)
      else txp_mem_block (pdu_retrans_buffer e' sn) = None)"

text \<open>The lower edge of the window is the first PDU to retransmit.\<close>

definition edge_first :: "int \<Rightarrow> rlc_am_entity \<Rightarrow> bool" where
  "edge_first r e \<longleftrightarrow> valid_sn r \<and> vt_a e = r \<and> first_retrans_pdu_sn e = r \<and> txp_mem_block (pdu_retrans_buffer e r) \<noteq> None"

lemma edge_first_gt: "edge_first r e \<Longrightarrow> valid_sn x \<Longrightarrow>
    (if first_retrans_pdu_sn e < 0 \<or> rlc_am_tx_sn1_gt_sn2 e (first_retrans_pdu_sn e) x then x else first_retrans_pdu_sn e) = r"
  by (auto simp: edge_first_def rlc_am_tx_sn1_gt_sn2_def valid_sn_def Let_def not_less)

lemma ack_pdu_edge:
  assumes "tx_ok e" "valid_sn c" "rlc_am_ack_pdu e f c = Some e'" "edge_first r e" "r \<noteq> c"
  shows "edge_first r e'"
proof -
  have r: "valid_sn r" "vt_a e = r" "r = first_retrans_pdu_sn e" "txp_mem_block (pdu_retrans_buffer e r) \<noteq> None"
    using assms(4) by (auto simp: edge_first_def)
  have "pdu_retrans_buffer e' r = pdu_retrans_buffer e r" by (rule ack_pdu_keeps[OF assms(1-3,5) r(1,4)])
  moreover have "first_retrans_pdu_sn e' = r" using ack_pdu_first[OF assms(1-3) r(3) assms(5)] r(1,4) by blast
  moreover have "vt_a e' = vt_a e" using ack_pdu_ok[OF assms(1,2), of f] assms(3,5) r(2) by auto
  ultimately show ?thesis using r by (simp add: edge_first_def)
qed

lemma stop_poll_edge [simp]:
  "edge_first r (stop_poll_at f c e) = edge_first r e"
  "first_retrans_pdu_sn (stop_poll_at f c e) = first_retrans_pdu_sn e"
  by (auto simp: edge_first_def stop_poll_at_def rlc_am_stop_and_reset_timer_poll_retransmit_def)

lemma nack_step_whole:
  assumes ok: "tx_ok e" and c: "valid_sn c" and w: "whole_nacks c ack (drop i nks)"
    and dist: "distinct (map nack_sn nks)"
    and all: "\<forall>nk\<in>set (drop i nks). txp_mem_block (pdu_retrans_buffer e (nack_sn nk)) \<noteq> None \<and>
      0 < txp_payload_size (pdu_retrans_buffer e (nack_sn nk))"
  shows "\<exists>e'. nack_step f nks c i e =
      Some (sn_mask (c + 1), if c \<in> nack_sn ` set (drop i nks) then i + 1 else i, e') \<and>
    tx_ok e' \<and> vt_s e' = vt_s e \<and> slot_result e e' (nack_sn ` set (drop i nks)) c \<and>
    (\<forall>x. valid_sn x \<and> x \<noteq> c \<and> txp_mem_block (pdu_retrans_buffer e x) \<noteq> None \<longrightarrow>
        pdu_retrans_buffer e' x = pdu_retrans_buffer e x) \<and>
    (\<forall>x. txp_mem_block (pdu_retrans_buffer e x) = None \<longrightarrow> txp_mem_block (pdu_retrans_buffer e' x) = None) \<and>
    (c \<in> nack_sn ` set (drop i nks) \<longrightarrow> i < length nks \<and> nack_sn (nks ! i) = c) \<and>
    (\<forall>r. edge_first r e \<longrightarrow> r \<noteq> c \<or> c \<in> nack_sn ` set (drop i nks) \<longrightarrow> edge_first r e') \<and>
    (c \<in> nack_sn ` set (drop i nks) \<and> vt_a e = c \<and> first_retrans_pdu_sn e < 0 \<longrightarrow> edge_first c e')"
proof -
  note stored = bspec [OF all]
  let ?e = "stop_poll_at f c e"
  let ?cur = "if i < length nks then nack_sn (nks ! i) else - 1"
  have head: "c \<in> nack_sn ` set (drop i nks) \<longleftrightarrow> c = ?cur"
  proof (cases "i < length nks")
    case True
    then have d: "drop i nks = nks ! i # drop (i + 1) nks" by (simp add: Cons_nth_drop_Suc)
    have "nack_sn x \<noteq> c" if "x \<in> set (drop (i + 1) nks)" "nack_sn (nks ! i) \<noteq> c" for x
    proof
      assume "nack_sn x = c"
      then have "sn_dist c (nack_sn (nks ! i)) < sn_dist c c"
        using whole_nacks_tl_above [OF w [unfolded d] that(1)] by simp
      then show False by (simp add: sn_dist_def)
    qed
    then have "nack_sn (nks ! i) = c" if "c \<in> nack_sn ` set (drop (i + 1) nks)" using that by blast
    then show ?thesis using True unfolding d by auto
  next
    case False
    then show ?thesis using c by (simp add: valid_sn_def)
  qed
  have adv: "(if j < length nks \<and> j > 0 then
            (if nack_sn (nks ! j) \<noteq> nack_sn (nks ! (j - 1)) then sn_mask (c + 1) else c)
          else sn_mask (c + 1)) = sn_mask (c + 1)" for j
  proof (cases "j < length nks \<and> j > 0")
    case True
    then have "map nack_sn nks ! j \<noteq> map nack_sn nks ! (j - 1)"
      using dist by (subst nth_eq_iff_index_eq) auto
    moreover have "j - 1 < length nks" using True by linarith
    ultimately show ?thesis using True by simp
  qed auto
  show ?thesis
  proof (cases "c = ?cur")
    case False
    obtain e1 where e1: "rlc_am_ack_pdu ?e f c = Some e1" "tx_ok e1" "vt_s e1 = vt_s e"
      "txp_mem_block (pdu_retrans_buffer e1 c) = None"
      using ack_pdu_ok [of ?e c f, unfolded stop_poll_at_simps] ok c by blast
    have "nack_step f nks c i e = Some (sn_mask (c + 1), i, e1)"
      using e1(1) False adv unfolding nack_step_def Let_def by simp
    moreover have "pdu_retrans_buffer e1 x = pdu_retrans_buffer e x"
      if "valid_sn x" "x \<noteq> c" "txp_mem_block (pdu_retrans_buffer e x) \<noteq> None" for x
      using ack_pdu_keeps [OF _ c e1(1) that(2,1)] ok that(3) by simp
    moreover have "txp_mem_block (pdu_retrans_buffer e1 x) = None" if "txp_mem_block (pdu_retrans_buffer e x) = None" for x
      using ack_pdu_none [OF _ c e1(1)] ok that by simp
    moreover have "edge_first r e1" if "edge_first r e" "r \<noteq> c" for r
      using ack_pdu_edge[OF _ c e1(1)] ok that by simp
    ultimately show ?thesis using e1 False head by (simp add: slot_result_def)
  next
    case True
    then have i: "i < length nks" "nack_sn (nks ! i) = c" using c by (auto simp: valid_sn_def split: if_splits)
    then have mem: "nks ! i \<in> set (drop i nks)" by (simp add: Cons_nth_drop_Suc [symmetric])
    have so: "so_start (nks ! i) = 0" "so_end (nks ! i) = 0x7FFF"
      using w mem by (auto simp: whole_nacks_def list_all_iff)
    obtain e1 where e1: "rlc_am_nack_pdu ?e f c 0 0x7FFF = Some e1" "tx_ok e1" "slot_step c ?e e1"
      "nacked_whole (pdu_retrans_buffer ?e c) (pdu_retrans_buffer e1 c)"
      "first_retrans_pdu_sn e1 = (if first_retrans_pdu_sn ?e < 0 \<or> rlc_am_tx_sn1_gt_sn2 ?e (first_retrans_pdu_sn ?e) c then c
        else first_retrans_pdu_sn ?e)"
      using nack_pdu_whole [of ?e c f] ok c stored [OF mem] i(2) by auto
    have "nack_step f nks c i e = Some (sn_mask (c + 1), i + 1, e1)"
      using e1(1) so i adv [of "i + 1"] unfolding nack_step_def Let_def by (simp split: if_splits)
    moreover have "txp_mem_block (pdu_retrans_buffer e1 x) = None" if "txp_mem_block (pdu_retrans_buffer e x) = None" for x
      using e1(3) that by (cases "x = c") (simp_all add: slot_step_def same_pdu_def)
    moreover have "vt_s e1 = vt_s e" "same_pdu (pdu_retrans_buffer e c) (pdu_retrans_buffer e1 c)"
      "\<And>x. x \<noteq> c \<Longrightarrow> pdu_retrans_buffer e1 x = pdu_retrans_buffer e x"
      using e1(3) by (simp_all add: slot_step_def)
    moreover have "c \<in> nack_sn ` set (drop i nks)" using mem i(2) by blast
    moreover have va: "vt_a e1 = vt_a e" using e1(3) by (simp add: slot_step_def)
    moreover have kept: "txp_mem_block (pdu_retrans_buffer e1 x) \<noteq> None" if "txp_mem_block (pdu_retrans_buffer e x) \<noteq> None" for x
      using e1(3) that by (cases "x = c") (simp_all add: slot_step_def same_pdu_def)
    moreover have "edge_first r e1" if "edge_first r e" for r
      using edge_first_gt[of r ?e c] that c e1(5) va kept by (simp add: edge_first_def)
    moreover have "edge_first c e1" if "vt_a e = c" "first_retrans_pdu_sn e < 0"
      using that c e1(5) va kept stored[OF mem] i(2) by (simp add: edge_first_def)
    ultimately show ?thesis using e1(2,4) i by (simp add: slot_result_def)
  qed
qed

lemma nack_loop_whole:
  "tx_ok e \<Longrightarrow> valid_sn c \<Longrightarrow> valid_sn ack \<Longrightarrow> whole_nacks c ack (drop i nks) \<Longrightarrow>
   distinct (map nack_sn nks) \<Longrightarrow>
   (\<And>nk. nk \<in> set (drop i nks) \<Longrightarrow> txp_mem_block (pdu_retrans_buffer e (nack_sn nk)) \<noteq> None \<and>
      0 < txp_payload_size (pdu_retrans_buffer e (nack_sn nk))) \<Longrightarrow>
   \<exists>e'. nack_loop f nks ack c i e = Some e' \<and> tx_ok e' \<and> vt_s e' = vt_s e \<and>
     (\<forall>sn. valid_sn sn \<and> sn_dist c sn < sn_dist c ack \<longrightarrow>
        slot_result e e' (nack_sn ` set (drop i nks)) sn) \<and>
     (\<forall>sn. valid_sn sn \<and> sn_dist c ack \<le> sn_dist c sn \<and> txp_mem_block (pdu_retrans_buffer e sn) \<noteq> None \<longrightarrow>
        pdu_retrans_buffer e' sn = pdu_retrans_buffer e sn) \<and>
     (\<forall>sn. txp_mem_block (pdu_retrans_buffer e sn) = None \<longrightarrow> txp_mem_block (pdu_retrans_buffer e' sn) = None) \<and>
     (\<forall>r. edge_first r e \<and> (sn_dist c ack \<le> sn_dist c r \<or> r = c \<and> c \<in> nack_sn ` set (drop i nks)) \<longrightarrow> edge_first r e') \<and>
     (c \<in> nack_sn ` set (drop i nks) \<and> c \<noteq> ack \<and> vt_a e = c \<and> first_retrans_pdu_sn e < 0 \<longrightarrow> edge_first c e')"
proof (induction "nat (sn_dist c ack)" arbitrary: c i e rule: less_induct)
  case less
  show ?case
  proof (cases "c = ack")
    case True
    then have "sn_dist c ack = 0" by (simp add: sn_dist_def)
    then have z: "\<not> sn_dist c sn < sn_dist c ack" for sn using sn_dist_range(1) [of c sn] by linarith
    have "nack_loop f nks ack c i e = Some e" using True by (subst nack_loop.simps) simp
    with less.prems(1) z True show ?thesis by auto
  next
    case False
    let ?N = "nack_sn ` set (drop i nks)" and ?c = "sn_mask (c + 1)"
    let ?i = "if c \<in> ?N then i + 1 else i"
    have all: "\<forall>nk\<in>set (drop i nks). txp_mem_block (pdu_retrans_buffer e (nack_sn nk)) \<noteq> None \<and>
      0 < txp_payload_size (pdu_retrans_buffer e (nack_sn nk))"
      using less.prems(6) by blast
    obtain e1 where e1: "nack_step f nks c i e = Some (?c, ?i, e1)" "tx_ok e1" "vt_s e1 = vt_s e"
      "slot_result e e1 ?N c"
      "\<And>x. valid_sn x \<Longrightarrow> x \<noteq> c \<Longrightarrow> txp_mem_block (pdu_retrans_buffer e x) \<noteq> None \<Longrightarrow>
        pdu_retrans_buffer e1 x = pdu_retrans_buffer e x"
      "\<And>x. txp_mem_block (pdu_retrans_buffer e x) = None \<Longrightarrow> txp_mem_block (pdu_retrans_buffer e1 x) = None"
      "c \<in> ?N \<Longrightarrow> i < length nks \<and> nack_sn (nks ! i) = c"
      "\<And>r. edge_first r e \<Longrightarrow> r \<noteq> c \<or> c \<in> ?N \<Longrightarrow> edge_first r e1"
      "c \<in> ?N \<Longrightarrow> vt_a e = c \<Longrightarrow> first_retrans_pdu_sn e < 0 \<Longrightarrow> edge_first c e1"
      using nack_step_whole [OF less.prems(1,2,4,5) all, of f]
      by (elim exE conjE) (intro that, (assumption | blast)+)
    have rest: "nack_sn ` set (drop ?i nks) = ?N - {c}" "set (drop ?i nks) \<subseteq> set (drop i nks)"
      "whole_nacks c ack (drop ?i nks)"
    proof -
      have "nack_sn ` set (drop ?i nks) = ?N - {c} \<and> set (drop ?i nks) \<subseteq> set (drop i nks) \<and>
          whole_nacks c ack (drop ?i nks)"
      proof (cases "c \<in> ?N")
        case True
        note i = e1(7) [OF True]
        then have d: "drop i nks = nks ! i # drop (i + 1) nks" by (simp add: Cons_nth_drop_Suc)
        have "distinct (map nack_sn (drop i nks))" using less.prems(5) by (simp add: drop_map [symmetric])
        then show ?thesis using True i less.prems(4) unfolding d by (auto simp: whole_nacks_def)
      qed (use less.prems(4) in auto)
      then show "nack_sn ` set (drop ?i nks) = ?N - {c}" "set (drop ?i nks) \<subseteq> set (drop i nks)"
        "whole_nacks c ack (drop ?i nks)" by blast+
    qed
    have pos: "0 < sn_dist c ack"
      using False sn_dist_0 [OF less.prems(2,3)] sn_dist_range(1) [of c ack] by linarith
    have sd: "sn_dist ?c x = sn_dist c x - 1" if "valid_sn x" "x \<noteq> c" for x
      using sn_dist_step [OF less.prems(2) that(1)] that(2) by blast
    have w: "whole_nacks ?c ack (drop ?i nks)"
      using whole_nacks_skip [OF rest(3) less.prems(2,3) False] rest(1) by (metis Diff_iff imageI singletonI)
    have st: "txp_mem_block (pdu_retrans_buffer e1 (nack_sn nk)) \<noteq> None \<and>
        0 < txp_payload_size (pdu_retrans_buffer e1 (nack_sn nk))" if "nk \<in> set (drop ?i nks)" for nk
    proof -
      have "nack_sn nk \<noteq> c" using that rest(1) by blast
      moreover have "valid_sn (nack_sn nk)" using that rest(3) by (auto simp: whole_nacks_def list_all_iff)
      moreover have "nk \<in> set (drop i nks)" using that rest(2) by blast
      ultimately show ?thesis using less.prems(6) [of nk] e1(5) [of "nack_sn nk"] by simp
    qed
    have "nat (sn_dist ?c ack) < nat (sn_dist c ack)" using sd [of ack] False less.prems(3) pos by auto
    from less.hyps [OF this e1(2) valid_sn_mask less.prems(3) w less.prems(5) st]
    obtain e' where e': "nack_loop f nks ack ?c ?i e1 = Some e'" "tx_ok e'" "vt_s e' = vt_s e"
      "\<And>sn. valid_sn sn \<Longrightarrow> sn_dist ?c sn < sn_dist ?c ack \<Longrightarrow> slot_result e1 e' (?N - {c}) sn"
      "\<And>sn. valid_sn sn \<Longrightarrow> sn_dist ?c ack \<le> sn_dist ?c sn \<Longrightarrow>
        txp_mem_block (pdu_retrans_buffer e1 sn) \<noteq> None \<Longrightarrow> pdu_retrans_buffer e' sn = pdu_retrans_buffer e1 sn"
      "\<And>sn. txp_mem_block (pdu_retrans_buffer e1 sn) = None \<Longrightarrow> txp_mem_block (pdu_retrans_buffer e' sn) = None"
      "\<And>r. edge_first r e1 \<Longrightarrow> sn_dist ?c ack \<le> sn_dist ?c r \<Longrightarrow> edge_first r e'"
      using e1(3) unfolding rest(1) by (auto split del: if_split)
    have loop: "nack_loop f nks ack c i e = Some e'"
      using e1(1) e'(1) False by (subst nack_loop.simps) simp
    have stored: "txp_mem_block (pdu_retrans_buffer e x) \<noteq> None" if "x \<in> ?N" for x
      using less.prems(6) that by blast
    have "sn_dist ?c c = 1023" using offset_next [OF less.prems(2,2)] by (simp add: sn_dist_def)
    then have far: "sn_dist ?c ack \<le> sn_dist ?c c" using sn_dist_range(2) [of ?c ack] by linarith
    have edge: "edge_first r e'" if r: "edge_first r e" "sn_dist c ack \<le> sn_dist c r \<or> r = c \<and> c \<in> ?N" for r
    proof (cases "r = c")
      case True
      have "c \<in> ?N" using r(2) pos True by (auto simp: sn_dist_def)
      then show ?thesis using e'(7) e1(8)[OF r(1)] True far by blast
    next
      case other: False
      have v: "valid_sn r" using r(1) by (simp add: edge_first_def)
      have "sn_dist ?c ack \<le> sn_dist ?c r"
        using sd [OF v other] sd [OF less.prems(3)] False r(2) other by auto
      then show ?thesis using e'(7) e1(8)[OF r(1)] other by blast
    qed
    have in_range: "slot_result e e' ?N sn" if "valid_sn sn" "sn_dist c sn < sn_dist c ack" for sn
    proof (cases "sn = c")
      case True
      show ?thesis
      proof (cases "c \<in> ?N")
        case True
        then have "txp_mem_block (pdu_retrans_buffer e1 c) \<noteq> None"
          using e1(4) stored [OF True] by (simp add: slot_result_def same_pdu_def)
        then have "pdu_retrans_buffer e' c = pdu_retrans_buffer e1 c" using e'(5) less.prems(2) far by blast
        then show ?thesis using e1(4) \<open>sn = c\<close> by (simp add: slot_result_def)
      next
        case False
        then show ?thesis using e1(4) e'(6) \<open>sn = c\<close> by (simp add: slot_result_def)
      qed
    next
      case other: False
      have "slot_result e1 e' (?N - {c}) sn"
        using e'(4) that sd [OF that(1) other] sd [OF less.prems(3)] False by auto
      then show ?thesis using other stored e1(5) [OF that(1) other] by (auto simp: slot_result_def)
    qed
    have outside: "pdu_retrans_buffer e' sn = pdu_retrans_buffer e sn"
      if sn: "valid_sn sn" "sn_dist c ack \<le> sn_dist c sn" "txp_mem_block (pdu_retrans_buffer e sn) \<noteq> None" for sn
    proof -
      have "sn \<noteq> c" using sn(2) pos by (auto simp: sn_dist_def)
      then have e1sn: "pdu_retrans_buffer e1 sn = pdu_retrans_buffer e sn" using e1(5) [OF sn(1)] sn(3) by blast
      have "sn_dist ?c ack \<le> sn_dist ?c sn"
        using sd [OF sn(1) \<open>sn \<noteq> c\<close>] sd [OF less.prems(3)] False sn(2) by linarith
      then show ?thesis using e'(5) [OF sn(1)] sn(3) e1sn by simp
    qed
    show ?thesis
    proof (intro exI conjI allI impI)
      show "nack_loop f nks ack c i e = Some e'" "tx_ok e'" "vt_s e' = vt_s e" by (fact loop e'(2,3))+
      show "slot_result e e' ?N sn" if "valid_sn sn \<and> sn_dist c sn < sn_dist c ack" for sn
        using in_range that by blast
      show "pdu_retrans_buffer e' sn = pdu_retrans_buffer e sn"
        if "valid_sn sn \<and> sn_dist c ack \<le> sn_dist c sn \<and> txp_mem_block (pdu_retrans_buffer e sn) \<noteq> None" for sn
        using outside that by blast
      show "txp_mem_block (pdu_retrans_buffer e' sn) = None" if "txp_mem_block (pdu_retrans_buffer e sn) = None" for sn
        by (rule e'(6) [OF e1(6) [OF that]])
      show "edge_first r e'" if "edge_first r e \<and> (sn_dist c ack \<le> sn_dist c r \<or> r = c \<and> c \<in> ?N)" for r
        using edge that by blast
      show "edge_first c e'" if "c \<in> ?N \<and> c \<noteq> ack \<and> vt_a e = c \<and> first_retrans_pdu_sn e < 0"
        using e'(7) e1(9) far that by blast
    qed
  qed
qed

subsection \<open>Processing a status report\<close>

lemma in_tx_window_dist:
  assumes "tx_ok e" "valid_sn sn"
  shows "rlc_am_in_tx_window e sn \<longleftrightarrow> sn_dist (vt_a e) sn < 512"
proof -
  note D = tx_okD [OF assms(1)]
  have "(vt_ms e - vt_a e) mod 1024 = 512"
    using D(2,5) by (simp add: sn_mask_mod mod_diff_left_eq)
  with tx_window.inw_iff [OF assms(2), of e] show ?thesis by (simp add: sn_dist_def)
qed

lemma reset_nack_counts_ok [simp]: "tx_ok (e\<lparr>num_nack_so := x, num_nack_sn := y\<rparr>) = tx_ok e"
  by (rule tx_ok_cong) simp_all

text \<open>
  (C16) A STATUS PDU without NACKs whose \<^verbatim>\<open>ACK_SN\<close> lies in the transmit window and not beyond
  the next number to send is processed completely: the handler returns, consumes exactly the two
  bytes of the PDU, keeps the window invariant, releases every PDU below \<^verbatim>\<open>ACK_SN\<close> and moves the
  lower edge of the window at least up to it.
\<close>

theorem status_acks_release:
  assumes "tx_ok e" "status_ok info" "ci_nack_list info = []" "buf_bits bs = status_bits info @ post"
    "sn_dist (vt_a e) (ci_ack_sn info) < 512" "sn_dist (vt_a e) (ci_ack_sn info) \<le> tx_span e"
  shows "\<exists>e'. rlc_am_receive_process_control_pdu e f bs n = Some (e', drop 2 bs, n - 2) \<and>
    tx_ok e' \<and> vt_s e' = vt_s e \<and> tx_span e' \<le> sn_dist (ci_ack_sn info) (vt_s e) \<and>
    (\<forall>sn. valid_sn sn \<and> sn_dist (vt_a e) sn < sn_dist (vt_a e) (ci_ack_sn info) \<longrightarrow>
       txp_mem_block (pdu_retrans_buffer e' sn) = None)"
proof -
  let ?e = "e\<lparr>num_nack_so := 0, num_nack_sn := 0\<rparr>" and ?ack = "ci_ack_sn info"
  have ack: "valid_sn ?ack" using assms(2) by (simp add: status_ok_def valid_sn_def)
  have va: "valid_sn (vt_a e)" using tx_okD(2) [OF assms(1)] .
  obtain e' where e': "ack_loop f ?ack (vt_a e) ?e = Some e'" "tx_ok e'" "vt_s e' = vt_s e"
    "tx_span e' \<le> sn_dist ?ack (vt_s e)"
    using ack_loop_returns [of ?e "vt_a e" ?ack f] assms(1,6) va ack
    by (auto simp: tx_span_dist)
  have dec: "rlc_am_get_control_pdu_infos bs n = Some (0, info, n - 2)"
    using get_control_pdu_layout [OF assms(4,2), of n] assms(3) by (simp add: status_bits_def)
  have "rlc_am_receive_process_control_pdu e f bs n = Some (e', drop 2 bs, n - 2)"
    using assms(2,3,5) e'(1) ack in_tx_window_dist [OF assms(1) ack]
    by (simp add: rlc_am_receive_process_control_pdu_def dec Let_def valid_sn_def)
  moreover have "txp_mem_block (pdu_retrans_buffer e' sn) = None"
    if "valid_sn sn" "sn_dist (vt_a e) sn < sn_dist (vt_a e) ?ack" for sn
    using below_edge_is_free [OF e'(2) va that(1) ack that(2)] assms(6) e'(3,4) by (simp add: tx_span_dist)
  ultimately show ?thesis using e' by blast
qed

definition status_ack_example :: rlc_am_control_pdu_info where
  "status_ack_example = \<lparr>ci_d_c = 0, ci_cpt = 0, ci_ack_sn = 0, ci_e1 = 0, ci_nack_list = []\<rparr>"

theorem status_acks_release_witness:
  "\<exists>e'. rlc_am_receive_process_control_pdu entity_two_in_flight 3 [0, 0, 0x55] 3 = Some (e', [0x55], 1) \<and>
     txp_mem_block (pdu_retrans_buffer e' 1023) = None"
proof -
  have "buf_bits [0, 0, 0x55] = replicate 16 False @ buf_bits [0x55]"
    using buf_bits_append [of "replicate 2 0" "[0x55]"] buf_bits_zero [of 2] by (simp add: numeral_2_eq_2)
  moreover have "status_bits status_ack_example = replicate 15 False"
    by (simp add: status_bits_def status_ack_example_def nbits_zero numeral_eq_Suc)
  moreover have "replicate 16 False = replicate 15 False @ [False]"
    by (simp add: numeral_eq_Suc)
  ultimately have bits: "buf_bits [0, 0, 0x55] = status_bits status_ack_example @ False # buf_bits [0x55]"
    by simp
  have x: "status_ok status_ack_example" "ci_nack_list status_ack_example = []" "ci_ack_sn status_ack_example = 0"
    by (simp_all add: status_ok_def status_ack_example_def)
  have e: "vt_a entity_two_in_flight = 1023" "tx_span entity_two_in_flight = 2"
    by (simp_all add: entity_two_in_flight_def tx_span_def)
  have d: "sn_dist 1023 0 < 512" "sn_dist 1023 0 \<le> 2" "sn_dist 1023 1023 < sn_dist 1023 0" "valid_sn 1023"
    by (simp_all add: sn_dist_def valid_sn_def)
  from status_acks_release [OF two_in_flight_ok x(1,2) bits, of 3 3, unfolded x(3) e, OF d(1,2)]
  obtain e' where "rlc_am_receive_process_control_pdu entity_two_in_flight 3 [0, 0, 0x55] 3 =
      Some (e', drop 2 [0, 0, 0x55], 3 - 2)" "txp_mem_block (pdu_retrans_buffer e' 1023) = None"
    using d(3,4) by blast
  then show ?thesis by simp
qed

lemma receive_nacks:
  assumes "tx_ok e" "status_ok info" "ci_nack_list info \<noteq> []" "buf_bits bs = status_bits info @ post"
    "sn_dist (vt_a e) (ci_ack_sn info) < 512"
    "whole_nacks (vt_a e) (ci_ack_sn info) (ci_nack_list info)"
    "\<forall>nk\<in>set (ci_nack_list info). txp_mem_block (pdu_retrans_buffer e (nack_sn nk)) \<noteq> None \<and>
       0 < txp_payload_size (pdu_retrans_buffer e (nack_sn nk))"
  shows "\<exists>e'. rlc_am_receive_process_control_pdu e f bs n =
      Some (e', drop ((length (status_bits info) + 7) div 8) bs, n - int ((length (status_bits info) + 7) div 8)) \<and>
    nack_loop f (ci_nack_list info) (ci_ack_sn info) (vt_a e) 0 (e\<lparr>num_nack_so := 0, num_nack_sn := 0\<rparr>) = Some e' \<and>
    tx_ok e' \<and> vt_s e' = vt_s e \<and>
    (\<forall>sn. valid_sn sn \<and> sn_dist (vt_a e) sn < sn_dist (vt_a e) (ci_ack_sn info) \<longrightarrow>
       slot_result e e' (nack_sn ` set (ci_nack_list info)) sn) \<and>
    (\<forall>sn. valid_sn sn \<and> sn_dist (vt_a e) (ci_ack_sn info) \<le> sn_dist (vt_a e) sn \<and>
       txp_mem_block (pdu_retrans_buffer e sn) \<noteq> None \<longrightarrow> pdu_retrans_buffer e' sn = pdu_retrans_buffer e sn) \<and>
    (vt_a e \<in> nack_sn ` set (ci_nack_list info) \<and> first_retrans_pdu_sn e < 0 \<longrightarrow> edge_first (vt_a e) e')"
proof -
  let ?e = "e\<lparr>num_nack_so := 0, num_nack_sn := 0\<rparr>" and ?ack = "ci_ack_sn info" and ?nks = "ci_nack_list info"
  let ?k = "(length (status_bits info) + 7) div 8"
  have ack: "valid_sn ?ack" using assms(2) by (simp add: status_ok_def valid_sn_def)
  have va: "valid_sn (vt_a e)" using tx_okD(2) [OF assms(1)] .
  obtain e' where e': "nack_loop f ?nks ?ack (vt_a e) 0 ?e = Some e'" "tx_ok e'" "vt_s e' = vt_s e"
    "\<And>sn. valid_sn sn \<Longrightarrow> sn_dist (vt_a e) sn < sn_dist (vt_a e) ?ack \<Longrightarrow>
       slot_result ?e e' (nack_sn ` set ?nks) sn"
    "\<And>sn. valid_sn sn \<Longrightarrow> sn_dist (vt_a e) ?ack \<le> sn_dist (vt_a e) sn \<Longrightarrow>
       txp_mem_block (pdu_retrans_buffer e sn) \<noteq> None \<Longrightarrow> pdu_retrans_buffer e' sn = pdu_retrans_buffer e sn"
    "vt_a e \<in> nack_sn ` set ?nks \<Longrightarrow> vt_a e \<noteq> ?ack \<Longrightarrow> first_retrans_pdu_sn e < 0 \<Longrightarrow> edge_first (vt_a e) e'"
    using nack_loop_whole [of ?e "vt_a e" ?ack 0 ?nks f] assms(1,6,7) va ack whole_nacks_distinct [OF assms(6)]
    by auto
  have ne: "vt_a e \<noteq> ?ack" if "vt_a e \<in> nack_sn ` set ?nks"
    using assms(6) that by (auto simp: whole_nacks_def list_all_iff sn_dist_def)
  have dec: "rlc_am_get_control_pdu_infos bs n = Some (0, info, n - int ?k)"
    by (rule get_control_pdu_layout [OF assms(4,2)])
  have "rlc_am_receive_process_control_pdu e f bs n = Some (e', drop ?k bs, n - int ?k)"
    using assms(2,3,5) e'(1) ack in_tx_window_dist [OF assms(1) ack]
    by (simp add: rlc_am_receive_process_control_pdu_def dec Let_def valid_sn_def status_ok_def)
  moreover have "slot_result ?e e' (nack_sn ` set ?nks) sn = slot_result e e' (nack_sn ` set ?nks) sn" for sn
    by (cases "sn \<in> nack_sn ` set ?nks") (simp_all add: slot_result_def)
  ultimately show ?thesis
    using e'(1-5) e'(6) [OF _ ne] by (intro exI [of _ e'] conjI allI impI) (assumption | simp)+
qed

text \<open>
  (C15) A STATUS PDU that reports whole PDUs missing, in increasing order from the lower edge \<^verbatim>\<open>VT(A)\<close> of the window on and below
  \<^verbatim>\<open>ACK_SN\<close>, all of them still stored with at least one byte, is processed without aborting, if the window invariant holds and \<^verbatim>\<open>ACK_SN\<close> lies less than 512 numbers above
  \<^verbatim>\<open>VT(A)\<close> (the report of a full window, with distance 512, is ignored by the code): below \<^verbatim>\<open>ACK_SN\<close> exactly the reported PDUs stay in the
  buffer, scheduled for retransmission of all their bytes, the others are released, and the PDUs
  from \<^verbatim>\<open>ACK_SN\<close> on are untouched.
\<close>

theorem status_nacks_schedule:
  assumes "tx_ok e" "status_ok info" "ci_nack_list info \<noteq> []" "buf_bits bs = status_bits info @ post"
    "sn_dist (vt_a e) (ci_ack_sn info) < 512"
    "whole_nacks (vt_a e) (ci_ack_sn info) (ci_nack_list info)"
    "\<forall>nk\<in>set (ci_nack_list info). txp_mem_block (pdu_retrans_buffer e (nack_sn nk)) \<noteq> None \<and>
       0 < txp_payload_size (pdu_retrans_buffer e (nack_sn nk))"
  shows "\<exists>e'. rlc_am_receive_process_control_pdu e f bs n =
      Some (e', drop ((length (status_bits info) + 7) div 8) bs, n - int ((length (status_bits info) + 7) div 8)) \<and>
    tx_ok e' \<and> vt_s e' = vt_s e \<and>
    (\<forall>sn. valid_sn sn \<and> sn_dist (vt_a e) sn < sn_dist (vt_a e) (ci_ack_sn info) \<longrightarrow>
       slot_result e e' (nack_sn ` set (ci_nack_list info)) sn) \<and>
    (\<forall>sn. valid_sn sn \<and> sn_dist (vt_a e) (ci_ack_sn info) \<le> sn_dist (vt_a e) sn \<and>
       txp_mem_block (pdu_retrans_buffer e sn) \<noteq> None \<longrightarrow> pdu_retrans_buffer e' sn = pdu_retrans_buffer e sn)"
  using receive_nacks[OF assms, of f n] by blast

text \<open>Number 1023 reported missing, 0 received.\<close>

definition status_nack_example :: rlc_am_control_pdu_info where
  "status_nack_example = \<lparr>ci_d_c = 0, ci_cpt = 0, ci_ack_sn = 1, ci_e1 = 1, ci_nack_list =
     [\<lparr>nack_sn = 1023, nack_e1 = 0, nack_e2 = 0, so_start = 0, so_end = 0x7FFF\<rparr>]\<rparr>"

theorem status_nacks_schedule_witness:
  "\<exists>bs e'. rlc_am_receive_process_control_pdu entity_two_in_flight 3 bs 4 = Some (e', [], 0) \<and>
     txp_mem_block (pdu_retrans_buffer e' 0) = None \<and> txp_retransmit (pdu_retrans_buffer e' 1023)"
proof -
  have ok: "status_ok status_nack_example" and len: "length (status_bits status_nack_example) = 27"
    by (simp_all add: status_ok_def status_nack_example_def nack_ok_def status_bits_def nack_bits_def)
  obtain bs where bs: "buf_bits bs = status_bits status_nack_example @ replicate 5 False"
    using write_status_layout [OF ok, of 4] len by auto
  have l: "length bs = 4" using arg_cong [OF bs, of length] len by simp
  have e: "vt_a entity_two_in_flight = 1023" "tx_span entity_two_in_flight = 2"
    "pdu_retrans_buffer entity_two_in_flight 1023 = pdu_stored_example"
    by (simp_all add: entity_two_in_flight_def tx_span_def)
  have d: "sn_dist 1023 0 = 1" "sn_dist 1023 1023 = 0" "sn_dist 1023 1 = 2" "valid_sn 1023" "valid_sn 0"
    by (simp_all add: sn_dist_def valid_sn_def)
  have p: "txp_mem_block pdu_stored_example \<noteq> None" "0 < txp_payload_size pdu_stored_example"
    by (simp_all add: pdu_stored_example_def)
  have n: "ci_nack_list status_nack_example \<noteq> []" "ci_ack_sn status_nack_example = 1"
    "nack_sn ` set (ci_nack_list status_nack_example) = {1023}"
    "\<forall>nk\<in>set (ci_nack_list status_nack_example). nack_sn nk = 1023"
    by (simp_all add: status_nack_example_def)
  have w: "whole_nacks 1023 1 (ci_nack_list status_nack_example)"
    by (simp add: whole_nacks_def status_nack_example_def d)
  obtain e' where "rlc_am_receive_process_control_pdu entity_two_in_flight 3 bs 4 = Some (e', drop 4 bs, 0)"
    "slot_result entity_two_in_flight e' {1023} 0" "slot_result entity_two_in_flight e' {1023} 1023"
    using status_nacks_schedule [OF two_in_flight_ok ok n(1) bs, of 3 4] len e d p n w by fastforce
  then show ?thesis using l by (auto simp: slot_result_def nacked_whole_def)
qed

text \<open>A report with \<^verbatim>\<open>SOstart\<close> above \<^verbatim>\<open>SOend\<close> for a stored PDU ends in an \<^verbatim>\<open>assert\<close>.\<close>

lemma inverted_segment_nack_aborts:
  "txp_mem_block (pdu_retrans_buffer e sn) \<noteq> None \<Longrightarrow> t < s \<Longrightarrow> rlc_am_nack_pdu e f sn s t = None"
  by (simp add: rlc_am_nack_pdu_def Let_def)

text \<open>
  With a full window, a report that acknowledges all of it is ignored: its \<^verbatim>\<open>ACK_SN\<close> is \<^verbatim>\<open>vt_ms\<close>, which
  lies outside the window the handler tests for.
\<close>

lemma full_window_ack_ignored:
  assumes "tx_ok e" "status_ok info" "ci_ack_sn info = vt_ms e" "buf_bits bs = status_bits info @ post"
  shows "map_option fst (rlc_am_receive_process_control_pdu e f bs n) = Some e"
proof -
  have ms: "vt_ms e = sn_mask (vt_a e + 512)" "valid_sn (vt_ms e)" using tx_okD(5)[OF assms(1)] by simp_all
  then have "\<not> sn_dist (vt_a e) (vt_ms e) < 512" by (simp add: sn_dist_def sn_mask_mod mod_diff_left_eq)
  then have "\<not> rlc_am_in_tx_window e (vt_ms e)" using in_tx_window_dist[OF assms(1) ms(2)] by blast
  then show ?thesis using get_control_pdu_layout[OF assms(4,2), of n] assms(2,3)
    by (simp add: rlc_am_receive_process_control_pdu_def status_ok_def)
qed

end
