(* ===== verification/Rlc_Am_Rx_List.thy ===== *)
theory Rlc_Am_Rx_List
  imports Rlc_Am_Timers
begin

text \<open>
  The reception buffer (\<^verbatim>\<open>rlc_am_rx_list.c\<close>): ordered insertion of a received PDU or PDU
  segment, and the test whether all segments of a PDU are there. The doubly linked list is a HOL
  list; an element is addressed by the split of the list around it, so inserting a PDU yields the
  elements before and after it, or nothing when it is refused (the result code -2).

  When the receive window does not wrap, insertion accepts exactly the PDUs that conflict with no
  stored one and keeps the list ordered and free of overlaps. The two loops for a wrapping window
  do not have this property; \<open>wrap_insertion_unsorted\<close> and \<open>wrap_insertion_overlaps\<close> show how.
\<close>

type_synonym rx_pdu = rlc_am_rx_pdu_management

abbreviation rx_sn :: "rx_pdu \<Rightarrow> int" where "rx_sn x \<equiv> pi_sn (pdu_info x)"
abbreviation rx_rf :: "rx_pdu \<Rightarrow> int" where "rx_rf x \<equiv> pi_rf (pdu_info x)"
abbreviation rx_so :: "rx_pdu \<Rightarrow> int" where "rx_so x \<equiv> pi_so (pdu_info x)"
abbreviation rx_size :: "rx_pdu \<Rightarrow> int" where "rx_size x \<equiv> pi_payload_size (pdu_info x)"

text \<open>The offset of the last byte of a segment.\<close>

definition rx_end :: "rx_pdu \<Rightarrow> int" where
  "rx_end x = rx_so x + rx_size x - 1"

subsection \<open>Insertion\<close>

datatype cursor_action = Reject | Insert_here | Go_on

text \<open>
  The decision at one element when the list is walked from its head, with the element visited
  before: the bodies of the first and of the third loop.
\<close>

definition fwd_step :: "rx_pdu \<Rightarrow> rx_pdu option \<Rightarrow> rx_pdu \<Rightarrow> cursor_action" where
  "fwd_step p prev cur =
     (if rx_sn p < rx_sn cur then
        (case prev of
           None \<Rightarrow> Insert_here
         | Some q \<Rightarrow>
             if rx_sn q = rx_sn p then
               (if rx_rf p \<noteq> rx_rf q then Reject
                else if rx_rf p = 1 \<and> rx_end q \<ge> rx_so p then Reject
                else Insert_here)
             else Insert_here)
      else if rx_sn p = rx_sn cur then
        (if rx_rf cur = 0 then Reject
         else if rx_rf p = 1 then
           (if rx_end p < rx_so cur then
              (case prev of
                 None \<Rightarrow> Insert_here
               | Some q \<Rightarrow>
                   if rx_sn q = rx_sn cur then (if rx_end q < rx_so p then Insert_here else Reject)
                   else Insert_here)
            else if rx_so p \<le> rx_so cur then Reject
            else Go_on)
         else Reject)
      else Go_on)"

text \<open>The same when the list is walked from its tail: the body of the second loop.\<close>

definition bwd_step :: "rx_pdu \<Rightarrow> rx_pdu option \<Rightarrow> rx_pdu \<Rightarrow> cursor_action" where
  "bwd_step p prev cur =
     (if rx_sn p > rx_sn cur then
        (case prev of
           None \<Rightarrow> Insert_here
         | Some q \<Rightarrow>
             if rx_sn q = rx_sn cur then
               (if rx_rf p \<noteq> rx_rf q then Reject
                else if rx_rf p = 1 \<and> rx_end p \<ge> rx_so q then Reject
                else Insert_here)
             else Insert_here)
      else if rx_sn p = rx_sn cur then
        (if rx_rf cur = 0 then Reject
         else if rx_rf p = 1 then
           (if rx_end cur < rx_so p then
              (case prev of
                 None \<Rightarrow> Insert_here
               | Some q \<Rightarrow>
                   if rx_sn q = rx_sn cur then (if rx_end p < rx_so q then Insert_here else Reject)
                   else Insert_here)
            else if rx_so cur \<le> rx_so p then Reject
            else Go_on)
         else Reject)
      else Go_on)"

text \<open>
  What the first and second loop do when they run off the list: \<open>True\<close> adds the PDU at the tail.
\<close>

definition end_accepts :: "rx_pdu \<Rightarrow> rx_pdu \<Rightarrow> bool" where
  "end_accepts p lst =
     (if rx_rf lst = 0 then True
      else if rx_rf p = 1 \<and> rx_rf lst = 1 \<and> rx_sn p = rx_sn lst then rx_end lst < rx_so p
      else rx_sn p \<noteq> rx_sn lst)"

text \<open>
  The three loops. The visited elements are kept in reverse; the result is the split of the list
  around the new element.
\<close>

fun insert_wrap_high ::
  "int \<Rightarrow> rx_pdu \<Rightarrow> rx_pdu list \<Rightarrow> rx_pdu list \<Rightarrow> (rx_pdu list \<times> rx_pdu list) option" where
  "insert_wrap_high vr p seen [] =
     (case seen of [] \<Rightarrow> None
      | lst # _ \<Rightarrow> if end_accepts p lst then Some (rev seen, []) else None)"
| "insert_wrap_high vr p seen (cur # rest) =
     (if rx_sn cur \<ge> vr then
        (case fwd_step p (case seen of [] \<Rightarrow> None | q # _ \<Rightarrow> Some q) cur of
           Reject \<Rightarrow> None
         | Insert_here \<Rightarrow> Some (rev seen, cur # rest)
         | Go_on \<Rightarrow> insert_wrap_high vr p (cur # seen) rest)
      else Some (rev seen, cur # rest))"

fun insert_wrap_low ::
  "int \<Rightarrow> rx_pdu \<Rightarrow> rx_pdu list \<Rightarrow> rx_pdu list \<Rightarrow> (rx_pdu list \<times> rx_pdu list) option" where
  "insert_wrap_low vr p seen [] =
     (case seen of [] \<Rightarrow> None
      | lst # _ \<Rightarrow> if end_accepts p lst then Some (seen, []) else None)"
| "insert_wrap_low vr p seen (cur # rest) =
     (if rx_sn cur < vr then
        (case bwd_step p (case seen of [] \<Rightarrow> None | q # _ \<Rightarrow> Some q) cur of
           Reject \<Rightarrow> None
         | Insert_here \<Rightarrow> Some (rev (cur # rest), seen)
         | Go_on \<Rightarrow> insert_wrap_low vr p (cur # seen) rest)
      else Some (rev (cur # rest), seen))"

fun insert_linear :: "rx_pdu \<Rightarrow> rx_pdu list \<Rightarrow> rx_pdu list \<Rightarrow> (rx_pdu list \<times> rx_pdu list) option" where
  "insert_linear p seen [] =
     (case seen of [] \<Rightarrow> None
      | lst # _ \<Rightarrow>
          if rx_sn p = rx_sn lst then (if rx_end lst < rx_so p then Some (rev seen, []) else None)
          else Some (rev seen, []))"
| "insert_linear p seen (cur # rest) =
     (case fwd_step p (case seen of [] \<Rightarrow> None | q # _ \<Rightarrow> Some q) cur of
        Reject \<Rightarrow> None
      | Insert_here \<Rightarrow> Some (rev seen, cur # rest)
      | Go_on \<Rightarrow> insert_linear p (cur # seen) rest)"

text \<open>
  The second loop walks from the tail, so it gets the reversed list, and what it has seen is
  already in list order.
\<close>

definition rlc_am_rx_list_insert_pdu ::
  "rlc_am_entity \<Rightarrow> rx_pdu \<Rightarrow> (rx_pdu list \<times> rx_pdu list) option" where
  "rlc_am_rx_list_insert_pdu e p =
     (if receiver_buffer e \<noteq> [] then
        if vr_mr e < vr_r e then
          if rx_sn p \<ge> vr_r e then insert_wrap_high (vr_r e) p [] (receiver_buffer e)
          else insert_wrap_low (vr_r e) p [] (rev (receiver_buffer e))
        else insert_linear p [] (receiver_buffer e)
      else Some ([], []))"

subsection \<open>Completeness of a segmented PDU\<close>

text \<open>
  The walk over the segments after the first one: \<open>True\<close> when it comes to the last segment of the
  PDU without a gap.
\<close>

fun segments_complete :: "int \<Rightarrow> int \<Rightarrow> rx_pdu list \<Rightarrow> bool" where
  "segments_complete sn last_end_so [] = False"
| "segments_complete sn last_end_so (x # xs) =
     (if rx_sn x = sn then
        (if rx_rf x \<noteq> 1 \<or> \<not> rx_so x \<le> last_end_so then False
         else pi_lsf (pdu_info x) > 0 \<or> segments_complete sn (rx_so x + rx_size x) xs)
      else False)"

definition rlc_am_rx_mark_all_segments_received :: "int \<Rightarrow> rx_pdu list \<Rightarrow> rx_pdu list" where
  "rlc_am_rx_mark_all_segments_received sn xs =
     map (\<lambda>x. x\<lparr>all_segments_received := True\<rparr>) (takeWhile (\<lambda>x. rx_sn x = sn) xs) @
     dropWhile (\<lambda>x. rx_sn x = sn) xs"

text \<open>
  The argument is the list split around the new element, the result the list with its marks and
  the position of the new element.
\<close>

definition rlc_am_rx_check_all_byte_segments ::
  "rx_pdu list \<Rightarrow> rx_pdu \<Rightarrow> rx_pdu list \<Rightarrow> rx_pdu list" where
  "rlc_am_rx_check_all_byte_segments before p after =
     (if rx_rf p = 0 then before @ p\<lparr>all_segments_received := True\<rparr> # after
      else
        let same = rev (takeWhile (\<lambda>x. rx_sn x = rx_sn p) (rev before));
            pre = rev (dropWhile (\<lambda>x. rx_sn x = rx_sn p) (rev before));
            segs = same @ p # after;
            first = hd segs
        in if rx_so first \<noteq> 0 then before @ p # after
           else if segments_complete (rx_sn p) (rx_size first) (tl segs)
           then pre @ rlc_am_rx_mark_all_segments_received (rx_sn p) segs
           else before @ p # after)"

subsection \<open>Order and conflicts\<close>

text \<open>
  Two stored PDUs are in order when the first has the smaller number, or both are segments of the
  same PDU and the first ends before the second begins. A PDU conflicts with a stored one of the
  same number unless both are segments without a common byte.
\<close>

definition rx_before :: "rx_pdu \<Rightarrow> rx_pdu \<Rightarrow> bool" where
  "rx_before a b \<longleftrightarrow> rx_sn a < rx_sn b \<or>
     (rx_sn a = rx_sn b \<and> rx_rf a = 1 \<and> rx_rf b = 1 \<and> rx_end a < rx_so b)"

definition rx_conflict :: "rx_pdu \<Rightarrow> rx_pdu \<Rightarrow> bool" where
  "rx_conflict p x \<longleftrightarrow> rx_sn p = rx_sn x \<and>
     \<not> (rx_rf p = 1 \<and> rx_rf x = 1 \<and> (rx_end p < rx_so x \<or> rx_end x < rx_so p))"

definition rx_elem_ok :: "rx_pdu \<Rightarrow> bool" where
  "rx_elem_ok x \<longleftrightarrow> 1 \<le> rx_size x \<and> (rx_rf x = 0 \<or> rx_rf x = 1)"

lemma rx_before_trans: "rx_elem_ok b \<Longrightarrow> rx_before a b \<Longrightarrow> rx_before b c \<Longrightarrow> rx_before a c"
  by (auto simp: rx_before_def rx_elem_ok_def rx_end_def)

lemma rx_before_no_conflict:
  "rx_elem_ok p \<Longrightarrow> rx_elem_ok x \<Longrightarrow> rx_before p x \<or> rx_before x p \<longleftrightarrow> \<not> rx_conflict p x"
  by (auto simp: rx_before_def rx_conflict_def rx_elem_ok_def rx_end_def)

lemma sorted_insert_mid:
  assumes "sorted_wrt rx_before (xs @ ys)" "\<forall>x\<in>set xs. rx_before x p" "\<forall>y\<in>set ys. rx_before p y"
  shows "sorted_wrt rx_before (xs @ p # ys)"
  using assms by (auto simp: sorted_wrt_append)

text \<open>
  What the forward walk knows of the elements it has passed: all but the latest end before the new
  PDU, the latest has a smaller number or starts earlier.
\<close>

fun passed :: "rx_pdu \<Rightarrow> rx_pdu list \<Rightarrow> bool" where
  "passed p [] = True"
| "passed p (q # qs) =
     ((rx_sn q < rx_sn p \<or>
       rx_sn q = rx_sn p \<and> rx_rf q = 1 \<and> rx_rf p = 1 \<and> rx_so q < rx_so p) \<and>
      (\<forall>x\<in>set qs. rx_before x p))"

definition head_opt :: "'a list \<Rightarrow> 'a option" where
  "head_opt xs = (case xs of [] \<Rightarrow> None | q # _ \<Rightarrow> Some q)"

lemma head_opt_simps [simp]: "head_opt [] = None" "head_opt (q # qs) = Some q"
  by (simp_all add: head_opt_def)

lemma insert_linear_Cons:
  "insert_linear p seen (cur # rest) =
     (case fwd_step p (head_opt seen) cur of
        Reject \<Rightarrow> None
      | Insert_here \<Rightarrow> Some (rev seen, cur # rest)
      | Go_on \<Rightarrow> insert_linear p (cur # seen) rest)"
  by (simp add: head_opt_def)

text \<open>The outcome of one step of the walk, under what it knows of the elements behind it.\<close>

lemma fwd_step_Go_on:
  assumes "fwd_step p (head_opt seen) cur = Go_on" "rx_elem_ok p" "rx_elem_ok cur"
    "passed p seen" "\<forall>x\<in>set seen. rx_elem_ok x \<and> rx_before x cur"
  shows "passed p (cur # seen)"
proof -
  have c: "rx_sn cur < rx_sn p \<or>
      rx_sn cur = rx_sn p \<and> rx_rf cur = 1 \<and> rx_rf p = 1 \<and> rx_so cur < rx_so p"
    using assms(1-3) by (auto simp: fwd_step_def rx_elem_ok_def split: if_splits option.splits)
  have "rx_before x p" if "x \<in> set seen" for x
    using assms(5) that c by (auto simp: rx_before_def)
  then show ?thesis using c by simp
qed

lemma fwd_step_Insert:
  assumes "fwd_step p (head_opt seen) cur = Insert_here" "rx_elem_ok p" "rx_elem_ok cur"
    "passed p seen" "\<forall>x\<in>set seen. rx_elem_ok x \<and> rx_before x cur"
  shows "rx_before p cur" "\<forall>x\<in>set seen. rx_before x p"
proof -
  show "rx_before p cur"
    using assms(1-3) by (auto simp: fwd_step_def rx_before_def rx_elem_ok_def split: if_splits option.splits)
  show "\<forall>x\<in>set seen. rx_before x p"
  proof (cases seen)
    case (Cons q qs)
    then have "rx_before q p"
      using assms by (auto simp: fwd_step_def rx_before_def rx_elem_ok_def split: if_splits)
    then show ?thesis using Cons assms(4) by simp
  qed simp
qed

lemma fwd_step_Reject:
  assumes "fwd_step p (head_opt seen) cur = Reject" "rx_elem_ok p" "rx_elem_ok cur"
    "passed p seen" "\<forall>x\<in>set seen. rx_elem_ok x \<and> rx_before x cur"
  shows "\<exists>x\<in>set (cur # seen). rx_conflict p x"
proof (cases seen)
  case Nil
  then show ?thesis using assms(1-3)
    by (auto simp: fwd_step_def rx_conflict_def rx_elem_ok_def rx_end_def split: if_splits)
next
  case (Cons q qs)
  then have "rx_conflict p cur \<or> rx_conflict p q"
    using assms by (auto simp: fwd_step_def rx_conflict_def rx_elem_ok_def rx_end_def split: if_splits)
  then show ?thesis using Cons by auto
qed

lemma sorted_insert_no_conflict:
  assumes "sorted_wrt rx_before (xs @ p # ys)" "\<forall>x\<in>set (xs @ p # ys). rx_elem_ok x"
  shows "\<not> (\<exists>x\<in>set (xs @ ys). rx_conflict p x)"
  using assms rx_before_no_conflict[of p] by (auto simp: sorted_wrt_append)

lemma insert_linear_spec:
  assumes "sorted_wrt rx_before (rev seen @ rest)" "\<forall>x\<in>set (rev seen @ rest). rx_elem_ok x"
    "rx_elem_ok p" "passed p seen" "seen \<noteq> [] \<or> rest \<noteq> []"
  shows "(case insert_linear p seen rest of
      None \<Rightarrow> \<exists>x\<in>set (rev seen @ rest). rx_conflict p x
    | Some (b, a) \<Rightarrow> b @ a = rev seen @ rest \<and> sorted_wrt rx_before (b @ p # a))"
  using assms
proof (induction rest arbitrary: seen)
  case Nil
  then obtain q qs where [simp]: "seen = q # qs" by (cases seen) auto
  show ?case
  proof (cases "rx_sn p = rx_sn q \<and> \<not> rx_end q < rx_so p")
    case True
    then have "rx_conflict p q"
      using Nil by (auto simp: rx_conflict_def rx_elem_ok_def rx_end_def)
    then show ?thesis using True by auto
  next
    case False
    then have "rx_before q p" using Nil by (auto simp: rx_before_def)
    then have "sorted_wrt rx_before (rev seen @ p # [])"
      using Nil by (intro sorted_insert_mid) auto
    then show ?thesis using False by auto
  qed
next
  case (Cons cur rest)
  have seen: "\<forall>x\<in>set seen. rx_elem_ok x \<and> rx_before x cur" and cur: "rx_elem_ok cur"
    using Cons.prems(1,2) by (auto simp: sorted_wrt_append)
  show ?case
  proof (cases "fwd_step p (head_opt seen) cur")
    case Reject
    then show ?thesis
      using fwd_step_Reject[OF Reject Cons.prems(3) cur Cons.prems(4) seen]
      by (auto simp: insert_linear_Cons simp del: insert_linear.simps)
  next
    case Insert_here
    note fw = fwd_step_Insert[OF Insert_here Cons.prems(3) cur Cons.prems(4) seen]
    have "\<forall>y\<in>set rest. rx_before p y"
      using Cons.prems(1) fw(1) cur rx_before_trans by (auto simp: sorted_wrt_append)
    then have "sorted_wrt rx_before (rev seen @ p # cur # rest)"
      using fw by (intro sorted_insert_mid[OF Cons.prems(1)]) auto
    then show ?thesis
      using Insert_here by (simp add: insert_linear_Cons del: insert_linear.simps)
  next
    case Go_on
    then show ?thesis
      using Cons.IH[of "cur # seen"] Cons.prems fwd_step_Go_on[OF Go_on Cons.prems(3) cur Cons.prems(4) seen]
      by (auto simp: insert_linear_Cons simp del: insert_linear.simps split: option.splits)
  qed
qed

text \<open>
  (C27) While the receive window does not wrap, a received PDU is refused exactly when it
  conflicts with a stored PDU of its number: a whole PDU already there, a segment against a whole
  PDU or the converse, or a segment with a byte in common. Otherwise it goes to a place of the
  reception buffer that keeps the buffer ordered by sequence number and offset and free of
  overlaps, and no other element moves.
\<close>

theorem rx_insert_keeps_order:
  assumes "\<not> vr_mr e < vr_r e" "sorted_wrt rx_before (receiver_buffer e)"
    "\<forall>x\<in>set (receiver_buffer e). rx_elem_ok x" "rx_elem_ok p"
  shows "(rlc_am_rx_list_insert_pdu e p = None \<longleftrightarrow> (\<exists>x\<in>set (receiver_buffer e). rx_conflict p x)) \<and>
    (\<forall>before after. rlc_am_rx_list_insert_pdu e p = Some (before, after) \<longrightarrow>
       before @ after = receiver_buffer e \<and> sorted_wrt rx_before (before @ p # after))"
proof (cases "receiver_buffer e = []")
  case True
  then show ?thesis by (simp add: rlc_am_rx_list_insert_pdu_def)
next
  case False
  have ins: "rlc_am_rx_list_insert_pdu e p = insert_linear p [] (receiver_buffer e)"
    using False assms(1) by (simp add: rlc_am_rx_list_insert_pdu_def)
  note spec = insert_linear_spec[of "[]" "receiver_buffer e" p, simplified, OF assms(2,3,4) False]
  have "\<not> (\<exists>x\<in>set (receiver_buffer e). rx_conflict p x)" if "insert_linear p [] (receiver_buffer e) = Some (b, a)" for b a
  proof -
    have "b @ a = receiver_buffer e" "sorted_wrt rx_before (b @ p # a)" using spec that by auto
    moreover from this have "\<forall>x\<in>set (b @ p # a). rx_elem_ok x"
      using assms(3,4) by (metis in_set_conv_decomp set_ConsD set_append Un_iff)
    ultimately show ?thesis using sorted_insert_no_conflict[of b p a] by simp
  qed
  then show ?thesis
    using spec unfolding ins by (cases "insert_linear p [] (receiver_buffer e)") auto
qed

text \<open>A whole PDU and a segment, as the header decoder delivers them.\<close>

definition rx_whole :: "int \<Rightarrow> byte list \<Rightarrow> rx_pdu" where
  "rx_whole sn bs = \<lparr>pdu_info = \<lparr>pi_d_c = 1, pi_rf = 0, pi_p = 0, pi_fi = 0, pi_e = 0, pi_sn = sn,
     pi_lsf = 0, pi_so = 0, pi_li_list = [], pi_hidden_size = 0, pi_payload = bs,
     pi_payload_size = int (length bs), pi_header_size = 2\<rparr>, all_segments_received = False\<rparr>"

definition rx_segment :: "int \<Rightarrow> int \<Rightarrow> int \<Rightarrow> byte list \<Rightarrow> rx_pdu" where
  "rx_segment sn so lsf bs = \<lparr>pdu_info = \<lparr>pi_d_c = 1, pi_rf = 1, pi_p = 0, pi_fi = 0, pi_e = 0, pi_sn = sn,
     pi_lsf = lsf, pi_so = so, pi_li_list = [], pi_hidden_size = 0, pi_payload = bs,
     pi_payload_size = int (length bs), pi_header_size = 4\<rparr>, all_segments_received = False\<rparr>"

lemmas rx_example_defs = rx_whole_def rx_segment_def rx_before_def rx_conflict_def rx_elem_ok_def
  rx_end_def zero_entity_def rlc_am_rx_list_insert_pdu_def fwd_step_def bwd_step_def end_accepts_def

definition rx_entity :: "int \<Rightarrow> int \<Rightarrow> rx_pdu list \<Rightarrow> rlc_am_entity" where
  "rx_entity r mr xs = zero_entity\<lparr>vr_r := r, vr_mr := mr, receiver_buffer := xs\<rparr>"

text \<open>Two segments of PDU 3 with a hole between them, and PDU 5; the missing segment arrives.\<close>

definition rx_buffer_example :: rlc_am_entity where
  "rx_buffer_example = rx_entity 1 513 [rx_segment 3 0 0 [1, 2], rx_segment 3 3 1 [4], rx_whole 5 [9]]"

theorem rx_insert_keeps_order_witness:
  "\<not> vr_mr rx_buffer_example < vr_r rx_buffer_example \<and>
   rlc_am_rx_list_insert_pdu rx_buffer_example (rx_segment 3 1 0 [2, 3]) = None \<and>
   rlc_am_rx_list_insert_pdu rx_buffer_example (rx_segment 3 2 0 [3]) =
     Some ([rx_segment 3 0 0 [1, 2]], [rx_segment 3 3 1 [4], rx_whole 5 [9]]) \<and>
   sorted_wrt rx_before ([rx_segment 3 0 0 [1, 2]] @ rx_segment 3 2 0 [3] # [rx_segment 3 3 1 [4], rx_whole 5 [9]])"
proof -
  have h: "\<not> vr_mr rx_buffer_example < vr_r rx_buffer_example"
    "sorted_wrt rx_before (receiver_buffer rx_buffer_example)"
    "\<forall>x\<in>set (receiver_buffer rx_buffer_example). rx_elem_ok x"
    "rx_elem_ok (rx_segment 3 1 0 [2, 3])" "rx_elem_ok (rx_segment 3 2 0 [3])"
    by (simp_all add: rx_buffer_example_def rx_entity_def rx_example_defs)
  have i: "rlc_am_rx_list_insert_pdu rx_buffer_example (rx_segment 3 2 0 [3]) =
     Some ([rx_segment 3 0 0 [1, 2]], [rx_segment 3 3 1 [4], rx_whole 5 [9]])"
    by (simp add: rx_buffer_example_def rx_entity_def rx_example_defs)
  have c: "\<exists>x\<in>set (receiver_buffer rx_buffer_example). rx_conflict (rx_segment 3 1 0 [2, 3]) x"
    by (simp add: rx_buffer_example_def rx_entity_def rx_example_defs)
  show ?thesis
    using h(1) i c rx_insert_keeps_order[OF h(1,2,3,4)] rx_insert_keeps_order[OF h(1,2,3,5)] by blast
qed

text \<open>
  With a wrapping window the walk from the tail adds a PDU below every stored number at the tail
  instead of the head, and the walk from the head does not compare a segment with the segment
  before the place where the numbers wrap.
\<close>

lemma wrap_insertion_unsorted:
  "rlc_am_rx_list_insert_pdu (rx_entity 1000 488 [rx_whole 5 [1]]) (rx_whole 3 [2]) =
     Some ([rx_whole 5 [1]], [])"
  by (simp add: rx_entity_def rx_example_defs)

lemma wrap_insertion_overlaps:
  "rlc_am_rx_list_insert_pdu (rx_entity 1000 488 [rx_segment 1001 0 0 [1, 2, 3], rx_whole 5 [9]])
       (rx_segment 1001 1 0 [2, 3]) =
     Some ([rx_segment 1001 0 0 [1, 2, 3]], [rx_whole 5 [9]]) \<and>
   rx_conflict (rx_segment 1001 1 0 [2, 3]) (rx_segment 1001 0 0 [1, 2, 3])"
  by (simp add: rx_entity_def rx_example_defs)

subsection \<open>Completeness\<close>

text \<open>
  Segments are gapless from an offset when each begins where the one before ends. A PDU is all
  there when some of its first segments, two at least, are gapless from offset 0 and the last of
  them carries the last segment flag.
\<close>

fun gapless :: "int \<Rightarrow> rx_pdu list \<Rightarrow> bool" where
  "gapless so [] = True"
| "gapless so (x # xs) = (rx_so x = so \<and> gapless (so + rx_size x) xs)"

definition all_bytes_there :: "rx_pdu list \<Rightarrow> bool" where
  "all_bytes_there segs \<longleftrightarrow> (\<exists>ys zs. segs = ys @ zs \<and> 2 \<le> length ys \<and> gapless 0 ys \<and>
     0 < pi_lsf (pdu_info (last ys)))"

lemma gapless_covers:
  assumes "gapless so ys" "ys \<noteq> []" "so \<le> b" "b \<le> rx_end (last ys)"
  shows "\<exists>x\<in>set ys. rx_so x \<le> b \<and> b \<le> rx_end x"
  using assms
proof (induction ys arbitrary: so)
  case (Cons x xs)
  show ?case
  proof (cases "b < so + rx_size x \<or> xs = []")
    case True
    then show ?thesis using Cons.prems by (auto simp: rx_end_def)
  next
    case False
    then show ?thesis using Cons.IH[of "so + rx_size x"] Cons.prems by auto
  qed
qed simp

lemma rx_before_same: "rx_before x y \<Longrightarrow> rx_sn y = rx_sn x \<Longrightarrow> rx_so x + rx_size x \<le> rx_so y"
  by (auto simp: rx_before_def rx_end_def)

lemma segments_complete_spec:
  assumes "sorted_wrt rx_before xs"
    "\<forall>x\<in>set xs. rx_elem_ok x \<and> sn \<le> rx_sn x \<and> (rx_sn x = sn \<longrightarrow> rx_rf x = 1 \<and> le \<le> rx_so x)"
  shows "segments_complete sn le xs \<longleftrightarrow>
    (\<exists>ys zs. filter (\<lambda>x. rx_sn x = sn) xs = ys @ zs \<and> ys \<noteq> [] \<and> gapless le ys \<and>
       0 < pi_lsf (pdu_info (last ys)))" (is "_ \<longleftrightarrow> ?R le xs")
  using assms
proof (induction xs arbitrary: le)
  case (Cons x xs)
  have gt: "filter (\<lambda>x. rx_sn x = sn) xs = []" if "rx_sn x \<noteq> sn"
    using Cons.prems that by (fastforce simp: rx_before_def filter_empty_conv)
  have split: "?R le (x # xs) \<longleftrightarrow> rx_so x = le \<and>
      (0 < pi_lsf (pdu_info x) \<or> ?R (le + rx_size x) xs)" if "rx_sn x = sn"
  proof -
    have "(\<exists>ys zs. x # F = ys @ zs \<and> ys \<noteq> [] \<and> gapless le ys \<and> 0 < pi_lsf (pdu_info (last ys))) \<longleftrightarrow>
      rx_so x = le \<and> (0 < pi_lsf (pdu_info x) \<or>
        (\<exists>ys zs. F = ys @ zs \<and> ys \<noteq> [] \<and> gapless (le + rx_size x) ys \<and> 0 < pi_lsf (pdu_info (last ys))))"
      (is "?A \<longleftrightarrow> ?B") for F
    proof
      assume ?A
      then obtain ys zs where "F = ys @ zs" "gapless le (x # ys)" "0 < pi_lsf (pdu_info (last (x # ys)))"
        by (auto simp: Cons_eq_append_conv)
      then show ?B by (cases "ys = []") auto
    next
      assume b: ?B
      show ?A
      proof (cases "0 < pi_lsf (pdu_info x)")
        case True
        then show ?thesis using b by (intro exI[of _ "[x]"] exI[of _ F]) simp
      next
        case False
        with b obtain ys zs where "F = ys @ zs" "ys \<noteq> []" "gapless (le + rx_size x) ys"
          "0 < pi_lsf (pdu_info (last ys))" by blast
        then show ?thesis using b by (intro exI[of _ "x # ys"] exI[of _ zs]) simp
      qed
    qed
    then show ?thesis using that by simp
  qed
  show ?case
  proof (cases "rx_sn x = sn")
    case True
    have "\<forall>y\<in>set xs. rx_elem_ok y \<and> sn \<le> rx_sn y \<and> (rx_sn y = sn \<longrightarrow> rx_rf y = 1 \<and> le + rx_size x \<le> rx_so y)"
      if "rx_so x = le"
    proof (intro ballI conjI impI)
      fix y assume y: "y \<in> set xs"
      have yx: "rx_before x y" and yo: "rx_elem_ok y \<and> sn \<le> rx_sn y \<and> (rx_sn y = sn \<longrightarrow> rx_rf y = 1 \<and> le \<le> rx_so y)"
        using Cons.prems(1) bspec[OF Cons.prems(2), of y] y by simp_all
      show "rx_elem_ok y" "sn \<le> rx_sn y" using yo by blast+
      assume "rx_sn y = sn"
      then show "rx_rf y = 1" "le + rx_size x \<le> rx_so y"
        using yo rx_before_same[OF yx] that True by simp_all
    qed
    then have "segments_complete sn (le + rx_size x) xs \<longleftrightarrow> ?R (le + rx_size x) xs" if "rx_so x = le"
      using that Cons.IH[of "le + rx_size x"] Cons.prems(1) by simp
    moreover have "segments_complete sn le (x # xs) \<longleftrightarrow>
        rx_so x = le \<and> (0 < pi_lsf (pdu_info x) \<or> segments_complete sn (le + rx_size x) xs)"
      using True Cons.prems(2) by auto
    ultimately show ?thesis unfolding split[OF True] by blast
  next
    case False
    then show ?thesis using gt by simp
  qed
qed simp

lemma while_filter:
  assumes "sorted_wrt (\<lambda>x y. P y \<longrightarrow> P x) xs"
  shows "takeWhile P xs = filter P xs" "dropWhile P xs = filter (\<lambda>x. \<not> P x) xs"
  using assms by (induction xs) (auto simp: filter_empty_conv intro!: filter_True)

lemma mark_while:
  assumes "dropWhile P xs = filter (\<lambda>x. \<not> P x) xs"
  shows "map g (takeWhile P xs) @ dropWhile P xs = map (\<lambda>x. if P x then g x else x) xs"
proof -
  have "\<forall>x\<in>set (dropWhile P xs). \<not> P x" using assms by simp
  then have "map (\<lambda>x. if P x then g x else x) (dropWhile P xs) = dropWhile P xs" by (auto intro: map_idI)
  moreover have "map (\<lambda>x. if P x then g x else x) (takeWhile P xs) = map g (takeWhile P xs)"
    by (auto dest: set_takeWhileD)
  ultimately have "map (\<lambda>x. if P x then g x else x) (takeWhile P xs @ dropWhile P xs) =
      map g (takeWhile P xs) @ dropWhile P xs" by (simp only: map_append)
  then show ?thesis by simp
qed

lemma all_bytes_there_Cons:
  "all_bytes_there (x # F) \<longleftrightarrow> rx_so x = 0 \<and>
     (\<exists>ys zs. F = ys @ zs \<and> ys \<noteq> [] \<and> gapless (rx_size x) ys \<and> 0 < pi_lsf (pdu_info (last ys)))"
  (is "?A \<longleftrightarrow> ?B")
proof
  assume ?A
  then obtain ys zs where y: "x # F = ys @ zs" "2 \<le> length ys" "gapless 0 ys" "0 < pi_lsf (pdu_info (last ys))"
    unfolding all_bytes_there_def by blast
  then obtain y ys' where "ys = y # ys'" by (cases ys) auto
  with y have "F = ys' @ zs \<and> ys' \<noteq> [] \<and> gapless (rx_size x) ys' \<and> 0 < pi_lsf (pdu_info (last ys'))"
    "rx_so x = 0" by (auto split: if_splits)
  then show ?B by blast
next
  assume ?B
  then obtain ys zs where "F = ys @ zs" "ys \<noteq> []" "gapless (rx_size x) ys" "rx_so x = 0"
    "0 < pi_lsf (pdu_info (last ys))" by blast
  then show ?A unfolding all_bytes_there_def
    by (intro exI[of _ "x # ys"] exI[of _ zs]) (auto simp: Suc_le_eq)
qed

text \<open>
  In an ordered buffer the elements of one number are a run: those before a given element are
  what the backward walk of the code collects.
\<close>

lemma rx_group:
  assumes "sorted_wrt rx_before (before @ p # after)"
  obtains f r where "rev (takeWhile (\<lambda>x. rx_sn x = rx_sn p) (rev before)) @ p # after = f # r"
    "rev (dropWhile (\<lambda>x. rx_sn x = rx_sn p) (rev before)) @ f # r = before @ p # after"
    "rx_sn f = rx_sn p" "sorted_wrt rx_before (f # r)" "\<forall>x\<in>set r. rx_sn p \<le> rx_sn x"
    "\<forall>x\<in>set (rev (dropWhile (\<lambda>x. rx_sn x = rx_sn p) (rev before))). rx_sn x \<noteq> rx_sn p"
proof -
  let ?P = "\<lambda>x. rx_sn x = rx_sn p"
  let ?same = "rev (takeWhile ?P (rev before))" and ?pre = "rev (dropWhile ?P (rev before))"
  have le: "\<forall>x\<in>set before. rx_sn x \<le> rx_sn p" and ge: "\<forall>x\<in>set after. rx_sn p \<le> rx_sn x"
    using assms by (auto simp: sorted_wrt_append rx_before_def)
  have "sorted_wrt (\<lambda>x y. ?P y \<longrightarrow> ?P x) (rev before)"
    unfolding sorted_wrt_rev
    by (rule sorted_wrt_mono_rel[of _ rx_before]) (use assms le in \<open>auto simp: sorted_wrt_append rx_before_def\<close>)
  then have pre: "\<forall>x\<in>set ?pre. \<not> ?P x" by (simp add: while_filter(2))
  have split: "?pre @ ?same = before"
    by (metis rev_append rev_rev_ident takeWhile_dropWhile_id)
  have "sorted_wrt rx_before ((?pre @ ?same) @ p # after)" unfolding split by (rule assms)
  then have so: "sorted_wrt rx_before (?same @ p # after)"
    unfolding append_assoc sorted_wrt_append[of _ ?pre] by blast
  have same: "\<forall>x\<in>set (?same @ [p]). ?P x" by (auto dest: set_takeWhileD)
  then have same': "\<forall>x\<in>set (?same @ [p]). rx_sn p \<le> rx_sn x" by (blast intro: eq_refl[OF sym])
  obtain f r where fr: "?same @ p # after = f # r" by (cases ?same) auto
  have "f \<in> set (?same @ [p])" "set r \<subseteq> set (?same @ [p]) \<union> set after"
    using fr by (cases ?same; auto)+
  then have "?P f" "\<forall>x\<in>set r. x \<in> set (?same @ [p]) \<or> x \<in> set after" using same by blast+
  from this(2) have ger: "\<forall>x\<in>set r. rx_sn p \<le> rx_sn x" using same' ge by blast
  have l: "?pre @ f # r = before @ p # after" unfolding fr[symmetric] append_assoc[symmetric] split ..
  show thesis by (rule that[OF fr l \<open>?P f\<close> so[unfolded fr] ger pre])
qed

lemma segments_complete_group:
  assumes "sorted_wrt rx_before (f # r)" "\<forall>x\<in>set (f # r). rx_elem_ok x" "rx_rf f = 1"
    "\<forall>x\<in>set r. rx_sn f \<le> rx_sn x" "rx_so f = 0"
  shows "segments_complete (rx_sn f) (rx_size f) r \<longleftrightarrow>
     (\<exists>ys zs. filter (\<lambda>x. rx_sn x = rx_sn f) r = ys @ zs \<and> ys \<noteq> [] \<and> gapless (rx_size f) ys \<and>
        0 < pi_lsf (pdu_info (last ys)))"
proof (rule segments_complete_spec)
  show "sorted_wrt rx_before r" using assms(1) by simp
  show "\<forall>x\<in>set r. rx_elem_ok x \<and> rx_sn f \<le> rx_sn x \<and>
      (rx_sn x = rx_sn f \<longrightarrow> rx_rf x = 1 \<and> rx_size f \<le> rx_so x)"
  proof (intro ballI conjI impI)
    fix x assume x: "x \<in> set r"
    then show "rx_elem_ok x" "rx_sn f \<le> rx_sn x" using assms by auto
    assume e: "rx_sn x = rx_sn f"
    have b: "rx_before f x" using assms(1) x by simp
    then show "rx_rf x = 1" using e by (simp add: rx_before_def)
    show "rx_size f \<le> rx_so x" using rx_before_same[OF b e] assms(5) by simp
  qed
qed

lemma mark_group:
  assumes "pre @ f # r = l" "rx_sn f = sn" "sorted_wrt rx_before (f # r)" "\<forall>x\<in>set r. sn \<le> rx_sn x"
    "\<forall>x\<in>set pre. rx_sn x \<noteq> sn"
  shows "pre @ rlc_am_rx_mark_all_segments_received sn (f # r) =
     map (\<lambda>x. if rx_sn x = sn then x\<lparr>all_segments_received := True\<rparr> else x) l"
proof -
  have "sorted_wrt (\<lambda>x y. rx_sn y = sn \<longrightarrow> rx_sn x = sn) (f # r)"
    by (rule sorted_wrt_mono_rel[OF _ assms(3)]) (use assms(2,4) in \<open>auto simp: rx_before_def\<close>)
  note m = mark_while[OF while_filter(2)[OF this], of "\<lambda>x. x\<lparr>all_segments_received := True\<rparr>"]
  have "map (\<lambda>x. if rx_sn x = sn then x\<lparr>all_segments_received := True\<rparr> else x) pre = pre"
    using assms(5) by (auto intro: map_idI)
  then show ?thesis
    unfolding assms(1)[symmetric] map_append rlc_am_rx_mark_all_segments_received_def m by simp
qed

lemma check_byte_segments_marks:
  assumes "sorted_wrt rx_before (before @ p # after)" "\<forall>x\<in>set (before @ p # after). rx_elem_ok x"
  shows "rlc_am_rx_check_all_byte_segments before p after =
    map (\<lambda>x. if rx_sn x = rx_sn p \<and>
           (rx_rf p = 0 \<or> all_bytes_there (filter (\<lambda>x. rx_sn x = rx_sn p) (before @ p # after)))
         then x\<lparr>all_segments_received := True\<rparr> else x) (before @ p # after)"
proof (cases "rx_rf p = 0")
  case True
  have "\<forall>x\<in>set before \<union> set after. rx_sn x \<noteq> rx_sn p"
    using assms(1) True by (auto simp: sorted_wrt_append rx_before_def)
  then have "map (\<lambda>x. if rx_sn x = rx_sn p then x\<lparr>all_segments_received := True\<rparr> else x) before = before"
    "map (\<lambda>x. if rx_sn x = rx_sn p then x\<lparr>all_segments_received := True\<rparr> else x) after = after"
    by (auto intro!: map_idI)
  then show ?thesis using True by (simp add: rlc_am_rx_check_all_byte_segments_def)
next
  case False
  let ?P = "\<lambda>x. rx_sn x = rx_sn p"
  obtain f r where g: "rev (takeWhile ?P (rev before)) @ p # after = f # r"
    "rev (dropWhile ?P (rev before)) @ f # r = before @ p # after" "rx_sn f = rx_sn p"
    "sorted_wrt rx_before (f # r)" "\<forall>x\<in>set r. rx_sn p \<le> rx_sn x"
    "\<forall>x\<in>set (rev (dropWhile ?P (rev before))). \<not> ?P x"
    by (rule rx_group[OF assms(1)])
  have el: "\<forall>x\<in>set (f # r). rx_elem_ok x" using assms(2) g(2) by (metis Un_iff set_append)
  have rf: "rx_rf f = 1"
    using False g(1,3,4) el by (cases "takeWhile ?P (rev before) = []")
      (auto simp: rx_before_def rx_elem_ok_def append_eq_Cons_conv)
  have fi: "filter ?P (before @ p # after) = f # filter ?P r"
    unfolding g(2)[symmetric] filter_append filter_False[OF g(6)] by (simp add: g(3))
  have there: "all_bytes_there (filter ?P (before @ p # after)) \<longleftrightarrow>
     rx_so f = 0 \<and> segments_complete (rx_sn p) (rx_size f) r"
    using segments_complete_group[OF g(4) el rf, unfolded g(3), OF g(5)]
    unfolding fi all_bytes_there_Cons by blast
  show ?thesis
    using False there mark_group[OF g(2,3,4,5,6)]
    unfolding rlc_am_rx_check_all_byte_segments_def Let_def g(1) by simp
qed

text \<open>
  (C28) When a segment has been stored, the whole group of stored segments of its PDU is marked
  as received exactly when at least two of them, from the first on, cover the PDU without a gap from
  offset 0 to a segment with the last segment flag; otherwise no mark changes, so that a single segment that
  covers the whole PDU is never marked. A PDU that is not segmented is marked at once, and
  in no case another PDU. The buffer is ordered and every stored PDU has at least one byte.
\<close>

theorem check_all_byte_segments_exact:
  assumes "sorted_wrt rx_before (before @ p # after)" "\<forall>x\<in>set (before @ p # after). rx_elem_ok x"
  shows "rlc_am_rx_check_all_byte_segments before p after =
    map (\<lambda>x. if rx_sn x = rx_sn p \<and>
           (rx_rf p = 0 \<or> all_bytes_there (filter (\<lambda>x. rx_sn x = rx_sn p) (before @ p # after)))
         then x\<lparr>all_segments_received := True\<rparr> else x) (before @ p # after)"
  by (rule check_byte_segments_marks[OF assms])

text \<open>The segment that fills the hole of the example completes PDU 3; without the first one it does not.\<close>

theorem check_all_byte_segments_exact_witness:
  "map all_segments_received (rlc_am_rx_check_all_byte_segments
     [rx_segment 3 0 0 [1, 2]] (rx_segment 3 2 0 [3]) [rx_segment 3 3 1 [4], rx_whole 5 [9]]) =
     [True, True, True, False] \<and>
   rlc_am_rx_check_all_byte_segments [] (rx_segment 3 2 0 [3]) [rx_segment 3 3 1 [4], rx_whole 5 [9]] =
     [rx_segment 3 2 0 [3], rx_segment 3 3 1 [4], rx_whole 5 [9]]"
proof -
  let ?a = "rx_segment 3 0 0 [1, 2]" and ?p = "rx_segment 3 2 0 [3]" and ?c = "rx_segment 3 3 1 [4]"
    and ?d = "rx_whole 5 [9]"
  have ok: "\<forall>x\<in>set ([?a] @ ?p # [?c, ?d]). rx_elem_ok x" "sorted_wrt rx_before ([?a] @ ?p # [?c, ?d])"
    "\<forall>x\<in>set ([] @ ?p # [?c, ?d]). rx_elem_ok x" "sorted_wrt rx_before ([] @ ?p # [?c, ?d])"
    by (simp_all add: rx_example_defs)
  have f: "filter (\<lambda>x. rx_sn x = rx_sn ?p) ([?a] @ ?p # [?c, ?d]) = ?a # [?p, ?c]"
    "filter (\<lambda>x. rx_sn x = rx_sn ?p) ([] @ ?p # [?c, ?d]) = ?p # [?c]"
    by (simp_all add: rx_example_defs)
  have t: "all_bytes_there (?a # [?p, ?c])" unfolding all_bytes_there_def
    by (intro exI[of _ "[?a, ?p, ?c]"] exI[of _ "[]"]) (simp add: rx_example_defs)
  have n: "\<not> all_bytes_there (?p # [?c])"
    unfolding all_bytes_there_Cons by (simp add: rx_example_defs)
  have "rlc_am_rx_check_all_byte_segments [?a] ?p [?c, ?d] =
      [?a\<lparr>all_segments_received := True\<rparr>, ?p\<lparr>all_segments_received := True\<rparr>, ?c\<lparr>all_segments_received := True\<rparr>, ?d]"
    using check_all_byte_segments_exact[OF ok(2,1)] t unfolding f(1) by (simp add: rx_example_defs)
  moreover have "rlc_am_rx_check_all_byte_segments [] ?p [?c, ?d] = [?p, ?c, ?d]"
    using check_all_byte_segments_exact[OF ok(4,3)] n unfolding f(2) by (simp add: rx_example_defs)
  ultimately show ?thesis by (simp add: rx_example_defs)
qed

end
