(* ===== verification/Sdu_Framing.thy ===== *)
theory Sdu_Framing
  imports Prelude
begin

text \<open>
  How SDUs are framed in the payloads of PDUs, for AM and UM alike: length indicators cut a payload into pieces, and
  pieces are read one after the other until an SDU ends. The two primitives of reassembly (append bytes,
  deliver) have the contract \<open>sdu_builder\<close>; over it the loop over the length indicators is proved once.
\<close>

text \<open>
  The loop over the length indicators; the two primitives are arguments. The bytes from the
  reading position on come back with the state.
\<close>

fun feed_lis ::
  "(byte list \<Rightarrow> int \<Rightarrow> 's \<Rightarrow> 's option) \<Rightarrow> ('s \<Rightarrow> 's option) \<Rightarrow> byte list \<Rightarrow> int list \<Rightarrow> 's
     \<Rightarrow> (byte list \<times> 's) option" where
  "feed_lis reas send src [] s = Some (src, s)"
| "feed_lis reas send src (l # ls) s =
     do { s1 \<leftarrow> reas src l s; s2 \<leftarrow> send s1; feed_lis reas send (drop (nat l) src) ls s2 }"

subsection \<open>Framing\<close>

text \<open>
  What a PDU says of its payload: the pieces cut by the length indicators, each with the flag that
  an SDU ends there; the rest ends one when the framing info says so. Reading pieces one after the
  other gives the SDUs that are complete and the bytes of the one that is not.
\<close>

fun cut :: "int list \<Rightarrow> byte list \<Rightarrow> bool \<Rightarrow> (byte list \<times> bool) list" where
  "cut [] bs fin = [(bs, fin)]"
| "cut (l # ls) bs fin = (take (nat l) bs, True) # cut ls (drop (nat l) bs) fin"

fun sdus_of :: "byte list \<Rightarrow> (byte list \<times> bool) list \<Rightarrow> byte list list \<times> byte list" where
  "sdus_of acc [] = ([], acc)"
| "sdus_of acc ((b, fin) # ps) =
     (if fin then (case sdus_of [] ps of (ds, r) \<Rightarrow> ((acc @ b) # ds, r)) else sdus_of (acc @ b) ps)"

lemma sdus_of_concat: "sdus_of acc ps = (ds, r) \<Longrightarrow> concat ds @ r = acc @ concat (map fst ps)"
  by (induction acc ps arbitrary: ds r rule: sdus_of.induct) (auto split: if_splits prod.splits)

lemma sdus_of_append:
  "sdus_of acc (ps @ qs) = (case sdus_of acc ps of (ds, r) \<Rightarrow> case sdus_of r qs of (ds', r') \<Rightarrow> (ds @ ds', r'))"
  by (induction acc ps rule: sdus_of.induct) (auto split: prod.splits)

lemma cut_concat: "concat (map fst (cut ls bs fin)) = bs"
  by (induction ls bs fin rule: cut.induct) auto

lemma cut_ne: "cut ls bs fin \<noteq> []"
  by (cases ls) auto

lemma sdus_of_grows: "sdus_of acc ps = (ds, r) \<Longrightarrow> \<exists>d\<in>set (ds @ [r]). length acc \<le> length d"
proof (induction acc ps arbitrary: ds r rule: sdus_of.induct)
  case (2 acc b fin ps)
  show ?case
  proof (cases fin)
    case False
    then have "\<exists>d\<in>set (ds @ [r]). length (acc @ b) \<le> length d" using 2 by auto
    then show ?thesis by fastforce
  qed (use 2 in \<open>auto split: prod.splits\<close>)
qed simp

subsection \<open>The contract of the primitives\<close>

locale sdu_builder =
  fixes reas :: "byte list \<Rightarrow> int \<Rightarrow> 's \<Rightarrow> 's option"
    and send :: "'s \<Rightarrow> 's option"
    and ok :: "'s \<Rightarrow> bool"
    and acc :: "'s \<Rightarrow> byte list"
    and out :: "'s \<Rightarrow> byte list list"
    and same :: "'s \<Rightarrow> 's \<Rightarrow> bool"
    and limit :: int
  assumes reas_appends: "ok s \<Longrightarrow> 0 < n \<Longrightarrow> n \<le> int (length src) \<Longrightarrow> int (length (acc s)) + n \<le> limit \<Longrightarrow>
      \<exists>s'. reas src n s = Some s' \<and> ok s' \<and> acc s' = acc s @ take (nat n) src \<and> out s' = out s \<and> same s s'"
    and send_delivers: "ok s \<Longrightarrow>
      \<exists>s'. send s = Some s' \<and> ok s' \<and> acc s' = [] \<and> out s' = out s @ (if acc s = [] then [] else [acc s]) \<and> same s s'"
    and same_refl: "same s s"
    and same_trans: "same s t \<Longrightarrow> same t u \<Longrightarrow> same s u"
begin

text \<open>The state \<open>s'\<close> comes from \<open>s\<close> by delivering \<open>ds\<close> and keeping \<open>r\<close>.\<close>

definition delivered :: "'s \<Rightarrow> byte list list \<times> byte list \<Rightarrow> 's \<Rightarrow> bool" where
  "delivered s dr s' \<longleftrightarrow> ok s' \<and> out s' = out s @ fst dr \<and> acc s' = snd dr \<and> same s s'"

lemma reas_send:
  assumes "ok s" "0 < n" "n \<le> int (length src)" "int (length (acc s)) + n \<le> limit"
  shows "\<exists>s1 s2. reas src n s = Some s1 \<and> send s1 = Some s2 \<and> delivered s ([acc s @ take (nat n) src], []) s2"
proof -
  obtain s1 where s1: "reas src n s = Some s1" "ok s1" "acc s1 = acc s @ take (nat n) src" "out s1 = out s" "same s s1"
    using reas_appends[OF assms] by blast
  have "acc s1 \<noteq> []" using s1(3) assms(2,3) by auto
  then obtain s2 where s2: "send s1 = Some s2" "ok s2" "acc s2 = []" "out s2 = out s1 @ [acc s1]" "same s1 s2"
    using send_delivers[OF s1(2)] by auto
  have "delivered s ([acc s @ take (nat n) src], []) s2"
    unfolding delivered_def using s1(3,4) s2 same_trans[OF s1(5) s2(5)] by simp
  then show ?thesis using s1(1) s2(1) by blast
qed

lemma feed_lis_delivers:
  assumes "ok s" "\<forall>l\<in>set ls. 0 < l" "sum_list ls < int (length src)"
    "sdus_of (acc s) (cut ls src fin) = (ds, r)" "\<forall>d\<in>set (ds @ [r]). int (length d) \<le> limit"
  shows "\<exists>s' src' ds'. feed_lis reas send src ls s = Some (src', s') \<and> src' = drop (nat (sum_list ls)) src \<and>
    delivered s (ds', acc s') s' \<and> sdus_of (acc s') [(src', fin)] = (drop (length ds') ds, r) \<and> ds' = take (length ds') ds"
  using assms
proof (induction ls arbitrary: s src ds)
  case Nil
  then show ?case using same_refl[of s]
    by (intro exI[of _ s] exI[of _ src] exI[of _ "[]"]) (simp add: delivered_def)
next
  case (Cons l ls)
  have sum: "0 \<le> sum_list ls" using Cons.prems(2) by (intro sum_list_nonneg) auto
  obtain ds1 where ds: "ds = (acc s @ take (nat l) src) # ds1" "sdus_of [] (cut ls (drop (nat l) src) fin) = (ds1, r)"
    using Cons.prems(4) by (auto split: prod.splits)
  have l: "0 < l" "l \<le> int (length src)" using Cons.prems(2,3) sum by auto
  moreover have "int (length (acc s)) + l \<le> limit" using Cons.prems(5) l ds(1) by (simp add: min_def split: if_splits)
  ultimately obtain s1 s2 where s: "reas src l s = Some s1" "send s1 = Some s2"
    "delivered s ([acc s @ take (nat l) src], []) s2"
    using reas_send[OF Cons.prems(1)] by blast
  have p: "ok s2" "acc s2 = []" using s(3) by (auto simp: delivered_def)
  obtain s' src' ds' where f: "feed_lis reas send (drop (nat l) src) ls s2 = Some (src', s')"
    "src' = drop (nat (sum_list ls)) (drop (nat l) src)" "delivered s2 (ds', acc s') s'"
    "sdus_of (acc s') [(src', fin)] = (drop (length ds') ds1, r)" "ds' = take (length ds') ds1"
    using Cons.IH[of s2 "drop (nat l) src" ds1] Cons.prems ds p l by auto
  have d: "delivered s ((acc s @ take (nat l) src) # ds', acc s') s'"
    using s(3) f(3) same_trans by (auto simp: delivered_def)
  show ?case
    using s f d ds(1) l sum
    by (intro exI[of _ s'] exI[of _ src'] exI[of _ "(acc s @ take (nat l) src) # ds'"])
      (simp add: nat_add_distrib add.commute)
qed

lemma feed_pdu_delivers:
  assumes "ok s" "\<forall>l\<in>set ls. 0 < l" "sum_list ls < int (length src)"
    "sdus_of (acc s) (cut ls src fin) = dr" "\<forall>d\<in>set (fst dr @ [snd dr]). int (length d) \<le> limit"
  shows "\<exists>s1 s2 src'. feed_lis reas send src ls s = Some (src', s1) \<and>
    reas src' (int (length src) - sum_list ls) s1 = Some s2 \<and>
    (if fin then \<exists>s3. send s2 = Some s3 \<and> delivered s dr s3 else delivered s dr s2)"
proof -
  obtain ds r where dr: "dr = (ds, r)" by fastforce
  have sum: "0 \<le> sum_list ls" using assms(2) by (intro sum_list_nonneg) auto
  obtain s1 src' ds' where f: "feed_lis reas send src ls s = Some (src', s1)" "src' = drop (nat (sum_list ls)) src"
    "delivered s (ds', acc s1) s1" "sdus_of (acc s1) [(src', fin)] = (drop (length ds') ds, r)" "ds' = take (length ds') ds"
    using feed_lis_delivers[OF assms(1,2,3), of fin ds r] assms(4,5) dr by auto
  let ?n = "int (length src) - sum_list ls"
  have n: "?n = int (length src')" "0 < ?n" using f(2) assms(3) sum by auto
  have ok1: "ok s1" using f(3) by (simp add: delivered_def)
  have "acc s1 @ src' \<in> set (drop (length ds') ds @ [r])"
  proof (cases fin)
    case True
    then have "drop (length ds') ds = [acc s1 @ src']" using f(4) by simp
    then show ?thesis by simp
  qed (use f(4) in simp)
  then have "acc s1 @ src' \<in> set (ds @ [r])" by (auto dest: in_set_dropD)
  then have "int (length (acc s1 @ src')) \<le> limit" using assms(5) unfolding dr fst_conv snd_conv by (rule bspec[rotated])
  then have lim: "int (length (acc s1)) + ?n \<le> limit" using n by simp
  obtain s2 where s2: "reas src' ?n s1 = Some s2" "ok s2" "acc s2 = acc s1 @ src'" "out s2 = out s1" "same s1 s2"
    using reas_appends[OF ok1 n(2) _ lim] n by force
  show ?thesis
  proof (cases fin)
    case True
    then have "ds = ds' @ [acc s1 @ src']" "r = []"
      using f(4,5) by (auto, metis append_take_drop_id)
    moreover obtain s3 where "send s2 = Some s3" "ok s3" "acc s3 = []" "out s3 = out s2 @ [acc s1 @ src']" "same s2 s3"
      using send_delivers[OF s2(2)] s2(3) n by auto
    moreover have "same s s2" using f(3) same_trans[OF _ s2(5)] unfolding delivered_def by blast
    ultimately have "delivered s dr s3"
      using f(3) s2(4) dr same_trans[of s s2 s3] unfolding delivered_def by simp
    then show ?thesis using f(1) s2(1) True \<open>send s2 = Some s3\<close> by auto
  next
    case False
    then have "ds = ds'" "r = acc s1 @ src'" using f(4,5) by auto
    then show ?thesis using f(1,3) s2 False dr same_trans by (auto simp: delivered_def)
  qed
qed

end

end
