(* ===== verification/Rlc_Am_Reassembly.thy ===== *)
theory Rlc_Am_Reassembly
  imports Rlc_Am_Rx_List Sdu_Framing
begin

text \<open>
  SDU reassembly: \<^verbatim>\<open>rlc_am_reassembly.c\<close> and the delivery loop
  \<^verbatim>\<open>rlc_am_rx_list_reassemble_rlc_sdus\<close> of \<^verbatim>\<open>rlc_am_rx_list.c\<close>.

  The SDU under construction is the list of the bytes written to it. A copy that would read
  beyond the received PDU, and the delivery of an empty SDU (\<^verbatim>\<open>AssertFatal\<close>), are \<open>None\<close>. What is
  handed to the upper layer (\<^verbatim>\<open>rlc_data_ind\<close>) goes to \<open>log_data_ind\<close>. Memory allocation is assumed
  to succeed, as the code does.

  The two primitives (append bytes, deliver) satisfy the contract \<open>sdu_builder\<close>. The properties say that the code delivers
  the SDUs that the framing of the PDUs describes, and that the delivery loop handles exactly the
  complete PDUs in sequence at the head of the buffer.
\<close>

subsection \<open>The operations\<close>

definition rlc_am_clear_rx_sdu :: "rlc_am_entity \<Rightarrow> rlc_am_entity" where
  "rlc_am_clear_rx_sdu e = e\<lparr>output_sdu_size_to_write := 0\<rparr>"

definition rlc_am_reassembly :: "byte list \<Rightarrow> int \<Rightarrow> rlc_am_entity \<Rightarrow> rlc_am_entity option" where
  "rlc_am_reassembly src n e =
     (let e1 = (if output_sdu_in_construction e = None
                then e\<lparr>output_sdu_in_construction := Some [], output_sdu_size_to_write := 0\<rparr> else e);
          size = output_sdu_size_to_write e1;
          sdu = the (output_sdu_in_construction e1)
      in if size + n \<le> RLC_SDU_MAX_SIZE then
           (if 0 \<le> n \<and> n \<le> int (length src) then
              Some (e1\<lparr>output_sdu_in_construction := Some (take (nat size) sdu @ take (nat n) src),
                output_sdu_size_to_write := size + n\<rparr>)
            else None)
         else Some (e1\<lparr>output_sdu_size_to_write := 0\<rparr>))"

definition rlc_am_send_sdu :: "rlc_am_entity \<Rightarrow> rlc_am_entity option" where
  "rlc_am_send_sdu e =
     (case output_sdu_in_construction e of
        None \<Rightarrow> Some e
      | Some sdu \<Rightarrow>
          if output_sdu_size_to_write e > 0 then
            Some (e\<lparr>stats := (stats e)\<lparr>stat_rx_pdcp_sdu := stat_rx_pdcp_sdu (stats e) + 1,
                stat_rx_pdcp_bytes := stat_rx_pdcp_bytes (stats e) + word_of_int (output_sdu_size_to_write e)\<rparr>,
              log_data_ind := log_data_ind e @ [take (nat (output_sdu_size_to_write e)) sdu],
              output_sdu_in_construction := None, output_sdu_size_to_write := 0\<rparr>)
          else None)"

definition rlc_am_reassemble_pdu :: "rlc_am_entity \<Rightarrow> rx_pdu \<Rightarrow> rlc_am_entity option" where
  "rlc_am_reassemble_pdu e x =
     (let i = pdu_info x; reas = rlc_am_reassembly (pi_payload i) (pi_payload_size i);
          lis = (\<lambda>e. feed_lis rlc_am_reassembly rlc_am_send_sdu (pi_payload i) (pi_li_list i) e)
      in if pi_e i = 0 then
           (if pi_fi i = 0 then do { e1 \<leftarrow> rlc_am_send_sdu e; e2 \<leftarrow> reas e1; rlc_am_send_sdu e2 }
            else if pi_fi i = 1 then do { e1 \<leftarrow> rlc_am_send_sdu e; reas e1 }
            else if pi_fi i = 2 then do { e1 \<leftarrow> reas e; rlc_am_send_sdu e1 }
            else reas e)
         else
           (if pi_fi i = 0 then do {
              e1 \<leftarrow> rlc_am_send_sdu e;
              (src, e2) \<leftarrow> lis e1;
              if pi_hidden_size i > 0
              then do { e3 \<leftarrow> rlc_am_reassembly src (pi_hidden_size i) e2; rlc_am_send_sdu e3 }
              else Some e2 }
            else if pi_fi i = 1 then do {
              e1 \<leftarrow> rlc_am_send_sdu e;
              (src, e2) \<leftarrow> lis e1;
              if pi_hidden_size i > 0 then rlc_am_reassembly src (pi_hidden_size i) e2 else Some e2 }
            else if pi_fi i = 2 then do {
              (src, e2) \<leftarrow> lis e;
              if pi_hidden_size i > 0
              then do { e3 \<leftarrow> rlc_am_reassembly src (pi_hidden_size i) e2; rlc_am_send_sdu e3 }
              else Some e2 }
            else do {
              (src, e2) \<leftarrow> lis e;
              if pi_hidden_size i > 0 then rlc_am_reassembly src (pi_hidden_size i) e2 else Some e2 }))"

text \<open>
  The delivery loop. The list is the reception buffer; the head is removed before it is
  reassembled, and the loop goes on with the next element when it has the next number, or the
  same one and its mark.
\<close>

fun reassemble_loop :: "rx_pdu list \<Rightarrow> rlc_am_entity \<Rightarrow> rlc_am_entity option" where
  "reassemble_loop [] e = Some e"
| "reassemble_loop (x # xs) e =
     (if all_segments_received x then do {
        e1 \<leftarrow> rlc_am_reassemble_pdu (e\<lparr>receiver_buffer := xs\<rparr>) x;
        case xs of
          [] \<Rightarrow> Some e1
        | y # _ \<Rightarrow>
            if rx_sn y = sn_mask (rx_sn x + 1) \<or> (rx_sn y = rx_sn x \<and> all_segments_received y)
            then reassemble_loop xs e1 else Some e1 }
      else Some e)"

definition rlc_am_rx_list_reassemble_rlc_sdus :: "rlc_am_entity \<Rightarrow> rlc_am_entity option" where
  "rlc_am_rx_list_reassemble_rlc_sdus e = reassemble_loop (receiver_buffer e) e"

subsection \<open>Framing\<close>

definition starts_sdu :: "rx_pdu \<Rightarrow> bool" where
  "starts_sdu x \<longleftrightarrow> pi_fi (pdu_info x) = 0 \<or> pi_fi (pdu_info x) = 1"

definition ends_sdu :: "rx_pdu \<Rightarrow> bool" where
  "ends_sdu x \<longleftrightarrow> pi_fi (pdu_info x) = 0 \<or> pi_fi (pdu_info x) = 2"

definition pieces :: "rx_pdu \<Rightarrow> (byte list \<times> bool) list" where
  "pieces x = cut (pi_li_list (pdu_info x)) (pi_payload (pdu_info x)) (ends_sdu x)"

text \<open>The SDUs that come out of one PDU after the bytes \<open>acc\<close> of an SDU, and the bytes left.\<close>

definition pdu_sdus_of :: "byte list \<Rightarrow> rx_pdu \<Rightarrow> byte list list \<times> byte list" where
  "pdu_sdus_of acc x =
     (case sdus_of (if starts_sdu x then [] else acc) (pieces x) of
        (ds, r) \<Rightarrow> ((if starts_sdu x \<and> acc \<noteq> [] then [acc] else []) @ ds, r))"

definition pdu_framed :: "rx_pdu \<Rightarrow> bool" where
  "pdu_framed x \<longleftrightarrow> (let i = pdu_info x in
     0 \<le> pi_fi i \<and> pi_fi i \<le> 3 \<and> (pi_e i = 0 \<longleftrightarrow> pi_li_list i = []) \<and>
     (\<forall>l\<in>set (pi_li_list i). 0 < l) \<and> sum_list (pi_li_list i) < pi_payload_size i \<and>
     pi_payload_size i = int (length (pi_payload i)) \<and>
     pi_hidden_size i = pi_payload_size i - sum_list (pi_li_list i))"

subsection \<open>The contract holds for the entity\<close>

definition sdu_state_ok :: "rlc_am_entity \<Rightarrow> bool" where
  "sdu_state_ok e \<longleftrightarrow> (case output_sdu_in_construction e of None \<Rightarrow> True
     | Some bs \<Rightarrow> bs \<noteq> [] \<and> output_sdu_size_to_write e = int (length bs))"

definition sdu_acc :: "rlc_am_entity \<Rightarrow> byte list" where
  "sdu_acc e = (case output_sdu_in_construction e of None \<Rightarrow> [] | Some bs \<Rightarrow> bs)"

text \<open>The entity without the fields reassembly works on.\<close>

definition rx_rest :: "rlc_am_entity \<Rightarrow> rlc_am_entity" where
  "rx_rest e = e\<lparr>output_sdu_in_construction := None, output_sdu_size_to_write := 0,
     stats := zero_stats, log_data_ind := []\<rparr>"

lemmas sdu_state_defs = sdu_state_ok_def sdu_acc_def rx_rest_def

lemma rx_rest_buffer [simp]: "(rx_rest e)\<lparr>receiver_buffer := receiver_buffer e\<rparr> = rx_rest e"
  by (simp add: rx_rest_def)

lemma receiver_buffer_rx_rest [simp]: "receiver_buffer (rx_rest e) = receiver_buffer e"
  by (simp add: rx_rest_def)

interpretation am_builder: sdu_builder rlc_am_reassembly rlc_am_send_sdu sdu_state_ok sdu_acc log_data_ind
  "\<lambda>e e'. rx_rest e' = rx_rest e" RLC_SDU_MAX_SIZE
proof unfold_locales
  fix e :: rlc_am_entity and n :: int and src :: "byte list"
  assume "sdu_state_ok e" "0 < n" "n \<le> int (length src)" "int (length (sdu_acc e)) + n \<le> RLC_SDU_MAX_SIZE"
  then show "\<exists>e'. rlc_am_reassembly src n e = Some e' \<and> sdu_state_ok e' \<and>
      sdu_acc e' = sdu_acc e @ take (nat n) src \<and> log_data_ind e' = log_data_ind e \<and> rx_rest e' = rx_rest e"
    by (cases "output_sdu_in_construction e")
      (auto simp: rlc_am_reassembly_def sdu_state_defs Let_def)
next
  fix e :: rlc_am_entity
  assume "sdu_state_ok e"
  then show "\<exists>e'. rlc_am_send_sdu e = Some e' \<and> sdu_state_ok e' \<and> sdu_acc e' = [] \<and>
      log_data_ind e' = log_data_ind e @ (if sdu_acc e = [] then [] else [sdu_acc e]) \<and> rx_rest e' = rx_rest e"
    by (cases "output_sdu_in_construction e") (auto simp: rlc_am_send_sdu_def sdu_state_defs)
qed auto

text \<open>
  The eight branches of the code are one scheme: deliver what is there when a new SDU starts, feed
  the pieces, deliver the last one when it ends an SDU.
\<close>

lemma reassemble_pdu_scheme:
  assumes "pdu_framed x"
  shows "rlc_am_reassemble_pdu e x = do {
     e1 \<leftarrow> (if starts_sdu x then rlc_am_send_sdu e else Some e);
     (src, e2) \<leftarrow> feed_lis rlc_am_reassembly rlc_am_send_sdu (pi_payload (pdu_info x)) (pi_li_list (pdu_info x)) e1;
     e3 \<leftarrow> rlc_am_reassembly src (int (length (pi_payload (pdu_info x))) - sum_list (pi_li_list (pdu_info x))) e2;
     (if ends_sdu x then rlc_am_send_sdu e3 else Some e3) }"
proof -
  let ?i = "pdu_info x"
  have fi: "pi_fi ?i = 0 \<or> pi_fi ?i = 1 \<or> pi_fi ?i = 2 \<or> pi_fi ?i = 3"
    and h: "pi_hidden_size ?i = int (length (pi_payload ?i)) - sum_list (pi_li_list ?i)" "0 < pi_hidden_size ?i"
      "pi_payload_size ?i = int (length (pi_payload ?i))"
    and e: "pi_e ?i = 0 \<longleftrightarrow> pi_li_list ?i = []"
    using assms by (auto simp: pdu_framed_def Let_def)
  show ?thesis
  proof (cases "pi_e ?i = 0")
    case True
    then have "pi_li_list ?i = []" using e by simp
    then show ?thesis using fi True
      by (elim disjE) (simp_all add: rlc_am_reassemble_pdu_def Let_def starts_sdu_def ends_sdu_def h(3))
  next
    case False
    then show ?thesis using fi h(2)
      by (elim disjE) (simp_all add: rlc_am_reassemble_pdu_def Let_def starts_sdu_def ends_sdu_def h(1)[symmetric])
  qed
qed

text \<open>
  The entity has delivered \<open>fst dr\<close>, keeps \<open>snd dr\<close>, and nothing but its reception buffer has
  changed besides.
\<close>

definition delivers :: "rlc_am_entity \<Rightarrow> byte list list \<times> byte list \<Rightarrow> rx_pdu list \<Rightarrow> rlc_am_entity \<Rightarrow> bool" where
  "delivers e dr buf e' \<longleftrightarrow> sdu_state_ok e' \<and> log_data_ind e' = log_data_ind e @ fst dr \<and>
     sdu_acc e' = snd dr \<and> rx_rest e' = (rx_rest e)\<lparr>receiver_buffer := buf\<rparr>"

lemma delivers_buffer:
  assumes "delivers e dr buf e'"
  shows "receiver_buffer e' = buf"
proof -
  have "receiver_buffer (rx_rest e') = buf" using assms by (simp add: delivers_def del: receiver_buffer_rx_rest)
  then show ?thesis by simp
qed

lemma reassemble_pdu_run:
  assumes "pdu_framed x" "sdu_state_ok e" "pdu_sdus_of (sdu_acc e) x = dr"
    "\<forall>d\<in>set (fst dr @ [snd dr]). int (length d) \<le> RLC_SDU_MAX_SIZE"
  shows "\<exists>e'. rlc_am_reassemble_pdu e x = Some e' \<and> delivers e dr (receiver_buffer e) e'"
proof -
  let ?i = "pdu_info x"
  let ?dr = "sdus_of (if starts_sdu x then [] else sdu_acc e) (cut (pi_li_list ?i) (pi_payload ?i) (ends_sdu x))"
  obtain e1 where e1: "(if starts_sdu x then rlc_am_send_sdu e else Some e) = Some e1" "sdu_state_ok e1"
    "sdu_acc e1 = (if starts_sdu x then [] else sdu_acc e)"
    "log_data_ind e1 = log_data_ind e @ (if starts_sdu x \<and> sdu_acc e \<noteq> [] then [sdu_acc e] else [])"
    "rx_rest e1 = rx_rest e"
    using am_builder.send_delivers[OF assms(2)] assms(2) by (cases "starts_sdu x") auto
  have fr: "\<forall>l\<in>set (pi_li_list ?i). 0 < l" "sum_list (pi_li_list ?i) < int (length (pi_payload ?i))"
    using assms(1) by (auto simp: pdu_framed_def Let_def)
  have lim: "\<forall>d\<in>set (fst ?dr @ [snd ?dr]). int (length d) \<le> RLC_SDU_MAX_SIZE"
    using assms(3,4) by (auto simp: pdu_sdus_of_def pieces_def split: prod.splits)
  show ?thesis
    using am_builder.feed_pdu_delivers[OF e1(2) fr, of "ends_sdu x" ?dr, unfolded e1(3), OF refl lim] e1
    unfolding reassemble_pdu_scheme[OF assms(1)] am_builder.delivered_def
    using assms(3) by (cases "ends_sdu x")
      (auto simp: pdu_sdus_of_def pieces_def delivers_def rx_rest_buffer split: prod.splits)
qed

text \<open>PDUs with framing for the examples.\<close>

definition rx_framed :: "int \<Rightarrow> int \<Rightarrow> int list \<Rightarrow> byte list \<Rightarrow> rx_pdu" where
  "rx_framed sn fi lis bs = \<lparr>pdu_info = \<lparr>pi_d_c = 1, pi_rf = 0, pi_p = 0, pi_fi = fi,
     pi_e = (if lis = [] then 0 else 1), pi_sn = sn, pi_lsf = 0, pi_so = 0, pi_li_list = lis,
     pi_hidden_size = int (length bs) - sum_list lis, pi_payload = bs,
     pi_payload_size = int (length bs), pi_header_size = 2\<rparr>, all_segments_received = True\<rparr>"

lemmas framed_example_defs = rx_framed_def pdu_framed_def sdu_state_defs zero_entity_def pdu_sdus_of_def
  pieces_def starts_sdu_def ends_sdu_def

subsection \<open>Delivery from the reception buffer\<close>

text \<open>
  The PDUs the loop takes: from the head, while they are complete and each has the number of the
  one before or the next one. The SDUs of a sequence of PDUs.
\<close>

fun ready_run :: "rx_pdu list \<Rightarrow> rx_pdu list" where
  "ready_run [] = []"
| "ready_run [x] = (if all_segments_received x then [x] else [])"
| "ready_run (x # y # xs) =
     (if all_segments_received x then
        x # (if rx_sn y = rx_sn x \<or> rx_sn y = sn_mask (rx_sn x + 1) then ready_run (y # xs) else [])
      else [])"

fun stream_sdus :: "byte list \<Rightarrow> rx_pdu list \<Rightarrow> byte list list \<times> byte list" where
  "stream_sdus acc [] = ([], acc)"
| "stream_sdus acc (x # xs) =
     (case pdu_sdus_of acc x of (ds, r) \<Rightarrow> case stream_sdus r xs of (ds', r') \<Rightarrow> (ds @ ds', r'))"

lemma pdu_sdus_of_concat:
  "pdu_sdus_of acc x = (ds, r) \<Longrightarrow> concat ds @ r = acc @ pi_payload (pdu_info x)"
  by (auto simp: pdu_sdus_of_def pieces_def cut_concat dest!: sdus_of_concat split: prod.splits if_splits)

lemma stream_sdus_concat:
  "stream_sdus acc xs = (ds, r) \<Longrightarrow> concat ds @ r = acc @ concat (map (\<lambda>x. pi_payload (pdu_info x)) xs)"
proof (induction xs arbitrary: acc ds r)
  case (Cons x xs)
  obtain d1 r1 d2 where d: "pdu_sdus_of acc x = (d1, r1)" "stream_sdus r1 xs = (d2, r)" "ds = d1 @ d2"
    using Cons.prems by (auto split: prod.splits)
  have "concat ds @ r = concat d1 @ r1 @ concat (map (\<lambda>x. pi_payload (pdu_info x)) xs)"
    using d(3) Cons.IH[OF d(2)] by simp
  then show ?case using arg_cong[OF pdu_sdus_of_concat[OF d(1)], of "\<lambda>z. z @ concat (map (\<lambda>x. pi_payload (pdu_info x)) xs)"]
    by simp
qed simp

text \<open>An incomplete next PDU ends the loop when it is looked at again.\<close>

lemma reassemble_loop_step:
  "reassemble_loop (x # xs) e =
     (if all_segments_received x then do {
        e1 \<leftarrow> rlc_am_reassemble_pdu (e\<lparr>receiver_buffer := xs\<rparr>) x;
        (if xs \<noteq> [] \<and> (rx_sn (hd xs) = rx_sn x \<or> rx_sn (hd xs) = sn_mask (rx_sn x + 1))
         then reassemble_loop xs e1 else Some e1) }
      else Some e)"
proof (cases xs)
  case (Cons a l)
  have "(if rx_sn a = sn_mask (rx_sn x + 1) \<or> rx_sn a = rx_sn x \<and> all_segments_received a
         then reassemble_loop (a # l) e1 else Some e1) =
        (if rx_sn a = rx_sn x \<or> rx_sn a = sn_mask (rx_sn x + 1) then reassemble_loop (a # l) e1 else Some e1)" for e1
    by (cases "all_segments_received a") auto
  then show ?thesis
    unfolding Cons reassemble_loop.simps(2)[of x "a # l"] by (simp del: reassemble_loop.simps)
qed simp

lemma ready_run_step:
  "ready_run (x # xs) =
     (if all_segments_received x then
        x # (if xs \<noteq> [] \<and> (rx_sn (hd xs) = rx_sn x \<or> rx_sn (hd xs) = sn_mask (rx_sn x + 1)) then ready_run xs else [])
      else [])"
  by (cases xs) auto

lemma pdu_sdus_of_grows: "pdu_sdus_of acc x = (ds, r) \<Longrightarrow> \<exists>d\<in>set (ds @ [r]). length acc \<le> length d"
  by (cases "acc = []")
    (auto simp: pdu_sdus_of_def dest!: sdus_of_grows split: prod.splits if_splits)

lemma stream_sdus_grows: "stream_sdus acc xs = (ds, r) \<Longrightarrow> \<exists>d\<in>set (ds @ [r]). length acc \<le> length d"
proof (induction xs arbitrary: acc ds r)
  case (Cons x xs)
  obtain d1 r1 d2 where d: "pdu_sdus_of acc x = (d1, r1)" "stream_sdus r1 xs = (d2, r)" "ds = d1 @ d2"
    using Cons.prems by (auto split: prod.splits)
  obtain a where a: "a \<in> set (d1 @ [r1])" "length acc \<le> length a" using pdu_sdus_of_grows[OF d(1)] by blast
  obtain b where b: "b \<in> set (d2 @ [r])" "length r1 \<le> length b" using Cons.IH[OF d(2)] by blast
  show ?case using a b d(3) by (cases "a = r1") (auto intro: le_trans)
qed simp

lemma reassemble_loop_delivers:
  assumes "\<forall>x\<in>set (ready_run xs). pdu_framed x" "sdu_state_ok e" "receiver_buffer e = xs"
    "stream_sdus (sdu_acc e) (ready_run xs) = dr"
    "\<forall>d\<in>set (fst dr @ [snd dr]). int (length d) \<le> RLC_SDU_MAX_SIZE"
  shows "\<exists>e'. reassemble_loop xs e = Some e' \<and> delivers e dr (drop (length (ready_run xs)) xs) e'"
  using assms
proof (induction xs arbitrary: e dr)
  case Nil
  then show ?case by (auto simp: delivers_def rx_rest_def)
next
  case (Cons x xs)
  show ?case
  proof (cases "all_segments_received x")
    case False
    then show ?thesis using Cons.prems(2-4) by (auto simp: delivers_def rx_rest_def reassemble_loop_step ready_run_step simp del: reassemble_loop.simps)
  next
    case True
    let ?go = "xs \<noteq> [] \<and> (rx_sn (hd xs) = rx_sn x \<or> rx_sn (hd xs) = sn_mask (rx_sn x + 1))"
    define more where "more = (if ?go then ready_run xs else [])"
    have run: "ready_run (x # xs) = x # more" using True by (simp add: ready_run_step more_def)
    obtain d1 r1 d2 r where d: "pdu_sdus_of (sdu_acc e) x = (d1, r1)" "stream_sdus r1 more = (d2, r)" "dr = (d1 @ d2, r)"
      using Cons.prems(4) unfolding run by (auto split: prod.splits)
    have lim: "\<forall>d\<in>set (d1 @ d2 @ [r]). int (length d) \<le> RLC_SDU_MAX_SIZE" using Cons.prems(5) d(3) by simp
    obtain b where b: "b \<in> set (d2 @ [r])" "length r1 \<le> length b" using stream_sdus_grows[OF d(2)] by blast
    then have "int (length r1) \<le> RLC_SDU_MAX_SIZE" using bspec[OF lim, of b] by auto
    then have r1: "\<forall>d\<in>set (fst (d1, r1) @ [snd (d1, r1)]). int (length d) \<le> RLC_SDU_MAX_SIZE" using lim by simp
    let ?e = "e\<lparr>receiver_buffer := xs\<rparr>"
    have ok: "sdu_state_ok ?e" "pdu_sdus_of (sdu_acc ?e) x = (d1, r1)"
      using Cons.prems(2) d(1) by (auto simp: sdu_state_defs split: option.splits)
    have "pdu_framed x" using Cons.prems(1) run by simp
    then obtain e1 where e1: "rlc_am_reassemble_pdu ?e x = Some e1" "delivers ?e (d1, r1) xs e1"
      using reassemble_pdu_run[OF _ ok r1] by auto
    have p: "sdu_state_ok e1" "sdu_acc e1 = r1" "receiver_buffer e1 = xs"
      using e1(2) delivers_buffer[OF e1(2)] by (simp_all add: delivers_def)
    have loop: "reassemble_loop (x # xs) e = (if ?go then reassemble_loop xs e1 else Some e1)"
      unfolding reassemble_loop_step using True e1(1) by simp
    show ?thesis
    proof (cases ?go)
      case go: True
      then have m: "more = ready_run xs" by (simp add: more_def)
      obtain e' where "reassemble_loop xs e1 = Some e'" "delivers e1 (d2, r) (drop (length (ready_run xs)) xs) e'"
        using Cons.IH[of e1 "(d2, r)"] p d(2) lim Cons.prems(1) unfolding run m by auto
      then show ?thesis using go loop e1(2) d(3) run m by (auto simp: delivers_def rx_rest_def)
    next
      case False
      then have m: "more = []" unfolding more_def by (rule if_not_P)
      then show ?thesis using False loop e1(2) d run by (auto simp: delivers_def rx_rest_def)
    qed
  qed
qed

text \<open>
  (C21) The delivery loop takes from the head of the reception buffer exactly the PDUs that are
  marked complete and in sequence and leaves the others. It delivers the SDUs their framing describes, in
  order and without losing a byte: what was kept before followed by the payloads of these PDUs is
  the delivered SDUs followed by what is kept now. State variables and timers do not change. This holds where the PDUs taken are well
  framed (every length indicator is positive and their sum is less than the payload) and no SDU, complete or begun, has more than the 9000 bytes
  of the reassembly buffer; an indicator 0 ends in an assertion and a longer SDU loses bytes.
\<close>

theorem reassemble_rlc_sdus_in_sequence:
  assumes "\<forall>x\<in>set (ready_run (receiver_buffer e)). pdu_framed x" "sdu_state_ok e"
    "stream_sdus (sdu_acc e) (ready_run (receiver_buffer e)) = (sdus, kept)"
    "\<forall>d\<in>set (sdus @ [kept]). int (length d) \<le> RLC_SDU_MAX_SIZE"
  shows "\<exists>e'. rlc_am_rx_list_reassemble_rlc_sdus e = Some e' \<and> sdu_state_ok e' \<and>
    log_data_ind e' = log_data_ind e @ sdus \<and> sdu_acc e' = kept \<and>
    concat sdus @ kept = sdu_acc e @ concat (map (\<lambda>x. pi_payload (pdu_info x)) (ready_run (receiver_buffer e))) \<and>
    receiver_buffer e' = drop (length (ready_run (receiver_buffer e))) (receiver_buffer e) \<and>
    rx_rest e' = (rx_rest e)\<lparr>receiver_buffer := receiver_buffer e'\<rparr>"
proof -
  obtain e' where e': "reassemble_loop (receiver_buffer e) e = Some e'"
    "delivers e (sdus, kept) (drop (length (ready_run (receiver_buffer e))) (receiver_buffer e)) e'"
    using reassemble_loop_delivers[OF assms(1,2) refl assms(3)] assms(4) by auto
  have "receiver_buffer e' = drop (length (ready_run (receiver_buffer e))) (receiver_buffer e)"
    by (rule delivers_buffer[OF e'(2)])
  then show ?thesis
    using e' stream_sdus_concat[OF assms(3)]
    by (auto simp: delivers_def rlc_am_rx_list_reassemble_rlc_sdus_def)
qed

text \<open>
  Two PDUs in sequence across the wrap of the numbers, a third one missing, a fourth one there:
  the SDU begun in the first PDU is delivered with the rest from the second.
\<close>

definition deliver_example :: rlc_am_entity where
  "deliver_example = zero_entity\<lparr>receiver_buffer :=
     [rx_framed 1023 1 [2] [1, 2, 3], rx_framed 0 2 [] [4, 5], rx_framed 2 0 [] [9]]\<rparr>"

theorem reassemble_rlc_sdus_in_sequence_witness:
  "\<exists>e'. rlc_am_rx_list_reassemble_rlc_sdus deliver_example = Some e' \<and>
     log_data_ind e' = [[1, 2], [3, 4, 5]] \<and> receiver_buffer e' = [rx_framed 2 0 [] [9]]"
proof -
  let ?e = deliver_example
  have run: "ready_run (receiver_buffer ?e) = [rx_framed 1023 1 [2] [1, 2, 3], rx_framed 0 2 [] [4, 5]]"
    by (simp add: deliver_example_def rx_framed_def sn_mask_mod)
  have st: "stream_sdus (sdu_acc ?e) (ready_run (receiver_buffer ?e)) = ([[1, 2], [3, 4, 5]], [])"
    unfolding run by (simp add: deliver_example_def framed_example_defs)
  have "\<forall>x\<in>set (ready_run (receiver_buffer ?e)). pdu_framed x" unfolding run by (simp add: framed_example_defs)
  moreover have "sdu_state_ok ?e" by (simp add: deliver_example_def framed_example_defs)
  ultimately obtain e' where "rlc_am_rx_list_reassemble_rlc_sdus ?e = Some e'"
    "log_data_ind e' = log_data_ind ?e @ [[1, 2], [3, 4, 5]]"
    "receiver_buffer e' = drop (length (ready_run (receiver_buffer ?e))) (receiver_buffer ?e)"
    using reassemble_rlc_sdus_in_sequence[OF _ _ st] by auto
  then show ?thesis unfolding run by (auto simp: deliver_example_def zero_entity_def)
qed

text \<open>
  Without the bounds the code aborts: a length indicator of 0 delivers an empty SDU, one beyond
  the payload reads behind the PDU.
\<close>

lemma empty_length_indicator_aborts:
  "rlc_am_reassemble_pdu zero_entity (rx_framed 0 0 [0] [1]) = None"
  by (simp add: rlc_am_reassemble_pdu_def rx_framed_def rlc_am_send_sdu_def rlc_am_reassembly_def zero_entity_def)

lemma long_length_indicator_overreads:
  "rlc_am_reassemble_pdu zero_entity (rx_framed 0 0 [5] [1]) = None"
  by (simp add: rlc_am_reassemble_pdu_def rx_framed_def rlc_am_send_sdu_def rlc_am_reassembly_def zero_entity_def)

end
