(* ===== verification/Rlc_Am_Header.thy ===== *)
theory Rlc_Am_Header
  imports Rlc_Am_Types
begin

text \<open>
  The header of an AMD PDU: \<^verbatim>\<open>rlc_am_get_data_pdu_infos\<close> of \<^verbatim>\<open>rlc_am_receiver.c\<close>.

  The decoder gets the bytes of the transport block and the size that goes with it; reading a byte
  the block does not have is \<open>None\<close>. The result is the return code (0, -1 for a control PDU, -2 for
  too many length indicators) and the decoded structure, whose payload is the rest of the block.
  The layout of 3GPP TS 36.322 is given as a reference encoder, and the decoder inverts it.
\<close>

definition zero_pdu_info :: rlc_am_pdu_info where
  "zero_pdu_info = \<lparr>pi_d_c = 0, pi_rf = 0, pi_p = 0, pi_fi = 0, pi_e = 0, pi_sn = 0, pi_lsf = 0, pi_so = 0,
     pi_li_list = [], pi_hidden_size = 0, pi_payload = [], pi_payload_size = 0, pi_header_size = 0\<rparr>"

text \<open>
  The two forms of a length indicator. They share a byte: the first form takes the first byte and
  the high half of the second, the second form the low half of the second byte and the third.
\<close>

definition li_first :: "byte \<Rightarrow> byte \<Rightarrow> int" where
  "li_first b1 b2 = uint (((push_bit 4 (ucast b1) :: u16) AND 0x07F0) OR (ucast (drop_bit 4 b2) AND 0x000F))"

definition li_second :: "byte \<Rightarrow> byte \<Rightarrow> int" where
  "li_second b2 b3 = uint (((push_bit 8 (ucast b2) :: u16) AND 0x0700) OR ucast b3)"

text \<open>
  The loop over the length indicators. \<open>bs\<close> are the bytes from \<^verbatim>\<open>e_li\<close> on and \<open>one\<close> tells that
  the second form comes next (\<^verbatim>\<open>li_length_in_bytes == 2\<close> before the exclusive or). The result is
  the return code, the indicators, their sum, the header size and the payload. The code stores an
  indicator before it compares their number with the 32 slots of \<^verbatim>\<open>li_list\<close>: a 33rd one is written
  behind the array, which is \<open>None\<close>, so that the code -2 behind it is never returned.
\<close>

function read_lis ::
  "byte list \<Rightarrow> bool \<Rightarrow> int list \<Rightarrow> int \<Rightarrow> int \<Rightarrow> (int \<times> int list \<times> int \<times> int \<times> byte list) option" where
  "read_lis bs one lis sum_li header_size =
     (if length bs < (if one then 3 else 2) \<or> int (length lis) \<ge> RLC_AM_MAX_SDU_IN_PDU then None
      else
        let li = (if one then li_second (bs ! 1) (bs ! 2) else li_first (bs ! 0) (bs ! 1));
            li_to_read = (if one then (bs ! 1) AND 0x08 \<noteq> 0 else (bs ! 0) AND 0x80 \<noteq> 0);
            lis' = lis @ [li];
            sum' = to_int16 (sum_li + li);
            hs' = header_size + (if one then 1 else 2);
            bs' = (if one then drop 3 bs else bs)
        in if int (length lis') > RLC_AM_MAX_SDU_IN_PDU then Some (- 2, lis', sum', hs', [])
           else if li_to_read then read_lis bs' (\<not> one) lis' sum' hs'
           else Some (0, lis', sum', hs', if one then bs' else drop 2 bs'))"
  by auto
termination
  by (relation "measure (\<lambda>(bs, one, lis, s, h). 33 - length lis)") (auto simp: Let_def)

declare read_lis.simps [simp del]

definition rlc_am_get_data_pdu_infos :: "byte list \<Rightarrow> int \<Rightarrow> (int \<times> rlc_am_pdu_info) option" where
  "rlc_am_get_data_pdu_infos bs total_size =
     do {
       c_assert (1 \<le> length bs);
       let b1 = bs ! 0;
       let i0 = zero_pdu_info\<lparr>pi_d_c := uint (drop_bit 7 b1)\<rparr>;
       if pi_d_c i0 \<noteq> 0 then
         do {
           c_assert (2 \<le> length bs);
           let i1 = i0\<lparr>pi_rf := uint (drop_bit 6 b1 AND 0x01), pi_p := uint (drop_bit 5 b1 AND 0x01),
             pi_fi := uint (drop_bit 3 b1 AND 0x03), pi_e := uint (drop_bit 2 b1 AND 0x01),
             pi_sn := uint (bs ! 1) + uint (push_bit 8 (ucast (b1 AND 0x03)) :: u16)\<rparr>;
           c_assert (pi_rf i1 = 0 \<or> 4 \<le> length bs);
           let i2 = (if pi_rf i1 \<noteq> 0
             then i1\<lparr>pi_lsf := uint (drop_bit 7 (bs ! 2) AND 0x01),
                pi_so := uint (bs ! 3) + uint (push_bit 8 (ucast (bs ! 2 AND 0x7F)) :: u16)\<rparr>
             else i1);
           let hs = (if pi_rf i1 \<noteq> 0 then 4 else 2);
           (rc, lis, sum_li, header_size, payload) \<leftarrow>
             (if pi_e i2 \<noteq> 0 then read_lis (drop (nat hs) bs) False [] 0 hs
              else Some (0, [], 0, hs, drop (nat hs) bs));
           let i3 = i2\<lparr>pi_li_list := lis, pi_header_size := header_size\<rparr>;
           if rc < 0 then Some (rc, i3)
           else
             let payload_size = to_int16 (total_size - header_size)
             in Some (0, i3\<lparr>pi_payload := payload, pi_payload_size := payload_size,
                  pi_hidden_size := (if payload_size > sum_li then to_int16 (payload_size - sum_li) else 0)\<rparr>)
         }
       else Some (- 1, i0)
     }"

subsection \<open>The layout\<close>

fun li_bytes :: "int list \<Rightarrow> byte list" where
  "li_bytes [] = []"
| "li_bytes [l] = [word_of_int (l div 16), word_of_int (l mod 16 * 16)]"
| "li_bytes (l # m # ls) =
     [word_of_int (128 + l div 16),
      word_of_int (l mod 16 * 16 + (if ls \<noteq> [] then 8 else 0) + m div 256), word_of_int (m mod 256)] @
     li_bytes ls"

definition header_bytes :: "rlc_am_pdu_info \<Rightarrow> byte list" where
  "header_bytes i =
     [word_of_int (128 + 64 * pi_rf i + 32 * pi_p i + 8 * pi_fi i + 4 * pi_e i + pi_sn i div 256),
      word_of_int (pi_sn i mod 256)] @
     (if pi_rf i = 1 then [word_of_int (128 * pi_lsf i + pi_so i div 256), word_of_int (pi_so i mod 256)] else []) @
     li_bytes (pi_li_list i)"

definition header_ok :: "rlc_am_pdu_info \<Rightarrow> bool" where
  "header_ok i \<longleftrightarrow> pi_d_c i = 1 \<and> pi_rf i \<in> {0, 1} \<and> pi_p i \<in> {0, 1} \<and> pi_fi i \<in> {0, 1, 2, 3} \<and>
     pi_e i = (if pi_li_list i = [] then 0 else 1) \<and> 0 \<le> pi_sn i \<and> pi_sn i < 1024 \<and>
     (if pi_rf i = 1 then pi_lsf i \<in> {0, 1} \<and> 0 \<le> pi_so i \<and> pi_so i < 32768 else pi_lsf i = 0 \<and> pi_so i = 0) \<and>
     length (pi_li_list i) \<le> 32 \<and> (\<forall>l\<in>set (pi_li_list i). 0 \<le> l \<and> l < 2048) \<and>
     sum_list (pi_li_list i) < pi_payload_size i \<and>
     pi_payload_size i = int (length (pi_payload i)) \<and>
     pi_hidden_size i = pi_payload_size i - sum_list (pi_li_list i) \<and>
     pi_header_size i = int (length (header_bytes i)) \<and>
     pi_header_size i + pi_payload_size i < 32768"

subsection \<open>Fields of a byte\<close>

lemma uint_byte: "0 \<le> n \<Longrightarrow> n < 256 \<Longrightarrow> uint (word_of_int n :: byte) = n"
  by (simp add: uint_word_of_int mod_pos_pos_trivial)

lemma byte_range: "0 \<le> uint (b :: byte)" "uint (b :: byte) < 256"
  using uint_lt2p[of b] by simp_all

lemma and_mask_mod: "(x::int) AND (2 ^ n - 1) = x mod 2 ^ n"
  by (simp only: take_bit_eq_mod [symmetric] take_bit_eq_mask mask_eq_exp_minus_1)

lemmas and_low_bits = and_mask_mod[of _ 1, simplified] and_mask_mod[of _ 2, simplified]
  and_mask_mod[of _ 3, simplified] and_mask_mod[of _ 4, simplified] and_mask_mod[of _ 7, simplified]

lemma uint_drop_byte: "uint (drop_bit k (b :: byte)) = uint b div 2 ^ k"
  using byte_range[of b] unfolding unsigned_drop_bit_eq by (simp add: take_bit_int_eq_self drop_bit_eq_div)

lemma uint_widened: "uint (ucast (b :: byte) :: u16) = uint b"
  using byte_range[of b] unfolding unsigned_ucast_eq by (simp add: take_bit_int_eq_self)

lemma uint_shifted:
  assumes "k \<le> 8"
  shows "uint (push_bit k (ucast (b :: byte)) :: u16) = push_bit k (uint b)"
proof -
  have "(2::int) ^ k \<le> 2 ^ 8" using assms by (intro power_increasing) auto
  then have "uint b * 2 ^ k < 256 * 2 ^ 8"
    using byte_range[of b] by (intro mult_less_le_imp_less) auto
  then show ?thesis
    unfolding unsigned_push_bit_eq uint_widened
    using byte_range[of b] by (simp add: take_bit_int_eq_self push_bit_eq_mult)
qed

lemma uint_shift8: "uint (push_bit 8 (ucast (b :: byte)) :: u16) = uint b * 256"
  unfolding uint_shifted[of 8, simplified] by (simp add: push_bit_eq_mult)

lemma li_first_eq: "li_first b1 b2 = uint b1 mod 128 * 16 + uint b2 div 16"
proof -
  have s: "push_bit 4 (uint b1) AND 2032 = push_bit 4 (uint b1 mod 128)"
  proof -
    have "push_bit 4 (uint b1) AND 2032 = push_bit 4 (uint b1 AND 127)"
      unfolding push_bit_and by (simp add: push_bit_eq_mult)
    then show ?thesis by (simp only: and_low_bits)
  qed
  have d: "uint b2 div 16 mod 16 = uint b2 div 16" using byte_range[of b2] by (intro mod_pos_pos_trivial) (auto simp: pos_imp_zdiv_nonneg_iff)
  have "li_first b1 b2 = (push_bit 4 (uint b1) AND 2032) OR (uint b2 div 16 AND 15)"
    unfolding li_first_def unsigned_or_eq unsigned_and_eq uint_widened uint_drop_byte
    by (simp add: uint_shifted)
  also have "\<dots> = (uint b2 div 16) OR push_bit 4 (uint b1 mod 128)"
    unfolding s and_low_bits d by (rule or.commute)
  also have "\<dots> = uint b2 div 16 + uint b1 mod 128 * 2 ^ 4"
    using byte_range[of b2] by (intro or_push_bit_add) (auto simp: pos_imp_zdiv_nonneg_iff)
  finally show ?thesis by simp
qed

lemma li_second_eq: "li_second b2 b3 = uint b2 mod 8 * 256 + uint b3"
proof -
  have s: "push_bit 8 (uint b2) AND 1792 = push_bit 8 (uint b2 mod 8)"
  proof -
    have "push_bit 8 (uint b2) AND 1792 = push_bit 8 (uint b2 AND 7)"
      unfolding push_bit_and by (simp add: push_bit_eq_mult)
    then show ?thesis by (simp only: and_low_bits)
  qed
  have "li_second b2 b3 = (push_bit 8 (uint b2) AND 1792) OR uint b3"
    unfolding li_second_def unsigned_or_eq unsigned_and_eq uint_widened by (simp add: uint_shifted)
  also have "\<dots> = uint b3 OR push_bit 8 (uint b2 mod 8)" unfolding s by (rule or.commute)
  also have "\<dots> = uint b3 + uint b2 mod 8 * 2 ^ 8" using byte_range[of b3] by (intro or_push_bit_add) auto
  finally show ?thesis by simp
qed

lemma bit_of_byte: "(b :: byte) AND 0x80 \<noteq> 0 \<longleftrightarrow> 128 \<le> uint b" "(b :: byte) AND 0x08 \<noteq> 0 \<longleftrightarrow> odd (uint b div 8)"
proof -
  have bits: "bit b n \<longleftrightarrow> odd (uint b div 2 ^ n)" if "n < 8" for n
    using that bit_uint_iff[of b n] bit_iff_odd[of "uint b" n] by simp
  from bits[of 3] show "b AND 0x08 \<noteq> 0 \<longleftrightarrow> odd (uint b div 8)"
    using and_exp_eq_0_iff_not_bit[of b 3] by simp
  have "odd (x div 128) \<longleftrightarrow> 128 \<le> x" if "0 \<le> x" "x < 256" for x :: int
    using that int_div_pos_eq[of x 128 1 "x - 128"] by (cases "128 \<le> x") auto
  then show "b AND 0x80 \<noteq> 0 \<longleftrightarrow> 128 \<le> uint b"
    using bits[of 7] and_exp_eq_0_iff_not_bit[of b 7] byte_range[of b] by simp
qed

subsection \<open>The decoder inverts the layout\<close>

lemma li_div_mod:
  fixes l :: int
  assumes "0 \<le> l" "l < 2048"
  shows "0 \<le> l div 16" "l div 16 < 128" "0 \<le> l mod 16 * 16" "l mod 16 * 16 \<le> 240"
    "0 \<le> l div 256" "l div 256 < 8" "0 \<le> l mod 256" "l mod 256 < 256"
  using assms by (auto simp: pos_imp_zdiv_nonneg_iff)

lemma read_li_first:
  assumes "0 \<le> l" "l < 2048" "c \<in> {0, 1}" "0 \<le> r" "r < 16"
  defines "b1 \<equiv> word_of_int (128 * c + l div 16) :: byte" and "b2 \<equiv> word_of_int (l mod 16 * 16 + r) :: byte"
  shows "li_first b1 b2 = l" "b1 AND 0x80 \<noteq> 0 \<longleftrightarrow> c = 1" "uint b2 mod 16 = r"
proof -
  note lm = li_div_mod[OF assms(1,2)]
  have c01: "0 \<le> c" "c \<le> 1" using assms(3) by auto
  have rg: "0 \<le> 128 * c + l div 16" "128 * c + l div 16 < 256" "0 \<le> l mod 16 * 16 + r" "l mod 16 * 16 + r < 256"
    using c01 assms(4,5) lm by linarith+
  have u: "uint b1 = 128 * c + l div 16" "uint b2 = l mod 16 * 16 + r"
    unfolding b1_def b2_def by (rule uint_byte; fact rg)+
  show "li_first b1 b2 = l"
    unfolding li_first_eq u using assms(3-5) lm by auto
  show "b1 AND 0x80 \<noteq> 0 \<longleftrightarrow> c = 1" unfolding bit_of_byte u using assms(3) lm by auto
  show "uint b2 mod 16 = r" unfolding u using assms(4,5) by simp
qed

lemma read_li_second:
  assumes "0 \<le> l" "l < 2048" "c \<in> {0, 1}" "uint b2 mod 16 = 8 * c + l div 256"
  shows "li_second b2 (word_of_int (l mod 256)) = l" "b2 AND 0x08 \<noteq> 0 \<longleftrightarrow> c = 1"
proof -
  note lm = li_div_mod[OF assms(1,2)]
  have "uint b2 mod 8 = uint b2 mod 16 mod 8" by (simp add: mod_mod_cancel)
  also have "\<dots> = l div 256" unfolding assms(4) using assms(3) lm by auto
  finally have m8: "uint b2 mod 8 = l div 256" .
  have "uint b2 mod 16 = 8 * (uint b2 div 8 mod 2) + uint b2 mod 8"
    using zmod_zmult2_eq[of 2 "uint b2" 8] by simp
  then have "odd (uint b2 div 8) \<longleftrightarrow> 8 \<le> uint b2 mod 16" 
    using pos_mod_bound[of 8 "uint b2"] pos_mod_sign[of 8 "uint b2"] mod2_eq_if[of "uint b2 div 8"]
    by (simp split: if_splits)
  then show "b2 AND 0x08 \<noteq> 0 \<longleftrightarrow> c = 1" unfolding bit_of_byte assms(4) using assms(3) lm by auto
  show "li_second b2 (word_of_int (l mod 256)) = l"
    unfolding li_second_eq m8 using lm by (simp add: uint_byte)
qed

lemma read_lis_step:
  assumes "length bs \<ge> (if one then 3 else 2)" "length lis < 32"
    "li = (if one then li_second (bs ! 1) (bs ! 2) else li_first (bs ! 0) (bs ! 1))"
    "0 \<le> li" "0 \<le> s" "s + li < 32768"
  shows "read_lis bs one lis s h =
    (if (if one then (bs ! 1) AND 0x08 \<noteq> 0 else (bs ! 0) AND 0x80 \<noteq> 0)
     then read_lis (if one then drop 3 bs else bs) (\<not> one) (lis @ [li]) (s + li) (h + (if one then 1 else 2))
     else Some (0, lis @ [li], s + li, h + (if one then 1 else 2), if one then drop 3 bs else drop 2 bs))"
  unfolding read_lis.simps[of bs one] using assms by (cases one) (simp_all add: Let_def to_int16_id)

lemma read_lis_li_bytes:
  assumes "ls \<noteq> []" "\<forall>l\<in>set ls. 0 \<le> l \<and> l < 2048" "length acc + length ls \<le> 32" "0 \<le> s" "s + sum_list ls < 32768"
  shows "read_lis (li_bytes ls @ pl) False acc s h =
    Some (0, acc @ ls, s + sum_list ls, h + int (length (li_bytes ls)), pl)"
  using assms
proof (induction ls arbitrary: acc s h rule: li_bytes.induct)
  case (2 l)
  then have l: "0 \<le> l" "l < 2048" by auto
  note r = read_li_first[OF l, of 0 0, simplified]
  show ?case
    using 2 r by (subst read_lis_step[where li = l]) auto
next
  case (3 l m ls)
  define c where "c = (if ls \<noteq> [] then 1 else 0 :: int)"
  define b1 b2 b3 where "b1 = (word_of_int (128 * 1 + l div 16) :: byte)"
    and "b2 = (word_of_int (l mod 16 * 16 + (8 * c + m div 256)) :: byte)" and "b3 = (word_of_int (m mod 256) :: byte)"
  have l: "0 \<le> l" "l < 2048" and m: "0 \<le> m" "m < 2048" using "3.prems"(2) by auto
  have c: "c \<in> {0, 1}" by (simp add: c_def)
  have ls: "0 \<le> sum_list ls" using "3.prems"(2) by (intro sum_list_nonneg) auto
  have "0 \<le> c" "c \<le> 1" by (auto simp: c_def)
  then have rm: "0 \<le> 8 * c + m div 256" "8 * c + m div 256 < 16" using li_div_mod(5,6)[OF m] by linarith+
  have r1: "li_first b1 b2 = l" "b1 AND 0x80 \<noteq> 0" "uint b2 mod 16 = 8 * c + m div 256"
    using read_li_first[OF l _ rm, of 1] unfolding b1_def b2_def by simp_all
  have r2: "li_second b2 b3 = m" "b2 AND 0x08 \<noteq> 0 \<longleftrightarrow> ls \<noteq> []"
    using read_li_second[OF m c r1(3)] unfolding b3_def c_def by auto
  have bytes: "li_bytes (l # m # ls) = b1 # b2 # b3 # li_bytes ls"
    by (simp add: b1_def b2_def b3_def c_def add.assoc del: of_int_add of_int_mult)
  have s1: "read_lis (b1 # b2 # b3 # r) False acc s h = read_lis (b1 # b2 # b3 # r) True (acc @ [l]) (s + l) (h + 2)" for r
    using r1 l m ls "3.prems"(3-5) by (subst read_lis_step[where li = l]) auto
  have s2: "read_lis (b1 # b2 # b3 # r) True (acc @ [l]) (s + l) (h + 2) =
     (if ls \<noteq> [] then read_lis r False (acc @ [l, m]) (s + l + m) (3 + h)
      else Some (0, acc @ [l, m], s + l + m, 3 + h, r))" for r
    using r2 l m ls "3.prems"(3-5) by (subst read_lis_step[where li = m]) auto
  show ?case
  proof (cases "ls = []")
    case True
    then show ?thesis unfolding bytes by (simp add: s1 s2)
  next
    case False
    have "read_lis (li_bytes ls @ pl) False (acc @ [l, m]) (s + l + m) (3 + h) =
       Some (0, (acc @ [l, m]) @ ls, s + l + m + sum_list ls, 3 + h + int (length (li_bytes ls)), pl)"
      using False "3.prems" l m by (intro "3.IH") auto
    then show ?thesis unfolding bytes append_Cons s1 s2 using False by simp
  qed
qed simp

lemma first_byte_fields:
  fixes b :: byte
  assumes "header_ok i" "uint b = 128 + 64 * pi_rf i + 32 * pi_p i + 8 * pi_fi i + 4 * pi_e i + pi_sn i div 256"
  shows "uint (drop_bit 7 b) = 1" "uint (drop_bit 6 b AND 0x01) = pi_rf i" "uint (drop_bit 5 b AND 0x01) = pi_p i"
    "uint (drop_bit 3 b AND 0x03) = pi_fi i" "uint (drop_bit 2 b AND 0x01) = pi_e i"
    "uint (push_bit 8 (ucast (b AND 0x03)) :: u16) = pi_sn i div 256 * 256"
proof -
  define q where "q = pi_sn i div 256"
  have q: "q \<in> {0, 1, 2, 3}" using assms(1) unfolding q_def header_ok_def by (auto simp: pos_imp_zdiv_nonneg_iff)
  have f: "pi_rf i \<in> {0, 1}" "pi_p i \<in> {0, 1}" "pi_fi i \<in> {0, 1, 2, 3}" "pi_e i \<in> {0, 1}"
    using assms(1) unfolding header_ok_def by (auto split: if_splits)
  note u = assms(2)[folded q_def]
  have fa: "uint (drop_bit 7 b) = uint b div 128" "uint (drop_bit 6 b AND 0x01) = uint b div 64 mod 2"
    "uint (drop_bit 5 b AND 0x01) = uint b div 32 mod 2" "uint (drop_bit 3 b AND 0x03) = uint b div 8 mod 4"
    "uint (drop_bit 2 b AND 0x01) = uint b div 4 mod 2" "uint (b AND 0x03) = uint b mod 4"
    unfolding unsigned_and_eq uint_drop_byte by (simp_all add: and_low_bits)
  have va: "uint b div 128 = 1" "uint b div 64 mod 2 = pi_rf i" "uint b div 32 mod 2 = pi_p i"
    "uint b div 8 mod 4 = pi_fi i" "uint b div 4 mod 2 = pi_e i" "uint b mod 4 = q"
  proof -
    have r01: "x \<in> {0, 1} \<Longrightarrow> 0 \<le> x \<and> x \<le> 1" "x \<in> {0, 1, 2, 3} \<Longrightarrow> 0 \<le> x \<and> x \<le> 3" for x :: int by auto
    have r: "0 \<le> q" "q \<le> 3" "0 \<le> pi_rf i" "pi_rf i \<le> 1" "0 \<le> pi_p i" "pi_p i \<le> 1" "0 \<le> pi_fi i" "pi_fi i \<le> 3"
      "0 \<le> pi_e i" "pi_e i \<le> 1"
      using r01(2)[OF q] r01(1)[OF f(1)] r01(1)[OF f(2)] r01(2)[OF f(3)] r01(1)[OF f(4)] by blast+
    show "uint b div 128 = 1" unfolding u
      by (rule int_div_pos_eq[where r = "64 * pi_rf i + 32 * pi_p i + 8 * pi_fi i + 4 * pi_e i + q"]) (use r in \<open>simp_all add: algebra_simps\<close>)
    have "uint b div 64 = 2 * 1 + pi_rf i" unfolding u
      by (rule int_div_pos_eq[where r = "32 * pi_p i + 8 * pi_fi i + 4 * pi_e i + q"]) (use r in \<open>simp_all add: algebra_simps\<close>)
    then show "uint b div 64 mod 2 = pi_rf i" by (rule int_mod_pos_eq) (use r in simp_all)
    have "uint b div 32 = 2 * (2 + pi_rf i) + pi_p i" unfolding u
      by (rule int_div_pos_eq[where r = "8 * pi_fi i + 4 * pi_e i + q"]) (use r in \<open>simp_all add: algebra_simps\<close>)
    then show "uint b div 32 mod 2 = pi_p i" by (rule int_mod_pos_eq) (use r in simp_all)
    have "uint b div 8 = 4 * (4 + 2 * pi_rf i + pi_p i) + pi_fi i" unfolding u
      by (rule int_div_pos_eq[where r = "4 * pi_e i + q"]) (use r in \<open>simp_all add: algebra_simps\<close>)
    then show "uint b div 8 mod 4 = pi_fi i" by (rule int_mod_pos_eq) (use r in simp_all)
    have "uint b div 4 = 2 * (16 + 8 * pi_rf i + 4 * pi_p i + pi_fi i) + pi_e i" unfolding u
      by (rule int_div_pos_eq[where r = q]) (use r in \<open>simp_all add: algebra_simps\<close>)
    then show "uint b div 4 mod 2 = pi_e i" by (rule int_mod_pos_eq) (use r in simp_all)
    have "uint b = 4 * (32 + 16 * pi_rf i + 8 * pi_p i + 2 * pi_fi i + pi_e i) + q" unfolding u by simp
    then show "uint b mod 4 = q" by (rule int_mod_pos_eq) (use r in simp_all)
  qed
  show "uint (drop_bit 7 b) = 1" "uint (drop_bit 6 b AND 0x01) = pi_rf i" "uint (drop_bit 5 b AND 0x01) = pi_p i"
    "uint (drop_bit 3 b AND 0x03) = pi_fi i" "uint (drop_bit 2 b AND 0x01) = pi_e i"
    "uint (push_bit 8 (ucast (b AND 0x03)) :: u16) = pi_sn i div 256 * 256"
    unfolding uint_shift8 by (simp_all only: fa va q_def)
qed

lemma segment_byte_fields:
  fixes b :: byte
  assumes "lsf \<in> {0, 1}" "0 \<le> so" "so < 32768" "uint b = 128 * lsf + so div 256"
  shows "uint (drop_bit 7 b AND 0x01) = lsf" "uint (push_bit 8 (ucast (b AND 0x7F)) :: u16) = so div 256 * 256"
proof -
  have q: "0 \<le> so div 256" "so div 256 < 128" using assms(2,3) by (auto simp: pos_imp_zdiv_nonneg_iff)
  have "uint (drop_bit 7 b AND 0x01) = uint b div 128 mod 2" "uint (b AND 0x7F) = uint b mod 128"
    unfolding unsigned_and_eq uint_drop_byte by (simp_all add: and_low_bits)
  moreover have "uint b div 128 mod 2 = lsf" "uint b mod 128 = so div 256"
    using assms(1) q unfolding assms(4) by auto
  ultimately show "uint (drop_bit 7 b AND 0x01) = lsf" "uint (push_bit 8 (ucast (b AND 0x7F)) :: u16) = so div 256 * 256"
    unfolding uint_shift8 by simp_all
qed

text \<open>The part of the decoder behind the fixed fields.\<close>

lemma read_rest:
  assumes "header_ok i"
  shows "(if pi_e i \<noteq> 0 then read_lis (li_bytes (pi_li_list i) @ pl) False [] 0 hs
      else Some (0, [], 0, hs, li_bytes (pi_li_list i) @ pl)) =
    Some (0, pi_li_list i, sum_list (pi_li_list i), hs + int (length (li_bytes (pi_li_list i))), pl)"
proof (cases "pi_li_list i = []")
  case False
  then show ?thesis
    using assms read_lis_li_bytes[of "pi_li_list i" "[]" 0 pl hs] by (auto simp: header_ok_def)
qed (use assms in \<open>simp add: header_ok_def\<close>)

lemma decode_header_bytes:
  assumes "header_ok i"
  shows "rlc_am_get_data_pdu_infos (header_bytes i @ pi_payload i) (pi_header_size i + pi_payload_size i) = Some (0, i)"
proof -
  have q: "0 \<le> pi_sn i div 256" "pi_sn i div 256 < 4" using assms by (auto simp: header_ok_def pos_imp_zdiv_nonneg_iff)
  have f: "pi_rf i \<in> {0, 1}" "pi_p i \<in> {0, 1}" "pi_fi i \<in> {0, 1, 2, 3}" "pi_e i \<in> {0, 1}"
    using assms unfolding header_ok_def by (auto split: if_splits)
  define b1 b2 where "b1 = (word_of_int (128 + 64 * pi_rf i + 32 * pi_p i + 8 * pi_fi i + 4 * pi_e i + pi_sn i div 256) :: byte)"
    and "b2 = (word_of_int (pi_sn i mod 256) :: byte)"
  have u1: "uint b1 = 128 + 64 * pi_rf i + 32 * pi_p i + 8 * pi_fi i + 4 * pi_e i + pi_sn i div 256"
    unfolding b1_def by (rule uint_byte) (use f q in auto)
  have u2: "uint b2 = pi_sn i mod 256" unfolding b2_def by (rule uint_byte) auto
  note ff = first_byte_fields[OF assms u1]
  have rest: "pi_e i \<noteq> 0 \<Longrightarrow> read_lis (li_bytes (pi_li_list i) @ pi_payload i) False [] 0 hs =
      Some (0, pi_li_list i, sum_list (pi_li_list i), hs + int (length (li_bytes (pi_li_list i))), pi_payload i)"
    "pi_e i = 0 \<Longrightarrow> pi_li_list i = []" for hs
    using read_rest[OF assms, of "pi_payload i" hs] assms by (auto simp: header_ok_def split: if_splits)
  have fields: "pi_d_c i = 1" "\<not> pi_rf i = 1 \<Longrightarrow> pi_lsf i = 0" "\<not> pi_rf i = 1 \<Longrightarrow> pi_so i = 0"
    "pi_hidden_size i = pi_payload_size i - sum_list (pi_li_list i)" using assms by (auto simp: header_ok_def)
  have sizes: "pi_header_size i = int (length (header_bytes i))" "sum_list (pi_li_list i) < pi_payload_size i"
    "to_int16 (pi_payload_size i) = pi_payload_size i"
    "to_int16 (pi_payload_size i - sum_list (pi_li_list i)) = pi_payload_size i - sum_list (pi_li_list i)"
  proof -
    have "0 \<le> sum_list (pi_li_list i)" using assms by (intro sum_list_nonneg) (simp add: header_ok_def)
    then show "pi_header_size i = int (length (header_bytes i))" "sum_list (pi_li_list i) < pi_payload_size i"
      "to_int16 (pi_payload_size i) = pi_payload_size i"
      "to_int16 (pi_payload_size i - sum_list (pi_li_list i)) = pi_payload_size i - sum_list (pi_li_list i)"
      using assms unfolding header_ok_def by (simp_all add: to_int16_id)
  qed
  show ?thesis
  proof (cases "pi_rf i = 1")
    case True
    define b3 b4 where "b3 = (word_of_int (128 * pi_lsf i + pi_so i div 256) :: byte)"
      and "b4 = (word_of_int (pi_so i mod 256) :: byte)"
    have sg: "pi_lsf i \<in> {0, 1}" "0 \<le> pi_so i" "pi_so i < 32768" using assms True by (auto simp: header_ok_def)
    have u3: "uint b3 = 128 * pi_lsf i + pi_so i div 256"
      unfolding b3_def by (rule uint_byte) (use sg in \<open>auto simp: pos_imp_zdiv_nonneg_iff\<close>)
    have u4: "uint b4 = pi_so i mod 256" unfolding b4_def by (rule uint_byte) auto
    have bytes: "header_bytes i @ pl = b1 # b2 # b3 # b4 # li_bytes (pi_li_list i) @ pl" for pl
      unfolding header_bytes_def b1_def b2_def b3_def b4_def using True by simp
    note sf = segment_byte_fields[OF sg u3]
    show ?thesis
      unfolding bytes rlc_am_get_data_pdu_infos_def
      using True u4 sizes rest by (auto simp: Let_def ff sf u2 header_bytes_def zero_pdu_info_def fields intro!: rlc_am_pdu_info.equality)
  next
    case False
    have bytes: "header_bytes i @ pl = b1 # b2 # li_bytes (pi_li_list i) @ pl" for pl
      unfolding header_bytes_def b1_def b2_def using False by simp
    show ?thesis
      unfolding bytes rlc_am_get_data_pdu_infos_def
      using False f(1) sizes rest by (auto simp: Let_def ff u2 header_bytes_def zero_pdu_info_def fields intro!: rlc_am_pdu_info.equality)
  qed
qed

text \<open>
  (C23) Decoding the header that TS 36.322 lays out for a data PDU gives every field back: the
  fixed part, the segment part of a resegmented PDU, up to 32 length indicators, the sizes and the
  payload. The decoder reads no byte beyond the block.
\<close>

theorem data_header_roundtrip:
  assumes "header_ok i"
  shows "rlc_am_get_data_pdu_infos (header_bytes i @ pi_payload i) (pi_header_size i + pi_payload_size i) = Some (0, i)"
  using assms by (rule decode_header_bytes)

text \<open>The last segment, from offset 300 on, of PDU 700, with three SDU pieces.\<close>

definition header_example :: rlc_am_pdu_info where
  "header_example = \<lparr>pi_d_c = 1, pi_rf = 1, pi_p = 1, pi_fi = 2, pi_e = 1, pi_sn = 700, pi_lsf = 1,
     pi_so = 300, pi_li_list = [3, 2], pi_hidden_size = 1, pi_payload = [1, 2, 3, 4, 5, 6],
     pi_payload_size = 6, pi_header_size = 7\<rparr>"

theorem data_header_roundtrip_witness:
  "header_ok header_example \<and>
   header_bytes header_example = [246, 188, 129, 44, 128, 48, 2] \<and>
   rlc_am_get_data_pdu_infos [246, 188, 129, 44, 128, 48, 2, 1, 2, 3, 4, 5, 6] 13 = Some (0, header_example)"
proof -
  have h: "header_bytes header_example = [246, 188, 129, 44, 128, 48, 2]"
    by (simp add: header_bytes_def header_example_def)
  have ok: "header_ok header_example" unfolding header_ok_def h by (simp add: header_example_def)
  from data_header_roundtrip[OF ok] show ?thesis using ok unfolding h by (simp add: header_example_def)
qed

text \<open>A control PDU is refused with code -1, and 33 length indicators with code -2.\<close>

lemma control_pdu_is_no_data:
  assumes "uint b < 128"
  shows "\<exists>i. rlc_am_get_data_pdu_infos (b # bs) n = Some (- 1, i)"
proof -
  have "uint (drop_bit 7 b) = 0" using assms byte_range[of b] unfolding uint_drop_byte by simp
  then show ?thesis by (simp add: rlc_am_get_data_pdu_infos_def zero_pdu_info_def)
qed

end
