(* ===== verification/Rlc_Am_Receiver.thy ===== *)
theory Rlc_Am_Receiver
  imports Rlc_Am_Header Rlc_Am_Reassembly Rlc_Am_Control
begin

text \<open>
  The receiving side of the entity: \<^verbatim>\<open>rlc_am_receiver.c\<close>. A transport block is routed to the
  handler of control PDUs or to the one of data PDUs; the latter decodes the header, stores the
  PDU in the reception buffer, updates the state variables, delivers SDUs and runs the reordering
  timer.

  The element just stored is the one behind the elements \<open>before\<close> of the split that insertion
  returns. After delivery the code reads the sequence number of the PDU from memory it has already
  released; the model reads the number that was there.
\<close>

subsection \<open>State variables\<close>

text \<open>The walks from the stored element to the end of the buffer.\<close>

fun rlc_am_rx_update_vr_ms :: "int \<Rightarrow> rx_pdu list \<Rightarrow> int" where
  "rlc_am_rx_update_vr_ms vr [] = vr"
| "rlc_am_rx_update_vr_ms vr (x # xs) =
     (if \<not> all_segments_received x then rx_sn x
      else if xs = [] then sn_mask (rx_sn x + 1)
      else rlc_am_rx_update_vr_ms vr xs)"

fun rlc_am_rx_update_vr_r :: "int \<Rightarrow> rx_pdu list \<Rightarrow> int" where
  "rlc_am_rx_update_vr_r vr [] = vr"
| "rlc_am_rx_update_vr_r vr (x # xs) =
     (if \<not> all_segments_received x \<or> vr \<noteq> rx_sn x then vr
      else rlc_am_rx_update_vr_r
        (if rx_rf x = 1 then (if pi_lsf (pdu_info x) = 1 then sn_mask (vr + 1) else vr)
         else sn_mask (vr + 1)) xs)"

subsection \<open>Data PDUs\<close>

definition count_dropped :: "int \<Rightarrow> rlc_am_entity \<Rightarrow> rlc_am_entity" where
  "count_dropped n e = e\<lparr>stats := (stats e)\<lparr>stat_rx_data_pdu_dropped := stat_rx_data_pdu_dropped (stats e) + 1,
     stat_rx_data_bytes_dropped := stat_rx_data_bytes_dropped (stats e) + word_of_int n\<rparr>\<rparr>"

definition count_out_of_window :: "int \<Rightarrow> rlc_am_entity \<Rightarrow> rlc_am_entity" where
  "count_out_of_window n e = e\<lparr>stats := (stats e)\<lparr>
     stat_rx_data_pdu_out_of_window := stat_rx_data_pdu_out_of_window (stats e) + 1,
     stat_rx_data_bytes_out_of_window := stat_rx_data_bytes_out_of_window (stats e) + word_of_int n\<rparr>\<rparr>"

text \<open>The timer t-Reordering after a PDU was stored.\<close>

definition rx_reordering :: "frame \<Rightarrow> int \<Rightarrow> rlc_am_entity \<Rightarrow> rlc_am_entity" where
  "rx_reordering frameP sn e =
     (let e1 = (if running (t_reordering e) \<and>
                   (vr_x e = vr_r e \<or> (\<not> rlc_am_in_rx_window e sn \<and> vr_x e \<noteq> vr_mr e))
                then rlc_am_stop_and_reset_timer_reordering e frameP else e)
      in if \<not> running (t_reordering e1) \<and> vr_h e1 \<noteq> vr_r e1
         then (rlc_am_start_timer_reordering e1 frameP)\<lparr>vr_x := vr_h e1\<rparr> else e1)"

text \<open>The state variables and the delivery after a PDU was stored between \<open>before\<close> and \<open>after\<close>.\<close>

definition rx_stored ::
  "rx_pdu list \<Rightarrow> rx_pdu \<Rightarrow> rx_pdu list \<Rightarrow> rlc_am_entity \<Rightarrow> rlc_am_entity option" where
  "rx_stored before p after e =
     (let sn = rx_sn p;
          e1 = (if rlc_am_sn_gte_vr_h e sn then e\<lparr>vr_h := sn_mask (sn + 1)\<rparr> else e);
          buf = rlc_am_rx_check_all_byte_segments before p after;
          from_p = drop (length before) buf;
          p_received = all_segments_received (buf ! length before);
          e2 = e1\<lparr>receiver_buffer := buf\<rparr>;
          e3 = (if sn = vr_ms e2 \<and> p_received
                then e2\<lparr>vr_ms := rlc_am_rx_update_vr_ms (vr_ms e2) from_p\<rparr> else e2)
      in if sn = vr_r e3 then
           let e4 = (if p_received then
                       let r = rlc_am_rx_update_vr_r (vr_r e3) from_p
                       in e3\<lparr>vr_r := r, vr_mr := sn_mask (r + RLC_AM_WINDOW_SIZE)\<rparr>
                     else e3)
           in rlc_am_rx_list_reassemble_rlc_sdus e4
         else Some e3)"

definition rlc_am_receive_process_data_pdu ::
  "rlc_am_entity \<Rightarrow> frame \<Rightarrow> byte list \<Rightarrow> int \<Rightarrow> rlc_am_entity option" where
  "rlc_am_receive_process_data_pdu e frameP bs tb_size_in_bytes =
     do {
       (rc, info) \<leftarrow> rlc_am_get_data_pdu_infos bs (to_int16 tb_size_in_bytes);
       if rc \<ge> 0 then
         let p = \<lparr>pdu_info = info, all_segments_received = False\<rparr>
         in if rlc_am_in_rx_window e (rx_sn p) then
              let e1 = (if pi_p info \<noteq> 0 then e\<lparr>status_requested := True\<rparr> else e)
              in case rlc_am_rx_list_insert_pdu e1 p of
                   None \<Rightarrow> Some ((count_dropped tb_size_in_bytes e1)\<lparr>status_requested := True\<rparr>)
                 | Some (before, after) \<Rightarrow>
                     map_option (rx_reordering frameP (rx_sn p)) (rx_stored before p after e1)
            else Some ((count_out_of_window tb_size_in_bytes e)\<lparr>status_requested := True\<rparr>)
       else Some e
     }"

subsection \<open>Routing\<close>

definition receive_tb :: "frame \<Rightarrow> mac_tb_ind \<Rightarrow> rlc_am_entity \<Rightarrow> rlc_am_entity option" where
  "receive_tb frameP tb e =
     (if ti_size tb > 0 then
        do {
          c_assert (ti_data tb \<noteq> []);
          if (ti_data tb ! 0) AND 0x80 = 0x80 then
            let e1 = e\<lparr>stats := (stats e)\<lparr>stat_rx_data_bytes := stat_rx_data_bytes (stats e) + word_of_int (ti_size tb),
                  stat_rx_data_pdu := stat_rx_data_pdu (stats e) + 1\<rparr>\<rparr>
            in rlc_am_receive_process_data_pdu e1 frameP (ti_data tb) (to_uint16 (ti_size tb))
          else
            let e1 = e\<lparr>stats := (stats e)\<lparr>stat_rx_control_bytes := stat_rx_control_bytes (stats e) + word_of_int (ti_size tb),
                  stat_rx_control_pdu := stat_rx_control_pdu (stats e) + 1\<rparr>\<rparr>
            in do {
                 (e2, _, rest) \<leftarrow> rlc_am_receive_process_control_pdu e1 frameP (ti_data tb) (ti_size tb);
                 c_assert (rest = 0);
                 Some e2
               }
        }
      else Some e)"

fun rlc_am_receive_routing :: "frame \<Rightarrow> mac_tb_ind list \<Rightarrow> rlc_am_entity \<Rightarrow> rlc_am_entity option" where
  "rlc_am_receive_routing frameP [] e = Some e"
| "rlc_am_receive_routing frameP (tb # tbs) e =
     do { e1 \<leftarrow> receive_tb frameP tb e; rlc_am_receive_routing frameP tbs e1 }"

subsection \<open>In-sequence delivery\<close>

text \<open>
  The specification, on the list of stored PDUs in the order of their numbers: a new PDU takes its
  place, the PDUs from the next expected number on without a gap are delivered, the others stay.
\<close>

definition ins_pdu :: "rx_pdu \<Rightarrow> rx_pdu list \<Rightarrow> rx_pdu list" where
  "ins_pdu p xs = filter (\<lambda>x. rx_sn x < rx_sn p) xs @ p # filter (\<lambda>x. rx_sn p < rx_sn x) xs"

fun seq_run :: "int \<Rightarrow> rx_pdu list \<Rightarrow> rx_pdu list" where
  "seq_run n [] = []"
| "seq_run n (x # xs) = (if rx_sn x = n then x # seq_run (n + 1) xs else [])"

text \<open>
  The buffer when whole PDUs arrive and no stored number is beyond the wrap of the number space:
  complete, framed, sorted and above the lower window edge.
\<close>

definition stored_ok :: "int \<Rightarrow> rx_pdu \<Rightarrow> bool" where
  "stored_ok n x \<longleftrightarrow> rx_rf x = 0 \<and> all_segments_received x \<and> pdu_framed x \<and> n < rx_sn x \<and> rx_sn x < 1024"

definition rx_seq :: "rlc_am_entity \<Rightarrow> bool" where
  "rx_seq e \<longleftrightarrow> valid_sn (vr_r e) \<and> vr_mr e = sn_mask (vr_r e + RLC_AM_WINDOW_SIZE) \<and> sdu_state_ok e \<and>
     sorted_wrt rx_before (receiver_buffer e) \<and> (\<forall>x\<in>set (receiver_buffer e). stored_ok (vr_r e) x)"

lemma framed_size: "pdu_framed x \<Longrightarrow> 1 \<le> rx_size x"
proof -
  assume f: "pdu_framed x"
  then have "0 \<le> sum_list (pi_li_list (pdu_info x))"
    by (intro sum_list_nonneg) (auto simp: pdu_framed_def Let_def)
  then show ?thesis using f by (auto simp: pdu_framed_def Let_def)
qed

lemma stored_ok_elem: "stored_ok n x \<Longrightarrow> rx_elem_ok x"
  by (simp add: stored_ok_def rx_elem_ok_def framed_size)

lemma whole_sorted: "sorted_wrt rx_before xs \<Longrightarrow> \<forall>x\<in>set xs. rx_rf x = 0 \<Longrightarrow> sorted_wrt (\<lambda>x y. rx_sn x < rx_sn y) xs"
  by (erule sorted_wrt_mono_rel[rotated]) (auto simp: rx_before_def)

text \<open>With whole PDUs above the edge the walk for a wrapping window is the linear one.\<close>

lemma insert_wrap_high_whole:
  assumes "\<forall>x\<in>set (seen @ rest). rx_rf x = 0 \<and> vr \<le> rx_sn x" "seen \<noteq> [] \<Longrightarrow> rx_sn (hd seen) \<noteq> rx_sn p"
  shows "insert_wrap_high vr p seen rest = insert_linear p seen rest"
  using assms
proof (induction rest arbitrary: seen)
  case Nil
  then show ?case by (cases seen) (auto simp: end_accepts_def)
next
  case (Cons cur rest)
  have "rx_sn cur \<noteq> rx_sn p" if "fwd_step p pr cur = Go_on" for pr
    using that Cons.prems(1) by (auto simp: fwd_step_def split: if_splits)
  then show ?case using Cons.prems Cons.IH[of "cur # seen"] by (auto split: cursor_action.splits)
qed

lemma insert_whole:
  assumes "rx_seq e" "rx_elem_ok p" "vr_r e \<le> rx_sn p" "rx_sn p < 1024"
  shows "receiver_buffer e \<noteq> [] \<Longrightarrow> rlc_am_rx_list_insert_pdu e p = insert_linear p [] (receiver_buffer e)"
proof -
  have "\<forall>x\<in>set ([] @ receiver_buffer e). rx_rf x = 0 \<and> vr_r e \<le> rx_sn x"
    using assms(1) by (auto simp: rx_seq_def stored_ok_def)
  from insert_wrap_high_whole[OF this] show "receiver_buffer e \<noteq> [] \<Longrightarrow> ?thesis"
    using assms(3) by (simp add: rlc_am_rx_list_insert_pdu_def)
qed

lemma split_filter:
  assumes "sorted_wrt (\<lambda>x y. rx_sn x < rx_sn y) (b @ p # a)"
  shows "b = filter (\<lambda>x. rx_sn x < rx_sn p) (b @ a)" "a = filter (\<lambda>x. rx_sn p < rx_sn x) (b @ a)"
proof -
  have "\<forall>x\<in>set b. rx_sn x < rx_sn p" "\<forall>x\<in>set a. rx_sn p < rx_sn x"
    using assms by (auto simp: sorted_wrt_append)
  then have "filter (\<lambda>x. rx_sn x < rx_sn p) b = b" "filter (\<lambda>x. rx_sn x < rx_sn p) a = []"
    "filter (\<lambda>x. rx_sn p < rx_sn x) b = []" "filter (\<lambda>x. rx_sn p < rx_sn x) a = a"
    by (auto simp: filter_empty_conv filter_id_conv)
  then show "b = filter (\<lambda>x. rx_sn x < rx_sn p) (b @ a)" "a = filter (\<lambda>x. rx_sn p < rx_sn x) (b @ a)"
    by (simp_all only: filter_append append_Nil append_Nil2)
qed

text \<open>Insertion: refused for a number that is stored, else the place in the order.\<close>

lemma insert_whole_cases:
  assumes "rx_seq e" "rx_elem_ok p" "rx_rf p = 0" "vr_r e \<le> rx_sn p" "rx_sn p < 1024"
  shows "rlc_am_rx_list_insert_pdu e p =
      (if \<exists>x\<in>set (receiver_buffer e). rx_sn x = rx_sn p then None
       else Some (filter (\<lambda>x. rx_sn x < rx_sn p) (receiver_buffer e), filter (\<lambda>x. rx_sn p < rx_sn x) (receiver_buffer e)))"
    and "\<not> (\<exists>x\<in>set (receiver_buffer e). rx_sn x = rx_sn p) \<Longrightarrow>
      sorted_wrt (\<lambda>x y. rx_sn x < rx_sn y) (ins_pdu p (receiver_buffer e))"
proof -
  let ?l = "receiver_buffer e"
  have conf: "rx_conflict p x \<longleftrightarrow> rx_sn x = rx_sn p" for x using assms(3) by (auto simp: rx_conflict_def)
  have l: "sorted_wrt rx_before ?l" "\<forall>x\<in>set ?l. rx_elem_ok x" "\<forall>x\<in>set ?l. rx_rf x = 0"
    using assms(1) stored_ok_elem by (auto simp: rx_seq_def) (auto simp: stored_ok_def)
  have res: "rlc_am_rx_list_insert_pdu e p =
      (if \<exists>x\<in>set ?l. rx_sn x = rx_sn p then None
       else Some (filter (\<lambda>x. rx_sn x < rx_sn p) ?l, filter (\<lambda>x. rx_sn p < rx_sn x) ?l)) \<and>
    (\<not> (\<exists>x\<in>set ?l. rx_sn x = rx_sn p) \<longrightarrow> sorted_wrt (\<lambda>x y. rx_sn x < rx_sn y) (ins_pdu p ?l))"
  proof (cases "?l = []")
    case True
    then show ?thesis by (simp add: rlc_am_rx_list_insert_pdu_def ins_pdu_def)
  next
    case False
    note ins = insert_whole[OF assms(1,2,4,5) False]
    note spec = insert_linear_spec[of "[]" ?l p, simplified, OF l(1,2) assms(2) False]
    show ?thesis
    proof (cases "insert_linear p [] ?l")
      case None
      then show ?thesis using spec ins conf by auto
    next
      case (Some ba)
      obtain b a where ba: "ba = (b, a)" by fastforce
      have s: "b @ a = ?l" "sorted_wrt rx_before (b @ p # a)" using spec Some ba by auto
      have "\<forall>x\<in>set (b @ p # a). rx_rf x = 0" using l(3) assms(3) unfolding s(1)[symmetric] by auto
      note w = whole_sorted[OF s(2) this]
      have "\<not> (\<exists>x\<in>set ?l. rx_sn x = rx_sn p)" using w unfolding s(1)[symmetric] by (auto simp: sorted_wrt_append)
      then show ?thesis using Some ba ins split_filter[OF w] w unfolding s(1) ins_pdu_def by auto
    qed
  qed
  then show "rlc_am_rx_list_insert_pdu e p =
      (if \<exists>x\<in>set ?l. rx_sn x = rx_sn p then None
       else Some (filter (\<lambda>x. rx_sn x < rx_sn p) ?l, filter (\<lambda>x. rx_sn p < rx_sn x) ?l))" by blast
  show "\<not> (\<exists>x\<in>set ?l. rx_sn x = rx_sn p) \<Longrightarrow> sorted_wrt (\<lambda>x y. rx_sn x < rx_sn y) (ins_pdu p ?l)" using res by blast
qed

text \<open>The run of consecutive numbers, as the two walks of the code see it.\<close>

lemma seq_run_length:
  assumes "sorted_wrt (\<lambda>x y. rx_sn x < rx_sn y) xs" "\<forall>x\<in>set xs. n \<le> rx_sn x \<and> rx_sn x < 1024" "n \<le> 1024"
  shows "n + int (length (seq_run n xs)) \<le> 1024"
  using assms
proof (induction xs arbitrary: n)
  case (Cons x xs)
  show ?case
  proof (cases "rx_sn x = n")
    case True
    have "\<forall>y\<in>set xs. n + 1 \<le> rx_sn y \<and> rx_sn y < 1024" "n + 1 \<le> 1024" using Cons.prems True by auto
    then show ?thesis using Cons.IH[of "n + 1"] Cons.prems(1) True by simp
  qed (use Cons.prems(3) in simp)
qed simp

lemma update_vr_r_run:
  assumes "sorted_wrt (\<lambda>x y. rx_sn x < rx_sn y) xs" "\<forall>x\<in>set xs. rx_rf x = 0 \<and> all_segments_received x \<and> rx_sn x < 1024"
    "\<forall>x\<in>set xs. n \<le> rx_sn x" "0 \<le> n" "n \<le> 1024"
  shows "rlc_am_rx_update_vr_r (sn_mask n) xs = sn_mask (n + int (length (seq_run n xs)))"
  using assms
proof (induction xs arbitrary: n)
  case (Cons x xs)
  have x: "n \<le> rx_sn x" "rx_sn x < 1024" using Cons.prems by auto
  then have m: "sn_mask n = n" "sn_mask n = rx_sn x \<longleftrightarrow> rx_sn x = n" using Cons.prems(4) by (auto simp: sn_mask_mod)
  show ?case
  proof (cases "rx_sn x = n")
    case True
    then have "rlc_am_rx_update_vr_r (sn_mask (n + 1)) xs = sn_mask (n + 1 + int (length (seq_run (n + 1) xs)))"
      using Cons.prems x by (intro Cons.IH) auto
    then show ?thesis using True Cons.prems(2) m by (simp add: algebra_simps)
  next
    case False
    then show ?thesis using m Cons.prems(2) by auto
  qed
qed simp

lemma ready_run_seq:
  assumes "sorted_wrt (\<lambda>x y. rx_sn x < rx_sn y) (x # xs)" "\<forall>y\<in>set (x # xs). all_segments_received y \<and> 0 \<le> rx_sn y \<and> rx_sn y < 1024"
  shows "ready_run (x # xs) = seq_run (rx_sn x) (x # xs)"
  using assms
proof (induction xs arbitrary: x)
  case (Cons y ys)
  have "rx_sn x < rx_sn y" "rx_sn y < 1024" "0 \<le> rx_sn x" using Cons.prems by auto
  then have "rx_sn y = rx_sn x \<or> rx_sn y = sn_mask (rx_sn x + 1) \<longleftrightarrow> rx_sn y = rx_sn x + 1"
    by (auto simp: sn_mask_mod mod_pos_pos_trivial)
  then show ?case using Cons.IH[of y] Cons.prems by auto
qed simp

lemma seq_run_prefix: "seq_run n xs @ drop (length (seq_run n xs)) xs = xs"
  by (induction xs arbitrary: n) auto

lemma seq_run_rest:
  assumes "sorted_wrt (\<lambda>x y. rx_sn x < rx_sn y) xs" "\<forall>x\<in>set xs. n \<le> rx_sn x"
  shows "\<forall>x\<in>set (drop (length (seq_run n xs)) xs). n + int (length (seq_run n xs)) < rx_sn x"
  using assms
proof (induction xs arbitrary: n)
  case (Cons x xs)
  show ?case
  proof (cases "rx_sn x = n")
    case True
    have "\<forall>y\<in>set xs. n + 1 \<le> rx_sn y" using Cons.prems True by auto
    then have "\<forall>y\<in>set (drop (length (seq_run (n + 1) xs)) xs). n + 1 + int (length (seq_run (n + 1) xs)) < rx_sn y"
      using Cons.IH[of "n + 1"] Cons.prems(1) by simp
    then show ?thesis using True by (auto simp: algebra_simps)
  next
    case False
    then have "n < rx_sn x" using Cons.prems(2) by (auto simp: order.strict_iff_order)
    then show ?thesis using False Cons.prems(1) by auto
  qed
qed simp

lemma seq_run_none: "\<forall>x\<in>set xs. n < rx_sn x \<Longrightarrow> seq_run n xs = []"
  by (cases xs) auto

lemma delivers_vars:
  assumes "delivers e dr buf e'"
  shows "vr_r e' = vr_r e" "vr_mr e' = vr_mr e" "vr_h e' = vr_h e" "vr_x e' = vr_x e" "vr_ms e' = vr_ms e"
    "t_reordering e' = t_reordering e" "status_requested e' = status_requested e"
proof -
  have r: "rx_rest e' = (rx_rest e)\<lparr>receiver_buffer := buf\<rparr>" using assms by (simp add: delivers_def)
  have v: "vr_r x = vr_r (rx_rest x)" "vr_mr x = vr_mr (rx_rest x)" "vr_h x = vr_h (rx_rest x)" "vr_x x = vr_x (rx_rest x)"
    "vr_ms x = vr_ms (rx_rest x)" "t_reordering x = t_reordering (rx_rest x)"
    "status_requested x = status_requested (rx_rest x)" for x by (simp_all add: rx_rest_def)
  show "vr_r e' = vr_r e" "vr_mr e' = vr_mr e" "vr_h e' = vr_h e" "vr_x e' = vr_x e" "vr_ms e' = vr_ms e"
    "t_reordering e' = t_reordering e" "status_requested e' = status_requested e"
    unfolding v[of e'] v[of e] r by simp_all
qed

lemma sdu_state_ok_cong:
  "output_sdu_in_construction e' = output_sdu_in_construction e \<Longrightarrow>
   output_sdu_size_to_write e' = output_sdu_size_to_write e \<Longrightarrow> sdu_state_ok e' = sdu_state_ok e"
  by (simp add: sdu_state_ok_def split: option.split)

text \<open>The result of receiving a PDU of the number \<open>sn\<close> in the specification.\<close>

definition receives :: "rlc_am_entity \<Rightarrow> rx_pdu \<Rightarrow> rlc_am_entity \<Rightarrow> bool" where
  "receives e q e' \<longleftrightarrow>
     (let l = ins_pdu q (receiver_buffer e); run = seq_run (vr_r e) l
      in vr_r e' = sn_mask (vr_r e + int (length run)) \<and>
         receiver_buffer e' = drop (length run) l \<and>
         log_data_ind e' = log_data_ind e @ fst (stream_sdus (sdu_acc e) run) \<and>
         sdu_acc e' = snd (stream_sdus (sdu_acc e) run))"

lemma rx_stored_receives:
  assumes "rx_seq e" "stored_ok (vr_r e - 1) q" "p = q\<lparr>all_segments_received := False\<rparr>"
    "\<not> (\<exists>x\<in>set (receiver_buffer e). rx_sn x = rx_sn q)"
    "\<forall>d\<in>set (fst sd @ [snd sd]). int (length d) \<le> RLC_SDU_MAX_SIZE"
    "sd = stream_sdus (sdu_acc e) (seq_run (vr_r e) (ins_pdu q (receiver_buffer e)))"
  shows "\<exists>e'. rx_stored (filter (\<lambda>x. rx_sn x < rx_sn q) (receiver_buffer e)) p
      (filter (\<lambda>x. rx_sn q < rx_sn x) (receiver_buffer e)) e = Some e' \<and>
    receives e q e' \<and> vr_mr e' = sn_mask (vr_r e' + RLC_AM_WINDOW_SIZE) \<and> sdu_state_ok e' \<and>
    status_requested e' = status_requested e"
proof -
  let ?buf = "receiver_buffer e" and ?n = "vr_r e"
  let ?b = "filter (\<lambda>x. rx_sn x < rx_sn q) ?buf" and ?a = "filter (\<lambda>x. rx_sn q < rx_sn x) ?buf"
  have n: "0 \<le> ?n" "?n < 1024" "vr_mr e = sn_mask (?n + 512)" "sdu_state_ok e"
    using assms(1) by (auto simp: rx_seq_def valid_sn_def)
  have st: "\<forall>x\<in>set ?buf. stored_ok ?n x" using assms(1) by (simp add: rx_seq_def)
  have q: "?n \<le> rx_sn q" "rx_sn q < 1024" "rx_rf q = 0" "all_segments_received q" "pdu_framed q" "rx_sn p = rx_sn q"
    "rx_rf p = 0" "p\<lparr>all_segments_received := True\<rparr> = q"
    using assms(2,3) by (auto simp: stored_ok_def)
  have chk: "rlc_am_rx_check_all_byte_segments ?b p ?a = ins_pdu q ?buf"
    unfolding rlc_am_rx_check_all_byte_segments_def ins_pdu_def using q by simp
  have qi: "ins_pdu q ?buf ! length ?b = q" "drop (length ?b) (ins_pdu q ?buf) = q # ?a" by (simp_all add: ins_pdu_def)
  have sorted: "sorted_wrt (\<lambda>x y. rx_sn x < rx_sn y) (ins_pdu q ?buf)"
    using insert_whole_cases(2)[OF assms(1) _ q(3,1,2) assms(4)] stored_ok_elem[OF assms(2)] by blast
  define e1 where "e1 = (if rlc_am_sn_gte_vr_h e (rx_sn q) then e\<lparr>vr_h := sn_mask (rx_sn q + 1)\<rparr> else e)\<lparr>receiver_buffer := ins_pdu q ?buf\<rparr>"
  define e3 where "e3 = (if rx_sn q = vr_ms e1 then e1\<lparr>vr_ms := rlc_am_rx_update_vr_ms (vr_ms e1) (q # ?a)\<rparr> else e1)"
  have ok3: "sdu_state_ok e3 = sdu_state_ok e" by (rule sdu_state_ok_cong) (simp_all add: e3_def e1_def)
  have e3: "vr_r e3 = ?n" "vr_mr e3 = vr_mr e" "receiver_buffer e3 = ins_pdu q ?buf" "sdu_acc e3 = sdu_acc e"
    "log_data_ind e3 = log_data_ind e" "sdu_state_ok e3 = sdu_state_ok e" "status_requested e3 = status_requested e"
    by (simp_all add: ok3) (simp_all add: e3_def e1_def sdu_acc_def)
  have stored: "rx_stored ?b p ?a e =
     (if rx_sn q = ?n then rlc_am_rx_list_reassemble_rlc_sdus (e3\<lparr>vr_r := rlc_am_rx_update_vr_r ?n (q # ?a),
          vr_mr := sn_mask (rlc_am_rx_update_vr_r ?n (q # ?a) + RLC_AM_WINDOW_SIZE)\<rparr>) else Some e3)"
  proof -
    have "(if rx_sn q = vr_ms e1 \<and> all_segments_received q
           then e1\<lparr>vr_ms := rlc_am_rx_update_vr_ms (vr_ms e1) (q # ?a)\<rparr> else e1) = e3"
      by (simp add: e3_def q(4))
    then show ?thesis
      unfolding rx_stored_def Let_def q(6) chk qi e1_def[symmetric] by (simp only: q(4) e3(1) if_True)
  qed
  show ?thesis
  proof (cases "rx_sn q = ?n")
    case False
    have "\<forall>x\<in>set (ins_pdu q ?buf). ?n < rx_sn x"
      using st q(1) False by (auto simp: ins_pdu_def stored_ok_def)
    then have "seq_run ?n (ins_pdu q ?buf) = []" by (rule seq_run_none)
    then show ?thesis using False stored e3 n
      by (auto simp: receives_def Let_def sn_mask_mod)
  next
    case True
    have b: "?b = []" using st True by (auto simp: filter_empty_conv stored_ok_def)
    then have l: "ins_pdu q ?buf = q # ?a" by (simp add: ins_pdu_def)
    let ?l = "q # ?a"
    let ?run = "seq_run ?n ?l"
    have el: "\<forall>x\<in>set ?l. rx_rf x = 0 \<and> all_segments_received x \<and> pdu_framed x \<and> rx_sn x < 1024 \<and> ?n \<le> rx_sn x"
      using st q True by (auto simp: stored_ok_def)
    have walk: "rlc_am_rx_update_vr_r ?n ?l = sn_mask (?n + int (length ?run))"
      using update_vr_r_run[of ?l ?n] sorted el n unfolding l by (simp add: sn_mask_mod)
    have run: "ready_run ?l = ?run" using ready_run_seq[of q ?a] sorted el n(1) True unfolding l by force
    let ?e4 = "e3\<lparr>vr_r := sn_mask (?n + int (length ?run)), vr_mr := sn_mask (sn_mask (?n + int (length ?run)) + RLC_AM_WINDOW_SIZE)\<rparr>"
    have f: "\<forall>x\<in>set (ready_run ?l). pdu_framed x"
      unfolding run using el seq_run_prefix[of ?n ?l] by (metis Un_iff set_append)
    have e4: "sdu_state_ok ?e4" "receiver_buffer ?e4 = ?l" "sdu_acc ?e4 = sdu_acc e" "log_data_ind ?e4 = log_data_ind e"
      using e3 n(4) l sdu_state_ok_cong[of ?e4 e3] by (simp_all add: sdu_acc_def)
    have sd: "stream_sdus (sdu_acc ?e4) (ready_run ?l) = sd" unfolding run e4(3) assms(6) l ..
    obtain e' where loop: "reassemble_loop ?l ?e4 = Some e'" and d: "delivers ?e4 sd (drop (length ?run) ?l) e'"
      using reassemble_loop_delivers[OF f e4(1,2) sd assms(5)] unfolding run by blast
    have "rx_stored ?b p ?a e = Some e'"
      unfolding stored if_P[OF True] rlc_am_rx_list_reassemble_rlc_sdus_def walk e4(2) by (rule loop)
    moreover have "vr_r e' = sn_mask (?n + int (length ?run))" "vr_mr e' = sn_mask (sn_mask (?n + int (length ?run)) + RLC_AM_WINDOW_SIZE)"
      "status_requested e' = status_requested e" using delivers_vars[OF d] e3(7) by simp_all
    moreover have "log_data_ind e' = log_data_ind e @ fst sd" "sdu_acc e' = snd sd" "sdu_state_ok e'"
      using d e4(4) by (simp_all add: delivers_def)
    ultimately show ?thesis
      using delivers_buffer[OF d] unfolding receives_def Let_def assms(6) l by simp
  qed
qed

lemma rx_reordering_sdu_state [simp]: "sdu_state_ok (rx_reordering f sn e) = sdu_state_ok e"
  by (rule sdu_state_ok_cong) (simp_all add: rx_reordering_def Let_def
      rlc_am_stop_and_reset_timer_reordering_def rlc_am_start_timer_reordering_def)

lemma rx_reordering_simps [simp]:
  "vr_r (rx_reordering f sn e) = vr_r e" "vr_mr (rx_reordering f sn e) = vr_mr e"
  "receiver_buffer (rx_reordering f sn e) = receiver_buffer e" "log_data_ind (rx_reordering f sn e) = log_data_ind e"
  "sdu_acc (rx_reordering f sn e) = sdu_acc e"
  "status_requested (rx_reordering f sn e) = status_requested e"
  by (simp_all add: rx_reordering_def Let_def sdu_acc_def rlc_am_stop_and_reset_timer_reordering_def
      rlc_am_start_timer_reordering_def)

lemma receives_rx_seq:
  assumes "rx_seq e" "stored_ok (vr_r e - 1) q" "\<not> (\<exists>x\<in>set (receiver_buffer e). rx_sn x = rx_sn q)"
    "receives e q e'" "vr_mr e' = sn_mask (vr_r e' + RLC_AM_WINDOW_SIZE)" "sdu_state_ok e'"
  shows "rx_seq e'"
proof -
  let ?l = "ins_pdu q (receiver_buffer e)"
  let ?k = "vr_r e + int (length (seq_run (vr_r e) ?l))"
  have n: "0 \<le> vr_r e" "vr_r e < 1024" using assms(1) by (auto simp: rx_seq_def valid_sn_def)
  have q: "vr_r e \<le> rx_sn q" "rx_sn q < 1024" "rx_rf q = 0" "rx_elem_ok q"
    using assms(2) stored_ok_elem[OF assms(2)] by (auto simp: stored_ok_def)
  have sorted: "sorted_wrt (\<lambda>x y. rx_sn x < rx_sn y) ?l" by (rule insert_whole_cases(2)[OF assms(1) q(4,3,1,2) assms(3)])
  have el: "\<forall>x\<in>set ?l. stored_ok (vr_r e - 1) x"
    using assms(1,2) by (auto simp: ins_pdu_def rx_seq_def stored_ok_def)
  then have ge: "\<forall>x\<in>set ?l. vr_r e \<le> rx_sn x \<and> rx_sn x < 1024" by (auto simp: stored_ok_def)
  have k: "?k \<le> 1024" using seq_run_length[OF sorted ge] n by simp
  have r: "vr_r e' = sn_mask ?k" "receiver_buffer e' = drop (length (seq_run (vr_r e) ?l)) ?l"
    using assms(4) by (auto simp: receives_def Let_def)
  have rest: "\<forall>x\<in>set (receiver_buffer e'). ?k < rx_sn x" unfolding r(2)
    using seq_run_rest[OF sorted] ge by blast
  have st: "\<forall>x\<in>set (receiver_buffer e'). stored_ok (vr_r e') x"
  proof
    fix x assume x: "x \<in> set (receiver_buffer e')"
    then have "x \<in> set ?l" unfolding r(2) by (rule in_set_dropD)
    moreover have "?k < 1024" using rest x ge \<open>x \<in> set ?l\<close> by force
    then have "vr_r e' = ?k" using n r(1) by (simp add: sn_mask_mod mod_pos_pos_trivial)
    ultimately show "stored_ok (vr_r e') x" using el rest x by (auto simp: stored_ok_def)
  qed
  have "sorted_wrt rx_before ?l" by (rule sorted_wrt_mono_rel[OF _ sorted]) (simp add: rx_before_def)
  then have "sorted_wrt rx_before (receiver_buffer e')" unfolding r(2) by (rule sorted_wrt_drop)
  then show ?thesis using st assms(5,6) r(1) by (simp add: rx_seq_def valid_sn_def)
qed

lemma receive_run:
  assumes "rx_seq e" "header_ok i" "pi_rf i = 0" "\<forall>l\<in>set (pi_li_list i). 0 < l"
    "vr_r e \<le> pi_sn i" "pi_sn i < vr_r e + RLC_AM_WINDOW_SIZE"
    "q = \<lparr>pdu_info = i, all_segments_received = True\<rparr>"
    "sd = stream_sdus (sdu_acc e) (seq_run (vr_r e) (ins_pdu q (receiver_buffer e)))"
    "\<forall>d\<in>set (fst sd @ [snd sd]). int (length d) \<le> RLC_SDU_MAX_SIZE"
  shows "\<exists>e'. rlc_am_receive_process_data_pdu e f (header_bytes i @ pi_payload i) (pi_header_size i + pi_payload_size i) = Some e' \<and>
    rx_seq e' \<and> (pi_p i = 1 \<longrightarrow> status_requested e') \<and>
    (if \<exists>x\<in>set (receiver_buffer e). rx_sn x = pi_sn i
     then vr_r e' = vr_r e \<and> receiver_buffer e' = receiver_buffer e \<and> log_data_ind e' = log_data_ind e \<and>
       sdu_acc e' = sdu_acc e \<and> status_requested e'
     else receives e q e')"
proof -
  let ?n = "pi_header_size i + pi_payload_size i"
  let ?p = "\<lparr>pdu_info = i, all_segments_received = False\<rparr>"
  let ?e1 = "if pi_p i \<noteq> 0 then e\<lparr>status_requested := True\<rparr> else e"
  have "to_int16 ?n = ?n" using assms(2) by (intro to_int16_id) (auto simp: header_ok_def)
  then have dec: "rlc_am_get_data_pdu_infos (header_bytes i @ pi_payload i) (to_int16 ?n) = Some (0, i)"
    using decode_header_bytes[OF assms(2)] by simp
  have i: "pi_sn i < 1024" "0 \<le> vr_r e" "vr_r e < 1024" "vr_mr e = sn_mask (vr_r e + 512)"
    using assms(1,2) by (auto simp: header_ok_def rx_seq_def valid_sn_def)
  have win: "rlc_am_in_rx_window e (pi_sn i)"
    using assms(5,6) i rx_window.inw_iff[of "pi_sn i" e] by (simp add: valid_sn_def sn_mask_mod mod_diff_left_eq mod_pos_pos_trivial)
  have fr: "pdu_framed q" using assms(2,4,7) by (auto simp: header_ok_def pdu_framed_def Let_def split: if_splits)
  have q: "stored_ok (vr_r e - 1) q" "rx_elem_ok ?p" "rx_sn q = pi_sn i" "?p = q\<lparr>all_segments_received := False\<rparr>"
    using fr framed_size[OF fr] assms(3,5,7) i(1) by (auto simp: stored_ok_def rx_elem_ok_def)
  have e1: "rx_seq ?e1" "vr_r ?e1 = vr_r e" "receiver_buffer ?e1 = receiver_buffer e" "sdu_acc ?e1 = sdu_acc e"
    "log_data_ind ?e1 = log_data_ind e" "pi_p i = 1 \<Longrightarrow> status_requested ?e1"
    using assms(1) sdu_state_ok_cong[of ?e1 e] by (simp_all add: rx_seq_def sdu_acc_def)
  note cases = insert_whole_cases(1)[OF e1(1) q(2), simplified e1(2,3), simplified, OF assms(3,5) i(1)]
  have proc: "rlc_am_receive_process_data_pdu e f (header_bytes i @ pi_payload i) ?n =
     (case rlc_am_rx_list_insert_pdu ?e1 ?p of
        None \<Rightarrow> Some ((count_dropped ?n ?e1)\<lparr>status_requested := True\<rparr>)
      | Some (before, after) \<Rightarrow> map_option (rx_reordering f (pi_sn i)) (rx_stored before ?p after ?e1))"
    unfolding rlc_am_receive_process_data_pdu_def dec using win by (simp add: Let_def split: option.split)
  show ?thesis
  proof (cases "\<exists>x\<in>set (receiver_buffer e). rx_sn x = pi_sn i")
    case True
    let ?e' = "(count_dropped ?n ?e1)\<lparr>status_requested := True\<rparr>"
    have "rlc_am_receive_process_data_pdu e f (header_bytes i @ pi_payload i) ?n = Some ?e'"
      unfolding proc cases using True by simp
    moreover have "rx_seq ?e'" using assms(1) sdu_state_ok_cong[of ?e' e] by (simp add: rx_seq_def count_dropped_def)
    ultimately show ?thesis using True by (auto simp: count_dropped_def sdu_acc_def)
  next
    case False
    then have nd: "\<not> (\<exists>x\<in>set (receiver_buffer ?e1). rx_sn x = rx_sn q)" using e1(3) q(3) by simp
    have "stored_ok (vr_r ?e1 - 1) q" "sd = stream_sdus (sdu_acc ?e1) (seq_run (vr_r ?e1) (ins_pdu q (receiver_buffer ?e1)))"
      using q(1) assms(8) unfolding e1(2,3,4) by simp_all
    then obtain e' where e': "rx_stored (filter (\<lambda>x. rx_sn x < rx_sn q) (receiver_buffer ?e1)) ?p
        (filter (\<lambda>x. rx_sn q < rx_sn x) (receiver_buffer ?e1)) ?e1 = Some e'"
      "receives ?e1 q e'" "vr_mr e' = sn_mask (vr_r e' + RLC_AM_WINDOW_SIZE)" "sdu_state_ok e'" "status_requested e' = status_requested ?e1"
      using rx_stored_receives[OF e1(1) _ q(4) nd assms(9)] by blast
    have sq: "rx_seq e'" by (rule receives_rx_seq[OF e1(1) _ nd e'(2,3,4)]) (use q(1) e1(2) in simp)
    have rc: "receives e q e'" using e'(2) unfolding receives_def e1 .
    have "rlc_am_receive_process_data_pdu e f (header_bytes i @ pi_payload i) ?n = Some (rx_reordering f (pi_sn i) e')"
      unfolding proc cases using False e'(1) unfolding e1(3) q(3) by simp
    moreover have "rx_seq (rx_reordering f (pi_sn i) e')" using sq by (simp add: rx_seq_def)
    moreover have "receives e q (rx_reordering f (pi_sn i) e')" using rc by (simp add: receives_def)
    ultimately show ?thesis using False e'(5) e1(6) by auto
  qed
qed

text \<open>
  (C8) While whole PDUs arrive and the stored numbers do not pass the wrap of the number space, the
  receiver is a reordering buffer: a data PDU in the window whose number is not stored takes its
  place among the stored ones, the PDUs from \<^verbatim>\<open>VR(R)\<close> on without a gap are delivered in the order
  of their numbers, \<^verbatim>\<open>VR(R)\<close> moves to the first missing number and the window with it. A number
  already stored changes neither the buffer nor what is delivered and asks for a status report. The
  handler returns in both cases and keeps the invariant, for PDUs that are well framed, which includes that
  every length indicator is positive (an indicator 0 ends in an assertion) and that their sum is less than
  the payload, and while no SDU, complete or begun, has more than the 9000 bytes of the reassembly buffer.
\<close>

theorem receive_in_sequence:
  assumes "rx_seq e" "header_ok i" "pi_rf i = 0" "\<forall>l\<in>set (pi_li_list i). 0 < l"
    "vr_r e \<le> pi_sn i" "pi_sn i < vr_r e + RLC_AM_WINDOW_SIZE"
    "q = \<lparr>pdu_info = i, all_segments_received = True\<rparr>"
    "sd = stream_sdus (sdu_acc e) (seq_run (vr_r e) (ins_pdu q (receiver_buffer e)))"
    "\<forall>d\<in>set (fst sd @ [snd sd]). int (length d) \<le> RLC_SDU_MAX_SIZE"
  shows "\<exists>e'. rlc_am_receive_process_data_pdu e f (header_bytes i @ pi_payload i) (pi_header_size i + pi_payload_size i) = Some e' \<and>
    rx_seq e' \<and> (pi_p i = 1 \<longrightarrow> status_requested e') \<and>
    (if \<exists>x\<in>set (receiver_buffer e). rx_sn x = pi_sn i
     then vr_r e' = vr_r e \<and> receiver_buffer e' = receiver_buffer e \<and> log_data_ind e' = log_data_ind e \<and>
       sdu_acc e' = sdu_acc e \<and> status_requested e'
     else receives e q e')"
  by (rule receive_run[OF assms])

text \<open>PDU 1022 arrives while PDU 1023 is stored: both are delivered, and the window wraps.\<close>

definition rx_info :: "int \<Rightarrow> int \<Rightarrow> byte list \<Rightarrow> rlc_am_pdu_info" where
  "rx_info sn fi bs = \<lparr>pi_d_c = 1, pi_rf = 0, pi_p = 1, pi_fi = fi, pi_e = 0, pi_sn = sn, pi_lsf = 0, pi_so = 0,
     pi_li_list = [], pi_hidden_size = int (length bs), pi_payload = bs, pi_payload_size = int (length bs),
     pi_header_size = 2\<rparr>"

definition wrap_example :: rlc_am_entity where
  "wrap_example = zero_entity\<lparr>vr_r := 1022, vr_mr := 510,
     receiver_buffer := [\<lparr>pdu_info = rx_info 1023 2 [3], all_segments_received = True\<rparr>]\<rparr>"

theorem receive_in_sequence_witness:
  "rx_seq wrap_example \<and>
   (\<exists>e'. rlc_am_receive_process_data_pdu wrap_example 0 [171, 254, 1, 2] 4 = Some e' \<and>
      vr_r e' = 0 \<and> receiver_buffer e' = [] \<and> log_data_ind e' = [[1, 2, 3]] \<and> status_requested e')"
proof -
  let ?i = "rx_info 1022 1 [1, 2]"
  let ?q = "\<lparr>pdu_info = ?i, all_segments_received = True\<rparr>"
  let ?r = "\<lparr>pdu_info = rx_info 1023 2 [3], all_segments_received = True\<rparr>"
  have seq: "rx_seq wrap_example"
    by (simp add: rx_seq_def wrap_example_def stored_ok_def rx_info_def pdu_framed_def valid_sn_def sn_mask_mod
        sdu_state_ok_def zero_entity_def)
  have hb: "header_bytes ?i = [171, 254]" by (simp add: header_bytes_def rx_info_def)
  have ok: "header_ok ?i" unfolding header_ok_def hb by (simp add: rx_info_def)
  have run: "seq_run (vr_r wrap_example) (ins_pdu ?q (receiver_buffer wrap_example)) = [?q, ?r]"
    by (simp add: wrap_example_def ins_pdu_def rx_info_def)
  have sd: "([[1, 2, 3]], []) = stream_sdus (sdu_acc wrap_example) (seq_run (vr_r wrap_example) (ins_pdu ?q (receiver_buffer wrap_example)))"
    unfolding run by (simp add: wrap_example_def zero_entity_def sdu_acc_def pdu_sdus_of_def pieces_def starts_sdu_def
        ends_sdu_def rx_info_def)
  have h: "pi_rf ?i = 0" "\<forall>l\<in>set (pi_li_list ?i). 0 < l" "vr_r wrap_example \<le> pi_sn ?i"
    "pi_sn ?i < vr_r wrap_example + 512" "pi_p ?i = 1" "pi_payload ?i = [1, 2]" "pi_header_size ?i + pi_payload_size ?i = 4"
    by (simp_all add: rx_info_def wrap_example_def)
  have lim: "\<forall>d\<in>set (fst ([[1, 2, 3 :: byte]], []) @ [snd ([[1, 2, 3 :: byte]], [])]). int (length d) \<le> 9000" by simp
  have nd: "\<not> (\<exists>x\<in>set (receiver_buffer wrap_example). rx_sn x = pi_sn ?i)" by (simp add: rx_info_def wrap_example_def)
  obtain e' where "rlc_am_receive_process_data_pdu wrap_example 0 [171, 254, 1, 2] 4 = Some e'" "status_requested e'"
    "receives wrap_example ?q e'"
    using receive_in_sequence[OF seq ok h(1,2,3,4) refl sd lim, of 0] h(5)
    unfolding if_not_P[OF nd] hb h(6,7) append.simps by blast
  moreover from this(3) have "vr_r e' = 0" "receiver_buffer e' = []" "log_data_ind e' = [[1, 2, 3]]"
    unfolding receives_def Let_def run sd[unfolded run, symmetric]
    by (simp_all add: wrap_example_def ins_pdu_def rx_info_def sn_mask_mod zero_entity_def)
  ultimately show ?thesis using seq by blast
qed

text \<open>
  \<^verbatim>\<open>VR(MS)\<close> is meant to be the first number that is not completely received. The walk does not look
  for gaps between the stored numbers: with PDU 2 stored and PDU 1 missing, PDU 0 moves it to 3.
\<close>

lemma vr_ms_skips_missing:
  "rlc_am_rx_update_vr_ms 0 [\<lparr>pdu_info = rx_info 0 0 [1], all_segments_received = True\<rparr>,
      \<lparr>pdu_info = rx_info 2 0 [1], all_segments_received = True\<rparr>] = 3"
  by (simp add: rx_info_def sn_mask_mod)

end
