(* ===== verification/Rlc_Am_Independence.thy ===== *)
theory Rlc_Am_Independence
  imports Rlc_Am_Receiver
begin

text \<open>
  The two sides of the entity. A STATUS PDU, whatever its bytes, leaves the receiving side as it
  is; a data PDU, whatever its bytes, leaves the transmitting side as it is, and keeps the receive
  window 512 numbers wide. Both hold for every block for which the handler returns.
\<close>

definition rx_side where
  "rx_side e = (receiver_buffer e, output_sdu_in_construction e, output_sdu_size_to_write e, vr_r e, vr_mr e,
     vr_x e, vr_ms e, vr_h e, t_reordering e, status_requested e, log_data_ind e)"

definition tx_side where
  "tx_side e = (input_sdus e, nb_sdu e, nb_sdu_no_segmented e, next_sdu_index e, current_sdu_index e,
     sdu_buffer_occupancy e, pdu_retrans_buffer e, retrans_num_pdus e, retrans_num_bytes e,
     retrans_num_bytes_to_retransmit e, first_retrans_pdu_sn e, (vt_a e, vt_ms e, vt_s e, poll_sn e),
     (t_poll_retransmit e, c_pdu_without_poll e, c_byte_without_poll e, log_data_conf e))"

text \<open>The state towards MAC, and together with the receiving side what processing a STATUS PDU leaves alone.\<close>

definition mac_side where
  "mac_side e = (protocol_state e, control_pdu_list e, segmentation_pdu_list e, pdus_to_mac_layer e, t_status_prohibit e,
     nb_bytes_requested_by_mac e)"

definition ack_frame where
  "ack_frame e = (rx_side e, mac_side e)"

subsection \<open>Acknowledgement leaves the receiving side\<close>

lemma ack_frame_upd [simp]:
  "ack_frame (e\<lparr>input_sdus := a\<rparr>) = ack_frame e" "ack_frame (e\<lparr>nb_sdu := i\<rparr>) = ack_frame e"
  "ack_frame (e\<lparr>nb_sdu_no_segmented := i\<rparr>) = ack_frame e" "ack_frame (e\<lparr>current_sdu_index := i\<rparr>) = ack_frame e"
  "ack_frame (e\<lparr>pdu_retrans_buffer := b\<rparr>) = ack_frame e" "ack_frame (e\<lparr>log_data_conf := l\<rparr>) = ack_frame e"
  "ack_frame (e\<lparr>stats := t\<rparr>) = ack_frame e" "ack_frame (e\<lparr>num_nack_so := n\<rparr>) = ack_frame e"
  "ack_frame (e\<lparr>num_nack_sn := n\<rparr>) = ack_frame e" "ack_frame (e\<lparr>vt_a := i\<rparr>) = ack_frame e"
  "ack_frame (e\<lparr>vt_ms := i\<rparr>) = ack_frame e" "ack_frame (e\<lparr>first_retrans_pdu_sn := i\<rparr>) = ack_frame e"
  "ack_frame (e\<lparr>retrans_num_pdus := i\<rparr>) = ack_frame e" "ack_frame (e\<lparr>retrans_num_bytes := i\<rparr>) = ack_frame e"
  "ack_frame (e\<lparr>retrans_num_bytes_to_retransmit := i\<rparr>) = ack_frame e" "ack_frame (e\<lparr>t_poll_retransmit := r\<rparr>) = ack_frame e"
  by (simp_all add: ack_frame_def rx_side_def mac_side_def)

lemma free_in_sdu_skip_rx: "free_in_sdu_skip e = Some e' \<Longrightarrow> ack_frame e' = ack_frame e"
  by (erule free_in_sdu_skip.raw_induct[rotated]) (fastforce split: if_splits)

lemma free_in_sdu_rx: "rlc_am_free_in_sdu e f i = Some e' \<Longrightarrow> ack_frame e' = ack_frame e"
  by (auto simp: rlc_am_free_in_sdu_def Let_def split: if_splits dest!: free_in_sdu_skip_rx)

lemma nack_sdus_rx: "nack_sdus f is e = Some e' \<Longrightarrow> ack_frame e' = ack_frame e"
  by (induction "is" arbitrary: e) (auto simp: Let_def split: if_splits dest!: free_in_sdu_rx)

lemma ack_sdus_rx: "ack_sdus f is e = Some e' \<Longrightarrow> ack_frame e' = ack_frame e"
  by (induction "is" arbitrary: e) (auto simp: Let_def split: if_splits dest!: free_in_sdu_rx)

lemma advance_vt_a_rx: "ack_frame (advance_vt_a e) = ack_frame e"
proof (induction e rule: advance_vt_a.induct)
  case (1 e)
  have "ack_frame (advance_vt_a_step e) = ack_frame e" by (simp add: advance_vt_a_step_def Let_def)
  then show ?case using 1 by (subst advance_vt_a.simps) (auto simp: Let_def)
qed

lemma advance_window_rx: "ack_frame (advance_window e) = ack_frame e"
  using advance_vt_a_rx[of e] by (simp add: advance_window_def Let_def)

lemma mark_acked_rx: "mark_acked sn e = Some e' \<Longrightarrow> ack_frame e' = ack_frame e"
  using advance_window_rx[of "upd_pdu sn (\<lambda>p. p\<lparr>txp_ack := True\<rparr>) e"]
  by (auto simp: mark_acked_def Let_def split: if_splits)

lemma ack_pdu_rx:
  assumes "rlc_am_ack_pdu e f sn = Some e'"
  shows "ack_frame e' = ack_frame e"
proof -
  have "ack_frame (release_pdu sn x) = ack_frame x" for x by (simp add: release_pdu_def Let_def)
  then show ?thesis
    using assms unfolding rlc_am_ack_pdu_def Let_def
    by (auto simp: advance_window_rx split: if_splits dest!: ack_sdus_rx mark_acked_rx)
qed

lemma nack_pdu_rx:
  assumes "rlc_am_nack_pdu e f sn s t = Some e'"
  shows "ack_frame e' = ack_frame e"
proof -
  have "ack_frame (nack_begin f sn s t x) = ack_frame x" "ack_frame (nack_schedule sn x) = ack_frame x" for x
    by (simp_all add: nack_begin_def nack_schedule_def rlc_am_clear_holes_def Let_def)
  moreover have "rlc_am_add_hole x f sn s t = Some y \<Longrightarrow> ack_frame y = ack_frame x" for x y
    by (auto simp: rlc_am_add_hole_def)
  ultimately show ?thesis
    using assms unfolding rlc_am_nack_pdu_def Let_def by (fastforce split: if_splits dest!: nack_sdus_rx)
qed

lemma stop_poll_at_rx [simp]: "ack_frame (stop_poll_at f c e) = ack_frame e"
  by (simp add: stop_poll_at_def rlc_am_stop_and_reset_timer_poll_retransmit_def)

lemma ack_loop_rx: "ack_loop f a c e = Some e' \<Longrightarrow> ack_frame e' = ack_frame e"
  by (erule ack_loop.raw_induct[rotated]) (fastforce split: if_splits dest!: ack_pdu_rx)

lemma nack_step_rx: "nack_step f nks c i e = Some r \<Longrightarrow> ack_frame (snd (snd r)) = ack_frame e"
  by (auto simp: nack_step_def Let_def split: if_splits dest!: ack_pdu_rx nack_pdu_rx)

lemma nack_loop_rx: "nack_loop f nks a c i e = Some e' \<Longrightarrow> ack_frame e' = ack_frame e"
  by (erule nack_loop.raw_induct[rotated]) (fastforce split: if_splits dest!: nack_step_rx)

lemma control_pdu_rx:
  assumes "rlc_am_receive_process_control_pdu e f bs n = Some (e', r)"
  shows "ack_frame e' = ack_frame e"
  using assms unfolding rlc_am_receive_process_control_pdu_def Let_def
  by (auto split: if_splits dest!: ack_loop_rx nack_loop_rx)

lemma ack_frameD: "ack_frame e' = ack_frame e \<Longrightarrow> rx_side e' = rx_side e" "ack_frame e' = ack_frame e \<Longrightarrow> mac_side e' = mac_side e"
  by (simp_all add: ack_frame_def)

subsection \<open>Reception leaves the transmitting side\<close>

definition rx_window_ok :: "rlc_am_entity \<Rightarrow> bool" where
  "rx_window_ok e \<longleftrightarrow> valid_sn (vr_r e) \<and> vr_mr e = sn_mask (vr_r e + RLC_AM_WINDOW_SIZE)"

lemma reassembly_rest: "rlc_am_reassembly src n e = Some e' \<Longrightarrow> rx_rest e' = rx_rest e"
  by (auto simp: rlc_am_reassembly_def Let_def rx_rest_def split: if_splits)

lemma send_sdu_rest: "rlc_am_send_sdu e = Some e' \<Longrightarrow> rx_rest e' = rx_rest e"
  by (auto simp: rlc_am_send_sdu_def rx_rest_def split: if_splits option.splits)

lemma feed_lis_rest:
  "feed_lis rlc_am_reassembly rlc_am_send_sdu src ls e = Some (r, e') \<Longrightarrow> rx_rest e' = rx_rest e"
  by (induction ls arbitrary: src e) (auto dest!: reassembly_rest send_sdu_rest)

lemma reassemble_pdu_rest:
  assumes "rlc_am_reassemble_pdu e x = Some e'"
  shows "rx_rest e' = rx_rest e"
  by (cases "pi_e (pdu_info x) = 0"; cases "pi_fi (pdu_info x) = 0"; cases "pi_fi (pdu_info x) = 1";
      cases "pi_fi (pdu_info x) = 2"; cases "0 < pi_hidden_size (pdu_info x)")
    (use assms in \<open>auto simp: rlc_am_reassemble_pdu_def Let_def dest!: reassembly_rest send_sdu_rest feed_lis_rest\<close>)+

lemma rx_rest_upd_buffer: "rx_rest (e\<lparr>receiver_buffer := b\<rparr>) = (rx_rest e)\<lparr>receiver_buffer := b\<rparr>"
  by (simp add: rx_rest_def)

lemma reassemble_loop_rest:
  "reassemble_loop xs e = Some e' \<Longrightarrow> \<exists>b. rx_rest e' = (rx_rest e)\<lparr>receiver_buffer := b\<rparr>"
proof (induction xs arbitrary: e)
  case Nil
  then show ?case by (metis reassemble_loop.simps(1) option.inject rx_rest_buffer)
next
  case (Cons x xs)
  show ?case
  proof (cases "all_segments_received x")
    case True
    then obtain e1 where e1: "rlc_am_reassemble_pdu (e\<lparr>receiver_buffer := xs\<rparr>) x = Some e1"
      "reassemble_loop xs e1 = Some e' \<or> e' = e1"
      using Cons.prems unfolding reassemble_loop_step by (auto split: if_splits)
    have r: "rx_rest e1 = (rx_rest e)\<lparr>receiver_buffer := xs\<rparr>"
      using reassemble_pdu_rest[OF e1(1)] by (simp add: rx_rest_upd_buffer)
    from e1(2) show ?thesis
    proof
      assume "reassemble_loop xs e1 = Some e'"
      then obtain b where "rx_rest e' = (rx_rest e1)\<lparr>receiver_buffer := b\<rparr>" using Cons.IH by blast
      then show ?thesis using r by auto
    qed (use r in blast)
  next
    case False
    then show ?thesis using Cons.prems unfolding reassemble_loop_step by (metis option.inject rx_rest_buffer)
  qed
qed

lemma tx_side_rx_rest:
  assumes "rx_rest e' = (rx_rest e)\<lparr>receiver_buffer := b\<rparr>"
  shows "tx_side e' = tx_side e" "vr_r e' = vr_r e" "vr_mr e' = vr_mr e"
proof -
  have t: "tx_side x = tx_side (rx_rest x)" "vr_r x = vr_r (rx_rest x)" "vr_mr x = vr_mr (rx_rest x)" for x
    by (simp_all add: tx_side_def rx_rest_def)
  show "tx_side e' = tx_side e" "vr_r e' = vr_r e" "vr_mr e' = vr_mr e"
    unfolding t[of e'] t[of e] assms by (simp_all add: tx_side_def)
qed

lemma tx_side_upd [simp]:
  "tx_side (e\<lparr>vr_h := i\<rparr>) = tx_side e" "tx_side (e\<lparr>receiver_buffer := b\<rparr>) = tx_side e"
  "tx_side (e\<lparr>vr_ms := i\<rparr>) = tx_side e" "tx_side (e\<lparr>vr_r := i\<rparr>) = tx_side e" "tx_side (e\<lparr>vr_mr := i\<rparr>) = tx_side e"
  "tx_side (e\<lparr>vr_x := i\<rparr>) = tx_side e" "tx_side (e\<lparr>t_reordering := t\<rparr>) = tx_side e"
  "tx_side (e\<lparr>stats := s\<rparr>) = tx_side e" "tx_side (e\<lparr>status_requested := q\<rparr>) = tx_side e"
  by (simp_all add: tx_side_def)

lemma update_vr_r_valid: "valid_sn v \<Longrightarrow> valid_sn (rlc_am_rx_update_vr_r v xs)"
  by (induction xs arbitrary: v) auto

lemma reassemble_sdus_tx:
  assumes "rlc_am_rx_list_reassemble_rlc_sdus e = Some e'"
  shows "tx_side e' = tx_side e" "rx_window_ok e' = rx_window_ok e"
proof -
  obtain b where "rx_rest e' = (rx_rest e)\<lparr>receiver_buffer := b\<rparr>"
    using assms reassemble_loop_rest unfolding rlc_am_rx_list_reassemble_rlc_sdus_def by blast
  note t = tx_side_rx_rest[OF this]
  show "tx_side e' = tx_side e" "rx_window_ok e' = rx_window_ok e" by (simp_all add: t rx_window_ok_def)
qed

lemma rx_stored_tx:
  assumes "rx_stored b p a e = Some e'"
  shows "tx_side e' = tx_side e" "rx_window_ok e \<Longrightarrow> rx_window_ok e'"
proof -
  define e1 where "e1 = (if rlc_am_sn_gte_vr_h e (rx_sn p) then e\<lparr>vr_h := sn_mask (rx_sn p + 1)\<rparr> else e)"
  define l where "l = rlc_am_rx_check_all_byte_segments b p a"
  define e2 where "e2 = e1\<lparr>receiver_buffer := l\<rparr>"
  define e3 where "e3 = (if rx_sn p = vr_ms e2 \<and> all_segments_received (l ! length b)
    then e2\<lparr>vr_ms := rlc_am_rx_update_vr_ms (vr_ms e2) (drop (length b) l)\<rparr> else e2)"
  define r where "r = rlc_am_rx_update_vr_r (vr_r e3) (drop (length b) l)"
  define e4 where "e4 = (if all_segments_received (l ! length b)
    then e3\<lparr>vr_r := r, vr_mr := sn_mask (r + RLC_AM_WINDOW_SIZE)\<rparr> else e3)"
  have eq: "rx_stored b p a e = (if rx_sn p = vr_r e3 then rlc_am_rx_list_reassemble_rlc_sdus e4 else Some e3)"
    unfolding rx_stored_def Let_def e4_def r_def e3_def e2_def l_def e1_def ..
  have t3: "tx_side e3 = tx_side e" "rx_window_ok e \<Longrightarrow> rx_window_ok e3"
    by (simp_all add: e3_def e2_def e1_def rx_window_ok_def)
  have t4: "tx_side e4 = tx_side e" "rx_window_ok e \<Longrightarrow> rx_window_ok e4"
    using t3 update_vr_r_valid[of "vr_r e3" "drop (length b) l"] by (simp_all add: e4_def r_def rx_window_ok_def)
  show "tx_side e' = tx_side e" "rx_window_ok e \<Longrightarrow> rx_window_ok e'"
    using assms t3 t4 reassemble_sdus_tx[of e4 e'] unfolding eq by (auto split: if_splits)
qed

lemma rx_reordering_tx [simp]: "tx_side (rx_reordering f sn e) = tx_side e"
  by (simp add: rx_reordering_def Let_def rlc_am_stop_and_reset_timer_reordering_def rlc_am_start_timer_reordering_def)

lemma data_pdu_tx:
  assumes "rlc_am_receive_process_data_pdu e f bs n = Some e'"
  shows "tx_side e' = tx_side e" "rx_window_ok e \<Longrightarrow> rx_window_ok e'"
proof -
  obtain rc i where d: "rlc_am_get_data_pdu_infos bs (to_int16 n) = Some (rc, i)"
    using assms by (auto simp: rlc_am_receive_process_data_pdu_def)
  let ?p = "\<lparr>pdu_info = i, all_segments_received = False\<rparr>"
  define e1 where "e1 = (if pi_p i \<noteq> 0 then e\<lparr>status_requested := True\<rparr> else e)"
  have e1: "tx_side e1 = tx_side e" "rx_window_ok e1 = rx_window_ok e" by (simp_all add: e1_def rx_window_ok_def)
  have "e' \<in> {e, (count_out_of_window n e)\<lparr>status_requested := True\<rparr>, (count_dropped n e1)\<lparr>status_requested := True\<rparr>} \<or>
     (\<exists>b a x. rx_stored b ?p a e1 = Some x \<and> e' = rx_reordering f (pi_sn i) x)"
    using assms unfolding rlc_am_receive_process_data_pdu_def d Let_def
    by (cases "pi_p i = 0"; auto simp: e1_def split: if_splits option.splits prod.splits)
  then show "tx_side e' = tx_side e" "rx_window_ok e \<Longrightarrow> rx_window_ok e'"
    using e1 rx_stored_tx[of _ ?p _ e1] by (auto simp: count_out_of_window_def count_dropped_def rx_window_ok_def)
qed

text \<open>
  (C26) The two directions of a bearer do not interfere: whatever the bytes of a received block, a
  block handled as a STATUS PDU leaves the reception buffer, the SDU under construction, the
  receive variables, the reordering timer and the delivered SDUs as they are, and a block handled
  as a data PDU leaves the SDU queue, the retransmission buffer, the transmit variables, the poll
  state and the confirmations as they are. A data PDU also keeps the receive window 512 numbers
  wide.
\<close>

theorem directions_independent:
  assumes "receive_tb f tb e = Some e'" "0 < ti_size tb"
  shows "((ti_data tb ! 0) AND 0x80 = 0x80 \<longrightarrow> tx_side e' = tx_side e \<and> (rx_window_ok e \<longrightarrow> rx_window_ok e')) \<and>
    (\<not> (ti_data tb ! 0) AND 0x80 = 0x80 \<longrightarrow> rx_side e' = rx_side e)"
proof (cases "(ti_data tb ! 0) AND 0x80 = 0x80")
  case True
  let ?e1 = "e\<lparr>stats := (stats e)\<lparr>stat_rx_data_bytes := stat_rx_data_bytes (stats e) + word_of_int (ti_size tb),
    stat_rx_data_pdu := stat_rx_data_pdu (stats e) + 1\<rparr>\<rparr>"
  have "rlc_am_receive_process_data_pdu ?e1 f (ti_data tb) (to_uint16 (ti_size tb)) = Some e'"
    using assms True by (auto simp: receive_tb_def Let_def split: if_splits)
  from data_pdu_tx[OF this] show ?thesis using True by (simp add: rx_window_ok_def)
next
  case False
  let ?e1 = "e\<lparr>stats := (stats e)\<lparr>stat_rx_control_bytes := stat_rx_control_bytes (stats e) + word_of_int (ti_size tb),
    stat_rx_control_pdu := stat_rx_control_pdu (stats e) + 1\<rparr>\<rparr>"
  obtain r where "rlc_am_receive_process_control_pdu ?e1 f (ti_data tb) (ti_size tb) = Some (e', r)"
    using assms False by (auto simp: receive_tb_def Let_def split: if_splits)
  from ack_frameD(1)[OF control_pdu_rx[OF this]] show ?thesis using False by (simp add: rx_side_def)
qed

text \<open>A data PDU outside the window, and a STATUS PDU that acknowledges nothing.\<close>

definition idle_example :: rlc_am_entity where
  "idle_example = zero_entity\<lparr>vt_ms := 512, vr_mr := 512\<rparr>"

theorem directions_independent_witness:
  "(\<exists>e'. receive_tb 0 \<lparr>ti_data = [171, 254, 1, 2], ti_size = 4\<rparr> idle_example = Some e' \<and>
     tx_side e' = tx_side idle_example \<and> rx_window_ok e') \<and>
   (\<exists>e'. receive_tb 0 \<lparr>ti_data = [0, 0], ti_size = 2\<rparr> idle_example = Some e' \<and> rx_side e' = rx_side idle_example)"
proof -
  let ?i = "rx_info 1022 1 [1, 2]"
  have hb: "header_bytes ?i = [171, 254]" by (simp add: header_bytes_def rx_info_def)
  have ok: "header_ok ?i" unfolding header_ok_def hb by (simp add: rx_info_def)
  have dec: "rlc_am_get_data_pdu_infos [171, 254, 1, 2] 4 = Some (0, ?i)"
    using decode_header_bytes[OF ok] unfolding hb by (simp add: rx_info_def)
  obtain e1 where e1: "receive_tb 0 \<lparr>ti_data = [171, 254, 1, 2], ti_size = 4\<rparr> idle_example = Some e1"
    by (simp add: receive_tb_def rlc_am_receive_process_data_pdu_def to_uint16_def to_int16_def dec
        rlc_am_in_rx_window_def idle_example_def zero_entity_def rx_info_def)
  obtain e2 where e2: "receive_tb 0 \<lparr>ti_data = [0, 0], ti_size = 2\<rparr> idle_example = Some e2"
    by (simp add: receive_tb_def rlc_am_receive_process_control_pdu_def rlc_am_get_control_pdu_infos_def
        rlc_am_in_tx_window_def idle_example_def zero_entity_def ack_loop.simps)
  have "rx_window_ok idle_example" by (simp add: rx_window_ok_def valid_sn_def sn_mask_mod idle_example_def zero_entity_def)
  then show ?thesis
    using e1 e2 directions_independent[OF e1] directions_independent[OF e2] by simp
qed

end
