(* ===== verification/Rlc_Am_Segment.thy ===== *)
theory Rlc_Am_Segment
  imports Rlc_Am_Header Rlc_Am_Retransmit
begin

text \<open>
  Segmentation and concatenation: \<^verbatim>\<open>rlc_am_segment_10\<close> of \<^verbatim>\<open>rlc_am_segment.c\<close>. One call builds at
  most one PDU. A first loop over the waiting SDUs computes how many length indicators the PDU
  needs and how many bytes of it stay unused; a second loop copies the bytes of the SDUs behind the
  space of the length indicators and writes these.

  The memory block of the PDU is the list of its bytes. A new block holds whatever was there
  before (the argument \<open>mem\<close>) but for its first four bytes, which the code clears. Reading an SDU or
  writing the block out of bounds is \<open>None\<close>, like a failed assertion; allocation succeeds.
\<close>

subsection \<open>How many SDUs fit\<close>

record seg_test =
  st_cont :: bool
  st_num_fill :: int
  st_num_li :: int
  st_index :: int
  st_rem :: int
  st_li_len :: int
  st_sub_size :: int
  st_sub_num :: int
  st_pdu_rem :: int

text \<open>The body of the first loop: the decision for an SDU with \<open>sz\<close> bytes left.\<close>

definition seg_test_step :: "int \<Rightarrow> int \<Rightarrow> seg_test \<Rightarrow> seg_test" where
  "seg_test_step sz nb_sdus t =
     (let li = st_li_len t XOR 3;
          stop = t\<lparr>st_cont := False, st_num_fill := st_num_fill t + 1, st_rem := 0,
            st_sub_size := 0, st_sub_num := 0\<rparr>
      in if sz > st_rem t then stop
         else if sz = st_rem t then stop
         else if sz + li = st_rem t then stop\<lparr>st_pdu_rem := st_pdu_rem t - li\<rparr>
         else if sz + li < st_rem t then
           (if nb_sdus \<ge> RLC_AM_MAX_SDU_IN_PDU - 1
            then stop\<lparr>st_num_fill := st_num_fill t, st_pdu_rem := st_pdu_rem t - 1\<rparr>
            else t\<lparr>st_num_li := st_num_li t + 1, st_num_fill := st_num_fill t + 1,
              st_rem := st_rem t - (sz + li), st_sub_size := li, st_sub_num := 1, st_li_len := li\<rparr>)
         else stop\<lparr>st_pdu_rem := st_pdu_rem t - 1\<rparr>)"

text \<open>The SDU and the PDU refer to each other.\<close>

definition seg_link :: "int \<Rightarrow> int \<Rightarrow> rlc_am_entity \<Rightarrow> rlc_am_entity" where
  "seg_link sn i e =
     upd_sdu i (\<lambda>s. s\<lparr>sdu_pdus_index := (sdu_pdus_index s)(sdu_nb_pdus s := sn), sdu_nb_pdus := sdu_nb_pdus s + 1\<rparr>)
       (upd_pdu sn (\<lambda>p. p\<lparr>txp_sdus_index := (txp_sdus_index p)(txp_nb_sdus p := i), txp_nb_sdus := txp_nb_sdus p + 1\<rparr>) e)"

abbreviation seg_slot :: "rlc_am_entity \<Rightarrow> int" where
  "seg_slot e \<equiv> vt_s e mod RLC_AM_PDU_RETRANSMISSION_BUFFER_SIZE"

lemma seg_link_simps [simp]:
  "vt_s (seg_link sn i e) = vt_s e"
  "pdu_retrans_buffer (seg_link sn i e) = (pdu_retrans_buffer e)(sn := (pdu_retrans_buffer e sn)\<lparr>
     txp_sdus_index := (txp_sdus_index (pdu_retrans_buffer e sn))(txp_nb_sdus (pdu_retrans_buffer e sn) := i),
     txp_nb_sdus := txp_nb_sdus (pdu_retrans_buffer e sn) + 1\<rparr>)"
  by (simp_all add: seg_link_def)

function seg_test_loop :: "seg_test \<Rightarrow> rlc_am_entity \<Rightarrow> (seg_test \<times> rlc_am_entity) option" where
  "seg_test_loop t e =
     (let i = st_index t; s = input_sdus e i
      in if \<not> sdu_index_ok i then None
         else if sdu_mem_block s \<noteq> None \<and> st_cont t then
           let t1 = seg_test_step (sdu_remaining_size s) (txp_nb_sdus (pdu_retrans_buffer e (seg_slot e))) t;
               e1 = seg_link (seg_slot e) i e
           in if sdu_nb_pdus (input_sdus e1 i) < RLC_AM_MAX_SDU_FRAGMENTS
              then seg_test_loop (t1\<lparr>st_index := ring_next i\<rparr>) e1 else None
         else Some (t, e))"
  by auto
termination
  by (relation "measure (\<lambda>(t, e). if st_cont t then Suc (nat (32 - txp_nb_sdus (pdu_retrans_buffer e (seg_slot e)))) else 0)")
    (auto simp: seg_test_step_def Let_def)

declare seg_test_loop.simps [simp del]

subsection \<open>Filling the PDU\<close>

text \<open>Bytes written into a block from an offset on.\<close>

definition mem_write :: "int \<Rightarrow> byte list \<Rightarrow> byte list \<Rightarrow> byte list option" where
  "mem_write off bs buf =
     (if 0 \<le> off \<and> off + int (length bs) \<le> int (length buf)
      then Some (take (nat off) buf @ bs @ drop (nat off + length bs) buf) else None)"

record seg_fill =
  sf_cont :: bool
  sf_data :: int
  sf_e_li :: int
  sf_li_len :: int
  sf_num_li :: int
  sf_last :: bool
  sf_pdu_rem :: int
  sf_buf :: "byte list"

text \<open>\<^verbatim>\<open>memcpy(data, data_sdu_p, n)\<close>.\<close>

definition seg_copy :: "rlc_am_tx_sdu_management \<Rightarrow> int \<Rightarrow> seg_fill \<Rightarrow> seg_fill option" where
  "seg_copy s n g =
     (case sdu_mem_block s of None \<Rightarrow> None
      | Some d \<Rightarrow>
          do {
            c_assert (0 \<le> n \<and> 0 \<le> sdu_segmented_size s \<and> sdu_segmented_size s + n \<le> int (length d));
            buf \<leftarrow> mem_write (sf_data g) (take (nat n) (drop (nat (sdu_segmented_size s)) d)) (sf_buf g);
            Some (g\<lparr>sf_buf := buf\<rparr>)
          })"

text \<open>
  Writing the length indicator \<open>sz\<close>, with \<open>follows\<close> telling that another one follows. The first form
  sets two bytes, the second completes the second byte and sets the third.
\<close>

definition seg_write_li :: "bool \<Rightarrow> int \<Rightarrow> seg_fill \<Rightarrow> seg_fill option" where
  "seg_write_li follows sz g =
     (if sf_li_len g = 2 then
        do {
          buf \<leftarrow> mem_write (sf_e_li g)
            [(if follows then 0x80 else 0) OR word_of_int (drop_bit 4 sz), word_of_int (push_bit 4 sz)] (sf_buf g);
          Some (g\<lparr>sf_buf := buf\<rparr>)
        }
      else
        do {
          c_assert (0 \<le> sf_e_li g \<and> sf_e_li g + 1 < int (length (sf_buf g)));
          let b2 = sf_buf g ! nat (sf_e_li g + 1);
          let b2 = (if follows then b2 OR 0x08 else b2);
          buf \<leftarrow> mem_write (sf_e_li g + 1) [b2 OR word_of_int (drop_bit 8 sz), word_of_int (sz AND 0xFF)] (sf_buf g);
          Some (g\<lparr>sf_buf := buf, sf_e_li := sf_e_li g + 3\<rparr>)
        })"

text \<open>The last bytes of the current SDU are in the PDU.\<close>

definition seg_sdu_done :: "int \<Rightarrow> rlc_am_entity \<Rightarrow> rlc_am_entity option" where
  "seg_sdu_done sz e =
     do {
       let e1 = upd_pdu (seg_slot e) (\<lambda>p. p\<lparr>txp_payload_size := txp_payload_size p + sz\<rparr>) e;
       let e2 = e1\<lparr>sdu_buffer_occupancy := sdu_buffer_occupancy e1 - sz\<rparr>;
       e3 \<leftarrow> rlc_am_free_in_sdu_data e2 (current_sdu_index e2);
       Some (e3\<lparr>current_sdu_index := ring_next (current_sdu_index e3)\<rparr>)
     }"

definition seg_fill_step :: "int \<Rightarrow> seg_fill \<Rightarrow> rlc_am_entity \<Rightarrow> (seg_fill \<times> rlc_am_entity) option" where
  "seg_fill_step test_num_li g e =
     (let i = current_sdu_index e; s = input_sdus e i; sz = sdu_remaining_size s; n = sf_pdu_rem g;
          li = sf_li_len g XOR 3
      in if sz > n then
           do {
             g1 \<leftarrow> seg_copy s n g;
             let e1 = upd_pdu (seg_slot e) (\<lambda>p. p\<lparr>txp_payload_size := txp_payload_size p + n\<rparr>) e;
             let e2 = upd_sdu i (\<lambda>s. s\<lparr>sdu_remaining_size := sdu_remaining_size s - n,
                   sdu_segmented_size := sdu_segmented_size s + n\<rparr>) e1;
             Some (g1\<lparr>sf_last := False, sf_cont := False, sf_pdu_rem := 0\<rparr>,
               e2\<lparr>sdu_buffer_occupancy := sdu_buffer_occupancy e2 - n\<rparr>)
           }
         else if sz = n then
           do {
             g1 \<leftarrow> seg_copy s n g;
             e1 \<leftarrow> seg_sdu_done sz e;
             Some (g1\<lparr>sf_last := True, sf_cont := False, sf_pdu_rem := 0\<rparr>, e1)
           }
         else if sz + li < n then
           (if sf_num_li g = RLC_AM_MAX_SDU_IN_PDU - 1 then
              do {
                g1 \<leftarrow> seg_copy s sz g;
                e1 \<leftarrow> seg_sdu_done sz e;
                Some (g1\<lparr>sf_pdu_rem := 0, sf_cont := False, sf_last := True\<rparr>, e1)
              }
            else
              do {
                g1 \<leftarrow> seg_copy s sz g;
                let g2 = g1\<lparr>sf_data := sf_data g1 + sz, sf_li_len := li, sf_num_li := sf_num_li g1 + 1\<rparr>;
                g3 \<leftarrow> seg_write_li (sf_num_li g2 \<noteq> test_num_li) sz g2;
                e1 \<leftarrow> seg_sdu_done sz e;
                Some (g3\<lparr>sf_pdu_rem := n - (sz + li)\<rparr>, e1)
              })
         else None)"

text \<open>Each round but the last one empties a slot of the ring.\<close>

definition live_slots :: "rlc_am_entity \<Rightarrow> int set" where
  "live_slots e = {i. sdu_index_ok i \<and> sdu_mem_block (input_sdus e i) \<noteq> None}"

lemma finite_live_slots [simp]: "finite (live_slots e)"
  by (rule finite_subset[of _ "{0..<128}"]) (auto simp: live_slots_def sdu_index_ok_def)

lemma seg_fill_step_shrinks:
  assumes "seg_fill_step m g e = Some (g', e')" "sf_cont g'" "sdu_index_ok (current_sdu_index e)"
    "sdu_mem_block (input_sdus e (current_sdu_index e)) \<noteq> None"
  shows "card (live_slots e') < card (live_slots e)"
proof -
  let ?i = "current_sdu_index e"
  have "live_slots e' = live_slots e - {?i}"
    using assms by (auto simp: seg_fill_step_def seg_sdu_done_def rlc_am_free_in_sdu_data_def live_slots_def
        Let_def sdu_index_ok_def split: if_splits)
  moreover have "?i \<in> live_slots e" using assms(3,4) by (simp add: live_slots_def)
  ultimately show ?thesis by (simp only: card_Diff1_less finite_live_slots)
qed

function seg_fill_loop :: "int \<Rightarrow> seg_fill \<Rightarrow> rlc_am_entity \<Rightarrow> (seg_fill \<times> rlc_am_entity) option" where
  "seg_fill_loop test_num_li g e =
     (if \<not> sdu_index_ok (current_sdu_index e) then None
      else if sdu_mem_block (input_sdus e (current_sdu_index e)) \<noteq> None \<and> sf_cont g then
        (case seg_fill_step test_num_li g e of None \<Rightarrow> None
         | Some (g', e') \<Rightarrow> seg_fill_loop test_num_li g' e')
      else Some (g, e))"
  by auto
termination
  by (relation "measure (\<lambda>(m, g, e). if sf_cont g then Suc (card (live_slots e)) else 0)")
    (auto intro!: seg_fill_step_shrinks)

declare seg_fill_loop.simps [simp del]

subsection \<open>One PDU\<close>

definition segment_size :: "rlc_am_entity \<Rightarrow> int" where
  "segment_size e =
     (let n = sdu_buffer_occupancy e + RLC_AM_HEADER_MIN_SIZE + max_li_overhead (nb_sdu_no_segmented e)
      in if nb_bytes_requested_by_mac e \<ge> n then n else nb_bytes_requested_by_mac e)"

definition new_block :: "(nat \<Rightarrow> byte) \<Rightarrow> int \<Rightarrow> byte list" where
  "new_block mem n = [0, 0, 0, 0] @ map mem [4..<nat n]"

text \<open>The fixed part of the header, the entity's variables and the copy for MAC.\<close>

definition segment_finish :: "int \<Rightarrow> bool \<Rightarrow> seg_fill \<Rightarrow> rlc_am_entity \<Rightarrow> frame \<Rightarrow> rlc_am_entity option" where
  "segment_finish data_pdu_size first g e frameP =
     do {
       let sn = seg_slot e;
       let fi = (if first then 0 else 2) + (if sf_last g then 0 else 1);
       let b1 = (sf_buf g ! 0) OR push_bit 3 (word_of_int fi);
       let b1 = (if sf_num_li g > 0 then b1 OR 0x04 else b1);
       let tb = data_pdu_size - sf_pdu_rem g;
       let b1 = (b1 OR 0x80) OR word_of_int (drop_bit 8 (vt_s e));
       let b2 = word_of_int (vt_s e AND 0xFF);
       let e1 = e\<lparr>stats := (stats e)\<lparr>stat_tx_data_pdu := stat_tx_data_pdu (stats e) + 1,
             stat_tx_data_bytes := stat_tx_data_bytes (stats e) + word_of_int tb\<rparr>,
           vt_s := sn_mask (vt_s e + 1)\<rparr>;
       c_assert (tb < RLC_SDU_MAX_SIZE);
       let (e2, b1p) = rlc_am_pdu_polling e1 frameP b1 (txp_payload_size (pdu_retrans_buffer e1 sn));
       let e3 = upd_pdu sn (\<lambda>p. p\<lparr>txp_mem_block := Some \<lparr>tb_size = tb, tb_data = (sf_buf g)[0 := b1p, 1 := b2]\<rparr>,
             txp_header_and_payload_size := tb, txp_retx_count := - 1\<rparr>) e2;
       let e4 = e3\<lparr>retrans_num_pdus := retrans_num_pdus e3 + 1, retrans_num_bytes := retrans_num_bytes e3 + tb\<rparr>;
       (copy, e5) \<leftarrow> rlc_am_retransmit_get_copy e4 frameP (sn_mask (vt_s e4 - 1));
       case copy of None \<Rightarrow> Some e5
       | Some c \<Rightarrow> Some (e5\<lparr>segmentation_pdu_list := segmentation_pdu_list e5 @ [c]\<rparr>)
     }"

definition segment_pdu :: "(nat \<Rightarrow> byte) \<Rightarrow> rlc_am_entity \<Rightarrow> frame \<Rightarrow> rlc_am_entity option" where
  "segment_pdu mem e frameP =
     do {
       let data_pdu_size = segment_size e;
       let rem = data_pdu_size - RLC_AM_HEADER_MIN_SIZE;
       let e1 = upd_pdu (seg_slot e) (\<lambda>_. zero_tx_pdu) e;
       (t, e2) \<leftarrow> seg_test_loop \<lparr>st_cont = True, st_num_fill = 0, st_num_li = 0, st_index = current_sdu_index e1,
         st_rem = rem, st_li_len = 1, st_sub_size = 0, st_sub_num = 0, st_pdu_rem = rem\<rparr> e1;
       let test_num_li = (if st_sub_num t > 0 then st_num_li t - 1 else st_num_li t);
       let pdu_rem = (if st_sub_num t > 0 then st_pdu_rem t - st_sub_size t else st_pdu_rem t);
       let data = 2 + (test_num_li * 3 + 1) div 2;
       let e3 = upd_pdu (seg_slot e2) (\<lambda>p. p\<lparr>txp_payload := nat data\<rparr>) e2;
       let s = input_sdus e3 (current_sdu_index e3);
       let first = (sdu_remaining_size s = sdu_size s);
       (g, e4) \<leftarrow> seg_fill_loop test_num_li \<lparr>sf_cont = True, sf_data = data, sf_e_li = 2, sf_li_len = 1,
         sf_num_li = 0, sf_last = False, sf_pdu_rem = pdu_rem, sf_buf = new_block mem data_pdu_size\<rparr> e3;
       segment_finish data_pdu_size first g e4 frameP
     }"

definition rlc_am_segment_10 :: "(nat \<Rightarrow> byte) \<Rightarrow> rlc_am_entity \<Rightarrow> frame \<Rightarrow> rlc_am_entity option" where
  "rlc_am_segment_10 mem e frameP =
     (if sdu_buffer_occupancy e \<le> 0 then Some e
      else
        do {
          c_assert (sdu_index_ok (current_sdu_index e));
          if sdu_mem_block (input_sdus e (current_sdu_index e)) \<noteq> None \<and> nb_bytes_requested_by_mac e > 0
          then segment_pdu mem e frameP else Some e
        })"

end
