(* ===== verification/Rlc_Am_Segmentation.thy ===== *)
theory Rlc_Am_Segmentation
  imports Rlc_Am_Segment Rlc_Am_Reassembly
begin

text \<open>
  What segmentation does to the queue of SDUs and what the PDU carries, in the terms reassembly
  uses on the other side: the PDU is laid out as the decoder expects it, and the SDUs it completes
  are those that leave the front of the queue.
\<close>

subsection \<open>Length indicators in the making\<close>

text \<open>The bytes of the indicators written so far; \<open>f\<close> tells that more will follow.\<close>

fun li_part :: "bool \<Rightarrow> int list \<Rightarrow> byte list" where
  "li_part f [] = []"
| "li_part f [l] = [word_of_int ((if f then 128 else 0) + l div 16), word_of_int (l mod 16 * 16)]"
| "li_part f (l # m # ls) =
     [word_of_int (128 + l div 16),
      word_of_int (l mod 16 * 16 + (if ls \<noteq> [] \<or> f then 8 else 0) + m div 256), word_of_int (m mod 256)] @
     li_part f ls"

lemma li_part_all: "li_part False ls = li_bytes ls"
  by (induction ls rule: li_bytes.induct) auto

lemma length_li_part: "int (length (li_part f ls)) = (int (length ls) * 3 + 1) div 2"
  by (induction f ls rule: li_part.induct) auto

lemma li_part_even:
  "even (length ls) \<Longrightarrow> li_part f (ls @ [l]) =
     li_part True ls @ [word_of_int ((if f then 128 else 0) + l div 16), word_of_int (l mod 16 * 16)]"
  by (induction f ls rule: li_part.induct) auto

lemma li_part_odd:
  "odd (length ls) \<Longrightarrow> \<exists>bs a. li_part True ls = bs @ [word_of_int (a * 16)] \<and> 0 \<le> a \<and> a < 16 \<and>
     li_part f (ls @ [l]) = bs @ [word_of_int (a * 16 + (if f then 8 else 0) + l div 256), word_of_int (l mod 256)]"
proof (induction f ls rule: li_part.induct)
  case (2 f m)
  show ?case by (intro exI[of _ "[word_of_int (128 + m div 16)]"] exI[of _ "m mod 16"]) simp
next
  case (3 f m n ls)
  then obtain bs a where "li_part True ls = bs @ [word_of_int (a * 16)]" "0 \<le> a" "a < 16"
    "li_part f (ls @ [l]) = bs @ [word_of_int (a * 16 + (if f then 8 else 0) + l div 256), word_of_int (l mod 256)]"
    by auto
  then show ?case
    by (intro exI[of _ "[word_of_int (128 + m div 16), word_of_int (m mod 16 * 16 + 8 + n div 256), word_of_int (n mod 256)] @ bs"] exI[of _ a])
      (auto simp: odd_pos)
qed simp

lemma byte_or_add:
  assumes "0 \<le> a" "a < 2 ^ n"
  shows "(word_of_int (b * 2 ^ n) :: byte) OR word_of_int a = word_of_int (a + b * 2 ^ n)"
proof -
  have "(word_of_int (b * 2 ^ n) :: byte) OR word_of_int a = word_of_int (a OR push_bit n b)"
    unfolding of_int_or_eq push_bit_eq_mult by (rule or.commute)
  then show ?thesis unfolding or_push_bit_add[OF assms] .
qed

lemma li_first_bytes:
  assumes "0 \<le> l" "l < 2048"
  shows "(if f then 0x80 else 0) OR (word_of_int (drop_bit 4 l) :: byte) = word_of_int ((if f then 128 else 0) + l div 16)"
    "(word_of_int (push_bit 4 l) :: byte) = word_of_int (l mod 16 * 16)"
proof -
  have "0 \<le> l div 16" "l div 16 < 2 ^ 7" using assms by auto
  from byte_or_add[OF this, of 1] show
    "(if f then 0x80 else 0) OR (word_of_int (drop_bit 4 l) :: byte) = word_of_int ((if f then 128 else 0) + l div 16)"
    by (simp add: drop_bit_eq_div add.commute)
  have "l * 16 mod 256 = l mod 16 * 16" using mult_mod_left[of l 16 16] by simp
  then show "(word_of_int (push_bit 4 l) :: byte) = word_of_int (l mod 16 * 16)"
    unfolding word_of_int_eq_iff by (simp add: take_bit_eq_mod push_bit_eq_mult mod_mult_left_eq)
qed

lemma li_second_bytes:
  assumes "0 \<le> l" "l < 2048" "0 \<le> a" "a < 16"
  shows "(if f then (word_of_int (a * 16) :: byte) OR 0x08 else word_of_int (a * 16)) OR word_of_int (drop_bit 8 l) =
      word_of_int (a * 16 + (if f then 8 else 0) + l div 256)"
    "(word_of_int (l AND 0xFF) :: byte) = word_of_int (l mod 256)"
proof -
  have l: "0 \<le> l div 256" "l div 256 < 2 ^ 3" using assms by auto
  have "(word_of_int (a * 16) :: byte) OR 0x08 = word_of_int (8 + a * 16)" using byte_or_add[of 8 4 a] by simp
  moreover have "(word_of_int (8 + a * 16) :: byte) OR word_of_int (l div 256) = word_of_int (l div 256 + (8 + a * 16))"
    using byte_or_add[OF l, of "1 + a * 2"] by (simp add: algebra_simps)
  moreover have "(word_of_int (a * 16) :: byte) OR word_of_int (l div 256) = word_of_int (l div 256 + a * 16)"
    using byte_or_add[OF l, of "a * 2"] by (simp add: algebra_simps)
  ultimately show "(if f then (word_of_int (a * 16) :: byte) OR 0x08 else word_of_int (a * 16)) OR word_of_int (drop_bit 8 l) =
      word_of_int (a * 16 + (if f then 8 else 0) + l div 256)"
    by (simp add: drop_bit_eq_div ac_simps)
  show "(word_of_int (l AND 0xFF) :: byte) = word_of_int (l mod 256)" using and_mask_mod[of l 8] by simp
qed

text \<open>Writing into a block whose parts are known.\<close>

lemma mem_write_at:
  assumes "off = int (length xs)" "length bs = length ys"
  shows "mem_write off bs (xs @ ys @ zs) = Some (xs @ bs @ zs)"
  using assms by (simp add: mem_write_def)

text \<open>
  The block has the two bytes of the fixed header, the indicators \<open>ls\<close>, \<open>gap\<close> bytes for those to
  come, the payload and the rest.
\<close>

definition seg_block :: "byte list \<Rightarrow> bool \<Rightarrow> int list \<Rightarrow> byte list \<Rightarrow> byte list \<Rightarrow> byte list \<Rightarrow> byte list" where
  "seg_block h f ls gap pl r = h @ li_part f ls @ gap @ pl @ r"

lemma seg_write_li_next:
  assumes "sf_buf g = seg_block h True ls gap pl r" "hl = int (length h)" "sf_e_li g = hl + 3 * (int (length ls) div 2)"
    "sf_li_len g = (if even (length ls) then 2 else 1)" "0 \<le> l" "l < 2048"
    "int (length (li_part True ls) + length gap) = (m * 3 + 1) div 2" "int (length ls) < m"
  shows "\<exists>gap'. seg_write_li (int (length ls) + 1 \<noteq> m) l g =
      Some (g\<lparr>sf_buf := seg_block h (int (length ls) + 1 \<noteq> m) (ls @ [l]) gap' pl r,
        sf_e_li := hl + 3 * (int (length ls + 1) div 2)\<rparr>) \<and>
    int (length (li_part (int (length ls) + 1 \<noteq> m) (ls @ [l])) + length gap') = (m * 3 + 1) div 2"
proof -
  let ?f = "int (length ls) + 1 \<noteq> m"
  have len: "int (length (li_part True ls)) = (int (length ls) * 3 + 1) div 2"
    "int (length (li_part ?f (ls @ [l]))) = (int (length ls + 1) * 3 + 1) div 2"
    unfolding length_li_part by simp_all
  have "(int (length ls + 1) * 3 + 1) div 2 \<le> (m * 3 + 1) div 2" using assms(8) by (intro zdiv_mono1) auto
  then have gap: "int (length (li_part ?f (ls @ [l]))) \<le> int (length (li_part True ls)) + int (length gap)"
    using assms(7) len(2) by simp
  show ?thesis
  proof (cases "even (length ls)")
    case True
    note s = li_part_even[OF True, of ?f l]
    have "2 \<le> length gap" using gap unfolding s by simp
    then obtain x y gap' where g: "gap = [x, y] @ gap'"
      by (metis Suc_le_length_iff append_Cons append_Nil numeral_2_eq_2)
    have off: "sf_e_li g = int (length (h @ li_part True ls))" using assms(2,3) True len(1) by (auto elim!: evenE)
    have "mem_write (sf_e_li g) [word_of_int ((if ?f then 128 else 0) + l div 16), word_of_int (l mod 16 * 16)] (sf_buf g) =
        Some (seg_block h ?f (ls @ [l]) gap' pl r)"
      using mem_write_at[OF off, of "[word_of_int ((if ?f then 128 else 0) + l div 16), word_of_int (l mod 16 * 16)]" "[x, y]" "gap' @ pl @ r"]
      unfolding assms(1) seg_block_def g s by simp
    then show ?thesis using True assms(3,4,7) g s
      by (intro exI[of _ gap']) (auto simp: seg_write_li_def li_first_bytes[OF assms(5,6)] elim!: evenE)
  next
    case False
    then obtain bs a where o: "li_part True ls = bs @ [word_of_int (a * 16)]" "0 \<le> a" "a < 16"
      "li_part ?f (ls @ [l]) = bs @ [word_of_int (a * 16 + (if ?f then 8 else 0) + l div 256), word_of_int (l mod 256)]"
      using li_part_odd[OF False, of ?f l] by blast
    have "1 \<le> length gap" using gap unfolding o by simp
    then obtain x gap' where g: "gap = x # gap'" by (cases gap) auto
    have off: "sf_e_li g + 1 = int (length (h @ bs))" using assms(2,3) False len(1) o(1) by (auto elim!: oddE)
    have "sf_buf g = (h @ bs) @ word_of_int (a * 16) # gap @ pl @ r" unfolding assms(1) seg_block_def o(1) by simp
    then have b2: "sf_buf g ! nat (sf_e_li g + 1) = word_of_int (a * 16)"
      unfolding off nat_int by (simp only: nth_append_length)
    have w: "mem_write (sf_e_li g + 1) [word_of_int (a * 16 + (if ?f then 8 else 0) + l div 256), word_of_int (l mod 256)] (sf_buf g) =
        Some (seg_block h ?f (ls @ [l]) gap' pl r)"
      using mem_write_at[OF off, of "[word_of_int (a * 16 + (if ?f then 8 else 0) + l div 256), word_of_int (l mod 256)]"
          "[word_of_int (a * 16), x]" "gap' @ pl @ r"]
      unfolding assms(1) seg_block_def g o by simp
    have "0 \<le> sf_e_li g \<and> sf_e_li g + 1 < int (length (sf_buf g))"
      using assms(2,3) unfolding off assms(1) seg_block_def o(1) by simp
    then have "seg_write_li ?f l g = Some (g\<lparr>sf_buf := seg_block h ?f (ls @ [l]) gap' pl r, sf_e_li := sf_e_li g + 3\<rparr>)"
      using False assms(4) unfolding seg_write_li_def Let_def b2 li_second_bytes[OF assms(5,6) o(2,3)] w by simp
    moreover have "sf_e_li g + 3 = hl + 3 * (int (length ls + 1) div 2)" using assms(3) False by (auto elim!: oddE)
    moreover have "int (length (li_part ?f (ls @ [l])) + length gap') = (m * 3 + 1) div 2"
      using assms(7) unfolding o g by simp
    ultimately show ?thesis by auto
  qed
qed

subsection \<open>The queue as a list of slots\<close>

text \<open>An SDU, the bytes of it that PDUs carry already, and the waiting slots in order.\<close>

definition sdu_whole :: "rlc_am_tx_sdu_management \<Rightarrow> byte list" where
  "sdu_whole s = (case sdu_mem_block s of None \<Rightarrow> [] | Some d \<Rightarrow> take (nat (sdu_size s)) d)"

definition sdu_sent :: "rlc_am_tx_sdu_management \<Rightarrow> byte list" where
  "sdu_sent s = (case sdu_mem_block s of None \<Rightarrow> [] | Some d \<Rightarrow> take (nat (sdu_segmented_size s)) d)"

definition ring_sdus :: "rlc_am_entity \<Rightarrow> rlc_am_tx_sdu_management list" where
  "ring_sdus e = map (\<lambda>k. sdu_at e (int k)) [0..<nat (sdu_count e)]"

text \<open>No waiting SDU is empty and only the first one is sent in part.\<close>

definition seg_ready :: "rlc_am_entity \<Rightarrow> bool" where
  "seg_ready e \<longleftrightarrow> sdu_ring_ok e \<and> (\<forall>s\<in>set (ring_sdus e). 0 < sdu_remaining_size s \<and> \<not> sdu_segmented s) \<and>
     (\<forall>s\<in>set (tl (ring_sdus e)). sdu_segmented_size s = 0)"

lemma sdu_sent_rest:
  assumes "sdu_slot_ok s"
  shows "sdu_sent s @ sdu_rest s = sdu_whole s"
proof -
  obtain d where d: "sdu_mem_block s = Some d" using assms by (auto simp: sdu_slot_ok_def split: option.splits)
  have "nat (sdu_size s) = nat (sdu_segmented_size s) + nat (sdu_remaining_size s)"
    using assms by (auto simp: sdu_slot_ok_def)
  then show ?thesis by (simp add: sdu_sent_def sdu_rest_def sdu_whole_def d take_add)
qed

lemma sdu_queue_ring: "sdu_queue e = map sdu_rest (ring_sdus e)"
  by (simp add: sdu_queue_def ring_sdus_def)

lemma length_ring_sdus [simp]: "length (ring_sdus e) = nat (sdu_count e)"
  by (simp add: ring_sdus_def)

lemma ring_sdus_Cons:
  assumes "ring_sdus e = s # ss" "sdu_index_ok (current_sdu_index e)"
  shows "s = input_sdus e (current_sdu_index e)" "0 < sdu_count e"
    "ss = map (\<lambda>k. sdu_at e (int k)) [1..<nat (sdu_count e)]"
proof -
  have "length (ring_sdus e) = Suc (length ss)" using assms(1) by simp
  then show c: "0 < sdu_count e" by simp
  have "ring_sdus e = sdu_at e 0 # map (\<lambda>k. sdu_at e (int k)) [1..<nat (sdu_count e)]"
    using c by (simp add: ring_sdus_def upt_conv_Cons)
  then show "s = input_sdus e (current_sdu_index e)" "ss = map (\<lambda>k. sdu_at e (int k)) [1..<nat (sdu_count e)]"
    using assms by simp_all
qed

lemma ring_sdus_slots: "(\<forall>s\<in>set (ring_sdus e). P s) \<longleftrightarrow> (\<forall>k\<in>{0..<sdu_count e}. P (sdu_at e k))"
proof -
  have "{0..<sdu_count e} = int ` {0..<nat (sdu_count e)}" unfolding image_int_atLeastLessThan by simp
  then show ?thesis by (simp add: ring_sdus_def)
qed

lemma seg_readyD:
  assumes "seg_ready e"
  shows "sdu_ring_ok e" "sdu_index_ok (current_sdu_index e)" "sdu_index_ok (next_sdu_index e)"
    "\<forall>s\<in>set (ring_sdus e). sdu_slot_ok s" "\<forall>s\<in>set (ring_sdus e). 0 < sdu_remaining_size s \<and> \<not> sdu_segmented s"
    "\<forall>s\<in>set (tl (ring_sdus e)). sdu_segmented_size s = 0"
  using assms by (simp_all add: seg_ready_def ring_sdus_slots sdu_ring_ok_def)

text \<open>Changes of a slot that keep what the queue is read from.\<close>

definition sdu_core :: "rlc_am_tx_sdu_management \<Rightarrow> byte list option \<times> int \<times> int \<times> int \<times> bool \<times> bool" where
  "sdu_core s = (sdu_mem_block s, sdu_remaining_size s, sdu_segmented_size s, sdu_size s,
     sdu_transmitted_successfully s, sdu_segmented s)"

lemma sdu_core_cong:
  assumes "sdu_core s = sdu_core s'"
  shows "sdu_slot_ok s = sdu_slot_ok s'" "sdu_rest s = sdu_rest s'" "sdu_whole s = sdu_whole s'" "sdu_sent s = sdu_sent s'"
    "sdu_mem_block s = sdu_mem_block s'" "sdu_remaining_size s = sdu_remaining_size s'"
    "sdu_segmented_size s = sdu_segmented_size s'" "sdu_segmented s = sdu_segmented s'" "sdu_size s = sdu_size s'"
  using assms by (auto simp: sdu_core_def sdu_slot_ok_def sdu_rest_def sdu_whole_def sdu_sent_def split: option.splits)

lemma seg_ready_cong:
  assumes "\<And>i. sdu_core (input_sdus e' i) = sdu_core (input_sdus e i)" "current_sdu_index e' = current_sdu_index e"
    "next_sdu_index e' = next_sdu_index e" "nb_sdu_no_segmented e' = nb_sdu_no_segmented e"
    "sdu_buffer_occupancy e' = sdu_buffer_occupancy e"
  shows "seg_ready e' = seg_ready e" "map sdu_core (ring_sdus e') = map sdu_core (ring_sdus e)"
proof -
  note c = sdu_core_cong[OF assms(1)]
  have q: "sdu_queue e' = sdu_queue e" unfolding sdu_queue_def assms(2,3) c ..
  have r: "sdu_ring_ok e' = sdu_ring_ok e" unfolding sdu_ring_ok_def assms q c ..
  show m: "map sdu_core (ring_sdus e') = map sdu_core (ring_sdus e)" unfolding ring_sdus_def assms(2,3) by (simp add: assms(1))
  have "(\<forall>s\<in>set (ring_sdus e'). 0 < sdu_remaining_size s \<and> \<not> sdu_segmented s) =
      (\<forall>s\<in>set (ring_sdus e). 0 < sdu_remaining_size s \<and> \<not> sdu_segmented s)"
    unfolding ring_sdus_slots assms(2,3) c ..
  moreover have "(\<forall>s\<in>set xs. sdu_segmented_size s = 0) \<longleftrightarrow> (\<forall>c\<in>set (map sdu_core xs). fst (snd (snd c)) = 0)" for xs
    by (simp add: sdu_core_def)
  note this[of "tl (ring_sdus e')"] this[of "tl (ring_sdus e)"]
  ultimately show "seg_ready e' = seg_ready e" using r m unfolding seg_ready_def map_tl by simp
qed

subsection \<open>The plan of the first loop\<close>

text \<open>
  The bytes of \<open>n\<close> length indicators after one of \<open>li\<close> bytes. A plan: \<open>k\<close> SDUs go completely into
  the PDU with an indicator each, and the next one fills the rest of the \<open>r\<close> bytes.
\<close>

fun li_room :: "int \<Rightarrow> nat \<Rightarrow> int" where
  "li_room li 0 = 0"
| "li_room li (Suc n) = (li XOR 3) + li_room (li XOR 3) n"

fun planned :: "int \<Rightarrow> int \<Rightarrow> nat \<Rightarrow> int list \<Rightarrow> bool" where
  "planned li r k [] = False"
| "planned li r 0 (z # zs) = (0 < r \<and> r \<le> z)"
| "planned li r (Suc k) (z # zs) = (z + (li XOR 3) < r \<and> planned (li XOR 3) (r - (z + (li XOR 3))) k zs)"

lemma li_len_xor [simp]: "(1::int) XOR 3 = 2" "(2::int) XOR 3 = 1"
  by simp_all

lemma li_room_len: "li_room (if even j then 1 else 2) n = (int (j + n) * 3 + 1) div 2 - (int j * 3 + 1) div 2"
proof (induction n arbitrary: j)
  case (Suc n)
  show ?case using Suc[of "Suc j"] by (cases "even j") (auto elim!: evenE oddE simp: algebra_simps)
qed simp

lemma li_room_overhead: "li_room 1 (n - 1) = max_li_overhead (int n)"
proof -
  have "(int m * 3 + 1) div 2 = int m * 3 div 2 + int m mod 2" for m
    by (cases "even m") (auto elim!: evenE oddE)
  then show ?thesis using li_room_len[of 0 "n - 1"] by (auto simp: max_li_overhead_def of_nat_diff)
qed

text \<open>The bytes of the PDU that stay unused, because an indicator and a byte of the next SDU do not fit.\<close>

fun plan_waste :: "int \<Rightarrow> int \<Rightarrow> int list \<Rightarrow> int" where
  "plan_waste li r [] = 0"
| "plan_waste li r (z # zs) =
     (if z + (li XOR 3) < r then plan_waste (li XOR 3) (r - (z + (li XOR 3))) zs else max 0 (r - z))"

lemma plan_waste_range: "li = 1 \<or> li = 2 \<Longrightarrow> 0 \<le> plan_waste li r zs \<and> plan_waste li r zs \<le> 2"
  by (induction li r zs rule: plan_waste.induct) auto

lemma planned_room: "planned li r k zs \<Longrightarrow> k < length zs \<and> sum_list (take k zs) + li_room li k < r"
  by (induction li r k zs rule: planned.induct) auto

lemma planned_pos: "planned li r k zs \<Longrightarrow> \<forall>z\<in>set zs. 0 < z \<Longrightarrow> li = 1 \<or> li = 2 \<Longrightarrow> 0 < r"
  by (cases "(li, r, k, zs)" rule: planned.cases) auto

text \<open>What the first loop changes of the entity: the references between the SDUs and the PDU.\<close>

definition refs_ok :: "rlc_am_tx_data_pdu_management \<Rightarrow> bool" where
  "refs_ok p \<longleftrightarrow> 0 \<le> txp_nb_sdus p \<and> (\<forall>m\<in>{0..<txp_nb_sdus p}. sdu_index_ok (txp_sdus_index p m))"

definition linked :: "rlc_am_entity \<Rightarrow> rlc_am_entity \<Rightarrow> bool" where
  "linked e e' \<longleftrightarrow> (\<exists>S X N. e' = (upd_pdu (seg_slot e) (\<lambda>p. p\<lparr>txp_sdus_index := X, txp_nb_sdus := N\<rparr>) e)\<lparr>input_sdus := S\<rparr> \<and>
     (\<forall>i. sdu_core (S i) = sdu_core (input_sdus e i))) \<and>
     (refs_ok (pdu_retrans_buffer e (seg_slot e)) \<longrightarrow> refs_ok (pdu_retrans_buffer e' (seg_slot e)))"

lemma linked_refl: "linked e e"
  unfolding linked_def by (intro conjI exI[of _ "input_sdus e"] exI[of _ "txp_sdus_index (pdu_retrans_buffer e (seg_slot e))"]
      exI[of _ "txp_nb_sdus (pdu_retrans_buffer e (seg_slot e))"]) simp_all

lemma linked_vt_s: "linked e e' \<Longrightarrow> vt_s e' = vt_s e"
  by (auto simp: linked_def)

lemma linked_trans:
  assumes "linked e e1" "linked e1 e2"
  shows "linked e e2"
proof -
  obtain S X N where 1: "e1 = (upd_pdu (seg_slot e) (\<lambda>p. p\<lparr>txp_sdus_index := X, txp_nb_sdus := N\<rparr>) e)\<lparr>input_sdus := S\<rparr>"
    "\<forall>i. sdu_core (S i) = sdu_core (input_sdus e i)" using assms(1) unfolding linked_def by blast
  obtain S' X' N' where 2: "e2 = (upd_pdu (seg_slot e1) (\<lambda>p. p\<lparr>txp_sdus_index := X', txp_nb_sdus := N'\<rparr>) e1)\<lparr>input_sdus := S'\<rparr>"
    "\<forall>i. sdu_core (S' i) = sdu_core (input_sdus e1 i)" using assms(2) unfolding linked_def by blast
  have "e2 = (upd_pdu (seg_slot e) (\<lambda>p. p\<lparr>txp_sdus_index := X', txp_nb_sdus := N'\<rparr>) e)\<lparr>input_sdus := S'\<rparr>"
    unfolding 2(1) 1(1) by simp
  moreover have "\<forall>i. sdu_core (S' i) = sdu_core (input_sdus e i)" using 1 2(2) by simp
  moreover have "refs_ok (pdu_retrans_buffer e (seg_slot e)) \<longrightarrow> refs_ok (pdu_retrans_buffer e2 (seg_slot e))"
    using assms linked_vt_s[OF assms(1)] unfolding linked_def by simp
  ultimately show ?thesis unfolding linked_def by blast
qed

lemma seg_link_linked: "sdu_index_ok i \<Longrightarrow> linked e (seg_link (seg_slot e) i e)"
  unfolding linked_def
  by (rule conjI, rule exI[of _ "input_sdus (seg_link (seg_slot e) i e)"],
      rule exI[of _ "txp_sdus_index (pdu_retrans_buffer (seg_link (seg_slot e) i e) (seg_slot e))"],
      rule exI[of _ "txp_nb_sdus (pdu_retrans_buffer (seg_link (seg_slot e) i e) (seg_slot e))"])
    (auto simp: seg_link_def sdu_core_def refs_ok_def)

definition slots_wait :: "rlc_am_entity \<Rightarrow> int \<Rightarrow> int list \<Rightarrow> bool" where
  "slots_wait e i zs \<longleftrightarrow> (\<forall>k<length zs. sdu_mem_block (input_sdus e (ring_slot i (int k))) \<noteq> None \<and>
     sdu_remaining_size (input_sdus e (ring_slot i (int k))) = zs ! k \<and> sdu_nb_pdus (input_sdus e (ring_slot i (int k))) < 31)"

lemma slots_wait_Cons:
  assumes "slots_wait e i (z # zs)" "sdu_index_ok i" "length zs < 127"
  shows "sdu_mem_block (input_sdus e i) \<noteq> None" "sdu_remaining_size (input_sdus e i) = z" "sdu_nb_pdus (input_sdus e i) < 31"
    "slots_wait (seg_link sn i e) (ring_next i) zs"
proof -
  note all = assms(1)[unfolded slots_wait_def, rule_format]
  show "sdu_mem_block (input_sdus e i) \<noteq> None" "sdu_remaining_size (input_sdus e i) = z" "sdu_nb_pdus (input_sdus e i) < 31"
    using all[of 0] assms(2) by simp_all
  have "ring_slot (ring_next i) (int k) \<noteq> i" "ring_slot (ring_next i) (int k) = ring_slot i (int (Suc k))" if "k < length zs" for k
    using that assms(2,3) ring_slot_inj[of "int k + 1" 0 i] by (auto simp: ring_slot_pop add.commute)
  then show "slots_wait (seg_link sn i e) (ring_next i) zs"
    using all[of "Suc k" for k] unfolding slots_wait_def seg_link_def by simp
qed

lemma seg_test_loop_stop:
  "sdu_index_ok (st_index t) \<Longrightarrow> \<not> st_cont t \<Longrightarrow> seg_test_loop t e = Some (t, e)"
  by (subst seg_test_loop.simps) (simp add: Let_def)

lemma seg_test_step_stop:
  assumes "0 < z" "0 < st_rem t" "st_li_len t = 1 \<or> st_li_len t = 2" "\<not> z + (st_li_len t XOR 3) < st_rem t"
  shows "\<not> st_cont (seg_test_step z n t)" "st_sub_num (seg_test_step z n t) = 0"
    "st_num_li (seg_test_step z n t) = st_num_li t"
    "st_pdu_rem (seg_test_step z n t) = st_pdu_rem t - plan_waste (st_li_len t) (st_rem t) (z # zs)"
    "planned (st_li_len t) (st_rem t - plan_waste (st_li_len t) (st_rem t) (z # zs)) 0 (z # zs)"
  using assms by (auto simp: seg_test_step_def Let_def)

lemma seg_test_step_next:
  assumes "0 < z" "st_li_len t = 1 \<or> st_li_len t = 2" "z + (st_li_len t XOR 3) < st_rem t" "n < 31"
  shows "seg_test_step z n t = t\<lparr>st_num_li := st_num_li t + 1, st_num_fill := st_num_fill t + 1,
      st_rem := st_rem t - (z + (st_li_len t XOR 3)), st_sub_size := st_li_len t XOR 3, st_sub_num := 1,
      st_li_len := st_li_len t XOR 3\<rparr>"
  using assms by (auto simp: seg_test_step_def Let_def)

lemma seg_test_loop_plan:
  assumes "slots_wait e (st_index t) zs" "zs \<noteq> []" "\<forall>z\<in>set zs. 0 < z" "sdu_index_ok (st_index t)" "st_cont t"
    "st_li_len t = 1 \<or> st_li_len t = 2" "0 < st_rem t" "st_rem t \<le> sum_list zs + li_room (st_li_len t) (length zs - 1)"
    "0 \<le> txp_nb_sdus (pdu_retrans_buffer e (seg_slot e))"
    "txp_nb_sdus (pdu_retrans_buffer e (seg_slot e)) + int (length zs) \<le> 31"
  shows "\<exists>t' e' k. seg_test_loop t e = Some (t', e') \<and> linked e e' \<and> st_sub_num t' = 0 \<and>
    st_num_li t' = st_num_li t + int k \<and> st_pdu_rem t' = st_pdu_rem t - plan_waste (st_li_len t) (st_rem t) zs \<and>
    planned (st_li_len t) (st_rem t - plan_waste (st_li_len t) (st_rem t) zs) k zs"
  using assms
proof (induction zs arbitrary: t e)
  case (Cons z zs)
  let ?n = "txp_nb_sdus (pdu_retrans_buffer e (seg_slot e))"
  let ?i = "st_index t"
  let ?t = "(seg_test_step z ?n t)\<lparr>st_index := ring_next ?i\<rparr>"
  let ?e = "seg_link (seg_slot e) ?i e"
  let ?l = "st_li_len t XOR 3"
  have len: "length zs < 127" using Cons.prems(9,10) by simp
  note w = slots_wait_Cons[OF Cons.prems(1,4) len]
  have loop: "seg_test_loop t e = seg_test_loop ?t ?e"
    using w(1-3) Cons.prems(4,5) by (subst seg_test_loop.simps) (simp add: Let_def seg_link_def)
  have z: "0 < z" using Cons.prems(3) by simp
  note lk = seg_link_linked[OF Cons.prems(4), of e]
  show ?case
  proof (cases "z + ?l < st_rem t")
    case True
    have n: "?n < 31" using Cons.prems(10) by simp
    note st = seg_test_step_next[OF z Cons.prems(6) True n]
    have ne: "zs \<noteq> []" using True Cons.prems(6,8) by auto
    have "li_room (st_li_len t) (length zs) = ?l + li_room ?l (length zs - 1)" using ne by (cases zs) auto
    then have fit: "st_rem t - (z + ?l) \<le> sum_list zs + li_room ?l (length zs - 1)" using Cons.prems(8) by simp
    have "\<exists>t' e' k. seg_test_loop ?t ?e = Some (t', e') \<and> linked ?e e' \<and> st_sub_num t' = 0 \<and>
        st_num_li t' = st_num_li ?t + int k \<and> st_pdu_rem t' = st_pdu_rem ?t - plan_waste (st_li_len ?t) (st_rem ?t) zs \<and>
        planned (st_li_len ?t) (st_rem ?t - plan_waste (st_li_len ?t) (st_rem ?t) zs) k zs"
    proof (rule Cons.IH)
      show "slots_wait ?e (st_index ?t) zs" using w(4) by simp
      show "st_rem ?t \<le> sum_list zs + li_room (st_li_len ?t) (length zs - 1)" using fit unfolding st by simp
    qed (use ne Cons.prems True in \<open>auto simp: st\<close>)
    then obtain t' e' k where r: "seg_test_loop ?t ?e = Some (t', e')" "linked ?e e'" "st_sub_num t' = 0"
      "st_num_li t' = st_num_li ?t + int k" "st_pdu_rem t' = st_pdu_rem ?t - plan_waste (st_li_len ?t) (st_rem ?t) zs"
      "planned (st_li_len ?t) (st_rem ?t - plan_waste (st_li_len ?t) (st_rem ?t) zs) k zs" by blast
    let ?w = "plan_waste ?l (st_rem t - (z + ?l)) zs"
    have p: "planned ?l (st_rem t - ?w - (z + ?l)) k zs" using r(6) unfolding st by (simp add: algebra_simps)
    have "0 < st_rem t - ?w - (z + ?l)"
      by (rule planned_pos[OF p]) (use Cons.prems(3,6) in auto)
    then show ?thesis using r p True linked_trans[OF lk r(2)] unfolding loop st
      by (intro exI[of _ t'] exI[of _ e'] exI[of _ "Suc k"]) simp
  next
    case False
    note st = seg_test_step_stop[OF z Cons.prems(7,6) False]
    have "seg_test_loop ?t ?e = Some (?t, ?e)" by (rule seg_test_loop_stop) (use st in simp_all)
    then show ?thesis using st(2,3) st(4)[of ?n zs] st(5)[of zs] lk unfolding loop
      by (intro exI[of _ ?t] exI[of _ ?e] exI[of _ 0]) (simp del: plan_waste.simps)
  qed
qed simp

subsection \<open>The second loop follows the plan\<close>

text \<open>What the second loop changes of the entity, with \<open>n\<close> bytes put into the PDU.\<close>

definition filled :: "int \<Rightarrow> rlc_am_entity \<Rightarrow> rlc_am_entity \<Rightarrow> bool" where
  "filled n e e' \<longleftrightarrow> (\<exists>S B N C. e' = (upd_pdu (seg_slot e) (\<lambda>p. p\<lparr>txp_payload_size := txp_payload_size p + n\<rparr>) e)\<lparr>
     input_sdus := S, sdu_buffer_occupancy := B, nb_sdu_no_segmented := N, current_sdu_index := C\<rparr>)"

lemma filledI:
  assumes "pdu_retrans_buffer e' = (pdu_retrans_buffer e)(seg_slot e := (pdu_retrans_buffer e (seg_slot e))\<lparr>
      txp_payload_size := txp_payload_size (pdu_retrans_buffer e (seg_slot e)) + n\<rparr>)"
    "e'\<lparr>pdu_retrans_buffer := pdu_retrans_buffer e, input_sdus := input_sdus e, sdu_buffer_occupancy := sdu_buffer_occupancy e,
       nb_sdu_no_segmented := nb_sdu_no_segmented e, current_sdu_index := current_sdu_index e\<rparr> = e"
  shows "filled n e e'"
proof -
  have "e' = (e'\<lparr>pdu_retrans_buffer := pdu_retrans_buffer e, input_sdus := input_sdus e, sdu_buffer_occupancy := sdu_buffer_occupancy e,
       nb_sdu_no_segmented := nb_sdu_no_segmented e, current_sdu_index := current_sdu_index e\<rparr>)\<lparr>
     pdu_retrans_buffer := pdu_retrans_buffer e', input_sdus := input_sdus e', sdu_buffer_occupancy := sdu_buffer_occupancy e',
     nb_sdu_no_segmented := nb_sdu_no_segmented e', current_sdu_index := current_sdu_index e'\<rparr>" by simp
  then show ?thesis unfolding assms(2) assms(1) filled_def by blast
qed

lemma filled_simps:
  assumes "filled n e e'"
  shows "vt_s e' = vt_s e" "pdu_retrans_buffer e' = (pdu_retrans_buffer e)(seg_slot e := (pdu_retrans_buffer e (seg_slot e))\<lparr>
      txp_payload_size := txp_payload_size (pdu_retrans_buffer e (seg_slot e)) + n\<rparr>)"
    "next_sdu_index e' = next_sdu_index e"
  using assms by (auto simp: filled_def)

lemma filled_trans:
  assumes "filled n e e1" "filled m e1 e2"
  shows "filled (n + m) e e2"
proof (rule filledI)
  show "pdu_retrans_buffer e2 = (pdu_retrans_buffer e)(seg_slot e := (pdu_retrans_buffer e (seg_slot e))\<lparr>
      txp_payload_size := txp_payload_size (pdu_retrans_buffer e (seg_slot e)) + (n + m)\<rparr>)"
    using filled_simps[OF assms(1)] filled_simps[OF assms(2)] by (simp add: add.assoc)
  show "e2\<lparr>pdu_retrans_buffer := pdu_retrans_buffer e, input_sdus := input_sdus e, sdu_buffer_occupancy := sdu_buffer_occupancy e,
       nb_sdu_no_segmented := nb_sdu_no_segmented e, current_sdu_index := current_sdu_index e\<rparr> = e"
    using assms unfolding filled_def by auto
qed

text \<open>The first SDU leaves the ring.\<close>

lemma sdu_at_pop:
  assumes "sdu_index_ok (current_sdu_index e)" "input_sdus e' = (input_sdus e)(current_sdu_index e := x)"
    "current_sdu_index e' = ring_next (current_sdu_index e)" "0 \<le> k" "k < 128"
  shows "sdu_at e' k = (if k = 127 then x else sdu_at e (k + 1))"
proof -
  let ?i = "current_sdu_index e"
  have "ring_slot ?i 128 = ?i" using assms(1) by (simp add: ring_slot_def sdu_index_ok_def)
  moreover have "ring_slot ?i (k + 1) = ?i \<Longrightarrow> k = 127"
    using assms(1,4,5) ring_slot_inj[of "k + 1" 0 ?i] by (cases "k = 127") auto
  ultimately show ?thesis unfolding assms(2,3) ring_slot_pop by (cases "k = 127") auto
qed

lemma seg_sdu_done_pop:
  assumes "seg_ready e" "ring_sdus e = s # ss"
  shows "\<exists>e'. seg_sdu_done (sdu_remaining_size s) e = Some e' \<and> filled (sdu_remaining_size s) e e' \<and> seg_ready e' \<and> ring_sdus e' = ss"
proof -
  let ?i = "current_sdu_index e"
  let ?n = "sdu_remaining_size s"
  note R = seg_readyD[OF assms(1)]
  note C = ring_sdus_Cons[OF assms(2) R(2)]
  note D = sdu_ring_okD[OF R(1)]
  have sok: "sdu_slot_ok s" "\<not> sdu_segmented s" using R(4,5) assms(2) by simp_all
  then have mem: "sdu_mem_block (input_sdus e ?i) \<noteq> None" unfolding C(1)[symmetric] by (auto simp: sdu_slot_ok_def split: option.splits)
  define x where "x = s\<lparr>sdu_mem_block := None, sdu_remaining_size := 0\<rparr>"
  define e' where "e' = (upd_pdu (seg_slot e) (\<lambda>p. p\<lparr>txp_payload_size := txp_payload_size p + ?n\<rparr>) e)\<lparr>
    sdu_buffer_occupancy := sdu_buffer_occupancy e - ?n, nb_sdu_no_segmented := nb_sdu_no_segmented e - 1,
    input_sdus := (input_sdus e)(?i := x), current_sdu_index := ring_next ?i\<rparr>"
  have done_eq: "seg_sdu_done ?n e = Some e'"
    using mem R(2) C(1) by (simp add: seg_sdu_done_def rlc_am_free_in_sdu_data_def Let_def sdu_index_ok_def e'_def x_def)
  have cnt: "sdu_count e' = sdu_count e - 1" using ring_len_pop[OF C(2) D(1,2)] by (simp add: e'_def)
  have at: "sdu_at e' k = (if k = 127 then x else sdu_at e (k + 1))" if "0 \<le> k" "k < 128" for k
    by (rule sdu_at_pop[OF R(2)]) (use that in \<open>simp_all add: e'_def\<close>)
  have lt: "sdu_count e < 128" by (rule ring_len_range)
  have ss: "ring_sdus e' = ss"
  proof -
    have "[1..<nat (sdu_count e)] = map Suc [0..<nat (sdu_count e - 1)]"
      using C(2) by (simp add: map_Suc_upt nat_diff_distrib)
    then have "ss = map (\<lambda>k. sdu_at e (int k + 1)) [0..<nat (sdu_count e - 1)]" using C(3) by (simp add: add.commute)
    moreover have "sdu_at e' (int k) = sdu_at e (int k + 1)" if "k < nat (sdu_count e - 1)" for k
    proof -
      have "int k < 127" using that lt by linarith
      then show ?thesis using at[of "int k"] by simp
    qed
    ultimately show ?thesis unfolding ring_sdus_def cnt by simp
  qed
  have q: "sdu_queue e' = map sdu_rest ss" "sdu_queue e = sdu_rest s # map sdu_rest ss"
    unfolding sdu_queue_ring ss assms(2) by simp_all
  have "sdu_ring_ok e'"
    unfolding sdu_ring_ok_def
  proof (intro conjI ballI)
    show "sdu_index_ok (current_sdu_index e')" "sdu_index_ok (next_sdu_index e')" using D(2) by (simp_all add: e'_def)
    show "sdu_slot_ok (sdu_at e' k)" if "k \<in> {0..<sdu_count e'}" for k
    proof -
      have "0 \<le> k" "k < 127" "k + 1 < sdu_count e" using that cnt lt unfolding atLeastLessThan_iff by linarith+
      then show ?thesis using at[of k] D(3)[of "k + 1"] by simp
    qed
    show "sdu_mem_block (sdu_at e' k) = None" "\<not> sdu_segmented (sdu_at e' k)" if "k \<in> {sdu_count e'..<128}" for k
      using that cnt C(2) at[of k] D(4,5)[of "k + 1"] sok(2) by (auto simp: x_def)
    show "nb_sdu_no_segmented e' = sdu_count e'" using cnt D(6) by (simp add: e'_def)
    show "sdu_buffer_occupancy e' = int (length (concat (sdu_queue e')))"
      using D(7) length_sdu_rest[OF sok(1)] unfolding q by (simp add: e'_def)
  qed
  moreover have "filled ?n e e'" unfolding filled_def e'_def
    by (intro exI[of _ "(input_sdus e)(?i := x)"] exI[of _ "sdu_buffer_occupancy e - ?n"]
        exI[of _ "nb_sdu_no_segmented e - 1"] exI[of _ "ring_next ?i"]) simp
  moreover have "\<forall>s\<in>set ss. 0 < sdu_remaining_size s \<and> \<not> sdu_segmented s" "\<forall>s\<in>set (tl ss). sdu_segmented_size s = 0"
    using R(5,6) assms(2) by (cases ss; auto)+
  ultimately show ?thesis using done_eq ss by (auto simp: seg_ready_def)
qed

text \<open>Only a part of the first SDU fits.\<close>

lemma seg_partial:
  assumes "seg_ready e" "ring_sdus e = s # ss" "0 \<le> n" "n < sdu_remaining_size s"
    "s' = s\<lparr>sdu_remaining_size := sdu_remaining_size s - n, sdu_segmented_size := sdu_segmented_size s + n\<rparr>"
    "e' = (upd_pdu (seg_slot e) (\<lambda>p. p\<lparr>txp_payload_size := txp_payload_size p + n\<rparr>) e)\<lparr>
      input_sdus := (input_sdus e)(current_sdu_index e := s'), sdu_buffer_occupancy := sdu_buffer_occupancy e - n\<rparr>"
  shows "filled n e e'" "seg_ready e'" "ring_sdus e' = s' # ss"
proof -
  let ?i = "current_sdu_index e"
  note R = seg_readyD[OF assms(1)]
  note C = ring_sdus_Cons[OF assms(2) R(2)]
  note D = sdu_ring_okD[OF R(1)]
  have sok: "sdu_slot_ok s" using R(4) assms(2) by simp
  have s': "sdu_slot_ok s'" using sok assms(3,4,5) by (auto simp: sdu_slot_ok_def split: option.splits)
  have len: "int (length (sdu_rest s')) = int (length (sdu_rest s)) - n"
    using length_sdu_rest[OF sok] length_sdu_rest[OF s'] assms(5) by simp
  have cnt: "sdu_count e' = sdu_count e" by (simp add: assms(6))
  have at: "sdu_at e' k = (if k = 0 then s' else sdu_at e k)" if "0 \<le> k" "k < 128" for k
    using that R(2) ring_slot_inj[of k 0 ?i] by (auto simp: assms(6))
  have lt: "sdu_count e < 128" by (rule ring_len_range)
  have "[0..<nat (sdu_count e)] = 0 # [1..<nat (sdu_count e)]" using C(2) by (simp add: upt_conv_Cons)
  moreover have "sdu_at e' (int k) = sdu_at e (int k)" if "k \<in> set [1..<nat (sdu_count e)]" for k
  proof -
    have "0 < int k" "int k < 128" using that lt unfolding set_upt atLeastLessThan_iff by linarith+
    then show ?thesis using at[of "int k"] by simp
  qed
  ultimately show ring: "ring_sdus e' = s' # ss" using at[of 0] C(3) unfolding ring_sdus_def cnt by simp
  have q: "sdu_queue e' = sdu_rest s' # map sdu_rest ss" "sdu_queue e = sdu_rest s # map sdu_rest ss"
    unfolding sdu_queue_ring ring assms(2) by simp_all
  show "filled n e e'" unfolding filled_def assms(6)
    by (intro exI[of _ "(input_sdus e)(?i := s')"] exI[of _ "sdu_buffer_occupancy e - n"]
        exI[of _ "nb_sdu_no_segmented e"] exI[of _ ?i]) simp
  have "sdu_ring_ok e'"
    unfolding sdu_ring_ok_def cnt
  proof (intro conjI ballI)
    show "sdu_index_ok (current_sdu_index e')" "sdu_index_ok (next_sdu_index e')" "nb_sdu_no_segmented e' = sdu_count e"
      using D(1,2,6) by (simp_all add: assms(6))
    show "sdu_slot_ok (sdu_at e' k)" if "k \<in> {0..<sdu_count e}" for k
      using that at[of k] D(3)[of k] s' lt by (cases "k = 0") auto
    show "sdu_mem_block (sdu_at e' k) = None" "\<not> sdu_segmented (sdu_at e' k)" if "k \<in> {sdu_count e..<128}" for k
      using that C(2) at[of k] D(4,5)[of k] by auto
    show "sdu_buffer_occupancy e' = int (length (concat (sdu_queue e')))"
      using D(7) len unfolding q by (simp add: assms(6))
  qed
  then show "seg_ready e'" using R(5,6) assms(2,4,5) ring by (auto simp: seg_ready_def)
qed

lemma seg_copy_front:
  assumes "sdu_slot_ok s" "0 \<le> n" "n \<le> sdu_remaining_size s" "sf_buf g = xs @ r" "sf_data g = int (length xs)" "n \<le> int (length r)"
  shows "seg_copy s n g = Some (g\<lparr>sf_buf := xs @ take (nat n) (sdu_rest s) @ drop (nat n) r\<rparr>)"
proof -
  obtain d where d: "sdu_mem_block s = Some d" "sdu_size s \<le> int (length d)"
    using assms(1) by (auto simp: sdu_slot_ok_def split: option.splits)
  have b: "0 \<le> sdu_segmented_size s" "sdu_segmented_size s + n \<le> int (length d)" using assms(1,3) d by (auto simp: sdu_slot_ok_def)
  have t: "take (nat n) (drop (nat (sdu_segmented_size s)) d) = take (nat n) (sdu_rest s)"
    using assms(2,3) by (simp add: sdu_rest_def d min_def)
  have l: "length (take (nat n) (sdu_rest s)) = length (take (nat n) r)"
    using assms(2,3,6) length_sdu_rest[OF assms(1)] by simp
  have "mem_write (sf_data g) (take (nat n) (sdu_rest s)) (sf_buf g) = Some (xs @ take (nat n) (sdu_rest s) @ drop (nat n) r)"
    using mem_write_at[OF assms(5) l, of "drop (nat n) r"] unfolding assms(4) by simp
  then show ?thesis using b assms(2) by (simp add: seg_copy_def d(1) t)
qed

text \<open>The indicators, the payload, whether its last byte ends an SDU, and the slots left.\<close>

fun fill_out :: "int \<Rightarrow> int \<Rightarrow> nat \<Rightarrow> rlc_am_tx_sdu_management list \<Rightarrow>
    int list \<times> byte list \<times> bool \<times> rlc_am_tx_sdu_management list" where
  "fill_out li r k [] = ([], [], False, [])"
| "fill_out li r 0 (s # ss) = ([], take (nat r) (sdu_rest s), r = sdu_remaining_size s,
     if r = sdu_remaining_size s then ss
     else s\<lparr>sdu_remaining_size := sdu_remaining_size s - r, sdu_segmented_size := sdu_segmented_size s + r\<rparr> # ss)"
| "fill_out li r (Suc k) (s # ss) =
     (case fill_out (li XOR 3) (r - (sdu_remaining_size s + (li XOR 3))) k ss of
        (lis, pl, end, ss') \<Rightarrow> (sdu_remaining_size s # lis, sdu_rest s @ pl, end, ss'))"

lemma seg_fill_loop_stop:
  "sdu_index_ok (current_sdu_index e) \<Longrightarrow> \<not> sf_cont g \<Longrightarrow> seg_fill_loop m g e = Some (g, e)"
  by (subst seg_fill_loop.simps) simp

lemma seg_fill_loop_step:
  assumes "seg_ready e" "ring_sdus e = s # ss" "sf_cont g"
  shows "seg_fill_loop m g e = (case seg_fill_step m g e of None \<Rightarrow> None | Some (g', e') \<Rightarrow> seg_fill_loop m g' e')"
proof -
  note R = seg_readyD[OF assms(1)]
  have "sdu_mem_block (input_sdus e (current_sdu_index e)) \<noteq> None"
    using R(4) assms(2) unfolding ring_sdus_Cons(1)[OF assms(2) R(2), symmetric] by (auto simp: sdu_slot_ok_def split: option.splits)
  then show ?thesis using R(2) assms(3) by (subst seg_fill_loop.simps) auto
qed

text \<open>The last SDU of the PDU.\<close>

lemma seg_fill_last:
  assumes "seg_ready e" "ring_sdus e = s # ss" "sf_cont g" "0 < sf_pdu_rem g" "sf_pdu_rem g \<le> sdu_remaining_size s"
    "sf_buf g = xs @ r" "sf_data g = int (length xs)" "sf_pdu_rem g \<le> int (length r)"
    "fill_out li (sf_pdu_rem g) 0 (s # ss) = (lis, pl, end, ss')"
  shows "\<exists>g' e'. seg_fill_loop m g e = Some (g', e') \<and> filled (int (length pl)) e e' \<and> seg_ready e' \<and> ring_sdus e' = ss' \<and>
    sf_buf g' = xs @ pl @ drop (length pl) r \<and> sf_num_li g' = sf_num_li g \<and> sf_last g' = end \<and> sf_pdu_rem g' = 0"
proof -
  let ?n = "sf_pdu_rem g"
  note R = seg_readyD[OF assms(1)]
  have s: "s = input_sdus e (current_sdu_index e)" by (rule ring_sdus_Cons(1)[OF assms(2) R(2)])
  have sok: "sdu_slot_ok s" using R(4) assms(2) by simp
  have pl: "pl = take (nat ?n) (sdu_rest s)" "int (length pl) = ?n" "length pl = nat ?n"
    using assms(4,5,9) length_sdu_rest[OF sok] by auto
  let ?g = "g\<lparr>sf_buf := xs @ take (nat ?n) (sdu_rest s) @ drop (nat ?n) r\<rparr>"
  have cp: "seg_copy s ?n g = Some ?g" using assms(4) by (intro seg_copy_front[OF sok _ assms(5,6,7,8)]) simp
  show ?thesis
  proof (cases "?n = sdu_remaining_size s")
    case True
    obtain e' where e': "seg_sdu_done (sdu_remaining_size s) e = Some e'" "filled (sdu_remaining_size s) e e'" "seg_ready e'" "ring_sdus e' = ss"
      using seg_sdu_done_pop[OF assms(1,2)] by blast
    have "seg_fill_step m g e = Some (?g\<lparr>sf_last := True, sf_cont := False, sf_pdu_rem := 0\<rparr>, e')"
      using True cp e'(1) unfolding seg_fill_step_def Let_def s[symmetric] by simp
    then have "seg_fill_loop m g e = Some (?g\<lparr>sf_last := True, sf_cont := False, sf_pdu_rem := 0\<rparr>, e')"
      unfolding seg_fill_loop_step[OF assms(1,2,3)] using seg_fill_loop_stop seg_readyD(2)[OF e'(3)] by simp
    then show ?thesis using True e' assms(9) pl by auto
  next
    case False
    define s' where "s' = s\<lparr>sdu_remaining_size := sdu_remaining_size s - ?n, sdu_segmented_size := sdu_segmented_size s + ?n\<rparr>"
    define e' where "e' = (upd_pdu (seg_slot e) (\<lambda>p. p\<lparr>txp_payload_size := txp_payload_size p + ?n\<rparr>) e)\<lparr>
      input_sdus := (input_sdus e)(current_sdu_index e := s'), sdu_buffer_occupancy := sdu_buffer_occupancy e - ?n\<rparr>"
    have lt: "0 \<le> ?n" "?n < sdu_remaining_size s" using assms(4,5) False by auto
    note P = seg_partial[OF assms(1,2) lt s'_def e'_def]
    have "seg_fill_step m g e = Some (?g\<lparr>sf_last := False, sf_cont := False, sf_pdu_rem := 0\<rparr>, e')"
      using lt(2) cp unfolding seg_fill_step_def Let_def s[symmetric] e'_def s'_def by (simp add: s[symmetric])
    then have "seg_fill_loop m g e = Some (?g\<lparr>sf_last := False, sf_cont := False, sf_pdu_rem := 0\<rparr>, e')"
      unfolding seg_fill_loop_step[OF assms(1,2,3)] using seg_fill_loop_stop seg_readyD(2)[OF P(2)] by simp
    then show ?thesis using False P assms(9) pl by (auto simp: s'_def)
  qed
qed

lemma seg_fill_loop_plan:
  assumes "planned (sf_li_len g) (sf_pdu_rem g) k (map sdu_remaining_size (ring_sdus e))"
    "seg_ready e" "sf_cont g" "\<forall>s\<in>set (take k (ring_sdus e)). sdu_remaining_size s < 2048"
    "sf_buf g = seg_block h (k \<noteq> 0) ls gap pl r" "length h = 2" "sf_num_li g = int (length ls)"
    "sf_e_li g = 2 + 3 * (int (length ls) div 2)" "sf_li_len g = (if even (length ls) then 1 else 2)"
    "m = int (length ls + k)" "m \<le> 31"
    "int (length (li_part (k \<noteq> 0) ls) + length gap) = (m * 3 + 1) div 2"
    "sf_data g = 2 + (m * 3 + 1) div 2 + int (length pl)" "sf_pdu_rem g \<le> int (length gap + length r)"
    "fill_out (sf_li_len g) (sf_pdu_rem g) k (ring_sdus e) = (lis, pl', end, ss')"
  shows "\<exists>g' e' r'. seg_fill_loop m g e = Some (g', e') \<and> filled (int (length pl')) e e' \<and> seg_ready e' \<and> ring_sdus e' = ss' \<and>
    sf_buf g' = h @ li_bytes (ls @ lis) @ pl @ pl' @ r' \<and> sf_num_li g' = m \<and> sf_last g' = end \<and> sf_pdu_rem g' = 0"
  using assms
proof (induction k arbitrary: g e ls gap pl r lis pl')
  case 0
  then obtain s ss where ring: "ring_sdus e = s # ss" by (cases "ring_sdus e") auto
  have gap: "gap = []" using 0(10,12) length_li_part[of False ls] by simp
  have rm: "0 < sf_pdu_rem g" "sf_pdu_rem g \<le> sdu_remaining_size s" "sf_pdu_rem g \<le> int (length r)"
    using 0(1,14) ring gap by simp_all
  have "sf_buf g = (h @ li_part False ls @ pl) @ r" "sf_data g = int (length (h @ li_part False ls @ pl))" "lis = []"
    using 0(5,6,12,13,15) gap ring by (simp_all add: seg_block_def)
  from seg_fill_last[OF 0(2) ring 0(3) rm(1,2) this(1,2) rm(3) 0(15)[unfolded ring], of m] this(3) show ?case
    using 0(7,10) by (simp add: li_part_all) blast
next
  case (Suc k)
  let ?n = "sf_pdu_rem g"
  let ?l = "sf_li_len g XOR 3"
  obtain s ss where ring: "ring_sdus e = s # ss" using Suc.prems(1) by (cases "ring_sdus e") auto
  let ?z = "sdu_remaining_size s"
  note R = seg_readyD[OF Suc.prems(2)]
  have s: "input_sdus e (current_sdu_index e) = s" using ring_sdus_Cons(1)[OF ring R(2)] by simp
  have sok: "sdu_slot_ok s" "0 < ?z" "?z < 2048" using R(4,5) ring Suc.prems(4) by simp_all
  have pln: "?z + ?l < ?n" "planned ?l (?n - (?z + ?l)) k (map sdu_remaining_size ss)" using Suc.prems(1) ring by simp_all
  have lenli: "int (length (li_part True ls)) = (int (length ls) * 3 + 1) div 2" by (rule length_li_part)
  have gap: "int (length gap) = li_room (sf_li_len g) (Suc k)"
    unfolding Suc.prems(9) li_room_len using Suc.prems(10,12) lenli by simp
  have "\<forall>z\<in>set (map sdu_remaining_size ss). 0 < z" using R(5) ring by auto
  then have "0 \<le> sum_list (take k (map sdu_remaining_size ss))"
    by (intro sum_list_nonneg) (auto dest!: in_set_takeD simp: less_imp_le)
  then have room: "?z \<le> int (length r)"
    using Suc.prems(14) gap planned_room[OF Suc.prems(1)] unfolding ring by simp
  have buf: "sf_buf g = (h @ li_part True ls @ gap @ pl) @ r" using Suc.prems(5) by (simp add: seg_block_def)
  have data: "sf_data g = int (length (h @ li_part True ls @ gap @ pl))" using Suc.prems(6,12,13) by simp
  define g1 where "g1 = g\<lparr>sf_buf := (h @ li_part True ls @ gap @ pl) @ sdu_rest s @ drop (nat ?z) r\<rparr>"
  have whole: "take (nat ?z) (sdu_rest s) = sdu_rest s" using length_sdu_rest[OF sok(1)] by (intro take_all) simp
  have cp: "seg_copy s ?z g = Some g1"
    using seg_copy_front[OF sok(1) _ _ buf data room] sok(2) unfolding whole g1_def by simp
  define g2 where "g2 = g1\<lparr>sf_data := sf_data g1 + ?z, sf_li_len := ?l, sf_num_li := sf_num_li g1 + 1\<rparr>"
  let ?f = "int (length ls) + 1 \<noteq> m"
  have f: "?f = (k \<noteq> 0)" using Suc.prems(10) by simp
  have "\<exists>gap'. seg_write_li ?f ?z g2 = Some (g2\<lparr>sf_buf := seg_block h ?f (ls @ [?z]) gap' (pl @ sdu_rest s) (drop (nat ?z) r),
        sf_e_li := 2 + 3 * (int (length ls + 1) div 2)\<rparr>) \<and>
    int (length (li_part ?f (ls @ [?z])) + length gap') = (m * 3 + 1) div 2"
    by (rule seg_write_li_next[OF _ _ _ _ _ sok(3)])
      (use Suc.prems(6,8,9,10,12) sok(2) in \<open>simp_all add: g2_def g1_def seg_block_def\<close>)
  then obtain gap' where w: "seg_write_li ?f ?z g2 = Some (g2\<lparr>sf_buf := seg_block h (k \<noteq> 0) (ls @ [?z]) gap' (pl @ sdu_rest s) (drop (nat ?z) r),
        sf_e_li := 2 + 3 * (int (length ls + 1) div 2)\<rparr>)"
    "int (length (li_part (k \<noteq> 0) (ls @ [?z])) + length gap') = (m * 3 + 1) div 2" unfolding f by blast
  define g3 where "g3 = g2\<lparr>sf_buf := seg_block h (k \<noteq> 0) (ls @ [?z]) gap' (pl @ sdu_rest s) (drop (nat ?z) r),
    sf_e_li := 2 + 3 * (int (length ls + 1) div 2), sf_pdu_rem := ?n - (?z + ?l)\<rparr>"
  obtain e1 where e1: "seg_sdu_done ?z e = Some e1" "filled ?z e e1" "seg_ready e1" "ring_sdus e1 = ss"
    using seg_sdu_done_pop[OF Suc.prems(2) ring] by blast
  have nlt: "\<not> ?n < ?z" "?z \<noteq> ?n" using pln(1) unfolding Suc.prems(9) by (cases "even (length ls)"; simp)+
  have num: "sf_num_li g1 + 1 = int (length ls) + 1" using Suc.prems(7) by (simp add: g1_def)
  have n31: "sf_num_li g \<noteq> 31" using Suc.prems(7,10,11) by simp
  have "seg_fill_step m g e = Some (g3, e1)"
    using pln(1) nlt n31 cp w(1) e1(1) unfolding seg_fill_step_def Let_def s g3_def by (simp add: num g2_def)
  then have loop: "seg_fill_loop m g e = seg_fill_loop m g3 e1"
    unfolding seg_fill_loop_step[OF Suc.prems(2) ring Suc.prems(3)] by simp
  have g3: "sf_li_len g3 = ?l" "sf_pdu_rem g3 = ?n - (?z + ?l)" "sf_num_li g3 = sf_num_li g + 1" "sf_data g3 = sf_data g + ?z"
    "sf_cont g3 = sf_cont g" "sf_e_li g3 = 2 + 3 * (int (length ls + 1) div 2)"
    "sf_buf g3 = seg_block h (k \<noteq> 0) (ls @ [?z]) gap' (pl @ sdu_rest s) (drop (nat ?z) r)"
    by (simp_all add: g3_def g2_def g1_def)
  obtain lis' pl'' where out: "fill_out ?l (?n - (?z + ?l)) k ss = (lis', pl'', end, ss')" "lis = ?z # lis'" "pl' = sdu_rest s @ pl''"
    using Suc.prems(15) unfolding ring by (auto split: prod.splits)
  have "\<exists>g' e' r'. seg_fill_loop m g3 e1 = Some (g', e') \<and> filled (int (length pl'')) e1 e' \<and> seg_ready e' \<and> ring_sdus e' = ss' \<and>
    sf_buf g' = h @ li_bytes ((ls @ [?z]) @ lis') @ (pl @ sdu_rest s) @ pl'' @ r' \<and> sf_num_li g' = m \<and> sf_last g' = end \<and> sf_pdu_rem g' = 0"
  proof (rule Suc.IH[where gap = gap' and r = "drop (nat ?z) r"])
    have "length gap' + length (li_part (k \<noteq> 0) (ls @ [?z])) = length gap + length (li_part True ls)"
      using w(2) Suc.prems(12) by simp
    moreover have "int (length (li_part (k \<noteq> 0) (ls @ [?z]))) = int (length (li_part True ls)) + ?l"
      unfolding length_li_part Suc.prems(9) by (cases "even (length ls)") (auto elim!: evenE oddE)
    ultimately show "sf_pdu_rem g3 \<le> int (length gap' + length (drop (nat ?z) r))"
      using Suc.prems(14) room sok(2) unfolding g3 by (simp add: of_nat_diff)
    show "planned (sf_li_len g3) (sf_pdu_rem g3) k (map sdu_remaining_size (ring_sdus e1))"
      "fill_out (sf_li_len g3) (sf_pdu_rem g3) k (ring_sdus e1) = (lis', pl'', end, ss')"
      using pln(2) out(1) unfolding e1(4) g3 .
    show "\<forall>s\<in>set (take k (ring_sdus e1)). sdu_remaining_size s < 2048" using Suc.prems(4) unfolding e1(4) ring by simp
    show "sf_li_len g3 = (if even (length (ls @ [?z])) then 1 else 2)" using Suc.prems(9) unfolding g3 by simp
    show "sf_num_li g3 = int (length (ls @ [?z]))" using Suc.prems(7) unfolding g3 by simp
    show "sf_data g3 = 2 + (m * 3 + 1) div 2 + int (length (pl @ sdu_rest s))"
      using Suc.prems(13) length_sdu_rest[OF sok(1)] unfolding g3 by simp
    show "sf_cont g3" using Suc.prems(3) unfolding g3 .
    show "m = int (length (ls @ [?z]) + k)" using Suc.prems(10) by simp
    show "sf_e_li g3 = 2 + 3 * (int (length (ls @ [?z])) div 2)" unfolding g3 by simp
  qed (rule e1(3) g3 Suc.prems(6,11) w(2))+
  then obtain g' e' r' where fin: "seg_fill_loop m g3 e1 = Some (g', e')" "filled (int (length pl'')) e1 e'" "seg_ready e'" "ring_sdus e' = ss'"
    "sf_buf g' = h @ li_bytes ((ls @ [?z]) @ lis') @ (pl @ sdu_rest s) @ pl'' @ r'" "sf_num_li g' = m" "sf_last g' = end" "sf_pdu_rem g' = 0"
    by blast
  have "int (length pl') = ?z + int (length pl'')" using length_sdu_rest[OF sok(1)] unfolding out(3) by simp
  then have "filled (int (length pl')) e e'" using filled_trans[OF e1(2) fin(2)] by simp
  then show ?case unfolding loop using fin out(2,3) by (intro exI[of _ g'] exI[of _ e'] exI[of _ r']) simp
qed

end
