(* ===== verification/Rlc_Am_Segment_Pdu.thy ===== *)
theory Rlc_Am_Segment_Pdu
  imports Rlc_Am_Segmentation Rlc_Am_Receiver
begin

text \<open>
  The PDU that segmentation hands to MAC: its header and payload decode to what was put in, and
  read the way reassembly reads it, it completes the SDUs that left the front of the queue. With it
  the two ends of a link: what one entity segments and the other receives is the sequence of SDUs
  in order.
\<close>

subsection \<open>Framing of the planned PDU\<close>

definition tx_sdus :: "rlc_am_entity \<Rightarrow> byte list list" where
  "tx_sdus e = map sdu_whole (ring_sdus e)"

fun sent_of :: "rlc_am_tx_sdu_management list \<Rightarrow> byte list" where
  "sent_of [] = []"
| "sent_of (s # ss) = sdu_sent s"

definition tx_sent :: "rlc_am_entity \<Rightarrow> byte list" where
  "tx_sent e = sent_of (ring_sdus e)"

lemma sent_of_new: "\<forall>s\<in>set ss. sdu_segmented_size s = 0 \<Longrightarrow> sent_of ss = []"
  by (cases ss) (auto simp: sdu_sent_def split: option.splits)

lemma sdu_partial_bytes:
  assumes "sdu_slot_ok s" "0 \<le> r" "r \<le> sdu_remaining_size s"
  shows "sdu_sent (s\<lparr>sdu_remaining_size := a, sdu_segmented_size := sdu_segmented_size s + r\<rparr>) = sdu_sent s @ take (nat r) (sdu_rest s)"
    "sdu_whole (s\<lparr>sdu_remaining_size := a, sdu_segmented_size := b\<rparr>) = sdu_whole s"
proof -
  obtain d where d: "sdu_mem_block s = Some d" using assms(1) by (auto simp: sdu_slot_ok_def split: option.splits)
  have "nat (sdu_segmented_size s + r) = nat (sdu_segmented_size s) + nat r" "0 \<le> sdu_segmented_size s"
    using assms(1,2) by (auto simp: sdu_slot_ok_def nat_add_distrib)
  then show "sdu_sent (s\<lparr>sdu_remaining_size := a, sdu_segmented_size := sdu_segmented_size s + r\<rparr>) = sdu_sent s @ take (nat r) (sdu_rest s)"
    using assms(2,3) by (simp add: sdu_sent_def sdu_rest_def d take_add min_def)
  show "sdu_whole (s\<lparr>sdu_remaining_size := a, sdu_segmented_size := b\<rparr>) = sdu_whole s"
    by (simp add: sdu_whole_def d)
qed

lemma fill_out_framing:
  assumes "planned li r k (map sdu_remaining_size ss)" "\<forall>s\<in>set ss. sdu_slot_ok s \<and> 0 < sdu_remaining_size s"
    "\<forall>s\<in>set (tl ss). sdu_segmented_size s = 0" "fill_out li r k ss = (lis, pl, end, ss')"
  shows "lis = map sdu_remaining_size (take k ss) \<and> sum_list lis < int (length pl) \<and> int (length pl) = r - li_room li k \<and>
    sdus_of (sent_of ss) (cut lis pl end) = (take (k + of_bool end) (map sdu_whole ss), sent_of ss') \<and>
    map sdu_whole ss' = drop (k + of_bool end) (map sdu_whole ss)"
  using assms
proof (induction k arbitrary: li r ss lis pl)
  case 0
  obtain s ts where ss: "ss = s # ts" using "0.prems"(1) by (cases ss) auto
  have s: "sdu_slot_ok s" "0 \<le> r" "r \<le> sdu_remaining_size s" "0 < r" using "0.prems"(1,2) ss by auto
  have new: "sent_of ts = []" using "0.prems"(3) ss sent_of_new by simp
  have len: "int (length (take (nat r) (sdu_rest s))) = r" using length_sdu_rest[OF s(1)] s by simp
  show ?case
  proof (cases "r = sdu_remaining_size s")
    case True
    then have "take (nat r) (sdu_rest s) = sdu_rest s" using length_sdu_rest[OF s(1)] by (intro take_all) simp
    then show ?thesis using True "0.prems"(4) ss len s(4) new sdu_sent_rest[OF s(1)] by auto
  next
    case False
    then show ?thesis using "0.prems"(4) ss len s(4) sdu_partial_bytes[OF s(1,2,3)] by auto
  qed
next
  case (Suc k)
  obtain s ts where ss: "ss = s # ts" using Suc.prems(1) by (cases ss) auto
  let ?z = "sdu_remaining_size s"
  let ?l = "li XOR 3"
  have s: "sdu_slot_ok s" "0 < ?z" using Suc.prems(2) ss by auto
  obtain lis' pl' where out: "fill_out ?l (r - (?z + ?l)) k ts = (lis', pl', end, ss')" "lis = ?z # lis'" "pl = sdu_rest s @ pl'"
    using Suc.prems(4) unfolding ss by (auto split: prod.splits)
  have p: "planned ?l (r - (?z + ?l)) k (map sdu_remaining_size ts)" using Suc.prems(1) ss by simp
  have t: "\<forall>s\<in>set ts. sdu_slot_ok s \<and> 0 < sdu_remaining_size s" "\<forall>s\<in>set (tl ts). sdu_segmented_size s = 0"
    using Suc.prems(2,3) ss by (cases ts; auto)+
  note IH = Suc.IH[OF p t out(1)]
  have new: "sent_of ts = []" using Suc.prems(3) ss sent_of_new by simp
  have len: "int (length (sdu_rest s)) = ?z" by (rule length_sdu_rest[OF s(1)])
  then have ct: "take (nat ?z) pl = sdu_rest s" "drop (nat ?z) pl = pl'" unfolding out(3) by simp_all
  have "sdus_of (sdu_sent s) (cut lis pl end) = (sdu_whole s # take (k + of_bool end) (map sdu_whole ts), sent_of ss')"
    unfolding out(2) cut.simps ct sdus_of.simps sdu_sent_rest[OF s(1)] if_True new[symmetric]
      IH[THEN conjunct2, THEN conjunct2, THEN conjunct2, THEN conjunct1] prod.case ..
  then show ?case using IH len ss unfolding out(2,3) by (auto simp: algebra_simps)
qed

subsection \<open>The fixed header\<close>

lemma sn_high: "0 \<le> sn \<Longrightarrow> sn < 1024 \<Longrightarrow> sn div 256 \<in> {0, 1, 2, 3 :: int}"
proof -
  assume "0 \<le> sn" "sn < 1024"
  then have "0 \<le> sn div 256" "sn div 256 < 4" by auto
  then show ?thesis by auto
qed

lemma poll_bit_set:
  assumes "p \<in> {0, 1 :: int}" "fi \<in> {0, 1, 2, 3}" "x \<in> {0, 1}" "h \<in> {0, 1, 2, 3}"
  shows "(word_of_int (128 + 32 * p + 8 * fi + 4 * x + h) :: byte) OR 0x20 = word_of_int (128 + 32 * 1 + 8 * fi + 4 * x + h)"
    "(word_of_int (128 + 32 * p + 8 * fi + 4 * x + h) :: byte) AND 0xDF = word_of_int (128 + 32 * 0 + 8 * fi + 4 * x + h)"
  using assms by auto

lemma fixed_header:
  assumes "fi \<in> {0, 1, 2, 3 :: int}" "h \<in> {0, 1, 2, 3}"
  shows "((if b then (0 OR push_bit 3 (word_of_int fi)) OR 0x04 else 0 OR push_bit 3 (word_of_int fi)) OR 0x80) OR (word_of_int h :: byte) =
    word_of_int (128 + 32 * 0 + 8 * fi + 4 * of_bool b + h)"
  using assms by auto

lemma pdu_polling_frame:
  assumes "rlc_am_pdu_polling e f b n = (e', b')"
  shows "\<exists>c d q t. e' = e\<lparr>c_pdu_without_poll := c, c_byte_without_poll := d, poll_sn := q, t_poll_retransmit := t\<rparr>"
    "b' = b OR 0x20 \<or> b' = b AND 0xDF"
proof -
  show "b' = b OR 0x20 \<or> b' = b AND 0xDF" using assms by (auto simp: rlc_am_pdu_polling_def Let_def split: if_splits)
  have "e' = e\<lparr>c_pdu_without_poll := c_pdu_without_poll e', c_byte_without_poll := c_byte_without_poll e',
      poll_sn := poll_sn e', t_poll_retransmit := t_poll_retransmit e'\<rparr>"
    using assms by (auto simp: rlc_am_pdu_polling_def Let_def rlc_am_start_timer_poll_retransmit_def split: if_splits)
  then show "\<exists>c d q t. e' = e\<lparr>c_pdu_without_poll := c, c_byte_without_poll := d, poll_sn := q, t_poll_retransmit := t\<rparr>" by blast
qed

lemma pdu_polling_header:
  assumes "rlc_am_pdu_polling e f (word_of_int (128 + 32 * p + 8 * fi + 4 * x + h)) n = (e', b')"
    "p \<in> {0, 1 :: int}" "fi \<in> {0, 1, 2, 3}" "x \<in> {0, 1}" "h \<in> {0, 1, 2, 3}"
  shows "\<exists>q\<in>{0, 1}. b' = word_of_int (128 + 32 * q + 8 * fi + 4 * x + h)"
  using pdu_polling_frame(2)[OF assms(1)] unfolding poll_bit_set[OF assms(2-5)] by blast

text \<open>What the end of segmentation changes of the entity.\<close>

definition finished :: "mac_tb_req \<Rightarrow> mac_tb_req \<Rightarrow> rlc_am_entity \<Rightarrow> rlc_am_entity \<Rightarrow> bool" where
  "finished mb c e e' \<longleftrightarrow> (\<exists>st cp cb q t. e' = (upd_pdu (seg_slot e) (\<lambda>p. p\<lparr>txp_mem_block := Some mb,
       txp_header_and_payload_size := tb_size mb, txp_retx_count := - 1, txp_retransmit := False\<rparr>) e)\<lparr>
     stats := st, vt_s := sn_mask (vt_s e + 1), c_pdu_without_poll := cp, c_byte_without_poll := cb, poll_sn := q,
     t_poll_retransmit := t, retrans_num_pdus := retrans_num_pdus e + 1, retrans_num_bytes := retrans_num_bytes e + tb_size mb,
     segmentation_pdu_list := segmentation_pdu_list e @ [c]\<rparr>)"

lemma segment_finish_copy:
  assumes "valid_sn (vt_s e)" "sf_buf g = [0, y] @ bs" "sf_pdu_rem g = 0" "0 < n" "n < 9000" "n \<le> int (length (sf_buf g))" "2 \<le> n"
  shows "\<exists>e' b p mb. segment_finish n first g e f = Some e' \<and> p \<in> {0, 1} \<and>
    b = word_of_int (128 + 32 * p + 8 * ((if first then 0 else 2) + (if sf_last g then 0 else 1)) + 4 * of_bool (sf_num_li g > 0) + vt_s e div 256) \<and>
    tb_size mb = n \<and> finished mb \<lparr>tb_size = n, tb_data = take (nat n) (b # word_of_int (vt_s e mod 256) # bs)\<rparr> e e'"
proof -
  let ?fi = "(if first then 0 else 2) + (if sf_last g then 0 else 1) :: int"
  let ?x = "of_bool (sf_num_li g > 0) :: int"
  let ?h = "vt_s e div 256"
  let ?hd = "\<lambda>p. word_of_int (128 + 32 * p + 8 * ?fi + 4 * ?x + ?h) :: byte"
  let ?b2 = "word_of_int (vt_s e mod 256) :: byte"
  have v: "0 \<le> vt_s e" "vt_s e < 1024" "seg_slot e = vt_s e" using assms(1) by (auto simp: valid_sn_def)
  have fi: "?fi \<in> {0, 1, 2, 3}" "?h \<in> {0, 1, 2, 3}" "?x \<in> {0, 1}" using sn_high[OF v(1,2)] by auto
  define e1 where "e1 = e\<lparr>stats := (stats e)\<lparr>stat_tx_data_pdu := stat_tx_data_pdu (stats e) + 1,
      stat_tx_data_bytes := stat_tx_data_bytes (stats e) + word_of_int n\<rparr>, vt_s := sn_mask (vt_s e + 1)\<rparr>"
  obtain e2 b1 where p1: "rlc_am_pdu_polling e1 f (?hd 0) (txp_payload_size (pdu_retrans_buffer e1 (seg_slot e))) = (e2, b1)" by fastforce
  obtain q1 where q1: "q1 \<in> {0, 1}" "b1 = ?hd q1" using pdu_polling_header[OF p1 _ fi(1,3,2)] by blast
  define mb where "mb = \<lparr>tb_size = n, tb_data = (sf_buf g)[0 := b1, 1 := ?b2]\<rparr>"
  have buf: "tb_data mb = b1 # ?b2 # bs" unfolding mb_def assms(2) by simp
  obtain c d q t where e2: "e2 = e1\<lparr>c_pdu_without_poll := c, c_byte_without_poll := d, poll_sn := q, t_poll_retransmit := t\<rparr>"
    using pdu_polling_frame(1)[OF p1] by blast
  define e3 where "e3 = upd_pdu (seg_slot e) (\<lambda>p. p\<lparr>txp_mem_block := Some mb, txp_header_and_payload_size := n, txp_retx_count := - 1\<rparr>) e2"
  define e4 where "e4 = e3\<lparr>retrans_num_pdus := retrans_num_pdus e3 + 1, retrans_num_bytes := retrans_num_bytes e3 + n\<rparr>"
  have sn: "sn_mask (vt_s e4 - 1) = vt_s e"
    using v(1,2) unfolding e4_def e3_def e2 e1_def by (simp add: sn_mask_mod mod_diff_left_eq)
  define e5 where "e5 = upd_pdu (vt_s e) (\<lambda>p. p\<lparr>txp_retransmit := False\<rparr>) e4"
  let ?data = "take (nat n) (tb_data mb)"
  have d0: "?data ! 0 = ?hd q1" unfolding buf q1(2)[symmetric] using assms(4) by simp
  obtain e6 b where p2: "rlc_am_pdu_polling e5 f (?hd q1) (txp_payload_size (pdu_retrans_buffer e5 (vt_s e))) = (e6, b)" by fastforce
  obtain q2 where q2: "q2 \<in> {0, 1}" "b = ?hd q2" using pdu_polling_header[OF p2 q1(1) fi(1,3,2)] by blast
  have n: "nat n = Suc (Suc (nat n - 2))" using assms(7) by simp
  have copy: "?data[0 := b] = take (nat n) (b # ?b2 # bs)" unfolding buf by (subst (1 2) n) simp
  have get: "rlc_am_retransmit_get_copy e4 f (vt_s e) = Some (Some (mb\<lparr>tb_data := ?data[0 := b]\<rparr>), e6)"
  proof -
    have "txp_mem_block (pdu_retrans_buffer e4 (vt_s e)) = Some mb" "txp_header_and_payload_size (pdu_retrans_buffer e4 (vt_s e)) = n"
      by (simp_all add: e4_def e3_def v(3))
    moreover have "n \<le> int (length (tb_data mb))" using assms(6) by (simp add: mb_def)
    ultimately show ?thesis using assms(4) v(3) p2 d0 unfolding rlc_am_retransmit_get_copy_def e5_def by (simp add: Let_def)
  qed
  have hd: "((if 0 < sf_num_li g then (0 OR push_bit 3 (word_of_int ?fi)) OR 0x04 else 0 OR push_bit 3 (word_of_int ?fi)) OR 0x80) OR
      (word_of_int (drop_bit 8 (vt_s e)) :: byte) = ?hd 0"
    using fixed_header[OF fi(1,2), of "0 < sf_num_li g"] by (simp add: drop_bit_eq_div)
  have b2: "(word_of_int (vt_s e AND 0xFF) :: byte) = ?b2" using and_mask_mod[of "vt_s e" 8] by simp
  have b0: "sf_buf g ! 0 = 0" unfolding assms(2) by simp
  have "segment_finish n first g e f = Some (e6\<lparr>segmentation_pdu_list := segmentation_pdu_list e6 @ [mb\<lparr>tb_data := ?data[0 := b]\<rparr>]\<rparr>)"
    unfolding segment_finish_def Let_def b0 hd b2 assms(3) diff_0_right e1_def[symmetric] p1 prod.case mb_def[symmetric]
      e3_def[symmetric] e4_def[symmetric] sn get using assms(5) by simp
  moreover obtain c' d' q' t' where e6: "e6 = e5\<lparr>c_pdu_without_poll := c', c_byte_without_poll := d', poll_sn := q', t_poll_retransmit := t'\<rparr>"
    using pdu_polling_frame(1)[OF p2] by blast
  moreover have "finished mb \<lparr>tb_size = n, tb_data = take (nat n) (b # ?b2 # bs)\<rparr> e
      (e6\<lparr>segmentation_pdu_list := segmentation_pdu_list e6 @ [mb\<lparr>tb_data := ?data[0 := b]\<rparr>]\<rparr>)"
    unfolding finished_def copy e6 e5_def e4_def e3_def e2 v(3)
    by (rule exI[of _ "stats e1"], rule exI[of _ c'], rule exI[of _ d'], rule exI[of _ q'], rule exI[of _ t'],
        rule rlc_am_entity.equality) (simp_all add: mb_def e1_def)
  moreover have "tb_size mb = n" by (simp add: mb_def)
  ultimately show ?thesis using q2 by blast
qed

subsection \<open>A PDU from the front of the queue\<close>

text \<open>
  Segmentation is called with a grant of more than two bytes, with something to send, at most 31
  waiting SDUs of less than 2048 bytes, none of them spread over 31 PDUs already.
\<close>

definition seg_input :: "rlc_am_entity \<Rightarrow> bool" where
  "seg_input e \<longleftrightarrow> seg_ready e \<and> valid_sn (vt_s e) \<and> ring_sdus e \<noteq> [] \<and> length (ring_sdus e) \<le> 31 \<and>
     (\<forall>s\<in>set (ring_sdus e). sdu_remaining_size s < 2048 \<and> sdu_nb_pdus s < 31) \<and>
     2 < nb_bytes_requested_by_mac e \<and> nb_bytes_requested_by_mac e < 9000"

definition seg_waste :: "rlc_am_entity \<Rightarrow> int" where
  "seg_waste e = plan_waste 1 (segment_size e - 2) (map sdu_remaining_size (ring_sdus e))"

lemma mem_write_length: "mem_write off bs buf = Some buf' \<Longrightarrow> length buf' = length buf"
  by (auto simp: mem_write_def split: if_splits)

lemma seg_fill_loop_length: "seg_fill_loop m g e = Some (g', e') \<Longrightarrow> length (sf_buf g') = length (sf_buf g)"
proof (induction m g e rule: seg_fill_loop.induct)
  case (1 m g e)
  have step: "length (sf_buf a) = length (sf_buf g)" if "seg_fill_step m g e = Some (a, b)" for a b
    using that by (auto simp: seg_fill_step_def seg_copy_def seg_write_li_def Let_def dest!: mem_write_length split: if_splits option.splits)
  show ?case
  proof (cases "sdu_index_ok (current_sdu_index e) \<and> sdu_mem_block (input_sdus e (current_sdu_index e)) \<noteq> None \<and> sf_cont g")
    case True
    then have "seg_fill_loop m g e = (case seg_fill_step m g e of None \<Rightarrow> None | Some (a, b) \<Rightarrow> seg_fill_loop m a b)"
      by (subst seg_fill_loop.simps) simp
    then obtain a b where ab: "seg_fill_step m g e = Some (a, b)" "seg_fill_loop m a b = Some (g', e')"
      using "1.prems" by (auto split: option.splits)
    have "length (sf_buf g') = length (sf_buf a)" using "1.IH"[OF _ _ ab(1) refl ab(2)] True by blast
    then show ?thesis using step[OF ab(1)] by simp
  next
    case False
    then show ?thesis using "1.prems" by (subst (asm) seg_fill_loop.simps) (auto split: if_splits)
  qed
qed

lemma length_rests: "\<forall>s\<in>set ss. sdu_slot_ok s \<Longrightarrow> int (length (concat (map sdu_rest ss))) = sum_list (map sdu_remaining_size ss)"
  by (induction ss) (auto simp: length_sdu_rest)

lemma seg_input_size:
  assumes "seg_input e"
  shows "0 < sdu_buffer_occupancy e" "2 < segment_size e" "segment_size e \<le> nb_bytes_requested_by_mac e"
    "segment_size e - 2 \<le> sum_list (map sdu_remaining_size (ring_sdus e)) + li_room 1 (length (ring_sdus e) - 1)"
proof -
  note R = seg_readyD[of e] and D = sdu_ring_okD[of e]
  have r: "seg_ready e" "ring_sdus e \<noteq> []" "2 < nb_bytes_requested_by_mac e" using assms by (auto simp: seg_input_def)
  have bo: "sdu_buffer_occupancy e = sum_list (map sdu_remaining_size (ring_sdus e))"
    unfolding D(7)[OF R(1)[OF r(1)]] sdu_queue_ring by (rule length_rests[OF R(4)[OF r(1)]])
  obtain s ss where ring: "ring_sdus e = s # ss" using r(2) by (cases "ring_sdus e") auto
  have "0 \<le> sum_list (map sdu_remaining_size ss)" using R(5)[OF r(1)] ring by (intro sum_list_nonneg) auto
  then show b: "0 < sdu_buffer_occupancy e" using bo R(5)[OF r(1)] ring by simp
  have n: "nb_sdu_no_segmented e = int (length (ring_sdus e))" using D(6)[OF R(1)[OF r(1)]] by simp
  have ov: "0 \<le> max_li_overhead (nb_sdu_no_segmented e)" by (simp add: max_li_overhead_def)
  show "2 < segment_size e" "segment_size e \<le> nb_bytes_requested_by_mac e" using b ov r(3) by (simp_all add: segment_size_def Let_def)
  show "segment_size e - 2 \<le> sum_list (map sdu_remaining_size (ring_sdus e)) + li_room 1 (length (ring_sdus e) - 1)"
    unfolding li_room_overhead bo[symmetric] n[symmetric] by (simp add: segment_size_def Let_def)
qed

lemma ring_slots_wait:
  assumes "\<forall>s\<in>set (ring_sdus e). sdu_slot_ok s \<and> sdu_nb_pdus s < 31"
  shows "slots_wait e (current_sdu_index e) (map sdu_remaining_size (ring_sdus e))"
proof -
  have "sdu_at e (int k) = ring_sdus e ! k" if "k < length (ring_sdus e)" for k
    using that by (simp add: ring_sdus_def)
  then show ?thesis using assms unfolding slots_wait_def
    by (auto simp: sdu_slot_ok_def split: option.splits dest!: nth_mem)
qed

lemma segment_planned:
  assumes "seg_input e" "e1 = upd_pdu (seg_slot e) (\<lambda>_. zero_tx_pdu) e"
  shows "\<exists>t e2 k. seg_test_loop \<lparr>st_cont = True, st_num_fill = 0, st_num_li = 0, st_index = current_sdu_index e1,
      st_rem = segment_size e - 2, st_li_len = 1, st_sub_size = 0, st_sub_num = 0, st_pdu_rem = segment_size e - 2\<rparr> e1 = Some (t, e2) \<and>
    linked e1 e2 \<and> st_sub_num t = 0 \<and> st_num_li t = int k \<and> st_pdu_rem t = segment_size e - 2 - seg_waste e \<and>
    planned 1 (segment_size e - 2 - seg_waste e) k (map sdu_remaining_size (ring_sdus e))"
proof -
  let ?zs = "map sdu_remaining_size (ring_sdus e)"
  let ?t = "\<lparr>st_cont = True, st_num_fill = 0, st_num_li = 0, st_index = current_sdu_index e1, st_rem = segment_size e - 2,
    st_li_len = 1, st_sub_size = 0, st_sub_num = 0, st_pdu_rem = segment_size e - 2\<rparr>"
  have i: "seg_ready e" "ring_sdus e \<noteq> []" "length (ring_sdus e) \<le> 31" "\<forall>s\<in>set (ring_sdus e). sdu_nb_pdus s < 31"
    using assms(1) by (auto simp: seg_input_def)
  note R = seg_readyD[OF i(1)]
  have r1: "ring_sdus e1 = ring_sdus e" "current_sdu_index e1 = current_sdu_index e" "seg_slot e1 = seg_slot e"
    unfolding assms(2) by (simp_all add: ring_sdus_def)
  have w: "slots_wait e1 (current_sdu_index e1) ?zs" using ring_slots_wait[of e1] R(4) i(4) unfolding r1(1) by blast
  have nb: "txp_nb_sdus (pdu_retrans_buffer e1 (seg_slot e1)) = 0" unfolding r1(3) by (simp add: assms(2) zero_tx_pdu_def)
  have "\<exists>t' e' k. seg_test_loop ?t e1 = Some (t', e') \<and> linked e1 e' \<and> st_sub_num t' = 0 \<and>
    st_num_li t' = st_num_li ?t + int k \<and> st_pdu_rem t' = st_pdu_rem ?t - plan_waste (st_li_len ?t) (st_rem ?t) ?zs \<and>
    planned (st_li_len ?t) (st_rem ?t - plan_waste (st_li_len ?t) (st_rem ?t) ?zs) k ?zs"
  proof (rule seg_test_loop_plan)
    show "slots_wait e1 (st_index ?t) ?zs" using w by simp
    show "\<forall>z\<in>set ?zs. 0 < z" using R(5) by auto
    show "st_rem ?t \<le> sum_list ?zs + li_room (st_li_len ?t) (length ?zs - 1)" using seg_input_size(4)[OF assms(1)] by simp
  qed (use i R(2) r1 nb seg_input_size(2)[OF assms(1)] in simp_all)
  then show ?thesis by (simp add: seg_waste_def)
qed

lemma segment_filled:
  assumes "seg_ready e" "planned 1 r k (map sdu_remaining_size (ring_sdus e))"
    "\<forall>s\<in>set (ring_sdus e). sdu_remaining_size s < 2048" "length (ring_sdus e) \<le> 31" "r \<le> n - 2"
    "fill_out 1 r k (ring_sdus e) = (lis, pl, end, ss')"
  shows "\<exists>g' e' x. seg_fill_loop (int k) \<lparr>sf_cont = True, sf_data = 2 + (int k * 3 + 1) div 2, sf_e_li = 2, sf_li_len = 1,
       sf_num_li = 0, sf_last = False, sf_pdu_rem = r, sf_buf = new_block mem n\<rparr> e = Some (g', e') \<and>
     filled (int (length pl)) e e' \<and> seg_ready e' \<and> ring_sdus e' = ss' \<and> sf_buf g' = [0, 0] @ li_bytes lis @ pl @ x \<and>
     n \<le> int (length (sf_buf g')) \<and> sf_num_li g' = int k \<and> sf_last g' = end \<and> sf_pdu_rem g' = 0"
proof -
  define y where "y = [0, 0] @ map mem [4..<nat n]"
  let ?G = "nat ((int k * 3 + 1) div 2)"
  let ?g = "\<lparr>sf_cont = True, sf_data = 2 + (int k * 3 + 1) div 2, sf_e_li = 2, sf_li_len = 1,
       sf_num_li = 0, sf_last = False, sf_pdu_rem = r, sf_buf = new_block mem n\<rparr>"
  have ny: "new_block mem n = [0, 0] @ y" "n - 2 \<le> int (length y)" by (simp_all add: new_block_def y_def)
  have pos: "\<forall>z\<in>set (map sdu_remaining_size (ring_sdus e)). 0 < z" using seg_readyD(5)[OF assms(1)] by auto
  have pr: "k < length (ring_sdus e)" "sum_list (take k (map sdu_remaining_size (ring_sdus e))) + li_room 1 k < r"
    using planned_room[OF assms(2)] by auto
  have "0 \<le> sum_list (take k (map sdu_remaining_size (ring_sdus e)))"
    using pos by (intro sum_list_nonneg) (auto dest!: in_set_takeD simp: less_imp_le)
  then have G: "int ?G < r" "?G \<le> length y" using pr(2) li_room_len[of 0 k] ny(2) assms(5) by auto
  have "\<exists>g' e' x. seg_fill_loop (int k) ?g e = Some (g', e') \<and> filled (int (length pl)) e e' \<and> seg_ready e' \<and> ring_sdus e' = ss' \<and>
    sf_buf g' = [0, 0] @ li_bytes ([] @ lis) @ [] @ pl @ x \<and> sf_num_li g' = int k \<and> sf_last g' = end \<and> sf_pdu_rem g' = 0"
  proof (rule seg_fill_loop_plan[where gap = "take ?G y" and r = "drop ?G y"])
    show "sf_buf ?g = seg_block [0, 0] (k \<noteq> 0) [] (take ?G y) [] (drop ?G y)" by (simp add: seg_block_def ny(1))
    show "int (length (li_part (k \<noteq> 0) []) + length (take ?G y)) = (int k * 3 + 1) div 2" using G(2) by simp
    show "sf_pdu_rem ?g \<le> int (length (take ?G y) + length (drop ?G y))" using assms(5) ny(2) G(2) by simp
    show "\<forall>s\<in>set (take k (ring_sdus e)). sdu_remaining_size s < 2048" using assms(3) by (auto dest: in_set_takeD)
  qed (use assms(1,2,4,6) pr(1) in simp_all)
  moreover have "n \<le> int (length (sf_buf ?g))" using ny by simp
  ultimately show ?thesis using seg_fill_loop_length[of "int k" ?g e] by fastforce
qed

text \<open>
  The outcome: a PDU with the header and payload of \<open>i\<close>, followed by \<open>junk\<close>, goes to MAC; it completes
  the first \<open>n\<close> waiting SDUs and carries what is sent of the next one; it is kept for
  retransmission, and \<^verbatim>\<open>VT(S)\<close> moves on.
\<close>

definition segments :: "rlc_am_entity \<Rightarrow> rlc_am_pdu_info \<Rightarrow> byte list \<Rightarrow> nat \<Rightarrow> rlc_am_entity \<Rightarrow> bool" where
  "segments e i junk n e' \<longleftrightarrow>
     header_ok i \<and> pi_rf i = 0 \<and> pi_sn i = vt_s e \<and> (\<forall>l\<in>set (pi_li_list i). 0 < l) \<and>
     segmentation_pdu_list e' = segmentation_pdu_list e @
       [\<lparr>tb_size = pi_header_size i + pi_payload_size i + int (length junk), tb_data = header_bytes i @ pi_payload i @ junk\<rparr>] \<and>
     pdu_sdus_of (tx_sent e) \<lparr>pdu_info = i, all_segments_received = True\<rparr> = (take n (tx_sdus e), tx_sent e') \<and>
     tx_sdus e' = drop n (tx_sdus e) \<and> vt_s e' = sn_mask (vt_s e + 1)"

definition kept_pdu :: "rlc_am_entity \<Rightarrow> rlc_am_entity \<Rightarrow> int \<Rightarrow> bool" where
  "kept_pdu e e' n \<longleftrightarrow> (\<exists>p. pdu_retrans_buffer e' = (pdu_retrans_buffer e)(vt_s e := p) \<and> txp_mem_block p \<noteq> None \<and>
     \<not> txp_ack p \<and> refs_ok p \<and> txp_header_and_payload_size p = n \<and> txp_retx_count p = - 1) \<and>
     vt_a e' = vt_a e \<and> vt_ms e' = vt_ms e \<and> next_sdu_index e' = next_sdu_index e"

lemma sdu_core_maps:
  assumes "map sdu_core xs = map sdu_core ys"
  shows "map sdu_remaining_size xs = map sdu_remaining_size ys" "map sdu_whole xs = map sdu_whole ys" "sent_of xs = sent_of ys"
proof -
  have "length xs = length ys" using assms by (metis length_map)
  then have "map sdu_remaining_size xs = map sdu_remaining_size ys \<and> map sdu_whole xs = map sdu_whole ys \<and> sent_of xs = sent_of ys"
    using assms by (induction xs ys rule: list_induct2) (auto dest: sdu_core_cong)
  then show "map sdu_remaining_size xs = map sdu_remaining_size ys" "map sdu_whole xs = map sdu_whole ys" "sent_of xs = sent_of ys"
    by blast+
qed

lemma finished_simps:
  assumes "finished mb c e e'"
  shows "vt_s e' = sn_mask (vt_s e + 1)" "segmentation_pdu_list e' = segmentation_pdu_list e @ [c]" "vt_a e' = vt_a e" "vt_ms e' = vt_ms e"
    "next_sdu_index e' = next_sdu_index e" "ring_sdus e' = ring_sdus e" "seg_ready e' = seg_ready e"
    "pdu_retrans_buffer e' = (pdu_retrans_buffer e)(seg_slot e := (pdu_retrans_buffer e (seg_slot e))\<lparr>txp_mem_block := Some mb,
       txp_header_and_payload_size := tb_size mb, txp_retx_count := - 1, txp_retransmit := False\<rparr>)"
  using assms seg_ready_cong(1)[of e' e] by (auto simp: finished_def ring_sdus_def)

lemma segment_run:
  assumes "seg_input e"
  shows "\<exists>e' i junk n. rlc_am_segment_10 mem e f = Some e' \<and> segments e i junk n e' \<and> seg_ready e' \<and>
    kept_pdu e e' (segment_size e) \<and> int (length junk) = seg_waste e \<and>
    pi_header_size i + pi_payload_size i + seg_waste e = segment_size e"
proof -
  let ?n = "segment_size e" and ?w = "seg_waste e"
  have I: "seg_ready e" "valid_sn (vt_s e)" "ring_sdus e \<noteq> []" "length (ring_sdus e) \<le> 31"
    "\<forall>s\<in>set (ring_sdus e). sdu_remaining_size s < 2048" "nb_bytes_requested_by_mac e < 9000" "2 < nb_bytes_requested_by_mac e"
    using assms by (auto simp: seg_input_def)
  note N = seg_input_size[OF assms] and R = seg_readyD[OF I(1)]
  obtain s ss where ring: "ring_sdus e = s # ss" using I(3) by (cases "ring_sdus e") auto
  have sok: "sdu_slot_ok s" "input_sdus e (current_sdu_index e) = s" using R(4) ring ring_sdus_Cons(1)[OF ring R(2)] by simp_all
  have w: "0 \<le> ?w" "?w \<le> 2" using plan_waste_range[of 1] by (simp_all add: seg_waste_def)
  define e1 where "e1 = upd_pdu (seg_slot e) (\<lambda>_. zero_tx_pdu) e"
  define t0 where "t0 = \<lparr>st_cont = True, st_num_fill = 0, st_num_li = 0, st_index = current_sdu_index e1,
      st_rem = ?n - 2, st_li_len = 1, st_sub_size = 0, st_sub_num = 0, st_pdu_rem = ?n - 2\<rparr>"
  obtain t e2 k where p: "seg_test_loop t0 e1 = Some (t, e2)" "linked e1 e2" "st_sub_num t = 0" "st_num_li t = int k"
    "st_pdu_rem t = ?n - 2 - ?w" "planned 1 (?n - 2 - ?w) k (map sdu_remaining_size (ring_sdus e))"
    using segment_planned[OF assms e1_def] unfolding t0_def by blast
  define e3 where "e3 = upd_pdu (seg_slot e2) (\<lambda>p. p\<lparr>txp_payload := nat (2 + (int k * 3 + 1) div 2)\<rparr>) e2"
  have e2: "current_sdu_index e2 = current_sdu_index e" "vt_s e2 = vt_s e" "segmentation_pdu_list e2 = segmentation_pdu_list e"
    using p(2) by (auto simp: linked_def e1_def)
  have c3: "sdu_core (input_sdus e3 i) = sdu_core (input_sdus e i)" for i using p(2) by (auto simp: linked_def e1_def e3_def)
  have o3: "current_sdu_index e3 = current_sdu_index e" "next_sdu_index e3 = next_sdu_index e" "nb_sdu_no_segmented e3 = nb_sdu_no_segmented e"
    "sdu_buffer_occupancy e3 = sdu_buffer_occupancy e" "vt_s e3 = vt_s e" "segmentation_pdu_list e3 = segmentation_pdu_list e"
    "vt_a e3 = vt_a e" "vt_ms e3 = vt_ms e"
    using p(2) by (auto simp: linked_def e1_def e3_def)
  note C = seg_ready_cong[of e3 e, OF c3 o3(1-4)] and M = sdu_core_maps[OF seg_ready_cong(2)[of e3 e, OF c3 o3(1-4)]]
  have rdy3: "seg_ready e3" using C(1) I(1) by simp
  obtain lis pl fin ss' where out: "fill_out 1 (?n - 2 - ?w) k (ring_sdus e3) = (lis, pl, fin, ss')" by (metis prod_cases4)
  have p3: "planned 1 (?n - 2 - ?w) k (map sdu_remaining_size (ring_sdus e3))" using p(6) unfolding M(1) .
  have "\<forall>z\<in>set (map sdu_remaining_size (ring_sdus e3)). z < 2048" "length (map sdu_remaining_size (ring_sdus e3)) \<le> 31"
    unfolding M(1) using I(4,5) by simp_all
  then have b3: "\<forall>s\<in>set (ring_sdus e3). sdu_remaining_size s < 2048" "length (ring_sdus e3) \<le> 31" by (simp_all del: length_ring_sdus)
  define g0 where "g0 = \<lparr>sf_cont = True, sf_data = 2 + (int k * 3 + 1) div 2, sf_e_li = 2, sf_li_len = 1,
       sf_num_li = 0, sf_last = False, sf_pdu_rem = ?n - 2 - ?w, sf_buf = new_block mem ?n\<rparr>"
  obtain g e4 x where q: "seg_fill_loop (int k) g0 e3 = Some (g, e4)" "filled (int (length pl)) e3 e4" "seg_ready e4" "ring_sdus e4 = ss'"
    "sf_buf g = [0, 0] @ li_bytes lis @ pl @ x" "?n \<le> int (length (sf_buf g))" "sf_num_li g = int k" "sf_last g = fin" "sf_pdu_rem g = 0"
    using segment_filled[OF rdy3 p3 b3 _ out, of ?n mem] w(1) unfolding g0_def by auto
  note R3 = seg_readyD[OF rdy3]
  have fr: "lis = map sdu_remaining_size (take k (ring_sdus e3))" "sum_list lis < int (length pl)" "int (length pl) = ?n - 2 - ?w - li_room 1 k"
    "sdus_of (tx_sent e) (cut lis pl fin) = (take (k + of_bool fin) (tx_sdus e), sent_of ss')"
    "map sdu_whole ss' = drop (k + of_bool fin) (tx_sdus e)"
    using fill_out_framing[OF p3 _ R3(6) out] R3(4,5) unfolding M(2,3) tx_sent_def tx_sdus_def by auto
  have v4: "vt_s e4 = vt_s e" "seg_slot e4 = vt_s e" "seg_slot e = vt_s e" using filled_simps(1)[OF q(2)] o3(5) I(2) by (simp_all add: valid_sn_def)
  let ?first = "sdu_remaining_size s = sdu_size s"
  have "?n < 9000" using N(3) I(6) by simp
  then obtain e' b pl1 mb where fn: "segment_finish ?n ?first g e4 f = Some e'" "pl1 \<in> {0, 1}"
    "b = word_of_int (128 + 32 * pl1 + 8 * ((if ?first then 0 else 2) + (if fin then 0 else 1)) + 4 * of_bool (0 < k) + vt_s e div 256)"
    "tb_size mb = ?n" "finished mb \<lparr>tb_size = ?n, tb_data = take (nat ?n) (b # word_of_int (vt_s e mod 256) # li_bytes lis @ pl @ x)\<rparr> e4 e'"
    using segment_finish_copy[of e4 g 0 "li_bytes lis @ pl @ x" ?n ?first f] I(2) q(5,6,7,8,9) N(2) unfolding v4(1) by auto
  note F = finished_simps[OF fn(5)]
  define i where "i = \<lparr>pi_d_c = 1, pi_rf = 0, pi_p = pl1, pi_fi = (if ?first then 0 else 2) + (if fin then 0 else 1),
    pi_e = (if lis = [] then 0 else 1), pi_sn = vt_s e, pi_lsf = 0, pi_so = 0, pi_li_list = lis,
    pi_hidden_size = int (length pl) - sum_list lis, pi_payload = pl, pi_payload_size = int (length pl),
    pi_header_size = 2 + int (length (li_bytes lis))\<rparr>"
  have k: "length lis = k" using planned_room[OF p3] unfolding fr(1) by simp
  have ll: "int (length (li_bytes lis)) = li_room 1 k"
    using length_li_part[of False lis] li_room_len[of 0 k] k by (simp add: li_part_all)
  have lb: "\<forall>l\<in>set lis. 0 < l \<and> l < 2048" using R3(5) b3(1) unfolding fr(1) by (auto dest: in_set_takeD)
  have hb: "header_bytes i = b # word_of_int (vt_s e mod 256) # li_bytes lis"
    unfolding header_bytes_def fn(3) i_def using k by (cases "k = 0") auto
  have hok: "header_ok i"
    using fn(2) fr(2) lb k b3(2) I(2) planned_room[OF p3] w(1) ll fr(3) \<open>?n < 9000\<close>
    unfolding header_ok_def hb by (auto simp: i_def valid_sn_def less_imp_le)
  define junk where "junk = take (nat ?w) x"
  have nn: "nat ?n = length (b # word_of_int (vt_s e mod 256) # li_bytes lis @ pl) + nat ?w" using fr(3) ll w(1) N(2) by simp
  have jl: "int (length junk) = ?w" using q(6) nn w(1) N(2) unfolding q(5) junk_def by simp
  have dat: "take (nat ?n) (b # word_of_int (vt_s e mod 256) # li_bytes lis @ pl @ x) = header_bytes i @ pi_payload i @ junk"
    unfolding nn hb junk_def by (simp add: i_def)
  have sz: "pi_header_size i + pi_payload_size i + ?w = ?n" using fr(3) ll by (simp add: i_def)
  have first: "?first \<longleftrightarrow> sdu_segmented_size s = 0" using sok(1) by (auto simp: sdu_slot_ok_def)
  then have "?first \<Longrightarrow> tx_sent e = []" by (simp add: tx_sent_def ring sdu_sent_def split: option.splits)
  then have sd: "pdu_sdus_of (tx_sent e) \<lparr>pdu_info = i, all_segments_received = True\<rparr> = (take (k + of_bool fin) (tx_sdus e), tx_sent e')"
    using fr(4) unfolding pdu_sdus_of_def pieces_def starts_sdu_def ends_sdu_def tx_sent_def F(6) q(4)
    by (cases ?first; cases fin) (simp_all add: i_def)
  have l4: "segmentation_pdu_list e4 = segmentation_pdu_list e" "vt_a e4 = vt_a e" "vt_ms e4 = vt_ms e" "next_sdu_index e4 = next_sdu_index e"
    using q(2) o3(2,6,7,8) by (auto simp: filled_def)
  have sz': "pi_header_size i + pi_payload_size i + int (length junk) = ?n" using sz jl by simp
  have seg: "segments e i junk (k + of_bool fin) e'"
    unfolding segments_def F(1,2) dat l4(1) sz' v4(1) using hok lb sd fr(5) F(6) q(4) by (simp add: tx_sdus_def i_def)
  obtain S X N' where lk: "e2 = (upd_pdu (seg_slot e1) (\<lambda>p. p\<lparr>txp_sdus_index := X, txp_nb_sdus := N'\<rparr>) e1)\<lparr>input_sdus := S\<rparr>"
    "refs_ok (pdu_retrans_buffer e1 (seg_slot e1)) \<longrightarrow> refs_ok (pdu_retrans_buffer e2 (seg_slot e1))"
    using p(2) unfolding linked_def by blast
  have "refs_ok (pdu_retrans_buffer e2 (vt_s e))" using lk(2) v4(3) by (simp add: e1_def refs_ok_def zero_tx_pdu_def)
  then have refs: "refs_ok (zero_tx_pdu\<lparr>txp_sdus_index := X, txp_nb_sdus := N'\<rparr>)" using v4(3) by (simp add: lk(1) e1_def)
  have "pdu_retrans_buffer e' = (pdu_retrans_buffer e)(vt_s e := zero_tx_pdu\<lparr>txp_sdus_index := X, txp_nb_sdus := N',
      txp_payload := nat (2 + (int k * 3 + 1) div 2), txp_payload_size := int (length pl), txp_mem_block := Some mb,
      txp_header_and_payload_size := ?n, txp_retx_count := - 1, txp_retransmit := False\<rparr>)"
    unfolding F(8) filled_simps(2)[OF q(2)] v4(2) using o3(5) v4(3) fn(4) by (simp add: e3_def lk(1) e1_def zero_tx_pdu_def)
  then have kept: "kept_pdu e e' ?n" using refs F(3,4,5) l4(2,3,4) unfolding kept_pdu_def
    by (auto simp: refs_ok_def zero_tx_pdu_def)
  have "input_sdus e3 = input_sdus e2" "current_sdu_index e3 = current_sdu_index e2" by (simp_all add: e3_def)
  then have "sdu_remaining_size (input_sdus e2 (current_sdu_index e2)) = sdu_remaining_size s" "sdu_size (input_sdus e2 (current_sdu_index e2)) = sdu_size s"
    using sdu_core_cong[OF c3] o3(1) sok(2) by simp_all
  moreover have "sdu_mem_block s \<noteq> None" using sok(1) by (auto simp: sdu_slot_ok_def split: option.splits)
  ultimately have run: "rlc_am_segment_10 mem e f = Some e'"
    unfolding rlc_am_segment_10_def segment_pdu_def Let_def e1_def[symmetric] t0_def[symmetric]
    using N(1) R(2) I(7) sok(2) p(1,3,4,5) q(1) fn(1) by (simp add: e3_def[symmetric] g0_def[symmetric])
  show ?thesis using run seg kept jl sz F(7) q(3) by blast
qed

subsection \<open>Properties\<close>

text \<open>
  (C9) Segmentation returns and hands MAC one PDU that is
  not larger than the grant, laid out as the header it states. Read the way reassembly reads it,
  after the bytes already sent of the first SDU, the PDU completes the first \<open>n\<close> waiting SDUs and
  leaves the bytes sent of the next one; exactly these SDUs leave the queue. It is stated for at least one and at most 31 waiting
  SDUs, each with less than 2048 bytes to send and on fewer than 31 PDUs so far, and for a grant of more than 2 and less than 9000
  bytes, while the ring of SDUs is consistent (none of the waiting ones empty, only the first partly sent): beyond these bounds the code fails its assertion on the plan or cuts a length indicator. Whatever was in the
  memory block before shows up only in the bytes of the block that the plan leaves unused, at most
  two, behind the PDU; the code counts them to the block, so that they reach the peer as data if there are any
  (the end-to-end statement is for grants without unused bytes).
\<close>

theorem segment_sends_front:
  assumes "seg_input e"
  shows "\<exists>e' i junk n. rlc_am_segment_10 mem e f = Some e' \<and> segments e i junk n e' \<and> seg_ready e' \<and>
    pi_header_size i + pi_payload_size i + int (length junk) \<le> nb_bytes_requested_by_mac e \<and>
    int (length junk) = seg_waste e \<and> seg_waste e \<le> 2"
proof -
  obtain e' i junk n where r: "rlc_am_segment_10 mem e f = Some e'" "segments e i junk n e'" "seg_ready e'"
    "int (length junk) = seg_waste e" "pi_header_size i + pi_payload_size i + seg_waste e = segment_size e"
    using segment_run[OF assms, of mem f] by blast
  then show ?thesis using seg_input_size(3)[OF assms] plan_waste_range[of 1 "segment_size e - 2"]
    by (intro exI[of _ e'] exI[of _ i] exI[of _ junk] exI[of _ n]) (simp add: seg_waste_def)
qed

text \<open>Two waiting SDUs of three bytes and one byte.\<close>

definition seg_sdu :: "byte list \<Rightarrow> rlc_am_tx_sdu_management" where
  "seg_sdu bs = new_tx_sdu 0 \<lparr>req_mui = 0, req_data_size = int (length bs), req_data_offset = 0, req_conf = 0, req_data = bs\<rparr>"

definition seg_example :: "int \<Rightarrow> rlc_am_entity" where
  "seg_example grant = zero_entity\<lparr>input_sdus := (\<lambda>_. zero_tx_sdu)(0 := seg_sdu [1, 2, 3], 1 := seg_sdu [4]), nb_sdu := 2,
     nb_sdu_no_segmented := 2, next_sdu_index := 2, sdu_buffer_occupancy := 4, vt_ms := 512, nb_bytes_requested_by_mac := grant\<rparr>"

lemma seg_example_ring: "ring_sdus (seg_example n) = [seg_sdu [1, 2, 3], seg_sdu [4]]" "tx_sdus (seg_example n) = [[1, 2, 3], [4]]"
  "tx_sent (seg_example n) = []"
  by (simp_all add: ring_sdus_def seg_example_def ring_len_def ring_slot_def zero_entity_def numeral_2_eq_2 tx_sdus_def tx_sent_def
      sdu_whole_def sdu_sent_def seg_sdu_def new_tx_sdu_def zero_tx_sdu_def)

lemma seg_example_input:
  assumes "2 < n" "n < 9000"
  shows "seg_input (seg_example n)"
proof -
  let ?e = "seg_example n"
  have c: "current_sdu_index ?e = 0" "next_sdu_index ?e = 2" "sdu_count ?e = 2"
    by (simp_all add: seg_example_def zero_entity_def ring_len_def)
  have q: "concat (sdu_queue ?e) = [1, 2, 3, 4]"
    unfolding sdu_queue_ring seg_example_ring by (simp add: sdu_rest_def seg_sdu_def new_tx_sdu_def zero_tx_sdu_def)
  have "sdu_slot_ok (sdu_at ?e k)" if "k \<in> {0..<2}" for k
    using that c(1) by (auto simp: seg_example_def ring_slot_def sdu_slot_ok_def seg_sdu_def new_tx_sdu_def zero_tx_sdu_def)
  moreover have "sdu_mem_block (sdu_at ?e k) = None \<and> \<not> sdu_segmented (sdu_at ?e k)" if "k \<in> {2..<128}" for k
    using that c(1) by (simp add: seg_example_def ring_slot_def zero_tx_sdu_def)
  moreover have "nb_sdu_no_segmented ?e = 2" "sdu_buffer_occupancy ?e = 4" by (simp_all add: seg_example_def)
  moreover have "sdu_index_ok (current_sdu_index ?e)" "sdu_index_ok (next_sdu_index ?e)" unfolding c by (simp_all add: sdu_index_ok_def)
  ultimately have "sdu_ring_ok ?e" unfolding sdu_ring_ok_def c(3) q by simp
  then show ?thesis
    using assms unfolding seg_input_def seg_ready_def seg_example_ring
    by (simp add: seg_example_def seg_sdu_def new_tx_sdu_def zero_tx_sdu_def zero_entity_def valid_sn_def)
qed

theorem segment_sends_front_witness:
  "\<exists>e' i junk n. rlc_am_segment_10 (\<lambda>_. 7) (seg_example 100) 0 = Some e' \<and> segments (seg_example 100) i junk n e' \<and>
     junk = [] \<and> tx_sdus e' = drop n [[1, 2, 3], [4]]"
proof -
  have i: "seg_input (seg_example 100)" by (rule seg_example_input) simp_all
  have w: "seg_waste (seg_example 100) = 0"
    unfolding seg_waste_def seg_example_ring
    by (simp add: segment_size_def seg_example_def max_li_overhead_def seg_sdu_def new_tx_sdu_def zero_tx_sdu_def)
  obtain e' i junk n where "rlc_am_segment_10 (\<lambda>_. 7) (seg_example 100) 0 = Some e'" "segments (seg_example 100) i junk n e'" "int (length junk) = 0"
    using segment_sends_front[OF i, of "\<lambda>_. 7" 0] unfolding w by blast
  then show ?thesis using seg_example_ring(2)[of 100]
    by (intro exI[of _ e'] exI[of _ i] exI[of _ junk] exI[of _ n]) (simp add: segments_def)
qed

lemma tx_span_push:
  assumes "valid_sn (vt_a e)" "valid_sn (vt_s e)" "tx_span e < 1023" "vt_a e' = vt_a e" "vt_s e' = sn_mask (vt_s e + 1)"
  shows "tx_span e' = tx_span e + 1"
  using assms by (auto simp: tx_span_def valid_sn_def sn_mask_mod mod_add_less_cases mod_diff_less_cases split: if_splits)

lemma window_not_stalled:
  assumes "tx_ok e" "tx_span e \<le> 512" "vt_s e \<noteq> vt_ms e"
  shows "tx_span e < 512"
proof (rule ccontr)
  note D = tx_okD[OF assms(1)]
  assume "\<not> tx_span e < 512"
  then have "(vt_s e - vt_a e) mod 1024 = 512" using assms(2) by (simp add: tx_span_def)
  then have "vt_s e = sn_mask (vt_a e + 512)"
    using D(2,3) by (auto simp: valid_sn_def sn_mask_mod mod_add_less_cases mod_diff_less_cases split: if_splits)
  then show False using assms(3) D(5) by simp
qed

text \<open>
  (C25) Segmentation keeps the transmit window: the new PDU takes the slot of \<^verbatim>\<open>VT(S)\<close>, which was free,
  \<^verbatim>\<open>VT(S)\<close> moves by one, and while the window is not stalled no more than 512 PDUs wait for an
  acknowledgement afterwards. Every slot in the window holds its PDU or is acknowledged, every slot
  outside is free, and the references of a stored PDU point into the ring of SDUs. It is stated where segmentation returns a PDU:
  at least one and at most 31 waiting SDUs, each with less than 2048 bytes to send and on fewer than 31 PDUs so far, and a grant of
  more than 2 and less than 9000 bytes, with the ring of SDUs consistent and the window invariant holding before; with more SDUs or larger ones the code can end in its assertion on the plan.
\<close>

theorem segment_keeps_window:
  assumes "seg_input e" "tx_ok e" "tx_span e \<le> 512" "vt_s e \<noteq> vt_ms e"
  shows "\<exists>e'. rlc_am_segment_10 mem e f = Some e' \<and> tx_ok e' \<and> tx_span e' = tx_span e + 1 \<and> tx_span e' \<le> 512 \<and>
    txp_mem_block (pdu_retrans_buffer e (vt_s e)) = None \<and> txp_mem_block (pdu_retrans_buffer e' (vt_s e)) \<noteq> None"
proof -
  obtain e' i junk n where r: "rlc_am_segment_10 mem e f = Some e'" "segments e i junk n e'" "seg_ready e'" "kept_pdu e e' (segment_size e)"
    using segment_run[OF assms(1), of mem f] by blast
  note D = tx_okD[OF assms(2)] and S = tx_slots_okD[OF tx_okD(1)[OF assms(2)]]
  obtain p where k: "pdu_retrans_buffer e' = (pdu_retrans_buffer e)(vt_s e := p)" "txp_mem_block p \<noteq> None" "\<not> txp_ack p" "refs_ok p"
    "vt_a e' = vt_a e" "vt_ms e' = vt_ms e" "next_sdu_index e' = next_sdu_index e"
    using r(4) unfolding kept_pdu_def by blast
  have vs: "vt_s e' = sn_mask (vt_s e + 1)" using r(2) by (simp add: segments_def)
  note lt = window_not_stalled[OF assms(2-4)]
  have span: "tx_span e' = tx_span e + 1" by (rule tx_span_push[OF D(2,3) _ k(5) vs]) (use lt in simp)
  have idx: "list_all sdu_index_ok (pdu_sdus p)" using k(4) by (auto simp: refs_ok_def pdu_sdus_def list_all_iff)
  have "tx_slot_ok e' sn" if sn: "valid_sn sn" for sn
  proof (cases "sn = vt_s e")
    case True
    then show ?thesis using k idx span lt unfolding tx_slot_ok_def Let_def k(1,5) by (simp add: tx_span_def)
  next
    case False
    then have "(sn - vt_a e) mod 1024 \<noteq> tx_span e"
      using sn D(2,3) by (auto simp: tx_span_def valid_sn_def mod_diff_less_cases split: if_splits)
    then have "(sn - vt_a e) mod 1024 < tx_span e + 1 \<longleftrightarrow> (sn - vt_a e) mod 1024 < tx_span e" by auto
    then show ?thesis using S(3)[OF sn] False unfolding tx_slot_ok_def Let_def k(1,5) span by (auto split: if_splits)
  qed
  then have "tx_slots_ok e'" using D(2) k(5) vs by (simp add: tx_slots_ok_def valid_sn_def)
  moreover have "\<not> txp_ack (pdu_retrans_buffer e' (vt_a e))" using D(4) k(1,3) by auto
  ultimately have "tx_ok e'" using D(5,7) k(5,6,7) seg_readyD(2)[OF r(3)] unfolding tx_ok_def k(5) by simp
  moreover have "txp_mem_block (pdu_retrans_buffer e (vt_s e)) = None"
    using S(3)[OF D(3)] lt by (simp add: tx_slot_ok_def Let_def tx_span_def)
  ultimately show ?thesis using r(1) span lt k(1,2) by auto
qed

lemma seg_example_tx_ok: "tx_ok (seg_example n)" "tx_span (seg_example n) = 0" "vt_s (seg_example n) \<noteq> vt_ms (seg_example n)"
  by (simp_all add: tx_ok_def tx_slots_ok_def tx_slot_ok_def tx_span_def seg_example_def zero_entity_def zero_tx_pdu_def
      valid_sn_def sn_mask_mod sdu_index_ok_def Let_def)

theorem segment_keeps_window_witness:
  "\<exists>e'. rlc_am_segment_10 (\<lambda>_. 7) (seg_example 100) 0 = Some e' \<and> tx_ok e' \<and> tx_span e' = 1"
proof -
  have "seg_input (seg_example 100)" "tx_span (seg_example 100) \<le> 512" using seg_example_input seg_example_tx_ok(2)[of 100] by simp_all
  from segment_keeps_window[OF this(1) seg_example_tx_ok(1) this(2) seg_example_tx_ok(3), of "\<lambda>_. 7" 0] show ?thesis
    unfolding seg_example_tx_ok(2) by auto
qed

subsection \<open>Where the code departs from its intent\<close>

text \<open>
  When the grant leaves one byte, or the bytes of an indicator, behind an SDU, the code reduces the
  number of bytes it fills but not the size of the PDU. The PDU goes out with bytes that were never
  written, and the peer delivers them as the end of the SDU: with a grant of six bytes the SDU
  1, 2, 3 arrives with a fourth byte.
\<close>

lemma unused_byte_is_delivered:
  "map_option (\<lambda>e'. map tb_data (segmentation_pdu_list e')) (rlc_am_segment_10 (\<lambda>_. 7) (seg_example 6) 0) = Some [[160, 0, 1, 2, 3, 7]] \<and>
   map_option log_data_ind (receive_tb 0 \<lparr>ti_data = [160, 0, 1, 2, 3, 7], ti_size = 6\<rparr> (zero_entity\<lparr>vr_mr := 512\<rparr>)) = Some [[1, 2, 3, 7]]"
  by code_simp

text \<open>
  A new PDU is counted twice for polling, once when it is built and once when the copy for MAC is
  made. When the first count reaches the threshold the poll bit is set in the stored PDU and the
  counters start again; the second count then clears the bit in the copy. The poll timer runs, but
  the PDU that is sent carries no poll.
\<close>

definition poll_example :: rlc_am_entity where
  "poll_example = (seg_example 5)\<lparr>poll_pdu := 100, poll_byte := 5, c_byte_without_poll := 2\<rparr>"

lemma poll_is_lost:
  "map_option (\<lambda>e'. (map_option tb_data (txp_mem_block (pdu_retrans_buffer e' 0)), map tb_data (segmentation_pdu_list e'),
       poll_sn e', running (t_poll_retransmit e'))) (rlc_am_segment_10 (\<lambda>_. 7) poll_example 0) =
     Some (Some [160, 0, 1, 2, 3], [[128, 0, 1, 2, 3]], 0, True)"
  by code_simp

text \<open>
  The first form of a length indicator has eleven bits and the extension bit above them. For an SDU
  of 2048 bytes the code sets the extension bit and leaves the indicator zero.
\<close>

lemma long_sdu_sets_extension:
  "map_option sf_buf (seg_write_li False 2048 \<lparr>sf_cont = True, sf_data = 0, sf_e_li = 0, sf_li_len = 2, sf_num_li = 1,
     sf_last = False, sf_pdu_rem = 0, sf_buf = [0, 0]\<rparr>) = Some [128, 0]"
  by code_simp

end
