(* ===== verification/Lossless_Link.thy ===== *)
theory Lossless_Link
  imports Main
begin

text \<open>
  The contract of a unidirectional link over a channel that loses nothing. The sender queues items,
  a transfer moves some of them to the receiver. The locale states what a protocol owes: queueing
  appends to what is pending, a transfer keeps what is delivered and pending taken together. A run
  of any length then delivers the submitted items in order, each once.
\<close>

datatype ('q, 'g) link_event = Submit 'q | Transfer 'g

fun link_run :: "('t \<Rightarrow> 'q \<Rightarrow> 't option) \<Rightarrow> ('g \<Rightarrow> 't \<Rightarrow> 'r \<Rightarrow> ('t \<times> 'r) option) \<Rightarrow>
    ('q, 'g) link_event list \<Rightarrow> 't \<Rightarrow> 'r \<Rightarrow> ('t \<times> 'r) option" where
  "link_run sub tra [] t r = Some (t, r)"
| "link_run sub tra (Submit q # es) t r = (case sub t q of None \<Rightarrow> None | Some t' \<Rightarrow> link_run sub tra es t' r)"
| "link_run sub tra (Transfer g # es) t r =
     (case tra g t r of None \<Rightarrow> None | Some (t', r') \<Rightarrow> link_run sub tra es t' r')"

text \<open>Every event of the run is allowed in the state it happens in.\<close>

fun link_allowed :: "('t \<Rightarrow> 'q \<Rightarrow> bool) \<Rightarrow> ('g \<Rightarrow> 't \<Rightarrow> bool) \<Rightarrow> ('t \<Rightarrow> 'q \<Rightarrow> 't option) \<Rightarrow>
    ('g \<Rightarrow> 't \<Rightarrow> 'r \<Rightarrow> ('t \<times> 'r) option) \<Rightarrow> ('q, 'g) link_event list \<Rightarrow> 't \<Rightarrow> 'r \<Rightarrow> bool" where
  "link_allowed cs ct sub tra [] t r = True"
| "link_allowed cs ct sub tra (Submit q # es) t r =
     (cs t q \<and> (case sub t q of None \<Rightarrow> True | Some t' \<Rightarrow> link_allowed cs ct sub tra es t' r))"
| "link_allowed cs ct sub tra (Transfer g # es) t r =
     (ct g t \<and> (case tra g t r of None \<Rightarrow> True | Some (t', r') \<Rightarrow> link_allowed cs ct sub tra es t' r'))"

fun submitted :: "('q, 'g) link_event list \<Rightarrow> 'q list" where
  "submitted [] = []"
| "submitted (Submit q # es) = q # submitted es"
| "submitted (Transfer g # es) = submitted es"

locale lossless_link =
  fixes sync :: "'t \<Rightarrow> 'r \<Rightarrow> bool"
    and pending :: "'t \<Rightarrow> 'd list"
    and delivered :: "'r \<Rightarrow> 'd list"
    and item :: "'q \<Rightarrow> 'd"
    and can_submit :: "'t \<Rightarrow> 'q \<Rightarrow> bool"
    and can_transfer :: "'g \<Rightarrow> 't \<Rightarrow> bool"
    and sub :: "'t \<Rightarrow> 'q \<Rightarrow> 't option"
    and tra :: "'g \<Rightarrow> 't \<Rightarrow> 'r \<Rightarrow> ('t \<times> 'r) option"
  assumes submit_law: "sync t r \<Longrightarrow> can_submit t q \<Longrightarrow> \<exists>t'. sub t q = Some t' \<and> sync t' r \<and> pending t' = pending t @ [item q]"
    and transfer_law: "sync t r \<Longrightarrow> can_transfer g t \<Longrightarrow>
      \<exists>t' r'. tra g t r = Some (t', r') \<and> sync t' r' \<and> delivered r' @ pending t' = delivered r @ pending t"
begin

lemma run_conserves:
  "sync t r \<Longrightarrow> link_allowed can_submit can_transfer sub tra es t r \<Longrightarrow>
     \<exists>t' r'. link_run sub tra es t r = Some (t', r') \<and> sync t' r' \<and>
       delivered r' @ pending t' = delivered r @ pending t @ map item (submitted es)"
proof (induction es arbitrary: t r)
  case (Cons ev es)
  show ?case
  proof (cases ev)
    case (Submit q)
    with Cons.prems obtain t1 where t1: "sub t q = Some t1" "sync t1 r" "pending t1 = pending t @ [item q]"
      using submit_law[of t r q] by auto
    moreover have "link_allowed can_submit can_transfer sub tra es t1 r" using Cons.prems(2) Submit t1(1) by simp
    ultimately show ?thesis using Cons.IH[of t1 r] Submit by auto
  next
    case (Transfer g)
    with Cons.prems obtain t1 r1 where t1: "tra g t r = Some (t1, r1)" "sync t1 r1" "delivered r1 @ pending t1 = delivered r @ pending t"
      using transfer_law[of t r g] by auto
    moreover have "link_allowed can_submit can_transfer sub tra es t1 r1" using Cons.prems(2) Transfer t1(1) by simp
    ultimately show ?thesis using Cons.IH[of t1 r1] Transfer by (auto simp flip: append_assoc)
  qed
qed simp

lemma run_delivers_prefix:
  assumes "sync t r" "delivered r = []" "pending t = []" "link_allowed can_submit can_transfer sub tra es t r"
  shows "\<exists>t' r'. link_run sub tra es t r = Some (t', r') \<and> delivered r' @ pending t' = map item (submitted es)"
  using run_conserves[OF assms(1,4)] assms(2,3) by auto

end

end
