(* ===== verification/Rlc_Am_Link.thy ===== *)
theory Rlc_Am_Link
  imports Lossless_Link Rlc_Am_Segment_Pdu
begin

text \<open>
  Two AM entities over a channel that loses nothing: what PDCP hands to one is what PDCP gets from
  the other, in order and complete. A transfer is one grant of MAC: segmentation in the sending
  entity, then the routing of the block in the receiving one.
\<close>

subsection \<open>Submission\<close>

lemma data_req_ring:
  assumes "sdu_ring_ok e" "length (ring_sdus e) < 127" "rlc_am_data_req e f r = Some e'"
  shows "ring_sdus e' = ring_sdus e @ [new_tx_sdu f r]" "vt_s e' = vt_s e"
proof -
  let ?n = "next_sdu_index e" and ?c = "current_sdu_index e" and ?len = "sdu_count e"
  note D = sdu_ring_okD[OF assms(1)]
  have free: "sdu_mem_block (input_sdus e ?n) = None" "\<not> sdu_segmented (input_sdus e ?n)"
    using D(4,5)[of ?len] D(2) by simp_all
  have lt: "?len < 127" using assms(2) by simp
  then have nf: "ring_next ?n \<noteq> ?c" using ring_full_iff[OF D(1,2)] by simp
  have new: "current_sdu_index e' = ?c" "next_sdu_index e' = ring_next ?n" "input_sdus e' = (input_sdus e)(?n := new_tx_sdu f r)"
    and v: "vt_s e' = vt_s e"
    using free nf D(2) assms(3) by (auto simp: rlc_am_data_req_def Let_def)
  have cnt: "sdu_count e' = ?len + 1" using ring_len_push[OF nf D(1,2)] by (simp add: new)
  have at: "sdu_at e' (int k) = (if int k = ?len then new_tx_sdu f r else sdu_at e (int k))" if "int k \<le> ?len" for k
  proof -
    have "0 \<le> int k" "int k < 128" "0 \<le> ?len" "?len < 128" using that lt by simp_all
    note inj = ring_slot_inj[OF this, of ?c]
    have "ring_slot ?c (int k) = ?n \<longleftrightarrow> int k = ?len"
    proof
      assume "ring_slot ?c (int k) = ?n"
      then show "int k = ?len" using inj ring_slot_len[OF D(2), of ?c] by simp
    qed (use ring_slot_len[OF D(2), of ?c] in simp)
    then show ?thesis unfolding new by simp
  qed
  show "ring_sdus e' = ring_sdus e @ [new_tx_sdu f r]"
    unfolding ring_sdus_def cnt using at at[of "nat ?len"] by (auto simp: upt_Suc_nat)
  show "vt_s e' = vt_s e" by (rule v)
qed

text \<open>An SDU that the length indicators can express.\<close>

definition am_can_submit :: "rlc_am_entity \<Rightarrow> frame \<times> am_data_req \<Rightarrow> bool" where
  "am_can_submit e q \<longleftrightarrow> valid_data_req (snd q) \<and> 0 < req_data_size (snd q) \<and> req_data_size (snd q) < 2048 \<and>
     length (ring_sdus e) < 127"

definition am_submit :: "rlc_am_entity \<Rightarrow> frame \<times> am_data_req \<Rightarrow> rlc_am_entity option" where
  "am_submit e q = rlc_am_data_req e (fst q) (snd q)"

subsection \<open>Transfer\<close>

text \<open>A grant: its size, the old content of the memory block, and the two frame numbers.\<close>

record am_grant =
  gr_bytes :: int
  gr_mem :: "nat \<Rightarrow> byte"
  gr_tx_frame :: frame
  gr_rx_frame :: frame

abbreviation granted :: "am_grant \<Rightarrow> rlc_am_entity \<Rightarrow> rlc_am_entity" where
  "granted g e \<equiv> e\<lparr>nb_bytes_requested_by_mac := gr_bytes g\<rparr>"

definition am_transfer :: "am_grant \<Rightarrow> rlc_am_entity \<Rightarrow> rlc_am_entity \<Rightarrow> (rlc_am_entity \<times> rlc_am_entity) option" where
  "am_transfer g et er =
     do {
       et' \<leftarrow> rlc_am_segment_10 (gr_mem g) (granted g et) (gr_tx_frame g);
       c_assert (segmentation_pdu_list et' \<noteq> []);
       let tb = last (segmentation_pdu_list et');
       er' \<leftarrow> receive_tb (gr_rx_frame g) \<lparr>ti_data = tb_data tb, ti_size = tb_size tb\<rparr> er;
       Some (et', er')
     }"

definition am_can_transfer :: "am_grant \<Rightarrow> rlc_am_entity \<Rightarrow> bool" where
  "am_can_transfer g e \<longleftrightarrow> seg_input (granted g e) \<and> seg_waste (granted g e) = 0"

text \<open>The two ends agree: next number, bytes of the SDU under way, nothing out of order.\<close>

definition am_sync :: "rlc_am_entity \<Rightarrow> rlc_am_entity \<Rightarrow> bool" where
  "am_sync et er \<longleftrightarrow> seg_ready et \<and> valid_sn (vt_s et) \<and> (\<forall>d\<in>set (tx_sdus et). length d < 2048) \<and>
     rx_seq er \<and> receiver_buffer er = [] \<and> vr_r er = vt_s et \<and> sdu_acc er = tx_sent et"

lemma am_submit_law:
  assumes "am_sync et er" "am_can_submit et q"
  shows "\<exists>et'. am_submit et q = Some et' \<and> am_sync et' er \<and> tx_sdus et' = tx_sdus et @ [req_bytes (snd q)]"
proof -
  let ?s = "new_tx_sdu (fst q) (snd q)"
  have s: "seg_ready et" "valid_sn (vt_s et)" "\<forall>d\<in>set (tx_sdus et). length d < 2048" "rx_seq er" "receiver_buffer er = []"
    "vr_r er = vt_s et" "sdu_acc er = tx_sent et" using assms(1) by (auto simp: am_sync_def)
  have c: "valid_data_req (snd q)" "0 < req_data_size (snd q)" "req_data_size (snd q) < 2048" "length (ring_sdus et) < 127"
    using assms(2) by (auto simp: am_can_submit_def)
  note R = seg_readyD[OF s(1)]
  obtain et' where e': "rlc_am_data_req et (fst q) (snd q) = Some et'" "sdu_ring_ok et'"
    using data_req_push[OF R(1) c(1), of "fst q"] c(4) by auto
  note ring = data_req_ring[OF R(1) c(4) e'(1)]
  have new: "sdu_remaining_size ?s = req_data_size (snd q)" "sdu_segmented_size ?s = 0" "\<not> sdu_segmented ?s"
    "sdu_whole ?s = req_bytes (snd q)" "sdu_sent ?s = []" "length (req_bytes (snd q)) < 2048"
    using c(1,3) by (auto simp: new_tx_sdu_def zero_tx_sdu_def sdu_whole_def sdu_sent_def req_bytes_def valid_data_req_def)
  have "\<forall>s\<in>set (tl (ring_sdus et @ [?s])). sdu_segmented_size s = 0" using R(6) new(2) by (cases "ring_sdus et") auto
  then have "seg_ready et'" using e'(2) R(5) c(2) new unfolding seg_ready_def ring by auto
  moreover have "tx_sent et' = tx_sent et" unfolding tx_sent_def ring using new(5) by (cases "ring_sdus et") auto
  ultimately have "am_sync et' er" using s new(4,6) ring by (auto simp: am_sync_def tx_sdus_def)
  then show ?thesis using e'(1) ring new(4) by (auto simp: am_submit_def tx_sdus_def)
qed

lemma data_bit:
  assumes "header_ok i"
  shows "(header_bytes i ! 0) AND 0x80 = 0x80"
proof -
  let ?n = "128 + 64 * pi_rf i + 32 * pi_p i + 8 * pi_fi i + 4 * pi_e i + pi_sn i div 256"
  have "pi_sn i div 256 \<in> {0, 1, 2, 3}" using assms by (intro sn_high) (simp_all add: header_ok_def)
  then have "0 \<le> pi_sn i div 256" "pi_sn i div 256 \<le> 3" by auto
  moreover have "0 \<le> pi_rf i" "pi_rf i \<le> 1" "0 \<le> pi_p i" "pi_p i \<le> 1" "0 \<le> pi_fi i" "pi_fi i \<le> 3" "0 \<le> pi_e i" "pi_e i \<le> 1"
    using assms unfolding header_ok_def by (elim conjE; simp; linarith)+
  ultimately have "128 \<le> ?n" "?n < 256" by linarith+
  then have "uint (header_bytes i ! 0) = ?n" unfolding header_bytes_def by (simp add: uint_byte del: of_int_add)
  then have "header_bytes i ! 0 AND 0x80 \<noteq> 0" using bit_of_byte(1)[of "header_bytes i ! 0"] \<open>128 \<le> ?n\<close> by simp
  then have "bit (header_bytes i ! 0) 7" using and_exp_eq_0_iff_not_bit[of "header_bytes i ! 0" 7] by simp
  then have "header_bytes i ! 0 AND 2 ^ 7 = (2 ^ 7 :: byte)" by (intro bit_eqI, unfold bit_and_iff bit_exp_iff) auto
  then show ?thesis by simp
qed

text \<open>The receiving entity takes a PDU with the expected number.\<close>

lemma receive_next:
  assumes "rx_seq er" "receiver_buffer er = []" "header_ok i" "pi_rf i = 0" "\<forall>l\<in>set (pi_li_list i). 0 < l" "pi_sn i = vr_r er"
    "pdu_sdus_of (sdu_acc er) \<lparr>pdu_info = i, all_segments_received = True\<rparr> = (ds, r)"
    "\<forall>d\<in>set (ds @ [r]). int (length d) \<le> RLC_SDU_MAX_SIZE"
  shows "\<exists>er'. receive_tb f \<lparr>ti_data = header_bytes i @ pi_payload i, ti_size = pi_header_size i + pi_payload_size i\<rparr> er = Some er' \<and>
    rx_seq er' \<and> receiver_buffer er' = [] \<and> vr_r er' = sn_mask (vr_r er + 1) \<and> log_data_ind er' = log_data_ind er @ ds \<and> sdu_acc er' = r"
proof -
  let ?q = "\<lparr>pdu_info = i, all_segments_received = True\<rparr>"
  let ?n = "pi_header_size i + pi_payload_size i"
  define e1 where "e1 = er\<lparr>stats := (stats er)\<lparr>stat_rx_data_bytes := stat_rx_data_bytes (stats er) + word_of_int ?n,
    stat_rx_data_pdu := stat_rx_data_pdu (stats er) + 1\<rparr>\<rparr>"
  have e1: "rx_seq e1" "receiver_buffer e1 = []" "vr_r e1 = vr_r er" "sdu_acc e1 = sdu_acc er" "log_data_ind e1 = log_data_ind er"
    using assms(1,2) sdu_state_ok_cong[of e1 er] by (auto simp: e1_def rx_seq_def sdu_acc_def)
  have run: "seq_run (vr_r e1) (ins_pdu ?q (receiver_buffer e1)) = [?q]" "ins_pdu ?q (receiver_buffer e1) = [?q]"
    unfolding e1(2,3) using assms(6) by (simp_all add: ins_pdu_def)
  have sd: "(ds, r) = stream_sdus (sdu_acc e1) (seq_run (vr_r e1) (ins_pdu ?q (receiver_buffer e1)))"
    unfolding run(1) e1(4) using assms(7) by simp
  have w: "vr_r e1 \<le> pi_sn i" "pi_sn i < vr_r e1 + 512" using assms(6) e1(3) by simp_all
  obtain er' where er': "rlc_am_receive_process_data_pdu e1 f (header_bytes i @ pi_payload i) ?n = Some er'" "rx_seq er'" "receives e1 ?q er'"
    using receive_run[OF e1(1) assms(3,4,5) w refl sd, of f] assms(8) unfolding e1(2) by auto
  have n: "0 < ?n" "?n < 32768" "header_bytes i \<noteq> []" using assms(3) by (auto simp: header_ok_def header_bytes_def)
  then have "receive_tb f \<lparr>ti_data = header_bytes i @ pi_payload i, ti_size = ?n\<rparr> er = Some er'"
    using er'(1) data_bit[OF assms(3)] unfolding e1_def receive_tb_def by (simp add: Let_def nth_append to_uint16_id)
  moreover have "vr_r er' = sn_mask (vr_r er + 1)" "receiver_buffer er' = []" "log_data_ind er' = log_data_ind er @ ds" "sdu_acc er' = r"
    using er'(3) assms(6,7) unfolding receives_def Let_def run(2) e1(3,4,5) by simp_all
  ultimately show ?thesis using er'(2) by blast
qed

lemma tx_sdus_bound:
  assumes "\<forall>d\<in>set (tx_sdus e). length d < 2048" "seg_ready e"
  shows "int (length (tx_sent e)) \<le> 9000"
proof (cases "ring_sdus e")
  case (Cons s ss)
  have "sdu_slot_ok s" using seg_readyD(4)[OF assms(2)] Cons by simp
  from arg_cong[OF sdu_sent_rest[OF this], of length] show ?thesis using assms(1) Cons by (simp add: tx_sent_def tx_sdus_def)
qed (simp add: tx_sent_def)

lemma am_transfer_law:
  assumes "am_sync et er" "am_can_transfer g et"
  shows "\<exists>et' er'. am_transfer g et er = Some (et', er') \<and> am_sync et' er' \<and>
    log_data_ind er' @ tx_sdus et' = log_data_ind er @ tx_sdus et"
proof -
  let ?e = "granted g et"
  have s: "\<forall>d\<in>set (tx_sdus et). length d < 2048" "rx_seq er" "receiver_buffer er = []" "vr_r er = vt_s et" "sdu_acc er = tx_sent et"
    using assms(1) by (auto simp: am_sync_def)
  have same: "tx_sdus ?e = tx_sdus et" "tx_sent ?e = tx_sent et" "segmentation_pdu_list ?e = segmentation_pdu_list et"
    by (simp_all add: tx_sdus_def tx_sent_def ring_sdus_def)
  have c: "seg_input ?e" "seg_waste ?e = 0" using assms(2) by (auto simp: am_can_transfer_def)
  obtain et' i junk n where r: "rlc_am_segment_10 (gr_mem g) ?e (gr_tx_frame g) = Some et'" "segments ?e i junk n et'" "seg_ready et'"
    "int (length junk) = 0" using segment_run[OF c(1), of "gr_mem g" "gr_tx_frame g"] unfolding c(2) by blast
  then have seg: "header_ok i" "pi_rf i = 0" "pi_sn i = vt_s et" "\<forall>l\<in>set (pi_li_list i). 0 < l"
    "segmentation_pdu_list et' = segmentation_pdu_list et @ [\<lparr>tb_size = pi_header_size i + pi_payload_size i, tb_data = header_bytes i @ pi_payload i\<rparr>]"
    "pdu_sdus_of (sdu_acc er) \<lparr>pdu_info = i, all_segments_received = True\<rparr> = (take n (tx_sdus et), tx_sent et')"
    "tx_sdus et' = drop n (tx_sdus et)" "vt_s et' = sn_mask (vt_s et + 1)"
    using s(5) by (simp_all add: segments_def same)
  have b: "\<forall>d\<in>set (tx_sdus et'). length d < 2048" using s(1) unfolding seg(7) by (auto dest: in_set_dropD)
  have lim: "\<forall>d\<in>set (take n (tx_sdus et) @ [tx_sent et']). int (length d) \<le> 9000"
    using s(1) tx_sdus_bound[OF b r(3)] by (force dest: in_set_takeD)
  obtain er' where er': "receive_tb (gr_rx_frame g) \<lparr>ti_data = header_bytes i @ pi_payload i, ti_size = pi_header_size i + pi_payload_size i\<rparr> er = Some er'"
    "rx_seq er'" "receiver_buffer er' = []" "vr_r er' = sn_mask (vr_r er + 1)" "log_data_ind er' = log_data_ind er @ take n (tx_sdus et)" "sdu_acc er' = tx_sent et'"
    using receive_next[OF s(2,3) seg(1,2,4) _ seg(6) lim, of "gr_rx_frame g"] seg(3) s(4) by auto
  have "am_transfer g et er = Some (et', er')" unfolding am_transfer_def using r(1) seg(5) er'(1) by simp
  moreover have "am_sync et' er'" using r(3) b er' seg(8) s(4) by (simp add: am_sync_def valid_sn_def)
  moreover have "log_data_ind er' @ tx_sdus et' = log_data_ind er @ tx_sdus et" unfolding er'(5) seg(7) by simp
  ultimately show ?thesis by blast
qed

interpretation am_link: lossless_link am_sync tx_sdus log_data_ind "\<lambda>q. req_bytes (snd q)" am_can_submit am_can_transfer am_submit am_transfer
  using am_submit_law am_transfer_law by unfold_locales blast+

subsection \<open>In order, complete, once\<close>

text \<open>
  (C1) Over a channel that loses nothing, AM delivers what PDCP submits: from any two synchronised
  entities, every allowed sequence of submissions and grants runs through without an abort, and at
  its end the SDUs delivered on one side followed by those still waiting on the other are the ones
  delivered and waiting before, followed by the submitted ones, in order and byte for byte. Synchronised: the next number to send is the one the receiver
  waits for, its buffer is empty and the bytes it has kept are those already sent of the first SDU. Allowed: an SDU has from 1 to 2047 bytes and
  fewer than 127 wait when it comes; at a grant, of more than 2 and less than 9000 bytes, at most 31 SDUs wait, each on fewer than 31 PDUs, and
  the plan of the segmentation leaves no byte unused.
\<close>

theorem am_link_delivers:
  assumes "am_sync et er" "link_allowed am_can_submit am_can_transfer am_submit am_transfer es et er"
  shows "\<exists>et' er'. link_run am_submit am_transfer es et er = Some (et', er') \<and> am_sync et' er' \<and>
    log_data_ind er' @ tx_sdus et' = log_data_ind er @ tx_sdus et @ map (\<lambda>q. req_bytes (snd q)) (submitted es)"
  by (rule am_link.run_conserves[OF assms])

text \<open>One SDU of three bytes behind an offset, and a grant of four bytes.\<close>

definition link_tx :: rlc_am_entity where
  "link_tx = zero_entity\<lparr>vt_ms := 512\<rparr>"

definition link_rx :: rlc_am_entity where
  "link_rx = zero_entity\<lparr>vr_mr := 512\<rparr>"

definition link_req :: am_data_req where
  "link_req = \<lparr>req_mui = 0, req_data_size = 3, req_data_offset = 1, req_conf = 0, req_data = [9, 1, 2, 3]\<rparr>"

definition link_grant :: am_grant where
  "link_grant = \<lparr>gr_bytes = 4, gr_mem = (\<lambda>_. 7), gr_tx_frame = 0, gr_rx_frame = 0\<rparr>"

lemma link_example_sync: "am_sync link_tx link_rx"
proof -
  have z: "ring_sdus zero_entity = []" by (simp add: ring_sdus_def zero_entity_def ring_len_def)
  then have "seg_ready zero_entity" using sdu_ring_ok_zero(1) by (simp add: seg_ready_def)
  moreover have "seg_ready link_tx = seg_ready zero_entity" by (rule seg_ready_cong) (simp_all add: link_tx_def)
  moreover have "ring_sdus link_tx = ring_sdus zero_entity" by (simp add: ring_sdus_def link_tx_def)
  ultimately show ?thesis using z
    by (simp add: am_sync_def tx_sdus_def tx_sent_def rx_seq_def) (simp add: link_tx_def link_rx_def zero_entity_def valid_sn_def sn_mask_mod sdu_state_ok_def sdu_acc_def)
qed

lemma link_example_allowed:
  "link_allowed am_can_submit am_can_transfer am_submit am_transfer [Submit (0, link_req), Transfer link_grant] link_tx link_rx"
proof -
  note s = link_example_sync
  have ring0: "ring_sdus link_tx = []" "sdu_ring_ok link_tx"
    using s by (simp_all add: am_sync_def seg_ready_def) (simp add: link_tx_def ring_sdus_def zero_entity_def ring_len_def)
  have c: "am_can_submit link_tx (0, link_req)" by (simp add: am_can_submit_def link_req_def valid_data_req_def ring0)
  obtain t where t: "am_submit link_tx (0, link_req) = Some t" "am_sync t link_rx" using am_submit_law[OF s c] by blast
  have ring: "ring_sdus t = [new_tx_sdu 0 link_req]"
    using data_req_ring(1)[OF ring0(2), of 0 link_req t] t(1) ring0(1) by (simp add: am_submit_def)
  let ?g = "granted link_grant t"
  have "seg_ready t" "valid_sn (vt_s t)" using t(2) by (auto simp: am_sync_def)
  moreover have "seg_ready ?g = seg_ready t" by (rule seg_ready_cong) simp_all
  moreover have ring': "ring_sdus ?g = [new_tx_sdu 0 link_req]" using ring by (simp add: ring_sdus_def)
  ultimately have "seg_input ?g"
    by (simp add: seg_input_def new_tx_sdu_def link_req_def zero_tx_sdu_def link_grant_def)
  moreover have "seg_waste ?g = 0"
  proof -
    note D = sdu_ring_okD(6,7)[OF seg_readyD(1)[OF \<open>seg_ready t\<close>]]
    have "sdu_count t = 1" using arg_cong[OF ring, of length] by simp
    then have "sdu_buffer_occupancy ?g = 3" "nb_sdu_no_segmented ?g = 1"
      using D unfolding sdu_queue_ring ring by (simp_all add: sdu_rest_def new_tx_sdu_def link_req_def zero_tx_sdu_def)
    then show ?thesis unfolding seg_waste_def segment_size_def ring'
      by (simp add: new_tx_sdu_def link_req_def zero_tx_sdu_def link_grant_def max_li_overhead_def)
  qed
  ultimately show ?thesis using c t(1) by (auto simp: am_can_transfer_def split: option.splits)
qed

theorem am_link_delivers_witness:
  "\<exists>et' er'. link_run am_submit am_transfer [Submit (0, link_req), Transfer link_grant] link_tx link_rx = Some (et', er') \<and>
     log_data_ind er' @ tx_sdus et' = [[1, 2, 3]]"
proof -
  note s = link_example_sync
  have e: "log_data_ind link_rx @ tx_sdus link_tx @ map (\<lambda>q. req_bytes (snd q)) (submitted [Submit (0, link_req), Transfer link_grant]) = [[1, 2, 3]]"
    by code_simp
  show ?thesis using am_link_delivers[OF s link_example_allowed] unfolding e by blast
qed

end
