(* ===== verification/Rlc_Am_Send_Status.thy ===== *)
theory Rlc_Am_Send_Status
  imports Rlc_Am_Status Rlc_Am_Receiver
begin

text \<open>
  Building a status report from the reception buffer: \<^verbatim>\<open>rlc_am_send_status_pdu\<close> of
  \<^verbatim>\<open>rlc_am_status_report.c\<close>.

  The cursor of the code is the rest of the buffer, an element and those behind it. The walk carries
  the number before the cursor, the bits left in the grant and the entries so far. A jump to
  \<^verbatim>\<open>end_push_nack\<close> is \<open>Inl\<close> with the acknowledged number, going on is \<open>Inr\<close>. Moving past the end
  of the buffer and writing beyond the table of entries is \<open>None\<close>.
\<close>

record status_walk =
  sw_prev :: int
  sw_bits :: int
  sw_nacks :: "nack_sn_t list"

text \<open>The elements before the receive window are skipped.\<close>

fun skip_outside :: "rlc_am_entity \<Rightarrow> int \<Rightarrow> rx_pdu list \<Rightarrow> (int \<times> rx_pdu list) option" where
  "skip_outside e prev [] = None"
| "skip_outside e prev (x # xs) =
     (if rlc_am_in_rx_window e (rx_sn x) then Some (prev, x # xs) else skip_outside e (rx_sn x) xs)"

definition push_nack :: "int \<Rightarrow> int \<Rightarrow> int \<Rightarrow> int \<Rightarrow> int \<Rightarrow> status_walk \<Rightarrow> status_walk option" where
  "push_nack sn s t seg cost w =
     do {
       c_assert (int (length (sw_nacks w)) < RLC_AM_MAX_NACK_IN_STATUS_PDU);
       Some (w\<lparr>sw_nacks := sw_nacks w @ [\<lparr>nack_sn = sn, nack_e1 = 1, nack_e2 = seg, so_start = s mod 0x8000,
           so_end = t mod 0x8000\<rparr>],
         sw_bits := sw_bits w - cost\<rparr>)
     }"

text \<open>Further segments of a number that is done.\<close>

fun skip_same :: "int \<Rightarrow> rx_pdu \<Rightarrow> rx_pdu list \<Rightarrow> int + rx_pdu list" where
  "skip_same prev x [] = Inl (if all_segments_received x then sn_mask (rx_sn x + 1) else sn_mask (prev + 1))"
| "skip_same prev x (y # ys) = (if rx_sn y = prev then skip_same prev y ys else Inr (y # ys))"

text \<open>The numbers between the previous one and the cursor are missing.\<close>

function nack_gap :: "int \<Rightarrow> status_walk \<Rightarrow> ((int \<times> status_walk) + status_walk) option" where
  "nack_gap sn w =
     (let next = sn_mask (sw_prev w + 1)
      in if next \<noteq> sn then
           (if sw_bits w > 12 then
              do { w1 \<leftarrow> push_nack next 0 0x7FF 0 12 w; nack_gap sn (w1\<lparr>sw_prev := next\<rparr>) }
            else Some (Inl (next, w)))
         else Some (Inr w))"
  by auto
termination
  by (relation "measure (\<lambda>(sn, w). nat (sw_bits w))") (auto simp: push_nack_def split: if_splits)

declare nack_gap.simps [simp del]

text \<open>
  The PDU at the cursor lacks segments: the bytes before this segment, the offset waited for
  behind it, and the bytes behind the last segment.
\<close>

definition nack_hole :: "int \<Rightarrow> rx_pdu \<Rightarrow> status_walk \<Rightarrow> ((int \<times> status_walk) + status_walk) option" where
  "nack_hole waited x w =
     (if rx_so x > waited then
        (if sw_bits w \<ge> 42 then map_option Inr (push_nack (rx_sn x) waited (rx_so x - 1) 1 42 w)
         else Some (Inl (rx_sn x, w)))
      else Some (Inr w))"

definition waited_after :: "rx_pdu \<Rightarrow> int" where
  "waited_after x = (if pi_lsf (pdu_info x) = 1 then 0x7FFF else rx_so x + rx_size x)"

definition nack_tail :: "int \<Rightarrow> int \<Rightarrow> status_walk \<Rightarrow> ((int \<times> status_walk) + status_walk) option" where
  "nack_tail waited sn w =
     (if waited \<noteq> 0x7FFF then
        (if sw_bits w \<ge> 42 then map_option Inr (push_nack sn waited 0x7FFF 1 42 w) else Some (Inl (sn, w)))
      else Some (Inr w))"

fun nack_segments :: "int \<Rightarrow> rx_pdu \<Rightarrow> rx_pdu list \<Rightarrow> status_walk \<Rightarrow>
    ((int \<times> status_walk) + (rx_pdu list \<times> status_walk)) option" where
  "nack_segments waited x [] w =
     (case nack_hole waited x w of None \<Rightarrow> None
      | Some (Inl d) \<Rightarrow> Some (Inl d)
      | Some (Inr w1) \<Rightarrow> Some (Inl (sw_prev w1, w1)))"
| "nack_segments waited x (y # ys) w =
     (case nack_hole waited x w of None \<Rightarrow> None
      | Some (Inl d) \<Rightarrow> Some (Inl d)
      | Some (Inr w1) \<Rightarrow>
          if rx_sn y = rx_sn x then nack_segments (waited_after x) y ys (w1\<lparr>sw_prev := rx_sn x\<rparr>)
          else map_option (map_sum id (\<lambda>w2. (y # ys, w2))) (nack_tail (waited_after x) (rx_sn x) (w1\<lparr>sw_prev := rx_sn x\<rparr>)))"

definition status_step :: "rx_pdu \<Rightarrow> rx_pdu list \<Rightarrow> status_walk \<Rightarrow>
    ((int \<times> status_walk) + (rx_pdu list \<times> status_walk)) option" where
  "status_step x xs w =
     (case (if rx_sn x = sw_prev w then skip_same (sw_prev w) x xs else Inr (x # xs)) of
        Inl ack \<Rightarrow> Some (Inl (ack, w))
      | Inr [] \<Rightarrow> None
      | Inr (y # ys) \<Rightarrow>
          do {
            r \<leftarrow> nack_gap (rx_sn y) w;
            case r of
              Inl d \<Rightarrow> Some (Inl d)
            | Inr w1 \<Rightarrow>
                if \<not> all_segments_received y then nack_segments 0 y ys w1
                else Some (Inr (ys, w1\<lparr>sw_prev := rx_sn y\<rparr>))
          })"

lemma skip_same_length: "skip_same prev x xs = Inr ys \<Longrightarrow> length ys \<le> length xs"
  by (induction prev x xs rule: skip_same.induct) (auto split: if_splits)

lemma nack_segments_length: "nack_segments waited x xs w = Some (Inr (ys, w')) \<Longrightarrow> length ys \<le> length xs"
  by (induction waited x xs w rule: nack_segments.induct)
    (auto simp: nack_tail_def split: option.splits sum.splits if_splits)

lemma status_step_cases:
  "status_step x xs w = Some (Inr (zs, w')) \<Longrightarrow> \<exists>y ys w1. length (y # ys) \<le> length (x # xs) \<and> nack_gap (rx_sn y) w = Some (Inr w1) \<and>
     (if all_segments_received y then zs = ys \<and> w' = w1\<lparr>sw_prev := rx_sn y\<rparr> else nack_segments 0 y ys w1 = Some (Inr (zs, w')))"
proof -
  assume s: "status_step x xs w = Some (Inr (zs, w'))"
  then obtain y ys where y: "(if rx_sn x = sw_prev w then skip_same (sw_prev w) x xs else Inr (x # xs)) = Inr (y # ys)"
    by (auto simp: status_step_def split: sum.splits list.splits)
  have "length (y # ys) \<le> length (x # xs)" using y skip_same_length[of "sw_prev w" x xs "y # ys"] by (auto split: if_splits)
  moreover obtain w1 where "nack_gap (rx_sn y) w = Some (Inr w1)"
    "(if all_segments_received y then zs = ys \<and> w' = w1\<lparr>sw_prev := rx_sn y\<rparr> else nack_segments 0 y ys w1 = Some (Inr (zs, w')))"
  proof -
    obtain r where r: "nack_gap (rx_sn y) w = Some r" "(case r of Inl d \<Rightarrow> Some (Inl d) | Inr w1 \<Rightarrow>
        if \<not> all_segments_received y then nack_segments 0 y ys w1 else Some (Inr (ys, w1\<lparr>sw_prev := rx_sn y\<rparr>))) = Some (Inr (zs, w'))"
      using s unfolding status_step_def y by auto
    show thesis by (cases r) (use r that in \<open>auto split: if_splits\<close>)
  qed
  ultimately show ?thesis by blast
qed

lemma status_step_length: "status_step x xs w = Some (Inr (ys, w')) \<Longrightarrow> length ys < Suc (length xs)"
  by (drule status_step_cases) (fastforce dest: nack_segments_length split: if_splits)

function status_loop :: "rx_pdu list \<Rightarrow> status_walk \<Rightarrow> (int \<times> status_walk) option" where
  "status_loop xs w =
     (case xs of
        [] \<Rightarrow> Some (sn_mask (sw_prev w + 1), w)
      | x # rest \<Rightarrow>
          if sw_bits w \<ge> 12 then
            (case status_step x rest w of
               None \<Rightarrow> None
             | Some (Inl d) \<Rightarrow> Some d
             | Some (Inr (ys, w')) \<Rightarrow> status_loop ys w')
          else Some (sn_mask (sw_prev w + 1), w))"
  by auto
termination
  by (relation "measure (\<lambda>(xs, w). length xs)") (auto dest: status_step_length)

declare status_loop.simps [simp del]

text \<open>The acknowledged number, the entries and the bits left.\<close>

definition status_contents :: "rlc_am_entity \<Rightarrow> (int \<times> status_walk) option" where
  "status_contents e =
     (let w = \<lparr>sw_prev = sn_mask (vr_r e - 1), sw_bits = nb_bytes_requested_by_mac e * 8 - 15, sw_nacks = []\<rparr>
      in if receiver_buffer e = [] then Some (vr_r e, w)
         else
           do {
             (prev, xs) \<leftarrow> skip_outside e (sw_prev w) (receiver_buffer e);
             status_loop xs (w\<lparr>sw_prev := prev\<rparr>)
           })"

text \<open>The extension bit of the last entry is cleared.\<close>

definition close_nacks :: "nack_sn_t list \<Rightarrow> nack_sn_t list" where
  "close_nacks nks = (if nks = [] then [] else butlast nks @ [(last nks)\<lparr>nack_e1 := 0\<rparr>])"

definition rlc_am_send_status_pdu :: "rlc_am_entity \<Rightarrow> rlc_am_entity option" where
  "rlc_am_send_status_pdu e =
     do {
       (ack, w) \<leftarrow> status_contents e;
       let forecast = nb_bytes_requested_by_mac e - (sw_bits w - 7) div 8;
       (bs, n) \<leftarrow> rlc_am_write_status_pdu (replicate (nat forecast) 0)
         (zero_control_info\<lparr>ci_ack_sn := ack, ci_nack_list := close_nacks (sw_nacks w)\<rparr>);
       c_assert (int n = nb_bytes_requested_by_mac e - sw_bits w div 8);
       Some (e\<lparr>nb_bytes_requested_by_mac := nb_bytes_requested_by_mac e - int n,
         control_pdu_list := \<lparr>tb_size = int n, tb_data = bs\<rparr> # control_pdu_list e,
         stats := (stats e)\<lparr>stat_tx_control_pdu := stat_tx_control_pdu (stats e) + 1,
           stat_tx_control_bytes := stat_tx_control_bytes (stats e) + word_of_int (int n)\<rparr>\<rparr>)
     }"

subsection \<open>Whole PDUs in order\<close>

text \<open>The entry of a missing PDU.\<close>

definition whole_nack :: "int \<Rightarrow> nack_sn_t" where
  "whole_nack sn = \<lparr>nack_sn = sn, nack_e1 = 1, nack_e2 = 0, so_start = 0, so_end = 0x7FF\<rparr>"

lemma push_whole: "length (sw_nacks w) < 1023 \<Longrightarrow> push_nack sn 0 0x7FF 0 12 w =
    Some (w\<lparr>sw_nacks := sw_nacks w @ [whole_nack sn], sw_bits := sw_bits w - 12\<rparr>)"
  by (simp add: push_nack_def whole_nack_def)

lemma sn_mask_small: "0 \<le> x \<Longrightarrow> x < 1024 \<Longrightarrow> sn_mask x = x"
  by (simp add: sn_mask_mod)

lemma sn_mask_succ: "sn_mask (sn_mask p + 1) = sn_mask (p + 1)"
  by (simp add: sn_mask_mod mod_add_left_eq)

lemma nack_gap_run:
  assumes "sw_prev w = sn_mask p" "- 1 \<le> p" "p < sn" "sn < 1024" "int (length (sw_nacks w)) + (sn - p - 1) \<le> 1023"
  shows "\<exists>k w'. p + 1 \<le> k \<and> k \<le> sn \<and> sw_nacks w' = sw_nacks w @ map whole_nack [p + 1..k - 1] \<and>
    sw_bits w' = sw_bits w - 12 * (k - 1 - p) \<and> (0 < sw_bits w \<longrightarrow> 0 < sw_bits w') \<and> sw_prev w' = sn_mask (k - 1) \<and>
    (12 * (sn - p) < sw_bits w \<longrightarrow> k = sn) \<and> nack_gap sn w = Some (if k = sn then Inr w' else Inl (k, w'))"
  using assms
proof (induction "nat (sn - p)" arbitrary: p w rule: less_induct)
  case less
  have nx: "sn_mask (sw_prev w + 1) = p + 1" using less.prems by (simp add: sn_mask_succ sn_mask_small)
  show ?case
  proof (cases "p + 1 = sn")
    case True
    then have "nack_gap sn w = Some (Inr w)" using nx by (subst nack_gap.simps) (simp add: Let_def)
    then show ?thesis using less.prems True by (intro exI[of _ sn] exI[of _ w]) auto
  next
    case False
    show ?thesis
    proof (cases "sw_bits w > 12")
      case True
      have len: "length (sw_nacks w) < 1023" using less.prems False by simp
      let ?w = "w\<lparr>sw_nacks := sw_nacks w @ [whole_nack (p + 1)], sw_bits := sw_bits w - 12, sw_prev := p + 1\<rparr>"
      have step: "nack_gap sn w = nack_gap sn ?w"
        using True False nx push_whole[OF len] by (subst nack_gap.simps) (simp add: Let_def)
      have "nat (sn - (p + 1)) < nat (sn - p)" "sw_prev ?w = sn_mask (p + 1)" "- 1 \<le> p + 1" "p + 1 < sn"
        "int (length (sw_nacks ?w)) + (sn - (p + 1) - 1) \<le> 1023"
        using less.prems False by (auto simp: sn_mask_small)
      from less.hyps[OF this(1-4) less.prems(4) this(5)] obtain k w' where k: "p + 1 + 1 \<le> k" "k \<le> sn"
        "sw_nacks w' = sw_nacks ?w @ map whole_nack [p + 1 + 1..k - 1]" "sw_bits w' = sw_bits ?w - 12 * (k - 1 - (p + 1))"
        "0 < sw_bits ?w \<longrightarrow> 0 < sw_bits w'" "sw_prev w' = sn_mask (k - 1)" "12 * (sn - (p + 1)) < sw_bits ?w \<longrightarrow> k = sn"
        "nack_gap sn ?w = Some (if k = sn then Inr w' else Inl (k, w'))" by blast
      have "[p + 1..k - 1] = (p + 1) # [p + 1 + 1..k - 1]" using k(1) by (simp add: upto_rec1)
      then show ?thesis using k True unfolding step by (intro exI[of _ k] exI[of _ w']) auto
    next
      case False
      then have "nack_gap sn w = Some (Inl (p + 1, w))" using nx \<open>p + 1 \<noteq> sn\<close> by (subst nack_gap.simps) (simp add: Let_def)
      then show ?thesis using less.prems False \<open>p + 1 \<noteq> sn\<close> by (intro exI[of _ "p + 1"] exI[of _ w]) auto
    qed
  qed
qed

definition missing :: "rx_pdu list \<Rightarrow> int \<Rightarrow> int \<Rightarrow> int list" where
  "missing xs a k = filter (\<lambda>s. s \<notin> rx_sn ` set xs) [a..k - 1]"

lemma missing_all: "\<forall>x\<in>set xs. k \<le> rx_sn x \<Longrightarrow> missing xs a k = [a..k - 1]"
  unfolding missing_def by (rule filter_True) force

lemma missing_Cons:
  assumes "p < rx_sn x" "rx_sn x < k" "\<forall>y\<in>set xs. rx_sn x < rx_sn y"
  shows "missing (x # xs) (p + 1) k = [p + 1..rx_sn x - 1] @ missing xs (rx_sn x + 1) k"
proof -
  have "[p + 1..k - 1] = [p + 1..rx_sn x - 1] @ [rx_sn x..k - 1]" using assms by (intro upto_split1) auto
  also have "[rx_sn x..k - 1] = rx_sn x # [rx_sn x + 1..k - 1]" using assms by (intro upto_rec1) simp
  finally have "[p + 1..k - 1] = [p + 1..rx_sn x - 1] @ rx_sn x # [rx_sn x + 1..k - 1]" .
  moreover have "filter (\<lambda>s. s \<notin> rx_sn ` set (x # xs)) [p + 1..rx_sn x - 1] = [p + 1..rx_sn x - 1]"
    using assms(3) by (intro filter_True) force
  moreover have "filter (\<lambda>s. s \<notin> rx_sn ` set (x # xs)) [rx_sn x + 1..k - 1] = missing xs (rx_sn x + 1) k"
    unfolding missing_def by (rule filter_cong) auto
  ultimately show ?thesis unfolding missing_def by simp
qed

lemma status_step_whole:
  assumes "rx_sn x \<noteq> sw_prev w" "all_segments_received x" "nack_gap (rx_sn x) w = Some r"
  shows "status_step x xs w = Some (case r of Inl d \<Rightarrow> Inl d | Inr w1 \<Rightarrow> Inr (xs, w1\<lparr>sw_prev := rx_sn x\<rparr>))"
  using assms by (simp add: status_step_def split: sum.split)

definition last_sn :: "int \<Rightarrow> rx_pdu list \<Rightarrow> int" where
  "last_sn p xs = (if xs = [] then p else rx_sn (last xs))"

lemma last_sn_Cons [simp]: "last_sn p (x # xs) = last_sn (rx_sn x) xs"
  by (simp add: last_sn_def)

lemma last_sn_ge: "\<forall>y\<in>set xs. p < rx_sn y \<Longrightarrow> p \<le> last_sn p xs"
  by (auto simp: last_sn_def less_imp_le)

lemma status_loop_run:
  assumes "\<forall>x\<in>set xs. all_segments_received x \<and> p < rx_sn x \<and> rx_sn x < 1024" "sorted_wrt (\<lambda>x y. rx_sn x < rx_sn y) xs"
    "sw_prev w = sn_mask p" "- 1 \<le> p" "p < 1024" "0 \<le> p \<or> (\<forall>x\<in>set xs. rx_sn x < 1023)" "0 < sw_bits w" "int (length (sw_nacks w)) \<le> p + 1"
  shows "\<exists>k w'. status_loop xs w = Some (sn_mask k, w') \<and> p + 1 \<le> k \<and> k \<le> 1024 \<and>
    sw_nacks w' = sw_nacks w @ map whole_nack (missing xs (p + 1) k) \<and>
    sw_bits w' = sw_bits w - 12 * int (length (missing xs (p + 1) k)) \<and> 0 < sw_bits w' \<and>
    (12 * (last_sn p xs - p + 1) \<le> sw_bits w \<longrightarrow> k = last_sn p xs + 1) \<and> k \<le> last_sn p xs + 1"
  using assms
proof (induction xs arbitrary: p w)
  case Nil
  then show ?case
    by (subst status_loop.simps) (auto intro!: exI[of _ "p + 1"] exI[of _ w] simp: missing_def sn_mask_succ last_sn_def)
next
  case (Cons x xs)
  let ?s = "rx_sn x"
  have x: "all_segments_received x" "p < ?s" "?s < 1024" "\<forall>y\<in>set xs. ?s < rx_sn y" using Cons.prems by auto
  show ?case
  proof (cases "sw_bits w \<ge> 12")
    case False
    have "p < last_sn ?s xs" using last_sn_ge[OF x(4)] x(2) by simp
    then show ?thesis using False Cons.prems(3,5,7)
      by (subst status_loop.simps) (auto intro!: exI[of _ "p + 1"] exI[of _ w] simp: missing_def sn_mask_succ)
  next
    case True
    have np: "?s \<noteq> sw_prev w"
      using Cons.prems(1,3,4,6) x(2) by (cases "p = - 1") (auto simp: sn_mask_mod)
    have room: "int (length (sw_nacks w)) + (?s - p - 1) \<le> 1023" using Cons.prems(8) x(3) by simp
    obtain k w1 where g: "p + 1 \<le> k" "k \<le> ?s" "sw_nacks w1 = sw_nacks w @ map whole_nack [p + 1..k - 1]"
      "sw_bits w1 = sw_bits w - 12 * (k - 1 - p)" "0 < sw_bits w1" "12 * (?s - p) < sw_bits w \<longrightarrow> k = ?s"
      "nack_gap ?s w = Some (if k = ?s then Inr w1 else Inl (k, w1))"
      using nack_gap_run[OF Cons.prems(3,4) x(2,3) room] Cons.prems(7) by blast
    note st = status_step_whole[OF np x(1) g(7), of xs]
    show ?thesis
    proof (cases "k = ?s")
      case True
      let ?w = "w1\<lparr>sw_prev := ?s\<rparr>"
      have "int (length (sw_nacks ?w)) \<le> ?s + 1" using g(1,3) True Cons.prems(8) by simp
      moreover have "sorted_wrt (\<lambda>x y. rx_sn x < rx_sn y) xs" "\<forall>y\<in>set xs. all_segments_received y \<and> ?s < rx_sn y \<and> rx_sn y < 1024"
        using Cons.prems(1,2) by auto
      moreover have "sw_prev ?w = sn_mask ?s" "- 1 \<le> ?s" "0 \<le> ?s" "0 < sw_bits ?w" using x(2,3) Cons.prems(4) g(5) by (auto simp: sn_mask_small)
      ultimately obtain k' w' where r: "status_loop xs ?w = Some (sn_mask k', w')" "?s + 1 \<le> k'" "k' \<le> 1024"
        "sw_nacks w' = sw_nacks ?w @ map whole_nack (missing xs (?s + 1) k')"
        "sw_bits w' = sw_bits ?w - 12 * int (length (missing xs (?s + 1) k'))" "0 < sw_bits w'"
        "12 * (last_sn ?s xs - ?s + 1) \<le> sw_bits ?w \<longrightarrow> k' = last_sn ?s xs + 1" "k' \<le> last_sn ?s xs + 1"
        using Cons.IH[of ?s ?w] x(3) by blast
      have loop: "status_loop (x # xs) w = Some (sn_mask k', w')"
        using \<open>sw_bits w \<ge> 12\<close> st True r(1) by (subst status_loop.simps) simp
      have ms: "missing (x # xs) (p + 1) k' = [p + 1..?s - 1] @ missing xs (?s + 1) k'" using x r(2) by (intro missing_Cons) auto
      have "12 * (last_sn ?s xs - p + 1) \<le> sw_bits w \<longrightarrow> k' = last_sn ?s xs + 1"
        using r(7) g(4) True by (auto simp: algebra_simps)
      then show ?thesis using loop r ms g(1,3,4) True by (intro exI[of _ k'] exI[of _ w']) auto
    next
      case False
      then have loop: "status_loop (x # xs) w = Some (sn_mask k, w1)"
        using \<open>sw_bits w \<ge> 12\<close> st g(1,2) x(3) Cons.prems(4) by (subst status_loop.simps) (simp add: sn_mask_small)
      have ms: "missing (x # xs) (p + 1) k = [p + 1..k - 1]" using g(2) x(4) by (intro missing_all) auto
      have "?s \<le> last_sn ?s xs" by (rule last_sn_ge[OF x(4)])
      then show ?thesis using loop g False ms x(3) by (intro exI[of _ k] exI[of _ w1]) auto
    qed
  qed
qed

subsection \<open>The encoded report\<close>

text \<open>What the peer reads of an entry: the offsets are on the wire only with a segment entry.\<close>

definition wire_nack :: "nack_sn_t \<Rightarrow> nack_sn_t" where
  "wire_nack nk = (if nack_e2 nk > 0 then nk else nk\<lparr>so_start := 0, so_end := 0x7FFF\<rparr>)"

lemma write_nack_wire: "write_nack bs i p (wire_nack nk) = write_nack bs i p nk"
  by (simp add: write_nack_def wire_nack_def)

lemma write_nacks_wire: "write_nacks bs i p (map wire_nack nks) = write_nacks bs i p nks"
  by (induction nks arbitrary: bs i p) (auto simp: write_nack_wire)

lemma close_nacks_snoc: "close_nacks (xs @ [y]) = xs @ [y\<lparr>nack_e1 := 0\<rparr>]"
  by (simp add: close_nacks_def)

lemma nack_chain_snoc: "\<forall>x\<in>set xs. nack_e1 x = 1 \<Longrightarrow> nack_e1 y = 0 \<Longrightarrow> nack_chain (xs @ [y])"
proof (induction xs)
  case (Cons x xs)
  then show ?case by (cases xs) auto
qed simp

definition status_of :: "int \<Rightarrow> int list \<Rightarrow> rlc_am_control_pdu_info" where
  "status_of ack sns = \<lparr>ci_d_c = 0, ci_cpt = 0, ci_ack_sn = ack, ci_e1 = (if sns \<noteq> [] then 1 else 0),
     ci_nack_list = map wire_nack (close_nacks (map whole_nack sns))\<rparr>"

lemma close_nacks_Nil [simp]: "close_nacks nks = [] \<longleftrightarrow> nks = []"
  by (simp add: close_nacks_def)

lemma status_of_ok:
  assumes "0 \<le> ack" "ack < 1024" "\<forall>s\<in>set sns. 0 \<le> s \<and> s < 1024" "length sns < 1023"
  shows "status_ok (status_of ack sns)" "map nack_sn (ci_nack_list (status_of ack sns)) = sns"
    "length (status_bits (status_of ack sns)) = 15 + 12 * length sns"
proof -
  define L where "L = map wire_nack (close_nacks (map whole_nack sns))"
  have l: "list_all nack_ok L \<and> nack_chain L \<and> length L = length sns \<and> map nack_sn L = sns \<and>
      length (concat (map nack_bits L)) = 12 * length sns"
  proof (cases sns rule: rev_cases)
    case (snoc ys y)
    have e: "L = map (wire_nack \<circ> whole_nack) ys @ [wire_nack ((whole_nack y)\<lparr>nack_e1 := 0\<rparr>)]"
      unfolding L_def snoc by (simp add: close_nacks_snoc)
    have c: "nack_chain L" unfolding e by (rule nack_chain_snoc) (auto simp: wire_nack_def whole_nack_def)
    have b: "length (concat (map nack_bits (map (wire_nack \<circ> whole_nack) zs))) = 12 * length zs" for zs
      by (induction zs) (auto simp: nack_bits_def wire_nack_def whole_nack_def)
    have "map nack_sn (map (wire_nack \<circ> whole_nack) ys) = ys" by (induction ys) (auto simp: wire_nack_def whole_nack_def)
    moreover have "list_all nack_ok L" unfolding e using assms(3) snoc by (auto simp: list_all_iff nack_ok_def wire_nack_def whole_nack_def)
    ultimately show ?thesis using c b[of ys] e snoc by (simp add: wire_nack_def whole_nack_def nack_bits_def)
  qed (simp add: L_def close_nacks_def)
  show "status_ok (status_of ack sns)" using l assms(1,2,4) by (simp add: status_ok_def status_of_def L_def)
  show "map nack_sn (ci_nack_list (status_of ack sns)) = sns" using l by (simp add: status_of_def L_def)
  show "length (status_bits (status_of ack sns)) = 15 + 12 * length sns" using l by (simp add: status_bits_def status_of_def L_def)
qed

lemma status_of_whole: "nk \<in> set (ci_nack_list (status_of ack sns)) \<Longrightarrow> so_start nk = 0 \<and> so_end nk = 0x7FFF"
proof (cases sns rule: rev_cases)
  case (snoc xs x)
  moreover assume "nk \<in> set (ci_nack_list (status_of ack sns))"
  ultimately show ?thesis by (auto simp: status_of_def close_nacks_def wire_nack_def whole_nack_def)
qed (simp add: status_of_def close_nacks_def)

lemma write_status_of:
  "rlc_am_write_status_pdu bs (zero_control_info\<lparr>ci_ack_sn := ack, ci_nack_list := close_nacks (map whole_nack sns)\<rparr>) =
     rlc_am_write_status_pdu bs (status_of ack sns)"
  by (simp add: rlc_am_write_status_pdu_def status_of_def write_nacks_wire)

text \<open>The size forecast covers the encoded report, and the size assertion holds.\<close>

lemma status_size:
  fixes n b :: int and l :: nat
  assumes "b = 8 * n - int l"
  shows "int ((l + 7) div 8) = n - b div 8" "l \<le> 8 * nat (n - (b - 7) div 8)"
proof -
  have "int ((l + 7) div 8) = (8 * n - b + 7) div 8" using assms by (simp add: zdiv_int add.commute)
  also have "\<dots> = n - b div 8" by presburger
  finally show "int ((l + 7) div 8) = n - b div 8" .
  have "8 * ((b - 7) div 8) \<le> b" by presburger
  then show "l \<le> 8 * nat (n - (b - 7) div 8)" using assms by linarith
qed

subsection \<open>The report tells what is received\<close>

text \<open>The stored PDUs are in the receive window.\<close>

definition rx_in_window :: "rlc_am_entity \<Rightarrow> bool" where
  "rx_in_window e \<longleftrightarrow> rx_seq e \<and> (\<forall>x\<in>set (receiver_buffer e). rx_sn x < vr_r e + RLC_AM_WINDOW_SIZE)"

lemma status_contents_run:
  assumes "rx_in_window e" "2 < nb_bytes_requested_by_mac e"
  shows "\<exists>k w. status_contents e = Some (sn_mask k, w) \<and> vr_r e \<le> k \<and> k \<le> 1024 \<and> k \<le> vr_r e + 512 \<and>
    sw_nacks w = map whole_nack (missing (receiver_buffer e) (vr_r e) k) \<and>
    sw_bits w = nb_bytes_requested_by_mac e * 8 - 15 - 12 * int (length (missing (receiver_buffer e) (vr_r e) k)) \<and> 0 < sw_bits w \<and>
    (771 < nb_bytes_requested_by_mac e \<longrightarrow> k = last_sn (vr_r e - 1) (receiver_buffer e) + 1)"
proof -
  let ?xs = "receiver_buffer e"
  let ?p = "vr_r e - 1"
  let ?w = "\<lparr>sw_prev = sn_mask ?p, sw_bits = nb_bytes_requested_by_mac e * 8 - 15, sw_nacks = []\<rparr>"
  have v: "0 \<le> vr_r e" "vr_r e < 1024" "vr_mr e = sn_mask (vr_r e + 512)" "sorted_wrt rx_before ?xs"
    "\<forall>x\<in>set ?xs. stored_ok (vr_r e) x" "\<forall>x\<in>set ?xs. rx_sn x < vr_r e + 512"
    using assms(1) by (auto simp: rx_in_window_def rx_seq_def valid_sn_def)
  show ?thesis
  proof (cases "?xs = []")
    case True
    then show ?thesis using v(1,2) assms(2) by (intro exI[of _ "vr_r e"] exI[of _ ?w]) (simp add: status_contents_def missing_def last_sn_def sn_mask_small)
  next
    case False
    then obtain x xs where x: "?xs = x # xs" by (cases ?xs) auto
    have "rlc_am_in_rx_window e (rx_sn x)"
      using v x rx_window.inw_iff[of "rx_sn x" e] by (simp add: stored_ok_def valid_sn_def sn_mask_mod mod_diff_left_eq mod_pos_pos_trivial)
    then have sk: "skip_outside e (sn_mask ?p) ?xs = Some (sn_mask ?p, ?xs)" by (simp add: x)
    have el: "\<forall>x\<in>set ?xs. all_segments_received x \<and> ?p < rx_sn x \<and> rx_sn x < 1024" using v(5) by (auto simp: stored_ok_def)
    have so: "sorted_wrt (\<lambda>x y. rx_sn x < rx_sn y) ?xs" by (rule whole_sorted[OF v(4)]) (use v(5) in \<open>auto simp: stored_ok_def\<close>)
    have edge: "0 < vr_r e \<or> (\<forall>x\<in>set ?xs. rx_sn x < 1023)" using v(1,6) by force
    obtain k w' where r: "status_loop ?xs ?w = Some (sn_mask k, w')" "?p + 1 \<le> k" "k \<le> 1024"
      "sw_nacks w' = sw_nacks ?w @ map whole_nack (missing ?xs (?p + 1) k)"
      "sw_bits w' = sw_bits ?w - 12 * int (length (missing ?xs (?p + 1) k))" "0 < sw_bits w'"
      "12 * (last_sn ?p ?xs - ?p + 1) \<le> sw_bits ?w \<longrightarrow> k = last_sn ?p ?xs + 1" "k \<le> last_sn ?p ?xs + 1"
      using status_loop_run[OF el so, of ?w] v(1,2) assms(2) edge by auto
    have l: "last_sn ?p ?xs < vr_r e + 512" using v(6) False by (simp add: last_sn_def)
    have "status_contents e = Some (sn_mask k, w')"
      using False sk r(1) by (simp add: status_contents_def Let_def)
    moreover have "771 < nb_bytes_requested_by_mac e \<longrightarrow> k = last_sn ?p ?xs + 1" using r(7) l by auto
    moreover have "k \<le> vr_r e + 512" using r(8) l by simp
    ultimately show ?thesis using r by (intro exI[of _ k] exI[of _ w']) simp
  qed
qed

text \<open>The state after a report of \<open>l\<close> bytes.\<close>

definition status_sent :: "nat \<Rightarrow> byte list \<Rightarrow> rlc_am_entity \<Rightarrow> rlc_am_entity" where
  "status_sent l bs e = e\<lparr>nb_bytes_requested_by_mac := nb_bytes_requested_by_mac e - int l,
     control_pdu_list := \<lparr>tb_size = int l, tb_data = bs\<rparr> # control_pdu_list e,
     stats := (stats e)\<lparr>stat_tx_control_pdu := stat_tx_control_pdu (stats e) + 1,
       stat_tx_control_bytes := stat_tx_control_bytes (stats e) + word_of_int (int l)\<rparr>\<rparr>"

text \<open>A report of the receiver's state up to \<open>k\<close>, and its encoding in the bytes \<open>bs\<close>.\<close>

definition reports :: "rlc_am_entity \<Rightarrow> int \<Rightarrow> rlc_am_control_pdu_info \<Rightarrow> bool" where
  "reports e k info \<longleftrightarrow> ci_ack_sn info = sn_mask k \<and> status_ok info \<and>
     (\<forall>nk\<in>set (ci_nack_list info). so_start nk = 0 \<and> so_end nk = 0x7FFF) \<and> map nack_sn (ci_nack_list info) = missing (receiver_buffer e) (vr_r e) k \<and> vr_r e \<le> k \<and> k \<le> 1024 \<and> k \<le> vr_r e + 512"

definition encodes :: "byte list \<Rightarrow> nat \<Rightarrow> rlc_am_control_pdu_info \<Rightarrow> bool" where
  "encodes bs l info \<longleftrightarrow> 0 < l \<and> l = (length (status_bits info) + 7) div 8 \<and>
     buf_bits bs = status_bits info @ replicate (8 * length bs - length (status_bits info)) False \<and>
     rlc_am_get_control_pdu_infos bs (int l) = Some (0, info, 0)"

lemma send_status_run:
  assumes "rx_in_window e" "2 < nb_bytes_requested_by_mac e"
  shows "\<exists>bs l k info. rlc_am_send_status_pdu e = Some (status_sent l bs e) \<and> int l \<le> nb_bytes_requested_by_mac e \<and>
    encodes bs l info \<and> reports e k info \<and>
    (771 < nb_bytes_requested_by_mac e \<longrightarrow> k = last_sn (vr_r e - 1) (receiver_buffer e) + 1)"
proof -
  let ?n = "nb_bytes_requested_by_mac e"
  obtain k w where c: "status_contents e = Some (sn_mask k, w)" "vr_r e \<le> k" "k \<le> 1024" "k \<le> vr_r e + 512"
    "sw_nacks w = map whole_nack (missing (receiver_buffer e) (vr_r e) k)"
    "sw_bits w = ?n * 8 - 15 - 12 * int (length (missing (receiver_buffer e) (vr_r e) k))" "0 < sw_bits w"
    "771 < ?n \<longrightarrow> k = last_sn (vr_r e - 1) (receiver_buffer e) + 1"
    using status_contents_run[OF assms] by blast
  let ?m = "missing (receiver_buffer e) (vr_r e) k"
  have v: "0 \<le> vr_r e" using assms(1) by (auto simp: rx_in_window_def rx_seq_def valid_sn_def)
  have "length ?m \<le> length [vr_r e..k - 1]" unfolding missing_def by (rule length_filter_le)
  then have len: "length ?m < 1023" using c(4) by simp
  have el: "\<forall>s\<in>set ?m. 0 \<le> s \<and> s < 1024" using v c(3) by (auto simp: missing_def)
  note S = status_of_ok[OF sn_mask_range el len, of k]
  let ?info = "status_of (sn_mask k) ?m" and ?cap = "nat (?n - (sw_bits w - 7) div 8)"
  let ?l = "(length (status_bits ?info) + 7) div 8"
  have "sw_bits w = 8 * ?n - int (length (status_bits ?info))" using c(6) S(3) by simp
  note Z = status_size[OF this]
  obtain bs where wr: "rlc_am_write_status_pdu (replicate ?cap 0) ?info = Some (bs, ?l)"
    "buf_bits bs = status_bits ?info @ replicate (8 * ?cap - length (status_bits ?info)) False"
    using write_status_layout[OF S(1) Z(2)] by blast
  have "length bs = ?cap" using arg_cong[OF wr(2), of length] Z(2) by simp
  moreover have "0 < ?l" using S(3) by simp
  ultimately have "encodes bs ?l ?info"
    using wr(2) get_control_pdu_layout[OF wr(2) S(1), of "int ?l"] by (simp add: encodes_def)
  moreover have "int ?l \<le> ?n" using Z(1) c(7) by (simp add: pos_imp_zdiv_nonneg_iff)
  moreover have "rlc_am_send_status_pdu e = Some (status_sent ?l bs e)"
    using c(1,5) wr(1) Z(1)[symmetric] by (simp add: rlc_am_send_status_pdu_def write_status_of status_sent_def)
  moreover have "reports e k ?info" using S c(2-4) by (simp add: reports_def status_of_whole) (simp add: status_of_def)
  ultimately show ?thesis using c(8) by blast
qed


text \<open>PDUs 5 and 8 are stored behind the missing PDU 4: the report acknowledges 9 and lists 4, 6 and 7.\<close>

definition status_example :: rlc_am_entity where
  "status_example = zero_entity\<lparr>vr_r := 4, vr_mr := 516, nb_bytes_requested_by_mac := 800,
     receiver_buffer := [\<lparr>pdu_info = rx_info 5 0 [3], all_segments_received = True\<rparr>,
       \<lparr>pdu_info = rx_info 8 0 [4], all_segments_received = True\<rparr>]\<rparr>"


text \<open>
  With a PDU at the end of the buffer that lacks a segment, the report acknowledges the number
  before it: entry 5 is listed although it lies behind the acknowledged number 4.
\<close>

definition tail_example :: rlc_am_entity where
  "tail_example = zero_entity\<lparr>vr_r := 4, vr_mr := 516, nb_bytes_requested_by_mac := 100,
     receiver_buffer := [\<lparr>pdu_info = rx_info 4 0 [3], all_segments_received = True\<rparr>,
       \<lparr>pdu_info = (rx_info 5 0 [4])\<lparr>pi_rf := 1, pi_so := 7\<rparr>, all_segments_received = False\<rparr>]\<rparr>"

lemma last_segment_below_ack:
  "map_option (\<lambda>(ack, w). (ack, map nack_sn (sw_nacks w))) (status_contents tail_example) = Some (4, [5])"
  by code_simp

end
