(* ===== verification/Rlc_Am_Resegment.thy ===== *)
theory Rlc_Am_Resegment
  imports Rlc_Am_Segment_Pdu
begin

text \<open>
  Retransmission of a part of a PDU: \<^verbatim>\<open>rlc_am_retransmit_get_subsegment\<close> of
  \<^verbatim>\<open>rlc_am_retransmit.c\<close>. The original PDU is decoded; a loop over its length indicators decides how
  many bytes from the start of the first hole on go into the segment, which length indicators the
  segment needs and whether its ends are ends of SDUs.

  The C code mixes \<^verbatim>\<open>int\<close> and \<^verbatim>\<open>unsigned int\<close> (\<^verbatim>\<open>test_li_length_in_bytes\<close>); where it does so the values are
  not negative, so they are \<open>int\<close> here. Reading the stored PDU or writing the new block out of bounds
  is \<open>None\<close>, like a failed assertion.
\<close>

subsection \<open>What goes into the segment\<close>

record reseg =
  rs_cont :: bool
  rs_max :: int
  rs_rem :: int
  rs_lis :: "int list"
  rs_sum :: int
  rs_nfi :: int
  rs_start :: int
  rs_li_len :: int
  rs_copy :: int

definition reseg_cut :: "reseg \<Rightarrow> reseg" where
  "reseg_cut t = (if rs_max t > rs_rem t then t\<lparr>rs_max := rs_rem t\<rparr> else t)"

text \<open>One length indicator of the original PDU.\<close>

definition reseg_step :: "int \<Rightarrow> reseg \<Rightarrow> reseg option" where
  "reseg_step l t0 =
     do {
       let t1 = reseg_cut t0;
       c_assert (rs_max t1 \<ge> 0);
       c_assert (rs_rem t1 \<ge> 0);
       let t = t1\<lparr>rs_sum := rs_sum t1 + l\<rparr>;
       let n = rs_sum t - rs_start t;
       let li = rs_li_len t XOR 3;
       if rs_start t < rs_sum t then
         if rs_max t + rs_start t < rs_sum t then
           do {
             c_assert (rs_max t > 0);
             Some (t\<lparr>rs_cont := False, rs_copy := rs_copy t + rs_max t, rs_start := rs_start t + rs_max t,
               rs_nfi := rs_nfi t AND 2, rs_max := 0\<rparr>)
           }
         else if rs_max t + rs_start t = rs_sum t then
           do {
             c_assert (rs_max t > 0);
             Some (t\<lparr>rs_cont := False, rs_copy := rs_copy t + rs_max t, rs_start := rs_start t + rs_max t,
               rs_nfi := rs_nfi t OR 1, rs_max := 0\<rparr>)
           }
         else if rs_max t + rs_start t - li > rs_sum t then
           do {
             c_assert (n > 0);
             c_assert (int (length (rs_lis t)) < RLC_AM_MAX_SDU_IN_PDU);
             Some (t\<lparr>rs_lis := rs_lis t @ [n], rs_copy := rs_copy t + n, rs_li_len := li,
               rs_rem := rs_rem t - n - li, rs_max := rs_max t - n - li, rs_start := rs_sum t\<rparr>)
           }
         else
           do {
             c_assert (n > 0);
             Some (t\<lparr>rs_cont := False, rs_copy := rs_copy t + n, rs_rem := rs_rem t - n, rs_max := rs_max t - n,
               rs_start := rs_sum t, rs_nfi := rs_nfi t OR 1\<rparr>)
           }
       else if rs_start t = rs_sum t \<and> rs_lis t = [] \<and> rs_copy t = 0 then Some (t\<lparr>rs_nfi := rs_nfi t OR 2\<rparr>)
       else Some t
     }"

text \<open>The loop returns the indicators it did not look at.\<close>

fun reseg_loop :: "int list \<Rightarrow> reseg \<Rightarrow> (int list \<times> reseg) option" where
  "reseg_loop [] t = Some ([], t)"
| "reseg_loop (l # ls) t =
     (if rs_cont t then do { t1 \<leftarrow> reseg_step l t; reseg_loop ls t1 } else Some (l # ls, t))"

text \<open>The data behind the last length indicator.\<close>

definition reseg_hidden :: "int \<Rightarrow> int \<Rightarrow> int list \<Rightarrow> reseg \<Rightarrow> reseg" where
  "reseg_hidden hidden not_fi rest t0 =
     (if rs_cont t0 \<and> rest = [] \<and> hidden > 0 \<and> rs_rem t0 > 0 \<and> rs_max t0 > 0 then
        let t = reseg_cut t0
        in if rs_max t + rs_start t \<ge> hidden + rs_sum t then
             t\<lparr>rs_copy := rs_copy t + (hidden + rs_sum t - rs_start t), rs_start := hidden + rs_sum t,
               rs_nfi := (rs_nfi t AND 2) OR (not_fi AND 1)\<rparr>
           else
             t\<lparr>rs_copy := rs_copy t + rs_max t, rs_start := rs_start t + rs_max t, rs_nfi := rs_nfi t AND 2\<rparr>
      else t0)"

definition reseg_plan :: "rlc_am_pdu_info \<Rightarrow> int \<Rightarrow> int \<Rightarrow> int \<Rightarrow> int \<Rightarrow> int \<Rightarrow> reseg option" where
  "reseg_plan i not_fi start stop payload_size room =
     do {
       c_assert (stop - start + 1 > 0);
       c_assert (room > 0);
       let t = reseg_cut \<lparr>rs_cont = True, rs_max = stop - start + 1, rs_rem = room, rs_lis = [], rs_sum = 0,
         rs_nfi = (if start = 0 then not_fi AND 2 else 0), rs_start = start, rs_li_len = 1, rs_copy = 0\<rparr>;
       if pi_li_list i \<noteq> [] then
         do {
           (rest, t1) \<leftarrow> reseg_loop (pi_li_list i) t;
           Some (reseg_hidden (pi_hidden_size i) not_fi rest t1)
         }
       else
         Some (t\<lparr>rs_copy := rs_max t,
           rs_nfi := (if stop = start + rs_max t - 1 \<and> stop = payload_size - 1
             then (rs_nfi t AND 2) OR (not_fi AND 1) else rs_nfi t AND 2)\<rparr>)
     }"

subsection \<open>Building the segment\<close>

text \<open>The bytes of the length indicators, in pairs that share a byte.\<close>

fun sub_lis :: "int list \<Rightarrow> byte list" where
  "sub_lis [] = []"
| "sub_lis [l] = [0 OR word_of_int (drop_bit 4 l), word_of_int (push_bit 4 l)]"
| "sub_lis (l # m # ls) =
     [0x80 OR word_of_int (drop_bit 4 l),
      (if ls \<noteq> [] then word_of_int (push_bit 4 l) OR 0x08 else word_of_int (push_bit 4 l)) OR word_of_int (drop_bit 8 m),
      word_of_int (m AND 0xFF)] @ sub_lis ls"

definition sub_first_byte :: "byte \<Rightarrow> reseg \<Rightarrow> byte" where
  "sub_first_byte b1 t =
     (let b = ((b1 AND 0x83) OR 0x40) OR word_of_int ((push_bit 3 (rs_nfi t) XOR 0x18) AND 0x18)
      in if rs_lis t \<noteq> [] then b OR 0x04 else b)"

text \<open>
  The result is the block for MAC (\<^verbatim>\<open>NULL\<close> when the stored PDU is no data PDU), the size left of the
  grant, and the entity.
\<close>

definition rlc_am_retransmit_get_subsegment ::
  "rlc_am_entity \<Rightarrow> frame \<Rightarrow> int \<Rightarrow> int \<Rightarrow> (mac_tb_req option \<times> int \<times> rlc_am_entity) option" where
  "rlc_am_retransmit_get_subsegment e frameP snP room =
     (case txp_mem_block (pdu_retrans_buffer e snP) of None \<Rightarrow> None
      | Some mb \<Rightarrow>
          do {
            (rc, i) \<leftarrow> rlc_am_get_data_pdu_infos (tb_data mb) (txp_header_and_payload_size (pdu_retrans_buffer e snP));
            if rc \<ge> 0 then
              do {
                let so = txp_nack_so_start (pdu_retrans_buffer e snP);
                let e1 = (if txp_nack_so_stop (pdu_retrans_buffer e snP) = 0x7FFF
                  then upd_pdu snP (\<lambda>p. p\<lparr>txp_nack_so_stop := txp_payload_size p - 1\<rparr>) e else e);
                let b1 = tb_data mb ! 0;
                let (start, stop) = rlc_am_get_next_hole e1 frameP snP;
                let psize = txp_payload_size (pdu_retrans_buffer e1 snP);
                t \<leftarrow> reseg_plan i (uint (drop_bit 3 (b1 AND 0x18)) XOR 3) start stop psize (room - 4);
                let lis = sub_lis (rs_lis t);
                let off = int (txp_payload (pdu_retrans_buffer e1 snP)) + start;
                c_assert (0 \<le> off \<and> 0 \<le> rs_copy t \<and> off + rs_copy t \<le> int (length (tb_data mb)));
                c_assert (4 + int (length lis) + rs_copy t \<le> room);
                let data = take (nat (rs_copy t)) (drop (nat off) (tb_data mb));
                let lsf = (rs_copy t + start = psize);
                let d0 = (word_of_int (drop_bit 8 so) :: byte);
                let e2 = (if lsf then upd_pdu snP (\<lambda>p. p\<lparr>txp_retransmit := False\<rparr>) e1 else e1);
                e3 \<leftarrow> rlc_am_remove_hole e2 frameP snP start (rs_copy t + start - 1);
                let (e4, b) = rlc_am_pdu_polling e3 frameP (sub_first_byte b1 t) (rs_copy t);
                Some (Some \<lparr>tb_size = 4 + int (length lis) + rs_copy t,
                    tb_data = [b, tb_data mb ! 1, if lsf then d0 OR 0x80 else d0, word_of_int (so AND 0xFF)] @ lis @ data\<rparr>,
                  room - 4 - int (length lis) - rs_copy t, e4)
              }
            else Some (None, room, e)
          })"

subsection \<open>The plan cuts the SDUs where the original does\<close>

text \<open>The offsets at which SDUs end: behind each length indicator, and at the end of the data with \<open>fin\<close>.\<close>

fun li_ends :: "int \<Rightarrow> int list \<Rightarrow> int set" where
  "li_ends a [] = {}"
| "li_ends a (l # ls) = insert (a + l) (li_ends (a + l) ls)"

definition sdu_ends :: "int \<Rightarrow> int list \<Rightarrow> int \<Rightarrow> bool \<Rightarrow> int set" where
  "sdu_ends a ls n fin = li_ends a ls \<union> (if fin then {n} else {})"

text \<open>The bytes that \<open>k\<close> more indicators take when the last one took \<open>li\<close> bytes.\<close>

fun li_cost :: "int \<Rightarrow> nat \<Rightarrow> int" where
  "li_cost li 0 = 0"
| "li_cost li (Suc k) = (li XOR 3) + li_cost (li XOR 3) k"

lemma li_ends_gt: "\<forall>l\<in>set ls. 0 < l \<Longrightarrow> x \<in> li_ends a ls \<Longrightarrow> a < x"
  by (induction ls arbitrary: a) fastforce+

lemma li_ends_le: "\<forall>l\<in>set ls. 0 < l \<Longrightarrow> x \<in> li_ends a ls \<Longrightarrow> x \<le> a + sum_list ls"
proof (induction ls arbitrary: a)
  case (Cons l ls)
  have "0 \<le> sum_list ls" using Cons.prems(1) by (intro sum_list_nonneg) auto
  then show ?case using Cons by fastforce
qed simp

text \<open>
  The plan from state \<open>t\<close> on, for the indicators \<open>ls\<close> behind offset \<open>a\<close> and the end \<open>n\<close> of the data:
  the segment goes on with some bytes, at least one; SDUs end in it where they end in the original, and
  the new indicators with the bytes fit in what is left.
\<close>

definition reseg_part :: "int \<Rightarrow> int list \<Rightarrow> int \<Rightarrow> int \<Rightarrow> reseg \<Rightarrow> reseg \<Rightarrow> int \<Rightarrow> int list \<Rightarrow> bool" where
  "reseg_part a ls n nf t t' c ms \<longleftrightarrow> (let s = rs_start t in
     rs_lis t' = rs_lis t @ ms \<and> rs_copy t' = rs_copy t + c \<and> 0 < c \<and> c + li_cost (rs_li_len t) (length ms) \<le> rs_max t \<and>
     s + c \<le> n \<and> length ms \<le> length ls \<and> (\<forall>x\<in>set ms. 0 < x \<and> (\<exists>l\<in>set ls. x \<le> l)) \<and> sum_list ms < c \<and> rs_nfi t' \<in> {0, 1, 2, 3} \<and>
     sdu_ends s ms (s + c) (odd (rs_nfi t')) = sdu_ends a ls n (odd nf) \<inter> {s<..s + c} \<and>
     (rs_nfi t' \<ge> 2 \<longleftrightarrow> rs_nfi t = 2 \<or> rs_lis t = [] \<and> rs_copy t = 0 \<and> s \<in> li_ends a ls))"

definition reseg_goes :: "int \<Rightarrow> int list \<Rightarrow> int \<Rightarrow> int \<Rightarrow> reseg \<Rightarrow> reseg \<Rightarrow> bool" where
  "reseg_goes a ls n nf t t' \<longleftrightarrow> (\<exists>c ms. reseg_part a ls n nf t t' c ms)"

lemma nfi_bits:
  "(x :: int) \<in> {0, 2} \<Longrightarrow> x AND 2 = x" "x \<in> {0, 2} \<Longrightarrow> x OR 1 = x + 1" "x \<in> {0, 2} \<Longrightarrow> x OR 2 = 2"
  "(y :: int) \<in> {0, 1, 2, 3} \<Longrightarrow> y AND 1 = of_bool (odd y)" "x \<in> {0, 2} \<Longrightarrow> x OR of_bool b = x + of_bool b"
  by auto

lemma reseg_hidden_goes:
  assumes "0 < h" "rs_cont t" "0 < rs_max t" "rs_max t \<le> rs_rem t" "rs_sum t \<le> rs_start t" "rs_start t < rs_sum t + h"
    "rs_nfi t \<in> {0, 2}" "nf \<in> {0, 1, 2, 3}"
  shows "reseg_goes (rs_sum t) [] (rs_sum t + h) nf t (reseg_hidden h nf [] t)"
proof (cases "rs_max t + rs_start t \<ge> h + rs_sum t")
  case True
  then show ?thesis using assms nfi_bits(5)[OF assms(7), of "odd nf"] unfolding reseg_goes_def reseg_part_def Let_def
    by (intro exI[of _ "h + rs_sum t - rs_start t"] exI[of _ "[]"])
      (auto simp: reseg_hidden_def reseg_cut_def nfi_bits(4)[OF assms(8)] nfi_bits(1)[OF assms(7)] sdu_ends_def)
next
  case False
  then show ?thesis using assms unfolding reseg_goes_def reseg_part_def Let_def
    by (intro exI[of _ "rs_max t"] exI[of _ "[]"])
      (auto simp: reseg_hidden_def reseg_cut_def nfi_bits(1)[OF assms(7)] sdu_ends_def)
qed

lemma reseg_step_cases:
  assumes "0 < rs_max t" "rs_max t \<le> rs_rem t" "rs_nfi t \<in> {0, 2}" "length (rs_lis t) < 32" "rs_li_len t \<in> {1, 2}"
  shows "rs_sum t + l \<le> rs_start t \<Longrightarrow> reseg_step l t = Some (t\<lparr>rs_sum := rs_sum t + l,
      rs_nfi := (if rs_start t = rs_sum t + l \<and> rs_lis t = [] \<and> rs_copy t = 0 then 2 else rs_nfi t)\<rparr>)"
    "rs_start t < rs_sum t + l \<Longrightarrow> rs_max t - (rs_li_len t XOR 3) \<le> rs_sum t + l - rs_start t \<Longrightarrow>
      \<exists>t'. reseg_step l t = Some t' \<and> \<not> rs_cont t' \<and> rs_lis t' = rs_lis t \<and>
        rs_copy t' = rs_copy t + min (rs_max t) (rs_sum t + l - rs_start t) \<and>
        rs_nfi t' = rs_nfi t + of_bool (rs_sum t + l - rs_start t \<le> rs_max t)"
    "rs_start t < rs_sum t + l \<Longrightarrow> \<not> rs_max t - (rs_li_len t XOR 3) \<le> rs_sum t + l - rs_start t \<Longrightarrow>
      reseg_step l t = Some (t\<lparr>rs_lis := rs_lis t @ [rs_sum t + l - rs_start t], rs_sum := rs_sum t + l,
        rs_copy := rs_copy t + (rs_sum t + l - rs_start t), rs_li_len := rs_li_len t XOR 3,
        rs_rem := rs_rem t - (rs_sum t + l - rs_start t) - (rs_li_len t XOR 3),
        rs_max := rs_max t - (rs_sum t + l - rs_start t) - (rs_li_len t XOR 3), rs_start := rs_sum t + l\<rparr>)"
proof -
  have li: "rs_li_len t XOR 3 \<in> {1, 2}" using assms(5) by auto
  note d = reseg_step_def reseg_cut_def Let_def nfi_bits(1-3)[OF assms(3)]
  show "rs_sum t + l \<le> rs_start t \<Longrightarrow> reseg_step l t = Some (t\<lparr>rs_sum := rs_sum t + l,
      rs_nfi := (if rs_start t = rs_sum t + l \<and> rs_lis t = [] \<and> rs_copy t = 0 then 2 else rs_nfi t)\<rparr>)"
    using assms(1,2) by (simp add: d)
  show "rs_start t < rs_sum t + l \<Longrightarrow> rs_max t - (rs_li_len t XOR 3) \<le> rs_sum t + l - rs_start t \<Longrightarrow>
      \<exists>t'. reseg_step l t = Some t' \<and> \<not> rs_cont t' \<and> rs_lis t' = rs_lis t \<and>
        rs_copy t' = rs_copy t + min (rs_max t) (rs_sum t + l - rs_start t) \<and>
        rs_nfi t' = rs_nfi t + of_bool (rs_sum t + l - rs_start t \<le> rs_max t)"
    using assms(1,2) by (simp add: d)
  show "rs_start t < rs_sum t + l \<Longrightarrow> \<not> rs_max t - (rs_li_len t XOR 3) \<le> rs_sum t + l - rs_start t \<Longrightarrow>
      reseg_step l t = Some (t\<lparr>rs_lis := rs_lis t @ [rs_sum t + l - rs_start t], rs_sum := rs_sum t + l,
        rs_copy := rs_copy t + (rs_sum t + l - rs_start t), rs_li_len := rs_li_len t XOR 3,
        rs_rem := rs_rem t - (rs_sum t + l - rs_start t) - (rs_li_len t XOR 3),
        rs_max := rs_max t - (rs_sum t + l - rs_start t) - (rs_li_len t XOR 3), rs_start := rs_sum t + l\<rparr>)"
    using assms(1,2,4) li by (elim insertE) (simp_all add: d)
qed

lemma reseg_loop_stopped: "\<not> rs_cont t \<Longrightarrow> reseg_loop ls t = Some (ls, t)"
  by (cases ls) auto

lemma reseg_loop_goes:
  assumes "\<forall>l\<in>set ls. 0 < l" "0 < h" "rs_cont t" "0 < rs_max t" "rs_max t \<le> rs_rem t" "rs_sum t \<le> rs_start t"
    "rs_start t < rs_sum t + sum_list ls + h" "rs_nfi t \<in> {0, 2}" "nf \<in> {0, 1, 2, 3}" "rs_li_len t \<in> {1, 2}"
    "length (rs_lis t) + length ls \<le> 32" "rs_lis t = [] \<and> rs_copy t = 0 \<or> rs_start t = rs_sum t" "0 \<le> rs_copy t"
  shows "\<exists>rest t1. reseg_loop ls t = Some (rest, t1) \<and>
    reseg_goes (rs_sum t) ls (rs_sum t + sum_list ls + h) nf t (reseg_hidden h nf rest t1)"
  using assms
proof (induction ls arbitrary: t)
  case Nil
  then show ?case using reseg_hidden_goes[of h t nf] by simp
next
  case (Cons l ls)
  let ?a = "rs_sum t" and ?s = "rs_start t" and ?n = "rs_sum t + l - rs_start t" and ?li = "rs_li_len t XOR 3"
  have l: "0 < l" "\<forall>x\<in>set ls. 0 < x" "0 \<le> sum_list ls" "length (rs_lis t) < 32"
    using Cons.prems(1,11) by (auto intro!: sum_list_nonneg simp: less_imp_le)
  have li: "?li \<in> {1, 2}" using Cons.prems(10) by auto
  note step = reseg_step_cases[OF Cons.prems(4,5,8) l(4) Cons.prems(10), of l]
  have gt: "x \<in> li_ends (?a + l) ls \<Longrightarrow> ?a + l < x" for x using li_ends_gt[OF l(2)] .
  have le: "x \<in> li_ends (?a + l) ls \<Longrightarrow> x \<le> ?a + l + sum_list ls" for x using li_ends_le[OF l(2)] .
  consider (pass) "?a + l \<le> ?s" | (stop) "?s < ?a + l" "rs_max t - ?li \<le> ?n" | (go) "?s < ?a + l" "\<not> rs_max t - ?li \<le> ?n" by linarith
  then show ?case
  proof cases
    case pass
    let ?t = "t\<lparr>rs_sum := ?a + l, rs_nfi := (if ?s = ?a + l \<and> rs_lis t = [] \<and> rs_copy t = 0 then 2 else rs_nfi t)\<rparr>"
    have ph: "rs_lis t = [] \<and> rs_copy t = 0" using pass Cons.prems(12) l(1) by auto
    have "\<exists>rest t1. reseg_loop ls ?t = Some (rest, t1) \<and>
        reseg_goes (rs_sum ?t) ls (rs_sum ?t + sum_list ls + h) nf ?t (reseg_hidden h nf rest t1)"
      by (rule Cons.IH) (use Cons.prems l pass ph in auto)
    then obtain rest t1 where r: "reseg_loop ls ?t = Some (rest, t1)"
      "reseg_goes (?a + l) ls (?a + l + sum_list ls + h) nf ?t (reseg_hidden h nf rest t1)" by auto
    have "reseg_goes ?a (l # ls) (?a + l + sum_list ls + h) nf t (reseg_hidden h nf rest t1)"
    proof -
      obtain c ms where "reseg_part (?a + l) ls (?a + l + sum_list ls + h) nf ?t (reseg_hidden h nf rest t1) c ms"
        using r(2) by (auto simp: reseg_goes_def)
      moreover have "sdu_ends ?a (l # ls) m b \<inter> {?s<..?s + c} = sdu_ends (?a + l) ls m b \<inter> {?s<..?s + c}" for m b
        using pass by (auto simp: sdu_ends_def)
      ultimately have "reseg_part ?a (l # ls) (?a + l + sum_list ls + h) nf t (reseg_hidden h nf rest t1) c ms"
        unfolding reseg_part_def Let_def using ph by auto
      then show ?thesis by (auto simp: reseg_goes_def)
    qed
    then show ?thesis using step(1)[OF pass] r(1) Cons.prems(3) by (auto simp: add.assoc)
  next
    case stop
    then obtain t' where t': "reseg_step l t = Some t'" "\<not> rs_cont t'" "rs_lis t' = rs_lis t"
      "rs_copy t' = rs_copy t + min (rs_max t) ?n" "rs_nfi t' = rs_nfi t + of_bool (?n \<le> rs_max t)" using step(2) by blast
    have "reseg_goes ?a (l # ls) (?a + l + sum_list ls + h) nf t t'"
      unfolding reseg_goes_def reseg_part_def Let_def using stop t'(3-5) Cons.prems(2,4,6,8,12) l(3)
      by (intro exI[of _ "min (rs_max t) ?n"] exI[of _ "[]"]) (auto simp: sdu_ends_def dest: gt)
    moreover have "reseg_hidden h nf ls t' = t'" using t'(2) by (simp add: reseg_hidden_def)
    ultimately show ?thesis using t'(1,2) Cons.prems(3) by (auto simp: reseg_loop_stopped add.assoc)
  next
    case go
    let ?t = "t\<lparr>rs_lis := rs_lis t @ [?n], rs_sum := ?a + l, rs_copy := rs_copy t + ?n, rs_li_len := ?li,
      rs_rem := rs_rem t - ?n - ?li, rs_max := rs_max t - ?n - ?li, rs_start := ?a + l\<rparr>"
    have "\<exists>rest t1. reseg_loop ls ?t = Some (rest, t1) \<and>
        reseg_goes (rs_sum ?t) ls (rs_sum ?t + sum_list ls + h) nf ?t (reseg_hidden h nf rest t1)"
      by (rule Cons.IH) (use Cons.prems l li go in auto)
    then obtain rest t1 where r: "reseg_loop ls ?t = Some (rest, t1)"
      "reseg_goes (?a + l) ls (?a + l + sum_list ls + h) nf ?t (reseg_hidden h nf rest t1)" by auto
    obtain c ms where c: "rs_lis (reseg_hidden h nf rest t1) = rs_lis t @ ?n # ms" "rs_copy (reseg_hidden h nf rest t1) = rs_copy t + (?n + c)"
      "0 < c" "c + li_cost ?li (length ms) \<le> rs_max t - ?n - ?li" "?a + l + c \<le> ?a + l + sum_list ls + h" "length ms \<le> length ls"
      "\<forall>x\<in>set ms. 0 < x \<and> (\<exists>l\<in>set ls. x \<le> l)" "sum_list ms < c" "rs_nfi (reseg_hidden h nf rest t1) \<in> {0, 1, 2, 3}"
      "sdu_ends (?a + l) ms (?a + l + c) (odd (rs_nfi (reseg_hidden h nf rest t1))) =
        sdu_ends (?a + l) ls (?a + l + sum_list ls + h) (odd nf) \<inter> {?a + l<..?a + l + c}"
      "rs_nfi (reseg_hidden h nf rest t1) \<ge> 2 \<longleftrightarrow> rs_nfi t = 2"
      using r(2) unfolding reseg_goes_def reseg_part_def Let_def by (auto simp: add.assoc)
    have ends: "sdu_ends ?s (?n # ms) (?s + (?n + c)) b = insert (?a + l) (sdu_ends (?a + l) ms (?a + l + c) b)" for b
      by (simp add: sdu_ends_def add.assoc)
    have "sdu_ends ?s (?n # ms) (?s + (?n + c)) (odd (rs_nfi (reseg_hidden h nf rest t1))) =
        sdu_ends ?a (l # ls) (?a + l + sum_list ls + h) (odd nf) \<inter> {?s<..?s + (?n + c)}"
      unfolding ends c(10) using go(1) c(3) l(3) Cons.prems(2) by (auto simp: sdu_ends_def dest: gt)
    moreover have "?s \<notin> li_ends ?a (l # ls)" using go(1) by (auto dest: gt)
    ultimately have "reseg_goes ?a (l # ls) (?a + l + sum_list ls + h) nf t (reseg_hidden h nf rest t1)"
      unfolding reseg_goes_def reseg_part_def Let_def using c(1-9,11) go Cons.prems(6)
      by (intro exI[of _ "?n + c"] exI[of _ "?n # ms"]) auto
    then show ?thesis using step(3)[OF go] r(1) Cons.prems(3) by (auto simp: add.assoc)
  qed
qed

text \<open>The whole plan, for the hole from \<open>s\<close> to \<open>u\<close> of a PDU with \<open>n\<close> bytes of data.\<close>

definition reseg_planned :: "int list \<Rightarrow> int \<Rightarrow> int \<Rightarrow> int \<Rightarrow> int \<Rightarrow> int \<Rightarrow> reseg \<Rightarrow> bool" where
  "reseg_planned lis n nf s u room t \<longleftrightarrow> (let c = rs_copy t; ms = rs_lis t in
     0 < c \<and> s + c \<le> u + 1 \<and> c + li_cost 1 (length ms) \<le> room \<and> length ms \<le> length lis \<and>
     (\<forall>x\<in>set ms. 0 < x \<and> (\<exists>l\<in>set lis. x \<le> l)) \<and> sum_list ms < c \<and> rs_nfi t \<in> {0, 1, 2, 3} \<and>
     sdu_ends s ms (s + c) (odd (rs_nfi t)) = sdu_ends 0 lis n (odd nf) \<inter> {s<..s + c} \<and>
     (rs_nfi t \<ge> 2 \<longleftrightarrow> (if s = 0 then nf \<ge> 2 else s \<in> li_ends 0 lis)))"

lemma li_cost_nonneg: "0 \<le> li \<Longrightarrow> 0 \<le> li_cost li k"
  by (induction k arbitrary: li) auto

lemma reseg_plan_runs:
  assumes "\<forall>l\<in>set (pi_li_list i). 0 < l" "length (pi_li_list i) \<le> 32" "0 < pi_hidden_size i"
    "n = sum_list (pi_li_list i) + pi_hidden_size i" "0 \<le> s" "s \<le> u" "u < n" "0 < room" "nf \<in> {0, 1, 2, 3}"
  shows "\<exists>t. reseg_plan i nf s u n room = Some t \<and> reseg_planned (pi_li_list i) n nf s u room t"
proof -
  let ?lis = "pi_li_list i"
  define t where "t = reseg_cut \<lparr>rs_cont = True, rs_max = u - s + 1, rs_rem = room, rs_lis = [], rs_sum = 0,
    rs_nfi = (if s = 0 then nf AND 2 else 0), rs_start = s, rs_li_len = 1, rs_copy = 0\<rparr>"
  have nf2: "nf AND 2 = (if nf \<ge> 2 then 2 else 0)" using assms(9) by auto
  have t: "rs_cont t" "rs_lis t = []" "rs_sum t = 0" "rs_start t = s" "rs_li_len t = 1" "rs_copy t = 0" "0 < rs_max t"
    "rs_max t \<le> rs_rem t" "rs_max t \<le> u - s + 1" "rs_max t \<le> room" "rs_max t = min (u - s + 1) room"
    "rs_nfi t = (if s = 0 \<and> nf \<ge> 2 then 2 else 0)"
    using assms(6,8) nf2 by (auto simp: t_def reseg_cut_def)
  show ?thesis
  proof (cases "?lis = []")
    case False
    have "\<exists>rest t1. reseg_loop ?lis t = Some (rest, t1) \<and>
        reseg_goes (rs_sum t) ?lis (rs_sum t + sum_list ?lis + pi_hidden_size i) nf t (reseg_hidden (pi_hidden_size i) nf rest t1)"
      by (rule reseg_loop_goes) (use assms t in auto)
    then obtain rest t1 c ms where r: "reseg_loop ?lis t = Some (rest, t1)"
      "reseg_part 0 ?lis n nf t (reseg_hidden (pi_hidden_size i) nf rest t1) c ms"
      unfolding reseg_goes_def assms(4) using t(3) by auto
    have "0 \<notin> li_ends 0 ?lis" using li_ends_gt[OF assms(1)] by blast
    then have "reseg_planned ?lis n nf s u room (reseg_hidden (pi_hidden_size i) nf rest t1)"
      using r(2) t li_cost_nonneg[of 1 "length ms"] unfolding reseg_part_def reseg_planned_def Let_def by auto
    moreover have "reseg_plan i nf s u n room = Some (reseg_hidden (pi_hidden_size i) nf rest t1)"
      unfolding reseg_plan_def t_def[symmetric] using False r(1) assms(6,8) by simp
    ultimately show ?thesis by blast
  next
    case True
    let ?t = "t\<lparr>rs_copy := rs_max t, rs_nfi := (if u = s + rs_max t - 1 \<and> u = n - 1
             then (rs_nfi t AND 2) OR (nf AND 1) else rs_nfi t AND 2)\<rparr>"
    have nfi: "rs_nfi t \<in> {0, 2}" using t(12) by simp
    have "rs_nfi ?t = rs_nfi t + of_bool (s + rs_max t = n \<and> odd nf)"
      using assms(7,9) t(9) nfi nfi_bits(5)[OF nfi] by (auto simp: nfi_bits(1)[OF nfi] nfi_bits(4)[OF assms(9)])
    then have "reseg_planned ?lis n nf s u room ?t"
      using t True assms(7) unfolding reseg_planned_def Let_def by (auto simp: sdu_ends_def)
    moreover have "reseg_plan i nf s u n room = Some ?t"
      unfolding reseg_plan_def t_def[symmetric] using True assms(6,8) by simp
    ultimately show ?thesis by blast
  qed
qed

subsection \<open>The bytes of the segment\<close>

lemma length_sub_lis: "li_cost 1 (length ms) = int (length (sub_lis ms))"
  by (induction ms rule: sub_lis.induct) auto

lemma sub_lis_bytes: "\<forall>l\<in>set ms. 0 \<le> l \<and> l < 2048 \<Longrightarrow> sub_lis ms = li_bytes ms"
proof (induction ms rule: sub_lis.induct)
  case (2 l)
  then show ?case using li_first_bytes(1)[of l False] li_first_bytes(2)[of l] by simp
next
  case (3 l m ls)
  have l: "0 \<le> l mod 16" "l mod 16 < 16" by simp_all
  show ?case using 3 li_first_bytes(1)[of l True] li_first_bytes(2)[of l] li_second_bytes(1)[of m "l mod 16" "ls \<noteq> []"]
      li_second_bytes(2)[of m 0] l by auto
qed simp

lemma sub_first_byte_eq:
  assumes "q \<in> {0, 1 :: int}" "fi \<in> {0, 1, 2, 3}" "x \<in> {0, 1}" "h \<in> {0, 1, 2, 3}" "rs_nfi t \<in> {0, 1, 2, 3}"
  shows "sub_first_byte (word_of_int (128 + 32 * q + 8 * fi + 4 * x + h)) t =
      word_of_int (128 + 64 + 8 * (3 - rs_nfi t) + 4 * of_bool (rs_lis t \<noteq> []) + h)"
    "uint (drop_bit 3 ((word_of_int (128 + 32 * q + 8 * fi + 4 * x + h) :: byte) AND 0x18)) XOR 3 = 3 - fi"
proof -
  have a: "(word_of_int (128 + 32 * q + 8 * fi + 4 * x + h) :: byte) AND 0x83 = word_of_int (128 + h)"
    using assms(1-4) by auto
  have b: "(push_bit 3 (rs_nfi t) XOR 0x18) AND 0x18 = 8 * (3 - rs_nfi t)" using assms(5) by auto
  show "sub_first_byte (word_of_int (128 + 32 * q + 8 * fi + 4 * x + h)) t =
      word_of_int (128 + 64 + 8 * (3 - rs_nfi t) + 4 * of_bool (rs_lis t \<noteq> []) + h)"
    unfolding sub_first_byte_def a b Let_def using assms(4,5) by auto
  show "uint (drop_bit 3 ((word_of_int (128 + 32 * q + 8 * fi + 4 * x + h) :: byte) AND 0x18)) XOR 3 = 3 - fi"
    using assms(1-4) by auto
qed

subsection \<open>Taking bytes from the first hole\<close>

text \<open>The bytes to retransmit are those of the first hole; \<open>u\<close> is its last byte within the data.\<close>

definition front_hole :: "rlc_am_tx_data_pdu_management \<Rightarrow> int \<Rightarrow> bool" where
  "front_hole p u \<longleftrightarrow> 0 \<le> txp_nack_so_start p \<and> txp_nack_so_start p \<le> u \<and> u < txp_payload_size p \<and> txp_payload_size p < 32768 \<and>
     (if txp_num_holes p = 0 then u = (if txp_nack_so_stop p = 0x7FFF then txp_payload_size p - 1 else txp_nack_so_stop p)
      else holes_ok p \<and> u = txp_hole_so_stop p 0)"

text \<open>Only the holes of a PDU change.\<close>

definition without_holes :: "rlc_am_tx_data_pdu_management \<Rightarrow> rlc_am_tx_data_pdu_management" where
  "without_holes p = p\<lparr>txp_hole_so_start := (\<lambda>_. 0), txp_hole_so_stop := (\<lambda>_. 0), txp_num_holes := 0,
     txp_nack_so_start := 0, txp_nack_so_stop := 0\<rparr>"

definition holes_changed :: "rlc_am_tx_data_pdu_management \<Rightarrow> rlc_am_tx_data_pdu_management \<Rightarrow> bool" where
  "holes_changed p q \<longleftrightarrow> without_holes q = without_holes p"

lemma without_holes_simps [simp]:
  "without_holes (p\<lparr>txp_hole_so_start := a\<rparr>) = without_holes p" "without_holes (p\<lparr>txp_hole_so_stop := a\<rparr>) = without_holes p"
  "without_holes (p\<lparr>txp_num_holes := n\<rparr>) = without_holes p" "without_holes (p\<lparr>txp_nack_so_start := n\<rparr>) = without_holes p"
  "without_holes (p\<lparr>txp_nack_so_stop := n\<rparr>) = without_holes p" "without_holes (update_nack_range p) = without_holes p"
  by (simp_all add: without_holes_def update_nack_range_def)

lemma holes_changed_simps:
  assumes "holes_changed p q"
  shows "txp_mem_block q = txp_mem_block p" "txp_retransmit q = txp_retransmit p" "txp_payload_size q = txp_payload_size p"
    "txp_payload q = txp_payload p" "txp_header_and_payload_size q = txp_header_and_payload_size p"
proof -
  have e: "f (without_holes q) = f (without_holes p)" for f :: "rlc_am_tx_data_pdu_management \<Rightarrow> 'a"
    using assms by (simp add: holes_changed_def)
  show "txp_mem_block q = txp_mem_block p" "txp_retransmit q = txp_retransmit p" "txp_payload_size q = txp_payload_size p"
    "txp_payload q = txp_payload p" "txp_header_and_payload_size q = txp_header_and_payload_size p"
    using e[of txp_mem_block] e[of txp_retransmit] e[of txp_payload_size] e[of txp_payload] e[of txp_header_and_payload_size]
    by (simp_all add: without_holes_def)
qed

definition known_stop :: "rlc_am_tx_data_pdu_management \<Rightarrow> rlc_am_tx_data_pdu_management" where
  "known_stop p = (if txp_nack_so_stop p = 0x7FFF then p\<lparr>txp_nack_so_stop := txp_payload_size p - 1\<rparr> else p)"

lemma known_stop_simps [simp]:
  "txp_num_holes (known_stop p) = txp_num_holes p" "txp_nack_so_start (known_stop p) = txp_nack_so_start p"
  "txp_payload_size (known_stop p) = txp_payload_size p" "txp_hole_so_start (known_stop p) = txp_hole_so_start p"
  "txp_hole_so_stop (known_stop p) = txp_hole_so_stop p" "txp_mem_block (known_stop p) = txp_mem_block p"
  "txp_payload (known_stop p) = txp_payload p" "txp_retransmit (known_stop p) = txp_retransmit p"
  by (simp_all add: known_stop_def)

lemma front_holesD:
  assumes "front_hole p u" "txp_num_holes p \<noteq> 0"
  shows "holes_ok p" "0 < txp_num_holes p" "txp_nack_so_start p = txp_hole_so_start p 0" "u = txp_hole_so_stop p 0" "known_stop p = p"
proof -
  show h: "holes_ok p" "u = txp_hole_so_stop p 0" using assms by (simp_all add: front_hole_def)
  show n: "0 < txp_num_holes p" using h(1) assms(2) unfolding holes_ok_def by linarith
  then have r: "txp_nack_so_start p = txp_hole_so_start p 0" "txp_nack_so_stop p = txp_hole_so_stop p (txp_num_holes p - 1)"
    "txp_hole_so_stop p (txp_num_holes p - 1) < txp_payload_size p" using h(1) unfolding holes_ok_def by auto
  show "txp_nack_so_start p = txp_hole_so_start p 0" by (rule r(1))
  have "txp_nack_so_stop p \<noteq> 0x7FFF" using r(2,3) assms(1) unfolding front_hole_def by linarith
  then show "known_stop p = p" by (simp add: known_stop_def)
qed

lemma front_hole_next:
  assumes "front_hole p u"
  shows "get_next_hole_pdu (known_stop p) = (txp_nack_so_start p, u)"
proof (cases "txp_num_holes p = 0")
  case True
  then show ?thesis using assms by (simp add: front_hole_def get_next_hole_pdu_def known_stop_def)
next
  case False
  note f = front_holesD[OF assms False]
  show ?thesis unfolding f(5) using False f(3,4) by (simp add: get_next_hole_pdu_def)
qed

lemma remove_front:
  assumes "front_hole p u" "txp_nack_so_start p \<le> v" "v \<le> u" "q = known_stop p \<or> q = (known_stop p)\<lparr>txp_retransmit := r\<rparr>"
  shows "\<exists>p'. remove_hole_pdu (txp_nack_so_start p) v q = Some p' \<and> holes_changed q p' \<and>
    (pending_bytes p \<inter> {0..<txp_payload_size p}) - {txp_nack_so_start p..v} \<subseteq> pending_bytes p'"
proof -
  let ?s = "txp_nack_so_start p"
  have q: "txp_num_holes q = txp_num_holes p" "txp_nack_so_start q = ?s" "txp_nack_so_stop q = txp_nack_so_stop (known_stop p)"
    "txp_payload_size q = txp_payload_size p" "txp_hole_so_start q = txp_hole_so_start p" "txp_hole_so_stop q = txp_hole_so_stop p"
    using assms(4) by auto
  have pend: "pending_bytes p \<inter> {0..<txp_payload_size p} \<subseteq> pending_bytes q"
    using q by (auto simp: pending_bytes_def known_stop_def hole_bytes_def split: if_splits)
  have ex: "\<exists>p'. remove_hole_pdu ?s v q = Some p' \<and> holes_changed q p'"
  proof (cases "txp_num_holes p = 0")
    case True
    have "txp_nack_so_stop q = u" using assms(1) True q(3) by (auto simp: front_hole_def known_stop_def)
    then show ?thesis using True q assms(1-3)
      by (auto simp: remove_hole_pdu_def front_hole_def holes_changed_def Let_def)
  next
    case False
    note f = front_holesD[OF assms(1) False]
    have "holes_ok q" using assms(4) f(1) unfolding f(5) by (auto simp: holes_ok_def)
    moreover have "0 < txp_payload_size q" using assms(1) q(4) by (simp add: front_hole_def)
    ultimately have h: "holes_ok q" "0 < txp_num_holes q" "txp_hole_so_start q 0 = ?s" "txp_hole_so_stop q 0 = u" "0 < txp_payload_size q"
      using f(2-4) q by simp_all
    let ?d = "shift_down_holes_pdu 0 q"
    have d: "txp_num_holes ?d = txp_num_holes q - 1" "1 < txp_num_holes q \<Longrightarrow> txp_hole_so_start ?d 0 = txp_hole_so_start q 1"
      "1 < txp_num_holes q \<Longrightarrow> txp_hole_so_stop ?d 0 = txp_hole_so_stop q 1" "txp_payload_size ?d = txp_payload_size q"
      "holes_changed q ?d"
      by (auto simp: shift_down_holes_pdu_def Let_def shift_down_loop_eq holes_changed_def)
    show ?thesis
    proof (cases "v < u")
      case True
      have "remove_hole_loop 0 ?s v q = Some (True, update_nack_range (q\<lparr>txp_hole_so_start := (txp_hole_so_start q)(0 := v)\<rparr>))"
        using h True by (subst remove_hole_loop.simps) simp
      then show ?thesis using h assms(2)
        by (auto simp: remove_hole_pdu_def update_nack_range_def holes_changed_def)
    next
      case False
      have one: "remove_hole_loop 0 ?s v q = remove_hole_loop 0 ?s v ?d"
        using h False by (subst remove_hole_loop.simps) simp
      show ?thesis
      proof (cases "txp_num_holes q = 1")
        case True
        then have "remove_hole_loop 0 ?s v ?d = Some (False, ?d)" using d(1) by (subst remove_hole_loop.simps) simp
        then show ?thesis using one h assms(2) d True
          by (auto simp: remove_hole_pdu_def update_nack_range_def holes_changed_def Let_def)
      next
        case more: False
        then have m: "1 < txp_num_holes q" "u < txp_hole_so_start q 1" "txp_hole_so_start q 1 \<le> txp_hole_so_stop q 1"
          using h(1,2,4) by (auto simp: holes_ok_def dest: bspec[of _ _ 1])
        have "remove_hole_loop 0 ?s v ?d = Some (True, update_nack_range (?d\<lparr>txp_hole_so_start := (txp_hole_so_start ?d)(0 := v)\<rparr>))"
          using m d(1) d(2,3)[OF m(1)] assms(1,3) by (subst remove_hole_loop.simps) (auto simp: front_hole_def)
        then show ?thesis using one h assms(2) d(1,5)
          by (auto simp: remove_hole_pdu_def update_nack_range_def holes_changed_def)
      qed
    qed
  qed
  moreover have "txp_num_holes q = 0 \<Longrightarrow> 0 \<le> txp_nack_so_start q \<and> txp_nack_so_stop q \<le> 0x7FFF"
    using assms(1) q by (auto simp: front_hole_def known_stop_def split: if_splits)
  ultimately show ?thesis using remove_hole_pdu_keeps pend by blast
qed

subsection \<open>A segment is a part of the PDU\<close>

text \<open>The slot \<open>p\<close> holds the PDU with number \<open>sn\<close> that decodes to \<open>i\<close>.\<close>

definition stored_pdu :: "rlc_am_tx_data_pdu_management \<Rightarrow> int \<Rightarrow> rlc_am_pdu_info \<Rightarrow> bool" where
  "stored_pdu p sn i \<longleftrightarrow> txp_mem_block p = Some \<lparr>tb_size = pi_header_size i + pi_payload_size i, tb_data = header_bytes i @ pi_payload i\<rparr> \<and> header_ok i \<and>
     pi_rf i = 0 \<and> pi_sn i = sn \<and> (\<forall>l\<in>set (pi_li_list i). 0 < l) \<and> txp_payload p = nat (pi_header_size i) \<and>
     txp_payload_size p = pi_payload_size i \<and> txp_header_and_payload_size p = pi_header_size i + pi_payload_size i"

definition info_ends :: "rlc_am_pdu_info \<Rightarrow> int set" where
  "info_ends i = sdu_ends 0 (pi_li_list i) (pi_payload_size i) (pi_fi i = 0 \<or> pi_fi i = 2)"

definition info_starts :: "rlc_am_pdu_info \<Rightarrow> bool" where
  "info_starts i \<longleftrightarrow> pi_fi i = 0 \<or> pi_fi i = 1"

text \<open>
  The segment \<open>j\<close> carries \<open>c\<close> bytes of \<open>i\<close> from offset \<open>s\<close> on, says so, tells whether it is the last
  one, and SDUs begin and end in it where they do in \<open>i\<close>.
\<close>

definition part_of :: "rlc_am_pdu_info \<Rightarrow> int \<Rightarrow> int \<Rightarrow> rlc_am_pdu_info \<Rightarrow> bool" where
  "part_of i s c j \<longleftrightarrow> pi_rf j = 1 \<and> pi_sn j = pi_sn i \<and> pi_so j = s \<and> pi_payload_size j = c \<and>
     pi_payload j = take (nat c) (drop (nat s) (pi_payload i)) \<and> pi_lsf j = of_bool (s + c = pi_payload_size i) \<and>
     (\<forall>l\<in>set (pi_li_list j). 0 < l) \<and> (\<lambda>x. s + x) ` info_ends j = info_ends i \<inter> {s<..s + c} \<and>
     (info_starts j \<longleftrightarrow> (if s = 0 then info_starts i else s \<in> info_ends i))"

definition part_info :: "rlc_am_pdu_info \<Rightarrow> int \<Rightarrow> int \<Rightarrow> reseg \<Rightarrow> rlc_am_pdu_info" where
  "part_info i s q t = \<lparr>pi_d_c = 1, pi_rf = 1, pi_p = q, pi_fi = 3 - rs_nfi t, pi_e = of_bool (rs_lis t \<noteq> []), pi_sn = pi_sn i,
     pi_lsf = of_bool (s + rs_copy t = pi_payload_size i), pi_so = s, pi_li_list = rs_lis t,
     pi_hidden_size = rs_copy t - sum_list (rs_lis t), pi_payload = take (nat (rs_copy t)) (drop (nat s) (pi_payload i)),
     pi_payload_size = rs_copy t, pi_header_size = 4 + int (length (li_bytes (rs_lis t)))\<rparr>"

lemma shift_ends: "(\<lambda>x. s + x) ` sdu_ends a ls n b = sdu_ends (s + a) ls (s + n) b"
proof -
  have "(\<lambda>x. s + x) ` li_ends a ls = li_ends (s + a) ls" for a
    by (induction ls arbitrary: a) (auto simp: add.assoc)
  then show ?thesis by (auto simp: sdu_ends_def image_Un)
qed

lemma part_info_part:
  assumes "header_ok i" "\<forall>l\<in>set (pi_li_list i). 0 < l" "reseg_planned (pi_li_list i) (pi_payload_size i) (3 - pi_fi i) s u room t"
    "0 \<le> s" "u < pi_payload_size i" "room < 32764" "q \<in> {0, 1}"
  shows "header_ok (part_info i s q t)" "part_of i s (rs_copy t) (part_info i s q t)"
proof -
  have r: "0 < rs_copy t" "s + rs_copy t \<le> u + 1" "rs_copy t + li_cost 1 (length (rs_lis t)) \<le> room" "length (rs_lis t) \<le> length (pi_li_list i)"
    "\<forall>x\<in>set (rs_lis t). 0 < x \<and> (\<exists>l\<in>set (pi_li_list i). x \<le> l)" "sum_list (rs_lis t) < rs_copy t" "rs_nfi t \<in> {0, 1, 2, 3}"
    "sdu_ends s (rs_lis t) (s + rs_copy t) (odd (rs_nfi t)) = sdu_ends 0 (pi_li_list i) (pi_payload_size i) (odd (3 - pi_fi i)) \<inter> {s<..s + rs_copy t}"
    "rs_nfi t \<ge> 2 \<longleftrightarrow> (if s = 0 then 3 - pi_fi i \<ge> 2 else s \<in> li_ends 0 (pi_li_list i))"
    using assms(3) by (simp_all add: reseg_planned_def Let_def)
  have i: "pi_fi i \<in> {0, 1, 2, 3}" "length (pi_li_list i) \<le> 32" "\<forall>l\<in>set (pi_li_list i). l < 2048" "0 \<le> pi_sn i" "pi_sn i < 1024"
    "pi_payload_size i = int (length (pi_payload i))" "pi_payload_size i < 32768"
    using assms(1) by (auto simp: header_ok_def)
  have lis: "\<forall>x\<in>set (rs_lis t). 0 \<le> x \<and> x < 2048" using r(5) i(3) by fastforce
  have len: "int (length (take (nat (rs_copy t)) (drop (nat s) (pi_payload i)))) = rs_copy t"
    using r(1,2) assms(4,5) i(6) by simp
  have cost: "li_cost 1 (length (rs_lis t)) = int (length (li_bytes (rs_lis t)))" using sub_lis_bytes[OF lis] length_sub_lis[of "rs_lis t"] by simp
  show "header_ok (part_info i s q t)"
    unfolding header_ok_def using r(1,2,3,4,6,7) i lis len cost assms(4-7) by (auto simp: part_info_def header_bytes_def)
  have odd: "odd (3 - pi_fi i) \<longleftrightarrow> pi_fi i = 0 \<or> pi_fi i = 2" "odd (rs_nfi t) \<longleftrightarrow> 3 - rs_nfi t = 0 \<or> 3 - rs_nfi t = 2"
    "3 - pi_fi i \<ge> 2 \<longleftrightarrow> info_starts i" "rs_nfi t \<ge> 2 \<longleftrightarrow> info_starts (part_info i s q t)"
    using i(1) r(7) by (auto simp: info_starts_def part_info_def)
  have "(\<lambda>x. s + x) ` info_ends (part_info i s q t) = info_ends i \<inter> {s<..s + rs_copy t}"
    using r(8) unfolding info_ends_def shift_ends odd by (simp add: part_info_def)
  moreover have "s \<in> li_ends 0 (pi_li_list i) \<longleftrightarrow> s \<in> info_ends i"
    using r(1,2) assms(5) by (auto simp: info_ends_def sdu_ends_def)
  ultimately show "part_of i s (rs_copy t) (part_info i s q t)"
    unfolding part_of_def using r(5,9) odd(3,4) by (auto simp: part_info_def)
qed

lemma offset_bytes:
  assumes "0 \<le> s" "s < 32768"
  shows "(if b then (word_of_int (drop_bit 8 s) :: byte) OR 0x80 else word_of_int (drop_bit 8 s)) = word_of_int (128 * of_bool b + s div 256)"
    "(word_of_int (s AND 0xFF) :: byte) = word_of_int (s mod 256)"
proof -
  have "0 \<le> s div 256" "s div 256 < 2 ^ 7" using assms by auto
  from byte_or_add[OF this, of 1] show
    "(if b then (word_of_int (drop_bit 8 s) :: byte) OR 0x80 else word_of_int (drop_bit 8 s)) = word_of_int (128 * of_bool b + s div 256)"
    by (simp add: drop_bit_eq_div or.commute add.commute)
  show "(word_of_int (s AND 0xFF) :: byte) = word_of_int (s mod 256)" using and_mask_mod[of s 8] by simp
qed

lemma poll_segment_byte:
  assumes "fi \<in> {0, 1, 2, 3 :: int}" "x \<in> {0, 1}" "h \<in> {0, 1, 2, 3}"
  shows "(word_of_int (128 + 64 + 8 * fi + 4 * x + h) :: byte) OR 0x20 = word_of_int (128 + 64 * 1 + 32 * 1 + 8 * fi + 4 * x + h)"
    "(word_of_int (128 + 64 + 8 * fi + 4 * x + h) :: byte) AND 0xDF = word_of_int (128 + 64 * 1 + 32 * 0 + 8 * fi + 4 * x + h)"
  using assms by auto

text \<open>What retransmitting a part leaves in the slot.\<close>

definition part_sent :: "rlc_am_tx_data_pdu_management \<Rightarrow> int \<Rightarrow> int \<Rightarrow> rlc_am_tx_data_pdu_management \<Rightarrow> bool" where
  "part_sent p s c p' \<longleftrightarrow> txp_mem_block p' = txp_mem_block p \<and> txp_payload p' = txp_payload p \<and> txp_payload_size p' = txp_payload_size p \<and>
     txp_header_and_payload_size p' = txp_header_and_payload_size p \<and>
     (txp_retransmit p' \<longleftrightarrow> txp_retransmit p \<and> s + c \<noteq> txp_payload_size p) \<and>
     (pending_bytes p \<inter> {0..<txp_payload_size p}) - {s..<s + c} \<subseteq> pending_bytes p'"

lemma remove_front_sent:
  assumes "front_hole (pdu_retrans_buffer e sn) u" "s = txp_nack_so_start (pdu_retrans_buffer e sn)" "0 < c" "s + c \<le> u + 1"
    "e1 = upd_pdu sn known_stop e"
    "e2 = (if c + s = txp_payload_size (pdu_retrans_buffer e1 sn) then upd_pdu sn (\<lambda>p. p\<lparr>txp_retransmit := False\<rparr>) e1 else e1)"
  shows "\<exists>e3 p'. rlc_am_remove_hole e2 f sn s (c + s - 1) = Some e3 \<and>
    e3 = e\<lparr>pdu_retrans_buffer := (pdu_retrans_buffer e)(sn := p')\<rparr> \<and> part_sent (pdu_retrans_buffer e sn) s c p'"
proof -
  let ?p = "pdu_retrans_buffer e sn"
  let ?q = "if c + s = txp_payload_size ?p then (known_stop ?p)\<lparr>txp_retransmit := False\<rparr> else known_stop ?p"
  have e2: "e2 = e\<lparr>pdu_retrans_buffer := (pdu_retrans_buffer e)(sn := ?q)\<rparr>" using assms(5,6) by simp
  have lo: "txp_nack_so_start ?p \<le> c + s - 1" and hi: "c + s - 1 \<le> u" using assms(2-4) by simp_all
  have qs: "?q = known_stop ?p \<or> ?q = (known_stop ?p)\<lparr>txp_retransmit := False\<rparr>" by simp
  obtain p' where r: "remove_hole_pdu s (c + s - 1) ?q = Some p'" "holes_changed ?q p'"
    "(pending_bytes ?p \<inter> {0..<txp_payload_size ?p}) - {s..c + s - 1} \<subseteq> pending_bytes p'"
    using remove_front[OF assms(1) lo hi qs, folded assms(2)] by blast
  have "txp_header_and_payload_size ?q = txp_header_and_payload_size ?p" by (simp add: known_stop_def)
  moreover have "{s..c + s - 1} = {s..<s + c}" by auto
  moreover have "txp_retransmit ?q \<longleftrightarrow> txp_retransmit ?p \<and> s + c \<noteq> txp_payload_size ?p" by (simp add: add.commute)
  moreover have "txp_mem_block ?q = txp_mem_block ?p" "txp_payload ?q = txp_payload ?p" "txp_payload_size ?q = txp_payload_size ?p" by simp_all
  ultimately have "part_sent ?p s c p'" unfolding part_sent_def using r(3) holes_changed_simps[OF r(2)] by (simp only:)
  moreover have "rlc_am_remove_hole e2 f sn s (c + s - 1) = Some (e\<lparr>pdu_retrans_buffer := (pdu_retrans_buffer e)(sn := p')\<rparr>)"
    unfolding rlc_am_remove_hole_def e2 using r(1) by simp
  ultimately show ?thesis by blast
qed

lemma subsegment_run:
  assumes "stored_pdu (pdu_retrans_buffer e sn) sn i" "front_hole (pdu_retrans_buffer e sn) u" "4 < room" "room < 32768"
    "s = txp_nack_so_start (pdu_retrans_buffer e sn)"
  shows "\<exists>tb e' j c p'. rlc_am_retransmit_get_subsegment e f sn room = Some (Some tb, room - tb_size tb, e') \<and>
    tb_data tb = header_bytes j @ pi_payload j \<and> tb_size tb = pi_header_size j + pi_payload_size j \<and> tb_size tb \<le> room \<and>
    header_ok j \<and> 0 < c \<and> s + c \<le> u + 1 \<and> part_of i s c j \<and> pdu_retrans_buffer e' = (pdu_retrans_buffer e)(sn := p') \<and>
    part_sent (pdu_retrans_buffer e sn) s c p' \<and>
    (\<exists>x y z v. e' = e\<lparr>pdu_retrans_buffer := (pdu_retrans_buffer e)(sn := p'), c_pdu_without_poll := x, c_byte_without_poll := y,
       poll_sn := z, t_poll_retransmit := v\<rparr>)"
proof -
  let ?p = "pdu_retrans_buffer e sn"
  obtain mb where mb: "txp_mem_block ?p = Some mb" "tb_data mb = header_bytes i @ pi_payload i" using assms(1) by (auto simp: stored_pdu_def)
  have st: "header_ok i" "pi_rf i = 0" "pi_sn i = sn" "\<forall>l\<in>set (pi_li_list i). 0 < l" "txp_payload ?p = nat (pi_header_size i)"
    "txp_payload_size ?p = pi_payload_size i" "txp_header_and_payload_size ?p = pi_header_size i + pi_payload_size i"
    using assms(1) by (auto simp: stored_pdu_def)
  have i: "pi_fi i \<in> {0, 1, 2, 3}" "pi_p i \<in> {0, 1}" "pi_e i \<in> {0, 1}" "length (pi_li_list i) \<le> 32" "0 < pi_hidden_size i"
    "pi_payload_size i = sum_list (pi_li_list i) + pi_hidden_size i" "0 \<le> sn" "sn < 1024" "pi_header_size i = int (length (header_bytes i))"
    "pi_payload_size i = int (length (pi_payload i))" "pi_payload_size i < 32768"
    using st(1,3) by (auto simp: header_ok_def)
  have h: "sn div 256 \<in> {0, 1, 2, 3}" by (rule sn_high[OF i(7,8)])
  have b: "tb_data mb ! 0 = word_of_int (128 + 32 * pi_p i + 8 * pi_fi i + 4 * pi_e i + sn div 256)" "tb_data mb ! 1 = word_of_int (sn mod 256)"
    using st(2,3) by (auto simp: mb(2) header_bytes_def)
  have u: "0 \<le> s" "s \<le> u" "u < pi_payload_size i" using assms(2,5) st(6) by (auto simp: front_hole_def)
  have nf: "3 - pi_fi i \<in> {0, 1, 2, 3}" using i(1) by auto
  have pos: "0 < room - 4" using assms(3) by simp
  obtain t where t: "reseg_plan i (3 - pi_fi i) s u (pi_payload_size i) (room - 4) = Some t"
    "reseg_planned (pi_li_list i) (pi_payload_size i) (3 - pi_fi i) s u (room - 4) t"
    using reseg_plan_runs[OF st(4) i(4,5,6) u pos nf] by blast
  have r: "0 < rs_copy t" "s + rs_copy t \<le> u + 1" "rs_copy t + int (length (sub_lis (rs_lis t))) \<le> room - 4"
    "rs_nfi t \<in> {0, 1, 2, 3}" "\<forall>x\<in>set (rs_lis t). 0 < x \<and> (\<exists>l\<in>set (pi_li_list i). x \<le> l)"
    using t(2) length_sub_lis[of "rs_lis t"] by (simp_all add: reseg_planned_def Let_def)
  have "\<forall>x\<in>set (rs_lis t). 0 \<le> x \<and> x < 2048" using r(5) st(1) by (fastforce simp: header_ok_def)
  note lis = sub_lis_bytes[OF this]
  define e1 where "e1 = upd_pdu sn known_stop e"
  have e1: "(if txp_nack_so_stop ?p = 0x7FFF then upd_pdu sn (\<lambda>p. p\<lparr>txp_nack_so_stop := txp_payload_size p - 1\<rparr>) e else e) = e1"
    by (simp add: e1_def known_stop_def)
  define e2 where "e2 = (if rs_copy t + s = txp_payload_size (pdu_retrans_buffer e1 sn)
    then upd_pdu sn (\<lambda>p. p\<lparr>txp_retransmit := False\<rparr>) e1 else e1)"
  obtain e3 p' where e3: "rlc_am_remove_hole e2 f sn s (rs_copy t + s - 1) = Some e3"
    "e3 = e\<lparr>pdu_retrans_buffer := (pdu_retrans_buffer e)(sn := p')\<rparr>" "part_sent ?p s (rs_copy t) p'"
    using remove_front_sent[OF assms(2,5) r(1,2) e1_def e2_def, of f] by blast
  note first = sub_first_byte_eq[OF i(2,1,3) h r(4)]
  obtain e4 b1 where pl: "rlc_am_pdu_polling e3 f (sub_first_byte (tb_data mb ! 0) t) (rs_copy t) = (e4, b1)" by fastforce
  have "3 - rs_nfi t \<in> {0, 1, 2, 3}" "of_bool (rs_lis t \<noteq> []) \<in> {0, 1 :: int}" using r(4) by auto
  note pb = poll_segment_byte[OF this h]
  obtain q where q: "q \<in> {0, 1 :: int}"
    "b1 = word_of_int (128 + 64 * 1 + 32 * q + 8 * (3 - rs_nfi t) + 4 * of_bool (rs_lis t \<noteq> []) + sn div 256)"
    using pdu_polling_frame(2)[OF pl] unfolding b(1) first(1) pb by blast
  let ?j = "part_info i s q t"
  have j: "header_ok ?j" "part_of i s (rs_copy t) ?j"
    using part_info_part[OF st(1,4) t(2) u(1,3) _ q(1)] assms(4) by auto
  let ?tb = "\<lparr>tb_size = 4 + int (length (sub_lis (rs_lis t))) + rs_copy t, tb_data = [b1, tb_data mb ! 1,
      if rs_copy t + s = pi_payload_size i then word_of_int (drop_bit 8 s) OR 0x80 else word_of_int (drop_bit 8 s), word_of_int (s AND 0xFF)] @
      sub_lis (rs_lis t) @ take (nat (rs_copy t)) (drop (nat (pi_header_size i + s)) (tb_data mb))\<rparr>"
  have hole: "rlc_am_get_next_hole e1 f sn = (s, u)" using front_hole_next[OF assms(2)] assms(5) by (simp add: rlc_am_get_next_hole_def e1_def)
  have "s < 32768" using u i(11) by simp
  note ob = offset_bytes[OF u(1) this]
  have d: "drop (nat (pi_header_size i + s)) (tb_data mb) = drop (nat s) (pi_payload i)"
    unfolding mb(2) using i(9) u(1) by (simp add: nat_add_distrib)
  have "tb_data ?tb = header_bytes ?j @ pi_payload ?j"
    unfolding lis d ob by (simp add: header_bytes_def part_info_def q(2) b(2)[simplified] st(3) add.commute)
  moreover have "tb_size ?tb = pi_header_size ?j + pi_payload_size ?j" by (simp add: part_info_def lis)
  moreover have "rlc_am_retransmit_get_subsegment e f sn room = Some (Some ?tb, room - tb_size ?tb, e4)"
  proof -
    have fr: "txp_payload_size (pdu_retrans_buffer e1 sn) = pi_payload_size i" "txp_payload (pdu_retrans_buffer e1 sn) = nat (pi_header_size i)"
      using st(5,6) by (simp_all add: e1_def)
    have inb: "0 \<le> int (nat (pi_header_size i)) + s" "0 \<le> rs_copy t"
      "int (nat (pi_header_size i)) + s + rs_copy t \<le> int (length (tb_data mb))" "4 + int (length (sub_lis (rs_lis t))) + rs_copy t \<le> room"
      using r(1-3) u i(9,10) by (simp_all add: mb(2))
    have dec: "rlc_am_get_data_pdu_infos (tb_data mb) (txp_header_and_payload_size ?p) = Some (0, i)"
      unfolding mb(2) st(7) by (rule decode_header_bytes[OF st(1)])
    have hs: "int (nat (pi_header_size i)) = pi_header_size i" using i(9) by simp
    have e3': "rlc_am_remove_hole (if rs_copy t + s = pi_payload_size i then upd_pdu sn (\<lambda>p. p\<lparr>txp_retransmit := False\<rparr>) e1 else e1)
        f sn s (rs_copy t + s - 1) = Some e3" using e3(1) unfolding e2_def fr(1) .
    have nfx: "uint (drop_bit 3 (tb_data mb ! 0 AND 0x18)) XOR 3 = 3 - pi_fi i" unfolding b(1) by (rule first(2))
    show ?thesis unfolding rlc_am_retransmit_get_subsegment_def mb(1) option.case dec bind.bind_lunit prod.case e1 Let_def hole fr hs
        nfx t(1) using inb[unfolded hs] e3' pl
      by (simp add: assms(5)[symmetric])
  qed
  moreover have "\<exists>x y z v. e4 = e3\<lparr>c_pdu_without_poll := x, c_byte_without_poll := y, poll_sn := z, t_poll_retransmit := v\<rparr>"
    by (rule pdu_polling_frame(1)[OF pl])
  ultimately show ?thesis using j r(1-3) e3(2,3)
    by (intro exI[of _ ?tb] exI[of _ e4] exI[of _ ?j] exI[of _ "rs_copy t"] exI[of _ p']) auto
qed

text \<open>
  (C17) Retransmitting a part of a PDU. Let a slot hold a PDU, well framed and with positive length indicators, whose first hole lies within the data. For
  every grant of more than four and less than 32768 bytes the code builds a segment that fits the grant: it decodes to the
  number of the PDU, the offset of the hole and the bytes of the PDU from there on, at least one and not
  beyond the hole; it is marked as the last one exactly when it reaches the end of the data, and SDUs
  begin and end in it where they do in the PDU. The bytes not sent stay pending, the stored PDU is
  kept, the rest of the buffer is unchanged and no assertion fails.
\<close>

theorem subsegment_is_part:
  assumes "stored_pdu (pdu_retrans_buffer e sn) sn i" "front_hole (pdu_retrans_buffer e sn) u" "4 < room" "room < 32768"
    "s = txp_nack_so_start (pdu_retrans_buffer e sn)"
  shows "\<exists>tb e' j c p'. rlc_am_retransmit_get_subsegment e f sn room = Some (Some tb, room - tb_size tb, e') \<and>
    tb_size tb \<le> room \<and> rlc_am_get_data_pdu_infos (tb_data tb) (tb_size tb) = Some (0, j) \<and>
    0 < c \<and> s + c \<le> u + 1 \<and> part_of i s c j \<and> pdu_retrans_buffer e' = (pdu_retrans_buffer e)(sn := p') \<and>
    part_sent (pdu_retrans_buffer e sn) s c p'"
proof -
  obtain tb e' j c p' where r: "rlc_am_retransmit_get_subsegment e f sn room = Some (Some tb, room - tb_size tb, e')"
    "tb_data tb = header_bytes j @ pi_payload j" "tb_size tb = pi_header_size j + pi_payload_size j" "tb_size tb \<le> room"
    "header_ok j" "0 < c" "s + c \<le> u + 1" "part_of i s c j" "pdu_retrans_buffer e' = (pdu_retrans_buffer e)(sn := p')"
    "part_sent (pdu_retrans_buffer e sn) s c p'"
    using subsegment_run[OF assms, of f] by blast
  have "rlc_am_get_data_pdu_infos (tb_data tb) (tb_size tb) = Some (0, j)"
    unfolding r(2,3) by (rule decode_header_bytes[OF r(5)])
  then show ?thesis using r by (intro exI[of _ tb] exI[of _ e'] exI[of _ j] exI[of _ c] exI[of _ p']) simp
qed

text \<open>A PDU of two whole SDUs and the beginning of a third, with eight bytes granted.\<close>

definition part_example_info :: rlc_am_pdu_info where
  "part_example_info = \<lparr>pi_d_c = 1, pi_rf = 0, pi_p = 0, pi_fi = 1, pi_e = 1, pi_sn = 7, pi_lsf = 0, pi_so = 0,
     pi_li_list = [3, 2], pi_hidden_size = 1, pi_payload = [1, 2, 3, 4, 5, 6], pi_payload_size = 6, pi_header_size = 5\<rparr>"

definition part_example :: rlc_am_entity where
  "part_example = zero_entity\<lparr>pdu_retrans_buffer := (\<lambda>_. zero_tx_pdu)(7 := zero_tx_pdu\<lparr>
     txp_mem_block := Some \<lparr>tb_size = 11, tb_data = header_bytes part_example_info @ pi_payload part_example_info\<rparr>,
     txp_payload := 5, txp_payload_size := 6, txp_header_and_payload_size := 11, txp_nack_so_stop := 0x7FFF, txp_retransmit := True\<rparr>)\<rparr>"

theorem subsegment_is_part_witness:
  "stored_pdu (pdu_retrans_buffer part_example 7) 7 part_example_info \<and> front_hole (pdu_retrans_buffer part_example 7) 5 \<and>
   (\<exists>tb e' j c. rlc_am_retransmit_get_subsegment part_example 0 7 8 = Some (Some tb, 8 - tb_size tb, e') \<and>
      rlc_am_get_data_pdu_infos (tb_data tb) (tb_size tb) = Some (0, j) \<and> 0 < c \<and> c \<le> 6 \<and> part_of part_example_info 0 c j)"
proof -
  have h: "header_ok part_example_info" by (simp add: header_ok_def part_example_info_def header_bytes_def)
  have "pi_rf part_example_info = 0" "pi_sn part_example_info = 7" "\<forall>l\<in>set (pi_li_list part_example_info). 0 < l"
    "pi_header_size part_example_info = 5" "pi_payload_size part_example_info = 6" by (simp_all add: part_example_info_def)
  with h have st: "stored_pdu (pdu_retrans_buffer part_example 7) 7 part_example_info" by (simp add: stored_pdu_def part_example_def)
  have fh: "front_hole (pdu_retrans_buffer part_example 7) 5" "0 = txp_nack_so_start (pdu_retrans_buffer part_example 7)"
    by (simp_all add: front_hole_def part_example_def zero_tx_pdu_def)
  show ?thesis using subsegment_is_part[OF st fh(1) _ _ fh(2), of 8 0] st fh(1) by auto
qed

end
