(* ===== verification/Rlc_Am_Parts.thy ===== *)
theory Rlc_Am_Parts
  imports Rlc_Am_Resegment
begin

text \<open>
  Segments of a retransmitted PDU and reassembly: the SDUs read from the segments one after the
  other are those read from the PDU. The data is read byte by byte against the set of offsets at
  which SDUs end; a PDU and its segments have the same offsets.
\<close>

subsection \<open>Reading byte by byte\<close>

fun scan_sdus :: "int set \<Rightarrow> byte list \<Rightarrow> int \<Rightarrow> byte list \<Rightarrow> byte list list \<times> byte list" where
  "scan_sdus E acc p [] = ([], acc)"
| "scan_sdus E acc p (b # bs) =
     (if p + 1 \<in> E then (case scan_sdus E [] (p + 1) bs of (ds, r) \<Rightarrow> ((acc @ [b]) # ds, r))
      else scan_sdus E (acc @ [b]) (p + 1) bs)"

lemma scan_append:
  "scan_sdus E acc p (bs @ cs) =
     (case scan_sdus E acc p bs of (ds, r) \<Rightarrow> case scan_sdus E r (p + int (length bs)) cs of (es, r') \<Rightarrow> (ds @ es, r'))"
  by (induction bs arbitrary: acc p) (auto simp: add.assoc split: prod.splits)

lemma scan_cong:
  "(\<And>x. p < x \<Longrightarrow> x \<le> p + int (length bs) \<Longrightarrow> x \<in> E \<longleftrightarrow> x \<in> F) \<Longrightarrow> scan_sdus E acc p bs = scan_sdus F acc p bs"
proof (induction bs arbitrary: acc p)
  case (Cons b bs)
  have "p + 1 \<in> E \<longleftrightarrow> p + 1 \<in> F" using Cons.prems by simp
  moreover have "scan_sdus E acc' (p + 1) bs = scan_sdus F acc' (p + 1) bs" for acc'
    using Cons.IH[of "p + 1" acc'] Cons.prems by simp
  ultimately show ?case by simp
qed simp

lemma scan_shift: "scan_sdus ((\<lambda>x. s + x) ` E) acc (s + p) bs = scan_sdus E acc p bs"
proof (induction bs arbitrary: acc p)
  case (Cons b bs)
  have "s + p + 1 \<in> (\<lambda>x. s + x) ` E \<longleftrightarrow> p + 1 \<in> E" by (auto simp: image_iff add.assoc)
  moreover have "scan_sdus ((\<lambda>x. s + x) ` E) acc' (s + p + 1) bs = scan_sdus E acc' (p + 1) bs" for acc'
    using Cons.IH[of acc' "p + 1"] by (simp add: add.assoc)
  ultimately show ?case by simp
qed simp

lemma scan_end: "bs \<noteq> [] \<Longrightarrow> p + int (length bs) \<in> E \<Longrightarrow> snd (scan_sdus E acc p bs) = []"
proof (induction bs arbitrary: acc p)
  case (Cons b bs)
  show ?case
  proof (cases "bs = []")
    case False
    have "snd (scan_sdus E acc' (p + 1) bs) = []" for acc' using Cons.IH[OF False, of "p + 1"] Cons.prems(2) by (simp add: add.assoc)
    then show ?thesis by (simp add: case_prod_beta)
  qed (use Cons.prems in simp)
qed simp

lemma scan_inside:
  "bs \<noteq> [] \<Longrightarrow> (\<And>x. p < x \<Longrightarrow> x < p + int (length bs) \<Longrightarrow> x \<notin> E) \<Longrightarrow>
   scan_sdus E acc p bs = (if p + int (length bs) \<in> E then ([acc @ bs], []) else ([], acc @ bs))"
proof (induction bs arbitrary: acc p)
  case (Cons b bs)
  show ?case
  proof (cases "bs = []")
    case False
    have "p + 1 \<notin> E" using Cons.prems(2)[of "p + 1"] False by simp
    moreover have "scan_sdus E (acc @ [b]) (p + 1) bs =
        (if p + 1 + int (length bs) \<in> E then ([(acc @ [b]) @ bs], []) else ([], (acc @ [b]) @ bs))"
      using Cons.IH[OF False, of "p + 1" "acc @ [b]"] Cons.prems(2) by simp
    ultimately show ?thesis by (simp add: add.assoc)
  qed simp
qed simp

lemma cut_scan:
  assumes "\<forall>l\<in>set ls. 0 < l" "sum_list ls < int (length bs)"
  shows "sdus_of acc (cut ls bs fin) = scan_sdus (sdu_ends a ls (a + int (length bs)) fin) acc a bs"
  using assms
proof (induction ls arbitrary: acc a bs)
  case Nil
  have "bs \<noteq> []" using Nil by auto
  then show ?case using scan_inside[of bs a "sdu_ends a [] (a + int (length bs)) fin" acc] by (auto simp: sdu_ends_def)
next
  case (Cons l ls)
  let ?E = "sdu_ends a (l # ls) (a + int (length bs)) fin"
  let ?b = "take (nat l) bs" and ?c = "drop (nat l) bs"
  have l: "0 < l" "\<forall>x\<in>set ls. 0 < x" "0 \<le> sum_list ls" using Cons.prems(1) by (auto intro!: sum_list_nonneg simp: less_imp_le)
  have len: "int (length ?b) = l" "int (length ?c) = int (length bs) - l" "l < int (length bs)" using Cons.prems(2) l by auto
  have gt: "x \<in> li_ends (a + l) ls \<Longrightarrow> a + l < x" for x using li_ends_gt[OF l(2)] .
  have "?b \<noteq> []" using l(1) len(3) by auto
  moreover have "x \<notin> ?E" if "a < x" "x < a + int (length ?b)" for x
    using that len(1,3) gt[of x] by (auto simp: sdu_ends_def)
  ultimately have b: "scan_sdus ?E acc a ?b = ([acc @ ?b], [])"
    using scan_inside[of ?b a ?E acc] unfolding len(1) by (simp add: sdu_ends_def)
  have "sdus_of [] (cut ls ?c fin) = scan_sdus (sdu_ends (a + l) ls (a + l + int (length ?c)) fin) [] (a + l) ?c"
    by (rule Cons.IH[OF l(2)]) (use Cons.prems(2) len(2) in simp)
  also have "\<dots> = scan_sdus ?E [] (a + l) ?c"
    using len by (intro scan_cong) (auto simp: sdu_ends_def)
  finally have c: "sdus_of [] (cut ls ?c fin) = scan_sdus ?E [] (a + int (length ?b)) ?c" unfolding len(1) .
  have "scan_sdus ?E acc a (?b @ ?c) = (case sdus_of [] (cut ls ?c fin) of (es, r') \<Rightarrow> ((acc @ ?b) # es, r'))"
    unfolding scan_append b prod.case c by simp
  then show ?case by simp
qed

subsection \<open>The segments of a PDU\<close>

abbreviation rx_of :: "rlc_am_pdu_info \<Rightarrow> rx_pdu" where
  "rx_of i \<equiv> \<lparr>pdu_info = i, all_segments_received = True\<rparr>"

text \<open>Segments that follow each other from offset \<open>s\<close> to the end of the PDU.\<close>

fun parts_from :: "rlc_am_pdu_info \<Rightarrow> int \<Rightarrow> rlc_am_pdu_info list \<Rightarrow> bool" where
  "parts_from i s [] \<longleftrightarrow> s = pi_payload_size i"
| "parts_from i s (j # js) \<longleftrightarrow> header_ok j \<and> part_of i s (pi_payload_size j) j \<and> parts_from i (s + pi_payload_size j) js"

lemma pieces_scan:
  assumes "header_ok i" "\<forall>l\<in>set (pi_li_list i). 0 < l"
  shows "sdus_of acc (pieces (rx_of i)) = scan_sdus (info_ends i) acc 0 (pi_payload i)"
  using cut_scan[OF assms(2), of "pi_payload i" acc "pi_fi i = 0 \<or> pi_fi i = 2" 0] assms(1)
  by (simp add: pieces_def ends_sdu_def info_ends_def header_ok_def)

lemma part_scan:
  assumes "header_ok j" "part_of i s (pi_payload_size j) j" "header_ok i" "0 \<le> s" "s + pi_payload_size j \<le> pi_payload_size i"
  shows "sdus_of acc (pieces (rx_of j)) = scan_sdus (info_ends i) acc s (pi_payload j)"
proof -
  have p: "\<forall>l\<in>set (pi_li_list j). 0 < l" "(\<lambda>x. s + x) ` info_ends j = info_ends i \<inter> {s<..s + pi_payload_size j}"
    "pi_payload_size j = int (length (pi_payload j))"
    using assms(1,2) by (auto simp: part_of_def header_ok_def)
  have "sdus_of acc (pieces (rx_of j)) = scan_sdus ((\<lambda>x. s + x) ` info_ends j) acc (s + 0) (pi_payload j)"
    unfolding pieces_scan[OF assms(1) p(1)] by (rule scan_shift[symmetric])
  also have "\<dots> = scan_sdus (info_ends i) acc s (pi_payload j)"
    unfolding p(2) using p(3) by (simp) (rule scan_cong, auto)
  finally show ?thesis .
qed

lemma parts_from_le: "parts_from i s js \<Longrightarrow> s \<le> pi_payload_size i"
proof (induction js arbitrary: s)
  case (Cons j js)
  have "0 \<le> pi_payload_size j" using Cons.prems by (auto simp: header_ok_def)
  then show ?case using Cons.IH[of "s + pi_payload_size j"] Cons.prems by simp
qed simp

lemma parts_stream:
  assumes "header_ok i" "parts_from i s js" "0 < s" "s \<in> info_ends i \<Longrightarrow> acc = []"
  shows "stream_sdus acc (map rx_of js) = scan_sdus (info_ends i) acc s (drop (nat s) (pi_payload i))"
  using assms
proof (induction js arbitrary: s acc)
  case Nil
  then show ?case by (simp add: header_ok_def)
next
  case (Cons j js)
  let ?n = "pi_payload_size j"
  have j: "header_ok j" "part_of i s ?n j" "parts_from i (s + ?n) js" "s + ?n \<le> pi_payload_size i" "s \<noteq> 0"
    using Cons.prems(2,3) parts_from_le by auto
  have n: "?n = int (length (pi_payload j))" "0 \<le> sum_list (pi_li_list j)" "sum_list (pi_li_list j) < ?n"
    using j(1,2) by (auto simp: header_ok_def intro!: sum_list_nonneg)
  then have ne: "pi_payload j \<noteq> []" by auto
  have st: "starts_sdu (rx_of j) \<longleftrightarrow> s \<in> info_ends i" using j(2,5) by (simp add: part_of_def info_starts_def starts_sdu_def)
  have d: "drop (nat s) (pi_payload i) = pi_payload j @ drop (nat (s + ?n)) (pi_payload i)"
  proof -
    have "pi_payload j = take (nat ?n) (drop (nat s) (pi_payload i))" using j(2) by (simp add: part_of_def)
    moreover have "nat (s + ?n) = nat ?n + nat s" using Cons.prems(3) n by (simp add: nat_add_distrib)
    ultimately show ?thesis by (metis append_take_drop_id drop_drop)
  qed
  obtain ds r where r: "scan_sdus (info_ends i) acc s (pi_payload j) = (ds, r)" by fastforce
  have "pdu_sdus_of acc (rx_of j) = (ds, r)"
    using part_scan[OF j(1,2) Cons.prems(1) _ j(4)] Cons.prems(3,4) r unfolding pdu_sdus_of_def st by auto
  moreover have "s + ?n \<in> info_ends i \<Longrightarrow> r = []" using scan_end[OF ne, of s "info_ends i" acc] r n(1) by simp
  moreover have "0 < s + ?n" using n Cons.prems(3) by linarith
  ultimately show ?case
    using Cons.IH[OF Cons.prems(1) j(3), of r] unfolding d scan_append r prod.case n(1)[symmetric] by simp
qed

lemma segments_stream:
  assumes "header_ok i" "\<forall>l\<in>set (pi_li_list i). 0 < l" "parts_from i 0 js"
  shows "stream_sdus acc (map rx_of js) = pdu_sdus_of acc (rx_of i)"
proof (cases js)
  case Nil
  have "0 \<le> sum_list (pi_li_list i)" using assms(2) by (auto intro!: sum_list_nonneg simp: less_imp_le)
  then show ?thesis using assms(1,3) Nil by (simp add: header_ok_def)
next
  case (Cons j js')
  let ?n = "pi_payload_size j"
  have j: "header_ok j" "part_of i 0 ?n j" "parts_from i ?n js'" "?n \<le> pi_payload_size i" using assms(3) Cons parts_from_le by auto
  have n: "?n = int (length (pi_payload j))" "0 \<le> sum_list (pi_li_list j)" "sum_list (pi_li_list j) < ?n"
    using j(1,2) by (auto simp: header_ok_def intro!: sum_list_nonneg)
  then have ne: "pi_payload j \<noteq> []" by auto
  have st: "starts_sdu (rx_of j) \<longleftrightarrow> starts_sdu (rx_of i)" using j(2) by (simp add: part_of_def info_starts_def starts_sdu_def)
  let ?acc = "if starts_sdu (rx_of i) then [] else acc"
  obtain ds r where r: "scan_sdus (info_ends i) ?acc 0 (pi_payload j) = (ds, r)" by fastforce
  have d: "pi_payload i = pi_payload j @ drop (nat ?n) (pi_payload i)" using j(2) by (simp add: part_of_def)
  have "?n \<in> info_ends i \<Longrightarrow> r = []" using scan_end[OF ne, of 0 "info_ends i" ?acc] r n(1) by simp
  moreover have pos: "0 < ?n" using n by linarith
  ultimately have rest: "stream_sdus r (map rx_of js') = scan_sdus (info_ends i) r ?n (drop (nat ?n) (pi_payload i))"
    using parts_stream[OF assms(1) j(3) pos] by blast
  have "sdus_of ?acc (pieces (rx_of i)) = (case stream_sdus r (map rx_of js') of (es, r') \<Rightarrow> (ds @ es, r'))"
    unfolding pieces_scan[OF assms(1,2)] by (subst d) (simp only: scan_append r prod.case n(1)[symmetric] rest add_0)
  moreover have "sdus_of ?acc (pieces (rx_of j)) = (ds, r)" using part_scan[OF j(1,2) assms(1)] j(4) r by simp
  ultimately show ?thesis unfolding Cons by (simp add: pdu_sdus_of_def st split: prod.split)
qed

lemma parts_same_number: "parts_from i s js \<Longrightarrow> j \<in> set js \<Longrightarrow> pi_sn j = pi_sn i \<and> header_ok j \<and> (\<forall>l\<in>set (pi_li_list j). 0 < l)"
  by (induction js arbitrary: s) (auto simp: part_of_def)

lemma parts_segmented: "parts_from i s js \<Longrightarrow> \<forall>j\<in>set js. pi_rf j = 1"
  by (induction js arbitrary: s) (auto simp: part_of_def)

lemma rx_of_framed: "header_ok i \<Longrightarrow> \<forall>l\<in>set (pi_li_list i). 0 < l \<Longrightarrow> pdu_framed (rx_of i)"
  by (auto simp: header_ok_def pdu_framed_def Let_def split: if_splits)

lemma ready_same_number: "\<forall>j\<in>set js. pi_sn j = n \<Longrightarrow> ready_run (map rx_of js) = map rx_of js"
proof (induction js)
  case (Cons j js)
  then show ?case by (cases js) auto
qed simp

text \<open>
  A segment is stored without its mark; the check that runs when the last missing segment has been
  stored sets the marks of all of them, if there are at least two.
\<close>

abbreviation rx_new :: "rlc_am_pdu_info \<Rightarrow> rx_pdu" where
  "rx_new j \<equiv> \<lparr>pdu_info = j, all_segments_received = False\<rparr>"

lemma part_bytes:
  assumes "header_ok j"
  shows "1 \<le> pi_payload_size j"
proof -
  have "0 \<le> sum_list (pi_li_list j)" using assms by (intro sum_list_nonneg) (auto simp: header_ok_def)
  moreover have "sum_list (pi_li_list j) < pi_payload_size j" using assms by (simp add: header_ok_def)
  ultimately show ?thesis by linarith
qed

lemma parts_order:
  "parts_from i s js \<Longrightarrow> sorted_wrt rx_before (map rx_new js) \<and> gapless s (map rx_new js) \<and>
     (\<forall>j\<in>set js. pi_sn j = pi_sn i \<and> s \<le> pi_so j \<and> rx_elem_ok (rx_new j)) \<and> (js \<noteq> [] \<longrightarrow> pi_lsf (last js) = 1)"
proof (induction js arbitrary: s)
  case (Cons j js)
  let ?n = "pi_payload_size j"
  have j: "part_of i s ?n j" "1 \<le> ?n" using Cons.prems part_bytes by auto
  note r = Cons.IH[of "s + ?n"] Cons.prems
  have e: "\<forall>k\<in>set js. pi_sn k = pi_sn i \<and> s + ?n \<le> pi_so k \<and> rx_elem_ok (rx_new k)" using r by simp
  have rf: "\<forall>k\<in>set js. pi_rf k = 1" using parts_segmented[of i "s + ?n" js] Cons.prems by simp
  have "\<forall>k\<in>set js. rx_before (rx_new j) (rx_new k)"
    using e rf j by (auto simp: rx_before_def rx_end_def part_of_def)
  moreover have "js = [] \<Longrightarrow> pi_lsf j = 1" using j(1) Cons.prems by (simp add: part_of_def)
  moreover have "pi_so j = s" "pi_rf j = 1" "pi_sn j = pi_sn i" using j(1) by (simp_all add: part_of_def)
  moreover have "\<forall>k\<in>set js. s \<le> pi_so k" using e j(2) by force
  ultimately show ?case using r j(2) e by (simp add: rx_elem_ok_def)
qed simp

lemma check_marks_parts:
  assumes "parts_from i 0 (us @ p # vs)" "us @ vs \<noteq> []"
  shows "rlc_am_rx_check_all_byte_segments (map rx_new us) (rx_new p) (map rx_new vs) = map rx_of (us @ p # vs)"
proof -
  let ?js = "map rx_new us @ rx_new p # map rx_new vs"
  have js: "?js = map rx_new (us @ p # vs)" by simp
  note o = parts_order[OF assms(1)]
  have sn: "\<forall>x\<in>set ?js. rx_sn x = rx_sn (rx_new p)" using o by auto
  then have "filter (\<lambda>x. rx_sn x = rx_sn (rx_new p)) ?js = ?js" by (intro filter_True) blast
  moreover have "all_bytes_there ?js" unfolding all_bytes_there_def
  proof (intro exI conjI)
    show "?js = ?js @ []" by simp
    show "2 \<le> length ?js" using assms(2) by (cases us; cases vs) auto
    show "gapless 0 ?js" unfolding js using o by blast
    have "last ?js = rx_new (last (us @ p # vs))" unfolding js by (subst last_map) simp_all
    then show "0 < pi_lsf (pdu_info (last ?js))" using o by simp
  qed
  moreover have "sorted_wrt rx_before ?js" "\<forall>x\<in>set ?js. rx_elem_ok x" unfolding js using o by auto
  ultimately have "rlc_am_rx_check_all_byte_segments (map rx_new us) (rx_new p) (map rx_new vs) =
      map (\<lambda>x. if rx_sn x = rx_sn (rx_new p) then x\<lparr>all_segments_received := True\<rparr> else x) ?js"
    using check_byte_segments_marks[of "map rx_new us" "rx_new p" "map rx_new vs"] by simp
  also have "\<dots> = map rx_of (us @ p # vs)" unfolding js list.map_comp
  proof (rule map_cong[OF refl])
    fix j assume "j \<in> set (us @ p # vs)"
    then have "pi_sn j = pi_sn i" "pi_sn p = pi_sn i" using o by auto
    then show "((\<lambda>x. if rx_sn x = rx_sn (rx_new p) then x\<lparr>all_segments_received := True\<rparr> else x) \<circ> rx_new) j = rx_of j" by simp
  qed
  finally show ?thesis .
qed

lemma reassemble_marked:
  assumes "\<forall>k\<in>set ks. pi_sn k = n \<and> header_ok k \<and> (\<forall>l\<in>set (pi_li_list k). 0 < l)"
    "stream_sdus (sdu_acc e) (map rx_of ks) = (ds, r)" "sdu_state_ok e" "\<forall>d\<in>set (ds @ [r]). int (length d) \<le> RLC_SDU_MAX_SIZE"
  shows "\<exists>e'. rlc_am_rx_list_reassemble_rlc_sdus (e\<lparr>receiver_buffer := map rx_of ks\<rparr>) = Some e' \<and>
    delivers (e\<lparr>receiver_buffer := map rx_of ks\<rparr>) (ds, r) [] e'"
proof -
  let ?e = "e\<lparr>receiver_buffer := map rx_of ks\<rparr>"
  have run: "ready_run (map rx_of ks) = map rx_of ks" using assms(1) by (intro ready_same_number) auto
  have "\<forall>x\<in>set (ready_run (map rx_of ks)). pdu_framed x" using assms(1) unfolding run by (auto intro!: rx_of_framed)
  moreover have "sdu_state_ok ?e" "stream_sdus (sdu_acc ?e) (ready_run (map rx_of ks)) = (ds, r)"
    using assms(2,3) sdu_state_ok_cong[of ?e e] unfolding run by (simp_all add: sdu_acc_def)
  ultimately show ?thesis
    using reassemble_loop_delivers[of "map rx_of ks" ?e "(ds, r)"] assms(4) by (simp add: rlc_am_rx_list_reassemble_rlc_sdus_def run)
qed

text \<open>
  (C18) Receiving a PDU in segments is receiving the PDU. Let at least two segments, each a part of the PDU
  in the sense of the retransmission, follow each other from its first to its last byte, none of them
  marked as complete yet, and let the check for all byte segments run for the last stored one, whichever it is. Then the
  check marks all of them, the delivery loop empties the buffer of them and leaves the entity with the same
  delivered SDUs and the same beginning of the next one as with the PDU itself in the buffer, and
  the rest of the entity is the same. The length indicators of the PDU are positive, no SDU has more than 9000
  bytes and the buffer holds nothing else. (A single segment with all bytes of the PDU is never marked and stays in the buffer.)
\<close>

theorem segments_reassemble:
  assumes "header_ok i" "\<forall>l\<in>set (pi_li_list i). 0 < l" "parts_from i 0 (us @ p # vs)" "us @ vs \<noteq> []" "sdu_state_ok e"
    "pdu_sdus_of (sdu_acc e) (rx_of i) = (ds, r)" "\<forall>d\<in>set (ds @ [r]). int (length d) \<le> RLC_SDU_MAX_SIZE"
  shows "\<exists>e1 e2. rlc_am_rx_list_reassemble_rlc_sdus
      (e\<lparr>receiver_buffer := rlc_am_rx_check_all_byte_segments (map rx_new us) (rx_new p) (map rx_new vs)\<rparr>) = Some e1 \<and>
    rlc_am_rx_list_reassemble_rlc_sdus (e\<lparr>receiver_buffer := [rx_of i]\<rparr>) = Some e2 \<and>
    receiver_buffer e1 = [] \<and> receiver_buffer e2 = [] \<and> log_data_ind e1 = log_data_ind e @ ds \<and> log_data_ind e2 = log_data_ind e @ ds \<and>
    sdu_acc e1 = r \<and> sdu_acc e2 = r \<and> rx_rest e1 = rx_rest e2"
proof -
  have s: "stream_sdus (sdu_acc e) (map rx_of (us @ p # vs)) = (ds, r)" "stream_sdus (sdu_acc e) (map rx_of [i]) = (ds, r)"
    using segments_stream[OF assms(1-3)] assms(6) by simp_all
  obtain e1 where e1: "rlc_am_rx_list_reassemble_rlc_sdus (e\<lparr>receiver_buffer := map rx_of (us @ p # vs)\<rparr>) = Some e1"
    "delivers (e\<lparr>receiver_buffer := map rx_of (us @ p # vs)\<rparr>) (ds, r) [] e1"
    using reassemble_marked[OF _ s(1) assms(5,7)] parts_same_number[OF assms(3)] by blast
  obtain e2 where e2: "rlc_am_rx_list_reassemble_rlc_sdus (e\<lparr>receiver_buffer := [rx_of i]\<rparr>) = Some e2"
    "delivers (e\<lparr>receiver_buffer := [rx_of i]\<rparr>) (ds, r) [] e2"
    using reassemble_marked[OF _ s(2) assms(5,7), of "pi_sn i"] assms(1,2) by auto
  have "receiver_buffer e1 = []" "receiver_buffer e2 = []" using delivers_buffer[OF e1(2)] delivers_buffer[OF e2(2)] by simp_all
  then show ?thesis unfolding check_marks_parts[OF assms(3,4)] using e1 e2 by (auto simp: delivers_def rx_rest_def)
qed

text \<open>The PDU with two SDUs and the beginning of a third, in two segments of three bytes.\<close>

definition part_example_1 :: rlc_am_pdu_info where
  "part_example_1 = part_example_info\<lparr>pi_rf := 1, pi_fi := 0, pi_e := 0, pi_li_list := [], pi_hidden_size := 3,
     pi_payload := [1, 2, 3], pi_payload_size := 3, pi_header_size := 4\<rparr>"

definition part_example_2 :: rlc_am_pdu_info where
  "part_example_2 = part_example_info\<lparr>pi_rf := 1, pi_fi := 1, pi_lsf := 1, pi_so := 3, pi_li_list := [2], pi_hidden_size := 1,
     pi_payload := [4, 5, 6], pi_payload_size := 3, pi_header_size := 6\<rparr>"

theorem segments_reassemble_witness:
  "header_ok part_example_info \<and> parts_from part_example_info 0 [part_example_1, part_example_2] \<and>
   (\<exists>e'. rlc_am_rx_list_reassemble_rlc_sdus (zero_entity\<lparr>receiver_buffer :=
        rlc_am_rx_check_all_byte_segments [rx_new part_example_1] (rx_new part_example_2) []\<rparr>) = Some e' \<and>
      log_data_ind e' = [[1, 2, 3], [4, 5]] \<and> sdu_acc e' = [6])"
proof -
  note defs = part_example_info_def part_example_1_def part_example_2_def
  have h: "header_ok part_example_info" "header_ok part_example_1" "header_ok part_example_2"
    by (simp_all add: header_ok_def defs header_bytes_def)
  have "part_of part_example_info 0 3 part_example_1"
    by (auto simp: part_of_def defs info_ends_def info_starts_def sdu_ends_def)
  moreover have "part_of part_example_info 3 3 part_example_2"
    by (auto simp: part_of_def defs info_ends_def info_starts_def sdu_ends_def)
  moreover have "pi_payload_size part_example_1 = 3" "pi_payload_size part_example_2 = 3" "pi_payload_size part_example_info = 6"
    by (simp_all add: defs)
  ultimately have p: "parts_from part_example_info 0 [part_example_1, part_example_2]" using h by simp
  have l: "\<forall>l\<in>set (pi_li_list part_example_info). 0 < l" by (simp add: defs)
  have z: "sdu_state_ok zero_entity" "sdu_acc zero_entity = []" "log_data_ind zero_entity = []" by (simp_all add: sdu_state_defs zero_entity_def)
  have "pdu_sdus_of (sdu_acc zero_entity) (rx_of part_example_info) = ([[1, 2, 3], [4, 5]], [6])"
    unfolding z(2) by (simp add: pdu_sdus_of_def pieces_def starts_sdu_def ends_sdu_def defs)
  from segments_reassemble[OF h(1) l _ _ z(1) this, of "[part_example_1]" part_example_2 "[]"]
  show ?thesis using h(1) p z(3) by auto
qed

end
