(* ===== verification/Rlc_Am_Mac.thy ===== *)
theory Rlc_Am_Mac
  imports Rlc_Am_Resegment Rlc_Am_Send_Status
begin

text \<open>
  The interface to MAC: \<^verbatim>\<open>rlc_am_retransmit_any_pdu\<close> of \<^verbatim>\<open>rlc_am_retransmit.c\<close> and
  \<^verbatim>\<open>rlc_am_get_pdus\<close>, \<^verbatim>\<open>rlc_am_rx\<close>, \<^verbatim>\<open>rlc_am_mac_status_indication\<close>, \<^verbatim>\<open>rlc_am_mac_data_request\<close> and
  \<^verbatim>\<open>rlc_am_mac_data_indication\<close> of \<^verbatim>\<open>rlc_am.c\<close>.

  One grant serves, in this order, a status report, a retransmission, new data, and, when the poll
  timer has run out, any unacknowledged PDU. A block that ends the function is \<open>(True, e)\<close>, going on is
  \<open>(False, e)\<close>. Dereferencing a \<^verbatim>\<open>NULL\<close> block is \<open>None\<close>. The argument \<open>mem\<close> is the contents of a new memory
  block, as in \<open>rlc_am_segment_10\<close>.
\<close>

subsection \<open>Retransmission without a report\<close>

text \<open>
  The search from the newest PDU down: the first that fits the grant, and the first that is stored at all.
\<close>

partial_function (option) any_pdu_search :: "rlc_am_entity \<Rightarrow> int \<Rightarrow> int \<Rightarrow> int option \<Rightarrow> (int + int option) option" where
  "any_pdu_search e sn_end sn found =
     (if sn \<noteq> sn_end then
        let p = pdu_retrans_buffer e sn;
            stored = (txp_mem_block p \<noteq> None);
            found' = (if stored \<and> found = None then Some sn else found)
        in if stored \<and> txp_header_and_payload_size p \<le> nb_bytes_requested_by_mac e then Some (Inl sn)
           else any_pdu_search e sn_end (sn_mask (sn - 1)) found'
      else Some (Inr found))"

text \<open>The poll bit is set whatever the counters say.\<close>

definition force_poll :: "frame \<Rightarrow> int \<Rightarrow> mac_tb_req \<Rightarrow> rlc_am_entity \<Rightarrow> rlc_am_entity option" where
  "force_poll frameP sn tb e =
     do {
       c_assert (tb_data tb \<noteq> []);
       let (e1, b1) = rlc_am_pdu_polling e frameP (tb_data tb ! 0) (txp_header_and_payload_size (pdu_retrans_buffer e sn));
       let tb1 = tb\<lparr>tb_data := (tb_data tb)[0 := b1 OR 0x20]\<rparr>;
       let e2 = rlc_am_start_timer_poll_retransmit (e1\<lparr>c_pdu_without_poll := 0, c_byte_without_poll := 0\<rparr>) frameP;
       let n = word_of_int (tb_size tb);
       Some (e2\<lparr>stats := (stats e2)\<lparr>stat_tx_data_pdu := stat_tx_data_pdu (stats e2) + 1,
           stat_tx_retransmit_pdu := stat_tx_retransmit_pdu (stats e2) + 1,
           stat_tx_data_bytes := stat_tx_data_bytes (stats e2) + n,
           stat_tx_retransmit_bytes := stat_tx_retransmit_bytes (stats e2) + n\<rparr>,
         pdus_to_mac_layer := pdus_to_mac_layer e2 @ [tb1]\<rparr>)
     }"

definition rlc_am_retransmit_any_pdu :: "rlc_am_entity \<Rightarrow> frame \<Rightarrow> rlc_am_entity option" where
  "rlc_am_retransmit_any_pdu e frameP =
     do {
       r \<leftarrow> any_pdu_search e (sn_mask (vt_a e - 1)) (sn_mask (vt_s e - 1)) None;
       case r of
         Inl sn \<Rightarrow>
           do {
             e1 \<leftarrow> rlc_am_nack_pdu e frameP sn 0 0x7FFF;
             (copy, e2) \<leftarrow> rlc_am_retransmit_get_copy e1 frameP sn;
             tb \<leftarrow> copy;
             force_poll frameP sn tb e2
           }
       | Inr None \<Rightarrow> Some e
       | Inr (Some sn) \<Rightarrow>
           if nb_bytes_requested_by_mac e > 4 then
             do {
               e1 \<leftarrow> rlc_am_nack_pdu e frameP sn 0 0x7FFF;
               (copy, n, e2) \<leftarrow> rlc_am_retransmit_get_subsegment e1 frameP sn (nb_bytes_requested_by_mac e1);
               tb \<leftarrow> copy;
               force_poll frameP sn tb (e2\<lparr>nb_bytes_requested_by_mac := n\<rparr>)
             }
           else Some e
     }"

subsection \<open>Serving a grant\<close>

definition get_status_pdu :: "frame \<Rightarrow> rlc_am_entity \<Rightarrow> (bool \<times> rlc_am_entity) option" where
  "get_status_pdu frameP e =
     (if nb_bytes_requested_by_mac e > 2 \<and> status_requested e \<and> \<not> running (t_status_prohibit e) then
        do {
          e1 \<leftarrow> rlc_am_send_status_pdu e;
          case control_pdu_list e1 of
            [] \<Rightarrow> Some (False, e1)
          | pdu # rest \<Rightarrow>
              Some (True, rlc_am_start_timer_status_prohibit (e1\<lparr>control_pdu_list := rest,
                pdus_to_mac_layer := pdus_to_mac_layer e1 @ [pdu], status_requested := False\<rparr>) frameP)
        }
      else Some (False, e))"

text \<open>The first PDU to retransmit moves up to the next one that is marked.\<close>

partial_function (option) skip_retransmitted :: "rlc_am_entity \<Rightarrow> int \<Rightarrow> int option" where
  "skip_retransmitted e sn =
     (if sn \<noteq> vt_s e \<and> \<not> txp_retransmit (pdu_retrans_buffer e sn) then skip_retransmitted e (sn_mask (sn + 1)) else Some sn)"

definition count_retransmission :: "int \<Rightarrow> rlc_am_stats \<Rightarrow> rlc_am_stats" where
  "count_retransmission n s =
     s\<lparr>stat_tx_data_pdu := stat_tx_data_pdu s + 1, stat_tx_retransmit_pdu := stat_tx_retransmit_pdu s + 1,
       stat_tx_retransmit_pdu_by_status := stat_tx_retransmit_pdu_by_status s + 1,
       stat_tx_data_bytes := stat_tx_data_bytes s + word_of_int n,
       stat_tx_retransmit_bytes := stat_tx_retransmit_bytes s + word_of_int n,
       stat_tx_retransmit_bytes_by_status := stat_tx_retransmit_bytes_by_status s + word_of_int n\<rparr>"

definition get_retransmission :: "frame \<Rightarrow> rlc_am_entity \<Rightarrow> (bool \<times> rlc_am_entity) option" where
  "get_retransmission frameP e =
     (let sn = first_retrans_pdu_sn e; p = pdu_retrans_buffer e sn; n = txp_header_and_payload_size p
      in if nb_bytes_requested_by_mac e > 2 \<and> sn \<ge> 0 \<and> sn \<noteq> vt_s e then
           if n \<le> nb_bytes_requested_by_mac e \<and> txp_retx_count p \<ge> 0 \<and> txp_nack_so_start p = 0 \<and> txp_nack_so_stop p = 0x7FFF then
             do {
               (copy, e1) \<leftarrow> rlc_am_retransmit_get_copy e frameP sn;
               let e2 = e1\<lparr>stats := count_retransmission n (stats e1),
                 pdus_to_mac_layer := pdus_to_mac_layer e1 @ (case copy of None \<Rightarrow> [] | Some tb \<Rightarrow> [tb]),
                 nb_bytes_requested_by_mac := nb_bytes_requested_by_mac e1 - n\<rparr>;
               Some (True, upd_pdu sn (\<lambda>p. p\<lparr>txp_retx_count := to_int8 (txp_retx_count p + 1)\<rparr>) e2)
             }
           else if txp_retx_count p \<ge> 0 \<and> nb_bytes_requested_by_mac e \<ge> RLC_AM_MIN_SEGMENT_SIZE_REQUEST then
             do {
               (copy, left, e1) \<leftarrow> rlc_am_retransmit_get_subsegment e frameP sn (nb_bytes_requested_by_mac e);
               tb \<leftarrow> copy;
               let e2 = e1\<lparr>nb_bytes_requested_by_mac := left, stats := count_retransmission (tb_size tb) (stats e1),
                 pdus_to_mac_layer := pdus_to_mac_layer e1 @ [tb]\<rparr>;
               sn1 \<leftarrow> skip_retransmitted e2 (first_retrans_pdu_sn e2);
               Some (True, e2\<lparr>first_retrans_pdu_sn := (if sn1 = vt_s e2 then - 1 else sn1)\<rparr>)
             }
           else Some (False, e)
         else Some (False, e))"

definition get_new_pdu :: "(nat \<Rightarrow> byte) \<Rightarrow> frame \<Rightarrow> rlc_am_entity \<Rightarrow> (bool \<times> rlc_am_entity) option" where
  "get_new_pdu mem frameP e =
     (if nb_bytes_requested_by_mac e > 2 \<and> vt_s e \<noteq> vt_ms e then
        do {
          e1 \<leftarrow> rlc_am_segment_10 mem e frameP;
          let e2 = e1\<lparr>pdus_to_mac_layer := pdus_to_mac_layer e1 @ segmentation_pdu_list e1, segmentation_pdu_list := []\<rparr>;
          case pdus_to_mac_layer e2 of
            [] \<Rightarrow> Some (False, e2)
          | tb # _ \<Rightarrow> Some (True, e2\<lparr>stats := (stats e2)\<lparr>stat_tx_data_pdu := stat_tx_data_pdu (stats e2) + 1,
              stat_tx_data_bytes := stat_tx_data_bytes (stats e2) + word_of_int (tb_size tb)\<rparr>\<rparr>)
        }
      else Some (False, e))"

definition get_any_pdu :: "frame \<Rightarrow> rlc_am_entity \<Rightarrow> rlc_am_entity option" where
  "get_any_pdu frameP e =
     (if pdus_to_mac_layer e = [] \<and> rlc_am_is_timer_poll_retransmit_timed_out e \<and> nb_bytes_requested_by_mac e > 2
      then rlc_am_retransmit_any_pdu e frameP else Some e)"

definition rlc_am_get_pdus :: "(nat \<Rightarrow> byte) \<Rightarrow> rlc_am_entity \<Rightarrow> frame \<Rightarrow> rlc_am_entity option" where
  "rlc_am_get_pdus mem e frameP =
     (if protocol_state e = RLC_DATA_TRANSFER_READY_STATE then
        do {
          (fin1, e1) \<leftarrow> get_status_pdu frameP e;
          if fin1 then Some e1
          else do {
            (fin2, e2) \<leftarrow> get_retransmission frameP e1;
            if fin2 then Some e2
            else do {
              (fin3, e3) \<leftarrow> get_new_pdu mem frameP e2;
              if fin3 then Some e3 else get_any_pdu frameP e3
            }
          }
        }
      else Some e)"

subsection \<open>Primitives\<close>

definition rlc_am_mac_data_request :: "(nat \<Rightarrow> byte) \<Rightarrow> rlc_am_entity \<Rightarrow> frame \<Rightarrow> (mac_data_req \<times> rlc_am_entity) option" where
  "rlc_am_mac_data_request mem e frameP =
     do {
       e1 \<leftarrow> rlc_am_get_pdus mem e frameP;
       let e2 = e1\<lparr>pdus_to_mac_layer := []\<rparr>;
       Some (\<lparr>md_data = pdus_to_mac_layer e1, md_buffer_occupancy_in_bytes = rlc_am_get_buffer_occupancy_in_bytes e2 frameP,
         md_rlc_protocol_state = protocol_state e2\<rparr>, e2)
     }"

definition rlc_am_rx :: "rlc_am_entity \<Rightarrow> frame \<Rightarrow> mac_tb_ind list \<Rightarrow> rlc_am_entity option" where
  "rlc_am_rx e frameP data_ind =
     (if protocol_state e = RLC_DATA_TRANSFER_READY_STATE then rlc_am_receive_routing frameP data_ind e else Some e)"

definition rlc_am_mac_data_indication :: "rlc_am_entity \<Rightarrow> frame \<Rightarrow> mac_tb_ind list \<Rightarrow> rlc_am_entity option" where
  "rlc_am_mac_data_indication e frameP data_ind = rlc_am_rx e frameP data_ind"

text \<open>
  The answer to a status indication. The fields of the head SDU are read from the memory block of the
  SDU as if it held the management structure: \<open>cast\<close> gives what the bytes mean at the offsets of
  \<^verbatim>\<open>sdu_creation_time\<close>, \<^verbatim>\<open>sdu_size\<close> and \<^verbatim>\<open>sdu_remaining_size\<close>, which the compiler chooses.
\<close>

definition rlc_am_mac_status_indication ::
  "(byte list \<Rightarrow> u32 \<times> u16 \<times> u16) \<Rightarrow> rlc_am_entity \<Rightarrow> frame \<Rightarrow> int \<Rightarrow> (mac_status_resp \<times> rlc_am_entity) option" where
  "rlc_am_mac_status_indication cast e frameP tb_sizeP =
     do {
       let e1 = (if last_frame_status_indication e \<noteq> frameP
         then rlc_am_check_timer_status_prohibit (rlc_am_check_timer_reordering
           (rlc_am_check_timer_poll_retransmit e frameP) frameP) frameP
         else e);
       let e2 = e1\<lparr>last_frame_status_indication := frameP, nb_bytes_requested_by_mac := to_uint16 tb_sizeP\<rparr>;
       let occ = rlc_am_get_buffer_occupancy_in_bytes e2 frameP;
       let resp = \<lparr>sr_buffer_occupancy_in_bytes = occ, sr_buffer_occupancy_in_pdus = 0, sr_head_sdu_creation_time = 0,
         sr_head_sdu_remaining_size_to_send = 0, sr_head_sdu_is_segmented = False, sr_rlc_protocol_state = protocol_state e\<rparr>;
       c_assert (sdu_index_ok (current_sdu_index e2));
       case sdu_mem_block (input_sdus e2 (current_sdu_index e2)) of
         None \<Rightarrow> Some (resp, e2)
       | Some d \<Rightarrow>
           if occ \<noteq> 0 then
             let (created, size16, remaining16) = cast d; diff = frameP - created
             in Some (resp\<lparr>sr_buffer_occupancy_in_pdus := word_of_int (nb_sdu e2),
                  sr_head_sdu_creation_time := (if 0 <s diff then diff else 0xFFFFFFFF - diff + frameP),
                  sr_head_sdu_remaining_size_to_send := ucast remaining16,
                  sr_head_sdu_is_segmented := (size16 \<noteq> remaining16)\<rparr>, e2)
           else Some (resp, e2)
     }"

end
