(* ===== verification/Rlc_Am_Grant.thy ===== *)
theory Rlc_Am_Grant
  imports Rlc_Am_Mac Rlc_Am_Independence
begin

text \<open>
  What \<^verbatim>\<open>rlc_am_mac_data_request\<close> hands to MAC: a status report first, then the PDU that was reported
  missing, as a whole when it fits the grant and else a segment of it. Also the search for a PDU to
  repeat when the poll timer has run out.
\<close>

subsection \<open>A report goes first\<close>

text \<open>Between two grants nothing waits in the lists towards MAC.\<close>

definition mac_idle :: "rlc_am_entity \<Rightarrow> bool" where
  "mac_idle e \<longleftrightarrow> protocol_state e = RLC_DATA_TRANSFER_READY_STATE \<and> control_pdu_list e = [] \<and>
     segmentation_pdu_list e = [] \<and> pdus_to_mac_layer e = []"

definition status_due :: "rlc_am_entity \<Rightarrow> bool" where
  "status_due e \<longleftrightarrow> status_requested e \<and> \<not> running (t_status_prohibit e)"

lemma prohibit_simps [simp]:
  "control_pdu_list (rlc_am_start_timer_status_prohibit e f) = control_pdu_list e"
  "segmentation_pdu_list (rlc_am_start_timer_status_prohibit e f) = segmentation_pdu_list e"
  "pdus_to_mac_layer (rlc_am_start_timer_status_prohibit e f) = pdus_to_mac_layer e"
  "protocol_state (rlc_am_start_timer_status_prohibit e f) = protocol_state e"
  "status_requested (rlc_am_start_timer_status_prohibit e f) = status_requested e"
  "tx_side (rlc_am_start_timer_status_prohibit e f) = tx_side e"
  "rx_side (rlc_am_start_timer_status_prohibit e f) = rx_side e"
  "0 < time_out (t_status_prohibit e) \<Longrightarrow> running (t_status_prohibit (rlc_am_start_timer_status_prohibit e f))"
  by (simp_all add: rlc_am_start_timer_status_prohibit_def tx_side_def rx_side_def)

lemma data_request_of:
  assumes "rlc_am_get_pdus mem e f = Some e1"
  obtains md where "rlc_am_mac_data_request mem e f = Some (md, e1\<lparr>pdus_to_mac_layer := []\<rparr>)" "md_data md = pdus_to_mac_layer e1"
  using assms by (simp add: rlc_am_mac_data_request_def Let_def)

lemma data_request_status:
  assumes "mac_idle e" "rx_in_window e" "2 < nb_bytes_requested_by_mac e" "status_due e"
  shows "\<exists>md e' bs l k info. rlc_am_mac_data_request mem e f = Some (md, e') \<and> md_data md = [\<lparr>tb_size = int l, tb_data = bs\<rparr>] \<and>
    int l \<le> nb_bytes_requested_by_mac e \<and> encodes bs l info \<and> reports e k info \<and>
    (771 < nb_bytes_requested_by_mac e \<longrightarrow> k = last_sn (vr_r e - 1) (receiver_buffer e) + 1) \<and>
    mac_idle e' \<and> (0 < time_out (t_status_prohibit e) \<longrightarrow> running (t_status_prohibit e')) \<and>
    tx_side e' = tx_side e \<and> rx_side e' = rx_side (e\<lparr>status_requested := False\<rparr>)"
proof -
  obtain bs l k info where r: "rlc_am_send_status_pdu e = Some (status_sent l bs e)" "int l \<le> nb_bytes_requested_by_mac e"
    "encodes bs l info" "reports e k info" "771 < nb_bytes_requested_by_mac e \<longrightarrow> k = last_sn (vr_r e - 1) (receiver_buffer e) + 1"
    using send_status_run[OF assms(2,3)] by blast
  let ?tb = "\<lparr>tb_size = int l, tb_data = bs\<rparr>"
  define e1 where "e1 = (status_sent l bs e)\<lparr>control_pdu_list := [], pdus_to_mac_layer := [?tb], status_requested := False\<rparr>"
  define e2 where "e2 = (rlc_am_start_timer_status_prohibit e1 f)\<lparr>pdus_to_mac_layer := []\<rparr>"
  have "get_status_pdu f e = Some (True, rlc_am_start_timer_status_prohibit e1 f)"
    using assms(1,3,4) r(1) by (simp add: get_status_pdu_def status_due_def mac_idle_def e1_def status_sent_def)
  then have "rlc_am_get_pdus mem e f = Some (rlc_am_start_timer_status_prohibit e1 f)"
    using assms(1) by (simp add: rlc_am_get_pdus_def mac_idle_def)
  then obtain md where "rlc_am_mac_data_request mem e f = Some (md, e2)" "md_data md = [?tb]"
    by (rule data_request_of) (simp add: e2_def e1_def)
  moreover have "mac_idle e2" using assms(1) by (simp add: mac_idle_def e2_def e1_def status_sent_def)
  moreover have "running (t_status_prohibit e2)" if "0 < time_out (t_status_prohibit e)"
    using that by (simp add: e2_def e1_def status_sent_def)
  moreover have "tx_side e2 = tx_side e" "rx_side e2 = rx_side (e\<lparr>status_requested := False\<rparr>)"
    by (simp_all add: e2_def e1_def status_sent_def tx_side_def rx_side_def rlc_am_start_timer_status_prohibit_def)
  ultimately show ?thesis using r(2-5) by blast
qed


definition status_grant_example :: rlc_am_entity where
  "status_grant_example = status_example\<lparr>protocol_state := RLC_DATA_TRANSFER_READY_STATE, status_requested := True\<rparr>"


subsection \<open>Retransmission after a report\<close>

text \<open>The poll bit is the only field that may differ.\<close>

lemma header_poll:
  assumes "header_ok i" "pi_rf i = 0"
  shows "(header_bytes i)[0 := header_bytes i ! 0 OR 0x20] = header_bytes (i\<lparr>pi_p := 1\<rparr>)"
    "(header_bytes i)[0 := header_bytes i ! 0 AND 0xDF] = header_bytes (i\<lparr>pi_p := 0\<rparr>)"
    "q \<in> {0, 1} \<Longrightarrow> header_ok (i\<lparr>pi_p := q\<rparr>)"
proof -
  have h: "pi_sn i div 256 \<in> {0, 1, 2, 3}" using assms(1) by (intro sn_high) (simp_all add: header_ok_def)
  have d: "pi_p i \<in> {0, 1}" "pi_fi i \<in> {0, 1, 2, 3}" "pi_e i \<in> {0, 1}" using assms(1) by (auto simp: header_ok_def)
  note m = poll_bit_set[OF d h]
  have b: "header_bytes i ! 0 = word_of_int (128 + 32 * pi_p i + 8 * pi_fi i + 4 * pi_e i + pi_sn i div 256)"
    using assms(2) by (simp add: header_bytes_def)
  show "(header_bytes i)[0 := header_bytes i ! 0 OR 0x20] = header_bytes (i\<lparr>pi_p := 1\<rparr>)"
    unfolding b m using assms(2) by (simp add: header_bytes_def)
  show "(header_bytes i)[0 := header_bytes i ! 0 AND 0xDF] = header_bytes (i\<lparr>pi_p := 0\<rparr>)"
    unfolding b m using assms(2) by (simp add: header_bytes_def)
  have "length (header_bytes (i\<lparr>pi_p := q\<rparr>)) = length (header_bytes i)" by (simp add: header_bytes_def)
  then show "q \<in> {0, 1} \<Longrightarrow> header_ok (i\<lparr>pi_p := q\<rparr>)" using assms by (auto simp: header_ok_def)
qed

lemma polled_header:
  assumes "header_ok i" "pi_rf i = 0" "b' = header_bytes i ! 0 OR 0x20 \<or> b' = header_bytes i ! 0 AND 0xDF"
  shows "\<exists>q\<in>{0, 1}. (header_bytes i)[0 := b'] = header_bytes (i\<lparr>pi_p := q\<rparr>)"
  using header_poll(1,2)[OF assms(1,2)] assms(3) by blast

text \<open>What a whole retransmission changes on the sending side: the counters of the PDU and of the poll.\<close>

definition resent :: "int \<Rightarrow> rlc_am_entity \<Rightarrow> rlc_am_entity \<Rightarrow> bool" where
  "resent sn e e' \<longleftrightarrow> pdu_retrans_buffer e' = (pdu_retrans_buffer e)(sn := (pdu_retrans_buffer e sn)\<lparr>
       txp_retransmit := False, txp_retx_count := to_int8 (txp_retx_count (pdu_retrans_buffer e sn) + 1)\<rparr>) \<and>
     first_retrans_pdu_sn e' = first_retrans_pdu_sn e \<and> vt_a e' = vt_a e \<and> vt_s e' = vt_s e \<and> vt_ms e' = vt_ms e \<and>
     input_sdus e' = input_sdus e \<and> rx_side e' = rx_side e"

lemma get_copy_run:
  assumes "valid_sn sn" "stored_pdu (pdu_retrans_buffer e sn) sn i"
  shows "\<exists>q\<in>{0, 1}. \<exists>x y z v. rlc_am_retransmit_get_copy e f sn =
      Some (Some \<lparr>tb_size = pi_header_size i + pi_payload_size i, tb_data = header_bytes (i\<lparr>pi_p := q\<rparr>) @ pi_payload i\<rparr>,
        (upd_pdu sn (\<lambda>p. p\<lparr>txp_retransmit := False\<rparr>) e)\<lparr>c_pdu_without_poll := x, c_byte_without_poll := y, poll_sn := z, t_poll_retransmit := v\<rparr>) \<and>
    header_ok (i\<lparr>pi_p := q\<rparr>)"
proof -
  let ?e1 = "upd_pdu sn (\<lambda>p. p\<lparr>txp_retransmit := False\<rparr>) e"
  have st: "txp_mem_block (pdu_retrans_buffer e sn) = Some \<lparr>tb_size = pi_header_size i + pi_payload_size i, tb_data = header_bytes i @ pi_payload i\<rparr>"
    "header_ok i" "pi_rf i = 0" "txp_header_and_payload_size (pdu_retrans_buffer e sn) = pi_header_size i + pi_payload_size i"
    using assms(2) by (simp_all add: stored_pdu_def)
  have len: "pi_header_size i + pi_payload_size i = int (length (header_bytes i @ pi_payload i))" "header_bytes i \<noteq> []" "0 < int (length (header_bytes i)) + int (length (pi_payload i))"
    using st(2) by (auto simp: header_ok_def header_bytes_def)
  have m: "sn mod 1024 = sn" using assms(1) by (simp add: valid_sn_def)
  obtain e2 b' where poll: "rlc_am_pdu_polling ?e1 f (header_bytes i ! 0) (txp_payload_size (pdu_retrans_buffer ?e1 sn)) = (e2, b')" by fastforce
  obtain q where q: "q \<in> {0, 1}" "(header_bytes i)[0 := b'] = header_bytes (i\<lparr>pi_p := q\<rparr>)" "header_ok (i\<lparr>pi_p := q\<rparr>)"
    using polled_header[OF st(2,3) pdu_polling_frame(2)[OF poll]] header_poll(3)[OF st(2,3)] by blast
  obtain x y z v where "e2 = ?e1\<lparr>c_pdu_without_poll := x, c_byte_without_poll := y, poll_sn := z, t_poll_retransmit := v\<rparr>"
    using pdu_polling_frame(1)[OF poll] by blast
  moreover have "rlc_am_retransmit_get_copy e f sn =
      Some (Some \<lparr>tb_size = pi_header_size i + pi_payload_size i, tb_data = header_bytes (i\<lparr>pi_p := q\<rparr>) @ pi_payload i\<rparr>, e2)"
    using poll st(1,4) len q(2) by (simp add: rlc_am_retransmit_get_copy_def Let_def m nth_append list_update_append)
  ultimately show ?thesis using q(1,3) by blast
qed

text \<open>The PDU to send again with the next grant.\<close>

definition resend_ready :: "rlc_am_entity \<Rightarrow> int \<Rightarrow> rlc_am_pdu_info \<Rightarrow> bool" where
  "resend_ready e sn i \<longleftrightarrow> mac_idle e \<and> \<not> status_due e \<and> first_retrans_pdu_sn e = sn \<and> valid_sn sn \<and> sn \<noteq> vt_s e \<and>
     stored_pdu (pdu_retrans_buffer e sn) sn i \<and> 0 \<le> txp_retx_count (pdu_retrans_buffer e sn)"

lemma no_status: "\<not> status_due e \<Longrightarrow> get_status_pdu f e = Some (False, e)"
  by (auto simp: get_status_pdu_def status_due_def)

lemma data_request_resends:
  assumes "resend_ready e sn i" "2 < nb_bytes_requested_by_mac e" "pi_header_size i + pi_payload_size i \<le> nb_bytes_requested_by_mac e"
    "txp_nack_so_start (pdu_retrans_buffer e sn) = 0" "txp_nack_so_stop (pdu_retrans_buffer e sn) = 0x7FFF"
  shows "\<exists>md e'. \<exists>q\<in>{0, 1}. rlc_am_mac_data_request mem e f = Some (md, e') \<and>
    md_data md = [\<lparr>tb_size = pi_header_size i + pi_payload_size i, tb_data = header_bytes (i\<lparr>pi_p := q\<rparr>) @ pi_payload i\<rparr>] \<and>
    header_ok (i\<lparr>pi_p := q\<rparr>) \<and> mac_idle e' \<and> resent sn e e'"
proof -
  have r: "mac_idle e" "\<not> status_due e" "first_retrans_pdu_sn e = sn" "valid_sn sn" "sn \<noteq> vt_s e"
    "stored_pdu (pdu_retrans_buffer e sn) sn i" "0 \<le> txp_retx_count (pdu_retrans_buffer e sn)"
    using assms(1) by (simp_all add: resend_ready_def)
  have n: "txp_header_and_payload_size (pdu_retrans_buffer e sn) = pi_header_size i + pi_payload_size i" "0 \<le> sn"
    using r(4,6) by (simp_all add: stored_pdu_def valid_sn_def)
  let ?n = "pi_header_size i + pi_payload_size i"
  obtain q x y z v where c: "q \<in> {0, 1}" "header_ok (i\<lparr>pi_p := q\<rparr>)" "rlc_am_retransmit_get_copy e f sn =
      Some (Some \<lparr>tb_size = ?n, tb_data = header_bytes (i\<lparr>pi_p := q\<rparr>) @ pi_payload i\<rparr>,
        (upd_pdu sn (\<lambda>p. p\<lparr>txp_retransmit := False\<rparr>) e)\<lparr>c_pdu_without_poll := x, c_byte_without_poll := y, poll_sn := z, t_poll_retransmit := v\<rparr>)"
    using get_copy_run[OF r(4,6), of f] by blast
  define e1 where "e1 = (upd_pdu sn (\<lambda>p. p\<lparr>txp_retransmit := False\<rparr>) e)\<lparr>c_pdu_without_poll := x, c_byte_without_poll := y, poll_sn := z,
    t_poll_retransmit := v\<rparr>"
  define e2 where "e2 = upd_pdu sn (\<lambda>p. p\<lparr>txp_retx_count := to_int8 (txp_retx_count p + 1)\<rparr>) (e1\<lparr>stats := count_retransmission ?n (stats e1),
    pdus_to_mac_layer := pdus_to_mac_layer e1 @ [\<lparr>tb_size = ?n, tb_data = header_bytes (i\<lparr>pi_p := q\<rparr>) @ pi_payload i\<rparr>],
    nb_bytes_requested_by_mac := nb_bytes_requested_by_mac e1 - ?n\<rparr>)"
  have "get_retransmission f e = Some (True, e2)"
    using assms(2-5) r(3,5,7) n c(3)[folded e1_def] by (simp add: get_retransmission_def Let_def e2_def)
  then have "rlc_am_get_pdus mem e f = Some e2" using r(1) no_status[OF r(2)] by (simp add: rlc_am_get_pdus_def mac_idle_def)
  then obtain md where "rlc_am_mac_data_request mem e f = Some (md, e2\<lparr>pdus_to_mac_layer := []\<rparr>)" "md_data md = pdus_to_mac_layer e2"
    by (rule data_request_of)
  moreover have "pdus_to_mac_layer e2 = [\<lparr>tb_size = ?n, tb_data = header_bytes (i\<lparr>pi_p := q\<rparr>) @ pi_payload i\<rparr>]"
    "mac_idle (e2\<lparr>pdus_to_mac_layer := []\<rparr>)" using r(1) by (simp_all add: e2_def e1_def mac_idle_def)
  moreover have "resent sn e (e2\<lparr>pdus_to_mac_layer := []\<rparr>)" by (simp add: resent_def e2_def e1_def rx_side_def)
  ultimately show ?thesis using c(1,2) by metis
qed

text \<open>
  After a whole retransmission the function returns without moving on to the next marked PDU, so the same
  PDU is sent again with the next grant. Its 8-bit counter wraps after 127 and then it is never sent.
\<close>

lemma resent_again:
  assumes "resend_ready e sn i" "resent sn e e'" "mac_idle e'" "\<not> status_due e'" "txp_retx_count (pdu_retrans_buffer e sn) < 127"
  shows "resend_ready e' sn i"
  using assms by (simp add: resend_ready_def resent_def stored_pdu_def to_int8_def)

lemma counter_wraps:
  assumes "resend_ready e sn i" "resent sn e e'" "txp_retx_count (pdu_retrans_buffer e sn) = 127"
  shows "get_retransmission f e' = Some (False, e')"
  using assms by (simp add: resend_ready_def resent_def to_int8_def get_retransmission_def Let_def)

lemma skip_retransmitted_returns:
  "valid_sn (vt_s e) \<Longrightarrow> valid_sn sn \<Longrightarrow>
   \<exists>sn'. skip_retransmitted e sn = Some sn' \<and> valid_sn sn' \<and> (sn' = vt_s e \<or> txp_retransmit (pdu_retrans_buffer e sn'))"
proof (induction "nat (sn_dist sn (vt_s e))" arbitrary: sn rule: less_induct)
  case less
  show ?case
  proof (cases "sn \<noteq> vt_s e \<and> \<not> txp_retransmit (pdu_retrans_buffer e sn)")
    case True
    have "sn_dist sn (vt_s e) \<noteq> 0" using True less.prems by (simp add: sn_dist_0)
    then have "0 < sn_dist sn (vt_s e)" by (simp add: order_less_le)
    moreover have "sn_dist (sn_mask (sn + 1)) (vt_s e) = sn_dist sn (vt_s e) - 1" using True less.prems by (intro sn_dist_step) auto
    ultimately have "nat (sn_dist (sn_mask (sn + 1)) (vt_s e)) < nat (sn_dist sn (vt_s e))" by linarith
    from less.hyps[OF this less.prems(1) valid_sn_mask] show ?thesis using True by (subst skip_retransmitted.simps) simp
  next
    case False
    then show ?thesis using less.prems by (subst skip_retransmitted.simps) auto
  qed
qed

text \<open>The first PDU to retransmit is one that is marked, or there is none.\<close>

definition next_marked :: "rlc_am_entity \<Rightarrow> bool" where
  "next_marked e \<longleftrightarrow> first_retrans_pdu_sn e = - 1 \<or> valid_sn (first_retrans_pdu_sn e) \<and> txp_retransmit (pdu_retrans_buffer e (first_retrans_pdu_sn e))"

abbreviation whole_due :: "rlc_am_entity \<Rightarrow> int \<Rightarrow> bool" where
  "whole_due e sn \<equiv> txp_header_and_payload_size (pdu_retrans_buffer e sn) \<le> nb_bytes_requested_by_mac e \<and>
     txp_nack_so_start (pdu_retrans_buffer e sn) = 0 \<and> txp_nack_so_stop (pdu_retrans_buffer e sn) = 0x7FFF"

lemma data_request_resends_part:
  assumes "resend_ready e sn i" "8 \<le> nb_bytes_requested_by_mac e" "nb_bytes_requested_by_mac e < 32768" "valid_sn (vt_s e)"
    "front_hole (pdu_retrans_buffer e sn) u" "\<not> whole_due e sn" "s = txp_nack_so_start (pdu_retrans_buffer e sn)"
  shows "\<exists>md e' tb j c p'. rlc_am_mac_data_request mem e f = Some (md, e') \<and> md_data md = [tb] \<and>
    tb_data tb = header_bytes j @ pi_payload j \<and> tb_size tb = pi_header_size j + pi_payload_size j \<and>
    tb_size tb \<le> nb_bytes_requested_by_mac e \<and> header_ok j \<and> 0 < c \<and> s + c \<le> u + 1 \<and> part_of i s c j \<and>
    pdu_retrans_buffer e' = (pdu_retrans_buffer e)(sn := p') \<and> part_sent (pdu_retrans_buffer e sn) s c p' \<and>
    mac_idle e' \<and> next_marked e' \<and> rx_side e' = rx_side e"
proof -
  have r: "mac_idle e" "\<not> status_due e" "first_retrans_pdu_sn e = sn" "valid_sn sn" "sn \<noteq> vt_s e" "0 \<le> sn"
    "stored_pdu (pdu_retrans_buffer e sn) sn i" "0 \<le> txp_retx_count (pdu_retrans_buffer e sn)"
    using assms(1) by (simp_all add: resend_ready_def valid_sn_def)
  have room: "4 < nb_bytes_requested_by_mac e" "2 < nb_bytes_requested_by_mac e" using assms(2) by simp_all
  obtain tb e1 j c p' x y z v where t: "rlc_am_retransmit_get_subsegment e f sn (nb_bytes_requested_by_mac e) = Some (Some tb, nb_bytes_requested_by_mac e - tb_size tb, e1)"
    "tb_data tb = header_bytes j @ pi_payload j" "tb_size tb = pi_header_size j + pi_payload_size j" "tb_size tb \<le> nb_bytes_requested_by_mac e"
    "header_ok j" "0 < c" "s + c \<le> u + 1" "part_of i s c j" "part_sent (pdu_retrans_buffer e sn) s c p'"
    "e1 = e\<lparr>pdu_retrans_buffer := (pdu_retrans_buffer e)(sn := p'), c_pdu_without_poll := x, c_byte_without_poll := y,
       poll_sn := z, t_poll_retransmit := v\<rparr>"
    using subsegment_run[OF r(7) assms(5) room(1) assms(3,7), of f] by blast
  define e2 where "e2 = e1\<lparr>nb_bytes_requested_by_mac := nb_bytes_requested_by_mac e - tb_size tb, stats := count_retransmission (tb_size tb) (stats e1),
    pdus_to_mac_layer := pdus_to_mac_layer e1 @ [tb]\<rparr>"
  have v: "valid_sn (vt_s e2)" "valid_sn (first_retrans_pdu_sn e2)" using assms(4) r(3,4) t(10) by (simp_all add: e2_def)
  obtain sn1 where sn1: "skip_retransmitted e2 (first_retrans_pdu_sn e2) = Some sn1" "valid_sn sn1" "sn1 = vt_s e2 \<or> txp_retransmit (pdu_retrans_buffer e2 sn1)"
    using skip_retransmitted_returns[OF v] by blast
  define e3 where "e3 = e2\<lparr>first_retrans_pdu_sn := (if sn1 = vt_s e2 then - 1 else sn1)\<rparr>"
  have nw: "\<not> (txp_header_and_payload_size (pdu_retrans_buffer e sn) \<le> nb_bytes_requested_by_mac e \<and> txp_retx_count (pdu_retrans_buffer e sn) \<ge> 0 \<and>
      txp_nack_so_start (pdu_retrans_buffer e sn) = 0 \<and> txp_nack_so_stop (pdu_retrans_buffer e sn) = 0x7FFF)" using assms(6) by blast
  have "get_retransmission f e = Some (True, e3)" unfolding get_retransmission_def Let_def r(3) if_not_P[OF nw]
    using assms(2) room r(5,6,8) t(1) sn1(1) by (simp add: e2_def e3_def)
  then have "rlc_am_get_pdus mem e f = Some e3" using r(1) no_status[OF r(2)] by (simp add: rlc_am_get_pdus_def mac_idle_def)
  then obtain md where md: "rlc_am_mac_data_request mem e f = Some (md, e3\<lparr>pdus_to_mac_layer := []\<rparr>)" "md_data md = pdus_to_mac_layer e3"
    by (rule data_request_of)
  have "pdus_to_mac_layer e3 = [tb]" "mac_idle (e3\<lparr>pdus_to_mac_layer := []\<rparr>)" using r(1) t(10) by (simp_all add: e3_def e2_def mac_idle_def)
  moreover have "next_marked (e3\<lparr>pdus_to_mac_layer := []\<rparr>)" using sn1(2,3) by (auto simp: e3_def next_marked_def)
  moreover have "pdu_retrans_buffer (e3\<lparr>pdus_to_mac_layer := []\<rparr>) = (pdu_retrans_buffer e)(sn := p')" "rx_side (e3\<lparr>pdus_to_mac_layer := []\<rparr>) = rx_side e"
    using t(10) by (simp_all add: e3_def e2_def rx_side_def)
  ultimately show ?thesis using md t(2-9)
    by (intro exI[of _ md] exI[of _ "e3\<lparr>pdus_to_mac_layer := []\<rparr>"] exI[of _ tb] exI[of _ j] exI[of _ c] exI[of _ p']) simp
qed

text \<open>
  (C13) A PDU reported missing is what the next grant sends. If no status report is due, the next grant
  of at least eight bytes and less than 32768 gives exactly one block within the grant, which decodes to a PDU of the number to
  retransmit: the stored PDU with at most another poll bit when all of it is missing and it fits, and
  else the bytes of it from the first missing one on, cut within the first hole. The PDU stays stored,
  other PDUs and the receiving side do not change. The entity is in data transfer with nothing left over for MAC; the PDU is
  stored under its number, whole and with positive length indicators, its holes lie within the payload with the enclosing
  range beginning at the first of them, and its retransmission counter is not negative: a counter that the 127th report made wrap to
  -128 keeps the PDU from being sent.
\<close>

theorem grant_retransmits:
  assumes "resend_ready e sn i" "8 \<le> nb_bytes_requested_by_mac e" "nb_bytes_requested_by_mac e < 32768" "valid_sn (vt_s e)"
    "front_hole (pdu_retrans_buffer e sn) u"
  shows "\<exists>md e' tb j. rlc_am_mac_data_request mem e f = Some (md, e') \<and> md_data md = [tb] \<and> tb_size tb \<le> nb_bytes_requested_by_mac e \<and>
    rlc_am_get_data_pdu_infos (tb_data tb) (tb_size tb) = Some (0, j) \<and>
    (if whole_due e sn then j = i\<lparr>pi_p := pi_p j\<rparr>
     else \<exists>c. 0 < c \<and> txp_nack_so_start (pdu_retrans_buffer e sn) + c \<le> u + 1 \<and> part_of i (txp_nack_so_start (pdu_retrans_buffer e sn)) c j \<and>
       part_sent (pdu_retrans_buffer e sn) (txp_nack_so_start (pdu_retrans_buffer e sn)) c (pdu_retrans_buffer e' sn)) \<and>
    txp_mem_block (pdu_retrans_buffer e' sn) = txp_mem_block (pdu_retrans_buffer e sn) \<and>
    (\<forall>x. x \<noteq> sn \<longrightarrow> pdu_retrans_buffer e' x = pdu_retrans_buffer e x) \<and> mac_idle e' \<and> rx_side e' = rx_side e"
proof (cases "whole_due e sn")
  case True
  have "stored_pdu (pdu_retrans_buffer e sn) sn i" "2 < nb_bytes_requested_by_mac e" using assms(1,2) by (simp_all add: resend_ready_def)
  then have n: "pi_header_size i + pi_payload_size i \<le> nb_bytes_requested_by_mac e" using True by (simp add: stored_pdu_def)
  obtain md e' q where r: "rlc_am_mac_data_request mem e f = Some (md, e')"
    "md_data md = [\<lparr>tb_size = pi_header_size i + pi_payload_size i, tb_data = header_bytes (i\<lparr>pi_p := q\<rparr>) @ pi_payload i\<rparr>]"
    "header_ok (i\<lparr>pi_p := q\<rparr>)" "mac_idle e'" "resent sn e e'"
    using data_request_resends[OF assms(1) _ n, of mem f] True assms(2) by auto
  have "rlc_am_get_data_pdu_infos (header_bytes (i\<lparr>pi_p := q\<rparr>) @ pi_payload i) (pi_header_size i + pi_payload_size i) = Some (0, i\<lparr>pi_p := q\<rparr>)"
    using decode_header_bytes[OF r(3)] by simp
  then show ?thesis using True n r(1,2,4,5)
    by (intro exI[of _ md] exI[of _ e'] exI[of _ "hd (md_data md)"] exI[of _ "i\<lparr>pi_p := q\<rparr>"]) (simp add: resent_def)
next
  case False
  obtain md e' tb j c p' where r: "rlc_am_mac_data_request mem e f = Some (md, e')" "md_data md = [tb]"
    "tb_data tb = header_bytes j @ pi_payload j" "tb_size tb = pi_header_size j + pi_payload_size j"
    "tb_size tb \<le> nb_bytes_requested_by_mac e" "header_ok j" "0 < c" "txp_nack_so_start (pdu_retrans_buffer e sn) + c \<le> u + 1"
    "part_of i (txp_nack_so_start (pdu_retrans_buffer e sn)) c j" "pdu_retrans_buffer e' = (pdu_retrans_buffer e)(sn := p')"
    "part_sent (pdu_retrans_buffer e sn) (txp_nack_so_start (pdu_retrans_buffer e sn)) c p'" "mac_idle e'" "rx_side e' = rx_side e"
    using data_request_resends_part[OF assms False refl, of mem f] by blast
  have "rlc_am_get_data_pdu_infos (tb_data tb) (tb_size tb) = Some (0, j)" unfolding r(3,4) by (rule decode_header_bytes[OF r(6)])
  moreover have "txp_mem_block p' = txp_mem_block (pdu_retrans_buffer e sn)" using r(11) by (simp add: part_sent_def)
  moreover have "pdu_retrans_buffer e' sn = p'" "\<forall>x. x \<noteq> sn \<longrightarrow> pdu_retrans_buffer e' x = pdu_retrans_buffer e x" using r(10) by simp_all
  ultimately show ?thesis unfolding if_not_P[OF False] using r(1,2,5,7,8,9,11,12,13)
    by (intro exI[of _ md] exI[of _ e'] exI[of _ tb] exI[of _ j] conjI exI[of _ c]) simp_all
qed

text \<open>The PDU of the segmentation example in a slot that lies in the window, with a grant of eight bytes.\<close>

definition resend_example :: rlc_am_entity where
  "resend_example = part_example\<lparr>protocol_state := RLC_DATA_TRANSFER_READY_STATE, nb_bytes_requested_by_mac := 8,
     first_retrans_pdu_sn := 7, vt_s := 9\<rparr>"

theorem grant_retransmits_witness:
  "\<exists>md e' tb j c. rlc_am_mac_data_request (\<lambda>_. 0) resend_example 3 = Some (md, e') \<and> md_data md = [tb] \<and> tb_size tb \<le> 8 \<and>
     rlc_am_get_data_pdu_infos (tb_data tb) (tb_size tb) = Some (0, j) \<and> 0 < c \<and> part_of part_example_info 0 c j"
proof -
  have h: "header_ok part_example_info" by (simp add: header_ok_def part_example_info_def header_bytes_def)
  have i: "pi_rf part_example_info = 0" "pi_sn part_example_info = 7" "\<forall>l\<in>set (pi_li_list part_example_info). 0 < l"
    "pi_header_size part_example_info = 5" "pi_payload_size part_example_info = 6" by (simp_all add: part_example_info_def)
  have ready: "resend_ready resend_example 7 part_example_info"
    using h i by (simp add: resend_ready_def stored_pdu_def resend_example_def part_example_def zero_entity_def mac_idle_def status_due_def valid_sn_def zero_tx_pdu_def)
  have f: "8 \<le> nb_bytes_requested_by_mac resend_example" "nb_bytes_requested_by_mac resend_example < 32768" "valid_sn (vt_s resend_example)"
    "front_hole (pdu_retrans_buffer resend_example 7) 5" "txp_nack_so_start (pdu_retrans_buffer resend_example 7) = 0"
    "nb_bytes_requested_by_mac resend_example = 8" "\<not> whole_due resend_example 7"
    by (simp_all add: front_hole_def resend_example_def part_example_def zero_tx_pdu_def valid_sn_def)
  show ?thesis using grant_retransmits[OF ready f(1-4), of "\<lambda>_. 0" 3, unfolded if_not_P[OF f(7)], unfolded f(5,6)] by blast
qed

subsection \<open>Repeating a PDU when the poll timer has run out\<close>

definition tx_stored :: "rlc_am_entity \<Rightarrow> int \<Rightarrow> bool" where
  "tx_stored e sn \<longleftrightarrow> txp_mem_block (pdu_retrans_buffer e sn) \<noteq> None"

definition tx_fits :: "rlc_am_entity \<Rightarrow> int \<Rightarrow> bool" where
  "tx_fits e sn \<longleftrightarrow> tx_stored e sn \<and> txp_header_and_payload_size (pdu_retrans_buffer e sn) \<le> nb_bytes_requested_by_mac e"

text \<open>The last number with a property, counted from \<open>a\<close> on up to the distance \<open>n\<close>.\<close>

definition newest :: "int \<Rightarrow> int \<Rightarrow> (int \<Rightarrow> bool) \<Rightarrow> int \<Rightarrow> bool" where
  "newest a n P x \<longleftrightarrow> valid_sn x \<and> 0 < sn_dist a x \<and> sn_dist a x \<le> n \<and> P x \<and>
     (\<forall>y. valid_sn y \<and> sn_dist a x < sn_dist a y \<and> sn_dist a y \<le> n \<longrightarrow> \<not> P y)"

definition no_such :: "int \<Rightarrow> int \<Rightarrow> (int \<Rightarrow> bool) \<Rightarrow> bool" where
  "no_such a n P \<longleftrightarrow> (\<forall>y. valid_sn y \<and> 0 < sn_dist a y \<and> sn_dist a y \<le> n \<longrightarrow> \<not> P y)"

lemma sn_dist_back:
  assumes "valid_sn a" "valid_sn c" "c \<noteq> a"
  shows "sn_dist a (sn_mask (c - 1)) = sn_dist a c - 1"
proof -
  have "sn_mask (c - 1) = (if c = 0 then 1023 else c - 1)" using assms(2) by (auto simp: sn_mask_mod valid_sn_def)
  then show ?thesis using assms by (auto simp: sn_dist_def valid_sn_def mod_diff_less_cases split: if_splits)
qed

lemma sn_dist_at: "valid_sn a \<Longrightarrow> valid_sn x \<Longrightarrow> valid_sn y \<Longrightarrow> sn_dist a x = sn_dist a y \<Longrightarrow> x = y"
  by (auto simp: sn_dist_def valid_sn_def mod_diff_less_cases split: if_splits)

lemma newest_step:
  assumes "valid_sn a" "valid_sn c" "c \<noteq> a"
  shows "P c \<Longrightarrow> newest a (sn_dist a c) P c"
    "\<not> P c \<Longrightarrow> newest a (sn_dist a c) P x = newest a (sn_dist a c - 1) P x"
    "no_such a (sn_dist a c) P = (\<not> P c \<and> no_such a (sn_dist a c - 1) P)"
proof -
  have pos: "0 < sn_dist a c" using assms sn_dist_0[of a c] by (simp add: order_less_le)
  have at: "sn_dist a y \<le> sn_dist a c \<longleftrightarrow> y = c \<or> sn_dist a y \<le> sn_dist a c - 1" if "valid_sn y" for y
    using sn_dist_at[OF assms(1) that assms(2)] by auto
  show "P c \<Longrightarrow> newest a (sn_dist a c) P c" using pos assms(2) by (auto simp: newest_def)
  show "\<not> P c \<Longrightarrow> newest a (sn_dist a c) P x = newest a (sn_dist a c - 1) P x"
    unfolding newest_def using at by metis
  show "no_such a (sn_dist a c) P = (\<not> P c \<and> no_such a (sn_dist a c - 1) P)"
    unfolding no_such_def using at pos assms(2) by metis
qed

lemma any_pdu_search_run:
  "valid_sn a \<Longrightarrow> valid_sn c \<Longrightarrow>
   \<exists>r. any_pdu_search e a c found = Some r \<and>
     (case r of Inl x \<Rightarrow> newest a (sn_dist a c) (tx_fits e) x
      | Inr fo \<Rightarrow> no_such a (sn_dist a c) (tx_fits e) \<and>
          (if found \<noteq> None then fo = found
           else case fo of None \<Rightarrow> no_such a (sn_dist a c) (tx_stored e) | Some x \<Rightarrow> newest a (sn_dist a c) (tx_stored e) x))"
proof (induction "nat (sn_dist a c)" arbitrary: c found rule: less_induct)
  case less
  show ?case
  proof (cases "c = a")
    case True
    then show ?thesis by (subst any_pdu_search.simps) (auto simp: no_such_def sn_dist_def split: option.split)
  next
    case False
    let ?c = "sn_mask (c - 1)" and ?found = "if tx_stored e c \<and> found = None then Some c else found"
    note prev = sn_dist_back[OF less.prems False]
    note st = newest_step[OF less.prems False]
    have "sn_dist a c \<noteq> 0" using sn_dist_0[OF less.prems] False by blast
    then have "nat (sn_dist a ?c) < nat (sn_dist a c)" unfolding prev using sn_dist_range(1)[of a c] by linarith
    note ih = less.hyps[OF this less.prems(1) valid_sn_mask, of ?found, unfolded prev]
    show ?thesis
    proof (cases "tx_fits e c")
      case True
      then have "any_pdu_search e a c found = Some (Inl c)"
        using False by (subst any_pdu_search.simps) (simp add: tx_fits_def tx_stored_def Let_def)
      then show ?thesis using st(1)[of "tx_fits e", OF True] by simp
    next
      case nofit: False
      have "any_pdu_search e a c found = any_pdu_search e a ?c ?found"
        using False nofit by (subst any_pdu_search.simps) (auto simp: tx_fits_def tx_stored_def Let_def)
      moreover have "newest a (sn_dist a c) (tx_stored e) c" if "tx_stored e c" by (rule st(1)[of "tx_stored e", OF that])
      ultimately show ?thesis using ih nofit st(2)[of "tx_fits e"] st(2)[of "tx_stored e"] st(3)
        by (cases "tx_stored e c"; cases found) (auto split: sum.splits option.splits)
    qed
  qed
qed

lemma nack_pdu_stored:
  assumes "tx_ok e" "valid_sn sn" "stored_pdu (pdu_retrans_buffer e sn) sn i"
  shows "\<exists>e'. rlc_am_nack_pdu e f sn 0 0x7FFF = Some e' \<and> tx_ok e' \<and> slot_step sn e e' \<and> stored_pdu (pdu_retrans_buffer e' sn) sn i \<and>
    ack_frame e' = ack_frame e"
proof -
  have "txp_mem_block (pdu_retrans_buffer e sn) \<noteq> None" "header_ok i" "txp_payload_size (pdu_retrans_buffer e sn) = pi_payload_size i"
    using assms(3) by (auto simp: stored_pdu_def)
  moreover have "0 < pi_payload_size i"
  proof -
    have "0 \<le> sum_list (pi_li_list i)" using \<open>header_ok i\<close> by (intro sum_list_nonneg) (auto simp: header_ok_def)
    then show ?thesis using \<open>header_ok i\<close> by (auto simp: header_ok_def)
  qed
  ultimately obtain e' where e': "rlc_am_nack_pdu e f sn 0 0x7FFF = Some e'" "tx_ok e'" "slot_step sn e e'"
    using nack_pdu_whole[OF assms(1,2), of f] by auto
  moreover have "stored_pdu (pdu_retrans_buffer e' sn) sn i" using e'(3) assms(3) by (simp add: slot_step_def same_pdu_def stored_pdu_def)
  ultimately show ?thesis using nack_pdu_rx[OF e'(1)] by blast
qed

lemma force_poll_run:
  assumes "header_ok i" "pi_rf i = 0" "tb = \<lparr>tb_size = n, tb_data = header_bytes i @ pi_payload i\<rparr>"
  shows "\<exists>e'. force_poll f sn tb e = Some e' \<and> pdus_to_mac_layer e' = pdus_to_mac_layer e @
      [\<lparr>tb_size = n, tb_data = header_bytes (i\<lparr>pi_p := 1\<rparr>) @ pi_payload i\<rparr>] \<and>
    pdu_retrans_buffer e' = pdu_retrans_buffer e \<and> tx_ok e' = tx_ok e \<and> vt_a e' = vt_a e \<and> vt_s e' = vt_s e \<and>
    (0 < time_out (t_poll_retransmit e') \<longrightarrow> running (t_poll_retransmit e'))"
proof -
  have ne: "header_bytes i \<noteq> []" "tb_data tb ! 0 = header_bytes i ! 0" using assms(3) by (auto simp: header_bytes_def)
  obtain e1 b1 where poll: "rlc_am_pdu_polling e f (header_bytes i ! 0) (txp_header_and_payload_size (pdu_retrans_buffer e sn)) = (e1, b1)" by fastforce
  obtain x y z v where e1: "e1 = e\<lparr>c_pdu_without_poll := x, c_byte_without_poll := y, poll_sn := z, t_poll_retransmit := v\<rparr>"
    using pdu_polling_frame(1)[OF poll] by blast
  obtain q where q: "q \<in> {0, 1}" "(header_bytes i)[0 := b1] = header_bytes (i\<lparr>pi_p := q\<rparr>)"
    using polled_header[OF assms(1,2) pdu_polling_frame(2)[OF poll]] by blast
  let ?i = "i\<lparr>pi_p := q\<rparr>"
  have "header_bytes ?i ! 0 = b1" using ne(1) arg_cong[OF q(2), of "\<lambda>xs. xs ! 0"] by simp
  then have "(header_bytes ?i)[0 := b1 OR 0x20] = header_bytes (i\<lparr>pi_p := 1\<rparr>)"
    using header_poll(1)[OF header_poll(3)[OF assms(1,2) q(1)]] assms(2) by simp
  then have hb: "(header_bytes i)[0 := b1 OR 0x20] = header_bytes (i\<lparr>pi_p := 1\<rparr>)" unfolding q(2)[symmetric] by simp
  obtain e' where e': "force_poll f sn tb e = Some e'" "e' = (rlc_am_start_timer_poll_retransmit (e1\<lparr>c_pdu_without_poll := 0, c_byte_without_poll := 0\<rparr>) f)\<lparr>
      stats := stats e', pdus_to_mac_layer := pdus_to_mac_layer e @ [\<lparr>tb_size = n, tb_data = header_bytes (i\<lparr>pi_p := 1\<rparr>) @ pi_payload i\<rparr>]\<rparr>"
    using poll ne assms(3) hb by (simp add: force_poll_def Let_def list_update_append e1 rlc_am_start_timer_poll_retransmit_def)
  have "tx_ok e' = tx_ok e" by (rule tx_ok_cong; subst e'(2); simp add: e1 rlc_am_start_timer_poll_retransmit_def)
  moreover have "pdus_to_mac_layer e' = pdus_to_mac_layer e @ [\<lparr>tb_size = n, tb_data = header_bytes (i\<lparr>pi_p := 1\<rparr>) @ pi_payload i\<rparr>]"
    "pdu_retrans_buffer e' = pdu_retrans_buffer e" "vt_a e' = vt_a e" "vt_s e' = vt_s e"
    by (subst e'(2); simp add: e1 rlc_am_start_timer_poll_retransmit_def)+
  moreover have "running (t_poll_retransmit e')" if "0 < time_out (t_poll_retransmit e')"
    using that by (subst e'(2), subst (asm) e'(2)) (simp add: e1 rlc_am_start_timer_poll_retransmit_def split: if_splits)
  ultimately show ?thesis using e'(1) by blast
qed

text \<open>
  (C19) When the poll timer has run out and there is nothing else to send, the search for a PDU to
  repeat ends, and if a stored PDU of the window fits the grant, the newest one that does is sent: the block is that
  PDU with the poll bit set, the PDU stays stored, the window invariant holds and the poll timer
  runs if it has a duration. The window invariant holds before, and every stored PDU is a whole, well framed one under its own number.
\<close>

theorem any_pdu_repeats_newest:
  assumes "tx_ok e" "\<forall>sn. valid_sn sn \<and> tx_stored e sn \<longrightarrow> stored_pdu (pdu_retrans_buffer e sn) sn (info sn)"
    "valid_sn y" "tx_fits e y" "sn_dist (vt_a e) y < tx_span e"
  shows "\<exists>x e'. newest (sn_mask (vt_a e - 1)) (tx_span e) (tx_fits e) x \<and> rlc_am_retransmit_any_pdu e f = Some e' \<and>
    pdus_to_mac_layer e' = pdus_to_mac_layer e @ [\<lparr>tb_size = pi_header_size (info x) + pi_payload_size (info x),
      tb_data = header_bytes ((info x)\<lparr>pi_p := 1\<rparr>) @ pi_payload (info x)\<rparr>] \<and>
    tx_ok e' \<and> txp_mem_block (pdu_retrans_buffer e' x) = txp_mem_block (pdu_retrans_buffer e x) \<and>
    (0 < time_out (t_poll_retransmit e') \<longrightarrow> running (t_poll_retransmit e'))"
proof -
  let ?a = "sn_mask (vt_a e - 1)" and ?c = "sn_mask (vt_s e - 1)"
  note D = tx_okD[OF assms(1)]
  have va: "valid_sn (vt_a e)" using D(2) .
  have span: "sn_dist ?a ?c = tx_span e" by (simp add: sn_dist_def tx_span_def sn_mask_mod mod_diff_eq)
  have d: "sn_dist (vt_a e) y + 1 = sn_dist ?a y"
  proof -
    have "sn_dist ?a y = (sn_dist (vt_a e) y + 1) mod 1024" by (simp add: sn_dist_def sn_mask_mod mod_simps algebra_simps)
    moreover have "sn_dist (vt_a e) y + 1 < 1024" using assms(5) sn_dist_range(2)[of "vt_a e" "vt_s e"] unfolding tx_span_dist by linarith
    ultimately show ?thesis by (simp add: mod_pos_pos_trivial add_nonneg_nonneg)
  qed
  have "0 < sn_dist ?a y" "sn_dist ?a y \<le> tx_span e" using d assms(5) sn_dist_range(1)[of "vt_a e" y] by linarith+
  then have "\<not> no_such ?a (tx_span e) (tx_fits e)" unfolding no_such_def using assms(3,4) by blast
  moreover obtain r where r: "any_pdu_search e ?a ?c None = Some r"
    "case r of Inl x \<Rightarrow> newest ?a (tx_span e) (tx_fits e) x | Inr fo \<Rightarrow> no_such ?a (tx_span e) (tx_fits e) \<and>
      (if None \<noteq> (None :: int option) then fo = None
       else case fo of None \<Rightarrow> no_such ?a (tx_span e) (tx_stored e) | Some x \<Rightarrow> newest ?a (tx_span e) (tx_stored e) x)"
    using any_pdu_search_run[OF valid_sn_mask[of "vt_a e - 1"] valid_sn_mask[of "vt_s e - 1"], of e None, unfolded span] by blast
  ultimately obtain x where x: "any_pdu_search e ?a ?c None = Some (Inl x)" "newest ?a (tx_span e) (tx_fits e) x"
    by (cases r) auto
  then have v: "valid_sn x" "tx_stored e x" by (simp_all add: newest_def tx_fits_def)
  have st: "stored_pdu (pdu_retrans_buffer e x) x (info x)" using assms(2) v by blast
  obtain e1 where e1: "rlc_am_nack_pdu e f x 0 0x7FFF = Some e1" "tx_ok e1" "slot_step x e e1" "stored_pdu (pdu_retrans_buffer e1 x) x (info x)"
    "ack_frame e1 = ack_frame e"
    using nack_pdu_stored[OF assms(1) v(1) st] by blast
  let ?i = "info x"
  have i: "header_ok ?i" "pi_rf ?i = 0" using st by (simp_all add: stored_pdu_def)
  obtain q e2 where c: "q \<in> {0, 1}" "rlc_am_retransmit_get_copy e1 f x =
      Some (Some \<lparr>tb_size = pi_header_size ?i + pi_payload_size ?i, tb_data = header_bytes (?i\<lparr>pi_p := q\<rparr>) @ pi_payload ?i\<rparr>, e2)"
    "tx_ok e2" "pdus_to_mac_layer e2 = pdus_to_mac_layer e" "txp_mem_block (pdu_retrans_buffer e2 x) = txp_mem_block (pdu_retrans_buffer e1 x)"
  proof -
    obtain q x' y z v where r: "q \<in> {0, 1}" "rlc_am_retransmit_get_copy e1 f x =
        Some (Some \<lparr>tb_size = pi_header_size ?i + pi_payload_size ?i, tb_data = header_bytes (?i\<lparr>pi_p := q\<rparr>) @ pi_payload ?i\<rparr>,
        (upd_pdu x (\<lambda>p. p\<lparr>txp_retransmit := False\<rparr>) e1)\<lparr>c_pdu_without_poll := x', c_byte_without_poll := y, poll_sn := z, t_poll_retransmit := v\<rparr>)"
      using get_copy_run[OF v(1) e1(4), of f] by blast
    have "tx_ok ((upd_pdu x (\<lambda>p. p\<lparr>txp_retransmit := False\<rparr>) e1)\<lparr>c_pdu_without_poll := x', c_byte_without_poll := y, poll_sn := z, t_poll_retransmit := v\<rparr>) = tx_ok e1"
      by (rule tx_ok_cong) (simp_all add: pdu_sdus_def)
    then show ?thesis using that[OF r] e1(2,5) by (simp add: ack_frame_def mac_side_def)
  qed
  have "header_ok (?i\<lparr>pi_p := q\<rparr>)" by (rule header_poll(3)[OF i c(1)])
  from force_poll_run[OF this, of _ _ f x e2] obtain e' where e':
    "force_poll f x \<lparr>tb_size = pi_header_size ?i + pi_payload_size ?i, tb_data = header_bytes (?i\<lparr>pi_p := q\<rparr>) @ pi_payload ?i\<rparr> e2 = Some e'"
    "pdus_to_mac_layer e' = pdus_to_mac_layer e2 @ [\<lparr>tb_size = pi_header_size ?i + pi_payload_size ?i, tb_data = header_bytes (?i\<lparr>pi_p := 1\<rparr>) @ pi_payload ?i\<rparr>]"
    "pdu_retrans_buffer e' = pdu_retrans_buffer e2" "tx_ok e' = tx_ok e2" "0 < time_out (t_poll_retransmit e') \<longrightarrow> running (t_poll_retransmit e')"
    using i(2) by (simp add: ex_simps) blast
  have "rlc_am_retransmit_any_pdu e f = Some e'"
    using x(1) e1(1) c(2) e'(1) by (simp add: rlc_am_retransmit_any_pdu_def)
  moreover have "txp_mem_block (pdu_retrans_buffer e' x) = txp_mem_block (pdu_retrans_buffer e x)"
    using e'(3) c(5) e1(3) by (simp add: slot_step_def same_pdu_def)
  ultimately show ?thesis using x(2) e'(2,4,5) c(3,4) by (intro exI[of _ x] exI[of _ e'] conjI) simp_all
qed

definition repeat_example :: rlc_am_entity where
  "repeat_example = part_example\<lparr>vt_a := 7, vt_s := 8, vt_ms := 519, nb_bytes_requested_by_mac := 11\<rparr>"

theorem any_pdu_repeats_newest_witness:
  "\<exists>x e'. newest 6 1 (tx_fits repeat_example) x \<and> rlc_am_retransmit_any_pdu repeat_example 3 = Some e' \<and>
     pdus_to_mac_layer e' = [\<lparr>tb_size = 11, tb_data = header_bytes (part_example_info\<lparr>pi_p := 1\<rparr>) @ [1, 2, 3, 4, 5, 6]\<rparr>]"
proof -
  have "header_ok part_example_info" by (simp add: header_ok_def part_example_info_def header_bytes_def)
  then have st: "\<forall>sn. valid_sn sn \<and> tx_stored repeat_example sn \<longrightarrow> stored_pdu (pdu_retrans_buffer repeat_example sn) sn part_example_info"
    by (auto simp: tx_stored_def stored_pdu_def repeat_example_def part_example_def zero_tx_pdu_def part_example_info_def)
  have ok: "tx_ok repeat_example"
    by (auto simp: tx_ok_def tx_slots_ok_def tx_slot_ok_def tx_span_def repeat_example_def part_example_def zero_tx_pdu_def zero_entity_def
        valid_sn_def sn_mask_mod pdu_sdus_def sdu_index_ok_def Let_def mod_diff_less_cases split: if_splits)
  have f: "valid_sn 7" "tx_fits repeat_example 7" "sn_dist (vt_a repeat_example) 7 < tx_span repeat_example"
    "sn_mask (vt_a repeat_example - 1) = 6" "tx_span repeat_example = 1" "pdus_to_mac_layer repeat_example = []"
    by (simp_all add: valid_sn_def tx_fits_def tx_stored_def repeat_example_def part_example_def sn_dist_def tx_span_def sn_mask_mod zero_entity_def)
  have i: "pi_header_size part_example_info + pi_payload_size part_example_info = 11" "pi_payload part_example_info = [1, 2, 3, 4, 5, 6]"
    by (simp_all add: part_example_info_def)
  show ?thesis using any_pdu_repeats_newest[OF ok st f(1-3), of 3, unfolded f(4-6) i append_Nil] by blast
qed

end
