(* ===== verification/Rlc_Am_Recovery.thy ===== *)
theory Rlc_Am_Recovery
  imports Rlc_Am_Grant Rlc_Am_Link
begin

text \<open>
  The two ends of a bearer through the loss of a PDU: the receiving entity answers a grant with its
  status report, the sending entity takes the report and answers a grant with the missing PDU, and the
  receiving entity delivers that PDU and the ones stored behind it. All steps are calls of the
  interface functions of \<^verbatim>\<open>rlc_am.c\<close> that MAC uses.
\<close>

subsection \<open>The round of calls\<close>

definition as_ind :: "mac_data_req \<Rightarrow> mac_tb_ind list" where
  "as_ind md = map (\<lambda>tb. \<lparr>ti_data = tb_data tb, ti_size = tb_size tb\<rparr>) (md_data md)"

definition recovery_round :: "(nat \<Rightarrow> byte) \<Rightarrow> frame \<Rightarrow> int \<Rightarrow> rlc_am_entity \<Rightarrow> rlc_am_entity \<Rightarrow> (rlc_am_entity \<times> rlc_am_entity) option" where
  "recovery_round mem f n et er =
     do {
       (report, er1) \<leftarrow> rlc_am_mac_data_request mem er f;
       et1 \<leftarrow> rlc_am_mac_data_indication et f (as_ind report);
       (pdu, et2) \<leftarrow> rlc_am_mac_data_request mem (et1\<lparr>nb_bytes_requested_by_mac := n\<rparr>) f;
       er2 \<leftarrow> rlc_am_mac_data_indication er1 f (as_ind pdu);
       Some (et2, er2)
     }"

subsection \<open>The report at the sending entity\<close>

lemma report_whole_nacks:
  assumes "reports e k info" "valid_sn (vr_r e)"
  shows "whole_nacks (vr_r e) (sn_mask k) (ci_nack_list info)"
proof -
  let ?v = "vr_r e" and ?nks = "ci_nack_list info"
  have r: "\<forall>nk\<in>set ?nks. so_start nk = 0 \<and> so_end nk = 0x7FFF" "map nack_sn ?nks = missing (receiver_buffer e) ?v k"
    "?v \<le> k" "k \<le> 1024" "k \<le> ?v + 512" using assms(1) by (auto simp: reports_def)
  have v: "0 \<le> ?v" using assms(2) by (simp add: valid_sn_def)
  have ack: "sn_dist ?v (sn_mask k) = k - ?v" using r(3,5) by (simp add: sn_dist_def sn_mask_mod mod_diff_left_eq mod_pos_pos_trivial)
  have el: "?v \<le> nack_sn nk \<and> nack_sn nk < k" if "nk \<in> set ?nks" for nk
    using arg_cong[OF r(2), of set] that by (force simp: missing_def)
  then have d: "sn_dist ?v (nack_sn nk) = nack_sn nk - ?v" if "nk \<in> set ?nks" for nk
    using that r(4) v by (fastforce simp: sn_dist_def intro: mod_pos_pos_trivial)
  have "sorted_wrt (<) (missing (receiver_buffer e) ?v k)" unfolding missing_def by (intro sorted_wrt_filter sorted_wrt_upto)
  then have "sorted_wrt (\<lambda>a b. nack_sn a < nack_sn b) ?nks" unfolding r(2)[symmetric] by (simp add: sorted_wrt_map)
  then have "sorted_wrt (\<lambda>a b. sn_dist ?v (nack_sn a) < sn_dist ?v (nack_sn b)) ?nks"
    by (rule sorted_wrt_mono_rel[rotated]) (simp add: d)
  moreover have "valid_sn (nack_sn nk) \<and> sn_dist ?v (nack_sn nk) < sn_dist ?v (sn_mask k)" if "nk \<in> set ?nks" for nk
    unfolding ack d[OF that] using el[OF that] v r(4) by (auto simp: valid_sn_def)
  ultimately show ?thesis using r(1) by (auto simp: whole_nacks_def list_all_iff)
qed

lemma control_bit:
  assumes "buf_bits bs = status_bits info @ post"
  shows "bs \<noteq> []" "bs ! 0 AND 0x80 \<noteq> 0x80"
proof -
  show "bs \<noteq> []" using arg_cong[OF assms, of length] by (auto simp: status_bits_def)
  then have "buf_bits bs ! 0 = membit bs 0" by simp
  moreover have "buf_bits bs ! 0 = False" unfolding assms by (simp add: status_bits_def nth_append)
  ultimately have "\<not> bit (bs ! 0) 7" by (simp add: membit_def)
  moreover have "bit (0x80 :: byte) 7" by code_simp
  ultimately show "bs ! 0 AND 0x80 \<noteq> 0x80" by (metis bit_and_iff)
qed

text \<open>
  The sending entity holds every PDU the receiving entity lacks: the windows start at the same number
  and each number reported missing up to \<open>k\<close> is stored.
\<close>

definition holds_missing :: "rlc_am_entity \<Rightarrow> rlc_am_entity \<Rightarrow> (int \<Rightarrow> rlc_am_pdu_info) \<Rightarrow> int \<Rightarrow> bool" where
  "holds_missing et er pdus k \<longleftrightarrow> vt_a et = vr_r er \<and> (\<forall>sn\<in>set (missing (receiver_buffer er) (vr_r er) k). stored_pdu (pdu_retrans_buffer et sn) sn (pdus sn))"

lemma header_payload_pos: "header_ok i \<Longrightarrow> 0 < pi_payload_size i"
proof -
  assume h: "header_ok i"
  then have "0 \<le> sum_list (pi_li_list i)" by (intro sum_list_nonneg) (auto simp: header_ok_def)
  then show ?thesis using h by (auto simp: header_ok_def)
qed

lemma sender_takes_report:
  assumes "tx_ok et" "mac_idle et" "first_retrans_pdu_sn et < 0" "reports er k info" "encodes bs l info" "valid_sn (vr_r er)"
    "vr_r er < k" "k < vr_r er + 512" "\<forall>x\<in>set (receiver_buffer er). vr_r er < rx_sn x" "holds_missing et er pdus k"
  shows "\<exists>et'. rlc_am_mac_data_indication et f [\<lparr>ti_data = bs, ti_size = int l\<rparr>] = Some et' \<and> tx_ok et' \<and> vt_s et' = vt_s et \<and>
    edge_first (vr_r er) et' \<and> slot_result et et' (set (missing (receiver_buffer er) (vr_r er) k)) (vr_r er) \<and> ack_frame et' = ack_frame et"
proof -
  let ?v = "vr_r er" and ?m = "missing (receiver_buffer er) (vr_r er) k" and ?nks = "ci_nack_list info"
  let ?e1 = "et\<lparr>stats := (stats et)\<lparr>stat_rx_control_bytes := stat_rx_control_bytes (stats et) + word_of_int (int l),
    stat_rx_control_pdu := stat_rx_control_pdu (stats et) + 1\<rparr>\<rparr>"
  have r: "ci_ack_sn info = sn_mask k" "status_ok info" "map nack_sn ?nks = ?m" using assms(4) by (auto simp: reports_def)
  have w: "whole_nacks ?v (sn_mask k) ?nks" by (rule report_whole_nacks[OF assms(4,6)])
  have va: "vt_a et = ?v" using assms(10) by (simp add: holds_missing_def)
  have "?v \<in> set ?m" using assms(7,9) by (auto simp: missing_def)
  then have nk: "?v \<in> nack_sn ` set ?nks" "?nks \<noteq> []" unfolding r(3)[symmetric] by auto
  have set: "nack_sn ` set ?nks = set ?m" unfolding r(3)[symmetric] by simp
  have ack: "sn_dist ?v (sn_mask k) = k - ?v" using assms(7,8) by (simp add: sn_dist_def sn_mask_mod mod_diff_left_eq mod_pos_pos_trivial)
  have st: "\<forall>nk\<in>set ?nks. txp_mem_block (pdu_retrans_buffer et (nack_sn nk)) \<noteq> None \<and> 0 < txp_payload_size (pdu_retrans_buffer et (nack_sn nk))"
  proof
    fix nk assume "nk \<in> set ?nks"
    then have "stored_pdu (pdu_retrans_buffer et (nack_sn nk)) (nack_sn nk) (pdus (nack_sn nk))"
      using assms(10) set by (auto simp: holds_missing_def)
    then show "txp_mem_block (pdu_retrans_buffer et (nack_sn nk)) \<noteq> None \<and> 0 < txp_payload_size (pdu_retrans_buffer et (nack_sn nk))"
      using header_payload_pos by (auto simp: stored_pdu_def)
  qed
  have e1: "tx_ok ?e1" by (rule iffD2[OF tx_ok_cong assms(1)]) simp_all
  have enc: "0 < l" "l = (length (status_bits info) + 7) div 8" "buf_bits bs = status_bits info @ replicate (8 * length bs - length (status_bits info)) False"
    using assms(5) unfolding encodes_def by blast+
  obtain et' where e': "rlc_am_receive_process_control_pdu ?e1 f bs (int l) = Some (et', drop l bs, 0)" "tx_ok et'" "vt_s et' = vt_s et"
    "slot_result ?e1 et' (nack_sn ` set ?nks) ?v" "edge_first ?v et'"
  proof -
    have a: "sn_dist (vt_a ?e1) (ci_ack_sn info) < 512" "whole_nacks (vt_a ?e1) (ci_ack_sn info) ?nks" "sn_dist ?v ?v < k - ?v" "first_retrans_pdu_sn ?e1 < 0"
      using va w assms(3,7,8) by (simp_all add: r(1) ack, simp add: sn_dist_def)
    have b: "vt_a ?e1 = ?v" "ci_ack_sn info = sn_mask k" using va r(1) by simp_all
    have "\<forall>nk\<in>set ?nks. txp_mem_block (pdu_retrans_buffer ?e1 (nack_sn nk)) \<noteq> None \<and> 0 < txp_payload_size (pdu_retrans_buffer ?e1 (nack_sn nk))"
      using st by simp
    from receive_nacks[OF e1 r(2) nk(2) enc(3) a(1,2) this, of f "int l", folded enc(2), unfolded b ack] show ?thesis
      using that nk(1) a(3,4) assms(6) by auto
  qed
  have "receive_tb f \<lparr>ti_data = bs, ti_size = int l\<rparr> et = Some et'"
    using e'(1) enc(1) control_bit[OF enc(3)] by (simp add: receive_tb_def Let_def)
  then have "rlc_am_mac_data_indication et f [\<lparr>ti_data = bs, ti_size = int l\<rparr>] = Some et'"
    using assms(2) by (simp add: rlc_am_mac_data_indication_def rlc_am_rx_def mac_idle_def)
  moreover have "slot_result et et' (set ?m) ?v" using e'(4) nk(1) unfolding set by (simp add: slot_result_def)
  moreover have "ack_frame et' = ack_frame et" using control_pdu_rx[OF e'(1)] by simp
  ultimately show ?thesis using e'(2,3,5) by blast
qed

subsection \<open>The missing PDU at the receiving entity\<close>

text \<open>The PDU with the expected number is followed by what is stored behind it.\<close>

definition released :: "rlc_am_entity \<Rightarrow> rlc_am_pdu_info \<Rightarrow> rx_pdu list" where
  "released e i = \<lparr>pdu_info = i, all_segments_received = True\<rparr> # seq_run (vr_r e + 1) (receiver_buffer e)"

lemma expected_first:
  assumes "\<forall>x\<in>set (receiver_buffer e). vr_r e < rx_sn x" "rx_sn q = vr_r e"
  shows "ins_pdu q (receiver_buffer e) = q # receiver_buffer e"
    "seq_run (vr_r e) (ins_pdu q (receiver_buffer e)) = q # seq_run (vr_r e + 1) (receiver_buffer e)"
proof -
  have "filter (\<lambda>x. rx_sn x < rx_sn q) (receiver_buffer e) = []" "filter (\<lambda>x. rx_sn q < rx_sn x) (receiver_buffer e) = receiver_buffer e"
    using assms by (auto simp: filter_empty_conv filter_id_conv)
  then show "ins_pdu q (receiver_buffer e) = q # receiver_buffer e" by (simp add: ins_pdu_def)
  then show "seq_run (vr_r e) (ins_pdu q (receiver_buffer e)) = q # seq_run (vr_r e + 1) (receiver_buffer e)" using assms(2) by simp
qed

lemma poll_irrelevant:
  "stream_sdus a (\<lparr>pdu_info = i\<lparr>pi_p := q\<rparr>, all_segments_received = True\<rparr> # xs) = stream_sdus a (\<lparr>pdu_info = i, all_segments_received = True\<rparr> # xs)"
  by (simp add: pdu_sdus_of_def pieces_def starts_sdu_def ends_sdu_def)

definition catches_up :: "rlc_am_entity \<Rightarrow> rlc_am_pdu_info \<Rightarrow> rlc_am_entity \<Rightarrow> bool" where
  "catches_up e i e' \<longleftrightarrow> rx_seq e' \<and> vr_r e' = sn_mask (vr_r e + int (length (released e i))) \<and>
     receiver_buffer e' = drop (length (released e i) - 1) (receiver_buffer e) \<and>
     log_data_ind e' = log_data_ind e @ fst (stream_sdus (sdu_acc e) (released e i)) \<and>
     sdu_acc e' = snd (stream_sdus (sdu_acc e) (released e i))"

lemma receiver_catches_up:
  assumes "rx_seq er" "protocol_state er = RLC_DATA_TRANSFER_READY_STATE" "header_ok i" "pi_rf i = 0" "\<forall>l\<in>set (pi_li_list i). 0 < l" "pi_sn i = vr_r er" "q \<in> {0, 1}"
    "sd = stream_sdus (sdu_acc er) (released er i)" "\<forall>d\<in>set (fst sd @ [snd sd]). int (length d) \<le> RLC_SDU_MAX_SIZE"
  shows "\<exists>er'. rlc_am_mac_data_indication er f [\<lparr>ti_data = header_bytes (i\<lparr>pi_p := q\<rparr>) @ pi_payload i, ti_size = pi_header_size i + pi_payload_size i\<rparr>] = Some er' \<and>
    catches_up er i er'"
proof -
  let ?i = "i\<lparr>pi_p := q\<rparr>" and ?n = "pi_header_size i + pi_payload_size i"
  let ?q = "\<lparr>pdu_info = ?i, all_segments_received = True\<rparr>"
  let ?e1 = "er\<lparr>stats := (stats er)\<lparr>stat_rx_data_bytes := stat_rx_data_bytes (stats er) + word_of_int ?n,
    stat_rx_data_pdu := stat_rx_data_pdu (stats er) + 1\<rparr>\<rparr>"
  have h: "header_ok ?i" by (rule header_poll(3)[OF assms(3,4,7)])
  have e1: "rx_seq ?e1" "receiver_buffer ?e1 = receiver_buffer er" "vr_r ?e1 = vr_r er" "sdu_acc ?e1 = sdu_acc er" "log_data_ind ?e1 = log_data_ind er"
    using assms(1) sdu_state_ok_cong[of ?e1 er] by (simp_all add: rx_seq_def sdu_acc_def)
  have above: "\<forall>x\<in>set (receiver_buffer er). vr_r er < rx_sn x" using assms(1) by (auto simp: rx_seq_def stored_ok_def)
  have sn: "rx_sn ?q = vr_r er" using assms(6) by simp
  note ins = expected_first[OF above sn]
  have run: "stream_sdus (sdu_acc er) (seq_run (vr_r er) (ins_pdu ?q (receiver_buffer er))) = stream_sdus (sdu_acc er) (released er i)"
    unfolding ins(2) released_def by (rule poll_irrelevant)
  have sd: "sd = stream_sdus (sdu_acc ?e1) (seq_run (vr_r ?e1) (ins_pdu ?q (receiver_buffer ?e1)))" unfolding e1 run by (rule assms(8))
  have w: "vr_r ?e1 \<le> pi_sn ?i" "pi_sn ?i < vr_r ?e1 + 512" using assms(6) by simp_all
  have rf: "pi_rf ?i = 0" "\<forall>l\<in>set (pi_li_list ?i). 0 < l" using assms(4,5) by simp_all
  have "\<not> (\<exists>x\<in>set (receiver_buffer ?e1). rx_sn x = pi_sn ?i)" using above assms(6) by auto
  then obtain er' where er': "rlc_am_receive_process_data_pdu ?e1 f (header_bytes ?i @ pi_payload ?i) (pi_header_size ?i + pi_payload_size ?i) = Some er'"
    "rx_seq er'" "receives ?e1 ?q er'"
    using receive_run[OF e1(1) h rf w refl sd assms(9), of f] by auto
  have n: "0 < ?n" "?n < 32768" "header_bytes ?i \<noteq> []" using h by (auto simp: header_ok_def header_bytes_def)
  then have "receive_tb f \<lparr>ti_data = header_bytes ?i @ pi_payload i, ti_size = ?n\<rparr> er = Some er'"
    using er'(1) data_bit[OF h] unfolding receive_tb_def by (simp add: Let_def nth_append to_uint16_id)
  then have "rlc_am_mac_data_indication er f [\<lparr>ti_data = header_bytes ?i @ pi_payload i, ti_size = ?n\<rparr>] = Some er'"
    using assms(2) by (simp add: rlc_am_mac_data_indication_def rlc_am_rx_def)
  moreover have "catches_up er i er'"
    using er'(2,3) unfolding receives_def Let_def e1 run catches_up_def unfolding ins(2) unfolding ins(1) released_def by simp
  ultimately show ?thesis by blast
qed

subsection \<open>A lost PDU is recovered\<close>

lemma edge_ready:
  assumes "edge_first sn e" "mac_idle e" "\<not> status_due e" "sn \<noteq> vt_s e" "stored_pdu p sn i" "same_pdu p (pdu_retrans_buffer e sn)"
    "nacked_whole p (pdu_retrans_buffer e sn)" "- 1 \<le> txp_retx_count p" "txp_retx_count p < 127"
  shows "resend_ready e sn i"
proof -
  have "0 \<le> txp_retx_count (pdu_retrans_buffer e sn)" using assms(7-9) by (auto simp: nacked_whole_def to_int8_def)
  moreover have "stored_pdu (pdu_retrans_buffer e sn) sn i" using assms(5,6) by (simp add: same_pdu_def stored_pdu_def)
  ultimately show ?thesis using assms(1-4) by (simp add: resend_ready_def edge_first_def)
qed

text \<open>
  (C2) A lost PDU is recovered. The receiving entity waits for a number and has stored later ones, a
  status report is due and the grant for it has more than 771 bytes; the sending entity still holds all PDUs the
  other end lacks, its window starts at the awaited number, nothing is scheduled for retransmission and it owes
  no report itself. Both are in data transfer with nothing left over for MAC. Then one round of the calls MAC makes
  completes without an abort: the report, its processing, the
  retransmission under a grant that the PDU fits in, and its reception. After it the receiving entity has
  delivered the SDUs of the lost PDU and of the PDUs stored behind it without a gap, in order, and waits
  for the next missing number. Conditions on the state: the window invariant of the sender holds; the receiver has stored only whole PDUs, their numbers do not pass the wrap from 1023 to 0 and the
  last one is below \<^verbatim>\<open>VR(R)\<close> + 511 (the report of a full window is ignored by the sender); the PDUs are
  well framed with positive length indicators; the retransmission counter of the lost PDU is from -1 to 126 (at 127 it wraps
  and the PDU is not sent); and no SDU has more than 9000 bytes.
\<close>

theorem lost_pdu_recovered:
  assumes "mac_idle er" "rx_in_window er" "771 < nb_bytes_requested_by_mac er" "status_due er"
    "receiver_buffer er \<noteq> []" "rx_sn (last (receiver_buffer er)) < vr_r er + 511"
    "tx_ok et" "mac_idle et" "first_retrans_pdu_sn et < 0" "\<not> status_due et" "vt_s et \<noteq> vt_a et"
    "holds_missing et er pdus (rx_sn (last (receiver_buffer er)) + 1)"
    "i = pdus (vr_r er)" "- 1 \<le> txp_retx_count (pdu_retrans_buffer et (vr_r er))" "txp_retx_count (pdu_retrans_buffer et (vr_r er)) < 127"
    "pi_header_size i + pi_payload_size i \<le> n" "sd = stream_sdus (sdu_acc er) (released er i)" "\<forall>d\<in>set (fst sd @ [snd sd]). int (length d) \<le> RLC_SDU_MAX_SIZE"
  shows "\<exists>et' er'. recovery_round mem f n et er = Some (et', er') \<and> catches_up er i er' \<and>
    txp_mem_block (pdu_retrans_buffer et' (vr_r er)) = txp_mem_block (pdu_retrans_buffer et (vr_r er))"
proof -
  let ?v = "vr_r er" and ?k = "rx_sn (last (receiver_buffer er)) + 1"
  have rx: "rx_seq er" "valid_sn ?v" "\<forall>x\<in>set (receiver_buffer er). ?v < rx_sn x"
    using assms(2) by (auto simp: rx_in_window_def rx_seq_def stored_ok_def)
  have k: "last_sn (?v - 1) (receiver_buffer er) + 1 = ?k" "?v < ?k" "?k < ?v + 512"
    using assms(5,6) rx(3) by (simp_all add: last_sn_def less_imp_le add_strict_increasing2)
  obtain md1 er1 bs l info where a: "rlc_am_mac_data_request mem er f = Some (md1, er1)" "md_data md1 = [\<lparr>tb_size = int l, tb_data = bs\<rparr>]"
    "encodes bs l info" "reports er ?k info" "mac_idle er1" "rx_side er1 = rx_side (er\<lparr>status_requested := False\<rparr>)"
    using data_request_status[OF assms(1,2) _ assms(4), of mem f] assms(3) k(1) by auto
  obtain et1 where b: "rlc_am_mac_data_indication et f [\<lparr>ti_data = bs, ti_size = int l\<rparr>] = Some et1" "tx_ok et1" "vt_s et1 = vt_s et" "edge_first ?v et1"
    "slot_result et et1 (set (missing (receiver_buffer er) ?v ?k)) ?v" "ack_frame et1 = ack_frame et"
    using sender_takes_report[OF assms(7,8,9) a(4,3) rx(2) k(2,3) rx(3) assms(12), of f] by blast
  have mem: "?v \<in> set (missing (receiver_buffer er) ?v ?k)" using k(2) rx(3) by (auto simp: missing_def)
  then have st: "stored_pdu (pdu_retrans_buffer et ?v) ?v i" "vt_a et = ?v" using assms(12,13) by (auto simp: holds_missing_def)
  have slot: "same_pdu (pdu_retrans_buffer et ?v) (pdu_retrans_buffer et1 ?v)" "nacked_whole (pdu_retrans_buffer et ?v) (pdu_retrans_buffer et1 ?v)"
    using b(5) mem by (simp_all add: slot_result_def)
  let ?et1 = "et1\<lparr>nb_bytes_requested_by_mac := n\<rparr>"
  have "mac_idle ?et1" "\<not> status_due ?et1" using assms(8,10) b(6) by (simp_all add: ack_frame_def rx_side_def mac_side_def mac_idle_def status_due_def)
  moreover have "edge_first ?v ?et1" using b(4) by (simp add: edge_first_def)
  ultimately have ready: "resend_ready ?et1 ?v i" using edge_ready[OF _ _ _ _ st(1)] slot assms(11,14,15) b(3) st(2) by simp
  have i: "header_ok i" "pi_rf i = 0" "\<forall>l\<in>set (pi_li_list i). 0 < l" "pi_sn i = ?v" using st(1) by (simp_all add: stored_pdu_def)
  have "pi_header_size i = int (length (header_bytes i))" using i(1) by (simp add: header_ok_def)
  then have "2 \<le> pi_header_size i" by (simp add: header_bytes_def)
  then have "2 < n" using assms(16) header_payload_pos[OF i(1)] by linarith
  then obtain md2 et2 q where c: "q \<in> {0, 1}" "rlc_am_mac_data_request mem ?et1 f = Some (md2, et2)"
    "md_data md2 = [\<lparr>tb_size = pi_header_size i + pi_payload_size i, tb_data = header_bytes (i\<lparr>pi_p := q\<rparr>) @ pi_payload i\<rparr>]" "resent ?v ?et1 et2"
    using data_request_resends[OF ready, of mem f] assms(16) slot(2) by (auto simp: nacked_whole_def)
  have side: "vr_r er1 = ?v" "vr_mr er1 = vr_mr er" "receiver_buffer er1 = receiver_buffer er" "sdu_acc er1 = sdu_acc er" "log_data_ind er1 = log_data_ind er"
    "sdu_state_ok er1 = sdu_state_ok er"
    using a(6) sdu_state_ok_cong[of er1 er] by (simp_all add: rx_side_def sdu_acc_def)
  then have same: "rx_seq er1" "released er1 i = released er i" "catches_up er1 i er' = catches_up er i er'" for er'
    using rx(1) by (simp_all add: rx_seq_def released_def catches_up_def)
  have sd: "sd = stream_sdus (sdu_acc er1) (released er1 i)" unfolding side(4) same(2) by (rule assms(17))
  have pr: "protocol_state er1 = RLC_DATA_TRANSFER_READY_STATE" "pi_sn i = vr_r er1" using a(5) i(4) side(1) by (simp_all add: mac_idle_def)
  obtain er2 where d: "rlc_am_mac_data_indication er1 f [\<lparr>ti_data = header_bytes (i\<lparr>pi_p := q\<rparr>) @ pi_payload i, ti_size = pi_header_size i + pi_payload_size i\<rparr>] = Some er2"
    "catches_up er i er2"
    using receiver_catches_up[OF same(1) pr(1) i(1-3) pr(2) c(1) sd assms(18), of f] same(3) by blast
  have "recovery_round mem f n et er = Some (et2, er2)"
    using a(1,2) b(1) c(2,3) d(1) by (simp add: recovery_round_def as_ind_def)
  moreover have "txp_mem_block (pdu_retrans_buffer et2 ?v) = txp_mem_block (pdu_retrans_buffer et ?v)"
    using c(4) slot(1) by (simp add: resent_def same_pdu_def)
  ultimately show ?thesis using d(2) by blast
qed

text \<open>PDU 4 is lost, PDU 5 is stored at the receiving entity; both are in flight at the sending one.\<close>

definition recovery_pdu :: "int \<Rightarrow> rlc_am_pdu_info" where
  "recovery_pdu sn = rx_info sn 0 [7, 7]"

definition recovery_slot :: "int \<Rightarrow> rlc_am_tx_data_pdu_management" where
  "recovery_slot sn = zero_tx_pdu\<lparr>txp_mem_block := Some \<lparr>tb_size = 4, tb_data = header_bytes (recovery_pdu sn) @ [7, 7]\<rparr>,
     txp_payload := 2, txp_payload_size := 2, txp_header_and_payload_size := 4, txp_retx_count := - 1\<rparr>"

definition recovery_tx :: rlc_am_entity where
  "recovery_tx = zero_entity\<lparr>protocol_state := RLC_DATA_TRANSFER_READY_STATE, vt_a := 4, vt_s := 6, vt_ms := 516, first_retrans_pdu_sn := - 1,
     pdu_retrans_buffer := (\<lambda>_. zero_tx_pdu)(4 := recovery_slot 4, 5 := recovery_slot 5)\<rparr>"

definition recovery_rx :: rlc_am_entity where
  "recovery_rx = zero_entity\<lparr>protocol_state := RLC_DATA_TRANSFER_READY_STATE, vr_r := 4, vr_mr := 516, status_requested := True,
     nb_bytes_requested_by_mac := 800, receiver_buffer := [\<lparr>pdu_info = recovery_pdu 5, all_segments_received = True\<rparr>]\<rparr>"

lemma recovery_pdu_ok:
  assumes "0 \<le> sn" "sn < 1024"
  shows "header_ok (recovery_pdu sn)" "stored_pdu (recovery_slot sn) sn (recovery_pdu sn)"
proof -
  show h: "header_ok (recovery_pdu sn)" using assms by (simp add: header_ok_def recovery_pdu_def rx_info_def header_bytes_def)
  show "stored_pdu (recovery_slot sn) sn (recovery_pdu sn)" using h unfolding stored_pdu_def recovery_slot_def by (simp add: recovery_pdu_def rx_info_def)
qed

lemma recovery_tx_ok: "tx_ok recovery_tx"
proof -
  have "tx_slot_ok recovery_tx sn" if "0 \<le> sn" "sn < 1024" for sn
    using that by (auto simp: tx_slot_ok_def tx_span_def recovery_tx_def recovery_slot_def zero_tx_pdu_def pdu_sdus_def Let_def mod_diff_less_cases split: if_splits)
  then show ?thesis by (auto simp: tx_ok_def tx_slots_ok_def)
      (simp_all add: recovery_tx_def recovery_slot_def zero_tx_pdu_def zero_entity_def valid_sn_def sn_mask_mod sdu_index_ok_def)
qed

theorem lost_pdu_recovered_witness:
  "\<exists>et' er'. recovery_round (\<lambda>_. 0) 3 4 recovery_tx recovery_rx = Some (et', er') \<and> vr_r er' = 6 \<and> receiver_buffer er' = [] \<and>
     log_data_ind er' = [[7, 7], [7, 7]]"
proof -
  have r: "mac_idle recovery_rx" "771 < nb_bytes_requested_by_mac recovery_rx" "status_due recovery_rx" "receiver_buffer recovery_rx \<noteq> []"
    "rx_sn (last (receiver_buffer recovery_rx)) < vr_r recovery_rx + 511" "vr_r recovery_rx = 4" "sdu_acc recovery_rx = []" "log_data_ind recovery_rx = []"
    by (simp_all add: recovery_rx_def mac_idle_def status_due_def zero_entity_def zero_timer_def recovery_pdu_def rx_info_def sdu_acc_def)
  have w: "rx_in_window recovery_rx"
    by (auto simp: rx_in_window_def rx_seq_def recovery_rx_def recovery_pdu_def stored_ok_def rx_info_def pdu_framed_def valid_sn_def sn_mask_mod
        sdu_state_ok_def zero_entity_def rx_before_def)
  have t: "mac_idle recovery_tx" "first_retrans_pdu_sn recovery_tx < 0" "\<not> status_due recovery_tx" "vt_s recovery_tx \<noteq> vt_a recovery_tx"
    "- 1 \<le> txp_retx_count (pdu_retrans_buffer recovery_tx (vr_r recovery_rx))" "txp_retx_count (pdu_retrans_buffer recovery_tx (vr_r recovery_rx)) < 127"
    by (simp_all add: recovery_tx_def mac_idle_def status_due_def zero_entity_def r(6) recovery_slot_def)
  have m: "missing (receiver_buffer recovery_rx) (vr_r recovery_rx) (rx_sn (last (receiver_buffer recovery_rx)) + 1) = [4]"
    by (simp add: missing_def recovery_rx_def recovery_pdu_def rx_info_def upto_rec1)
  have h: "holds_missing recovery_tx recovery_rx recovery_pdu (rx_sn (last (receiver_buffer recovery_rx)) + 1)"
    unfolding holds_missing_def m using recovery_pdu_ok(2)[of 4] by (simp add: recovery_tx_def recovery_rx_def)
  have rel: "released recovery_rx (recovery_pdu 4) = map (\<lambda>sn. \<lparr>pdu_info = recovery_pdu sn, all_segments_received = True\<rparr>) [4, 5]"
    by (simp add: released_def recovery_rx_def recovery_pdu_def rx_info_def)
  have sd: "([[7, 7], [7, 7]], []) = stream_sdus (sdu_acc recovery_rx) (released recovery_rx (recovery_pdu 4))"
    unfolding rel r(7) by (simp add: pdu_sdus_of_def pieces_def starts_sdu_def ends_sdu_def recovery_pdu_def rx_info_def)
  have n: "pi_header_size (recovery_pdu 4) + pi_payload_size (recovery_pdu 4) \<le> 4" by (simp add: recovery_pdu_def rx_info_def)
  obtain et' er' where o: "recovery_round (\<lambda>_. 0) 3 4 recovery_tx recovery_rx = Some (et', er')" "catches_up recovery_rx (recovery_pdu 4) er'"
    using lost_pdu_recovered[OF r(1) w r(2-5) recovery_tx_ok t(1-4) h _ t(5,6) n sd, of "\<lambda>_. 0" 3] r(6) by auto
  then have c: "vr_r er' = sn_mask (vr_r recovery_rx + int (length (released recovery_rx (recovery_pdu 4))))"
    "receiver_buffer er' = drop (length (released recovery_rx (recovery_pdu 4)) - 1) (receiver_buffer recovery_rx)"
    "log_data_ind er' = log_data_ind recovery_rx @ fst (stream_sdus (sdu_acc recovery_rx) (released recovery_rx (recovery_pdu 4)))"
    by (simp_all add: catches_up_def)
  have "log_data_ind er' = [[7, 7], [7, 7]]" using c(3) unfolding sd[symmetric] r(8) by simp
  moreover have "vr_r er' = 6" "receiver_buffer er' = []" using c(1,2) unfolding rel r(6) by (simp_all add: sn_mask_mod recovery_rx_def)
  ultimately show ?thesis using o(1) by blast
qed

end
