(* ===== verification/Block_List.thy ===== *)
theory Block_List
  imports Prelude
begin

text \<open>
  The lists of memory blocks, \<^verbatim>\<open>openair2/UTIL/LISTS/list.c\<close>: RLC, PDCP and the block allocator chain
  \<^verbatim>\<open>mem_block_t\<close> structures through their \<^verbatim>\<open>next\<close> fields and keep the first, the last and the number of
  blocks in a \<^verbatim>\<open>list_t\<close>.

  Blocks are numbers, the memory is a function from blocks to structures, a pointer is an \<open>addr option\<close> with
  \<^verbatim>\<open>NULL\<close> as \<open>None\<close>. Following \<^verbatim>\<open>NULL\<close> is \<open>None\<close>. The abstraction of a list is the sequence of its
  blocks. The other theories use such sequences for the lists of the C code; the locale \<open>block_queue\<close> states
  the laws that this rests on, and the code's two kinds of lists satisfy them.
\<close>

subsection \<open>Blocks\<close>

type_synonym addr = nat

record mem_block_t =
  mb_next :: "addr option"
  mb_previous :: "addr option"
  mb_pool_id :: nat
  mb_data :: "(nat \<times> nat) option"

type_synonym mem_heap = "addr \<Rightarrow> mem_block_t"

definition set_next :: "addr \<Rightarrow> addr option \<Rightarrow> mem_heap \<Rightarrow> mem_heap" where
  "set_next a p h = h(a := (h a)\<lparr>mb_next := p\<rparr>)"

definition set_previous :: "addr \<Rightarrow> addr option \<Rightarrow> mem_heap \<Rightarrow> mem_heap" where
  "set_previous a p h = h(a := (h a)\<lparr>mb_previous := p\<rparr>)"

lemma set_next_simps [simp]:
  "mb_next (set_next a p h b) = (if b = a then p else mb_next (h b))" "mb_previous (set_next a p h b) = mb_previous (h b)"
  "mb_pool_id (set_next a p h b) = mb_pool_id (h b)" "mb_data (set_next a p h b) = mb_data (h b)"
  "b \<noteq> a \<Longrightarrow> set_next a p h b = h b"
  by (simp_all add: set_next_def)

lemma set_previous_simps [simp]:
  "mb_previous (set_previous a p h b) = (if b = a then p else mb_previous (h b))" "mb_next (set_previous a p h b) = mb_next (h b)"
  "mb_pool_id (set_previous a p h b) = mb_pool_id (h b)" "mb_data (set_previous a p h b) = mb_data (h b)"
  "b \<noteq> a \<Longrightarrow> set_previous a p h b = h b"
  by (simp_all add: set_previous_def)

subsection \<open>The operations\<close>

record list_t =
  ls_head :: "addr option"
  ls_tail :: "addr option"
  ls_nb_elements :: int
  ls_name :: string

text \<open>
  The name is copied until the terminating zero; the index goes up to 32, one beyond the array of 32
  characters.
\<close>

function copy_name :: "string \<Rightarrow> nat \<Rightarrow> string \<Rightarrow> string option" where
  "copy_name nameP i name =
     (let c = (if i < length nameP then nameP ! i else CHR 0x00)
      in if i < length name then
           if c \<noteq> CHR 0x00 \<and> i < 32 then copy_name nameP (i + 1) (name[i := c]) else Some (name[i := c])
         else None)"
  by auto
termination by (relation "measure (\<lambda>(p, i, n). length n - i)") auto

declare copy_name.simps [simp del]

definition list_init :: "string option \<Rightarrow> list_t \<Rightarrow> list_t option" where
  "list_init nameP l =
     do {
       name \<leftarrow> (case nameP of None \<Rightarrow> Some (ls_name l) | Some s \<Rightarrow> copy_name s 0 (ls_name l));
       Some (l\<lparr>ls_name := name, ls_tail := None, ls_head := None, ls_nb_elements := 0\<rparr>)
     }"

definition list_get_head :: "list_t \<Rightarrow> addr option" where
  "list_get_head l = ls_head l"

definition list_remove_head :: "mem_heap \<Rightarrow> list_t \<Rightarrow> mem_heap \<times> list_t \<times> addr option" where
  "list_remove_head h l =
     (case ls_head l of
        None \<Rightarrow> (h, l, None)
      | Some a \<Rightarrow>
          let l1 = l\<lparr>ls_head := mb_next (h a), ls_nb_elements := ls_nb_elements l - 1\<rparr>
          in if ls_head l1 = None then (h, l1\<lparr>ls_tail := None\<rparr>, Some a) else (set_next a None h, l1, Some a))"

text \<open>The search of \<^verbatim>\<open>list_remove_element\<close> for the block before \<open>e\<close>.\<close>

partial_function (option) find_before :: "mem_heap \<Rightarrow> addr \<Rightarrow> addr option \<Rightarrow> addr option option" where
  "find_before h e p =
     (case p of None \<Rightarrow> Some None
      | Some a \<Rightarrow> if mb_next (h a) = Some e then Some (Some a) else find_before h e (mb_next (h a)))"

definition list_remove_element :: "mem_heap \<Rightarrow> addr option \<Rightarrow> list_t \<Rightarrow> (mem_heap \<times> list_t \<times> addr option) option" where
  "list_remove_element h elementP l =
     (case elementP of None \<Rightarrow> Some (h, l, None)
      | Some e \<Rightarrow>
          if ls_head l = Some e then
            (case list_remove_head h l of (h1, l1, _) \<Rightarrow> Some (h1, l1, Some e))
          else do {
            b \<leftarrow> find_before h e (ls_head l);
            case b of None \<Rightarrow> Some (h, l, Some e)
            | Some a \<Rightarrow>
                let h1 = set_next a (mb_next (h e)) h;
                    l1 = l\<lparr>ls_nb_elements := ls_nb_elements l - 1\<rparr>
                in Some (h1, if ls_tail l1 = Some e then l1\<lparr>ls_tail := Some a\<rparr> else l1, Some e)
          })"

definition list_add_head :: "mem_heap \<Rightarrow> addr option \<Rightarrow> list_t \<Rightarrow> mem_heap \<times> list_t" where
  "list_add_head h elementP l =
     (case elementP of None \<Rightarrow> (h, l)
      | Some e \<Rightarrow>
          let l1 = l\<lparr>ls_nb_elements := ls_nb_elements l + 1\<rparr>
          in case ls_head l of
               None \<Rightarrow> (h, l1\<lparr>ls_head := Some e, ls_tail := Some e\<rparr>)
             | Some a \<Rightarrow> (set_next e (Some a) h, l1\<lparr>ls_head := Some e\<rparr>))"

definition list_add_tail_eurecom :: "mem_heap \<Rightarrow> addr option \<Rightarrow> list_t \<Rightarrow> mem_heap \<times> list_t" where
  "list_add_tail_eurecom h elementP l =
     (case elementP of None \<Rightarrow> (h, l)
      | Some e \<Rightarrow>
          let l1 = l\<lparr>ls_nb_elements := ls_nb_elements l + 1\<rparr>;
              h1 = set_next e None h;
              (h2, l2) = (case ls_tail l1 of None \<Rightarrow> (h1, l1\<lparr>ls_head := Some e\<rparr>) | Some t \<Rightarrow> (set_next t (Some e) h1, l1))
          in (h2, l2\<lparr>ls_tail := Some e\<rparr>))"

text \<open>The result is the memory, the emptied sublist and the list; the sublist pointer may be \<^verbatim>\<open>NULL\<close>.\<close>

definition list_add_list :: "mem_heap \<Rightarrow> list_t option \<Rightarrow> list_t \<Rightarrow> mem_heap \<times> list_t option \<times> list_t" where
  "list_add_list h sublistP l =
     (case sublistP of None \<Rightarrow> (h, None, l)
      | Some s \<Rightarrow>
          (case ls_head s of None \<Rightarrow> (h, Some s, l)
           | Some a \<Rightarrow>
               let (h1, l1) = (case ls_tail l of None \<Rightarrow> (h, l\<lparr>ls_head := Some a\<rparr>) | Some t \<Rightarrow> (set_next t (Some a) h, l))
               in (h1, Some (s\<lparr>ls_head := None, ls_tail := None, ls_nb_elements := 0\<rparr>),
                   l1\<lparr>ls_tail := ls_tail s, ls_nb_elements := ls_nb_elements l1 + ls_nb_elements s\<rparr>)))"

text \<open>Emptying a list into \<open>free\<close>, the function that takes back a block.\<close>

partial_function (option) list_free :: "(addr \<Rightarrow> mem_heap \<times> 's \<Rightarrow> mem_heap \<times> 's) \<Rightarrow> list_t \<Rightarrow> mem_heap \<times> 's \<Rightarrow> (list_t \<times> mem_heap \<times> 's) option" where
  "list_free free l m =
     (case list_remove_head (fst m) l of (h1, l1, r) \<Rightarrow>
        (case r of None \<Rightarrow> Some (l1, h1, snd m) | Some a \<Rightarrow> list_free free l1 (free a (h1, snd m))))"

subsection \<open>The interface\<close>

text \<open>
  What a client may rely on: \<open>inv h l as\<close> says that \<open>l\<close> is a list of the blocks \<open>as\<close>. The operations act on the
  sequence, touch only the blocks of the list and the block that is added, and a list is not affected by what
  happens to other blocks.
\<close>

text \<open>A sequence of commands: \<open>Some e\<close> adds the block \<open>e\<close> at the end, \<open>None\<close> takes the first one. Beside it, what the commands mean on a sequence.\<close>

fun queue_run :: "(mem_heap \<Rightarrow> addr option \<Rightarrow> 'l \<Rightarrow> mem_heap \<times> 'l) \<Rightarrow> (mem_heap \<Rightarrow> 'l \<Rightarrow> mem_heap \<times> 'l \<times> addr option) \<Rightarrow>
    addr option list \<Rightarrow> mem_heap \<Rightarrow> 'l \<Rightarrow> mem_heap \<times> 'l \<times> addr option list" where
  "queue_run add rem [] h l = (h, l, [])"
| "queue_run add rem (Some e # cs) h l = (case add h (Some e) l of (h1, l1) \<Rightarrow> queue_run add rem cs h1 l1)"
| "queue_run add rem (None # cs) h l =
     (case rem h l of (h1, l1, r) \<Rightarrow> case queue_run add rem cs h1 l1 of (h2, l2, rs) \<Rightarrow> (h2, l2, r # rs))"

fun queue_spec :: "addr option list \<Rightarrow> addr list \<Rightarrow> addr list \<times> addr option list" where
  "queue_spec [] as = (as, [])"
| "queue_spec (Some e # cs) as = queue_spec cs (as @ [e])"
| "queue_spec (None # cs) as =
     (case as of [] \<Rightarrow> (case queue_spec cs [] of (bs, rs) \<Rightarrow> (bs, None # rs))
      | a # as' \<Rightarrow> (case queue_spec cs as' of (bs, rs) \<Rightarrow> (bs, Some a # rs)))"

text \<open>No block is added that is in the list already.\<close>

fun queue_allowed :: "addr option list \<Rightarrow> addr list \<Rightarrow> bool" where
  "queue_allowed [] as = True"
| "queue_allowed (Some e # cs) as = (e \<notin> set as \<and> queue_allowed cs (as @ [e]))"
| "queue_allowed (None # cs) as = queue_allowed cs (tl as)"

locale block_queue =
  fixes inv :: "mem_heap \<Rightarrow> 'l \<Rightarrow> addr list \<Rightarrow> bool"
    and add_tail :: "mem_heap \<Rightarrow> addr option \<Rightarrow> 'l \<Rightarrow> mem_heap \<times> 'l"
    and remove_head :: "mem_heap \<Rightarrow> 'l \<Rightarrow> mem_heap \<times> 'l \<times> addr option"
  assumes distinct_law: "inv h l as \<Longrightarrow> distinct as"
    and local_law: "inv h l as \<Longrightarrow> (\<And>a. a \<in> set as \<Longrightarrow> h' a = h a) \<Longrightarrow> inv h' l as"
    and add_law: "inv h l as \<Longrightarrow> e \<notin> set as \<Longrightarrow> add_tail h (Some e) l = (h', l') \<Longrightarrow> inv h' l' (as @ [e])"
    and add_frame: "inv h l as \<Longrightarrow> add_tail h (Some e) l = (h', l') \<Longrightarrow> b \<notin> set as \<Longrightarrow> b \<noteq> e \<Longrightarrow> h' b = h b"
    and remove_empty: "inv h l [] \<Longrightarrow> remove_head h l = (h, l, None)"
    and remove_law: "inv h l (a # as) \<Longrightarrow> remove_head h l = (h', l', r) \<Longrightarrow> r = Some a \<and> inv h' l' as"
    and remove_frame: "inv h l as \<Longrightarrow> remove_head h l = (h', l', r) \<Longrightarrow> b \<notin> set as \<Longrightarrow> h' b = h b"
begin

text \<open>Two lists without a common block do not disturb each other.\<close>

lemma add_keeps_other:
  assumes "inv h l as" "inv h l2 bs" "set as \<inter> set bs = {}" "e \<notin> set bs" "add_tail h (Some e) l = (h', l')"
  shows "inv h' l2 bs"
proof (rule local_law[OF assms(2)])
  fix b assume "b \<in> set bs"
  then show "h' b = h b" using add_frame[OF assms(1,5)] assms(3,4) by blast
qed

lemma remove_keeps_other:
  assumes "inv h l as" "inv h l2 bs" "set as \<inter> set bs = {}" "remove_head h l = (h', l', r)"
  shows "inv h' l2 bs"
proof (rule local_law[OF assms(2)])
  fix b assume "b \<in> set bs"
  then show "h' b = h b" using remove_frame[OF assms(1,4)] assms(3) by blast
qed

text \<open>Any sequence of operations is the same sequence on a queue.\<close>

lemma run_is_queue:
  "inv h l as \<Longrightarrow> queue_allowed cs as \<Longrightarrow> queue_spec cs as = (bs, rs) \<Longrightarrow>
   \<exists>h' l'. queue_run add_tail remove_head cs h l = (h', l', rs) \<and> inv h' l' bs"
proof (induction cs as arbitrary: h l bs rs rule: queue_allowed.induct)
  case (2 e cs as)
  obtain h1 l1 where a: "add_tail h (Some e) l = (h1, l1)" by fastforce
  then have "inv h1 l1 (as @ [e])" using add_law 2 by auto
  then show ?case using 2 a by simp
next
  case (3 cs as)
  obtain h1 l1 r where a: "remove_head h l = (h1, l1, r)" by (metis prod.exhaust)
  obtain bs' rs' where q: "queue_spec cs (tl as) = (bs', rs')" by fastforce
  have "inv h1 l1 (tl as) \<and> r = (if as = [] then None else Some (hd as))"
    using remove_law[OF _ a] remove_empty a 3(2) by (cases as) auto
  moreover have "bs = bs'" "rs = r # rs'" using 3(4) q calculation by (auto split: list.splits prod.splits)
  ultimately show ?case using 3(1)[OF _ _ q, of h1 l1] 3(3) a by fastforce
qed simp

end

subsection \<open>Lists of blocks are queues\<close>

primrec chain :: "mem_heap \<Rightarrow> addr option \<Rightarrow> addr list \<Rightarrow> bool" where
  "chain h p [] \<longleftrightarrow> p = None"
| "chain h p (a # as) \<longleftrightarrow> p = Some a \<and> chain h (mb_next (h a)) as"

definition is_list :: "mem_heap \<Rightarrow> list_t \<Rightarrow> addr list \<Rightarrow> bool" where
  "is_list h l as \<longleftrightarrow> chain h (ls_head l) as \<and> ls_tail l = (if as = [] then None else Some (last as)) \<and>
     ls_nb_elements l = int (length as)"

lemma chain_unique: "chain h p as \<Longrightarrow> chain h p bs \<Longrightarrow> as = bs"
proof (induction as arbitrary: p bs)
  case Nil
  then show ?case by (cases bs) auto
next
  case (Cons a as)
  then show ?case by (cases bs) auto
qed

lemma chain_suffix: "chain h p (as @ b # bs) \<Longrightarrow> chain h (Some b) (b # bs)"
  by (induction as arbitrary: p) auto

lemma chain_distinct: "chain h p as \<Longrightarrow> distinct as"
proof (induction as arbitrary: p)
  case (Cons a as)
  have "a \<notin> set as"
  proof
    assume "a \<in> set as"
    then obtain xs ys where s: "as = xs @ a # ys" by (auto dest: split_list)
    have "chain h (Some a) (a # ys)" using chain_suffix[of h _ xs a ys] Cons.prems s by auto
    moreover have "chain h (Some a) (a # as)" using Cons.prems by simp
    ultimately have "a # ys = a # as" by (rule chain_unique)
    then show False using s by simp
  qed
  moreover have "distinct as" using Cons by auto
  ultimately show ?case by simp
qed simp

lemma chain_local: "chain h p as \<Longrightarrow> (\<And>a. a \<in> set as \<Longrightarrow> mb_next (h' a) = mb_next (h a)) \<Longrightarrow> chain h' p as"
proof (induction as arbitrary: p)
  case (Cons a as)
  then show ?case using Cons.IH[of "mb_next (h a)"] by simp
qed simp

lemma chain_snoc: "chain h p (as @ [t]) \<Longrightarrow> chain h q bs \<Longrightarrow> set (as @ [t]) \<inter> set bs = {} \<Longrightarrow> chain (set_next t q h) p (as @ t # bs)"
proof (induction as arbitrary: p)
  case Nil
  have "chain (set_next t q h) q bs" by (rule chain_local[OF Nil(2)]) (use Nil(3) in auto)
  then show ?case using Nil(1) by simp
next
  case (Cons a as)
  have "a \<noteq> t" using chain_distinct[OF Cons.prems(1)] by auto
  then show ?case using Cons.IH[of "mb_next (h a)"] Cons.prems by simp
qed

lemma is_list_tail: "is_list h l as \<Longrightarrow> ls_tail l = None \<longleftrightarrow> as = []" "is_list h l as \<Longrightarrow> ls_head l = None \<longleftrightarrow> as = []"
  by (cases as; simp add: is_list_def)+

lemma add_tail_is_list:
  assumes "is_list h l as" "e \<notin> set as" "list_add_tail_eurecom h (Some e) l = (h', l')"
  shows "is_list h' l' (as @ [e])"
proof (cases as rule: rev_cases)
  case Nil
  then show ?thesis using assms by (auto simp: is_list_def list_add_tail_eurecom_def)
next
  case (snoc bs t)
  have c: "chain h (ls_head l) (bs @ [t])" "ls_tail l = Some t" using assms(1) snoc by (auto simp: is_list_def)
  have "chain (set_next e None h) (ls_head l) (bs @ [t])" using assms(2) snoc by (intro chain_local[OF c(1)]) auto
  then have "chain (set_next t (Some e) (set_next e None h)) (ls_head l) (bs @ t # [e])"
    using assms(2) snoc by (intro chain_snoc) auto
  then show ?thesis using assms c(2) snoc by (auto simp: is_list_def list_add_tail_eurecom_def)
qed

lemma remove_head_is_list:
  assumes "is_list h l (a # as)" "list_remove_head h l = (h', l', r)"
  shows "r = Some a \<and> is_list h' l' as \<and> mb_next (h' a) = None"
proof -
  have c: "ls_head l = Some a" "chain h (mb_next (h a)) as" "a \<notin> set as" using assms(1) chain_distinct[of h "ls_head l" "a # as"] by (auto simp: is_list_def)
  have "chain (set_next a None h) (mb_next (h a)) as" using c(3) by (intro chain_local[OF c(2)]) auto
  then show ?thesis using assms c by (cases as) (auto simp: is_list_def list_remove_head_def Let_def split: if_splits)
qed

interpretation list_queue: block_queue is_list list_add_tail_eurecom list_remove_head
proof
  show "is_list h l as \<Longrightarrow> distinct as" for h l as by (auto simp: is_list_def dest: chain_distinct)
  show "is_list h l as \<Longrightarrow> (\<And>a. a \<in> set as \<Longrightarrow> h' a = h a) \<Longrightarrow> is_list h' l as" for h l as h'
    by (auto simp: is_list_def intro: chain_local)
  show "is_list h l as \<Longrightarrow> e \<notin> set as \<Longrightarrow> list_add_tail_eurecom h (Some e) l = (h', l') \<Longrightarrow> is_list h' l' (as @ [e])" for h l as e h' l'
    by (rule add_tail_is_list)
  show "is_list h l as \<Longrightarrow> list_add_tail_eurecom h (Some e) l = (h', l') \<Longrightarrow> b \<notin> set as \<Longrightarrow> b \<noteq> e \<Longrightarrow> h' b = h b" for h l as e h' l' b
    by (cases as rule: rev_cases) (auto simp: is_list_def list_add_tail_eurecom_def Let_def split: option.splits)
  show "is_list h l [] \<Longrightarrow> list_remove_head h l = (h, l, None)" for h l by (simp add: is_list_def list_remove_head_def)
  show "is_list h l (a # as) \<Longrightarrow> list_remove_head h l = (h', l', r) \<Longrightarrow> r = Some a \<and> is_list h' l' as" for h l a as h' l' r
    using remove_head_is_list by blast
  show "is_list h l as \<Longrightarrow> list_remove_head h l = (h', l', r) \<Longrightarrow> b \<notin> set as \<Longrightarrow> h' b = h b" for h l as h' l' r b
    by (cases as) (auto simp: is_list_def list_remove_head_def Let_def split: if_splits option.splits)
qed

text \<open>
  (C38) A \<^verbatim>\<open>list_t\<close> is a queue of memory blocks. For any sequence of additions at the end, of blocks that
  are not in the list at that moment, and removals at the head, the pointer code returns the blocks a queue
  returns, and \<^verbatim>\<open>NULL\<close> exactly when the queue is empty; the chain of \<^verbatim>\<open>next\<close> fields, the tail and the count
  describe the queue at the end.
\<close>

theorem list_t_is_queue:
  assumes "is_list h l as" "queue_allowed cs as" "queue_spec cs as = (bs, rs)"
  shows "\<exists>h' l'. queue_run list_add_tail_eurecom list_remove_head cs h l = (h', l', rs) \<and> is_list h' l' bs"
  by (rule list_queue.run_is_queue[OF assms])

definition zero_block :: mem_block_t where
  "zero_block = \<lparr>mb_next = None, mb_previous = None, mb_pool_id = 0, mb_data = None\<rparr>"

definition empty_list_t :: list_t where
  "empty_list_t = \<lparr>ls_head = None, ls_tail = None, ls_nb_elements = 0, ls_name = replicate 32 (CHR 0x00)\<rparr>"

theorem list_t_is_queue_witness:
  "is_list (\<lambda>_. zero_block) empty_list_t [] \<and>
   (\<exists>h' l'. queue_run list_add_tail_eurecom list_remove_head [Some 7, Some 3, None, Some 7, None, None, None] (\<lambda>_. zero_block) empty_list_t =
      (h', l', [Some 7, Some 3, Some 7, None]) \<and> is_list h' l' [])"
proof -
  have e: "is_list (\<lambda>_. zero_block) empty_list_t []" by (simp add: is_list_def empty_list_t_def)
  moreover have "queue_allowed [Some 7, Some 3, None, Some 7, None, None, None] []"
    "queue_spec [Some 7, Some 3, None, Some 7, None, None, None] [] = ([], [Some 7, Some 3, Some 7, None])" by simp_all
  ultimately show ?thesis using list_t_is_queue[OF e] by blast
qed

subsection \<open>The other operations\<close>

lemma list_init_is_list: "list_init None l = Some l' \<Longrightarrow> is_list h l' []"
  by (auto simp: list_init_def is_list_def)

lemma copy_name_terminates:
  "length name = 32 \<Longrightarrow> i \<le> length nameP \<Longrightarrow> length nameP < 32 \<Longrightarrow> CHR 0x00 \<notin> set nameP \<Longrightarrow>
   \<exists>name'. copy_name nameP i name = Some name' \<and> length name' = 32 \<and> take (length nameP + 1) name' = take i name @ drop i nameP @ [CHR 0x00]"
proof (induction "length nameP - i" arbitrary: i name)
  case 0
  then have "i = length nameP" by simp
  moreover have "take (i + 1) (name[i := CHR 0x00]) = take i name @ [CHR 0x00]"
    using 0 by (simp add: take_Suc_conv_app_nth)
  ultimately show ?case using 0 by (subst copy_name.simps) (simp add: Let_def)
next
  case (Suc n)
  then have i: "i < length nameP" "nameP ! i \<noteq> CHR 0x00" by (auto simp: in_set_conv_nth)
  have c: "copy_name nameP i name = copy_name nameP (i + 1) (name[i := nameP ! i])"
    using i Suc.prems by (subst copy_name.simps) (simp add: Let_def)
  have "n = length nameP - (i + 1)" "length (name[i := nameP ! i]) = 32" "i + 1 \<le> length nameP" using Suc.hyps(2) Suc.prems i by simp_all
  from Suc.hyps(1)[OF this Suc.prems(3,4)] show ?case
    unfolding c using i Suc.prems by (simp add: take_Suc_conv_app_nth Cons_nth_drop_Suc[OF i(1), symmetric])
qed

text \<open>A name of 32 or more characters is copied beyond the array.\<close>

lemma copy_name_overruns:
  "length name = 32 \<Longrightarrow> i \<le> 32 \<Longrightarrow> 32 \<le> length nameP \<Longrightarrow> CHR 0x00 \<notin> set nameP \<Longrightarrow> copy_name nameP i name = None"
proof (induction "32 - i" arbitrary: i name)
  case (Suc n)
  then have "nameP ! i \<noteq> CHR 0x00" by (auto simp: in_set_conv_nth)
  then have "copy_name nameP i name = copy_name nameP (i + 1) (name[i := nameP ! i])" using Suc by (subst copy_name.simps) (simp add: Let_def)
  then show ?case using Suc by simp
qed (subst copy_name.simps, simp add: Let_def)

lemma add_head_is_list:
  assumes "is_list h l as" "e \<notin> set as" "as = [] \<Longrightarrow> mb_next (h e) = None" "list_add_head h (Some e) l = (h', l')"
  shows "is_list h' l' (e # as)"
proof (cases as)
  case (Cons a bs)
  have "chain h (Some a) as" using assms(1) Cons by (simp add: is_list_def)
  then have "chain (set_next e (Some a) h) (Some a) as" by (rule chain_local) (use assms(2) in auto)
  then show ?thesis using assms Cons by (auto simp: is_list_def list_add_head_def)
qed (use assms in \<open>auto simp: is_list_def list_add_head_def\<close>)

lemma add_list_is_list:
  assumes "is_list h l as" "is_list h s bs" "set as \<inter> set bs = {}" "list_add_list h (Some s) l = (h', s', l')"
  shows "is_list h' l' (as @ bs) \<and> (\<exists>s''. s' = Some s'' \<and> is_list h' s'' [])"
proof (cases "bs = []")
  case True
  then show ?thesis using assms by (auto simp: is_list_def list_add_list_def)
next
  case False
  then obtain b where b: "ls_head s = Some b" using is_list_tail(2)[OF assms(2)] by auto
  show ?thesis
  proof (cases as rule: rev_cases)
    case Nil
    then show ?thesis using assms b False by (auto simp: is_list_def list_add_list_def)
  next
    case (snoc cs t)
    have "chain (set_next t (Some b) h) (ls_head l) (cs @ t # bs)"
      using assms(1-3) snoc b by (intro chain_snoc) (auto simp: is_list_def)
    then show ?thesis using assms snoc b False by (auto simp: is_list_def list_add_list_def)
  qed
qed

lemma find_before_run:
  "chain h p as \<Longrightarrow> p \<noteq> Some e \<Longrightarrow>
   find_before h e p = Some (if e \<in> set as then Some (as ! (length (takeWhile (\<lambda>x. x \<noteq> e) as) - 1)) else None)"
proof (induction as arbitrary: p)
  case Nil
  then show ?case by (subst find_before.simps) simp
next
  case (Cons a as)
  have ne: "a \<noteq> e" "p = Some a" "chain h (mb_next (h a)) as" using Cons.prems by auto
  show ?case
  proof (cases "mb_next (h a) = Some e")
    case True
    then have "as \<noteq> []" "hd as = e" using ne(3) by (cases as; simp)+
    then show ?thesis using ne True by (subst find_before.simps) (cases as, auto)
  next
    case False
    then have "as = [] \<or> hd as \<noteq> e" using ne(3) by (cases as) auto
    then show ?thesis using Cons.IH[OF ne(3) False] ne False by (subst find_before.simps) (cases as, auto)
  qed
qed

lemma remove_element_is_list:
  assumes "is_list h l as"
  shows "\<exists>h' l'. list_remove_element h (Some e) l = Some (h', l', Some e) \<and> is_list h' l' (remove1 e as) \<and> (e \<notin> set as \<longrightarrow> h' = h \<and> l' = l)"
proof (cases "ls_head l = Some e")
  case True
  then obtain bs where bs: "as = e # bs" using assms by (cases as) (auto simp: is_list_def)
  obtain h' l' r where r: "list_remove_head h l = (h', l', r)" by (metis prod.exhaust)
  show ?thesis using remove_head_is_list[OF assms[unfolded bs] r] r True bs by (auto simp: list_remove_element_def)
next
  case False
  have ch: "chain h (ls_head l) as" using assms by (simp add: is_list_def)
  note f = find_before_run[OF ch False]
  show ?thesis
  proof (cases "e \<in> set as")
    case False
    then show ?thesis using f assms \<open>ls_head l \<noteq> Some e\<close> by (simp add: list_remove_element_def remove1_idem)
  next
    case True
    then obtain xs ys where s: "as = xs @ e # ys" "e \<notin> set xs" by (auto dest: split_list_first)
    then have "xs \<noteq> []" using ch False by auto
    then obtain zs a where xs: "xs = zs @ [a]" by (cases xs rule: rev_cases) auto
    have "takeWhile (\<lambda>x. x \<noteq> e) as = xs" using s by (simp add: takeWhile_append)
    then have b: "find_before h e (ls_head l) = Some (Some a)" using f True s xs by (simp add: nth_append)
    have d: "distinct as" by (rule chain_distinct[OF ch])
    have c: "chain h (ls_head l) (zs @ [a] @ e # ys)" using ch s xs by simp
    have tl: "chain h (mb_next (h e)) ys" using chain_suffix[of h "ls_head l" "zs @ [a]" e ys] c by simp
    have "chain h' p (ws @ vs) \<Longrightarrow> (\<And>x. x \<in> set vs \<Longrightarrow> x \<notin> set ws) \<Longrightarrow> ws \<noteq> [] \<Longrightarrow> chain (set_next (last ws) None h') p ws" for h' p ws vs
    proof (induction ws arbitrary: p)
      case (Cons w ws)
      have "w \<notin> set ws" using chain_distinct[OF Cons.prems(1)] by auto
      then show ?case using Cons.IH[of "mb_next (h' w)"] Cons.prems by (cases "ws = []") auto
    qed simp
    from this[of h "ls_head l" "zs @ [a]" "e # ys"] have front: "chain (set_next a None h) (ls_head l) (zs @ [a])" using c d s xs by auto
    have "chain (set_next a (mb_next (h e)) (set_next a None h)) (ls_head l) (zs @ a # ys)"
    proof (rule chain_snoc[OF front])
      show "chain (set_next a None h) (mb_next (h e)) ys" by (rule chain_local[OF tl]) (use d s xs in auto)
      show "set (zs @ [a]) \<inter> set ys = {}" using d s xs by auto
    qed
    moreover have "set_next a (mb_next (h e)) (set_next a None h) = set_next a (mb_next (h e)) h" by (simp add: set_next_def)
    ultimately have ch': "chain (set_next a (mb_next (h e)) h) (ls_head l) (zs @ a # ys)" by simp
    have rm: "remove1 e as = zs @ a # ys" using s xs by (simp add: remove1_append)
    have "ls_tail l = Some (last as)" "ls_nb_elements l = int (length as)" using assms s by (auto simp: is_list_def)
    moreover have "last as = e \<longleftrightarrow> ys = []" using d s by (cases ys rule: rev_cases) auto
    ultimately show ?thesis using b ch' False True unfolding rm by (auto simp: list_remove_element_def is_list_def Let_def s xs)
  qed
qed

text \<open>
  A block that \<^verbatim>\<open>list_remove_element\<close> took from within a list keeps its \<^verbatim>\<open>next\<close> field, and \<^verbatim>\<open>list_add_head\<close> does not
  clear it: put into an empty list, the block drags its old successors along.
\<close>

lemma removed_block_drags_successors:
  assumes "is_list h l [a, e, b]" "is_list h s []" "list_remove_element h (Some e) l = Some (h1, l1, r)" "list_add_head h1 (Some e) s = (h2, s2)"
  shows "chain h2 (ls_head s2) [e, b] \<and> ls_tail s2 = Some e \<and> ls_nb_elements s2 = 1"
proof -
  have l: "ls_head l = Some a" "mb_next (h a) = Some e" "mb_next (h e) = Some b" "mb_next (h b) = None" "e \<noteq> a" "b \<noteq> a" "ls_head s = None" "ls_nb_elements s = 0"
    using assms(1,2) chain_distinct[of h "ls_head l" "[a, e, b]"] by (auto simp: is_list_def)
  have f: "find_before h e (Some a) = Some (Some a)" using l(2) by (subst find_before.simps) simp
  have "h1 = set_next a (Some b) h" using assms(3) l f by (auto simp: list_remove_element_def Let_def)
  then show ?thesis using assms(4) l by (auto simp: list_add_head_def)
qed

end
