(* ===== verification/Block_List2.thy ===== *)
theory Block_List2
  imports Block_List
begin

text \<open>
  Doubly linked lists of memory blocks, \<^verbatim>\<open>openair2/UTIL/LISTS/list2.c\<close>, the lists from which blocks are taken
  at any place. The structure \<^verbatim>\<open>list2_t\<close> has the fields of \<^verbatim>\<open>list_t\<close>. They satisfy the same interface; a block
  that was removed has both links cleared.
\<close>

subsection \<open>The operations\<close>

type_synonym list2_t = list_t

definition list2_init :: "string option \<Rightarrow> list2_t \<Rightarrow> list2_t option" where
  "list2_init nameP l =
     do {
       name \<leftarrow> (case nameP of None \<Rightarrow> Some (ls_name l) | Some s \<Rightarrow> copy_name s 0 (ls_name l));
       Some (l\<lparr>ls_name := name, ls_tail := None, ls_head := None, ls_nb_elements := 0\<rparr>)
     }"

definition list2_remove_element :: "mem_heap \<Rightarrow> addr option \<Rightarrow> list2_t \<Rightarrow> (mem_heap \<times> list2_t \<times> addr option) option" where
  "list2_remove_element h elementP l =
     (case elementP of None \<Rightarrow> Some (h, l, None)
      | Some e \<Rightarrow>
          do {
            (h1, l1) \<leftarrow>
              (if ls_head l = Some e then
                 (case mb_next (h e) of
                    None \<Rightarrow> Some (h, l\<lparr>ls_head := None, ls_tail := None\<rparr>)
                  | Some n \<Rightarrow> Some (set_next e None (set_previous n None h), l\<lparr>ls_head := Some n\<rparr>))
               else if ls_tail l = Some e then
                 do {
                   t \<leftarrow> mb_previous (h e);
                   Some (set_previous e None (set_next t None h), l\<lparr>ls_tail := Some t\<rparr>)
                 }
               else
                 do {
                   p \<leftarrow> mb_previous (h e);
                   let h1 = set_next p (mb_next (h e)) h;
                   n \<leftarrow> mb_next (h1 e);
                   let h2 = set_previous n (mb_previous (h1 e)) h1;
                   Some (set_previous e None (set_next e None h2), l)
                 });
            Some (h1, l1\<lparr>ls_nb_elements := ls_nb_elements l1 - 1\<rparr>, Some e)
          })"

definition list2_get_head :: "list2_t \<Rightarrow> addr option" where
  "list2_get_head l = ls_head l"

definition list2_get_tail :: "list2_t \<Rightarrow> addr option" where
  "list2_get_tail l = ls_tail l"

definition list2_remove_head :: "mem_heap \<Rightarrow> list2_t \<Rightarrow> mem_heap \<times> list2_t \<times> addr option" where
  "list2_remove_head h l =
     (case ls_head l of
        None \<Rightarrow> (h, l, None)
      | Some a \<Rightarrow>
          let l1 = l\<lparr>ls_head := mb_next (h a), ls_nb_elements := ls_nb_elements l - 1\<rparr>
          in case ls_head l1 of
               None \<Rightarrow> (h, l1\<lparr>ls_tail := None\<rparr>, Some a)
             | Some n \<Rightarrow> (set_next a None (set_previous n None h), l1, Some a))"

definition list2_remove_tail :: "mem_heap \<Rightarrow> list2_t \<Rightarrow> (mem_heap \<times> list2_t \<times> addr option) option" where
  "list2_remove_tail h l =
     (case ls_tail l of
        None \<Rightarrow> Some (h, l, None)
      | Some t \<Rightarrow>
          do {
            let l1 = l\<lparr>ls_nb_elements := ls_nb_elements l - 1\<rparr>;
            (h1, l2) \<leftarrow>
              (if ls_head l1 = Some t then Some (h, l1\<lparr>ls_head := None, ls_tail := None\<rparr>)
               else do { p \<leftarrow> mb_previous (h t); Some (set_next p None h, l1\<lparr>ls_tail := Some p\<rparr>) });
            Some (set_previous t None h1, l2, Some t)
          })"

definition list2_add_head :: "mem_heap \<Rightarrow> addr option \<Rightarrow> list2_t \<Rightarrow> mem_heap \<times> list2_t" where
  "list2_add_head h elementP l =
     (case elementP of None \<Rightarrow> (h, l)
      | Some e \<Rightarrow>
          let l1 = l\<lparr>ls_nb_elements := ls_nb_elements l + 1\<rparr>
          in case ls_head l of
               None \<Rightarrow> (h, l1\<lparr>ls_head := Some e, ls_tail := Some e\<rparr>)
             | Some a \<Rightarrow> (set_previous e None (set_previous a (Some e) (set_next e (Some a) h)), l1\<lparr>ls_head := Some e\<rparr>))"

definition list2_add_tail :: "mem_heap \<Rightarrow> addr option \<Rightarrow> list2_t \<Rightarrow> mem_heap \<times> list2_t" where
  "list2_add_tail h elementP l =
     (case elementP of None \<Rightarrow> (h, l)
      | Some e \<Rightarrow>
          let l1 = l\<lparr>ls_nb_elements := ls_nb_elements l + 1\<rparr>;
              h1 = set_next e None h;
              (h2, l2) = (case ls_tail l1 of
                  None \<Rightarrow> (set_previous e None h1, l1\<lparr>ls_head := Some e\<rparr>)
                | Some t \<Rightarrow> (set_previous e (Some t) (set_next t (Some e) h1), l1))
          in (h2, l2\<lparr>ls_tail := Some e\<rparr>))"

text \<open>Other than \<^verbatim>\<open>list_add_list\<close>, this leaves the count of the emptied sublist.\<close>

definition list2_add_list :: "mem_heap \<Rightarrow> list2_t option \<Rightarrow> list2_t \<Rightarrow> mem_heap \<times> list2_t option \<times> list2_t" where
  "list2_add_list h sublistP l =
     (case sublistP of None \<Rightarrow> (h, None, l)
      | Some s \<Rightarrow>
          let (h1, s1, l1) = (case ls_head s of None \<Rightarrow> (h, s, l)
                | Some a \<Rightarrow>
                    let (h0, l0) = (case ls_tail l of None \<Rightarrow> (h, l\<lparr>ls_head := Some a\<rparr>)
                          | Some t \<Rightarrow> (set_previous a (Some t) (set_next t (Some a) h), l))
                    in (h0, s\<lparr>ls_head := None, ls_tail := None\<rparr>, l0\<lparr>ls_tail := ls_tail s\<rparr>))
          in (h1, Some s1, l1\<lparr>ls_nb_elements := ls_nb_elements l1 + ls_nb_elements s1\<rparr>))"

partial_function (option) list2_free :: "(addr \<Rightarrow> mem_heap \<times> 's \<Rightarrow> mem_heap \<times> 's) \<Rightarrow> list2_t \<Rightarrow> mem_heap \<times> 's \<Rightarrow> (list2_t \<times> mem_heap \<times> 's) option" where
  "list2_free free l m =
     (case list2_remove_head (fst m) l of (h1, l1, r) \<Rightarrow>
        (case r of None \<Rightarrow> Some (l1, h1, snd m) | Some a \<Rightarrow> list2_free free l1 (free a (h1, snd m))))"

subsection \<open>Chains linked both ways\<close>

primrec dchain :: "mem_heap \<Rightarrow> addr option \<Rightarrow> addr option \<Rightarrow> addr list \<Rightarrow> addr option \<Rightarrow> bool" where
  "dchain h q p [] r \<longleftrightarrow> p = r"
| "dchain h q p (a # as) r \<longleftrightarrow> p = Some a \<and> mb_previous (h a) = q \<and> dchain h (Some a) (mb_next (h a)) as r"

definition is_list2 :: "mem_heap \<Rightarrow> list2_t \<Rightarrow> addr list \<Rightarrow> bool" where
  "is_list2 h l as \<longleftrightarrow> dchain h None (ls_head l) as None \<and> ls_tail l = (if as = [] then None else Some (last as)) \<and>
     ls_nb_elements l = int (length as)"

definition unlinked :: "mem_heap \<Rightarrow> addr \<Rightarrow> bool" where
  "unlinked h e \<longleftrightarrow> mb_next (h e) = None \<and> mb_previous (h e) = None"

lemma dchain_chain: "dchain h q p as None \<Longrightarrow> chain h p as"
  by (induction as arbitrary: p q) auto

lemma dchain_append:
  "dchain h q p (as @ bs) r \<longleftrightarrow> (\<exists>m. dchain h q p as m \<and> dchain h (if as = [] then q else Some (last as)) m bs r)"
  by (induction as arbitrary: p q) auto

lemma dchain_local: "dchain h q p as r \<Longrightarrow> (\<And>a. a \<in> set as \<Longrightarrow> h' a = h a) \<Longrightarrow> dchain h' q p as r"
proof (induction as arbitrary: p q)
  case (Cons a as)
  then show ?case using Cons.IH[of "Some a" "mb_next (h a)"] by simp
qed simp

lemma is_list2_distinct: "is_list2 h l as \<Longrightarrow> distinct as"
  unfolding is_list2_def using chain_distinct dchain_chain by blast

lemmas heap_upd = set_next_def set_previous_def

lemma dchain_set_last:
  assumes "dchain h q p (as @ [t]) r" "t \<notin> set as"
  shows "dchain (set_next t r' h) q p (as @ [t]) r'"
proof -
  have c: "dchain h q p as (Some t)" "mb_previous (h t) = (if as = [] then q else Some (last as))" using assms(1) by (auto simp: dchain_append)
  have "dchain (set_next t r' h) q p as (Some t)" by (rule dchain_local[OF c(1)]) (use assms(2) in \<open>auto simp: heap_upd\<close>)
  then show ?thesis using c(2) by (auto simp: dchain_append)
qed

lemma dchain_set_first:
  assumes "dchain h q p (a # as) r" "a \<notin> set as"
  shows "dchain (set_previous a q' h) q' p (a # as) r"
proof -
  have c: "p = Some a" "dchain h (Some a) (mb_next (h a)) as r" using assms(1) by simp_all
  have "dchain (set_previous a q' h) (Some a) (mb_next (h a)) as r" by (rule dchain_local[OF c(2)]) (use assms(2) in \<open>auto simp: heap_upd\<close>)
  then show ?thesis using c(1) by simp
qed

text \<open>Joining two chains.\<close>

lemma dchain_join:
  assumes "dchain h q p (as @ [t]) r" "dchain h q' p' (b # bs) r'" "distinct (as @ [t] @ b # bs)"
  shows "dchain (set_previous b (Some t) (set_next t (Some b) h)) q p (as @ t # b # bs) r'"
proof -
  have p': "p' = Some b" using assms(2) by simp
  let ?h = "set_previous b (Some t) (set_next t (Some b) h)"
  have "dchain (set_next t (Some b) h) q p (as @ [t]) (Some b)" using assms(3) by (intro dchain_set_last[OF assms(1)]) auto
  then have "dchain ?h q p (as @ [t]) (Some b)" by (rule dchain_local) (use assms(3) in \<open>auto simp: heap_upd\<close>)
  moreover have "dchain (set_next t (Some b) h) q' p' (b # bs) r'" by (rule dchain_local[OF assms(2)]) (use assms(3) in \<open>auto simp: heap_upd\<close>)
  then have "dchain ?h (Some t) (Some b) (b # bs) r'" unfolding p' by (rule dchain_set_first) (use assms(3) in auto)
  ultimately have "dchain ?h q p ((as @ [t]) @ b # bs) r'" by (subst dchain_append) auto
  then show ?thesis by simp
qed

subsection \<open>The operations on sequences\<close>

lemma remove_head2:
  assumes "is_list2 h l (a # as)" "list2_remove_head h l = (h', l', r)"
  shows "r = Some a \<and> is_list2 h' l' as \<and> unlinked h' a"
proof -
  have c: "ls_head l = Some a" "mb_previous (h a) = None" "dchain h (Some a) (mb_next (h a)) as None" "distinct (a # as)"
    using assms(1) is_list2_distinct[OF assms(1)] by (auto simp: is_list2_def)
  show ?thesis
  proof (cases as)
    case Nil
    then show ?thesis using assms c by (auto simp: is_list2_def list2_remove_head_def unlinked_def)
  next
    case (Cons b bs)
    then have n: "mb_next (h a) = Some b" "b \<noteq> a" using c by auto
    have "dchain (set_previous b None h) None (mb_next (h a)) as None" using c(3,4) Cons by (simp add: dchain_set_first[of h "Some a" _ b bs None, simplified])
    then have "dchain (set_next a None (set_previous b None h)) None (mb_next (h a)) as None" by (rule dchain_local) (use c(4) in \<open>auto simp: heap_upd\<close>)
    then show ?thesis using assms c n Cons by (auto simp: is_list2_def list2_remove_head_def unlinked_def)
  qed
qed

lemma add_tail2:
  assumes "is_list2 h l as" "e \<notin> set as" "list2_add_tail h (Some e) l = (h', l')"
  shows "is_list2 h' l' (as @ [e])"
proof (cases as rule: rev_cases)
  case Nil
  then show ?thesis using assms by (auto simp: is_list2_def list2_add_tail_def)
next
  case (snoc bs t)
  have d: "distinct as" by (rule is_list2_distinct[OF assms(1)])
  have c: "dchain h None (ls_head l) (bs @ [t]) None" "ls_tail l = Some t" using assms(1) snoc by (auto simp: is_list2_def)
  have "dchain (set_next e None h) None (ls_head l) (bs @ [t]) None" by (rule dchain_local[OF c(1)]) (use assms(2) snoc in \<open>auto simp: heap_upd\<close>)
  moreover have "dchain (set_next e None h) (mb_previous (h e)) (Some e) [e] None" by simp
  ultimately have "dchain (set_previous e (Some t) (set_next t (Some e) (set_next e None h))) None (ls_head l) (bs @ t # [e]) None"
    by (rule dchain_join) (use d assms(2) snoc in auto)
  then show ?thesis using assms c(2) snoc by (auto simp: is_list2_def list2_add_tail_def)
qed

interpretation list2_queue: block_queue is_list2 list2_add_tail list2_remove_head
proof
  show "is_list2 h l as \<Longrightarrow> distinct as" for h l as by (rule is_list2_distinct)
  show "is_list2 h l as \<Longrightarrow> (\<And>a. a \<in> set as \<Longrightarrow> h' a = h a) \<Longrightarrow> is_list2 h' l as" for h l as h'
    by (auto simp: is_list2_def intro: dchain_local)
  show "is_list2 h l as \<Longrightarrow> e \<notin> set as \<Longrightarrow> list2_add_tail h (Some e) l = (h', l') \<Longrightarrow> is_list2 h' l' (as @ [e])" for h l as e h' l'
    by (rule add_tail2)
  show "is_list2 h l as \<Longrightarrow> list2_add_tail h (Some e) l = (h', l') \<Longrightarrow> b \<notin> set as \<Longrightarrow> b \<noteq> e \<Longrightarrow> h' b = h b" for h l as e h' l' b
    by (cases as rule: rev_cases) (auto simp: is_list2_def list2_add_tail_def Let_def split: option.splits)
  show "is_list2 h l [] \<Longrightarrow> list2_remove_head h l = (h, l, None)" for h l by (simp add: is_list2_def list2_remove_head_def)
  show "is_list2 h l (a # as) \<Longrightarrow> list2_remove_head h l = (h', l', r) \<Longrightarrow> r = Some a \<and> is_list2 h' l' as" for h l a as h' l' r
    using remove_head2 by blast
  show "h' b = h b" if "is_list2 h l as" "list2_remove_head h l = (h', l', r)" "b \<notin> set as" for h l as h' l' r b
  proof (cases as)
    case (Cons a bs)
    then show ?thesis using that by (cases bs) (auto simp: is_list2_def list2_remove_head_def Let_def split: option.splits)
  qed (use that in \<open>auto simp: is_list2_def list2_remove_head_def\<close>)
qed

text \<open>
  (C39) A block can be taken from any place of a doubly linked list: the code returns without following
  \<^verbatim>\<open>NULL\<close>, the list is the sequence without the block, linked both ways, with head, tail and count right, the
  links of the block are cleared, and blocks outside the list are untouched.
\<close>

theorem list2_remove_anywhere:
  assumes "is_list2 h l as" "e \<in> set as"
  shows "\<exists>h' l'. list2_remove_element h (Some e) l = Some (h', l', Some e) \<and> is_list2 h' l' (remove1 e as) \<and> unlinked h' e \<and>
    (\<forall>b. b \<notin> set as \<longrightarrow> h' b = h b)"
proof -
  obtain xs ys where s: "as = xs @ e # ys" "e \<notin> set xs" using assms(2) by (auto dest: split_list_first)
  have d: "distinct as" by (rule is_list2_distinct[OF assms(1)])
  have rm: "remove1 e as = xs @ ys" using s by (simp add: remove1_append)
  have l: "dchain h None (ls_head l) (xs @ e # ys) None" "ls_tail l = Some (last (e # ys))" "ls_nb_elements l = int (length xs + length ys) + 1"
    using assms(1) s by (auto simp: is_list2_def)
  have e: "mb_previous (h e) = (if xs = [] then None else Some (last xs))" "dchain h None (ls_head l) xs (Some e)" "dchain h (Some e) (mb_next (h e)) ys None"
    using l(1) by (auto simp: dchain_append)
  have hd: "ls_head l = Some e \<longleftrightarrow> xs = []" using e(2) s(2) by (cases xs) auto
  have tl: "ls_tail l = Some e \<longleftrightarrow> ys = []" using l(2) d s(1) by (cases ys rule: rev_cases) auto
  consider (head) "xs = []" | (tail) t zs where "xs = zs @ [t]" "ys = []" | (mid) t zs n ws where "xs = zs @ [t]" "ys = n # ws"
    by (cases xs rule: rev_cases; cases ys) auto
  then show ?thesis
  proof cases
    case head
    obtain h' l' where r: "list2_remove_head h l = (h', l', Some e)" "is_list2 h' l' ys" "unlinked h' e"
      using remove_head2[of h l e ys] assms(1) s head by (metis append_Nil prod.exhaust)
    have "list2_remove_element h (Some e) l = Some (h', l', Some e)"
      using r(1) hd head by (auto simp: list2_remove_head_def list2_remove_element_def Let_def split: option.splits)
    moreover have "h' b = h b" if "b \<notin> set as" for b using list2_queue.remove_frame[OF assms(1) r(1) that] .
    ultimately show ?thesis using r(2,3) rm head by auto
  next
    case tail
    have "dchain (set_next t None h) None (ls_head l) (zs @ [t]) None" using e(2) tail d s by (intro dchain_set_last) auto
    then have "dchain (set_previous e None (set_next t None h)) None (ls_head l) xs None"
      unfolding tail(1)[symmetric] by (rule dchain_local) (use s in \<open>auto simp: heap_upd\<close>)
    then show ?thesis using hd tl tail e l rm s d
      by (auto simp: list2_remove_element_def is_list2_def unlinked_def)
  next
    case mid
    have nn: "mb_next (h e) = Some n" using e(3) mid(2) by simp
    have "dchain (set_previous n (Some t) (set_next t (Some n) h)) None (ls_head l) (zs @ t # n # ws) None"
      using e(2,3) mid d s by (intro dchain_join[of h None _ zs t "Some e" "Some e" "mb_next (h e)"]) auto
    then have "dchain (set_previous e None (set_next e None (set_previous n (Some t) (set_next t (Some n) h)))) None (ls_head l) (zs @ t # n # ws) None"
      by (rule dchain_local) (use s d mid in \<open>auto simp: heap_upd\<close>)
    moreover have "e \<noteq> t" "e \<noteq> n" using s d mid by auto
    ultimately show ?thesis using hd tl mid e(1) l(2,3) rm s d nn
      by (auto simp: list2_remove_element_def is_list2_def unlinked_def Let_def)
  qed
qed

text \<open>The middle block of three.\<close>

definition three_blocks :: mem_heap where
  "three_blocks = (\<lambda>_. zero_block)(1 := zero_block\<lparr>mb_next := Some 2\<rparr>, 2 := zero_block\<lparr>mb_previous := Some 1, mb_next := Some 3\<rparr>,
     3 := zero_block\<lparr>mb_previous := Some 2\<rparr>)"

theorem list2_remove_anywhere_witness:
  "\<exists>h' l'. list2_remove_element three_blocks (Some 2) (empty_list_t\<lparr>ls_head := Some 1, ls_tail := Some 3, ls_nb_elements := 3\<rparr>) = Some (h', l', Some 2) \<and>
     is_list2 h' l' [1, 3] \<and> unlinked h' 2"
proof -
  have "is_list2 three_blocks (empty_list_t\<lparr>ls_head := Some 1, ls_tail := Some 3, ls_nb_elements := 3\<rparr>) [1, 2, 3]"
    by (simp add: is_list2_def three_blocks_def zero_block_def)
  from list2_remove_anywhere[OF this, of 2] show ?thesis by auto
qed

text \<open>An emptied sublist keeps its count.\<close>

lemma add_list2_keeps_count: "list2_add_list h (Some s) l = (h', Some s', l') \<Longrightarrow> ls_nb_elements s' = ls_nb_elements s"
  by (auto simp: list2_add_list_def Let_def split: option.splits)

end
