(* ===== verification/Mem_Block.thy ===== *)
theory Mem_Block
  imports Block_List
begin

text \<open>
  The allocator of memory blocks, \<^verbatim>\<open>openair2/UTIL/MEM/mem_block.c\<close>: 13 pools of blocks whose data areas have
  64 \<open>* 2 ^ p\<close> bytes, and a pool of blocks without data. The free blocks of each pool are in a \<^verbatim>\<open>list_t\<close>. The number
  of blocks of a pool is scaled by \<^verbatim>\<open>MEM_SCALE\<close>, a constant of the build, here the argument \<open>scale\<close>; pool 8 has its number without \<^verbatim>\<open>JUMBO_FRAMES\<close>. The data
  area of a block is named by its pool and its index there. The end of the process by \<^verbatim>\<open>macphy_exit\<close> is \<open>None\<close>.
\<close>

subsection \<open>The pools\<close>

abbreviation (input) MEM_MNGT_POOL_ID_COPY :: nat where
  "MEM_MNGT_POOL_ID_COPY \<equiv> 13"

definition pool_sizes :: "nat \<Rightarrow> nat list" where
  "pool_sizes scale = [4096 * scale, 4096 * scale, 2048 * scale, 2048 * scale, 1024 * scale, 1024 * scale, 1024 * scale, 64 * scale,
     16 * scale, 8 * scale, 0 * scale, 0 * scale, 32 * scale, 1024]"

definition block_size :: "nat \<Rightarrow> nat" where
  "block_size p = 64 * 2 ^ p"

record mem_pool =
  mem_blocks :: mem_heap
  mem_lists :: "nat \<Rightarrow> list_t"

definition zero_pool :: mem_pool where
  "zero_pool = \<lparr>mem_blocks = (\<lambda>_. \<lparr>mb_next = None, mb_previous = None, mb_pool_id = 0, mb_data = None\<rparr>),
     mem_lists = (\<lambda>_. \<lparr>ls_head = None, ls_tail = None, ls_nb_elements = 0, ls_name = replicate 32 (CHR 0x00)\<rparr>)\<rparr>"

subsection \<open>Initialisation\<close>

text \<open>One block: its data area, its pool, and its place in the list of free blocks.\<close>

definition init_block :: "nat \<Rightarrow> nat \<Rightarrow> nat \<Rightarrow> mem_pool \<Rightarrow> mem_pool" where
  "init_block pool_index mb_index index m =
     (let b = mb_index + index;
          h = (mem_blocks m)(b := (mem_blocks m b)\<lparr>mb_data := (if pool_index \<le> 12 then Some (pool_index, index) else None), mb_pool_id := pool_index\<rparr>);
          (h', l) = list_add_tail_eurecom h (Some b) (mem_lists m pool_index)
      in m\<lparr>mem_blocks := h', mem_lists := (mem_lists m)(pool_index := l)\<rparr>)"

definition init_pool :: "nat \<Rightarrow> nat \<Rightarrow> nat \<Rightarrow> mem_pool \<Rightarrow> mem_pool option" where
  "init_pool pool_index mb_index n m =
     do {
       l \<leftarrow> list_init (Some ''POOL'') (mem_lists m pool_index);
       Some (fold (init_block pool_index mb_index) [0..<n] (m\<lparr>mem_lists := (mem_lists m)(pool_index := l)\<rparr>))
     }"

fun init_pools :: "nat \<Rightarrow> nat \<Rightarrow> nat list \<Rightarrow> mem_pool \<Rightarrow> mem_pool option" where
  "init_pools pool_index mb_index [] m = Some m"
| "init_pools pool_index mb_index (n # ns) m =
     do { m1 \<leftarrow> init_pool pool_index mb_index n m; init_pools (pool_index + 1) (mb_index + n) ns m1 }"

definition pool_buffer_init :: "nat \<Rightarrow> mem_pool option" where
  "pool_buffer_init scale = init_pools 0 0 (pool_sizes scale) zero_pool"

subsection \<open>Allocation\<close>

definition free_mem_block :: "addr option \<Rightarrow> mem_pool \<Rightarrow> mem_pool" where
  "free_mem_block leP m =
     (case leP of None \<Rightarrow> m
      | Some b \<Rightarrow>
          let p = mb_pool_id (mem_blocks m b)
          in if p \<le> MEM_MNGT_POOL_ID_COPY then
               let (h, l) = list_add_tail_eurecom (mem_blocks m) (Some b) (mem_lists m p)
               in m\<lparr>mem_blocks := h, mem_lists := (mem_lists m)(p := l)\<rparr>
             else m)"

function select_pool :: "nat \<Rightarrow> nat \<Rightarrow> nat" where
  "select_pool sz pool = (if sz \<noteq> 0 then select_pool (drop_bit 1 sz) (pool + 1) else pool)"
  by auto
termination by (relation "measure fst") (auto simp: drop_bit_Suc)

declare select_pool.simps [simp del]

function take_from_pools :: "nat \<Rightarrow> mem_pool \<Rightarrow> (addr \<times> mem_pool) option" where
  "take_from_pools p m =
     (case list_remove_head (mem_blocks m) (mem_lists m p) of (h, l, r) \<Rightarrow>
        let m1 = m\<lparr>mem_blocks := h, mem_lists := (mem_lists m)(p := l)\<rparr>
        in case r of Some b \<Rightarrow> Some (b, m1)
           | None \<Rightarrow> if p < 12 then take_from_pools (p + 1) m1 else None)"
  by auto
termination by (relation "measure (\<lambda>(p, m). 12 - p)") auto

declare take_from_pools.simps [simp del]

definition get_free_mem_block :: "nat \<Rightarrow> mem_pool \<Rightarrow> (addr \<times> mem_pool) option" where
  "get_free_mem_block sizeP m =
     (if sizeP > block_size 12 then None else take_from_pools (select_pool (drop_bit 6 sizeP) 0) m)"

definition get_free_copy_mem_block :: "mem_pool \<Rightarrow> (addr \<times> mem_pool) option" where
  "get_free_copy_mem_block m =
     (case list_remove_head (mem_blocks m) (mem_lists m MEM_MNGT_POOL_ID_COPY) of (h, l, r) \<Rightarrow>
        map_option (\<lambda>b. (b, m\<lparr>mem_blocks := h, mem_lists := (mem_lists m)(MEM_MNGT_POOL_ID_COPY := l)\<rparr>)) r)"

definition copy_mem_block :: "addr option \<Rightarrow> addr option \<Rightarrow> mem_pool \<Rightarrow> mem_pool \<times> addr option" where
  "copy_mem_block leP destP m =
     (case (destP, leP) of
        (Some d, Some s) \<Rightarrow>
          (if mb_pool_id (mem_blocks m d) = MEM_MNGT_POOL_ID_COPY
           then m\<lparr>mem_blocks := (mem_blocks m)(d := (mem_blocks m d)\<lparr>mb_data := mb_data (mem_blocks m s)\<rparr>)\<rparr> else m)
      | _ \<Rightarrow> m, destP)"

subsection \<open>The free blocks\<close>

text \<open>
  \<open>free p\<close> are the free blocks of pool \<open>p\<close>, in the order in which they will be handed out. A block of pool \<open>p \<le> 12\<close> has the data
  area of its index.
\<close>

definition pools_ok :: "mem_pool \<Rightarrow> (nat \<Rightarrow> addr list) \<Rightarrow> bool" where
  "pools_ok m free \<longleftrightarrow> (\<forall>p\<le>13. is_list (mem_blocks m) (mem_lists m p) (free p) \<and> (\<forall>b\<in>set (free p). mb_pool_id (mem_blocks m b) = p))"

lemma pools_disjoint: "pools_ok m free \<Longrightarrow> p \<le> 13 \<Longrightarrow> q \<le> 13 \<Longrightarrow> p \<noteq> q \<Longrightarrow> set (free p) \<inter> set (free q) = {}"
proof (rule equals0I)
  fix x assume ok: "pools_ok m free" "p \<le> 13" "q \<le> 13" "p \<noteq> q" and x: "x \<in> set (free p) \<inter> set (free q)"
  have "\<forall>r\<le>13. \<forall>b\<in>set (free r). mb_pool_id (mem_blocks m b) = r" using ok(1) by (simp add: pools_ok_def)
  then have "mb_pool_id (mem_blocks m x) = p" "mb_pool_id (mem_blocks m x) = q" using ok(2,3) x by blast+
  then show False using ok(4) by simp
qed

lemma pools_empty:
  assumes "pools_ok m free" "p \<le> 13" "free p = []"
  shows "list_remove_head (mem_blocks m) (mem_lists m p) = (mem_blocks m, mem_lists m p, None)"
proof (rule list_queue.remove_empty)
  show "is_list (mem_blocks m) (mem_lists m p) []" using assms by (metis pools_ok_def)
qed

lemma select_pool_bound: "sz < 2 ^ n \<Longrightarrow> select_pool sz p \<le> p + n"
proof (induction n arbitrary: sz p)
  case 0
  then show ?case by (simp add: select_pool.simps)
next
  case (Suc n)
  have "drop_bit 1 sz < 2 ^ n" using Suc.prems by (simp add: drop_bit_Suc)
  then show ?case using Suc.IH[of "drop_bit 1 sz" "p + 1"] by (subst select_pool.simps) simp
qed

lemma select_pool_fits: "p \<le> select_pool sz p \<and> sz < 2 ^ (select_pool sz p - p)"
proof (induction sz arbitrary: p rule: less_induct)
  case (less sz)
  show ?case
  proof (cases "sz = 0")
    case False
    have "drop_bit 1 sz < sz" using False by (simp add: drop_bit_Suc)
    from less[OF this, of "p + 1"] have ih: "p + 1 \<le> select_pool (drop_bit 1 sz) (p + 1)" "sz div 2 < 2 ^ (select_pool (drop_bit 1 sz) (p + 1) - (p + 1))"
      by (simp_all add: drop_bit_Suc)
    let ?q = "select_pool (drop_bit 1 sz) (p + 1)"
    have "sz < 2 * 2 ^ (?q - (p + 1))" using ih(2) by simp
    also have "\<dots> = 2 ^ (?q - p)" using ih(1) by (simp flip: power_Suc add: Suc_diff_Suc)
    finally show ?thesis using False ih(1) by (subst (1 2) select_pool.simps) simp
  qed (simp add: select_pool.simps)
qed

text \<open>Adding a block that is in no list, and taking the first one.\<close>

lemma pools_add:
  assumes "pools_ok m free" "p \<le> 13" "\<forall>q\<le>13. b \<notin> set (free q)" "mb_pool_id (h b) = p" "\<forall>x. x \<noteq> b \<longrightarrow> h x = mem_blocks m x"
    "list_add_tail_eurecom h (Some b) (mem_lists m p) = (h', l)"
  shows "pools_ok (m\<lparr>mem_blocks := h', mem_lists := (mem_lists m)(p := l)\<rparr>) (free(p := free p @ [b]))"
    "\<forall>x. mb_pool_id (h' x) = mb_pool_id (h x)"
proof -
  have ok: "is_list h (mem_lists m q) (free q)" "\<forall>x\<in>set (free q). mb_pool_id (h x) = q" if "q \<le> 13" for q
  proof -
    have "is_list (mem_blocks m) (mem_lists m q) (free q)" using assms(1) that by (simp add: pools_ok_def)
    then show "is_list h (mem_lists m q) (free q)" by (rule list_queue.local_law) (use assms(3,5) that in auto)
    show "\<forall>x\<in>set (free q). mb_pool_id (h x) = q" using assms(1,3,5) that by (metis pools_ok_def)
  qed
  show pid: "\<forall>x. mb_pool_id (h' x) = mb_pool_id (h x)"
    using assms(6) by (auto simp: list_add_tail_eurecom_def Let_def split: option.splits)
  have "is_list h' (if q = p then l else mem_lists m q) ((free(p := free p @ [b])) q)" if "q \<le> 13" for q
  proof (cases "q = p")
    case True
    then show ?thesis using list_queue.add_law[OF ok(1)[OF assms(2)] _ assms(6)] assms(2,3) by simp
  next
    case False
    have "set (free p) \<inter> set (free q) = {}" using pools_disjoint[OF assms(1,2) that] False by blast
    then show ?thesis using list_queue.add_keeps_other[OF ok(1)[OF assms(2)] ok(1)[OF that] _ _ assms(6)] assms(3) that False by simp
  qed
  then show "pools_ok (m\<lparr>mem_blocks := h', mem_lists := (mem_lists m)(p := l)\<rparr>) (free(p := free p @ [b]))"
    using ok(2) pid assms(4) by (auto simp: pools_ok_def)
qed

lemma pools_take:
  assumes "pools_ok m free" "p \<le> 13" "free p = b # bs" "list_remove_head (mem_blocks m) (mem_lists m p) = (h', l, r)"
  shows "r = Some b" "pools_ok (m\<lparr>mem_blocks := h', mem_lists := (mem_lists m)(p := l)\<rparr>) (free(p := bs))"
    "\<forall>x. mb_pool_id (h' x) = mb_pool_id (mem_blocks m x)"
proof -
  have ok: "is_list (mem_blocks m) (mem_lists m q) (free q)" "\<forall>x\<in>set (free q). mb_pool_id (mem_blocks m x) = q" if "q \<le> 13" for q
    using assms(1) that by (auto simp: pools_ok_def)
  have rem: "r = Some b" "is_list h' l bs" using list_queue.remove_law[OF _ assms(4)] ok(1)[OF assms(2)] assms(3) by auto
  show "r = Some b" by (rule rem(1))
  show pid: "\<forall>x. mb_pool_id (h' x) = mb_pool_id (mem_blocks m x)"
    using assms(4) by (auto simp: list_remove_head_def Let_def split: option.splits if_splits)
  have "is_list h' (mem_lists m q) (free q)" if "q \<le> 13" "q \<noteq> p" for q
    using list_queue.remove_keeps_other[OF ok(1)[OF assms(2)] ok(1)[OF that(1)] _ assms(4)] pools_disjoint[OF assms(1,2) that(1)] that(2) by blast
  then show "pools_ok (m\<lparr>mem_blocks := h', mem_lists := (mem_lists m)(p := l)\<rparr>) (free(p := bs))"
    using rem(2) ok(2) pid assms(2,3) by (auto simp: pools_ok_def)
qed

lemma take_from_pools_run:
  "pools_ok m free \<Longrightarrow> p \<le> 12 \<Longrightarrow>
   (case take_from_pools p m of
      None \<Rightarrow> \<forall>q. p \<le> q \<and> q \<le> 12 \<longrightarrow> free q = []
    | Some (b, m') \<Rightarrow> \<exists>q bs. p \<le> q \<and> q \<le> 12 \<and> free q = b # bs \<and> pools_ok m' (free(q := bs)) \<and>
        (\<forall>x. mb_pool_id (mem_blocks m' x) = mb_pool_id (mem_blocks m x)))"
proof (induction "12 - p" arbitrary: p)
  case (0 p)
  show ?case
  proof (cases "free p")
    case Nil
    have "list_remove_head (mem_blocks m) (mem_lists m p) = (mem_blocks m, mem_lists m p, None)"
      using pools_empty[OF 0(2) _ Nil] 0(3) by simp
    then show ?thesis using 0 Nil by (subst take_from_pools.simps) (auto dest: antisym)
  next
    case (Cons b bs)
    obtain h l r where r: "list_remove_head (mem_blocks m) (mem_lists m p) = (h, l, r)" by (metis prod.exhaust)
    have "p \<le> 13" using 0 by simp
    note t = pools_take[OF 0(2) this Cons r]
    show ?thesis using 0 t r Cons by (subst take_from_pools.simps) auto
  qed
next
  case (Suc n)
  have p: "n = 12 - (p + 1)" "p + 1 \<le> 12" "p \<le> 13" "p < 12" using Suc.hyps(2) by simp_all
  show ?case
  proof (cases "free p")
    case Nil
    note e = pools_empty[OF Suc.prems(1) p(3) Nil]
    have "take_from_pools p m = take_from_pools (p + 1) m" using e p by (subst take_from_pools.simps) simp
    moreover have "p \<le> q \<longleftrightarrow> q = p \<or> p + 1 \<le> q" for q by auto
    ultimately show ?thesis using Suc.hyps(1)[OF p(1) Suc.prems(1) p(2)] Nil by (auto split: option.splits)
  next
    case (Cons b bs)
    obtain h l r where r: "list_remove_head (mem_blocks m) (mem_lists m p) = (h, l, r)" by (metis prod.exhaust)
    note t = pools_take[OF Suc.prems(1) p(3) Cons r]
    show ?thesis using Suc.prems t r Cons p by (subst take_from_pools.simps) auto
  qed
qed

subsection \<open>After initialisation\<close>

definition all_free :: "mem_pool \<Rightarrow> (nat \<Rightarrow> addr list) \<Rightarrow> nat \<Rightarrow> bool" where
  "all_free m free n \<longleftrightarrow> pools_ok m free \<and> (\<Union>p\<le>13. set (free p)) = {0..<n}"

lemma init_block_free:
  assumes "all_free m free (mb + i)" "p \<le> 13"
  shows "all_free (init_block p mb i m) (free(p := free p @ [mb + i])) (mb + Suc i)"
proof -
  let ?b = "mb + i"
  let ?h = "(mem_blocks m)(?b := (mem_blocks m ?b)\<lparr>mb_data := (if p \<le> 12 then Some (p, i) else None), mb_pool_id := p\<rparr>)"
  obtain h' l where a: "list_add_tail_eurecom ?h (Some ?b) (mem_lists m p) = (h', l)" by fastforce
  have ok: "pools_ok m free" "\<forall>q\<le>13. ?b \<notin> set (free q)" using assms(1) by (auto simp: all_free_def)
  have "pools_ok (m\<lparr>mem_blocks := h', mem_lists := (mem_lists m)(p := l)\<rparr>) (free(p := free p @ [?b]))"
    by (rule pools_add(1)[OF ok(1) assms(2) ok(2) _ _ a]) simp_all
  moreover have "(\<Union>q\<le>13. set ((free(p := free p @ [?b])) q)) = insert ?b (\<Union>q\<le>13. set (free q))"
    using assms(2) by (auto split: if_splits)
  ultimately show ?thesis using assms(1) a by (auto simp: init_block_def all_free_def Let_def)
qed

lemma init_blocks_free:
  assumes "all_free m free mb" "p \<le> 13"
  shows "all_free (fold (init_block p mb) [0..<n] m) (free(p := free p @ [mb..<mb + n])) (mb + n)"
proof (induction n)
  case (Suc n)
  have "(free(p := free p @ [mb..<mb + n]))(p := (free(p := free p @ [mb..<mb + n])) p @ [mb + n]) = free(p := free p @ [mb..<mb + Suc n])" by simp
  then show ?case using init_block_free[OF Suc assms(2)] by (simp del: fun_upd_apply)
qed (use assms in simp)

lemma init_pool_free:
  assumes "all_free m free mb" "p \<le> 13" "free p = []" "ls_name (mem_lists m p) = replicate 32 (CHR 0x00)"
  shows "\<exists>m'. init_pool p mb n m = Some m' \<and> all_free m' (free(p := [mb..<mb + n])) (mb + n) \<and>
    (\<forall>q. q \<noteq> p \<longrightarrow> ls_name (mem_lists m' q) = ls_name (mem_lists m q))"
proof -
  obtain name where nm: "copy_name ''POOL'' 0 (replicate 32 (CHR 0x00)) = Some name"
    using copy_name_terminates[of "replicate 32 (CHR 0x00)" 0 "''POOL''"] by auto
  let ?l = "(mem_lists m p)\<lparr>ls_name := name, ls_tail := None, ls_head := None, ls_nb_elements := 0\<rparr>"
  let ?m = "m\<lparr>mem_lists := (mem_lists m)(p := ?l)\<rparr>"
  have "is_list (mem_blocks m) ?l []" by (simp add: is_list_def)
  then have "all_free ?m free mb" using assms(1,3) by (auto simp: all_free_def pools_ok_def)
  from init_blocks_free[OF this assms(2), of n] assms(3)
  have f: "all_free (fold (init_block p mb) [0..<n] ?m) (free(p := [mb..<mb + n])) (mb + n)" by simp
  have nb: "q \<noteq> p \<Longrightarrow> ls_name (mem_lists (fold (init_block p mb) xs k) q) = ls_name (mem_lists k q)" for q xs k
    by (induction xs arbitrary: k) (auto simp: init_block_def Let_def split: prod.splits)
  show ?thesis using f nb[of _ "[0..<n]" ?m] nm assms(4) by (simp add: init_pool_def list_init_def)
qed

lemma init_pools_free:
  "all_free m free mb \<Longrightarrow> p + length ns = 14 \<Longrightarrow> (\<forall>q\<ge>p. free q = [] \<and> ls_name (mem_lists m q) = replicate 32 (CHR 0x00)) \<Longrightarrow>
   \<exists>m' free'. init_pools p mb ns m = Some m' \<and> all_free m' free' (mb + sum_list ns) \<and> (\<forall>q<p. free' q = free q) \<and>
     (\<forall>k<length ns. length (free' (p + k)) = ns ! k)"
proof (induction ns arbitrary: p mb m free)
  case (Cons n ns)
  have p: "p \<le> 13" using Cons.prems(2) by simp
  obtain m1 where m1: "init_pool p mb n m = Some m1" "all_free m1 (free(p := [mb..<mb + n])) (mb + n)"
    "\<forall>q. q \<noteq> p \<longrightarrow> ls_name (mem_lists m1 q) = ls_name (mem_lists m q)"
    using init_pool_free[OF Cons.prems(1) p, of n] Cons.prems(3) by auto
  have "\<forall>q\<ge>p + 1. (free(p := [mb..<mb + n])) q = [] \<and> ls_name (mem_lists m1 q) = replicate 32 (CHR 0x00)"
    using Cons.prems(3) m1(3) by auto
  then obtain m' free' where r: "init_pools (p + 1) (mb + n) ns m1 = Some m'" "all_free m' free' (mb + n + sum_list ns)"
    "\<forall>q<p + 1. free' q = (free(p := [mb..<mb + n])) q" "\<forall>k<length ns. length (free' (p + 1 + k)) = ns ! k"
    using Cons.IH[OF m1(2), of "p + 1"] Cons.prems(2) by auto
  have "length (free' (p + k)) = (n # ns) ! k" if "k < length (n # ns)" for k
    using that r(3,4) by (cases k) auto
  moreover have "\<forall>q<p. free' q = free q" using r(3) by auto
  ultimately show ?case using m1(1) r(1,2) by (intro exI[of _ m'] exI[of _ free']) (auto simp: add.assoc)
qed auto

lemma pool_init_free:
  "\<exists>m free. pool_buffer_init scale = Some m \<and> all_free m free (sum_list (pool_sizes scale)) \<and> (\<forall>p<14. length (free p) = pool_sizes scale ! p)"
proof -
  have "all_free zero_pool (\<lambda>_. []) 0" by (simp add: all_free_def pools_ok_def zero_pool_def is_list_def)
  moreover have len: "length (pool_sizes scale) = 14" by (simp add: pool_sizes_def)
  moreover have "\<forall>q\<ge>0. (\<lambda>_. []) q = [] \<and> ls_name (mem_lists zero_pool q) = replicate 32 (CHR 0x00)" by (simp add: zero_pool_def)
  ultimately show ?thesis using init_pools_free[of zero_pool "\<lambda>_. []" 0 0 "pool_sizes scale"] unfolding pool_buffer_init_def by force
qed

subsection \<open>No block is shared and none is lost\<close>

text \<open>
  The states of the allocator, with the set of the blocks that are in use: allocation, release of a block in
  use, and what the users of the blocks do to them, which changes neither their pool nor any other block.
\<close>

inductive mem_reach :: "nat \<Rightarrow> mem_pool \<Rightarrow> addr set \<Rightarrow> bool" for scale where
  init: "pool_buffer_init scale = Some m \<Longrightarrow> mem_reach scale m {}"
| alloc: "mem_reach scale m used \<Longrightarrow> sizeP < 65536 \<Longrightarrow> get_free_mem_block sizeP m = Some (b, m') \<Longrightarrow> mem_reach scale m' (insert b used)"
| copy: "mem_reach scale m used \<Longrightarrow> get_free_copy_mem_block m = Some (b, m') \<Longrightarrow> mem_reach scale m' (insert b used)"
| free: "mem_reach scale m used \<Longrightarrow> b \<in> used \<Longrightarrow> mem_reach scale (free_mem_block (Some b) m) (used - {b})"
| work: "mem_reach scale m used \<Longrightarrow> (\<And>x. x \<notin> used \<Longrightarrow> h x = mem_blocks m x) \<Longrightarrow> (\<And>x. mb_pool_id (h x) = mb_pool_id (mem_blocks m x)) \<Longrightarrow>
    mem_reach scale (m\<lparr>mem_blocks := h\<rparr>) used"

definition partitioned :: "nat \<Rightarrow> mem_pool \<Rightarrow> addr set \<Rightarrow> (nat \<Rightarrow> addr list) \<Rightarrow> bool" where
  "partitioned n m used free \<longleftrightarrow> pools_ok m free \<and> used \<inter> (\<Union>p\<le>13. set (free p)) = {} \<and> used \<union> (\<Union>p\<le>13. set (free p)) = {0..<n} \<and>
     (\<forall>b\<in>used. mb_pool_id (mem_blocks m b) \<le> 13)"

lemma union_upd:
  assumes "(p::nat) \<le> 13"
  shows "(\<Union>q\<le>13. set ((free(p := xs)) q)) = set xs \<union> (\<Union>q\<in>{..13} - {p}. set (free q))"
proof -
  have "{..13} = insert p ({..13} - {p})" using assms by auto
  then have "(\<Union>q\<le>13. set ((free(p := xs)) q)) = set ((free(p := xs)) p) \<union> (\<Union>q\<in>{..13} - {p}. set ((free(p := xs)) q))"
    by (metis UN_insert)
  then show ?thesis by simp
qed

lemma partitioned_take:
  assumes "partitioned n m used free" "p \<le> 13" "free p = b # bs" "pools_ok m' (free(p := bs))" "\<forall>x. mb_pool_id (mem_blocks m' x) = mb_pool_id (mem_blocks m x)"
  shows "partitioned n m' (insert b used) (free(p := bs))" "b \<notin> used" "b < n" "mb_pool_id (mem_blocks m b) = p"
proof -
  let ?U = "\<Union>q\<le>13. set (free q)" and ?V = "\<Union>q\<le>13. set ((free(p := bs)) q)"
  have ok: "pools_ok m free" "used \<inter> ?U = {}" "used \<union> ?U = {0..<n}" "\<forall>b\<in>used. mb_pool_id (mem_blocks m b) \<le> 13"
    using assms(1) by (simp_all add: partitioned_def)
  have l: "is_list (mem_blocks m) (mem_lists m p) (free p)" "\<forall>x\<in>set (free p). mb_pool_id (mem_blocks m x) = p"
    using ok(1) assms(2) unfolding pools_ok_def by blast+
  have nb: "b \<notin> set bs" using list_queue.distinct_law[OF l(1)] assms(3) by simp
  have other: "b \<notin> set (free q)" if "q \<le> 13" "q \<noteq> p" for q using pools_disjoint[OF ok(1) assms(2) that(1)] that(2) assms(3) by auto
  have U: "?U = insert b ?V" using union_upd[OF assms(2), of free "free p", unfolded fun_upd_triv] union_upd[OF assms(2), of free bs] assms(3)
    by (simp del: fun_upd_apply)
  have V: "b \<notin> ?V" using nb other by auto
  show "b \<notin> used" "b < n" using ok(2,3) U by auto
  show pid: "mb_pool_id (mem_blocks m b) = p" using l(2) assms(3) by simp
  have "insert b used \<inter> ?V = {}" "insert b used \<union> ?V = {0..<n}" using ok(2,3) U V by auto
  then show "partitioned n m' (insert b used) (free(p := bs))"
    unfolding partitioned_def using assms(2,4,5) ok(4) pid by auto
qed

lemma get_free_run:
  assumes "partitioned n m used free" "sizeP < 65536"
  shows "case get_free_mem_block sizeP m of
      None \<Rightarrow> \<forall>q\<le>12. sizeP < block_size q \<longrightarrow> free q = []
    | Some (b, m') \<Rightarrow> b \<notin> used \<and> b < n \<and> mb_pool_id (mem_blocks m b) \<le> 12 \<and> sizeP < block_size (mb_pool_id (mem_blocks m b)) \<and>
        (\<exists>free'. partitioned n m' (insert b used) free')"
proof -
  let ?p = "select_pool (drop_bit 6 sizeP) 0"
  have sz: "sizeP < block_size q \<longleftrightarrow> drop_bit 6 sizeP < 2 ^ q" for q
  proof -
    have "sizeP < 64 * 2 ^ q \<longleftrightarrow> sizeP div 64 < 2 ^ q" by (simp add: div_less_iff_less_mult mult.commute)
    then show ?thesis by (simp add: block_size_def drop_bit_eq_div)
  qed
  have "drop_bit 6 sizeP < 2 ^ 12" using assms(2) by (simp add: drop_bit_eq_div)
  then have p: "?p \<le> 12" using select_pool_bound[of "drop_bit 6 sizeP" 12 0] by simp
  have least: "?p \<le> q" if "sizeP < block_size q" for q using that select_pool_bound[of "drop_bit 6 sizeP" q 0] by (simp add: sz)
  have fit: "sizeP < block_size q" if "?p \<le> q" for q
  proof -
    have "drop_bit 6 sizeP < 2 ^ ?p" using select_pool_fits[of 0 "drop_bit 6 sizeP"] by simp
    also have "\<dots> \<le> 2 ^ q" using that by (intro power_increasing) simp_all
    finally show ?thesis unfolding sz .
  qed
  have get: "get_free_mem_block sizeP m = take_from_pools ?p m" using assms(2) by (simp add: get_free_mem_block_def block_size_def)
  have "pools_ok m free" using assms(1) by (simp add: partitioned_def)
  note run = take_from_pools_run[OF this p]
  show ?thesis
  proof (cases "take_from_pools ?p m")
    case None
    then show ?thesis using run least unfolding get by simp
  next
    case (Some r)
    obtain b m' where r: "r = (b, m')" by fastforce
    then obtain q bs where q: "?p \<le> q" "q \<le> 12" "free q = b # bs" "pools_ok m' (free(q := bs))"
      "\<forall>x. mb_pool_id (mem_blocks m' x) = mb_pool_id (mem_blocks m x)" using run Some by auto
    then have "q \<le> 13" by simp
    from partitioned_take[OF assms(1) this q(3-5)] show ?thesis unfolding get Some r using q(2) fit[OF q(1)] by auto
  qed
qed

lemma mem_reach_partitioned: "mem_reach scale m used \<Longrightarrow> \<exists>free. partitioned (sum_list (pool_sizes scale)) m used free"
proof (induction rule: mem_reach.induct)
  case (init m)
  then show ?case using pool_init_free[of scale] by (auto simp: all_free_def partitioned_def)
next
  case (alloc m used sizeP b m')
  then obtain free where "partitioned (sum_list (pool_sizes scale)) m used free" by blast
  from get_free_run[OF this alloc.hyps(2)] alloc.hyps(3) show ?case by simp
next
  case (copy m used b m')
  then obtain free where free: "partitioned (sum_list (pool_sizes scale)) m used free" by blast
  then have ok: "pools_ok m free" by (simp add: partitioned_def)
  obtain h l r where r: "list_remove_head (mem_blocks m) (mem_lists m 13) = (h, l, r)" by (metis prod.exhaust)
  show ?case
  proof (cases "free 13")
    case Nil
    then show ?thesis using pools_empty[OF ok _ Nil] copy.hyps(2) by (simp add: get_free_copy_mem_block_def)
  next
    case (Cons c bs)
    note t = pools_take[OF ok _ Cons r, simplified]
    have m': "m' = m\<lparr>mem_blocks := h, mem_lists := (mem_lists m)(13 := l)\<rparr>" "b = c" using copy.hyps(2) r t(1) by (simp_all add: get_free_copy_mem_block_def)
    have "partitioned (sum_list (pool_sizes scale)) m' (insert c used) (free(13 := bs))"
      by (rule partitioned_take(1)[OF free _ Cons]) (use t(2,3) m'(1) in simp_all)
    then show ?thesis using m'(2) by blast
  qed
next
  case (free m used b)
  then obtain fr where fr: "partitioned (sum_list (pool_sizes scale)) m used fr" by blast
  let ?p = "mb_pool_id (mem_blocks m b)" and ?U = "\<Union>q\<le>13. set (fr q)"
  have ok: "pools_ok m fr" "used \<inter> ?U = {}" "used \<union> ?U = {0..<sum_list (pool_sizes scale)}" "\<forall>b\<in>used. mb_pool_id (mem_blocks m b) \<le> 13"
    using fr by (simp_all add: partitioned_def)
  have p: "?p \<le> 13" "\<forall>q\<le>13. b \<notin> set (fr q)" using ok(2,4) free.hyps(2) by auto
  obtain h l where a: "list_add_tail_eurecom (mem_blocks m) (Some b) (mem_lists m ?p) = (h, l)" by fastforce
  have f: "free_mem_block (Some b) m = m\<lparr>mem_blocks := h, mem_lists := (mem_lists m)(?p := l)\<rparr>" using a p(1) by (simp add: free_mem_block_def Let_def)
  note add = pools_add[OF ok(1) p(1,2) refl _ a, simplified]
  have U: "(\<Union>q\<le>13. set ((fr(?p := fr ?p @ [b])) q)) = insert b ?U" using p(1) by (auto split: if_splits)
  have "partitioned (sum_list (pool_sizes scale)) (free_mem_block (Some b) m) (used - {b}) (fr(?p := fr ?p @ [b]))"
    unfolding partitioned_def U f using add ok(2-4) free.hyps(2) by auto
  then show ?case by blast
next
  case (work m used h)
  then obtain fr where fr: "partitioned (sum_list (pool_sizes scale)) m used fr" by blast
  have ok: "pools_ok m fr" "used \<inter> (\<Union>q\<le>13. set (fr q)) = {}" using fr by (simp_all add: partitioned_def)
  have "is_list h (mem_lists m p) (fr p) \<and> (\<forall>b\<in>set (fr p). mb_pool_id (h b) = p)" if "p \<le> 13" for p
  proof -
    have l: "is_list (mem_blocks m) (mem_lists m p) (fr p)" "\<forall>b\<in>set (fr p). mb_pool_id (mem_blocks m b) = p" using ok(1) that unfolding pools_ok_def by blast+
    have "h a = mem_blocks m a" if "a \<in> set (fr p)" for a using work.hyps(2) ok(2) that \<open>p \<le> 13\<close> by blast
    then show ?thesis using list_queue.local_law[OF l(1)] l(2) work.hyps(3) by simp
  qed
  then have "pools_ok (m\<lparr>mem_blocks := h\<rparr>) fr" by (simp add: pools_ok_def)
  then have "partitioned (sum_list (pool_sizes scale)) (m\<lparr>mem_blocks := h\<rparr>) used fr" using fr work.hyps(3) by (simp add: partitioned_def)
  then show ?case by blast
qed

text \<open>
  (C40) Take any history of allocations, of uses of the blocks handed out and of releases in which only blocks in use
  are released, each once per allocation, and in which their users leave the pool number of a block alone. Then a block
  that is allocated is not in use, is one of the blocks of the pools and is large enough for the size asked
  for (below 65536). The allocation fails, which ends the process, only if every block that is large enough is in use. (The code does not
  protect itself against a second release of a block, which closes the free list into a ring.)
\<close>

theorem alloc_gives_unused_block:
  assumes "mem_reach scale m used" "sizeP < 65536"
  shows "case get_free_mem_block sizeP m of
      Some (b, m') \<Rightarrow> b \<notin> used \<and> b < sum_list (pool_sizes scale) \<and> sizeP < block_size (mb_pool_id (mem_blocks m b)) \<and> mem_reach scale m' (insert b used)
    | None \<Rightarrow> \<forall>b. b < sum_list (pool_sizes scale) \<and> mb_pool_id (mem_blocks m b) \<le> 12 \<and> sizeP < block_size (mb_pool_id (mem_blocks m b)) \<longrightarrow> b \<in> used"
proof -
  obtain free where fr: "partitioned (sum_list (pool_sizes scale)) m used free" using mem_reach_partitioned[OF assms(1)] by blast
  note g = get_free_run[OF fr assms(2)]
  show ?thesis
  proof (cases "get_free_mem_block sizeP m")
    case None
    have "b \<in> used" if b: "b < sum_list (pool_sizes scale)" "mb_pool_id (mem_blocks m b) \<le> 12" "sizeP < block_size (mb_pool_id (mem_blocks m b))" for b
    proof (rule ccontr)
      assume "b \<notin> used"
      then obtain p where p: "p \<le> 13" "b \<in> set (free p)" using fr b(1) by (auto simp: partitioned_def)
      then have "mb_pool_id (mem_blocks m b) = p" using fr unfolding partitioned_def pools_ok_def by blast
      then show False using g None b p by auto
    qed
    then show ?thesis using None by simp
  next
    case (Some r)
    then show ?thesis using g mem_reach.alloc[OF assms] by (cases r) auto
  qed
qed

text \<open>The first allocation of 100 bytes succeeds and gives a block of at least 128 bytes.\<close>

theorem alloc_gives_unused_block_witness:
  "\<exists>m b m'. pool_buffer_init 1 = Some m \<and> mem_reach 1 m {} \<and> get_free_mem_block 100 m = Some (b, m') \<and> b < 16504 \<and> 100 < block_size (mb_pool_id (mem_blocks m b))"
proof -
  obtain m free where i: "pool_buffer_init 1 = Some m" "all_free m free (sum_list (pool_sizes 1))" "\<forall>p<14. length (free p) = pool_sizes 1 ! p"
    using pool_init_free[of 1] by blast
  have reach: "mem_reach 1 m {}" by (rule mem_reach.init[OF i(1)])
  have part: "partitioned (sum_list (pool_sizes 1)) m {} free" using i(2) by (auto simp: all_free_def partitioned_def)
  have "length (free 1) = 4096" using i(3) by (simp add: pool_sizes_def)
  then have "free 1 \<noteq> []" by auto
  moreover have "100 < block_size 1" "(1::nat) \<le> 12" by (simp_all add: block_size_def)
  ultimately have "get_free_mem_block 100 m \<noteq> None" using get_free_run[OF part, of 100] by (auto split: option.splits)
  then obtain b m' where g: "get_free_mem_block 100 m = Some (b, m')" by auto
  have "sum_list (pool_sizes 1) = 16504" by (simp add: pool_sizes_def)
  then show ?thesis using alloc_gives_unused_block[OF reach, of 100] g i(1) reach by auto
qed

text \<open>Releasing the block at the end of its pool a second time closes the list into a ring.\<close>

lemma double_free_makes_ring:
  assumes "is_list (mem_blocks m) (mem_lists m p) (as @ [b])" "mb_pool_id (mem_blocks m b) = p" "p \<le> 13"
  shows "mb_next (mem_blocks (free_mem_block (Some b) m) b) = Some b"
  using assms by (auto simp: free_mem_block_def list_add_tail_eurecom_def is_list_def Let_def)

end
