(* ===== verification/Rlc_Um_Types.thy ===== *)
theory Rlc_Um_Types
  imports Rlc_Am_Timers
begin

text \<open>
  The data of an unacknowledged-mode (UM) RLC entity: \<^verbatim>\<open>rlc_um_constants.h\<close>, \<^verbatim>\<open>rlc_um_structs.h\<close> and
  \<^verbatim>\<open>rlc_um_entity.h\<close> of \<^verbatim>\<open>openair2/LAYER2/RLC/UM_v9.3.0\<close>. The lists of memory blocks of the entity are HOL lists, the array
  \<^verbatim>\<open>dar_buffer\<close> of 1024 pointers a function whose index the operations check. \<^verbatim>\<open>struct rlc_um_timer_s\<close> has the fields of
  the timers of AM. SDUs handed to PDCP (\<^verbatim>\<open>rlc_data_ind\<close>) are in \<open>um_log_data_ind\<close>. The mutexes, the unused list
  \<^verbatim>\<open>pdus_from_mac_layer\<close> and fields nothing reads are left out.
\<close>

abbreviation (input) RLC_UM_SEGMENT_NB_MAX_LI_PER_PDU :: int where
  "RLC_UM_SEGMENT_NB_MAX_LI_PER_PDU \<equiv> 24"

abbreviation (input) RLC_SDU_MAX_SIZE_DATA_PLANE :: int where
  "RLC_SDU_MAX_SIZE_DATA_PLANE \<equiv> 9000"

abbreviation (input) RLC_SDU_MAX_SIZE_CONTROL_PLANE :: int where
  "RLC_SDU_MAX_SIZE_CONTROL_PLANE \<equiv> 2000"

type_synonym rlc_um_timer = rlc_am_timer

text \<open>A memory block of the queue: the bytes of the SDU behind the management structure at its start.\<close>

record rlc_um_tx_sdu_management =
  ums_data :: "byte list"
  ums_creation_time :: frame
  ums_remaining_size :: int
  ums_segmented_size :: int
  ums_size :: int

record rlc_um_pdu_info =
  upi_fi :: int
  upi_e :: int
  upi_sn :: int
  upi_li_list :: "int list"
  upi_hidden_size :: int
  upi_payload :: "byte list"
  upi_payload_size :: int
  upi_header_size :: int

record rlc_um_stats =
  us_tx_pdcp_sdu :: u32
  us_tx_pdcp_bytes :: u32
  us_tx_pdcp_sdu_discarded :: u32
  us_tx_pdcp_bytes_discarded :: u32
  us_tx_data_pdu :: u32
  us_tx_data_bytes :: u32
  us_rx_pdcp_sdu :: u32
  us_rx_pdcp_bytes :: u32
  us_rx_data_pdus_duplicate :: u32
  us_rx_data_bytes_duplicate :: u32
  us_rx_data_pdu :: u32
  us_rx_data_bytes :: u32
  us_rx_data_pdu_dropped :: u32
  us_rx_data_bytes_dropped :: u32
  us_rx_data_pdu_out_of_window :: u32
  us_rx_data_bytes_out_of_window :: u32
  us_timer_reordering_timed_out :: u32

record rlc_um_entity =
  um_enb_module_id :: int
  um_ue_module_id :: int
  um_initialized :: bool
  um_protocol_state :: rlc_protocol_state
  um_is_data_plane :: bool
  um_is_enb :: bool
  um_is_mxch :: bool
  vt_us :: int
  vr_ur :: int
  vr_ux :: int
  vr_uh :: int
  um_t_reordering :: rlc_um_timer
  tx_sn_length :: int
  rx_sn_length :: int
  tx_header_min_length_in_bytes :: int
  rx_header_min_length_in_bytes :: int
  tx_sn_modulo :: int
  rx_sn_modulo :: int
  rx_um_window_size :: int
  tx_um_window_size :: int
  um_input_sdus :: "rlc_um_tx_sdu_management list"
  um_buffer_occupancy :: int
  um_nb_bytes_requested_by_mac :: int
  um_pdus_to_mac_layer :: "mac_tb_req list"
  um_output_sdu_in_construction :: "byte list option"
  um_output_sdu_size_to_write :: int
  dar_buffer :: "int \<Rightarrow> mac_tb_ind option"
  um_rb_id :: int
  last_reassemblied_sn :: int
  last_reassemblied_missing_sn :: int
  reassembly_missing_sn_detected :: bool
  um_first_pdu :: bool
  um_stats :: rlc_um_stats
  um_log_data_ind :: "byte list list"

text \<open>The entity after \<^verbatim>\<open>memset(rlc_pP, 0, sizeof(rlc_um_entity_t))\<close>.\<close>

definition zero_um_stats :: rlc_um_stats where
  "zero_um_stats = \<lparr>us_tx_pdcp_sdu = 0, us_tx_pdcp_bytes = 0, us_tx_pdcp_sdu_discarded = 0, us_tx_pdcp_bytes_discarded = 0,
     us_tx_data_pdu = 0, us_tx_data_bytes = 0, us_rx_pdcp_sdu = 0, us_rx_pdcp_bytes = 0, us_rx_data_pdus_duplicate = 0,
     us_rx_data_bytes_duplicate = 0, us_rx_data_pdu = 0, us_rx_data_bytes = 0, us_rx_data_pdu_dropped = 0, us_rx_data_bytes_dropped = 0,
     us_rx_data_pdu_out_of_window = 0, us_rx_data_bytes_out_of_window = 0, us_timer_reordering_timed_out = 0\<rparr>"

definition zero_um_entity :: rlc_um_entity where
  "zero_um_entity = \<lparr>um_enb_module_id = 0, um_ue_module_id = 0, um_initialized = False, um_protocol_state = RLC_NULL_STATE,
     um_is_data_plane = False, um_is_enb = False, um_is_mxch = False, vt_us = 0, vr_ur = 0, vr_ux = 0, vr_uh = 0,
     um_t_reordering = zero_timer, tx_sn_length = 0, rx_sn_length = 0, tx_header_min_length_in_bytes = 0, rx_header_min_length_in_bytes = 0,
     tx_sn_modulo = 0, rx_sn_modulo = 0, rx_um_window_size = 0, tx_um_window_size = 0, um_input_sdus = [], um_buffer_occupancy = 0,
     um_nb_bytes_requested_by_mac = 0, um_pdus_to_mac_layer = [], um_output_sdu_in_construction = None, um_output_sdu_size_to_write = 0,
     dar_buffer = (\<lambda>_. None), um_rb_id = 0, last_reassemblied_sn = 0, last_reassemblied_missing_sn = 0, reassembly_missing_sn_detected = False,
     um_first_pdu = False, um_stats = zero_um_stats, um_log_data_ind = []\<rparr>"

text \<open>The remainder of C, which has the sign of the dividend; division by zero is \<open>None\<close>.\<close>

definition c_rem :: "int \<Rightarrow> int \<Rightarrow> int" where
  "c_rem a b = sgn a * (\<bar>a\<bar> mod \<bar>b\<bar>)"

lemma c_rem_pos [simp]: "0 \<le> a \<Longrightarrow> 0 < b \<Longrightarrow> c_rem a b = a mod b"
  by (cases "a = 0") (simp_all add: c_rem_def)

lemma c_rem_neg: "- b < a \<Longrightarrow> a < 0 \<Longrightarrow> c_rem a b = a"
  by (simp add: c_rem_def)

end
