(* ===== verification/Rlc_Um_Reassembly.thy ===== *)
theory Rlc_Um_Reassembly
  imports Rlc_Um_Types Rlc_Am_Header Sdu_Framing
begin

text \<open>
  SDU reassembly of the UM entity: \<^verbatim>\<open>rlc_um_reassembly.c\<close>, and from \<^verbatim>\<open>rlc_um_dar.c\<close> the reading of length indicators and
  what \<^verbatim>\<open>rlc_um_try_reassembly\<close> does with one PDU. Reading beyond the received block, and a failed assertion, are
  \<open>None\<close>; allocation succeeds. A PDU behind a gap starts with bytes of an SDU whose beginning is lost: these are dropped,
  which \<open>um_pdu_sdus\<close> describes.
\<close>

subsection \<open>The SDU under construction\<close>

definition rlc_um_clear_rx_sdu :: "rlc_um_entity \<Rightarrow> rlc_um_entity" where
  "rlc_um_clear_rx_sdu e = e\<lparr>um_output_sdu_size_to_write := 0\<rparr>"

definition um_sdu_max_size :: "rlc_um_entity \<Rightarrow> int" where
  "um_sdu_max_size e = (if um_is_data_plane e then RLC_SDU_MAX_SIZE_DATA_PLANE else RLC_SDU_MAX_SIZE_CONTROL_PLANE)"

definition rlc_um_reassembly :: "byte list \<Rightarrow> int \<Rightarrow> rlc_um_entity \<Rightarrow> rlc_um_entity option" where
  "rlc_um_reassembly src n e =
     (if n \<le> 0 then Some e
      else
        let e1 = (if um_output_sdu_in_construction e = None
                  then e\<lparr>um_output_sdu_in_construction := Some [], um_output_sdu_size_to_write := 0\<rparr> else e);
            size = um_output_sdu_size_to_write e1;
            sdu = the (um_output_sdu_in_construction e1)
        in if size + n \<le> um_sdu_max_size e then
             (if n \<le> int (length src) then
                Some (e1\<lparr>um_output_sdu_in_construction := Some (take (nat size) sdu @ take (nat n) src), um_output_sdu_size_to_write := size + n\<rparr>)
              else None)
           else Some (e1\<lparr>um_output_sdu_size_to_write := 0\<rparr>))"

definition rlc_um_send_sdu :: "rlc_um_entity \<Rightarrow> rlc_um_entity" where
  "rlc_um_send_sdu e =
     (case um_output_sdu_in_construction e of None \<Rightarrow> e
      | Some sdu \<Rightarrow>
          (if um_output_sdu_size_to_write e > 0 then
             e\<lparr>um_stats := (um_stats e)\<lparr>us_rx_pdcp_sdu := us_rx_pdcp_sdu (um_stats e) + 1,
                 us_rx_pdcp_bytes := us_rx_pdcp_bytes (um_stats e) + word_of_int (um_output_sdu_size_to_write e)\<rparr>,
               um_log_data_ind := um_log_data_ind e @ [take (nat (um_output_sdu_size_to_write e)) sdu],
               um_output_sdu_in_construction := None\<rparr>
           else e)\<lparr>um_output_sdu_size_to_write := 0\<rparr>)"

subsection \<open>Length indicators\<close>

text \<open>The fields of the three bytes of \<^verbatim>\<open>rlc_um_e_li_t\<close>.\<close>

definition um_e1 :: "byte \<Rightarrow> int" where
  "um_e1 b1 = drop_bit 7 (uint b1 AND 0x80)"

definition um_li1 :: "byte \<Rightarrow> byte \<Rightarrow> int" where
  "um_li1 b1 b2 = push_bit 4 (uint b1 AND 0x7F) + drop_bit 4 (uint b2 AND 0xF0)"

definition um_e2 :: "byte \<Rightarrow> int" where
  "um_e2 b2 = drop_bit 3 (uint b2 AND 0x08)"

definition um_li2 :: "byte \<Rightarrow> byte \<Rightarrow> int" where
  "um_li2 b2 b3 = push_bit 8 (uint b2 AND 0x07) + (uint b3 AND 0xFF)"

text \<open>
  The loop of \<^verbatim>\<open>rlc_um_read_length_indicators\<close>; \<open>bs\<close> are the bytes from \<^verbatim>\<open>e_liP\<close> on. The result is the return code, the indicators
  and the size of the data they leave.
\<close>

function um_read_lis :: "byte list \<Rightarrow> int list \<Rightarrow> int \<Rightarrow> (int \<times> int list \<times> int) option" where
  "um_read_lis bs lis data_size =
     (if length bs < 2 then None
      else
        let li1 = um_li1 (bs ! 0) (bs ! 1);
            lis1 = lis @ [li1];
            sz1 = data_size - li1 - 2
        in if um_e1 (bs ! 0) \<noteq> 0 then
             (if length bs < 3 then None
              else
                let li2 = um_li2 (bs ! 1) (bs ! 2);
                    lis2 = lis1 @ [li2];
                    sz2 = sz1 - li2 - 1
                in if int (length lis2) \<ge> RLC_UM_SEGMENT_NB_MAX_LI_PER_PDU then Some (- 1, lis2, sz2)
                   else if um_e2 (bs ! 1) = 0 then Some (0, lis2, sz2)
                   else um_read_lis (drop 3 bs) lis2 sz2)
           else if int (length lis1) \<ge> RLC_UM_SEGMENT_NB_MAX_LI_PER_PDU then Some (- 1, lis1, sz1)
           else Some (0, lis1, sz1))"
  by auto
termination by (relation "measure (\<lambda>(bs, lis, sz). length bs)") auto

declare um_read_lis.simps [simp del]

text \<open>The return code, the data behind the indicators, the indicators and the size of the last piece.\<close>

definition rlc_um_read_length_indicators :: "byte list \<Rightarrow> int \<Rightarrow> (int \<times> byte list \<times> int list \<times> int) option" where
  "rlc_um_read_length_indicators data data_size =
     map_option (\<lambda>(rc, lis, sz). (rc, if rc < 0 then data else drop ((length lis * 3 + 1) div 2) data, lis, sz)) (um_read_lis data [] data_size)"

subsection \<open>One PDU\<close>

definition um_drop_bytes :: "int \<Rightarrow> rlc_um_entity \<Rightarrow> rlc_um_entity" where
  "um_drop_bytes n e = e\<lparr>um_stats := (um_stats e)\<lparr>us_rx_data_bytes_dropped := us_rx_data_bytes_dropped (um_stats e) + word_of_int n\<rparr>\<rparr>"

definition um_drop_pdu :: "int \<Rightarrow> rlc_um_entity \<Rightarrow> rlc_um_entity" where
  "um_drop_pdu n e = um_drop_bytes n (e\<lparr>um_stats := (um_stats e)\<lparr>us_rx_data_pdu_dropped := us_rx_data_pdu_dropped (um_stats e) + 1\<rparr>\<rparr>)"

abbreviation um_missing :: "bool \<Rightarrow> rlc_um_entity \<Rightarrow> rlc_um_entity" where
  "um_missing b e \<equiv> e\<lparr>reassembly_missing_sn_detected := b\<rparr>"

text \<open>A PDU without length indicators: \<open>n\<close> bytes of \<open>data\<close>.\<close>

definition um_reassemble_plain :: "int \<Rightarrow> int \<Rightarrow> byte list \<Rightarrow> int \<Rightarrow> rlc_um_entity \<Rightarrow> rlc_um_entity option" where
  "um_reassemble_plain fi tb_sz data n e =
     (if fi = 0 then do { e1 \<leftarrow> rlc_um_reassembly data n (rlc_um_clear_rx_sdu e); Some (um_missing False (rlc_um_send_sdu e1)) }
      else if fi = 1 then do { e1 \<leftarrow> rlc_um_reassembly data n (rlc_um_clear_rx_sdu e); Some (um_missing False e1) }
      else if fi = 2 then
        (if \<not> reassembly_missing_sn_detected e
         then do { e1 \<leftarrow> rlc_um_reassembly data n e; Some (um_missing False (rlc_um_send_sdu e1)) }
         else Some (um_missing False (um_drop_pdu tb_sz e)))
      else if \<not> reassembly_missing_sn_detected e then rlc_um_reassembly data n e
      else Some (um_drop_pdu tb_sz (um_missing True e)))"

text \<open>A PDU with the length indicators \<open>lis\<close>; \<open>n\<close> bytes are behind the last one they describe.\<close>

definition um_reassemble_lis :: "int \<Rightarrow> byte list \<Rightarrow> int list \<Rightarrow> int \<Rightarrow> rlc_um_entity \<Rightarrow> rlc_um_entity option" where
  "um_reassemble_lis fi data lis n e =
     do {
       let send = (\<lambda>e. Some (rlc_um_send_sdu e));
       let first = (fi = 0 \<or> fi = 1);
       let skip = (\<not> first \<and> reassembly_missing_sn_detected e);
       let e1 = (if first then rlc_um_clear_rx_sdu e else if skip then um_drop_bytes (hd lis) e else e);
       (rest, e2) \<leftarrow> feed_lis rlc_um_reassembly send (if skip then drop (nat (hd lis)) data else data) (if skip then tl lis else lis) e1;
       if n > 0 then
         do { e3 \<leftarrow> rlc_um_reassembly rest n e2; Some (um_missing False (if fi = 0 \<or> fi = 2 then rlc_um_send_sdu e3 else e3)) }
       else do { c_assert (fi \<noteq> 3); Some (um_missing False e2) }
     }"

text \<open>Lines 229 to 574 of \<^verbatim>\<open>rlc_um_dar.c\<close>. A PDU whose indicators cannot be read leaves the entity as it is.\<close>

definition um_reassemble_pdu :: "mac_tb_ind \<Rightarrow> rlc_um_entity \<Rightarrow> rlc_um_entity option" where
  "um_reassemble_pdu tb e =
     do {
       let hs = (if rx_sn_length e = 10 then 2 else 1);
       c_assert (ti_data tb \<noteq> []);
       let b1 = uint (ti_data tb ! 0);
       let ext = (if rx_sn_length e = 10 then drop_bit 2 (b1 AND 0x04) else drop_bit 5 (b1 AND 0x20));
       let fi = (if rx_sn_length e = 10 then drop_bit 3 (b1 AND 0x18) else drop_bit 6 (b1 AND 0xC0));
       let data = drop hs (ti_data tb);
       let n = ti_size tb - int hs;
       if ext = 0 then um_reassemble_plain fi (ti_size tb) data n e
       else
         do {
           (rc, rest, lis, sz) \<leftarrow> rlc_um_read_length_indicators data n;
           if rc \<ge> 0 then um_reassemble_lis fi rest lis sz e else Some e
         }
     }"

subsection \<open>The layout of a PDU\<close>

text \<open>The framing info, the length indicators and the payload of a PDU, and its bytes for sequence numbers of 10 or 5 bits.\<close>

record um_frame =
  uf_fi :: int
  uf_lis :: "int list"
  uf_payload :: "byte list"

definition um_header :: "int \<Rightarrow> int \<Rightarrow> um_frame \<Rightarrow> byte list" where
  "um_header len sn f =
     (let ext = (if uf_lis f = [] then 0 else 1)
      in if len = 10 then [word_of_int (8 * uf_fi f + 4 * ext + sn div 256), word_of_int (sn mod 256)]
         else [word_of_int (64 * uf_fi f + 32 * ext + sn)])"

definition um_pdu_bytes :: "int \<Rightarrow> int \<Rightarrow> um_frame \<Rightarrow> byte list" where
  "um_pdu_bytes len sn f = um_header len sn f @ li_bytes (uf_lis f) @ uf_payload f"

definition um_tb :: "byte list \<Rightarrow> mac_tb_ind" where
  "um_tb bs = \<lparr>ti_data = bs, ti_size = int (length bs)\<rparr>"

definition um_framed :: "um_frame \<Rightarrow> bool" where
  "um_framed f \<longleftrightarrow> uf_fi f \<in> {0, 1, 2, 3} \<and> (\<forall>l\<in>set (uf_lis f). 0 < l \<and> l < 2048) \<and> length (uf_lis f) < 24 \<and>
     sum_list (uf_lis f) < int (length (uf_payload f))"

definition um_starts :: "um_frame \<Rightarrow> bool" where
  "um_starts f \<longleftrightarrow> uf_fi f = 0 \<or> uf_fi f = 1"

definition um_ends :: "um_frame \<Rightarrow> bool" where
  "um_ends f \<longleftrightarrow> uf_fi f = 0 \<or> uf_fi f = 2"

definition um_pieces :: "um_frame \<Rightarrow> (byte list \<times> bool) list" where
  "um_pieces f = cut (uf_lis f) (uf_payload f) (um_ends f)"

text \<open>
  The SDUs a PDU completes after the bytes \<open>acc\<close> of an SDU, the bytes it leaves, and whether the beginning of the SDU they belong to is
  lost. With \<open>m\<close> the bytes up to the next end of an SDU are dropped.
\<close>

definition um_pdu_sdus :: "byte list \<Rightarrow> bool \<Rightarrow> um_frame \<Rightarrow> byte list list \<times> byte list \<times> bool" where
  "um_pdu_sdus acc m f =
     (let ps = um_pieces f
      in if um_starts f then (case sdus_of [] ps of (ds, r) \<Rightarrow> (ds, r, False))
         else if \<not> m then (case sdus_of acc ps of (ds, r) \<Rightarrow> (ds, r, False))
         else (case sdus_of [] (tl ps) of (ds, r) \<Rightarrow> (ds, r, \<not> snd (hd ps))))"

subsection \<open>Decoding\<close>

lemma um_li_bits:
  fixes l :: int
  shows "push_bit 4 (l div 16) + l mod 16 = l" "push_bit 8 (l div 256) + l mod 256 = l"
  by (simp_all add: push_bit_eq_mult)

lemmas um_low_bits = and_mask_mod[of _ 1, simplified] and_mask_mod[of _ 2, simplified] and_mask_mod[of _ 3, simplified]
  and_mask_mod[of _ 4, simplified] and_mask_mod[of _ 5, simplified] and_mask_mod[of _ 7, simplified] and_mask_mod[of _ 8, simplified]

lemma byte_fields:
  fixes x :: int
  shows "x AND 0x7F = x mod 128" "drop_bit 7 (x AND 0x80) = (x div 128) mod 2" "drop_bit 4 (x AND 0xF0) = (x div 16) mod 16"
    "x AND 0x07 = x mod 8" "drop_bit 3 (x AND 0x08) = (x div 8) mod 2" "x AND 0xFF = x mod 256"
    "drop_bit 2 (x AND 0x04) = (x div 4) mod 2" "drop_bit 3 (x AND 0x18) = (x div 8) mod 4"
    "drop_bit 5 (x AND 0x20) = (x div 32) mod 2" "drop_bit 6 (x AND 0xC0) = (x div 64) mod 4" "x AND 0x03 = x mod 4" "x AND 0x1F = x mod 32"
  unfolding drop_bit_and by (simp_all add: um_low_bits drop_bit_eq_div)

text \<open>The two forms of a length indicator, read from the bytes of the layout.\<close>

lemma um_li_first:
  assumes "0 \<le> l" "l < 2048" "f = 0 \<or> f = 1" "0 \<le> x" "x < 16"
  shows "um_e1 (word_of_int (128 * f + l div 16)) = f"
    "um_li1 (word_of_int (128 * f + l div 16)) (word_of_int (l mod 16 * 16 + x)) = l"
proof -
  have q: "0 \<le> l div 16" "l div 16 < 128" using assms by auto
  then have u: "uint (word_of_int (128 * f + l div 16) :: byte) = 128 * f + l div 16" using assms(3) by (intro uint_byte) auto
  show "um_e1 (word_of_int (128 * f + l div 16)) = f" unfolding um_e1_def byte_fields u using q assms(3) by auto
  have "(128 * f + l div 16) mod 128 = l div 16" using q assms(3) by auto
  have "0 \<le> l mod 16" "l mod 16 < 16" by auto
  then have "uint (word_of_int (l mod 16 * 16 + x) :: byte) = l mod 16 * 16 + x" using assms(4,5) by (intro uint_byte) auto
  moreover have "(l mod 16 * 16 + x) div 16 = l mod 16" using assms(4,5) by simp
  ultimately show "um_li1 (word_of_int (128 * f + l div 16)) (word_of_int (l mod 16 * 16 + x)) = l"
    unfolding um_li1_def byte_fields u \<open>(128 * f + l div 16) mod 128 = l div 16\<close> using um_li_bits(1)[of l] by simp
qed

lemma um_li_second:
  assumes "0 \<le> l" "l < 2048" "f = 0 \<or> f = 1" "0 \<le> a" "a < 16"
  shows "um_e2 (word_of_int (a * 16 + (8 * f + l div 256))) = f"
    "um_li2 (word_of_int (a * 16 + (8 * f + l div 256))) (word_of_int (l mod 256)) = l"
proof -
  have q: "0 \<le> l div 256" "l div 256 < 8" using assms by auto
  then have u: "uint (word_of_int (a * 16 + (8 * f + l div 256)) :: byte) = a * 16 + (8 * f + l div 256)"
    using assms(3,4,5) by (intro uint_byte) auto
  have "(a * 16 + (8 * f + k)) mod 8 = k" "(a * 16 + (8 * f + k)) div 8 = a * 2 + f" if "0 \<le> k" "k < 8" for k
    using that by presburger+
  note r = this[OF q]
  show "um_e2 (word_of_int (a * 16 + (8 * f + l div 256))) = f" unfolding um_e2_def byte_fields u r using assms(3) by auto
  have "uint (word_of_int (l mod 256) :: byte) = l mod 256" by (intro uint_byte) auto
  then show "um_li2 (word_of_int (a * 16 + (8 * f + l div 256))) (word_of_int (l mod 256)) = l"
    unfolding um_li2_def byte_fields u r using um_li_bits(2)[of l] by simp
qed

lemma um_read_lis_bytes:
  assumes "ls \<noteq> []" "\<forall>l\<in>set ls. 0 < l \<and> l < 2048" "length acc + length ls < 24"
  shows "um_read_lis (li_bytes ls @ rest) acc sz = Some (0, acc @ ls, sz - sum_list ls - (int (length ls) * 3 + 1) div 2)"
  using assms
proof (induction ls arbitrary: acc sz rule: li_bytes.induct)
  case (2 l)
  then have "0 \<le> l" "l < 2048" by auto
  from um_li_first[OF this, of 0 0] show ?case using 2 by (subst um_read_lis.simps) (simp add: Let_def)
next
  case (3 l m ls)
  then have l: "0 \<le> l" "l < 2048" and m: "0 \<le> m" "m < 2048" by auto
  define g where "g = (if ls \<noteq> [] then 1 else (0::int))"
  have g: "g = 0 \<or> g = 1" "(if ls \<noteq> [] then 8 else 0) = 8 * g" by (auto simp: g_def)
  have x: "0 \<le> 8 * g + m div 256" "8 * g + m div 256 < 16" using g m by auto
  have a: "0 \<le> l mod 16" "l mod 16 < 16" by auto
  define b1 b2 b3 where b: "b1 = (word_of_int (128 + l div 16) :: byte)" "b2 = (word_of_int (l mod 16 * 16 + (8 * g + m div 256)) :: byte)"
    "b3 = (word_of_int (m mod 256) :: byte)"
  have fields: "um_e1 b1 = 1" "um_li1 b1 b2 = l" "um_e2 b2 = g" "um_li2 b2 b3 = m"
    using um_li_first[OF l _ x, of 1] um_li_second[OF m g(1) a] unfolding b by simp_all
  have "li_bytes (l # m # ls) = [b1, b2, b3] @ li_bytes ls" unfolding b li_bytes.simps g(2) by (simp add: add.assoc)
  then have step: "um_read_lis (li_bytes (l # m # ls) @ rest) acc sz =
      (if g = 0 then Some (0, acc @ [l, m], sz - l - 2 - m - 1) else um_read_lis (li_bytes ls @ rest) (acc @ [l, m]) (sz - l - 2 - m - 1))"
    using 3(4) fields by (subst um_read_lis.simps) (simp add: Let_def)
  show ?case
  proof (cases "ls = []")
    case True
    then show ?thesis unfolding step by (simp add: g_def)
  next
    case False
    then show ?thesis unfolding step using 3 by (simp add: g_def algebra_simps)
  qed
qed simp

lemma um_length_li_bytes: "length (li_bytes ls) = (length ls * 3 + 1) div 2"
  by (induction ls rule: li_bytes.induct) auto

lemma um_read_indicators:
  assumes "uf_lis f \<noteq> []" "um_framed f"
  shows "rlc_um_read_length_indicators (li_bytes (uf_lis f) @ uf_payload f) (int (length (li_bytes (uf_lis f) @ uf_payload f))) =
    Some (0, uf_payload f, uf_lis f, int (length (uf_payload f)) - sum_list (uf_lis f))"
  using um_read_lis_bytes[OF assms(1), of "[]" "uf_payload f" "int (length (li_bytes (uf_lis f) @ uf_payload f))"] assms(2)
  by (simp add: rlc_um_read_length_indicators_def um_framed_def um_length_li_bytes zdiv_int)

subsection \<open>The contract of the primitives\<close>

definition um_sdu_ok :: "bool \<Rightarrow> rlc_um_entity \<Rightarrow> bool" where
  "um_sdu_ok dp e \<longleftrightarrow> um_is_data_plane e = dp \<and> 0 \<le> um_output_sdu_size_to_write e \<and>
     (case um_output_sdu_in_construction e of None \<Rightarrow> True | Some d \<Rightarrow> um_output_sdu_size_to_write e \<le> int (length d))"

definition um_acc :: "rlc_um_entity \<Rightarrow> byte list" where
  "um_acc e = (case um_output_sdu_in_construction e of None \<Rightarrow> [] | Some d \<Rightarrow> take (nat (um_output_sdu_size_to_write e)) d)"

definition um_limit :: "bool \<Rightarrow> int" where
  "um_limit dp = (if dp then 9000 else 2000)"

text \<open>The entity without what reassembly works on.\<close>

definition um_rest :: "rlc_um_entity \<Rightarrow> rlc_um_entity" where
  "um_rest e = e\<lparr>um_output_sdu_in_construction := None, um_output_sdu_size_to_write := 0, um_stats := zero_um_stats,
     um_log_data_ind := [], reassembly_missing_sn_detected := False\<rparr>"

lemmas um_state_defs = um_sdu_ok_def um_acc_def um_rest_def

interpretation um_builder: sdu_builder rlc_um_reassembly "\<lambda>e. Some (rlc_um_send_sdu e)" "um_sdu_ok dp" um_acc um_log_data_ind
  "\<lambda>e e'. um_rest e' = um_rest e" "um_limit dp" for dp
proof unfold_locales
  fix e :: rlc_um_entity and n :: int and src :: "byte list"
  assume a: "um_sdu_ok dp e" "0 < n" "n \<le> int (length src)" "int (length (um_acc e)) + n \<le> um_limit dp"
  have m: "um_sdu_max_size e = um_limit dp" using a(1) by (simp add: um_sdu_max_size_def um_limit_def um_sdu_ok_def)
  show "\<exists>e'. rlc_um_reassembly src n e = Some e' \<and> um_sdu_ok dp e' \<and> um_acc e' = um_acc e @ take (nat n) src \<and>
      um_log_data_ind e' = um_log_data_ind e \<and> um_rest e' = um_rest e"
    using a unfolding rlc_um_reassembly_def m
    by (cases "um_output_sdu_in_construction e") (auto simp: um_state_defs Let_def nat_add_distrib)
next
  fix e :: rlc_um_entity
  assume "um_sdu_ok dp e"
  then show "\<exists>e'. Some (rlc_um_send_sdu e) = Some e' \<and> um_sdu_ok dp e' \<and> um_acc e' = [] \<and>
      um_log_data_ind e' = um_log_data_ind e @ (if um_acc e = [] then [] else [um_acc e]) \<and> um_rest e' = um_rest e"
    by (cases "um_output_sdu_in_construction e") (auto simp: rlc_um_send_sdu_def um_state_defs)
qed auto

lemma um_clear_builder:
  assumes "um_sdu_ok dp e"
  shows "um_sdu_ok dp (rlc_um_clear_rx_sdu e)" "um_acc (rlc_um_clear_rx_sdu e) = []"
    "um_log_data_ind (rlc_um_clear_rx_sdu e) = um_log_data_ind e" "um_rest (rlc_um_clear_rx_sdu e) = um_rest e"
  using assms by (auto simp: rlc_um_clear_rx_sdu_def um_state_defs split: option.splits)

text \<open>What a PDU leaves: delivered SDUs, bytes kept, and the mark of a lost beginning.\<close>

definition um_delivers :: "bool \<Rightarrow> rlc_um_entity \<Rightarrow> byte list list \<times> byte list \<times> bool \<Rightarrow> rlc_um_entity \<Rightarrow> bool" where
  "um_delivers dp e r e' \<longleftrightarrow> (case r of (ds, a, m) \<Rightarrow> um_sdu_ok dp e' \<and> um_log_data_ind e' = um_log_data_ind e @ ds \<and> um_acc e' = a \<and>
     reassembly_missing_sn_detected e' = m \<and> um_rest e' = um_rest e)"

lemma um_missing_simps [simp]:
  "um_sdu_ok dp (um_missing m e) = um_sdu_ok dp e" "um_acc (um_missing m e) = um_acc e" "um_rest (um_missing m e) = um_rest e"
  by (simp_all add: um_state_defs split: option.splits)

lemma um_drop_simps [simp]:
  "um_sdu_ok dp (um_drop_bytes n e) = um_sdu_ok dp e" "um_acc (um_drop_bytes n e) = um_acc e" "um_rest (um_drop_bytes n e) = um_rest e"
  "um_log_data_ind (um_drop_bytes n e) = um_log_data_ind e" "reassembly_missing_sn_detected (um_drop_bytes n e) = reassembly_missing_sn_detected e"
  "um_sdu_ok dp (um_drop_pdu n e) = um_sdu_ok dp e" "um_acc (um_drop_pdu n e) = um_acc e" "um_rest (um_drop_pdu n e) = um_rest e"
  "um_log_data_ind (um_drop_pdu n e) = um_log_data_ind e" "reassembly_missing_sn_detected (um_drop_pdu n e) = reassembly_missing_sn_detected e"
  by (simp_all add: um_drop_pdu_def um_drop_bytes_def um_state_defs split: option.splits)

lemma um_delivers_missing:
  "um_delivers dp e (ds, a, m) (um_missing m e') \<longleftrightarrow> um_builder.delivered dp e (ds, a) e'"
  unfolding um_delivers_def um_builder.delivered_def by auto

lemma um_delivers_from:
  assumes "um_log_data_ind e1 = um_log_data_ind e" "um_rest e1 = um_rest e"
  shows "um_delivers dp e1 r e' = um_delivers dp e r e'"
  using assms by (simp add: um_delivers_def)

text \<open>Feeding the pieces of a PDU.\<close>

lemma um_feed:
  assumes "um_sdu_ok dp e" "\<forall>l\<in>set ls. 0 < l" "sum_list ls < int (length src)" "sdus_of (um_acc e) (cut ls src fin) = (ds, r)"
    "\<forall>d\<in>set (ds @ [r]). int (length d) \<le> um_limit dp"
  shows "\<exists>rest e2 e3. feed_lis rlc_um_reassembly (\<lambda>e. Some (rlc_um_send_sdu e)) src ls e = Some (rest, e2) \<and>
    rlc_um_reassembly rest (int (length src) - sum_list ls) e2 = Some e3 \<and>
    um_delivers dp e (ds, r, False) (um_missing False (if fin then rlc_um_send_sdu e3 else e3))"
  using um_builder.feed_pdu_delivers[OF assms(1-4)] assms(5) unfolding um_delivers_missing by (cases fin) auto

lemma um_reassemble_lis_run:
  assumes "um_sdu_ok dp e" "um_framed f" "uf_lis f \<noteq> []" "reassembly_missing_sn_detected e \<longrightarrow> um_acc e = []"
    "um_pdu_sdus (um_acc e) (reassembly_missing_sn_detected e) f = (ds, r, m)" "\<forall>d\<in>set (ds @ [r]). int (length d) \<le> um_limit dp"
  shows "\<exists>e'. um_reassemble_lis (uf_fi f) (uf_payload f) (uf_lis f) (int (length (uf_payload f)) - sum_list (uf_lis f)) e = Some e' \<and>
    um_delivers dp e (ds, r, m) e'"
proof -
  have fr: "\<forall>l\<in>set (uf_lis f). 0 < l" "sum_list (uf_lis f) < int (length (uf_payload f))" "uf_fi f \<in> {0, 1, 2, 3}"
    using assms(2) by (auto simp: um_framed_def)
  obtain l ls where ls: "uf_lis f = l # ls" using assms(3) by (cases "uf_lis f") auto
  let ?fi = "uf_fi f" let ?n = "int (length (uf_payload f)) - sum_list (uf_lis f)"
  have ends: "um_ends f \<longleftrightarrow> ?fi = 0 \<or> ?fi = 2" by (simp add: um_ends_def)
  have n: "0 < ?n" using fr(2) by simp
  have first_piece: "um_pieces f = (take (nat l) (uf_payload f), True) # cut ls (drop (nat l) (uf_payload f)) (um_ends f)"
    by (simp add: um_pieces_def ls)
  show ?thesis
  proof (cases "\<not> um_starts f \<and> reassembly_missing_sn_detected e")
    case True
    have sum: "0 \<le> sum_list ls" using fr(1) ls by (intro sum_list_nonneg) auto
    have l: "0 < l" "l < int (length (uf_payload f))" using fr(1,2) ls sum by auto
    let ?src = "drop (nat l) (uf_payload f)"
    have p: "sdus_of (um_acc (um_drop_bytes l e)) (cut ls ?src (um_ends f)) = (ds, r)" "\<not> m"
      using assms(4,5) True by (auto simp: um_pdu_sdus_def first_piece Let_def split: prod.splits)
    have "um_sdu_ok dp (um_drop_bytes l e)" "\<forall>l\<in>set ls. 0 < l" "sum_list ls < int (length ?src)" using assms(1) fr ls l by auto
    from um_feed[OF this p(1) assms(6)] obtain rest e2 e3 where
      "feed_lis rlc_um_reassembly (\<lambda>e. Some (rlc_um_send_sdu e)) ?src ls (um_drop_bytes l e) = Some (rest, e2)"
      "rlc_um_reassembly rest ?n e2 = Some e3"
      "um_delivers dp e (ds, r, False) (um_missing False (if um_ends f then rlc_um_send_sdu e3 else e3))"
      using l unfolding um_delivers_from[OF um_drop_simps(4,3)] ls by (auto simp: algebra_simps)
    then show ?thesis using True n p(2) ls ends by (auto simp: um_reassemble_lis_def um_starts_def)
  next
    case False
    define e1 where "e1 = (if um_starts f then rlc_um_clear_rx_sdu e else e)"
    have e1: "um_sdu_ok dp e1" "um_log_data_ind e1 = um_log_data_ind e" "um_rest e1 = um_rest e"
      "um_acc e1 = (if um_starts f then [] else um_acc e)"
      using assms(1) um_clear_builder[OF assms(1)] by (auto simp: e1_def)
    have p: "sdus_of (um_acc e1) (cut (uf_lis f) (uf_payload f) (um_ends f)) = (ds, r)" "\<not> m"
      using assms(5) False unfolding e1(4) by (auto simp: um_pdu_sdus_def um_pieces_def Let_def split: prod.splits if_splits)
    from um_feed[OF e1(1) fr(1,2) p(1) assms(6)] obtain rest e2 e3 where
      "feed_lis rlc_um_reassembly (\<lambda>e. Some (rlc_um_send_sdu e)) (uf_payload f) (uf_lis f) e1 = Some (rest, e2)"
      "rlc_um_reassembly rest ?n e2 = Some e3"
      "um_delivers dp e (ds, r, False) (um_missing False (if um_ends f then rlc_um_send_sdu e3 else e3))"
      unfolding um_delivers_from[OF e1(2,3)] by blast
    then show ?thesis using False n p(2) ends unfolding e1_def by (auto simp: um_reassemble_lis_def um_starts_def split: if_splits)
  qed
qed

lemma um_reassemble_plain_run:
  assumes "um_sdu_ok dp e" "um_framed f" "uf_lis f = []" "reassembly_missing_sn_detected e \<longrightarrow> um_acc e = []"
    "um_pdu_sdus (um_acc e) (reassembly_missing_sn_detected e) f = (ds, r, m)" "\<forall>d\<in>set (ds @ [r]). int (length d) \<le> um_limit dp"
  shows "\<exists>e'. um_reassemble_plain (uf_fi f) tbs (uf_payload f) (int (length (uf_payload f))) e = Some e' \<and> um_delivers dp e (ds, r, m) e'"
proof -
  let ?fi = "uf_fi f"
  have fr: "0 < int (length (uf_payload f))" "?fi \<in> {0, 1, 2, 3}" using assms(2,3) by (auto simp: um_framed_def)
  have ends: "um_ends f \<longleftrightarrow> ?fi = 0 \<or> ?fi = 2" by (simp add: um_ends_def)
  have piece: "um_pieces f = [(uf_payload f, um_ends f)]" by (simp add: um_pieces_def assms(3))
  show ?thesis
  proof (cases "\<not> um_starts f \<and> reassembly_missing_sn_detected e")
    case True
    then have "um_delivers dp e (ds, r, m) (um_missing m (um_drop_pdu tbs e))" "m = (?fi \<noteq> 0 \<and> ?fi \<noteq> 2)"
      using assms(1,4,5) ends unfolding um_delivers_def by (auto simp: um_pdu_sdus_def piece Let_def)
    moreover have "um_drop_pdu tbs (um_missing True e) = um_missing True (um_drop_pdu tbs e)"
      by (simp add: um_drop_pdu_def um_drop_bytes_def)
    ultimately show ?thesis using True fr(2) by (auto simp: um_reassemble_plain_def um_starts_def)
  next
    case False
    define e1 where "e1 = (if um_starts f then rlc_um_clear_rx_sdu e else e)"
    have e1: "um_sdu_ok dp e1" "um_log_data_ind e1 = um_log_data_ind e" "um_rest e1 = um_rest e"
      "um_acc e1 = (if um_starts f then [] else um_acc e)"
      using assms(1) um_clear_builder[OF assms(1)] by (auto simp: e1_def)
    have p: "sdus_of (um_acc e1) (cut [] (uf_payload f) (um_ends f)) = (ds, r)" "\<not> m"
      using assms(5) False unfolding e1(4) by (auto simp: um_pdu_sdus_def piece Let_def split: prod.splits if_splits)
    from um_feed[OF e1(1) _ _ p(1) assms(6)] fr(1) obtain e3 where
      r: "rlc_um_reassembly (uf_payload f) (int (length (uf_payload f))) e1 = Some e3"
      "um_delivers dp e (ds, r, False) (um_missing False (if um_ends f then rlc_um_send_sdu e3 else e3))"
      unfolding um_delivers_from[OF e1(2,3)] by auto
    have same: "um_missing False e3 = e3" if "\<not> um_starts f" "\<not> um_ends f"
    proof -
      have "reassembly_missing_sn_detected e3 = reassembly_missing_sn_detected e1"
        using r(1) by (auto simp: rlc_um_reassembly_def Let_def split: if_splits)
      then show ?thesis using that False by (simp add: e1_def)
    qed
    have m: "m = False" using p(2) by simp
    consider "?fi = 0" | "?fi = 1" | "?fi = 2" | "?fi = 3" using fr(2) by auto
    then show ?thesis
    proof cases
      case 1
      then have "e1 = rlc_um_clear_rx_sdu e" "um_ends f" by (simp_all add: e1_def um_starts_def ends)
      then show ?thesis using 1 r unfolding m um_reassemble_plain_def by simp
    next
      case 2
      then have "e1 = rlc_um_clear_rx_sdu e" "\<not> um_ends f" by (simp_all add: e1_def um_starts_def ends)
      then show ?thesis using 2 r unfolding m um_reassemble_plain_def by simp
    next
      case 3
      then have "e1 = e" "um_ends f" "\<not> reassembly_missing_sn_detected e" using False by (simp_all add: e1_def um_starts_def ends)
      then show ?thesis using 3 r unfolding m um_reassemble_plain_def by simp
    next
      case 4
      then have "e1 = e" "\<not> um_ends f" "\<not> reassembly_missing_sn_detected e" using False by (simp_all add: e1_def um_starts_def ends)
      have "um_missing False e3 = e3" by (rule same) (use 4 in \<open>simp_all add: um_starts_def ends\<close>)
      then have "um_delivers dp e (ds, r, False) e3" using r(2) \<open>\<not> um_ends f\<close> by metis
      then show ?thesis using 4 r(1) \<open>e1 = e\<close> \<open>\<not> reassembly_missing_sn_detected e\<close> unfolding m um_reassemble_plain_def by simp
    qed
  qed
qed

text \<open>The fields of the header as \<^verbatim>\<open>rlc_um_try_reassembly\<close> reads them.\<close>

lemma um_header_fields:
  assumes "um_framed f" "len = 10 \<and> 0 \<le> sn \<and> sn < 1024 \<or> len = 5 \<and> 0 \<le> sn \<and> sn < 32"
  shows "um_header len sn f \<noteq> []" "length (um_header len sn f) = (if len = 10 then 2 else 1)"
    "(if len = 10 then drop_bit 2 (uint (um_header len sn f ! 0) AND 0x04) else drop_bit 5 (uint (um_header len sn f ! 0) AND 0x20)) = 0 \<longleftrightarrow> uf_lis f = []"
    "(if len = 10 then drop_bit 3 (uint (um_header len sn f ! 0) AND 0x18) else drop_bit 6 (uint (um_header len sn f ! 0) AND 0xC0)) = uf_fi f"
proof -
  have fi: "uf_fi f \<in> {0, 1, 2, 3}" using assms(1) by (simp add: um_framed_def)
  define x where "x = (if uf_lis f = [] then 0 else (1::int))"
  have x: "x = 0 \<or> x = 1" "uf_lis f = [] \<longleftrightarrow> x = 0" by (auto simp: x_def)
  show "um_header len sn f \<noteq> []" "length (um_header len sn f) = (if len = 10 then 2 else 1)" by (auto simp: um_header_def Let_def)
  have "um_header len sn f ! 0 = word_of_int (if len = 10 then 8 * uf_fi f + 4 * x + sn div 256 else 64 * uf_fi f + 32 * x + sn)"
    unfolding um_header_def Let_def x_def[symmetric] by simp
  moreover have q: "len = 10 \<Longrightarrow> 0 \<le> sn div 256 \<and> sn div 256 < 4" using assms(2) by auto
  ultimately have "uint (um_header len sn f ! 0) = (if len = 10 then 8 * uf_fi f + 4 * x + sn div 256 else 64 * uf_fi f + 32 * x + sn)"
    using assms(2) fi x(1) by (simp only:) (rule uint_byte; auto)
  then have ten: "len = 10 \<Longrightarrow> uint (um_header len sn f ! 0) = 8 * uf_fi f + 4 * x + sn div 256"
    and five: "len \<noteq> 10 \<Longrightarrow> uint (um_header len sn f ! 0) = 64 * uf_fi f + 32 * x + sn" by simp_all
  have a: "(8 * k + 4 * x + y) div 4 = 2 * k + x" "(8 * k + 4 * x + y) div 8 = k" if "0 \<le> y" "y < 4" for k y :: int
  proof -
    show "(8 * k + 4 * x + y) div 4 = 2 * k + x" by (rule int_div_pos_eq[where r = y]) (use that in auto)
    show "(8 * k + 4 * x + y) div 8 = k" by (rule int_div_pos_eq[where r = "4 * x + y"]) (use that x(1) in auto)
  qed
  have b: "(64 * k + 32 * x + y) div 32 = 2 * k + x" "(64 * k + 32 * x + y) div 64 = k" if "0 \<le> y" "y < 32" for k y :: int
  proof -
    show "(64 * k + 32 * x + y) div 32 = 2 * k + x" by (rule int_div_pos_eq[where r = y]) (use that in auto)
    show "(64 * k + 32 * x + y) div 64 = k" by (rule int_div_pos_eq[where r = "32 * x + y"]) (use that x(1) in auto)
  qed
  have "x mod 2 = x" "(2 * k + x) mod 2 = x" "uf_fi f mod 4 = uf_fi f" for k using x(1) fi by auto
  then show "(if len = 10 then drop_bit 2 (uint (um_header len sn f ! 0) AND 0x04) else drop_bit 5 (uint (um_header len sn f ! 0) AND 0x20)) = 0 \<longleftrightarrow> uf_lis f = []"
    "(if len = 10 then drop_bit 3 (uint (um_header len sn f ! 0) AND 0x18) else drop_bit 6 (uint (um_header len sn f ! 0) AND 0xC0)) = uf_fi f"
    unfolding byte_fields x(2) using ten five a[of "sn div 256"] q b[of sn] assms(2) by (cases "len = 10"; simp)+
qed

lemma um_reassemble_pdu_run:
  assumes "um_sdu_ok dp e" "um_framed f" "reassembly_missing_sn_detected e \<longrightarrow> um_acc e = []"
    "rx_sn_length e = 10 \<and> 0 \<le> sn \<and> sn < 1024 \<or> rx_sn_length e = 5 \<and> 0 \<le> sn \<and> sn < 32"
    "um_pdu_sdus (um_acc e) (reassembly_missing_sn_detected e) f = (ds, r, m)" "\<forall>d\<in>set (ds @ [r]). int (length d) \<le> um_limit dp"
  shows "\<exists>e'. um_reassemble_pdu (um_tb (um_pdu_bytes (rx_sn_length e) sn f)) e = Some e' \<and> um_delivers dp e (ds, r, m) e'"
proof -
  let ?len = "rx_sn_length e"
  let ?bs = "um_pdu_bytes ?len sn f"
  note h = um_header_fields[OF assms(2,4)]
  have b0: "?bs ! 0 = um_header ?len sn f ! 0" using h(1) by (simp add: um_pdu_bytes_def nth_append)
  have data: "drop (if ?len = 10 then 2 else 1) ?bs = li_bytes (uf_lis f) @ uf_payload f"
    "int (length ?bs) - int (if ?len = 10 then 2 else 1) = int (length (li_bytes (uf_lis f) @ uf_payload f))"
    using h(2) by (simp_all add: um_pdu_bytes_def)
  have ne: "?bs \<noteq> []" using h(1) by (simp add: um_pdu_bytes_def)
  note u = um_reassemble_pdu_def um_tb_def mac_tb_ind.select_convs Let_def c_assert_bind if_P[OF ne] b0 data h(3,4)
  show ?thesis
  proof (cases "uf_lis f = []")
    case True
    show ?thesis using um_reassemble_plain_run[OF assms(1,2) True assms(3,5,6)] True unfolding u by simp
  next
    case False
    show ?thesis using um_reassemble_lis_run[OF assms(1,2) False assms(3,5,6)] False
      unfolding u um_read_indicators[OF False assms(2)] by simp
  qed
qed

end
