(* ===== verification/Rlc_Um_Header.thy ===== *)
theory Rlc_Um_Header
  imports Rlc_Um_Reassembly
begin

text \<open>
  The decoder of a whole UM PDU, \<^verbatim>\<open>rlc_um_get_pdu_infos\<close> of \<^verbatim>\<open>rlc_um_dar.c\<close>, which traces use. It takes the length indicators as the
  decoder of AM does, with its own bounds. An index outside \<^verbatim>\<open>li_list\<close> and a byte outside the PDU are \<open>None\<close>, like a failed
  assertion. The assertions look at the offset of the last byte read and so admit a PDU that is one byte short.
\<close>

text \<open>
  The loop over the length indicators. \<open>bs\<close> are the bytes from \<^verbatim>\<open>e_li_p\<close> on, which is at the offset \<open>pos\<close>, and \<open>one\<close> tells that the second form
  comes next. The result is the indicators, the size of the header and the payload.
\<close>

function um_get_lis :: "int \<Rightarrow> byte list \<Rightarrow> int \<Rightarrow> bool \<Rightarrow> int list \<Rightarrow> int \<Rightarrow> (int list \<times> int \<times> byte list) option" where
  "um_get_lis tsz bs pos one lis header_size =
     (if tsz < pos + (if one then 2 else 1) \<or> length bs < (if one then 3 else 2) \<or> int (length lis) \<ge> RLC_UM_SEGMENT_NB_MAX_LI_PER_PDU then None
      else
        let li = (if one then li_second (bs ! 1) (bs ! 2) else li_first (bs ! 0) (bs ! 1));
            li_to_read = (if one then (bs ! 1) AND 0x08 \<noteq> 0 else (bs ! 0) AND 0x80 \<noteq> 0);
            hs = header_size + (if one then 1 else 2)
        in if li_to_read then um_get_lis tsz (if one then drop 3 bs else bs) (if one then pos + 3 else pos) (\<not> one) (lis @ [li]) hs
           else Some (lis @ [li], hs, drop (if one then 3 else 2) bs))"
  by auto
termination
  by (relation "measure (\<lambda>(t, bs, p, one, lis, h). 24 - length lis)") (auto simp: Let_def)

declare um_get_lis.simps [simp del]

definition rlc_um_get_pdu_infos :: "byte list \<Rightarrow> int \<Rightarrow> int \<Rightarrow> rlc_um_pdu_info option" where
  "rlc_um_get_pdu_infos bs total_sizeP sn_lengthP =
     do {
       c_assert (total_sizeP > 0);
       c_assert (sn_lengthP = 5 \<or> sn_lengthP = 10);
       let hs = (if sn_lengthP = 10 then 2 else 1);
       c_assert (hs \<le> length bs);
       let b1 = bs ! 0;
       let fi = (if sn_lengthP = 10 then uint (drop_bit 3 b1 AND 0x03) else uint (drop_bit 6 b1 AND 0x03));
       let e = (if sn_lengthP = 10 then uint (drop_bit 2 b1 AND 0x01) else uint (drop_bit 5 b1 AND 0x01));
       let sn = (if sn_lengthP = 10 then uint (bs ! 1) + uint (push_bit 8 (ucast (b1 AND 0x03)) :: u16) else uint (b1 AND 0x1F));
       (lis, header_size, payload) \<leftarrow> (if e \<noteq> 0 then um_get_lis total_sizeP (drop hs bs) (int hs) False [] (int hs)
          else Some ([], int hs, drop hs bs));
       let payload_size = to_int16 (total_sizeP - header_size);
       Some \<lparr>upi_fi = fi, upi_e = e, upi_sn = sn, upi_li_list = lis,
         upi_hidden_size = (if payload_size > sum_list lis then to_int16 (payload_size - sum_list lis) else 0),
         upi_payload = payload, upi_payload_size = payload_size, upi_header_size = header_size\<rparr>
     }"

text \<open>It reads indicators as the decoder of AM does, as long as there is room for them.\<close>

lemma um_get_lis_read:
  "read_lis bs one lis s h = Some (0, lis', s', h', pl) \<Longrightarrow>
     length lis < length lis' \<and> (length lis' \<le> 24 \<longrightarrow> pos + int (length bs) \<le> tsz \<longrightarrow> um_get_lis tsz bs pos one lis h = Some (lis', h', pl))"
proof (induction bs one lis s h arbitrary: pos rule: read_lis.induct)
  case (1 bs one lis s h)
  define li where "li = (if one then li_second (bs ! 1) (bs ! 2) else li_first (bs ! 0) (bs ! 1))"
  define more where "more = (if one then (bs ! 1) AND 0x08 \<noteq> 0 else (bs ! 0) AND 0x80 \<noteq> 0)"
  let ?bs = "if one then drop 3 bs else bs" and ?pos = "if one then pos + 3 else pos" and ?h = "h + (if one then 1 else 2)"
  have len: "\<not> length bs < (if one then 3 else 2)" using "1.prems" by (subst (asm) read_lis.simps) (auto split: if_splits)
  have lim: "length lis < 32" "\<not> int (length (lis @ [li])) > 32" using "1.prems" len by (subst (asm) read_lis.simps; auto simp: Let_def split: if_splits)+
  have both: "\<not> (length bs < (if one then 3 else 2) \<or> int (length lis) \<ge> RLC_AM_MAX_SDU_IN_PDU)" using len lim(1) by simp
  have r: "(if more then read_lis ?bs (\<not> one) (lis @ [li]) (to_int16 (s + li)) ?h
      else Some (0, lis @ [li], to_int16 (s + li), ?h, drop (if one then 3 else 2) bs)) = Some (0, lis', s', h', pl)"
    using "1.prems" len lim(2) by (subst (asm) read_lis.simps) (auto simp: Let_def li_def more_def split: if_splits)
  have g: "um_get_lis tsz bs pos one lis h = (if more then um_get_lis tsz ?bs ?pos (\<not> one) (lis @ [li]) ?h else Some (lis @ [li], ?h, drop (if one then 3 else 2) bs))"
    if "length lis < 24" "pos + int (length bs) \<le> tsz"
    using that len by (subst um_get_lis.simps) (auto simp: Let_def li_def more_def)
  show ?case
  proof (cases more)
    case False
    then show ?thesis using r g by auto
  next
    case True
    then have "read_lis ?bs (\<not> one) (lis @ [li]) (to_int16 (s + li)) ?h = Some (0, lis', s', h', pl)" using r by simp
    with "1.IH"[OF both li_def more_def refl refl refl refl _ _ this, of ?pos] True lim(2)
    have IH: "length (lis @ [li]) < length lis'"
      "length lis' \<le> 24 \<longrightarrow> ?pos + int (length ?bs) \<le> tsz \<longrightarrow> um_get_lis tsz ?bs ?pos (\<not> one) (lis @ [li]) ?h = Some (lis', h', pl)" by auto
    have "?pos + int (length ?bs) = pos + int (length bs)" using len by (auto simp: not_less of_nat_diff)
    then show ?thesis using IH g True by auto
  qed
qed

text \<open>Length indicators as the sender writes them are read back, with the payload behind them.\<close>

lemma um_get_lis_layout:
  assumes "ls \<noteq> []" "\<forall>l\<in>set ls. 0 \<le> l \<and> l < 2048" "length ls \<le> 15" "pos + int (length (li_bytes ls @ pl)) \<le> tsz"
  shows "um_get_lis tsz (li_bytes ls @ pl) pos False [] h = Some (ls, h + int (length (li_bytes ls)), pl)"
proof -
  have "sum_list ls \<le> 2047 * int (length ls)" using assms(2) by (induction ls) auto
  then have "0 + sum_list ls < 32768" using assms(3) by simp
  then have "read_lis (li_bytes ls @ pl) False [] 0 h = Some (0, [] @ ls, 0 + sum_list ls, h + int (length (li_bytes ls)), pl)"
    by (intro read_lis_li_bytes) (use assms in auto)
  from um_get_lis_read[OF this, of pos tsz] assms(3,4) show ?thesis by simp
qed

text \<open>A 25th indicator is written behind the array before the assertion looks at their number.\<close>

lemma um_get_lis_overrun:
  "length lis = 24 \<Longrightarrow> um_get_lis tsz bs pos one lis h = None"
  by (subst um_get_lis.simps) simp

text \<open>A PDU of two SDUs with the 10-bit number 770.\<close>

lemma rlc_um_get_pdu_infos_example:
  "rlc_um_get_pdu_infos (um_pdu_bytes 10 770 \<lparr>uf_fi = 1, uf_lis = [2], uf_payload = [1, 2, 3]\<rparr>) 7 10 =
     Some \<lparr>upi_fi = 1, upi_e = 1, upi_sn = 770, upi_li_list = [2], upi_hidden_size = 1, upi_payload = [1, 2, 3], upi_payload_size = 3, upi_header_size = 4\<rparr>"
  by code_simp

end
