(* ===== verification/Rlc_Um_Dar.thy ===== *)
theory Rlc_Um_Dar
  imports Rlc_Um_Reassembly
begin

text \<open>
  Duplicate avoidance and reordering: \<^verbatim>\<open>rlc_um_dar.c\<close> and \<^verbatim>\<open>rlc_um_receive\<close> of \<^verbatim>\<open>rlc_um_receiver.c\<close>. Received PDUs wait in
  \<^verbatim>\<open>dar_buffer\<close> under their sequence number; VR(UR) is the number of the earliest PDU still waited for, VR(UH) the one behind
  the latest received, and the timer t-Reordering bounds the waiting. An index outside the 1024 entries of the buffer and a
  remainder by zero are \<open>None\<close>. The mutex of the buffer is free.
\<close>

subsection \<open>The buffer and the timer\<close>

definition dar_index :: "int \<Rightarrow> unit option" where
  "dar_index sn = c_assert (0 \<le> sn \<and> sn < 1024)"

definition rlc_um_get_pdu_from_dar_buffer :: "rlc_um_entity \<Rightarrow> int \<Rightarrow> mac_tb_ind option option" where
  "rlc_um_get_pdu_from_dar_buffer e sn = do { dar_index sn; Some (dar_buffer e sn) }"

definition rlc_um_remove_pdu_from_dar_buffer :: "rlc_um_entity \<Rightarrow> int \<Rightarrow> rlc_um_entity option" where
  "rlc_um_remove_pdu_from_dar_buffer e sn = do { dar_index sn; Some (e\<lparr>dar_buffer := (dar_buffer e)(sn := None)\<rparr>) }"

definition rlc_um_store_pdu_in_dar_buffer :: "rlc_um_entity \<Rightarrow> mac_tb_ind \<Rightarrow> int \<Rightarrow> rlc_um_entity option" where
  "rlc_um_store_pdu_in_dar_buffer e tb sn = do { dar_index sn; Some (e\<lparr>dar_buffer := (dar_buffer e)(sn := Some tb)\<rparr>) }"

definition rlc_um_stop_and_reset_timer_reordering :: "rlc_um_entity \<Rightarrow> rlc_um_entity" where
  "rlc_um_stop_and_reset_timer_reordering e =
     e\<lparr>um_t_reordering := (um_t_reordering e)\<lparr>running := False, frame_time_out := 0, frame_start := 0, timed_out := False\<rparr>\<rparr>"

definition rlc_um_start_timer_reordering :: "rlc_um_entity \<Rightarrow> frame \<Rightarrow> rlc_um_entity" where
  "rlc_um_start_timer_reordering e frameP =
     e\<lparr>um_t_reordering := (um_t_reordering e)\<lparr>running := True, frame_time_out := frameP + time_out (um_t_reordering e),
       frame_start := frameP, timed_out := False\<rparr>\<rparr>"

definition rlc_um_init_timer_reordering :: "rlc_um_entity \<Rightarrow> u32 \<Rightarrow> rlc_um_entity" where
  "rlc_um_init_timer_reordering e time_outP =
     e\<lparr>um_t_reordering := \<lparr>frame_time_out = 0, frame_start = 0, time_out = time_outP, running = False, timed_out = False\<rparr>\<rparr>"

subsection \<open>Windows\<close>

definition um_rem :: "rlc_um_entity \<Rightarrow> int \<Rightarrow> int option" where
  "um_rem e a = do { c_assert (rx_sn_modulo e \<noteq> 0); Some (to_int16 (c_rem a (rx_sn_modulo e))) }"

definition rlc_um_in_window :: "rlc_um_entity \<Rightarrow> int \<Rightarrow> int \<Rightarrow> int \<Rightarrow> int option" where
  "rlc_um_in_window e lower_boundP snP higher_boundP =
     do {
       let modulus = to_int16 (to_int16 (vr_uh e) - rx_um_window_size e);
       lower \<leftarrow> um_rem e (to_int16 lower_boundP - modulus);
       higher \<leftarrow> um_rem e (to_int16 higher_boundP - modulus);
       sn \<leftarrow> um_rem e (to_int16 snP - modulus);
       Some (if lower > sn then - 2
             else if higher < sn then - 1
             else if lower = sn then (if higher = sn then 3 else 1)
             else if higher = sn then 2 else 0)
     }"

definition rlc_um_in_reordering_window :: "rlc_um_entity \<Rightarrow> int \<Rightarrow> int option" where
  "rlc_um_in_reordering_window e snP =
     do {
       let modulus = to_int16 (vr_uh e - rx_um_window_size e);
       sn \<leftarrow> um_rem e (to_int16 snP - modulus);
       Some (if 0 \<le> sn \<and> sn < rx_um_window_size e then 0 else - 1)
     }"

subsection \<open>Reassembly of a range of numbers\<close>

text \<open>One round of the loop of \<^verbatim>\<open>rlc_um_try_reassembly\<close>: the PDU with number \<open>sn\<close>, or the fact that it is missing.\<close>

definition um_try_round :: "int \<Rightarrow> rlc_um_entity \<Rightarrow> rlc_um_entity option" where
  "um_try_round sn e =
     do {
       pdu \<leftarrow> rlc_um_get_pdu_from_dar_buffer e sn;
       case pdu of
         Some tb \<Rightarrow>
           do {
             next_sn \<leftarrow> um_rem e (last_reassemblied_sn e + 1);
             let e1 = (if next_sn \<noteq> sn then rlc_um_clear_rx_sdu e else e);
             e2 \<leftarrow> um_reassemble_pdu tb (e1\<lparr>last_reassemblied_sn := sn\<rparr>);
             rlc_um_remove_pdu_from_dar_buffer e2 sn
           }
       | None \<Rightarrow> Some (rlc_um_clear_rx_sdu (um_missing True (e\<lparr>last_reassemblied_missing_sn := sn\<rparr>)))
     }"

partial_function (option) um_try_loop :: "int \<Rightarrow> int \<Rightarrow> rlc_um_entity \<Rightarrow> rlc_um_entity option" where
  "um_try_loop end_snP sn e =
     do {
       e1 \<leftarrow> um_try_round sn e;
       sn1 \<leftarrow> um_rem e1 (sn + 1);
       if sn1 = vr_uh e1 \<or> sn1 = end_snP then Some e1 else um_try_loop end_snP sn1 e1
     }"

definition rlc_um_try_reassembly :: "rlc_um_entity \<Rightarrow> int \<Rightarrow> int \<Rightarrow> rlc_um_entity option" where
  "rlc_um_try_reassembly e start_snP end_snP =
     (let end_sn = (if end_snP < 0 then end_snP + rx_sn_modulo e else end_snP);
          start_sn = (if start_snP < 0 then start_snP + rx_sn_modulo e else start_snP)
      in if start_sn = end_sn then Some e else um_try_loop end_sn start_sn e)"

subsection \<open>Expiry of the timer\<close>

partial_function (option) um_skip_received :: "rlc_um_entity \<Rightarrow> rlc_um_entity option" where
  "um_skip_received e =
     do {
       pdu \<leftarrow> rlc_um_get_pdu_from_dar_buffer e (vr_ur e);
       if pdu \<noteq> None then do { sn \<leftarrow> um_rem e (vr_ur e + 1); um_skip_received (e\<lparr>vr_ur := sn\<rparr>) } else Some e
     }"

definition rlc_um_check_timer_dar_time_out :: "rlc_um_entity \<Rightarrow> frame \<Rightarrow> rlc_um_entity option" where
  "rlc_um_check_timer_dar_time_out e frameP =
     (if running (um_t_reordering e) \<and> timer_expired (um_t_reordering e) frameP then
        do {
          let e1 = e\<lparr>um_stats := (um_stats e)\<lparr>us_timer_reordering_timed_out := us_timer_reordering_timed_out (um_stats e) + 1\<rparr>\<rparr>;
          e2 \<leftarrow> um_skip_received (e1\<lparr>vr_ur := vr_ux e1\<rparr>);
          e3 \<leftarrow> rlc_um_try_reassembly e2 (vr_ur e) (vr_ur e2);
          in_window \<leftarrow> rlc_um_in_window e3 (vr_ur e3) (vr_uh e3) (vr_uh e3);
          Some (if in_window = 2 then (rlc_um_start_timer_reordering e3 frameP)\<lparr>vr_ux := vr_uh e3\<rparr>
                else rlc_um_stop_and_reset_timer_reordering e3)
        }
      else Some e)"

subsection \<open>A received PDU\<close>

definition um_pdu_sn :: "rlc_um_entity \<Rightarrow> byte list \<Rightarrow> int option" where
  "um_pdu_sn e bs =
     (if rx_sn_length e = 10 then do { c_assert (length bs \<ge> 2); Some (push_bit 8 (uint (bs ! 0) AND 0x03) + uint (bs ! 1)) }
      else if rx_sn_length e = 5 then do { c_assert (length bs \<ge> 1); Some (uint (bs ! 0) AND 0x1F) }
      else None)"

text \<open>Lines 1143 to 1182: a number beyond the reordering window moves the window, and VR(UR) with its lower edge.\<close>

definition um_low_edge :: "rlc_um_entity \<Rightarrow> int" where
  "um_low_edge e = (let low = vr_uh e - rx_um_window_size e in if low < 0 then low + rx_sn_modulo e else low)"

definition um_shift :: "rlc_um_entity \<Rightarrow> rlc_um_entity option" where
  "um_shift e =
     do {
       w1 \<leftarrow> rlc_um_in_reordering_window e (vr_ur e);
       let in_window = um_low_edge e;
       e1 \<leftarrow> (if w1 \<noteq> 0 then rlc_um_try_reassembly e (vr_ur e) in_window else Some e);
       w2 \<leftarrow> rlc_um_in_reordering_window e1 (vr_ur e1);
       Some (if w2 < 0 then e1\<lparr>vr_ur := in_window\<rparr> else e1)
     }"

definition um_move_window :: "int \<Rightarrow> rlc_um_entity \<Rightarrow> rlc_um_entity option" where
  "um_move_window sn e =
     do {
       w \<leftarrow> rlc_um_in_reordering_window e sn;
       if w < 0 then do { uh \<leftarrow> um_rem e (sn + 1); um_shift (e\<lparr>vr_uh := uh\<rparr>) } else Some e
     }"

text \<open>Lines 1190 to 1196: the earliest PDU waited for has arrived.\<close>

partial_function (option) um_next_missing :: "rlc_um_entity \<Rightarrow> rlc_um_entity option" where
  "um_next_missing e =
     do {
       sn \<leftarrow> um_rem e (vr_ur e + 1);
       let e1 = e\<lparr>vr_ur := sn\<rparr>;
       pdu \<leftarrow> rlc_um_get_pdu_from_dar_buffer e1 (vr_ur e1);
       if pdu \<noteq> None \<and> vr_ur e1 \<noteq> vr_uh e1 then um_next_missing e1 else Some e1
     }"

definition um_advance :: "int \<Rightarrow> rlc_um_entity \<Rightarrow> rlc_um_entity option" where
  "um_advance sn e =
     (if sn = vr_ur e then
        do {
          pdu \<leftarrow> rlc_um_get_pdu_from_dar_buffer e (vr_ur e);
          if pdu \<noteq> None then do { e1 \<leftarrow> um_next_missing e; rlc_um_try_reassembly e1 sn (vr_ur e1) } else Some e
        }
      else Some e)"

text \<open>Lines 1203 to 1260: stopping and starting t-Reordering.\<close>

definition um_update_timer :: "frame \<Rightarrow> rlc_um_entity \<Rightarrow> rlc_um_entity option" where
  "um_update_timer frameP e =
     do {
       e1 \<leftarrow> (if running (um_t_reordering e) \<and> vr_uh e \<noteq> vr_ux e then
          do { w \<leftarrow> rlc_um_in_reordering_window e (vr_ux e);
               Some (if w < 0 then rlc_um_stop_and_reset_timer_reordering e else e) } else Some e);
       e2 \<leftarrow> (if running (um_t_reordering e1) then
          do { w \<leftarrow> rlc_um_in_window e1 (vr_ur e1) (vr_ux e1) (vr_uh e1);
               Some (if w = - 2 \<or> w = 1 then rlc_um_stop_and_reset_timer_reordering e1 else e1) } else Some e1);
       if \<not> running (um_t_reordering e2) then
         do { w \<leftarrow> rlc_um_in_window e2 (vr_ur e2) (vr_uh e2) (vr_uh e2);
              Some (if w = 2 then (rlc_um_start_timer_reordering e2 frameP)\<lparr>vr_ux := vr_uh e2\<rparr> else e2) }
       else Some e2
     }"

definition um_count_duplicate :: "int \<Rightarrow> rlc_um_entity \<Rightarrow> rlc_um_entity" where
  "um_count_duplicate n e = e\<lparr>um_stats := (um_stats e)\<lparr>us_rx_data_pdus_duplicate := us_rx_data_pdus_duplicate (um_stats e) + 1,
     us_rx_data_bytes_duplicate := us_rx_data_bytes_duplicate (um_stats e) + word_of_int n\<rparr>\<rparr>"

definition um_count_out_of_window :: "int \<Rightarrow> rlc_um_entity \<Rightarrow> rlc_um_entity" where
  "um_count_out_of_window n e = e\<lparr>um_stats := (um_stats e)\<lparr>us_rx_data_pdu_out_of_window := us_rx_data_pdu_out_of_window (um_stats e) + 1,
     us_rx_data_bytes_out_of_window := us_rx_data_bytes_out_of_window (um_stats e) + word_of_int n\<rparr>\<rparr>"

text \<open>Lines 1093 to 1130: whether the PDU is discarded as a duplicate.\<close>

definition um_check_duplicate :: "int \<Rightarrow> int \<Rightarrow> rlc_um_entity \<Rightarrow> (bool \<times> rlc_um_entity) option" where
  "um_check_duplicate sn tb_sizeP e =
     do {
       pdu \<leftarrow> rlc_um_get_pdu_from_dar_buffer e sn;
       if pdu \<noteq> None then
         do {
           w \<leftarrow> rlc_um_in_window e (vr_ur e) sn (vr_uh e);
           if w = 0 then Some (True, um_count_duplicate tb_sizeP e)
           else do { e1 \<leftarrow> rlc_um_remove_pdu_from_dar_buffer (um_count_duplicate tb_sizeP e) sn; Some (False, e1) }
         }
       else Some (False, e)
     }"

definition rlc_um_receive_process_dar :: "rlc_um_entity \<Rightarrow> frame \<Rightarrow> mac_tb_ind \<Rightarrow> int \<Rightarrow> rlc_um_entity option" where
  "rlc_um_receive_process_dar e frameP tb tb_sizeP =
     do {
       sn \<leftarrow> um_pdu_sn e (ti_data tb);
       w \<leftarrow> rlc_um_in_window e (vr_uh e - rx_um_window_size e) sn (vr_ur e);
       if w = 1 \<or> w = 0 then Some (um_count_out_of_window tb_sizeP e)
       else
         do {
           (discard, e1) \<leftarrow> um_check_duplicate sn tb_sizeP e;
           if discard then Some e1
           else
             do {
               e2 \<leftarrow> rlc_um_store_pdu_in_dar_buffer e1 tb sn;
               e3 \<leftarrow> um_move_window sn e2;
               e4 \<leftarrow> um_advance sn e3;
               um_update_timer frameP e4
             }
         }
     }"

definition um_receive_tb :: "frame \<Rightarrow> mac_tb_ind \<Rightarrow> rlc_um_entity \<Rightarrow> rlc_um_entity option" where
  "um_receive_tb frameP tb e =
     (let n = to_uint16 (ti_size tb);
          e1 = e\<lparr>um_stats := (um_stats e)\<lparr>us_rx_data_bytes := us_rx_data_bytes (um_stats e) + word_of_int n,
            us_rx_data_pdu := us_rx_data_pdu (um_stats e) + 1\<rparr>\<rparr>
      in if n > 0 then rlc_um_receive_process_dar e1 frameP tb n else Some e1)"

fun rlc_um_receive :: "rlc_um_entity \<Rightarrow> frame \<Rightarrow> mac_tb_ind list \<Rightarrow> rlc_um_entity option" where
  "rlc_um_receive e frameP [] = Some e"
| "rlc_um_receive e frameP (tb # tbs) = do { e1 \<leftarrow> um_receive_tb frameP tb e; rlc_um_receive e1 frameP tbs }"

end
