(* ===== verification/Rlc_Um_Reorder.thy ===== *)
theory Rlc_Um_Reorder
  imports Rlc_Um_Dar
begin

text \<open>
  The UM receiver as a reordering buffer over the unbounded numbers of the PDUs. A sent PDU has a number \<open>k\<close>, of which the
  header carries the residue. As long as numbers arrive within half the space around the highest one, the variables of the
  entity are the residues of unbounded ones, and the comparisons of \<^verbatim>\<open>rlc_um_in_window\<close> compare those.
\<close>

subsection \<open>Residues in the window\<close>

definition um_rx_cfg :: "rlc_um_entity \<Rightarrow> bool" where
  "um_rx_cfg e \<longleftrightarrow> rx_sn_length e = 10 \<and> rx_sn_modulo e = 1024 \<and> rx_um_window_size e = 512 \<or>
     rx_sn_length e = 5 \<and> rx_sn_modulo e = 32 \<and> rx_um_window_size e = 16"

lemma um_rx_cfgD:
  assumes "um_rx_cfg e"
  shows "rx_sn_modulo e = 2 * rx_um_window_size e" "16 \<le> rx_um_window_size e" "rx_um_window_size e \<le> 512" "0 < rx_sn_modulo e" "rx_sn_modulo e \<le> 1024"
  using assms by (auto simp: um_rx_cfg_def)

lemma um_mod_range:
  assumes "um_rx_cfg e"
  shows "0 \<le> k mod rx_sn_modulo e" "k mod rx_sn_modulo e < rx_sn_modulo e" "k mod rx_sn_modulo e < 1024"
    "to_int16 (k mod rx_sn_modulo e) = k mod rx_sn_modulo e"
proof -
  note c = um_rx_cfgD[OF assms]
  show 1: "0 \<le> k mod rx_sn_modulo e" "k mod rx_sn_modulo e < rx_sn_modulo e" using c(4) by simp_all
  show 2: "k mod rx_sn_modulo e < 1024" using order_less_le_trans[OF 1(2) c(5)] .
  show "to_int16 (k mod rx_sn_modulo e) = k mod rx_sn_modulo e" by (rule to_int16_id) (use 1 2 in linarith)+
qed

lemma um_rem_pos:
  assumes "um_rx_cfg e" "0 \<le> a"
  shows "um_rem e a = Some (a mod rx_sn_modulo e)"
  using um_rx_cfgD(4)[OF assms(1)] um_mod_range(4)[OF assms(1), of a] assms(2) by (simp add: um_rem_def)

lemma um_rem_next: "um_rx_cfg e \<Longrightarrow> um_rem e (k mod rx_sn_modulo e + 1) = Some ((k + 1) mod rx_sn_modulo e)"
  using um_mod_range(1)[of e k] um_rem_pos[of e "k mod rx_sn_modulo e + 1"] by (simp add: mod_add_left_eq)

lemma dar_index_mod: "um_rx_cfg e \<Longrightarrow> dar_index (k mod rx_sn_modulo e) = Some ()"
  using um_mod_range[of e k] by (simp add: dar_index_def)

text \<open>The distance of a number from the lower edge of the window; beyond the upper edge the code may see it shifted down.\<close>

lemma um_rem_rel:
  assumes "um_rx_cfg e" "vr_uh e = uh mod rx_sn_modulo e" "uh - rx_um_window_size e \<le> k" "k < uh + rx_um_window_size e"
  shows "\<exists>r. um_rem e (to_int16 (k mod rx_sn_modulo e) - to_int16 (to_int16 (vr_uh e) - rx_um_window_size e)) = Some r \<and>
    (r = k - uh + rx_um_window_size e \<or> (r < 0 \<and> k > uh))"
proof -
  let ?M = "rx_sn_modulo e" let ?W = "rx_um_window_size e"
  note c = um_rx_cfgD[OF assms(1)]
  note k = um_mod_range[OF assms(1), of k] note u = um_mod_range[OF assms(1), of uh]
  define v where "v = k mod ?M - (uh mod ?M - ?W)"
  define d where "d = k - uh + ?W"
  have d: "0 \<le> d" "d < ?M" using assms(3,4) c(1) by (auto simp: d_def)
  have "v mod ?M = (k - (uh - ?W)) mod ?M" unfolding v_def by (metis mod_diff_left_eq mod_diff_right_eq)
  then have vd: "v mod ?M = d" using d by (simp add: d_def mod_pos_pos_trivial algebra_simps)
  have arg: "to_int16 (k mod ?M) - to_int16 (to_int16 (vr_uh e) - ?W) = v"
  proof -
    have "to_int16 (uh mod ?M - ?W) = uh mod ?M - ?W" by (rule to_int16_id) (use u c in linarith)+
    then show ?thesis unfolding assms(2) k(4) u(4) v_def by simp
  qed
  show ?thesis
  proof (cases "0 \<le> v")
    case True
    then show ?thesis unfolding arg um_rem_pos[OF assms(1) True] vd by (auto simp: d_def)
  next
    case False
    have "- ?M < v" using k(1) u(2) c(2) unfolding v_def by linarith
    then have r: "c_rem v ?M = v" using False by (intro c_rem_neg) auto
    have "v = d - ?M"
    proof -
      have "(v + ?M) mod ?M = v + ?M" using False \<open>- ?M < v\<close> by (intro mod_pos_pos_trivial) auto
      then show ?thesis using vd by simp
    qed
    moreover have "?W - ?M < v" using k(1) u(2) unfolding v_def by linarith
    ultimately have "k > uh" by (simp add: d_def)
    moreover have "um_rem e v = Some v" using r c \<open>- ?M < v\<close> False to_int16_id[of v] by (simp add: um_rem_def)
    ultimately show ?thesis unfolding arg using False by auto
  qed
qed

lemma um_in_reordering:
  assumes "um_rx_cfg e" "vr_uh e = uh mod rx_sn_modulo e" "uh - rx_um_window_size e \<le> k" "k < uh + rx_um_window_size e"
  shows "rlc_um_in_reordering_window e (k mod rx_sn_modulo e) = Some (if k < uh then 0 else - 1)"
proof -
  obtain r where r: "um_rem e (to_int16 (k mod rx_sn_modulo e) - to_int16 (to_int16 (vr_uh e) - rx_um_window_size e)) = Some r"
    "r = k - uh + rx_um_window_size e \<or> (r < 0 \<and> k > uh)" using um_rem_rel[OF assms] by blast
  have "to_int16 (vr_uh e) = vr_uh e" using um_mod_range(4)[OF assms(1), of uh] assms(2) by simp
  then show ?thesis using r assms(3) by (auto simp: rlc_um_in_reordering_window_def)
qed

lemma um_in_window_inside:
  assumes "um_rx_cfg e" "vr_uh e = uh mod rx_sn_modulo e" "{a, k, b} \<subseteq> {uh - rx_um_window_size e..uh}"
  shows "rlc_um_in_window e (a mod rx_sn_modulo e) (k mod rx_sn_modulo e) (b mod rx_sn_modulo e) =
    Some (if a > k then - 2 else if b < k then - 1 else if a = k then (if b = k then 3 else 1) else if b = k then 2 else 0)"
proof -
  note c = um_rx_cfgD[OF assms(1)]
  have "um_rem e (to_int16 (x mod rx_sn_modulo e) - to_int16 (to_int16 (vr_uh e) - rx_um_window_size e)) = Some (x - uh + rx_um_window_size e)"
    if "x \<in> {a, k, b}" for x
    using um_rem_rel[OF assms(1,2), of x] that assms(3) c(2) by auto
  then show ?thesis by (simp add: rlc_um_in_window_def)
qed

text \<open>The test against the part of the window that is done with, whose lower edge is not reduced.\<close>

lemma um_in_window_done:
  assumes "um_rx_cfg e" "vr_uh e = uh mod rx_sn_modulo e" "uh - rx_um_window_size e \<le> k" "k < uh + rx_um_window_size e"
    "uh - rx_um_window_size e \<le> b" "b \<le> uh"
  shows "\<exists>w. rlc_um_in_window e (vr_uh e - rx_um_window_size e) (k mod rx_sn_modulo e) (b mod rx_sn_modulo e) = Some w \<and>
    (w = 1 \<or> w = 0 \<longleftrightarrow> k < b)"
proof -
  note c = um_rx_cfgD[OF assms(1)]
  obtain r where r: "um_rem e (to_int16 (k mod rx_sn_modulo e) - to_int16 (to_int16 (vr_uh e) - rx_um_window_size e)) = Some r"
    "r = k - uh + rx_um_window_size e \<or> (r < 0 \<and> k > uh)" using um_rem_rel[OF assms(1-4)] by blast
  have b: "um_rem e (to_int16 (b mod rx_sn_modulo e) - to_int16 (to_int16 (vr_uh e) - rx_um_window_size e)) = Some (b - uh + rx_um_window_size e)"
    using um_rem_rel[OF assms(1,2,5)] assms(6) c(2) by auto
  have "to_int16 (vr_uh e) = vr_uh e" using um_mod_range(4)[OF assms(1), of uh] assms(2) by simp
  then have l: "um_rem e (to_int16 (vr_uh e - rx_um_window_size e) - to_int16 (to_int16 (vr_uh e) - rx_um_window_size e)) = Some 0"
    using c(4) by (simp add: um_rem_def to_int16_id)
  show ?thesis using r b l assms(3,6) unfolding rlc_um_in_window_def Let_def by (auto simp: b l)
qed

lemma mod_distinct:
  fixes x y m :: int
  assumes "x < y" "y < x + m"
  shows "x mod m \<noteq> y mod m"
proof
  assume "x mod m = y mod m"
  then have "m dvd y - x" by (metis mod_eq_dvd_iff)
  then show False using assms zdvd_imp_le[of m "y - x"] by auto
qed

subsection \<open>What a sequence of PDUs delivers\<close>

text \<open>
  The PDUs with the numbers \<open>ns\<close> one after the other, of which the receiver has those in \<open>have\<close>: the SDUs delivered, the bytes of an SDU
  under construction, and whether its beginning is lost.
\<close>

definition um_step_sdus :: "(int \<Rightarrow> um_frame) \<Rightarrow> int set \<Rightarrow> int \<Rightarrow> byte list list \<times> byte list \<times> bool \<Rightarrow> byte list list \<times> byte list \<times> bool" where
  "um_step_sdus fs have n s =
     (case s of (ds, acc, m) \<Rightarrow>
        if n \<in> have then (case um_pdu_sdus acc m (fs n) of (ds', acc', m') \<Rightarrow> (ds @ ds', acc', m')) else (ds, [], True))"

definition um_stream :: "(int \<Rightarrow> um_frame) \<Rightarrow> int set \<Rightarrow> int \<Rightarrow> byte list list \<times> byte list \<times> bool" where
  "um_stream fs have p = fold (um_step_sdus fs have) [0..p - 1] ([], [], False)"

lemma um_stream_0 [simp]: "um_stream fs have 0 = ([], [], False)"
  by (simp add: um_stream_def)

lemma um_stream_next: "0 \<le> p \<Longrightarrow> um_stream fs have (p + 1) = um_step_sdus fs have p (um_stream fs have p)"
  by (simp add: um_stream_def upto_rec2)

lemma um_stream_cong: "\<forall>k. 0 \<le> k \<and> k < p \<longrightarrow> (k \<in> have \<longleftrightarrow> k \<in> have') \<Longrightarrow> um_stream fs have p = um_stream fs have' p"
  unfolding um_stream_def by (rule fold_cong) (auto simp: um_step_sdus_def)

lemma um_pdu_sdus_lost: "um_pdu_sdus acc m f = (ds, r, True) \<Longrightarrow> r = []"
  by (cases "uf_lis f") (auto simp: um_pdu_sdus_def um_pieces_def Let_def split: prod.splits if_splits)

lemma um_stream_missing:
  assumes "0 \<le> p" "um_stream fs have p = (ds, acc, m)"
  shows "m \<longrightarrow> acc = []" "p = 0 \<or> p - 1 \<in> have \<or> acc = []"
proof -
  show "m \<longrightarrow> acc = []"
  proof (cases "p = 0")
    case False
    then have "um_stream fs have (p - 1 + 1) = um_step_sdus fs have (p - 1) (um_stream fs have (p - 1))" using assms(1) by (intro um_stream_next) simp
    then show ?thesis using assms(2) by (auto simp: um_step_sdus_def dest: um_pdu_sdus_lost split: prod.splits if_splits)
  qed (use assms(2) in simp)
  show "p = 0 \<or> p - 1 \<in> have \<or> acc = []"
  proof (cases "p = 0")
    case False
    then have "um_stream fs have (p - 1 + 1) = um_step_sdus fs have (p - 1) (um_stream fs have (p - 1))" using assms(1) by (intro um_stream_next) simp
    then show ?thesis using assms(2) by (auto simp: um_step_sdus_def split: prod.splits if_splits)
  qed simp
qed

text \<open>No SDU is larger than what the entity can hold.\<close>

definition um_small :: "bool \<Rightarrow> (int \<Rightarrow> um_frame) \<Rightarrow> int set \<Rightarrow> int \<Rightarrow> bool" where
  "um_small dp fs have p \<longleftrightarrow> (case um_stream fs have p of (ds, acc, m) \<Rightarrow> \<forall>d\<in>set (ds @ [acc]). int (length d) \<le> um_limit dp)"

subsection \<open>The entity in the middle of reassembly\<close>

definition um_block :: "rlc_um_entity \<Rightarrow> (int \<Rightarrow> um_frame) \<Rightarrow> int \<Rightarrow> mac_tb_ind" where
  "um_block e fs k = um_tb (um_pdu_bytes (rx_sn_length e) (k mod rx_sn_modulo e) (fs k))"

text \<open>The numbers below \<open>p\<close> are done with; those received from \<open>p\<close> on are in the buffer.\<close>

definition um_at :: "bool \<Rightarrow> (int \<Rightarrow> um_frame) \<Rightarrow> int set \<Rightarrow> int \<Rightarrow> rlc_um_entity \<Rightarrow> bool" where
  "um_at dp fs have p e \<longleftrightarrow> um_rx_cfg e \<and> 0 \<le> p \<and> um_sdu_ok dp e \<and> (\<forall>k\<in>have. k < p + rx_sn_modulo e) \<and>
     (\<forall>k. p \<le> k \<and> k < p + rx_sn_modulo e \<longrightarrow> dar_buffer e (k mod rx_sn_modulo e) = (if k \<in> have then Some (um_block e fs k) else None)) \<and>
     um_stream fs have p = (um_log_data_ind e, um_acc e, reassembly_missing_sn_detected e) \<and>
     0 \<le> last_reassemblied_sn e \<and> (p = 0 \<or> p - 1 \<in> have \<longrightarrow> last_reassemblied_sn e = (p - 1) mod rx_sn_modulo e)"

text \<open>What reassembly leaves alone.\<close>

definition um_core :: "rlc_um_entity \<Rightarrow> rlc_um_entity" where
  "um_core e = (um_rest e)\<lparr>dar_buffer := (\<lambda>_. None), last_reassemblied_sn := 0, last_reassemblied_missing_sn := 0\<rparr>"

lemma um_core_fields:
  "vr_ur (um_core e) = vr_ur e" "vr_uh (um_core e) = vr_uh e" "vr_ux (um_core e) = vr_ux e" "um_t_reordering (um_core e) = um_t_reordering e"
  "rx_sn_length (um_core e) = rx_sn_length e" "rx_sn_modulo (um_core e) = rx_sn_modulo e" "rx_um_window_size (um_core e) = rx_um_window_size e"
  "um_protocol_state (um_core e) = um_protocol_state e"
  by (simp_all add: um_core_def um_rest_def)

lemma um_coreD:
  assumes "um_core e' = um_core e"
  shows "vr_ur e' = vr_ur e" "vr_uh e' = vr_uh e" "vr_ux e' = vr_ux e" "um_t_reordering e' = um_t_reordering e"
    "rx_sn_length e' = rx_sn_length e" "rx_sn_modulo e' = rx_sn_modulo e" "rx_um_window_size e' = rx_um_window_size e"
    "um_protocol_state e' = um_protocol_state e" "um_rx_cfg e' = um_rx_cfg e" "um_block e' fs k = um_block e fs k"
proof -
  show *: "vr_ur e' = vr_ur e" "vr_uh e' = vr_uh e" "vr_ux e' = vr_ux e" "um_t_reordering e' = um_t_reordering e"
    "rx_sn_length e' = rx_sn_length e" "rx_sn_modulo e' = rx_sn_modulo e" "rx_um_window_size e' = rx_um_window_size e"
    "um_protocol_state e' = um_protocol_state e"
    using um_core_fields[of e] um_core_fields[of e'] unfolding assms by simp_all
  show "um_rx_cfg e' = um_rx_cfg e" "um_block e' fs k = um_block e fs k" by (simp_all add: * um_rx_cfg_def um_block_def)
qed

lemma um_state_frame [simp]:
  "um_sdu_ok dp (e\<lparr>dar_buffer := b\<rparr>) = um_sdu_ok dp e" "um_acc (e\<lparr>dar_buffer := b\<rparr>) = um_acc e"
  "um_sdu_ok dp (e\<lparr>last_reassemblied_sn := x\<rparr>) = um_sdu_ok dp e" "um_acc (e\<lparr>last_reassemblied_sn := x\<rparr>) = um_acc e"
  "um_sdu_ok dp (e\<lparr>last_reassemblied_missing_sn := x\<rparr>) = um_sdu_ok dp e" "um_acc (e\<lparr>last_reassemblied_missing_sn := x\<rparr>) = um_acc e"
  "um_sdu_ok dp (e\<lparr>vr_ur := x\<rparr>) = um_sdu_ok dp e" "um_acc (e\<lparr>vr_ur := x\<rparr>) = um_acc e"
  "um_sdu_ok dp (e\<lparr>vr_uh := x\<rparr>) = um_sdu_ok dp e" "um_acc (e\<lparr>vr_uh := x\<rparr>) = um_acc e"
  "um_sdu_ok dp (e\<lparr>vr_ux := x\<rparr>) = um_sdu_ok dp e" "um_acc (e\<lparr>vr_ux := x\<rparr>) = um_acc e"
  "um_sdu_ok dp (e\<lparr>um_stats := st\<rparr>) = um_sdu_ok dp e" "um_acc (e\<lparr>um_stats := st\<rparr>) = um_acc e"
  "um_sdu_ok dp (e\<lparr>um_t_reordering := t\<rparr>) = um_sdu_ok dp e" "um_acc (e\<lparr>um_t_reordering := t\<rparr>) = um_acc e"
  by (simp_all add: um_sdu_ok_def um_acc_def split: option.splits)

lemma um_core_frame [simp]:
  "um_core (e\<lparr>dar_buffer := b\<rparr>) = um_core e" "um_core (e\<lparr>last_reassemblied_sn := x\<rparr>) = um_core e"
  "um_core (e\<lparr>last_reassemblied_missing_sn := x\<rparr>) = um_core e" "um_core (um_missing m e) = um_core e" "um_core (rlc_um_clear_rx_sdu e) = um_core e"
  "um_core (e\<lparr>um_stats := st\<rparr>) = um_core e" "um_core (e\<lparr>um_output_sdu_size_to_write := n\<rparr>) = um_core e"
  by (simp_all add: um_core_def um_rest_def rlc_um_clear_rx_sdu_def)

lemma um_rest_core: "um_rest e' = um_rest e \<Longrightarrow> um_core e' = um_core e"
  by (simp add: um_core_def)

lemma um_rest_fields:
  assumes "um_rest e' = um_rest e"
  shows "dar_buffer e' = dar_buffer e" "last_reassemblied_sn e' = last_reassemblied_sn e"
proof -
  have "dar_buffer (um_rest e') = dar_buffer (um_rest e)" "last_reassemblied_sn (um_rest e') = last_reassemblied_sn (um_rest e)"
    using assms by simp_all
  then show "dar_buffer e' = dar_buffer e" "last_reassemblied_sn e' = last_reassemblied_sn e" by (simp_all add: um_rest_def)
qed

lemma um_atI_next:
  assumes "um_at dp fs have p e" "um_core e' = um_core e" "dar_buffer e' = (dar_buffer e)(p mod rx_sn_modulo e := None)" "um_sdu_ok dp e'"
    "um_stream fs have (p + 1) = (um_log_data_ind e', um_acc e', reassembly_missing_sn_detected e')"
    "last_reassemblied_sn e' = (if p \<in> have then p mod rx_sn_modulo e else last_reassemblied_sn e)"
  shows "um_at dp fs have (p + 1) e'"
proof -
  note c = um_coreD[OF assms(2)]
  let ?M = "rx_sn_modulo e"
  have a: "um_rx_cfg e" "0 \<le> p" "\<forall>k\<in>have. k < p + ?M" "0 \<le> last_reassemblied_sn e"
    "\<forall>k. p \<le> k \<and> k < p + ?M \<longrightarrow> dar_buffer e (k mod ?M) = (if k \<in> have then Some (um_block e fs k) else None)"
    using assms(1) by (simp_all add: um_at_def)
  have "dar_buffer e' (k mod ?M) = (if k \<in> have then Some (um_block e fs k) else None)" if k: "p + 1 \<le> k" "k < p + 1 + ?M" for k
  proof (cases "k = p + ?M")
    case True
    then have "k \<notin> have" "k mod ?M = p mod ?M" using a(3) by auto
    then show ?thesis using assms(3) by simp
  next
    case False
    then have "p mod ?M \<noteq> k mod ?M" using k by (intro mod_distinct) auto
    then show ?thesis using assms(3) a(5) k False by auto
  qed
  moreover have "\<forall>k\<in>have. k < p + 1 + ?M" using a(3) by auto
  ultimately show ?thesis using assms(4,5,6) a(1,2,4) um_mod_range(1)[OF a(1), of p] unfolding um_at_def c(6,9,10) by auto
qed

lemma um_try_round_at:
  assumes "um_at dp fs have p e" "p \<in> have \<longrightarrow> um_framed (fs p)" "um_small dp fs have (p + 1)"
  shows "\<exists>e'. um_try_round (p mod rx_sn_modulo e) e = Some e' \<and> um_at dp fs have (p + 1) e' \<and> um_core e' = um_core e"
proof -
  let ?M = "rx_sn_modulo e" let ?sn = "p mod rx_sn_modulo e"
  have a: "um_rx_cfg e" "0 \<le> p" "um_sdu_ok dp e" "um_stream fs have p = (um_log_data_ind e, um_acc e, reassembly_missing_sn_detected e)"
    "0 \<le> last_reassemblied_sn e" "p = 0 \<or> p - 1 \<in> have \<longrightarrow> last_reassemblied_sn e = (p - 1) mod ?M"
    using assms(1) by (simp_all add: um_at_def)
  have buf: "dar_buffer e ?sn = (if p \<in> have then Some (um_block e fs p) else None)"
    using assms(1) um_rx_cfgD(4)[OF a(1)] by (auto simp: um_at_def)
  have ix: "dar_index ?sn = Some ()" by (rule dar_index_mod[OF a(1)])
  note st = um_stream_missing[OF a(2,4)]
  note nx = um_stream_next[OF a(2), of fs "have", unfolded a(4) um_step_sdus_def, simplified]
  show ?thesis
  proof (cases "p \<in> have")
    case False
    define e' where "e' = rlc_um_clear_rx_sdu (um_missing True (e\<lparr>last_reassemblied_missing_sn := ?sn\<rparr>))"
    have r: "um_try_round ?sn e = Some e'" using False buf ix by (simp add: um_try_round_def rlc_um_get_pdu_from_dar_buffer_def e'_def)
    have c: "um_core e' = um_core e" by (simp add: e'_def)
    have ok: "um_sdu_ok dp (um_missing True (e\<lparr>last_reassemblied_missing_sn := ?sn\<rparr>))" using a(3) by simp
    have "um_at dp fs have (p + 1) e'"
      by (rule um_atI_next[OF assms(1) c])
        (use False buf nx um_clear_builder[OF ok] in \<open>auto simp: e'_def rlc_um_clear_rx_sdu_def fun_eq_iff\<close>)
    then show ?thesis using r c by blast
  next
    case True
    define e1 where "e1 = (if (last_reassemblied_sn e + 1) mod ?M \<noteq> ?sn then rlc_um_clear_rx_sdu e else e)\<lparr>last_reassemblied_sn := ?sn\<rparr>"
    have acc: "um_acc e1 = um_acc e"
    proof (cases "p = 0 \<or> p - 1 \<in> have")
      case True
      then have "(last_reassemblied_sn e + 1) mod ?M = ?sn" using a(6) by (simp add: mod_add_left_eq)
      then show ?thesis by (simp add: e1_def)
    next
      case False
      then have "um_acc e = []" using st(2) by simp
      then show ?thesis using um_clear_builder(2)[OF a(3)] by (simp add: e1_def)
    qed
    have e1: "um_sdu_ok dp e1" "um_log_data_ind e1 = um_log_data_ind e" "reassembly_missing_sn_detected e1 = reassembly_missing_sn_detected e"
      "dar_buffer e1 = dar_buffer e" "um_core e1 = um_core e" "last_reassemblied_sn e1 = ?sn"
      using a(3) um_clear_builder(1)[OF a(3)] by (simp_all add: e1_def rlc_um_clear_rx_sdu_def)
    obtain ds r m where p: "um_pdu_sdus (um_acc e) (reassembly_missing_sn_detected e) (fs p) = (ds, r, m)" by (metis prod_cases3)
    have lim: "\<forall>d\<in>set (ds @ [r]). int (length d) \<le> um_limit dp"
      using assms(3) True p unfolding um_small_def nx by auto
    have sn: "rx_sn_length e1 = 10 \<and> 0 \<le> ?sn \<and> ?sn < 1024 \<or> rx_sn_length e1 = 5 \<and> 0 \<le> ?sn \<and> ?sn < 32"
      using a(1) um_coreD(5)[OF e1(5)] um_mod_range[OF a(1), of p] by (auto simp: um_rx_cfg_def)
    have "\<exists>e'. um_reassemble_pdu (um_tb (um_pdu_bytes (rx_sn_length e1) ?sn (fs p))) e1 = Some e' \<and> um_delivers dp e1 (ds, r, m) e'"
      by (rule um_reassemble_pdu_run[OF e1(1) _ _ sn]) (use True assms(2) st(1) p lim acc e1(3) in auto)
    then obtain e2 where e2: "um_reassemble_pdu (um_block e fs p) e1 = Some e2" "um_delivers dp e1 (ds, r, m) e2"
      using um_coreD(5)[OF e1(5)] by (auto simp: um_block_def)
    have d: "um_sdu_ok dp e2" "um_log_data_ind e2 = um_log_data_ind e @ ds" "um_acc e2 = r" "reassembly_missing_sn_detected e2 = m" "um_rest e2 = um_rest e1"
      using e2(2) e1(2) by (simp_all add: um_delivers_def)
    define e' where "e' = e2\<lparr>dar_buffer := (dar_buffer e2)(?sn := None)\<rparr>"
    have c: "um_core e' = um_core e" using um_rest_core[OF d(5)] e1(5) by (simp add: e'_def)
    have "um_rem e (last_reassemblied_sn e + 1) = Some ((last_reassemblied_sn e + 1) mod ?M)" using a(5) by (intro um_rem_pos[OF a(1)]) simp
    then have r: "um_try_round ?sn e = Some e'"
      using True buf ix e2(1)[unfolded e1_def]
      by (simp add: um_try_round_def rlc_um_get_pdu_from_dar_buffer_def rlc_um_remove_pdu_from_dar_buffer_def e'_def)
    have "um_at dp fs have (p + 1) e'"
      by (rule um_atI_next[OF assms(1) c])
        (use True nx p d um_rest_fields[OF d(5)] e1(4,6) in \<open>auto simp: e'_def\<close>)
    then show ?thesis using r c by blast
  qed
qed

lemma um_at_frame [simp]:
  "um_at dp fs have p (e\<lparr>vr_ur := x\<rparr>) = um_at dp fs have p e" "um_at dp fs have p (e\<lparr>vr_uh := x\<rparr>) = um_at dp fs have p e"
  "um_at dp fs have p (e\<lparr>vr_ux := x\<rparr>) = um_at dp fs have p e" "um_at dp fs have p (e\<lparr>um_t_reordering := t\<rparr>) = um_at dp fs have p e"
  "um_at dp fs have p (e\<lparr>um_stats := st\<rparr>) = um_at dp fs have p e"
  by (simp_all add: um_at_def um_rx_cfg_def um_block_def)

text \<open>The PDUs that matter are laid out as they should be and their SDUs are small enough.\<close>

definition um_good :: "bool \<Rightarrow> (int \<Rightarrow> um_frame) \<Rightarrow> int set \<Rightarrow> int \<Rightarrow> bool" where
  "um_good dp fs have n \<longleftrightarrow> (\<forall>k\<in>have. um_framed (fs k)) \<and> (\<forall>p. 0 \<le> p \<and> p \<le> n \<longrightarrow> um_small dp fs have p)"

lemma um_try_loop_at:
  assumes "um_at dp fs have p e" "p < q" "q \<le> uh" "uh \<le> p + rx_sn_modulo e" "vr_uh e = uh mod rx_sn_modulo e" "um_good dp fs have q"
  shows "\<exists>e'. um_try_loop (q mod rx_sn_modulo e) (p mod rx_sn_modulo e) e = Some e' \<and> um_at dp fs have q e' \<and> um_core e' = um_core e"
  using assms
proof (induction "nat (q - p)" arbitrary: p e)
  case (Suc n)
  let ?M = "rx_sn_modulo e"
  have a: "um_rx_cfg e" "0 \<le> p" using Suc.prems(1) by (simp_all add: um_at_def)
  have g: "p \<in> have \<longrightarrow> um_framed (fs p)" "um_small dp fs have (p + 1)" using Suc.prems(2,6) a(2) by (auto simp: um_good_def)
  obtain e1 where e1: "um_try_round (p mod ?M) e = Some e1" "um_at dp fs have (p + 1) e1" "um_core e1 = um_core e"
    using um_try_round_at[OF Suc.prems(1) g] by blast
  note c = um_coreD[OF e1(3)]
  have nx: "um_rem e1 (p mod ?M + 1) = Some ((p + 1) mod ?M)" using um_rem_next[of e1 p] a(1) c by simp
  show ?case
  proof (cases "p + 1 = q")
    case True
    then show ?thesis using e1 nx by (subst um_try_loop.simps) auto
  next
    case False
    then have "(p + 1) mod ?M \<noteq> q mod ?M" "(p + 1) mod ?M \<noteq> uh mod ?M"
      using Suc.prems(2,3,4) um_rx_cfgD(4)[OF a(1)] by (intro mod_distinct; simp)+
    then have l: "um_try_loop (q mod ?M) (p mod ?M) e = um_try_loop (q mod ?M) ((p + 1) mod ?M) e1"
      using e1 nx Suc.prems(5) c(2) by (subst um_try_loop.simps) auto
    have "\<exists>e'. um_try_loop (q mod rx_sn_modulo e1) ((p + 1) mod rx_sn_modulo e1) e1 = Some e' \<and> um_at dp fs have q e' \<and> um_core e' = um_core e1"
      by (rule Suc.hyps(1)) (use Suc.prems Suc.hyps(2) False e1(2) c in auto)
    then show ?thesis using l e1(3) c by auto
  qed
qed auto

lemma um_try_reassembly_at:
  assumes "um_at dp fs have p e" "p \<le> q" "q \<le> uh" "uh \<le> p + rx_sn_modulo e" "q < p + rx_sn_modulo e" "vr_uh e = uh mod rx_sn_modulo e" "um_good dp fs have q"
  shows "\<exists>e'. rlc_um_try_reassembly e (p mod rx_sn_modulo e) (q mod rx_sn_modulo e) = Some e' \<and> um_at dp fs have q e' \<and> um_core e' = um_core e"
proof -
  have a: "um_rx_cfg e" using assms(1) by (simp add: um_at_def)
  note r = um_mod_range(1)[OF a, of p] um_mod_range(1)[OF a, of q]
  show ?thesis
  proof (cases "p = q")
    case True
    then show ?thesis using assms(1) r by (auto simp: rlc_um_try_reassembly_def)
  next
    case False
    then have "p mod rx_sn_modulo e \<noteq> q mod rx_sn_modulo e" using assms(2,5) by (intro mod_distinct) auto
    then show ?thesis using um_try_loop_at[OF assms(1) _ assms(3,4,6,7)] False assms(2) r by (auto simp: rlc_um_try_reassembly_def)
  qed
qed

subsection \<open>The next missing number\<close>

function first_missing :: "int set \<Rightarrow> int \<Rightarrow> int \<Rightarrow> int" where
  "first_missing have uh k = (if k < uh \<and> k \<in> have then first_missing have uh (k + 1) else k)"
  by auto
termination by (relation "measure (\<lambda>(h, uh, k). nat (uh - k))") auto

declare first_missing.simps [simp del]

lemma first_missing_range: "k \<le> uh \<Longrightarrow> k \<le> first_missing have uh k \<and> first_missing have uh k \<le> uh"
proof (induction "have" uh k rule: first_missing.induct)
  case (1 h uh k)
  then show ?case using first_missing.simps[of h uh k] by (cases "k < uh \<and> k \<in> h") auto
qed

lemma first_missing_is: "k \<le> uh \<Longrightarrow> first_missing have uh k = uh \<or> first_missing have uh k \<notin> have"
proof (induction "have" uh k rule: first_missing.induct)
  case (1 h uh k)
  then show ?case using first_missing.simps[of h uh k] by (cases "k < uh \<and> k \<in> h") auto
qed

lemma first_missing_all: "k \<le> j \<Longrightarrow> j < first_missing have uh k \<Longrightarrow> j \<in> have"
proof (induction "have" uh k rule: first_missing.induct)
  case (1 h uh k)
  then show ?case using first_missing.simps[of h uh k] by (cases "k < uh \<and> k \<in> h"; cases "k = j") auto
qed

lemma um_at_get:
  assumes "um_at dp fs have p e" "p \<le> k" "k < p + rx_sn_modulo e"
  shows "rlc_um_get_pdu_from_dar_buffer e (k mod rx_sn_modulo e) = Some (if k \<in> have then Some (um_block e fs k) else None)"
  using assms dar_index_mod[of e k] unfolding um_at_def rlc_um_get_pdu_from_dar_buffer_def by simp

lemma um_skip_received_at:
  assumes "um_at dp fs have p e" "p \<le> k" "k \<le> uh" "uh < p + rx_sn_modulo e" "\<forall>j\<in>have. j < uh" "vr_ur e = k mod rx_sn_modulo e"
  shows "um_skip_received e = Some (e\<lparr>vr_ur := first_missing have uh k mod rx_sn_modulo e\<rparr>)"
  using assms
proof (induction "nat (uh - k)" arbitrary: k e rule: less_induct)
  case less
  let ?M = "rx_sn_modulo e"
  have a: "um_rx_cfg e" using less.prems(1) by (simp add: um_at_def)
  have g: "rlc_um_get_pdu_from_dar_buffer e (vr_ur e) = Some (if k \<in> have then Some (um_block e fs k) else None)"
    using um_at_get[OF less.prems(1), of k] less.prems(2,3,4,6) by simp
  show ?case
  proof (cases "k \<in> have")
    case True
    then have "k < uh" using less.prems(5) by blast
    have "um_skip_received (e\<lparr>vr_ur := (k + 1) mod ?M\<rparr>) = Some ((e\<lparr>vr_ur := (k + 1) mod ?M\<rparr>)\<lparr>vr_ur := first_missing have uh (k + 1) mod rx_sn_modulo (e\<lparr>vr_ur := (k + 1) mod ?M\<rparr>)\<rparr>)"
      by (rule less.hyps) (use less.prems \<open>k < uh\<close> in auto)
    then show ?thesis using True g \<open>k < uh\<close> um_rem_next[OF a, of k] less.prems(6)
      by (subst um_skip_received.simps) (simp add: first_missing.simps[of _ _ k])
  next
    case False
    then show ?thesis using g less.prems(6) by (subst um_skip_received.simps) (simp add: first_missing.simps[of _ _ k])
  qed
qed

lemma um_next_missing_at:
  assumes "um_at dp fs have p e" "p \<le> k" "k < uh" "uh < p + rx_sn_modulo e" "vr_ur e = k mod rx_sn_modulo e" "vr_uh e = uh mod rx_sn_modulo e"
  shows "um_next_missing e = Some (e\<lparr>vr_ur := first_missing have uh (k + 1) mod rx_sn_modulo e\<rparr>)"
  using assms
proof (induction "nat (uh - k)" arbitrary: k e rule: less_induct)
  case less
  let ?M = "rx_sn_modulo e" let ?e = "e\<lparr>vr_ur := (k + 1) mod ?M\<rparr>"
  have a: "um_rx_cfg e" using less.prems(1) by (simp add: um_at_def)
  have g: "rlc_um_get_pdu_from_dar_buffer ?e ((k + 1) mod ?M) = Some (if k + 1 \<in> have then Some (um_block e fs (k + 1)) else None)"
    using um_at_get[of dp fs "have" p ?e "k + 1"] less.prems(1-4) by (simp add: um_block_def)
  have nx: "um_rem e (vr_ur e + 1) = Some ((k + 1) mod ?M)" using um_rem_next[OF a, of k] less.prems(5) by simp
  have end_iff: "(k + 1) mod ?M = uh mod ?M \<longleftrightarrow> k + 1 = uh" using mod_distinct[of "k + 1" uh ?M] less.prems(2,3,4) by (cases "k + 1 = uh") auto
  show ?case
  proof (cases "k + 1 < uh \<and> k + 1 \<in> have")
    case True
    have "um_next_missing ?e = Some (?e\<lparr>vr_ur := first_missing have uh (k + 1 + 1) mod rx_sn_modulo ?e\<rparr>)"
      by (rule less.hyps) (use less.prems True in auto)
    then show ?thesis using True g nx end_iff less.prems(6)
      by (subst um_next_missing.simps) (simp add: Let_def first_missing.simps[of _ _ "k + 1"])
  next
    case False
    then show ?thesis using g nx end_iff less.prems(3,6)
      by (subst um_next_missing.simps) (auto simp: Let_def first_missing.simps[of _ _ "k + 1"])
  qed
qed

end
