(* ===== verification/Rlc_Um_Receiver.thy ===== *)
theory Rlc_Um_Receiver
  imports Rlc_Um_Reorder
begin

text \<open>
  The steps of the UM receiver on the unbounded numbers: the arrival of a PDU (\<^verbatim>\<open>rlc_um_receive_process_dar\<close>) and a look at the timer
  (\<^verbatim>\<open>rlc_um_check_timer_dar_time_out\<close>). Both keep the invariant \<open>um_inv\<close>, under which what was delivered is what
  \<open>um_stream\<close> gives for the numbers below VR(UR).
\<close>

subsection \<open>The invariant\<close>

definition um_ux_ok :: "int \<Rightarrow> int \<Rightarrow> rlc_um_entity \<Rightarrow> bool" where
  "um_ux_ok ur uh e \<longleftrightarrow> (running (um_t_reordering e) \<longrightarrow>
     (\<exists>ux. vr_ux e = ux mod rx_sn_modulo e \<and> ux \<le> uh \<and> (ur < ux \<or> ux = ur \<and> ux = uh)))"

definition um_inv :: "bool \<Rightarrow> (int \<Rightarrow> um_frame) \<Rightarrow> int \<Rightarrow> int \<Rightarrow> int set \<Rightarrow> rlc_um_entity \<Rightarrow> bool" where
  "um_inv dp fs ur uh have e \<longleftrightarrow> um_at dp fs have ur e \<and> ur \<le> uh \<and> uh \<le> ur + rx_um_window_size e \<and> have \<subseteq> {0..<uh} \<and>
     vr_ur e = ur mod rx_sn_modulo e \<and> vr_uh e = uh mod rx_sn_modulo e \<and> um_ux_ok ur uh e"

lemma um_invD:
  assumes "um_inv dp fs ur uh have e"
  shows "um_at dp fs have ur e" "ur \<le> uh" "uh \<le> ur + rx_um_window_size e" "have \<subseteq> {0..<uh}"
    "vr_ur e = ur mod rx_sn_modulo e" "vr_uh e = uh mod rx_sn_modulo e" "um_ux_ok ur uh e" "um_rx_cfg e" "0 \<le> ur"
  using assms by (auto simp: um_inv_def um_at_def)

subsection \<open>The timer\<close>

lemma um_update_timer_run:
  assumes "um_rx_cfg e" "ur \<le> uh" "uh \<le> ur + rx_um_window_size e" "vr_ur e = ur mod rx_sn_modulo e" "vr_uh e = uh mod rx_sn_modulo e"
    "running (um_t_reordering e) \<longrightarrow> (\<exists>ux. vr_ux e = ux mod rx_sn_modulo e \<and> uh - rx_sn_modulo e < ux \<and> ux \<le> uh)"
  shows "\<exists>t x. um_update_timer f e = Some (e\<lparr>um_t_reordering := t, vr_ux := x\<rparr>) \<and> um_ux_ok ur uh (e\<lparr>um_t_reordering := t, vr_ux := x\<rparr>)"
proof -
  let ?M = "rx_sn_modulo e" let ?W = "rx_um_window_size e"
  note c = um_rx_cfgD[OF assms(1)]
  define st where "st = rlc_um_stop_and_reset_timer_reordering"
  have w: "rlc_um_in_window e' (vr_ur e') (vr_uh e') (vr_uh e') = Some (if ur = uh then 3 else 2)" if "e' = e \<or> e' = st e" for e'
    using um_in_window_inside[of e' uh ur uh uh] assms(1-5) c(2) that by (auto simp: st_def rlc_um_stop_and_reset_timer_reordering_def um_rx_cfg_def)
  have start: "um_update_timer f e = Some (if ur = uh then e' else (rlc_um_start_timer_reordering e' f)\<lparr>vr_ux := vr_uh e'\<rparr>)"
    if "um_update_timer f e = (do { w \<leftarrow> rlc_um_in_window e' (vr_ur e') (vr_uh e') (vr_uh e');
        Some (if w = 2 then (rlc_um_start_timer_reordering e' f)\<lparr>vr_ux := vr_uh e'\<rparr> else e') })" "e' = e \<or> e' = st e" for e'
    using that w[OF that(2)] by auto
  have fin: ?thesis if "um_update_timer f e = Some (if ur = uh then e' else (rlc_um_start_timer_reordering e' f)\<lparr>vr_ux := vr_uh e'\<rparr>)"
    "e' = e \<or> e' = st e" "\<not> running (um_t_reordering e')" for e'
  proof -
    let ?t = "if ur = uh then um_t_reordering e' else um_t_reordering (rlc_um_start_timer_reordering e' f)"
    let ?x = "if ur = uh then vr_ux e else vr_uh e"
    have eq: "(if ur = uh then e' else (rlc_um_start_timer_reordering e' f)\<lparr>vr_ux := vr_uh e'\<rparr>) = e\<lparr>um_t_reordering := ?t, vr_ux := ?x\<rparr>"
      using that(2) by (auto simp: st_def rlc_um_stop_and_reset_timer_reordering_def rlc_um_start_timer_reordering_def)
    have "um_ux_ok ur uh (e\<lparr>um_t_reordering := ?t, vr_ux := ?x\<rparr>)"
      using that(3) assms(2,5) by (auto simp: um_ux_ok_def intro!: exI[of _ uh])
    then show ?thesis using that(1) eq by metis
  qed
  show ?thesis
  proof (cases "running (um_t_reordering e)")
    case False
    have "um_update_timer f e = (do { w \<leftarrow> rlc_um_in_window e (vr_ur e) (vr_uh e) (vr_uh e);
        Some (if w = 2 then (rlc_um_start_timer_reordering e f)\<lparr>vr_ux := vr_uh e\<rparr> else e) })"
      using False by (simp add: um_update_timer_def)
    from fin[OF start[OF this]] False show ?thesis by blast
  next
    case True
    then obtain ux where ux: "vr_ux e = ux mod ?M" "uh - ?M < ux" "ux \<le> uh" using assms(6) by blast
    have stopped: ?thesis if "um_update_timer f e = (do { w \<leftarrow> rlc_um_in_window (st e) (vr_ur (st e)) (vr_uh (st e)) (vr_uh (st e));
        Some (if w = 2 then (rlc_um_start_timer_reordering (st e) f)\<lparr>vr_ux := vr_uh (st e)\<rparr> else st e) })"
      using fin[OF start[OF that]] by (simp add: st_def rlc_um_stop_and_reset_timer_reordering_def)
    have nrun: "\<not> running (um_t_reordering (st e))" by (simp add: st_def rlc_um_stop_and_reset_timer_reordering_def)
    show ?thesis
    proof (cases "ux < uh - ?W")
      case out: True
      have "ux mod ?M \<noteq> uh mod ?M" using ux(2) out c by (intro mod_distinct) auto
      moreover have "rlc_um_in_reordering_window e ((ux + ?M) mod ?M) = Some (- 1)"
        using um_in_reordering[OF assms(1,5), of "ux + ?M"] ux(2) out c(1) by simp
      ultimately have "um_update_timer f e = (do { w \<leftarrow> rlc_um_in_window (st e) (vr_ur (st e)) (vr_uh (st e)) (vr_uh (st e));
          Some (if w = 2 then (rlc_um_start_timer_reordering (st e) f)\<lparr>vr_ux := vr_uh (st e)\<rparr> else st e) })"
        using True ux(1) assms(5) nrun unfolding um_update_timer_def st_def by simp
      then show ?thesis by (rule stopped)
    next
      case inside: False
      have same: "rlc_um_in_reordering_window e (ux mod ?M) = Some 0" if "ux mod ?M \<noteq> uh mod ?M"
      proof -
        have "ux < uh" using that ux(3) by (cases "ux = uh") auto
        then show ?thesis using um_in_reordering[OF assms(1,5), of ux] inside c(2) by simp
      qed
      have w2: "rlc_um_in_window e (vr_ur e) (vr_ux e) (vr_uh e) =
          Some (if ur > ux then - 2 else if uh < ux then - 1 else if ur = ux then (if uh = ux then 3 else 1) else if uh = ux then 2 else 0)"
        using um_in_window_inside[OF assms(1,5), of ur ux uh] assms(2-5) ux inside c(2) by auto
      have first: "um_update_timer f e = (do {
          e2 \<leftarrow> (do { w \<leftarrow> rlc_um_in_window e (vr_ur e) (vr_ux e) (vr_uh e); Some (if w = - 2 \<or> w = 1 then st e else e) });
          if \<not> running (um_t_reordering e2) then
            do { w \<leftarrow> rlc_um_in_window e2 (vr_ur e2) (vr_uh e2) (vr_uh e2);
                 Some (if w = 2 then (rlc_um_start_timer_reordering e2 f)\<lparr>vr_ux := vr_uh e2\<rparr> else e2) }
          else Some e2 })"
        using True same ux(1) assms(5) unfolding um_update_timer_def st_def by simp
      show ?thesis
      proof (cases "ur > ux \<or> ur = ux \<and> uh \<noteq> ux")
        case stop: True
        then have "um_update_timer f e = (do { w \<leftarrow> rlc_um_in_window (st e) (vr_ur (st e)) (vr_uh (st e)) (vr_uh (st e));
            Some (if w = 2 then (rlc_um_start_timer_reordering (st e) f)\<lparr>vr_ux := vr_uh (st e)\<rparr> else st e) })"
          using w2 nrun ux(3) unfolding first by auto
        then show ?thesis by (rule stopped)
      next
        case keep: False
        then have "um_update_timer f e = Some e" using w2 True ux(3) unfolding first by auto
        moreover have "um_ux_ok ur uh e" using keep ux by (auto simp: um_ux_ok_def intro!: exI[of _ ux])
        ultimately show ?thesis by (intro exI[of _ "um_t_reordering e"] exI[of _ "vr_ux e"]) simp
      qed
    qed
  qed
qed

lemma um_check_timer_run:
  assumes "um_inv dp fs ur uh have e" "um_good dp fs have uh"
  shows "\<exists>e' ur'. rlc_um_check_timer_dar_time_out e f = Some e' \<and> um_inv dp fs ur' uh have e' \<and>
    (ur' = ur \<or> (\<exists>ux. ur \<le> ux \<and> ux \<le> uh \<and> ur' = first_missing have uh ux)) \<and> um_protocol_state e' = um_protocol_state e \<and>
    rx_um_window_size e' = rx_um_window_size e"
proof (cases "running (um_t_reordering e) \<and> timer_expired (um_t_reordering e) f")
  case True
  let ?M = "rx_sn_modulo e" let ?W = "rx_um_window_size e"
  note i = um_invD[OF assms(1)]
  note c = um_rx_cfgD[OF i(8)]
  obtain ux where ux: "vr_ux e = ux mod ?M" "ur \<le> ux" "ux \<le> uh" using i(7) True by (auto simp: um_ux_ok_def)
  define e1 where "e1 = e\<lparr>um_stats := (um_stats e)\<lparr>us_timer_reordering_timed_out := us_timer_reordering_timed_out (um_stats e) + 1\<rparr>, vr_ur := vr_ux e\<rparr>"
  define q where "q = first_missing have uh ux"
  have q: "ux \<le> q" "q \<le> uh" using first_missing_range[OF ux(3)] by (simp_all add: q_def)
  have e1: "um_at dp fs have ur e1" "rx_sn_modulo e1 = ?M" "vr_ur e1 = ux mod ?M" "vr_uh e1 = uh mod ?M" using i(1,6) ux(1) by (simp_all add: e1_def)
  have "um_skip_received e1 = Some (e1\<lparr>vr_ur := first_missing have uh ux mod rx_sn_modulo e1\<rparr>)"
    by (rule um_skip_received_at[OF e1(1)]) (use ux i c e1 in auto)
  then have skip: "um_skip_received e1 = Some (e1\<lparr>vr_ur := q mod ?M\<rparr>)" using e1(2) by (simp add: q_def)
  define e2 where "e2 = e1\<lparr>vr_ur := q mod ?M\<rparr>"
  have e2: "um_at dp fs have ur e2" "rx_sn_modulo e2 = ?M" "vr_uh e2 = uh mod ?M" using e1 by (simp_all add: e2_def)
  have "um_good dp fs have q" using assms(2) q(2) by (auto simp: um_good_def)
  then have "\<exists>e'. rlc_um_try_reassembly e2 (ur mod rx_sn_modulo e2) (q mod rx_sn_modulo e2) = Some e' \<and> um_at dp fs have q e' \<and> um_core e' = um_core e2"
    by (intro um_try_reassembly_at[OF e2(1), where uh = uh]) (use q ux i c e2 in auto)
  then obtain e3 where e3: "rlc_um_try_reassembly e2 (vr_ur e) (vr_ur e2) = Some e3" "um_at dp fs have q e3" "um_core e3 = um_core e2"
    using e2(2) i(5) by (auto simp: e2_def)
  note d = um_coreD[OF e3(3)]
  have v: "vr_ur e3 = q mod ?M" "vr_uh e3 = uh mod ?M" "rx_sn_modulo e3 = ?M" "rx_um_window_size e3 = ?W" "um_rx_cfg e3"
    "um_protocol_state e3 = um_protocol_state e"
    using d i(6,8) by (simp_all add: e2_def e1_def um_rx_cfg_def)
  have w: "rlc_um_in_window e3 (vr_ur e3) (vr_uh e3) (vr_uh e3) = Some (if q = uh then 3 else 2)"
    using um_in_window_inside[OF v(5), of uh q uh uh] v q ux(2) i(3) c(2) by auto
  define e4 where "e4 = (if q = uh then rlc_um_stop_and_reset_timer_reordering e3 else (rlc_um_start_timer_reordering e3 f)\<lparr>vr_ux := vr_uh e3\<rparr>)"
  have r: "rlc_um_check_timer_dar_time_out e f = Some e4"
    using True skip e3(1) w by (auto simp: rlc_um_check_timer_dar_time_out_def Let_def e1_def e2_def e4_def)
  have "um_inv dp fs q uh have e4" unfolding um_inv_def
  proof (intro conjI)
    show "um_at dp fs have q e4" using e3(2) by (auto simp: e4_def rlc_um_stop_and_reset_timer_reordering_def rlc_um_start_timer_reordering_def)
    show "um_ux_ok q uh e4" using v(2) q(2)
      by (auto simp: e4_def um_ux_ok_def rlc_um_stop_and_reset_timer_reordering_def rlc_um_start_timer_reordering_def v(3) intro!: exI[of _ uh])
  qed (use v q ux(2) i(3,4) in \<open>auto simp: e4_def rlc_um_stop_and_reset_timer_reordering_def rlc_um_start_timer_reordering_def\<close>)
  moreover have "um_protocol_state e4 = um_protocol_state e" "rx_um_window_size e4 = ?W" using v(4,6)
    by (simp_all add: e4_def rlc_um_stop_and_reset_timer_reordering_def rlc_um_start_timer_reordering_def)
  ultimately show ?thesis using r ux(2,3) q_def by blast
next
  case False
  then show ?thesis using assms(1) by (auto simp: rlc_um_check_timer_dar_time_out_def)
qed

subsection \<open>Arrival of a PDU\<close>

lemma um_pdu_sn_10:
  assumes "uf_fi f \<in> {0, 1, 2, 3}" "rx_sn_length e = 10" "0 \<le> sn" "sn < 1024"
  shows "um_pdu_sn e (um_pdu_bytes 10 sn f) = Some sn"
proof -
  define x where "x = (if uf_lis f = [] then 0 else (1::int))"
  define y where "y = sn div 256"
  have y: "0 \<le> y" "y < 4" using assms(3,4) by (auto simp: y_def)
  define b0 b1 where b: "b0 = (word_of_int (8 * uf_fi f + 4 * x + y) :: byte)" "b1 = (word_of_int (sn mod 256) :: byte)"
  have "uint b0 = y + (2 * uf_fi f + x) * 4" unfolding b by (subst uint_byte) (use assms(1) y in \<open>auto simp: x_def\<close>)
  then have "uint b0 AND 0x03 = y" using y mod_mult_self1[of y "2 * uf_fi f + x" 4] unfolding byte_fields by (simp only: mod_pos_pos_trivial)
  moreover have "uint b1 = sn mod 256" unfolding b by (rule uint_byte) auto
  moreover have "um_pdu_bytes 10 sn f = b0 # b1 # li_bytes (uf_lis f) @ uf_payload f"
    by (simp add: um_pdu_bytes_def um_header_def b x_def y_def)
  ultimately have "um_pdu_sn e (um_pdu_bytes 10 sn f) = Some (push_bit 8 y + sn mod 256)" using assms(2) unfolding um_pdu_sn_def by simp
  then show ?thesis unfolding y_def um_li_bits(2) .
qed

lemma um_pdu_sn_5:
  assumes "uf_fi f \<in> {0, 1, 2, 3}" "rx_sn_length e = 5" "0 \<le> sn" "sn < 32"
  shows "um_pdu_sn e (um_pdu_bytes 5 sn f) = Some sn"
proof -
  define x where "x = (if uf_lis f = [] then 0 else (1::int))"
  define b0 where b: "b0 = (word_of_int (64 * uf_fi f + 32 * x + sn) :: byte)"
  have "uint b0 = sn + (2 * uf_fi f + x) * 32" unfolding b by (subst uint_byte) (use assms in \<open>auto simp: x_def\<close>)
  then have "uint b0 AND 0x1F = sn" using assms(3,4) mod_mult_self1[of sn "2 * uf_fi f + x" 32] unfolding byte_fields by (simp only: mod_pos_pos_trivial)
  moreover have "um_pdu_bytes 5 sn f = b0 # li_bytes (uf_lis f) @ uf_payload f"
    by (simp add: um_pdu_bytes_def um_header_def b x_def)
  ultimately show ?thesis using assms(2) unfolding um_pdu_sn_def by simp
qed

lemma um_pdu_sn_bytes:
  assumes "um_framed f" "um_rx_cfg e"
  shows "um_pdu_sn e (um_pdu_bytes (rx_sn_length e) (k mod rx_sn_modulo e) f) = Some (k mod rx_sn_modulo e)"
proof -
  note r = um_mod_range[OF assms(2), of k]
  have fi: "uf_fi f \<in> {0, 1, 2, 3}" using assms(1) by (simp add: um_framed_def)
  consider "rx_sn_length e = 10" | "rx_sn_length e = 5" "rx_sn_modulo e = 32" using assms(2) by (auto simp: um_rx_cfg_def)
  then show ?thesis
  proof cases
    case 1
    then show ?thesis using um_pdu_sn_10[OF fi 1 r(1) r(3)] by simp
  next
    case 2
    then show ?thesis using um_pdu_sn_5[OF fi 2(1) r(1)] r(2) by simp
  qed
qed

text \<open>Storing a PDU.\<close>

lemma um_at_store:
  assumes "um_at dp fs have p e" "p \<le> n" "n < p + rx_sn_modulo e"
  shows "um_at dp fs (insert n have) p (e\<lparr>dar_buffer := (dar_buffer e)(n mod rx_sn_modulo e := Some (um_block e fs n))\<rparr>)"
proof -
  let ?M = "rx_sn_modulo e"
  let ?e = "e\<lparr>dar_buffer := (dar_buffer e)(n mod ?M := Some (um_block e fs n))\<rparr>"
  have str: "um_stream fs (insert n have) p = um_stream fs have p" using assms(2) by (intro um_stream_cong) auto
  have buf: "dar_buffer ?e (k mod ?M) = (if k \<in> insert n have then Some (um_block e fs k) else None)" if "p \<le> k" "k < p + ?M" for k
  proof (cases "k = n")
    case False
    then have "k mod ?M \<noteq> n mod ?M" using mod_distinct[of k n ?M] mod_distinct[of n k ?M] that assms(2,3) by (cases "k < n") auto
    then show ?thesis using assms(1) that False by (simp add: um_at_def)
  qed simp
  have "um_block ?e fs k = um_block e fs k" "um_rx_cfg ?e = um_rx_cfg e" for k by (simp_all add: um_block_def um_rx_cfg_def)
  then show ?thesis using assms buf unfolding um_at_def str by auto
qed

text \<open>Moving the window.\<close>

lemma um_low_edge_mod:
  assumes "um_rx_cfg e" "vr_uh e = uh mod rx_sn_modulo e"
  shows "um_low_edge e = (uh - rx_um_window_size e) mod rx_sn_modulo e"
proof -
  let ?M = "rx_sn_modulo e" let ?W = "rx_um_window_size e"
  note c = um_rx_cfgD[OF assms(1)] note u = um_mod_range[OF assms(1), of uh]
  define v where "v = uh mod ?M - ?W"
  have v: "v mod ?M = (uh - ?W) mod ?M" unfolding v_def by (simp add: mod_diff_left_eq)
  have r: "- ?M < v" "v < ?M" using u(1,2) c unfolding v_def by linarith+
  have low: "um_low_edge e = (if v < 0 then v + ?M else v)" by (simp add: um_low_edge_def assms(2) v_def Let_def)
  show ?thesis
  proof (cases "v < 0")
    case True
    have "(v + ?M) mod ?M = v + ?M" by (rule mod_pos_pos_trivial) (use True r in auto)
    then show ?thesis using True v low by simp
  next
    case False
    then show ?thesis using v r low by (simp add: mod_pos_pos_trivial)
  qed
qed

lemma um_core_zero: "um_core e' = um_core e \<Longrightarrow> um_core (e'\<lparr>vr_ur := 0, vr_uh := 0\<rparr>) = um_core (e\<lparr>vr_ur := 0, vr_uh := 0\<rparr>)"
proof -
  have z: "um_core (x\<lparr>vr_ur := 0, vr_uh := 0\<rparr>) = (um_core x)\<lparr>vr_ur := 0, vr_uh := 0\<rparr>" for x by (simp add: um_core_def um_rest_def)
  show "um_core e' = um_core e \<Longrightarrow> um_core (e'\<lparr>vr_ur := 0, vr_uh := 0\<rparr>) = um_core (e\<lparr>vr_ur := 0, vr_uh := 0\<rparr>)" unfolding z by (rule arg_cong)
qed

lemma um_move_window_run:
  assumes "um_at dp fs have ur e" "ur \<le> uh" "uh \<le> ur + rx_um_window_size e" "vr_ur e = ur mod rx_sn_modulo e" "vr_uh e = uh mod rx_sn_modulo e"
    "ur \<le> n" "n < uh + rx_um_window_size e" "uh' = max uh (n + 1)" "ur' = max ur (uh' - rx_um_window_size e)" "um_good dp fs have ur'"
  shows "\<exists>e'. um_move_window (n mod rx_sn_modulo e) e = Some e' \<and> um_at dp fs have ur' e' \<and>
    vr_ur e' = ur' mod rx_sn_modulo e \<and> vr_uh e' = uh' mod rx_sn_modulo e \<and> um_core (e'\<lparr>vr_ur := 0, vr_uh := 0\<rparr>) = um_core (e\<lparr>vr_ur := 0, vr_uh := 0\<rparr>)"
proof -
  let ?M = "rx_sn_modulo e" let ?W = "rx_um_window_size e"
  have cfg: "um_rx_cfg e" using assms(1) by (simp add: um_at_def)
  note c = um_rx_cfgD[OF cfg]
  have w: "rlc_um_in_reordering_window e (n mod ?M) = Some (if n < uh then 0 else - 1)"
    using um_in_reordering[OF cfg assms(5), of n] assms(3,6,7) by simp
  show ?thesis
  proof (cases "n < uh")
    case True
    then have "uh' = uh" "ur' = ur" using assms(3,8,9) by auto
    then show ?thesis using True w assms(1,4,5) by (auto simp: um_move_window_def)
  next
    case False
    then have uh': "uh' = n + 1" "uh < uh'" using assms(8) by auto
    define e1 where "e1 = e\<lparr>vr_uh := uh' mod ?M\<rparr>"
    have e1: "um_at dp fs have ur e1" "um_rx_cfg e1" "rx_sn_modulo e1 = ?M" "rx_um_window_size e1 = ?W" "vr_uh e1 = uh' mod ?M" "vr_ur e1 = ur mod ?M"
      using assms(1,4) cfg by (simp_all add: e1_def um_rx_cfg_def)
    have nx: "um_rem e (n mod ?M + 1) = Some (uh' mod ?M)" using um_rem_next[OF cfg, of n] uh'(1) by simp
    have w1: "rlc_um_in_reordering_window x (ur mod ?M) = Some (if uh' - ?W \<le> ur then 0 else - 1)"
      if "um_rx_cfg x" "rx_sn_modulo x = ?M" "rx_um_window_size x = ?W" "vr_uh x = uh' mod ?M" for x
    proof (cases "uh' - ?W \<le> ur")
      case True
      then show ?thesis using um_in_reordering[OF that(1), of uh' ur] that assms(6) uh' c(2) by simp
    next
      case F: False
      have "rlc_um_in_reordering_window x ((ur + ?M) mod ?M) = Some (- 1)"
        using um_in_reordering[OF that(1), of uh' "ur + ?M"] that F assms(3,7) uh'(1) c by simp
      then show ?thesis using F by simp
    qed
    have low: "um_low_edge e1 = (uh' - ?W) mod ?M" using um_low_edge_mod[OF e1(2), of uh'] e1(3-5) by simp
    have mv: "um_move_window (n mod ?M) e = um_shift e1" using w False nx by (simp add: um_move_window_def e1_def)
    have w1': "rlc_um_in_reordering_window e1 (vr_ur e1) = Some (if uh' - ?W \<le> ur then 0 else - 1)" using w1[OF e1(2-5)] e1(6) by simp
    show ?thesis
    proof (cases "uh' - ?W \<le> ur")
      case True
      then have "ur' = ur" using assms(9) by simp
      moreover have "um_move_window (n mod ?M) e = Some e1"
        using True w1' unfolding mv um_shift_def by simp
      ultimately show ?thesis using e1 by (auto simp: e1_def)
    next
      case F: False
      then have ur': "ur' = uh' - ?W" "ur < ur'" using assms(9) by auto
      have "\<exists>e'. rlc_um_try_reassembly e1 (ur mod rx_sn_modulo e1) (ur' mod rx_sn_modulo e1) = Some e' \<and> um_at dp fs have ur' e' \<and> um_core e' = um_core e1"
        by (rule um_try_reassembly_at[OF e1(1), where uh = uh']) (use ur' uh' assms(3,7,10) c e1 in auto)
      then obtain e2 where e2: "rlc_um_try_reassembly e1 (vr_ur e1) ((uh' - ?W) mod ?M) = Some e2" "um_at dp fs have ur' e2" "um_core e2 = um_core e1"
        using e1(3,6) ur'(1) by auto
      note d = um_coreD[OF e2(3)]
      have "rlc_um_in_reordering_window e2 (vr_ur e2) = Some (- 1)" using w1[of e2] d e1 F by simp
      then have "um_move_window (n mod ?M) e = Some (e2\<lparr>vr_ur := ur' mod ?M\<rparr>)"
        using F e2(1) ur'(1) unfolding mv um_shift_def w1' low by simp
      moreover have "um_core (e2\<lparr>vr_ur := 0, vr_uh := 0\<rparr>) = um_core (e\<lparr>vr_ur := 0, vr_uh := 0\<rparr>)"
        using um_core_zero[OF e2(3)] by (simp add: e1_def)
      ultimately show ?thesis using e2(2) d(2) e1(5) by auto
    qed
  qed
qed

text \<open>What the arrival of number \<open>n\<close> does to VR(UR), VR(UH) and the numbers received.\<close>

definition um_arrive :: "int \<Rightarrow> int \<Rightarrow> int \<times> int \<times> int set \<Rightarrow> int \<times> int \<times> int set" where
  "um_arrive W n s =
     (case s of (ur, uh, have) \<Rightarrow>
        if n < ur then (ur, uh, have)
        else let h = insert n have; uh' = max uh (n + 1); ur' = max ur (uh' - W)
             in (if n = ur' then first_missing h uh' (n + 1) else ur', uh', h))"

text \<open>
  A PDU that pushes the window past VR(UR) leaves VR(UR) at the lower edge, even if the PDU of that
  number is in the buffer; the comment above the loop that moves VR(UR) tells otherwise.
\<close>

lemma moved_window_stays_at_edge: "um_arrive 16 20 (0, 6, {5}) = (5, 21, {5, 20})"
  by (simp add: um_arrive_def insert_commute)

lemma um_core_outside:
  assumes "um_core (e'\<lparr>vr_ur := 0, vr_uh := 0\<rparr>) = um_core (e\<lparr>vr_ur := 0, vr_uh := 0\<rparr>)"
  shows "vr_ux e' = vr_ux e" "um_t_reordering e' = um_t_reordering e" "rx_sn_length e' = rx_sn_length e" "rx_sn_modulo e' = rx_sn_modulo e"
    "rx_um_window_size e' = rx_um_window_size e" "um_protocol_state e' = um_protocol_state e" "um_rx_cfg e' = um_rx_cfg e"
  using um_coreD[OF assms] by (simp_all add: um_rx_cfg_def)

lemma um_advance_run:
  assumes "um_at dp fs have ur e" "ur \<le> n" "n < uh" "uh \<le> ur + rx_um_window_size e" "n \<in> have" "vr_ur e = ur mod rx_sn_modulo e" "vr_uh e = uh mod rx_sn_modulo e"
    "um_good dp fs have uh" "ur' = (if n = ur then first_missing have uh (n + 1) else ur)"
  shows "\<exists>e'. um_advance (n mod rx_sn_modulo e) e = Some e' \<and> um_at dp fs have ur' e' \<and> vr_ur e' = ur' mod rx_sn_modulo e \<and> vr_uh e' = uh mod rx_sn_modulo e \<and>
    um_core (e'\<lparr>vr_ur := 0, vr_uh := 0\<rparr>) = um_core (e\<lparr>vr_ur := 0, vr_uh := 0\<rparr>)"
proof (cases "n = ur")
  case False
  have "um_rx_cfg e" using assms(1) by (simp add: um_at_def)
  then have "ur mod rx_sn_modulo e \<noteq> n mod rx_sn_modulo e" using False assms(2-4) um_rx_cfgD[of e] by (intro mod_distinct) auto
  then show ?thesis using False assms(1,6,7,9) by (auto simp: um_advance_def)
next
  case True
  let ?M = "rx_sn_modulo e"
  have cfg: "um_rx_cfg e" using assms(1) by (simp add: um_at_def)
  note c = um_rx_cfgD[OF cfg]
  define q where "q = first_missing have uh (n + 1)"
  have q: "n < q" "q \<le> uh" "ur' = q" using first_missing_range[of "n + 1" uh "have"] assms(3,9) True by (auto simp: q_def)
  have get: "rlc_um_get_pdu_from_dar_buffer e (vr_ur e) = Some (Some (um_block e fs n))"
    using um_at_get[OF assms(1), of ur] assms(5,6) c(4) True by simp
  have nm: "um_next_missing e = Some (e\<lparr>vr_ur := q mod ?M\<rparr>)" unfolding q_def
    by (rule um_next_missing_at[OF assms(1), where k = n and uh = uh]) (use assms True c in auto)
  define e1 where "e1 = e\<lparr>vr_ur := q mod ?M\<rparr>"
  have e1: "um_at dp fs have ur e1" "rx_sn_modulo e1 = ?M" "vr_uh e1 = uh mod ?M" using assms(1,7) by (simp_all add: e1_def)
  have "um_good dp fs have q" using assms(8) q(2) by (auto simp: um_good_def)
  then have "\<exists>e'. rlc_um_try_reassembly e1 (ur mod rx_sn_modulo e1) (q mod rx_sn_modulo e1) = Some e' \<and> um_at dp fs have q e' \<and> um_core e' = um_core e1"
    by (intro um_try_reassembly_at[OF e1(1), where uh = uh]) (use q assms True c e1 in auto)
  then obtain e2 where e2: "rlc_um_try_reassembly e1 (n mod ?M) (vr_ur e1) = Some e2" "um_at dp fs have q e2" "um_core e2 = um_core e1"
    using e1(2) True by (auto simp: e1_def)
  have adv: "um_advance (n mod ?M) e = Some e2" using get nm e2(1) assms(6) True by (simp add: um_advance_def e1_def)
  have "um_core (e2\<lparr>vr_ur := 0, vr_uh := 0\<rparr>) = um_core (e\<lparr>vr_ur := 0, vr_uh := 0\<rparr>)"
    using um_core_zero[OF e2(3)] by (simp add: e1_def)
  then show ?thesis using adv e2(2) um_coreD(1,2)[OF e2(3)] e1(3) q(3) by (auto simp: e1_def)
qed

lemma um_inv_stats [simp]: "um_inv dp fs ur uh have (e\<lparr>um_stats := st\<rparr>) = um_inv dp fs ur uh have e"
  by (simp add: um_inv_def um_ux_ok_def)

lemma um_check_duplicate_run:
  assumes "um_inv dp fs ur uh have e" "ur \<le> n" "n < uh + rx_um_window_size e"
  shows "\<exists>st b. um_check_duplicate (n mod rx_sn_modulo e) sz e =
    Some (if n \<in> have \<and> ur < n then (True, e\<lparr>um_stats := st\<rparr>) else (False, e\<lparr>um_stats := st, dar_buffer := b\<rparr>)) \<and>
    (b = dar_buffer e \<or> b = (dar_buffer e)(n mod rx_sn_modulo e := None))"
proof -
  let ?M = "rx_sn_modulo e"
  note i = um_invD[OF assms(1)]
  note c = um_rx_cfgD[OF i(8)]
  have get: "rlc_um_get_pdu_from_dar_buffer e (n mod ?M) = Some (if n \<in> have then Some (um_block e fs n) else None)"
    using um_at_get[OF i(1), of n] i(3) c(1) assms(2,3) by simp
  show ?thesis
  proof (cases "n \<in> have")
    case False
    then show ?thesis using get by (intro exI[of _ "um_stats e"] exI[of _ "dar_buffer e"]) (simp add: um_check_duplicate_def)
  next
    case True
    then have "n < uh" using i(4) by auto
    then have w: "rlc_um_in_window e (vr_ur e) (n mod ?M) (vr_uh e) = Some (if ur = n then 1 else 0)"
      using um_in_window_inside[OF i(8,6), of ur n uh] i(2,3,5,6) assms(2) by simp
    show ?thesis using True get w assms(2) dar_index_mod[OF i(8), of n]
      by (intro exI[of _ "um_stats (um_count_duplicate sz e)"] exI[of _ "(dar_buffer e)(n mod ?M := None)"])
        (simp add: um_check_duplicate_def um_count_duplicate_def rlc_um_remove_pdu_from_dar_buffer_def)
  qed
qed

lemma um_process_dar_run:
  assumes "um_inv dp fs ur uh have e" "uh - rx_um_window_size e \<le> n" "n < uh + rx_um_window_size e"
    "um_good dp fs (insert n have) (max uh (n + 1))" "um_arrive (rx_um_window_size e) n (ur, uh, have) = (ur', uh', have')"
  shows "\<exists>e'. rlc_um_receive_process_dar e f (um_block e fs n) sz = Some e' \<and> um_inv dp fs ur' uh' have' e' \<and>
    rx_um_window_size e' = rx_um_window_size e \<and> um_protocol_state e' = um_protocol_state e"
proof -
  let ?M = "rx_sn_modulo e" let ?W = "rx_um_window_size e"
  note i = um_invD[OF assms(1)]
  note c = um_rx_cfgD[OF i(8)]
  have sn: "um_pdu_sn e (ti_data (um_block e fs n)) = Some (n mod ?M)"
    using um_pdu_sn_bytes[OF _ i(8), of "fs n" n] assms(4) by (simp add: um_good_def um_block_def um_tb_def)
  obtain w where w: "rlc_um_in_window e (vr_uh e - ?W) (n mod ?M) (vr_ur e) = Some w" "w = 1 \<or> w = 0 \<longleftrightarrow> n < ur"
    using um_in_window_done[OF i(8,6) assms(2,3), of ur] i(2,3,5) by auto
  show ?thesis
  proof (cases "n < ur")
    case True
    then have "rlc_um_receive_process_dar e f (um_block e fs n) sz = Some (um_count_out_of_window sz e)"
      using sn w by (simp add: rlc_um_receive_process_dar_def)
    then show ?thesis using True assms(1,5) by (simp add: um_arrive_def um_count_out_of_window_def)
  next
    case False
    then have ge: "ur \<le> n" by simp
    obtain st b where dup: "um_check_duplicate (n mod ?M) sz e =
        Some (if n \<in> have \<and> ur < n then (True, e\<lparr>um_stats := st\<rparr>) else (False, e\<lparr>um_stats := st, dar_buffer := b\<rparr>))"
      "b = dar_buffer e \<or> b = (dar_buffer e)(n mod ?M := None)" using um_check_duplicate_run[OF assms(1) ge assms(3)] by blast
    show ?thesis
    proof (cases "n \<in> have \<and> ur < n")
      case True
      then have "n < uh" using i(4) by auto
      then have "ur' = ur" "uh' = uh" "have' = have" using assms(5) True i(3) by (auto simp: um_arrive_def Let_def insert_absorb)
      moreover have "rlc_um_receive_process_dar e f (um_block e fs n) sz = Some (e\<lparr>um_stats := st\<rparr>)"
        using sn w False dup(1) True by (simp add: rlc_um_receive_process_dar_def)
      ultimately show ?thesis using assms(1) by simp
    next
      case new: False
      define h uh1 ur1 where d: "h = insert n have" "uh1 = max uh (n + 1)" "ur1 = max ur (uh1 - ?W)"
      have arr: "ur' = (if n = ur1 then first_missing h uh1 (n + 1) else ur1)" "uh' = uh1" "have' = h"
        using assms(5) False by (auto simp: um_arrive_def Let_def d)
      define e1 where "e1 = (e\<lparr>um_stats := st\<rparr>)\<lparr>dar_buffer := (dar_buffer (e\<lparr>um_stats := st\<rparr>))(n mod rx_sn_modulo (e\<lparr>um_stats := st\<rparr>) := Some (um_block (e\<lparr>um_stats := st\<rparr>) fs n))\<rparr>"
      have at1: "um_at dp fs h ur e1" unfolding d e1_def by (rule um_at_store) (use i(1,3) ge assms(3) c(1) in auto)
      have e1: "rx_sn_modulo e1 = ?M" "rx_um_window_size e1 = ?W" "vr_ur e1 = ur mod ?M" "vr_uh e1 = uh mod ?M" "um_core e1 = um_core e"
        using i(5,6) by (simp_all add: e1_def)
      have blk: "um_block (e\<lparr>um_stats := st\<rparr>) fs n = um_block e fs n" by (simp add: um_block_def)
      have store: "rlc_um_store_pdu_in_dar_buffer (e\<lparr>um_stats := st, dar_buffer := b\<rparr>) (um_block e fs n) (n mod ?M) = Some e1"
        using dup(2) dar_index_mod[OF i(8), of n] unfolding e1_def blk by (auto simp: rlc_um_store_pdu_in_dar_buffer_def)
      have good: "um_good dp fs h uh1" using assms(4) by (simp add: d)
      have rng: "ur1 \<le> n" "n < uh1" "uh1 \<le> ur1 + ?W" "uh1 < ur + ?M + 1" "uh \<le> uh1" using ge i(2,3) assms(3) c(1,2) by (auto simp: d)
      then have "um_good dp fs h ur1" using good by (auto simp: um_good_def)
      then have "\<exists>e'. um_move_window (n mod rx_sn_modulo e1) e1 = Some e' \<and> um_at dp fs h ur1 e' \<and>
          vr_ur e' = ur1 mod rx_sn_modulo e1 \<and> vr_uh e' = uh1 mod rx_sn_modulo e1 \<and> um_core (e'\<lparr>vr_ur := 0, vr_uh := 0\<rparr>) = um_core (e1\<lparr>vr_ur := 0, vr_uh := 0\<rparr>)"
        by (intro um_move_window_run[OF at1]) (use i ge assms(3) e1 d in auto)
      then obtain e2 where e2: "um_move_window (n mod ?M) e1 = Some e2" "um_at dp fs h ur1 e2" "vr_ur e2 = ur1 mod ?M" "vr_uh e2 = uh1 mod ?M"
        "um_core (e2\<lparr>vr_ur := 0, vr_uh := 0\<rparr>) = um_core (e\<lparr>vr_ur := 0, vr_uh := 0\<rparr>)" using e1(1) um_core_zero[OF e1(5)] by auto
      note k2 = um_core_outside[OF e2(5)]
      have p2: "uh1 \<le> ur1 + rx_um_window_size e2" "n \<in> h" "vr_ur e2 = ur1 mod rx_sn_modulo e2" "vr_uh e2 = uh1 mod rx_sn_modulo e2"
        using rng(3) e2(3,4) k2(4,5) d(1) by simp_all
      note adv = um_advance_run[OF e2(2) rng(1,2) p2 good arr(1)]
      then obtain e3 where e3: "um_advance (n mod ?M) e2 = Some e3" "um_at dp fs h ur' e3" "vr_ur e3 = ur' mod ?M" "vr_uh e3 = uh1 mod ?M"
        "um_core (e3\<lparr>vr_ur := 0, vr_uh := 0\<rparr>) = um_core (e\<lparr>vr_ur := 0, vr_uh := 0\<rparr>)" using adv unfolding k2(4) e2(5) by blast
      note k3 = um_core_outside[OF e3(5)]
      have ur': "ur1 \<le> ur'" "ur' \<le> uh1" using arr(1) rng first_missing_range[of "n + 1" uh1 h] by (auto split: if_splits)
      have ux: "\<exists>ux. vr_ux e3 = ux mod ?M \<and> uh1 - ?M < ux \<and> ux \<le> uh1" if run: "running (um_t_reordering e3)"
      proof -
        from run k3(2) i(7) obtain ux where "vr_ux e = ux mod ?M" "ux \<le> uh" "ur < ux \<or> ux = ur \<and> ux = uh" by (auto simp: um_ux_ok_def)
        then show ?thesis using k3(1) rng i(3) c(1,2) assms(3) by (intro exI[of _ ux]) (auto simp: d)
      qed
      have "\<exists>t x. um_update_timer f e3 = Some (e3\<lparr>um_t_reordering := t, vr_ux := x\<rparr>) \<and> um_ux_ok ur' uh1 (e3\<lparr>um_t_reordering := t, vr_ux := x\<rparr>)"
        by (rule um_update_timer_run) (use k3 i(8) ur' rng e3 ux in auto)
      then obtain t x where e4: "um_update_timer f e3 = Some (e3\<lparr>um_t_reordering := t, vr_ux := x\<rparr>)" "um_ux_ok ur' uh1 (e3\<lparr>um_t_reordering := t, vr_ux := x\<rparr>)"
        by blast
      have "rlc_um_receive_process_dar e f (um_block e fs n) sz = Some (e3\<lparr>um_t_reordering := t, vr_ux := x\<rparr>)"
        using sn w False dup(1) new store e2(1) e3(1) e4(1) by (auto simp: rlc_um_receive_process_dar_def)
      moreover have "h \<subseteq> {0..<uh1}" using subset_trans[OF i(4), of "{0..<uh1}"] i(9) ge rng(2,5) unfolding d(1) by auto
      ultimately show ?thesis using e3 e4(2) ur' rng k3 arr(2,3) by (auto simp: um_inv_def)
    qed
  qed
qed

end
