(* ===== verification/Rlc_Um_Control.thy ===== *)
theory Rlc_Um_Control
  imports Rlc_Um_Receiver Rlc_Am_Init
begin

text \<open>
  Life cycle and configuration of a UM entity: \<^verbatim>\<open>rlc_um_fsm.c\<close> and \<^verbatim>\<open>rlc_um_control_primitives.c\<close>, with Release 10 (\<^verbatim>\<open>Rel10\<close>)
  compiled in. As for AM the hash table of the entities is a map, and the record of what was delivered survives a \<^verbatim>\<open>memset\<close>.
  A failed \<^verbatim>\<open>AssertFatal\<close> and the end of the process by \<^verbatim>\<open>macphy_exit\<close> are \<open>None\<close>.
\<close>

subsection \<open>The state machine\<close>

abbreviation (input) RLC_UM_RECEIVE_CRLC_CONFIG_REQ_ENTER_NULL_STATE_EVENT :: int where
  "RLC_UM_RECEIVE_CRLC_CONFIG_REQ_ENTER_NULL_STATE_EVENT \<equiv> 0x00"

abbreviation (input) RLC_UM_RECEIVE_CRLC_CONFIG_REQ_ENTER_DATA_TRANSFER_READY_STATE_EVENT :: int where
  "RLC_UM_RECEIVE_CRLC_CONFIG_REQ_ENTER_DATA_TRANSFER_READY_STATE_EVENT \<equiv> 0x01"

abbreviation (input) RLC_UM_RECEIVE_CRLC_SUSPEND_REQ_EVENT :: int where
  "RLC_UM_RECEIVE_CRLC_SUSPEND_REQ_EVENT \<equiv> 0x10"

abbreviation (input) RLC_UM_TRANSMIT_CRLC_SUSPEND_CNF_EVENT :: int where
  "RLC_UM_TRANSMIT_CRLC_SUSPEND_CNF_EVENT \<equiv> 0x11"

abbreviation (input) RLC_UM_RECEIVE_CRLC_RESUME_REQ_EVENT :: int where
  "RLC_UM_RECEIVE_CRLC_RESUME_REQ_EVENT \<equiv> 0x12"

definition rlc_um_fsm_notify_event :: "rlc_um_entity \<Rightarrow> int \<Rightarrow> (bool \<times> rlc_um_entity) option" where
  "rlc_um_fsm_notify_event e eventP =
     (let enter = (\<lambda>st. Some (True, e\<lparr>um_protocol_state := st\<rparr>))
      in case um_protocol_state e of
           RLC_NULL_STATE \<Rightarrow>
             if eventP = RLC_UM_RECEIVE_CRLC_CONFIG_REQ_ENTER_DATA_TRANSFER_READY_STATE_EVENT
             then enter RLC_DATA_TRANSFER_READY_STATE else None
         | RLC_DATA_TRANSFER_READY_STATE \<Rightarrow>
             if eventP = RLC_UM_RECEIVE_CRLC_CONFIG_REQ_ENTER_NULL_STATE_EVENT then enter RLC_NULL_STATE
             else if eventP = RLC_UM_RECEIVE_CRLC_SUSPEND_REQ_EVENT \<or> eventP = RLC_UM_TRANSMIT_CRLC_SUSPEND_CNF_EVENT
             then enter RLC_LOCAL_SUSPEND_STATE
             else Some (False, e)
         | RLC_LOCAL_SUSPEND_STATE \<Rightarrow>
             if eventP = RLC_UM_RECEIVE_CRLC_CONFIG_REQ_ENTER_NULL_STATE_EVENT then enter RLC_NULL_STATE
             else if eventP = RLC_UM_RECEIVE_CRLC_RESUME_REQ_EVENT then enter RLC_DATA_TRANSFER_READY_STATE
             else Some (False, e)
         | _ \<Rightarrow> Some (False, e))"

subsection \<open>Initialisation and release\<close>

definition cleared_um_entity :: "rlc_um_entity \<Rightarrow> rlc_um_entity" where
  "cleared_um_entity e = zero_um_entity\<lparr>um_log_data_ind := um_log_data_ind e\<rparr>"

definition rlc_um_init :: "rlc_um_entity \<Rightarrow> rlc_um_entity" where
  "rlc_um_init e =
     (if um_initialized e then e
      else (cleared_um_entity e)\<lparr>um_protocol_state := RLC_NULL_STATE, rx_sn_length := 10, rx_header_min_length_in_bytes := 2,
        tx_sn_length := 10, tx_header_min_length_in_bytes := 2, um_first_pdu := True, um_initialized := True\<rparr>)"

definition rlc_um_reset_state_variables :: "rlc_um_entity \<Rightarrow> rlc_um_entity" where
  "rlc_um_reset_state_variables e = e\<lparr>um_buffer_occupancy := 0, vt_us := 0, vr_ur := 0, vr_ux := 0, vr_uh := 0\<rparr>"

definition rlc_um_cleanup :: "rlc_um_entity \<Rightarrow> rlc_um_entity" where
  "rlc_um_cleanup e = cleared_um_entity e"

text \<open>The lengths of the sequence number in the two directions; 0 leaves a direction alone, other values than 5 and 10 end the request.\<close>

definition um_configure_rx :: "u32 \<Rightarrow> rlc_um_entity \<Rightarrow> rlc_um_entity" where
  "um_configure_rx len e =
     (if len = 10 then e\<lparr>rx_sn_length := 10, rx_sn_modulo := 1024, rx_um_window_size := 512, rx_header_min_length_in_bytes := 2\<rparr>
      else if len = 5 then e\<lparr>rx_sn_length := 5, rx_sn_modulo := 32, rx_um_window_size := 16, rx_header_min_length_in_bytes := 1\<rparr>
      else e)"

definition um_configure_tx :: "u32 \<Rightarrow> rlc_um_entity \<Rightarrow> rlc_um_entity" where
  "um_configure_tx len e =
     (if len = 10 then e\<lparr>tx_sn_length := 10, tx_sn_modulo := 1024, tx_um_window_size := 512, tx_header_min_length_in_bytes := 2\<rparr>
      else if len = 5 then e\<lparr>tx_sn_length := 5, tx_sn_modulo := 32, tx_um_window_size := 16, tx_header_min_length_in_bytes := 1\<rparr>
      else e)"

definition rlc_um_configure :: "rlc_um_entity \<Rightarrow> frame \<Rightarrow> u32 \<Rightarrow> u32 \<Rightarrow> u32 \<Rightarrow> u32 \<Rightarrow> rlc_um_entity" where
  "rlc_um_configure e frameP timer_reorderingP rx_sn_field_lengthP tx_sn_field_lengthP is_mXchP =
     (let e1 = um_configure_rx rx_sn_field_lengthP e; e2 = um_configure_tx tx_sn_field_lengthP e1;
          e3 = (if is_mXchP > 0 then e2\<lparr>tx_um_window_size := 0, rx_um_window_size := 0\<rparr> else e2);
          sn = to_uint16 (rx_sn_modulo e3 - 1)
      in if rx_sn_field_lengthP \<notin> {0, 5, 10} then e1
         else if tx_sn_field_lengthP \<notin> {0, 5, 10} then e2
         else rlc_um_reset_state_variables
           ((rlc_um_init_timer_reordering (e3\<lparr>um_is_mxch := (to_int8 (uint is_mXchP) \<noteq> 0), last_reassemblied_sn := sn,
               last_reassemblied_missing_sn := sn, reassembly_missing_sn_detected := False\<rparr>) timer_reorderingP)\<lparr>um_first_pdu := True\<rparr>))"

definition rlc_um_set_debug_infos :: "rlc_um_entity \<Rightarrow> int \<Rightarrow> int \<Rightarrow> frame \<Rightarrow> int \<Rightarrow> int \<Rightarrow> int \<Rightarrow> rlc_um_entity" where
  "rlc_um_set_debug_infos e enb_module_idP ue_module_idP frameP eNB_flagP srb_flagP rb_idP =
     e\<lparr>um_enb_module_id := to_uint8 enb_module_idP, um_ue_module_id := to_uint8 ue_module_idP, um_rb_id := to_uint16 rb_idP,
       um_is_data_plane := (to_int8 srb_flagP = 0), um_is_enb := (to_int8 eNB_flagP \<noteq> 0)\<rparr>"

subsection \<open>Configuration requests\<close>

type_synonym rlc_um_coll = "int \<rightharpoonup> rlc_um_entity"

record rlc_um_info =
  umc_timer_reordering :: u32
  umc_sn_field_length :: u32
  umc_is_mXch :: u32

definition config_req_rlc_um ::
  "rlc_um_coll \<Rightarrow> int \<Rightarrow> int \<Rightarrow> frame \<Rightarrow> int \<Rightarrow> int \<Rightarrow> rlc_um_info \<Rightarrow> int \<Rightarrow> rlc_um_coll option" where
  "config_req_rlc_um coll enb_module_idP ue_module_idP frameP eNB_flagP srb_flagP cfg rb_idP =
     (let key = rlc_coll_key enb_module_idP ue_module_idP eNB_flagP rb_idP srb_flagP
      in case coll key of
           None \<Rightarrow> Some coll
         | Some e \<Rightarrow>
             do {
               (ok, e1) \<leftarrow> rlc_um_fsm_notify_event (rlc_um_init e)
                 RLC_UM_RECEIVE_CRLC_CONFIG_REQ_ENTER_DATA_TRANSFER_READY_STATE_EVENT;
               Some (coll(key \<mapsto>
                 if ok then
                   rlc_um_configure (rlc_um_set_debug_infos e1 enb_module_idP ue_module_idP frameP eNB_flagP srb_flagP rb_idP)
                     frameP (umc_timer_reordering cfg) (umc_sn_field_length cfg) (umc_sn_field_length cfg) (umc_is_mXch cfg)
                 else e1))
             })"

definition rlc_coll_key_mbms :: "int \<Rightarrow> int \<Rightarrow> int \<Rightarrow> int \<Rightarrow> int \<Rightarrow> int" where
  "rlc_coll_key_mbms eNB_iD uE_iD iS_eNB sERVICE_ID sESSION_ID =
     ((((eNB_iD OR push_bit 8 uE_iD) OR push_bit 16 iS_eNB) OR push_bit 24 sERVICE_ID) OR push_bit 29 sESSION_ID) OR push_bit 63 1"

definition um_t_Reordering_tab :: "nat list" where
  "um_t_Reordering_tab = [0, 5, 10, 15, 20, 25, 30, 35, 40, 45, 50, 55, 60, 65, 70, 75, 80, 85, 90,
     95, 100, 110, 120, 130, 140, 150, 160, 170, 180, 190, 200]"

text \<open>The enumerators of \<^verbatim>\<open>SN-FieldLength\<close> are 0 (5 bits) and 1 (10 bits); 31 is the first spare one of \<^verbatim>\<open>T-Reordering\<close>.\<close>

definition um_sn_field :: "nat \<Rightarrow> u32 option" where
  "um_sn_field n = (if n = 0 then Some 5 else if n = 1 then Some 10 else None)"

text \<open>The two directions as the request gives them, or \<open>None\<close> when the function returns early.\<close>

definition um_asn1_lengths :: "nat option \<Rightarrow> (nat \<times> nat) option \<Rightarrow> (u32 \<times> u32 \<times> u32) option" where
  "um_asn1_lengths ul dl =
     do {
       ul_sn \<leftarrow> (case ul of None \<Rightarrow> Some 0 | Some n \<Rightarrow> um_sn_field n);
       (dl_sn, t) \<leftarrow> (case dl of None \<Rightarrow> Some (0, 0)
         | Some (n, t) \<Rightarrow>
             do { len \<leftarrow> um_sn_field n;
                  if t < 31 then Some (len, of_nat (um_t_Reordering_tab ! t)) else None });
       Some (ul_sn, dl_sn, t)
     }"

definition config_req_rlc_um_asn1 ::
  "rlc_um_coll \<Rightarrow> int \<Rightarrow> int \<Rightarrow> frame \<Rightarrow> int \<Rightarrow> int \<Rightarrow> int \<Rightarrow> int \<Rightarrow> int \<Rightarrow> nat option \<Rightarrow> (nat \<times> nat) option \<Rightarrow> int \<Rightarrow> rlc_um_coll option" where
  "config_req_rlc_um_asn1 coll enb_module_idP ue_module_idP frameP eNB_flagP srb_flagP mbms_flagP mbms_session_idP mbms_service_idP
     ul_rlc_pP dl_rlc_pP rb_idP =
     do {
       c_assert (mbms_flagP = 0 \<or> dl_rlc_pP \<noteq> None \<and> ul_rlc_pP = None);
       let key = (if mbms_flagP \<noteq> 0 then rlc_coll_key_mbms enb_module_idP ue_module_idP eNB_flagP mbms_service_idP mbms_session_idP
         else rlc_coll_key enb_module_idP ue_module_idP eNB_flagP rb_idP srb_flagP);
       e \<leftarrow> coll key;
       (ok, e1) \<leftarrow> rlc_um_fsm_notify_event (rlc_um_init e) RLC_UM_RECEIVE_CRLC_CONFIG_REQ_ENTER_DATA_TRANSFER_READY_STATE_EVENT;
       if \<not> ok then Some (coll(key \<mapsto> e1))
       else
         do {
           let e2 = rlc_um_set_debug_infos e1 enb_module_idP ue_module_idP frameP eNB_flagP srb_flagP rb_idP;
           Some (coll(key \<mapsto>
             (case um_asn1_lengths ul_rlc_pP dl_rlc_pP of
                None \<Rightarrow> e2
              | Some (ul_sn_FieldLength, dl_sn_FieldLength, t_Reordering) \<Rightarrow>
                  if eNB_flagP > 0
                  then rlc_um_configure e2 frameP t_Reordering ul_sn_FieldLength dl_sn_FieldLength (word_of_int mbms_flagP)
                  else rlc_um_configure e2 frameP t_Reordering dl_sn_FieldLength ul_sn_FieldLength (word_of_int mbms_flagP))))
         }
     }"

end
