(* ===== verification/Rlc_Um_Segment.thy ===== *)
theory Rlc_Um_Segment
  imports Rlc_Um_Control Rlc_Am_Segment
begin

text \<open>
  Segmentation and concatenation in UM: \<^verbatim>\<open>rlc_um_segment_10\<close> and \<^verbatim>\<open>rlc_um_segment_5\<close> of \<^verbatim>\<open>rlc_um_segment.c\<close>. The two functions have
  the same text but for the fixed header (two bytes or one), the smallest grant, and one thing: when the last bytes of the block cannot
  be used, the 5-bit variant takes them off \<^verbatim>\<open>data_pdu_size\<close> and the 10-bit variant does not. The argument \<open>five\<close> tells
  the variants apart. The queue is the list of its blocks; as in AM a new block holds what was there before (\<open>mem\<close>) but for
  its first four bytes, and an access outside a block is \<open>None\<close>, like the assertion that ends the last branch of the second loop.
\<close>

subsection \<open>How many SDUs fit\<close>

record um_test =
  ut_cont :: bool
  ut_num_fill :: int
  ut_num_li :: int
  ut_rem :: int
  ut_li_len :: int
  ut_sub_size :: int
  ut_sub_num :: int
  ut_pdu_rem :: int
  ut_pdu_size :: int

definition um_unused :: "bool \<Rightarrow> int \<Rightarrow> um_test \<Rightarrow> um_test" where
  "um_unused five n t = t\<lparr>ut_pdu_rem := ut_pdu_rem t - n, ut_pdu_size := (if five then ut_pdu_size t - n else ut_pdu_size t)\<rparr>"

definition um_test_step :: "bool \<Rightarrow> int \<Rightarrow> um_test \<Rightarrow> um_test" where
  "um_test_step five sz t =
     (let li = ut_li_len t XOR 3;
          stop = t\<lparr>ut_cont := False, ut_num_fill := ut_num_fill t + 1, ut_rem := 0, ut_sub_size := 0, ut_sub_num := 0\<rparr>
      in if sz > ut_rem t then stop
         else if sz = ut_rem t then stop
         else if sz + li = ut_rem t then um_unused five li stop
         else if sz + li < ut_rem t then
           t\<lparr>ut_num_li := ut_num_li t + 1, ut_num_fill := ut_num_fill t + 1, ut_rem := ut_rem t - (sz + li),
             ut_sub_size := li, ut_sub_num := 1, ut_li_len := li\<rparr>
         else um_unused five 1 stop)"

fun um_test_loop :: "bool \<Rightarrow> rlc_um_tx_sdu_management list \<Rightarrow> um_test \<Rightarrow> um_test" where
  "um_test_loop five [] t = t"
| "um_test_loop five (s # ss) t = (if ut_cont t then um_test_loop five ss (um_test_step five (ums_remaining_size s) t) else t)"

subsection \<open>Filling the PDU\<close>

definition um_copy :: "rlc_um_tx_sdu_management \<Rightarrow> int \<Rightarrow> seg_fill \<Rightarrow> seg_fill option" where
  "um_copy s n g =
     do {
       c_assert (0 \<le> n \<and> 0 \<le> ums_segmented_size s \<and> ums_segmented_size s + n \<le> int (length (ums_data s)));
       buf \<leftarrow> mem_write (sf_data g) (take (nat n) (drop (nat (ums_segmented_size s)) (ums_data s))) (sf_buf g);
       Some (g\<lparr>sf_buf := buf\<rparr>)
     }"

text \<open>The head of the queue \<open>s\<close> leaves it, with its \<open>sz\<close> remaining bytes in the PDU.\<close>

definition um_sdu_done :: "int \<Rightarrow> rlc_um_entity \<Rightarrow> rlc_um_entity" where
  "um_sdu_done sz e = e\<lparr>um_buffer_occupancy := um_buffer_occupancy e - sz, um_input_sdus := tl (um_input_sdus e)\<rparr>"

definition um_fill_step :: "int \<Rightarrow> rlc_um_tx_sdu_management \<Rightarrow> seg_fill \<Rightarrow> rlc_um_entity \<Rightarrow> (seg_fill \<times> rlc_um_entity) option" where
  "um_fill_step test_num_li s g e =
     (let sz = ums_remaining_size s; n = sf_pdu_rem g; li = sf_li_len g XOR 3
      in if sz > n then
           do {
             g1 \<leftarrow> um_copy s n g;
             Some (g1\<lparr>sf_last := False, sf_cont := False, sf_pdu_rem := 0\<rparr>,
               e\<lparr>um_input_sdus := s\<lparr>ums_remaining_size := sz - n, ums_segmented_size := ums_segmented_size s + n\<rparr> # tl (um_input_sdus e),
                 um_buffer_occupancy := um_buffer_occupancy e - n\<rparr>)
           }
         else if sz = n then
           do {
             g1 \<leftarrow> um_copy s n g;
             Some (g1\<lparr>sf_last := True, sf_cont := False, sf_pdu_rem := 0\<rparr>, um_sdu_done sz e)
           }
         else if sz + li < n then
           do {
             g1 \<leftarrow> um_copy s sz g;
             let g2 = g1\<lparr>sf_data := sf_data g1 + sz, sf_li_len := li, sf_num_li := sf_num_li g1 + 1\<rparr>;
             g3 \<leftarrow> seg_write_li (sf_num_li g2 \<noteq> test_num_li) sz g2;
             Some (g3\<lparr>sf_pdu_rem := n - (sz + li)\<rparr>, um_sdu_done sz e)
           }
         else None)"

fun um_fill_loop :: "int \<Rightarrow> rlc_um_tx_sdu_management list \<Rightarrow> seg_fill \<Rightarrow> rlc_um_entity \<Rightarrow> (seg_fill \<times> rlc_um_entity) option" where
  "um_fill_loop test_num_li [] g e = Some (g, e)"
| "um_fill_loop test_num_li (s # ss) g e =
     (if sf_cont g then do { (g1, e1) \<leftarrow> um_fill_step test_num_li s g e; um_fill_loop test_num_li ss g1 e1 } else Some (g, e))"

subsection \<open>One PDU\<close>

text \<open>The size of the block: the whole queue with its header if the grant allows it, in unsigned arithmetic.\<close>

definition um_segment_size :: "rlc_um_entity \<Rightarrow> int" where
  "um_segment_size e =
     (let need = word_of_int (um_buffer_occupancy e + tx_header_min_length_in_bytes e + max_li_overhead (int (length (um_input_sdus e)))) :: u32
      in if need \<le> word_of_int (um_nb_bytes_requested_by_mac e) then uint need else um_nb_bytes_requested_by_mac e)"

definition um_fixed_header :: "bool \<Rightarrow> int \<Rightarrow> bool \<Rightarrow> int \<Rightarrow> byte list" where
  "um_fixed_header five fi has_li sn =
     (if five then
        let b1 = push_bit 6 (word_of_int fi); b1 = (if has_li then b1 OR 0x20 else b1)
        in [b1 OR word_of_int (sn AND 0x1F)]
      else
        let b1 = push_bit 3 (word_of_int fi); b1 = (if has_li then b1 OR 0x04 else b1)
        in [b1 OR word_of_int (drop_bit 8 sn AND 0x03), word_of_int (sn AND 0xFF)])"

definition um_segment_finish :: "bool \<Rightarrow> int \<Rightarrow> bool \<Rightarrow> seg_fill \<Rightarrow> rlc_um_entity \<Rightarrow> rlc_um_entity option" where
  "um_segment_finish five data_pdu_size first g e =
     do {
       let fi = (if first then 0 else 2) + (if sf_last g then 0 else 1);
       let hd = um_fixed_header five fi (sf_num_li g > 0) (vt_us e);
       let sz = data_pdu_size - sf_pdu_rem g;
       c_assert (sz > 0);
       Some (e\<lparr>vt_us := to_uint16 (vt_us e + 1),
         um_pdus_to_mac_layer := um_pdus_to_mac_layer e @ [\<lparr>tb_size = sz, tb_data = hd @ drop (length hd) (sf_buf g)\<rparr>]\<rparr>)
     }"

definition um_segment_pdu :: "bool \<Rightarrow> (nat \<Rightarrow> byte) \<Rightarrow> rlc_um_tx_sdu_management \<Rightarrow> rlc_um_entity \<Rightarrow> rlc_um_entity option" where
  "um_segment_pdu five mem s e =
     do {
       let hl = (if five then 1 else 2);
       let data_pdu_size = um_segment_size e;
       let rem = data_pdu_size - hl;
       let t = um_test_loop five (um_input_sdus e) \<lparr>ut_cont = True, ut_num_fill = 0, ut_num_li = 0, ut_rem = rem, ut_li_len = 1,
         ut_sub_size = 0, ut_sub_num = 0, ut_pdu_rem = rem, ut_pdu_size = data_pdu_size\<rparr>;
       let test_num_li = (if ut_sub_num t > 0 then ut_num_li t - 1 else ut_num_li t);
       let pdu_rem = (if ut_sub_num t > 0 then ut_pdu_rem t - ut_sub_size t else ut_pdu_rem t);
       let data = hl + (test_num_li * 3 + 1) div 2;
       let first = (ums_remaining_size s = ums_size s);
       (g, e1) \<leftarrow> um_fill_loop test_num_li (um_input_sdus e) \<lparr>sf_cont = True, sf_data = data, sf_e_li = hl, sf_li_len = 1,
         sf_num_li = 0, sf_last = False, sf_pdu_rem = pdu_rem, sf_buf = new_block mem data_pdu_size\<rparr> e;
       um_segment_finish five (ut_pdu_size t) first g e1
     }"

definition rlc_um_segment_10 :: "(nat \<Rightarrow> byte) \<Rightarrow> rlc_um_entity \<Rightarrow> rlc_um_entity option" where
  "rlc_um_segment_10 mem e =
     (if um_nb_bytes_requested_by_mac e < 3 then Some e
      else case um_input_sdus e of [] \<Rightarrow> Some e | s # ss \<Rightarrow> um_segment_pdu False mem s e)"

definition rlc_um_segment_5 :: "(nat \<Rightarrow> byte) \<Rightarrow> rlc_um_entity \<Rightarrow> rlc_um_entity option" where
  "rlc_um_segment_5 mem e =
     (if um_nb_bytes_requested_by_mac e < 2 then Some e
      else case um_input_sdus e of [] \<Rightarrow> Some e | s # ss \<Rightarrow> um_segment_pdu True mem s e)"

end
