(* ===== verification/Rlc_Um_Entity.thy ===== *)
theory Rlc_Um_Entity
  imports Rlc_Um_Segment
begin

text \<open>
  The interface of a UM entity to PDCP and MAC: \<^verbatim>\<open>rlc_um.c\<close>. Transport blocks handed over by MAC are freed when the entity
  is not ready for data. The pointer to the entity is never null.
\<close>

text \<open>\<^verbatim>\<open>rlc_um_stat_req\<close> copies the seventeen counters.\<close>

definition rlc_um_stat_req :: "rlc_um_entity \<Rightarrow> u32 list" where
  "rlc_um_stat_req e = (let s = um_stats e in
     [us_tx_pdcp_sdu s, us_tx_pdcp_bytes s, us_tx_pdcp_sdu_discarded s, us_tx_pdcp_bytes_discarded s, us_tx_data_pdu s, us_tx_data_bytes s,
      us_rx_pdcp_sdu s, us_rx_pdcp_bytes s, us_rx_data_pdus_duplicate s, us_rx_data_bytes_duplicate s, us_rx_data_pdu s, us_rx_data_bytes s,
      us_rx_data_pdu_dropped s, us_rx_data_bytes_dropped s, us_rx_data_pdu_out_of_window s, us_rx_data_bytes_out_of_window s,
      us_timer_reordering_timed_out s])"

definition rlc_um_get_buffer_occupancy :: "rlc_um_entity \<Rightarrow> u32" where
  "rlc_um_get_buffer_occupancy e = (if um_buffer_occupancy e > 0 then word_of_int (um_buffer_occupancy e) else 0)"

subsection \<open>Transmission\<close>

text \<open>The SDU of PDCP: the length it gives and the bytes behind the management structure in the block.\<close>

record um_data_req =
  udr_data_size :: int
  udr_bytes :: "byte list"

definition rlc_um_data_req :: "rlc_um_entity \<Rightarrow> frame \<Rightarrow> um_data_req \<Rightarrow> rlc_um_entity" where
  "rlc_um_data_req e frameP sdu =
     (let n = udr_data_size sdu;
          s = \<lparr>ums_data = udr_bytes sdu, ums_creation_time = frameP, ums_remaining_size = n, ums_segmented_size = 0, ums_size = n\<rparr>
      in e\<lparr>um_stats := (um_stats e)\<lparr>us_tx_pdcp_sdu := us_tx_pdcp_sdu (um_stats e) + 1,
             us_tx_pdcp_bytes := us_tx_pdcp_bytes (um_stats e) + word_of_int n\<rparr>,
           um_buffer_occupancy := um_buffer_occupancy e + n, um_input_sdus := um_input_sdus e @ [s]\<rparr>)"

definition rlc_um_get_pdus :: "(nat \<Rightarrow> byte) \<Rightarrow> rlc_um_entity \<Rightarrow> frame \<Rightarrow> rlc_um_entity option" where
  "rlc_um_get_pdus mem e frameP =
     (if um_protocol_state e = RLC_DATA_TRANSFER_READY_STATE then
        do {
          e1 \<leftarrow> (if tx_sn_length e = 10 then rlc_um_segment_10 mem e else Some e);
          if tx_sn_length e1 = 5 then rlc_um_segment_5 mem e1 else Some e1
        }
      else Some e)"

text \<open>The statistics of the transport blocks handed over; their size is read into an \<^verbatim>\<open>int16_t\<close>.\<close>

fun um_count_tbs :: "mac_tb_req list \<Rightarrow> rlc_um_entity \<Rightarrow> rlc_um_entity option" where
  "um_count_tbs [] e = Some e"
| "um_count_tbs (tb # tbs) e =
     do {
       let n = to_int16 (tb_size tb);
       c_assert (n > 0);
       um_count_tbs tbs (e\<lparr>um_stats := (um_stats e)\<lparr>us_tx_data_pdu := us_tx_data_pdu (um_stats e) + 1,
         us_tx_data_bytes := us_tx_data_bytes (um_stats e) + word_of_int n\<rparr>\<rparr>)
     }"

definition rlc_um_mac_data_request :: "(nat \<Rightarrow> byte) \<Rightarrow> rlc_um_entity \<Rightarrow> frame \<Rightarrow> (mac_data_req \<times> rlc_um_entity) option" where
  "rlc_um_mac_data_request mem e frameP =
     do {
       e1 \<leftarrow> rlc_um_get_pdus mem e frameP;
       let e2 = e1\<lparr>um_pdus_to_mac_layer := []\<rparr>;
       let occ = rlc_um_get_buffer_occupancy e2;
       e3 \<leftarrow> um_count_tbs (um_pdus_to_mac_layer e1) e2;
       Some (\<lparr>md_data = um_pdus_to_mac_layer e1,
         md_buffer_occupancy_in_bytes = (if occ > 0 then occ + word_of_int (tx_header_min_length_in_bytes e2) else occ),
         md_rlc_protocol_state = um_protocol_state e2\<rparr>, e3)
     }"

subsection \<open>Reception\<close>

definition rlc_um_rx :: "rlc_um_entity \<Rightarrow> frame \<Rightarrow> mac_tb_ind list \<Rightarrow> rlc_um_entity option" where
  "rlc_um_rx e frameP data_indP =
     (if um_protocol_state e = RLC_DATA_TRANSFER_READY_STATE then rlc_um_receive e frameP data_indP else Some e)"

definition rlc_um_mac_data_indication :: "rlc_um_entity \<Rightarrow> frame \<Rightarrow> mac_tb_ind list \<Rightarrow> rlc_um_entity option" where
  "rlc_um_mac_data_indication e frameP data_indP =
     do { e1 \<leftarrow> rlc_um_rx e frameP data_indP; rlc_um_check_timer_dar_time_out e1 frameP }"

definition rlc_um_mac_status_indication :: "rlc_um_entity \<Rightarrow> frame \<Rightarrow> int \<Rightarrow> (mac_status_resp \<times> rlc_um_entity) option" where
  "rlc_um_mac_status_indication e frameP tbs_sizeP =
     do {
       e1 \<leftarrow> rlc_um_check_timer_dar_time_out e frameP;
       let e2 = e1\<lparr>um_nb_bytes_requested_by_mac := to_uint16 tbs_sizeP\<rparr>;
       let occ = rlc_um_get_buffer_occupancy e2;
       let resp = \<lparr>sr_buffer_occupancy_in_bytes = occ, sr_buffer_occupancy_in_pdus = 0, sr_head_sdu_creation_time = 0,
         sr_head_sdu_remaining_size_to_send = 0, sr_head_sdu_is_segmented = False, sr_rlc_protocol_state = um_protocol_state e2\<rparr>;
       Some (if occ > 0 then
           (case um_input_sdus e2 of [] \<Rightarrow> resp
            | s # ss \<Rightarrow>
                let diff = frameP - ums_creation_time s
                in resp\<lparr>sr_buffer_occupancy_in_bytes := occ + word_of_int (tx_header_min_length_in_bytes e2),
                     sr_buffer_occupancy_in_pdus := word_of_int (int (length (um_input_sdus e2))),
                     sr_head_sdu_creation_time := (if 0 <s diff then diff else 0xFFFFFFFF - diff + frameP),
                     sr_head_sdu_remaining_size_to_send := word_of_int (ums_remaining_size s),
                     sr_head_sdu_is_segmented := (ums_size s \<noteq> ums_remaining_size s)\<rparr>)
         else resp, e2)
     }"

end
