(* ===== verification/Rlc_Um_Delivery.thy ===== *)
theory Rlc_Um_Delivery
  imports Rlc_Um_Entity Rlc_Am_Segmentation "HOL-Library.Sublist"
begin

text \<open>
  What a UM receiver delivers when PDUs are lost, repeated or arrive out of order. The receiver implements an abstract machine over
  unbounded numbers (\<open>um_spec\<close>), and what it delivers is a subsequence of the SDUs that the PDUs carry.
\<close>

subsection \<open>The SDUs that the PDUs carry\<close>

definition um_sent :: "(int \<Rightarrow> um_frame) \<Rightarrow> int \<Rightarrow> byte list list \<times> byte list" where
  "um_sent fs p = sdus_of [] (concat (map (\<lambda>k. um_pieces (fs k)) [0..p - 1]))"

text \<open>A PDU starts with a new SDU only where the one before ends one.\<close>

definition um_joined :: "(int \<Rightarrow> um_frame) \<Rightarrow> int \<Rightarrow> bool" where
  "um_joined fs p \<longleftrightarrow> (\<forall>k. 0 \<le> k \<and> k + 1 < p \<longrightarrow> um_starts (fs (k + 1)) \<longrightarrow> um_ends (fs k))"

lemma um_sent_0 [simp]: "um_sent fs 0 = ([], [])"
  by (simp add: um_sent_def)

lemma um_sent_next:
  "0 \<le> p \<Longrightarrow> um_sent fs (p + 1) = (case um_sent fs p of (ds, r) \<Rightarrow> case sdus_of r (um_pieces (fs p)) of (ds', r') \<Rightarrow> (ds @ ds', r'))"
  by (simp add: um_sent_def upto_rec2 sdus_of_append split: prod.splits)

lemma sdus_of_cut_end: "sdus_of acc (cut ls bs True) = (ds, r) \<Longrightarrow> r = []"
  by (induction ls arbitrary: acc bs ds) (auto split: prod.splits)

lemma um_sent_ends:
  assumes "0 < p" "um_ends (fs (p - 1))" "um_sent fs p = (ds, r)"
  shows "r = []"
  using assms um_sent_next[of "p - 1" fs] by (auto simp: um_pieces_def dest: sdus_of_cut_end split: prod.splits)

lemma um_sent_fresh:
  assumes "0 \<le> p" "um_joined fs (p + 1)" "um_starts (fs p)" "um_sent fs p = (S, r)"
  shows "r = []"
proof (cases "p = 0")
  case False
  then have "0 \<le> p - 1 \<and> p - 1 + 1 < p + 1" using assms(1) by simp
  then have "um_starts (fs (p - 1 + 1)) \<longrightarrow> um_ends (fs (p - 1))" using assms(2) unfolding um_joined_def by blast
  then show ?thesis using um_sent_ends[of p fs] assms False by simp
qed (use assms(4) in simp)

lemma cut_first:
  obtains b ps where "cut ls bs fin = (b, True) # ps" "ps \<noteq> []" | "cut ls bs fin = [(bs, fin)]"
  by (cases ls) (auto simp: cut_ne)

text \<open>The SDUs delivered are a subsequence of those sent; without a loss in sight the SDU in construction is the one being sent.\<close>

lemma um_stream_subseq:
  assumes "0 \<le> p" "um_joined fs p" "um_stream fs have p = (ds, acc, m)" "um_sent fs p = (S, r)"
  shows "subseq ds S \<and> (\<not> m \<longrightarrow> acc = r)"
  using assms
proof (induction p arbitrary: ds acc m S r rule: int_ge_induct)
  case base
  then show ?case by simp
next
  case (step p)
  obtain ds0 acc0 m0 where st: "um_stream fs have p = (ds0, acc0, m0)" by (metis prod_cases3)
  obtain S0 r0 where se: "um_sent fs p = (S0, r0)" by fastforce
  have "um_joined fs p" using step.prems(1) by (auto simp: um_joined_def)
  from step.IH[OF this st se] have IH: "subseq ds0 S0" "\<not> m0 \<Longrightarrow> acc0 = r0" by auto
  obtain S1 where s1: "sdus_of r0 (um_pieces (fs p)) = (S1, r)" "S = S0 @ S1"
    using step.prems(3) um_sent_next[OF step.hyps, of fs] se by (auto split: prod.splits)
  have nx: "um_step_sdus fs have p (ds0, acc0, m0) = (ds, acc, m)"
    using step.prems(2) um_stream_next[OF step.hyps, of fs "have"] st by simp
  note fresh = um_sent_fresh[OF step.hyps step.prems(1) _ se]
  show ?case
  proof (cases "p \<in> have")
    case False
    then show ?thesis using nx IH(1) s1(2) by (auto simp: um_step_sdus_def)
  next
    case True
    obtain ds1 where d: "um_pdu_sdus acc0 m0 (fs p) = (ds1, acc, m)" "ds = ds0 @ ds1"
      using nx True by (auto simp: um_step_sdus_def split: prod.splits)
    have "subseq ds1 S1 \<and> (\<not> m \<longrightarrow> acc = r)"
    proof (cases "um_starts (fs p) \<or> \<not> m0")
      case True
      then show ?thesis using d(1) s1(1) fresh IH(2) by (auto simp: um_pdu_sdus_def Let_def split: if_splits prod.splits)
    next
      case False
      have lost: "(case sdus_of [] (tl (um_pieces (fs p))) of (ds, r) \<Rightarrow> (ds, r, \<not> snd (hd (um_pieces (fs p))))) = (ds1, acc, m)"
        using d(1) False by (simp add: um_pdu_sdus_def Let_def)
      consider b ps where "um_pieces (fs p) = (b, True) # ps" | "um_pieces (fs p) = [(uf_payload (fs p), um_ends (fs p))]"
        unfolding um_pieces_def by (cases rule: cut_first[of "uf_lis (fs p)" "uf_payload (fs p)" "um_ends (fs p)"]) auto
      then show ?thesis
        using lost s1(1) by cases (auto split: prod.splits if_splits)
    qed
    then show ?thesis using IH(1) d(2) s1(2) by (auto intro: list_emb_append_mono)
  qed
qed

text \<open>With every PDU received everything is delivered.\<close>

lemma um_stream_complete:
  assumes "0 \<le> p" "um_joined fs p" "{0..<p} \<subseteq> have"
  shows "um_stream fs have p = (fst (um_sent fs p), snd (um_sent fs p), False)"
  using assms
proof (induction p rule: int_ge_induct)
  case (step p)
  have IH: "um_stream fs have p = (fst (um_sent fs p), snd (um_sent fs p), False)"
    by (rule step.IH) (use step.prems in \<open>auto simp: um_joined_def\<close>)
  obtain S0 r0 where se: "um_sent fs p = (S0, r0)" by fastforce
  note fresh = um_sent_fresh[OF step.hyps step.prems(1) _ se]
  have "p \<in> have" using step.prems(2) step.hyps by auto
  then show ?case using fresh unfolding um_stream_next[OF step.hyps] um_sent_next[OF step.hyps] IH se
    by (auto simp: um_step_sdus_def um_pdu_sdus_def Let_def split: prod.splits)
qed simp

subsection \<open>The size of the SDUs\<close>

definition um_fits :: "bool \<Rightarrow> (int \<Rightarrow> um_frame) \<Rightarrow> int \<Rightarrow> bool" where
  "um_fits dp fs p \<longleftrightarrow> (\<forall>d\<in>set (fst (um_sent fs p) @ [snd (um_sent fs p)]). int (length d) \<le> um_limit dp)"

lemma um_fits_before:
  assumes "0 \<le> p" "um_fits dp fs (p + 1)"
  shows "um_fits dp fs p"
proof -
  obtain S r S' r' where s: "um_sent fs p = (S, r)" "sdus_of r (um_pieces (fs p)) = (S', r')" by fastforce
  have n: "um_sent fs (p + 1) = (S @ S', r')" using um_sent_next[OF assms(1), of fs] s by simp
  from sdus_of_grows[OF s(2)] obtain d where "d \<in> set (S' @ [r'])" "length r \<le> length d" by blast
  moreover have "int (length d) \<le> um_limit dp" using calculation(1) assms(2) unfolding um_fits_def n by auto
  ultimately show ?thesis using assms(2) unfolding um_fits_def n s(1) by auto
qed

lemma um_fits_less: "0 \<le> p \<Longrightarrow> p \<le> q \<Longrightarrow> um_fits dp fs q \<Longrightarrow> um_fits dp fs p"
proof (induction "nat (q - p)" arbitrary: q)
  case (Suc n)
  then have "um_fits dp fs (q - 1)" using um_fits_before[of "q - 1" dp fs] by simp
  then show ?case using Suc.hyps(1)[of "q - 1"] Suc.hyps(2) Suc.prems by simp
qed simp

lemma um_small_subseq:
  assumes "0 \<le> p" "um_joined fs p" "um_fits dp fs p"
  shows "um_small dp fs have p"
proof -
  obtain ds acc m where st: "um_stream fs have p = (ds, acc, m)" by (metis prod_cases3)
  obtain S r where se: "um_sent fs p = (S, r)" by fastforce
  note sub = um_stream_subseq[OF assms(1,2) st se]
  have "set ds \<subseteq> set S" using sub by (auto dest: list_emb_set)
  moreover have "acc = r \<or> acc = []" using sub um_stream_missing(1)[OF assms(1) st] by blast
  ultimately show ?thesis using assms(3) unfolding um_small_def um_fits_def st se by (auto simp: um_limit_def)
qed

text \<open>The PDUs with numbers below \<open>p\<close> are what a sender may send.\<close>

definition um_sound :: "bool \<Rightarrow> (int \<Rightarrow> um_frame) \<Rightarrow> int \<Rightarrow> bool" where
  "um_sound dp fs p \<longleftrightarrow> um_joined fs p \<and> um_fits dp fs p \<and> (\<forall>k. 0 \<le> k \<and> k < p \<longrightarrow> um_framed (fs k) \<and> length (uf_payload (fs k)) < 65000)"

lemma um_sound_good:
  assumes "um_sound dp fs q" "have \<subseteq> {0..<q}" "p \<le> q"
  shows "um_good dp fs have p"
  unfolding um_good_def
proof (intro conjI ballI allI impI)
  show "um_framed (fs k)" if "k \<in> have" for k using assms(1,2) that by (auto simp: um_sound_def)
  show "um_small dp fs have k" if "0 \<le> k \<and> k \<le> p" for k
  proof (rule um_small_subseq)
    show "um_joined fs k" using assms(1,3) that by (auto simp: um_sound_def um_joined_def)
    show "um_fits dp fs k" using assms(1,3) that um_fits_less[of k q] by (auto simp: um_sound_def)
  qed (use that in simp)
qed

subsection \<open>The abstract machine\<close>

text \<open>
  The state is VR(UR), VR(UH) and the set of the numbers received in time. A PDU arrives, or the timer expires and the receiver gives up
  on the numbers below some \<open>ux\<close>.
\<close>

inductive um_spec :: "int \<Rightarrow> int \<times> int \<times> int set \<Rightarrow> int \<times> int \<times> int set \<Rightarrow> bool" for W :: int where
  arrive: "uh - W \<le> n \<Longrightarrow> n < uh + W \<Longrightarrow> um_spec W (ur, uh, have) (um_arrive W n (ur, uh, have))"
| expire: "ur \<le> ux \<Longrightarrow> ux \<le> uh \<Longrightarrow> um_spec W (ur, uh, have) (first_missing have uh ux, uh, have)"

text \<open>A state of the entity for a state of the machine.\<close>

definition um_impl :: "bool \<Rightarrow> (int \<Rightarrow> um_frame) \<Rightarrow> int \<times> int \<times> int set \<Rightarrow> rlc_um_entity \<Rightarrow> bool" where
  "um_impl dp fs s e \<longleftrightarrow> (case s of (ur, uh, have) \<Rightarrow> um_inv dp fs ur uh have e) \<and> um_protocol_state e = RLC_DATA_TRANSFER_READY_STATE"

lemma um_impl_grant [simp]: "um_impl dp fs s (e\<lparr>um_nb_bytes_requested_by_mac := x\<rparr>) = um_impl dp fs s e"
proof -
  have "um_sdu_ok dp (e\<lparr>um_nb_bytes_requested_by_mac := x\<rparr>) = um_sdu_ok dp e" "um_acc (e\<lparr>um_nb_bytes_requested_by_mac := x\<rparr>) = um_acc e"
    by (simp_all add: um_sdu_ok_def um_acc_def split: option.splits)
  then show ?thesis by (simp add: um_impl_def um_inv_def um_at_def um_rx_cfg_def um_block_def um_ux_ok_def)
qed

lemma um_arrive_range:
  assumes "um_arrive W n (ur, uh, have) = (ur', uh', have')" "0 \<le> n" "n < N" "uh \<le> N" "have \<subseteq> {0..<N}"
  shows "uh' \<le> N" "have' \<subseteq> {0..<N}" "ur \<le> uh \<Longrightarrow> uh' = max uh (n + 1)"
  using assms by (auto simp: um_arrive_def Let_def split: if_splits)

subsection \<open>The receiver implements it\<close>

lemma um_pdu_length:
  assumes "um_framed f" "length (uf_payload f) < 65000"
  shows "0 < length (um_pdu_bytes len sn f)" "int (length (um_pdu_bytes len sn f)) < 65536"
proof -
  have "length (um_header len sn f) = (if len = 10 then 2 else 1)" by (simp add: um_header_def)
  moreover have "int (length (li_bytes (uf_lis f))) = (int (length (uf_lis f)) * 3 + 1) div 2" using length_li_part[of False "uf_lis f"] by (simp add: li_part_all)
  moreover have "length (uf_lis f) < 24" using assms(1) by (simp add: um_framed_def)
  ultimately show "0 < length (um_pdu_bytes len sn f)" "int (length (um_pdu_bytes len sn f)) < 65536"
    using assms(2) by (auto simp: um_pdu_bytes_def split: if_splits)
qed

lemma um_receive_tb_run:
  assumes "um_impl dp fs (ur, uh, have) e" "um_sound dp fs N" "have \<subseteq> {0..<N}" "uh \<le> N" "0 \<le> n" "n < N"
    "uh - rx_um_window_size e \<le> n" "n < uh + rx_um_window_size e"
  shows "\<exists>e'. um_receive_tb f (um_block e fs n) e = Some e' \<and> um_impl dp fs (um_arrive (rx_um_window_size e) n (ur, uh, have)) e' \<and>
    rx_um_window_size e' = rx_um_window_size e \<and> um_block e' = um_block e"
proof -
  let ?W = "rx_um_window_size e"
  have i: "um_inv dp fs ur uh have e" "um_protocol_state e = RLC_DATA_TRANSFER_READY_STATE" using assms(1) by (simp_all add: um_impl_def)
  have fr: "um_framed (fs n)" "length (uf_payload (fs n)) < 65000" using assms(2,5,6) by (auto simp: um_sound_def)
  define len where "len = int (length (um_pdu_bytes (rx_sn_length e) (n mod rx_sn_modulo e) (fs n)))"
  have len: "0 < len" "len < 65536" using um_pdu_length[OF fr] by (auto simp: len_def)
  then have sz: "to_uint16 (ti_size (um_block e fs n)) = len" by (simp add: um_block_def um_tb_def to_uint16_def len_def)
  define e1 where "e1 = e\<lparr>um_stats := (um_stats e)\<lparr>us_rx_data_bytes := us_rx_data_bytes (um_stats e) + word_of_int len,
    us_rx_data_pdu := us_rx_data_pdu (um_stats e) + 1\<rparr>\<rparr>"
  have e1: "um_inv dp fs ur uh have e1" "rx_um_window_size e1 = ?W" "um_block e1 = um_block e" "um_protocol_state e1 = um_protocol_state e"
    using i(1) by (simp_all add: e1_def um_block_def fun_eq_iff)
  obtain ur' uh' have' where a: "um_arrive ?W n (ur, uh, have) = (ur', uh', have')" by (metis prod_cases3)
  have g: "um_good dp fs (insert n have) (max uh (n + 1))" by (rule um_sound_good[OF assms(2)]) (use assms in auto)
  obtain e' where e': "rlc_um_receive_process_dar e1 f (um_block e1 fs n) len = Some e'" "um_inv dp fs ur' uh' have' e'"
    "rx_um_window_size e' = ?W" "um_protocol_state e' = um_protocol_state e"
    using um_process_dar_run[OF e1(1), of n ur' uh' have' f len] e1(2,4) assms(7,8) g a by auto
  have "um_rx_cfg e" "um_rx_cfg e'" using um_invD(8)[OF i(1)] um_invD(8)[OF e'(2)] .
  then have "rx_sn_length e' = rx_sn_length e" "rx_sn_modulo e' = rx_sn_modulo e" using e'(3) by (auto simp: um_rx_cfg_def)
  then have "um_block e' = um_block e" by (simp add: um_block_def fun_eq_iff)
  moreover have "um_receive_tb f (um_block e fs n) e = Some e'"
    using e'(1) len sz unfolding um_receive_tb_def e1(3) by (simp add: Let_def e1_def)
  ultimately show ?thesis using e' i(2) a by (simp add: um_impl_def)
qed

text \<open>Arrivals within the window around the highest number so far.\<close>

fun um_within :: "int \<Rightarrow> int \<Rightarrow> int list \<Rightarrow> bool" where
  "um_within W uh [] = True"
| "um_within W uh (n # ns) = (0 \<le> n \<and> uh - W \<le> n \<and> n < uh + W \<and> um_within W (max uh (n + 1)) ns)"

lemma um_receive_run:
  assumes "um_impl dp fs s e" "um_sound dp fs N" "s = (ur, uh, have)" "have \<subseteq> {0..<N}" "uh \<le> N"
    "um_within (rx_um_window_size e) uh ns" "\<forall>n\<in>set ns. n < N"
  shows "\<exists>e' s'. rlc_um_receive e f (map (um_block e fs) ns) = Some e' \<and> (um_spec (rx_um_window_size e))\<^sup>*\<^sup>* s s' \<and> um_impl dp fs s' e' \<and>
    rx_um_window_size e' = rx_um_window_size e \<and> um_block e' = um_block e \<and> snd (snd s') \<subseteq> {0..<N} \<and> fst (snd s') = fold (\<lambda>n h. max h (n + 1)) ns uh \<and> fst (snd s') \<le> N"
  using assms
proof (induction ns arbitrary: e s ur uh "have")
  case Nil
  then show ?case by auto
next
  case (Cons n ns)
  let ?W = "rx_um_window_size e"
  have n: "0 \<le> n" "n < N" "uh - ?W \<le> n" "n < uh + ?W" using Cons.prems(6,7) by auto
  obtain e1 where e1: "um_receive_tb f (um_block e fs n) e = Some e1" "um_impl dp fs (um_arrive ?W n (ur, uh, have)) e1"
    "rx_um_window_size e1 = ?W" "um_block e1 = um_block e"
    using um_receive_tb_run[OF Cons.prems(1)[unfolded Cons.prems(3)] Cons.prems(2,4,5) n] by blast
  obtain ur' uh' have' where a: "um_arrive ?W n (ur, uh, have) = (ur', uh', have')" by (metis prod_cases3)
  have "um_inv dp fs ur uh have e" using Cons.prems(1,3) by (simp add: um_impl_def)
  then have "ur \<le> uh" by (rule um_invD)
  then have r: "uh' \<le> N" "have' \<subseteq> {0..<N}" "uh' = max uh (n + 1)"
    using um_arrive_range[OF a n(1,2) Cons.prems(5,4)] by auto
  obtain e' s' where e': "rlc_um_receive e1 f (map (um_block e1 fs) ns) = Some e'" "(um_spec (rx_um_window_size e1))\<^sup>*\<^sup>* (ur', uh', have') s'"
    "um_impl dp fs s' e'" "rx_um_window_size e' = rx_um_window_size e1" "um_block e' = um_block e1" "snd (snd s') \<subseteq> {0..<N}"
    "fst (snd s') = fold (\<lambda>n h. max h (n + 1)) ns uh'" "fst (snd s') \<le> N"
    using Cons.IH[OF e1(2)[unfolded a] Cons.prems(2) refl r(2,1)] Cons.prems(6,7) e1(3) r(3) by auto
  have "um_spec ?W s (ur', uh', have')" unfolding Cons.prems(3) a[symmetric] by (rule um_spec.arrive[OF n(3,4)])
  then have "(um_spec ?W)\<^sup>*\<^sup>* s s'" using e'(2) e1(3) by (simp add: converse_rtranclp_into_rtranclp)
  then show ?case using e1(1,3,4) e' r(3) by (intro exI[of _ e'] exI[of _ s']) simp
qed

subsection \<open>Runs of the receiver\<close>

text \<open>MAC hands over the PDUs with the given numbers (\<open>blk\<close> is the transport block of a number), or asks for the status.\<close>

datatype um_event = Um_data frame "int list" | Um_status frame int

fun um_rx_run :: "(int \<Rightarrow> mac_tb_ind) \<Rightarrow> um_event list \<Rightarrow> rlc_um_entity \<Rightarrow> rlc_um_entity option" where
  "um_rx_run blk [] e = Some e"
| "um_rx_run blk (Um_data f ns # es) e = do { e1 \<leftarrow> rlc_um_mac_data_indication e f (map blk ns); um_rx_run blk es e1 }"
| "um_rx_run blk (Um_status f n # es) e = do { (resp, e1) \<leftarrow> rlc_um_mac_status_indication e f n; um_rx_run blk es e1 }"

fun um_arrived :: "um_event list \<Rightarrow> int list" where
  "um_arrived [] = []"
| "um_arrived (Um_data f ns # es) = ns @ um_arrived es"
| "um_arrived (Um_status f n # es) = um_arrived es"

lemma um_within_append: "um_within W uh (xs @ ys) \<longleftrightarrow> um_within W uh xs \<and> um_within W (fold (\<lambda>n h. max h (n + 1)) xs uh) ys"
  by (induction xs arbitrary: uh) auto

lemma um_block_cfg: "um_rx_cfg e \<Longrightarrow> um_rx_cfg e' \<Longrightarrow> rx_um_window_size e' = rx_um_window_size e \<Longrightarrow> um_block e' = um_block e"
  by (auto simp: um_rx_cfg_def um_block_def fun_eq_iff)

lemma um_impl_block:
  assumes "um_impl dp fs s e'" "um_impl dp fs s0 e" "rx_um_window_size e' = rx_um_window_size e"
  shows "um_block e' = um_block e"
proof (rule um_block_cfg)
  show "um_rx_cfg e" "um_rx_cfg e'" using assms(1,2) um_invD(8) by (auto simp: um_impl_def split: prod.splits)
qed (rule assms(3))

lemma um_check_timer_impl:
  assumes "um_impl dp fs s e" "um_sound dp fs N" "snd (snd s) \<subseteq> {0..<N}" "fst (snd s) \<le> N"
  shows "\<exists>e' s'. rlc_um_check_timer_dar_time_out e f = Some e' \<and> (um_spec (rx_um_window_size e))\<^sup>*\<^sup>* s s' \<and> um_impl dp fs s' e' \<and>
    rx_um_window_size e' = rx_um_window_size e \<and> snd s' = snd s"
proof -
  obtain ur uh "have" where s: "s = (ur, uh, have)" by (metis prod_cases3)
  have i: "um_inv dp fs ur uh have e" "um_protocol_state e = RLC_DATA_TRANSFER_READY_STATE" using assms(1) s by (simp_all add: um_impl_def)
  have "um_good dp fs have uh" using um_sound_good[OF assms(2)] assms(3,4) s by simp
  then obtain e' ur' where e': "rlc_um_check_timer_dar_time_out e f = Some e'" "um_inv dp fs ur' uh have e'"
    "ur' = ur \<or> (\<exists>ux. ur \<le> ux \<and> ux \<le> uh \<and> ur' = first_missing have uh ux)" "um_protocol_state e' = um_protocol_state e"
    "rx_um_window_size e' = rx_um_window_size e"
    using um_check_timer_run[OF i(1), of f] by blast
  have "(um_spec (rx_um_window_size e))\<^sup>*\<^sup>* s (ur', uh, have)" using e'(3) unfolding s by (auto intro: r_into_rtranclp um_spec.expire)
  then show ?thesis using e' i(2) s by (intro exI[of _ e'] exI[of _ "(ur', uh, have)"]) (simp add: um_impl_def)
qed

lemma um_rx_run_impl:
  assumes "um_impl dp fs s e" "um_sound dp fs N" "snd (snd s) \<subseteq> {0..<N}" "fst (snd s) \<le> N"
    "um_within (rx_um_window_size e) (fst (snd s)) (um_arrived es)" "\<forall>n\<in>set (um_arrived es). n < N"
    "blk = um_block e fs"
  shows "\<exists>e' s'. um_rx_run blk es e = Some e' \<and> (um_spec (rx_um_window_size e))\<^sup>*\<^sup>* s s' \<and> um_impl dp fs s' e' \<and>
    snd (snd s') \<subseteq> {0..<N} \<and> fst (snd s') \<le> N"
  using assms
proof (induction es arbitrary: e s)
  case Nil
  then show ?case by (intro exI[of _ e] exI[of _ s]) simp
next
  case (Cons ev es)
  obtain ur uh "have" where s: "s = (ur, uh, have)" by (metis prod_cases3)
  let ?W = "rx_um_window_size e"
  show ?case
  proof (cases ev)
    case (Um_data f ns)
    have w: "um_within ?W uh ns" "um_within ?W (fold (\<lambda>n h. max h (n + 1)) ns uh) (um_arrived es)" "\<forall>n\<in>set ns. n < N"
      using Cons.prems(5,6) Um_data s by (auto simp: um_within_append)
    obtain e1 s1 where e1: "rlc_um_receive e f (map (um_block e fs) ns) = Some e1" "(um_spec ?W)\<^sup>*\<^sup>* s s1" "um_impl dp fs s1 e1"
      "rx_um_window_size e1 = ?W" "um_block e1 = um_block e" "snd (snd s1) \<subseteq> {0..<N}" "fst (snd s1) = fold (\<lambda>n h. max h (n + 1)) ns uh" "fst (snd s1) \<le> N"
      using um_receive_run[OF Cons.prems(1,2) s, of ns f] Cons.prems(3,4) w(1,3) s by auto
    obtain e2 s2 where e2: "rlc_um_check_timer_dar_time_out e1 f = Some e2" "(um_spec ?W)\<^sup>*\<^sup>* s1 s2" "um_impl dp fs s2 e2"
      "rx_um_window_size e2 = ?W" "snd s2 = snd s1"
      using um_check_timer_impl[OF e1(3) Cons.prems(2) e1(6,8), of f] e1(4) by auto
    have "um_protocol_state e = RLC_DATA_TRANSFER_READY_STATE" using Cons.prems(1) s by (simp add: um_impl_def)
    then have r: "um_rx_run blk (ev # es) e = um_rx_run blk es e2"
      using e1(1) e2(1) Um_data Cons.prems(7) by (simp add: rlc_um_mac_data_indication_def rlc_um_rx_def)
    have "\<exists>e' s'. um_rx_run blk es e2 = Some e' \<and> (um_spec (rx_um_window_size e2))\<^sup>*\<^sup>* s2 s' \<and> um_impl dp fs s' e' \<and> snd (snd s') \<subseteq> {0..<N} \<and> fst (snd s') \<le> N"
      by (rule Cons.IH[OF e2(3) Cons.prems(2)]) (use e1 e2 w(2) Cons.prems(6,7) Um_data um_impl_block[OF e2(3) Cons.prems(1)] in auto)
    then obtain e' s' where "um_rx_run blk es e2 = Some e'" "(um_spec ?W)\<^sup>*\<^sup>* s2 s'" "um_impl dp fs s' e'" "snd (snd s') \<subseteq> {0..<N}" "fst (snd s') \<le> N"
      using e2(4) by auto
    then show ?thesis using r rtranclp_trans[OF rtranclp_trans[OF e1(2) e2(2)]] by (intro exI[of _ e'] exI[of _ s']) simp
  next
    case (Um_status f n)
    obtain e2 s2 where e2: "rlc_um_check_timer_dar_time_out e f = Some e2" "(um_spec ?W)\<^sup>*\<^sup>* s s2" "um_impl dp fs s2 e2"
      "rx_um_window_size e2 = ?W" "snd s2 = snd s"
      using um_check_timer_impl[OF Cons.prems(1,2,3,4), of f] by auto
    let ?e = "e2\<lparr>um_nb_bytes_requested_by_mac := to_uint16 n\<rparr>"
    have i: "um_impl dp fs s2 ?e" using e2(3) by simp
    have r: "um_rx_run blk (ev # es) e = um_rx_run blk es ?e" using e2(1) Um_status by (simp add: rlc_um_mac_status_indication_def Let_def)
    have "\<exists>e' s'. um_rx_run blk es ?e = Some e' \<and> (um_spec (rx_um_window_size ?e))\<^sup>*\<^sup>* s2 s' \<and> um_impl dp fs s' e' \<and> snd (snd s') \<subseteq> {0..<N} \<and> fst (snd s') \<le> N"
      by (rule Cons.IH[OF i Cons.prems(2)]) (use e2 Cons.prems Um_status um_impl_block[OF i Cons.prems(1)] in auto)
    then obtain e' s' where "um_rx_run blk es ?e = Some e'" "(um_spec ?W)\<^sup>*\<^sup>* s2 s'" "um_impl dp fs s' e'" "snd (snd s') \<subseteq> {0..<N}" "fst (snd s') \<le> N"
      using e2(4) by auto
    then show ?thesis using r rtranclp_trans[OF e2(2)] by (intro exI[of _ e'] exI[of _ s']) simp
  qed
qed

subsection \<open>From the configuration on\<close>

text \<open>A request that sets up a bearer: the entity is new, the length of the sequence number is one of the two, the bearer is not for MBMS.\<close>

definition um_set_up :: "rlc_um_coll \<Rightarrow> int \<Rightarrow> int \<Rightarrow> frame \<Rightarrow> int \<Rightarrow> int \<Rightarrow> rlc_um_info \<Rightarrow> int \<Rightarrow> rlc_um_entity \<Rightarrow> bool" where
  "um_set_up coll enb ue f flag srb cfg rb e \<longleftrightarrow>
     (let key = rlc_coll_key enb ue flag rb srb
      in (case coll key of None \<Rightarrow> False | Some e0 \<Rightarrow> \<not> um_initialized e0 \<and> um_log_data_ind e0 = []) \<and>
         umc_sn_field_length cfg \<in> {5, 10} \<and> umc_is_mXch cfg = 0 \<and>
         (case config_req_rlc_um coll enb ue f flag srb cfg rb of None \<Rightarrow> False | Some coll' \<Rightarrow> coll' key = Some e))"

lemma um_set_up_entity:
  assumes "um_set_up coll enb ue f flag srb cfg rb e"
  shows "e = rlc_um_configure (rlc_um_set_debug_infos ((rlc_um_init zero_um_entity)\<lparr>um_protocol_state := RLC_DATA_TRANSFER_READY_STATE\<rparr>)
      enb ue f flag srb rb) f (umc_timer_reordering cfg) (umc_sn_field_length cfg) (umc_sn_field_length cfg) 0"
proof -
  obtain e0 where e0: "coll (rlc_coll_key enb ue flag rb srb) = Some e0" "\<not> um_initialized e0" "um_log_data_ind e0 = []"
    using assms by (auto simp: um_set_up_def Let_def split: option.splits)
  have z: "\<not> um_initialized zero_um_entity" "um_log_data_ind zero_um_entity = []" by (simp_all add: zero_um_entity_def)
  have "rlc_um_init e0 = rlc_um_init zero_um_entity" using e0(2,3) z by (simp add: rlc_um_init_def cleared_um_entity_def)
  moreover have "um_protocol_state (rlc_um_init zero_um_entity) = RLC_NULL_STATE" using z(1) by (simp add: rlc_um_init_def)
  then have "rlc_um_fsm_notify_event (rlc_um_init zero_um_entity) 1 =
      Some (True, (rlc_um_init zero_um_entity)\<lparr>um_protocol_state := RLC_DATA_TRANSFER_READY_STATE\<rparr>)" by (simp add: rlc_um_fsm_notify_event_def)
  ultimately show ?thesis using assms e0(1) by (auto simp: um_set_up_def config_req_rlc_um_def Let_def)
qed

lemma um_set_up_impl:
  assumes "um_set_up coll enb ue f flag srb cfg rb e"
  shows "um_impl (to_int8 srb = 0) fs (0, 0, {}) e"
    "rx_um_window_size e = (if umc_sn_field_length cfg = 10 then 512 else 16)"
proof -
  have len: "umc_sn_field_length cfg = 5 \<or> umc_sn_field_length cfg = 10" using assms by (auto simp: um_set_up_def Let_def)
  note e = um_set_up_entity[OF assms]
  note defs = rlc_um_configure_def rlc_um_set_debug_infos_def rlc_um_init_def zero_um_entity_def cleared_um_entity_def Let_def
    um_configure_rx_def um_configure_tx_def rlc_um_reset_state_variables_def rlc_um_init_timer_reordering_def
  show W: "rx_um_window_size e = (if umc_sn_field_length cfg = 10 then 512 else 16)" using len unfolding e by (auto simp: defs)
  have f: "um_rx_cfg e" "um_sdu_ok (to_int8 srb = 0) e" "dar_buffer e = (\<lambda>_. None)" "um_log_data_ind e = []" "um_acc e = []"
    "\<not> reassembly_missing_sn_detected e" "0 \<le> last_reassemblied_sn e" "last_reassemblied_sn e = - 1 mod rx_sn_modulo e"
    "vr_ur e = 0" "vr_uh e = 0" "\<not> running (um_t_reordering e)" "um_protocol_state e = RLC_DATA_TRANSFER_READY_STATE"
    using len unfolding e by (auto simp: defs um_rx_cfg_def um_sdu_ok_def um_acc_def to_uint16_def)
  show "um_impl (to_int8 srb = 0) fs (0, 0, {}) e" using f um_rx_cfgD[OF f(1)] by (simp add: um_impl_def um_inv_def um_at_def um_ux_ok_def)
qed

text \<open>
  (C4) The UM receiver implements the abstract machine. After a request that sets up a bearer, let MAC hand over PDUs with any numbers, each number within a
  window of the highest one before it (PDUs are lost, repeated and reordered at will), and ask for the status at any
  frames, so that t-Reordering expires at any time. No assertion fails and every loop ends; the machine has a run to a state with numbers
  \<open>ur\<close> and \<open>uh\<close> whose residues are VR(UR) and VR(UH) of the entity; and the SDUs delivered are exactly those that the PDUs received below \<open>ur\<close> complete.
  The PDUs handed over are those of one sound sequence: each is well framed (length indicators from 1 to 2047, fewer than 24 of them, their sum less than the payload, which has less than
  65000 bytes), a PDU that begins with a new SDU follows one that ends one, and no SDU is longer than the receiver has room for; the code ends in a fatal
  assertion on some PDUs that are not. The machine moves VR(UR) as the code does: when a PDU pushes the window past VR(UR), VR(UR) becomes the lower edge of the window, and
  it goes on to the first number not received only if the PDU itself has that number (a comment in the code, at rlc_um_dar.c:1190, describes another rule).
\<close>

theorem um_receiver_refines:
  assumes "um_set_up coll enb ue f flag srb cfg rb e" "um_sound (to_int8 srb = 0) fs N" "0 \<le> N"
    "um_within (rx_um_window_size e) 0 (um_arrived es)" "\<forall>n\<in>set (um_arrived es). n < N"
  shows "\<exists>e' ur uh have. um_rx_run (um_block e fs) es e = Some e' \<and> (um_spec (rx_um_window_size e))\<^sup>*\<^sup>* (0, 0, {}) (ur, uh, have) \<and>
    vr_ur e' = ur mod rx_sn_modulo e' \<and> vr_uh e' = uh mod rx_sn_modulo e' \<and> um_log_data_ind e' = fst (um_stream fs have ur)"
proof -
  note i = um_set_up_impl(1)[OF assms(1)]
  obtain e' s' where r: "um_rx_run (um_block e fs) es e = Some e'" "(um_spec (rx_um_window_size e))\<^sup>*\<^sup>* (0, 0, {}) s'" "um_impl (to_int8 srb = 0) fs s' e'"
    using um_rx_run_impl[OF i assms(2), unfolded fst_conv snd_conv, OF _ assms(3,4,5) refl] by blast
  obtain ur uh "have" where s: "s' = (ur, uh, have)" by (metis prod_cases3)
  have "um_inv (to_int8 srb = 0) fs ur uh have e'" using r(3) s by (simp add: um_impl_def)
  note v = um_invD[OF this]
  have "um_stream fs have ur = (um_log_data_ind e', um_acc e', reassembly_missing_sn_detected e')" using v(1) by (simp add: um_at_def)
  then show ?thesis using r(1,2) v(5,6) unfolding s by (intro exI[of _ e'] exI[of _ ur] exI[of _ uh] exI[of _ "have"]) simp
qed

text \<open>A new bearer of the data plane with the given length of the sequence number.\<close>

definition um_example_coll :: rlc_um_coll where
  "um_example_coll = [rlc_coll_key 1 2 0 3 0 \<mapsto> zero_um_entity]"

definition um_example_cfg :: "u32 \<Rightarrow> rlc_um_info" where
  "um_example_cfg len = \<lparr>umc_timer_reordering = 5, umc_sn_field_length = len, umc_is_mXch = 0\<rparr>"

definition um_example :: "u32 \<Rightarrow> rlc_um_entity" where
  "um_example len = rlc_um_configure (rlc_um_set_debug_infos ((rlc_um_init zero_um_entity)\<lparr>um_protocol_state := RLC_DATA_TRANSFER_READY_STATE\<rparr>)
      1 2 0 0 0 3) 0 5 len len 0"

lemma um_example_set_up: "len \<in> {5, 10} \<Longrightarrow> um_set_up um_example_coll 1 2 0 0 0 (um_example_cfg len) 3 (um_example len)"
  by (auto simp: um_set_up_def Let_def um_example_coll_def um_example_cfg_def um_example_def config_req_rlc_um_def rlc_um_fsm_notify_event_def
      rlc_um_init_def cleared_um_entity_def zero_um_entity_def)

text \<open>Three PDUs of one SDU each, of which the second arrives first, twice, and the first only after the timer expired.\<close>

definition um_example_frames :: "int \<Rightarrow> um_frame" where
  "um_example_frames n = \<lparr>uf_fi = 0, uf_lis = [], uf_payload = [word_of_int n, 7]\<rparr>"

definition um_example_events :: "um_event list" where
  "um_example_events = [Um_data 0 [1, 1], Um_status 9 100, Um_data 10 [0, 2]]"

lemma um_example_sound: "um_sound dp um_example_frames 3"
  by (auto simp: um_sound_def um_joined_def um_ends_def um_example_frames_def um_framed_def um_fits_def um_sent_def um_pieces_def upto.simps um_limit_def)

theorem um_receiver_refines_witness:
  "\<exists>e' ur uh have. um_rx_run (um_block (um_example 10) um_example_frames) um_example_events (um_example 10) = Some e' \<and>
    (um_spec (rx_um_window_size (um_example 10)))\<^sup>*\<^sup>* (0, 0, {}) (ur, uh, have) \<and>
    vr_ur e' = ur mod rx_sn_modulo e' \<and> vr_uh e' = uh mod rx_sn_modulo e' \<and> um_log_data_ind e' = fst (um_stream um_example_frames have ur)"
proof (rule um_receiver_refines[OF um_example_set_up, of 10 um_example_frames 3 um_example_events])
  show "um_within (rx_um_window_size (um_example 10)) 0 (um_arrived um_example_events)"
    using um_set_up_impl(2)[OF um_example_set_up, of 10] by (simp add: um_example_events_def um_example_cfg_def)
qed (simp_all add: um_example_sound um_example_events_def)

end
