(* ===== verification/Rlc_Um_Segmentation.thy ===== *)
theory Rlc_Um_Segmentation
  imports Rlc_Um_Delivery Rlc_Am_Segment_Pdu
begin

text \<open>
  What the PDUs of UM segmentation carry: the length indicators and the payload are laid out as the receiver expects them, and the
  pieces they cut continue the SDUs at the front of the queue. The plan of the first loop and the indicators are those of AM.
\<close>

subsection \<open>The queue\<close>

definition um_slot_ok :: "rlc_um_tx_sdu_management \<Rightarrow> bool" where
  "um_slot_ok s \<longleftrightarrow> 0 \<le> ums_segmented_size s \<and> 0 < ums_remaining_size s \<and> ums_segmented_size s + ums_remaining_size s = ums_size s \<and>
     ums_size s \<le> int (length (ums_data s))"

definition um_rest_of :: "rlc_um_tx_sdu_management \<Rightarrow> byte list" where
  "um_rest_of s = take (nat (ums_remaining_size s)) (drop (nat (ums_segmented_size s)) (ums_data s))"

definition um_whole_of :: "rlc_um_tx_sdu_management \<Rightarrow> byte list" where
  "um_whole_of s = take (nat (ums_size s)) (ums_data s)"

fun um_part_of :: "rlc_um_tx_sdu_management list \<Rightarrow> byte list" where
  "um_part_of [] = []"
| "um_part_of (s # ss) = take (nat (ums_segmented_size s)) (ums_data s)"

text \<open>Only the first SDU is sent in part; the occupancy counts the remaining bytes.\<close>

definition um_queue_ok :: "rlc_um_entity \<Rightarrow> bool" where
  "um_queue_ok e \<longleftrightarrow> (\<forall>s\<in>set (um_input_sdus e). um_slot_ok s) \<and> (\<forall>s\<in>set (tl (um_input_sdus e)). ums_segmented_size s = 0) \<and>
     um_buffer_occupancy e = sum_list (map ums_remaining_size (um_input_sdus e))"

lemma um_slot_bytes:
  assumes "um_slot_ok s"
  shows "int (length (um_rest_of s)) = ums_remaining_size s" "take (nat (ums_segmented_size s)) (ums_data s) @ um_rest_of s = um_whole_of s"
proof -
  show "int (length (um_rest_of s)) = ums_remaining_size s" using assms by (auto simp: um_slot_ok_def um_rest_of_def min_def)
  have "nat (ums_size s) = nat (ums_segmented_size s) + nat (ums_remaining_size s)" using assms by (auto simp: um_slot_ok_def)
  then show "take (nat (ums_segmented_size s)) (ums_data s) @ um_rest_of s = um_whole_of s" by (simp add: um_rest_of_def um_whole_of_def take_add)
qed

subsection \<open>The first loop\<close>

lemma um_test_step_next:
  assumes "ut_li_len t = 1 \<or> ut_li_len t = 2" "z + (ut_li_len t XOR 3) < ut_rem t"
  shows "um_test_step five z t = t\<lparr>ut_num_li := ut_num_li t + 1, ut_num_fill := ut_num_fill t + 1,
      ut_rem := ut_rem t - (z + (ut_li_len t XOR 3)), ut_sub_size := ut_li_len t XOR 3, ut_sub_num := 1, ut_li_len := ut_li_len t XOR 3\<rparr>"
  using assms by (auto simp: um_test_step_def Let_def)

lemma um_test_step_stop:
  assumes "0 < z" "0 < ut_rem t" "ut_li_len t = 1 \<or> ut_li_len t = 2" "\<not> z + (ut_li_len t XOR 3) < ut_rem t"
  shows "\<not> ut_cont (um_test_step five z t)" "ut_sub_num (um_test_step five z t) = 0" "ut_num_li (um_test_step five z t) = ut_num_li t"
    "ut_pdu_rem (um_test_step five z t) = ut_pdu_rem t - plan_waste (ut_li_len t) (ut_rem t) (z # zs)"
    "ut_pdu_size (um_test_step five z t) = ut_pdu_size t - (if five then plan_waste (ut_li_len t) (ut_rem t) (z # zs) else 0)"
    "planned (ut_li_len t) (ut_rem t - plan_waste (ut_li_len t) (ut_rem t) (z # zs)) 0 (z # zs)"
  using assms by (auto simp: um_test_step_def um_unused_def Let_def)

lemma um_test_loop_stop: "\<not> ut_cont t \<Longrightarrow> um_test_loop five ss t = t"
  by (cases ss) auto

lemma um_test_loop_plan:
  assumes "ss \<noteq> []" "\<forall>s\<in>set ss. 0 < ums_remaining_size s" "ut_cont t" "ut_li_len t = 1 \<or> ut_li_len t = 2" "0 < ut_rem t"
    "zs = map ums_remaining_size ss" "ut_rem t \<le> sum_list zs + li_room (ut_li_len t) (length zs - 1)" "w = plan_waste (ut_li_len t) (ut_rem t) zs"
  shows "\<exists>k. ut_sub_num (um_test_loop five ss t) = 0 \<and> ut_num_li (um_test_loop five ss t) = ut_num_li t + int k \<and>
    ut_pdu_rem (um_test_loop five ss t) = ut_pdu_rem t - w \<and> ut_pdu_size (um_test_loop five ss t) = ut_pdu_size t - (if five then w else 0) \<and>
    planned (ut_li_len t) (ut_rem t - w) k zs"
  using assms
proof (induction ss arbitrary: t zs)
  case (Cons s ss)
  let ?z = "ums_remaining_size s" and ?zs = "map ums_remaining_size ss"
  let ?l = "ut_li_len t XOR 3"
  let ?t = "um_test_step five ?z t"
  have z: "0 < ?z" "zs = ?z # ?zs" using Cons.prems(2,6) by auto
  have loop: "um_test_loop five (s # ss) t = um_test_loop five ss ?t" using Cons.prems(3) by simp
  show ?case
  proof (cases "?z + ?l < ut_rem t")
    case True
    note st = um_test_step_next[OF Cons.prems(4) True, of five]
    have ne: "ss \<noteq> []" using True Cons.prems(4,7) z(2) by auto
    have "li_room (ut_li_len t) (length ?zs) = ?l + li_room ?l (length ?zs - 1)" using ne by (cases ss) auto
    then have fit: "ut_rem ?t \<le> sum_list ?zs + li_room (ut_li_len ?t) (length ?zs - 1)" using Cons.prems(7) z(2) unfolding st by simp
    have w: "w = plan_waste (ut_li_len ?t) (ut_rem ?t) ?zs" using Cons.prems(8) True z(2) unfolding st by simp
    have "\<exists>k. ut_sub_num (um_test_loop five ss ?t) = 0 \<and> ut_num_li (um_test_loop five ss ?t) = ut_num_li ?t + int k \<and>
        ut_pdu_rem (um_test_loop five ss ?t) = ut_pdu_rem ?t - w \<and> ut_pdu_size (um_test_loop five ss ?t) = ut_pdu_size ?t - (if five then w else 0) \<and>
        planned (ut_li_len ?t) (ut_rem ?t - w) k ?zs"
      by (rule Cons.IH[OF ne _ _ _ _ refl fit w]) (use Cons.prems True in \<open>auto simp: st\<close>)
    then obtain k where k: "ut_sub_num (um_test_loop five ss ?t) = 0" "ut_num_li (um_test_loop five ss ?t) = ut_num_li ?t + int k"
      "ut_pdu_rem (um_test_loop five ss ?t) = ut_pdu_rem ?t - w" "ut_pdu_size (um_test_loop five ss ?t) = ut_pdu_size ?t - (if five then w else 0)"
      "planned (ut_li_len ?t) (ut_rem ?t - w) k ?zs" by blast
    have "0 \<le> w" using plan_waste_range[of "ut_li_len ?t"] Cons.prems(4) unfolding w st by auto
    moreover have "0 < ut_rem ?t - w" by (rule planned_pos[OF k(5)]) (use Cons.prems(2,4) in \<open>auto simp: st\<close>)
    ultimately have "planned (ut_li_len t) (ut_rem t - w) (Suc k) zs" using k(5) unfolding z(2) st by (simp add: algebra_simps)
    then show ?thesis using k unfolding loop st by (intro exI[of _ "Suc k"]) simp
  next
    case False
    note st = um_test_step_stop(1-3)[OF z(1) Cons.prems(5,4) False, of five] um_test_step_stop(4-6)[OF z(1) Cons.prems(5,4) False, where zs = ?zs]
    have "um_test_loop five (s # ss) t = ?t" unfolding loop by (rule um_test_loop_stop[OF st(1)])
    then show ?thesis using st Cons.prems(8) z(2) by (intro exI[of _ 0]) simp
  qed
qed simp

subsection \<open>The second loop\<close>

fun um_pack :: "int \<Rightarrow> int \<Rightarrow> nat \<Rightarrow> rlc_um_tx_sdu_management list \<Rightarrow> int list \<times> byte list \<times> bool \<times> rlc_um_tx_sdu_management list" where
  "um_pack li r k [] = ([], [], False, [])"
| "um_pack li r 0 (s # ss) = ([], take (nat r) (um_rest_of s), r = ums_remaining_size s,
     if r = ums_remaining_size s then ss
     else s\<lparr>ums_remaining_size := ums_remaining_size s - r, ums_segmented_size := ums_segmented_size s + r\<rparr> # ss)"
| "um_pack li r (Suc k) (s # ss) =
     (case um_pack (li XOR 3) (r - (ums_remaining_size s + (li XOR 3))) k ss of
        (lis, pl, end, ss') \<Rightarrow> (ums_remaining_size s # lis, um_rest_of s @ pl, end, ss'))"

lemma um_copy_front:
  assumes "um_slot_ok s" "0 \<le> n" "n \<le> ums_remaining_size s" "sf_buf g = xs @ r" "sf_data g = int (length xs)" "n \<le> int (length r)"
  shows "um_copy s n g = Some (g\<lparr>sf_buf := xs @ take (nat n) (um_rest_of s) @ drop (nat n) r\<rparr>)"
proof -
  have b: "0 \<le> ums_segmented_size s" "ums_segmented_size s + n \<le> int (length (ums_data s))" using assms(1,3) by (auto simp: um_slot_ok_def)
  have t: "take (nat n) (drop (nat (ums_segmented_size s)) (ums_data s)) = take (nat n) (um_rest_of s)"
    using assms(2,3) by (simp add: um_rest_of_def min_def)
  have l: "length (take (nat n) (um_rest_of s)) = length (take (nat n) r)"
    using assms(2,3,6) um_slot_bytes(1)[OF assms(1)] by simp
  have "mem_write (sf_data g) (take (nat n) (um_rest_of s)) (sf_buf g) = Some (xs @ take (nat n) (um_rest_of s) @ drop (nat n) r)"
    using mem_write_at[OF assms(5) l, of "drop (nat n) r"] unfolding assms(4) by simp
  then show ?thesis using b assms(2) by (simp add: um_copy_def t)
qed

lemma um_fill_loop_stop: "\<not> sf_cont g \<Longrightarrow> um_fill_loop m ss g e = Some (g, e)"
  by (cases ss) auto

lemma um_fill_last:
  assumes "um_input_sdus e = s # ss" "um_slot_ok s" "sf_cont g" "0 < sf_pdu_rem g" "sf_pdu_rem g \<le> ums_remaining_size s"
    "sf_buf g = xs @ r" "sf_data g = int (length xs)" "sf_pdu_rem g \<le> int (length r)" "um_pack li (sf_pdu_rem g) 0 (s # ss) = (lis, pl, end, ss')"
  shows "\<exists>g'. um_fill_loop m (s # ss) g e = Some (g', e\<lparr>um_input_sdus := ss', um_buffer_occupancy := um_buffer_occupancy e - int (length pl)\<rparr>) \<and>
    sf_buf g' = xs @ pl @ drop (length pl) r \<and> sf_num_li g' = sf_num_li g \<and> sf_last g' = end \<and> sf_pdu_rem g' = 0"
proof -
  let ?n = "sf_pdu_rem g"
  have pl: "pl = take (nat ?n) (um_rest_of s)" "int (length pl) = ?n" "length pl = nat ?n"
    using assms(4,5,9) um_slot_bytes(1)[OF assms(2)] by auto
  let ?g = "g\<lparr>sf_buf := xs @ take (nat ?n) (um_rest_of s) @ drop (nat ?n) r\<rparr>"
  have cp: "um_copy s ?n g = Some ?g" using assms(4) by (intro um_copy_front[OF assms(2) _ assms(5,6,7,8)]) simp
  show ?thesis
  proof (cases "?n = ums_remaining_size s")
    case True
    then show ?thesis using cp assms(1,3,9) pl by (simp add: um_fill_step_def Let_def um_sdu_done_def um_fill_loop_stop)
  next
    case False
    then show ?thesis using cp assms(1,3,5,9) pl by (simp add: um_fill_step_def Let_def um_fill_loop_stop)
  qed
qed

lemma um_fill_loop_plan:
  assumes "planned (sf_li_len g) (sf_pdu_rem g) k (map ums_remaining_size ss)" "um_input_sdus e = ss" "\<forall>s\<in>set ss. um_slot_ok s" "sf_cont g"
    "\<forall>s\<in>set (take k ss). ums_remaining_size s < 2048" "sf_buf g = seg_block h (k \<noteq> 0) ls gap pl r" "hl = int (length h)" "sf_num_li g = int (length ls)"
    "sf_e_li g = hl + 3 * (int (length ls) div 2)" "sf_li_len g = (if even (length ls) then 1 else 2)" "m = int (length ls + k)"
    "int (length (li_part (k \<noteq> 0) ls) + length gap) = (m * 3 + 1) div 2"
    "sf_data g = hl + (m * 3 + 1) div 2 + int (length pl)" "sf_pdu_rem g \<le> int (length gap + length r)"
    "um_pack (sf_li_len g) (sf_pdu_rem g) k ss = (lis, pl', end, ss')"
  shows "\<exists>g' r'. um_fill_loop m ss g e = Some (g', e\<lparr>um_input_sdus := ss', um_buffer_occupancy := um_buffer_occupancy e - int (length pl')\<rparr>) \<and>
    sf_buf g' = h @ li_bytes (ls @ lis) @ pl @ pl' @ r' \<and> sf_num_li g' = m \<and> sf_last g' = end \<and> sf_pdu_rem g' = 0"
  using assms
proof (induction k arbitrary: g e ls gap pl r lis pl' ss)
  case 0
  then obtain s ts where ss: "ss = s # ts" by (cases ss) auto
  have gap: "gap = []" using 0(11,12) length_li_part[of False ls] by simp
  have rm: "um_slot_ok s" "0 < sf_pdu_rem g" "sf_pdu_rem g \<le> ums_remaining_size s" "sf_pdu_rem g \<le> int (length r)"
    using 0(1,3,14) ss gap by simp_all
  have "sf_buf g = (h @ li_part False ls @ pl) @ r" "sf_data g = int (length (h @ li_part False ls @ pl))" "lis = []"
    using 0(6,7,12,13,15) gap ss by (simp_all add: seg_block_def)
  from um_fill_last[OF 0(2)[unfolded ss] rm(1) 0(4) rm(2,3) this(1,2) rm(4) 0(15)[unfolded ss], of m] this(3) show ?case
    using 0(8,11) unfolding ss by (simp add: li_part_all del: um_fill_loop.simps) blast
next
  case (Suc k)
  let ?n = "sf_pdu_rem g"
  let ?l = "sf_li_len g XOR 3"
  obtain s ts where ss: "ss = s # ts" using Suc.prems(1) by (cases ss) auto
  let ?z = "ums_remaining_size s"
  have sok: "um_slot_ok s" "0 < ?z" "?z < 2048" using Suc.prems(3,5) ss by (simp_all add: um_slot_ok_def)
  have pln: "?z + ?l < ?n" "planned ?l (?n - (?z + ?l)) k (map ums_remaining_size ts)" using Suc.prems(1) ss by simp_all
  have lenli: "int (length (li_part True ls)) = (int (length ls) * 3 + 1) div 2" by (rule length_li_part)
  have gap: "int (length gap) = li_room (sf_li_len g) (Suc k)"
    unfolding Suc.prems(10) li_room_len using Suc.prems(11,12) lenli by simp
  have "\<forall>z\<in>set (map ums_remaining_size ts). 0 < z" using Suc.prems(3) ss by (auto simp: um_slot_ok_def)
  then have "0 \<le> sum_list (take k (map ums_remaining_size ts))"
    by (intro sum_list_nonneg) (auto dest!: in_set_takeD simp: less_imp_le)
  then have room: "?z \<le> int (length r)"
    using Suc.prems(14) gap planned_room[OF Suc.prems(1)] unfolding ss by simp
  have buf: "sf_buf g = (h @ li_part True ls @ gap @ pl) @ r" using Suc.prems(6) by (simp add: seg_block_def)
  have data: "sf_data g = int (length (h @ li_part True ls @ gap @ pl))" using Suc.prems(7,12,13) by simp
  define g1 where "g1 = g\<lparr>sf_buf := (h @ li_part True ls @ gap @ pl) @ um_rest_of s @ drop (nat ?z) r\<rparr>"
  have whole: "take (nat ?z) (um_rest_of s) = um_rest_of s" using um_slot_bytes(1)[OF sok(1)] by (intro take_all) simp
  have cp: "um_copy s ?z g = Some g1"
    using um_copy_front[OF sok(1) _ _ buf data room] sok(2) unfolding whole g1_def by simp
  define g2 where "g2 = g1\<lparr>sf_data := sf_data g1 + ?z, sf_li_len := ?l, sf_num_li := sf_num_li g1 + 1\<rparr>"
  let ?f = "int (length ls) + 1 \<noteq> m"
  have f: "?f = (k \<noteq> 0)" using Suc.prems(11) by simp
  have "\<exists>gap'. seg_write_li ?f ?z g2 = Some (g2\<lparr>sf_buf := seg_block h ?f (ls @ [?z]) gap' (pl @ um_rest_of s) (drop (nat ?z) r),
        sf_e_li := hl + 3 * (int (length ls + 1) div 2)\<rparr>) \<and>
    int (length (li_part ?f (ls @ [?z])) + length gap') = (m * 3 + 1) div 2"
    by (rule seg_write_li_next[OF _ Suc.prems(7) _ _ _ sok(3)])
      (use Suc.prems(9,10,11,12) sok(2) in \<open>simp_all add: g2_def g1_def seg_block_def\<close>)
  then obtain gap' where w: "seg_write_li ?f ?z g2 = Some (g2\<lparr>sf_buf := seg_block h (k \<noteq> 0) (ls @ [?z]) gap' (pl @ um_rest_of s) (drop (nat ?z) r),
        sf_e_li := hl + 3 * (int (length ls + 1) div 2)\<rparr>)"
    "int (length (li_part (k \<noteq> 0) (ls @ [?z])) + length gap') = (m * 3 + 1) div 2" unfolding f by blast
  define g3 where "g3 = g2\<lparr>sf_buf := seg_block h (k \<noteq> 0) (ls @ [?z]) gap' (pl @ um_rest_of s) (drop (nat ?z) r),
    sf_e_li := hl + 3 * (int (length ls + 1) div 2), sf_pdu_rem := ?n - (?z + ?l)\<rparr>"
  have nlt: "\<not> ?n < ?z" "?z \<noteq> ?n" using pln(1) unfolding Suc.prems(10) by (cases "even (length ls)"; simp)+
  have num: "sf_num_li g1 + 1 = int (length ls) + 1" using Suc.prems(8) by (simp add: g1_def)
  have "um_fill_step m s g e = Some (g3, um_sdu_done ?z e)"
    using pln(1) nlt cp w(1) unfolding um_fill_step_def Let_def g3_def by (simp add: num g2_def)
  then have loop: "um_fill_loop m ss g e = um_fill_loop m ts g3 (um_sdu_done ?z e)" using Suc.prems(4) unfolding ss by simp
  have g3: "sf_li_len g3 = ?l" "sf_pdu_rem g3 = ?n - (?z + ?l)" "sf_num_li g3 = sf_num_li g + 1" "sf_data g3 = sf_data g + ?z"
    "sf_cont g3 = sf_cont g" "sf_e_li g3 = hl + 3 * (int (length ls + 1) div 2)"
    "sf_buf g3 = seg_block h (k \<noteq> 0) (ls @ [?z]) gap' (pl @ um_rest_of s) (drop (nat ?z) r)"
    by (simp_all add: g3_def g2_def g1_def)
  obtain lis' pl'' where out: "um_pack ?l (?n - (?z + ?l)) k ts = (lis', pl'', end, ss')" "lis = ?z # lis'" "pl' = um_rest_of s @ pl''"
    using Suc.prems(15) unfolding ss by (auto split: prod.splits)
  let ?e = "um_sdu_done ?z e"
  have "\<exists>g' r'. um_fill_loop m ts g3 ?e = Some (g', ?e\<lparr>um_input_sdus := ss', um_buffer_occupancy := um_buffer_occupancy ?e - int (length pl'')\<rparr>) \<and>
    sf_buf g' = h @ li_bytes ((ls @ [?z]) @ lis') @ (pl @ um_rest_of s) @ pl'' @ r' \<and> sf_num_li g' = m \<and> sf_last g' = end \<and> sf_pdu_rem g' = 0"
  proof (rule Suc.IH[where gap = gap' and r = "drop (nat ?z) r"])
    have "length gap' + length (li_part (k \<noteq> 0) (ls @ [?z])) = length gap + length (li_part True ls)"
      using w(2) Suc.prems(12) by simp
    moreover have "int (length (li_part (k \<noteq> 0) (ls @ [?z]))) = int (length (li_part True ls)) + ?l"
      unfolding length_li_part Suc.prems(10) by (cases "even (length ls)") (auto elim!: evenE oddE)
    ultimately show "sf_pdu_rem g3 \<le> int (length gap' + length (drop (nat ?z) r))"
      using Suc.prems(14) room sok(2) unfolding g3 by (simp add: of_nat_diff)
    show "planned (sf_li_len g3) (sf_pdu_rem g3) k (map ums_remaining_size ts)"
      "um_pack (sf_li_len g3) (sf_pdu_rem g3) k ts = (lis', pl'', end, ss')"
      using pln(2) out(1) unfolding g3 .
    show "\<forall>s\<in>set (take k ts). ums_remaining_size s < 2048" "\<forall>s\<in>set ts. um_slot_ok s" using Suc.prems(3,5) unfolding ss by simp_all
    show "um_input_sdus ?e = ts" using Suc.prems(2) ss by (simp add: um_sdu_done_def)
    show "sf_li_len g3 = (if even (length (ls @ [?z])) then 1 else 2)" using Suc.prems(10) unfolding g3 by simp
    show "sf_num_li g3 = int (length (ls @ [?z]))" using Suc.prems(8) unfolding g3 by simp
    show "sf_data g3 = hl + (m * 3 + 1) div 2 + int (length (pl @ um_rest_of s))"
      using Suc.prems(13) um_slot_bytes(1)[OF sok(1)] unfolding g3 by simp
    show "sf_cont g3" using Suc.prems(4) unfolding g3 .
    show "m = int (length (ls @ [?z]) + k)" using Suc.prems(11) by simp
    show "sf_e_li g3 = hl + 3 * (int (length (ls @ [?z])) div 2)" unfolding g3 by simp
  qed (rule g3 Suc.prems(7) w(2))+
  then show ?case unfolding loop out(2,3) using um_slot_bytes(1)[OF sok(1)] by (auto simp: um_sdu_done_def algebra_simps)
qed

subsection \<open>Framing\<close>

lemma um_part_new: "\<forall>s\<in>set ss. ums_segmented_size s = 0 \<Longrightarrow> um_part_of ss = []"
  by (cases ss) auto

lemma um_partial_bytes:
  assumes "um_slot_ok s" "0 \<le> r" "r \<le> ums_remaining_size s"
  shows "um_part_of (s\<lparr>ums_remaining_size := a, ums_segmented_size := ums_segmented_size s + r\<rparr> # ss) = um_part_of (s # ss) @ take (nat r) (um_rest_of s)"
proof -
  have "nat (ums_segmented_size s + r) = nat (ums_segmented_size s) + nat r" using assms(1,2) by (auto simp: um_slot_ok_def nat_add_distrib)
  then show ?thesis using assms(2,3) by (simp add: um_rest_of_def take_add min_def)
qed

lemma um_pack_framing:
  assumes "planned li r k (map ums_remaining_size ss)" "\<forall>s\<in>set ss. um_slot_ok s" "\<forall>s\<in>set (tl ss). ums_segmented_size s = 0"
    "um_pack li r k ss = (lis, pl, end, ss')"
  shows "lis = map ums_remaining_size (take k ss) \<and> sum_list lis < int (length pl) \<and> int (length pl) = r - li_room li k \<and>
    sdus_of (um_part_of ss) (cut lis pl end) = (take (k + of_bool end) (map um_whole_of ss), um_part_of ss') \<and>
    map um_whole_of ss' = drop (k + of_bool end) (map um_whole_of ss) \<and> (\<forall>s\<in>set ss'. um_slot_ok s) \<and> (\<forall>s\<in>set (tl ss'). ums_segmented_size s = 0) \<and>
    sum_list (map ums_remaining_size ss') = sum_list (map ums_remaining_size ss) - int (length pl) \<and>
    (end \<longrightarrow> (\<forall>s\<in>set ss'. ums_segmented_size s = 0)) \<and> (\<not> end \<longrightarrow> ss' \<noteq> [] \<and> 0 < ums_segmented_size (hd ss'))"
  using assms
proof (induction k arbitrary: li r ss lis pl)
  case 0
  obtain s ts where ss: "ss = s # ts" using "0.prems"(1) by (cases ss) auto
  have s: "um_slot_ok s" "0 \<le> r" "r \<le> ums_remaining_size s" "0 < r" using "0.prems"(1,2) ss by auto
  have new: "um_part_of ts = []" "\<forall>s\<in>set ts. ums_segmented_size s = 0" using "0.prems"(3) ss um_part_new by simp_all
  have tl: "\<forall>s\<in>set (tl ts). ums_segmented_size s = 0" using new(2) by (cases ts) auto
  have len: "int (length (take (nat r) (um_rest_of s))) = r" using um_slot_bytes(1)[OF s(1)] s by simp
  show ?case
  proof (cases "r = ums_remaining_size s")
    case True
    then have "take (nat r) (um_rest_of s) = um_rest_of s" using um_slot_bytes(1)[OF s(1)] by (intro take_all) simp
    then show ?thesis using True "0.prems"(2,4) ss len s(4) new um_slot_bytes(2)[OF s(1)] tl by auto
  next
    case False
    define s' where "s' = s\<lparr>ums_remaining_size := ums_remaining_size s - r, ums_segmented_size := ums_segmented_size s + r\<rparr>"
    have s': "um_slot_ok s'" "um_whole_of s' = um_whole_of s" "0 < ums_segmented_size s'" "ums_remaining_size s' = ums_remaining_size s - r"
      using s False by (auto simp: s'_def um_slot_ok_def um_whole_of_def)
    have o: "lis = []" "pl = take (nat r) (um_rest_of s)" "\<not> end" "ss' = s' # ts" using "0.prems"(4) ss False by (auto simp: s'_def)
    have "um_part_of ss' = um_part_of ss @ pl" unfolding o(2,4) ss s'_def by (rule um_partial_bytes[OF s(1,2,3)])
    then show ?thesis using "0.prems"(2) o ss len s(4) s' new by auto
  qed
next
  case (Suc k)
  obtain s ts where ss: "ss = s # ts" using Suc.prems(1) by (cases ss) auto
  let ?z = "ums_remaining_size s"
  let ?l = "li XOR 3"
  have s: "um_slot_ok s" "0 < ?z" using Suc.prems(2) ss by (auto simp: um_slot_ok_def)
  obtain lis' pl' where out: "um_pack ?l (r - (?z + ?l)) k ts = (lis', pl', end, ss')" "lis = ?z # lis'" "pl = um_rest_of s @ pl'"
    using Suc.prems(4) unfolding ss by (auto split: prod.splits)
  have p: "planned ?l (r - (?z + ?l)) k (map ums_remaining_size ts)" using Suc.prems(1) ss by simp
  have t: "\<forall>s\<in>set ts. um_slot_ok s" "\<forall>s\<in>set (tl ts). ums_segmented_size s = 0" using Suc.prems(2,3) ss by (cases ts; auto)+
  note IH = Suc.IH[OF p t out(1)]
  have new: "um_part_of ts = []" using Suc.prems(3) ss um_part_new by simp
  have len: "int (length (um_rest_of s)) = ?z" by (rule um_slot_bytes(1)[OF s(1)])
  then have ct: "take (nat ?z) pl = um_rest_of s" "drop (nat ?z) pl = pl'" unfolding out(3) by simp_all
  have "sdus_of (take (nat (ums_segmented_size s)) (ums_data s)) (cut lis pl end) = (um_whole_of s # take (k + of_bool end) (map um_whole_of ts), um_part_of ss')"
    unfolding out(2) cut.simps ct sdus_of.simps um_slot_bytes(2)[OF s(1)] if_True new[symmetric]
      IH[THEN conjunct2, THEN conjunct2, THEN conjunct2, THEN conjunct1] prod.case ..
  then show ?case using IH len ss unfolding out(2,3) by (auto simp: algebra_simps)
qed

subsection \<open>The fixed header\<close>

lemma um_byte_fi:
  assumes "fi \<in> {0, 1, 2, 3 :: int}"
  shows "(if b then push_bit 3 (word_of_int fi) OR 0x04 else push_bit 3 (word_of_int fi) :: byte) = word_of_int ((2 * fi + of_bool b) * 2 ^ 2)"
    "(if b then push_bit 6 (word_of_int fi) OR 0x20 else push_bit 6 (word_of_int fi) :: byte) = word_of_int ((2 * fi + of_bool b) * 2 ^ 5)"
  using assms by auto

lemma um_fixed_header_bytes:
  assumes "uf_fi f \<in> {0, 1, 2, 3}" "0 \<le> sn" "has \<longleftrightarrow> uf_lis f \<noteq> []" "fi = uf_fi f"
  shows "um_fixed_header False fi has sn = um_header 10 (sn mod 1024) f" "um_fixed_header True fi has sn = um_header 5 (sn mod 32) f"
proof -
  have ext: "(if uf_lis f = [] then 0 else 1) = (of_bool has :: int)" using assms(3) by simp
  note b = um_byte_fi[OF assms(1), of has]
  have h: "drop_bit 8 sn AND 0x03 = sn mod 1024 div 256"
    using zmod_zmult2_eq[of 4 sn 256] um_low_bits(2)[of "drop_bit 8 sn"] by (simp add: drop_bit_eq_div)
  have r: "0 \<le> sn mod 1024 div 256" "sn mod 1024 div 256 < 2 ^ 2" by auto
  have l: "(sn AND 0xFF) = sn mod 1024 mod 256" using um_low_bits(7)[of sn] by (simp add: mod_mod_cancel)
  have "um_fixed_header False fi has sn = [word_of_int ((2 * uf_fi f + of_bool has) * 2 ^ 2) OR word_of_int (sn mod 1024 div 256), word_of_int (sn mod 1024 mod 256)]"
    unfolding um_fixed_header_def Let_def assms(4) b h l by simp
  then show "um_fixed_header False fi has sn = um_header 10 (sn mod 1024) f"
    unfolding byte_or_add[OF r] um_header_def Let_def ext by (simp add: algebra_simps)
  have r5: "0 \<le> sn mod 32" "sn mod 32 < 2 ^ 5" by auto
  have "um_fixed_header True fi has sn = [word_of_int ((2 * uf_fi f + of_bool has) * 2 ^ 5) OR word_of_int (sn mod 32)]"
    unfolding um_fixed_header_def Let_def assms(4) b using um_low_bits(5)[of sn] by simp
  then show "um_fixed_header True fi has sn = um_header 5 (sn mod 32) f"
    unfolding byte_or_add[OF r5] um_header_def Let_def ext by (simp add: algebra_simps)
qed

subsection \<open>One PDU\<close>

definition um_tx_cfg :: "bool \<Rightarrow> rlc_um_entity \<Rightarrow> bool" where
  "um_tx_cfg five e \<longleftrightarrow> (if five then tx_sn_length e = 5 \<and> tx_header_min_length_in_bytes e = 1 else tx_sn_length e = 10 \<and> tx_header_min_length_in_bytes e = 2)"

text \<open>At most 24 SDUs of less than 2048 bytes wait, and the grant has room for the header and a byte.\<close>

definition um_tx_input :: "bool \<Rightarrow> rlc_um_entity \<Rightarrow> bool" where
  "um_tx_input five e \<longleftrightarrow> um_tx_cfg five e \<and> um_queue_ok e \<and> um_input_sdus e \<noteq> [] \<and> length (um_input_sdus e) \<le> 24 \<and>
     (\<forall>s\<in>set (um_input_sdus e). ums_remaining_size s < 2048) \<and> (if five then 1 else 2) < um_nb_bytes_requested_by_mac e \<and>
     um_nb_bytes_requested_by_mac e < 32768 \<and> 0 \<le> vt_us e"

definition um_waste :: "rlc_um_entity \<Rightarrow> int" where
  "um_waste e = plan_waste 1 (um_segment_size e - tx_header_min_length_in_bytes e) (map ums_remaining_size (um_input_sdus e))"

lemma um_tx_size:
  assumes "um_tx_input five e" "hl = (if five then 1 else 2)"
  shows "hl < um_segment_size e" "um_segment_size e < 32768"
    "um_segment_size e - hl \<le> sum_list (map ums_remaining_size (um_input_sdus e)) + li_room 1 (length (um_input_sdus e) - 1)"
proof -
  let ?ss = "um_input_sdus e"
  have I: "um_tx_cfg five e" "um_queue_ok e" "?ss \<noteq> []" "length ?ss \<le> 24" "\<forall>s\<in>set ?ss. ums_remaining_size s < 2048"
    "hl < um_nb_bytes_requested_by_mac e" "um_nb_bytes_requested_by_mac e < 32768"
    using assms by (auto simp: um_tx_input_def)
  have q: "\<forall>s\<in>set ?ss. 0 < ums_remaining_size s" "um_buffer_occupancy e = sum_list (map ums_remaining_size ?ss)"
    using I(2) by (auto simp: um_queue_ok_def um_slot_ok_def)
  define need where "need = um_buffer_occupancy e + hl + max_li_overhead (int (length ?ss))"
  have room: "li_room 1 (length ?ss - 1) = max_li_overhead (int (length ?ss))" by (rule li_room_overhead)
  have "sum_list (map ums_remaining_size ?ss) \<le> sum_list (map (\<lambda>_. 2048) ?ss)" using I(5) by (intro sum_list_mono) auto
  then have up: "um_buffer_occupancy e \<le> 2048 * 24" using q(2) I(4) by (simp add: sum_list_triv)
  obtain s ts where ss: "?ss = s # ts" using I(3) by (cases ?ss) auto
  have "0 \<le> sum_list (map ums_remaining_size ts)" using q(1) ss by (intro sum_list_nonneg) auto
  then have low: "0 < um_buffer_occupancy e" using q ss by simp
  have ov: "0 \<le> max_li_overhead (int (length ?ss))" "max_li_overhead (int (length ?ss)) \<le> 36" using I(4) by (auto simp: max_li_overhead_def)
  have hl: "0 < hl" "hl \<le> 2" using assms(2) by auto
  have n32: "uint (word_of_int x :: u32) = x" if "0 \<le> x" "x < 100000" for x using that by (simp add: uint_word_of_int mod_pos_pos_trivial)
  have "um_segment_size e = min need (um_nb_bytes_requested_by_mac e)"
  proof -
    have "um_buffer_occupancy e + tx_header_min_length_in_bytes e + max_li_overhead (int (length ?ss)) = need"
      using I(1) assms(2) by (auto simp: need_def um_tx_cfg_def split: if_splits)
    then show ?thesis unfolding um_segment_size_def Let_def word_le_def
      using n32[of need] n32[of "um_nb_bytes_requested_by_mac e"] low up ov hl I(6,7) by (simp add: need_def min_def)
  qed
  then show "hl < um_segment_size e" "um_segment_size e < 32768"
    "um_segment_size e - hl \<le> sum_list (map ums_remaining_size ?ss) + li_room 1 (length ?ss - 1)"
    using I(6,7) low ov(1) q(2) room by (auto simp: need_def)
qed

lemma um_fill_loop_length: "um_fill_loop m ss g e = Some (g', e') \<Longrightarrow> length (sf_buf g') = length (sf_buf g)"
proof (induction m ss g e rule: um_fill_loop.induct)
  case (2 m s ss g e)
  have step: "length (sf_buf a) = length (sf_buf g)" if "um_fill_step m s g e = Some (a, b)" for a b
    using that by (auto simp: um_fill_step_def um_copy_def seg_write_li_def Let_def dest!: mem_write_length split: if_splits option.splits)
  show ?case
  proof (cases "sf_cont g")
    case True
    then obtain a b where "um_fill_step m s g e = Some (a, b)" "um_fill_loop m ss a b = Some (g', e')"
      using "2.prems" by (auto split: option.splits)
    then show ?thesis using "2.IH"[OF True] step by fastforce
  qed (use "2.prems" in simp)
qed simp

lemma um_part_empty: "um_slot_ok s \<Longrightarrow> um_part_of (s # ss) = [] \<longleftrightarrow> ums_segmented_size s = 0"
  by (auto simp: um_slot_ok_def)

text \<open>
  The outcome: the PDU with the frame \<open>f\<close> and the number \<^verbatim>\<open>VT(US)\<close>, followed by \<open>junk\<close>, goes to MAC; its pieces continue the
  first SDU and complete the first \<open>n\<close> ones, which leave the queue.
\<close>

definition um_sends :: "bool \<Rightarrow> rlc_um_entity \<Rightarrow> um_frame \<Rightarrow> byte list \<Rightarrow> nat \<Rightarrow> rlc_um_entity \<Rightarrow> bool" where
  "um_sends five e f junk n e' \<longleftrightarrow>
     um_framed f \<and> (um_starts f \<longleftrightarrow> um_part_of (um_input_sdus e) = []) \<and> (um_ends f \<longleftrightarrow> um_part_of (um_input_sdus e') = []) \<and>
     sdus_of (um_part_of (um_input_sdus e)) (um_pieces f) = (take n (map um_whole_of (um_input_sdus e)), um_part_of (um_input_sdus e')) \<and>
     map um_whole_of (um_input_sdus e') = drop n (map um_whole_of (um_input_sdus e)) \<and> um_queue_ok e' \<and>
     (\<exists>tb. let bs = (if five then um_pdu_bytes 5 (vt_us e mod 32) f else um_pdu_bytes 10 (vt_us e mod 1024) f) @ junk
       in tb_size tb = int (length bs) \<and> take (length bs) (tb_data tb) = bs \<and>
         e' = e\<lparr>um_input_sdus := um_input_sdus e', um_buffer_occupancy := um_buffer_occupancy e', vt_us := to_uint16 (vt_us e + 1),
           um_pdus_to_mac_layer := um_pdus_to_mac_layer e @ [tb]\<rparr>)"

lemma um_segment_pdu_run:
  assumes "um_tx_input five e" "um_input_sdus e = s # ts"
  shows "\<exists>e' f junk n. um_segment_pdu five mem s e = Some e' \<and> um_sends five e f junk n e' \<and>
    int (length junk) = (if five then 0 else um_waste e) \<and> int (length (uf_payload f)) < 32768 \<and> tb_size (last (um_pdus_to_mac_layer e')) < 32768"
proof -
  let ?ss = "um_input_sdus e" let ?N = "um_segment_size e" let ?w = "um_waste e"
  define hl where "hl = (if five then 1 else 2 :: int)"
  have I: "um_tx_cfg five e" "um_queue_ok e" "?ss \<noteq> []" "length ?ss \<le> 24" "\<forall>s\<in>set ?ss. ums_remaining_size s < 2048" "0 \<le> vt_us e"
    using assms(1) by (auto simp: um_tx_input_def)
  note N = um_tx_size[OF assms(1) hl_def]
  have hdr: "tx_header_min_length_in_bytes e = hl" using I(1) by (auto simp: um_tx_cfg_def hl_def split: if_splits)
  have q: "\<forall>s\<in>set ?ss. um_slot_ok s" "\<forall>s\<in>set (tl ?ss). ums_segmented_size s = 0" "um_buffer_occupancy e = sum_list (map ums_remaining_size ?ss)"
    using I(2) by (simp_all add: um_queue_ok_def)
  have pos: "\<forall>s\<in>set ?ss. 0 < ums_remaining_size s" using q(1) by (simp add: um_slot_ok_def)
  define t0 where "t0 = \<lparr>ut_cont = True, ut_num_fill = 0, ut_num_li = 0, ut_rem = ?N - hl, ut_li_len = 1, ut_sub_size = 0, ut_sub_num = 0,
    ut_pdu_rem = ?N - hl, ut_pdu_size = ?N\<rparr>"
  define t where "t = um_test_loop five ?ss t0"
  have "\<exists>k. ut_sub_num t = 0 \<and> ut_num_li t = ut_num_li t0 + int k \<and> ut_pdu_rem t = ut_pdu_rem t0 - ?w \<and>
      ut_pdu_size t = ut_pdu_size t0 - (if five then ?w else 0) \<and> planned (ut_li_len t0) (ut_rem t0 - ?w) k (map ums_remaining_size ?ss)"
    unfolding t_def by (rule um_test_loop_plan[OF I(3) pos _ _ _ refl]) (use N(1,3) in \<open>simp_all add: t0_def um_waste_def hdr\<close>)
  then obtain k where k: "ut_sub_num t = 0" "ut_num_li t = int k" "ut_pdu_rem t = ?N - hl - ?w" "ut_pdu_size t = ?N - (if five then ?w else 0)"
    "planned 1 (?N - hl - ?w) k (map ums_remaining_size ?ss)" by (auto simp: t0_def)
  have w: "0 \<le> ?w" using plan_waste_range[of 1] by (simp add: um_waste_def)
  obtain lis pl fin ss' where out: "um_pack 1 (?N - hl - ?w) k ?ss = (lis, pl, fin, ss')" by (metis prod_cases4)
  note F = um_pack_framing[OF k(5) q(1,2) out]
  note R = planned_room[OF k(5)]
  have klen: "length lis = k" "k < 24" using F R I(4) by auto
  have li: "int (length (li_bytes lis)) = (int k * 3 + 1) div 2" "li_room 1 k = (int k * 3 + 1) div 2"
    using length_li_part[of False lis] li_room_len[of 0 k] klen(1) by (simp_all add: li_part_all)
  define y where "y = drop (nat hl) (new_block mem ?N)"
  define h where "h = take (nat hl) (new_block mem ?N)"
  have blk: "new_block mem ?N = h @ y" "length h = nat hl" "?N - hl \<le> int (length y)" "length (new_block mem ?N) \<ge> nat ?N"
    by (auto simp: h_def y_def new_block_def hl_def)
  let ?G = "nat ((int k * 3 + 1) div 2)"
  have "0 \<le> sum_list (take k (map ums_remaining_size ?ss))" using pos
    by (intro sum_list_nonneg) (auto dest!: in_set_takeD simp: less_imp_le)
  then have G: "int ?G \<le> int (length y)" "int ?G = (int k * 3 + 1) div 2" using R li(2) blk(3) w by auto
  define g0 where "g0 = \<lparr>sf_cont = True, sf_data = hl + (int k * 3 + 1) div 2, sf_e_li = hl, sf_li_len = 1,
       sf_num_li = 0, sf_last = False, sf_pdu_rem = ?N - hl - ?w, sf_buf = new_block mem ?N\<rparr>"
  have "\<exists>g' r'. um_fill_loop (int k) ?ss g0 e = Some (g', e\<lparr>um_input_sdus := ss', um_buffer_occupancy := um_buffer_occupancy e - int (length pl)\<rparr>) \<and>
    sf_buf g' = h @ li_bytes ([] @ lis) @ [] @ pl @ r' \<and> sf_num_li g' = int k \<and> sf_last g' = fin \<and> sf_pdu_rem g' = 0"
  proof (rule um_fill_loop_plan[where gap = "take ?G y" and r = "drop ?G y"])
    show "sf_buf g0 = seg_block h (k \<noteq> 0) [] (take ?G y) [] (drop ?G y)" by (simp add: g0_def seg_block_def blk(1))
    show "int (length (li_part (k \<noteq> 0) []) + length (take ?G y)) = (int k * 3 + 1) div 2" using G by simp
    show "sf_pdu_rem g0 \<le> int (length (take ?G y) + length (drop ?G y))" using blk(3) G w by (simp add: g0_def)
    show "\<forall>s\<in>set (take k ?ss). ums_remaining_size s < 2048" using I(5) by (auto dest: in_set_takeD)
    show "hl = int (length h)" using blk(2) by (simp add: hl_def)
  qed (use k(5) q(1) out in \<open>simp_all add: g0_def\<close>)
  then obtain g r where g: "um_fill_loop (int k) ?ss g0 e = Some (g, e\<lparr>um_input_sdus := ss', um_buffer_occupancy := um_buffer_occupancy e - int (length pl)\<rparr>)"
    "sf_buf g = h @ li_bytes lis @ pl @ r" "sf_num_li g = int k" "sf_last g = fin" "sf_pdu_rem g = 0" by auto
  have len: "?N \<le> int (length (h @ li_bytes lis @ pl @ r))" using um_fill_loop_length[OF g(1)] blk(4) unfolding g(2) by (simp add: g0_def)
  define fi where "fi = (if ums_remaining_size s = ums_size s then 0 else 2) + (if fin then 0 else (1::int))"
  define f where "f = \<lparr>uf_fi = fi, uf_lis = lis, uf_payload = pl\<rparr>"
  have sok: "um_slot_ok s" using q(1) assms(2) by simp
  have first: "ums_remaining_size s = ums_size s \<longleftrightarrow> um_part_of ?ss = []" unfolding assms(2) um_part_empty[OF sok] using sok by (auto simp: um_slot_ok_def)
  have fi: "fi \<in> {0, 1, 2, 3}" "um_starts f \<longleftrightarrow> um_part_of ?ss = []" "um_ends f \<longleftrightarrow> fin" using first by (auto simp: fi_def f_def um_starts_def um_ends_def)
  have "lis = map ums_remaining_size (take k ?ss)" using F by blast
  then have lpos: "\<forall>l\<in>set lis. 0 < l \<and> l < 2048" using pos I(5) by (auto dest: in_set_takeD)
  moreover have sum: "sum_list lis < int (length pl)" using F by blast
  ultimately have fr: "um_framed f" using fi(1) klen by (simp add: um_framed_def f_def)
  have fin: "fin \<longleftrightarrow> um_part_of ss' = []"
  proof (cases fin)
    case True
    then have "\<forall>s\<in>set ss'. ums_segmented_size s = 0" using F by blast
    then show ?thesis using True um_part_new by simp
  next
    case False
    then obtain s' ts' where "ss' = s' # ts'" "0 < ums_segmented_size s'" using F by (cases ss') auto
    then show ?thesis using False F um_part_empty[of s' ts'] by simp
  qed
  define hd where "hd = um_fixed_header five fi (0 < k) (vt_us e)"
  have hd: "hd = (if five then um_header 5 (vt_us e mod 32) f else um_header 10 (vt_us e mod 1024) f)"
  proof -
    have "uf_fi f \<in> {0, 1, 2, 3}" "0 < k \<longleftrightarrow> uf_lis f \<noteq> []" "fi = uf_fi f" using fi(1) klen(1) by (auto simp: f_def)
    from um_fixed_header_bytes[OF this(1) I(6) this(2,3)] show ?thesis unfolding hd_def by (cases five) simp_all
  qed
  then have lhd: "length hd = nat hl" by (simp add: um_header_def hl_def)
  define junk where "junk = take (nat (if five then 0 else ?w)) r"
  let ?sz = "?N - (if five then ?w else 0)"
  define bs where "bs = (if five then um_pdu_bytes 5 (vt_us e mod 32) f else um_pdu_bytes 10 (vt_us e mod 1024) f) @ junk"
  have bs: "bs = hd @ li_bytes lis @ pl @ junk" by (simp add: bs_def hd um_pdu_bytes_def f_def)
  have plen: "int (length pl) = ?N - hl - ?w - (int k * 3 + 1) div 2" using F li(2) by simp
  have hl: "0 < hl" by (simp add: hl_def)
  have "?w \<le> int (length r)" using len li(1) plen blk(2) hl by simp
  then have jl: "int (length junk) = (if five then 0 else ?w)" using w by (simp add: junk_def)
  have szb: "?sz = int (length bs)" using jl plen li(1) lhd hl unfolding bs by simp
  have "0 < length pl" using sum sum_list_nonneg[of lis] lpos by force
  then have szp: "0 < ?sz" unfolding szb bs length_append by linarith
  define tb where "tb = \<lparr>tb_size = ?sz, tb_data = hd @ li_bytes lis @ pl @ r\<rparr>"
  have "take (length junk) r = junk" by (auto simp: junk_def min_def)
  then have tb: "tb_size tb = int (length bs)" "take (length bs) (tb_data tb) = bs" using szb by (simp_all add: tb_def bs)
  define e' where "e' = e\<lparr>um_input_sdus := ss', um_buffer_occupancy := um_buffer_occupancy e - int (length pl), vt_us := to_uint16 (vt_us e + 1),
    um_pdus_to_mac_layer := um_pdus_to_mac_layer e @ [tb]\<rparr>"
  have "drop (length hd) (sf_buf g) = li_bytes lis @ pl @ r" unfolding g(2) lhd using blk(2) by simp
  then have finish: "um_segment_finish five ?sz (ums_remaining_size s = ums_size s) g
      (e\<lparr>um_input_sdus := ss', um_buffer_occupancy := um_buffer_occupancy e - int (length pl)\<rparr>) = Some e'"
    using g(3-5) szp unfolding um_segment_finish_def Let_def fi_def[symmetric] by (simp add: fi_def[symmetric] hd_def[symmetric] e'_def tb_def)
  have run: "um_segment_pdu five mem s e = Some e'"
    using g(1) finish k(1-4) unfolding um_segment_pdu_def Let_def hl_def[symmetric] t0_def[symmetric] t_def[symmetric]
    by (simp add: g0_def[symmetric])
  have qe: "um_queue_ok e'" using F q(3) by (simp add: um_queue_ok_def e'_def)
  have pieces: "um_pieces f = cut lis pl fin" unfolding um_pieces_def fi(3) by (simp add: f_def)
  have ss: "um_input_sdus e' = ss'" by (simp add: e'_def)
  have "um_sends five e f junk (k + of_bool fin) e'"
    unfolding um_sends_def ss pieces bs_def[symmetric] Let_def
  proof (intro conjI exI[of _ tb])
    show "sdus_of (um_part_of ?ss) (cut lis pl fin) = (take (k + of_bool fin) (map um_whole_of ?ss), um_part_of ss')"
      "map um_whole_of ss' = drop (k + of_bool fin) (map um_whole_of ?ss)" using F by blast+
    show "um_ends f = (um_part_of ss' = [])" using fi(3) fin by blast
    show "e' = e\<lparr>um_input_sdus := ss', um_buffer_occupancy := um_buffer_occupancy e', vt_us := to_uint16 (vt_us e + 1),
        um_pdus_to_mac_layer := um_pdus_to_mac_layer e @ [tb]\<rparr>" by (simp add: e'_def)
  qed (rule fr fi(2) qe tb)+
  moreover have "int (length (uf_payload f)) < 32768" using plen N(2) w li(2) hl by (simp add: f_def)
  moreover have "tb_size (last (um_pdus_to_mac_layer e')) < 32768" using N(2) w by (simp add: e'_def tb_def)
  ultimately show ?thesis using run jl by blast
qed

text \<open>
  (C10) One grant of MAC, UM. With a grant that has room for the header and one byte, and between one and 24 waiting SDUs of less than 2048 bytes, segmentation ends
  without a failed assertion or an access outside a block. It appends one PDU for MAC, which is the byte layout of a header with the number
  \<^verbatim>\<open>VT(US)\<close>, length indicators and payload; the pieces continue the first SDU where the last PDU left it, complete the first \<open>n\<close> waiting SDUs in
  order, and the framing info says whether the first and the last byte are the ends of an SDU; these SDUs leave the queue, whose
  occupancy stays the sum of the remaining bytes; and VT(US) moves on by one. The 5-bit variant gives exactly that PDU. The 10-bit variant appends to it the bytes
  that could not be used, up to two, with whatever was in the block before.
\<close>

theorem um_segment_correct:
  assumes "um_tx_input five e"
  shows "\<exists>e' f junk n. (if five then rlc_um_segment_5 mem e else rlc_um_segment_10 mem e) = Some e' \<and> um_sends five e f junk n e' \<and>
    int (length junk) = (if five then 0 else um_waste e) \<and> um_waste e \<le> 2"
proof -
  have i: "um_input_sdus e \<noteq> []" "(if five then 1 else 2) < um_nb_bytes_requested_by_mac e" using assms by (simp_all add: um_tx_input_def)
  then obtain s ss where ss: "um_input_sdus e = s # ss" by (cases "um_input_sdus e") auto
  have "(if five then rlc_um_segment_5 mem e else rlc_um_segment_10 mem e) = um_segment_pdu five mem s e"
    using i(2) ss by (simp add: rlc_um_segment_5_def rlc_um_segment_10_def split: if_splits)
  moreover have "um_waste e \<le> 2" using plan_waste_range[of 1] by (simp add: um_waste_def)
  moreover obtain e' f junk n where "um_segment_pdu five mem s e = Some e'" "um_sends five e f junk n e'"
    "int (length junk) = (if five then 0 else um_waste e)" using um_segment_pdu_run[OF assms ss, of mem] by blast
  ultimately show ?thesis by (intro exI[of _ e'] exI[of _ f] exI[of _ junk] exI[of _ n]) simp
qed

text \<open>An entity with the 10-bit number, two SDUs and a grant of eight bytes: two bytes stay unused.\<close>

definition um_sdu_of :: "byte list \<Rightarrow> rlc_um_tx_sdu_management" where
  "um_sdu_of bs = \<lparr>ums_data = bs, ums_creation_time = 0, ums_remaining_size = int (length bs), ums_segmented_size = 0, ums_size = int (length bs)\<rparr>"

definition um_segment_example :: rlc_um_entity where
  "um_segment_example = zero_um_entity\<lparr>tx_sn_length := 10, tx_header_min_length_in_bytes := 2, um_nb_bytes_requested_by_mac := 8,
     um_input_sdus := [um_sdu_of [1, 2, 3, 4], um_sdu_of [5, 6, 7]], um_buffer_occupancy := 7\<rparr>"

lemma um_segment_example_input: "um_tx_input False um_segment_example"
  by (simp add: um_tx_input_def um_segment_example_def um_sdu_of_def um_tx_cfg_def um_queue_ok_def um_slot_ok_def zero_um_entity_def)

theorem um_segment_correct_witness:
  "\<exists>e' f junk n. rlc_um_segment_10 (\<lambda>_. 9) um_segment_example = Some e' \<and> um_sends False um_segment_example f junk n e' \<and>
    int (length junk) = um_waste um_segment_example \<and> um_waste um_segment_example \<le> 2"
  using um_segment_correct[OF um_segment_example_input, of "\<lambda>_. 9"] by simp

text \<open>
  The 10-bit variant appends what was in the block: the receiver takes it for the end of the SDU. A grant of eight bytes for four bytes of an SDU with another one
  waiting gives a PDU of eight bytes.
\<close>

lemma um_segment_10_appends_junk:
  "map_option (\<lambda>e. map tb_data (um_pdus_to_mac_layer e)) (rlc_um_segment_10 (\<lambda>_. 9) um_segment_example) = Some [[0, 0, 1, 2, 3, 4, 9, 9]]"
  by code_simp

end
