(* ===== verification/Rlc_Um_Link.thy ===== *)
theory Rlc_Um_Link
  imports Rlc_Um_Segmentation Lossless_Link
begin

text \<open>
  Two UM entities over a channel. The transmitter turns the SDUs of PDCP into numbered PDUs, one per grant; the channel hands
  over any of them in any order within the window. What the receiver delivers is a subsequence of the SDUs submitted; over a channel that
  loses nothing it is all of them.
\<close>

subsection \<open>The transmitter\<close>

text \<open>MAC copies as many bytes of a PDU as its size says.\<close>

definition um_as_ind :: "mac_data_req \<Rightarrow> mac_tb_ind list" where
  "um_as_ind md = map (\<lambda>tb. \<lparr>ti_data = take (nat (tb_size tb)) (tb_data tb), ti_size = tb_size tb\<rparr>) (md_data md)"

text \<open>A grant of \<open>n\<close> bytes in a frame; \<open>mem\<close> is what the new block held.\<close>

definition um_send :: "(nat \<Rightarrow> byte) \<Rightarrow> frame \<Rightarrow> int \<Rightarrow> rlc_um_entity \<Rightarrow> (mac_tb_ind list \<times> rlc_um_entity) option" where
  "um_send mem f n e =
     do { (resp, e1) \<leftarrow> rlc_um_mac_status_indication e f n; (md, e2) \<leftarrow> rlc_um_mac_data_request mem e1 f; Some (um_as_ind md, e2) }"

definition um_valid_req :: "bool \<Rightarrow> um_data_req \<Rightarrow> bool" where
  "um_valid_req dp q \<longleftrightarrow> 0 < udr_data_size q \<and> udr_data_size q < 2048 \<and> udr_data_size q \<le> um_limit dp \<and> udr_data_size q \<le> int (length (udr_bytes q))"

definition um_req_bytes :: "um_data_req \<Rightarrow> byte list" where
  "um_req_bytes q = take (nat (udr_data_size q)) (udr_bytes q)"

definition um_block_len :: "bool \<Rightarrow> (int \<Rightarrow> um_frame) \<Rightarrow> int \<Rightarrow> mac_tb_ind" where
  "um_block_len five fs n = um_tb (if five then um_pdu_bytes 5 (n mod 32) (fs n) else um_pdu_bytes 10 (n mod 1024) (fs n))"

text \<open>
  The transmitter after \<open>N\<close> PDUs with the frames \<open>fs\<close>: they complete the SDUs \<open>ds\<close> and carry the part of the first waiting one that is
  sent.
\<close>

definition um_tx_inv :: "bool \<Rightarrow> bool \<Rightarrow> (int \<Rightarrow> um_frame) \<Rightarrow> int \<Rightarrow> byte list list \<Rightarrow> rlc_um_entity \<Rightarrow> bool" where
  "um_tx_inv five dp fs N ds e \<longleftrightarrow> um_tx_cfg five e \<and> um_queue_ok e \<and> um_protocol_state e = RLC_DATA_TRANSFER_READY_STATE \<and>
     \<not> running (um_t_reordering e) \<and> um_pdus_to_mac_layer e = [] \<and> 0 \<le> N \<and> vt_us e = N mod 65536 \<and>
     um_sound dp fs N \<and> um_sent fs N = (ds, um_part_of (um_input_sdus e)) \<and>
     (0 < N \<longrightarrow> um_part_of (um_input_sdus e) = [] \<longrightarrow> um_ends (fs (N - 1))) \<and>
     (\<forall>s\<in>set (um_input_sdus e). ums_size s < 2048 \<and> ums_size s \<le> um_limit dp)"

definition um_waiting :: "rlc_um_entity \<Rightarrow> byte list list" where
  "um_waiting e = map um_whole_of (um_input_sdus e)"

lemma um_data_req_step:
  assumes "um_tx_inv five dp fs N ds e" "um_valid_req dp q"
  shows "um_tx_inv five dp fs N ds (rlc_um_data_req e f q)" "um_waiting (rlc_um_data_req e f q) = um_waiting e @ [um_req_bytes q]"
proof -
  let ?e = "rlc_um_data_req e f q" let ?n = "udr_data_size q"
  define s where "s = \<lparr>ums_data = udr_bytes q, ums_creation_time = f, ums_remaining_size = ?n, ums_segmented_size = 0, ums_size = ?n\<rparr>"
  have q: "um_input_sdus ?e = um_input_sdus e @ [s]" "um_buffer_occupancy ?e = um_buffer_occupancy e + ?n"
    by (simp_all add: rlc_um_data_req_def Let_def s_def)
  have s: "um_slot_ok s" "ums_segmented_size s = 0" "ums_size s < 2048 \<and> ums_size s \<le> um_limit dp" "ums_remaining_size s = ?n" "um_whole_of s = um_req_bytes q"
    using assms(2) by (auto simp: s_def um_slot_ok_def um_valid_req_def um_whole_of_def um_req_bytes_def)
  have part: "um_part_of (um_input_sdus e @ [s]) = um_part_of (um_input_sdus e)" using s(2) by (cases "um_input_sdus e") auto
  have "\<forall>x\<in>set (tl (um_input_sdus e @ [s])). ums_segmented_size x = 0"
    using assms(1) s(2) by (cases "um_input_sdus e") (auto simp: um_tx_inv_def um_queue_ok_def)
  then have "um_queue_ok ?e" using assms(1) s(1,4) by (simp add: um_tx_inv_def um_queue_ok_def q)
  moreover have "um_tx_cfg five ?e = um_tx_cfg five e" "um_protocol_state ?e = um_protocol_state e" "um_t_reordering ?e = um_t_reordering e"
    "um_pdus_to_mac_layer ?e = um_pdus_to_mac_layer e" "vt_us ?e = vt_us e"
    by (simp_all add: rlc_um_data_req_def Let_def um_tx_cfg_def)
  ultimately show "um_tx_inv five dp fs N ds ?e" using assms(1) s(3) unfolding um_tx_inv_def q(1) part by auto
  show "um_waiting ?e = um_waiting e @ [um_req_bytes q]" by (simp add: um_waiting_def q(1) s(5))
qed

text \<open>A grant that the link allows: there is something to send, and the 10-bit variant can use every byte of it.\<close>

definition um_can_send :: "bool \<Rightarrow> int \<Rightarrow> rlc_um_entity \<Rightarrow> bool" where
  "um_can_send five n e \<longleftrightarrow> (let e1 = e\<lparr>um_nb_bytes_requested_by_mac := n\<rparr> in um_tx_input five e1 \<and> (five \<or> um_waste e1 = 0))"

lemma um_sent_cong: "\<forall>k. 0 \<le> k \<and> k < p \<longrightarrow> fs k = fs' k \<Longrightarrow> um_sent fs p = um_sent fs' p"
  unfolding um_sent_def by (rule arg_cong[where f = "\<lambda>ps. sdus_of [] (concat ps)"]) (auto intro: map_cong)

lemma um_send_step:
  assumes "um_tx_inv five dp fs N ds e" "um_can_send five n e"
  shows "\<exists>e' fr k. um_send mem f n e = Some ([um_block_len five (fs(N := fr)) N], e') \<and>
    um_tx_inv five dp (fs(N := fr)) (N + 1) (ds @ take k (um_waiting e)) e' \<and> um_waiting e' = drop k (um_waiting e)"
proof -
  define e1 where "e1 = e\<lparr>um_nb_bytes_requested_by_mac := n\<rparr>"
  have c: "um_tx_input five e1" "five \<or> um_waste e1 = 0" using assms(2) by (simp_all add: um_can_send_def e1_def Let_def)
  have T: "um_tx_cfg five e" "um_queue_ok e" "um_protocol_state e = RLC_DATA_TRANSFER_READY_STATE" "\<not> running (um_t_reordering e)"
    "um_pdus_to_mac_layer e = []" "0 \<le> N" "vt_us e = N mod 65536" "um_sound dp fs N" "um_sent fs N = (ds, um_part_of (um_input_sdus e))"
    "0 < N \<longrightarrow> um_part_of (um_input_sdus e) = [] \<longrightarrow> um_ends (fs (N - 1))" "\<forall>s\<in>set (um_input_sdus e). ums_size s < 2048 \<and> ums_size s \<le> um_limit dp"
    using assms(1) by (simp_all add: um_tx_inv_def)
  have n: "0 \<le> n" "n < 65536" using c(1) by (auto simp: um_tx_input_def e1_def split: if_splits)
  then have "\<exists>resp. rlc_um_mac_status_indication e f n = Some (resp, e1)"
    using T(4) by (simp add: rlc_um_mac_status_indication_def rlc_um_check_timer_dar_time_out_def Let_def e1_def to_uint16_def mod_pos_pos_trivial)
  then obtain resp where st: "rlc_um_mac_status_indication e f n = Some (resp, e1)" by blast
  obtain s ts where ss: "um_input_sdus e1 = s # ts" using c(1) by (cases "um_input_sdus e1") (auto simp: um_tx_input_def)
  obtain e2 fr junk k where p: "um_segment_pdu five mem s e1 = Some e2" "um_sends five e1 fr junk k e2"
    "int (length junk) = (if five then 0 else um_waste e1)" "int (length (uf_payload fr)) < 32768" "tb_size (last (um_pdus_to_mac_layer e2)) < 32768"
    using um_segment_pdu_run[OF c(1) ss] by blast
  have junk: "junk = []" using p(3) c(2) by (cases five) simp_all
  have q1: "um_input_sdus e1 = um_input_sdus e" "vt_us e1 = vt_us e" "um_pdus_to_mac_layer e1 = []" "um_protocol_state e1 = um_protocol_state e"
    using T(5) by (simp_all add: e1_def)
  have v: "vt_us e mod 32 = N mod 32" "vt_us e mod 1024 = N mod 1024" unfolding T(7) by (simp_all add: mod_mod_cancel)
  define bs where "bs = (if five then um_pdu_bytes 5 (N mod 32) fr else um_pdu_bytes 10 (N mod 1024) fr)"
  have S: "um_framed fr" "um_starts fr \<longleftrightarrow> um_part_of (um_input_sdus e) = []" "um_ends fr \<longleftrightarrow> um_part_of (um_input_sdus e2) = []"
    "sdus_of (um_part_of (um_input_sdus e)) (um_pieces fr) = (take k (um_waiting e), um_part_of (um_input_sdus e2))"
    "um_waiting e2 = drop k (um_waiting e)" "um_queue_ok e2"
    using p(2) by (simp_all add: um_sends_def um_waiting_def q1)
  obtain tb where tb: "tb_size tb = int (length bs)" "take (length bs) (tb_data tb) = bs"
    "e2 = e1\<lparr>um_input_sdus := um_input_sdus e2, um_buffer_occupancy := um_buffer_occupancy e2, vt_us := to_uint16 (vt_us e + 1),
       um_pdus_to_mac_layer := [tb]\<rparr>"
    using p(2) unfolding um_sends_def junk q1 v bs_def Let_def append_Nil2 append_Nil by blast
  have len: "0 < int (length bs)" "int (length bs) < 32768"
    using um_pdu_length(1)[OF S(1)] p(4,5) tb(1) arg_cong[OF tb(3), of um_pdus_to_mac_layer] by (auto simp: bs_def)
  have get: "rlc_um_get_pdus mem e1 f = Some e2"
  proof (cases five)
    case True
    then have "rlc_um_segment_5 mem e1 = Some e2" using c(1) ss p(1) by (simp add: rlc_um_segment_5_def um_tx_input_def)
    then show ?thesis using True T(1,3) q1(4) by (simp add: rlc_um_get_pdus_def um_tx_cfg_def e1_def)
  next
    case False
    then have "rlc_um_segment_10 mem e1 = Some e2" using c(1) ss p(1) by (simp add: rlc_um_segment_10_def um_tx_input_def)
    moreover have "tx_sn_length e2 = 10" using False T(1) arg_cong[OF tb(3), of tx_sn_length] by (simp add: um_tx_cfg_def e1_def)
    ultimately show ?thesis using False T(1,3) q1(4) by (simp add: rlc_um_get_pdus_def um_tx_cfg_def e1_def)
  qed
  have pdus: "um_pdus_to_mac_layer e2 = [tb]" using arg_cong[OF tb(3), of um_pdus_to_mac_layer] by simp
  have "to_int16 (tb_size tb) = int (length bs)" unfolding tb(1) by (rule to_int16_id) (use len in auto)
  then have "\<exists>md st'. rlc_um_mac_data_request mem e1 f = Some (md, e2\<lparr>um_pdus_to_mac_layer := [], um_stats := st'\<rparr>) \<and> md_data md = [tb]"
    using get len pdus by (simp add: rlc_um_mac_data_request_def Let_def exI[of _ "(um_stats e2)\<lparr>us_tx_data_pdu := us_tx_data_pdu (um_stats e2) + 1,
      us_tx_data_bytes := us_tx_data_bytes (um_stats e2) + word_of_int (int (length bs))\<rparr>"])
  then obtain md st' where md: "rlc_um_mac_data_request mem e1 f = Some (md, e2\<lparr>um_pdus_to_mac_layer := [], um_stats := st'\<rparr>)" "md_data md = [tb]" by blast
  define e3 where "e3 = e2\<lparr>um_pdus_to_mac_layer := [], um_stats := st'\<rparr>"
  let ?fs = "fs(N := fr)"
  have blk: "um_as_ind md = [um_block_len five ?fs N]" using md(2) tb by (simp add: um_as_ind_def um_block_len_def um_tb_def bs_def)
  have run: "um_send mem f n e = Some ([um_block_len five ?fs N], e3)" using st md(1) blk by (simp add: um_send_def e3_def)
  have e3: "um_input_sdus e3 = um_input_sdus e2" "um_waiting e3 = um_waiting e2" "um_queue_ok e3 = um_queue_ok e2" "vt_us e3 = to_uint16 (vt_us e + 1)"
    "um_tx_cfg five e3" "um_protocol_state e3 = RLC_DATA_TRANSFER_READY_STATE" "\<not> running (um_t_reordering e3)" "um_pdus_to_mac_layer e3 = []"
    using T(1,3,4) arg_cong[OF tb(3), of vt_us] arg_cong[OF tb(3), of tx_sn_length] arg_cong[OF tb(3), of tx_header_min_length_in_bytes]
      arg_cong[OF tb(3), of um_protocol_state] arg_cong[OF tb(3), of um_t_reordering]
    by (simp_all add: e3_def e1_def um_waiting_def um_queue_ok_def um_tx_cfg_def)
  have "\<forall>k. 0 \<le> k \<and> k < N \<longrightarrow> ?fs k = fs k" by simp
  then have "um_sent ?fs N = (ds, um_part_of (um_input_sdus e))" using um_sent_cong[of N ?fs fs] T(9) by simp
  then have sent: "um_sent ?fs (N + 1) = (ds @ take k (um_waiting e), um_part_of (um_input_sdus e3))"
    using um_sent_next[OF T(6), of ?fs] S(4) e3(1) by simp
  have size: "int (length (um_whole_of x)) = ums_size x" if "um_slot_ok x" for x using that by (auto simp: um_slot_ok_def um_whole_of_def)
  have old: "\<forall>d\<in>set (um_waiting e). int (length d) < 2048 \<and> int (length d) \<le> um_limit dp"
  proof
    fix d assume "d \<in> set (um_waiting e)"
    then obtain x where x: "x \<in> set (um_input_sdus e)" "d = um_whole_of x" by (auto simp: um_waiting_def)
    then have ok: "um_slot_ok x" using T(2) by (simp add: um_queue_ok_def)
    show "int (length d) < 2048 \<and> int (length d) \<le> um_limit dp" unfolding x(2) size[OF ok] using T(11) x(1) by blast
  qed
  have small: "ums_size x < 2048 \<and> ums_size x \<le> um_limit dp" if "x \<in> set (um_input_sdus e3)" for x
  proof -
    have "um_whole_of x \<in> set (um_waiting e)" using that S(5) e3(1) by (metis image_eqI in_set_dropD set_map um_waiting_def)
    then have "int (length (um_whole_of x)) < 2048 \<and> int (length (um_whole_of x)) \<le> um_limit dp" using old by blast
    moreover have ok: "um_slot_ok x" using that S(6) e3(1) by (simp add: um_queue_ok_def)
    ultimately show ?thesis unfolding size[OF ok] by blast
  qed
  have part: "int (length (um_part_of (um_input_sdus e3))) \<le> um_limit dp"
  proof (cases "um_input_sdus e3")
    case (Cons x xs)
    then have "um_slot_ok x" using S(6) e3(1) by (simp add: um_queue_ok_def)
    then show ?thesis using small[of x] Cons by (auto simp: um_slot_ok_def)
  qed (simp add: um_limit_def)
  have "um_fits dp ?fs (N + 1)"
    using T(8,9) old part unfolding um_sound_def um_fits_def sent by (auto dest: in_set_takeD)
  moreover have "um_joined ?fs (N + 1)" unfolding um_joined_def
  proof (intro allI impI)
    fix j assume j: "0 \<le> j \<and> j + 1 < N + 1" "um_starts (?fs (j + 1))"
    show "um_ends (?fs j)"
    proof (cases "j + 1 = N")
      case True
      then have "um_ends (fs (N - 1))" using j S(2) T(10) by simp
      then show ?thesis using True by auto
    qed (use j T(8) in \<open>auto simp: um_sound_def um_joined_def\<close>)
  qed
  ultimately have "um_sound dp ?fs (N + 1)" using T(8) S(1) p(4) by (auto simp: um_sound_def)
  moreover have "to_uint16 (vt_us e + 1) = (N + 1) mod 65536" unfolding T(7) to_uint16_def by (simp add: mod_add_left_eq)
  ultimately have "um_tx_inv five dp ?fs (N + 1) (ds @ take k (um_waiting e)) e3"
    unfolding um_tx_inv_def using e3 S(3,6) sent small T(6) by simp
  then show ?thesis using run e3(2) S(5) by (intro exI[of _ e3] exI[of _ fr] exI[of _ k]) simp
qed

subsection \<open>Runs of the transmitter\<close>

datatype um_tx_event = Um_submit frame um_data_req | Um_grant "nat \<Rightarrow> byte" frame int

fun um_tx_run :: "um_tx_event list \<Rightarrow> rlc_um_entity \<Rightarrow> (mac_tb_ind list \<times> rlc_um_entity) option" where
  "um_tx_run [] e = Some ([], e)"
| "um_tx_run (Um_submit f q # es) e = um_tx_run es (rlc_um_data_req e f q)"
| "um_tx_run (Um_grant mem f n # es) e =
     do { (tbs, e1) \<leftarrow> um_send mem f n e; (tbs', e2) \<leftarrow> um_tx_run es e1; Some (tbs @ tbs', e2) }"

fun um_tx_allowed :: "bool \<Rightarrow> bool \<Rightarrow> um_tx_event list \<Rightarrow> rlc_um_entity \<Rightarrow> bool" where
  "um_tx_allowed five dp [] e = True"
| "um_tx_allowed five dp (Um_submit f q # es) e = (um_valid_req dp q \<and> um_tx_allowed five dp es (rlc_um_data_req e f q))"
| "um_tx_allowed five dp (Um_grant mem f n # es) e =
     (um_can_send five n e \<and> (case um_send mem f n e of None \<Rightarrow> True | Some (tbs, e1) \<Rightarrow> um_tx_allowed five dp es e1))"

fun um_submitted :: "um_tx_event list \<Rightarrow> byte list list" where
  "um_submitted [] = []"
| "um_submitted (Um_submit f q # es) = um_req_bytes q # um_submitted es"
| "um_submitted (Um_grant mem f n # es) = um_submitted es"

lemma um_tx_run_inv:
  assumes "um_tx_inv five dp fs N ds e" "um_tx_allowed five dp es e"
  shows "\<exists>tbs e' fs' ds'. um_tx_run es e = Some (tbs, e') \<and> um_tx_inv five dp fs' (N + int (length tbs)) ds' e' \<and>
    (\<forall>k<N. fs' k = fs k) \<and> (\<forall>j<length tbs. tbs ! j = um_block_len five fs' (N + int j)) \<and>
    ds' @ um_waiting e' = ds @ um_waiting e @ um_submitted es"
  using assms
proof (induction es arbitrary: e fs N ds)
  case Nil
  then show ?case by (intro exI[of _ "[]"] exI[of _ e] exI[of _ fs] exI[of _ ds]) simp
next
  case (Cons ev es)
  show ?case
  proof (cases ev)
    case (Um_submit f q)
    let ?e = "rlc_um_data_req e f q"
    have q: "um_valid_req dp q" "um_tx_allowed five dp es ?e" using Cons.prems(2) Um_submit by simp_all
    note st = um_data_req_step[OF Cons.prems(1) q(1), of f]
    from Cons.IH[OF st(1) q(2)] show ?thesis using Um_submit st(2) by simp
  next
    case (Um_grant mem f n)
    then have c: "um_can_send five n e" using Cons.prems(2) by simp
    obtain e1 fr k where e1: "um_send mem f n e = Some ([um_block_len five (fs(N := fr)) N], e1)"
      "um_tx_inv five dp (fs(N := fr)) (N + 1) (ds @ take k (um_waiting e)) e1" "um_waiting e1 = drop k (um_waiting e)"
      using um_send_step[OF Cons.prems(1) c, of mem f] by blast
    have al: "um_tx_allowed five dp es e1" using Cons.prems(2) Um_grant e1(1) by simp
    obtain tbs e' fs' ds' where r: "um_tx_run es e1 = Some (tbs, e')" "um_tx_inv five dp fs' (N + 1 + int (length tbs)) ds' e'"
      "\<forall>k<N + 1. fs' k = (fs(N := fr)) k" "\<forall>j<length tbs. tbs ! j = um_block_len five fs' (N + 1 + int j)"
      "ds' @ um_waiting e' = (ds @ take k (um_waiting e)) @ um_waiting e1 @ um_submitted es"
      using Cons.IH[OF e1(2) al] by blast
    have b: "um_block_len five (fs(N := fr)) N = um_block_len five fs' N" using r(3) by (simp add: um_block_len_def)
    let ?tbs = "um_block_len five fs' N # tbs"
    have "?tbs ! j = um_block_len five fs' (N + int j)" if "j < length ?tbs" for j using that r(4) by (cases j) (auto simp: ac_simps)
    moreover have "um_tx_run (ev # es) e = Some (?tbs, e')" using Um_grant e1(1) r(1) b by simp
    moreover have "ds' @ um_waiting e' = ds @ um_waiting e @ um_submitted (ev # es)"
      unfolding r(5) e1(3) append_assoc using Um_grant by (simp flip: append_assoc)
    ultimately show ?thesis using r(2,3) by (intro exI[of _ ?tbs] exI[of _ e'] exI[of _ fs'] exI[of _ ds']) (auto simp: ac_simps)
  qed
qed

subsection \<open>Both ends set up\<close>

lemma um_set_up_tx:
  assumes "um_set_up coll enb ue f flag srb cfg rb e"
  shows "um_tx_inv (umc_sn_field_length cfg = 5) dp fs 0 [] e" "um_waiting e = []"
proof -
  have len: "umc_sn_field_length cfg = 5 \<or> umc_sn_field_length cfg = 10" using assms by (auto simp: um_set_up_def Let_def)
  note e = um_set_up_entity[OF assms]
  note defs = rlc_um_configure_def rlc_um_set_debug_infos_def rlc_um_init_def zero_um_entity_def cleared_um_entity_def Let_def
    um_configure_rx_def um_configure_tx_def rlc_um_reset_state_variables_def rlc_um_init_timer_reordering_def
  have f: "um_tx_cfg (umc_sn_field_length cfg = 5) e" "um_input_sdus e = []" "um_buffer_occupancy e = 0" "um_pdus_to_mac_layer e = []" "vt_us e = 0"
    "\<not> running (um_t_reordering e)" "um_protocol_state e = RLC_DATA_TRANSFER_READY_STATE"
    using len unfolding e by (auto simp: defs um_tx_cfg_def)
  then show "um_tx_inv (umc_sn_field_length cfg = 5) dp fs 0 [] e" "um_waiting e = []"
    by (auto simp: um_tx_inv_def um_queue_ok_def um_sound_def um_joined_def um_fits_def um_waiting_def um_limit_def)
qed

lemma um_block_len_eq:
  assumes "um_rx_cfg e" "five \<longleftrightarrow> rx_um_window_size e = 16"
  shows "um_block_len five fs n = um_block e fs n"
  using assms by (auto simp: um_block_len_def um_block_def um_rx_cfg_def)

lemma um_within_pos: "um_within W uh ns \<Longrightarrow> \<forall>n\<in>set ns. 0 \<le> n"
  by (induction ns arbitrary: uh) auto

lemma um_rx_run_cong: "\<forall>n\<in>set (um_arrived es). blk n = blk' n \<Longrightarrow> um_rx_run blk es e = um_rx_run blk' es e"
proof (induction es arbitrary: e)
  case (Cons ev es)
  show ?case
  proof (cases ev)
    case (Um_data f ns)
    then have m: "map blk ns = map blk' ns" using Cons.prems by simp
    have IH: "um_rx_run blk es = um_rx_run blk' es" using Um_data Cons by (auto simp: fun_eq_iff)
    show ?thesis unfolding Um_data um_rx_run.simps m IH ..
  next
    case (Um_status f n)
    have IH: "um_rx_run blk es = um_rx_run blk' es" using Um_status Cons by (auto simp: fun_eq_iff)
    show ?thesis unfolding Um_status um_rx_run.simps IH ..
  qed
qed simp

lemma um_sent_prefix:
  assumes "0 \<le> p" "p \<le> q"
  shows "prefix (fst (um_sent fs p)) (fst (um_sent fs q))"
  using assms(2)
proof (induction q rule: int_ge_induct)
  case (step q)
  note step.IH
  moreover have "prefix (fst (um_sent fs q)) (fst (um_sent fs (q + 1)))" using um_sent_next[of q fs] assms(1) step.hyps by (auto split: prod.splits)
  ultimately show ?case by (rule prefix_order.trans)
qed simp

lemma um_run_subsequence:
  assumes "um_set_up collt enbt uet ft flagt srbt cfgt rbt et" "um_set_up collr enbr uer fr flagr srbr cfgr rbr er"
    "umc_sn_field_length cfgt = umc_sn_field_length cfgr"
    "um_tx_allowed (umc_sn_field_length cfgt = 5) (to_int8 srbr = 0) txs et"
  shows "\<exists>tbs et'. um_tx_run txs et = Some (tbs, et') \<and>
    (\<forall>rxs. um_within (rx_um_window_size er) 0 (um_arrived rxs) \<and> (\<forall>n\<in>set (um_arrived rxs). n < int (length tbs)) \<longrightarrow>
      (\<exists>er'. um_rx_run (\<lambda>n. tbs ! nat n) rxs er = Some er' \<and> subseq (um_log_data_ind er') (um_submitted txs)))"
proof -
  let ?five = "umc_sn_field_length cfgt = 5" and ?dp = "to_int8 srbr = 0"
  obtain tbs et' fs ds where t: "um_tx_run txs et = Some (tbs, et')" "um_tx_inv ?five ?dp fs (int (length tbs)) ds et'"
    "\<forall>j<length tbs. tbs ! j = um_block_len ?five fs (int j)" "ds @ um_waiting et' = um_submitted txs"
    using um_tx_run_inv[OF um_set_up_tx(1)[OF assms(1)] assms(4)] unfolding um_set_up_tx(2)[OF assms(1)] add_0 append_Nil by blast
  let ?N = "int (length tbs)"
  have snd: "um_sound ?dp fs ?N" "fst (um_sent fs ?N) = ds" using t(2) by (simp_all add: um_tx_inv_def)
  note i = um_set_up_impl(1)[OF assms(2), of fs]
  have cfg: "um_rx_cfg er" using i um_invD(8) by (auto simp: um_impl_def)
  have five: "?five \<longleftrightarrow> rx_um_window_size er = 16" using um_set_up_impl(2)[OF assms(2)] assms(2,3) by (auto simp: um_set_up_def Let_def)
  have "\<exists>er'. um_rx_run (\<lambda>n. tbs ! nat n) rxs er = Some er' \<and> subseq (um_log_data_ind er') (um_submitted txs)"
    if w: "um_within (rx_um_window_size er) 0 (um_arrived rxs)" "\<forall>n\<in>set (um_arrived rxs). n < ?N" for rxs
  proof -
    have pos: "\<forall>n\<in>set (um_arrived rxs). 0 \<le> n" using w(1) by (rule um_within_pos)
    have "tbs ! nat n = um_block er fs n" if "n \<in> set (um_arrived rxs)" for n
    proof -
      have "0 \<le> n" "nat n < length tbs" using pos w(2) that by (auto simp: nat_less_iff)
      then show ?thesis using t(3) um_block_len_eq[OF cfg five, of fs n] by simp
    qed
    then have run: "um_rx_run (\<lambda>n. tbs ! nat n) rxs er = um_rx_run (um_block er fs) rxs er" by (intro um_rx_run_cong) simp
    obtain er' s' where r: "um_rx_run (um_block er fs) rxs er = Some er'" "um_impl ?dp fs s' er'" "fst (snd s') \<le> ?N"
      using um_rx_run_impl[OF i snd(1), unfolded fst_conv snd_conv, OF _ _ w refl] by auto
    obtain ur uh "have" where s: "s' = (ur, uh, have)" by (metis prod_cases3)
    have "um_inv ?dp fs ur uh have er'" using r(2) s by (simp add: um_impl_def)
    note v = um_invD[OF this]
    obtain S q where se: "um_sent fs ur = (S, q)" by fastforce
    have jo: "um_joined fs ur" using snd(1) v(2) r(3) s by (auto simp: um_sound_def um_joined_def)
    have "um_stream fs have ur = (um_log_data_ind er', um_acc er', reassembly_missing_sn_detected er')" using v(1) by (simp add: um_at_def)
    from um_stream_subseq[OF v(9) jo this se] have "subseq (um_log_data_ind er') S" by blast
    moreover have "prefix S ds" using um_sent_prefix[of ur ?N fs] v(2,9) r(3) s se snd(2) by simp
    then have "prefix S (um_submitted txs)" using t(4) by (metis prefix_append prefix_order.trans prefixI)
    ultimately have "subseq (um_log_data_ind er') (um_submitted txs)" by (meson prefix_imp_subseq subseq_order.order_trans)
    then show ?thesis using run r(1) by simp
  qed
  then show ?thesis using t(1) by blast
qed

text \<open>
  (C3) Whatever the channel does, UM delivers a subsequence of the submitted SDUs: none is altered, joined with another, repeated or out of order.
  Two entities are set up with the same length of the sequence number; the transmitter takes any sequence of SDUs
  (of less than 2048 bytes, which the receiver has room for) and of grants the link allows (something waits, at most 24 SDUs, and every byte of the grant can be used if the number has
  10 bits); of the PDUs it makes any arrive, lost, repeated and reordered within the window, while the timer may expire whenever the receiver looks at it.
\<close>

theorem um_link_subsequence:
  assumes "um_set_up collt enbt uet ft flagt srbt cfgt rbt et" "um_set_up collr enbr uer fr flagr srbr cfgr rbr er"
    "umc_sn_field_length cfgt = umc_sn_field_length cfgr"
    "um_tx_allowed (umc_sn_field_length cfgt = 5) (to_int8 srbr = 0) txs et"
  shows "\<exists>tbs et'. um_tx_run txs et = Some (tbs, et') \<and>
    (\<forall>rxs. um_within (rx_um_window_size er) 0 (um_arrived rxs) \<and> (\<forall>n\<in>set (um_arrived rxs). n < int (length tbs)) \<longrightarrow>
      (\<exists>er'. um_rx_run (\<lambda>n. tbs ! nat n) rxs er = Some er' \<and> subseq (um_log_data_ind er') (um_submitted txs)))"
  by (rule um_run_subsequence[OF assms])

subsection \<open>A channel that loses nothing\<close>

record um_grant =
  ug_mem :: "nat \<Rightarrow> byte"
  ug_frame :: frame
  ug_size :: int
  ug_rx_frame :: frame

definition um_transfer :: "um_grant \<Rightarrow> rlc_um_entity \<Rightarrow> rlc_um_entity \<Rightarrow> (rlc_um_entity \<times> rlc_um_entity) option" where
  "um_transfer g t r =
     do {
       (tbs, t1) \<leftarrow> um_send (ug_mem g) (ug_frame g) (ug_size g) t;
       r1 \<leftarrow> rlc_um_mac_data_indication r (ug_rx_frame g) tbs;
       Some (t1, r1)
     }"

text \<open>The receiver waits for the number that the transmitter sends next, and has everything before it.\<close>

definition um_sync :: "bool \<Rightarrow> bool \<Rightarrow> rlc_um_entity \<Rightarrow> rlc_um_entity \<Rightarrow> bool" where
  "um_sync five dp t r \<longleftrightarrow> (five \<longleftrightarrow> rx_um_window_size r = 16) \<and>
     (\<exists>fs N. um_tx_inv five dp fs N (um_log_data_ind r) t \<and> um_impl dp fs (N, N, {0..<N}) r)"

lemma um_impl_cong:
  assumes "um_impl dp fs (N, N, {0..<N}) e" "\<forall>k<N. fs' k = fs k"
  shows "um_impl dp fs' (N, N, {0..<N}) e"
proof -
  have str: "um_stream fs' {0..<N} N = um_stream fs {0..<N} N"
    unfolding um_stream_def by (rule fold_cong) (use assms(2) in \<open>auto simp: um_step_sdus_def\<close>)
  have blk: "um_block e fs' k = um_block e fs k" if "k \<in> {0..<N}" for k using assms(2) that by (simp add: um_block_def)
  then have "(if k \<in> {0..<N} then Some (um_block e fs' k) else None) = (if k \<in> {0..<N} then Some (um_block e fs k) else None)" for k by simp
  then show ?thesis using assms(1) unfolding um_impl_def prod.case um_inv_def um_at_def str by simp
qed

lemma um_receive_next:
  assumes "um_impl dp fs (N, N, {0..<N}) r" "0 \<le> N" "um_sound dp fs (N + 1)"
  shows "\<exists>r'. rlc_um_mac_data_indication r f [um_block r fs N] = Some r' \<and> um_impl dp fs (N + 1, N + 1, {0..<N + 1}) r' \<and>
    rx_um_window_size r' = rx_um_window_size r"
proof -
  let ?W = "rx_um_window_size r"
  have i: "um_inv dp fs N N {0..<N} r" "um_protocol_state r = RLC_DATA_TRANSFER_READY_STATE" using assms(1) by (simp_all add: um_impl_def)
  have W: "0 < ?W" using um_rx_cfgD(2)[OF um_invD(8)[OF i(1)]] by simp
  have ins: "insert N {0..<N} = {0..<N + 1}" using assms(2) by auto
  have "first_missing {0..<N + 1} (N + 1) (N + 1) = N + 1" using first_missing_range[of "N + 1" "N + 1" "{0..<N + 1}"] by auto
  then have a: "um_arrive ?W N (N, N, {0..<N}) = (N + 1, N + 1, {0..<N + 1})" using W by (simp add: um_arrive_def Let_def ins max_def)
  have "\<exists>e'. um_receive_tb f (um_block r fs N) r = Some e' \<and> um_impl dp fs (um_arrive ?W N (N, N, {0..<N})) e' \<and>
      rx_um_window_size e' = ?W \<and> um_block e' = um_block r"
    by (rule um_receive_tb_run[OF assms(1,3)]) (use assms(2) W in auto)
  then obtain r1 where r1: "um_receive_tb f (um_block r fs N) r = Some r1" "um_impl dp fs (N + 1, N + 1, {0..<N + 1}) r1" "rx_um_window_size r1 = ?W"
    unfolding a by blast
  have i1: "um_inv dp fs (N + 1) (N + 1) {0..<N + 1} r1" "um_protocol_state r1 = RLC_DATA_TRANSFER_READY_STATE" using r1(2) by (simp_all add: um_impl_def)
  have "um_good dp fs {0..<N + 1} (N + 1)" by (rule um_sound_good[OF assms(3)]) auto
  then obtain r2 ur' where r2: "rlc_um_check_timer_dar_time_out r1 f = Some r2" "um_inv dp fs ur' (N + 1) {0..<N + 1} r2"
    "ur' = N + 1 \<or> (\<exists>ux. N + 1 \<le> ux \<and> ux \<le> N + 1 \<and> ur' = first_missing {0..<N + 1} (N + 1) ux)" "um_protocol_state r2 = um_protocol_state r1"
    "rx_um_window_size r2 = rx_um_window_size r1" using um_check_timer_run[OF i1(1), of f] by blast
  have "ur' = N + 1" using r2(3) first_missing_range[of "N + 1" "N + 1" "{0..<N + 1}"] by auto
  then have "um_impl dp fs (N + 1, N + 1, {0..<N + 1}) r2" using r2(2,4) i1(2) by (simp add: um_impl_def)
  moreover have "rlc_um_mac_data_indication r f [um_block r fs N] = Some r2"
    using r1(1) r2(1) i(2) by (simp add: rlc_um_mac_data_indication_def rlc_um_rx_def)
  ultimately show ?thesis using r1(3) r2(5) by auto
qed

lemma um_transfer_step:
  assumes "um_sync five dp t r" "um_can_send five (ug_size g) t"
  shows "\<exists>t' r'. um_transfer g t r = Some (t', r') \<and> um_sync five dp t' r' \<and> um_log_data_ind r' @ um_waiting t' = um_log_data_ind r @ um_waiting t"
proof -
  obtain fs N where s: "five \<longleftrightarrow> rx_um_window_size r = 16" "um_tx_inv five dp fs N (um_log_data_ind r) t" "um_impl dp fs (N, N, {0..<N}) r"
    using assms(1) by (auto simp: um_sync_def)
  obtain t' fr k where t: "um_send (ug_mem g) (ug_frame g) (ug_size g) t = Some ([um_block_len five (fs(N := fr)) N], t')"
    "um_tx_inv five dp (fs(N := fr)) (N + 1) (um_log_data_ind r @ take k (um_waiting t)) t'" "um_waiting t' = drop k (um_waiting t)"
    using um_send_step[OF s(2) assms(2)] by blast
  let ?fs = "fs(N := fr)"
  have sound: "um_sound dp ?fs (N + 1)" "0 \<le> N" using t(2) s(2) by (simp_all add: um_tx_inv_def)
  have i: "um_impl dp ?fs (N, N, {0..<N}) r" by (rule um_impl_cong[OF s(3)]) simp
  have cfg: "um_rx_cfg r" using i um_invD(8) by (auto simp: um_impl_def)
  obtain r' where r': "rlc_um_mac_data_indication r (ug_rx_frame g) [um_block r ?fs N] = Some r'" "um_impl dp ?fs (N + 1, N + 1, {0..<N + 1}) r'"
    "rx_um_window_size r' = rx_um_window_size r" using um_receive_next[OF i sound(2,1), of "ug_rx_frame g"] by blast
  have "um_inv dp ?fs (N + 1) (N + 1) {0..<N + 1} r'" using r'(2) by (simp add: um_impl_def)
  then have "um_stream ?fs {0..<N + 1} (N + 1) = (um_log_data_ind r', um_acc r', reassembly_missing_sn_detected r')" by (simp add: um_inv_def um_at_def)
  moreover have "um_stream ?fs {0..<N + 1} (N + 1) = (fst (um_sent ?fs (N + 1)), snd (um_sent ?fs (N + 1)), False)"
    by (rule um_stream_complete) (use sound in \<open>auto simp: um_sound_def\<close>)
  ultimately have log: "um_log_data_ind r' = um_log_data_ind r @ take k (um_waiting t)" using t(2) by (simp add: um_tx_inv_def)
  have "um_transfer g t r = Some (t', r')" using t(1) r'(1) unfolding um_block_len_eq[OF cfg s(1)] by (simp add: um_transfer_def)
  moreover have "um_sync five dp t' r'" using s(1) t(2) r'(2,3) unfolding um_sync_def log by auto
  ultimately show ?thesis using t(3) by (simp add: log)
qed

definition um_submit :: "rlc_um_entity \<Rightarrow> frame \<times> um_data_req \<Rightarrow> rlc_um_entity option" where
  "um_submit t q = Some (rlc_um_data_req t (fst q) (snd q))"

lemma um_submit_step:
  assumes "um_sync five dp t r" "um_valid_req dp (snd q)"
  shows "\<exists>t'. um_submit t q = Some t' \<and> um_sync five dp t' r \<and> um_waiting t' = um_waiting t @ [um_req_bytes (snd q)]"
proof -
  obtain fs N where s: "five \<longleftrightarrow> rx_um_window_size r = 16" "um_tx_inv five dp fs N (um_log_data_ind r) t" "um_impl dp fs (N, N, {0..<N}) r"
    using assms(1) by (auto simp: um_sync_def)
  note st = um_data_req_step[OF s(2) assms(2), of "fst q"]
  show ?thesis unfolding um_submit_def um_sync_def using s(1,3) st by blast
qed

interpretation um_link: lossless_link "um_sync five dp" um_waiting um_log_data_ind "\<lambda>q. um_req_bytes (snd q)"
  "\<lambda>t q. um_valid_req dp (snd q)" "\<lambda>g t. um_can_send five (ug_size g) t" um_submit um_transfer for five dp
proof unfold_locales
  show "\<exists>t'. um_submit t q = Some t' \<and> um_sync five dp t' r \<and> um_waiting t' = um_waiting t @ [um_req_bytes (snd q)]"
    if "um_sync five dp t r" "um_valid_req dp (snd q)" for t r q by (rule um_submit_step[OF that])
  show "\<exists>t' r'. um_transfer g t r = Some (t', r') \<and> um_sync five dp t' r' \<and> um_log_data_ind r' @ um_waiting t' = um_log_data_ind r @ um_waiting t"
    if "um_sync five dp t r" "um_can_send five (ug_size g) t" for t r g by (rule um_transfer_step[OF that])
qed

text \<open>
  (C5) Over a channel that loses nothing UM delivers every SDU in order. Two entities are set up with the same length of the sequence number;
  any sequence of submitted SDUs and of grants the link allows (as for the subsequence above) runs without a failed assertion, every PDU being handed to the receiver; what the
  receiver delivered, followed by what still waits at the transmitter, is what was submitted.
\<close>

theorem um_link_delivers:
  assumes "um_set_up collt enbt uet ft flagt srbt cfgt rbt t" "um_set_up collr enbr uer fr flagr srbr cfgr rbr r"
    "umc_sn_field_length cfgt = umc_sn_field_length cfgr"
    "link_allowed (\<lambda>t q. um_valid_req (to_int8 srbr = 0) (snd q)) (\<lambda>g t. um_can_send (umc_sn_field_length cfgt = 5) (ug_size g) t)
       um_submit um_transfer es t r"
  shows "\<exists>t' r'. link_run um_submit um_transfer es t r = Some (t', r') \<and>
    um_log_data_ind r' @ um_waiting t' = map (\<lambda>q. um_req_bytes (snd q)) (submitted es)"
proof -
  let ?five = "umc_sn_field_length cfgt = 5"
  have log: "um_log_data_ind r = []" using um_set_up_impl(1)[OF assms(2), of "\<lambda>_. undefined"] by (simp add: um_impl_def um_inv_def um_at_def)
  have five: "?five \<longleftrightarrow> rx_um_window_size r = 16" using um_set_up_impl(2)[OF assms(2)] assms(2,3) by (auto simp: um_set_up_def Let_def)
  have "um_sync ?five (to_int8 srbr = 0) t r" unfolding um_sync_def log
    using five um_set_up_tx(1)[OF assms(1)] um_set_up_impl(1)[OF assms(2)] by fastforce
  from um_link.run_delivers_prefix[OF this log um_set_up_tx(2)[OF assms(1)] assms(4)] show ?thesis .
qed

text \<open>One SDU with the 5-bit number.\<close>

definition um_example_req :: um_data_req where
  "um_example_req = \<lparr>udr_data_size = 3, udr_bytes = [1, 2, 3, 4]\<rparr>"

lemma um_example_allowed: "um_valid_req dp um_example_req" "um_can_send True 20 (rlc_um_data_req (um_example 5) 0 um_example_req)"
proof -
  show "um_valid_req dp um_example_req" by (simp add: um_valid_req_def um_example_req_def um_limit_def)
  have "um_tx_cfg True (um_example 5)" "um_input_sdus (um_example 5) = []" "um_buffer_occupancy (um_example 5) = 0" "vt_us (um_example 5) = 0"
    using um_set_up_tx(1)[OF um_example_set_up, of 5 True undefined] um_set_up_tx(2)[OF um_example_set_up, of 5]
    by (auto simp: um_tx_inv_def um_queue_ok_def um_waiting_def um_example_cfg_def)
  then show "um_can_send True 20 (rlc_um_data_req (um_example 5) 0 um_example_req)"
    by (simp add: um_can_send_def um_tx_input_def um_tx_cfg_def um_queue_ok_def um_slot_ok_def rlc_um_data_req_def um_example_req_def)
qed

theorem um_link_subsequence_witness:
  "\<exists>tbs et'. um_tx_run [Um_submit 0 um_example_req, Um_grant (\<lambda>_. 0) 1 20] (um_example 5) = Some (tbs, et') \<and>
    (\<forall>rxs. um_within (rx_um_window_size (um_example 5)) 0 (um_arrived rxs) \<and> (\<forall>n\<in>set (um_arrived rxs). n < int (length tbs)) \<longrightarrow>
      (\<exists>er'. um_rx_run (\<lambda>n. tbs ! nat n) rxs (um_example 5) = Some er' \<and> subseq (um_log_data_ind er') [[1, 2, 3]]))"
  using um_link_subsequence[OF um_example_set_up[of 5] um_example_set_up[of 5] refl, where txs = "[Um_submit 0 um_example_req, Um_grant (\<lambda>_. 0) 1 20]"] um_example_allowed
  by (auto simp: um_example_cfg_def um_example_req_def um_req_bytes_def split: option.splits)

theorem um_link_delivers_witness:
  "\<exists>t' r'. link_run um_submit um_transfer [Submit (0, um_example_req), Transfer \<lparr>ug_mem = \<lambda>_. 0, ug_frame = 1, ug_size = 20, ug_rx_frame = 1\<rparr>]
     (um_example 5) (um_example 5) = Some (t', r') \<and> um_log_data_ind r' @ um_waiting t' = [[1, 2, 3]]"
  using um_link_delivers[OF um_example_set_up[of 5] um_example_set_up[of 5] refl,
      where es = "[Submit (0, um_example_req), Transfer \<lparr>ug_mem = \<lambda>_. 0, ug_frame = 1, ug_size = 20, ug_rx_frame = 1\<rparr>]"] um_example_allowed
  by (auto simp: um_submit_def um_example_cfg_def um_example_req_def um_req_bytes_def split: option.splits)

end
