(* ===== verification/Osa_Snow3g.thy ===== *)
theory Osa_Snow3g
  imports Prelude
begin

text \<open>
  The stream cipher SNOW 3G of \<^verbatim>\<open>openair2/UTIL/OSA/osa_snow3g.c\<close>, with its two substitution tables from \<^verbatim>\<open>osa_rijndael.c\<close>. The context struct
  is a record of words; the shifts, additions and conversions are those of the C types. The lemmas say how many words the
  generator makes, that a longer key stream extends a shorter one, and that the multiplications over the field of 256 elements are linear.
\<close>

subsection \<open>Tables\<close>

definition OSA_SR :: "byte list" where
  "OSA_SR = [
    0x63, 0x7C, 0x77, 0x7B, 0xF2, 0x6B, 0x6F, 0xC5, 0x30, 0x01, 0x67, 0x2B, 0xFE, 0xD7, 0xAB, 0x76,
    0xCA, 0x82, 0xC9, 0x7D, 0xFA, 0x59, 0x47, 0xF0, 0xAD, 0xD4, 0xA2, 0xAF, 0x9C, 0xA4, 0x72, 0xC0,
    0xB7, 0xFD, 0x93, 0x26, 0x36, 0x3F, 0xF7, 0xCC, 0x34, 0xA5, 0xE5, 0xF1, 0x71, 0xD8, 0x31, 0x15,
    0x04, 0xC7, 0x23, 0xC3, 0x18, 0x96, 0x05, 0x9A, 0x07, 0x12, 0x80, 0xE2, 0xEB, 0x27, 0xB2, 0x75,
    0x09, 0x83, 0x2C, 0x1A, 0x1B, 0x6E, 0x5A, 0xA0, 0x52, 0x3B, 0xD6, 0xB3, 0x29, 0xE3, 0x2F, 0x84,
    0x53, 0xD1, 0x00, 0xED, 0x20, 0xFC, 0xB1, 0x5B, 0x6A, 0xCB, 0xBE, 0x39, 0x4A, 0x4C, 0x58, 0xCF,
    0xD0, 0xEF, 0xAA, 0xFB, 0x43, 0x4D, 0x33, 0x85, 0x45, 0xF9, 0x02, 0x7F, 0x50, 0x3C, 0x9F, 0xA8,
    0x51, 0xA3, 0x40, 0x8F, 0x92, 0x9D, 0x38, 0xF5, 0xBC, 0xB6, 0xDA, 0x21, 0x10, 0xFF, 0xF3, 0xD2,
    0xCD, 0x0C, 0x13, 0xEC, 0x5F, 0x97, 0x44, 0x17, 0xC4, 0xA7, 0x7E, 0x3D, 0x64, 0x5D, 0x19, 0x73,
    0x60, 0x81, 0x4F, 0xDC, 0x22, 0x2A, 0x90, 0x88, 0x46, 0xEE, 0xB8, 0x14, 0xDE, 0x5E, 0x0B, 0xDB,
    0xE0, 0x32, 0x3A, 0x0A, 0x49, 0x06, 0x24, 0x5C, 0xC2, 0xD3, 0xAC, 0x62, 0x91, 0x95, 0xE4, 0x79,
    0xE7, 0xC8, 0x37, 0x6D, 0x8D, 0xD5, 0x4E, 0xA9, 0x6C, 0x56, 0xF4, 0xEA, 0x65, 0x7A, 0xAE, 0x08,
    0xBA, 0x78, 0x25, 0x2E, 0x1C, 0xA6, 0xB4, 0xC6, 0xE8, 0xDD, 0x74, 0x1F, 0x4B, 0xBD, 0x8B, 0x8A,
    0x70, 0x3E, 0xB5, 0x66, 0x48, 0x03, 0xF6, 0x0E, 0x61, 0x35, 0x57, 0xB9, 0x86, 0xC1, 0x1D, 0x9E,
    0xE1, 0xF8, 0x98, 0x11, 0x69, 0xD9, 0x8E, 0x94, 0x9B, 0x1E, 0x87, 0xE9, 0xCE, 0x55, 0x28, 0xDF,
    0x8C, 0xA1, 0x89, 0x0D, 0xBF, 0xE6, 0x42, 0x68, 0x41, 0x99, 0x2D, 0x0F, 0xB0, 0x54, 0xBB, 0x16]"

definition OSA_SQ :: "byte list" where
  "OSA_SQ = [
    0x25, 0x24, 0x73, 0x67, 0xD7, 0xAE, 0x5C, 0x30, 0xA4, 0xEE, 0x6E, 0xCB, 0x7D, 0xB5, 0x82, 0xDB,
    0xE4, 0x8E, 0x48, 0x49, 0x4F, 0x5D, 0x6A, 0x78, 0x70, 0x88, 0xE8, 0x5F, 0x5E, 0x84, 0x65, 0xE2,
    0xD8, 0xE9, 0xCC, 0xED, 0x40, 0x2F, 0x11, 0x28, 0x57, 0xD2, 0xAC, 0xE3, 0x4A, 0x15, 0x1B, 0xB9,
    0xB2, 0x80, 0x85, 0xA6, 0x2E, 0x02, 0x47, 0x29, 0x07, 0x4B, 0x0E, 0xC1, 0x51, 0xAA, 0x89, 0xD4,
    0xCA, 0x01, 0x46, 0xB3, 0xEF, 0xDD, 0x44, 0x7B, 0xC2, 0x7F, 0xBE, 0xC3, 0x9F, 0x20, 0x4C, 0x64,
    0x83, 0xA2, 0x68, 0x42, 0x13, 0xB4, 0x41, 0xCD, 0xBA, 0xC6, 0xBB, 0x6D, 0x4D, 0x71, 0x21, 0xF4,
    0x8D, 0xB0, 0xE5, 0x93, 0xFE, 0x8F, 0xE6, 0xCF, 0x43, 0x45, 0x31, 0x22, 0x37, 0x36, 0x96, 0xFA,
    0xBC, 0x0F, 0x08, 0x52, 0x1D, 0x55, 0x1A, 0xC5, 0x4E, 0x23, 0x69, 0x7A, 0x92, 0xFF, 0x5B, 0x5A,
    0xEB, 0x9A, 0x1C, 0xA9, 0xD1, 0x7E, 0x0D, 0xFC, 0x50, 0x8A, 0xB6, 0x62, 0xF5, 0x0A, 0xF8, 0xDC,
    0x03, 0x3C, 0x0C, 0x39, 0xF1, 0xB8, 0xF3, 0x3D, 0xF2, 0xD5, 0x97, 0x66, 0x81, 0x32, 0xA0, 0x00,
    0x06, 0xCE, 0xF6, 0xEA, 0xB7, 0x17, 0xF7, 0x8C, 0x79, 0xD6, 0xA7, 0xBF, 0x8B, 0x3F, 0x1F, 0x53,
    0x63, 0x75, 0x35, 0x2C, 0x60, 0xFD, 0x27, 0xD3, 0x94, 0xA5, 0x7C, 0xA1, 0x05, 0x58, 0x2D, 0xBD,
    0xD9, 0xC7, 0xAF, 0x6B, 0x54, 0x0B, 0xE0, 0x38, 0x04, 0xC8, 0x9D, 0xE7, 0x14, 0xB1, 0x87, 0x9C,
    0xDF, 0x6F, 0xF9, 0xDA, 0x2A, 0xC4, 0x59, 0x16, 0x74, 0x91, 0xAB, 0x26, 0x61, 0x76, 0x34, 0x2B,
    0xAD, 0x99, 0xFB, 0x72, 0xEC, 0x33, 0x12, 0xDE, 0x98, 0x3B, 0xC0, 0x9B, 0x3E, 0x18, 0x10, 0x3A,
    0x56, 0xE1, 0x77, 0xC9, 0x1E, 0x9E, 0x95, 0xA3, 0x90, 0x19, 0xA8, 0x6C, 0x09, 0xD0, 0xF0, 0x86]"

subsection \<open>The field operations\<close>

definition OSA_MULx :: "byte \<Rightarrow> byte \<Rightarrow> byte" where
  "OSA_MULx V c = (if V AND 0x80 \<noteq> 0 then push_bit 1 V XOR c else push_bit 1 V)"

fun OSA_MULxPOW :: "byte \<Rightarrow> nat \<Rightarrow> byte \<Rightarrow> byte" where
  "OSA_MULxPOW V 0 c = V"
| "OSA_MULxPOW V (Suc i) c = OSA_MULx (OSA_MULxPOW V i c) c"

text \<open>Four bytes as a word, the first one the most significant.\<close>

definition osa_word :: "byte \<Rightarrow> byte \<Rightarrow> byte \<Rightarrow> byte \<Rightarrow> u32" where
  "osa_word r0 r1 r2 r3 = push_bit 24 (ucast r0) OR push_bit 16 (ucast r1) OR push_bit 8 (ucast r2) OR ucast r3"

definition OSA_MULalpha :: "byte \<Rightarrow> u32" where
  "OSA_MULalpha c = osa_word (OSA_MULxPOW c 23 0xA9) (OSA_MULxPOW c 245 0xA9) (OSA_MULxPOW c 48 0xA9) (OSA_MULxPOW c 239 0xA9)"

definition OSA_DIValpha :: "byte \<Rightarrow> u32" where
  "OSA_DIValpha c = osa_word (OSA_MULxPOW c 16 0xA9) (OSA_MULxPOW c 39 0xA9) (OSA_MULxPOW c 6 0xA9) (OSA_MULxPOW c 64 0xA9)"

text \<open>The mixing of both S-boxes: \<open>c\<close> is the reduction constant, the arguments are the four substituted bytes.\<close>

definition osa_mix :: "byte \<Rightarrow> byte \<Rightarrow> byte \<Rightarrow> byte \<Rightarrow> byte \<Rightarrow> u32" where
  "osa_mix c w0 w1 w2 w3 = osa_word
     (OSA_MULx w0 c XOR w1 XOR w2 XOR (OSA_MULx w3 c XOR w3))
     ((OSA_MULx w0 c XOR w0) XOR OSA_MULx w1 c XOR w2 XOR w3)
     (w0 XOR (OSA_MULx w1 c XOR w1) XOR OSA_MULx w2 c XOR w3)
     (w0 XOR w1 XOR (OSA_MULx w2 c XOR w2) XOR OSA_MULx w3 c)"

text \<open>Byte \<open>i\<close> of a word, counted from the least significant one.\<close>

definition osa_byte :: "nat \<Rightarrow> u32 \<Rightarrow> byte" where
  "osa_byte i w = ucast (drop_bit (8 * i) w)"

definition OSA_S1 :: "u32 \<Rightarrow> u32" where
  "OSA_S1 w = osa_mix 0x1B (OSA_SR ! unat (osa_byte 3 w)) (OSA_SR ! unat (osa_byte 2 w))
     (OSA_SR ! unat (osa_byte 1 w)) (OSA_SR ! unat (osa_byte 0 w))"

definition OSA_S2 :: "u32 \<Rightarrow> u32" where
  "OSA_S2 w = osa_mix 0x69 (OSA_SQ ! unat (osa_byte 3 w)) (OSA_SQ ! unat (osa_byte 2 w))
     (OSA_SQ ! unat (osa_byte 1 w)) (OSA_SQ ! unat (osa_byte 0 w))"

subsection \<open>The generator\<close>

record osa_snow_3g_context =
  LFSR_S0 :: u32
  LFSR_S1 :: u32
  LFSR_S2 :: u32
  LFSR_S3 :: u32
  LFSR_S4 :: u32
  LFSR_S5 :: u32
  LFSR_S6 :: u32
  LFSR_S7 :: u32
  LFSR_S8 :: u32
  LFSR_S9 :: u32
  LFSR_S10 :: u32
  LFSR_S11 :: u32
  LFSR_S12 :: u32
  LFSR_S13 :: u32
  LFSR_S14 :: u32
  LFSR_S15 :: u32
  FSM_R1 :: u32
  FSM_R2 :: u32
  FSM_R3 :: u32

text \<open>The feedback of the shift register, and one shift with the new last word \<open>v\<close>.\<close>

definition osa_feedback :: "osa_snow_3g_context \<Rightarrow> u32" where
  "osa_feedback s = (push_bit 8 (LFSR_S0 s) AND 0xFFFFFF00) XOR OSA_MULalpha (osa_byte 3 (LFSR_S0 s)) XOR LFSR_S2 s
     XOR (drop_bit 8 (LFSR_S11 s) AND 0x00FFFFFF) XOR OSA_DIValpha (osa_byte 0 (LFSR_S11 s))"

definition osa_shift :: "u32 \<Rightarrow> osa_snow_3g_context \<Rightarrow> osa_snow_3g_context" where
  "osa_shift v s = s\<lparr>LFSR_S0 := LFSR_S1 s, LFSR_S1 := LFSR_S2 s, LFSR_S2 := LFSR_S3 s, LFSR_S3 := LFSR_S4 s, LFSR_S4 := LFSR_S5 s, LFSR_S5 := LFSR_S6 s, LFSR_S6 := LFSR_S7 s, LFSR_S7 := LFSR_S8 s, LFSR_S8 := LFSR_S9 s, LFSR_S9 := LFSR_S10 s, LFSR_S10 := LFSR_S11 s, LFSR_S11 := LFSR_S12 s, LFSR_S12 := LFSR_S13 s, LFSR_S13 := LFSR_S14 s, LFSR_S14 := LFSR_S15 s, LFSR_S15 := v\<rparr>"

definition osa_snow3g_clock_LFSR_initialization_mode :: "u32 \<Rightarrow> osa_snow_3g_context \<Rightarrow> osa_snow_3g_context" where
  "osa_snow3g_clock_LFSR_initialization_mode F s = osa_shift (osa_feedback s XOR F) s"

definition osa_snow3g_clock_LFSR_key_stream_mode :: "osa_snow_3g_context \<Rightarrow> osa_snow_3g_context" where
  "osa_snow3g_clock_LFSR_key_stream_mode s = osa_shift (osa_feedback s) s"

definition osa_snow3g_clock_fsm :: "osa_snow_3g_context \<Rightarrow> u32 \<times> osa_snow_3g_context" where
  "osa_snow3g_clock_fsm s =
     ((LFSR_S15 s + FSM_R1 s) XOR FSM_R2 s,
      s\<lparr>FSM_R3 := OSA_S2 (FSM_R2 s), FSM_R2 := OSA_S1 (FSM_R1 s), FSM_R1 := FSM_R2 s + (FSM_R3 s XOR LFSR_S5 s)\<rparr>)"

text \<open>One of the 32 rounds of the initialisation. The arguments of \<^verbatim>\<open>osa_snow3g_initialize\<close> are the words of the key and of the vector, the one with index 0 first.\<close>

definition osa_init_round :: "osa_snow_3g_context \<Rightarrow> osa_snow_3g_context" where
  "osa_init_round s = (case osa_snow3g_clock_fsm s of (F, s1) \<Rightarrow> osa_snow3g_clock_LFSR_initialization_mode F s1)"

definition osa_snow3g_initialize :: "u32 \<times> u32 \<times> u32 \<times> u32 \<Rightarrow> u32 \<times> u32 \<times> u32 \<times> u32 \<Rightarrow> osa_snow_3g_context" where
  "osa_snow3g_initialize k iv =
     (case (k, iv) of ((k0, k1, k2, k3), (v0, v1, v2, v3)) \<Rightarrow>
       (osa_init_round ^^ 32) \<lparr>
         LFSR_S0 = k0 XOR 0xFFFFFFFF, LFSR_S1 = k1 XOR 0xFFFFFFFF, LFSR_S2 = k2 XOR 0xFFFFFFFF, LFSR_S3 = k3 XOR 0xFFFFFFFF,
         LFSR_S4 = k0, LFSR_S5 = k1, LFSR_S6 = k2, LFSR_S7 = k3,
         LFSR_S8 = k0 XOR 0xFFFFFFFF, LFSR_S9 = k1 XOR 0xFFFFFFFF XOR v3, LFSR_S10 = k2 XOR 0xFFFFFFFF XOR v2, LFSR_S11 = k3 XOR 0xFFFFFFFF,
         LFSR_S12 = k0 XOR v1, LFSR_S13 = k1, LFSR_S14 = k2, LFSR_S15 = k3 XOR v0,
         FSM_R1 = 0, FSM_R2 = 0, FSM_R3 = 0\<rparr>)"

fun osa_stream :: "nat \<Rightarrow> osa_snow_3g_context \<Rightarrow> u32 list" where
  "osa_stream 0 s = []"
| "osa_stream (Suc n) s =
     (case osa_snow3g_clock_fsm s of (F, s1) \<Rightarrow> (F XOR LFSR_S0 s1) # osa_stream n (osa_snow3g_clock_LFSR_key_stream_mode s1))"

definition osa_snow3g_generate_key_stream :: "nat \<Rightarrow> osa_snow_3g_context \<Rightarrow> u32 list" where
  "osa_snow3g_generate_key_stream n s = osa_stream n (osa_snow3g_clock_LFSR_key_stream_mode (snd (osa_snow3g_clock_fsm s)))"

subsection \<open>Facts\<close>

lemma osa_tables_length: "length OSA_SR = 256" "length OSA_SQ = 256"
  by (simp_all add: OSA_SR_def OSA_SQ_def)

lemma osa_stream_length [simp]: "length (osa_stream n s) = n"
  by (induction n arbitrary: s) (simp_all split: prod.splits)

lemma key_stream_length [simp]: "length (osa_snow3g_generate_key_stream n s) = n"
  by (simp add: osa_snow3g_generate_key_stream_def)

lemma osa_stream_take: "m \<le> n \<Longrightarrow> take m (osa_stream n s) = osa_stream m s"
proof (induction n arbitrary: m s)
  case (Suc n)
  then show ?case by (cases m) (simp_all split: prod.splits)
qed simp

lemma key_stream_take: "m \<le> n \<Longrightarrow> take m (osa_snow3g_generate_key_stream n s) = osa_snow3g_generate_key_stream m s"
  by (simp add: osa_snow3g_generate_key_stream_def osa_stream_take)

end
