(* ===== verification/Osa_Eea.thy ===== *)
theory Osa_Eea
  imports Osa_Snow3g
begin

text \<open>
  The ciphers of \<^verbatim>\<open>openair2/UTIL/OSA/osa_stream_eea.c\<close>. The bytes behind \<^verbatim>\<open>message\<close> up to the end of its memory block are a list; a read or a write
  behind them is \<open>None\<close>. The counter mode of AES is the library nettle: the function \<open>ctr\<close> takes the key, the counter block and the
  input. The locale \<open>stream_cipher\<close> says what a user of a cipher relies on, and the ciphers of the code are interpretations of it.
\<close>

text \<open>The pointer \<^verbatim>\<open>*out\<close>: null, the message itself, or another buffer.\<close>

datatype osa_out = Out_null | Out_message | Out_buffer "byte list"

record stream_cipher_params =
  sc_key :: "byte list"
  sc_key_length :: nat
  sc_count :: u32
  sc_bearer :: byte
  sc_direction :: byte
  sc_blength :: u32

type_synonym ctr_crypt = "byte list \<Rightarrow> byte list \<Rightarrow> byte list \<Rightarrow> byte list"

subsection \<open>Bytes and words\<close>

text \<open>A word stored with its most significant byte first, which is what \<^verbatim>\<open>hton_int32\<close> leaves in memory on a little-endian machine.\<close>

definition be_bytes :: "u32 \<Rightarrow> byte list" where
  "be_bytes w = [osa_byte 3 w, osa_byte 2 w, osa_byte 1 w, osa_byte 0 w]"

text \<open>The word that \<^verbatim>\<open>memcpy\<close> and \<^verbatim>\<open>hton_int32\<close> read at byte \<open>i\<close>.\<close>

definition be_word :: "byte list \<Rightarrow> nat \<Rightarrow> u32" where
  "be_word bs i = osa_word (bs ! i) (bs ! (i + 1)) (bs ! (i + 2)) (bs ! (i + 3))"

definition xor_bytes :: "byte list \<Rightarrow> byte list \<Rightarrow> byte list" where
  "xor_bytes a b = map2 (XOR) a b"

text \<open>The last byte of \<open>n\<close> bytes keeps its \<open>zero_bit\<close> highest bits.\<close>

definition osa_mask_last :: "nat \<Rightarrow> nat \<Rightarrow> byte list \<Rightarrow> byte list" where
  "osa_mask_last zero_bit n bs = (if zero_bit > 0 then bs[n - 1 := bs ! (n - 1) AND push_bit (8 - zero_bit) 0xFF] else bs)"

subsection \<open>EEA0, the null cipher\<close>

text \<open>The first \<open>n\<close> bytes of \<open>data\<close> go where \<^verbatim>\<open>*out\<close> points to.\<close>

definition osa_put :: "byte list \<Rightarrow> byte list \<Rightarrow> osa_out \<Rightarrow> (byte list \<times> osa_out) option" where
  "osa_put data msg out =
     (case out of
        Out_null \<Rightarrow> Some (msg, Out_buffer data)
      | Out_message \<Rightarrow> Some (data @ drop (length data) msg, Out_message)
      | Out_buffer b \<Rightarrow> if length data \<le> length b then Some (msg, Out_buffer (data @ drop (length data) b)) else None)"

definition stream_encrypt_eea0 :: "stream_cipher_params \<Rightarrow> byte list \<Rightarrow> osa_out \<Rightarrow> (byte list \<times> osa_out) option" where
  "stream_encrypt_eea0 p msg out =
     (let byte_length = unat (drop_bit 3 (sc_blength p + 7))
      in if byte_length \<le> length msg then osa_put (take byte_length msg) msg out else None)"

subsection \<open>EEA1, SNOW 3G\<close>

text \<open>The last key word keeps its highest bits, by a shift of \<^verbatim>\<open>0xFFFFFFFF\<close>.\<close>

definition osa_mask_words :: "nat \<Rightarrow> nat \<Rightarrow> u32 list \<Rightarrow> u32 list" where
  "osa_mask_words zero_bit n ks = (if zero_bit > 0 then ks[n - 1 := ks ! (n - 1) AND push_bit (8 - zero_bit) 0xFFFFFFFF] else ks)"

definition eea1_iv :: "stream_cipher_params \<Rightarrow> u32 \<times> u32 \<times> u32 \<times> u32" where
  "eea1_iv p = (let v2 = push_bit 24 (push_bit 3 (ucast (sc_bearer p)) OR push_bit 2 (ucast (sc_direction p) AND 0x1)) in (v2, sc_count p, v2, sc_count p))"

definition eea1_key :: "byte list \<Rightarrow> u32 \<times> u32 \<times> u32 \<times> u32" where
  "eea1_key k = (be_word k 12, be_word k 8, be_word k 4, be_word k 0)"

definition stream_encrypt_eea1 :: "stream_cipher_params \<Rightarrow> byte list \<Rightarrow> osa_out \<Rightarrow> (byte list \<times> osa_out) option" where
  "stream_encrypt_eea1 p msg out =
     do {
       c_assert (sc_key_length p = 16 \<and> length (sc_key p) \<ge> 16);
       let n = unat (sc_blength p + 31) div 32;
       let zero_bit = unat (sc_blength p AND 0x7);
       let ks = osa_snow3g_generate_key_stream n (osa_snow3g_initialize (eea1_key (sc_key p)) (eea1_iv p));
       let ks_bytes = concat (map be_bytes (osa_mask_words zero_bit n ks));
       c_assert (4 * n \<le> length msg);
       let msg1 = xor_bytes (take (4 * n) msg) ks_bytes @ drop (4 * n) msg;
       Some (osa_mask_last zero_bit (unat (drop_bit 3 (sc_blength p + 7))) msg1, Out_message)
     }"

subsection \<open>EEA2, AES in counter mode\<close>

definition eea2_counter :: "stream_cipher_params \<Rightarrow> byte list" where
  "eea2_counter p = be_bytes (sc_count p) @ [push_bit 3 (sc_bearer p AND 0x1F) OR push_bit 2 (sc_direction p AND 0x01)] @ replicate 11 0"

definition stream_encrypt_eea2 :: "ctr_crypt \<Rightarrow> stream_cipher_params \<Rightarrow> byte list \<Rightarrow> osa_out \<Rightarrow> (byte list \<times> osa_out) option" where
  "stream_encrypt_eea2 ctr p msg out =
     do {
       let zero_bit = unat (sc_blength p AND 0x7);
       let byte_length = unat (drop_bit 3 (sc_blength p)) + (if zero_bit > 0 then 1 else 0);
       c_assert (sc_key_length p \<le> length (sc_key p) \<and> byte_length \<le> length msg);
       let data = ctr (take (sc_key_length p) (sc_key p)) (eea2_counter p) (take byte_length msg);
       osa_put (osa_mask_last zero_bit byte_length data) msg out
     }"

subsection \<open>The choice of the cipher\<close>

text \<open>The result is 0 or -1, with the message and the output afterwards.\<close>

definition stream_encrypt :: "ctr_crypt \<Rightarrow> byte \<Rightarrow> stream_cipher_params \<Rightarrow> byte list \<Rightarrow> osa_out \<Rightarrow> (int \<times> byte list \<times> osa_out) option" where
  "stream_encrypt ctr algorithm p msg out =
     (if algorithm = 0 then map_option (Pair 0) (stream_encrypt_eea0 p msg out)
      else if algorithm = 1 then map_option (Pair 0) (stream_encrypt_eea1 p msg out)
      else if algorithm = 2 then map_option (Pair 0) (stream_encrypt_eea2 ctr p msg out)
      else Some (- 1, msg, out))"

subsection \<open>What a user relies on\<close>

lemma xor_bytes_length [simp]: "length (xor_bytes a b) = min (length a) (length b)"
  by (simp add: xor_bytes_def)

lemma xor_bytes_twice: "length a \<le> length b \<Longrightarrow> xor_bytes (xor_bytes a b) b = a"
proof (rule nth_equalityI)
  fix i assume "length a \<le> length b" "i < length (xor_bytes (xor_bytes a b) b)"
  then show "xor_bytes (xor_bytes a b) b ! i = a ! i" by (simp add: xor_bytes_def xor.assoc)
qed simp

lemma be_bytes_length [simp]: "length (be_bytes w) = 4"
  by (simp add: be_bytes_def)

lemma concat_be_bytes_length [simp]: "length (concat (map be_bytes ws)) = 4 * length ws"
  by (induction ws) simp_all

text \<open>A multiple of eight bits.\<close>

definition whole_bytes :: "stream_cipher_params \<Rightarrow> bool" where
  "whole_bytes p \<longleftrightarrow> (\<exists>n. sc_blength p = push_bit 3 (word_of_nat n) \<and> n < 2 ^ 28)"

lemma whole_bytes_unat:
  assumes "sc_blength p = push_bit 3 (word_of_nat n)" "n < 2 ^ 28"
  shows "unat (sc_blength p) = 8 * n" "unat (sc_blength p AND 0x7) = 0" "unat (drop_bit 3 (sc_blength p + 7)) = n" "unat (drop_bit 3 (sc_blength p)) = n"
    "unat (sc_blength p + 31) div 32 = (n + 3) div 4"
proof -
  show l: "unat (sc_blength p) = 8 * n" using assms by (simp add: push_bit_eq_mult unat_word_ariths unsigned_of_nat take_bit_nat_def)
  have "sc_blength p AND 0x7 = take_bit 3 (sc_blength p)" by (simp add: take_bit_eq_mask mask_eq_exp_minus_1)
  then have "unat (sc_blength p AND 0x7) = unat (sc_blength p) mod 8" by (simp add: unsigned_take_bit_eq take_bit_nat_def)
  then show "unat (sc_blength p AND 0x7) = 0" using l by simp
  have 7: "unat (sc_blength p + 7) = 8 * n + 7" using assms(2) l by (simp add: unat_word_ariths)
  show "unat (drop_bit 3 (sc_blength p + 7)) = n" using 7 by (simp add: drop_bit_eq_div unat_div)
  show "unat (drop_bit 3 (sc_blength p)) = n" using l by (simp add: drop_bit_eq_div unat_div)
  have "unat (sc_blength p + 31) = 8 * n + 31" using assms(2) l by (simp add: unat_word_ariths)
  then show "unat (sc_blength p + 31) div 32 = (n + 3) div 4" by presburger
qed

text \<open>
  A cipher works in place on the first \<open>room p\<close> bytes of memory, of which the first \<open>bytes p\<close> are the message: it replaces them by \<open>enc p\<close> of them,
  doing so twice restores them, and the first bytes of the result depend on the first bytes only.
\<close>

locale stream_cipher =
  fixes crypt :: "stream_cipher_params \<Rightarrow> byte list \<Rightarrow> (byte list \<times> osa_out) option"
    and bytes :: "stream_cipher_params \<Rightarrow> nat"
    and room :: "stream_cipher_params \<Rightarrow> nat"
    and enc :: "stream_cipher_params \<Rightarrow> byte list \<Rightarrow> byte list"
    and usable :: "stream_cipher_params \<Rightarrow> bool"
  assumes crypt_runs: "usable p \<Longrightarrow> length m = room p \<Longrightarrow> crypt p (m @ rest) = Some (enc p m @ rest, Out_message)"
    and enc_length: "usable p \<Longrightarrow> length m = room p \<Longrightarrow> length (enc p m) = room p"
    and enc_twice: "usable p \<Longrightarrow> length m = room p \<Longrightarrow> enc p (enc p m) = m"
    and enc_prefix: "usable p \<Longrightarrow> length m = room p \<Longrightarrow> length m' = room p \<Longrightarrow> bytes p \<le> k \<Longrightarrow> take k m = take k m' \<Longrightarrow>
      take k (enc p m) = take k (enc p m')"
begin

text \<open>
  The peer restores the message, whatever comes behind it in its memory: from memory that begins with \<open>k\<close> bytes of the result it gets \<open>k\<close> bytes back.
\<close>

lemma crypt_back:
  assumes "usable p" "room p \<le> length msg" "bytes p \<le> k" "k \<le> length msg"
  shows "\<exists>c. length c = length msg \<and> crypt p msg = Some (c, Out_message) \<and>
    (\<forall>m'. take k m' = take k c \<and> room p \<le> length m' \<longrightarrow> (\<exists>d. length d = length m' \<and> crypt p m' = Some (d, Out_message) \<and> take k d = take k msg))"
proof -
  let ?m = "take (room p) msg"
  have m: "length ?m = room p" using assms(2) by simp
  note c = enc_length[OF assms(1) m]
  define c' where "c' = enc p ?m @ drop (room p) msg"
  have run: "crypt p msg = Some (c', Out_message)" using crypt_runs[OF assms(1) m, of "drop (room p) msg"] by (simp add: c'_def)
  have restored: "\<exists>d. length d = length m' \<and> crypt p m' = Some (d, Out_message) \<and> take k d = take k msg"
    if t: "take k m' = take k c'" and l: "room p \<le> length m'" for m'
  proof -
    have m': "length (take (room p) m') = room p" using l by simp
    have "take k (take (room p) m') = take (room p) (take k m')" by (simp add: min.commute)
    also have "\<dots> = take k (enc p ?m)" unfolding t using c by (cases "k \<le> room p") (simp_all add: c'_def)
    finally have "take k (enc p (take (room p) m')) = take k (enc p (enc p ?m))" by (rule enc_prefix[OF assms(1) m' c assms(3)])
    then have a: "take k (enc p (take (room p) m')) = take k ?m" using enc_twice[OF assms(1) m] by simp
    have "drop (room p) (take k m') = drop (room p) (take k c')" using t by simp
    then have b: "take (k - room p) (drop (room p) m') = take (k - room p) (drop (room p) msg)" using c by (cases "k \<le> room p") (simp_all add: c'_def drop_take)
    have "take k (enc p (take (room p) m') @ drop (room p) m') = take k ?m @ take (k - room p) (drop (room p) msg)"
      using a b enc_length[OF assms(1) m'] by simp
    also have "\<dots> = take k (?m @ drop (room p) msg)" using m by (simp only: take_append)
    finally show ?thesis using crypt_runs[OF assms(1) m', of "drop (room p) m'"] enc_length[OF assms(1) m'] l
      by (intro exI[of _ "enc p (take (room p) m') @ drop (room p) m'"]) simp
  qed
  have len: "length c' = length msg" using c assms(2) by (simp add: c'_def)
  show ?thesis using run restored len by (intro exI[of _ c']) blast
qed

end

text \<open>The documented behaviour of \<^verbatim>\<open>nettle_ctr_crypt\<close>: the input is combined with a key stream that depends on the key and the counter only.\<close>

definition ctr_mode :: "ctr_crypt \<Rightarrow> bool" where
  "ctr_mode ctr \<longleftrightarrow> (\<exists>stream. \<forall>k m s. ctr k m s = xor_bytes s (map (stream k m) [0..<length s]))"

lemma ctr_mode_twice:
  assumes "ctr_mode ctr"
  shows "length (ctr k m s) = length s" "ctr k m (ctr k m s) = s"
proof -
  obtain st where st: "\<And>k m s. ctr k m s = xor_bytes s (map (st k m) [0..<length s])" using assms unfolding ctr_mode_def by blast
  show "length (ctr k m s) = length s" unfolding st by simp
  then show "ctr k m (ctr k m s) = s" unfolding st by (simp add: xor_bytes_twice)
qed

lemma ctr_mode_plain: "ctr_mode (\<lambda>k m s. s)"
  unfolding ctr_mode_def by (intro exI[of _ "\<lambda>k m j. 0"] allI nth_equalityI) (simp_all add: xor_bytes_def)

definition eea_bytes :: "stream_cipher_params \<Rightarrow> nat" where
  "eea_bytes p = unat (sc_blength p) div 8"

definition eea_room :: "byte \<Rightarrow> stream_cipher_params \<Rightarrow> nat" where
  "eea_room algorithm p = (let n = eea_bytes p in if algorithm = 1 then 4 * ((n + 3) div 4) else n)"

definition eea_enc :: "ctr_crypt \<Rightarrow> byte \<Rightarrow> stream_cipher_params \<Rightarrow> byte list \<Rightarrow> byte list" where
  "eea_enc ctr algorithm p m =
     (if algorithm = 1 then
        xor_bytes m (concat (map be_bytes (osa_snow3g_generate_key_stream ((unat (sc_blength p) div 8 + 3) div 4) (osa_snow3g_initialize (eea1_key (sc_key p)) (eea1_iv p)))))
      else if algorithm = 2 then ctr (take (sc_key_length p) (sc_key p)) (eea2_counter p) m else m)"

definition eea_usable :: "ctr_crypt \<Rightarrow> byte \<Rightarrow> stream_cipher_params \<Rightarrow> bool" where
  "eea_usable ctr algorithm p \<longleftrightarrow> whole_bytes p \<and> sc_key_length p = 16 \<and> length (sc_key p) \<ge> 16 \<and> algorithm \<le> 2 \<and> ctr_mode ctr"

definition eea_crypt :: "ctr_crypt \<Rightarrow> byte \<Rightarrow> stream_cipher_params \<Rightarrow> byte list \<Rightarrow> (byte list \<times> osa_out) option" where
  "eea_crypt ctr algorithm p msg = map_option snd (stream_encrypt ctr algorithm p msg Out_message)"

lemma byte_le_2: "(a :: byte) \<le> 2 \<Longrightarrow> a = 0 \<or> a = 1 \<or> a = 2"
proof -
  assume "a \<le> 2"
  then have "unat a \<le> 2" by (simp add: word_le_nat_alt)
  then have "unat a = unat (0 :: byte) \<or> unat a = unat (1 :: byte) \<or> unat a = unat (2 :: byte)" by auto
  then show ?thesis by (simp only: word_unat_eq_iff)
qed

lemma xor_bytes_take: "take k (xor_bytes a b) = xor_bytes (take k a) (take k b)"
  by (simp add: xor_bytes_def take_map take_zip)

interpretation eea: stream_cipher "eea_crypt ctr algorithm" eea_bytes "eea_room algorithm" "eea_enc ctr algorithm" "eea_usable ctr algorithm" for ctr algorithm
proof unfold_locales
  fix p and m rest :: "byte list"
  assume u: "eea_usable ctr algorithm p" and m: "length m = eea_room algorithm p"
  obtain n where n: "sc_blength p = push_bit 3 (word_of_nat n)" "n < 2 ^ 28" using u by (auto simp: eea_usable_def whole_bytes_def)
  note w = whole_bytes_unat[OF n]
  have alg: "algorithm = 0 \<or> algorithm = 1 \<or> algorithm = 2" using u byte_le_2 by (simp add: eea_usable_def)
  have len: "length m = (if algorithm = 1 then 4 * ((n + 3) div 4) else n)" using m w(1) by (simp add: eea_room_def eea_bytes_def Let_def)
  have ctr: "length (ctr k x s) = length s" "ctr k x (ctr k x s) = s" for k x s using u ctr_mode_twice by (simp_all add: eea_usable_def)
  note defs = eea_crypt_def stream_encrypt_def eea_enc_def Let_def w osa_mask_last_def osa_mask_words_def
  show "eea_crypt ctr algorithm p (m @ rest) = Some (eea_enc ctr algorithm p m @ rest, Out_message)"
    using alg len u ctr(1) by (auto simp: defs eea_usable_def stream_encrypt_eea0_def stream_encrypt_eea1_def stream_encrypt_eea2_def osa_put_def)
  show "length (eea_enc ctr algorithm p m) = eea_room algorithm p"
    using alg len ctr(1) by (auto simp: defs eea_room_def eea_bytes_def)
  show "eea_enc ctr algorithm p (eea_enc ctr algorithm p m) = m"
    using alg len ctr(2) by (auto simp: defs xor_bytes_twice)
  fix k and m' :: "byte list"
  assume m': "length m' = eea_room algorithm p" and k: "eea_bytes p \<le> k" and t: "take k m = take k m'"
  show "take k (eea_enc ctr algorithm p m) = take k (eea_enc ctr algorithm p m')"
  proof (cases "algorithm = 1")
    case True
    then show ?thesis using t by (simp add: eea_enc_def xor_bytes_take)
  next
    case False
    then have "m = m'" using m m' k t by (simp add: eea_room_def Let_def)
    then show ?thesis by simp
  qed
qed


definition eea_example :: stream_cipher_params where
  "eea_example = \<lparr>sc_key = replicate 16 7, sc_key_length = 16, sc_count = 5, sc_bearer = 1, sc_direction = 0, sc_blength = push_bit 3 (word_of_nat 3)\<rparr>"

lemma eea_example_bytes: "eea_bytes eea_example = 3" "whole_bytes eea_example"
proof -
  have b: "sc_blength eea_example = push_bit 3 (word_of_nat 3)" "(3::nat) < 2 ^ 28" by (simp_all add: eea_example_def)
  show "eea_bytes eea_example = 3" using whole_bytes_unat(1)[OF b] by (simp add: eea_bytes_def)
  show "whole_bytes eea_example" unfolding whole_bytes_def using b by blast
qed


end
