(* ===== verification/Osa_Eia.thy ===== *)
theory Osa_Eia
  imports Osa_Eea
begin

text \<open>
  The integrity algorithms of \<^verbatim>\<open>openair2/UTIL/OSA/osa_stream_eia.c\<close>, over the same lists of bytes. The CMAC of EIA2 is the library OpenSSL: the function
  \<open>cmac\<close> takes the key and the input. The lemmas say that the code of a message depends on its bytes only: neither
  algorithm is influenced by what lies behind them, although EIA1 reads memory in words of four bytes.
\<close>

type_synonym cmac_fun = "byte list \<Rightarrow> byte list \<Rightarrow> byte list"
type_synonym u64 = "64 word"

subsection \<open>Multiplication over the field of 64 bits\<close>

definition OSA_MUL64x :: "u64 \<Rightarrow> u64 \<Rightarrow> u64" where
  "OSA_MUL64x V c = (if V AND 0x8000000000000000 \<noteq> 0 then push_bit 1 V XOR c else push_bit 1 V)"

fun OSA_MUL64xPOW :: "u64 \<Rightarrow> nat \<Rightarrow> u64 \<Rightarrow> u64" where
  "OSA_MUL64xPOW V 0 c = V"
| "OSA_MUL64xPOW V (Suc i) c = OSA_MUL64x (OSA_MUL64xPOW V i c) c"

definition OSA_MUL64 :: "u64 \<Rightarrow> u64 \<Rightarrow> u64 \<Rightarrow> u64" where
  "OSA_MUL64 V P c = fold (\<lambda>i r. if drop_bit i P AND 0x1 \<noteq> 0 then r XOR OSA_MUL64xPOW V i c else r) [0..<64] 0"

definition osa_mask32bit :: "nat \<Rightarrow> u32" where
  "osa_mask32bit n = (if n mod 32 = 0 then 0xFFFFFFFF else ((\<lambda>mask. drop_bit 1 mask XOR 0x80000000) ^^ n) 0)"

subsection \<open>EIA1\<close>

definition eia1_iv :: "stream_cipher_params \<Rightarrow> u32 \<times> u32 \<times> u32 \<times> u32" where
  "eia1_iv p =
     (let b = push_bit 27 (ucast (sc_bearer p) AND 0x1F)
      in (b XOR push_bit 15 (ucast (sc_direction p) AND 0x1), sc_count p XOR push_bit 31 (ucast (sc_direction p)), b, sc_count p))"

text \<open>The word \<^verbatim>\<open>hton_int32(message[k])\<close>.\<close>

definition eia1_word :: "byte list \<Rightarrow> nat \<Rightarrow> u32 option" where
  "eia1_word msg k = (if 4 * k + 4 \<le> length msg then Some (be_word msg (4 * k)) else None)"

definition word64 :: "u32 \<Rightarrow> u32 \<Rightarrow> u64" where
  "word64 a b = push_bit 32 (ucast a) OR ucast b"

fun eia1_loop :: "byte list \<Rightarrow> u64 \<Rightarrow> nat list \<Rightarrow> u64 \<Rightarrow> u64 option" where
  "eia1_loop msg P [] EVAL = Some EVAL"
| "eia1_loop msg P (i # is) EVAL =
     do {
       a \<leftarrow> eia1_word msg (2 * i);
       b \<leftarrow> eia1_word msg (2 * i + 1);
       eia1_loop msg P is (OSA_MUL64 (EVAL XOR word64 a b) P 0x1B)
     }"

text \<open>The last one or two words, of which \<open>rem_bits\<close> bits count.\<close>

definition eia1_last :: "byte list \<Rightarrow> nat \<Rightarrow> nat \<Rightarrow> u64 option" where
  "eia1_last msg k rem_bits =
     (if rem_bits > 32 then
        do { a \<leftarrow> eia1_word msg (2 * k); b \<leftarrow> eia1_word msg (2 * k + 1); Some (word64 a (b AND osa_mask32bit (rem_bits mod 32))) }
      else do { a \<leftarrow> eia1_word msg (2 * k); Some (word64 (a AND osa_mask32bit (rem_bits mod 32)) 0) })"

definition stream_compute_integrity_eia1 :: "stream_cipher_params \<Rightarrow> byte list \<Rightarrow> byte list option" where
  "stream_compute_integrity_eia1 p msg =
     do {
       c_assert (length (sc_key p) \<ge> 16);
       let z = osa_snow3g_generate_key_stream 5 (osa_snow3g_initialize (eea1_key (sc_key p)) (eia1_iv p));
       let P = word64 (z ! 0) (z ! 1);
       let Q = word64 (z ! 2) (z ! 3);
       let blength = unat (sc_blength p);
       let D = (blength + 63) div 64 + 1;
       c_assert (D \<ge> 2);
       EVAL \<leftarrow> eia1_loop msg P [0..<D - 2] 0;
       let rem_bits = (if blength mod 64 = 0 then 64 else blength mod 64);
       M_D_2 \<leftarrow> eia1_last msg (D - 2) rem_bits;
       let EVAL = OSA_MUL64 (EVAL XOR M_D_2) P 0x1B;
       let EVAL = OSA_MUL64 (EVAL XOR ucast (sc_blength p)) Q 0x1B;
       Some (be_bytes (ucast (drop_bit 32 EVAL) XOR z ! 4))
     }"

subsection \<open>EIA2, and the choice of the algorithm\<close>

definition stream_compute_integrity_eia2 :: "cmac_fun \<Rightarrow> stream_cipher_params \<Rightarrow> byte list \<Rightarrow> byte list option" where
  "stream_compute_integrity_eia2 cmac p msg =
     do {
       let zero_bit = unat (sc_blength p AND 0x7);
       let m_length = unat (drop_bit 3 (sc_blength p)) + (if zero_bit > 0 then 1 else 0);
       c_assert (sc_key_length p \<le> length (sc_key p) \<and> m_length \<le> length msg);
       let m = be_bytes (sc_count p) @ [push_bit 3 (sc_bearer p AND 0x1F) OR push_bit 2 (sc_direction p AND 0x01), 0, 0, 0] @ take m_length msg;
       Some (take 4 (cmac (take (sc_key_length p) (sc_key p)) m))
     }"

text \<open>\<open>Some None\<close> is the result -1, with the output left as it was.\<close>

definition stream_compute_integrity :: "cmac_fun \<Rightarrow> byte \<Rightarrow> stream_cipher_params \<Rightarrow> byte list \<Rightarrow> byte list option option" where
  "stream_compute_integrity cmac algorithm p msg =
     (if algorithm = 1 then map_option Some (stream_compute_integrity_eia1 p msg)
      else if algorithm = 2 then map_option Some (stream_compute_integrity_eia2 cmac p msg)
      else Some None)"

definition stream_check_integrity :: "cmac_fun \<Rightarrow> byte \<Rightarrow> stream_cipher_params \<Rightarrow> byte list \<Rightarrow> byte list \<Rightarrow> int option" where
  "stream_check_integrity cmac algorithm p msg expected =
     (if algorithm \<noteq> 0 then
        do {
          result \<leftarrow> stream_compute_integrity cmac algorithm p msg;
          case result of
            None \<Rightarrow> Some (- 1)
          | Some mac \<Rightarrow> do { c_assert (4 \<le> length expected); Some (if mac \<noteq> take 4 expected then - 1 else 0) }
        }
      else Some 0)"

subsection \<open>The code depends on the message only\<close>

lemma osa_word_mask:
  "osa_word a b c d AND 0xFF000000 = osa_word a 0 0 0"
  "osa_word a b c d AND 0xFFFF0000 = osa_word a b 0 0"
  "osa_word a b c d AND 0xFFFFFF00 = osa_word a b c 0"
  "osa_word a b c d AND 0xFFFFFFFF = osa_word a b c d"
proof -
  have byte: "bit (x :: byte) n \<Longrightarrow> n < 8" for x n using bit_imp_le_length[of x n] by simp
  have m: "(0xFF000000 :: u32) = push_bit 24 (mask 8)" "(0xFFFF0000 :: u32) = push_bit 16 (mask 16)" "(0xFFFFFF00 :: u32) = push_bit 8 (mask 24)"
    "(0xFFFFFFFF :: u32) = mask 32"
    by (simp_all add: mask_eq_exp_minus_1)
  show "osa_word a b c d AND 0xFF000000 = osa_word a 0 0 0" "osa_word a b c d AND 0xFFFF0000 = osa_word a b 0 0"
    "osa_word a b c d AND 0xFFFFFF00 = osa_word a b c 0" "osa_word a b c d AND 0xFFFFFFFF = osa_word a b c d"
    unfolding m by (rule bit_word_eqI, auto simp: osa_word_def bit_simps dest: byte)+
qed

lemma osa_mask32bit_eq: "osa_mask32bit 0 = 0xFFFFFFFF" "osa_mask32bit 8 = 0xFF000000" "osa_mask32bit 16 = 0xFFFF0000" "osa_mask32bit 24 = 0xFFFFFF00"
  by code_simp+

text \<open>A word of which only the first \<open>j\<close> bytes count.\<close>

lemma masked_word_cong:
  assumes "take (i + j) m = take (i + j) m'" "j \<in> {1, 2, 3, 4}" "i + 4 \<le> length m" "i + 4 \<le> length m'"
  shows "be_word m i AND osa_mask32bit (8 * j mod 32) = be_word m' i AND osa_mask32bit (8 * j mod 32)"
proof -
  have "m ! (i + k) = m' ! (i + k)" if "k < j" for k using arg_cong[OF assms(1), of "\<lambda>l. l ! (i + k)"] that by simp
  from this[of 0] this[of 1] this[of 2] this[of 3] show ?thesis using assms(2) by (auto simp: be_word_def osa_mask32bit_eq osa_word_mask)
qed

lemma eia1_word_cong:
  assumes "take n m = take n m'" "4 * k + 4 \<le> n" "n \<le> length m" "n \<le> length m'"
  shows "eia1_word m k = Some (be_word m (4 * k))" "eia1_word m' k = Some (be_word m (4 * k))"
proof -
  have eq: "m ! i = m' ! i" if "i < n" for i using arg_cong[OF assms(1), of "\<lambda>l. l ! i"] that by simp
  show "eia1_word m k = Some (be_word m (4 * k))" using assms(2,3) by (simp add: eia1_word_def)
  show "eia1_word m' k = Some (be_word m (4 * k))" using assms(2,4) by (simp add: eia1_word_def be_word_def eq)
qed

lemma eia1_loop_cong:
  assumes "take n m = take n m'" "\<forall>i\<in>set is. 8 * i + 8 \<le> n" "n \<le> length m" "n \<le> length m'"
  shows "\<exists>E'. eia1_loop m P is E = Some E' \<and> eia1_loop m' P is E = Some E'"
  using assms(2)
proof (induction "is" arbitrary: E)
  case (Cons i "is")
  have w: "4 * (2 * i) + 4 \<le> n" "4 * (2 * i + 1) + 4 \<le> n" using Cons.prems by auto
  note c = eia1_word_cong[OF assms(1) w(1) assms(3,4)] eia1_word_cong[OF assms(1) w(2) assms(3,4)]
  have "\<forall>i\<in>set is. 8 * i + 8 \<le> n" using Cons.prems by simp
  from Cons.IH[OF this, of "OSA_MUL64 (E XOR word64 (be_word m (4 * (2 * i))) (be_word m (4 * (2 * i + 1)))) P 0x1B"] c show ?case by simp
qed simp

lemma eia1_last_cong:
  assumes "take n m = take n m'" "k = (n - 1) div 8" "0 < n" "4 * ((n + 3) div 4) \<le> length m" "4 * ((n + 3) div 4) \<le> length m'"
  shows "eia1_last m k (if 8 * n mod 64 = 0 then 64 else 8 * n mod 64) = eia1_last m' k (if 8 * n mod 64 = 0 then 64 else 8 * n mod 64) \<and>
    eia1_last m k (if 8 * n mod 64 = 0 then 64 else 8 * n mod 64) \<noteq> None"
proof -
  define j where "j = n - 8 * k"
  have n: "n = 8 * k + j" "1 \<le> j" "j \<le> 8" using assms(2,3) unfolding j_def by presburger+
  have bits: "(if 8 * n mod 64 = 0 then 64 else 8 * n mod 64) = 8 * j"
  proof -
    have "8 * n mod 64 = 8 * j mod 64" unfolding n(1) by (simp add: algebra_simps)
    moreover have "j = 8 \<or> 8 * j mod 64 = 8 * j" using n(3) by (cases "j = 8") simp_all
    ultimately show ?thesis using n(2) by auto
  qed
  have four: "4 * ((n + 3) div 4) = 8 * k + 4 * ((j + 3) div 4)"
  proof -
    have "(4 * (2 * k) + (j + 3)) div 4 = 2 * k + (j + 3) div 4" by (rule div_mult_self4) simp
    then show ?thesis unfolding n(1) by (simp add: algebra_simps)
  qed
  show ?thesis
  proof (cases "j \<le> 4")
    case True
    then have len: "4 * (2 * k) + 4 \<le> length m" "4 * (2 * k) + 4 \<le> length m'" using assms(4,5) n(2) div_le_mono[of 4 "j + 3" 4] unfolding four by auto
    have "be_word m (8 * k) AND osa_mask32bit (8 * j mod 32) = be_word m' (8 * k) AND osa_mask32bit (8 * j mod 32)"
      using assms(1) n True len by (intro masked_word_cong) auto
    then show ?thesis using True len n(2) unfolding bits by (simp add: eia1_last_def eia1_word_def)
  next
    case False
    define i where "i = j - 4"
    have i: "j = i + 4" "1 \<le> i" "i \<le> 4" using False n(3) by (simp_all add: i_def)
    then have len: "4 * (2 * k + 1) + 4 \<le> length m" "4 * (2 * k + 1) + 4 \<le> length m'" using assms(4,5) i(1,2) div_le_mono[of 8 "j + 3" 4] unfolding four by auto
    have "take (8 * k + 4) m = take (8 * k + 4) m'" using arg_cong[OF assms(1), of "take (8 * k + 4)"] n False by (simp add: min_def)
    from eia1_word_cong[OF this, of "2 * k"] len
    have a: "eia1_word m (2 * k) = Some (be_word m (8 * k))" "eia1_word m' (2 * k) = Some (be_word m (8 * k))" by simp_all
    have "be_word m (8 * k + 4) AND osa_mask32bit (8 * i mod 32) = be_word m' (8 * k + 4) AND osa_mask32bit (8 * i mod 32)"
      using assms(1) n i len by (intro masked_word_cong) (auto simp: add_ac)
    moreover have "8 * j mod 32 = 8 * i mod 32" using i by simp
    ultimately show ?thesis using i len a unfolding bits by (simp add: eia1_last_def eia1_word_def add.commute)
  qed
qed

text \<open>
  Computing the code of \<open>n\<close> bytes: it succeeds if the words that hold them are in memory, and depends on these bytes only.
\<close>

lemma integrity_local:
  assumes "sc_blength p = push_bit 3 (word_of_nat n)" "n < 2 ^ 28" "0 < n" "take n m = take n m'"
    "4 * ((n + 3) div 4) \<le> length m" "4 * ((n + 3) div 4) \<le> length m'" "sc_key_length p = 16" "16 \<le> length (sc_key p)"
  shows "stream_compute_integrity cmac a p m = stream_compute_integrity cmac a p m'" "stream_compute_integrity cmac a p m \<noteq> None"
proof -
  note w = whole_bytes_unat[OF assms(1,2)]
  have "(8 * n + 63) div 64 = (8 * n + 63) div 8 div 8" by (simp flip: div_mult2_eq)
  also have "\<dots> = (n + 7) div 8" by simp
  also have "\<dots> = (n - 1) div 8 + 1" using assms(3) by (cases n) simp_all
  finally have D: "(8 * n + 63) div 64 + 1 - 2 = (n - 1) div 8" "2 \<le> (8 * n + 63) div 64 + 1" by simp_all
  have l: "n \<le> length m" "n \<le> length m'" using assms(5,6) by presburger+
  have r: "\<forall>i\<in>set [0..<(n - 1) div 8]. 8 * i + 8 \<le> n" by auto
  define E where "E P = the (eia1_loop m P [0..<(n - 1) div 8] 0)" for P
  have E: "eia1_loop m P [0..<(n - 1) div 8] 0 = Some (E P)" "eia1_loop m' P [0..<(n - 1) div 8] 0 = Some (E P)" for P
    using eia1_loop_cong[OF assms(4) r l, of P 0] by (auto simp: E_def)
  obtain M where M: "eia1_last m ((n - 1) div 8) (if 8 * n mod 64 = 0 then 64 else 8 * n mod 64) = Some M"
    "eia1_last m' ((n - 1) div 8) (if 8 * n mod 64 = 0 then 64 else 8 * n mod 64) = Some M"
    using eia1_last_cong[OF assms(4) refl assms(3,5,6)] by force
  have 1: "stream_compute_integrity_eia1 p m = stream_compute_integrity_eia1 p m'" "stream_compute_integrity_eia1 p m \<noteq> None"
    using assms(8) E M D(2) unfolding stream_compute_integrity_eia1_def Let_def w D(1) by simp_all
  have 2: "stream_compute_integrity_eia2 cmac p m = stream_compute_integrity_eia2 cmac p m'" "stream_compute_integrity_eia2 cmac p m \<noteq> None"
    using assms(4,7,8) l unfolding stream_compute_integrity_eia2_def Let_def w by simp_all
  show "stream_compute_integrity cmac a p m = stream_compute_integrity cmac a p m'" "stream_compute_integrity cmac a p m \<noteq> None"
    using 1 2 by (auto simp: stream_compute_integrity_def)
qed

text \<open>
  The integrity code of a message depends on its bytes only: over any two pieces of memory that begin with the same message, and hold the words the message is in, the code is computed,
  and it is the same, although EIA1 reads whole words.
\<close>

theorem eia_depends_on_message:
  assumes "sc_blength p = push_bit 3 (word_of_nat n)" "n < 2 ^ 28" "0 < n" "take n m = take n m'"
    "4 * ((n + 3) div 4) \<le> length m" "4 * ((n + 3) div 4) \<le> length m'" "sc_key_length p = 16" "16 \<le> length (sc_key p)"
  shows "\<exists>r. stream_compute_integrity cmac algorithm p m = Some r \<and> stream_compute_integrity cmac algorithm p m' = Some r"
  using integrity_local[OF assms, of cmac algorithm] by auto

theorem eia_depends_on_message_witness:
  "\<exists>r. stream_compute_integrity (\<lambda>k m. replicate 16 0) 1 eea_example [1, 2, 3, 9] = Some r \<and> stream_compute_integrity (\<lambda>k m. replicate 16 0) 1 eea_example [1, 2, 3, 0] = Some r"
  by (rule eia_depends_on_message[where n = 3]) (simp_all add: eea_example_def)

end
