(* ===== verification/Pdcp_Sequence.thy ===== *)
theory Pdcp_Sequence
  imports Prelude
begin

text \<open>
  The PDCP entity of \<^verbatim>\<open>openair2/LAYER2/PDCP_v10.1.0/pdcp.h\<close> and the management of its sequence numbers, \<^verbatim>\<open>pdcp_sequence_manager.c\<close>, with
  \<^verbatim>\<open>util_mark_nth_bit_of_octet\<close> of \<^verbatim>\<open>pdcp_util.c\<close>. An entity is a value, so the tests for a null pointer have no counterpart; keys are pointers to bytes, null is \<open>None\<close>.
  Sequence numbers are \<open>int\<close> with the truncation to 16 bits written out, hyper frame numbers (HFN) words of 32 bits.

  The lemmas describe the numbers of both sides by one unbounded counter: the transmitter stores the residue and the quotient of the number of the next
  PDU, and the receiver those of the number it expects, as long as fewer PDUs in a row are lost than there are sequence numbers.
\<close>

subsection \<open>The entity\<close>

datatype rlc_mode = RLC_MODE_NONE | RLC_MODE_AM | RLC_MODE_TM | RLC_MODE_UM

record pdcp_t =
  instanciated_instance :: bool
  header_compression_profile :: int
  is_ue :: bool
  is_srb :: bool
  cipheringAlgorithm :: byte
  integrityProtAlgorithm :: byte
  kUPenc :: "byte list option"
  kRRCint :: "byte list option"
  kRRCenc :: "byte list option"
  security_activated :: byte
  pdcp_rlc_mode :: rlc_mode
  pdcp_status_report :: int
  seq_num_size :: nat
  pdcp_lcid :: int
  pdcp_rb_id :: int
  next_pdcp_tx_sn :: int
  next_pdcp_rx_sn :: int
  next_pdcp_rx_sn_before_integrity :: int
  tx_hfn :: u32
  rx_hfn :: u32
  rx_hfn_offset :: int
  last_submitted_pdcp_rx_sn :: int
  missing_pdu_bitmap :: "nat \<Rightarrow> byte"
  first_missing_pdu :: int

text \<open>What \<^verbatim>\<open>memset\<close> leaves.\<close>

definition zero_pdcp :: pdcp_t where
  "zero_pdcp = \<lparr>instanciated_instance = False, header_compression_profile = 0, is_ue = False, is_srb = False,
     cipheringAlgorithm = 0, integrityProtAlgorithm = 0, kUPenc = None, kRRCint = None, kRRCenc = None, security_activated = 0,
     pdcp_rlc_mode = RLC_MODE_NONE, pdcp_status_report = 0, seq_num_size = 0, pdcp_lcid = 0, pdcp_rb_id = 0,
     next_pdcp_tx_sn = 0, next_pdcp_rx_sn = 0, next_pdcp_rx_sn_before_integrity = 0, tx_hfn = 0, rx_hfn = 0, rx_hfn_offset = 0,
     last_submitted_pdcp_rx_sn = 0, missing_pdu_bitmap = (\<lambda>_. 0), first_missing_pdu = 0\<rparr>"

abbreviation (input) PDCP_SN_5BIT :: nat where "PDCP_SN_5BIT \<equiv> 5"
abbreviation (input) PDCP_SN_7BIT :: nat where "PDCP_SN_7BIT \<equiv> 7"
abbreviation (input) PDCP_SN_12BIT :: nat where "PDCP_SN_12BIT \<equiv> 12"
abbreviation (input) REORDERING_WINDOW_SN_7BIT :: int where "REORDERING_WINDOW_SN_7BIT \<equiv> 64"
abbreviation (input) REORDERING_WINDOW_SN_12BIT :: int where "REORDERING_WINDOW_SN_12BIT \<equiv> 2048"

subsection \<open>The operations\<close>

definition pdcp_init_seq_numbers :: "pdcp_t \<Rightarrow> pdcp_t" where
  "pdcp_init_seq_numbers e = e\<lparr>next_pdcp_tx_sn := 0, next_pdcp_rx_sn := 0, tx_hfn := 0, rx_hfn := 0, last_submitted_pdcp_rx_sn := 4095\<rparr>"

definition pdcp_is_seq_num_size_valid :: "pdcp_t \<Rightarrow> bool" where
  "pdcp_is_seq_num_size_valid e \<longleftrightarrow> \<not> (seq_num_size e \<noteq> 5 \<and> seq_num_size e \<noteq> 7 \<and> seq_num_size e \<noteq> 12)"

definition pdcp_calculate_max_seq_num_for_given_size :: "nat \<Rightarrow> int" where
  "pdcp_calculate_max_seq_num_for_given_size n = to_uint16 (to_uint16 (push_bit n 1) - 1)"

definition pdcp_is_seq_num_valid :: "int \<Rightarrow> nat \<Rightarrow> bool" where
  "pdcp_is_seq_num_valid seq_num n \<longleftrightarrow> 0 \<le> seq_num \<and> seq_num \<le> pdcp_calculate_max_seq_num_for_given_size n"

text \<open>The number of the next PDU, with -1 as a 16-bit number if the size is invalid.\<close>

definition pdcp_get_next_tx_seq_number :: "pdcp_t \<Rightarrow> int \<times> pdcp_t" where
  "pdcp_get_next_tx_seq_number e =
     (if \<not> pdcp_is_seq_num_size_valid e then (to_uint16 (- 1), e)
      else (next_pdcp_tx_sn e,
        if next_pdcp_tx_sn e = pdcp_calculate_max_seq_num_for_given_size (seq_num_size e)
        then e\<lparr>next_pdcp_tx_sn := 0, tx_hfn := tx_hfn e + 1\<rparr>
        else e\<lparr>next_pdcp_tx_sn := to_uint16 (next_pdcp_tx_sn e + 1)\<rparr>))"

definition pdcp_advance_rx_window :: "pdcp_t \<Rightarrow> bool \<times> pdcp_t" where
  "pdcp_advance_rx_window e =
     (if \<not> pdcp_is_seq_num_size_valid e then (False, e)
      else (True,
        if next_pdcp_rx_sn e = pdcp_calculate_max_seq_num_for_given_size (seq_num_size e)
        then e\<lparr>next_pdcp_rx_sn := 0, rx_hfn := rx_hfn e + 1\<rparr>
        else e\<lparr>next_pdcp_rx_sn := to_uint16 (next_pdcp_rx_sn e + 1)\<rparr>))"

definition util_mark_nth_bit_of_octet :: "byte \<Rightarrow> nat \<Rightarrow> byte" where
  "util_mark_nth_bit_of_octet octet index = octet OR drop_bit index 0x80"

definition pdcp_mark_current_pdu_as_received :: "int \<Rightarrow> pdcp_t \<Rightarrow> pdcp_t" where
  "pdcp_mark_current_pdu_as_received seq_num e =
     (let octet_index = nat (seq_num div 8)
      in e\<lparr>missing_pdu_bitmap := (missing_pdu_bitmap e)(octet_index := util_mark_nth_bit_of_octet (missing_pdu_bitmap e octet_index) (nat (seq_num mod 8)))\<rparr>)"

text \<open>The number that follows the received one is expected next.\<close>

definition pdcp_expect_after :: "int \<Rightarrow> pdcp_t \<Rightarrow> pdcp_t" where
  "pdcp_expect_after seq_num e = snd (pdcp_advance_rx_window (e\<lparr>next_pdcp_rx_sn := seq_num\<rparr>))"

text \<open>Signalling bearers, lines 178 to 200.\<close>

definition pdcp_rx_srb :: "int \<Rightarrow> pdcp_t \<Rightarrow> pdcp_t" where
  "pdcp_rx_srb seq_num e =
     (let e1 = (if seq_num < next_pdcp_rx_sn e then e\<lparr>rx_hfn := rx_hfn e + 1, rx_hfn_offset := 0\<rparr> else e\<lparr>rx_hfn_offset := 0\<rparr>)
      in pdcp_expect_after seq_num (e1\<lparr>next_pdcp_rx_sn_before_integrity := next_pdcp_rx_sn e1\<rparr>))"

text \<open>Data bearers over RLC AM, lines 204 to 255. The differences of 16-bit numbers are taken as \<^verbatim>\<open>int\<close>.\<close>

definition pdcp_rx_drb_am :: "int \<Rightarrow> pdcp_t \<Rightarrow> bool \<times> pdcp_t" where
  "pdcp_rx_drb_am seq_num e =
     (let reordering_window = (if seq_num_size e = PDCP_SN_7BIT then REORDERING_WINDOW_SN_7BIT else REORDERING_WINDOW_SN_12BIT);
          last = last_submitted_pdcp_rx_sn e;
          next = next_pdcp_rx_sn e
      in if seq_num - last > reordering_window \<or> 0 \<le> last - seq_num \<and> last - seq_num < reordering_window
         then (False, e\<lparr>rx_hfn_offset := (if seq_num > next then - 1 else 0)\<rparr>)
         else (True,
           if next - seq_num > reordering_window then e\<lparr>rx_hfn := rx_hfn e + 1, rx_hfn_offset := 0, next_pdcp_rx_sn := to_uint16 (next + 1)\<rparr>
           else if seq_num - next \<ge> reordering_window then e\<lparr>rx_hfn_offset := - 1\<rparr>
           else if seq_num \<ge> next then pdcp_expect_after seq_num (e\<lparr>rx_hfn_offset := 0\<rparr>)
           else if seq_num < next then e\<lparr>rx_hfn_offset := 0\<rparr>
           else e))"

text \<open>Data bearers over RLC UM, lines 256 to 264.\<close>

definition pdcp_rx_drb_um :: "int \<Rightarrow> pdcp_t \<Rightarrow> pdcp_t" where
  "pdcp_rx_drb_um seq_num e =
     pdcp_expect_after seq_num (if seq_num < next_pdcp_rx_sn e then e\<lparr>rx_hfn := rx_hfn e + 1\<rparr> else e)"

definition pdcp_is_rx_seq_number_valid :: "int \<Rightarrow> pdcp_t \<Rightarrow> bool \<Rightarrow> bool \<times> pdcp_t" where
  "pdcp_is_rx_seq_number_valid seq_num e srb_flagP =
     (if \<not> pdcp_is_seq_num_size_valid e \<or> \<not> pdcp_is_seq_num_valid seq_num (seq_num_size e) then (False, e)
      else
        let e1 = pdcp_mark_current_pdu_as_received seq_num e
        in if srb_flagP then (True, pdcp_rx_srb seq_num e1)
           else (case pdcp_rlc_mode e1 of
               RLC_MODE_AM \<Rightarrow> pdcp_rx_drb_am seq_num e1
             | RLC_MODE_UM \<Rightarrow> (True, pdcp_rx_drb_um seq_num e1)
             | _ \<Rightarrow> (False, e1)))"

subsection \<open>The numbers as one unbounded counter\<close>

text \<open>The number of the next PDU of the transmitter is \<open>N\<close>, and the receiver expects \<open>R\<close>; a sequence number has \<open>s\<close> bits.\<close>

definition pdcp_tx_at :: "int \<Rightarrow> pdcp_t \<Rightarrow> bool" where
  "pdcp_tx_at N e \<longleftrightarrow> next_pdcp_tx_sn e = N mod 2 ^ seq_num_size e \<and> tx_hfn e = word_of_int (N div 2 ^ seq_num_size e)"

definition pdcp_rx_at :: "int \<Rightarrow> pdcp_t \<Rightarrow> bool" where
  "pdcp_rx_at R e \<longleftrightarrow> next_pdcp_rx_sn e = R mod 2 ^ seq_num_size e \<and> rx_hfn e = word_of_int (R div 2 ^ seq_num_size e) \<and> rx_hfn_offset e = 0"

lemma pdcp_max: "pdcp_is_seq_num_size_valid e \<Longrightarrow> pdcp_calculate_max_seq_num_for_given_size (seq_num_size e) = 2 ^ seq_num_size e - 1"
  by (auto simp: pdcp_is_seq_num_size_valid_def pdcp_calculate_max_seq_num_for_given_size_def to_uint16_def)

lemma next_residue:
  fixes N :: int
  assumes "0 < m"
  shows "N mod m = m - 1 \<Longrightarrow> (N + 1) mod m = 0 \<and> (N + 1) div m = N div m + 1"
    "N mod m \<noteq> m - 1 \<Longrightarrow> (N + 1) mod m = N mod m + 1 \<and> (N + 1) div m = N div m"
proof -
  have N: "N = m * (N div m) + N mod m" by simp
  have b: "0 \<le> N mod m" "N mod m < m" using assms by simp_all
  show "(N + 1) mod m = 0 \<and> (N + 1) div m = N div m + 1" if "N mod m = m - 1"
  proof -
    have "N + 1 = m * (N div m + 1)" using N that by (simp add: algebra_simps)
    then show ?thesis using assms by simp
  qed
  show "(N + 1) mod m = N mod m + 1 \<and> (N + 1) div m = N div m" if "N mod m \<noteq> m - 1"
  proof -
    have e: "N + 1 = m * (N div m) + (N mod m + 1)" using N by simp
    have l: "0 \<le> N mod m + 1" "N mod m + 1 < m" using b that by simp_all
    from e l show ?thesis by (metis div_pos_pos_trivial mod_pos_pos_trivial mod_mult_self4 div_mult_self4 add_0_right assms less_irrefl mult.commute add.commute)
  qed
qed

lemma sn_small: "pdcp_is_seq_num_size_valid e \<Longrightarrow> (2::int) ^ seq_num_size e \<le> 4096"
  by (auto simp: pdcp_is_seq_num_size_valid_def)

lemma pdcp_next_tx:
  assumes "pdcp_is_seq_num_size_valid e" "pdcp_tx_at N e"
  shows "\<exists>t h. pdcp_get_next_tx_seq_number e = (N mod 2 ^ seq_num_size e, e\<lparr>next_pdcp_tx_sn := t, tx_hfn := h\<rparr>) \<and>
    pdcp_tx_at (N + 1) (e\<lparr>next_pdcp_tx_sn := t, tx_hfn := h\<rparr>)"
proof -
  let ?m = "(2::int) ^ seq_num_size e"
  have m: "0 < ?m" by simp
  have b: "0 \<le> N mod ?m" "N mod ?m < ?m" using m by simp_all
  note max = pdcp_max[OF assms(1)] and small = sn_small[OF assms(1)]
  show ?thesis
  proof (cases "N mod ?m = ?m - 1")
    case True
    from next_residue(1)[OF m True] show ?thesis using assms True
      by (intro exI[of _ 0] exI[of _ "tx_hfn e + 1"]) (simp add: pdcp_get_next_tx_seq_number_def pdcp_tx_at_def max)
  next
    case False
    then have u: "to_uint16 (N mod ?m + 1) = N mod ?m + 1" using b small by (intro to_uint16_id) linarith+
    have r: "e\<lparr>next_pdcp_tx_sn := x\<rparr> = e\<lparr>next_pdcp_tx_sn := x, tx_hfn := tx_hfn e\<rparr>" for x by simp
    from next_residue(2)[OF m False] show ?thesis using assms False u
      by (intro exI[of _ "N mod ?m + 1"] exI[of _ "tx_hfn e"]) (simp add: pdcp_get_next_tx_seq_number_def pdcp_tx_at_def max)
  qed
qed

text \<open>The entity without the variables that the reception of a number changes.\<close>

definition pdcp_static :: "pdcp_t \<Rightarrow> pdcp_t" where
  "pdcp_static e = e\<lparr>next_pdcp_rx_sn := 0, rx_hfn := 0, next_pdcp_rx_sn_before_integrity := 0, rx_hfn_offset := 0, missing_pdu_bitmap := (\<lambda>_. 0)\<rparr>"

lemma pdcp_static_upd [simp]:
  "pdcp_static (e\<lparr>next_pdcp_rx_sn := n\<rparr>) = pdcp_static e" "pdcp_static (e\<lparr>rx_hfn := h\<rparr>) = pdcp_static e"
  "pdcp_static (e\<lparr>next_pdcp_rx_sn_before_integrity := n\<rparr>) = pdcp_static e" "pdcp_static (e\<lparr>rx_hfn_offset := k\<rparr>) = pdcp_static e"
  "pdcp_static (e\<lparr>missing_pdu_bitmap := m\<rparr>) = pdcp_static e"
  by (simp_all add: pdcp_static_def)

lemma pdcp_expect_after_static [simp]: "pdcp_static (pdcp_expect_after n e) = pdcp_static e"
  by (simp add: pdcp_expect_after_def pdcp_advance_rx_window_def)

lemma pdcp_valid_static: "pdcp_static (snd (pdcp_is_rx_seq_number_valid n e srb)) = pdcp_static e"
  by (simp add: pdcp_is_rx_seq_number_valid_def pdcp_mark_current_pdu_as_received_def pdcp_rx_srb_def pdcp_rx_drb_am_def pdcp_rx_drb_um_def Let_def
      split: rlc_mode.split)

lemma pdcp_expect_after_at:
  assumes "pdcp_is_seq_num_size_valid e" "rx_hfn e = word_of_int (N div 2 ^ seq_num_size e)" "rx_hfn_offset e = 0"
  shows "pdcp_rx_at (N + 1) (pdcp_expect_after (N mod 2 ^ seq_num_size e) e)"
proof -
  let ?m = "(2::int) ^ seq_num_size e"
  have m: "0 < ?m" by simp
  have b: "0 \<le> N mod ?m" "N mod ?m < ?m" using m by simp_all
  have v: "pdcp_is_seq_num_size_valid (e\<lparr>next_pdcp_rx_sn := x\<rparr>)" for x using assms(1) by (simp add: pdcp_is_seq_num_size_valid_def)
  note max = pdcp_max[OF assms(1)] and small = sn_small[OF assms(1)]
  show ?thesis
  proof (cases "N mod ?m = ?m - 1")
    case True
    from next_residue(1)[OF m True] show ?thesis using assms(2,3) True v
      by (simp add: pdcp_expect_after_def pdcp_advance_rx_window_def pdcp_rx_at_def max)
  next
    case False
    then have "to_uint16 (N mod ?m + 1) = N mod ?m + 1" using b small by (intro to_uint16_id) linarith+
    with next_residue(2)[OF m False] show ?thesis using assms(2,3) False v
      by (simp add: pdcp_expect_after_def pdcp_advance_rx_window_def pdcp_rx_at_def max)
  qed
qed

text \<open>A number from the next cycle is smaller than the expected one.\<close>

lemma quotients_of:
  fixes m a b c d :: int
  assumes "0 \<le> b" "b < m" "0 \<le> d" "d < m" "m * a + b \<le> m * c + d" "m * c + d < m * a + b + m"
  shows "c = (if d < b then a + 1 else a)"
proof -
  have m: "0 \<le> m" using assms(1,2) by simp
  have e: "m * (x + 1) = m * x + m" "m * (x + 2) = m * x + 2 * m" for x by (simp_all add: algebra_simps)
  have "a \<le> c" using mult_left_mono[of "c + 1" a m] m assms(1,4,5) e(1)[of c] by linarith
  moreover have "c \<le> a + 1" using mult_left_mono[of "a + 2" c m] m assms(2,3,6) e(2)[of a] by linarith
  ultimately have "c = a \<or> c = a + 1" by linarith
  then show ?thesis using assms e(1)[of a] by auto
qed

lemma cycle_of:
  fixes N :: int
  assumes "0 < m" "R \<le> N" "N < R + m"
  shows "N div m = (if N mod m < R mod m then R div m + 1 else R div m)"
  by (rule quotients_of[of "R mod m" m "N mod m"]) (use assms in simp_all)

text \<open>The number a bearer expects, and the condition under which a PDU with number \<open>N\<close> keeps the counters.\<close>

definition pdcp_follows :: "bool \<Rightarrow> pdcp_t \<Rightarrow> int \<Rightarrow> int \<Rightarrow> bool" where
  "pdcp_follows srb e R N \<longleftrightarrow>
     (if srb \<or> pdcp_rlc_mode e = RLC_MODE_UM then R \<le> N \<and> N < R + 2 ^ seq_num_size e
      else pdcp_rlc_mode e = RLC_MODE_AM \<and> seq_num_size e = 12 \<and> N = R \<and> last_submitted_pdcp_rx_sn e = (R - 1) mod 4096)"

text \<open>A PDU that follows is accepted, and the receiver then expects the number behind it.\<close>

lemma pdcp_rx_follows:
  assumes "pdcp_is_seq_num_size_valid e" "pdcp_rx_at R e" "pdcp_follows srb e R N"
  shows "\<exists>e'. pdcp_is_rx_seq_number_valid (N mod 2 ^ seq_num_size e) e srb = (True, e') \<and> pdcp_rx_at (N + 1) e'"
proof -
  let ?m = "(2::int) ^ seq_num_size e" and ?sn = "N mod 2 ^ seq_num_size e"
  have m: "0 < ?m" by simp
  have b: "0 \<le> ?sn" "?sn < ?m" using m by simp_all
  define e1 where "e1 = pdcp_mark_current_pdu_as_received ?sn e"
  have e1: "seq_num_size e1 = seq_num_size e" "next_pdcp_rx_sn e1 = R mod ?m" "rx_hfn e1 = word_of_int (R div ?m)" "rx_hfn_offset e1 = 0"
    "pdcp_rlc_mode e1 = pdcp_rlc_mode e" "last_submitted_pdcp_rx_sn e1 = last_submitted_pdcp_rx_sn e"
    using assms(2) by (simp_all add: e1_def pdcp_mark_current_pdu_as_received_def pdcp_rx_at_def Let_def)
  have v: "pdcp_is_seq_num_size_valid x" if "seq_num_size x = seq_num_size e" for x using assms(1) that by (simp add: pdcp_is_seq_num_size_valid_def)
  have ok: "pdcp_is_seq_num_valid ?sn (seq_num_size e)" using b by (simp add: pdcp_is_seq_num_valid_def pdcp_max[OF assms(1)])
  have after: "pdcp_rx_at (N + 1) (pdcp_expect_after ?sn x)"
    if "seq_num_size x = seq_num_size e" "rx_hfn x = word_of_int (N div ?m)" "rx_hfn_offset x = 0" for x
    using pdcp_expect_after_at[OF v[OF that(1)], of N] that by simp
  have start: "pdcp_is_rx_seq_number_valid ?sn e srb =
      (if srb then (True, pdcp_rx_srb ?sn e1)
       else (case pdcp_rlc_mode e of RLC_MODE_AM \<Rightarrow> pdcp_rx_drb_am ?sn e1 | RLC_MODE_UM \<Rightarrow> (True, pdcp_rx_drb_um ?sn e1) | _ \<Rightarrow> (False, e1)))"
    using assms(1) ok e1(5) by (simp add: pdcp_is_rx_seq_number_valid_def flip: e1_def)
  show ?thesis
  proof (cases "srb \<or> pdcp_rlc_mode e = RLC_MODE_UM")
    case True
    then have N: "R \<le> N" "N < R + ?m" using assms(3) by (simp_all add: pdcp_follows_def)
    note c = cycle_of[OF m N]
    have "pdcp_rx_at (N + 1) (pdcp_rx_srb ?sn e1)" unfolding pdcp_rx_srb_def Let_def using e1 c by (intro after) auto
    moreover have "pdcp_rx_at (N + 1) (pdcp_rx_drb_um ?sn e1)" unfolding pdcp_rx_drb_um_def using e1 c by (intro after) auto
    ultimately show ?thesis using True unfolding start by auto
  next
    case False
    then have f: "\<not> srb" "pdcp_rlc_mode e = RLC_MODE_AM" "seq_num_size e = 12" "N = R" "last_submitted_pdcp_rx_sn e = (R - 1) mod 4096"
      using assms(3) by (auto simp: pdcp_follows_def)
    have sn: "?sn = R mod 4096" using f(3,4) by simp
    have l: "(R - 1) mod 4096 = (if R mod 4096 = 0 then 4095 else R mod 4096 - 1)"
      using next_residue[of 4096 "R - 1"] by (cases "(R - 1) mod 4096 = 4095") auto
    have "pdcp_rx_drb_am ?sn e1 = (True, pdcp_expect_after ?sn (e1\<lparr>rx_hfn_offset := 0\<rparr>))"
      unfolding pdcp_rx_drb_am_def Let_def e1 f(3,4,5) l by auto
    moreover have "pdcp_rx_at (N + 1) (pdcp_expect_after ?sn (e1\<lparr>rx_hfn_offset := 0\<rparr>))" using e1 f(4) by (intro after) simp_all
    ultimately show ?thesis using f(1,2) unfolding start by simp
  qed
qed

text \<open>
  Over AM the numbers of both sides part if a PDU is lost where the numbers wrap: the receiver counts a new cycle, but moves the expected number by one only, so
  the next PDU counts another cycle.
\<close>

lemma am_wrap_loses_cycle:
  "let e = zero_pdcp\<lparr>seq_num_size := 12, pdcp_rlc_mode := RLC_MODE_AM, next_pdcp_rx_sn := 4000, last_submitted_pdcp_rx_sn := 3999\<rparr>;
       e1 = snd (pdcp_is_rx_seq_number_valid 10 e False); e2 = snd (pdcp_is_rx_seq_number_valid 11 (e1\<lparr>last_submitted_pdcp_rx_sn := 10\<rparr>) False)
   in (next_pdcp_rx_sn e1, rx_hfn e1, rx_hfn e2) = (4001, 1, 2)"
  by code_simp

end
