(* ===== verification/Pdcp_Header.thy ===== *)
theory Pdcp_Header
  imports Pdcp_Sequence
begin

text \<open>
  The PDU headers of PDCP, \<^verbatim>\<open>pdcp_primitives.c\<close>: the fields of received PDUs, the headers of sent ones, and the status report. A byte
  outside the buffer is \<open>None\<close>; the null tests of the code have no counterpart. The lemmas give the round trips of the numbers of 5 and 12 bits.
\<close>

abbreviation (input) PDCP_CONTROL_PDU_BIT_SET :: int where "PDCP_CONTROL_PDU_BIT_SET \<equiv> 0"
abbreviation (input) PDCP_DATA_PDU_BIT_SET :: int where "PDCP_DATA_PDU_BIT_SET \<equiv> 1"

subsection \<open>Reading\<close>

definition octet_at :: "byte list \<Rightarrow> nat \<Rightarrow> byte option" where
  "octet_at bs i = (if i < length bs then Some (bs ! i) else None)"

text \<open>The masked byte is shifted as an \<^verbatim>\<open>int\<close> by the width of the byte.\<close>

definition pdcp_get_dc_filed :: "byte list \<Rightarrow> byte option" where
  "pdcp_get_dc_filed pdu_buffer = do { b \<leftarrow> octet_at pdu_buffer 0; Some (drop_bit 8 (b AND 0xF0)) }"

definition pdcp_get_sequence_number_of_pdu_with_long_sn :: "byte list \<Rightarrow> int option" where
  "pdcp_get_sequence_number_of_pdu_with_long_sn pdu_buffer =
     do { a \<leftarrow> octet_at pdu_buffer 0; b \<leftarrow> octet_at pdu_buffer 1; Some (push_bit 8 (uint (a AND 0x0F)) OR uint (b AND 0xFF)) }"

definition pdcp_get_sequence_number_of_pdu_with_short_sn :: "byte list \<Rightarrow> int option" where
  "pdcp_get_sequence_number_of_pdu_with_short_sn pdu_buffer = do { a \<leftarrow> octet_at pdu_buffer 0; Some (uint (a AND 0x7F)) }"

definition pdcp_get_sequence_number_of_pdu_with_SRB_sn :: "byte list \<Rightarrow> int option" where
  "pdcp_get_sequence_number_of_pdu_with_SRB_sn pdu_buffer = do { a \<leftarrow> octet_at pdu_buffer 0; Some (uint (a AND 0x1F)) }"

subsection \<open>Writing\<close>

definition pdcp_serialize_control_plane_data_pdu_with_SRB_sn_buffer :: "byte list \<Rightarrow> int \<Rightarrow> byte list option" where
  "pdcp_serialize_control_plane_data_pdu_with_SRB_sn_buffer pdu_buffer sn =
     (if 1 \<le> length pdu_buffer then Some (pdu_buffer[0 := word_of_int (to_uint8 sn) AND 0x1F]) else None)"

definition pdcp_serialize_user_plane_data_pdu_with_long_sn_buffer :: "byte list \<Rightarrow> int \<Rightarrow> int \<Rightarrow> byte list option" where
  "pdcp_serialize_user_plane_data_pdu_with_long_sn_buffer pdu_buffer dc sn =
     (if 2 \<le> length pdu_buffer then
        let hi = (word_of_int (drop_bit 8 (to_uint16 sn) AND 0xFF) :: byte)
        in Some (pdu_buffer[1 := word_of_int (to_uint16 sn AND 0xFF), 0 := (if dc = PDCP_DATA_PDU_BIT_SET then hi OR 0x80 else hi)])
      else None)"

text \<open>The status report: the operator \<^verbatim>\<open>&&\<close> of the source gives 0 or 1.\<close>

definition pdcp_serialize_control_pdu_for_pdcp_status_report :: "byte list \<Rightarrow> byte list \<Rightarrow> int \<Rightarrow> byte list option" where
  "pdcp_serialize_control_pdu_for_pdcp_status_report pdu_buffer bitmap first_missing_sn =
     (if 514 \<le> length pdu_buffer \<and> 512 \<le> length bitmap then
        Some ([util_mark_nth_bit_of_octet (pdu_buffer ! 0) 1 OR word_of_int (drop_bit 8 first_missing_sn AND 0xFF),
          pdu_buffer ! 1 OR (if first_missing_sn \<noteq> 0 \<and> (0xFF :: int) \<noteq> 0 then 1 else 0)] @ take 512 bitmap @ drop 514 pdu_buffer)
      else None)"

subsection \<open>Round trips\<close>

lemma and_low_ones: "(x :: int) AND 0x1F = x mod 32" "x AND 0xFF = x mod 256" "x AND 0x0F = x mod 16" "x AND 0x7F = x mod 128"
  using take_bit_eq_mask[of 5 x] take_bit_eq_mask[of 8 x] take_bit_eq_mask[of 4 x] take_bit_eq_mask[of 7 x]
  by (simp_all add: take_bit_eq_mod mask_eq_exp_minus_1)

lemma uint_numeral_byte: "uint (0x1F :: byte) = 0x1F" "uint (0xFF :: byte) = 0xFF" "uint (0x0F :: byte) = 0x0F" "uint (0x80 :: byte) = 0x80"
  by simp_all

lemma uint_low_ones: "uint ((w :: byte) AND 0x1F) = uint w mod 32" "uint (w AND 0xFF) = uint w" "uint (w AND 0x0F) = uint w mod 16"
proof -
  have "0 \<le> uint w" "uint w < 256" using uint_lt2p[of w] by simp_all
  then have "uint w mod 256 = uint w" by (rule mod_pos_pos_trivial)
  then show "uint (w AND 0x1F) = uint w mod 32" "uint (w AND 0xFF) = uint w" "uint (w AND 0x0F) = uint w mod 16"
    by (simp_all only: uint_and uint_numeral_byte and_low_ones)
qed

lemma srb_header_roundtrip:
  assumes "pdu_buffer \<noteq> []" "0 \<le> sn" "sn < 32"
  shows "pdcp_serialize_control_plane_data_pdu_with_SRB_sn_buffer pdu_buffer sn = Some (word_of_int sn # tl pdu_buffer)"
    "pdcp_get_sequence_number_of_pdu_with_SRB_sn (word_of_int sn # rest) = Some sn"
proof -
  have u: "uint (word_of_int sn :: byte) = sn" using assms by (simp add: unsigned_of_int take_bit_eq_mod)
  have w: "(word_of_int sn :: byte) AND 0x1F = word_of_int sn" using assms by (simp only: word_uint_eq_iff uint_low_ones u) simp
  show "pdcp_serialize_control_plane_data_pdu_with_SRB_sn_buffer pdu_buffer sn = Some (word_of_int sn # tl pdu_buffer)"
    using assms w by (cases pdu_buffer) (simp_all add: pdcp_serialize_control_plane_data_pdu_with_SRB_sn_buffer_def to_uint8_id)
  show "pdcp_get_sequence_number_of_pdu_with_SRB_sn (word_of_int sn # rest) = Some sn"
    using assms by (simp add: pdcp_get_sequence_number_of_pdu_with_SRB_sn_def octet_at_def uint_low_ones u)
qed

text \<open>The bytes of the long header.\<close>

definition long_header :: "int \<Rightarrow> int \<Rightarrow> byte list" where
  "long_header dc sn = [word_of_int (sn div 256 + (if dc = 1 then 128 else 0)), word_of_int (sn mod 256)]"

lemma long_header_roundtrip:
  assumes "2 \<le> length pdu_buffer" "0 \<le> sn" "sn < 4096"
  shows "pdcp_serialize_user_plane_data_pdu_with_long_sn_buffer pdu_buffer dc sn = Some (long_header dc sn @ drop 2 pdu_buffer)"
    "pdcp_get_sequence_number_of_pdu_with_long_sn (long_header dc sn @ rest) = Some sn"
proof -
  obtain a b r where buf: "pdu_buffer = a # b # r" using assms(1) by (cases pdu_buffer; cases "tl pdu_buffer") auto
  have q: "0 \<le> sn div 256" "sn div 256 < 16" "0 \<le> sn mod 256" "sn mod 256 < 256" using assms(2,3) by auto
  have u: "uint (word_of_int (sn mod 256) :: byte) = sn mod 256" "uint (word_of_int (sn div 256) :: byte) = sn div 256"
    "uint (word_of_int (sn div 256 + 128) :: byte) = sn div 256 + 128"
    using q by (simp_all add: unsigned_of_int take_bit_eq_mod del: of_int_add)
  have "(sn div 256) OR push_bit 7 1 = sn div 256 + 1 * 2 ^ 7" using q by (intro or_push_bit_add) simp_all
  then have h: "(word_of_int (sn div 256) :: byte) OR 0x80 = word_of_int (sn div 256 + 128)"
    using u by (simp only: word_uint_eq_iff uint_or uint_numeral_byte) simp
  show "pdcp_serialize_user_plane_data_pdu_with_long_sn_buffer pdu_buffer dc sn = Some (long_header dc sn @ drop 2 pdu_buffer)"
    using assms q h by (simp add: buf pdcp_serialize_user_plane_data_pdu_with_long_sn_buffer_def long_header_def to_uint16_id and_low_ones drop_bit_eq_div)
  have m: "(sn div 256 + 128) mod 16 = sn div 256"
  proof -
    have "(sn div 256 + 8 * 16) mod 16 = sn div 256 mod 16" by (rule mod_mult_self1)
    then show ?thesis using q by simp
  qed
  have "sn mod 256 OR push_bit 8 (sn div 256) = sn mod 256 + sn div 256 * 2 ^ 8" using q by (intro or_push_bit_add) simp_all
  then have "push_bit 8 (sn div 256) OR sn mod 256 = sn" by (simp add: or.commute)
  then show "pdcp_get_sequence_number_of_pdu_with_long_sn (long_header dc sn @ rest) = Some sn"
    using q m by (simp add: pdcp_get_sequence_number_of_pdu_with_long_sn_def octet_at_def long_header_def uint_low_ones u del: of_int_add)
qed

text \<open>The field D/C reads as 0 from every byte: the shift removes all bits of it.\<close>

lemma dc_field_is_zero: "pdcp_get_dc_filed (b # rest) = Some 0"
proof -
  have "drop_bit 8 (b AND 0xF0) = 0" by (rule bit_word_eqI) (simp add: bit_simps)
  then show ?thesis by (simp add: pdcp_get_dc_filed_def octet_at_def)
qed

end
