(* ===== verification/Pdcp_Security.thy ===== *)
theory Pdcp_Security
  imports Pdcp_Header Osa_Eia
begin

text \<open>
  Ciphering and integrity protection in PDCP, \<^verbatim>\<open>pdcp_security.c\<close>, on the bytes of the memory block of a PDU. The lemmas say that the two ends use
  the same COUNT, and that the receiver restores what the transmitter protected and accepts its code.
\<close>

abbreviation (input) SECU_DIRECTION_UPLINK :: byte where "SECU_DIRECTION_UPLINK \<equiv> 0"
abbreviation (input) SECU_DIRECTION_DOWNLINK :: byte where "SECU_DIRECTION_DOWNLINK \<equiv> 1"

text \<open>The values of \<^verbatim>\<open>pdcp-SN-Size\<close>, an enumeration of the ASN.1 specification of RRC; the constants \<^verbatim>\<open>maxDRB\<close> and \<^verbatim>\<open>NB_RB_MAX\<close>.\<close>

abbreviation (input) PDCP_SN_Size_len7bits :: nat where "PDCP_SN_Size_len7bits \<equiv> 0"
abbreviation (input) PDCP_SN_Size_len12bits :: nat where "PDCP_SN_Size_len12bits \<equiv> 1"
abbreviation (input) maxDRB :: int where "maxDRB \<equiv> 11"
abbreviation (input) NB_RB_MAX :: int where "NB_RB_MAX \<equiv> maxDRB + 3"

subsection \<open>COUNT\<close>

definition pdcp_get_next_count_tx :: "pdcp_t \<Rightarrow> bool \<Rightarrow> int \<Rightarrow> u32" where
  "pdcp_get_next_count_tx e srb_flagP pdcp_sn =
     (if srb_flagP then push_bit 5 (tx_hfn e) OR word_of_int (pdcp_sn AND 0x1F)
      else if seq_num_size e = PDCP_SN_Size_len7bits then push_bit 7 (tx_hfn e) OR word_of_int (pdcp_sn AND 0x7F)
      else push_bit 12 (tx_hfn e) OR word_of_int (pdcp_sn AND 0x0FFF))"

definition pdcp_get_next_count_rx :: "pdcp_t \<Rightarrow> bool \<Rightarrow> int \<Rightarrow> u32 \<times> pdcp_t" where
  "pdcp_get_next_count_rx e srb_flagP pdcp_sn =
     (let hfn = rx_hfn e + word_of_int (rx_hfn_offset e)
      in (if srb_flagP then push_bit 5 hfn OR word_of_int (pdcp_sn AND 0x1F)
          else if seq_num_size e = PDCP_SN_Size_len7bits then push_bit 7 hfn OR word_of_int (pdcp_sn AND 0x7F)
          else push_bit 12 hfn OR word_of_int (pdcp_sn AND 0x0FFF),
        e\<lparr>rx_hfn_offset := 0\<rparr>))"

subsection \<open>The two operations\<close>

text \<open>The bytes that a key pointer, moved by an offset, points to; none behind a null pointer.\<close>

definition key_from :: "nat \<Rightarrow> byte list option \<Rightarrow> byte list" where
  "key_from n k = (case k of None \<Rightarrow> [] | Some bs \<Rightarrow> drop n bs)"

definition pdcp_cipher_params :: "byte list \<Rightarrow> u32 \<Rightarrow> int \<Rightarrow> byte \<Rightarrow> int \<Rightarrow> stream_cipher_params" where
  "pdcp_cipher_params key count rb_id direction bytes =
     \<lparr>sc_key = key, sc_key_length = 16, sc_count = count, sc_bearer = word_of_int (rb_id - 1), sc_direction = direction,
      sc_blength = push_bit 3 (word_of_int bytes)\<rparr>"

text \<open>The code of the bytes before \<open>n\<close> is written behind them; without an algorithm the output keeps its content.\<close>

definition pdcp_put_mac :: "cmac_fun \<Rightarrow> byte \<Rightarrow> stream_cipher_params \<Rightarrow> nat \<Rightarrow> byte list \<Rightarrow> byte list option" where
  "pdcp_put_mac cmac algorithm p n buf =
     do {
       r \<leftarrow> stream_compute_integrity cmac algorithm p buf;
       case r of None \<Rightarrow> Some buf | Some mac \<Rightarrow> do { c_assert (n + 4 \<le> length buf); Some (take n buf @ mac @ drop (n + 4) buf) }
     }"

definition pdcp_apply_security ::
  "ctr_crypt \<Rightarrow> cmac_fun \<Rightarrow> pdcp_t \<Rightarrow> bool \<Rightarrow> int \<Rightarrow> nat \<Rightarrow> int \<Rightarrow> byte list \<Rightarrow> nat \<Rightarrow> byte list option" where
  "pdcp_apply_security ctr cmac e srb_flagP rb_id pdcp_header_len current_sn pdcp_pdu_buffer sdu_buffer_size =
     do {
       c_assert (rb_id < NB_RB_MAX \<and> rb_id \<ge> 0);
       let params = (\<lambda>key. pdcp_cipher_params key (pdcp_get_next_count_tx e srb_flagP current_sn) rb_id
         (if is_ue e then SECU_DIRECTION_UPLINK else SECU_DIRECTION_DOWNLINK));
       buf \<leftarrow> (if srb_flagP
         then pdcp_put_mac cmac (integrityProtAlgorithm e) (params (key_from 16 (kRRCint e)) (int (pdcp_header_len + sdu_buffer_size)))
           (pdcp_header_len + sdu_buffer_size) pdcp_pdu_buffer
         else Some pdcp_pdu_buffer);
       (_, message, _) \<leftarrow> stream_encrypt ctr (cipheringAlgorithm e) (params (key_from 0 (if srb_flagP then kRRCenc e else kUPenc e)) (int sdu_buffer_size))
         (drop pdcp_header_len buf) Out_message;
       Some (take pdcp_header_len buf @ message)
     }"

definition pdcp_validate_security ::
  "ctr_crypt \<Rightarrow> cmac_fun \<Rightarrow> pdcp_t \<Rightarrow> bool \<Rightarrow> int \<Rightarrow> nat \<Rightarrow> int \<Rightarrow> byte list \<Rightarrow> nat \<Rightarrow> (int \<times> pdcp_t \<times> byte list) option" where
  "pdcp_validate_security ctr cmac e srb_flagP rb_id pdcp_header_len current_sn pdcp_pdu_buffer sdu_buffer_size =
     do {
       c_assert (rb_id < NB_RB_MAX \<and> rb_id \<ge> 0);
       let (count, e') = pdcp_get_next_count_rx e srb_flagP current_sn;
       let params = (\<lambda>key. pdcp_cipher_params key count rb_id (if is_ue e then SECU_DIRECTION_DOWNLINK else SECU_DIRECTION_UPLINK));
       (_, message, _) \<leftarrow> stream_encrypt ctr (cipheringAlgorithm e)
         (params (key_from 0 (if srb_flagP then kRRCenc e else kUPenc e)) (int sdu_buffer_size - int pdcp_header_len)) (drop pdcp_header_len pdcp_pdu_buffer) Out_message;
       let buf = take pdcp_header_len pdcp_pdu_buffer @ message;
       if srb_flagP then do {
         r \<leftarrow> stream_check_integrity cmac (integrityProtAlgorithm e) (params (key_from 16 (kRRCint e)) (int sdu_buffer_size)) buf (drop sdu_buffer_size buf);
         Some (if r \<noteq> 0 then - 1 else 0, e', buf)
       } else Some (0, e', buf)
     }"

subsection \<open>Both ends count alike\<close>

lemma count_agrees:
  assumes "tx_hfn t = rx_hfn r" "rx_hfn_offset r = 0" "seq_num_size t = seq_num_size r"
  shows "pdcp_get_next_count_rx r srb sn = (pdcp_get_next_count_tx t srb sn, r)"
  using assms by (simp add: pdcp_get_next_count_rx_def pdcp_get_next_count_tx_def)

text \<open>Two entities that are the two sides of a bearer and share what a bearer of its kind uses of algorithms and keys.\<close>

definition pdcp_peers :: "bool \<Rightarrow> pdcp_t \<Rightarrow> pdcp_t \<Rightarrow> bool" where
  "pdcp_peers srb t r \<longleftrightarrow> is_ue t = (\<not> is_ue r) \<and> cipheringAlgorithm t = cipheringAlgorithm r \<and>
     (if srb then integrityProtAlgorithm t = integrityProtAlgorithm r \<and> kRRCint t = kRRCint r \<and> kRRCenc t = kRRCenc r else kUPenc t = kUPenc r)"

text \<open>The algorithms are known, and the keys have 32 bytes, as the derivation makes them.\<close>

definition pdcp_keyed :: "bool \<Rightarrow> ctr_crypt \<Rightarrow> cmac_fun \<Rightarrow> pdcp_t \<Rightarrow> bool" where
  "pdcp_keyed srb ctr cmac e \<longleftrightarrow> cipheringAlgorithm e \<le> 2 \<and> ctr_mode ctr \<and>
     (if srb then integrityProtAlgorithm e \<le> 2 \<and> (\<forall>k m. length (cmac k m) = 16) \<and> length (key_from 0 (kRRCint e)) = 32 \<and> length (key_from 0 (kRRCenc e)) = 32
      else length (key_from 0 (kUPenc e)) = 32)"

lemma key_from_drop: "key_from n k = drop n (key_from 0 k)"
  by (cases k) (simp_all add: key_from_def)

lemma pdcp_usable:
  assumes "pdcp_keyed srb ctr cmac e" "n < 2 ^ 28" "length key \<ge> 16"
  shows "eea_usable ctr (cipheringAlgorithm e) (pdcp_cipher_params key c rb d (int n))" "eea_bytes (pdcp_cipher_params key c rb d (int n)) = n"
    "eea_room (cipheringAlgorithm e) (pdcp_cipher_params key c rb d (int n)) \<le> 4 * ((n + 3) div 4)"
proof -
  have b: "sc_blength (pdcp_cipher_params key c rb d (int n)) = push_bit 3 (word_of_nat n)" by (simp add: pdcp_cipher_params_def)
  note w = whole_bytes_unat[OF b assms(2)]
  show "eea_usable ctr (cipheringAlgorithm e) (pdcp_cipher_params key c rb d (int n))"
    using assms b by (auto simp: eea_usable_def whole_bytes_def pdcp_keyed_def pdcp_cipher_params_def)
  show n: "eea_bytes (pdcp_cipher_params key c rb d (int n)) = n" using w(1) by (simp add: eea_bytes_def)
  have "n \<le> 4 * ((n + 3) div 4)" by presburger
  then show "eea_room (cipheringAlgorithm e) (pdcp_cipher_params key c rb d (int n)) \<le> 4 * ((n + 3) div 4)" by (simp add: eea_room_def n Let_def)
qed

subsection \<open>The receiver restores what the transmitter protected\<close>

lemma integrity_length:
  assumes "stream_compute_integrity cmac a p m = Some (Some mac)" "\<forall>k m. length (cmac k m) = 16"
  shows "length mac = 4"
  using assms by (auto simp: stream_compute_integrity_def stream_compute_integrity_eia1_def stream_compute_integrity_eia2_def Let_def split: if_splits)

text \<open>The code behind \<open>n\<close> bytes passes the check, over any memory that agrees on the bytes and the code.\<close>

lemma mac_checks:
  assumes "pdcp_keyed True ctr cmac e" "0 < n" "n < 2 ^ 28" "n + 4 \<le> length buf" "length key \<ge> 16"
  shows "\<exists>c. pdcp_put_mac cmac (integrityProtAlgorithm e) (pdcp_cipher_params key ct rb d (int n)) n buf = Some c \<and> length c = length buf \<and> take n c = take n buf \<and>
    (\<forall>m'. take (n + 4) m' = take (n + 4) c \<longrightarrow>
      stream_check_integrity cmac (integrityProtAlgorithm e) (pdcp_cipher_params key ct rb d (int n)) m' (drop n m') = Some 0)"
proof -
  let ?a = "integrityProtAlgorithm e" and ?p = "pdcp_cipher_params key ct rb d (int n)"
  have p: "sc_blength ?p = push_bit 3 (word_of_nat n)" "sc_key_length ?p = 16" "16 \<le> length (sc_key ?p)"
    using assms(5) by (simp_all add: pdcp_cipher_params_def)
  have four: "4 * ((n + 3) div 4) \<le> n + 4" by presburger
  have alg: "?a = 0 \<or> ?a = 1 \<or> ?a = 2" using assms(1) byte_le_2 by (auto simp: pdcp_keyed_def)
  have room: "4 * ((n + 3) div 4) \<le> length m'" if "take (n + 4) m' = take (n + 4) c" "length c = length buf" for m' c
    using arg_cong[OF that(1), of length] that(2) assms(4) four by simp
  note same = integrity_local(1)[OF p(1) assms(3,2) _ _ _ p(2,3), of _ _ cmac ?a]
  have 0: "4 * ((n + 3) div 4) \<le> length buf" using assms(4) four by simp
  obtain r where r: "stream_compute_integrity cmac ?a ?p buf = Some r"
    using integrity_local(2)[OF p(1) assms(3,2) refl 0 0 p(2,3), of cmac ?a] by blast
  show ?thesis
  proof (cases r)
    case None
    then have "?a = 0" using r alg by (auto simp: stream_compute_integrity_def)
    then show ?thesis using r None by (simp add: pdcp_put_mac_def stream_check_integrity_def)
  next
    case (Some mac)
    then have a: "?a \<noteq> 0" using r by (auto simp: stream_compute_integrity_def)
    have l: "length mac = 4" using integrity_length[of cmac ?a ?p buf mac] r Some assms(1) by (simp add: pdcp_keyed_def)
    define c where "c = take n buf @ mac @ drop (n + 4) buf"
    have c: "length c = length buf" "take n c = take n buf" "take 4 (drop n c) = mac" using assms(4) l by (simp_all add: c_def)
    have "stream_check_integrity cmac ?a ?p m' (drop n m') = Some 0" if m': "take (n + 4) m' = take (n + 4) c" for m'
    proof -
      have "take n m' = take n buf" "take 4 (drop n m') = mac" using arg_cong[OF m', of "take n"] arg_cong[OF m', of "drop n"] c(2,3)
        by (simp_all add: take_drop add.commute)
      moreover from this have "stream_compute_integrity cmac ?a ?p m' = Some (Some mac)"
        using same[of m' buf] room[OF m' c(1)] 0 r Some by simp
      moreover from calculation have "4 \<le> length (drop n m')" using l by (metis length_take min.cobounded1)
      ultimately show ?thesis using a by (simp add: stream_check_integrity_def)
    qed
    then show ?thesis using r Some assms(4) c(1,2) by (intro exI[of _ c]) (simp add: pdcp_put_mac_def flip: c_def)
  qed
qed

text \<open>
  The bytes a PDU occupies: header, SDU, and the code for a signalling bearer. The cipher EEA1 works on whole words, so the memory block must have room for them.
\<close>

definition pdcp_pdu_bytes :: "bool \<Rightarrow> nat \<Rightarrow> nat \<Rightarrow> nat" where
  "pdcp_pdu_bytes srb hdr n = hdr + n + (if srb then 4 else 0)"

definition pdcp_block_ok :: "bool \<Rightarrow> nat \<Rightarrow> nat \<Rightarrow> byte list \<Rightarrow> bool" where
  "pdcp_block_ok srb hdr n buf \<longleftrightarrow> pdcp_pdu_bytes srb hdr n \<le> length buf \<and> hdr + 4 * ((n + 3) div 4) \<le> length buf"

lemma eea_crypt_encrypt: "eea_crypt ctr a p m = Some (c, out) \<Longrightarrow> \<exists>z. stream_encrypt ctr a p m Out_message = Some (z, c, out)"
  by (auto simp: eea_crypt_def)

text \<open>Ciphering the bytes behind the header.\<close>

lemma cipher_behind:
  assumes "eea_usable ctr a p" "hdr + eea_room a p \<le> length b" "hdr + eea_bytes p \<le> k" "k \<le> length b"
  shows "\<exists>z c. stream_encrypt ctr a p (drop hdr b) Out_message = Some (z, c, Out_message) \<and> length (take hdr b @ c) = length b \<and>
    (\<forall>m'. take k m' = take k (take hdr b @ c) \<and> hdr + eea_room a p \<le> length m' \<and> k \<le> length m' \<longrightarrow>
      (\<exists>z d. stream_encrypt ctr a p (drop hdr m') Out_message = Some (z, d, Out_message) \<and> length (take hdr m' @ d) = length m' \<and>
        take k (take hdr m' @ d) = take k b))"
proof -
  have "eea_room a p \<le> length (drop hdr b)" "eea_bytes p \<le> k - hdr" "k - hdr \<le> length (drop hdr b)" using assms by simp_all
  from eea.crypt_back[OF assms(1) this] obtain c where c: "length c = length (drop hdr b)" "eea_crypt ctr a p (drop hdr b) = Some (c, Out_message)"
    "\<And>m'. take (k - hdr) m' = take (k - hdr) c \<Longrightarrow> eea_room a p \<le> length m' \<Longrightarrow>
      \<exists>d. length d = length m' \<and> eea_crypt ctr a p m' = Some (d, Out_message) \<and> take (k - hdr) d = take (k - hdr) (drop hdr b)" by blast
  have k: "hdr \<le> k" "hdr \<le> length b" using assms(3,4) by simp_all
  have "\<exists>z d. stream_encrypt ctr a p (drop hdr m') Out_message = Some (z, d, Out_message) \<and> length (take hdr m' @ d) = length m' \<and>
        take k (take hdr m' @ d) = take k b"
    if m': "take k m' = take k (take hdr b @ c)" "hdr + eea_room a p \<le> length m'" "k \<le> length m'" for m'
  proof -
    have "take (k - hdr) (drop hdr m') = take (k - hdr) c" using arg_cong[OF m'(1), of "drop hdr"] k by (simp add: drop_take)
    moreover have "eea_room a p \<le> length (drop hdr m')" using m'(2) by simp
    ultimately obtain d where d: "length d = length (drop hdr m')" "eea_crypt ctr a p (drop hdr m') = Some (d, Out_message)"
      "take (k - hdr) d = take (k - hdr) (drop hdr b)" using c(3) by blast
    have "take hdr m' = take hdr b" using arg_cong[OF m'(1), of "take hdr"] k by (simp add: min_def)
    then have "take k (take hdr m' @ d) = take hdr b @ take (k - hdr) (drop hdr b)" using k d(3) by simp
    also have "\<dots> = take k b" using k(1) by (metis take_add le_add_diff_inverse)
    finally show ?thesis using eea_crypt_encrypt[OF d(2)] d(1) m'(3) k(1) by auto
  qed
  then show ?thesis using eea_crypt_encrypt[OF c(2)] c(1) k by auto
qed

lemma security_restores:
  assumes "pdcp_keyed srb ctr cmac t" "pdcp_peers srb t r" "pdcp_get_next_count_rx r srb sn = (pdcp_get_next_count_tx t srb sn, r)"
    "0 \<le> rb" "rb < NB_RB_MAX" "0 < hdr" "hdr + n < 2 ^ 28" "pdcp_block_ok srb hdr n buf"
  shows "\<exists>c. pdcp_apply_security ctr cmac t srb rb hdr sn buf n = Some c \<and> length c = length buf \<and> take hdr c = take hdr buf \<and>
    (\<forall>m'. take (pdcp_pdu_bytes srb hdr n) m' = take (pdcp_pdu_bytes srb hdr n) c \<and> pdcp_block_ok srb hdr n m' \<longrightarrow>
      (\<exists>d. pdcp_validate_security ctr cmac r srb rb hdr sn m' (hdr + n) = Some (0, r, d) \<and> length d = length m' \<and> take (hdr + n) d = take (hdr + n) buf))"
proof -
  let ?k = "pdcp_pdu_bytes srb hdr n" and ?ct = "pdcp_get_next_count_tx t srb sn"
  define dir where "dir = (if is_ue t then SECU_DIRECTION_UPLINK else SECU_DIRECTION_DOWNLINK)"
  define pe where "pe = pdcp_cipher_params (key_from 0 (if srb then kRRCenc t else kUPenc t)) ?ct rb dir (int n)"
  define pi where "pi = pdcp_cipher_params (key_from 16 (kRRCint t)) ?ct rb dir (int (hdr + n))"
  have dir_r: "(if is_ue r then SECU_DIRECTION_DOWNLINK else SECU_DIRECTION_UPLINK) = dir" using assms(2) by (auto simp: pdcp_peers_def dir_def)
  have peer: "cipheringAlgorithm r = cipheringAlgorithm t" "(if srb then kRRCenc r else kUPenc r) = (if srb then kRRCenc t else kUPenc t)"
    "srb \<Longrightarrow> integrityProtAlgorithm r = integrityProtAlgorithm t" "srb \<Longrightarrow> kRRCint r = kRRCint t"
    using assms(2) by (simp_all add: pdcp_peers_def)
  have keys: "16 \<le> length (key_from 0 (if srb then kRRCenc t else kUPenc t))" "srb \<Longrightarrow> 16 \<le> length (key_from 16 (kRRCint t))"
    using assms(1) key_from_drop[of 16 "kRRCint t"] by (simp_all add: pdcp_keyed_def)
  have n: "n < 2 ^ 28" using assms(7) by simp
  note u = pdcp_usable[OF assms(1) n keys(1), of ?ct rb dir, folded pe_def]
  have len: "?k \<le> length buf" "hdr + 4 * ((n + 3) div 4) \<le> length buf" using assms(8) by (simp_all add: pdcp_block_ok_def)
  have k: "hdr + n \<le> ?k" "srb \<Longrightarrow> ?k = hdr + n + 4" by (simp_all add: pdcp_pdu_bytes_def)
  have "\<exists>b1. (if srb then pdcp_put_mac cmac (integrityProtAlgorithm t) pi (hdr + n) buf else Some buf) = Some b1 \<and> length b1 = length buf \<and>
      take (hdr + n) b1 = take (hdr + n) buf \<and>
      (srb \<longrightarrow> (\<forall>m'. take ?k m' = take ?k b1 \<longrightarrow> stream_check_integrity cmac (integrityProtAlgorithm t) pi m' (drop (hdr + n) m') = Some 0))"
  proof (cases srb)
    case True
    show ?thesis unfolding pi_def k(2)[OF True]
      using mac_checks[OF _ _ assms(7) _ keys(2)[OF True], of ctr cmac t buf ?ct rb dir] assms(1,6) len(1) k(2)[OF True] True by simp
  qed simp
  then obtain b1 where b1: "(if srb then pdcp_put_mac cmac (integrityProtAlgorithm t) pi (hdr + n) buf else Some buf) = Some b1"
    "length b1 = length buf" "take (hdr + n) b1 = take (hdr + n) buf"
    "\<And>m'. srb \<Longrightarrow> take ?k m' = take ?k b1 \<Longrightarrow> stream_check_integrity cmac (integrityProtAlgorithm t) pi m' (drop (hdr + n) m') = Some 0" by blast
  have "hdr + eea_room (cipheringAlgorithm t) pe \<le> length b1" "hdr + eea_bytes pe \<le> ?k" "?k \<le> length b1"
    using u(2,3) len k(1) b1(2) by simp_all
  from cipher_behind[OF u(1) this] obtain z c where z: "stream_encrypt ctr (cipheringAlgorithm t) pe (drop hdr b1) Out_message = Some (z, c, Out_message)"
    and lc: "length (take hdr b1 @ c) = length b1" and back_c: "\<And>m'. take ?k m' = take ?k (take hdr b1 @ c) \<Longrightarrow> hdr + eea_room (cipheringAlgorithm t) pe \<le> length m' \<Longrightarrow> ?k \<le> length m' \<Longrightarrow>
      \<exists>z d. stream_encrypt ctr (cipheringAlgorithm t) pe (drop hdr m') Out_message = Some (z, d, Out_message) \<and> length (take hdr m' @ d) = length m' \<and>
        take ?k (take hdr m' @ d) = take ?k b1" by blast
  have apply_eq: "pdcp_apply_security ctr cmac t srb rb hdr sn buf n = Some (take hdr b1 @ c)"
    unfolding pdcp_apply_security_def Let_def dir_def[symmetric] pe_def[symmetric] pi_def[symmetric] b1(1) using assms(4,5) z by simp
  have "\<exists>d. pdcp_validate_security ctr cmac r srb rb hdr sn m' (hdr + n) = Some (0, r, d) \<and> length d = length m' \<and> take (hdr + n) d = take (hdr + n) buf"
    if m': "take ?k m' = take ?k (take hdr b1 @ c)" "pdcp_block_ok srb hdr n m'" for m'
  proof -
    obtain z' d where d: "stream_encrypt ctr (cipheringAlgorithm t) pe (drop hdr m') Out_message = Some (z', d, Out_message)"
      "length (take hdr m' @ d) = length m'" "take ?k (take hdr m' @ d) = take ?k b1"
      using back_c[OF m'(1)] m'(2) u(3) by (auto simp: pdcp_block_ok_def)
    have "take (hdr + n) (take hdr m' @ d) = take (hdr + n) buf" using arg_cong[OF d(3), of "take (hdr + n)"] k(1) b1(3) by (simp only: take_take min_absorb1)
    moreover have n': "int (hdr + n) - int hdr = int n" by simp
    have "pdcp_validate_security ctr cmac r srb rb hdr sn m' (hdr + n) = Some (0, r, take hdr m' @ d)"
      unfolding pdcp_validate_security_def Let_def assms(3) prod.case peer(1,2) dir_r n' pe_def[symmetric]
      using assms(4,5) d(1) b1(4)[OF _ d(3)] peer(3,4) by (cases srb) (simp_all add: pi_def)
    ultimately show ?thesis using d(2) by blast
  qed
  moreover have "take hdr (take hdr b1 @ c) = take hdr buf" using arg_cong[OF b1(3), of "take hdr"] b1(2) len(1) k(1) by (simp add: min_def)
  ultimately show ?thesis using apply_eq lc b1(2) by (intro exI[of _ "take hdr b1 @ c"]) simp
qed

end
