(* ===== verification/Pdcp_Data.thy ===== *)
theory Pdcp_Data
  imports Pdcp_Security
begin

text \<open>
  The transfer of data between the neighbours of PDCP, \<^verbatim>\<open>pdcp_data_req\<close> and \<^verbatim>\<open>pdcp_data_ind\<close> of \<^verbatim>\<open>pdcp.c\<close>, built with security, without the emulation,
  and with an IP packet of at most 1500 bytes. What the layer hands to RLC, RRC and GTP-U is appended to logs; a memory block is the list of its bytes, \<open>None\<close> if there is none.
\<close>

datatype pdcp_transmission_mode =
    PDCP_TRANSMISSION_MODE_UNKNOWN
  | PDCP_TRANSMISSION_MODE_CONTROL
  | PDCP_TRANSMISSION_MODE_DATA
  | PDCP_TRANSMISSION_MODE_TRANSPARENT

datatype rlc_op_status = RLC_OP_STATUS_OK | RLC_OP_STATUS_BAD_PARAMETER | RLC_OP_STATUS_INTERNAL_ERROR | RLC_OP_STATUS_OUT_OF_RESSOURCES

abbreviation (input) NUMBER_OF_eNB_MAX :: nat where "NUMBER_OF_eNB_MAX \<equiv> 7"
abbreviation (input) NUMBER_OF_UE_MAX :: nat where "NUMBER_OF_UE_MAX \<equiv> 16"
abbreviation (input) maxServiceCount :: nat where "maxServiceCount \<equiv> 16"
abbreviation (input) maxSessionPerPMCH :: nat where "maxSessionPerPMCH \<equiv> 29"
abbreviation (input) NB_RB_MBMS_MAX :: int where "NB_RB_MBMS_MAX \<equiv> 29 * 16"
abbreviation (input) MAX_IP_PACKET_SIZE :: int where "MAX_IP_PACKET_SIZE \<equiv> 1500"

text \<open>A bearer as the arguments of both functions name it.\<close>

record pdcp_bearer =
  enb_mod_idP :: nat
  ue_mod_idP :: nat
  enb_flagP :: bool
  srb_flagP :: bool
  rb_idP :: int

text \<open>A call of \<^verbatim>\<open>rlc_data_req\<close>, an SDU for an upper layer (for the IP driver with the header \<^verbatim>\<open>pdcp_data_ind_header_t\<close>), and the state of the layer.\<close>

record rlc_request =
  rq_bearer :: pdcp_bearer
  rq_MBMS_flag :: bool
  rq_mui :: int
  rq_confirm :: bool
  rq_sdu_size :: int
  rq_sdu :: "byte list"

record pdcp_sdu =
  ind_rb_id :: int
  ind_data_size :: int
  ind_data :: "byte list"

record pdcp_mbms_t =
  mb_instanciated_instance :: bool
  mb_rb_id :: int

record pdcp_layer =
  pdcp_array_srb_ue :: "nat \<Rightarrow> nat \<Rightarrow> pdcp_t"
  pdcp_array_drb_ue :: "nat \<Rightarrow> nat \<Rightarrow> pdcp_t"
  pdcp_array_srb_eNB :: "nat \<Rightarrow> nat \<Rightarrow> nat \<Rightarrow> pdcp_t"
  pdcp_array_drb_eNB :: "nat \<Rightarrow> nat \<Rightarrow> nat \<Rightarrow> pdcp_t"
  pdcp_mbms_array_ue :: "nat \<Rightarrow> nat \<Rightarrow> nat \<Rightarrow> pdcp_mbms_t"
  pdcp_mbms_array_eNB :: "nat \<Rightarrow> nat \<Rightarrow> nat \<Rightarrow> pdcp_mbms_t"
  pdcp_sdu_list :: "pdcp_sdu list"
  log_rlc_data_req :: "rlc_request list"
  log_rrc_data_ind :: "(pdcp_bearer \<times> pdcp_sdu) list"
  log_gtpv1u :: "(nat \<times> pdcp_sdu) list"

text \<open>What the layer depends on: the libraries of cryptography, whether the function \<^verbatim>\<open>macphy_exit\<close> returns, whether traffic is generated, and whether GTP-U is linked in.\<close>

record pdcp_env =
  pe_ctr :: ctr_crypt
  pe_cmac :: cmac_fun
  pe_exit_returns :: bool
  pe_otg_enabled :: bool
  pe_link_gtpv1u :: bool

subsection \<open>The entities\<close>

definition pdcp_entity_at :: "pdcp_layer \<Rightarrow> pdcp_bearer \<Rightarrow> int \<Rightarrow> pdcp_t option" where
  "pdcp_entity_at l b rb_id =
     (let i = nat (rb_id - 1)
      in if 1 \<le> rb_id \<and> rb_id \<le> (if srb_flagP b then 2 else maxDRB) \<and> ue_mod_idP b < NUMBER_OF_UE_MAX \<and> (enb_flagP b \<longrightarrow> enb_mod_idP b < NUMBER_OF_eNB_MAX)
         then Some (if \<not> enb_flagP b
           then (if srb_flagP b then pdcp_array_srb_ue l (ue_mod_idP b) i else pdcp_array_drb_ue l (ue_mod_idP b) i)
           else (if srb_flagP b then pdcp_array_srb_eNB l (enb_mod_idP b) (ue_mod_idP b) i else pdcp_array_drb_eNB l (enb_mod_idP b) (ue_mod_idP b) i))
         else None)"

definition fun_upd2 :: "('a \<Rightarrow> 'b \<Rightarrow> 'c) \<Rightarrow> 'a \<Rightarrow> 'b \<Rightarrow> 'c \<Rightarrow> 'a \<Rightarrow> 'b \<Rightarrow> 'c" where
  "fun_upd2 f a b c = f(a := (f a)(b := c))"

definition pdcp_put_entity :: "pdcp_bearer \<Rightarrow> int \<Rightarrow> pdcp_t \<Rightarrow> pdcp_layer \<Rightarrow> pdcp_layer" where
  "pdcp_put_entity b rb_id e l =
     (let i = nat (rb_id - 1); u = ue_mod_idP b; n = enb_mod_idP b
      in if \<not> enb_flagP b
         then (if srb_flagP b then l\<lparr>pdcp_array_srb_ue := fun_upd2 (pdcp_array_srb_ue l) u i e\<rparr> else l\<lparr>pdcp_array_drb_ue := fun_upd2 (pdcp_array_drb_ue l) u i e\<rparr>)
         else (if srb_flagP b then l\<lparr>pdcp_array_srb_eNB := (pdcp_array_srb_eNB l)(n := fun_upd2 (pdcp_array_srb_eNB l n) u i e)\<rparr>
           else l\<lparr>pdcp_array_drb_eNB := (pdcp_array_drb_eNB l)(n := fun_upd2 (pdcp_array_drb_eNB l n) u i e)\<rparr>))"

subsection \<open>Sending\<close>

abbreviation (input) PDCP_CONTROL_PLANE_DATA_PDU_SN_SIZE :: nat where "PDCP_CONTROL_PLANE_DATA_PDU_SN_SIZE \<equiv> 1"
abbreviation (input) PDCP_CONTROL_PLANE_DATA_PDU_MAC_I_SIZE :: nat where "PDCP_CONTROL_PLANE_DATA_PDU_MAC_I_SIZE \<equiv> 4"
abbreviation (input) PDCP_USER_PLANE_DATA_PDU_LONG_SN_HEADER_SIZE :: nat where "PDCP_USER_PLANE_DATA_PDU_LONG_SN_HEADER_SIZE \<equiv> 2"
abbreviation (input) PDCP_USER_PLANE_DATA_PDU_SHORT_SN_HEADER_SIZE :: nat where "PDCP_USER_PLANE_DATA_PDU_SHORT_SN_HEADER_SIZE \<equiv> 1"

definition pdcp_header_len :: "bool \<Rightarrow> nat" where
  "pdcp_header_len srb = (if srb then PDCP_CONTROL_PLANE_DATA_PDU_SN_SIZE else PDCP_USER_PLANE_DATA_PDU_LONG_SN_HEADER_SIZE)"

definition pdcp_tailer_len :: "bool \<Rightarrow> nat" where
  "pdcp_tailer_len srb = (if srb then PDCP_CONTROL_PLANE_DATA_PDU_MAC_I_SIZE else 0)"

text \<open>
  The PDU in a fresh memory block, lines 232 to 313. The header of a signalling bearer has a number of 8 bits. \<open>Some (None, e)\<close>: the number exceeds the size of the entity.
\<close>

definition pdcp_build_pdu ::
  "pdcp_env \<Rightarrow> bool \<Rightarrow> int \<Rightarrow> pdcp_transmission_mode \<Rightarrow> byte list \<Rightarrow> byte list \<Rightarrow> pdcp_t \<Rightarrow> (byte list option \<times> pdcp_t) option" where
  "pdcp_build_pdu env srb rb_id mode sdu block e =
     do {
       let hdr = pdcp_header_len srb;
       let n = length sdu;
       c_assert (hdr + n + pdcp_tailer_len srb \<le> length block);
       let (number, e1) = pdcp_get_next_tx_seq_number e;
       let sn = (if srb then to_uint8 number else number);
       block1 \<leftarrow> (if srb then pdcp_serialize_control_plane_data_pdu_with_SRB_sn_buffer block sn
         else pdcp_serialize_user_plane_data_pdu_with_long_sn_buffer block
           (if mode = PDCP_TRANSMISSION_MODE_DATA then PDCP_DATA_PDU_BIT_SET else PDCP_CONTROL_PDU_BIT_SET) sn);
       if sn > pdcp_calculate_max_seq_num_for_given_size (seq_num_size e1) then Some (None, e1)
       else do {
         let block2 = take hdr block1 @ sdu @ replicate (pdcp_tailer_len srb) 0 @ drop (hdr + n + pdcp_tailer_len srb) block1;
         block3 \<leftarrow> (if security_activated e1 \<noteq> 0 \<and> (cipheringAlgorithm e1 \<noteq> 0 \<or> integrityProtAlgorithm e1 \<noteq> 0)
           then pdcp_apply_security (pe_ctr env) (pe_cmac env) e1 srb (rb_id mod maxDRB) hdr sn block2 (nat (to_uint16 (int n)))
           else Some block2);
         Some (Some block3, e1)
       }
     }"

definition pdcp_rlc_data_req :: "bool \<Rightarrow> pdcp_bearer \<Rightarrow> int \<Rightarrow> bool \<Rightarrow> int \<Rightarrow> byte list \<Rightarrow> pdcp_layer \<Rightarrow> pdcp_layer" where
  "pdcp_rlc_data_req mbms b mui confirm sdu_size block l =
     l\<lparr>log_rlc_data_req := log_rlc_data_req l @ [\<lparr>rq_bearer = b, rq_MBMS_flag = mbms, rq_mui = mui, rq_confirm = confirm,
       rq_sdu_size = sdu_size, rq_sdu = block\<rparr>]\<rparr>"

text \<open>The arguments \<open>block\<close> and \<open>status\<close> are what \<^verbatim>\<open>get_free_mem_block\<close> and \<^verbatim>\<open>rlc_data_req\<close> return.\<close>

definition pdcp_data_req ::
  "pdcp_env \<Rightarrow> byte list option \<Rightarrow> rlc_op_status \<Rightarrow> pdcp_bearer \<Rightarrow> int \<Rightarrow> bool \<Rightarrow> int \<Rightarrow> byte list \<Rightarrow> pdcp_transmission_mode \<Rightarrow> pdcp_layer \<Rightarrow> (bool \<times> pdcp_layer) option" where
  "pdcp_data_req env block status b mui confirm sdu_size sdu mode l =
     (if \<not> enb_mod_idP b < NUMBER_OF_eNB_MAX \<or> \<not> ue_mod_idP b < NUMBER_OF_UE_MAX then Some (False, l)
      else if \<not> rb_idP b < (if mode = PDCP_TRANSMISSION_MODE_TRANSPARENT then NB_RB_MBMS_MAX else if srb_flagP b then 2 else maxDRB) then Some (False, l)
      else do {
        e \<leftarrow> pdcp_entity_at l b (rb_idP b);
        if \<not> instanciated_instance e \<and> mode \<noteq> PDCP_TRANSMISSION_MODE_TRANSPARENT then Some (False, l)
        else if sdu_size = 0 then Some (False, l)
        else do {
          c_assert (sdu_size > MAX_IP_PACKET_SIZE \<longrightarrow> pe_exit_returns env);
          if mode = PDCP_TRANSMISSION_MODE_TRANSPARENT then
            (case block of
               None \<Rightarrow> Some (False, l)
             | Some m \<Rightarrow> do {
                 c_assert (0 \<le> sdu_size \<and> nat sdu_size \<le> length sdu \<and> nat sdu_size \<le> length m);
                 Some (status = RLC_OP_STATUS_OK, pdcp_rlc_data_req True b mui confirm sdu_size (take (nat sdu_size) sdu @ drop (nat sdu_size) m) l)
               })
          else
            (case block of
               None \<Rightarrow> Some (False, l)
             | Some m \<Rightarrow> do {
                 c_assert (0 \<le> sdu_size \<and> nat sdu_size \<le> length sdu);
                 (pdu, e1) \<leftarrow> pdcp_build_pdu env (srb_flagP b) (rb_idP b) mode (take (nat sdu_size) sdu) m e;
                 let l1 = pdcp_put_entity b (rb_idP b) e1 l;
                 case pdu of
                   None \<Rightarrow> Some (False, l1)
                 | Some m1 \<Rightarrow> Some (status = RLC_OP_STATUS_OK,
                     pdcp_rlc_data_req False b mui confirm (to_uint16 (sdu_size + int (pdcp_header_len (srb_flagP b)) + int (pdcp_tailer_len (srb_flagP b)))) m1 l1)
               })
        }
      })"

subsection \<open>Receiving\<close>

text \<open>The lengths of header and trailer and the number of a received PDU; an entity with another size of numbers leaves them 0.\<close>

definition pdcp_parse_header :: "pdcp_t \<Rightarrow> bool \<Rightarrow> byte list \<Rightarrow> (nat \<times> nat \<times> int) option" where
  "pdcp_parse_header e srb buf =
     (if srb then do { sn \<leftarrow> pdcp_get_sequence_number_of_pdu_with_SRB_sn buf;
         Some (PDCP_CONTROL_PLANE_DATA_PDU_SN_SIZE, PDCP_CONTROL_PLANE_DATA_PDU_MAC_I_SIZE, sn) }
      else if seq_num_size e = PDCP_SN_7BIT then do { sn \<leftarrow> pdcp_get_sequence_number_of_pdu_with_short_sn buf;
         Some (PDCP_USER_PLANE_DATA_PDU_SHORT_SN_HEADER_SIZE, 0, sn) }
      else if seq_num_size e = PDCP_SN_12BIT then do { sn \<leftarrow> pdcp_get_sequence_number_of_pdu_with_long_sn buf;
         Some (PDCP_USER_PLANE_DATA_PDU_LONG_SN_HEADER_SIZE, 0, sn) }
      else Some (0, 0, 0))"

text \<open>
  Lines 508 to 647 on the entity: \<open>None\<close> for a PDU that is too short, else the length of the header, the length of the trailer, the number, and the block afterwards. The
  results of the check of the number and of the validation are not used.
\<close>

definition pdcp_take_pdu :: "pdcp_env \<Rightarrow> bool \<Rightarrow> int \<Rightarrow> int \<Rightarrow> byte list \<Rightarrow> pdcp_t \<Rightarrow> ((nat \<times> nat \<times> int \<times> byte list) option \<times> pdcp_t) option" where
  "pdcp_take_pdu env srb rb_id sdu_size buf e =
     do {
       (hdr, tailer, sn) \<leftarrow> pdcp_parse_header e srb buf;
       if sdu_size < int (hdr + tailer) then Some (None, e)
       else do {
         let e1 = snd (pdcp_is_rx_seq_number_valid sn e srb);
         (_, e2, buf2) \<leftarrow> (if security_activated e1 = 1
           then pdcp_validate_security (pe_ctr env) (pe_cmac env) e1 srb rb_id hdr sn buf (nat (to_uint16 (sdu_size - int tailer)))
           else Some (0, e1, buf));
         Some (Some (hdr, tailer, sn, buf2), e2)
       }
     }"

text \<open>Bytes behind an offset, as \<^verbatim>\<open>memcpy\<close> reads them.\<close>

definition bytes_at :: "nat \<Rightarrow> int \<Rightarrow> byte list \<Rightarrow> byte list option" where
  "bytes_at off n bs = (if 0 \<le> n \<and> off + nat n \<le> length bs then Some (take (nat n) (drop off bs)) else None)"

definition pdcp_mk_sdu :: "int \<Rightarrow> byte list \<Rightarrow> pdcp_sdu" where
  "pdcp_mk_sdu rb_id bs = \<lparr>ind_rb_id = rb_id, ind_data_size = int (length bs), ind_data = bs\<rparr>"

text \<open>
  Lines 650 to 795: the SDU of a data bearer goes to GTP-U or into the list for the IP driver, if a memory block is free. For a multicast bearer there is no entity,
  and the code reads it all the same where it stores the SDU for the driver.
\<close>

definition pdcp_deliver :: "pdcp_env \<Rightarrow> bool \<Rightarrow> pdcp_bearer \<Rightarrow> bool \<Rightarrow> int \<Rightarrow> int \<Rightarrow> byte list \<Rightarrow> pdcp_layer \<Rightarrow> (bool \<times> pdcp_layer) option" where
  "pdcp_deliver env free_block b mbms rb_id sn data l =
     (if pe_otg_enabled env then Some (True, l)
      else if pe_link_gtpv1u env \<and> enb_flagP b \<and> \<not> srb_flagP b then Some (True, l\<lparr>log_gtpv1u := log_gtpv1u l @ [(ue_mod_idP b, pdcp_mk_sdu (rb_id + 4) data)]\<rparr>)
      else if free_block then do {
        c_assert (\<not> mbms);
        e \<leftarrow> pdcp_entity_at l b rb_id;
        let l1 = (if pdcp_rlc_mode e = RLC_MODE_AM then pdcp_put_entity b rb_id (e\<lparr>last_submitted_pdcp_rx_sn := sn\<rparr>) l else l);
        Some (True, l1\<lparr>pdcp_sdu_list := pdcp_sdu_list l1 @
          [pdcp_mk_sdu (to_uint16 (if \<not> enb_flagP b then rb_id else rb_id + int (ue_mod_idP b) * maxDRB)) data]\<rparr>)
      } else Some (True, l))"

text \<open>The bytes \<open>buf\<close> are those of the memory block, of which the first \<open>sdu_size\<close> are the PDU.\<close>

definition pdcp_data_ind :: "pdcp_env \<Rightarrow> bool \<Rightarrow> pdcp_bearer \<Rightarrow> bool \<Rightarrow> int \<Rightarrow> byte list \<Rightarrow> pdcp_layer \<Rightarrow> (bool \<times> pdcp_layer) option" where
  "pdcp_data_ind env free_block b mbms sdu_size buf l =
     (let rb_id = (if mbms then rb_idP b else rb_idP b mod maxDRB)
      in if mbms \<and> \<not> rb_idP b < NB_RB_MBMS_MAX \<or> \<not> mbms \<and> \<not> rb_id > 0 then Some (False, l)
         else if sdu_size = 0 then Some (False, l)
         else if mbms then do { data \<leftarrow> bytes_at 0 sdu_size buf; pdcp_deliver env free_block b mbms rb_id 0 data l }
         else do {
           e \<leftarrow> pdcp_entity_at l b rb_id;
           (pdu, e1) \<leftarrow> pdcp_take_pdu env (srb_flagP b) (rb_idP b) sdu_size buf e;
           let l1 = pdcp_put_entity b rb_id e1 l;
           case pdu of
             None \<Rightarrow> Some (False, l1)
           | Some (hdr, tailer, sn, buf1) \<Rightarrow> do {
               data \<leftarrow> bytes_at hdr (sdu_size - int hdr - int tailer) buf1;
               if srb_flagP b then Some (True, l1\<lparr>log_rrc_data_ind := log_rrc_data_ind l1 @ [(b, pdcp_mk_sdu rb_id data)]\<rparr>)
               else pdcp_deliver env free_block b mbms rb_id sn data l1
             }
         })"

end
