(* ===== verification/Pdcp_Pdu.thy ===== *)
theory Pdcp_Pdu
  imports Pdcp_Data
begin

text \<open>
  One SDU through two PDCP entities: the PDU one builds is taken apart by the other, which then expects the next number, with and without security. What a block carries is
  stated for every receiver that matches the transmitter and can follow the number, and for every memory block that begins with the bytes of the PDU.
\<close>

definition pdcp_matched :: "bool \<Rightarrow> pdcp_env \<Rightarrow> pdcp_t \<Rightarrow> pdcp_t \<Rightarrow> bool" where
  "pdcp_matched srb env t r \<longleftrightarrow> seq_num_size t = seq_num_size r \<and>
     (security_activated t = 0 \<and> security_activated r = 0 \<or>
      security_activated t = 1 \<and> security_activated r = 1 \<and> pdcp_keyed srb (pe_ctr env) (pe_cmac env) t \<and> pdcp_peers srb t r)"

definition sn_bits :: "bool \<Rightarrow> nat" where
  "sn_bits srb = (if srb then 5 else 12)"

lemma sn_bits_valid: "seq_num_size e = sn_bits srb \<Longrightarrow> pdcp_is_seq_num_size_valid e"
  by (simp add: sn_bits_def pdcp_is_seq_num_size_valid_def split: if_splits)

text \<open>Without algorithms the protection changes nothing.\<close>

lemma apply_null:
  assumes "cipheringAlgorithm e = 0" "integrityProtAlgorithm e = 0" "0 \<le> rb" "rb < NB_RB_MAX" "n < 2 ^ 28" "hdr + n \<le> length buf"
  shows "pdcp_apply_security ctr cmac e srb rb hdr sn buf n = Some buf"
proof -
  have "unat (drop_bit 3 (sc_blength (pdcp_cipher_params key c rb d (int n)) + 7)) = n" for key c d
    by (rule whole_bytes_unat(3)[OF _ assms(5)]) (simp add: pdcp_cipher_params_def)
  moreover have "take hdr buf @ take n (drop hdr buf) @ drop (n + hdr) buf = buf" by (metis append_take_drop_id drop_drop)
  moreover have "n \<le> length buf - hdr" using assms(6) by linarith
  ultimately show ?thesis using assms(1-4)
    by (simp add: pdcp_apply_security_def pdcp_put_mac_def stream_compute_integrity_def stream_encrypt_def stream_encrypt_eea0_def osa_put_def Let_def)
qed

text \<open>The header of number \<open>N\<close>.\<close>

definition pdcp_header :: "bool \<Rightarrow> int \<Rightarrow> int \<Rightarrow> byte list" where
  "pdcp_header srb dc sn = (if srb then [word_of_int sn] else long_header dc sn)"

lemma pdcp_header_length [simp]: "length (pdcp_header srb dc sn) = pdcp_header_len srb"
  by (simp add: pdcp_header_def pdcp_header_len_def long_header_def)

lemma pdcp_parse_header_at:
  assumes "seq_num_size e = sn_bits srb" "0 \<le> sn" "sn < 2 ^ sn_bits srb" "take (pdcp_header_len srb) buf = pdcp_header srb dc sn"
  shows "pdcp_parse_header e srb buf = Some (pdcp_header_len srb, pdcp_tailer_len srb, sn)"
proof -
  have "buf = pdcp_header srb dc sn @ drop (pdcp_header_len srb) buf" using assms(4) by (metis append_take_drop_id)
  then obtain rest where "buf = pdcp_header srb dc sn @ rest" by blast
  then show ?thesis using assms(1-3) srb_header_roundtrip(2)[of buf sn rest] long_header_roundtrip(2)[of buf sn dc rest]
      srb_header_roundtrip(2)[of "[0]" sn rest] long_header_roundtrip(2)[of "[0, 0]" sn dc rest]
    by (auto simp: pdcp_parse_header_def sn_bits_def pdcp_header_def pdcp_header_len_def pdcp_tailer_len_def)
qed

text \<open>The PDU without protection in its block.\<close>

definition plain_block :: "bool \<Rightarrow> int \<Rightarrow> int \<Rightarrow> byte list \<Rightarrow> byte list \<Rightarrow> byte list" where
  "plain_block srb dc sn d block =
     pdcp_header srb dc sn @ d @ replicate (pdcp_tailer_len srb) 0 @ drop (pdcp_header_len srb + length d + pdcp_tailer_len srb) block"

lemma plain_block_parts:
  assumes "pdcp_header_len srb + length d + pdcp_tailer_len srb \<le> length block"
  shows "length (plain_block srb dc sn d block) = length block" "take (pdcp_header_len srb) (plain_block srb dc sn d block) = pdcp_header srb dc sn"
    "take (length d) (drop (pdcp_header_len srb) (plain_block srb dc sn d block)) = d"
  using assms by (simp_all add: plain_block_def)

lemma pdcp_pdu_bytes_eq: "pdcp_pdu_bytes srb (pdcp_header_len srb) n = pdcp_header_len srb + n + pdcp_tailer_len srb"
  by (simp add: pdcp_pdu_bytes_def pdcp_tailer_len_def)

lemma pdcp_build_plain:
  assumes "seq_num_size e = sn_bits srb" "pdcp_tx_at N e" "pdcp_header_len srb + length d + pdcp_tailer_len srb \<le> length block"
  shows "\<exists>t h dc. let e1 = e\<lparr>next_pdcp_tx_sn := t, tx_hfn := h\<rparr>; sn = N mod 2 ^ sn_bits srb; b = plain_block srb dc sn d block
    in pdcp_tx_at (N + 1) e1 \<and> pdcp_build_pdu env srb rb mode d block e =
      (case (if security_activated e \<noteq> 0 \<and> (cipheringAlgorithm e \<noteq> 0 \<or> integrityProtAlgorithm e \<noteq> 0)
             then pdcp_apply_security (pe_ctr env) (pe_cmac env) e1 srb (rb mod maxDRB) (pdcp_header_len srb) sn b (nat (to_uint16 (int (length d)))) else Some b)
       of None \<Rightarrow> None | Some m \<Rightarrow> Some (Some m, e1))"
proof -
  let ?sn = "N mod 2 ^ sn_bits srb" and ?dc = "if mode = PDCP_TRANSMISSION_MODE_DATA then PDCP_DATA_PDU_BIT_SET else PDCP_CONTROL_PDU_BIT_SET"
  obtain t h where n: "pdcp_get_next_tx_seq_number e = (?sn, e\<lparr>next_pdcp_tx_sn := t, tx_hfn := h\<rparr>)" "pdcp_tx_at (N + 1) (e\<lparr>next_pdcp_tx_sn := t, tx_hfn := h\<rparr>)"
    using pdcp_next_tx[OF sn_bits_valid[OF assms(1)] assms(2)] assms(1) by auto
  have b: "0 \<le> ?sn" "?sn < 2 ^ sn_bits srb" by simp_all
  have u: "(if srb then to_uint8 ?sn else ?sn) = ?sn" using b by (simp add: sn_bits_def to_uint8_id)
  have hdr: "(if srb then pdcp_serialize_control_plane_data_pdu_with_SRB_sn_buffer block ?sn else pdcp_serialize_user_plane_data_pdu_with_long_sn_buffer block ?dc ?sn)
      = Some (pdcp_header srb ?dc ?sn @ drop (pdcp_header_len srb) block)"
  proof (cases srb)
    case True
    then have "block \<noteq> []" using assms(3) by (auto simp: pdcp_header_len_def)
    then show ?thesis using srb_header_roundtrip(1)[of block ?sn] b True by (simp add: sn_bits_def pdcp_header_def pdcp_header_len_def drop_Suc)
  next
    case False
    then have "2 \<le> length block" using assms(3) by (simp add: pdcp_header_len_def)
    then show ?thesis using long_header_roundtrip(1)[of block ?sn ?dc] b False by (simp add: sn_bits_def pdcp_header_def pdcp_header_len_def)
  qed
  have max: "\<not> ?sn > pdcp_calculate_max_seq_num_for_given_size (seq_num_size e)" using b(2) unfolding assms(1) pdcp_max[OF sn_bits_valid[OF assms(1)], unfolded assms(1)] by linarith
  have blk: "take (pdcp_header_len srb) (pdcp_header srb ?dc ?sn @ drop (pdcp_header_len srb) block) @ d @ replicate (pdcp_tailer_len srb) 0 @
      drop (pdcp_header_len srb + length d + pdcp_tailer_len srb) (pdcp_header srb ?dc ?sn @ drop (pdcp_header_len srb) block) = plain_block srb ?dc ?sn d block"
    by (simp add: plain_block_def add_ac)
  show ?thesis
    unfolding pdcp_build_pdu_def Let_def n(1) prod.case u hdr
    using assms(3) n(2) max blk by (intro exI[of _ t] exI[of _ h] exI[of _ ?dc]) (auto split: option.split)
qed

lemma pdcp_static_fields:
  assumes "pdcp_static a = pdcp_static b"
  shows "is_ue a = is_ue b" "cipheringAlgorithm a = cipheringAlgorithm b" "integrityProtAlgorithm a = integrityProtAlgorithm b" "kUPenc a = kUPenc b"
    "kRRCint a = kRRCint b" "kRRCenc a = kRRCenc b" "security_activated a = security_activated b" "seq_num_size a = seq_num_size b"
    "pdcp_rlc_mode a = pdcp_rlc_mode b" "last_submitted_pdcp_rx_sn a = last_submitted_pdcp_rx_sn b" "instanciated_instance a = instanciated_instance b"
  using arg_cong[OF assms, of is_ue] arg_cong[OF assms, of cipheringAlgorithm] arg_cong[OF assms, of integrityProtAlgorithm] arg_cong[OF assms, of kUPenc]
    arg_cong[OF assms, of kRRCint] arg_cong[OF assms, of kRRCenc] arg_cong[OF assms, of security_activated] arg_cong[OF assms, of seq_num_size]
    arg_cong[OF assms, of pdcp_rlc_mode] arg_cong[OF assms, of last_submitted_pdcp_rx_sn] arg_cong[OF assms, of instanciated_instance]
  by (simp_all add: pdcp_static_def)

lemma pdcp_matched_cong:
  assumes "pdcp_static a = pdcp_static b" "pdcp_matched srb env t b"
  shows "pdcp_matched srb env t a"
  using assms(2) pdcp_static_fields[OF assms(1)] by (cases srb) (simp_all add: pdcp_matched_def pdcp_peers_def)

text \<open>What a receiver makes of a PDU: it takes the SDU out, and expects the next number.\<close>

definition pdcp_takes :: "pdcp_env \<Rightarrow> bool \<Rightarrow> int \<Rightarrow> int \<Rightarrow> byte list \<Rightarrow> byte list \<Rightarrow> pdcp_t \<Rightarrow> pdcp_t \<Rightarrow> bool" where
  "pdcp_takes env srb rb N d buf r r' \<longleftrightarrow>
     (\<exists>buf'. pdcp_take_pdu env srb rb (int (pdcp_pdu_bytes srb (pdcp_header_len srb) (length d))) buf r =
       Some (Some (pdcp_header_len srb, pdcp_tailer_len srb, N mod 2 ^ sn_bits srb, buf'), r') \<and>
       bytes_at (pdcp_header_len srb) (int (length d)) buf' = Some d) \<and> pdcp_rx_at (N + 1) r' \<and> pdcp_static r' = pdcp_static r"

lemma bytes_at_take:
  assumes "take (h + n) buf = take (h + n) b" "take n (drop h b) = d" "h + n \<le> length b"
  shows "bytes_at h (int n) buf = Some d"
proof -
  have "take n (drop h buf) = d" using arg_cong[OF assms(1), of "drop h"] assms(2) by (simp add: drop_take)
  moreover have "h + n \<le> length buf" using arg_cong[OF assms(1), of length] assms(3) by simp
  ultimately show ?thesis by (simp add: bytes_at_def)
qed

lemma pdcp_take_one:
  assumes "seq_num_size r = sn_bits srb" "pdcp_rx_at R r" "pdcp_follows srb r R N" "length d \<le> 1500"
    "take (pdcp_header_len srb) buf = pdcp_header srb dc (N mod 2 ^ sn_bits srb)"
    "\<And>r'. pdcp_rx_at (N + 1) r' \<Longrightarrow> pdcp_static r' = pdcp_static r \<Longrightarrow>
      \<exists>z buf'. (if security_activated r' = 1 then pdcp_validate_security (pe_ctr env) (pe_cmac env) r' srb rb (pdcp_header_len srb) (N mod 2 ^ sn_bits srb) buf (pdcp_header_len srb + length d)
         else Some (0, r', buf)) = Some (z, r', buf') \<and> bytes_at (pdcp_header_len srb) (int (length d)) buf' = Some d"
  shows "\<exists>r'. pdcp_takes env srb rb N d buf r r'"
proof -
  let ?sn = "N mod 2 ^ sn_bits srb" and ?h = "pdcp_header_len srb" and ?t = "pdcp_tailer_len srb"
  obtain r' where r': "pdcp_is_rx_seq_number_valid ?sn r srb = (True, r')" "pdcp_rx_at (N + 1) r'"
    using pdcp_rx_follows[OF sn_bits_valid[OF assms(1)] assms(2,3)] assms(1) by auto
  have st: "pdcp_static r' = pdcp_static r" using pdcp_valid_static[of ?sn r srb] r'(1) by simp
  obtain z buf' where v: "(if security_activated r' = 1 then pdcp_validate_security (pe_ctr env) (pe_cmac env) r' srb rb ?h ?sn buf (?h + length d) else Some (0, r', buf)) = Some (z, r', buf')"
    "bytes_at ?h (int (length d)) buf' = Some d" using assms(6)[OF r'(2) st] by blast
  have "?h \<le> 2" "?t \<le> 4" by (simp_all add: pdcp_header_len_def pdcp_tailer_len_def)
  then have u: "nat (to_uint16 (int (?h + length d + ?t) - int ?t)) = ?h + length d" using assms(4) by (simp add: to_uint16_id)
  have p: "pdcp_parse_header r srb buf = Some (?h, ?t, ?sn)" by (rule pdcp_parse_header_at[OF assms(1) _ _ assms(5)]) simp_all
  have "pdcp_take_pdu env srb rb (int (pdcp_pdu_bytes srb ?h (length d))) buf r = Some (Some (?h, ?t, ?sn, buf'), r')"
    unfolding pdcp_take_pdu_def p bind.bind_lunit prod.case r'(1) snd_conv Let_def pdcp_pdu_bytes_eq u v(1) by simp
  then show ?thesis using v(2) r'(2) st unfolding pdcp_takes_def by blast
qed

text \<open>A block with the PDU of number \<open>N\<close>: every matching receiver that can follow takes \<open>d\<close> out of its bytes.\<close>

definition pdcp_carries :: "pdcp_env \<Rightarrow> bool \<Rightarrow> int \<Rightarrow> pdcp_t \<Rightarrow> int \<Rightarrow> byte list \<Rightarrow> byte list \<Rightarrow> bool" where
  "pdcp_carries env srb rb t N d m \<longleftrightarrow>
     (\<forall>r R buf. pdcp_matched srb env t r \<and> seq_num_size r = sn_bits srb \<and> pdcp_rx_at R r \<and> pdcp_follows srb r R N \<and>
       pdcp_block_ok srb (pdcp_header_len srb) (length d) buf \<and>
       take (pdcp_pdu_bytes srb (pdcp_header_len srb) (length d)) buf = take (pdcp_pdu_bytes srb (pdcp_header_len srb) (length d)) m \<longrightarrow>
       (\<exists>r'. pdcp_takes env srb rb N d buf r r'))"

lemma pdcp_carries_plain:
  assumes "security_activated t = 0" "length d \<le> 1500" "pdcp_header_len srb + length d + pdcp_tailer_len srb \<le> length block"
  shows "pdcp_carries env srb rb t N d (plain_block srb dc (N mod 2 ^ sn_bits srb) d block)"
  unfolding pdcp_carries_def
proof (intro allI impI, elim conjE)
  fix r R buf
  let ?h = "pdcp_header_len srb" and ?b = "plain_block srb dc (N mod 2 ^ sn_bits srb) d block"
  assume r: "pdcp_matched srb env t r" "seq_num_size r = sn_bits srb" "pdcp_rx_at R r" "pdcp_follows srb r R N"
    and eq: "take (pdcp_pdu_bytes srb ?h (length d)) buf = take (pdcp_pdu_bytes srb ?h (length d)) ?b"
  note pb = plain_block_parts[OF assms(3), of dc "N mod 2 ^ sn_bits srb"]
  have eqn: "take (?h + length d) buf = take (?h + length d) ?b" using arg_cong[OF eq, of "take (?h + length d)"] by (simp add: pdcp_pdu_bytes_def min_def)
  have hdr: "take ?h buf = pdcp_header srb dc (N mod 2 ^ sn_bits srb)" using arg_cong[OF eqn, of "take ?h"] pb(2) by (simp add: min_def)
  have data: "bytes_at ?h (int (length d)) buf = Some d" using bytes_at_take[OF eqn pb(3)] pb(1) assms(3) by simp
  have s: "security_activated r \<noteq> 1" using r(1) assms(1) by (auto simp: pdcp_matched_def)
  show "\<exists>r'. pdcp_takes env srb rb N d buf r r'"
  proof (rule pdcp_take_one[OF r(2-4) assms(2) hdr])
    fix r' assume "pdcp_static r' = pdcp_static r"
    then have "security_activated r' \<noteq> 1" using s pdcp_static_fields(7) by metis
    then show "\<exists>z buf'. (if security_activated r' = 1 then pdcp_validate_security (pe_ctr env) (pe_cmac env) r' srb rb ?h (N mod 2 ^ sn_bits srb) buf (?h + length d)
         else Some (0, r', buf)) = Some (z, r', buf') \<and> bytes_at ?h (int (length d)) buf' = Some d" using data by auto
  qed
qed

lemma pdcp_carries_protected:
  assumes "seq_num_size t = sn_bits srb" "pdcp_tx_at (N + 1) t" "pdcp_keyed srb (pe_ctr env) (pe_cmac env) t" "length d \<le> 1500" "0 \<le> rb" "rb < NB_RB_MAX"
    "pdcp_block_ok srb (pdcp_header_len srb) (length d) block"
  shows "\<exists>m. pdcp_apply_security (pe_ctr env) (pe_cmac env) t srb rb (pdcp_header_len srb) (N mod 2 ^ sn_bits srb)
      (plain_block srb dc (N mod 2 ^ sn_bits srb) d block) (length d) = Some m \<and> length m = length block \<and>
    (security_activated t = 1 \<longrightarrow> pdcp_carries env srb rb t N d m)"
proof -
  let ?h = "pdcp_header_len srb" and ?sn = "N mod 2 ^ sn_bits srb" and ?b = "plain_block srb dc (N mod 2 ^ sn_bits srb) d block"
  let ?k = "pdcp_pdu_bytes srb ?h (length d)"
  have h: "0 < ?h" "?h \<le> 2" by (simp_all add: pdcp_header_len_def)
  then have lim: "?h + length d < 2 ^ 28" using assms(4) by simp
  have len: "?h + length d + pdcp_tailer_len srb \<le> length block" using assms(7) by (simp add: pdcp_block_ok_def pdcp_pdu_bytes_eq)
  note pb = plain_block_parts[OF len, of dc ?sn]
  have ok: "pdcp_block_ok srb ?h (length d) ?b" using assms(7) pb(1) by (simp add: pdcp_block_ok_def)
  note restores = security_restores[OF assms(3) _ _ assms(5,6) h(1) lim ok, of _ ?sn]
  define r0 where "r0 = t\<lparr>is_ue := \<not> is_ue t, rx_hfn := tx_hfn t, rx_hfn_offset := 0\<rparr>"
  have "pdcp_peers srb t r0" "pdcp_get_next_count_rx r0 srb ?sn = (pdcp_get_next_count_tx t srb ?sn, r0)"
    by (auto simp: pdcp_peers_def r0_def intro: count_agrees)
  from restores[OF this] obtain m where m: "pdcp_apply_security (pe_ctr env) (pe_cmac env) t srb rb ?h ?sn ?b (length d) = Some m"
    "length m = length ?b" "take ?h m = take ?h ?b" by blast
  have "pdcp_carries env srb rb t N d m" if "security_activated t = 1"
    unfolding pdcp_carries_def
  proof (intro allI impI, elim conjE)
    fix r R buf
    assume r: "pdcp_matched srb env t r" "seq_num_size r = sn_bits srb" "pdcp_rx_at R r" "pdcp_follows srb r R N"
      and buf: "pdcp_block_ok srb ?h (length d) buf" and eq: "take ?k buf = take ?k m"
    have hdr: "take ?h buf = pdcp_header srb dc ?sn" using arg_cong[OF eq, of "take ?h"] m(3) pb(2) by (simp add: pdcp_pdu_bytes_def min_def)
    show "\<exists>r'. pdcp_takes env srb rb N d buf r r'"
    proof (rule pdcp_take_one[OF r(2-4) assms(4) hdr])
      fix r' assume r': "pdcp_rx_at (N + 1) r'" "pdcp_static r' = pdcp_static r"
      have mt: "pdcp_matched srb env t r'" by (rule pdcp_matched_cong[OF r'(2) r(1)])
      then have p: "pdcp_peers srb t r'" "security_activated r' = 1" "seq_num_size t = seq_num_size r'" using that by (auto simp: pdcp_matched_def)
      have "pdcp_get_next_count_rx r' srb ?sn = (pdcp_get_next_count_tx t srb ?sn, r')"
        using assms(2) r'(1) p(3) by (intro count_agrees) (simp_all add: pdcp_tx_at_def pdcp_rx_at_def)
      from restores[OF p(1) this] m(1) eq buf obtain buf' where v: "pdcp_validate_security (pe_ctr env) (pe_cmac env) r' srb rb ?h ?sn buf (?h + length d) = Some (0, r', buf')"
        "take (?h + length d) buf' = take (?h + length d) ?b" by auto
      have "bytes_at ?h (int (length d)) buf' = Some d" by (rule bytes_at_take[OF v(2) pb(3)]) (use pb(1) len in simp)
      then show "\<exists>z buf'. (if security_activated r' = 1 then pdcp_validate_security (pe_ctr env) (pe_cmac env) r' srb rb ?h ?sn buf (?h + length d)
         else Some (0, r', buf)) = Some (z, r', buf') \<and> bytes_at ?h (int (length d)) buf' = Some d" using v(1) p(2) by simp
    qed
  qed
  then show ?thesis using m(1,2) pb(1) by simp
qed

text \<open>An entity that may send: its security is off, or on with keys.\<close>

definition pdcp_sendable :: "bool \<Rightarrow> pdcp_env \<Rightarrow> pdcp_t \<Rightarrow> bool" where
  "pdcp_sendable srb env t \<longleftrightarrow> security_activated t = 0 \<or> security_activated t = 1 \<and> pdcp_keyed srb (pe_ctr env) (pe_cmac env) t"

lemma pdcp_sender_counters [simp]:
  "pdcp_keyed srb ctr cmac (e\<lparr>next_pdcp_tx_sn := t, tx_hfn := h\<rparr>) = pdcp_keyed srb ctr cmac e"
  "pdcp_sendable srb env (e\<lparr>next_pdcp_tx_sn := t, tx_hfn := h\<rparr>) = pdcp_sendable srb env e"
  "pdcp_matched srb env (e\<lparr>next_pdcp_tx_sn := t, tx_hfn := h\<rparr>) r = pdcp_matched srb env e r"
  by (simp_all add: pdcp_keyed_def pdcp_sendable_def pdcp_matched_def pdcp_peers_def)

lemma pdcp_carries_static:
  assumes "pdcp_carries env srb rb t' N d m" "\<And>r. pdcp_matched srb env t r \<Longrightarrow> pdcp_matched srb env t' r"
  shows "pdcp_carries env srb rb t N d m"
  using assms unfolding pdcp_carries_def by blast

lemma pdcp_build_carries:
  assumes "seq_num_size e = sn_bits srb" "pdcp_tx_at N e" "pdcp_sendable srb env e" "length d \<le> 1500" "1 \<le> rb" "rb < maxDRB"
    "pdcp_block_ok srb (pdcp_header_len srb) (length d) block"
  shows "\<exists>t h m. pdcp_build_pdu env srb rb mode d block e = Some (Some m, e\<lparr>next_pdcp_tx_sn := t, tx_hfn := h\<rparr>) \<and>
    pdcp_tx_at (N + 1) (e\<lparr>next_pdcp_tx_sn := t, tx_hfn := h\<rparr>) \<and> length m = length block \<and> pdcp_carries env srb rb e N d m"
proof -
  have len: "pdcp_header_len srb + length d + pdcp_tailer_len srb \<le> length block" using assms(7) by (simp add: pdcp_block_ok_def pdcp_pdu_bytes_eq)
  obtain t h dc where b: "pdcp_tx_at (N + 1) (e\<lparr>next_pdcp_tx_sn := t, tx_hfn := h\<rparr>)"
    "pdcp_build_pdu env srb rb mode d block e =
      (case (if security_activated e \<noteq> 0 \<and> (cipheringAlgorithm e \<noteq> 0 \<or> integrityProtAlgorithm e \<noteq> 0)
             then pdcp_apply_security (pe_ctr env) (pe_cmac env) (e\<lparr>next_pdcp_tx_sn := t, tx_hfn := h\<rparr>) srb (rb mod maxDRB) (pdcp_header_len srb)
               (N mod 2 ^ sn_bits srb) (plain_block srb dc (N mod 2 ^ sn_bits srb) d block) (nat (to_uint16 (int (length d))))
             else Some (plain_block srb dc (N mod 2 ^ sn_bits srb) d block))
       of None \<Rightarrow> None | Some m \<Rightarrow> Some (Some m, e\<lparr>next_pdcp_tx_sn := t, tx_hfn := h\<rparr>))"
    using pdcp_build_plain[OF assms(1,2) len, of env rb mode] unfolding Let_def by blast
  let ?e1 = "e\<lparr>next_pdcp_tx_sn := t, tx_hfn := h\<rparr>" and ?b = "plain_block srb dc (N mod 2 ^ sn_bits srb) d block"
  have r: "rb mod maxDRB = rb" "nat (to_uint16 (int (length d))) = length d" using assms(4-6) by (simp_all add: to_uint16_id)
  show ?thesis
  proof (cases "security_activated e = 0")
    case True
    then show ?thesis using b plain_block_parts(1)[OF len] pdcp_carries_plain[OF True assms(4) len] by auto
  next
    case False
    then have k: "security_activated ?e1 = 1" "pdcp_keyed srb (pe_ctr env) (pe_cmac env) ?e1" "seq_num_size ?e1 = sn_bits srb"
      using assms(1,3) by (auto simp: pdcp_sendable_def)
    have rb: "0 \<le> rb" "rb < NB_RB_MAX" using assms(5,6) by simp_all
    obtain m where m: "pdcp_apply_security (pe_ctr env) (pe_cmac env) ?e1 srb rb (pdcp_header_len srb) (N mod 2 ^ sn_bits srb) ?b (length d) = Some m"
      "length m = length block" "pdcp_carries env srb rb ?e1 N d m" using pdcp_carries_protected[OF k(3) b(1) k(2) assms(4) rb assms(7), of dc] k(1) by blast
    have c: "pdcp_carries env srb rb e N d m"
      by (rule pdcp_carries_static[OF m(3)]) simp
    show ?thesis
    proof (cases "cipheringAlgorithm e \<noteq> 0 \<or> integrityProtAlgorithm e \<noteq> 0")
      case True
      then show ?thesis using b m(1,2) c False r by auto
    next
      case null: False
      have "length d < 2 ^ 28" "pdcp_header_len srb + length d \<le> length ?b" using assms(4) len plain_block_parts(1)[OF len] by simp_all
      then have "m = ?b" using apply_null[of ?e1 rb "length d" "pdcp_header_len srb" ?b] null rb m(1) by auto
      then show ?thesis using b m(2) c null by auto
    qed
  qed
qed

end
