(* ===== verification/Pdcp_Link.thy ===== *)
theory Pdcp_Link
  imports Pdcp_Pdu
begin

text \<open>
  Two PDCP layers at the ends of a bearer: what one is asked to send, the other delivers. A run is a list of requests on one side, and of indications on the other.
\<close>

subsection \<open>Entities in the layer\<close>

definition pdcp_bearer_ok :: "pdcp_bearer \<Rightarrow> bool" where
  "pdcp_bearer_ok b \<longleftrightarrow> enb_mod_idP b < NUMBER_OF_eNB_MAX \<and> ue_mod_idP b < NUMBER_OF_UE_MAX \<and> 1 \<le> rb_idP b \<and> rb_idP b < (if srb_flagP b then 2 else maxDRB)"

lemma pdcp_entity_put:
  assumes "pdcp_bearer_ok b"
  shows "pdcp_entity_at (pdcp_put_entity b (rb_idP b) e l) b (rb_idP b) = Some e"
  using assms by (simp add: pdcp_entity_at_def pdcp_put_entity_def pdcp_bearer_ok_def fun_upd2_def Let_def)

lemma pdcp_put_logs [simp]:
  "pdcp_sdu_list (pdcp_put_entity b i e l) = pdcp_sdu_list l" "log_rlc_data_req (pdcp_put_entity b i e l) = log_rlc_data_req l"
  "log_rrc_data_ind (pdcp_put_entity b i e l) = log_rrc_data_ind l" "log_gtpv1u (pdcp_put_entity b i e l) = log_gtpv1u l"
  by (simp_all add: pdcp_put_entity_def Let_def)

lemma pdcp_entity_logs [simp]:
  "pdcp_entity_at (l\<lparr>pdcp_sdu_list := x\<rparr>) b i = pdcp_entity_at l b i" "pdcp_entity_at (l\<lparr>log_rlc_data_req := y\<rparr>) b i = pdcp_entity_at l b i"
  "pdcp_entity_at (l\<lparr>log_rrc_data_ind := z\<rparr>) b i = pdcp_entity_at l b i" "pdcp_entity_at (l\<lparr>log_gtpv1u := w\<rparr>) b i = pdcp_entity_at l b i"
  by (simp_all add: pdcp_entity_at_def Let_def)

subsection \<open>Requests\<close>

record pdcp_item =
  it_mui :: int
  it_confirm :: bool
  it_mode :: pdcp_transmission_mode
  it_sdu :: "byte list"
  it_block :: "byte list"

text \<open>An SDU of 1 to 1500 bytes, and a memory block with room for its PDU.\<close>

definition pdcp_item_ok :: "bool \<Rightarrow> pdcp_item \<Rightarrow> bool" where
  "pdcp_item_ok srb q \<longleftrightarrow> it_mode q \<noteq> PDCP_TRANSMISSION_MODE_TRANSPARENT \<and> 0 < length (it_sdu q) \<and> length (it_sdu q) \<le> 1500 \<and>
     pdcp_block_ok srb (pdcp_header_len srb) (length (it_sdu q)) (it_block q)"

fun pdcp_send :: "pdcp_env \<Rightarrow> pdcp_bearer \<Rightarrow> pdcp_item list \<Rightarrow> pdcp_layer \<Rightarrow> pdcp_layer option" where
  "pdcp_send env b [] l = Some l"
| "pdcp_send env b (q # qs) l =
     do {
       (ok, l') \<leftarrow> pdcp_data_req env (Some (it_block q)) RLC_OP_STATUS_OK b (it_mui q) (it_confirm q) (int (length (it_sdu q))) (it_sdu q) (it_mode q) l;
       c_assert ok;
       pdcp_send env b qs l'
     }"

text \<open>The transmitting entity of a bearer, up to its counters, and the number of its next PDU.\<close>

definition pdcp_tx_ready :: "pdcp_env \<Rightarrow> pdcp_bearer \<Rightarrow> pdcp_t \<Rightarrow> int \<Rightarrow> pdcp_layer \<Rightarrow> bool" where
  "pdcp_tx_ready env b e N l \<longleftrightarrow> pdcp_bearer_ok b \<and> instanciated_instance e \<and> seq_num_size e = sn_bits (srb_flagP b) \<and> pdcp_sendable (srb_flagP b) env e \<and>
     (\<exists>t h. pdcp_entity_at l b (rb_idP b) = Some (e\<lparr>next_pdcp_tx_sn := t, tx_hfn := h\<rparr>) \<and> pdcp_tx_at N (e\<lparr>next_pdcp_tx_sn := t, tx_hfn := h\<rparr>))"

text \<open>The request to RLC for the SDU with number \<open>N\<close>.\<close>

definition pdcp_request_of :: "pdcp_env \<Rightarrow> pdcp_bearer \<Rightarrow> pdcp_t \<Rightarrow> int \<Rightarrow> pdcp_item \<Rightarrow> rlc_request \<Rightarrow> bool" where
  "pdcp_request_of env b e N q rq \<longleftrightarrow> rq_bearer rq = b \<and> \<not> rq_MBMS_flag rq \<and> rq_mui rq = it_mui q \<and> rq_confirm rq = it_confirm q \<and>
     rq_sdu_size rq = int (pdcp_pdu_bytes (srb_flagP b) (pdcp_header_len (srb_flagP b)) (length (it_sdu q))) \<and> length (rq_sdu rq) = length (it_block q) \<and>
     pdcp_carries env (srb_flagP b) (rb_idP b) e N (it_sdu q) (rq_sdu rq)"

lemma pdcp_send_one:
  assumes "pdcp_tx_ready env b e N l" "pdcp_item_ok (srb_flagP b) q"
  shows "\<exists>l' rq. pdcp_data_req env (Some (it_block q)) RLC_OP_STATUS_OK b (it_mui q) (it_confirm q) (int (length (it_sdu q))) (it_sdu q) (it_mode q) l = Some (True, l') \<and>
    pdcp_tx_ready env b e (N + 1) l' \<and> log_rlc_data_req l' = log_rlc_data_req l @ [rq] \<and> pdcp_request_of env b e N q rq"
proof -
  let ?h = "pdcp_header_len (srb_flagP b)" and ?n = "length (it_sdu q)"
  obtain t h where l: "pdcp_bearer_ok b" "instanciated_instance e" "seq_num_size e = sn_bits (srb_flagP b)" "pdcp_sendable (srb_flagP b) env e"
    "pdcp_entity_at l b (rb_idP b) = Some (e\<lparr>next_pdcp_tx_sn := t, tx_hfn := h\<rparr>)" "pdcp_tx_at N (e\<lparr>next_pdcp_tx_sn := t, tx_hfn := h\<rparr>)"
    using assms(1) unfolding pdcp_tx_ready_def by blast
  have q: "it_mode q \<noteq> PDCP_TRANSMISSION_MODE_TRANSPARENT" "0 < ?n" "?n \<le> 1500" "pdcp_block_ok (srb_flagP b) ?h ?n (it_block q)"
    using assms(2) by (simp_all add: pdcp_item_ok_def)
  have rb: "1 \<le> rb_idP b" "rb_idP b < maxDRB" using l(1) by (auto simp: pdcp_bearer_ok_def split: if_splits)
  let ?e = "e\<lparr>next_pdcp_tx_sn := t, tx_hfn := h\<rparr>"
  have e: "seq_num_size ?e = sn_bits (srb_flagP b)" "pdcp_sendable (srb_flagP b) env ?e" using l(3,4) by simp_all
  obtain t' h' m where m: "pdcp_build_pdu env (srb_flagP b) (rb_idP b) (it_mode q) (it_sdu q) (it_block q) ?e = Some (Some m, e\<lparr>next_pdcp_tx_sn := t', tx_hfn := h'\<rparr>)"
    "pdcp_tx_at (N + 1) (e\<lparr>next_pdcp_tx_sn := t', tx_hfn := h'\<rparr>)" "length m = length (it_block q)" "pdcp_carries env (srb_flagP b) (rb_idP b) ?e N (it_sdu q) m"
    using pdcp_build_carries[OF e(1) l(6) e(2) q(3) rb q(4), of "it_mode q"] by auto
  have c: "pdcp_carries env (srb_flagP b) (rb_idP b) e N (it_sdu q) m"
    by (rule pdcp_carries_static[OF m(4)]) simp
  have "?h \<le> 2" "pdcp_tailer_len (srb_flagP b) \<le> 4" by (simp_all add: pdcp_header_len_def pdcp_tailer_len_def)
  then have sz: "to_uint16 (int ?n + int ?h + int (pdcp_tailer_len (srb_flagP b))) = int (pdcp_pdu_bytes (srb_flagP b) ?h ?n)"
    using q(3) by (simp add: to_uint16_id pdcp_pdu_bytes_eq)
  have idx: "enb_mod_idP b < NUMBER_OF_eNB_MAX" "ue_mod_idP b < NUMBER_OF_UE_MAX" "rb_idP b < (if srb_flagP b then 2 else maxDRB)"
    using l(1) by (simp_all add: pdcp_bearer_ok_def)
  show ?thesis
    unfolding pdcp_data_req_def
    using idx q l(2,5) m sz c l(1,3,4)
    by (simp add: pdcp_rlc_data_req_def pdcp_request_of_def pdcp_tx_ready_def pdcp_entity_put) blast
qed

text \<open>The requests of a run carry consecutive numbers.\<close>

fun pdcp_requests_of :: "pdcp_env \<Rightarrow> pdcp_bearer \<Rightarrow> pdcp_t \<Rightarrow> int \<Rightarrow> pdcp_item list \<Rightarrow> rlc_request list \<Rightarrow> bool" where
  "pdcp_requests_of env b e N [] rqs = (rqs = [])"
| "pdcp_requests_of env b e N (q # qs) rqs = (case rqs of [] \<Rightarrow> False | rq # rqs' \<Rightarrow> pdcp_request_of env b e N q rq \<and> pdcp_requests_of env b e (N + 1) qs rqs')"

lemma pdcp_requests_nth:
  "pdcp_requests_of env b e N qs rqs \<Longrightarrow> length rqs = length qs \<and> (\<forall>i<length qs. pdcp_request_of env b e (N + int i) (qs ! i) (rqs ! i))"
proof (induction env b e N qs rqs rule: pdcp_requests_of.induct)
  case (2 env b e N q qs rqs)
  then obtain rq rqs' where r: "rqs = rq # rqs'" "pdcp_request_of env b e N q rq" "pdcp_requests_of env b e (N + 1) qs rqs'" by (auto split: list.splits)
  have "pdcp_request_of env b e (N + int i) ((q # qs) ! i) (rqs ! i)" if "i < length (q # qs)" for i
    using that 2(1)[OF r(1,3)] r(1,2) by (cases i) (auto simp: algebra_simps)
  then show ?case using 2(1)[OF r(1,3)] r(1) by simp
qed simp

lemma pdcp_send_run:
  assumes "pdcp_tx_ready env b e N l" "\<forall>q\<in>set qs. pdcp_item_ok (srb_flagP b) q"
  shows "\<exists>l' rqs. pdcp_send env b qs l = Some l' \<and> pdcp_tx_ready env b e (N + int (length qs)) l' \<and> log_rlc_data_req l' = log_rlc_data_req l @ rqs \<and>
    pdcp_requests_of env b e N qs rqs"
  using assms
proof (induction qs arbitrary: N l)
  case (Cons q qs)
  obtain l1 rq where l1: "pdcp_data_req env (Some (it_block q)) RLC_OP_STATUS_OK b (it_mui q) (it_confirm q) (int (length (it_sdu q))) (it_sdu q) (it_mode q) l = Some (True, l1)"
    "pdcp_tx_ready env b e (N + 1) l1" "log_rlc_data_req l1 = log_rlc_data_req l @ [rq]" "pdcp_request_of env b e N q rq"
    using pdcp_send_one[OF Cons.prems(1), of q] Cons.prems(2) by auto
  have "\<forall>q\<in>set qs. pdcp_item_ok (srb_flagP b) q" using Cons.prems(2) by simp
  from Cons.IH[OF l1(2) this] obtain l' rqs where l': "pdcp_send env b qs l1 = Some l'" "pdcp_tx_ready env b e (N + 1 + int (length qs)) l'"
    "log_rlc_data_req l' = log_rlc_data_req l1 @ rqs" "pdcp_requests_of env b e (N + 1) qs rqs" by blast
  show ?case using l1 l' by (intro exI[of _ l'] exI[of _ "rq # rqs"]) (simp add: add_ac)
qed auto

subsection \<open>Indications\<close>

fun pdcp_receive :: "pdcp_env \<Rightarrow> pdcp_bearer \<Rightarrow> (int \<times> byte list) list \<Rightarrow> pdcp_layer \<Rightarrow> pdcp_layer option" where
  "pdcp_receive env b [] l = Some l"
| "pdcp_receive env b ((sz, buf) # ps) l =
     do {
       (ok, l') \<leftarrow> pdcp_data_ind env True b False sz buf l;
       c_assert ok;
       pdcp_receive env b ps l'
     }"

definition pdcp_forwarded :: "pdcp_env \<Rightarrow> pdcp_bearer \<Rightarrow> bool" where
  "pdcp_forwarded env b \<longleftrightarrow> pe_link_gtpv1u env \<and> enb_flagP b \<and> \<not> srb_flagP b"

text \<open>What the upper layers got over the kind of the bearer.\<close>

definition pdcp_delivered :: "pdcp_env \<Rightarrow> pdcp_bearer \<Rightarrow> pdcp_layer \<Rightarrow> byte list list" where
  "pdcp_delivered env b l =
     (if srb_flagP b then map (\<lambda>x. ind_data (snd x)) (log_rrc_data_ind l)
      else if pdcp_forwarded env b then map (\<lambda>x. ind_data (snd x)) (log_gtpv1u l)
      else map ind_data (pdcp_sdu_list l))"

text \<open>
  The receiving entity expects number \<open>R\<close>. A bearer over AM delivers without a gap; it keeps track of the number it delivered last, which
  the code does not do for the SDUs it hands to GTP-U.
\<close>

definition pdcp_lossy :: "pdcp_bearer \<Rightarrow> pdcp_t \<Rightarrow> bool" where
  "pdcp_lossy b r \<longleftrightarrow> srb_flagP b \<or> pdcp_rlc_mode r = RLC_MODE_UM"

definition pdcp_rx_ready :: "pdcp_env \<Rightarrow> pdcp_bearer \<Rightarrow> pdcp_t \<Rightarrow> bool \<Rightarrow> int \<Rightarrow> pdcp_layer \<Rightarrow> bool" where
  "pdcp_rx_ready env b t lossy R l \<longleftrightarrow> pdcp_bearer_ok b \<and> \<not> pe_otg_enabled env \<and>
     (\<exists>r. pdcp_entity_at l b (rb_idP b) = Some r \<and> pdcp_matched (srb_flagP b) env t r \<and> seq_num_size r = sn_bits (srb_flagP b) \<and> pdcp_rx_at R r \<and> lossy = pdcp_lossy b r \<and>
       (lossy \<or> pdcp_rlc_mode r = RLC_MODE_AM \<and> \<not> pdcp_forwarded env b \<and> last_submitted_pdcp_rx_sn r = (R - 1) mod 4096))"

text \<open>Number \<open>N\<close> may come when \<open>R\<close> is expected.\<close>

definition pdcp_in_reach :: "bool \<Rightarrow> bool \<Rightarrow> int \<Rightarrow> int \<Rightarrow> bool" where
  "pdcp_in_reach srb lossy R N \<longleftrightarrow> R \<le> N \<and> N < R + (if lossy then 2 ^ sn_bits srb else 1)"

lemma pdcp_receive_one:
  assumes "pdcp_rx_ready env b t lossy R l" "pdcp_in_reach (srb_flagP b) lossy R N" "pdcp_carries env (srb_flagP b) (rb_idP b) t N d m"
    "0 < length d" "length d \<le> 1500" "pdcp_block_ok (srb_flagP b) (pdcp_header_len (srb_flagP b)) (length d) buf"
    "take (pdcp_pdu_bytes (srb_flagP b) (pdcp_header_len (srb_flagP b)) (length d)) buf = take (pdcp_pdu_bytes (srb_flagP b) (pdcp_header_len (srb_flagP b)) (length d)) m"
  shows "\<exists>l'. pdcp_data_ind env True b False (int (pdcp_pdu_bytes (srb_flagP b) (pdcp_header_len (srb_flagP b)) (length d))) buf l = Some (True, l') \<and>
    pdcp_rx_ready env b t lossy (N + 1) l' \<and> pdcp_delivered env b l' = pdcp_delivered env b l @ [d]"
proof -
  let ?srb = "srb_flagP b" and ?rb = "rb_idP b"
  let ?h = "pdcp_header_len ?srb" and ?t = "pdcp_tailer_len ?srb" and ?n = "length d"
  let ?k = "pdcp_pdu_bytes ?srb ?h ?n"
  obtain r where r: "pdcp_bearer_ok b" "\<not> pe_otg_enabled env" "pdcp_entity_at l b ?rb = Some r" "pdcp_matched (srb_flagP b) env t r" "seq_num_size r = sn_bits ?srb" "pdcp_rx_at R r"
    "lossy = pdcp_lossy b r" "lossy \<or> pdcp_rlc_mode r = RLC_MODE_AM \<and> \<not> pdcp_forwarded env b \<and> last_submitted_pdcp_rx_sn r = (R - 1) mod 4096"
    using assms(1) unfolding pdcp_rx_ready_def by blast
  have fol: "pdcp_follows ?srb r R N" using assms(2) r(5,7,8) by (auto simp: pdcp_follows_def pdcp_in_reach_def pdcp_lossy_def sn_bits_def)
  obtain r' where r': "pdcp_takes env ?srb ?rb N d buf r r'" using assms(3,6,7) r(4-6) fol unfolding pdcp_carries_def by blast
  then obtain buf' where b': "pdcp_take_pdu env ?srb ?rb (int ?k) buf r = Some (Some (?h, ?t, N mod 2 ^ sn_bits ?srb, buf'), r')" "bytes_at ?h (int ?n) buf' = Some d"
    and r1: "pdcp_rx_at (N + 1) r'" "pdcp_static r' = pdcp_static r" unfolding pdcp_takes_def by blast
  note st = pdcp_static_fields[OF r1(2)]
  have rb: "?rb mod maxDRB = ?rb" "0 < ?rb" using r(1) by (auto simp: pdcp_bearer_ok_def split: if_splits)
  have sz: "int ?k - int ?h - int ?t = int ?n" by (simp add: pdcp_pdu_bytes_eq)
  have nz: "int ?k \<noteq> 0" using assms(4) by (cases d) (simp_all add: pdcp_pdu_bytes_eq)
  note put = pdcp_entity_put[OF r(1)]
  have mt: "pdcp_matched (srb_flagP b) env t r'" by (rule pdcp_matched_cong[OF r1(2) r(4)])
  let ?l1 = "pdcp_put_entity b ?rb r' l"
  have start: "pdcp_data_ind env True b False (int ?k) buf l =
      (if ?srb then Some (True, ?l1\<lparr>log_rrc_data_ind := log_rrc_data_ind ?l1 @ [(b, pdcp_mk_sdu ?rb d)]\<rparr>)
       else pdcp_deliver env True b False ?rb (N mod 2 ^ sn_bits ?srb) d ?l1)"
    unfolding pdcp_data_ind_def using rb sz nz r(3) b' by (simp add: Let_def)
  show ?thesis
  proof (cases "?srb \<or> pdcp_forwarded env b")
    case True
    then have lossy: "lossy" "pdcp_lossy b r'" using r(7,8) st(9) by (auto simp: pdcp_lossy_def)
    then show ?thesis unfolding start using True r(1,2) put mt st(8) r(5) r1(1)
      by (auto simp: pdcp_forwarded_def pdcp_rx_ready_def pdcp_delivered_def pdcp_deliver_def pdcp_mk_sdu_def)
  next
    case False
    show ?thesis unfolding start
      using False r(1,2,5,7,8) put mt st(8,9,10) r1(1)
      by (auto simp: pdcp_forwarded_def pdcp_rx_ready_def pdcp_delivered_def pdcp_deliver_def pdcp_mk_sdu_def pdcp_lossy_def sn_bits_def pdcp_matched_def pdcp_peers_def pdcp_rx_at_def)
  qed
qed

text \<open>
  A run of arrivals: PDU \<open>n\<close> of the requests at its turn, each within reach of what is expected then, in a memory block that has room for it and begins with its bytes.
\<close>

fun pdcp_arrivals :: "bool \<Rightarrow> bool \<Rightarrow> pdcp_item list \<Rightarrow> rlc_request list \<Rightarrow> int \<Rightarrow> nat list \<Rightarrow> (int \<times> byte list) list \<Rightarrow> bool" where
  "pdcp_arrivals srb lossy qs rqs R [] ps = (ps = [])"
| "pdcp_arrivals srb lossy qs rqs R (n # ns) ps =
     (case ps of [] \<Rightarrow> False
      | (sz, buf) # ps' \<Rightarrow> n < length qs \<and> pdcp_in_reach srb lossy R (int n) \<and> sz = rq_sdu_size (rqs ! n) \<and>
          pdcp_block_ok srb (pdcp_header_len srb) (length (it_sdu (qs ! n))) buf \<and> take (nat sz) buf = take (nat sz) (rq_sdu (rqs ! n)) \<and>
          pdcp_arrivals srb lossy qs rqs (int n + 1) ns ps')"

lemma pdcp_receive_run:
  assumes "pdcp_requests_of env bt e N qs rqs" "\<forall>q\<in>set qs. pdcp_item_ok (srb_flagP bt) q" "srb_flagP b = srb_flagP bt" "rb_idP b = rb_idP bt"
  shows "pdcp_rx_ready env b e lossy (N + R) l \<Longrightarrow> pdcp_arrivals (srb_flagP b) lossy qs rqs R ns ps \<Longrightarrow>
    \<exists>l'. pdcp_receive env b ps l = Some l' \<and> pdcp_delivered env b l' = pdcp_delivered env b l @ map (\<lambda>n. it_sdu (qs ! n)) ns"
proof (induction ns arbitrary: R l ps)
  case (Cons n ns)
  let ?srb = "srb_flagP b"
  obtain sz buf ps' where a: "ps = (sz, buf) # ps'" "n < length qs" "pdcp_in_reach ?srb lossy R (int n)" "sz = rq_sdu_size (rqs ! n)"
    "pdcp_block_ok ?srb (pdcp_header_len ?srb) (length (it_sdu (qs ! n))) buf" "take (nat sz) buf = take (nat sz) (rq_sdu (rqs ! n))"
    "pdcp_arrivals ?srb lossy qs rqs (int n + 1) ns ps'" using Cons.prems(2) by (auto split: list.splits)
  have q: "pdcp_request_of env bt e (N + int n) (qs ! n) (rqs ! n)" using pdcp_requests_nth[OF assms(1)] a(2) by blast
  then have rq: "sz = int (pdcp_pdu_bytes ?srb (pdcp_header_len ?srb) (length (it_sdu (qs ! n))))"
    "pdcp_carries env ?srb (rb_idP b) e (N + int n) (it_sdu (qs ! n)) (rq_sdu (rqs ! n))"
    using a(4) assms(3,4) by (simp_all add: pdcp_request_of_def)
  have len: "0 < length (it_sdu (qs ! n))" "length (it_sdu (qs ! n)) \<le> 1500" using assms(2) a(2) by (simp_all add: pdcp_item_ok_def)
  have reach: "pdcp_in_reach ?srb lossy (N + R) (N + int n)" using a(3) by (auto simp: pdcp_in_reach_def)
  obtain l1 where l1: "pdcp_data_ind env True b False sz buf l = Some (True, l1)" "pdcp_rx_ready env b e lossy (N + int n + 1) l1"
    "pdcp_delivered env b l1 = pdcp_delivered env b l @ [it_sdu (qs ! n)]"
    using pdcp_receive_one[OF Cons.prems(1) reach rq(2) len a(5)] a(6) unfolding rq(1) nat_int by blast
  have "pdcp_rx_ready env b e lossy (N + (int n + 1)) l1" using l1(2) by (simp add: add.assoc)
  from Cons.IH[OF this a(7)] obtain l' where "pdcp_receive env b ps' l1 = Some l'"
    "pdcp_delivered env b l' = pdcp_delivered env b l1 @ map (\<lambda>n. it_sdu (qs ! n)) ns" by blast
  then show ?case using a(1) l1(1,3) by simp
qed simp

subsection \<open>The two ends together\<close>

text \<open>
  (C11) What one PDCP layer is asked to send over a bearer, the other delivers, with and without security: every request succeeds and makes one PDU for RLC; of these PDUs any may
  be lost, as long as the numbers do not pass a whole cycle unseen (none for a data bearer over AM), and every one that arrives, in order and once, is delivered: deciphered, byte for byte, and in order.
  The bearer is SRB 1 with numbers of 5 bits or a data bearer, 1 to 10, with numbers of 12 bits; both entities exist and the receiver
  expects the number and the frame number the transmitter is at; either security is off at both, or both have the same known algorithms (0 to 2) and the same keys of 32 bytes, one as UE and one as eNB. A data bearer over AM is not forwarded to GTP-U (there the code does not keep the last number).
  The SDUs have 1 to 1500 bytes and are not sent in transparent mode; each memory block, on both sides, has room for the PDU and for the whole 32-bit words of the SDU behind the header, since the code ciphers whole words;
  RLC accepts every PDU, and the traffic generator is off. Of the libraries it is used that AES in counter mode adds a stream of bytes and that CMAC gives 16 bytes.
\<close>

theorem pdcp_link_delivers:
  assumes "pdcp_tx_ready env bt e N lt" "\<forall>q\<in>set qs. pdcp_item_ok (srb_flagP bt) q" "pdcp_rx_ready env br e lossy N lr"
    "srb_flagP br = srb_flagP bt" "rb_idP br = rb_idP bt"
  shows "\<exists>lt' rqs. pdcp_send env bt qs lt = Some lt' \<and> log_rlc_data_req lt' = log_rlc_data_req lt @ rqs \<and> length rqs = length qs \<and>
    (\<forall>ns ps. pdcp_arrivals (srb_flagP br) lossy qs rqs 0 ns ps \<longrightarrow>
      (\<exists>lr'. pdcp_receive env br ps lr = Some lr' \<and> pdcp_delivered env br lr' = pdcp_delivered env br lr @ map (\<lambda>n. it_sdu (qs ! n)) ns))"
proof -
  obtain lt' rqs where s: "pdcp_send env bt qs lt = Some lt'" "log_rlc_data_req lt' = log_rlc_data_req lt @ rqs" "pdcp_requests_of env bt e N qs rqs"
    using pdcp_send_run[OF assms(1,2)] by blast
  have "pdcp_rx_ready env br e lossy (N + 0) lr" using assms(3) by simp
  then show ?thesis using s pdcp_requests_nth[OF s(3)] pdcp_receive_run[OF s(3) assms(2,4,5)] by blast
qed

text \<open>A data bearer over UM, ciphered with SNOW 3G.\<close>

definition pdcp_example_env :: pdcp_env where
  "pdcp_example_env = \<lparr>pe_ctr = \<lambda>k m s. s, pe_cmac = \<lambda>k m. replicate 16 0, pe_exit_returns = False, pe_otg_enabled = False, pe_link_gtpv1u = False\<rparr>"

definition pdcp_example_entity :: "rlc_mode \<Rightarrow> bool \<Rightarrow> pdcp_t" where
  "pdcp_example_entity mode ue = zero_pdcp\<lparr>instanciated_instance := True, is_ue := ue, cipheringAlgorithm := 1, integrityProtAlgorithm := 1, security_activated := 1,
     kUPenc := Some (replicate 32 1), kRRCint := Some (replicate 32 2), kRRCenc := Some (replicate 32 3), pdcp_rlc_mode := mode, seq_num_size := 12, last_submitted_pdcp_rx_sn := 4095\<rparr>"

definition pdcp_example_layer :: "rlc_mode \<Rightarrow> bool \<Rightarrow> pdcp_layer" where
  "pdcp_example_layer mode ue = \<lparr>pdcp_array_srb_ue = (\<lambda>_ _. zero_pdcp), pdcp_array_drb_ue = (\<lambda>_ _. pdcp_example_entity mode ue), pdcp_array_srb_eNB = (\<lambda>_ _ _. zero_pdcp),
     pdcp_array_drb_eNB = (\<lambda>_ _ _. pdcp_example_entity mode ue), pdcp_mbms_array_ue = (\<lambda>_ _ _. \<lparr>mb_instanciated_instance = False, mb_rb_id = 0\<rparr>),
     pdcp_mbms_array_eNB = (\<lambda>_ _ _. \<lparr>mb_instanciated_instance = False, mb_rb_id = 0\<rparr>), pdcp_sdu_list = [], log_rlc_data_req = [], log_rrc_data_ind = [], log_gtpv1u = []\<rparr>"

definition pdcp_example_bearer :: "bool \<Rightarrow> pdcp_bearer" where
  "pdcp_example_bearer enb = \<lparr>enb_mod_idP = 0, ue_mod_idP = 0, enb_flagP = enb, srb_flagP = False, rb_idP = 1\<rparr>"

definition pdcp_example_item :: pdcp_item where
  "pdcp_example_item = \<lparr>it_mui = 0, it_confirm = False, it_mode = PDCP_TRANSMISSION_MODE_DATA, it_sdu = [1, 2, 3], it_block = replicate 64 0\<rparr>"

lemmas pdcp_example_defs = pdcp_example_env_def pdcp_example_entity_def pdcp_example_layer_def pdcp_example_bearer_def pdcp_example_item_def

lemma pdcp_example_tx: "pdcp_tx_ready pdcp_example_env (pdcp_example_bearer False) (pdcp_example_entity mode True) 0 (pdcp_example_layer mode True)"
proof -
  let ?e = "pdcp_example_entity mode True"
  have e: "?e\<lparr>next_pdcp_tx_sn := 0, tx_hfn := 0\<rparr> = ?e" by (simp add: pdcp_example_entity_def zero_pdcp_def)
  have "pdcp_tx_at 0 ?e" by (simp add: pdcp_tx_at_def pdcp_example_entity_def zero_pdcp_def)
  moreover have "pdcp_entity_at (pdcp_example_layer mode True) (pdcp_example_bearer False) (rb_idP (pdcp_example_bearer False)) = Some ?e"
    by (simp add: pdcp_entity_at_def pdcp_example_layer_def pdcp_example_bearer_def)
  ultimately have "\<exists>t h. pdcp_entity_at (pdcp_example_layer mode True) (pdcp_example_bearer False) (rb_idP (pdcp_example_bearer False)) =
      Some (?e\<lparr>next_pdcp_tx_sn := t, tx_hfn := h\<rparr>) \<and> pdcp_tx_at 0 (?e\<lparr>next_pdcp_tx_sn := t, tx_hfn := h\<rparr>)"
    using e by metis
  moreover have "pdcp_sendable (srb_flagP (pdcp_example_bearer False)) pdcp_example_env ?e" "instanciated_instance ?e" "seq_num_size ?e = sn_bits (srb_flagP (pdcp_example_bearer False))"
    by (simp_all add: pdcp_sendable_def pdcp_keyed_def pdcp_example_defs key_from_def ctr_mode_plain sn_bits_def)
  moreover have "pdcp_bearer_ok (pdcp_example_bearer False)" by (simp add: pdcp_bearer_ok_def pdcp_example_bearer_def)
  ultimately show ?thesis unfolding pdcp_tx_ready_def by blast
qed

lemma pdcp_example_rx:
  assumes "mode = RLC_MODE_UM \<and> lossy \<or> mode = RLC_MODE_AM \<and> \<not> lossy"
  shows "pdcp_rx_ready pdcp_example_env (pdcp_example_bearer True) (pdcp_example_entity mode True) lossy 0 (pdcp_example_layer mode False)"
  using assms
  by (auto simp: pdcp_rx_ready_def pdcp_bearer_ok_def pdcp_entity_at_def pdcp_matched_def pdcp_peers_def pdcp_keyed_def pdcp_rx_at_def pdcp_lossy_def pdcp_forwarded_def
      sn_bits_def key_from_def ctr_mode_plain pdcp_example_defs zero_pdcp_def)

lemma pdcp_example_ok: "pdcp_item_ok False pdcp_example_item"
  by (simp add: pdcp_item_ok_def pdcp_example_item_def pdcp_block_ok_def pdcp_pdu_bytes_def pdcp_header_len_def)

theorem pdcp_link_delivers_witness:
  "\<exists>lt'. pdcp_send pdcp_example_env (pdcp_example_bearer False) [pdcp_example_item, pdcp_example_item] (pdcp_example_layer RLC_MODE_UM True) = Some lt' \<and>
    length (log_rlc_data_req lt') = 2 \<and>
    (\<forall>ns ps. pdcp_arrivals False True [pdcp_example_item, pdcp_example_item] (log_rlc_data_req lt') 0 ns ps \<longrightarrow>
      (\<exists>lr'. pdcp_receive pdcp_example_env (pdcp_example_bearer True) ps (pdcp_example_layer RLC_MODE_UM False) = Some lr' \<and>
        map ind_data (pdcp_sdu_list lr') = map (\<lambda>n. it_sdu ([pdcp_example_item, pdcp_example_item] ! n)) ns))"
proof -
  have d: "pdcp_delivered pdcp_example_env (pdcp_example_bearer True) l = map ind_data (pdcp_sdu_list l)" for l
    by (simp add: pdcp_delivered_def pdcp_forwarded_def pdcp_example_defs)
  have "pdcp_sdu_list (pdcp_example_layer RLC_MODE_UM False) = []" by (simp add: pdcp_example_layer_def)
  then have e: "pdcp_delivered pdcp_example_env (pdcp_example_bearer True) (pdcp_example_layer RLC_MODE_UM False) = []" by (simp add: d)
  have b: "srb_flagP (pdcp_example_bearer x) = False" "rb_idP (pdcp_example_bearer x) = 1" for x by (simp_all add: pdcp_example_bearer_def)
  have items: "\<forall>q\<in>set [pdcp_example_item, pdcp_example_item]. pdcp_item_ok (srb_flagP (pdcp_example_bearer False)) q" using pdcp_example_ok by (simp add: b)
  have rx: "pdcp_rx_ready pdcp_example_env (pdcp_example_bearer True) (pdcp_example_entity RLC_MODE_UM True) True 0 (pdcp_example_layer RLC_MODE_UM False)"
    by (rule pdcp_example_rx) simp
  have n: "length [pdcp_example_item, pdcp_example_item] = 2" "log_rlc_data_req (pdcp_example_layer RLC_MODE_UM True) = []"
    by (simp_all add: pdcp_example_layer_def)
  from pdcp_link_delivers[OF pdcp_example_tx[of RLC_MODE_UM] items rx] show ?thesis unfolding e b append_Nil n unfolding d by metis
qed

subsection \<open>Where the code departs from the protocol\<close>

text \<open>With numbers of 7 bits the receiver expects a header of one byte, but the transmitter always makes one of two: every number reads as 0.\<close>

lemma short_numbers_read_as_zero:
  assumes "0 \<le> sn" "sn < 128" "seq_num_size e = 7"
  shows "pdcp_parse_header e False (long_header 1 sn @ rest) = Some (1, 0, 0)"
proof -
  have "sn div 256 = 0" using assms by simp
  then have "pdcp_get_sequence_number_of_pdu_with_short_sn (long_header 1 sn @ rest) = Some 0"
    by (simp add: long_header_def pdcp_get_sequence_number_of_pdu_with_short_sn_def octet_at_def)
  then show ?thesis using assms(3) by (simp add: pdcp_parse_header_def)
qed

text \<open>
  A data bearer over AM whose SDUs go to GTP-U does not note which number it delivered last. From number 2048 on, what arrives in order is taken for a repetition: the
  expected number stays, and the offset makes the COUNT of number 2049 that of the cycle before the first.
\<close>

lemma gtpu_bearer_loses_count:
  "let env = pdcp_example_env\<lparr>pe_link_gtpv1u := True\<rparr>; b = pdcp_example_bearer True; l = pdcp_example_layer RLC_MODE_AM False
   in map_option (\<lambda>x. map_option last_submitted_pdcp_rx_sn (pdcp_entity_at (snd x) b 1)) (pdcp_deliver env True b False 1 0 [1] l) = Some (Some 4095)"
  "let e = zero_pdcp\<lparr>seq_num_size := 12, pdcp_rlc_mode := RLC_MODE_AM, next_pdcp_rx_sn := 2048, last_submitted_pdcp_rx_sn := 4095\<rparr>;
       e1 = snd (pdcp_is_rx_seq_number_valid 2048 e False); e2 = snd (pdcp_is_rx_seq_number_valid 2049 e1 False)
   in (next_pdcp_rx_sn e1, fst (pdcp_get_next_count_rx e1 False 2048), fst (pdcp_get_next_count_rx e2 False 2049)) = (2048, 2048, 0xFFFFF801)"
  by code_simp+

text \<open>An SDU whose code is wrong is delivered all the same.\<close>

lemma wrong_code_is_delivered:
  "let e = zero_pdcp\<lparr>seq_num_size := 5, security_activated := 1, integrityProtAlgorithm := 2, kRRCint := Some (replicate 32 2)\<rparr>; buf = [0, 7, 1, 1, 1, 1]
   in (map_option fst (pdcp_validate_security (pe_ctr pdcp_example_env) (pe_cmac pdcp_example_env) e True 1 1 0 buf 2),
       map_option fst (pdcp_take_pdu pdcp_example_env True 1 6 buf e)) = (Some (- 1), Some (Some (1, 4, 0, buf)))"
  by code_simp

end
