(* ===== verification/Pdcp_Config.thy ===== *)
theory Pdcp_Config
  imports Pdcp_Link
begin

text \<open>
  The configuration of PDCP entities in \<^verbatim>\<open>pdcp.c\<close>: \<^verbatim>\<open>pdcp_config_req_asn1\<close>, \<^verbatim>\<open>pdcp_config_set_security\<close>, \<^verbatim>\<open>rrc_pdcp_config_req\<close> and
  \<^verbatim>\<open>pdcp_layer_init\<close>. A key pointer keeps its value when the key is freed. Two ends that are configured alike can exchange SDUs.
\<close>

datatype config_action =
    CONFIG_ACTION_NULL
  | CONFIG_ACTION_ADD
  | CONFIG_ACTION_REMOVE
  | CONFIG_ACTION_MODIFY
  | CONFIG_ACTION_SET_SECURITY_MODE
  | CONFIG_ACTION_MBMS_ADD
  | CONFIG_ACTION_MBMS_MODIFY

record pdcp_keys =
  new_kRRCenc :: "byte list option"
  new_kRRCint :: "byte list option"
  new_kUPenc :: "byte list option"

abbreviation (input) DTCH :: int where "DTCH \<equiv> 3"

subsection \<open>Security\<close>

definition pdcp_config_set_security :: "byte \<Rightarrow> pdcp_keys \<Rightarrow> pdcp_t \<Rightarrow> pdcp_t" where
  "pdcp_config_set_security security_modeP keys e =
     (if security_modeP \<le> 0x77
      then e\<lparr>cipheringAlgorithm := security_modeP AND 0x0F, integrityProtAlgorithm := drop_bit 4 security_modeP AND 0xF,
        kRRCenc := new_kRRCenc keys, kRRCint := new_kRRCint keys, kUPenc := new_kUPenc keys, security_activated := 1\<rparr>
      else e)"

subsection \<open>Requests of RRC\<close>

record pdcp_config =
  pc_rlc_mode :: rlc_mode
  pc_lc_id :: int
  pc_rb_sn :: nat
  pc_rb_report :: int
  pc_header_compression :: int
  pc_security_mode :: byte
  pc_keys :: pdcp_keys

definition pdcp_sn_size_of :: "nat \<Rightarrow> nat" where
  "pdcp_sn_size_of rb_snP = (if rb_snP = PDCP_SN_Size_len12bits then PDCP_SN_12BIT else if rb_snP = PDCP_SN_Size_len7bits then PDCP_SN_7BIT else PDCP_SN_5BIT)"

definition pdcp_setup_security :: "pdcp_config \<Rightarrow> pdcp_t \<Rightarrow> pdcp_t" where
  "pdcp_setup_security c e = (if pc_security_mode c \<noteq> 0xFF then pdcp_config_set_security (pc_security_mode c) (pc_keys c) e else e)"

definition pdcp_config_add :: "pdcp_bearer \<Rightarrow> pdcp_config \<Rightarrow> pdcp_t \<Rightarrow> pdcp_t" where
  "pdcp_config_add b c e =
     pdcp_setup_security c
       (e\<lparr>instanciated_instance := True, is_ue := \<not> enb_flagP b, is_srb := srb_flagP b, pdcp_lcid := pc_lc_id c, pdcp_rb_id := rb_idP b,
          header_compression_profile := pc_header_compression c, pdcp_status_report := pc_rb_report c, seq_num_size := pdcp_sn_size_of (pc_rb_sn c),
          pdcp_rlc_mode := pc_rlc_mode c, next_pdcp_tx_sn := 0, next_pdcp_rx_sn := 0, next_pdcp_rx_sn_before_integrity := 0, tx_hfn := 0, rx_hfn := 0,
          last_submitted_pdcp_rx_sn := 4095, first_missing_pdu := - 1, rx_hfn_offset := 0\<rparr>)"

definition pdcp_config_modify :: "pdcp_config \<Rightarrow> pdcp_t \<Rightarrow> pdcp_t" where
  "pdcp_config_modify c e =
     (pdcp_setup_security c (e\<lparr>header_compression_profile := pc_header_compression c, pdcp_status_report := pc_rb_report c, pdcp_rlc_mode := pc_rlc_mode c\<rparr>))
       \<lparr>seq_num_size := pdcp_sn_size_of (pc_rb_sn c)\<rparr>"

definition pdcp_config_remove :: "pdcp_t \<Rightarrow> pdcp_t" where
  "pdcp_config_remove e =
     e\<lparr>instanciated_instance := False, pdcp_lcid := 0, header_compression_profile := 0, cipheringAlgorithm := 0xFF, integrityProtAlgorithm := 0xFF,
       pdcp_status_report := 0, pdcp_rlc_mode := RLC_MODE_NONE, next_pdcp_tx_sn := 0, next_pdcp_rx_sn := 0, tx_hfn := 0, rx_hfn := 0,
       last_submitted_pdcp_rx_sn := 4095, seq_num_size := 0, first_missing_pdu := - 1, security_activated := 0\<rparr>"

text \<open>The multicast actions set the entry of the multicast array instead of the entity; any other action ends the process.\<close>

definition pdcp_config_req_asn1 :: "config_action \<Rightarrow> pdcp_bearer \<Rightarrow> pdcp_config \<Rightarrow> pdcp_t \<times> pdcp_mbms_t \<Rightarrow> (pdcp_t \<times> pdcp_mbms_t) option" where
  "pdcp_config_req_asn1 actionP b c s =
     (case actionP of
        CONFIG_ACTION_ADD \<Rightarrow> Some (pdcp_config_add b c (fst s), snd s)
      | CONFIG_ACTION_MODIFY \<Rightarrow> Some (pdcp_config_modify c (fst s), snd s)
      | CONFIG_ACTION_REMOVE \<Rightarrow> Some (pdcp_config_remove (fst s), snd s)
      | CONFIG_ACTION_MBMS_ADD \<Rightarrow> Some (fst s, \<lparr>mb_instanciated_instance = True, mb_rb_id = rb_idP b\<rparr>)
      | CONFIG_ACTION_MBMS_MODIFY \<Rightarrow> Some (fst s, \<lparr>mb_instanciated_instance = True, mb_rb_id = rb_idP b\<rparr>)
      | CONFIG_ACTION_SET_SECURITY_MODE \<Rightarrow> Some (pdcp_config_set_security (pc_security_mode c) (pc_keys c) (fst s), snd s)
      | CONFIG_ACTION_NULL \<Rightarrow> None)"

definition rrc_pdcp_config_req :: "config_action \<Rightarrow> pdcp_bearer \<Rightarrow> byte \<Rightarrow> pdcp_layer \<Rightarrow> pdcp_layer option" where
  "rrc_pdcp_config_req actionP b security_modeP l =
     do {
       e \<leftarrow> pdcp_entity_at l b (rb_idP b);
       e' \<leftarrow> (case actionP of
           CONFIG_ACTION_ADD \<Rightarrow> Some (e\<lparr>instanciated_instance := True, is_srb := srb_flagP b, pdcp_rb_id := rb_idP b, is_ue := \<not> enb_flagP b,
             next_pdcp_tx_sn := 0, next_pdcp_rx_sn := 0, tx_hfn := 0, rx_hfn := 0, last_submitted_pdcp_rx_sn := 4095,
             seq_num_size := (if rb_idP b < DTCH then 5 else 12), first_missing_pdu := - 1\<rparr>)
         | CONFIG_ACTION_MODIFY \<Rightarrow> Some e
         | CONFIG_ACTION_REMOVE \<Rightarrow> Some (e\<lparr>instanciated_instance := False, next_pdcp_tx_sn := 0, next_pdcp_rx_sn := 0, tx_hfn := 0, rx_hfn := 0,
             last_submitted_pdcp_rx_sn := 4095, seq_num_size := 0, first_missing_pdu := - 1, security_activated := 0\<rparr>)
         | CONFIG_ACTION_SET_SECURITY_MODE \<Rightarrow> Some (if security_modeP \<le> 0x77
             then e\<lparr>cipheringAlgorithm := security_modeP AND 0x0F, integrityProtAlgorithm := drop_bit 4 security_modeP AND 0xF\<rparr> else e)
         | _ \<Rightarrow> None);
       Some (pdcp_put_entity b (rb_idP b) e' l)
     }"

definition zero_pdcp_mbms :: pdcp_mbms_t where
  "zero_pdcp_mbms = \<lparr>mb_instanciated_instance = False, mb_rb_id = 0\<rparr>"

text \<open>The loops of \<^verbatim>\<open>pdcp_layer_init\<close> clear every entity; the counters of statistics are not part of the state.\<close>

definition pdcp_layer_init :: "pdcp_layer \<Rightarrow> pdcp_layer" where
  "pdcp_layer_init l =
     l\<lparr>pdcp_sdu_list := [],
       pdcp_array_drb_ue := (\<lambda>u i. if u < NUMBER_OF_UE_MAX \<and> int i < maxDRB then zero_pdcp else pdcp_array_drb_ue l u i),
       pdcp_array_srb_ue := (\<lambda>u i. if u < NUMBER_OF_UE_MAX \<and> i < 2 then zero_pdcp else pdcp_array_srb_ue l u i),
       pdcp_array_drb_eNB := (\<lambda>n u i. if n < NUMBER_OF_eNB_MAX \<and> u < NUMBER_OF_UE_MAX \<and> int i < maxDRB then zero_pdcp else pdcp_array_drb_eNB l n u i),
       pdcp_array_srb_eNB := (\<lambda>n u i. if n < NUMBER_OF_eNB_MAX \<and> u < NUMBER_OF_UE_MAX \<and> i < 2 then zero_pdcp else pdcp_array_srb_eNB l n u i),
       pdcp_mbms_array_ue := (\<lambda>u s i. if u < NUMBER_OF_UE_MAX \<and> s < maxServiceCount \<and> i < maxSessionPerPMCH then zero_pdcp_mbms else pdcp_mbms_array_ue l u s i),
       pdcp_mbms_array_eNB := (\<lambda>n s i. if n < NUMBER_OF_eNB_MAX \<and> s < maxServiceCount \<and> i < maxSessionPerPMCH then zero_pdcp_mbms else pdcp_mbms_array_eNB l n s i)\<rparr>"

subsection \<open>The lists of RRC\<close>

text \<open>
  What \<^verbatim>\<open>rrc_pdcp_config_asn1_req\<close> reads of the ASN.1 structures. The choice of the RLC configuration of a signalling bearer; the configuration of PDCP for a data bearer, with
  the header compression profiles that are present; the numbers of a multicast session.
\<close>

datatype srb_rlc_config = Srb_nothing | Srb_explicit_nothing | Srb_explicit | Srb_default | Srb_unknown

datatype header_compression = Hc_not_used | Hc_rohc "int set" | Hc_unknown

record drb_pdcp_config =
  dc_rlc_AM :: "int option"
  dc_rlc_UM :: "nat option"
  dc_header_compression :: header_compression

record rrc_lists =
  srb2add :: "(int \<times> srb_rlc_config option) list"
  drb2add :: "(int \<times> drb_pdcp_config option) list"
  drb2release :: "int list"
  mbms_sessions :: "(nat \<times> nat) list"

text \<open>The variables that live through the loops.\<close>

record config_locals =
  cl_rlc_type :: rlc_mode
  cl_drb_sn :: nat
  cl_drb_report :: int
  cl_header_compression :: int

fun fold_option :: "('a \<Rightarrow> 's \<Rightarrow> 's option) \<Rightarrow> 'a list \<Rightarrow> 's \<Rightarrow> 's option" where
  "fold_option f [] s = Some s"
| "fold_option f (x # xs) s = do { s' \<leftarrow> f x s; fold_option f xs s' }"

text \<open>One call of \<^verbatim>\<open>pdcp_config_req_asn1\<close> for an entity of the arrays; the multicast entry has no part in it.\<close>

definition pdcp_config_entity :: "config_action \<Rightarrow> pdcp_bearer \<Rightarrow> pdcp_config \<Rightarrow> pdcp_layer \<Rightarrow> pdcp_layer option" where
  "pdcp_config_entity action b c l =
     do {
       e \<leftarrow> pdcp_entity_at l b (rb_idP b);
       (e', _) \<leftarrow> pdcp_config_req_asn1 action b c (e, zero_pdcp_mbms);
       Some (pdcp_put_entity b (rb_idP b) e' l)
     }"

definition pdcp_add_or_modify :: "pdcp_layer \<Rightarrow> pdcp_bearer \<Rightarrow> config_action option" where
  "pdcp_add_or_modify l b = map_option (\<lambda>e. if instanciated_instance e then CONFIG_ACTION_MODIFY else CONFIG_ACTION_ADD) (pdcp_entity_at l b (rb_idP b))"

definition rrc_add_srb :: "pdcp_bearer \<Rightarrow> byte \<Rightarrow> pdcp_keys \<Rightarrow> int \<times> srb_rlc_config option \<Rightarrow> config_locals \<times> pdcp_layer \<Rightarrow> (config_locals \<times> pdcp_layer) option" where
  "rrc_add_srb b0 security_mode keys x s =
     (let b = b0\<lparr>srb_flagP := True, rb_idP := fst x\<rparr>; s1 = (fst s)\<lparr>cl_rlc_type := RLC_MODE_AM\<rparr>;
          c = \<lparr>pc_rlc_mode = RLC_MODE_AM, pc_lc_id = fst x + 2, pc_rb_sn = 5, pc_rb_report = 0, pc_header_compression = 0, pc_security_mode = security_mode, pc_keys = keys\<rparr>
      in do {
        action \<leftarrow> pdcp_add_or_modify (snd s) b;
        case snd x of
          None \<Rightarrow> Some (s1, snd s)
        | Some Srb_explicit \<Rightarrow> map_option (Pair s1) (pdcp_config_entity action b c (snd s))
        | Some Srb_unknown \<Rightarrow> None
        | Some _ \<Rightarrow> Some (s1, snd s)
      })"

definition rohc_profile :: "int set \<Rightarrow> int" where
  "rohc_profile ps = (case filter (\<lambda>p. p \<in> ps) [0x0001, 0x0002, 0x0003, 0x0004, 0x0006, 0x0101, 0x0102, 0x0103, 0x0104] of [] \<Rightarrow> 0 | p # _ \<Rightarrow> p)"

definition drb_locals :: "drb_pdcp_config \<Rightarrow> config_locals \<Rightarrow> config_locals" where
  "drb_locals d s =
     (let s1 = (case dc_rlc_AM d of None \<Rightarrow> s | Some report \<Rightarrow> s\<lparr>cl_drb_report := report, cl_drb_sn := PDCP_SN_Size_len12bits, cl_rlc_type := RLC_MODE_AM\<rparr>);
          s2 = (case dc_rlc_UM d of None \<Rightarrow> s1 | Some sn \<Rightarrow> s1\<lparr>cl_drb_sn := sn, cl_rlc_type := RLC_MODE_UM\<rparr>)
      in case dc_header_compression d of
           Hc_not_used \<Rightarrow> s2\<lparr>cl_header_compression := 0\<rparr>
         | Hc_rohc ps \<Rightarrow> s2\<lparr>cl_header_compression := rohc_profile ps\<rparr>
         | Hc_unknown \<Rightarrow> s2)"

definition rrc_add_drb :: "pdcp_bearer \<Rightarrow> byte \<Rightarrow> pdcp_keys \<Rightarrow> int \<times> drb_pdcp_config option \<Rightarrow> config_locals \<times> pdcp_layer \<Rightarrow> (config_locals \<times> pdcp_layer) option" where
  "rrc_add_drb b0 security_mode keys x s =
     do {
       c_assert (fst x < maxDRB);
       let b = b0\<lparr>srb_flagP := False, rb_idP := fst x\<rparr>;
       action \<leftarrow> pdcp_add_or_modify (snd s) b;
       case snd x of
         None \<Rightarrow> Some s
       | Some d \<Rightarrow>
           let s1 = drb_locals d (fst s);
               c = \<lparr>pc_rlc_mode = cl_rlc_type s1, pc_lc_id = fst x + 2, pc_rb_sn = cl_drb_sn s1, pc_rb_report = cl_drb_report s1,
                 pc_header_compression = cl_header_compression s1, pc_security_mode = security_mode, pc_keys = keys\<rparr>
           in map_option (Pair s1) (pdcp_config_entity action b c (snd s))
     }"

definition rrc_release_drb :: "pdcp_bearer \<Rightarrow> byte \<Rightarrow> pdcp_keys \<Rightarrow> int \<Rightarrow> config_locals \<times> pdcp_layer \<Rightarrow> (config_locals \<times> pdcp_layer) option" where
  "rrc_release_drb b0 security_mode keys drb_id s =
     map_option (Pair (fst s)) (pdcp_config_entity CONFIG_ACTION_REMOVE (b0\<lparr>srb_flagP := False, rb_idP := drb_id\<rparr>)
       \<lparr>pc_rlc_mode = cl_rlc_type (fst s), pc_lc_id = drb_id + 2, pc_rb_sn = 0, pc_rb_report = 0, pc_header_compression = 0, pc_security_mode = security_mode, pc_keys = keys\<rparr> (snd s))"

text \<open>A multicast session: the entry is set whether it was in use or not.\<close>

definition rrc_add_mbms :: "pdcp_bearer \<Rightarrow> nat \<times> nat \<Rightarrow> config_locals \<times> pdcp_layer \<Rightarrow> (config_locals \<times> pdcp_layer) option" where
  "rrc_add_mbms b0 x s =
     (let (mch_id, lc_id) = x; l = snd s; n = enb_mod_idP b0; u = ue_mod_idP b0;
          entry = \<lparr>mb_instanciated_instance = True, mb_rb_id = int (mch_id * maxSessionPerPMCH + lc_id)\<rparr>
      in do {
        c_assert (mch_id < maxServiceCount \<and> lc_id < maxSessionPerPMCH \<and> (if enb_flagP b0 then n < NUMBER_OF_eNB_MAX else u < NUMBER_OF_UE_MAX));
        Some (fst s, if enb_flagP b0 then l\<lparr>pdcp_mbms_array_eNB := (pdcp_mbms_array_eNB l)(n := fun_upd2 (pdcp_mbms_array_eNB l n) mch_id lc_id entry)\<rparr>
          else l\<lparr>pdcp_mbms_array_ue := (pdcp_mbms_array_ue l)(u := fun_upd2 (pdcp_mbms_array_ue l u) mch_id lc_id entry)\<rparr>)
      })"

text \<open>The bearer \<open>b0\<close> carries the module ids and the side; its number is not used.\<close>

definition rrc_pdcp_config_asn1_req :: "pdcp_bearer \<Rightarrow> rrc_lists \<Rightarrow> byte \<Rightarrow> pdcp_keys \<Rightarrow> pdcp_layer \<Rightarrow> pdcp_layer option" where
  "rrc_pdcp_config_asn1_req b0 ls security_mode keys l =
     do {
       let s0 = (\<lparr>cl_rlc_type = RLC_MODE_NONE, cl_drb_sn = 12, cl_drb_report = 0, cl_header_compression = 0\<rparr>, l);
       s1 \<leftarrow> fold_option (rrc_add_srb b0 security_mode keys) (srb2add ls) s0;
       s2 \<leftarrow> fold_option (rrc_add_drb b0 security_mode keys) (drb2add ls) s1;
       s3 \<leftarrow> fold_option (rrc_release_drb b0 security_mode keys) (drb2release ls) s2;
       s4 \<leftarrow> fold_option (rrc_add_mbms b0) (mbms_sessions ls) s3;
       Some (snd s4)
     }"

subsection \<open>Two ends configured alike\<close>

text \<open>A bearer that carries numbers of 5 bits if it is a signalling bearer, and of 12 bits otherwise.\<close>

definition pdcp_config_fits :: "bool \<Rightarrow> pdcp_config \<Rightarrow> bool" where
  "pdcp_config_fits srb c \<longleftrightarrow> (if srb then pc_rb_sn c = 5 else pc_rb_sn c = PDCP_SN_Size_len12bits \<and> pc_rlc_mode c \<in> {RLC_MODE_AM, RLC_MODE_UM})"

text \<open>Security is left off, or a valid mode comes with keys of 32 bytes.\<close>

definition pdcp_config_secure :: "bool \<Rightarrow> pdcp_env \<Rightarrow> pdcp_config \<Rightarrow> pdcp_t \<Rightarrow> bool" where
  "pdcp_config_secure srb env c e \<longleftrightarrow>
     pc_security_mode c = 0xFF \<and> security_activated e = 0 \<or>
     pc_security_mode c \<le> 0x77 \<and> pc_security_mode c AND 0x0F \<le> 2 \<and> ctr_mode (pe_ctr env) \<and>
       (if srb then drop_bit 4 (pc_security_mode c) AND 0xF \<le> 2 \<and> (\<forall>k m. length (pe_cmac env k m) = 16) \<and>
          length (key_from 0 (new_kRRCint (pc_keys c))) = 32 \<and> length (key_from 0 (new_kRRCenc (pc_keys c))) = 32
        else length (key_from 0 (new_kUPenc (pc_keys c))) = 32)"

lemma pdcp_config_add_fields:
  "seq_num_size (pdcp_config_add b c e) = pdcp_sn_size_of (pc_rb_sn c)" "instanciated_instance (pdcp_config_add b c e)" "is_ue (pdcp_config_add b c e) = (\<not> enb_flagP b)"
  "pdcp_rlc_mode (pdcp_config_add b c e) = pc_rlc_mode c" "last_submitted_pdcp_rx_sn (pdcp_config_add b c e) = 4095"
  "pdcp_tx_at 0 (pdcp_config_add b c e)" "pdcp_rx_at 0 (pdcp_config_add b c e)"
  by (simp_all add: pdcp_config_add_def pdcp_setup_security_def pdcp_config_set_security_def pdcp_tx_at_def pdcp_rx_at_def)

lemma pdcp_config_add_size: "pdcp_config_fits (srb_flagP b) c \<Longrightarrow> seq_num_size (pdcp_config_add b c e) = sn_bits (srb_flagP b)"
  by (simp add: pdcp_config_add_fields pdcp_config_fits_def pdcp_sn_size_of_def sn_bits_def split: if_splits)

lemma pdcp_config_matched:
  assumes "pdcp_config_secure (srb_flagP b) env c t" "pdcp_config_secure (srb_flagP b) env c r" "pdcp_config_fits (srb_flagP b) c" "srb_flagP b' = srb_flagP b" "enb_flagP b' = (\<not> enb_flagP b)"
  shows "pdcp_matched (srb_flagP b) env (pdcp_config_add b c t) (pdcp_config_add b' c r)" "pdcp_sendable (srb_flagP b) env (pdcp_config_add b c t)"
proof -
  have s: "seq_num_size (pdcp_config_add b c t) = seq_num_size (pdcp_config_add b' c r)" by (simp add: pdcp_config_add_fields)
  have ff: "\<not> (0xFF :: byte) \<le> 0x77" by simp
  show "pdcp_matched (srb_flagP b) env (pdcp_config_add b c t) (pdcp_config_add b' c r)" "pdcp_sendable (srb_flagP b) env (pdcp_config_add b c t)"
    using assms s ff unfolding pdcp_matched_def pdcp_sendable_def
    by (auto simp: pdcp_config_secure_def pdcp_config_add_def pdcp_setup_security_def pdcp_config_set_security_def pdcp_keyed_def pdcp_peers_def)
qed

text \<open>The lists that add one bearer, and the configuration that comes of them.\<close>

definition rrc_one :: "pdcp_bearer \<Rightarrow> drb_pdcp_config \<Rightarrow> rrc_lists" where
  "rrc_one b d =
     \<lparr>srb2add = (if srb_flagP b then [(rb_idP b, Some Srb_explicit)] else []), drb2add = (if srb_flagP b then [] else [(rb_idP b, Some d)]),
      drb2release = [], mbms_sessions = []\<rparr>"

definition rrc_config_of :: "pdcp_bearer \<Rightarrow> drb_pdcp_config \<Rightarrow> byte \<Rightarrow> pdcp_keys \<Rightarrow> pdcp_config" where
  "rrc_config_of b d mode keys =
     (let s = drb_locals d \<lparr>cl_rlc_type = RLC_MODE_NONE, cl_drb_sn = 12, cl_drb_report = 0, cl_header_compression = 0\<rparr>
      in if srb_flagP b
         then \<lparr>pc_rlc_mode = RLC_MODE_AM, pc_lc_id = rb_idP b + 2, pc_rb_sn = 5, pc_rb_report = 0, pc_header_compression = 0, pc_security_mode = mode, pc_keys = keys\<rparr>
         else \<lparr>pc_rlc_mode = cl_rlc_type s, pc_lc_id = rb_idP b + 2, pc_rb_sn = cl_drb_sn s, pc_rb_report = cl_drb_report s,
                 pc_header_compression = cl_header_compression s, pc_security_mode = mode, pc_keys = keys\<rparr>)"

text \<open>A data bearer over AM, or over UM with numbers of 12 bits.\<close>

definition drb_fits :: "drb_pdcp_config \<Rightarrow> bool" where
  "drb_fits d \<longleftrightarrow> (case dc_rlc_UM d of None \<Rightarrow> dc_rlc_AM d \<noteq> None | Some sn \<Rightarrow> sn = PDCP_SN_Size_len12bits)"

lemma rrc_config_of_fits: "srb_flagP b \<or> drb_fits d \<Longrightarrow> pdcp_config_fits (srb_flagP b) (rrc_config_of b d mode keys)"
  by (auto simp: pdcp_config_fits_def rrc_config_of_def drb_locals_def drb_fits_def Let_def split: option.splits header_compression.splits)

lemma rrc_one_adds:
  assumes "pdcp_bearer_ok b" "pdcp_entity_at l b (rb_idP b) = Some e" "\<not> instanciated_instance e"
  shows "rrc_pdcp_config_asn1_req b (rrc_one b d) mode keys l = Some (pdcp_put_entity b (rb_idP b) (pdcp_config_add b (rrc_config_of b d mode keys) e) l)"
proof -
  note defs = rrc_pdcp_config_asn1_req_def rrc_one_def rrc_add_srb_def rrc_add_drb_def pdcp_add_or_modify_def pdcp_config_entity_def
    pdcp_config_req_asn1_def rrc_config_of_def Let_def
  have rb: "rb_idP b < maxDRB" using assms(1) by (auto simp: pdcp_bearer_ok_def split: if_splits)
  show ?thesis
  proof (cases "srb_flagP b")
    case True
    then have b: "b\<lparr>srb_flagP := True\<rparr> = b" by simp
    show ?thesis using assms(2,3) True by (simp add: defs b)
  next
    case False
    then have b: "b\<lparr>srb_flagP := False\<rparr> = b" by simp
    show ?thesis using assms(2,3) rb False by (simp add: defs b)
  qed
qed

text \<open>A data bearer for which the lists name neither mode of RLC gets numbers of 5 bits, with which no header is made.\<close>

lemma drb_default_size:
  assumes "dc_rlc_AM d = None" "dc_rlc_UM d = None" "\<not> srb_flagP b"
  shows "seq_num_size (pdcp_config_add b (rrc_config_of b d mode keys) e) = 5"
  using assms by (simp add: pdcp_config_add_fields rrc_config_of_def drb_locals_def pdcp_sn_size_of_def Let_def split: header_compression.splits)

text \<open>
  (C32) Two ends of a bearer that RRC configures alike can exchange SDUs: whatever the two unused entities held, the same lists on both sides, for a signalling bearer (SRB 1) or a data bearer over
  AM or over UM with numbers of 12 bits, leave a transmitter that starts with number 0 and a receiver that expects it, with the same algorithms and keys. The list on each side adds this one bearer, one side is UE and the other eNB, and the module and bearer numbers are in range;
  the security mode is either 0xFF with security not active before, or names algorithms 0 to 2 with keys of 32 bytes; the traffic generator is off, and a bearer over AM is not forwarded to GTP-U. (Without a mode of RLC the
  number size of a data bearer stays at 12, which the code takes for 5 bits; numbers of 7 bits are written with the long header and read with the short one.)
\<close>

theorem pdcp_config_establishes:
  assumes "pdcp_bearer_ok b" "b' = b\<lparr>enb_flagP := \<not> enb_flagP b\<rparr>" "srb_flagP b \<or> drb_fits d"
    "pdcp_entity_at lt b (rb_idP b) = Some t" "\<not> instanciated_instance t" "pdcp_entity_at lr b' (rb_idP b') = Some r" "\<not> instanciated_instance r"
    "pdcp_config_secure (srb_flagP b) env (rrc_config_of b d mode keys) t" "pdcp_config_secure (srb_flagP b) env (rrc_config_of b d mode keys) r"
    "\<not> pe_otg_enabled env" "dc_rlc_UM d \<noteq> None \<or> \<not> pdcp_forwarded env b'"
  shows "\<exists>lt' lr' t'. rrc_pdcp_config_asn1_req b (rrc_one b d) mode keys lt = Some lt' \<and> rrc_pdcp_config_asn1_req b' (rrc_one b' d) mode keys lr = Some lr' \<and>
    pdcp_tx_ready env b t' 0 lt' \<and> pdcp_rx_ready env b' t' (srb_flagP b \<or> dc_rlc_UM d \<noteq> None) 0 lr'"
proof -
  let ?c = "rrc_config_of b d mode keys"
  let ?t = "pdcp_config_add b ?c t" and ?r = "pdcp_config_add b' ?c r"
  have b': "pdcp_bearer_ok b'" "srb_flagP b' = srb_flagP b" "rb_idP b' = rb_idP b" "enb_flagP b' = (\<not> enb_flagP b)" "rrc_config_of b' d mode keys = ?c"
    using assms(1,2) by (simp_all add: pdcp_bearer_ok_def rrc_config_of_def Let_def)
  note fits = rrc_config_of_fits[OF assms(3), of mode keys]
  note m = pdcp_config_matched[OF assms(8,9) fits b'(2,4)]
  note f = pdcp_config_add_fields
  have sz: "seq_num_size ?t = sn_bits (srb_flagP b)" "seq_num_size ?r = sn_bits (srb_flagP b')"
    using pdcp_config_add_size fits b'(2) by simp_all
  have "?t = ?t\<lparr>next_pdcp_tx_sn := 0, tx_hfn := 0\<rparr>" by (simp add: pdcp_config_add_def pdcp_setup_security_def pdcp_config_set_security_def)
  then have "\<exists>x h. pdcp_entity_at (pdcp_put_entity b (rb_idP b) ?t lt) b (rb_idP b) = Some (?t\<lparr>next_pdcp_tx_sn := x, tx_hfn := h\<rparr>) \<and> pdcp_tx_at 0 (?t\<lparr>next_pdcp_tx_sn := x, tx_hfn := h\<rparr>)"
    using pdcp_entity_put[OF assms(1), of ?t lt] f(6)[of b ?c t] by metis
  then have tx: "pdcp_tx_ready env b ?t 0 (pdcp_put_entity b (rb_idP b) ?t lt)" using assms(1) f(2) sz(1) m(2) unfolding pdcp_tx_ready_def by blast
  have um: "\<not> srb_flagP b \<Longrightarrow> pc_rlc_mode ?c = (if dc_rlc_UM d \<noteq> None then RLC_MODE_UM else RLC_MODE_AM)"
    using assms(3) by (auto simp: rrc_config_of_def drb_locals_def drb_fits_def Let_def split: option.splits header_compression.splits)
  have lossy: "pdcp_lossy b' ?r = (srb_flagP b \<or> dc_rlc_UM d \<noteq> None)" using b'(2) um by (auto simp: pdcp_lossy_def f)
  have "pdcp_lossy b' ?r \<or> pdcp_rlc_mode ?r = RLC_MODE_AM \<and> \<not> pdcp_forwarded env b' \<and> last_submitted_pdcp_rx_sn ?r = (0 - 1) mod 4096"
    unfolding lossy using um assms(11) by (auto simp: f)
  then have "pdcp_rx_ready env b' ?t (pdcp_lossy b' ?r) 0 (pdcp_put_entity b' (rb_idP b') ?r lr)"
    using b'(1) assms(10) pdcp_entity_put[OF b'(1), of ?r lr] m(1)[folded b'(2)] sz(2) f(7) unfolding pdcp_rx_ready_def by blast
  then show ?thesis using tx rrc_one_adds[OF assms(1,4,5), of d mode keys] rrc_one_adds[OF b'(1) assms(6,7), of d mode keys] unfolding lossy b'(5) by blast
qed

text \<open>A data bearer over AM with SNOW 3G.\<close>

definition pdcp_example_drb :: drb_pdcp_config where
  "pdcp_example_drb = \<lparr>dc_rlc_AM = Some 0, dc_rlc_UM = None, dc_header_compression = Hc_not_used\<rparr>"

definition pdcp_example_keys :: pdcp_keys where
  "pdcp_example_keys = \<lparr>new_kRRCenc = None, new_kRRCint = None, new_kUPenc = Some (replicate 32 1)\<rparr>"

theorem pdcp_config_establishes_witness:
  "\<exists>lt' lr' t'. rrc_pdcp_config_asn1_req (pdcp_example_bearer False) (rrc_one (pdcp_example_bearer False) pdcp_example_drb) 0x11 pdcp_example_keys
      (pdcp_layer_init (pdcp_example_layer RLC_MODE_AM True)) = Some lt' \<and>
    rrc_pdcp_config_asn1_req (pdcp_example_bearer True) (rrc_one (pdcp_example_bearer True) pdcp_example_drb) 0x11 pdcp_example_keys
      (pdcp_layer_init (pdcp_example_layer RLC_MODE_AM False)) = Some lr' \<and>
    pdcp_tx_ready pdcp_example_env (pdcp_example_bearer False) t' 0 lt' \<and> pdcp_rx_ready pdcp_example_env (pdcp_example_bearer True) t' False 0 lr'"
proof -
  let ?b = "pdcp_example_bearer False" and ?b' = "pdcp_example_bearer True"
  have b: "pdcp_bearer_ok ?b" "?b' = ?b\<lparr>enb_flagP := \<not> enb_flagP ?b\<rparr>" "srb_flagP ?b \<or> drb_fits pdcp_example_drb"
    by (simp_all add: pdcp_bearer_ok_def pdcp_example_bearer_def drb_fits_def pdcp_example_drb_def)
  have e: "pdcp_entity_at (pdcp_layer_init (pdcp_example_layer RLC_MODE_AM x)) (pdcp_example_bearer y) (rb_idP (pdcp_example_bearer y)) = Some zero_pdcp" for x y
    by (simp add: pdcp_entity_at_def pdcp_layer_init_def pdcp_example_bearer_def)
  have z: "\<not> instanciated_instance zero_pdcp" by (simp add: zero_pdcp_def)
  have m: "pc_security_mode (rrc_config_of ?b pdcp_example_drb 0x11 pdcp_example_keys) = 0x11" "pc_keys (rrc_config_of ?b pdcp_example_drb 0x11 pdcp_example_keys) = pdcp_example_keys"
    by (simp_all add: rrc_config_of_def Let_def)
  have s: "pdcp_config_secure (srb_flagP ?b) pdcp_example_env (rrc_config_of ?b pdcp_example_drb 0x11 pdcp_example_keys) zero_pdcp"
    unfolding pdcp_config_secure_def m by (simp add: pdcp_example_bearer_def pdcp_example_keys_def pdcp_example_env_def key_from_def ctr_mode_plain)
  have o: "\<not> pe_otg_enabled pdcp_example_env" "dc_rlc_UM pdcp_example_drb \<noteq> None \<or> \<not> pdcp_forwarded pdcp_example_env ?b'"
    by (simp_all add: pdcp_example_env_def pdcp_forwarded_def)
  have f: "(srb_flagP ?b \<or> dc_rlc_UM pdcp_example_drb \<noteq> None) = False" by (simp add: pdcp_example_bearer_def pdcp_example_drb_def)
  show ?thesis using pdcp_config_establishes[OF b e z e z s s o] unfolding f by blast
qed

end
