(* ===== verification/Pdcp_Over_Rlc.thy ===== *)
theory Pdcp_Over_Rlc
  imports Pdcp_Link Rlc_Am_Link Rlc_Um_Link
begin

text \<open>
  PDCP over RLC: the PDUs of one PDCP layer are the SDUs of an RLC entity, and what the RLC entity at the other end delivers goes into the other PDCP layer. The theorems join the
  results on the two layers: over AM everything arrives, over UM a part of it, and it is what was sent.
\<close>

subsection \<open>PDUs of PDCP as SDUs of RLC\<close>

text \<open>The bytes that RLC takes over from a request.\<close>

definition pdcp_pdu :: "rlc_request \<Rightarrow> byte list" where
  "pdcp_pdu rq = take (nat (rq_sdu_size rq)) (rq_sdu rq)"

text \<open>An SDU of RLC arrives at the beginning of a memory block, which has three bytes more for the cipher.\<close>

definition pdcp_in_block :: "byte list \<Rightarrow> byte list \<Rightarrow> bool" where
  "pdcp_in_block d buf \<longleftrightarrow> take (length d) buf = d \<and> length d + 3 \<le> length buf"

definition pdcp_indications :: "byte list list \<Rightarrow> byte list list \<Rightarrow> (int \<times> byte list) list" where
  "pdcp_indications ds bufs = map2 (\<lambda>d buf. (int (length d), buf)) ds bufs"

lemma pdcp_pdu_length:
  assumes "pdcp_request_of env b e N q rq" "pdcp_item_ok (srb_flagP b) q"
  shows "int (length (pdcp_pdu rq)) = rq_sdu_size rq"
  using assms by (simp add: pdcp_pdu_def pdcp_request_of_def pdcp_item_ok_def pdcp_block_ok_def)

text \<open>PDUs of the requests with increasing numbers, each within reach.\<close>

fun pdcp_reachable :: "bool \<Rightarrow> bool \<Rightarrow> nat \<Rightarrow> int \<Rightarrow> nat list \<Rightarrow> bool" where
  "pdcp_reachable srb lossy k R [] = True"
| "pdcp_reachable srb lossy k R (n # ns) = (n < k \<and> pdcp_in_reach srb lossy R (int n) \<and> pdcp_reachable srb lossy k (int n + 1) ns)"

lemma pdcp_arrivals_of:
  assumes "pdcp_requests_of env b e N qs rqs" "\<forall>q\<in>set qs. pdcp_item_ok (srb_flagP b) q"
  shows "pdcp_reachable (srb_flagP b) lossy (length qs) R ns \<Longrightarrow> list_all2 pdcp_in_block (map (\<lambda>n. pdcp_pdu (rqs ! n)) ns) bufs \<Longrightarrow>
    pdcp_arrivals (srb_flagP b) lossy qs rqs R ns (pdcp_indications (map (\<lambda>n. pdcp_pdu (rqs ! n)) ns) bufs)"
proof (induction ns arbitrary: R bufs)
  case (Cons n ns)
  obtain buf bufs' where b: "bufs = buf # bufs'" "pdcp_in_block (pdcp_pdu (rqs ! n)) buf" "list_all2 pdcp_in_block (map (\<lambda>n. pdcp_pdu (rqs ! n)) ns) bufs'"
    using Cons.prems(2) by (auto simp: list_all2_Cons1)
  have n: "n < length qs" "pdcp_in_reach (srb_flagP b) lossy R (int n)" "pdcp_reachable (srb_flagP b) lossy (length qs) (int n + 1) ns" using Cons.prems(1) by simp_all
  have q: "pdcp_request_of env b e (N + int n) (qs ! n) (rqs ! n)" "pdcp_item_ok (srb_flagP b) (qs ! n)" using pdcp_requests_nth[OF assms(1)] assms(2) n(1) by auto
  note len = pdcp_pdu_length[OF q]
  let ?h = "pdcp_header_len (srb_flagP b)" and ?d = "length (it_sdu (qs ! n))"
  have sz: "rq_sdu_size (rqs ! n) = int (pdcp_pdu_bytes (srb_flagP b) ?h ?d)" using q(1) by (simp add: pdcp_request_of_def)
  have "?h + 4 * ((?d + 3) div 4) \<le> ?h + ?d + 3" by simp
  moreover have "?h + ?d \<le> pdcp_pdu_bytes (srb_flagP b) ?h ?d" by (simp add: pdcp_pdu_bytes_def)
  moreover have "pdcp_pdu_bytes (srb_flagP b) ?h ?d + 3 \<le> length buf" using b(2) len unfolding sz by (simp add: pdcp_in_block_def)
  ultimately have "pdcp_block_ok (srb_flagP b) ?h ?d buf" unfolding pdcp_block_ok_def by linarith
  moreover have "take (nat (rq_sdu_size (rqs ! n))) buf = take (nat (rq_sdu_size (rqs ! n))) (rq_sdu (rqs ! n))"
    using b(2) len by (simp add: pdcp_in_block_def flip: pdcp_pdu_def) (metis nat_int)
  ultimately show ?case using Cons.IH[OF n(3) b(3)] n(1,2) b(1) len by (simp add: pdcp_indications_def)
qed (simp add: pdcp_indications_def)

text \<open>What arrives is delivered.\<close>

lemma pdcp_over_rlc:
  assumes "pdcp_requests_of env bt e N qs rqs" "\<forall>q\<in>set qs. pdcp_item_ok (srb_flagP bt) q" "pdcp_rx_ready env br e lossy N lr"
    "srb_flagP br = srb_flagP bt" "rb_idP br = rb_idP bt" "pdcp_reachable (srb_flagP br) lossy (length qs) 0 ns"
    "list_all2 pdcp_in_block (map (\<lambda>n. pdcp_pdu (rqs ! n)) ns) bufs"
  shows "\<exists>lr'. pdcp_receive env br (pdcp_indications (map (\<lambda>n. pdcp_pdu (rqs ! n)) ns) bufs) lr = Some lr' \<and>
    pdcp_delivered env br lr' = pdcp_delivered env br lr @ map (\<lambda>n. it_sdu (qs ! n)) ns"
proof -
  have "pdcp_rx_ready env br e lossy (N + 0) lr" using assms(3) by simp
  moreover have "pdcp_arrivals (srb_flagP br) lossy qs rqs 0 ns (pdcp_indications (map (\<lambda>n. pdcp_pdu (rqs ! n)) ns) bufs)"
    using pdcp_arrivals_of[OF assms(1,2), of lossy 0 ns bufs] assms(4,6,7) by simp
  ultimately show ?thesis using pdcp_receive_run[OF assms(1,2,4,5), of lossy 0 lr ns] by blast
qed

text \<open>The first \<open>k\<close> of them, without a gap.\<close>

lemma pdcp_reachable_upt: "k \<le> m \<Longrightarrow> pdcp_reachable srb lossy m (int i) [i..<k]"
proof (induction "k - i" arbitrary: i)
  case (Suc x)
  have i: "i < k" using Suc.hyps(2) by linarith
  have "pdcp_reachable srb lossy m (int (Suc i)) [Suc i..<k]" using Suc.hyps(2) Suc.prems by (intro Suc.hyps(1)) linarith+
  then show ?case using i Suc.prems unfolding upt_conv_Cons[OF i] by (simp add: pdcp_in_reach_def add.commute)
qed simp

subsection \<open>Over AM\<close>


subsection \<open>Over UM\<close>

lemma subseq_of_map: "subseq xs (map f ys) \<Longrightarrow> \<exists>zs. subseq zs ys \<and> xs = map f zs"
proof (induction ys arbitrary: xs)
  case (Cons y ys)
  show ?case
  proof (cases "subseq xs (map f ys)")
    case True
    then show ?thesis using Cons.IH by (blast intro: list_emb_Cons)
  next
    case False
    with Cons.prems obtain xs' where x: "xs = f y # xs'" "subseq xs' (map f ys)" by (auto elim: list_emb.cases)
    then obtain zs where "subseq zs ys" "xs' = map f zs" using Cons.IH by blast
    then show ?thesis using x(1) by (intro exI[of _ "y # zs"]) simp
  qed
qed (auto dest: list_emb_Nil2)

text \<open>Less than a cycle of numbers never gets out of reach.\<close>

lemma pdcp_reachable_subseq:
  "subseq ns [i..<k] \<Longrightarrow> R \<le> int i \<Longrightarrow> 0 \<le> R \<Longrightarrow> k \<le> m \<Longrightarrow> int k \<le> 2 ^ sn_bits srb \<Longrightarrow> pdcp_reachable srb True m R ns"
proof (induction "k - i" arbitrary: i R ns)
  case (Suc x)
  have i: "i < k" and x: "x = k - Suc i" using Suc.hyps(2) by linarith+
  show ?case
  proof (cases "subseq ns [Suc i..<k]")
    case True
    then show ?thesis using Suc.prems by (intro Suc.hyps(1)[OF x]) simp_all
  next
    case False
    with Suc.prems(1) obtain ns' where n: "ns = i # ns'" "subseq ns' [Suc i..<k]" unfolding upt_conv_Cons[OF i] by (auto elim: list_emb.cases)
    have "pdcp_reachable srb True m (int i + 1) ns'" using n(2) Suc.prems by (intro Suc.hyps(1)[OF x]) simp_all
    moreover have "int i < R + 2 ^ sn_bits srb" using i Suc.prems(3,5) by linarith
    then have "pdcp_in_reach srb True R (int i)" using Suc.prems(2) unfolding pdcp_in_reach_def by simp
    ultimately show ?thesis using n(1) i Suc.prems(4) by simp
  qed
qed (auto dest: list_emb_Nil2)


text \<open>Two SDUs over entities that have just been set up.\<close>

lemma pdcp_example_items: "\<forall>q\<in>set [pdcp_example_item, pdcp_example_item]. pdcp_item_ok (srb_flagP (pdcp_example_bearer False)) q"
  using pdcp_example_ok by (simp add: pdcp_example_bearer_def)

lemma pdcp_example_fields: "srb_flagP (pdcp_example_bearer x) = False" "rb_idP (pdcp_example_bearer x) = 1"
  by (simp_all add: pdcp_example_bearer_def)



end
