(* ===== verification/Spec2Isabelle.thy ===== *)
theory Spec2Isabelle
  imports Prelude Rlc_Am_Types Rlc_Am_Windows Rlc_Am_Timers Rlc_Am_Holes Rlc_Am_Sdu
    Rlc_Am_Init Rlc_Am_Bitfield Rlc_Am_Status Rlc_Am_Retransmit Rlc_Am_Control Rlc_Am_Rx_List
    Rlc_Am_Reassembly Rlc_Am_Header Rlc_Am_Receiver Rlc_Am_Independence Rlc_Am_Segment
    Rlc_Am_Segmentation Rlc_Am_Segment_Pdu Lossless_Link Rlc_Am_Link Rlc_Am_Send_Status
    Rlc_Am_Resegment Rlc_Am_Parts Rlc_Am_Mac Rlc_Am_Grant Rlc_Am_Recovery
    Block_List Block_List2 Mem_Block Sdu_Framing Rlc_Um_Types Rlc_Um_Reassembly
    Rlc_Um_Header Rlc_Um_Dar Rlc_Um_Reorder Rlc_Um_Receiver Rlc_Um_Control Rlc_Um_Segment Rlc_Um_Entity
    Rlc_Um_Delivery Rlc_Um_Segmentation Rlc_Um_Link Osa_Snow3g Osa_Eea Osa_Eia Pdcp_Sequence Pdcp_Header Pdcp_Security
    Pdcp_Data Pdcp_Pdu Pdcp_Link Pdcp_Config Pdcp_Over_Rlc
begin

text \<open>
  The layer-2 user plane of OpenAirInterface: the RLC acknowledged-mode (AM) entity of TS 36.322 in
  \<^verbatim>\<open>src/openair2/LAYER2/RLC/AM_v9.3.0\<close>, the unacknowledged-mode (UM) entity in \<^verbatim>\<open>src/openair2/LAYER2/RLC/UM_v9.3.0\<close>,
  the lists and the pools of memory blocks under them in \<^verbatim>\<open>src/openair2/UTIL\<close>, and PDCP above them in
  \<^verbatim>\<open>src/openair2/LAYER2/PDCP_v10.1.0\<close> with the stream ciphers and integrity codes of \<^verbatim>\<open>src/openair2/UTIL/OSA\<close>.

  \<^bold>\<open>The program's parts and how they interact.\<close> PDCP hands SDUs to an AM entity (\<^verbatim>\<open>rlc_am_data_req\<close>), which
  queues them in a ring. MAC asks the entity how much it has to send (\<^verbatim>\<open>rlc_am_mac_status_indication\<close>) and then
  grants a number of bytes (\<^verbatim>\<open>rlc_am_mac_data_request\<close>). A grant is served by a status report if one is due, by
  a PDU reported missing, or by a new PDU cut from the queue (\<^verbatim>\<open>rlc_am_segment_10\<close>). A sent PDU stays in the
  retransmission buffer until the peer acknowledges it. MAC hands received blocks to \<^verbatim>\<open>rlc_am_mac_data_indication\<close>:
  status reports release or schedule PDUs of the retransmission buffer, data PDUs go to the reception buffer,
  from which the PDUs in sequence are reassembled and delivered to PDCP. Blocks of memory travel in lists
  and come from pools. A UM entity has the same interface without reports and retransmissions: \<^verbatim>\<open>rlc_um_segment_10\<close> and
  \<^verbatim>\<open>rlc_um_segment_5\<close> cut PDUs with a sequence number of 10 or 5 bits, and the receiver (\<^verbatim>\<open>rlc_um_dar.c\<close>: duplicate avoidance and
  reordering) stores PDUs in a window, waits for the missing ones until t-Reordering expires, and reassembles what is there. PDCP gives each SDU
  a sequence number and, if security is active, an integrity code and a cipher (\<^verbatim>\<open>pdcp_data_req\<close>); its receiver takes the number and the frame number from the header,
  deciphers the PDU (\<^verbatim>\<open>pdcp_data_ind\<close>) and hands the SDU to RRC, to GTP-U or to the IP driver. RRC sets up both ends (\<^verbatim>\<open>rrc_pdcp_config_asn1_req\<close>).

  \<^bold>\<open>Conventions.\<close> A C struct is a record with the source's field names (prefixed where two structs share a name);
  arrays of the entity are functions from indices; pointers into a PDU are offsets. Counters and sequence
  numbers are \<open>int\<close>, with the modulus or mask of the code written out; frame numbers are 32-bit words. A
  failing assertion, a read or a store outside an array and the end of the process are \<open>None\<close>. What the
  entity hands to PDCP and MAC is appended to the fields \<open>log_data_ind\<close>, \<open>log_data_conf\<close> and the lists of blocks for
  MAC. Loops whose end is not obvious from their arguments are \<^verbatim>\<open>partial_function (option)\<close>, so that a loop that
  does not end has the value \<open>None\<close> too; every theorem that says an operation returns proves \<open>Some\<close>. No fuel is used.
  Contents of a fresh memory block are an argument (\<open>junk\<close>), so results do not depend on it unless a theorem says so.

  \<^bold>\<open>Theories.\<close> In the order of the code:

  \<^item> \<^verbatim>\<open>Prelude\<close>: integer types, assertions, collections of simplification rules, facts on lists and residues.
  \<^item> \<^verbatim>\<open>Rlc_Am_Types\<close>: \<^verbatim>\<open>rlc_am_structs.h\<close>, \<^verbatim>\<open>rlc_am_entity.h\<close> as records.
  \<^item> \<^verbatim>\<open>Rlc_Am_Windows\<close>: \<^verbatim>\<open>rlc_am_windows.c\<close>. The windows are arcs of 512 numbers, the comparisons strict linear orders
    (locales \<open>sn_window\<close>, \<open>sn_compare\<close>).
  \<^item> \<^verbatim>\<open>Rlc_Am_Timers\<close>: the three timer files. A timer expires after its duration, across the wrap of the frame counter
    (locale \<open>rlc_timer\<close>).
  \<^item> \<^verbatim>\<open>Rlc_Am_Holes\<close>: \<^verbatim>\<open>rlc_am_segments_holes.c\<close>, the missing byte ranges of a sent PDU and their invariant.
  \<^item> \<^verbatim>\<open>Rlc_Am_Sdu\<close>: \<^verbatim>\<open>rlc_am_in_sdu.c\<close> and \<^verbatim>\<open>rlc_am_data_req\<close>; the ring refines a bounded queue (locale \<open>bounded_fifo\<close>).
  \<^item> \<^verbatim>\<open>Rlc_Am_Init\<close>: \<^verbatim>\<open>rlc_am_init.c\<close>, the configuration requests of \<^verbatim>\<open>rlc_am.c\<close>, the key of the collection of entities.
  \<^item> \<^verbatim>\<open>Rlc_Am_Bitfield\<close>, \<^verbatim>\<open>Rlc_Am_Status\<close>: bit fields, encoder and decoder of status reports, their round trip
    (locale \<open>bit_writer\<close>).
  \<^item> \<^verbatim>\<open>Rlc_Am_Retransmit\<close>: acknowledgement, copies and the polling decision; the invariant of the transmit window.
  \<^item> \<^verbatim>\<open>Rlc_Am_Control\<close>: the handler of received status reports.
  \<^item> \<^verbatim>\<open>Rlc_Am_Rx_List\<close>: \<^verbatim>\<open>rlc_am_rx_list.c\<close>, ordered insertion and completeness of segments.
  \<^item> \<^verbatim>\<open>Rlc_Am_Reassembly\<close>: \<^verbatim>\<open>rlc_am_reassembly.c\<close> and the delivery loop against the framing of SDUs as a function on
    lists of bytes (locale \<open>sdu_builder\<close>).
  \<^item> \<^verbatim>\<open>Rlc_Am_Header\<close>, \<^verbatim>\<open>Rlc_Am_Receiver\<close>: \<^verbatim>\<open>rlc_am_receiver.c\<close>; the handler of data PDUs refines a reordering buffer.
  \<^item> \<^verbatim>\<open>Rlc_Am_Independence\<close>: the frame of each direction, for arbitrary bytes.
  \<^item> \<^verbatim>\<open>Rlc_Am_Segment\<close>, \<^verbatim>\<open>Rlc_Am_Segmentation\<close>, \<^verbatim>\<open>Rlc_Am_Segment_Pdu\<close>: \<^verbatim>\<open>rlc_am_segment.c\<close>, its effect on the queue and the
    PDU as the peer decodes it.
  \<^item> \<^verbatim>\<open>Rlc_Am_Send_Status\<close>: the construction of a report from the reception buffer.
  \<^item> \<^verbatim>\<open>Rlc_Am_Resegment\<close>, \<^verbatim>\<open>Rlc_Am_Parts\<close>: segments of a retransmitted PDU, and that receiving them is receiving the PDU.
  \<^item> \<^verbatim>\<open>Rlc_Am_Mac\<close>, \<^verbatim>\<open>Rlc_Am_Grant\<close>: the interface to MAC in \<^verbatim>\<open>rlc_am.c\<close> and what a grant sends.
  \<^item> \<^verbatim>\<open>Lossless_Link\<close>, \<^verbatim>\<open>Rlc_Am_Link\<close>, \<^verbatim>\<open>Rlc_Am_Recovery\<close>: two entities together, over a channel that loses nothing
    (locale \<open>lossless_link\<close>) and through the loss of a PDU.
  \<^item> \<^verbatim>\<open>Block_List\<close>, \<^verbatim>\<open>Block_List2\<close>: \<^verbatim>\<open>list.c\<close> and \<^verbatim>\<open>list2.c\<close> on an explicit heap of blocks (locale \<open>block_queue\<close>, interpreted
    on both). \<^verbatim>\<open>Mem_Block\<close>: \<^verbatim>\<open>mem_block.c\<close>, the allocator as a state machine of allocations and releases.

  \<^item> \<^verbatim>\<open>Sdu_Framing\<close>: the framing of SDUs as functions on lists of bytes, shared by the reassembly of both modes.
  \<^item> \<^verbatim>\<open>Rlc_Um_Types\<close>: \<^verbatim>\<open>rlc_um_structs.h\<close>, \<^verbatim>\<open>rlc_um_entity.h\<close> as records.
  \<^item> \<^verbatim>\<open>Rlc_Um_Reassembly\<close>, \<^verbatim>\<open>Rlc_Um_Header\<close>: \<^verbatim>\<open>rlc_um_reassembly.c\<close> and the parts of \<^verbatim>\<open>rlc_um_dar.c\<close> that decode a PDU: reassembly of one PDU is
    a function of its bytes and of what was kept (a second interpretation of \<open>sdu_builder\<close>).
  \<^item> \<^verbatim>\<open>Rlc_Um_Dar\<close>: \<^verbatim>\<open>rlc_um_dar.c\<close> and \<^verbatim>\<open>rlc_um_receiver.c\<close>, the handler of a PDU and the expiry of the timer.
  \<^item> \<^verbatim>\<open>Rlc_Um_Reorder\<close>, \<^verbatim>\<open>Rlc_Um_Receiver\<close>: the receiver over unbounded numbers of which the entity stores residues: windows, runs of
    reassembly, the invariant and that every step of the handler keeps it; the loops end.
  \<^item> \<^verbatim>\<open>Rlc_Um_Control\<close>: \<^verbatim>\<open>rlc_um_fsm.c\<close>, \<^verbatim>\<open>rlc_um_control_primitives.c\<close> (Rel10 compiled in).
  \<^item> \<^verbatim>\<open>Rlc_Um_Segment\<close>, \<^verbatim>\<open>Rlc_Um_Segmentation\<close>: \<^verbatim>\<open>rlc_um_segment.c\<close>, one model with the variant as an argument, and the PDU as the
    peer decodes it.
  \<^item> \<^verbatim>\<open>Rlc_Um_Entity\<close>: \<^verbatim>\<open>rlc_um.c\<close>.
  \<^item> \<^verbatim>\<open>Rlc_Um_Delivery\<close>: the receiver refines an abstract machine of arrivals and expiries (\<open>um_spec\<close>).
  \<^item> \<^verbatim>\<open>Rlc_Um_Link\<close>: two entities together, over a channel that loses, repeats and reorders PDUs within a window, and over one that loses
    nothing (a second interpretation of \<open>lossless_link\<close>).

  \<^item> \<^verbatim>\<open>Osa_Snow3g\<close>: \<^verbatim>\<open>snow3g.c\<close> and the tables of \<^verbatim>\<open>osa_rijndael.c\<close>, the generator SNOW 3G.
  \<^item> \<^verbatim>\<open>Osa_Eea\<close>: \<^verbatim>\<open>osa_stream_eea.c\<close>, the ciphers EEA0, EEA1 and EEA2; what a cipher of a stream is, is the locale \<open>stream_cipher\<close>.
  \<^item> \<^verbatim>\<open>Osa_Eia\<close>: \<^verbatim>\<open>osa_stream_eia.c\<close>, the integrity codes EIA1 and EIA2; a code depends on the bytes of the message only. AES in
    counter mode and the code CMAC come from the libraries nettle and OpenSSL and are arguments.
  \<^item> \<^verbatim>\<open>Pdcp_Sequence\<close>: \<^verbatim>\<open>pdcp_sequence_manager.c\<close>, the numbers and the frame numbers of both directions as one unbounded counter.
  \<^item> \<^verbatim>\<open>Pdcp_Header\<close>: \<^verbatim>\<open>pdcp_primitives.c\<close>, the headers and their round trips. \<^verbatim>\<open>Pdcp_Security\<close>: \<^verbatim>\<open>pdcp_security.c\<close>, with the
    ciphers above; what one end protects, the other restores and accepts.
  \<^item> \<^verbatim>\<open>Pdcp_Data\<close>, \<^verbatim>\<open>Pdcp_Pdu\<close>: \<^verbatim>\<open>pdcp_data_req\<close> and \<^verbatim>\<open>pdcp_data_ind\<close> of \<^verbatim>\<open>pdcp.c\<close>, and one PDU from the one to the other.
  \<^item> \<^verbatim>\<open>Pdcp_Link\<close>: two PDCP layers at the ends of a bearer. \<^verbatim>\<open>Pdcp_Config\<close>: the configuration by RRC leaves two ends that understand
    each other. \<^verbatim>\<open>Pdcp_Over_Rlc\<close>: two PDCP layers over the AM and over the UM link.

  \<^bold>\<open>Bounds.\<close> The theorems on UM state the bounds of the C arithmetic: SDUs of less than 2048 bytes (a length indicator has 11 bits); at most
  24 waiting SDUs at a grant, so that a PDU has at most 23 length indicators (the receiver refuses 24); a grant below 32768 bytes
  (sizes are 16-bit); and a channel that reorders PDUs by less than a window (512 numbers of 10 bits, 16 of 5 bits). Those on AM segmentation: at most 31
  waiting SDUs, each below 2048 bytes and on fewer than 31 PDUs, a grant below 9000 bytes. Those on PDCP: SDUs of 1 to 1500 bytes, numbers of 5 bits on a signalling
  bearer and of 12 bits on a data bearer, and memory blocks with room for whole 32-bit words.

  \<^bold>\<open>Scope of the hypotheses.\<close> Insertion and reception are proved for stored numbers that do not pass the wrap of the
  number space; across the wrap the code can store a PDU out of order, which lemmas of \<^verbatim>\<open>Rlc_Am_Rx_List\<close> show on
  instances. Reception and reassembly are proved for PDUs with positive length indicators and SDUs of at most 9000 bytes, the reassembly buffer; retransmission for
  counters that have not wrapped. Each property names the hypotheses it has, and lemmas show what the code does outside them where that is a fault: \<^verbatim>\<open>empty_length_indicator_aborts\<close>,
  \<^verbatim>\<open>counter_wraps\<close>, \<^verbatim>\<open>full_window_ack_ignored\<close>, \<^verbatim>\<open>unused_byte_is_delivered\<close>, \<^verbatim>\<open>front_insertion_leaves_array\<close>, \<^verbatim>\<open>double_free_makes_ring\<close>, \<^verbatim>\<open>gtpu_bearer_loses_count\<close>, \<^verbatim>\<open>am_wrap_loses_cycle\<close>.
  AES in counter mode adds a stream given by key and counter block (\<open>ctr_mode\<close>) and CMAC gives 16 bytes: these are hypotheses on the libraries. The RLC theorems take blocks of memory as available; \<^verbatim>\<open>Mem_Block\<close> shows when an allocation succeeds.

  \<^bold>\<open>Not modelled.\<close> Log output, traces and the mutex of the SDU queue have no effect on the results. RLC TM has no
  protocol of its own. Of PDCP, the loop over messages (\<^verbatim>\<open>pdcp_run\<close>), the queues to the IP driver (\<^verbatim>\<open>pdcp_fifo.c\<close>, \<^verbatim>\<open>pdcp_netlink.c\<close>) and the
  derivation of keys are left out; what PDCP hands to its neighbours is appended to logs. The dispatch of primitives to entities (\<^verbatim>\<open>rlc.c\<close>) is glue over a hash table, which itself is
  code over threads. MAC schedules from measured channel state; RRC and the S1 interface work on ASN.1 structures
  the build generates; PHY is signal processing in SIMD intrinsics; the core network under \<^verbatim>\<open>openair-cn\<close> is a separate program.
\<close>

end
